(* ===== verification/Prelude.thy ===== *)
theory Prelude
  imports Main "HOL-Library.Word"
begin

unbundle bit_operations_syntax

text \<open>
  The vocabulary every component shares: the machine integers and byte strings of the Rust
  code, its fallible results, and the fixed-width little-endian fields the wire formats are
  assembled from.

  A \<open>u8\<close>, \<open>u16\<close>, \<open>u32\<close> or \<open>u64\<close> that takes part in bit operations or can wrap is a
  machine word of that width. A slice, \<open>Vec<u8>\<close> or \<open>[u8; N]\<close> is a list of bytes; that an
  array has length N is part of the well-formedness predicate of the record holding it. A
  \<open>usize\<close> is a natural number: lengths and offsets of data in memory, on a 64-bit target. A
  \<open>Result<T, E>\<close> is the sum \<open>E + T\<close>, an \<open>Option<T>\<close> is \<open>T option\<close>, and the question
  mark operator is \<open>tryq\<close>, whose first argument is the \<open>From\<close> conversion of the error.
\<close>

section \<open>Types\<close>

type_synonym u8 = "8 word"
type_synonym u16 = "16 word"
type_synonym u32 = "32 word"
type_synonym u64 = "64 word"
type_synonym u128 = "128 word"
type_synonym bytes = "u8 list"

named_theorems wf_defs \<open>the length conditions that Rust's array types impose on the records\<close>
named_theorems wire \<open>a field reader meeting the bytes its writer put\<close>
named_theorems elims \<open>what a step that succeeded says of its parts\<close>

section \<open>Results\<close>

definition tryq :: "('e \<Rightarrow> 'f) \<Rightarrow> 'e + 'a \<Rightarrow> ('a \<Rightarrow> 'f + 'b) \<Rightarrow> 'f + 'b" where
  "tryq conv m k = (case m of Inl e \<Rightarrow> Inl (conv e) | Inr a \<Rightarrow> k a)"

abbreviation bindr :: "'e + 'a \<Rightarrow> ('a \<Rightarrow> 'e + 'b) \<Rightarrow> 'e + 'b" where
  "bindr \<equiv> tryq id"

definition ok_or :: "'e \<Rightarrow> 'a option \<Rightarrow> 'e + 'a" where
  "ok_or e m = (case m of None \<Rightarrow> Inl e | Some a \<Rightarrow> Inr a)"

definition ok :: "'e + 'a \<Rightarrow> 'a option" where
  "ok m = (case m of Inl _ \<Rightarrow> None | Inr a \<Rightarrow> Some a)"

definition map_err :: "('e \<Rightarrow> 'f) \<Rightarrow> 'e + 'a \<Rightarrow> 'f + 'a" where
  "map_err f m = (case m of Inl e \<Rightarrow> Inl (f e) | Inr a \<Rightarrow> Inr a)"

text \<open>\<open>r.field(..).ok()?\<close> in a function that returns an option.\<close>

definition okq :: "'e + 'a \<Rightarrow> ('a \<Rightarrow> 'b option) \<Rightarrow> 'b option" where
  "okq m k = Option.bind (ok m) k"

text \<open>\<open>out[at..at + n].copy_from_slice(src)\<close> for a source of the length of the range.\<close>

definition copy_at :: "nat \<Rightarrow> 'a list \<Rightarrow> 'a list \<Rightarrow> 'a list" where
  "copy_at pos src out = take pos out @ src @ drop (pos + length src) out"

section \<open>Little-endian and big-endian bytes\<close>

fun le_bytes :: "nat \<Rightarrow> nat \<Rightarrow> bytes" where
  "le_bytes 0 k = []"
| "le_bytes (Suc n) k = word_of_nat (k mod 256) # le_bytes n (k div 256)"

fun le_val :: "bytes \<Rightarrow> nat" where
  "le_val [] = 0"
| "le_val (b # bs) = unat b + 256 * le_val bs"

definition be_val :: "bytes \<Rightarrow> nat" where
  "be_val bs = le_val (rev bs)"

definition put_u16_le :: "u16 \<Rightarrow> bytes" where
  "put_u16_le w = le_bytes 2 (unat w)"

definition put_u32_le :: "u32 \<Rightarrow> bytes" where
  "put_u32_le w = le_bytes 4 (unat w)"

definition put_u64_le :: "u64 \<Rightarrow> bytes" where
  "put_u64_le w = le_bytes 8 (unat w)"

definition u16_from_le :: "bytes \<Rightarrow> u16" where
  "u16_from_le bs = word_of_nat (le_val bs)"

definition u32_from_le :: "bytes \<Rightarrow> u32" where
  "u32_from_le bs = word_of_nat (le_val bs)"

definition u64_from_le :: "bytes \<Rightarrow> u64" where
  "u64_from_le bs = word_of_nat (le_val bs)"

section \<open>Saturating and checked arithmetic\<close>

definition sat_add :: "'a::len word \<Rightarrow> 'a word \<Rightarrow> 'a word" where
  "sat_add x y = (if unat x + unat y < 2 ^ LENGTH('a) then x + y else - 1)"

definition sat_sub :: "'a::len word \<Rightarrow> 'a word \<Rightarrow> 'a word" where
  "sat_sub x y = (if x < y then 0 else x - y)"

text \<open>The casts \<open>n as u16\<close>, \<open>n as u32\<close> and \<open>n as u64\<close> of a length: truncation to the width.\<close>

definition as_u16 :: "nat \<Rightarrow> u16" where
  "as_u16 n = word_of_nat n"

definition as_u32 :: "nat \<Rightarrow> u32" where
  "as_u32 n = word_of_nat n"

definition as_u64 :: "nat \<Rightarrow> u64" where
  "as_u64 n = word_of_nat n"

definition find_index :: "('a \<Rightarrow> bool) \<Rightarrow> 'a list \<Rightarrow> nat option" where
  "find_index P xs = (let n = length (takeWhile (\<lambda>x. \<not> P x) xs) in if n < length xs then Some n else None)"

section \<open>Lemmas on results\<close>

lemma tryq_simps [simp]:
  "tryq conv (Inr a) k = k a"
  "tryq conv (Inl e) k = Inl (conv e)"
  by (simp_all add: tryq_def)

lemma tryq_cong [fundef_cong]:
  "m = m' \<Longrightarrow> (\<And>a. m' = Inr a \<Longrightarrow> k a = k' a) \<Longrightarrow> tryq conv m k = tryq conv m' k'"
  by (cases m') (simp_all add: tryq_def)

lemma tryq_Inr_iff: "tryq conv m k = Inr b \<longleftrightarrow> (\<exists>a. m = Inr a \<and> k a = Inr b)"
  by (cases m) auto

lemma tryq_InrE [elims]:
  assumes "tryq conv m k = Inr b"
  obtains a where "m = Inr a" "k a = Inr b"
  using assms by (cases m) auto

lemma ok_or_simps [simp]: "ok_or e None = Inl e" "ok_or e (Some a) = Inr a"
  by (simp_all add: ok_or_def)

lemma ok_or_Inr_iff [simp]: "ok_or e m = Inr a \<longleftrightarrow> m = Some a"
  by (cases m) auto

lemma ok_simps [simp]: "ok (Inl e) = None" "ok (Inr a) = Some a"
  by (simp_all add: ok_def)

lemma ok_Some_iff [simp]: "ok m = Some a \<longleftrightarrow> m = Inr a"
  by (cases m) auto

lemma map_err_simps [simp]: "map_err f (Inl e) = Inl (f e)" "map_err f (Inr a) = Inr a"
  by (simp_all add: map_err_def)

lemma map_err_Inr_iff [simp]: "map_err f m = Inr a \<longleftrightarrow> m = Inr a"
  by (cases m) auto

lemma okq_simps [simp]: "okq (Inr a) k = k a" "okq (Inl e) k = None"
  by (simp_all add: okq_def)

lemma okq_Some_iff: "okq m k = Some b \<longleftrightarrow> (\<exists>a. m = Inr a \<and> k a = Some b)"
  by (cases m) auto

lemma length_copy_at [simp]:
  "pos + length src \<le> length out \<Longrightarrow> length (copy_at pos src out) = length out"
  by (simp add: copy_at_def)

section \<open>Lemmas on byte fields\<close>

lemma length_le_bytes [simp]: "length (le_bytes n k) = n"
  by (induction n arbitrary: k) auto

lemma length_put [simp]:
  "length (put_u16_le a) = 2" "length (put_u32_le b) = 4" "length (put_u64_le c) = 8"
  by (simp_all add: put_u16_le_def put_u32_le_def put_u64_le_def)

lemma put_nonempty [simp]:
  "put_u16_le a \<noteq> []" "put_u32_le b \<noteq> []" "put_u64_le c \<noteq> []"
  by (metis length_put list.size(3) zero_neq_numeral)+

lemma unat_u8_lt: "unat (b :: u8) < 256"
  using unsigned_less [of b, where 'a = nat] by simp

lemma le_val_le_bytes: "le_val (le_bytes n k) = k mod 256 ^ n"
proof (induction n arbitrary: k)
  case (Suc n)
  have "unat (word_of_nat (k mod 256) :: u8) = k mod 256"
    by (simp add: unat_of_nat)
  then show ?case
    using Suc by (simp add: mod_mult2_eq)
qed simp

lemma le_val_lt: "le_val bs < 256 ^ length bs"
proof (induction bs)
  case (Cons b bs)
  have "unat b < 256" by (rule unat_u8_lt)
  with Cons show ?case by (simp add: less_eq_Suc_le algebra_simps)
qed simp

lemma le_bytes_le_val: "le_bytes (length bs) (le_val bs) = bs"
proof (induction bs)
  case (Cons b bs)
  have "unat b < 256" by (rule unat_u8_lt)
  then show ?case using Cons by simp
qed simp

lemma le_val_append: "le_val (xs @ ys) = le_val xs + 256 ^ length xs * le_val ys"
  by (induction xs) (simp_all add: algebra_simps)

lemma le_val_inject: "length xs = length ys \<Longrightarrow> le_val xs = le_val ys \<longleftrightarrow> xs = ys"
  by (metis le_bytes_le_val)

lemma from_put [simp]:
  "u16_from_le (put_u16_le a) = a"
  "u32_from_le (put_u32_le b) = b"
  "u64_from_le (put_u64_le c) = c"
  using unsigned_less [of a, where 'a = nat] unsigned_less [of b, where 'a = nat]
    unsigned_less [of c, where 'a = nat]
  by (simp_all add: u16_from_le_def u32_from_le_def u64_from_le_def put_u16_le_def
      put_u32_le_def put_u64_le_def le_val_le_bytes)

lemma put_from:
  "length xs = 2 \<Longrightarrow> put_u16_le (u16_from_le xs) = xs"
  "length xs = 4 \<Longrightarrow> put_u32_le (u32_from_le xs) = xs"
  "length xs = 8 \<Longrightarrow> put_u64_le (u64_from_le xs) = xs"
  using le_val_lt [of xs] le_bytes_le_val [of xs]
  by (simp_all add: u16_from_le_def u32_from_le_def u64_from_le_def put_u16_le_def
      put_u32_le_def put_u64_le_def unat_of_nat)

lemma put_inject [simp]:
  "put_u16_le a = put_u16_le a' \<longleftrightarrow> a = a'"
  "put_u32_le b = put_u32_le b' \<longleftrightarrow> b = b'"
  "put_u64_le c = put_u64_le c' \<longleftrightarrow> c = c'"
  by (metis from_put)+

lemma unat_from_le:
  "length xs = 2 \<Longrightarrow> unat (u16_from_le xs) = le_val xs"
  "length xs = 4 \<Longrightarrow> unat (u32_from_le xs) = le_val xs"
  "length xs = 8 \<Longrightarrow> unat (u64_from_le xs) = le_val xs"
  using le_val_lt [of xs]
  by (simp_all add: u16_from_le_def u32_from_le_def u64_from_le_def unat_of_nat)

lemma le_bytes_4:
  "le_bytes 4 k = [word_of_nat (k mod 256), word_of_nat (k div 256 mod 256),
     word_of_nat (k div 65536 mod 256), word_of_nat (k div 16777216 mod 256)]"
proof -
  have "(4 :: nat) = Suc (Suc (Suc (Suc 0)))" by simp
  then show ?thesis by (simp only: le_bytes.simps) (simp add: div_mult2_eq [symmetric])
qed

lemma be_val_Nil [simp]: "be_val [] = 0"
  by (simp add: be_val_def)

lemma be_val_Cons: "be_val (b # bs) = unat b * 256 ^ length bs + be_val bs"
  by (simp add: be_val_def le_val_append)

lemma be_val_append: "be_val (xs @ ys) = be_val xs * 256 ^ length ys + be_val ys"
  by (simp add: be_val_def le_val_append)

lemma be_val_lt: "be_val bs < 256 ^ length bs"
  using le_val_lt [of "rev bs"] by (simp add: be_val_def)

lemma be_val_replicate_zero [simp]: "be_val (replicate n 0) = 0"
  by (induction n) (simp_all add: be_val_Cons)

lemma be_val_inject: "length xs = length ys \<Longrightarrow> be_val xs = be_val ys \<longleftrightarrow> xs = ys"
  by (simp add: be_val_def le_val_inject)

lemma be_val_eq_0_iff: "be_val bs = 0 \<longleftrightarrow> (\<forall>b \<in> set bs. b = 0)"
  by (induction bs) (auto simp: be_val_Cons unat_eq_zero)

section \<open>Lemmas on arithmetic and lists\<close>

lemma unat_sat_add: "unat (sat_add x y) = min (unat x + unat y) (2 ^ LENGTH('a) - 1)"
  for x y :: "'a::len word"
  by (auto simp: sat_add_def unat_word_ariths unsigned_minus_1_eq_mask mask_eq_exp_minus_1 min_def)

lemma unat_sat_sub: "unat (sat_sub x y) = unat x - unat y"
  by (auto simp: sat_sub_def word_less_nat_alt not_less word_le_nat_alt unat_sub)

lemma unat_pow2 [simp]: "k < LENGTH('a::len) \<Longrightarrow> unat (2 ^ k :: 'a word) = 2 ^ k"
proof -
  assume "k < LENGTH('a)"
  moreover have "(2 ^ k :: 'a word) = word_of_nat (2 ^ k)" by simp
  ultimately show ?thesis by (simp only: unat_of_nat) simp
qed

lemma unat_ucast_small:
  "unat (n :: 'a::len word) < 2 ^ LENGTH('b::len) \<Longrightarrow> unat (ucast n :: 'b word) = unat n"
  by (simp add: unsigned_ucast_eq take_bit_nat_eq_self)

lemma ucast_ucast_id:
  fixes n :: "'a::len word"
  assumes "unat n < 2 ^ LENGTH('b::len)"
  shows "ucast (ucast n :: 'b word) = n"
proof -
  have m: "unat (ucast n :: 'b word) = unat n"
    using assms by (rule unat_ucast_small)
  then have "unat (ucast (ucast n :: 'b word) :: 'a word) = unat (ucast n :: 'b word)"
    by (intro unat_ucast_small) (simp only: m unsigned_less)
  with m show ?thesis
    by (simp only: word_unat_eq_iff)
qed

lemma unat_ucast_up [simp]:
  "LENGTH('a::len) \<le> LENGTH('b::len) \<Longrightarrow> unat (ucast (n :: 'a word) :: 'b word) = unat n"
  by (rule unat_ucast_small)
    (meson less_le_trans one_le_numeral power_increasing unsigned_less)

lemma ucast_down_up [simp]:
  "LENGTH('a::len) \<le> LENGTH('b::len) \<Longrightarrow> ucast (ucast (n :: 'a word) :: 'b word) = n"
  by (rule ucast_ucast_id) (meson less_le_trans one_le_numeral power_increasing unsigned_less)

lemma unat_word_lt:
  "unat (a :: u8) < 256" "unat (b :: u16) < 65536" "unat (c :: u32) < 4294967296"
  "unat (d :: u64) < 18446744073709551616"
  using unsigned_less [of a, where 'a = nat] unsigned_less [of b, where 'a = nat]
    unsigned_less [of c, where 'a = nat] unsigned_less [of d, where 'a = nat]
  by simp_all

lemma unat_cast:
  "k < 65536 \<Longrightarrow> unat (as_u16 k) = k" "m < 4294967296 \<Longrightarrow> unat (as_u32 m) = m"
  "n < 18446744073709551616 \<Longrightarrow> unat (as_u64 n) = n"
  by (simp_all add: as_u16_def as_u32_def as_u64_def unat_of_nat)

lemma cast_0 [simp]: "as_u16 0 = 0" "as_u32 0 = 0" "as_u64 0 = 0"
  by (simp_all add: as_u16_def as_u32_def as_u64_def)

lemma replicate_update3:
  assumes "p + 3 \<le> n"
  shows "(replicate n z)[p := a, p + 1 := b, p + 2 := c] = replicate p z @ [a, b, c] @ replicate (n - p - 3) z"
  using assms by (intro nth_equalityI) (auto simp: nth_append nth_list_update nth_Cons')

lemma replicate_update1:
  "p < n \<Longrightarrow> (replicate n z)[p := a] = replicate p z @ a # replicate (n - p - 1) z"
  by (intro nth_equalityI) (auto simp: nth_append nth_list_update nth_Cons')

lemma find_index_Some:
  assumes "find_index P xs = Some i"
  shows "i < length xs" "P (xs ! i)" "\<forall>j < i. \<not> P (xs ! j)"
proof -
  let ?t = "takeWhile (\<lambda>x. \<not> P x) xs"
  have i: "i = length ?t" and lt: "length ?t < length xs"
    using assms by (auto simp: find_index_def Let_def split: if_splits)
  show "i < length xs" using i lt by simp
  show "P (xs ! i)" using nth_length_takeWhile [OF lt] i by simp
  show "\<forall>j < i. \<not> P (xs ! j)"
    using i by (metis nth_mem set_takeWhileD takeWhile_nth)
qed

lemma find_index_None: "find_index P xs = None \<longleftrightarrow> (\<forall>x \<in> set xs. \<not> P x)"
proof -
  have "find_index P xs = None \<longleftrightarrow> length (takeWhile (\<lambda>x. \<not> P x) xs) = length xs"
    using length_takeWhile_le [of "\<lambda>x. \<not> P x" xs] by (auto simp: find_index_def Let_def)
  also have "\<dots> \<longleftrightarrow> takeWhile (\<lambda>x. \<not> P x) xs = xs"
    by (metis takeWhile_eq_take take_all_iff order_refl)
  also have "\<dots> \<longleftrightarrow> (\<forall>x \<in> set xs. \<not> P x)"
    by (simp add: takeWhile_eq_all_conv)
  finally show ?thesis .
qed

lemma find_index_prefix: "P x \<Longrightarrow> \<forall>y \<in> set xs. \<not> P y \<Longrightarrow> find_index P (xs @ x # ys) = Some (length xs)"
  by (simp add: find_index_def Let_def takeWhile_append2)

lemma push_bit_or_add:
  assumes "(x :: nat) < 2 ^ n"
  shows "push_bit n a OR x = a * 2 ^ n + x"
proof -
  have "push_bit n a AND take_bit n x = 0"
    by (rule bit_eqI) (auto simp: bit_simps)
  then have "push_bit n a AND x = 0" using assms by (simp add: take_bit_nat_eq_self)
  then show ?thesis by (simp add: disjunctive_add_eq_or flip: push_bit_eq_mult)
qed

lemma unat_push_or:
  fixes a b :: "'a::len word"
  assumes "unat a * 2 ^ n < 2 ^ LENGTH('a)" "unat b < 2 ^ n"
  shows "unat (push_bit n a OR b) = unat a * 2 ^ n + unat b"
proof -
  have "push_bit n (unat a) < 2 ^ LENGTH('a)"
    using assms(1) by (simp add: push_bit_eq_mult)
  then have "unat (push_bit n a) = push_bit n (unat a)"
    by (simp only: unsigned_push_bit_eq take_bit_nat_eq_self)
  then show ?thesis using assms(2) by (simp add: unsigned_or_eq push_bit_or_add)
qed

lemma be_val_ff: "be_val (replicate n 0xff) = 256 ^ n - 1"
proof (induction n)
  case (Suc n)
  have "(1 :: nat) \<le> 256 ^ n" by simp
  with Suc show ?case by (simp add: be_val_Cons del: of_nat_numeral)
qed simp

lemma le_val_ff: "le_val (replicate n 0xff) = 256 ^ n - 1"
  using be_val_ff [of n] by (simp add: be_val_def)

end
