(* ===== verification/Reader.thy ===== *)
theory Reader
  imports Prelude
begin

text \<open>
  The cursor over a byte slice (\<^verbatim>\<open>core/src/reader.rs\<close>) every decoder of the program reads
  through. A read returns the field and the cursor after it, or names the field the input ran
  out of bytes in; a read that fails leaves the caller's cursor where it was, because the
  cursor is returned only on success.

  The \<open>wire\<close> collection gives, for each reader, what it returns on the bytes its writer put:
  a round-trip proof of a whole message is then one simplification.
\<close>

section \<open>The cursor\<close>

datatype truncated = Truncated string

record byte_reader =
  br_full :: bytes
  br_rest :: bytes

definition rd_new :: "bytes \<Rightarrow> byte_reader" where
  "rd_new data = \<lparr>br_full = data, br_rest = data\<rparr>"

definition rd_pos :: "byte_reader \<Rightarrow> nat" where
  "rd_pos r = length (br_full r) - length (br_rest r)"

definition rd_at_end :: "byte_reader \<Rightarrow> bool" where
  "rd_at_end r = (br_rest r = [])"

definition rd_peek2 :: "byte_reader \<Rightarrow> (u8 \<times> u8) option" where
  "rd_peek2 r = (case br_rest r of a # b # _ \<Rightarrow> Some (a, b) | _ \<Rightarrow> None)"

definition rd_take :: "nat \<Rightarrow> string \<Rightarrow> byte_reader \<Rightarrow> truncated + (bytes \<times> byte_reader)" where
  "rd_take n what r =
     (if length (br_rest r) < n then Inl (Truncated what)
      else Inr (take n (br_rest r), r\<lparr>br_rest := drop n (br_rest r)\<rparr>))"

definition rd_advance :: "nat \<Rightarrow> string \<Rightarrow> byte_reader \<Rightarrow> truncated + byte_reader" where
  "rd_advance n what r = bindr (rd_take n what r) (\<lambda>(_, r). Inr r)"

definition rd_arr :: "nat \<Rightarrow> string \<Rightarrow> byte_reader \<Rightarrow> truncated + (bytes \<times> byte_reader)" where
  "rd_arr n what r = rd_take n what r"

definition rd_u8 :: "string \<Rightarrow> byte_reader \<Rightarrow> truncated + (u8 \<times> byte_reader)" where
  "rd_u8 what r = (case br_rest r of [] \<Rightarrow> Inl (Truncated what) | b # bs \<Rightarrow> Inr (b, r\<lparr>br_rest := bs\<rparr>))"

definition rd_u16 :: "string \<Rightarrow> byte_reader \<Rightarrow> truncated + (u16 \<times> byte_reader)" where
  "rd_u16 what r = bindr (rd_take 2 what r) (\<lambda>(bs, r). Inr (u16_from_le bs, r))"

definition rd_u32 :: "string \<Rightarrow> byte_reader \<Rightarrow> truncated + (u32 \<times> byte_reader)" where
  "rd_u32 what r = bindr (rd_take 4 what r) (\<lambda>(bs, r). Inr (u32_from_le bs, r))"

definition rd_u64 :: "string \<Rightarrow> byte_reader \<Rightarrow> truncated + (u64 \<times> byte_reader)" where
  "rd_u64 what r = bindr (rd_take 8 what r) (\<lambda>(bs, r). Inr (u64_from_le bs, r))"

text \<open>The loops \<open>for _ in 0..n\<close> of the decoders: \<open>n\<close> times the body, stopping at an error.\<close>

fun rd_times :: "nat \<Rightarrow> (byte_reader \<Rightarrow> 'e + ('a \<times> byte_reader)) \<Rightarrow> byte_reader \<Rightarrow> 'e + ('a list \<times> byte_reader)" where
  "rd_times 0 p r = Inr ([], r)"
| "rd_times (Suc n) p r =
     bindr (p r) (\<lambda>(x, r). bindr (rd_times n p r) (\<lambda>(xs, r). Inr (x # xs, r)))"

text \<open>A reader state whose rest is a suffix of the slice it was opened on.\<close>

definition wf_reader :: "byte_reader \<Rightarrow> bool" where
  "wf_reader r = (\<exists>k. br_rest r = drop k (br_full r))"

section \<open>Strings: UTF-8 as the standard library reads it\<close>

text \<open>
  A \<open>String\<close> is its UTF-8 bytes. \<open>utf8_step\<close> looks at the front of a non-empty byte string:
  how many bytes make the next character and whether they are well formed; when they are not,
  how many bytes \<open>String::from_utf8_lossy\<close> replaces by one U+FFFD (the longest prefix of a
  well-formed character, at least one byte).
\<close>

definition utf8_cont :: "u8 \<Rightarrow> bool" where
  "utf8_cont b = (0x80 \<le> b \<and> b \<le> 0xBF)"

definition utf8_second :: "u8 \<Rightarrow> u8 \<Rightarrow> bool" where
  "utf8_second a b =
     (if a = 0xE0 then 0xA0 \<le> b \<and> b \<le> 0xBF
      else if a = 0xED then 0x80 \<le> b \<and> b \<le> 0x9F
      else if a = 0xF0 then 0x90 \<le> b \<and> b \<le> 0xBF
      else if a = 0xF4 then 0x80 \<le> b \<and> b \<le> 0x8F
      else utf8_cont b)"

definition utf8_width :: "u8 \<Rightarrow> nat" where
  "utf8_width a =
     (if a < 0x80 then 1
      else if 0xC2 \<le> a \<and> a \<le> 0xDF then 2
      else if 0xE0 \<le> a \<and> a \<le> 0xEF then 3
      else if 0xF0 \<le> a \<and> a \<le> 0xF4 then 4
      else 0)"

definition utf8_step :: "bytes \<Rightarrow> nat \<times> bool" where
  "utf8_step bs = (case bs of [] \<Rightarrow> (1, True) | a # rest \<Rightarrow>
     (let w = utf8_width a in
      if w = 0 then (1, False)
      else if w = 1 then (1, True)
      else case rest of [] \<Rightarrow> (1, False) | b # rest2 \<Rightarrow>
        if \<not> utf8_second a b then (1, False)
        else if w = 2 then (2, True)
        else case rest2 of [] \<Rightarrow> (2, False) | c # rest3 \<Rightarrow>
          if \<not> utf8_cont c then (2, False)
          else if w = 3 then (3, True)
          else case rest3 of [] \<Rightarrow> (3, False) | d # _ \<Rightarrow>
            if utf8_cont d then (4, True) else (3, False)))"

lemma utf8_step_pos: "0 < fst (utf8_step bs)"
  by (auto simp: utf8_step_def Let_def split: list.split)

lemma utf8_step_shrinks: "bs \<noteq> [] \<Longrightarrow> (n, v) = utf8_step bs \<Longrightarrow> length (drop n bs) < length bs"
  using utf8_step_pos [of bs] by (cases "utf8_step bs") (cases bs, auto)

function from_utf8_lossy :: "bytes \<Rightarrow> bytes" where
  "from_utf8_lossy bs =
     (if bs = [] then []
      else let (n, valid) = utf8_step bs in
        (if valid then take n bs else [0xEF, 0xBF, 0xBD]) @ from_utf8_lossy (drop n bs))"
  by pat_completeness auto
termination
  by (relation "measure length") (simp, metis in_measure utf8_step_shrinks)

function utf8_valid :: "bytes \<Rightarrow> bool" where
  "utf8_valid bs =
     (if bs = [] then True
      else let (n, valid) = utf8_step bs in if valid then utf8_valid (drop n bs) else False)"
  by pat_completeness auto
termination
  by (relation "measure length") (simp, metis in_measure utf8_step_shrinks)

definition from_utf8 :: "bytes \<Rightarrow> unit + bytes" where
  "from_utf8 bs = (if utf8_valid bs then Inr bs else Inl ())"

declare from_utf8_lossy.simps [simp del] utf8_valid.simps [simp del]

section \<open>Lemmas: the cursor\<close>

lemma rd_new_sel [simp]: "br_full (rd_new data) = data" "br_rest (rd_new data) = data"
  by (simp_all add: rd_new_def)

lemma rd_take_append [wire]:
  "length xs = n \<Longrightarrow>
     rd_take n what \<lparr>br_full = f, br_rest = xs @ t\<rparr> = Inr (xs, \<lparr>br_full = f, br_rest = t\<rparr>)"
  by (simp add: rd_take_def)

lemma rd_take_all [wire]:
  "length xs = n \<Longrightarrow>
     rd_take n what \<lparr>br_full = f, br_rest = xs\<rparr> = Inr (xs, \<lparr>br_full = f, br_rest = []\<rparr>)"
  using rd_take_append [of xs n what f "[]"] by simp

lemma rd_arr_append [wire]:
  "length xs = n \<Longrightarrow>
     rd_arr n what \<lparr>br_full = f, br_rest = xs @ t\<rparr> = Inr (xs, \<lparr>br_full = f, br_rest = t\<rparr>)"
  by (simp add: rd_arr_def rd_take_append)

lemma rd_advance_append [wire]:
  "length xs = n \<Longrightarrow>
     rd_advance n what \<lparr>br_full = f, br_rest = xs @ t\<rparr> = Inr \<lparr>br_full = f, br_rest = t\<rparr>"
  by (simp add: rd_advance_def rd_take_append)

lemma rd_u8_Cons [wire]:
  "rd_u8 what \<lparr>br_full = f, br_rest = b # t\<rparr> = Inr (b, \<lparr>br_full = f, br_rest = t\<rparr>)"
  by (simp add: rd_u8_def)

lemma rd_u8_Nil [wire]: "rd_u8 what \<lparr>br_full = f, br_rest = []\<rparr> = Inl (Truncated what)"
  by (simp add: rd_u8_def)

lemma rd_put [wire]:
  "rd_u16 what \<lparr>br_full = f, br_rest = put_u16_le a @ t\<rparr> = Inr (a, \<lparr>br_full = f, br_rest = t\<rparr>)"
  "rd_u32 what \<lparr>br_full = f, br_rest = put_u32_le b @ t\<rparr> = Inr (b, \<lparr>br_full = f, br_rest = t\<rparr>)"
  "rd_u64 what \<lparr>br_full = f, br_rest = put_u64_le c @ t\<rparr> = Inr (c, \<lparr>br_full = f, br_rest = t\<rparr>)"
  by (simp_all add: rd_u16_def rd_u32_def rd_u64_def rd_take_append)

lemma rd_arr_all [wire]:
  "length xs = n \<Longrightarrow> rd_arr n what \<lparr>br_full = f, br_rest = xs\<rparr> = Inr (xs, \<lparr>br_full = f, br_rest = []\<rparr>)"
  by (simp add: rd_arr_def rd_take_all)

lemma rd_put_all [wire]:
  "rd_u16 what \<lparr>br_full = f, br_rest = put_u16_le a\<rparr> = Inr (a, \<lparr>br_full = f, br_rest = []\<rparr>)"
  "rd_u32 what \<lparr>br_full = f, br_rest = put_u32_le b\<rparr> = Inr (b, \<lparr>br_full = f, br_rest = []\<rparr>)"
  "rd_u64 what \<lparr>br_full = f, br_rest = put_u64_le c\<rparr> = Inr (c, \<lparr>br_full = f, br_rest = []\<rparr>)"
  by (simp_all add: rd_u16_def rd_u32_def rd_u64_def rd_take_all)

lemmas reader_defs = rd_take_def rd_advance_def rd_arr_def rd_u8_def rd_u16_def rd_u32_def rd_u64_def

text \<open>What a successful read says: the bytes it consumed are the field.\<close>

lemma rd_take_Inr_iff:
  "rd_take n what r = Inr (xs, r') \<longleftrightarrow>
     br_rest r = xs @ br_rest r' \<and> length xs = n \<and> br_full r' = br_full r"
  by (auto simp: rd_take_def)

lemma rd_arr_Inr_iff:
  "rd_arr n what r = Inr (xs, r') \<longleftrightarrow>
     br_rest r = xs @ br_rest r' \<and> length xs = n \<and> br_full r' = br_full r"
  by (simp add: rd_arr_def rd_take_Inr_iff)

lemma rd_u8_Inr_iff:
  "rd_u8 what r = Inr (b, r') \<longleftrightarrow> br_rest r = b # br_rest r' \<and> br_full r' = br_full r"
  by (auto simp: rd_u8_def split: list.splits)

lemma rd_u16_Inr_iff:
  "rd_u16 what r = Inr (a, r') \<longleftrightarrow> br_rest r = put_u16_le a @ br_rest r' \<and> br_full r' = br_full r"
  by (auto simp: rd_u16_def tryq_Inr_iff rd_take_Inr_iff put_from)

lemma rd_u32_Inr_iff:
  "rd_u32 what r = Inr (a, r') \<longleftrightarrow> br_rest r = put_u32_le a @ br_rest r' \<and> br_full r' = br_full r"
  by (auto simp: rd_u32_def tryq_Inr_iff rd_take_Inr_iff put_from)

lemma rd_u64_Inr_iff:
  "rd_u64 what r = Inr (a, r') \<longleftrightarrow> br_rest r = put_u64_le a @ br_rest r' \<and> br_full r' = br_full r"
  by (auto simp: rd_u64_def tryq_Inr_iff rd_take_Inr_iff put_from)

lemma rd_advance_Inr_iff:
  "rd_advance n what r = Inr r' \<longleftrightarrow>
     (\<exists>xs. br_rest r = xs @ br_rest r' \<and> length xs = n) \<and> br_full r' = br_full r"
  by (auto simp: rd_advance_def tryq_Inr_iff rd_take_Inr_iff)

lemmas rd_Inr_iff = rd_take_Inr_iff rd_arr_Inr_iff rd_u8_Inr_iff rd_u16_Inr_iff rd_u32_Inr_iff
  rd_u64_Inr_iff rd_advance_Inr_iff

text \<open>The part of the above a decoder's proof needs: what was read is what stood there.\<close>

lemma rd_restD:
  "rd_take n what r = Inr (xs, r') \<Longrightarrow> br_rest r = xs @ br_rest r' \<and> length xs = n"
  "rd_arr n what r = Inr (xs, r') \<Longrightarrow> br_rest r = xs @ br_rest r' \<and> length xs = n"
  "rd_u8 what r = Inr (b, r') \<Longrightarrow> br_rest r = b # br_rest r'"
  "rd_u16 what r = Inr (u, r') \<Longrightarrow> br_rest r = put_u16_le u @ br_rest r'"
  "rd_u32 what r = Inr (v, r') \<Longrightarrow> br_rest r = put_u32_le v @ br_rest r'"
  "rd_u64 what r = Inr (w, r') \<Longrightarrow> br_rest r = put_u64_le w @ br_rest r'"
  by (simp_all add: rd_Inr_iff)

lemma rd_times_append:
  assumes "\<And>x t. x \<in> set xs \<Longrightarrow>
      p \<lparr>br_full = f, br_rest = enc x @ t\<rparr> = Inr (x, \<lparr>br_full = f, br_rest = t\<rparr>)"
  shows "rd_times (length xs) p \<lparr>br_full = f, br_rest = concat (map enc xs) @ t\<rparr> =
      Inr (xs, \<lparr>br_full = f, br_rest = t\<rparr>)"
  using assms by (induction xs) simp_all

lemma rd_times_length: "rd_times n p r = Inr (xs, r') \<Longrightarrow> length xs = n"
  by (induction n arbitrary: r xs r') (auto elim!: tryq_InrE split: prod.splits)

section \<open>Lemmas: strings\<close>

lemma utf8_valid_unfold:
  "bs \<noteq> [] \<Longrightarrow> utf8_step bs = (n, v) \<Longrightarrow> utf8_valid bs \<longleftrightarrow> v \<and> utf8_valid (drop n bs)"
  by (simp add: utf8_valid.simps [of bs])

lemma from_utf8_lossy_valid [simp]: "utf8_valid bs \<Longrightarrow> from_utf8_lossy bs = bs"
proof (induction bs rule: from_utf8_lossy.induct)
  case (1 bs)
  show ?case
  proof (cases "bs = []")
    case True
    then show ?thesis by (simp add: from_utf8_lossy.simps)
  next
    case False
    obtain n v where st: "utf8_step bs = (n, v)" by fastforce
    with 1(2) False have v: "v" and "utf8_valid (drop n bs)"
      by (simp_all add: utf8_valid_unfold)
    then have "from_utf8_lossy (drop n bs) = drop n bs"
      using 1(1) False st by simp
    then show ?thesis using False st v by (simp add: from_utf8_lossy.simps [of bs])
  qed
qed

lemma utf8_valid_Nil [simp]: "utf8_valid []"
  by (simp add: utf8_valid.simps)

lemma utf8_valid_ascii: "\<forall>b \<in> set bs. b < 0x80 \<Longrightarrow> utf8_valid bs"
proof (induction bs)
  case (Cons b bs)
  then have "utf8_step (b # bs) = (1, True)"
    by (simp add: utf8_step_def utf8_width_def)
  with Cons show ?case
    by (simp add: utf8_valid_unfold)
qed simp

end
