(* ===== verification/Bitcoin.thy ===== *)
theory Bitcoin
  imports Reader
begin

text \<open>
  The block primitives of \<^verbatim>\<open>core/src/bitcoin.rs\<close>: double SHA-256, the merkle tree and the
  branches of the coinbase path, CompactSize, and block serialization. SHA-256 itself is the
  \<^verbatim>\<open>sha2\<close> crate, so it is the parameter \<open>sha\<close> of every definition that hashes; no lemma here
  assumes anything of it.

  The branch list a gateway computes from the other transactions of a template is compared
  with the merkle root of the whole block: folding the branches over the coinbase transaction
  id gives the root of the tree that holds it first.
\<close>

section \<open>Hashes and merkle trees\<close>

definition HASH_SIZE :: nat where
  "HASH_SIZE = 32"

definition sha256d :: "(bytes \<Rightarrow> bytes) \<Rightarrow> bytes \<Rightarrow> bytes" where
  "sha256d sha data = sha (sha data)"

definition reversed :: "bytes \<Rightarrow> bytes" where
  "reversed hash = rev hash"

definition hash_pair :: "(bytes \<Rightarrow> bytes) \<Rightarrow> bytes \<Rightarrow> bytes \<Rightarrow> bytes" where
  "hash_pair sha left right = sha256d sha (left @ right)"

fun chunks2 :: "('a \<Rightarrow> 'a \<Rightarrow> 'b) \<Rightarrow> 'a list \<Rightarrow> 'b list" where
  "chunks2 f (a # b # xs) = f a b # chunks2 f xs"
| "chunks2 f _ = []"

definition next_level :: "'a list \<Rightarrow> ('a \<Rightarrow> 'a \<Rightarrow> 'a) \<Rightarrow> 'a list" where
  "next_level level hash =
     chunks2 hash (if length level mod 2 = 1 then level @ [last level] else level)"

definition merkle_root_from_branches :: "(bytes \<Rightarrow> bytes) \<Rightarrow> bytes \<Rightarrow> bytes list \<Rightarrow> bytes" where
  "merkle_root_from_branches sha coinbase_txid branches =
     fold (\<lambda>b acc. hash_pair sha acc b) branches coinbase_txid"

lemma length_chunks2: "length (chunks2 f xs) = length xs div 2"
  by (induction f xs rule: chunks2.induct) auto

lemma length_next_level: "length (next_level level hash) = (length level + 1) div 2"
  by (auto simp: next_level_def length_chunks2)

text \<open>
  The levels hold \<open>None\<close> on the coinbase path, whose hash is not known yet. A \<open>None\<close> read as a
  sibling is the code's \<open>expect\<close> panicking, so the loop returns an option.
\<close>

function merkle_branches_loop ::
  "(bytes \<Rightarrow> bytes) \<Rightarrow> bytes option list \<Rightarrow> bytes list option" where
  "merkle_branches_loop sha level =
     (if 1 < length level then
        Option.bind (level ! 1) (\<lambda>sibling.
          map_option ((#) sibling)
            (merkle_branches_loop sha
              (next_level level (\<lambda>a b. Option.bind a (\<lambda>a. map_option (hash_pair sha a) b)))))
      else Some [])"
  by pat_completeness auto
termination
  by (relation "measure (\<lambda>(sha, level). length level)") (auto simp: length_next_level)

definition merkle_branches :: "(bytes \<Rightarrow> bytes) \<Rightarrow> bytes list \<Rightarrow> bytes list option" where
  "merkle_branches sha txids =
     (if txids = [] then Some [] else merkle_branches_loop sha (None # map Some txids))"

record merkle_tree_root_t =
  mt_root :: bytes
  mt_mutated :: bool

function merkle_tree_loop :: "(bytes \<Rightarrow> bytes) \<Rightarrow> bytes list \<Rightarrow> bool \<Rightarrow> bytes \<times> bool" where
  "merkle_tree_loop sha level mutated =
     (if 1 < length level then
        merkle_tree_loop sha (next_level level (hash_pair sha))
          (mutated \<or> list_ex id (chunks2 (=) level))
      else (level ! 0, mutated))"
  by pat_completeness auto
termination
  by (relation "measure (\<lambda>(sha, level, m). length level)") (auto simp: length_next_level)

definition merkle_tree_root :: "(bytes \<Rightarrow> bytes) \<Rightarrow> bytes list \<Rightarrow> merkle_tree_root_t option" where
  "merkle_tree_root sha txids =
     (if txids = [] then None
      else let (root, mutated) = merkle_tree_loop sha txids False
        in Some \<lparr>mt_root = root, mt_mutated = mutated\<rparr>)"

declare merkle_branches_loop.simps [simp del] merkle_tree_loop.simps [simp del]

section \<open>CompactSize\<close>

datatype tx_error =
    TxTruncated truncated
  | BadCompactSize
  | NotCoinbase
  | InputNotNull
  | LengthOverflow string
  | TrailingBytes nat
  | NoInputs

definition COMPACT_SIZE_U16_TAG :: u8 where "COMPACT_SIZE_U16_TAG = 0xfd"
definition COMPACT_SIZE_U32_TAG :: u8 where "COMPACT_SIZE_U32_TAG = 0xfe"
definition COMPACT_SIZE_U64_TAG :: u8 where "COMPACT_SIZE_U64_TAG = 0xff"
definition COMPACT_SIZE_MAX_1 :: u64 where "COMPACT_SIZE_MAX_1 = 0xfc"
definition COMPACT_SIZE_MAX_2 :: u64 where "COMPACT_SIZE_MAX_2 = 0xffff"
definition COMPACT_SIZE_MAX_4 :: u64 where "COMPACT_SIZE_MAX_4 = 0xffffffff"

definition encode_compact_size :: "u64 \<Rightarrow> bytes" where
  "encode_compact_size n =
     (if n \<le> COMPACT_SIZE_MAX_1 then [ucast n]
      else if n \<le> COMPACT_SIZE_MAX_2 then COMPACT_SIZE_U16_TAG # put_u16_le (ucast n)
      else if n \<le> COMPACT_SIZE_MAX_4 then COMPACT_SIZE_U32_TAG # put_u32_le (ucast n)
      else COMPACT_SIZE_U64_TAG # put_u64_le n)"

definition decode_compact_size :: "byte_reader \<Rightarrow> tx_error + (u64 \<times> byte_reader)" where
  "decode_compact_size c =
     tryq TxTruncated (rd_u8 ''compact size'' c) (\<lambda>(first, c).
     bindr
       (if first = COMPACT_SIZE_U16_TAG then
          tryq TxTruncated (rd_u16 ''compact size'' c)
            (\<lambda>(v, c). Inr (ucast v, COMPACT_SIZE_MAX_1 + 1, c))
        else if first = COMPACT_SIZE_U32_TAG then
          tryq TxTruncated (rd_u32 ''compact size'' c)
            (\<lambda>(v, c). Inr (ucast v, COMPACT_SIZE_MAX_2 + 1, c))
        else if first = COMPACT_SIZE_U64_TAG then
          tryq TxTruncated (rd_u64 ''compact size'' c)
            (\<lambda>(v, c). Inr (v, COMPACT_SIZE_MAX_4 + 1, c))
        else Inr (ucast first, 0, c))
       (\<lambda>(v, minimum, c). if v < minimum then Inl BadCompactSize else Inr (v, c)))"

definition serialize_block :: "bytes \<Rightarrow> bytes \<Rightarrow> bytes list \<Rightarrow> bytes" where
  "serialize_block header coinbase other_txns =
     header @ encode_compact_size (word_of_nat (length other_txns) + 1) @ coinbase
       @ concat other_txns"

lemmas compact_size_consts =
  COMPACT_SIZE_U16_TAG_def COMPACT_SIZE_U32_TAG_def COMPACT_SIZE_U64_TAG_def
  COMPACT_SIZE_MAX_1_def COMPACT_SIZE_MAX_2_def COMPACT_SIZE_MAX_4_def

section \<open>Lemmas: the coinbase path\<close>

text \<open>Both trees climb one level the same way: the first entry is hashed with its sibling.\<close>

lemma next_level_Cons2:
  "next_level (a # b # xs) f =
     f a b # (if xs = [] then [] else next_level xs f)"
  by (auto simp: next_level_def)

lemma chunks2_map:
  "(\<And>a b. f (g a) (g b) = g (h a b)) \<Longrightarrow> chunks2 f (map g xs) = map g (chunks2 h xs)"
  by (induction h xs rule: chunks2.induct) simp_all

lemma next_level_map:
  assumes "\<And>a b. f (g a) (g b) = g (h a b)"
  shows "xs \<noteq> [] \<Longrightarrow> next_level (map g xs) f = map g (next_level xs h)"
  using chunks2_map [where f = f and g = g and h = h, OF assms]
    chunks2_map [where f = f and g = g and h = h and xs = "xs @ [last xs]", OF assms]
  by (simp add: next_level_def last_map)

lemma branches_agree_with_tree:
  "\<exists>branches. merkle_branches_loop sha (None # map Some xs) = Some branches \<and>
     merkle_root_from_branches sha acc branches = fst (merkle_tree_loop sha (acc # xs) m)"
proof (induction "length xs" arbitrary: xs acc m rule: less_induct)
  case less
  show ?case
  proof (cases xs)
    case Nil
    then show ?thesis
      by (simp add: merkle_branches_loop.simps merkle_tree_loop.simps merkle_root_from_branches_def)
  next
    case (Cons x ys)
    let ?f = "\<lambda>a b. Option.bind a (\<lambda>a. map_option (hash_pair sha a) b)"
    define ys' where "ys' = (if ys = [] then [] else next_level ys (hash_pair sha))"
    have up: "next_level (None # map Some xs) ?f = None # map Some ys'"
      using next_level_map [of ?f Some "hash_pair sha" ys]
      by (simp add: Cons next_level_Cons2 ys'_def)
    have up2: "next_level (acc # xs) (hash_pair sha) = hash_pair sha acc x # ys'"
      by (simp add: Cons next_level_Cons2 ys'_def)
    have "length ys' < length xs"
      by (simp add: ys'_def Cons length_next_level)
    then obtain bs where
      "merkle_branches_loop sha (None # map Some ys') = Some bs"
      "merkle_root_from_branches sha (hash_pair sha acc x) bs =
         fst (merkle_tree_loop sha (hash_pair sha acc x # ys')
               (m \<or> list_ex id (chunks2 (=) (acc # xs))))"
      using less by blast
    then show ?thesis
      using up up2
      by (subst merkle_branches_loop.simps, subst merkle_tree_loop.simps)
        (simp add: Cons merkle_root_from_branches_def)
  qed
qed

lemma merkle_branches_complete:
  obtains branches where "merkle_branches sha txids = Some branches"
    "merkle_root_from_branches sha coinbase branches =
       fst (merkle_tree_loop sha (coinbase # txids) False)"
proof (cases "txids = []")
  case True
  then have "merkle_branches sha txids = Some []" by (simp add: merkle_branches_def)
  moreover have "merkle_root_from_branches sha coinbase [] =
      fst (merkle_tree_loop sha (coinbase # txids) False)"
    by (simp add: True merkle_root_from_branches_def merkle_tree_loop.simps)
  ultimately show thesis by (rule that)
next
  case False
  with branches_agree_with_tree [of sha txids coinbase False] that show thesis
    by (auto simp: merkle_branches_def)
qed

section \<open>Lemmas: CompactSize\<close>

lemma encode_compact_size_Cons: "encode_compact_size n \<noteq> []"
  by (simp add: encode_compact_size_def)

lemma decode_encode_compact_size [wire]:
  "decode_compact_size \<lparr>br_full = f, br_rest = encode_compact_size n @ t\<rparr> =
     Inr (n, \<lparr>br_full = f, br_rest = t\<rparr>)"
proof -
  consider "unat n \<le> 0xfc" | "0xfc < unat n" "unat n \<le> 0xffff"
    | "0xffff < unat n" "unat n \<le> 0xffffffff" | "0xffffffff < unat n"
    by linarith
  then show ?thesis
  proof cases
    case 1
    then have "unat (ucast n :: u8) = unat n" by (simp add: unat_ucast_small)
    with 1 have "(ucast n :: u8) \<noteq> 0xfd \<and> (ucast n :: u8) \<noteq> 0xfe \<and> (ucast n :: u8) \<noteq> 0xff"
      by (auto simp: word_unat_eq_iff)
    with 1 show ?thesis
      by (simp add: encode_compact_size_def decode_compact_size_def compact_size_consts wire
          word_le_nat_alt word_less_nat_alt ucast_ucast_id)
  qed (simp_all add: encode_compact_size_def decode_compact_size_def compact_size_consts wire
      word_le_nat_alt word_less_nat_alt ucast_ucast_id)
qed

lemma untagged_small: "(a :: u8) \<noteq> 253 \<Longrightarrow> a \<noteq> 254 \<Longrightarrow> a \<noteq> 255 \<Longrightarrow> unat a \<le> 252"
  using unat_u8_lt [of a] by (simp add: word_unat_eq_iff)

lemma decode_compact_size_canonical:
  assumes "decode_compact_size c = Inr (n, c')"
  shows "br_rest c = encode_compact_size n @ br_rest c' \<and> br_full c' = br_full c"
proof -
  obtain first c1 where c1: "rd_u8 ''compact size'' c = Inr (first, c1)"
    using assms by (auto simp: decode_compact_size_def elim!: tryq_InrE)
  note step = assms [unfolded decode_compact_size_def c1, simplified]
  consider "first = 253" | "first = 254" | "first = 255" | "unat first \<le> 252"
    using untagged_small by blast
  then show ?thesis
  proof cases
    case 1
    with step obtain v where "n = ucast v" "unat v \<ge> 253" "rd_u16 ''compact size'' c1 = Inr (v, c')"
      by (auto simp: compact_size_consts word_less_nat_alt elim!: tryq_InrE split: if_splits)
    with 1 c1 unat_word_lt(2) [of v] show ?thesis
      by (auto simp: rd_Inr_iff encode_compact_size_def compact_size_consts word_le_nat_alt)
  next
    case 2
    with step obtain v where "n = ucast v" "unat v \<ge> 65536" "rd_u32 ''compact size'' c1 = Inr (v, c')"
      by (auto simp: compact_size_consts word_less_nat_alt elim!: tryq_InrE split: if_splits)
    with 2 c1 unat_word_lt(3) [of v] show ?thesis
      by (auto simp: rd_Inr_iff encode_compact_size_def compact_size_consts word_le_nat_alt)
  next
    case 3
    with step have "unat n \<ge> 4294967296" "rd_u64 ''compact size'' c1 = Inr (n, c')"
      by (auto simp: compact_size_consts word_less_nat_alt elim!: tryq_InrE split: if_splits)
    with 3 c1 show ?thesis
      by (auto simp: rd_Inr_iff encode_compact_size_def compact_size_consts word_le_nat_alt)
  next
    case 4
    then have "first \<noteq> 253" "first \<noteq> 254" "first \<noteq> 255" by auto
    with step have "n = ucast first" "c' = c1"
      by (auto simp: compact_size_consts split: if_splits)
    with 4 c1 show ?thesis
      by (auto simp: rd_Inr_iff encode_compact_size_def compact_size_consts word_le_nat_alt)
  qed
qed

end
