(* ===== verification/Target.thy ===== *)
theory Target
  imports Prelude
begin

text \<open>
  Targets and difficulties (\<^verbatim>\<open>core/src/target.rs\<close>): the compact encoding a header carries,
  the power of two a share's target byte names, comparison, and the saturating shift the pool
  relays blocks by. A target is 32 bytes, most significant first; \<open>be_val\<close> is the number it
  stands for, and each lemma says what an operation does to that number. The floating-point
  conversions of the file (\<open>target_for_difficulty\<close>, \<open>difficulty_from_bits\<close>) are not modelled.
\<close>

section \<open>Constants\<close>

definition TARGET_BYTES :: nat where "TARGET_BYTES = 32"
definition DIFF1_EXPONENT :: nat where "DIFF1_EXPONENT = 224"
definition COMPACT_TARGET_SIZE_SHIFT :: nat where "COMPACT_TARGET_SIZE_SHIFT = 24"
definition COMPACT_TARGET_MANTISSA_MASK :: u32 where "COMPACT_TARGET_MANTISSA_MASK = 0x007fffff"
definition COMPACT_TARGET_SIGN_BIT :: u32 where "COMPACT_TARGET_SIGN_BIT = 0x00800000"
definition COMPACT_TARGET_MANTISSA_SIGN_BIT :: u32 where "COMPACT_TARGET_MANTISSA_SIGN_BIT = 0x80"
definition MAX_COMPACT_TARGET_SIZE :: nat where "MAX_COMPACT_TARGET_SIZE = 34"
definition MAX_TARGET_EXPONENT :: u8 where "MAX_TARGET_EXPONENT = 63"

lemmas target_consts = TARGET_BYTES_def DIFF1_EXPONENT_def COMPACT_TARGET_SIZE_SHIFT_def
  COMPACT_TARGET_MANTISSA_MASK_def COMPACT_TARGET_SIGN_BIT_def
  COMPACT_TARGET_MANTISSA_SIGN_BIT_def MAX_COMPACT_TARGET_SIZE_def MAX_TARGET_EXPONENT_def

section \<open>The compact encoding\<close>

definition to_be_bytes_u32 :: "u32 \<Rightarrow> bytes" where
  "to_be_bytes_u32 w = rev (put_u32_le w)"

fun place_mantissa :: "nat \<Rightarrow> nat \<Rightarrow> bytes \<Rightarrow> bytes \<Rightarrow> bytes option" where
  "place_mantissa sz i [] t = Some t"
| "place_mantissa sz i (b # bs) t =
     (let at = int TARGET_BYTES - int sz + int i in
      if at \<ge> int TARGET_BYTES then place_mantissa sz (Suc i) bs t
      else if at \<ge> 0 then place_mantissa sz (Suc i) bs (t[nat at := b])
      else if b = 0 then place_mantissa sz (Suc i) bs t
      else None)"

definition bits_to_target :: "u32 \<Rightarrow> bytes option" where
  "bits_to_target bits =
     (if bits AND COMPACT_TARGET_SIGN_BIT \<noteq> 0 then None
      else let sz = unat (drop_bit COMPACT_TARGET_SIZE_SHIFT bits) in
        if sz > MAX_COMPACT_TARGET_SIZE then None
        else Option.bind
          (place_mantissa sz 0 (tl (to_be_bytes_u32 (bits AND COMPACT_TARGET_MANTISSA_MASK)))
            (replicate TARGET_BYTES 0))
          (\<lambda>t. if list_ex (\<lambda>b. b \<noteq> 0) t then Some t else None))"

text \<open>The derived order on \<open>[u8; 32]\<close>: lexicographic, most significant byte first.\<close>

fun bytes_le :: "bytes \<Rightarrow> bytes \<Rightarrow> bool" where
  "bytes_le [] ys = True"
| "bytes_le (x # xs) [] = False"
| "bytes_le (x # xs) (y # ys) = (if x = y then bytes_le xs ys else x < y)"

definition meets_target :: "bytes \<Rightarrow> bytes \<Rightarrow> bool" where
  "meets_target hash target = bytes_le hash target"

definition shl_saturating :: "bytes \<Rightarrow> nat \<Rightarrow> bytes" where
  "shl_saturating target bits =
     (let byte_shift = bits div 8; bit_shift = bits mod 8;
          overflows =
            (if byte_shift \<ge> TARGET_BYTES then list_ex (\<lambda>b. b \<noteq> 0) target
             else list_ex (\<lambda>b. b \<noteq> 0) (take byte_shift target)
               \<or> (bit_shift > 0 \<and> drop_bit (8 - bit_shift) (target ! byte_shift) \<noteq> 0))
      in if overflows then replicate TARGET_BYTES 0xff
         else map (\<lambda>i.
             if i < TARGET_BYTES - byte_shift then
               let high = target ! (i + byte_shift);
                   low = (if i + byte_shift + 1 < length target then target ! (i + byte_shift + 1) else 0)
               in if bit_shift = 0 then high
                  else push_bit bit_shift high OR drop_bit (8 - bit_shift) low
             else 0) [0..<TARGET_BYTES])"

definition target_for_exponent :: "u8 \<Rightarrow> bytes" where
  "target_for_exponent exponent =
     (let bit = DIFF1_EXPONENT - unat exponent
      in (replicate TARGET_BYTES 0)[TARGET_BYTES - 1 - bit div 8 := push_bit (bit mod 8) 1])"

definition share_target :: "u8 \<Rightarrow> bytes" where
  "share_target exponent =
     (let t = replicate TARGET_BYTES 0 in
      if unat exponent < DIFF1_EXPONENT then
        let first_set = (TARGET_BYTES - DIFF1_EXPONENT div 8) + unat exponent div 8;
            t = take first_set t @ replicate (TARGET_BYTES - first_set) 0xff
        in t[first_set := drop_bit (unat exponent mod 8) 0xff]
      else t)"

definition target_to_bits :: "bytes \<Rightarrow> u32" where
  "target_to_bits target =
     (case find_index (\<lambda>b. b \<noteq> 0) target of
        None \<Rightarrow> 0
      | Some first \<Rightarrow>
          let sz = word_of_nat (TARGET_BYTES - first) :: u32;
              at = (\<lambda>i. if i < length target then ucast (target ! i) else 0 :: u32);
              m0 = at first; m1 = at (first + 1); m2 = at (first + 2)
          in if m0 AND COMPACT_TARGET_MANTISSA_SIGN_BIT \<noteq> 0
             then (push_bit COMPACT_TARGET_SIZE_SHIFT (sz + 1) OR push_bit 8 m0) OR m1
             else ((push_bit COMPACT_TARGET_SIZE_SHIFT sz OR push_bit 16 m0) OR push_bit 8 m1) OR m2)"

definition share_nbits :: "u8 \<Rightarrow> u32" where
  "share_nbits exponent = target_to_bits (share_target exponent)"

section \<open>Powers of two\<close>

fun ilog2 :: "nat \<Rightarrow> nat" where
  "ilog2 n = (if n < 2 then 0 else Suc (ilog2 (n div 2)))"

declare ilog2.simps [simp del]

definition floor_log2 :: "u64 \<Rightarrow> u8" where
  "floor_log2 diff = (if diff = 0 then 0 else word_of_nat (ilog2 (unat diff)))"

definition difficulty_for_exponent :: "u8 \<Rightarrow> u64" where
  "difficulty_for_exponent exponent = push_bit (unat (ucast exponent AND (63 :: u32))) 1"

definition pow2_floor :: "u64 \<Rightarrow> u64" where
  "pow2_floor v = (if v = 0 then 0 else push_bit (unat (floor_log2 v)) 1)"

definition checked_next_power_of_two :: "u64 \<Rightarrow> u64 option" where
  "checked_next_power_of_two v =
     (let n = unat v; p = (if n \<le> 1 then 1 else 2 ^ Suc (ilog2 (n - 1)))
      in if p < 2 ^ 64 then Some (word_of_nat p) else None)"

definition pow2_ceil :: "u64 \<Rightarrow> u64" where
  "pow2_ceil v =
     (if v = 0 then 0
      else case checked_next_power_of_two v of Some p \<Rightarrow> p | None \<Rightarrow> push_bit 63 1)"

section \<open>Lemmas: comparison\<close>

lemma bytes_le_be_val: "length xs = length ys \<Longrightarrow> bytes_le xs ys \<longleftrightarrow> be_val xs \<le> be_val ys"
proof (induction xs ys rule: bytes_le.induct)
  case (3 x xs y ys)
  show ?case
  proof (cases "x = y")
    case True
    with 3 show ?thesis by (simp add: be_val_Cons)
  next
    case False
    let ?n = "256 ^ length ys :: nat"
    have "be_val xs < ?n" "be_val ys < ?n"
      using be_val_lt [of xs] be_val_lt [of ys] 3(2) by simp_all
    moreover have "unat x * ?n + ?n \<le> unat y * ?n" if "unat x < unat y"
      using mult_le_mono1 [of "Suc (unat x)" "unat y" ?n] that by simp
    moreover have "unat y * ?n + ?n \<le> unat x * ?n" if "unat y < unat x"
      using mult_le_mono1 [of "Suc (unat y)" "unat x" ?n] that by simp
    moreover have "unat x \<noteq> unat y" using False by (simp add: word_unat_eq_iff)
    ultimately show ?thesis
      using False 3(2) by (cases "unat x < unat y") (simp_all add: be_val_Cons word_less_nat_alt)
  qed
qed simp_all

lemma meets_target_iff:
  "length hash = length target \<Longrightarrow> meets_target hash target \<longleftrightarrow> be_val hash \<le> be_val target"
  by (simp add: meets_target_def bytes_le_be_val)

section \<open>Lemmas: powers of two\<close>

lemma ilog2_bounds: "0 < n \<Longrightarrow> 2 ^ ilog2 n \<le> n \<and> n < 2 ^ Suc (ilog2 n)"
proof (induction n rule: ilog2.induct)
  case (1 n)
  then show ?case
    by (cases "n < 2") (auto simp: ilog2.simps [of n])
qed

lemma ilog2_lt: "0 < n \<Longrightarrow> n < 2 ^ k \<Longrightarrow> ilog2 n < k"
  by (meson ilog2_bounds le_less_trans one_less_numeral_iff power_less_imp_less_exp semiring_norm(76))

lemma unat_floor_log2: "v \<noteq> 0 \<Longrightarrow> unat (floor_log2 v) = ilog2 (unat v)"
proof -
  assume "v \<noteq> 0"
  then have "ilog2 (unat v) < 64"
    using ilog2_lt [of "unat v" 64] unat_word_lt(4) [of v] by (simp add: unat_gt_0)
  with \<open>v \<noteq> 0\<close> show ?thesis by (simp add: floor_log2_def unat_of_nat)
qed

lemma pow2_floor_spec:
  assumes "v \<noteq> 0"
  shows "unat (pow2_floor v) = 2 ^ ilog2 (unat v)"
proof -
  have "ilog2 (unat v) < 64"
    using assms ilog2_lt [of "unat v" 64] unat_word_lt(4) [of v] by (simp add: unat_gt_0)
  then show ?thesis
    using assms by (simp add: pow2_floor_def unat_floor_log2)
qed

lemma pow2_floor_bounds:
  "v \<noteq> 0 \<Longrightarrow> unat (pow2_floor v) \<le> unat v \<and> unat v < 2 * unat (pow2_floor v)"
  using ilog2_bounds [of "unat v"] by (simp add: pow2_floor_spec unat_gt_0)

lemma checked_next_power_of_two_Some:
  assumes "checked_next_power_of_two v = Some p"
  shows "\<exists>k. unat p = 2 ^ k \<and> unat v \<le> 2 ^ k \<and> (unat v > 1 \<longrightarrow> 2 ^ k < 2 * unat v)"
proof (cases "unat v \<le> 1")
  case True
  with assms show ?thesis
    by (auto simp: checked_next_power_of_two_def intro!: exI [of _ 0])
next
  case False
  define k where "k = Suc (ilog2 (unat v - 1))"
  have lt: "(2 :: nat) ^ k < 2 ^ 64" and p: "p = word_of_nat (2 ^ k)"
    using assms False
    by (auto simp: checked_next_power_of_two_def Let_def k_def simp del: power_Suc split: if_splits)
  have "k < 64" using lt by (rule power_less_imp_less_exp [rotated]) simp
  then have "unat p = 2 ^ k" unfolding p by simp
  moreover have "unat v \<le> 2 ^ k" "2 ^ k < 2 * unat v"
    using ilog2_bounds [of "unat v - 1"] False by (auto simp: k_def)
  ultimately show ?thesis by blast
qed

section \<open>Lemmas: the compact encoding\<close>

text \<open>The number the compact encoding names, before the checks: mantissa times a power of 256.\<close>

definition scaled :: "nat \<Rightarrow> nat \<Rightarrow> nat" where
  "scaled m sz = (if sz \<ge> 3 then m * 256 ^ (sz - 3) else m div 256 ^ (3 - sz))"

definition compact_value :: "u32 \<Rightarrow> nat" where
  "compact_value bits =
     (let m = unat (bits AND COMPACT_TARGET_MANTISSA_MASK);
          sz = unat (drop_bit COMPACT_TARGET_SIZE_SHIFT bits)
      in scaled m sz)"

lemma three_bytes:
  assumes "unat (m :: u32) < 2 ^ 24"
  shows "tl (to_be_bytes_u32 m) =
    [word_of_nat (unat m div 65536), word_of_nat (unat m div 256 mod 256), word_of_nat (unat m mod 256)]"
  using assms by (simp add: to_be_bytes_u32_def put_u32_le_def le_bytes_4)

lemma place_mantissa_middle:
  assumes "3 \<le> sz" "sz \<le> 32"
  shows "place_mantissa sz 0 [a, b, c] (replicate TARGET_BYTES 0) =
    Some (replicate (32 - sz) 0 @ [a, b, c] @ replicate (sz - 3) 0)"
proof -
  have "nat (32 - int sz) = 32 - sz" "nat (33 - int sz) = (32 - sz) + 1" "nat (34 - int sz) = (32 - sz) + 2"
    using assms by linarith+
  with assms replicate_update3 [of "32 - sz" 32 0 a b c] show ?thesis
    by (simp add: target_consts)
qed

lemma mantissa_lt: "unat (bits AND COMPACT_TARGET_MANTISSA_MASK) < 2 ^ 23"
proof -
  have "unat (bits AND COMPACT_TARGET_MANTISSA_MASK) \<le> unat COMPACT_TARGET_MANTISSA_MASK"
    by (simp add: word_and_le1 flip: word_le_nat_alt)
  then show ?thesis by (simp add: target_consts)
qed

lemma list_ex_be_val: "list_ex (\<lambda>b. b \<noteq> 0) t \<longleftrightarrow> be_val t \<noteq> 0"
  by (auto simp: be_val_eq_0_iff list_ex_iff)

lemma three_digits: "(m div 65536) * 65536 + (m div 256 mod 256) * 256 + m mod 256 = (m :: nat)"
proof -
  have "m div 65536 = m div 256 div 256" by (simp add: div_mult2_eq [symmetric])
  then have "(m div 65536) * 256 + m div 256 mod 256 = m div 256" by simp
  then have "((m div 65536) * 256 + m div 256 mod 256) * 256 + m mod 256 = m" by simp
  then show ?thesis by (simp add: algebra_simps)
qed

lemma unat_byte_of_nat: "k < 256 \<Longrightarrow> unat (word_of_nat k :: u8) = k"
  by (simp add: unat_of_nat)

lemma be_val_mantissa:
  assumes "m < 2 ^ 24"
  shows "be_val [word_of_nat (m div 65536), word_of_nat (m div 256 mod 256), word_of_nat (m mod 256)] = m"
proof -
  have "m div 65536 < 256" using assms by simp
  then have "be_val [word_of_nat (m div 65536), word_of_nat (m div 256 mod 256), word_of_nat (m mod 256)]
      = (m div 65536) * 65536 + (m div 256 mod 256) * 256 + m mod 256"
    by (simp only: be_val_Cons) (simp add: unat_byte_of_nat)
  then show ?thesis by (simp only: three_digits)
qed

text \<open>
  Placing the mantissa: it fits exactly when the number it names is below \<open>2 ^ 256\<close>, and the 32
  bytes then spell that number.
\<close>

lemma place_mantissa_small:
  "place_mantissa 0 0 [a, b, c] (replicate TARGET_BYTES 0) = Some (replicate 32 0)"
  "place_mantissa (Suc 0) 0 [a, b, c] (replicate TARGET_BYTES 0) = Some (replicate 31 0 @ [a])"
  "place_mantissa 2 0 [a, b, c] (replicate TARGET_BYTES 0) = Some (replicate 30 0 @ [a, b])"
  "place_mantissa 33 0 [a, b, c] (replicate TARGET_BYTES 0) =
     (if a = 0 then Some ([b, c] @ replicate 30 0) else None)"
  "place_mantissa 34 0 [a, b, c] (replicate TARGET_BYTES 0) =
     (if a = 0 \<and> b = 0 then Some (c # replicate 31 0) else None)"
  by (simp_all add: target_consts numeral_nat)

declare place_mantissa.simps [simp del]

lemma word_of_nat_byte_0: "k < 256 \<Longrightarrow> (word_of_nat k = (0 :: u8)) \<longleftrightarrow> k = 0"
  by (metis unat_byte_of_nat unat_eq_zero)

lemma place_mantissa_value:
  assumes m: "m < 2 ^ 24" and sz: "sz \<le> 34"
  shows "case place_mantissa sz 0
      [word_of_nat (m div 65536), word_of_nat (m div 256 mod 256), word_of_nat (m mod 256)]
      (replicate TARGET_BYTES 0) of
    None \<Rightarrow> 2 ^ 256 \<le> scaled m sz
  | Some t \<Rightarrow> scaled m sz < 2 ^ 256 \<and> length t = 32 \<and> be_val t = scaled m sz"
proof -
  let ?a = "word_of_nat (m div 65536) :: u8" and ?b = "word_of_nat (m div 256 mod 256) :: u8"
    and ?c = "word_of_nat (m mod 256) :: u8"
  have a: "unat ?a = m div 65536" and b: "unat ?b = m div 256 mod 256" and c: "unat ?c = m mod 256"
    using m by (simp_all add: unat_byte_of_nat)
  have az: "?a = 0 \<longleftrightarrow> m < 65536" using a by (metis div_eq_0_iff unat_eq_zero zero_neq_numeral)
  have bz: "?b = 0 \<longleftrightarrow> m < 256" if "m < 65536"
    using b that by (simp add: word_unat_eq_iff div_eq_0_iff)
  have pow: "(2 :: nat) ^ 256 = 256 ^ 32" by simp
  consider "sz \<in> {0, 1, 2}" | "3 \<le> sz" "sz \<le> 32" | "sz = 33" | "sz = 34"
    using sz by fastforce
  then show ?thesis
  proof cases
    case 1
    have "be_val [?a, ?b] = m div 256"
      using three_digits [of m] by (simp add: be_val_Cons a b)
    with 1 m show ?thesis
      by (auto simp: place_mantissa_small scaled_def be_val_append be_val_Cons a)
  next
    case 2
    have "m * 256 ^ (sz - 3) < 256 ^ 3 * 256 ^ (sz - 3)" using m by simp
    also have "\<dots> = 256 ^ sz" using 2 by (metis le_add_diff_inverse power_add)
    also have "\<dots> \<le> 256 ^ 32" using 2 by (intro power_increasing) auto
    finally have "m * 256 ^ (sz - 3) < 256 ^ 32" .
    moreover have "be_val (replicate (32 - sz) 0 @ [?a, ?b, ?c] @ replicate (sz - 3) 0) = m * 256 ^ (sz - 3)"
      by (simp only: be_val_append be_val_mantissa [OF m] be_val_replicate_zero) simp
    ultimately show ?thesis
      using 2 by (simp add: place_mantissa_middle scaled_def pow)
  next
    case 3
    show ?thesis
    proof (cases "m < 65536")
      case True
      have "be_val [?b, ?c] = unat ?b * 256 + unat ?c" by (simp only: be_val_Cons) simp
      also have "\<dots> = m" unfolding b c using True three_digits [of m] by simp
      finally have "be_val ([?b, ?c] @ replicate 30 0) = m * 256 ^ 30"
        by (simp only: be_val_append be_val_replicate_zero) simp
      then show ?thesis using 3 True az by (simp add: place_mantissa_small scaled_def)
    qed (use 3 az in \<open>simp add: place_mantissa_small scaled_def\<close>)
  next
    case 4
    show ?thesis
    proof (cases "m < 256")
      case True
      then show ?thesis using 4 az bz
        by (simp add: place_mantissa_small scaled_def be_val_append be_val_Cons unat_byte_of_nat)
    next
      case False
      then have "\<not> (?a = 0 \<and> ?b = 0)" using az bz by blast
      then show ?thesis using 4 False by (simp add: place_mantissa_small scaled_def)
    qed
  qed
qed

lemma bits_to_target_value:
  assumes "bits AND COMPACT_TARGET_SIGN_BIT = 0"
  shows "case bits_to_target bits of
    None \<Rightarrow> compact_value bits = 0 \<or> 2 ^ 256 \<le> compact_value bits
  | Some t \<Rightarrow> length t = 32 \<and> be_val t = compact_value bits \<and>
      0 < compact_value bits \<and> compact_value bits < 2 ^ 256"
proof -
  define m where "m = unat (bits AND COMPACT_TARGET_MANTISSA_MASK)"
  define sz where "sz = unat (drop_bit COMPACT_TARGET_SIZE_SHIFT bits)"
  have m: "m < 2 ^ 24" using mantissa_lt [of bits] by (simp add: m_def)
  have v: "compact_value bits = scaled m sz" by (simp add: compact_value_def m_def sz_def)
  show ?thesis
  proof (cases "sz \<le> 34")
    case True
    let ?p = "place_mantissa sz 0
      [word_of_nat (m div 65536), word_of_nat (m div 256 mod 256), word_of_nat (m mod 256)]
      (replicate TARGET_BYTES 0)"
    have "tl (to_be_bytes_u32 (bits AND COMPACT_TARGET_MANTISSA_MASK)) =
        [word_of_nat (m div 65536), word_of_nat (m div 256 mod 256), word_of_nat (m mod 256)]"
      using three_bytes m by (simp only: m_def)
    then have "bits_to_target bits = Option.bind ?p (\<lambda>t. if be_val t \<noteq> 0 then Some t else None)"
      using assms True by (simp add: bits_to_target_def list_ex_be_val sz_def target_consts(7))
    with place_mantissa_value [OF m True] v show ?thesis
      by (cases ?p) simp_all
  next
    case False
    have "2 ^ 256 \<le> m * 256 ^ (sz - 3)" if "m \<noteq> 0"
    proof -
      have "(2 :: nat) ^ 256 = 1 * 256 ^ 32" by simp
      also have "\<dots> \<le> m * 256 ^ (sz - 3)"
        using that False by (intro mult_le_mono power_increasing) auto
      finally show ?thesis .
    qed
    then show ?thesis using assms False
      by (auto simp: bits_to_target_def v scaled_def sz_def [symmetric] target_consts(7))
  qed
qed

section \<open>Lemmas: writing a target compactly\<close>

definition compact_of :: "nat \<Rightarrow> nat \<Rightarrow> u32" where
  "compact_of sz m = word_of_nat (sz * 2 ^ 24 + m)"

lemma unat_compact_of: "sz < 256 \<Longrightarrow> m < 2 ^ 24 \<Longrightarrow> unat (compact_of sz m) = sz * 2 ^ 24 + m"
  by (simp add: compact_of_def unat_of_nat del: of_nat_add of_nat_mult)

lemma compact_of_parts:
  assumes "sz < 256" "m < 2 ^ 23"
  shows "compact_of sz m AND COMPACT_TARGET_SIGN_BIT = 0" "compact_value (compact_of sz m) = scaled m sz"
proof -
  have u: "unat (compact_of sz m) = sz * 2 ^ 24 + m"
    using assms by (intro unat_compact_of) simp_all
  have "sz * 2 ^ 24 + m = m + 2 ^ 23 * (2 * sz)" by simp
  then have "(sz * 2 ^ 24 + m) mod 2 ^ 23 = m" using assms(2) by (simp only: mod_mult_self2 mod_less)
  then have bits: "take_bit 23 (sz * 2 ^ 24 + m) = m" "drop_bit 24 (sz * 2 ^ 24 + m) = sz"
    using assms(2) by (simp_all add: take_bit_eq_mod drop_bit_eq_div)
  have "\<not> bit (compact_of sz m) 23"
  proof -
    have "sz * 2 ^ 24 + m = (2 * sz) * 2 ^ 23 + m" by simp
    then have "(sz * 2 ^ 24 + m) div 2 ^ 23 = 2 * sz" using assms(2) by simp
    then have "\<not> bit (sz * 2 ^ 24 + m) 23" by (simp add: bit_iff_odd)
    then show ?thesis using u by (metis bit_unsigned_iff possible_bit_nat) 
  qed
  moreover have "COMPACT_TARGET_SIGN_BIT = 2 ^ 23" by (simp add: target_consts)
  ultimately show "compact_of sz m AND COMPACT_TARGET_SIGN_BIT = 0"
    by (metis and_exp_eq_0_iff_not_bit)
  have "COMPACT_TARGET_MANTISSA_MASK = mask 23" by (simp add: target_consts mask_eq_exp_minus_1)
  then have "compact_of sz m AND COMPACT_TARGET_MANTISSA_MASK = take_bit 23 (compact_of sz m)"
    by (simp only: take_bit_eq_mask)
  then have "unat (compact_of sz m AND COMPACT_TARGET_MANTISSA_MASK) = m"
    using bits(1) u by (simp only: unsigned_take_bit_eq)
  moreover have "unat (drop_bit 24 (compact_of sz m)) = sz"
    using bits(2) u by (metis unat_drop_bit_eq)
  ultimately show "compact_value (compact_of sz m) = scaled m sz"
    by (simp add: compact_value_def target_consts(3))
qed

text \<open>Writing: a target is its leading zeros, a nonzero byte and the bytes below it.\<close>

lemma target_split:
  assumes "length t = 32" "find_index (\<lambda>b. b \<noteq> 0) t = Some p"
  obtains m0 ys where "t = replicate p 0 @ m0 # ys" "m0 \<noteq> 0" "p < 32" "length ys = 31 - p"
proof -
  note f = find_index_Some [OF assms(2)]
  have "take p t = replicate p 0"
    using f by (intro nth_equalityI) auto
  moreover have "t = take p t @ t ! p # drop (Suc p) t"
    using f(1) by (rule id_take_nth_drop)
  ultimately have "t = replicate p 0 @ t ! p # drop (Suc p) t" by metis
  moreover have "length (drop (Suc p) t) = 31 - p" "p < 32" using f(1) assms(1) by simp_all
  ultimately show thesis using f(2) by (intro that)
qed

definition byte_at :: "bytes \<Rightarrow> nat \<Rightarrow> nat" where
  "byte_at ys i = (if i < length ys then unat (ys ! i) else 0)"

lemma byte_at_lt: "byte_at ys i < 256"
  by (simp add: byte_at_def unat_u8_lt)

lemma sign_byte: "ucast (m0 :: u8) AND COMPACT_TARGET_MANTISSA_SIGN_BIT = 0 \<longleftrightarrow> unat m0 < 128"
proof -
  have e: "COMPACT_TARGET_MANTISSA_SIGN_BIT = 2 ^ 7" by (simp add: target_consts)
  have "ucast m0 AND COMPACT_TARGET_MANTISSA_SIGN_BIT = 0 \<longleftrightarrow> \<not> bit (ucast m0 :: u32) 7"
    unfolding e by (rule and_exp_eq_0_iff_not_bit)
  also have "bit (ucast m0 :: u32) 7 \<longleftrightarrow> bit (unat m0) 7"
    by (simp add: bit_simps)
  also have "\<dots> \<longleftrightarrow> \<not> unat m0 < 128"
  proof (cases "unat m0 < 128")
    case False
    then have "unat m0 div 2 ^ 7 = 1" using unat_u8_lt [of m0] by (simp add: div_nat_eqI)
    with False show ?thesis by (simp add: bit_iff_odd)
  qed (simp add: bit_iff_odd)
  finally show ?thesis by simp
qed

lemma target_to_bits_compact_of:
  assumes t: "t = replicate p 0 @ m0 # ys" "m0 \<noteq> 0" "p < 32" "length ys = 31 - p"
  shows "target_to_bits t =
    (if unat m0 < 128
     then compact_of (32 - p) (unat m0 * 65536 + byte_at ys 0 * 256 + byte_at ys 1)
     else compact_of (33 - p) (unat m0 * 256 + byte_at ys 0))"
proof -
  have p: "find_index (\<lambda>b. b \<noteq> 0) t = Some p"
    using t find_index_prefix [of "\<lambda>b. b \<noteq> 0" m0 "replicate p 0" ys] by auto
  define at where "at = (\<lambda>i. if i < length t then ucast (t ! i) else 0 :: u32)"
  have at: "at p = ucast m0" "unat (at (p + 1)) = byte_at ys 0" "unat (at (p + 2)) = byte_at ys 1"
    using t by (auto simp: at_def byte_at_def nth_append nth_Cons')
  have sz: "unat (word_of_nat (32 - p) :: u32) = 32 - p" "unat (word_of_nat (32 - p) + 1 :: u32) = 33 - p"
    using t(3) unat_of_nat [of "32 - p", where 'a = 32] unat_of_nat [of "33 - p", where 'a = 32]
    by (simp_all add: Suc_diff_le flip: of_nat_Suc)
  note lt = byte_at_lt [of ys 0] byte_at_lt [of ys 1] unat_u8_lt [of m0]
  show ?thesis
  proof (cases "unat m0 < 128")
    case True
    have "unat (((push_bit 24 (word_of_nat (32 - p)) OR push_bit 16 (at p)) OR push_bit 8 (at (p + 1))) OR at (p + 2))
       = (32 - p) * 2 ^ 24 + (unat m0 * 65536 + byte_at ys 0 * 256 + byte_at ys 1)"
      using True lt sz at by (simp add: or.assoc unat_push_or)
    then have "((push_bit 24 (word_of_nat (32 - p)) OR push_bit 16 (at p)) OR push_bit 8 (at (p + 1))) OR at (p + 2)
       = compact_of (32 - p) (unat m0 * 65536 + byte_at ys 0 * 256 + byte_at ys 1)"
      using True lt by (simp add: word_unat_eq_iff unat_compact_of)
    with True sign_byte [of m0] show ?thesis
      by (simp add: target_to_bits_def p at_def [symmetric] at(1) target_consts(1,3) Let_def)
  next
    case False
    have "unat ((push_bit 24 (word_of_nat (32 - p) + 1) OR push_bit 8 (at p)) OR at (p + 1))
       = (33 - p) * 2 ^ 24 + (unat m0 * 256 + byte_at ys 0)"
      using lt sz at by (simp add: or.assoc unat_push_or)
    then have "(push_bit 24 (word_of_nat (32 - p) + 1) OR push_bit 8 (at p)) OR at (p + 1)
       = compact_of (33 - p) (unat m0 * 256 + byte_at ys 0)"
      using lt by (simp add: word_unat_eq_iff unat_compact_of)
    with False sign_byte [of m0] show ?thesis
      by (simp add: target_to_bits_def p at_def [symmetric] at(1) target_consts(1,3) Let_def)
  qed
qed

text \<open>
  Rounding: the target that the compact form decodes to is the target with every byte below
  the two or three the mantissa holds cleared. \<open>dropped_bytes\<close> counts those.
\<close>

definition dropped_bytes :: "u8 \<Rightarrow> bytes \<Rightarrow> nat" where
  "dropped_bytes m0 ys = (if unat m0 < 128 then length ys - 2 else length ys - 1)"

lemma clear_low_bytes:
  fixes v q r k :: nat
  assumes "v = q * 256 ^ k + r" "r < 256 ^ k"
  shows "v - v mod 256 ^ k = q * 256 ^ k"
  using assms by simp

lemma scaled_mantissa:
  assumes "length ys \<le> 31"
  shows "(if unat m0 < 128
      then scaled (unat m0 * 65536 + byte_at ys 0 * 256 + byte_at ys 1) (length ys + 1)
      else scaled (unat m0 * 256 + byte_at ys 0) (length ys + 2)) =
    be_val (m0 # ys) - be_val (m0 # ys) mod 256 ^ dropped_bytes m0 ys"
proof -
  consider "ys = []" | y0 where "ys = [y0]" | y0 y1 zs where "ys = y0 # y1 # zs"
    by (metis list.exhaust)
  then show ?thesis
  proof cases
    case 1
    then show ?thesis by (simp add: scaled_def byte_at_def dropped_bytes_def be_val_Cons)
  next
    case 2
    then show ?thesis by (simp add: scaled_def byte_at_def dropped_bytes_def be_val_Cons)
  next
    case 3
    have b: "byte_at ys 0 = unat y0" "byte_at ys 1 = unat y1" by (simp_all add: 3 byte_at_def)
    have v: "be_val (m0 # ys) = (unat m0 * 65536 + unat y0 * 256 + unat y1) * 256 ^ length zs + be_val zs"
      "be_val (m0 # ys) = (unat m0 * 256 + unat y0) * 256 ^ Suc (length zs) + be_val (y1 # zs)"
      by (simp_all add: 3 be_val_Cons algebra_simps)
    show ?thesis
    proof (cases "unat m0 < 128")
      case True
      then have k: "dropped_bytes m0 ys = length zs" by (simp add: 3 dropped_bytes_def)
      show ?thesis
        unfolding k clear_low_bytes [OF v(1) be_val_lt] using True b by (simp add: 3 scaled_def)
    next
      case False
      then have k: "dropped_bytes m0 ys = length (y1 # zs)" by (simp add: 3 dropped_bytes_def)
      show ?thesis
        unfolding k clear_low_bytes [OF v(2) be_val_lt [of "y1 # zs", unfolded length_Cons]]
          length_Cons
        using False b
        by (simp add: 3 scaled_def)
    qed
  qed
qed

lemma be_val_skip_zeros: "be_val (replicate p 0 @ xs) = be_val xs"
  by (simp add: be_val_append)

lemma dropped_keeps_top:
  assumes "m0 \<noteq> 0"
  shows "0 < be_val (m0 # ys) - be_val (m0 # ys) mod 256 ^ dropped_bytes m0 ys"
    "be_val (m0 # ys) mod 256 ^ dropped_bytes m0 ys < be_val (m0 # ys)"
proof -
  have "256 ^ dropped_bytes m0 ys \<le> (256 :: nat) ^ length ys"
    by (simp add: dropped_bytes_def)
  also have "\<dots> \<le> be_val (m0 # ys)"
    using assms mult_le_mono1 [of 1 "unat m0" "256 ^ length ys"]
    by (simp add: be_val_Cons trans_le_add1 unat_gt_0 Suc_leI)
  finally have "be_val (m0 # ys) mod 256 ^ dropped_bytes m0 ys < be_val (m0 # ys)"
    by (rule less_le_trans [OF mod_less_divisor, rotated]) simp
  then show "0 < be_val (m0 # ys) - be_val (m0 # ys) mod 256 ^ dropped_bytes m0 ys"
    "be_val (m0 # ys) mod 256 ^ dropped_bytes m0 ys < be_val (m0 # ys)" by simp_all
qed

lemma bits_to_target_to_bits:
  assumes t: "t = replicate p 0 @ m0 # ys" "m0 \<noteq> 0" "length t = 32"
  obtains t' where "bits_to_target (target_to_bits t) = Some t'" "length t' = 32"
    "be_val t' = be_val t - be_val t mod 256 ^ dropped_bytes m0 ys" "0 < be_val t'"
proof -
  have len: "p < 32" "length ys = 31 - p" using t(1,3) by auto
  note lt = byte_at_lt [of ys 0] byte_at_lt [of ys 1] unat_u8_lt [of m0]
  have sz: "length ys + 1 = 32 - p" "length ys + 2 = 33 - p" using len by simp_all
  note tb = target_to_bits_compact_of [OF t(1,2) len]
  have small: "32 - p < 256" "33 - p < 256" by simp_all
  have m: "unat m0 * 65536 + byte_at ys 0 * 256 + byte_at ys 1 < 2 ^ 23" if "unat m0 < 128"
    using lt that by simp
  have m': "unat m0 * 256 + byte_at ys 0 < 2 ^ 23"
    using lt by simp
  have bv: "be_val t = be_val (m0 # ys)" by (simp add: t(1) be_val_skip_zeros)
  have c: "target_to_bits t AND COMPACT_TARGET_SIGN_BIT = 0 \<and>
      compact_value (target_to_bits t) = be_val t - be_val t mod 256 ^ dropped_bytes m0 ys"
    using scaled_mantissa [of ys m0] len compact_of_parts [OF small(1) m] compact_of_parts [OF small(2) m']
    unfolding tb bv sz by (cases "unat m0 < 128") simp_all
  have v: "0 < compact_value (target_to_bits t)" "compact_value (target_to_bits t) < 2 ^ 256"
    using c dropped_keeps_top [OF t(2), of ys] be_val_lt [of t] t(3) bv
    by simp_all
  from bits_to_target_value [OF conjunct1 [OF c]] v c show thesis
    by (cases "bits_to_target (target_to_bits t)") (auto intro: that)
qed

section \<open>Lemmas: shifting\<close>

text \<open>The shift by fewer than eight bits, as a recursion over the bytes.\<close>

fun shl_list :: "nat \<Rightarrow> bytes \<Rightarrow> bytes" where
  "shl_list s [] = []"
| "shl_list s (x # xs) =
     (push_bit s x OR drop_bit (8 - s) (case xs of [] \<Rightarrow> 0 | y # _ \<Rightarrow> y)) # shl_list s xs"

lemma length_shl_list [simp]: "length (shl_list s xs) = length xs"
  by (induction xs) simp_all

lemma unat_shl_byte:
  fixes x y :: u8
  assumes "0 < s" "s < 8"
  shows "unat (push_bit s x OR drop_bit (8 - s) y) = unat x * 2 ^ s mod 256 + unat y div 2 ^ (8 - s)"
proof -
  let ?a = "unat x mod 2 ^ (8 - s)"
  have e: "(256 :: nat) = 2 ^ (8 - s) * 2 ^ s"
    using assms by (simp flip: power_add)
  have "unat (push_bit s x) = unat x * 2 ^ s mod 256"
    by (simp only: unsigned_push_bit_eq) (simp add: take_bit_eq_mod push_bit_eq_mult)
  also have "\<dots> = push_bit s ?a"
    unfolding e by (simp add: mult_mod_left push_bit_eq_mult)
  finally have "unat (push_bit s x OR drop_bit (8 - s) y) = push_bit s ?a OR (unat y div 2 ^ (8 - s))"
    by (simp only: unsigned_or_eq unat_drop_bit_eq drop_bit_eq_div [of _ "unat y"])
  moreover have "unat y div 2 ^ (8 - s) < 2 ^ s"
    using unat_u8_lt [of y] e by (simp add: less_mult_imp_div_less mult.commute)
  moreover have "?a * 2 ^ s = unat x * 2 ^ s mod 256"
    unfolding e by (simp add: mult_mod_left)
  ultimately show ?thesis by (simp add: push_bit_or_add)
qed

lemma be_val_shl_list:
  assumes "0 < s" "s < 8"
  shows "be_val (shl_list s xs) + (case xs of [] \<Rightarrow> 0 | x # _ \<Rightarrow> unat x div 2 ^ (8 - s)) * 256 ^ length xs
    = be_val xs * 2 ^ s"
proof (induction xs)
  case (Cons x xs)
  let ?n = "256 ^ length xs :: nat"
  have e: "(256 :: nat) = 2 ^ (8 - s) * 2 ^ s"
    using assms by (simp flip: power_add)
  have "unat x div 2 ^ (8 - s) = unat x * 2 ^ s div 256"
    unfolding e by simp
  then have x: "unat x * 2 ^ s mod 256 + (unat x div 2 ^ (8 - s)) * 256 = unat x * 2 ^ s"
    by simp
  have "be_val (shl_list s (x # xs)) =
      (unat x * 2 ^ s mod 256) * ?n + ((case xs of [] \<Rightarrow> 0 | y # _ \<Rightarrow> unat y div 2 ^ (8 - s)) * ?n
        + be_val (shl_list s xs))"
    using unat_shl_byte [OF assms, of x 0]
    by (cases xs) (simp_all add: be_val_Cons unat_shl_byte [OF assms] algebra_simps)
  also have "\<dots> = (unat x * 2 ^ s mod 256) * ?n + be_val xs * 2 ^ s"
    using Cons by (simp add: add.commute)
  finally have "be_val (shl_list s (x # xs)) + (unat x div 2 ^ (8 - s)) * (256 * ?n)
      = (unat x * 2 ^ s mod 256 + (unat x div 2 ^ (8 - s)) * 256) * ?n + be_val xs * 2 ^ s"
    by (simp add: algebra_simps)
  then show ?case by (simp only: x) (simp add: be_val_Cons algebra_simps)
qed simp

lemma shl_list_nth:
  "i < length xs \<Longrightarrow> shl_list s xs ! i =
     (push_bit s (xs ! i) OR drop_bit (8 - s) (if i + 1 < length xs then xs ! (i + 1) else 0))"
proof (induction xs arbitrary: i)
  case (Cons x xs)
  then show ?case by (cases i) (auto split: list.splits)
qed simp

lemma shl_saturating_no_overflow:
  assumes len: "length t = 32" and b: "b < 32" "b = bits div 8" and s: "s = bits mod 8"
    and no: "\<not> list_ex (\<lambda>b. b \<noteq> 0) (take b t)" "\<not> (0 < s \<and> drop_bit (8 - s) (t ! b) \<noteq> 0)"
  shows "shl_saturating t bits =
    (if s = 0 then drop b t else shl_list s (drop b t)) @ replicate b 0"
proof -
  define f where "f = (\<lambda>i. if i < 32 - b then
      (if s = 0 then t ! (i + b)
       else push_bit s (t ! (i + b)) OR drop_bit (8 - s) (if i + b + 1 < 32 then t ! (i + b + 1) else 0))
      else 0)"
  have "shl_saturating t bits = map f [0..<32]"
    unfolding shl_saturating_def b(2) [symmetric] s [symmetric] Let_def target_consts(1) len f_def
    using no b(1) by simp blast
  also have "\<dots> = (if s = 0 then drop b t else shl_list s (drop b t)) @ replicate b 0"
  proof (rule nth_equalityI)
    fix i assume "i < length (map f [0..<32])"
    then have i: "i < 32" by simp
    then show "map f [0..<32] ! i =
        ((if s = 0 then drop b t else shl_list s (drop b t)) @ replicate b 0) ! i"
    proof (cases "i < 32 - b")
      case True
      then have "i + 1 < length (drop b t) \<longleftrightarrow> i + b + 1 < 32" using len b(1) by auto
      then show ?thesis using True i len b(1)
        by (simp add: f_def nth_append shl_list_nth ac_simps)
    next
      case False
      then show ?thesis using i len b(1) by (simp add: f_def nth_append)
    qed
  qed (use len b in simp)
  finally show ?thesis .
qed

lemma shl_overflow_byte:
  assumes "length t = 32" "b < 32" "list_ex (\<lambda>b. b \<noteq> 0) (take b t)"
  shows "2 ^ 256 \<le> be_val t * 256 ^ b"
proof -
  have "0 < be_val (take b t)" using assms(3) by (simp add: list_ex_be_val)
  then have "1 * 256 ^ (32 - b) \<le> be_val (take b t) * 256 ^ (32 - b)" by (intro mult_le_mono1) simp
  also have "\<dots> \<le> be_val t"
    using be_val_append [of "take b t" "drop b t"] assms(1) by simp
  finally have "256 ^ (32 - b) * 256 ^ b \<le> be_val t * 256 ^ b" by simp
  then show ?thesis using assms(2) by (simp flip: power_add)
qed

lemma be_val_drop_zeros:
  assumes "\<not> list_ex (\<lambda>b. b \<noteq> 0) (take b t)"
  shows "be_val (drop b t) = be_val t"
  using assms be_val_append [of "take b t" "drop b t"] by (simp add: list_ex_be_val)

lemma shl_top_byte:
  assumes len: "length t = 32" and b: "b < 32" and s: "0 < s" "s < 8"
    and z: "\<not> list_ex (\<lambda>b. b \<noteq> 0) (take b t)"
  shows "be_val (shl_list s (drop b t)) + unat (drop_bit (8 - s) (t ! b)) * 256 ^ (32 - b) = be_val t * 2 ^ s"
proof -
  have "drop b t = t ! b # drop (Suc b) t" using len b by (simp add: Cons_nth_drop_Suc)
  moreover have "unat (drop_bit (8 - s) (t ! b)) = unat (t ! b) div 2 ^ (8 - s)"
    by (simp only: unat_drop_bit_eq drop_bit_eq_div [of _ "unat (t ! b)"])
  ultimately have c: "(case drop b t of [] \<Rightarrow> 0 | x # _ \<Rightarrow> unat x div 2 ^ (8 - s)) =
      unat (drop_bit (8 - s) (t ! b))"
    by simp
  show ?thesis
    using be_val_shl_list [OF s, of "drop b t", unfolded c be_val_drop_zeros [OF z]] len
    by simp
qed

lemma be_val_shl_saturating:
  assumes len: "length t = 32"
  shows "be_val (shl_saturating t bits) = min (be_val t * 2 ^ bits) (2 ^ 256 - 1)"
proof -
  define b s where "b = bits div 8" and "s = bits mod 8"
  have "(2 :: nat) ^ bits = 2 ^ (8 * b + s)" by (simp add: b_def s_def)
  also have "\<dots> = (2 ^ 8) ^ b * 2 ^ s" by (simp only: power_add power_mult)
  finally have bits: "(2 :: nat) ^ bits = 256 ^ b * 2 ^ s" by simp
  have s8: "s < 8" by (simp add: s_def)
  have sat: ?thesis
    if "shl_saturating t bits = replicate 32 0xff" "2 ^ 256 \<le> be_val t * 2 ^ bits"
    using that by (simp add: be_val_ff)
  have exact: ?thesis if "be_val (shl_saturating t bits) = be_val t * 2 ^ bits" "length (shl_saturating t bits) = 32"
    using that be_val_lt [of "shl_saturating t bits"] by simp
  have over: "shl_saturating t bits = replicate 32 0xff"
    if "if b \<ge> 32 then list_ex (\<lambda>b. b \<noteq> 0) t
        else list_ex (\<lambda>b. b \<noteq> 0) (take b t) \<or> (s > 0 \<and> drop_bit (8 - s) (t ! b) \<noteq> 0)"
    using that unfolding shl_saturating_def Let_def target_consts(1) b_def s_def by simp
  consider "32 \<le> b" "list_ex (\<lambda>b. b \<noteq> 0) t" | "32 \<le> b" "\<not> list_ex (\<lambda>b. b \<noteq> 0) t"
    | "b < 32" "list_ex (\<lambda>b. b \<noteq> 0) (take b t)"
    | "b < 32" "\<not> list_ex (\<lambda>b. b \<noteq> 0) (take b t)" "0 < s" "drop_bit (8 - s) (t ! b) \<noteq> 0"
    | "b < 32" "\<not> list_ex (\<lambda>b. b \<noteq> 0) (take b t)" "\<not> (0 < s \<and> drop_bit (8 - s) (t ! b) \<noteq> 0)"
    by linarith
  then show ?thesis
  proof cases
    case 1
    have "(256 :: nat) ^ 32 * 1 \<le> 256 ^ b * 2 ^ s" using 1 by (intro mult_le_mono power_increasing) simp_all
    also have "\<dots> \<le> be_val t * 2 ^ bits" using 1 by (simp add: bits list_ex_be_val)
    finally show ?thesis using 1 by (intro sat over) simp_all
  next
    case 2
    then have "shl_saturating t bits = map (\<lambda>_. 0) [0..<32]"
      by (simp add: shl_saturating_def Let_def target_consts(1) b_def)
    then have "shl_saturating t bits = replicate 32 0" by (simp only: map_replicate_const) simp
    with 2 show ?thesis by (simp add: list_ex_be_val)
  next
    case 3
    have "2 ^ 256 * 1 \<le> be_val t * 256 ^ b * 2 ^ s"
      using shl_overflow_byte [OF len 3] by (intro mult_le_mono) simp_all
    then show ?thesis using 3 by (intro sat over) (simp_all add: bits mult.assoc)
  next
    case 4
    have "256 ^ (32 - b) * 1 \<le> unat (drop_bit (8 - s) (t ! b)) * 256 ^ (32 - b)"
      using 4(4) mult_le_mono1 [of 1 "unat (drop_bit (8 - s) (t ! b))" "256 ^ (32 - b)"]
      by (simp add: Suc_leI unat_gt_0)
    then have "256 ^ (32 - b) \<le> be_val t * 2 ^ s"
      using shl_top_byte [OF len 4(1,3) s8 4(2)] by linarith
    then have "256 ^ (32 - b) * 256 ^ b \<le> be_val t * 2 ^ s * 256 ^ b" by simp
    then have "2 ^ 256 \<le> be_val t * 2 ^ bits"
      using 4(1) by (simp add: bits ac_simps flip: power_add)
    then show ?thesis using 4 by (intro sat over) simp_all
  next
    case 5
    note eq = shl_saturating_no_overflow [OF len 5(1) b_def s_def 5(2,3)]
    have "be_val (if s = 0 then drop b t else shl_list s (drop b t)) = be_val t * 2 ^ s"
      using shl_top_byte [OF len 5(1) _ s8 5(2)] 5(3) be_val_drop_zeros [OF 5(2)] by auto
    then have "be_val (shl_saturating t bits) = be_val t * 2 ^ s * 256 ^ b"
      unfolding eq by (simp add: be_val_append)
    moreover have "length (shl_saturating t bits) = 32" unfolding eq using len 5(1) by simp
    ultimately show ?thesis by (intro exact) (simp only: bits ac_simps)
  qed
qed

section \<open>Lemmas: exponent targets\<close>

lemma target_for_exponent_value:
  "length (target_for_exponent e) = 32" "be_val (target_for_exponent e) = 2 ^ (224 - unat e)"
proof -
  let ?k = "224 - unat e"
  have k: "?k div 8 < 32" by simp
  have u: "unat (push_bit (?k mod 8) 1 :: u8) = 2 ^ (?k mod 8)"
    by (simp add: push_bit_eq_mult)
  have "target_for_exponent e = replicate (31 - ?k div 8) 0 @ push_bit (?k mod 8) 1 # replicate (?k div 8) 0"
    using replicate_update1 [of "31 - ?k div 8" 32 "0 :: u8" "push_bit (?k mod 8) 1"] k
    by (simp add: target_for_exponent_def target_consts Let_def)
  moreover have "2 ^ (?k mod 8) * 256 ^ (?k div 8) = (2 :: nat) ^ ?k"
  proof -
    have "(2 :: nat) ^ ?k = 2 ^ (?k mod 8 + 8 * (?k div 8))" by simp
    also have "\<dots> = 2 ^ (?k mod 8) * (2 ^ 8) ^ (?k div 8)" by (simp only: power_add power_mult)
    finally show ?thesis by simp
  qed
  ultimately show "length (target_for_exponent e) = 32" "be_val (target_for_exponent e) = 2 ^ ?k"
    by (simp_all add: be_val_append be_val_Cons u del: replicate_Suc)
qed

lemma share_target_value:
  assumes "unat e < 224"
  shows "\<exists>m0 ys. share_target e = replicate (4 + unat e div 8) 0 @ m0 # ys \<and> m0 \<noteq> 0 \<and>
    length (share_target e) = 32 \<and> be_val (share_target e) = 2 ^ (224 - unat e) - 1"
proof -
  define p r where "p = 4 + unat e div 8" and "r = unat e mod 8"
  have p: "p < 32" using assms by (simp add: p_def)
  have r: "r < 8" by (simp add: r_def)
  have "share_target e = (replicate p 0 @ replicate (32 - p) 0xff)[p := drop_bit r 0xff]"
    using assms p by (simp add: share_target_def target_consts p_def r_def Let_def)
  also have "\<dots> = replicate p 0 @ drop_bit r 0xff # replicate (31 - p) 0xff"
  proof -
    have "32 - p = Suc (31 - p)" using p by simp
    then show ?thesis by (simp add: list_update_append)
  qed
  finally have t: "share_target e = replicate p 0 @ drop_bit r 0xff # replicate (31 - p) 0xff" .
  have "r \<in> {0,1,2,3,4,5,6,7}" using r by auto
  then have m0: "unat (drop_bit r 0xff :: u8) = 2 ^ (8 - r) - 1" by auto
  moreover have "(2 :: nat) ^ 1 \<le> 2 ^ (8 - r)" using r by (intro power_increasing) simp_all
  ultimately have nz: "drop_bit r 0xff \<noteq> (0 :: u8)" by (auto simp: word_unat_eq_iff)
  have "224 - unat e = (8 - r) + 8 * (31 - p)"
    using assms div_mult_mod_eq [of "unat e" 8] r p unfolding p_def r_def by linarith
  then have "(2 :: nat) ^ (224 - unat e) = 2 ^ (8 - r) * (2 ^ 8) ^ (31 - p)"
    by (simp only: power_add power_mult)
  moreover have "be_val (share_target e) = (2 ^ (8 - r) - 1) * 256 ^ (31 - p) + (256 ^ (31 - p) - 1)"
    unfolding t by (simp add: be_val_append be_val_Cons m0 be_val_ff del: One_nat_def)
  ultimately have "be_val (share_target e) = 2 ^ (224 - unat e) - 1"
    by (simp add: algebra_simps)
  with t nz p show ?thesis by (fastforce simp: p_def)
qed

lemma share_nbits_value:
  assumes "unat e < 224"
  obtains t where "bits_to_target (share_nbits e) = Some t" "length t = 32"
    "be_val t < 2 ^ (224 - unat e)"
proof -
  obtain m0 ys where st: "share_target e = replicate (4 + unat e div 8) 0 @ m0 # ys" "m0 \<noteq> 0"
    "length (share_target e) = 32" "be_val (share_target e) = 2 ^ (224 - unat e) - 1"
    using share_target_value [OF assms] by blast
  from bits_to_target_to_bits [OF st(1,2,3)] obtain t where t:
    "bits_to_target (share_nbits e) = Some t" "length t = 32"
    "be_val t = be_val (share_target e) - be_val (share_target e) mod 256 ^ dropped_bytes m0 ys"
    unfolding share_nbits_def by blast
  have "be_val t < 2 ^ (224 - unat e)" using t(3) st(4) by (simp add: less_imp_diff_less)
  with t show thesis by (intro that)
qed

section \<open>What the target arithmetic guarantees\<close>

text \<open>\<open>bits_to_target\<close> decodes the compact encoding exactly: with the sign bit set there is
  no target; otherwise the target is the 32-byte big-endian form of the mantissa times the power
  of 256 the size byte names, and it is refused exactly when that number is zero or does not fit
  in 256 bits.\<close>

theorem bits_to_target_spec:
  "bits_to_target bits =
     (if bits AND COMPACT_TARGET_SIGN_BIT = 0 \<and> 0 < compact_value bits \<and> compact_value bits < 2 ^ 256
      then Some (rev (le_bytes 32 (compact_value bits))) else None)"
proof (cases "bits AND COMPACT_TARGET_SIGN_BIT = 0")
  case True
  show ?thesis
  proof (cases "bits_to_target bits")
    case None
    with bits_to_target_value [OF True] show ?thesis by auto
  next
    case (Some t)
    with bits_to_target_value [OF True] have t: "length t = 32" "be_val t = compact_value bits"
      "0 < compact_value bits" "compact_value bits < 2 ^ 256" by simp_all
    then have "rev t = le_bytes 32 (compact_value bits)"
      using le_bytes_le_val [of "rev t"] by (simp add: be_val_def)
    then have "t = rev (le_bytes 32 (compact_value bits))" by (simp add: rev_swap)
    with Some t True show ?thesis by simp
  qed
qed (simp add: bits_to_target_def)

text \<open>The compact target advertised for a share difficulty is never easier than the
  difficulty itself: \<open>share_nbits\<close> of an exponent decodes, and what it decodes to is below the
  exact target \<open>target_for_exponent\<close>, so a hash that meets the advertised target meets the one
  the share is judged by.\<close>

theorem share_nbits_never_easier:
  assumes "unat e < DIFF1_EXPONENT"
  shows "\<exists>t. bits_to_target (share_nbits e) = Some t \<and> length t = 32 \<and>
    (\<forall>hash. length hash = 32 \<longrightarrow> meets_target hash t \<longrightarrow> meets_target hash (target_for_exponent e))"
proof -
  have "unat e < 224" using assms by (simp add: target_consts)
  then obtain t where "bits_to_target (share_nbits e) = Some t" "length t = 32"
    "be_val t < 2 ^ (224 - unat e)"
    by (rule share_nbits_value)
  then show ?thesis by (auto simp: meets_target_iff target_for_exponent_value)
qed

theorem share_nbits_never_easier_witness:
  "unat (63 :: u8) < DIFF1_EXPONENT \<and> (\<exists>t. bits_to_target (share_nbits 63) = Some t \<and> length t = 32 \<and>
    (\<forall>hash. length hash = 32 \<longrightarrow> meets_target hash t \<longrightarrow> meets_target hash (target_for_exponent 63)))"
  using share_nbits_never_easier [of 63] by (simp add: target_consts)

text \<open>The relay target is the share target times the power of two, saturated: \<open>shl_saturating\<close>
  multiplies by \<open>2 ^ bits\<close> and clamps at the largest target, so shifting never makes a target
  harder and never wraps.\<close>

theorem shl_saturating_spec:
  assumes "length target = TARGET_BYTES"
  shows "length (shl_saturating target bits) = TARGET_BYTES \<and>
    be_val (shl_saturating target bits) = min (be_val target * 2 ^ bits) (2 ^ 256 - 1)"
  using assms be_val_shl_saturating [of target bits]
  by (simp add: target_consts(1) shl_saturating_def Let_def)

theorem shl_saturating_spec_witness:
  "length (target_for_exponent 5) = TARGET_BYTES \<and>
    be_val (shl_saturating (target_for_exponent 5) 3) = min (2 ^ 219 * 2 ^ 3) (2 ^ 256 - 1)"
  using shl_saturating_spec [of "target_for_exponent 5" 3] target_for_exponent_value [of 5]
  by (simp add: target_consts(1))

end
