(* ===== verification/Header.thy ===== *)
theory Header
  imports Bitcoin
begin

text \<open>
  The version 2 block header (\<^verbatim>\<open>core/src/header.rs\<close>): its 164-byte wire form, the two tagged
  SHA-256 stages, the BLAKE2b work root, the input the hardware hashes under each profile, and
  the mask that separates the proof-of-work hash from the block hash.

  SHA-256 and BLAKE2b are the \<^verbatim>\<open>sha2\<close> and \<^verbatim>\<open>blake2\<close> crates: the parameters \<open>sha\<close> and \<open>blake\<close>.
  The code relies on their results being 32 bytes long, which is the hypothesis \<open>hash32\<close> where
  a lemma needs it. The two \<open>i32\<close> fields are kept as their 32-bit patterns: the file only casts
  them and writes them out.
\<close>

section \<open>The header and its wire form\<close>

definition HEADER_V2_SIZE :: nat where "HEADER_V2_SIZE = 164"
definition V2_FLAG :: u32 where "V2_FLAG = 0x80000000"
definition FLAG_USE_TIME_OFFSET :: u8 where "FLAG_USE_TIME_OFFSET = 4"
definition FLAG_PROFILE_MASK :: u8 where "FLAG_PROFILE_MASK = 3"

record block_header_v2 =
  hd_version :: u32
  hd_prev_block :: bytes
  hd_merkle_root :: bytes
  hd_time :: u32
  hd_bits :: u32
  hd_nonce :: u32
  hd_nonce2 :: u32
  hd_nonce3 :: u32
  hd_extranonce :: bytes
  hd_time_offset :: u32
  hd_txcount :: u16
  hd_flags :: u8
  hd_xor_key_mask_clear_bits :: u8
  hd_xor_key :: bytes
  hd_height :: u32
  hd_mm_rhs :: bytes

definition wf_header :: "block_header_v2 \<Rightarrow> bool" where
  "wf_header h \<longleftrightarrow> length (hd_prev_block h) = 32 \<and> length (hd_merkle_root h) = 32 \<and>
     length (hd_extranonce h) = 16 \<and> length (hd_xor_key h) = 16 \<and> length (hd_mm_rhs h) = 32"

definition time_on_wire :: "block_header_v2 \<Rightarrow> u32" where
  "time_on_wire h =
     (if hd_flags h AND FLAG_USE_TIME_OFFSET = 0 then hd_time h else hd_time h - hd_time_offset h)"

definition asic_profile :: "block_header_v2 \<Rightarrow> u8" where
  "asic_profile h = hd_flags h AND FLAG_PROFILE_MASK"

definition serialize_header :: "block_header_v2 \<Rightarrow> bytes" where
  "serialize_header h =
     put_u32_le (V2_FLAG OR (hd_version h AND NOT V2_FLAG)) @ hd_prev_block h @ hd_merkle_root h
     @ put_u32_le (time_on_wire h) @ put_u32_le (hd_bits h) @ put_u32_le (hd_nonce h)
     @ put_u32_le (hd_nonce2 h) @ put_u32_le (hd_nonce3 h) @ hd_extranonce h
     @ put_u32_le (hd_time_offset h) @ put_u16_le (hd_txcount h) @ [hd_flags h]
     @ [hd_xor_key_mask_clear_bits h] @ hd_xor_key h @ put_u32_le (hd_height h) @ hd_mm_rhs h"

definition deserialize_header :: "bytes \<Rightarrow> block_header_v2 option" where
  "deserialize_header b =
     (if length b \<noteq> HEADER_V2_SIZE then None
      else okq (rd_u32 ''version'' (rd_new b)) (\<lambda>(v, r).
        if v AND V2_FLAG = 0 then None else
        okq (rd_arr 32 ''prev block'' r) (\<lambda>(prev_block, r).
        okq (rd_arr 32 ''merkle root'' r) (\<lambda>(merkle_root, r).
        okq (rd_u32 ''time'' r) (\<lambda>(time, r).
        okq (rd_u32 ''bits'' r) (\<lambda>(bits, r).
        okq (rd_u32 ''nonce'' r) (\<lambda>(nonce, r).
        okq (rd_u32 ''nonce2'' r) (\<lambda>(nonce2, r).
        okq (rd_u32 ''nonce3'' r) (\<lambda>(nonce3, r).
        okq (rd_arr 16 ''extranonce'' r) (\<lambda>(extranonce, r).
        okq (rd_u32 ''time offset'' r) (\<lambda>(time_offset, r).
        okq (rd_u16 ''txcount'' r) (\<lambda>(txcount, r).
        okq (rd_u8 ''flags'' r) (\<lambda>(flags, r).
        okq (rd_u8 ''xor key mask clear bits'' r) (\<lambda>(clear_bits, r).
        okq (rd_arr 16 ''xor key'' r) (\<lambda>(xor_key, r).
        okq (rd_u32 ''height'' r) (\<lambda>(height, r).
        okq (rd_arr 32 ''mm rhs'' r) (\<lambda>(mm_rhs, r).
        let h = \<lparr>hd_version = v AND NOT V2_FLAG, hd_prev_block = prev_block,
              hd_merkle_root = merkle_root, hd_time = time, hd_bits = bits, hd_nonce = nonce,
              hd_nonce2 = nonce2, hd_nonce3 = nonce3, hd_extranonce = extranonce,
              hd_time_offset = time_offset, hd_txcount = txcount, hd_flags = flags,
              hd_xor_key_mask_clear_bits = clear_bits, hd_xor_key = xor_key,
              hd_height = height, hd_mm_rhs = mm_rhs\<rparr>
        in Some (if flags AND FLAG_USE_TIME_OFFSET \<noteq> 0
                 then h\<lparr>hd_time := hd_time h + hd_time_offset h\<rparr> else h))))))))))))))))))"

section \<open>What the hardware hashes\<close>

definition ASIC_INPUT_LEN :: "nat list" where "ASIC_INPUT_LEN = [80, 80, 128, 160]"
definition ASIC_INPUT_LEADING_ZEROS :: "nat list" where "ASIC_INPUT_LEADING_ZEROS = [0, 0, 48, 80]"
definition ASIC_INPUT_BODY_LEN :: nat where "ASIC_INPUT_BODY_LEN = 80"
definition ASIC_INPUT_NONCE_AT :: nat where "ASIC_INPUT_NONCE_AT = 32"
definition ASIC_INPUT_NTIME_AT :: nat where "ASIC_INPUT_NTIME_AT = 40"
definition ASIC_INPUT_WORK_ROOT_AT :: nat where "ASIC_INPUT_WORK_ROOT_AT = 48"
definition H1_PREIMAGE_SIZE :: nat where "H1_PREIMAGE_SIZE = 119"
definition H2_PREIMAGE_SIZE :: nat where "H2_PREIMAGE_SIZE = 96"
definition H2_MM_RHS_OFFSET :: nat where "H2_MM_RHS_OFFSET = 64"
definition WORK_ROOT_LEAF_SIZE :: nat where "WORK_ROOT_LEAF_SIZE = 52"
definition WORK_ROOT_H2_OFFSET :: nat where "WORK_ROOT_H2_OFFSET = 4"
definition COINB1_LEADING_ZEROS :: nat where "COINB1_LEADING_ZEROS = WORK_ROOT_H2_OFFSET - 1"
definition WORK_ROOT_EXTRANONCE_OFFSET :: nat where "WORK_ROOT_EXTRANONCE_OFFSET = 36"
definition STRATUM_LEAF_PREFIX_LEN :: nat where
  "STRATUM_LEAF_PREFIX_LEN = WORK_ROOT_H2_OFFSET - COINB1_LEADING_ZEROS"
definition PREVBLOCK_HIDDEN_CLEARED_BYTES :: nat where "PREVBLOCK_HIDDEN_CLEARED_BYTES = 6"

lemmas header_consts = HEADER_V2_SIZE_def V2_FLAG_def FLAG_USE_TIME_OFFSET_def FLAG_PROFILE_MASK_def
  ASIC_INPUT_LEN_def ASIC_INPUT_LEADING_ZEROS_def ASIC_INPUT_BODY_LEN_def ASIC_INPUT_NONCE_AT_def
  ASIC_INPUT_NTIME_AT_def ASIC_INPUT_WORK_ROOT_AT_def H1_PREIMAGE_SIZE_def H2_PREIMAGE_SIZE_def
  H2_MM_RHS_OFFSET_def WORK_ROOT_LEAF_SIZE_def WORK_ROOT_H2_OFFSET_def COINB1_LEADING_ZEROS_def
  WORK_ROOT_EXTRANONCE_OFFSET_def STRATUM_LEAF_PREFIX_LEN_def PREVBLOCK_HIDDEN_CLEARED_BYTES_def

text \<open>\<open>str::as_bytes\<close> of a literal.\<close>

definition as_bytes :: "string \<Rightarrow> bytes" where
  "as_bytes s = map (\<lambda>c. word_of_nat (of_char c)) s"

definition tagged_sha256 :: "(bytes \<Rightarrow> bytes) \<Rightarrow> string \<Rightarrow> bytes \<Rightarrow> bytes" where
  "tagged_sha256 sha tag data = (let t = sha (as_bytes tag) in sha (t @ t @ data))"

definition asic_input_body :: "bytes \<Rightarrow> bytes \<Rightarrow> bytes \<Rightarrow> bytes \<Rightarrow> bytes" where
  "asic_input_body head sia_nonce sia_ntime work_root =
     copy_at ASIC_INPUT_WORK_ROOT_AT work_root
       (copy_at ASIC_INPUT_NTIME_AT sia_ntime
         (copy_at ASIC_INPUT_NONCE_AT sia_nonce
           (copy_at 0 head (replicate ASIC_INPUT_BODY_LEN 0))))"

definition sia_words :: "u32 \<Rightarrow> u32 \<Rightarrow> bytes" where
  "sia_words low high = put_u32_le low @ put_u32_le high"

definition xor_key_hash :: "(bytes \<Rightarrow> bytes) \<Rightarrow> bytes \<Rightarrow> bytes" where
  "xor_key_hash sha xor_key = tagged_sha256 sha ''Bitcoin block hash PoW XOR key'' xor_key"

definition prevblock_hidden :: "(bytes \<Rightarrow> bytes) \<Rightarrow> bytes \<Rightarrow> bytes" where
  "prevblock_hidden sha prev_block =
     (let out = tagged_sha256 sha ''Bitcoin prevblock header, hashed'' (reversed prev_block)
      in copy_at 0 (replicate PREVBLOCK_HIDDEN_CLEARED_BYTES 0) out)"

definition xor_key_mask :: "(bytes \<Rightarrow> bytes) \<Rightarrow> bytes \<Rightarrow> u8 \<Rightarrow> bytes" where
  "xor_key_mask sha xor_key clear_bits =
     (if list_all (\<lambda>b. b = 0) xor_key then replicate 32 0
      else let m = tagged_sha256 sha ''Bitcoin block hash PoW XOR mask'' xor_key;
               clear_bytes = unat (clear_bits div 8);
               m = map (\<lambda>_. 0) (take clear_bytes m) @ drop clear_bytes m
           in if clear_bytes < length m
              then m[clear_bytes := m ! clear_bytes AND drop_bit (unat (clear_bits mod 8)) 0xff]
              else m)"

definition work_root :: "(bytes \<Rightarrow> bytes) \<Rightarrow> bytes \<Rightarrow> bytes \<Rightarrow> bytes" where
  "work_root blake h2 extranonce =
     blake (copy_at WORK_ROOT_EXTRANONCE_OFFSET extranonce
       (copy_at WORK_ROOT_H2_OFFSET h2 (replicate WORK_ROOT_LEAF_SIZE 0)))"

definition work_root_from_stratum ::
  "(bytes \<Rightarrow> bytes) \<Rightarrow> bytes \<Rightarrow> bytes \<Rightarrow> bytes \<Rightarrow> bytes option" where
  "work_root_from_stratum blake coinb1 extranonce coinb2 =
     (let leaf = replicate STRATUM_LEAF_PREFIX_LEN 0 @ coinb1 @ extranonce @ coinb2
      in if length leaf = WORK_ROOT_LEAF_SIZE then Some (blake leaf) else None)"

record hash_stages_t =
  st_h1 :: bytes
  st_h2 :: bytes
  st_work_root :: bytes
  st_xor_key_mask :: bytes

record pow_hashes_t =
  ph_raw_pow_hash :: bytes
  ph_block_hash :: bytes

definition asic_input_with :: "(bytes \<Rightarrow> bytes) \<Rightarrow> block_header_v2 \<Rightarrow> bytes \<Rightarrow> bytes \<Rightarrow> bytes" where
  "asic_input_with sha h root h2 =
     (let profile = asic_profile h in
      if profile = 1 then
        put_u32_le (hd_nonce h) @ put_u32_le (hd_nonce2 h) @ put_u32_le (hd_nonce3 h)
        @ put_u32_le (hd_time_offset h) @ root @ h2
      else
        replicate (ASIC_INPUT_LEADING_ZEROS ! unat profile) 0
        @ asic_input_body (if profile = 0 then prevblock_hidden sha (hd_prev_block h) else h2)
            (sia_words (hd_nonce h) (hd_nonce2 h)) (sia_words (hd_time_offset h) (hd_nonce3 h)) root)"

definition h1_preimage :: "block_header_v2 \<Rightarrow> bytes \<Rightarrow> bytes" where
  "h1_preimage h key_hash =
     put_u32_le (hd_version h OR V2_FLAG) @ reversed (hd_prev_block h) @ put_u32_le (hd_height h)
     @ hd_merkle_root h @ put_u32_le (time_on_wire h) @ [0] @ put_u32_le (hd_bits h)
     @ put_u32_le (ucast (hd_txcount h)) @ [hd_flags h] @ [hd_xor_key_mask_clear_bits h] @ key_hash"

definition hash_stages_with_key_hash ::
  "(bytes \<Rightarrow> bytes) \<Rightarrow> (bytes \<Rightarrow> bytes) \<Rightarrow> block_header_v2 \<Rightarrow> bytes \<Rightarrow> hash_stages_t" where
  "hash_stages_with_key_hash sha blake h key_hash =
     (let h1 = tagged_sha256 sha ''Bitcoin block header 1'' (h1_preimage h key_hash);
          h2d = copy_at H2_MM_RHS_OFFSET (hd_mm_rhs h)
                  (copy_at 0 h1 (replicate H2_PREIMAGE_SIZE 0));
          h2 = tagged_sha256 sha ''Merge-mining hook'' h2d
      in \<lparr>st_h1 = h1, st_h2 = h2, st_work_root = work_root blake h2 (hd_extranonce h),
          st_xor_key_mask = xor_key_mask sha (hd_xor_key h) (hd_xor_key_mask_clear_bits h)\<rparr>)"

definition hash_stages ::
  "(bytes \<Rightarrow> bytes) \<Rightarrow> (bytes \<Rightarrow> bytes) \<Rightarrow> block_header_v2 \<Rightarrow> hash_stages_t" where
  "hash_stages sha blake h = hash_stages_with_key_hash sha blake h (xor_key_hash sha (hd_xor_key h))"

definition raw_pow_hash ::
  "(bytes \<Rightarrow> bytes) \<Rightarrow> (bytes \<Rightarrow> bytes) \<Rightarrow> block_header_v2 \<Rightarrow> hash_stages_t \<Rightarrow> bytes" where
  "raw_pow_hash sha blake h stages = blake (asic_input_with sha h (st_work_root stages) (st_h2 stages))"

definition pow_hashes ::
  "(bytes \<Rightarrow> bytes) \<Rightarrow> (bytes \<Rightarrow> bytes) \<Rightarrow> block_header_v2 \<Rightarrow> pow_hashes_t" where
  "pow_hashes sha blake h =
     (let stages = hash_stages sha blake h; raw = raw_pow_hash sha blake h stages
      in \<lparr>ph_raw_pow_hash = raw, ph_block_hash = map2 (XOR) raw (st_xor_key_mask stages)\<rparr>)"

definition hash32 :: "(bytes \<Rightarrow> bytes) \<Rightarrow> bool" where
  "hash32 h \<longleftrightarrow> (\<forall>x. length (h x) = 32)"

section \<open>Lemmas: the wire form\<close>

lemma v2_flag_bits:
  "(V2_FLAG OR (v AND NOT V2_FLAG)) AND V2_FLAG = V2_FLAG"
  "(V2_FLAG OR (v AND NOT V2_FLAG)) AND NOT V2_FLAG = v AND NOT V2_FLAG"
  "v AND V2_FLAG \<noteq> 0 \<Longrightarrow> V2_FLAG OR (v AND NOT V2_FLAG) = v"
proof -
  have flag: "V2_FLAG = 2 ^ 31" by (simp add: header_consts)
  have b: "bit V2_FLAG n \<longleftrightarrow> n = 31" for n
    unfolding flag by (auto simp: bit_exp_iff simp del: power_numeral)
  show "(V2_FLAG OR (v AND NOT V2_FLAG)) AND V2_FLAG = V2_FLAG"
    "(V2_FLAG OR (v AND NOT V2_FLAG)) AND NOT V2_FLAG = v AND NOT V2_FLAG"
    by (rule bit_eqI; auto simp: bit_and_iff bit_or_iff bit_not_iff b)+
  assume "v AND V2_FLAG \<noteq> 0"
  then have "bit v 31" by (metis flag and_exp_eq_0_iff_not_bit)
  then show "V2_FLAG OR (v AND NOT V2_FLAG) = v"
    by (intro bit_eqI) (auto simp: bit_and_iff bit_or_iff bit_not_iff b)
qed

lemma length_serialize_header:
  "wf_header h \<Longrightarrow> length (serialize_header h) = HEADER_V2_SIZE"
  by (simp add: serialize_header_def wf_header_def header_consts)

lemma deserialize_serialize_header:
  assumes "wf_header h"
  shows "deserialize_header (serialize_header h) = Some (h\<lparr>hd_version := hd_version h AND NOT V2_FLAG\<rparr>)"
proof -
  have nz: "V2_FLAG \<noteq> 0" by (simp add: header_consts)
  note [simp] = v2_flag_bits(1,2) nz
  have "deserialize_header (serialize_header h) =
      Some (h\<lparr>hd_version := hd_version h AND NOT V2_FLAG\<rparr>)"
    using assms length_serialize_header [OF assms]
    unfolding deserialize_header_def rd_new_def serialize_header_def
    by (simp add: wire wf_header_def time_on_wire_def Let_def)
  then show ?thesis .
qed

lemma serialize_deserialize_header:
  assumes "deserialize_header b = Some h"
  shows "serialize_header h = b" "wf_header h"
proof -
  have "serialize_header h = b \<and> wf_header h"
    using assms
    by (auto simp: deserialize_header_def okq_Some_iff serialize_header_def Let_def header_consts(1)
        wf_header_def v2_flag_bits(3) time_on_wire_def dest!: rd_restD split: if_splits)
  then show "serialize_header h = b" "wf_header h" by simp_all
qed

section \<open>Lemmas: the work root and the mask\<close>

lemma work_root_leaf:
  assumes "length h2 = 32" "length extranonce = 16"
  shows "work_root blake h2 extranonce = blake (replicate 4 0 @ h2 @ extranonce)"
  using assms by (simp add: work_root_def copy_at_def header_consts)

lemma length_tagged_sha256: "hash32 sha \<Longrightarrow> length (tagged_sha256 sha tag data) = 32"
  by (simp add: tagged_sha256_def hash32_def Let_def)

lemma length_xor_key_mask: "hash32 sha \<Longrightarrow> length (xor_key_mask sha k c) = 32"
  by (simp add: xor_key_mask_def Let_def length_tagged_sha256)

lemma xor_key_mask_cleared:
  assumes "hash32 sha"
  shows "take (unat c div 8) (xor_key_mask sha k c) = replicate (unat c div 8) 0"
    "unat c div 8 < 32 \<Longrightarrow> unat (xor_key_mask sha k c ! (unat c div 8)) < 2 ^ (8 - unat c mod 8)"
proof -
  have d: "unat (c div 8) = unat c div 8" "unat (c mod 8) = unat c mod 8" by (simp_all add: unat_div unat_mod)
  have n: "unat c div 8 \<le> 31" using unat_u8_lt [of c] by simp
  show "take (unat c div 8) (xor_key_mask sha k c) = replicate (unat c div 8) 0"
    using n length_tagged_sha256 [OF assms]
    by (simp add: xor_key_mask_def Let_def d map_replicate_const)
  assume "unat c div 8 < 32"
  let ?m = "drop_bit (unat c mod 8) 0xff :: u8"
  have "unat c mod 8 \<in> {0,1,2,3,4,5,6,7}" by auto
  then have "unat ?m < 2 ^ (8 - unat c mod 8)" by auto
  moreover have "x AND ?m \<le> ?m" for x by (rule word_and_le1)
  ultimately have "unat (x AND ?m) < 2 ^ (8 - unat c mod 8)" for x
    by (meson le_less_trans word_le_nat_alt)
  then show "unat (xor_key_mask sha k c ! (unat c div 8)) < 2 ^ (8 - unat c mod 8)"
    using n length_tagged_sha256 [OF assms]
    by (simp add: xor_key_mask_def Let_def d)
qed

lemma length_prevblock_hidden: "hash32 sha \<Longrightarrow> length (prevblock_hidden sha p) = 32"
  by (simp add: prevblock_hidden_def Let_def header_consts length_tagged_sha256)

lemma length_asic_input_with:
  assumes "hash32 sha" "length root = 32" "length h2 = 32"
  shows "length (asic_input_with sha h root h2) = ASIC_INPUT_LEN ! unat (asic_profile h)"
proof -
  have "unat (asic_profile h) \<le> unat FLAG_PROFILE_MASK"
    unfolding asic_profile_def by (metis word_and_le1 word_le_nat_alt)
  then have "unat (asic_profile h) \<in> {0, 1, 2, 3}" by (auto simp: header_consts)
  moreover have "asic_profile h = 1 \<longleftrightarrow> unat (asic_profile h) = 1"
    "asic_profile h = 0 \<longleftrightarrow> unat (asic_profile h) = 0" by (simp_all add: word_unat_eq_iff)
  ultimately show ?thesis
    using assms length_prevblock_hidden [OF assms(1)]
    by (auto simp: asic_input_with_def Let_def asic_input_body_def sia_words_def header_consts)
qed

section \<open>What the header code guarantees\<close>

text \<open>A header survives the wire: every header with its arrays of the right length serializes to
  \<open>HEADER_V2_SIZE\<close> bytes and is read back with only the version flag bit normalised, and any bytes
  \<open>deserialize_header\<close> accepts are the serialization of the header it returns, so no two byte
  strings decode to one header.\<close>

theorem header_roundtrip:
  "(wf_header h \<longrightarrow> length (serialize_header h) = HEADER_V2_SIZE \<and>
      deserialize_header (serialize_header h) = Some (h\<lparr>hd_version := hd_version h AND NOT V2_FLAG\<rparr>)) \<and>
   (deserialize_header b = Some g \<longrightarrow> serialize_header g = b \<and> wf_header g)"
  using deserialize_serialize_header length_serialize_header serialize_deserialize_header by blast

definition sample_header :: block_header_v2 where
  "sample_header = \<lparr>hd_version = 4, hd_prev_block = replicate 32 1, hd_merkle_root = replicate 32 2,
     hd_time = 100, hd_bits = 0x1d00ffff, hd_nonce = 7, hd_nonce2 = 8, hd_nonce3 = 9,
     hd_extranonce = replicate 16 3, hd_time_offset = 200, hd_txcount = 5, hd_flags = 4,
     hd_xor_key_mask_clear_bits = 12, hd_xor_key = replicate 16 6, hd_height = 840000,
     hd_mm_rhs = replicate 32 0\<rparr>"

theorem header_roundtrip_witness:
  "wf_header sample_header \<and> length (serialize_header sample_header) = HEADER_V2_SIZE \<and>
   deserialize_header (serialize_header sample_header) = Some sample_header"
proof -
  have "wf_header sample_header" by (simp add: sample_header_def wf_header_def)
  moreover have "hd_version sample_header AND NOT V2_FLAG = hd_version sample_header"
    by (simp add: sample_header_def header_consts)
  ultimately show ?thesis
    using header_roundtrip [of sample_header "[]" sample_header] by simp
qed

text \<open>The work root a stratum miner computes from \<open>coinb1\<close> (the gateway's zeros and H2), the
  extranonce and an empty \<open>coinb2\<close> is the work root of the header, and
  \<open>work_root_from_stratum\<close> answers only for fields that total a whole leaf.\<close>

theorem work_root_agrees:
  assumes "length h2 = 32" "length extranonce = 16"
  shows "work_root_from_stratum blake (replicate COINB1_LEADING_ZEROS 0 @ h2) extranonce [] =
      Some (work_root blake h2 extranonce) \<and>
    (length coinb1 + length en + length coinb2 \<noteq> 51 \<longrightarrow>
      work_root_from_stratum blake coinb1 en coinb2 = None)"
  using assms by (simp add: work_root_leaf work_root_from_stratum_def header_consts numeral_nat)

theorem work_root_agrees_witness:
  "length (replicate 32 1 :: bytes) = 32 \<and> length (replicate 16 2 :: bytes) = 16 \<and>
   work_root_from_stratum id (replicate COINB1_LEADING_ZEROS 0 @ replicate 32 1) (replicate 16 2) [] =
     Some (work_root id (replicate 32 1) (replicate 16 2))"
  using work_root_agrees [of "replicate 32 1" "replicate 16 2" id] by simp

text \<open>The block hash differs from the proof-of-work hash only below the cleared bits: the mask's
  first \<open>clear_bits\<close> bits are zero, so the leading bytes of the two hashes are equal and so are the
  leading bits of the byte the boundary falls in; masking again gives the proof-of-work hash back.\<close>

theorem xor_mask_spares_leading_bits:
  assumes "hash32 sha" "hash32 blake" and c_def: "c = unat (hd_xor_key_mask_clear_bits h)"
    and raw_def: "raw = ph_raw_pow_hash (pow_hashes sha blake h)"
    and blk_def: "blk = ph_block_hash (pow_hashes sha blake h)"
  shows "take (c div 8) blk = take (c div 8) raw \<and>
    drop_bit (8 - c mod 8) (blk ! (c div 8)) = drop_bit (8 - c mod 8) (raw ! (c div 8)) \<and>
    map2 (XOR) blk (st_xor_key_mask (hash_stages sha blake h)) = raw"
proof -
  let ?m = "xor_key_mask sha (hd_xor_key h) (hd_xor_key_mask_clear_bits h)"
  have m: "st_xor_key_mask (hash_stages sha blake h) = ?m"
    by (simp add: hash_stages_def hash_stages_with_key_hash_def Let_def)
  have blk: "blk = map2 (XOR) raw ?m" by (simp add: blk_def raw_def pow_hashes_def Let_def m)
  have len: "length raw = 32" "length ?m = 32"
    using assms(1,2) by (simp_all add: raw_def pow_hashes_def Let_def raw_pow_hash_def hash32_def
        length_xor_key_mask [unfolded hash32_def])
  have n: "c div 8 < 32" using unat_u8_lt [of "hd_xor_key_mask_clear_bits h"] by (simp add: c_def)
  note cl = xor_key_mask_cleared [OF assms(1), of "hd_xor_key_mask_clear_bits h" "hd_xor_key h", folded c_def]
  have bytes: "?m ! i = 0" if "i < c div 8" for i
    using arg_cong [OF cl(1), of "\<lambda>xs. xs ! i"] that by simp
  have 1: "take (c div 8) blk = take (c div 8) raw"
    using len n bytes by (intro nth_equalityI) (simp_all add: blk)
  have "drop_bit (8 - c mod 8) (?m ! (c div 8)) = 0"
    using cl(2) [OF n]
    by (simp only: word_unat_eq_iff unat_drop_bit_eq drop_bit_eq_div [of _ "unat _"]) simp
  then have 2: "drop_bit (8 - c mod 8) (blk ! (c div 8)) = drop_bit (8 - c mod 8) (raw ! (c div 8))"
    using len n by (simp add: blk drop_bit_xor)
  have 3: "map2 (XOR) blk ?m = raw"
    using len by (intro nth_equalityI) (simp_all add: blk xor.assoc)
  from 1 2 3 m show ?thesis by simp
qed

theorem xor_mask_spares_leading_bits_witness:
  "hash32 (\<lambda>_. replicate 32 0xff) \<and> hash32 (\<lambda>_. replicate 32 0xa5) \<and>
   take 1 (ph_block_hash (pow_hashes (\<lambda>_. replicate 32 0xff) (\<lambda>_. replicate 32 0xa5) sample_header)) =
     take 1 (ph_raw_pow_hash (pow_hashes (\<lambda>_. replicate 32 0xff) (\<lambda>_. replicate 32 0xa5) sample_header))"
  using xor_mask_spares_leading_bits [of "\<lambda>_. replicate 32 0xff" "\<lambda>_. replicate 32 0xa5" 12 sample_header, OF _ _ _ refl refl]
  by (simp add: hash32_def sample_header_def)

end
