(* ===== verification/Framing.thy ===== *)
theory Framing
  imports Reader
begin

text \<open>
  The frame header of the DATUM wire (\<^verbatim>\<open>core/src/datum/framing.rs\<close>): the four bytes that carry a
  command's length and flags, the ratchet that masks them and that both ends advance in step, and
  the nonces and header keys both ends derive from the \<open>nk\<close> of the hello. Reading frames off a
  socket (\<open>read_next_frame\<close>, \<open>read_frame\<close>) is I/O and is not modelled.

  The locale \<open>in_step\<close> is the contract of a sender and a receiver that keep matching states: what
  is sent is received and the states match again. It is interpreted here on the masking ratchet,
  and used for the encrypted channel in \<open>Channel\<close>.
\<close>

section \<open>Constants\<close>

definition HEADER_LEN :: nat where "HEADER_LEN = 4"
definition CMD_LEN_BITS :: nat where "CMD_LEN_BITS = 22"
definition CMD_LEN_MASK :: u32 where "CMD_LEN_MASK = push_bit CMD_LEN_BITS 1 - 1"
definition MAX_CMD_LEN :: nat where "MAX_CMD_LEN = unat CMD_LEN_MASK"
definition INITIAL_HEADER_KEY :: u32 where "INITIAL_HEADER_KEY = 0xDC871829"
definition NONCE_LEN :: nat where "NONCE_LEN = 24"
definition WORD_SIZE :: nat where "WORD_SIZE = 4"
definition NONCE_SEED_AT :: nat where "NONCE_SEED_AT = 7"
definition NONCE_STEP :: u32 where "NONCE_STEP = 42"
definition SENDER_MASK :: u32 where "SENDER_MASK = 0x57575757"
definition HELLO_OR_PING :: u8 where "HELLO_OR_PING = 1"
definition HANDSHAKE_RESPONSE :: u8 where "HANDSHAKE_RESPONSE = 2"
definition MINING :: u8 where "MINING = 5"
definition BULK :: u8 where "BULK = 6"
definition INFO :: u8 where "INFO = 7"
definition RESERVED_SHIFT :: nat where "RESERVED_SHIFT = CMD_LEN_BITS"
definition RESERVED_MASK :: u32 where "RESERVED_MASK = 0x3"
definition SIGNED_BIT :: nat where "SIGNED_BIT = 24"
definition ENCRYPTED_PUBKEY_BIT :: nat where "ENCRYPTED_PUBKEY_BIT = 25"
definition ENCRYPTED_CHANNEL_BIT :: nat where "ENCRYPTED_CHANNEL_BIT = 26"
definition PROTO_CMD_SHIFT :: nat where "PROTO_CMD_SHIFT = 27"
definition PROTO_CMD_MASK :: u32 where "PROTO_CMD_MASK = 0x1f"

section \<open>The header\<close>

record frame_header =
  fh_cmd_len :: u32
  fh_reserved :: u8
  fh_is_signed :: bool
  fh_is_encrypted_pubkey :: bool
  fh_is_encrypted_channel :: bool
  fh_proto_cmd :: u8

definition default_header :: frame_header where
  "default_header = \<lparr>fh_cmd_len = 0, fh_reserved = 0, fh_is_signed = False,
     fh_is_encrypted_pubkey = False, fh_is_encrypted_channel = False, fh_proto_cmd = 0\<rparr>"

definition header_word :: "frame_header \<Rightarrow> u32" where
  "header_word h =
     (((((fh_cmd_len h AND CMD_LEN_MASK)
      OR push_bit RESERVED_SHIFT (ucast (fh_reserved h) AND RESERVED_MASK))
      OR push_bit SIGNED_BIT (of_bool (fh_is_signed h)))
      OR push_bit ENCRYPTED_PUBKEY_BIT (of_bool (fh_is_encrypted_pubkey h)))
      OR push_bit ENCRYPTED_CHANNEL_BIT (of_bool (fh_is_encrypted_channel h)))
      OR push_bit PROTO_CMD_SHIFT (ucast (fh_proto_cmd h) AND PROTO_CMD_MASK)"

definition header_to_bytes :: "frame_header \<Rightarrow> bytes" where
  "header_to_bytes h = put_u32_le (header_word h)"

definition header_from_bytes :: "bytes \<Rightarrow> frame_header" where
  "header_from_bytes b =
     (let v = u32_from_le b in
      \<lparr>fh_cmd_len = v AND CMD_LEN_MASK,
       fh_reserved = ucast (drop_bit RESERVED_SHIFT v AND RESERVED_MASK),
       fh_is_signed = (v AND push_bit SIGNED_BIT 1 \<noteq> 0),
       fh_is_encrypted_pubkey = (v AND push_bit ENCRYPTED_PUBKEY_BIT 1 \<noteq> 0),
       fh_is_encrypted_channel = (v AND push_bit ENCRYPTED_CHANNEL_BIT 1 \<noteq> 0),
       fh_proto_cmd = ucast (drop_bit PROTO_CMD_SHIFT v AND PROTO_CMD_MASK)\<rparr>)"

section \<open>The ratchet\<close>

definition feedback :: "u32 \<Rightarrow> u32" where
  "feedback i =
     (let h = 0xb10cfeed; k = i;
          k = k * 0xcc9e2d51;
          k = word_rotl 15 k;
          k = k * 0x1b873593;
          h = h XOR k;
          h = word_rotl 13 h;
          h = h * 5 + 0xe6546b64;
          h = h XOR 4;
          h = h XOR drop_bit 16 h;
          h = h * 0x85ebca6b;
          h = h XOR drop_bit 13 h;
          h = h * 0xc2b2ae35;
          h = h XOR drop_bit 16 h
      in h)"

record header_key_ratchet =
  rk_key :: u32

definition ratchet_new :: "u32 \<Rightarrow> header_key_ratchet" where
  "ratchet_new key = \<lparr>rk_key = key\<rparr>"

definition ratchet_initial :: header_key_ratchet where
  "ratchet_initial = ratchet_new INITIAL_HEADER_KEY"

definition ratchet_mask :: "header_key_ratchet \<Rightarrow> frame_header \<Rightarrow> bytes \<times> header_key_ratchet" where
  "ratchet_mask r h =
     (let v = u32_from_le (header_to_bytes h) XOR rk_key r
      in (put_u32_le v, r\<lparr>rk_key := feedback (rk_key r)\<rparr>))"

definition ratchet_unmask :: "header_key_ratchet \<Rightarrow> bytes \<Rightarrow> frame_header \<times> header_key_ratchet" where
  "ratchet_unmask r b =
     (let v = u32_from_le b XOR rk_key r
      in (header_from_bytes (put_u32_le v), r\<lparr>rk_key := feedback (rk_key r)\<rparr>))"

record header_keys =
  hk_client_to_server :: u32
  hk_server_to_client :: u32

definition header_keys_from_nk :: "u32 \<Rightarrow> header_keys" where
  "header_keys_from_nk nk =
     \<lparr>hk_client_to_server = feedback nk, hk_server_to_client = feedback (NOT nk)\<rparr>"

section \<open>Nonces\<close>

record session_nonces =
  sn_client_receiver :: bytes
  sn_client_sender :: bytes

fun derive_words :: "nat \<Rightarrow> u32 \<Rightarrow> bytes \<times> bytes" where
  "derive_words 0 n = ([], [])"
| "derive_words (Suc k) n =
     (let r = feedback (n - NONCE_STEP); (rx, tx) = derive_words k (NOT r)
      in (put_u32_le r @ rx, put_u32_le (r XOR SENDER_MASK) @ tx))"

definition session_nonces_derive :: "u32 \<Rightarrow> bytes \<Rightarrow> session_nonces" where
  "session_nonces_derive nk session_sign_pk =
     (let seed = take WORD_SIZE (drop NONCE_SEED_AT session_sign_pk);
          n = (nk - NONCE_STEP) XOR u32_from_le seed;
          (receiver, sender) = derive_words (NONCE_LEN div WORD_SIZE) n
      in \<lparr>sn_client_receiver = receiver, sn_client_sender = sender\<rparr>)"

fun increment_words :: "nat \<Rightarrow> bytes \<Rightarrow> bytes" where
  "increment_words 0 nonce = nonce"
| "increment_words (Suc k) nonce =
     (let raised = u32_from_le (take WORD_SIZE nonce) + 1
      in put_u32_le raised @
         (if raised \<noteq> 0 then drop WORD_SIZE nonce else increment_words k (drop WORD_SIZE nonce)))"

definition increment_nonce :: "bytes \<Rightarrow> bytes" where
  "increment_nonce nonce = increment_words (length nonce div WORD_SIZE) nonce"

lemmas framing_consts = HEADER_LEN_def CMD_LEN_BITS_def NONCE_LEN_def WORD_SIZE_def NONCE_SEED_AT_def
  RESERVED_SHIFT_def SIGNED_BIT_def ENCRYPTED_PUBKEY_BIT_def ENCRYPTED_CHANNEL_BIT_def PROTO_CMD_SHIFT_def

section \<open>The interface: two ends in step\<close>

text \<open>
  \<open>send s m\<close> is what goes on the wire and the sender's next state, \<open>recv r w\<close> what the receiver
  makes of it. While \<open>step s r\<close> holds, whatever is sendable arrives, and it holds afterwards.
\<close>

locale in_step =
  fixes send :: "'s \<Rightarrow> 'm \<Rightarrow> ('w \<times> 's) option"
    and recv :: "'r \<Rightarrow> 'w \<Rightarrow> ('m \<times> 'r) option"
    and step :: "'s \<Rightarrow> 'r \<Rightarrow> bool"
  assumes delivered:
    "step s r \<Longrightarrow> send s m = Some (w, s') \<Longrightarrow> \<exists>r'. recv r w = Some (m, r') \<and> step s' r'"
begin

primrec send_all :: "'s \<Rightarrow> 'm list \<Rightarrow> ('w list \<times> 's) option" where
  "send_all s [] = Some ([], s)"
| "send_all s (m # ms) = Option.bind (send s m)
     (\<lambda>(w, s). Option.bind (send_all s ms) (\<lambda>(ws, s). Some (w # ws, s)))"

primrec recv_all :: "'r \<Rightarrow> 'w list \<Rightarrow> ('m list \<times> 'r) option" where
  "recv_all r [] = Some ([], r)"
| "recv_all r (w # ws) = Option.bind (recv r w)
     (\<lambda>(m, r). Option.bind (recv_all r ws) (\<lambda>(ms, r). Some (m # ms, r)))"

lemma stream_delivered:
  "step s r \<Longrightarrow> send_all s ms = Some (ws, s') \<Longrightarrow> \<exists>r'. recv_all r ws = Some (ms, r') \<and> step s' r'"
proof (induction ms arbitrary: s r ws)
  case (Cons m ms)
  then obtain w t vs where m: "send s m = Some (w, t)" "send_all t ms = Some (vs, s')" "ws = w # vs"
    by (auto split: bind_splits)
  obtain r1 where r1: "recv r w = Some (m, r1)" "step t r1"
    using delivered [OF Cons.prems(1) m(1)] by blast
  from Cons.IH [OF r1(2) m(2)] r1 m(3) show ?case by auto
qed simp

end

section \<open>Lemmas: the header\<close>

lemma header_masks:
  "CMD_LEN_MASK = mask 22" "RESERVED_MASK = mask 2" "PROTO_CMD_MASK = mask 5"
  by (simp_all add: CMD_LEN_MASK_def RESERVED_MASK_def PROTO_CMD_MASK_def CMD_LEN_BITS_def
      mask_eq_exp_minus_1)

lemma MAX_CMD_LEN_val: "MAX_CMD_LEN = 4194303"
  by (simp add: MAX_CMD_LEN_def CMD_LEN_MASK_def CMD_LEN_BITS_def)

definition wf_frame_header :: "frame_header \<Rightarrow> bool" where
  "wf_frame_header h \<longleftrightarrow> unat (fh_cmd_len h) \<le> MAX_CMD_LEN \<and> unat (fh_reserved h) < 4 \<and> unat (fh_proto_cmd h) < 32"

lemma bit_header_word:
  "bit (header_word h) n \<longleftrightarrow>
     (if n < 22 then bit (fh_cmd_len h) n
      else if n < 24 then bit (fh_reserved h) (n - 22)
      else if n = 24 then fh_is_signed h
      else if n = 25 then fh_is_encrypted_pubkey h
      else if n = 26 then fh_is_encrypted_channel h
      else n < 32 \<and> bit (fh_proto_cmd h) (n - 27))"
  by (auto simp: header_word_def header_masks framing_consts bit_simps)

lemma take_bit_small: "unat (w :: 'a::len word) < 2 ^ n \<Longrightarrow> take_bit n w = w"
  by (simp add: word_unat_eq_iff unsigned_take_bit_eq take_bit_nat_eq_self)

lemma and_push_bit_1_iff: "(v :: u32) AND push_bit n 1 \<noteq> 0 \<longleftrightarrow> bit v n"
  by (simp add: push_bit_of_1 and_exp_eq_0_iff_not_bit)

lemma header_from_bytes_fields:
  "header_from_bytes b =
     \<lparr>fh_cmd_len = take_bit 22 (u32_from_le b), fh_reserved = ucast (take_bit 2 (drop_bit 22 (u32_from_le b))),
      fh_is_signed = bit (u32_from_le b) 24, fh_is_encrypted_pubkey = bit (u32_from_le b) 25,
      fh_is_encrypted_channel = bit (u32_from_le b) 26,
      fh_proto_cmd = ucast (take_bit 5 (drop_bit 27 (u32_from_le b)))\<rparr>"
  unfolding header_from_bytes_def Let_def header_masks framing_consts
    and_push_bit_1_iff take_bit_eq_mask [symmetric] by simp

lemma header_from_to_bytes:
  assumes "wf_frame_header h"
  shows "header_from_bytes (header_to_bytes h) = h"
proof -
  let ?v = "header_word h"
  have small: "take_bit 22 (fh_cmd_len h) = fh_cmd_len h" "take_bit 2 (fh_reserved h) = fh_reserved h"
    "take_bit 5 (fh_proto_cmd h) = fh_proto_cmd h"
    using assms by (simp_all add: wf_frame_header_def MAX_CMD_LEN_val take_bit_small)
  have "take_bit 22 ?v = take_bit 22 (fh_cmd_len h)"
    by (rule bit_eqI) (auto simp: bit_header_word bit_take_bit_iff)
  moreover have "ucast (take_bit 2 (drop_bit 22 ?v)) = take_bit 2 (fh_reserved h)"
    by (rule bit_eqI) (auto simp: bit_header_word bit_simps)
  moreover have "ucast (take_bit 5 (drop_bit 27 ?v)) = take_bit 5 (fh_proto_cmd h)"
    by (rule bit_eqI) (auto simp: bit_header_word bit_simps)
  ultimately show ?thesis
    by (simp add: header_from_bytes_fields header_to_bytes_def bit_header_word small)
qed

lemma header_to_from_bytes:
  assumes "length b = 4"
  shows "header_to_bytes (header_from_bytes b) = b"
proof -
  let ?v = "u32_from_le b"
  have "header_word (header_from_bytes b) = ?v"
    by (rule bit_eqI) (auto simp: bit_header_word header_from_bytes_fields bit_simps)
  then show ?thesis using assms by (simp add: header_to_bytes_def put_from)
qed

section \<open>Lemmas: the ratchet\<close>

lemma unmask_mask:
  assumes "wf_frame_header h"
  shows "ratchet_unmask r (fst (ratchet_mask r h)) = (h, snd (ratchet_mask r h))"
  using header_from_to_bytes [OF assms]
  by (simp add: ratchet_mask_def ratchet_unmask_def Let_def xor.assoc header_to_bytes_def)

definition send_header :: "header_key_ratchet \<Rightarrow> frame_header \<Rightarrow> (bytes \<times> header_key_ratchet) option" where
  "send_header r h = (if wf_frame_header h then Some (ratchet_mask r h) else None)"

definition recv_header :: "header_key_ratchet \<Rightarrow> bytes \<Rightarrow> (frame_header \<times> header_key_ratchet) option" where
  "recv_header r b = Some (ratchet_unmask r b)"

interpretation masked: in_step send_header recv_header "(=)"
proof
  fix s r :: header_key_ratchet and m w s'
  assume "s = r" "send_header s m = Some (w, s')"
  then show "\<exists>r'. recv_header r w = Some (m, r') \<and> s' = r'"
    using unmask_mask [of m r] by (auto simp: send_header_def recv_header_def split: if_splits)
qed

section \<open>Lemmas: nonces\<close>

lemma unat_u32_Suc: "unat (w + 1 :: u32) = (if w + 1 = 0 then 0 else unat w + 1)"
  using unatSuc [of w] by (simp add: add.commute)

lemma increment_words_val:
  "length nonce = 4 * k \<Longrightarrow>
     length (increment_words k nonce) = length nonce \<and>
     le_val (increment_words k nonce) = (le_val nonce + 1) mod 256 ^ (4 * k)"
proof (induction k arbitrary: nonce)
  case (Suc k)
  let ?w = "take 4 nonce" and ?t = "drop 4 nonce"
  let ?r = "u32_from_le ?w + 1"
  have len: "length ?w = 4" "length ?t = 4 * k" using Suc.prems by simp_all
  have split: "le_val nonce = le_val ?w + 256 ^ 4 * le_val ?t"
    using le_val_append [of ?w ?t] len by simp
  have wlt: "le_val ?w < 256 ^ 4" and tlt: "le_val ?t < 256 ^ (4 * k)"
    using le_val_lt [of ?w] le_val_lt [of ?t] len by simp_all
  have put: "le_val (put_u32_le v) = unat v" for v
    using unat_from_le(2) [of "put_u32_le v"] by simp
  have pow: "(256 :: nat) ^ (4 * Suc k) = 256 ^ 4 * 256 ^ (4 * k)" by (simp add: power_add)
  show ?case
  proof (cases "?r = 0")
    case False
    then have "unat ?r = le_val ?w + 1" by (simp add: unat_u32_Suc unat_from_le(2) [OF len(1)])
    moreover have "unat ?r < 256 ^ 4" using unat_word_lt(3) [of ?r] by simp
    ultimately have "le_val nonce + 1 < 256 ^ 4 * (le_val ?t + 1)" by (simp add: split)
    also have "\<dots> \<le> 256 ^ 4 * 256 ^ (4 * k)" using tlt by (intro mult_le_mono2) simp
    finally have "(le_val nonce + 1) mod 256 ^ (4 * Suc k) = le_val nonce + 1" by (simp only: pow mod_less)
    with False \<open>unat ?r = le_val ?w + 1\<close> len split put show ?thesis
      by (simp add: WORD_SIZE_def le_val_append Let_def)
  next
    case True
    then have "u32_from_le ?w = - 1" by (simp add: eq_neg_iff_add_eq_0)
    then have "unat (u32_from_le ?w) = 4294967295"
      by (simp add: unsigned_minus_1_eq_mask mask_eq_exp_minus_1)
    then have "le_val ?w + 1 = 256 ^ 4" using unat_from_le(2) [OF len(1)] by simp
    then have "le_val nonce + 1 = 256 ^ 4 * (le_val ?t + 1)" by (simp add: split)
    then have "(le_val nonce + 1) mod 256 ^ (4 * Suc k) = 256 ^ 4 * ((le_val ?t + 1) mod 256 ^ (4 * k))"
      by (simp only: pow mult_mod_right)
    with True len Suc.IH [OF len(2)] Suc.prems show ?thesis
      by (simp add: WORD_SIZE_def le_val_append Let_def put)
  qed
qed simp

lemma length_derive_words: "length (fst (derive_words k n)) = 4 * k \<and> length (snd (derive_words k n)) = 4 * k"
  by (induction k arbitrary: n) (simp_all add: Let_def split_beta)

section \<open>What the framing guarantees\<close>

text \<open>A frame header round-trips in both directions: a header whose fields fit their bits is read
  back from its four bytes, and writing the header read from any four bytes gives those bytes.\<close>

theorem frame_header_roundtrip:
  "(wf_frame_header h \<longrightarrow> header_from_bytes (header_to_bytes h) = h) \<and>
   (length b = HEADER_LEN \<longrightarrow> header_to_bytes (header_from_bytes b) = b \<and> wf_frame_header (header_from_bytes b))"
proof -
  have "wf_frame_header (header_from_bytes b)"
    using take_bit_nat_less_exp [of 22 "unat (u32_from_le b)"]
      take_bit_nat_less_exp [of 2 "unat (drop_bit 22 (u32_from_le b))"]
      take_bit_nat_less_exp [of 5 "unat (drop_bit 27 (u32_from_le b))"]
    by (simp add: wf_frame_header_def header_from_bytes_fields MAX_CMD_LEN_val unat_ucast_small
        flip: unsigned_take_bit_eq)
  then show ?thesis
    using header_from_to_bytes header_to_from_bytes by (simp add: HEADER_LEN_def)
qed

theorem frame_header_roundtrip_witness:
  "wf_frame_header \<lparr>fh_cmd_len = 4194303, fh_reserved = 3, fh_is_signed = True,
     fh_is_encrypted_pubkey = False, fh_is_encrypted_channel = True, fh_proto_cmd = 5\<rparr> \<and>
   header_from_bytes (header_to_bytes \<lparr>fh_cmd_len = 4194303, fh_reserved = 3, fh_is_signed = True,
     fh_is_encrypted_pubkey = False, fh_is_encrypted_channel = True, fh_proto_cmd = 5\<rparr>) =
     \<lparr>fh_cmd_len = 4194303, fh_reserved = 3, fh_is_signed = True,
      fh_is_encrypted_pubkey = False, fh_is_encrypted_channel = True, fh_proto_cmd = 5\<rparr>"
  using frame_header_roundtrip [of "\<lparr>fh_cmd_len = 4194303, fh_reserved = 3, fh_is_signed = True,
     fh_is_encrypted_pubkey = False, fh_is_encrypted_channel = True, fh_proto_cmd = 5\<rparr>" "[0, 0, 0, 0]"]
  by (simp add: wf_frame_header_def MAX_CMD_LEN_val)

text \<open>The channel nonce is a 192-bit little-endian counter: \<open>increment_nonce\<close> adds one modulo
  \<open>2 ^ 192\<close> and keeps the length, so the nonces of consecutive messages differ until the counter
  has gone round.\<close>

theorem increment_nonce_counts:
  assumes "length nonce = NONCE_LEN"
  shows "length (increment_nonce nonce) = NONCE_LEN \<and>
    le_val (increment_nonce nonce) = (le_val nonce + 1) mod 2 ^ 192"
  using increment_words_val [of nonce 6] assms by (simp add: increment_nonce_def framing_consts)

theorem increment_nonce_counts_witness:
  "length (replicate 24 (0xff :: u8)) = NONCE_LEN \<and> le_val (increment_nonce (replicate 24 0xff)) = 0"
proof -
  have "le_val (replicate 24 0xff) + 1 = 2 ^ 192" by (simp only: le_val_ff) simp
  then show ?thesis using increment_nonce_counts [of "replicate 24 0xff"] by (simp add: framing_consts)
qed

end
