(* ===== verification/Channel.thy ===== *)
theory Channel
  imports Framing
begin

text \<open>
  Keys, the encrypted channel and the two ends of the handshake: \<^verbatim>\<open>core/src/datum/keys.rs\<close>,
  \<^verbatim>\<open>channel.rs\<close>, \<^verbatim>\<open>handshake.rs\<close>, \<^verbatim>\<open>client.rs\<close> and \<^verbatim>\<open>server.rs\<close>.

  The primitives are the \<^verbatim>\<open>dryoc\<close> crate's, gathered in the record \<open>crypto\<close> every definition takes:
  each field returns \<open>None\<close> where the crate returns an error. What the code relies on is
  \<open>crypto_ok\<close>: a box opens under the key and nonce it was made with, a signature made by a key
  pair verifies, a seal opens for the key pair it was made for, both sides of a key agreement
  compute one key, and each adds the number of bytes libsodium documents. Randomness is an
  argument: the two bytes \<open>hello\<close> draws for its padding and the session keys \<open>accept\<close> generates.

  A method that may fail after changing \<open>self\<close> returns its result beside the new state.
\<close>

section \<open>Keys\<close>

definition PUBKEY_LEN :: nat where "PUBKEY_LEN = 32"
definition PUBLIC_KEYS_LEN :: nat where "PUBLIC_KEYS_LEN = 2 * PUBKEY_LEN"
definition CRYPTO_BOX_MACBYTES :: nat where "CRYPTO_BOX_MACBYTES = 16"
definition CRYPTO_SIGN_BYTES :: nat where "CRYPTO_SIGN_BYTES = 64"
definition CRYPTO_BOX_SEALBYTES :: nat where "CRYPTO_BOX_SEALBYTES = 48"
definition SIGN_SECRET_KEY_LEN :: nat where "SIGN_SECRET_KEY_LEN = 64"
definition KEY_PAIRS_LEN :: nat where "KEY_PAIRS_LEN = PUBKEY_LEN + SIGN_SECRET_KEY_LEN + PUBKEY_LEN + 32"

record public_keys =
  pk_sign :: bytes
  pk_box :: bytes

definition public_keys_to_bytes :: "public_keys \<Rightarrow> bytes" where
  "public_keys_to_bytes k =
     copy_at PUBKEY_LEN (pk_box k) (copy_at 0 (pk_sign k) (replicate PUBLIC_KEYS_LEN 0))"

definition public_keys_from_bytes :: "bytes \<Rightarrow> public_keys" where
  "public_keys_from_bytes b =
     \<lparr>pk_sign = take PUBKEY_LEN b, pk_box = take PUBKEY_LEN (drop PUBKEY_LEN b)\<rparr>"

definition public_keys_split_from :: "bytes \<Rightarrow> (public_keys \<times> bytes) option" where
  "public_keys_split_from b =
     (if length b < PUBLIC_KEYS_LEN then None
      else Some (public_keys_from_bytes (take PUBLIC_KEYS_LEN b), drop PUBLIC_KEYS_LEN b))"

record key_pairs =
  kp_sign_pk :: bytes
  kp_sign_sk :: bytes
  kp_box_pk :: bytes
  kp_box_sk :: bytes

definition key_pairs_public :: "key_pairs \<Rightarrow> public_keys" where
  "key_pairs_public k = \<lparr>pk_sign = kp_sign_pk k, pk_box = kp_box_pk k\<rparr>"

definition key_pairs_to_bytes :: "key_pairs \<Rightarrow> bytes" where
  "key_pairs_to_bytes k = kp_sign_pk k @ kp_sign_sk k @ kp_box_pk k @ kp_box_sk k"

definition key_pairs_from_bytes :: "bytes \<Rightarrow> key_pairs option" where
  "key_pairs_from_bytes raw =
     (if length raw \<noteq> KEY_PAIRS_LEN then None
      else let sign_pk = take PUBKEY_LEN raw; rest = drop PUBKEY_LEN raw;
               sign_sk = take SIGN_SECRET_KEY_LEN rest; rest = drop SIGN_SECRET_KEY_LEN rest;
               box_pk = take PUBKEY_LEN rest; box_sk = drop PUBKEY_LEN rest
           in Some \<lparr>kp_sign_pk = sign_pk, kp_sign_sk = sign_sk, kp_box_pk = box_pk, kp_box_sk = box_sk\<rparr>)"

section \<open>The channel\<close>

record crypto =
  cr_box :: "bytes \<Rightarrow> bytes \<Rightarrow> bytes \<Rightarrow> bytes option"
  cr_box_open :: "bytes \<Rightarrow> bytes \<Rightarrow> bytes \<Rightarrow> bytes option"
  cr_sign :: "bytes \<Rightarrow> bytes \<Rightarrow> bytes option"
  cr_verify :: "bytes \<Rightarrow> bytes \<Rightarrow> bytes \<Rightarrow> bool"
  cr_seal :: "bytes \<Rightarrow> bytes \<Rightarrow> bytes option"
  cr_seal_open :: "bytes \<Rightarrow> bytes \<Rightarrow> bytes \<Rightarrow> bytes option"
  cr_beforenm :: "bytes \<Rightarrow> bytes \<Rightarrow> bytes option"

datatype chan_error =
    BadHeader frame_header
  | ChTruncated
  | Unseal
  | Seal
  | BadSignature
  | Sign
  | Malformed string
  | Decrypt
  | Encrypt
  | NoChannel
  | NoVerifyKey
  | TooLarge nat

definition MAX_PLAINTEXT_LEN :: nat where
  "MAX_PLAINTEXT_LEN = MAX_CMD_LEN - CRYPTO_BOX_MACBYTES"

record channel =
  ch_precomp :: "bytes option"
  ch_tx_nonce :: bytes
  ch_rx_nonce :: bytes
  ch_tx_header_key :: header_key_ratchet
  ch_rx_header_key :: header_key_ratchet

definition channel_before_handshake :: channel where
  "channel_before_handshake = \<lparr>ch_precomp = None, ch_tx_nonce = replicate NONCE_LEN 0,
     ch_rx_nonce = replicate NONCE_LEN 0, ch_tx_header_key = ratchet_initial,
     ch_rx_header_key = ratchet_initial\<rparr>"

definition channel_client :: "header_keys \<Rightarrow> session_nonces \<Rightarrow> channel" where
  "channel_client keys nonces = \<lparr>ch_precomp = None, ch_tx_nonce = sn_client_sender nonces,
     ch_rx_nonce = sn_client_receiver nonces,
     ch_tx_header_key = ratchet_new (hk_client_to_server keys),
     ch_rx_header_key = ratchet_new (hk_server_to_client keys)\<rparr>"

definition channel_server :: "header_keys \<Rightarrow> session_nonces \<Rightarrow> bytes \<Rightarrow> channel" where
  "channel_server keys nonces precomp = \<lparr>ch_precomp = Some precomp,
     ch_tx_nonce = sn_client_receiver nonces, ch_rx_nonce = sn_client_sender nonces,
     ch_tx_header_key = ratchet_new (hk_server_to_client keys),
     ch_rx_header_key = ratchet_new (hk_client_to_server keys)\<rparr>"

definition channel_set_precomp :: "channel \<Rightarrow> bytes \<Rightarrow> channel" where
  "channel_set_precomp c precomp = c\<lparr>ch_precomp := Some precomp\<rparr>"

definition channel_frame :: "channel \<Rightarrow> frame_header \<Rightarrow> bytes \<Rightarrow> bytes \<times> channel" where
  "channel_frame c header body =
     (let header = header\<lparr>fh_cmd_len := word_of_nat (length body)\<rparr>;
          (masked, key) = ratchet_mask (ch_tx_header_key c) header
      in (masked @ body, c\<lparr>ch_tx_header_key := key\<rparr>))"

definition channel_unmask_header :: "channel \<Rightarrow> bytes \<Rightarrow> frame_header \<times> channel" where
  "channel_unmask_header c b =
     (let (h, key) = ratchet_unmask (ch_rx_header_key c) b in (h, c\<lparr>ch_rx_header_key := key\<rparr>))"

definition sign_append :: "crypto \<Rightarrow> bytes \<Rightarrow> bytes \<Rightarrow> chan_error + bytes" where
  "sign_append cr sk body =
     (case cr_sign cr sk body of None \<Rightarrow> Inl Sign | Some sig \<Rightarrow> Inr (body @ sig))"

definition split_signed :: "bytes \<Rightarrow> chan_error + (bytes \<times> bytes)" where
  "split_signed plain =
     (if length plain < CRYPTO_SIGN_BYTES then Inl ChTruncated
      else let n = length plain - CRYPTO_SIGN_BYTES in Inr (take n plain, drop n plain))"

definition verify_sig :: "crypto \<Rightarrow> bytes \<Rightarrow> bytes \<Rightarrow> bytes \<Rightarrow> chan_error + unit" where
  "verify_sig cr sig msg pk = (if cr_verify cr pk msg sig then Inr () else Inl BadSignature)"

definition strip_signature ::
  "crypto \<Rightarrow> bytes \<Rightarrow> frame_header \<Rightarrow> bytes option \<Rightarrow> chan_error + bytes" where
  "strip_signature cr plain header verify_with =
     (if fh_is_signed header then
        bindr (split_signed plain) (\<lambda>(msg, sig).
        bindr (ok_or NoVerifyKey verify_with) (\<lambda>pk.
        bindr (verify_sig cr sig msg pk) (\<lambda>_. Inr (take (length msg) plain))))
      else Inr plain)"

definition seal :: "crypto \<Rightarrow> bytes \<Rightarrow> bytes \<Rightarrow> chan_error + bytes" where
  "seal cr pk body = (case cr_seal cr pk body of None \<Rightarrow> Inl Seal | Some sealed \<Rightarrow> Inr sealed)"

definition seal_signed :: "crypto \<Rightarrow> bytes \<Rightarrow> bytes \<Rightarrow> bytes \<Rightarrow> chan_error + bytes" where
  "seal_signed cr sk pk body = bindr (sign_append cr sk body) (\<lambda>body. seal cr pk body)"

definition open_sealed :: "crypto \<Rightarrow> bytes \<Rightarrow> bytes \<Rightarrow> bytes \<Rightarrow> chan_error + bytes" where
  "open_sealed cr pk sk sealed =
     (if length sealed < CRYPTO_BOX_SEALBYTES then Inl ChTruncated
      else case cr_seal_open cr pk sk sealed of None \<Rightarrow> Inl Unseal | Some plain \<Rightarrow> Inr plain)"

definition channel_encrypt ::
  "crypto \<Rightarrow> channel \<Rightarrow> u8 \<Rightarrow> bytes \<Rightarrow> bytes option \<Rightarrow> (chan_error + bytes) \<times> channel" where
  "channel_encrypt cr c proto_cmd payload sign_with =
     (case ch_precomp c of None \<Rightarrow> (Inl NoChannel, c)
      | Some precomp \<Rightarrow>
        (case (case sign_with of Some sk \<Rightarrow> sign_append cr sk payload | None \<Rightarrow> Inr payload) of
           Inl e \<Rightarrow> (Inl e, c)
         | Inr plain \<Rightarrow>
           if length plain > MAX_PLAINTEXT_LEN
           then (Inl (TooLarge (length plain + CRYPTO_BOX_MACBYTES)), c)
           else (case cr_box cr precomp (ch_tx_nonce c) plain of None \<Rightarrow> (Inl Encrypt, c)
             | Some ct \<Rightarrow>
               let c = c\<lparr>ch_tx_nonce := increment_nonce (ch_tx_nonce c)\<rparr>;
                   header = default_header\<lparr>fh_is_signed := sign_with \<noteq> None,
                     fh_is_encrypted_channel := True, fh_proto_cmd := proto_cmd\<rparr>;
                   (out, c) = channel_frame c header ct
               in (Inr out, c))))"

definition channel_decrypt ::
  "crypto \<Rightarrow> channel \<Rightarrow> frame_header \<Rightarrow> bytes \<Rightarrow> bytes option \<Rightarrow> (chan_error + bytes) \<times> channel" where
  "channel_decrypt cr c header ciphertext verify_with =
     (case ch_precomp c of None \<Rightarrow> (Inl NoChannel, c)
      | Some precomp \<Rightarrow>
        if length ciphertext < CRYPTO_BOX_MACBYTES then (Inl ChTruncated, c)
        else (case cr_box_open cr precomp (ch_rx_nonce c) ciphertext of None \<Rightarrow> (Inl Decrypt, c)
          | Some plain \<Rightarrow>
            (strip_signature cr plain header verify_with,
             c\<lparr>ch_rx_nonce := increment_nonce (ch_rx_nonce c)\<rparr>)))"

section \<open>The handshake's messages\<close>

definition STRUCT_END :: u8 where "STRUCT_END = 0xFE"
definition DRS_MARKER :: bytes where "DRS_MARKER = [0x44, 0x52, 0x53, 0x01]"
definition DRS_RESUME_PRESENT :: u8 where "DRS_RESUME_PRESENT = 1"
definition DRS_FLAG_AT :: nat where "DRS_FLAG_AT = 4"
definition DRS_TOKEN_AT :: nat where "DRS_TOKEN_AT = DRS_FLAG_AT + 1"
definition RESUME_TOKEN_LEN :: nat where "RESUME_TOKEN_LEN = 40"
definition MAX_HELLO_PAD_LEN :: nat where "MAX_HELLO_PAD_LEN = 200"
definition MAX_USER_AGENT_LEN :: nat where "MAX_USER_AGENT_LEN = 256"
definition AFTER_UA_LEN :: nat where "AFTER_UA_LEN = 1 + 4"
definition MAX_MOTD_LEN :: nat where "MAX_MOTD_LEN = 511"

lemmas channel_consts = PUBKEY_LEN_def PUBLIC_KEYS_LEN_def CRYPTO_BOX_MACBYTES_def CRYPTO_SIGN_BYTES_def
  CRYPTO_BOX_SEALBYTES_def SIGN_SECRET_KEY_LEN_def KEY_PAIRS_LEN_def MAX_PLAINTEXT_LEN_def
  DRS_FLAG_AT_def DRS_TOKEN_AT_def RESUME_TOKEN_LEN_def MAX_HELLO_PAD_LEN_def MAX_USER_AGENT_LEN_def
  AFTER_UA_LEN_def MAX_MOTD_LEN_def

datatype protocol_version = V1 | V3 "bytes option"

definition new_resume_token :: "u64 \<Rightarrow> bytes \<Rightarrow> bytes" where
  "new_resume_token prime_id random = put_u64_le prime_id @ random"

record client_channel =
  cc_long_term_keys :: key_pairs
  cc_session_keys :: key_pairs
  cc_nk :: u32
  cc_channel :: channel
  cc_pool_session_sign_pk :: "bytes option"
  cc_motd :: bytes

definition client_with_key_pairs :: "key_pairs \<Rightarrow> key_pairs \<Rightarrow> u32 \<Rightarrow> client_channel" where
  "client_with_key_pairs long_term session nk = \<lparr>cc_long_term_keys = long_term,
     cc_session_keys = session, cc_nk = nk, cc_channel = channel_before_handshake,
     cc_pool_session_sign_pk = None, cc_motd = []\<rparr>"

definition drs_extension :: "protocol_version \<Rightarrow> bytes" where
  "drs_extension v = (case v of V1 \<Rightarrow> []
     | V3 resume \<Rightarrow> DRS_MARKER @ (case resume of Some t \<Rightarrow> DRS_RESUME_PRESENT # t | None \<Rightarrow> [0]))"

definition hello_body :: "client_channel \<Rightarrow> bytes \<Rightarrow> protocol_version \<Rightarrow> u8 \<Rightarrow> u8 \<Rightarrow> bytes" where
  "hello_body cc user_agent v r0 r1 =
     public_keys_to_bytes (key_pairs_public (cc_long_term_keys cc))
     @ public_keys_to_bytes (key_pairs_public (cc_session_keys cc))
     @ user_agent @ [0] @ [STRUCT_END] @ put_u32_le (cc_nk cc) @ drs_extension v
     @ replicate (1 + unat r0 mod MAX_HELLO_PAD_LEN) r1"

definition client_hello ::
  "crypto \<Rightarrow> client_channel \<Rightarrow> bytes \<Rightarrow> bytes \<Rightarrow> protocol_version \<Rightarrow> u8 \<Rightarrow> u8
   \<Rightarrow> (bytes \<times> client_channel) option" where
  "client_hello cr cc pool_box_pk user_agent v r0 r1 =
     (case seal_signed cr (kp_sign_sk (cc_long_term_keys cc)) pool_box_pk (hello_body cc user_agent v r0 r1) of
        Inl _ \<Rightarrow> None
      | Inr sealed \<Rightarrow>
        let header = default_header\<lparr>fh_is_signed := True, fh_is_encrypted_pubkey := True,
              fh_proto_cmd := HELLO_OR_PING\<rparr>;
            (out, _) = channel_frame (cc_channel cc) header sealed;
            keys = header_keys_from_nk (cc_nk cc);
            nonces = session_nonces_derive (cc_nk cc) (kp_sign_pk (cc_session_keys cc))
        in Some (out, cc\<lparr>cc_channel := channel_client keys nonces\<rparr>))"

definition client_unmask_header :: "client_channel \<Rightarrow> bytes \<Rightarrow> frame_header \<times> client_channel" where
  "client_unmask_header cc b =
     (let (h, c) = channel_unmask_header (cc_channel cc) b in (h, cc\<lparr>cc_channel := c\<rparr>))"

definition read_handshake_response ::
  "crypto \<Rightarrow> client_channel \<Rightarrow> frame_header \<Rightarrow> bytes \<Rightarrow> bytes \<Rightarrow> (chan_error + unit) \<times> client_channel" where
  "read_handshake_response cr cc header body pool_sign_pk =
     (if fh_proto_cmd header \<noteq> HANDSHAKE_RESPONSE \<or> \<not> fh_is_signed header \<or> \<not> fh_is_encrypted_pubkey header
      then (Inl (BadHeader header), cc)
      else case
        bindr (open_sealed cr (kp_box_pk (cc_session_keys cc)) (kp_box_sk (cc_session_keys cc)) body) (\<lambda>plain.
        bindr (split_signed plain) (\<lambda>(msg, sig).
        bindr (ok_or ChTruncated (public_keys_split_from msg)) (\<lambda>(client, rest).
        bindr (ok_or ChTruncated (public_keys_split_from rest)) (\<lambda>(session, rest).
        bindr (ok_or ChTruncated (public_keys_split_from rest)) (\<lambda>(pool_session, motd).
        bindr (verify_sig cr sig msg pool_sign_pk) (\<lambda>_.
        if client \<noteq> key_pairs_public (cc_long_term_keys cc) \<or> session \<noteq> key_pairs_public (cc_session_keys cc)
        then Inl (Malformed ''response does not echo the client's keys'')
        else Inr (pool_session, motd)))))))
      of Inl e \<Rightarrow> (Inl e, cc)
       | Inr (pool_session, motd) \<Rightarrow>
         let cc = cc\<lparr>cc_motd := from_utf8_lossy (takeWhile (\<lambda>b. b \<noteq> 0) motd),
                     cc_pool_session_sign_pk := Some (pk_sign pool_session)\<rparr>
         in (case cr_beforenm cr (pk_box pool_session) (kp_box_sk (cc_session_keys cc)) of
               None \<Rightarrow> (Inl (Malformed ''bad pool session key''), cc)
             | Some key \<Rightarrow> (Inr (), cc\<lparr>cc_channel := channel_set_precomp (cc_channel cc) key\<rparr>)))"

definition client_encrypt ::
  "crypto \<Rightarrow> client_channel \<Rightarrow> u8 \<Rightarrow> bytes \<Rightarrow> (chan_error + bytes) \<times> client_channel" where
  "client_encrypt cr cc proto_cmd payload =
     (let (res, c) = channel_encrypt cr (cc_channel cc) proto_cmd payload None
      in (res, cc\<lparr>cc_channel := c\<rparr>))"

definition client_decrypt ::
  "crypto \<Rightarrow> client_channel \<Rightarrow> frame_header \<Rightarrow> bytes \<Rightarrow> (chan_error + bytes) \<times> client_channel" where
  "client_decrypt cr cc header ciphertext =
     (let pk = cc_pool_session_sign_pk cc in
      case (fh_is_encrypted_channel header, fh_is_encrypted_pubkey header) of
        (False, False) \<Rightarrow>
          if fh_proto_cmd header = HELLO_OR_PING \<and> \<not> fh_is_signed header \<and> ciphertext = []
          then (Inr [], cc)
          else (Inl (Malformed ''pool message is not a channel-encrypted or sealed frame (plain or both flags)''), cc)
      | (True, False) \<Rightarrow>
          let (res, c) = channel_decrypt cr (cc_channel cc) header ciphertext pk
          in (res, cc\<lparr>cc_channel := c\<rparr>)
      | (False, True) \<Rightarrow>
          (bindr (open_sealed cr (kp_box_pk (cc_session_keys cc)) (kp_box_sk (cc_session_keys cc)) ciphertext)
             (\<lambda>plain. strip_signature cr plain header pk), cc)
      | (True, True) \<Rightarrow>
          (Inl (Malformed ''pool message is not a channel-encrypted or sealed frame (plain or both flags)''), cc))"

record hello_t =
  he_client :: public_keys
  he_session :: public_keys
  he_user_agent :: bytes
  he_nk :: u32
  he_protocol_version :: protocol_version

definition hello_version :: "bytes \<Rightarrow> chan_error + protocol_version" where
  "hello_version tail =
     (if length tail > DRS_FLAG_AT \<and> take DRS_FLAG_AT tail = DRS_MARKER then
        (if tail ! DRS_FLAG_AT AND DRS_RESUME_PRESENT \<noteq> 0 then
           (if length tail < DRS_TOKEN_AT + RESUME_TOKEN_LEN
            then Inl (Malformed ''DRS flag set without a token'')
            else Inr (V3 (Some (take RESUME_TOKEN_LEN (drop DRS_TOKEN_AT tail)))))
         else Inr (V3 None))
      else Inr V1)"

definition open_hello :: "crypto \<Rightarrow> frame_header \<Rightarrow> bytes \<Rightarrow> key_pairs \<Rightarrow> chan_error + hello_t" where
  "open_hello cr header payload pool =
     (if fh_proto_cmd header \<noteq> HELLO_OR_PING \<or> \<not> fh_is_signed header
         \<or> \<not> fh_is_encrypted_pubkey header \<or> fh_is_encrypted_channel header
      then Inl (BadHeader header)
      else
        bindr (open_sealed cr (kp_box_pk pool) (kp_box_sk pool) payload) (\<lambda>plain.
        bindr (split_signed plain) (\<lambda>(msg, sig).
        bindr (ok_or ChTruncated (public_keys_split_from msg)) (\<lambda>(client, rest).
        bindr (ok_or ChTruncated (public_keys_split_from rest)) (\<lambda>(session, rest).
        bindr (verify_sig cr sig msg (pk_sign client)) (\<lambda>_.
        bindr (ok_or (Malformed ''no UA terminator'') (find_index (\<lambda>b. b = 0) rest)) (\<lambda>nul.
        let user_agent = from_utf8_lossy (take (min nul MAX_USER_AGENT_LEN) rest);
            after = drop (nul + 1) rest
        in if length after < AFTER_UA_LEN then Inl ChTruncated
           else if after ! 0 \<noteq> STRUCT_END then Inl (Malformed ''no 0xFE after user agent'')
           else let nk = u32_from_le (take 4 (drop 1 after)) in
             bindr (hello_version (drop AFTER_UA_LEN after)) (\<lambda>v.
             Inr \<lparr>he_client = client, he_session = session, he_user_agent = user_agent,
                  he_nk = nk, he_protocol_version = v\<rparr>))))))))"

record server_channel =
  sc_channel :: channel
  sc_session_sign_sk :: bytes
  sc_hello :: hello_t

definition server_encrypt ::
  "crypto \<Rightarrow> server_channel \<Rightarrow> u8 \<Rightarrow> bytes \<Rightarrow> bool \<Rightarrow> (chan_error + bytes) \<times> server_channel" where
  "server_encrypt cr sc proto_cmd payload sign =
     (let (res, c) = channel_encrypt cr (sc_channel sc) proto_cmd payload
            (if sign then Some (sc_session_sign_sk sc) else None)
      in (res, sc\<lparr>sc_channel := c\<rparr>))"

definition server_unmask_header :: "server_channel \<Rightarrow> bytes \<Rightarrow> frame_header \<times> server_channel" where
  "server_unmask_header sc b =
     (let (h, c) = channel_unmask_header (sc_channel sc) b in (h, sc\<lparr>sc_channel := c\<rparr>))"

definition server_decrypt ::
  "crypto \<Rightarrow> server_channel \<Rightarrow> frame_header \<Rightarrow> bytes \<Rightarrow> (chan_error + bytes) \<times> server_channel" where
  "server_decrypt cr sc header ciphertext =
     (if \<not> fh_is_encrypted_channel header \<or> fh_is_encrypted_pubkey header
      then (Inl (Malformed ''client message is not a channel-encrypted frame (sealed or plain)''), sc)
      else let (res, c) = channel_decrypt cr (sc_channel sc) header ciphertext
                 (Some (pk_sign (he_session (sc_hello sc))))
           in (res, sc\<lparr>sc_channel := c\<rparr>))"

definition server_accept ::
  "crypto \<Rightarrow> hello_t \<Rightarrow> key_pairs \<Rightarrow> bytes \<Rightarrow> key_pairs \<Rightarrow> chan_error + (bytes \<times> server_channel)" where
  "server_accept cr hello pool motd session_keys =
     (let body = public_keys_to_bytes (he_client hello) @ public_keys_to_bytes (he_session hello)
            @ public_keys_to_bytes (key_pairs_public session_keys)
            @ take (min (length motd) MAX_MOTD_LEN) motd @ [0]
      in bindr (seal_signed cr (kp_sign_sk pool) (pk_box (he_session hello)) body) (\<lambda>sealed.
         if length sealed > MAX_CMD_LEN then Inl (TooLarge (length sealed))
         else bindr (ok_or (Malformed ''bad session key'')
                (cr_beforenm cr (pk_box (he_session hello)) (kp_box_sk session_keys))) (\<lambda>precomp.
           let keys = header_keys_from_nk (he_nk hello);
               nonces = session_nonces_derive (he_nk hello) (pk_sign (he_session hello));
               header = default_header\<lparr>fh_is_signed := True, fh_is_encrypted_pubkey := True,
                 fh_proto_cmd := HANDSHAKE_RESPONSE\<rparr>;
               (out, c) = channel_frame (channel_server keys nonces precomp) header sealed
           in Inr (out, \<lparr>sc_channel = c, sc_session_sign_sk = kp_sign_sk session_keys, sc_hello = hello\<rparr>))))"

section \<open>What the code relies on of the primitives\<close>

definition crypto_ok :: "crypto \<Rightarrow> (bytes \<Rightarrow> bytes \<Rightarrow> bool) \<Rightarrow> (bytes \<Rightarrow> bytes \<Rightarrow> bool) \<Rightarrow> bool" where
  "crypto_ok cr sign_pair box_pair \<longleftrightarrow>
     (\<forall>k n m. \<exists>c. cr_box cr k n m = Some c \<and> length c = length m + CRYPTO_BOX_MACBYTES \<and>
        cr_box_open cr k n c = Some m) \<and>
     (\<forall>pk sk m. sign_pair pk sk \<longrightarrow> (\<exists>s. cr_sign cr sk m = Some s \<and>
        length s = CRYPTO_SIGN_BYTES \<and> cr_verify cr pk m s)) \<and>
     (\<forall>pk sk m. box_pair pk sk \<longrightarrow> (\<exists>c. cr_seal cr pk m = Some c \<and>
        length c = length m + CRYPTO_BOX_SEALBYTES \<and> cr_seal_open cr pk sk c = Some m)) \<and>
     (\<forall>pk sk pk' sk'. box_pair pk sk \<longrightarrow> box_pair pk' sk' \<longrightarrow>
        (\<exists>k. cr_beforenm cr pk sk' = Some k \<and> cr_beforenm cr pk' sk = Some k))"

definition wf_key_pairs :: "(bytes \<Rightarrow> bytes \<Rightarrow> bool) \<Rightarrow> (bytes \<Rightarrow> bytes \<Rightarrow> bool) \<Rightarrow> key_pairs \<Rightarrow> bool" where
  "wf_key_pairs sign_pair box_pair k \<longleftrightarrow>
     length (kp_sign_pk k) = PUBKEY_LEN \<and> length (kp_box_pk k) = PUBKEY_LEN \<and>
     sign_pair (kp_sign_pk k) (kp_sign_sk k) \<and> box_pair (kp_box_pk k) (kp_box_sk k)"

section \<open>Lemmas: keys and seals\<close>

lemma crypto_ok_box:
  assumes "crypto_ok cr sp bp"
  obtains c where "cr_box cr k n m = Some c" "length c = length m + CRYPTO_BOX_MACBYTES"
    "cr_box_open cr k n c = Some m"
  using assms unfolding crypto_ok_def by blast

lemma crypto_ok_sign:
  assumes "crypto_ok cr sp bp" "sp pk sk"
  obtains s where "cr_sign cr sk m = Some s" "length s = CRYPTO_SIGN_BYTES" "cr_verify cr pk m s"
  using assms unfolding crypto_ok_def by blast

lemma crypto_ok_seal:
  assumes "crypto_ok cr sp bp" "bp pk sk"
  obtains c where "cr_seal cr pk m = Some c" "length c = length m + CRYPTO_BOX_SEALBYTES"
    "cr_seal_open cr pk sk c = Some m"
  using assms unfolding crypto_ok_def by blast

lemma crypto_ok_agree:
  assumes "crypto_ok cr sp bp" "bp pk sk" "bp pk' sk'"
  obtains k where "cr_beforenm cr pk sk' = Some k" "cr_beforenm cr pk' sk = Some k"
  using assms unfolding crypto_ok_def by blast

definition wf_public_keys :: "public_keys \<Rightarrow> bool" where
  "wf_public_keys k \<longleftrightarrow> length (pk_sign k) = PUBKEY_LEN \<and> length (pk_box k) = PUBKEY_LEN"

lemma public_keys_bytes: "wf_public_keys k \<Longrightarrow> public_keys_to_bytes k = pk_sign k @ pk_box k"
  by (simp add: wf_public_keys_def public_keys_to_bytes_def copy_at_def channel_consts)

lemma public_keys_split [simp]:
  "wf_public_keys k \<Longrightarrow> public_keys_split_from (public_keys_to_bytes k @ t) = Some (k, t)"
  by (simp add: public_keys_bytes)
    (simp add: wf_public_keys_def public_keys_split_from_def public_keys_from_bytes_def channel_consts)

lemma length_public_keys: "wf_public_keys k \<Longrightarrow> length (public_keys_to_bytes k) = 64"
  by (simp add: public_keys_bytes) (simp add: wf_public_keys_def channel_consts)

lemma wf_key_pairs_public: "wf_key_pairs sp bp k \<Longrightarrow> wf_public_keys (key_pairs_public k)"
  by (simp add: wf_key_pairs_def wf_public_keys_def key_pairs_public_def)

lemma key_pairs_roundtrip:
  assumes "length (kp_sign_pk k) = 32" "length (kp_sign_sk k) = 64" "length (kp_box_pk k) = 32" "length (kp_box_sk k) = 32"
  shows "key_pairs_from_bytes (key_pairs_to_bytes k) = Some k"
  using assms by (simp add: key_pairs_from_bytes_def key_pairs_to_bytes_def channel_consts Let_def)

lemma split_signed_append:
  "length sig = CRYPTO_SIGN_BYTES \<Longrightarrow> split_signed (body @ sig) = Inr (body, sig)"
  by (simp add: split_signed_def Let_def)

lemma seal_signed_opens:
  assumes cr: "crypto_ok cr sp bp" and s: "sp spk ssk" and b: "bp bpk bsk"
  obtains sealed sig where "seal_signed cr ssk bpk body = Inr sealed"
    "length sealed = length body + 112" "open_sealed cr bpk bsk sealed = Inr (body @ sig)"
    "split_signed (body @ sig) = Inr (body, sig)" "verify_sig cr sig body spk = Inr ()"
proof -
  obtain sig where sig: "cr_sign cr ssk body = Some sig" "length sig = CRYPTO_SIGN_BYTES" "cr_verify cr spk body sig"
    using crypto_ok_sign [OF cr s] by blast
  obtain c where c: "cr_seal cr bpk (body @ sig) = Some c" "length c = length (body @ sig) + CRYPTO_BOX_SEALBYTES"
    "cr_seal_open cr bpk bsk c = Some (body @ sig)"
    using crypto_ok_seal [OF cr b] by blast
  show thesis
  proof
    show "seal_signed cr ssk bpk body = Inr c" by (simp add: seal_signed_def sign_append_def seal_def sig c)
    show "length c = length body + 112" by (simp add: c sig channel_consts)
    show "open_sealed cr bpk bsk c = Inr (body @ sig)" by (simp add: open_sealed_def c)
    show "split_signed (body @ sig) = Inr (body, sig)" by (simp add: split_signed_append sig)
    show "verify_sig cr sig body spk = Inr ()" by (simp add: verify_sig_def sig)
  qed
qed

lemma channel_frame_unmasks:
  assumes "length body \<le> MAX_CMD_LEN" "unat (fh_reserved h) < 4" "unat (fh_proto_cmd h) < 32"
    "ch_tx_header_key c = rk"
  shows "\<exists>rk' w. channel_frame c h body = (w @ body, c\<lparr>ch_tx_header_key := rk'\<rparr>) \<and> length w = 4 \<and>
    ratchet_unmask rk w = (h\<lparr>fh_cmd_len := word_of_nat (length body)\<rparr>, rk')"
proof -
  let ?h = "h\<lparr>fh_cmd_len := word_of_nat (length body)\<rparr>"
  have "unat (word_of_nat (length body) :: u32) = length body"
    using assms(1) by (simp add: unat_of_nat MAX_CMD_LEN_val)
  then have "wf_frame_header ?h" using assms by (simp add: wf_frame_header_def)
  note u = unmask_mask [OF this, of rk]
  obtain w rk' where m: "ratchet_mask rk ?h = (w, rk')" by (cases "ratchet_mask rk ?h")
  then have "length w = 4" by (auto simp: ratchet_mask_def Let_def)
  then show ?thesis using u m assms(4) by (auto simp: channel_frame_def)
qed

section \<open>Lemmas: the handshake\<close>

lemma hello_version_drs:
  assumes "case v of V1 \<Rightarrow> take 4 pad \<noteq> DRS_MARKER | V3 (Some t) \<Rightarrow> length t = RESUME_TOKEN_LEN | V3 None \<Rightarrow> True"
  shows "hello_version (drs_extension v @ pad) = Inr v"
  using assms
  by (auto simp: hello_version_def drs_extension_def channel_consts DRS_MARKER_def DRS_RESUME_PRESENT_def
      split: protocol_version.splits option.splits)

lemma padding_is_no_marker: "take 4 (replicate n (b :: u8)) \<noteq> DRS_MARKER"
proof
  assume "take 4 (replicate n b) = DRS_MARKER"
  then have "set DRS_MARKER \<subseteq> {b}" by (metis set_replicate_conv_if set_take_subset empty_subsetI subset_trans order_refl)
  then have "(68 :: u8) = 1" by (auto simp: DRS_MARKER_def)
  then show False by simp
qed

lemma hello_fields:
  assumes "wf_public_keys (key_pairs_public (cc_long_term_keys cc))"
    "wf_public_keys (key_pairs_public (cc_session_keys cc))"
    "case v of V3 (Some t) \<Rightarrow> length t = RESUME_TOKEN_LEN | _ \<Rightarrow> True"
    "0 \<notin> set ua" "utf8_valid ua" "length ua \<le> MAX_USER_AGENT_LEN"
    "open_sealed cr (kp_box_pk pool) (kp_box_sk pool) sealed = Inr (hello_body cc ua v r0 r1 @ sig)"
    "split_signed (hello_body cc ua v r0 r1 @ sig) = Inr (hello_body cc ua v r0 r1, sig)"
    "verify_sig cr sig (hello_body cc ua v r0 r1) (kp_sign_pk (cc_long_term_keys cc)) = Inr ()"
    "fh_proto_cmd h = HELLO_OR_PING" "fh_is_signed h" "fh_is_encrypted_pubkey h" "\<not> fh_is_encrypted_channel h"
  shows "open_hello cr h sealed pool = Inr \<lparr>he_client = key_pairs_public (cc_long_term_keys cc),
    he_session = key_pairs_public (cc_session_keys cc), he_user_agent = ua, he_nk = cc_nk cc,
    he_protocol_version = v\<rparr>"
proof -
  let ?pad = "replicate (Suc (unat r0 mod MAX_HELLO_PAD_LEN)) r1"
  have nul: "find_index (\<lambda>b. b = 0) (ua @ 0 # t) = Some (length ua)" for t
    using assms(4) by (intro find_index_prefix) auto
  have v: "hello_version (drs_extension v @ ?pad) = Inr v"
    using assms(3) padding_is_no_marker [of "Suc (unat r0 mod MAX_HELLO_PAD_LEN)" r1]
    by (intro hello_version_drs)
      (cases v, simp_all only: protocol_version.case split: option.splits, simp_all)
  have pk: "pk_sign (key_pairs_public (cc_long_term_keys cc)) = kp_sign_pk (cc_long_term_keys cc)"
    by (simp add: key_pairs_public_def)
  have u: "u32_from_le (take 4 (put_u32_le n @ t)) = n" "drop 4 (put_u32_le n @ t) = t" for n t
    by simp_all
  show ?thesis
    using assms(1,2) assms(5-13)
    by (simp add: open_hello_def hello_body_def pk nul v Let_def AFTER_UA_LEN_def min_def
        del: replicate_Suc)
qed

lemma length_hello_body:
  assumes "wf_public_keys (key_pairs_public (cc_long_term_keys cc))"
    "wf_public_keys (key_pairs_public (cc_session_keys cc))"
    "case v of V3 (Some t) \<Rightarrow> length t = RESUME_TOKEN_LEN | _ \<Rightarrow> True" "length ua \<le> MAX_USER_AGENT_LEN"
  shows "length (hello_body cc ua v r0 r1) \<le> 1000"
proof -
  have "length (drs_extension v) \<le> 45"
    using assms(3) by (auto simp: drs_extension_def DRS_MARKER_def channel_consts
        split: protocol_version.splits option.splits)
  moreover have "unat r0 mod MAX_HELLO_PAD_LEN < 200" by (simp add: channel_consts)
  ultimately show ?thesis
    using assms(4) by (simp add: hello_body_def length_public_keys assms(1,2) channel_consts)
qed

text \<open>Two channels in step in one direction: what one sends, the other can open.\<close>

definition sends_to :: "channel \<Rightarrow> channel \<Rightarrow> bool" where
  "sends_to a b \<longleftrightarrow> ch_precomp a \<noteq> None \<and> ch_precomp a = ch_precomp b \<and>
     ch_tx_nonce a = ch_rx_nonce b \<and> ch_tx_header_key a = ch_rx_header_key b"

definition header_of :: "u8 \<Rightarrow> bool \<Rightarrow> bool \<Rightarrow> bool \<Rightarrow> nat \<Rightarrow> frame_header" where
  "header_of cmd sg pub chn n = \<lparr>fh_cmd_len = word_of_nat n, fh_reserved = 0, fh_is_signed = sg,
     fh_is_encrypted_pubkey = pub, fh_is_encrypted_channel = chn, fh_proto_cmd = cmd\<rparr>"

lemma client_hello_opens:
  assumes cr: "crypto_ok cr sp bp" and lt: "wf_key_pairs sp bp (cc_long_term_keys cc)"
    and se: "wf_key_pairs sp bp (cc_session_keys cc)" and pool: "wf_key_pairs sp bp pool"
    and v: "case v of V3 (Some t) \<Rightarrow> length t = RESUME_TOKEN_LEN | _ \<Rightarrow> True"
    and ua: "0 \<notin> set ua" "utf8_valid ua" "length ua \<le> MAX_USER_AGENT_LEN"
    and ch: "cc_channel cc = channel_before_handshake"
  obtains w sealed rk where
    "client_hello cr cc (kp_box_pk pool) ua v r0 r1 = Some (w @ sealed, cc\<lparr>cc_channel :=
       channel_client (header_keys_from_nk (cc_nk cc)) (session_nonces_derive (cc_nk cc) (kp_sign_pk (cc_session_keys cc)))\<rparr>)"
    "length w = 4" "ratchet_unmask ratchet_initial w = (header_of HELLO_OR_PING True True False (length sealed), rk)"
    "open_hello cr (header_of HELLO_OR_PING True True False (length sealed)) sealed pool =
       Inr \<lparr>he_client = key_pairs_public (cc_long_term_keys cc),
         he_session = key_pairs_public (cc_session_keys cc), he_user_agent = ua, he_nk = cc_nk cc,
         he_protocol_version = v\<rparr>"
proof -
  note wf = wf_key_pairs_public [OF lt] wf_key_pairs_public [OF se]
  let ?body = "hello_body cc ua v r0 r1"
  obtain sealed sig where seal: "seal_signed cr (kp_sign_sk (cc_long_term_keys cc)) (kp_box_pk pool) ?body = Inr sealed"
    "length sealed = length ?body + 112"
    and opn: "open_sealed cr (kp_box_pk pool) (kp_box_sk pool) sealed = Inr (?body @ sig)"
    "split_signed (?body @ sig) = Inr (?body, sig)" "verify_sig cr sig ?body (kp_sign_pk (cc_long_term_keys cc)) = Inr ()"
    by (rule seal_signed_opens [OF cr, of "kp_sign_pk (cc_long_term_keys cc)" "kp_sign_sk (cc_long_term_keys cc)"
          "kp_box_pk pool" "kp_box_sk pool" ?body]) (use lt pool in \<open>simp_all add: wf_key_pairs_def\<close>)
  let ?h = "default_header\<lparr>fh_is_signed := True, fh_is_encrypted_pubkey := True, fh_proto_cmd := HELLO_OR_PING\<rparr>"
  have "length sealed \<le> MAX_CMD_LEN"
    using length_hello_body [OF wf v ua(3), of r0 r1] seal(2) by (simp add: MAX_CMD_LEN_val)
  from channel_frame_unmasks [OF this, of ?h channel_before_handshake ratchet_initial]
  obtain rk w where fr: "channel_frame channel_before_handshake ?h sealed =
      (w @ sealed, channel_before_handshake\<lparr>ch_tx_header_key := rk\<rparr>)" "length w = 4"
    "ratchet_unmask ratchet_initial w = (?h\<lparr>fh_cmd_len := word_of_nat (length sealed)\<rparr>, rk)"
    by (auto simp: default_header_def HELLO_OR_PING_def channel_before_handshake_def)
  have hdr: "?h\<lparr>fh_cmd_len := word_of_nat (length sealed)\<rparr> = header_of HELLO_OR_PING True True False (length sealed)"
    by (simp add: default_header_def header_of_def)
  show thesis
  proof
    show "client_hello cr cc (kp_box_pk pool) ua v r0 r1 = Some (w @ sealed, cc\<lparr>cc_channel :=
       channel_client (header_keys_from_nk (cc_nk cc)) (session_nonces_derive (cc_nk cc) (kp_sign_pk (cc_session_keys cc)))\<rparr>)"
      by (simp add: client_hello_def seal(1) ch fr(1))
    show "length w = 4" "ratchet_unmask ratchet_initial w = (header_of HELLO_OR_PING True True False (length sealed), rk)"
      using fr hdr by simp_all
    show "open_hello cr (header_of HELLO_OR_PING True True False (length sealed)) sealed pool =
       Inr \<lparr>he_client = key_pairs_public (cc_long_term_keys cc),
         he_session = key_pairs_public (cc_session_keys cc), he_user_agent = ua, he_nk = cc_nk cc,
         he_protocol_version = v\<rparr>"
      by (rule hello_fields [OF wf v ua opn]) (simp_all add: header_of_def)
  qed
qed

lemma server_accept_read:
  assumes cr: "crypto_ok cr sp bp" and se: "wf_key_pairs sp bp (cc_session_keys cc)"
    and lt: "wf_key_pairs sp bp (cc_long_term_keys cc)"
    and pool: "wf_key_pairs sp bp pool" and ss: "wf_key_pairs sp bp ss"
    and he: "he_client he = key_pairs_public (cc_long_term_keys cc)"
      "he_session he = key_pairs_public (cc_session_keys cc)" "he_nk he = cc_nk cc"
    and ch: "cc_channel cc = channel_client (header_keys_from_nk (cc_nk cc))
      (session_nonces_derive (cc_nk cc) (kp_sign_pk (cc_session_keys cc)))"
  obtains w sealed sc cc1 cc2 where
    "server_accept cr he pool motd ss = Inr (w @ sealed, sc)" "length w = 4"
    "client_unmask_header cc w = (header_of HANDSHAKE_RESPONSE True True False (length sealed), cc1)"
    "read_handshake_response cr cc1 (header_of HANDSHAKE_RESPONSE True True False (length sealed)) sealed
       (kp_sign_pk pool) = (Inr (), cc2)"
    "sends_to (cc_channel cc2) (sc_channel sc)" "sends_to (sc_channel sc) (cc_channel cc2)"
    "sc_hello sc = he" "sc_session_sign_sk sc = kp_sign_sk ss" "cc_pool_session_sign_pk cc2 = Some (kp_sign_pk ss)"
    "cc_session_keys cc2 = cc_session_keys cc"
proof -
  note wf = wf_key_pairs_public [OF lt] wf_key_pairs_public [OF se] wf_key_pairs_public [OF ss]
  let ?motd = "take (min (length motd) MAX_MOTD_LEN) motd"
  let ?body = "public_keys_to_bytes (key_pairs_public (cc_long_term_keys cc))
     @ public_keys_to_bytes (key_pairs_public (cc_session_keys cc))
     @ public_keys_to_bytes (key_pairs_public ss) @ ?motd @ [0]"
  obtain sealed sig where seal: "seal_signed cr (kp_sign_sk pool) (kp_box_pk (cc_session_keys cc)) ?body = Inr sealed"
    "length sealed = length ?body + 112"
    and opn: "open_sealed cr (kp_box_pk (cc_session_keys cc)) (kp_box_sk (cc_session_keys cc)) sealed = Inr (?body @ sig)"
    "split_signed (?body @ sig) = Inr (?body, sig)" "verify_sig cr sig ?body (kp_sign_pk pool) = Inr ()"
    by (rule seal_signed_opens [OF cr, of "kp_sign_pk pool" "kp_sign_sk pool" "kp_box_pk (cc_session_keys cc)"
          "kp_box_sk (cc_session_keys cc)" ?body]) (use se pool in \<open>simp_all add: wf_key_pairs_def\<close>)
  have bp: "bp (kp_box_pk (cc_session_keys cc)) (kp_box_sk (cc_session_keys cc))" "bp (kp_box_pk ss) (kp_box_sk ss)"
    using se ss by (simp_all add: wf_key_pairs_def)
  obtain k where k: "cr_beforenm cr (kp_box_pk (cc_session_keys cc)) (kp_box_sk ss) = Some k"
    "cr_beforenm cr (kp_box_pk ss) (kp_box_sk (cc_session_keys cc)) = Some k"
    by (rule crypto_ok_agree [OF cr bp])
  let ?keys = "header_keys_from_nk (cc_nk cc)"
  let ?nonces = "session_nonces_derive (cc_nk cc) (kp_sign_pk (cc_session_keys cc))"
  let ?srv = "channel_server ?keys ?nonces k"
  let ?h = "default_header\<lparr>fh_is_signed := True, fh_is_encrypted_pubkey := True, fh_proto_cmd := HANDSHAKE_RESPONSE\<rparr>"
  have len: "length sealed \<le> MAX_CMD_LEN"
    using seal(2) by (simp add: length_public_keys wf MAX_CMD_LEN_val channel_consts)
  from channel_frame_unmasks [OF this, of ?h ?srv "ratchet_new (hk_server_to_client ?keys)"]
  obtain rk w where fr: "channel_frame ?srv ?h sealed = (w @ sealed, ?srv\<lparr>ch_tx_header_key := rk\<rparr>)" "length w = 4"
    "ratchet_unmask (ratchet_new (hk_server_to_client ?keys)) w = (?h\<lparr>fh_cmd_len := word_of_nat (length sealed)\<rparr>, rk)"
    by (auto simp: default_header_def HANDSHAKE_RESPONSE_def channel_server_def)
  have hdr: "?h\<lparr>fh_cmd_len := word_of_nat (length sealed)\<rparr> = header_of HANDSHAKE_RESPONSE True True False (length sealed)"
    by (simp add: default_header_def header_of_def)
  define sc where "sc = \<lparr>sc_channel = ?srv\<lparr>ch_tx_header_key := rk\<rparr>, sc_session_sign_sk = kp_sign_sk ss, sc_hello = he\<rparr>"
  define cc1 where "cc1 = cc\<lparr>cc_channel := (cc_channel cc)\<lparr>ch_rx_header_key := rk\<rparr>\<rparr>"
  define cc2 where "cc2 = cc1\<lparr>cc_motd := from_utf8_lossy (takeWhile (\<lambda>b. b \<noteq> 0) (?motd @ [0])),
    cc_pool_session_sign_pk := Some (kp_sign_pk ss), cc_channel := channel_set_precomp (cc_channel cc1) k\<rparr>"
  have pk: "pk_box (key_pairs_public x) = kp_box_pk x" "pk_sign (key_pairs_public x) = kp_sign_pk x" for x
    by (simp_all add: key_pairs_public_def)
  show thesis
  proof
    show "server_accept cr he pool motd ss = Inr (w @ sealed, sc)"
      using seal(1) len k fr(1) by (simp add: server_accept_def he pk Let_def sc_def)
    show "length w = 4" by (rule fr)
    show "client_unmask_header cc w = (header_of HANDSHAKE_RESPONSE True True False (length sealed), cc1)"
      using fr(3) hdr
      by (simp add: client_unmask_header_def channel_unmask_header_def ch channel_client_def cc1_def)
    show "read_handshake_response cr cc1 (header_of HANDSHAKE_RESPONSE True True False (length sealed)) sealed
       (kp_sign_pk pool) = (Inr (), cc2)"
      using opn wf k
      by (simp add: read_handshake_response_def header_of_def cc1_def cc2_def pk Let_def)
    show "sends_to (cc_channel cc2) (sc_channel sc)" "sends_to (sc_channel sc) (cc_channel cc2)"
      by (simp_all add: sends_to_def sc_def cc2_def cc1_def channel_set_precomp_def ch channel_client_def channel_server_def)
  qed (simp_all add: sc_def cc2_def cc1_def)
qed

section \<open>Lemmas: messages on the channel\<close>

definition signs_for :: "(bytes \<Rightarrow> bytes \<Rightarrow> bool) \<Rightarrow> bytes option \<Rightarrow> bytes option \<Rightarrow> bool" where
  "signs_for sp sign_with verify_with \<longleftrightarrow>
     (case sign_with of None \<Rightarrow> True | Some sk \<Rightarrow> (\<exists>pk. verify_with = Some pk \<and> sp pk sk))"

lemma plain_and_back:
  assumes "crypto_ok cr sp bp" "signs_for sp sign_with verify_with"
    "(case sign_with of Some sk \<Rightarrow> sign_append cr sk payload | None \<Rightarrow> Inr payload) = Inr plain"
    "fh_is_signed h \<longleftrightarrow> sign_with \<noteq> None"
  shows "strip_signature cr plain h verify_with = Inr payload"
proof (cases sign_with)
  case None
  then show ?thesis using assms by (simp add: strip_signature_def)
next
  case (Some sk)
  then obtain pk where pk: "verify_with = Some pk" "sp pk sk" using assms(2) by (auto simp: signs_for_def)
  obtain sig where sig: "cr_sign cr sk payload = Some sig" "length sig = CRYPTO_SIGN_BYTES" "cr_verify cr pk payload sig"
    using crypto_ok_sign [OF assms(1) pk(2)] by blast
  then have "plain = payload @ sig" using assms(3) Some by (simp add: sign_append_def)
  then show ?thesis using assms(4) Some pk sig
    by (simp add: strip_signature_def split_signed_append verify_sig_def)
qed

lemma channel_delivers:
  assumes cr: "crypto_ok cr sp bp" and step: "sends_to a b" and cmd: "unat cmd < 32"
    and sv: "signs_for sp sign_with verify_with"
    and enc: "channel_encrypt cr a cmd payload sign_with = (Inr f, a')"
  obtains h b1 b2 where "channel_unmask_header b (take 4 f) = (h, b1)" "fh_proto_cmd h = cmd"
    "fh_is_encrypted_channel h" "\<not> fh_is_encrypted_pubkey h"
    "channel_decrypt cr b1 h (drop 4 f) verify_with = (Inr payload, b2)" "sends_to a' b2"
    "sends_to b a \<Longrightarrow> sends_to b2 a'"
proof -
  obtain k where k: "ch_precomp a = Some k" "ch_precomp b = Some k" using step by (auto simp: sends_to_def)
  obtain plain where plain: "(case sign_with of Some sk \<Rightarrow> sign_append cr sk payload | None \<Rightarrow> Inr payload) = Inr plain"
    "length plain \<le> MAX_PLAINTEXT_LEN"
    using enc k by (auto simp: channel_encrypt_def split: sum.splits if_splits)
  obtain ct where ct: "cr_box cr k (ch_tx_nonce a) plain = Some ct" "length ct = length plain + CRYPTO_BOX_MACBYTES"
    "cr_box_open cr k (ch_tx_nonce a) ct = Some plain"
    using crypto_ok_box [OF cr] by blast
  let ?a1 = "a\<lparr>ch_tx_nonce := increment_nonce (ch_tx_nonce a)\<rparr>"
  let ?h = "default_header\<lparr>fh_is_signed := sign_with \<noteq> None, fh_is_encrypted_channel := True, fh_proto_cmd := cmd\<rparr>"
  have fr: "channel_frame ?a1 ?h ct = (f, a')"
    using enc k plain ct by (auto simp: channel_encrypt_def Let_def split: prod.splits)
  have "length ct \<le> MAX_CMD_LEN"
    using ct(2) plain(2) by (simp add: channel_consts MAX_CMD_LEN_val)
  from channel_frame_unmasks [OF this, of ?h ?a1 "ch_rx_header_key b"] obtain rk w
    where w: "f = w @ ct" "a' = ?a1\<lparr>ch_tx_header_key := rk\<rparr>" "length w = 4"
      "ratchet_unmask (ch_rx_header_key b) w = (?h\<lparr>fh_cmd_len := word_of_nat (length ct)\<rparr>, rk)"
    using fr step cmd by (auto simp: sends_to_def default_header_def)
  let ?h2 = "?h\<lparr>fh_cmd_len := word_of_nat (length ct)\<rparr>"
  let ?b1 = "b\<lparr>ch_rx_header_key := rk\<rparr>"
  have strip: "strip_signature cr plain ?h2 verify_with = Inr payload"
    by (rule plain_and_back [OF cr sv plain(1)]) (simp add: default_header_def)
  show thesis
  proof
    show "channel_unmask_header b (take 4 f) = (?h2, ?b1)"
      using w by (simp add: channel_unmask_header_def)
    show "channel_decrypt cr ?b1 ?h2 (drop 4 f) verify_with =
        (Inr payload, ?b1\<lparr>ch_rx_nonce := increment_nonce (ch_rx_nonce ?b1)\<rparr>)"
      using w ct k step strip by (simp add: channel_decrypt_def sends_to_def)
  qed (use w step k in \<open>simp_all add: sends_to_def default_header_def\<close>)
qed

lemma channel_encrypt_succeeds:
  assumes "crypto_ok cr sp bp" "ch_precomp a \<noteq> None" "length payload \<le> MAX_PLAINTEXT_LEN"
  shows "\<exists>f a'. channel_encrypt cr a cmd payload None = (Inr f, a')"
proof -
  obtain k where "ch_precomp a = Some k" using assms(2) by blast
  moreover obtain ct where "cr_box cr k (ch_tx_nonce a) payload = Some ct" by (rule crypto_ok_box [OF assms(1)])
  ultimately show ?thesis
    using assms(3) by (simp add: channel_encrypt_def Let_def split: prod.splits)
qed

text \<open>The two ends as senders and receivers of messages: a command and a payload.\<close>

definition client_send :: "crypto \<Rightarrow> client_channel \<Rightarrow> u8 \<times> bytes \<Rightarrow> (bytes \<times> client_channel) option" where
  "client_send cr cc m = (case m of (cmd, payload) \<Rightarrow>
     if unat cmd < 32 then (case client_encrypt cr cc cmd payload of (Inr f, cc) \<Rightarrow> Some (f, cc) | _ \<Rightarrow> None)
     else None)"

definition server_recv :: "crypto \<Rightarrow> server_channel \<Rightarrow> bytes \<Rightarrow> ((u8 \<times> bytes) \<times> server_channel) option" where
  "server_recv cr sc f =
     (let (h, sc) = server_unmask_header sc (take 4 f)
      in case server_decrypt cr sc h (drop 4 f) of
           (Inr payload, sc) \<Rightarrow> Some ((fh_proto_cmd h, payload), sc) | _ \<Rightarrow> None)"

definition server_send ::
  "crypto \<Rightarrow> server_channel \<Rightarrow> u8 \<times> bytes \<Rightarrow> (bytes \<times> server_channel) option" where
  "server_send cr sc m = (case m of (cmd, payload) \<Rightarrow>
     if unat cmd < 32 then (case server_encrypt cr sc cmd payload True of (Inr f, sc) \<Rightarrow> Some (f, sc) | _ \<Rightarrow> None)
     else None)"

definition client_recv :: "crypto \<Rightarrow> client_channel \<Rightarrow> bytes \<Rightarrow> ((u8 \<times> bytes) \<times> client_channel) option" where
  "client_recv cr cc f =
     (let (h, cc) = client_unmask_header cc (take 4 f)
      in case client_decrypt cr cc h (drop 4 f) of
           (Inr payload, cc) \<Rightarrow> Some ((fh_proto_cmd h, payload), cc) | _ \<Rightarrow> None)"

definition upward :: "client_channel \<Rightarrow> server_channel \<Rightarrow> bool" where
  "upward cc sc \<longleftrightarrow> sends_to (cc_channel cc) (sc_channel sc)"

definition downward :: "(bytes \<Rightarrow> bytes \<Rightarrow> bool) \<Rightarrow> server_channel \<Rightarrow> client_channel \<Rightarrow> bool" where
  "downward sp sc cc \<longleftrightarrow> sends_to (sc_channel sc) (cc_channel cc) \<and>
     (\<exists>pk. cc_pool_session_sign_pk cc = Some pk \<and> sp pk (sc_session_sign_sk sc))"

lemma client_to_server_in_step:
  assumes cr: "crypto_ok cr sp bp"
  shows "in_step (client_send cr) (server_recv cr) upward"
proof
  fix cc sc m f cc'
  assume up: "upward cc sc" and send: "client_send cr cc m = Some (f, cc')"
  obtain cmd payload where m: "m = (cmd, payload)" by force
  obtain c' where c': "channel_encrypt cr (cc_channel cc) cmd payload None = (Inr f, c')" "cc' = cc\<lparr>cc_channel := c'\<rparr>" "unat cmd < 32"
    using send by (auto simp: client_send_def m client_encrypt_def split: if_splits sum.splits prod.splits)
  have sv: "signs_for sp None (Some (pk_sign (he_session (sc_hello sc))))" by (simp add: signs_for_def)
  obtain h b1 b2 where b: "channel_unmask_header (sc_channel sc) (take 4 f) = (h, b1)" "fh_proto_cmd h = cmd"
    "fh_is_encrypted_channel h" "\<not> fh_is_encrypted_pubkey h"
    "channel_decrypt cr b1 h (drop 4 f) (Some (pk_sign (he_session (sc_hello sc)))) = (Inr payload, b2)" "sends_to c' b2"
    using channel_delivers [OF cr up [unfolded upward_def] c'(3) sv c'(1)] by metis
  then show "\<exists>r'. server_recv cr sc f = Some (m, r') \<and> upward cc' r'"
    by (simp add: server_recv_def server_unmask_header_def server_decrypt_def m upward_def c'(2))
qed

lemma server_to_client_in_step:
  assumes cr: "crypto_ok cr sp bp"
  shows "in_step (server_send cr) (client_recv cr) (downward sp)"
proof
  fix sc cc m f sc'
  assume down: "downward sp sc cc" and send: "server_send cr sc m = Some (f, sc')"
  obtain cmd payload where m: "m = (cmd, payload)" by force
  obtain c' where c': "channel_encrypt cr (sc_channel sc) cmd payload (Some (sc_session_sign_sk sc)) = (Inr f, c')"
    "sc' = sc\<lparr>sc_channel := c'\<rparr>" "unat cmd < 32"
    using send by (auto simp: server_send_def m server_encrypt_def split: if_splits sum.splits prod.splits)
  have step: "sends_to (sc_channel sc) (cc_channel cc)"
    and sv: "signs_for sp (Some (sc_session_sign_sk sc)) (cc_pool_session_sign_pk cc)"
    using down by (auto simp: downward_def signs_for_def)
  obtain h b1 b2 where b: "channel_unmask_header (cc_channel cc) (take 4 f) = (h, b1)" "fh_proto_cmd h = cmd"
    "fh_is_encrypted_channel h" "\<not> fh_is_encrypted_pubkey h"
    "channel_decrypt cr b1 h (drop 4 f) (cc_pool_session_sign_pk cc) = (Inr payload, b2)" "sends_to c' b2"
    using channel_delivers [OF cr step c'(3) sv c'(1)] by metis
  then show "\<exists>r'. client_recv cr cc f = Some (m, r') \<and> downward sp sc' r'"
    using down
    by (simp add: client_recv_def client_unmask_header_def client_decrypt_def m downward_def c'(2))
qed

section \<open>What the channel guarantees\<close>

text \<open>The primitives of the witnesses: no secrecy, but every law of \<open>crypto_ok\<close>.\<close>

definition plain_crypto :: crypto where
  "plain_crypto = \<lparr>cr_box = (\<lambda>k n m. Some (m @ replicate 16 0)),
     cr_box_open = (\<lambda>k n c. Some (take (length c - 16) c)),
     cr_sign = (\<lambda>sk m. Some (replicate 64 1)), cr_verify = (\<lambda>pk m s. s = replicate 64 1),
     cr_seal = (\<lambda>pk m. Some (m @ replicate 48 2)),
     cr_seal_open = (\<lambda>pk sk c. Some (take (length c - 48) c)),
     cr_beforenm = (\<lambda>pk sk. Some (replicate 32 3))\<rparr>"

definition any_pair :: "bytes \<Rightarrow> bytes \<Rightarrow> bool" where
  "any_pair pk sk = True"

definition sample_keys :: "u8 \<Rightarrow> key_pairs" where
  "sample_keys b = \<lparr>kp_sign_pk = replicate 32 b, kp_sign_sk = replicate 64 b,
     kp_box_pk = replicate 32 (b + 1), kp_box_sk = replicate 32 (b + 2)\<rparr>"

lemma plain_crypto_ok: "crypto_ok plain_crypto any_pair any_pair"
  by (simp add: crypto_ok_def plain_crypto_def channel_consts)

lemma sample_keys_wf: "wf_key_pairs any_pair any_pair (sample_keys b)"
  by (simp add: wf_key_pairs_def sample_keys_def any_pair_def channel_consts)

text \<open>C28: the handshake completes and leaves both ends in step: the hello a gateway seals to the
  pool's box key is opened by the pool as exactly the gateway's keys, user agent, \<open>nk\<close> and
  protocol version; the response the pool seals to the session is accepted by the gateway; and
  afterwards each end can open what the other sends, with the session key the pool signed.\<close>

theorem handshake_completes:
  assumes "crypto_ok cr sign_pair box_pair"
    and "wf_key_pairs sign_pair box_pair long_term" "wf_key_pairs sign_pair box_pair session"
      "wf_key_pairs sign_pair box_pair pool" "wf_key_pairs sign_pair box_pair pool_session"
    and "case v of V3 (Some t) \<Rightarrow> length t = RESUME_TOKEN_LEN | _ \<Rightarrow> True"
    and "0 \<notin> set user_agent" "utf8_valid user_agent" "length user_agent \<le> MAX_USER_AGENT_LEN"
  shows "\<exists>f cc h rk hello g sc h' cc' cc''.
    client_hello cr (client_with_key_pairs long_term session nk) (kp_box_pk pool) user_agent v r0 r1 = Some (f, cc) \<and>
    ratchet_unmask ratchet_initial (take HEADER_LEN f) = (h, rk) \<and>
    open_hello cr h (drop HEADER_LEN f) pool = Inr hello \<and>
    hello = \<lparr>he_client = key_pairs_public long_term, he_session = key_pairs_public session,
      he_user_agent = user_agent, he_nk = nk, he_protocol_version = v\<rparr> \<and>
    server_accept cr hello pool motd pool_session = Inr (g, sc) \<and>
    client_unmask_header cc (take HEADER_LEN g) = (h', cc') \<and>
    read_handshake_response cr cc' h' (drop HEADER_LEN g) (kp_sign_pk pool) = (Inr (), cc'') \<and>
    upward cc'' sc \<and> downward sign_pair sc cc''"
proof -
  let ?cc = "client_with_key_pairs long_term session nk"
  have cc: "cc_long_term_keys ?cc = long_term" "cc_session_keys ?cc = session" "cc_nk ?cc = nk"
    "cc_channel ?cc = channel_before_handshake" by (simp_all add: client_with_key_pairs_def)
  let ?ch = "channel_client (header_keys_from_nk nk) (session_nonces_derive nk (kp_sign_pk session))"
  let ?hello = "\<lparr>he_client = key_pairs_public long_term, he_session = key_pairs_public session,
     he_user_agent = user_agent, he_nk = nk, he_protocol_version = v\<rparr>"
  let ?cc1 = "?cc\<lparr>cc_channel := ?ch\<rparr>"
  obtain w sealed rk where one:
    "client_hello cr ?cc (kp_box_pk pool) user_agent v r0 r1 = Some (w @ sealed, ?cc1)"
    "length w = 4" "ratchet_unmask ratchet_initial w = (header_of HELLO_OR_PING True True False (length sealed), rk)"
    "open_hello cr (header_of HELLO_OR_PING True True False (length sealed)) sealed pool = Inr ?hello"
    by (rule client_hello_opens [OF assms(1), of ?cc pool v user_agent r0 r1, unfolded cc,
          OF assms(2,3,4,6,7,8,9) refl])
  have cc1: "cc_long_term_keys ?cc1 = long_term" "cc_session_keys ?cc1 = session" "cc_nk ?cc1 = nk"
    "cc_channel ?cc1 = ?ch" using cc by simp_all
  obtain w' sealed' sc cc' cc'' where two:
    "server_accept cr ?hello pool motd pool_session = Inr (w' @ sealed', sc)" "length w' = 4"
    "client_unmask_header ?cc1 w' = (header_of HANDSHAKE_RESPONSE True True False (length sealed'), cc')"
    "read_handshake_response cr cc' (header_of HANDSHAKE_RESPONSE True True False (length sealed')) sealed'
       (kp_sign_pk pool) = (Inr (), cc'')"
    "sends_to (cc_channel cc'') (sc_channel sc)" "sends_to (sc_channel sc) (cc_channel cc'')"
    "sc_session_sign_sk sc = kp_sign_sk pool_session" "cc_pool_session_sign_pk cc'' = Some (kp_sign_pk pool_session)"
    by (rule server_accept_read [OF assms(1), of ?cc1 pool pool_session ?hello motd, unfolded cc1,
          OF assms(3,2,4,5) _ _ _ refl]) simp_all
  have parts: "take HEADER_LEN (w @ sealed) = w" "drop HEADER_LEN (w @ sealed) = sealed"
    "take HEADER_LEN (w' @ sealed') = w'" "drop HEADER_LEN (w' @ sealed') = sealed'"
    using one(2) two(2) by (simp_all add: HEADER_LEN_def)
  have fin: "upward cc'' sc" "downward sign_pair sc cc''"
    using two assms(5) by (simp_all add: upward_def downward_def wf_key_pairs_def)
  show ?thesis
    by (intro exI conjI, rule one(1), unfold parts, rule one(3), rule one(4), rule refl, rule two(1),
        unfold parts, rule two(3), rule two(4), rule fin(1), rule fin(2))
qed

theorem handshake_completes_witness:
  "\<exists>f cc h rk hello g sc h' cc' cc''.
    client_hello plain_crypto (client_with_key_pairs (sample_keys 1) (sample_keys 2) 7) (kp_box_pk (sample_keys 3))
      [0x61, 0x62] (V3 None) 9 9 = Some (f, cc) \<and>
    ratchet_unmask ratchet_initial (take HEADER_LEN f) = (h, rk) \<and>
    open_hello plain_crypto h (drop HEADER_LEN f) (sample_keys 3) = Inr hello \<and>
    hello = \<lparr>he_client = key_pairs_public (sample_keys 1), he_session = key_pairs_public (sample_keys 2),
      he_user_agent = [0x61, 0x62], he_nk = 7, he_protocol_version = V3 None\<rparr> \<and>
    server_accept plain_crypto hello (sample_keys 3) [] (sample_keys 4) = Inr (g, sc) \<and>
    client_unmask_header cc (take HEADER_LEN g) = (h', cc') \<and>
    read_handshake_response plain_crypto cc' h' (drop HEADER_LEN g) (kp_sign_pk (sample_keys 3)) = (Inr (), cc'') \<and>
    upward cc'' sc \<and> downward any_pair sc cc''"
  by (rule handshake_completes [OF plain_crypto_ok sample_keys_wf sample_keys_wf sample_keys_wf sample_keys_wf])
    (simp_all add: channel_consts utf8_valid_ascii)

text \<open>C29: messages arrive whole and in order in both directions: while the ends are in step, any
  sequence of messages one end manages to encrypt is decrypted by the other into the same
  commands and payloads, and the ends are in step again afterwards.\<close>

theorem channel_streams_delivered:
  assumes "crypto_ok cr sign_pair box_pair"
  shows "(upward cc sc \<and> in_step.send_all (client_send cr) cc ms = Some (ws, cc') \<longrightarrow>
      (\<exists>sc'. in_step.recv_all (server_recv cr) sc ws = Some (ms, sc') \<and> upward cc' sc')) \<and>
    (downward sign_pair sc cc \<and> in_step.send_all (server_send cr) sc ns = Some (vs, sc'') \<longrightarrow>
      (\<exists>cc''. in_step.recv_all (client_recv cr) cc vs = Some (ns, cc'') \<and> downward sign_pair sc'' cc''))"
  using in_step.stream_delivered [OF client_to_server_in_step [OF assms]]
    in_step.stream_delivered [OF server_to_client_in_step [OF assms]] by blast

definition sample_client :: client_channel where
  "sample_client = (client_with_key_pairs (sample_keys 1) (sample_keys 2) 7)
     \<lparr>cc_channel := channel_before_handshake\<lparr>ch_precomp := Some (replicate 32 3)\<rparr>\<rparr>"

definition sample_server :: server_channel where
  "sample_server = \<lparr>sc_channel = channel_before_handshake\<lparr>ch_precomp := Some (replicate 32 3)\<rparr>,
     sc_session_sign_sk = replicate 64 4,
     sc_hello = \<lparr>he_client = key_pairs_public (sample_keys 1), he_session = key_pairs_public (sample_keys 2),
       he_user_agent = [], he_nk = 7, he_protocol_version = V1\<rparr>\<rparr>"

theorem channel_streams_delivered_witness:
  "crypto_ok plain_crypto any_pair any_pair \<and>
   (\<exists>ws cc' sc'. in_step.send_all (client_send plain_crypto) sample_client [(MINING, [1, 2, 3])] = Some (ws, cc') \<and>
      in_step.recv_all (server_recv plain_crypto) sample_server ws = Some ([(MINING, [1, 2, 3])], sc') \<and>
      upward cc' sc')"
proof -
  note loc = client_to_server_in_step [OF plain_crypto_ok]
  have pre: "ch_precomp (cc_channel sample_client) \<noteq> None" "upward sample_client sample_server"
    by (simp_all add: sample_client_def sample_server_def upward_def sends_to_def channel_before_handshake_def)
  obtain f c where "channel_encrypt plain_crypto (cc_channel sample_client) MINING [1, 2, 3] None = (Inr f, c)"
    using channel_encrypt_succeeds [OF plain_crypto_ok pre(1), of "[1, 2, 3]" MINING]
    by (auto simp: channel_consts MAX_CMD_LEN_val)
  then have "in_step.send_all (client_send plain_crypto) sample_client [(MINING, [1, 2, 3])] =
      Some ([f], sample_client\<lparr>cc_channel := c\<rparr>)"
    by (simp add: in_step.send_all.simps [OF loc] client_send_def client_encrypt_def MINING_def)
  with channel_streams_delivered [OF plain_crypto_ok] pre(2) plain_crypto_ok show ?thesis by blast
qed

end
