(* ===== verification/Channel_Auth.thy ===== *)
theory Channel_Auth
  imports Channel
begin

text \<open>
  What an end of the channel can be made to accept by whoever carries the frames: core/src/datum/client.rs,
  core/src/datum/server.rs and core/src/datum/channel.rs.  The carrier presents any frames, in any order,
  any number of times; the one thing assumed is that a ciphertext it presents opens under the session's key
  only at a nonce, and to the text, one of the two ends boxed it at.  The nonces of the two directions start
  far apart and are counted up, and a receiver opens each frame at the count of those before it: so what is
  opened is, from the first message on, what the other end sent.  The header of a frame is masked but not
  authenticated: the command, and whether a signature is to be stripped, are the carrier's to change.
\<close>

section \<open>The nonces of a session\<close>

lemma increment_nonce_iterated:
  assumes "length n = NONCE_LEN"
  shows "length ((increment_nonce ^^ i) n) = NONCE_LEN" "le_val ((increment_nonce ^^ i) n) = (le_val n + i) mod 2 ^ 192"
proof -
  have "length ((increment_nonce ^^ i) n) = NONCE_LEN \<and> le_val ((increment_nonce ^^ i) n) = (le_val n + i) mod 2 ^ 192"
  proof (induction i)
    case 0
    have "le_val n < 2 ^ 192" using le_val_lt [of n] assms by (simp add: framing_consts)
    then show ?case using assms by simp
  next
    case (Suc i)
    then show ?case
      using increment_nonce_counts [of "(increment_nonce ^^ i) n"] by (simp add: mod_Suc_eq)
  qed
  then show "length ((increment_nonce ^^ i) n) = NONCE_LEN" "le_val ((increment_nonce ^^ i) n) = (le_val n + i) mod 2 ^ 192"
    by simp_all
qed

lemma nonces_differ:
  assumes "length n = NONCE_LEN" "i \<le> 2 ^ 160" "j \<le> 2 ^ 160" "(increment_nonce ^^ i) n = (increment_nonce ^^ j) n"
  shows "i = j"
proof -
  have "(le_val n + i) mod 2 ^ 192 = (le_val n + j) mod 2 ^ 192"
    using assms(4) increment_nonce_iterated(2) [OF assms(1)] by metis
  then have "i mod 2 ^ 192 = j mod 2 ^ 192" by (simp add: nat_mod_eq_iff mod_add_left_eq)
  moreover have "i < 2 ^ 192" "j < 2 ^ 192" using assms(2,3) by simp_all
  ultimately show ?thesis by simp
qed

lemma xor_at_most: "a XOR b \<le> a + b" for a b :: nat
proof (induction a arbitrary: b rule: less_induct)
  case (less a)
  show ?case
  proof (cases "a = 0")
    case False
    then have "(a div 2) XOR (b div 2) \<le> a div 2 + b div 2" by (intro less.IH) simp
    then show ?thesis by (subst xor_nat_rec) (auto elim!: oddE evenE)
  qed simp
qed

text \<open>The mask between the two directions moves a word by at least 2, counted either way round.\<close>

lemma sender_mask_moves:
  fixes r :: u32
  defines "a \<equiv> unat r" and "b \<equiv> unat (r XOR SENDER_MASK)"
  shows "a + 2 \<le> b \<and> b + 2 \<le> a + 2 ^ 32 \<or> b + 2 \<le> a \<and> a + 2 \<le> b + 2 ^ 32"
proof -
  have mask: "unat SENDER_MASK = 0x57575757" by (simp add: SENDER_MASK_def)
  have b: "b = a XOR 0x57575757" by (simp add: a_def b_def unsigned_xor_eq mask)
  define q l where "q = drop_bit 30 a" and "l = take_bit 30 a"
  have "drop_bit 30 b = q XOR 1" "take_bit 30 b = l XOR 0x17575757"
    by (simp_all add: b q_def l_def)
  moreover have "x = 2 ^ 30 * drop_bit 30 x + take_bit 30 x" for x :: nat
    by (simp add: drop_bit_eq_div take_bit_eq_mod)
  ultimately have parts: "a = 2 ^ 30 * q + l" "b = 2 ^ 30 * (q XOR 1) + (l XOR 0x17575757)" by (metis q_def l_def)+
  have "l XOR 0x17575757 \<le> l + 0x17575757" "l \<le> (l XOR 0x17575757) + 0x17575757"
    using xor_at_most [of l "0x17575757"] xor_at_most [of "l XOR 0x17575757" "0x17575757"] by (simp_all add: xor.assoc)
  moreover have "q XOR 1 = Suc q \<or> q = Suc (q XOR 1)" by (auto simp: xor_Suc_0_eq elim!: oddE)
  ultimately show ?thesis using parts by auto
qed

lemma derive_words_top:
  "\<exists>rx tx w. derive_words (Suc k) n = (rx @ put_u32_le w, tx @ put_u32_le (w XOR SENDER_MASK)) \<and>
     length rx = 4 * k \<and> length tx = 4 * k"
proof (induction k arbitrary: n)
  case 0
  show ?case by (simp add: Let_def)
next
  case (Suc k)
  let ?r = "feedback (n - NONCE_STEP)"
  obtain rx tx w where "derive_words (Suc k) (NOT ?r) = (rx @ put_u32_le w, tx @ put_u32_le (w XOR SENDER_MASK))"
    "length rx = 4 * k" "length tx = 4 * k" using Suc.IH by blast
  then show ?case
    by (intro exI [of _ "put_u32_le ?r @ rx"] exI [of _ "put_u32_le (?r XOR SENDER_MASK) @ tx"] exI [of _ w])
      (simp add: Let_def derive_words.simps(2) [of "Suc k"] del: derive_words.simps)
qed

lemma counts_apart:
  fixes P K :: nat
  assumes "lr < P" "ls < P" "i < P" "j < P" "a + 2 \<le> b" "b + 2 \<le> a + K"
  shows "(ls + P * b + i) mod (P * K) \<noteq> (lr + P * a + j) mod (P * K)"
proof
  let ?x = "ls + P * b + i" and ?y = "lr + P * a + j"
  assume same: "?x mod (P * K) = ?y mod (P * K)"
  have "P * (a + 2) \<le> P * b" "P * (b + 2) \<le> P * (a + K)" using assms(5,6) by (simp_all only: mult_le_mono2)
  then have "?y < ?x" "?x < ?y + P * K" using assms(1-4) by (simp_all add: algebra_simps)
  moreover have "P * K dvd ?x - ?y" using same \<open>?y < ?x\<close> by (metis less_imp_le mod_eq_dvd_iff_nat)
  ultimately show False by (auto dest: dvd_imp_le)
qed

text \<open>The two counts of a session do not meet in \<open>2 ^ 160\<close> messages.\<close>

lemma session_nonces_apart:
  assumes nonces: "nonces = session_nonces_derive nk pk" and few: "i < 2 ^ 160" "j < 2 ^ 160"
  shows "length (sn_client_sender nonces) = NONCE_LEN" "length (sn_client_receiver nonces) = NONCE_LEN"
    "(increment_nonce ^^ i) (sn_client_sender nonces) \<noteq> (increment_nonce ^^ j) (sn_client_receiver nonces)"
proof -
  obtain rx tx w where words: "sn_client_receiver nonces = rx @ put_u32_le w"
    "sn_client_sender nonces = tx @ put_u32_le (w XOR SENDER_MASK)" "length rx = 20" "length tx = 20"
  proof -
    let ?n = "(nk - NONCE_STEP) XOR u32_from_le (take WORD_SIZE (drop NONCE_SEED_AT pk))"
    have six: "NONCE_LEN div WORD_SIZE = Suc 5" by (simp add: framing_consts)
    obtain rx tx w where made: "derive_words (Suc 5) ?n = (rx @ put_u32_le w, tx @ put_u32_le (w XOR SENDER_MASK))"
      "length rx = 4 * 5" "length tx = 4 * 5" using derive_words_top [of 5 ?n] by blast
    have "nonces = \<lparr>sn_client_receiver = rx @ put_u32_le w, sn_client_sender = tx @ put_u32_le (w XOR SENDER_MASK)\<rparr>"
      unfolding nonces session_nonces_derive_def Let_def six made(1) by simp
    then show thesis using made(2,3) by (intro that [of rx w tx]) simp_all
  qed
  show len: "length (sn_client_sender nonces) = NONCE_LEN" "length (sn_client_receiver nonces) = NONCE_LEN"
    by (simp_all add: words framing_consts)
  define a b where "a = unat w" and "b = unat (w XOR SENDER_MASK)"
  have "le_val rx < 2 ^ 160" "le_val tx < 2 ^ 160" using le_val_lt [of rx] le_val_lt [of tx] by (simp_all add: words)
  moreover have bounds: "a < 2 ^ 32" "b < 2 ^ 32"
    using unsigned_less [of w, where 'a = nat] unsigned_less [of "w XOR SENDER_MASK", where 'a = nat] by (simp_all add: a_def b_def)
  moreover have "le_val (sn_client_receiver nonces) = le_val rx + 2 ^ 160 * a" "le_val (sn_client_sender nonces) = le_val tx + 2 ^ 160 * b"
    using bounds by (simp_all add: words le_val_append put_u32_le_def le_val_le_bytes flip: a_def b_def)
  moreover have "a + 2 \<le> b \<and> b + 2 \<le> a + 2 ^ 32 \<or> b + 2 \<le> a \<and> a + 2 \<le> b + 2 ^ 32"
    using sender_mask_moves [of w] by (simp add: a_def b_def)
  ultimately have "(le_val (sn_client_sender nonces) + i) mod (2 ^ 160 * 2 ^ 32) \<noteq>
      (le_val (sn_client_receiver nonces) + j) mod (2 ^ 160 * 2 ^ 32)"
    using few counts_apart [of "le_val rx" "2 ^ 160" "le_val tx" i j a b "2 ^ 32"]
      counts_apart [of "le_val tx" "2 ^ 160" "le_val rx" j i b a "2 ^ 32"] by (metis add.assoc)
  then have "(le_val (sn_client_sender nonces) + i) mod 2 ^ 192 \<noteq> (le_val (sn_client_receiver nonces) + j) mod 2 ^ 192"
    by (simp flip: power_add)
  then show "(increment_nonce ^^ i) (sn_client_sender nonces) \<noteq> (increment_nonce ^^ j) (sn_client_receiver nonces)"
    using increment_nonce_iterated(2) len by metis
qed

section \<open>What was boxed, and what is accepted\<close>

text \<open>What an end boxed while it sent some messages: the nonce and the text of each box.  The pool signs some
  of its messages, the gateway none.\<close>

fun client_boxes :: "crypto \<Rightarrow> client_channel \<Rightarrow> (u8 \<times> bytes) list \<Rightarrow> (bytes \<times> bytes) list" where
  "client_boxes cr cc [] = []"
| "client_boxes cr cc ((cmd, payload) # ms) =
     (case client_encrypt cr cc cmd payload of
        (Inl _, cc') \<Rightarrow> client_boxes cr cc' ms
      | (Inr _, cc') \<Rightarrow> (ch_tx_nonce (cc_channel cc), payload) # client_boxes cr cc' ms)"

definition server_plain :: "crypto \<Rightarrow> server_channel \<Rightarrow> bytes \<Rightarrow> bool \<Rightarrow> bytes" where
  "server_plain cr sc payload sign =
     (if sign then payload @ the (cr_sign cr (sc_session_sign_sk sc) payload) else payload)"

fun server_boxes :: "crypto \<Rightarrow> server_channel \<Rightarrow> (u8 \<times> bytes \<times> bool) list \<Rightarrow> (bytes \<times> bytes) list" where
  "server_boxes cr sc [] = []"
| "server_boxes cr sc ((cmd, payload, sign) # ms) =
     (case server_encrypt cr sc cmd payload sign of
        (Inl _, sc') \<Rightarrow> server_boxes cr sc' ms
      | (Inr _, sc') \<Rightarrow> (ch_tx_nonce (sc_channel sc), server_plain cr sc payload sign) # server_boxes cr sc' ms)"

text \<open>What an end accepts of the frames presented to it, up to the first it refuses, which ends the connection.\<close>

fun server_accepts :: "crypto \<Rightarrow> server_channel \<Rightarrow> bytes list \<Rightarrow> (frame_header \<times> bytes) list" where
  "server_accepts cr sc [] = []"
| "server_accepts cr sc (f # fs) =
     (let (h, sc) = server_unmask_header sc (take HEADER_LEN f) in
      case server_decrypt cr sc h (drop HEADER_LEN f) of
        (Inl _, _) \<Rightarrow> []
      | (Inr p, sc) \<Rightarrow> (h, p) # server_accepts cr sc fs)"

fun client_accepts :: "crypto \<Rightarrow> client_channel \<Rightarrow> bytes list \<Rightarrow> (frame_header \<times> bytes) list" where
  "client_accepts cr cc [] = []"
| "client_accepts cr cc (f # fs) =
     (let (h, cc) = client_unmask_header cc (take HEADER_LEN f) in
      case client_decrypt cr cc h (drop HEADER_LEN f) of
        (Inl _, _) \<Rightarrow> []
      | (Inr p, cc) \<Rightarrow> (h, p) # client_accepts cr cc fs)"

text \<open>The boxes of a run are at consecutive nonces.\<close>

fun counted :: "bytes \<Rightarrow> (bytes \<times> bytes) list \<Rightarrow> bool" where
  "counted n [] = True"
| "counted n ((n', m) # bs) = (n' = n \<and> counted (increment_nonce n) bs)"

lemma counted_nth: "counted n bs \<Longrightarrow> i < length bs \<Longrightarrow> fst (bs ! i) = (increment_nonce ^^ i) n"
proof (induction bs arbitrary: n i)
  case (Cons b bs)
  then show ?case by (cases i; cases b) (simp_all add: funpow_swap1)
qed simp

lemma encrypt_counts:
  assumes "channel_encrypt cr c cmd payload sign_with = (res, c')"
  shows "ch_tx_nonce c' = (case res of Inl _ \<Rightarrow> ch_tx_nonce c | Inr _ \<Rightarrow> increment_nonce (ch_tx_nonce c))"
  using assms by (auto simp: channel_encrypt_def channel_frame_def Let_def split: option.splits sum.splits if_splits prod.splits)

lemma client_boxes_counted: "counted (ch_tx_nonce (cc_channel cc)) (client_boxes cr cc ms) \<and> length (client_boxes cr cc ms) \<le> length ms"
proof (induction ms arbitrary: cc)
  case (Cons m ms)
  obtain cmd payload res c' where m: "m = (cmd, payload)" "channel_encrypt cr (cc_channel cc) cmd payload None = (res, c')"
    by (metis surj_pair)
  show ?case using Cons.IH [of "cc\<lparr>cc_channel := c'\<rparr>"] encrypt_counts [OF m(2)]
    by (cases res) (simp_all add: m client_encrypt_def le_SucI)
qed simp

lemma server_boxes_counted: "counted (ch_tx_nonce (sc_channel sc)) (server_boxes cr sc ms) \<and> length (server_boxes cr sc ms) \<le> length ms"
proof (induction ms arbitrary: sc)
  case (Cons m ms)
  obtain cmd payload sign res c' where m: "m = (cmd, payload, sign)"
    "channel_encrypt cr (sc_channel sc) cmd payload (if sign then Some (sc_session_sign_sk sc) else None) = (res, c')"
    by (metis surj_pair)
  have "server_encrypt cr sc cmd payload sign = (res, sc\<lparr>sc_channel := c'\<rparr>)" by (simp add: server_encrypt_def m(2))
  then show ?case using Cons.IH [of "sc\<lparr>sc_channel := c'\<rparr>"] encrypt_counts [OF m(2)]
    by (cases res) (simp_all add: m(1) le_SucI)
qed simp

text \<open>A box that opens at the count of the frames opened before is the next one of the sender.\<close>

definition far_from :: "bytes \<Rightarrow> (bytes \<times> bytes) list \<Rightarrow> bool" where
  "far_from n others \<longleftrightarrow> (\<forall>b \<in> set others. \<forall>i < 2 ^ 160. fst b \<noteq> (increment_nonce ^^ i) n)"

lemma counted_far:
  assumes "counted m bs" "length bs < 2 ^ 160"
    and "\<And>i j. i < 2 ^ 160 \<Longrightarrow> j < 2 ^ 160 \<Longrightarrow> (increment_nonce ^^ i) n \<noteq> (increment_nonce ^^ j) m"
  shows "far_from n bs"
  unfolding far_from_def
proof (intro ballI allI impI)
  fix b and i :: nat assume "b \<in> set bs" "i < 2 ^ 160"
  then obtain j where "j < length bs" "b = bs ! j" by (auto simp: in_set_conv_nth)
  then show "fst b \<noteq> (increment_nonce ^^ i) n"
    using counted_nth [OF assms(1)] assms(3) [OF \<open>i < 2 ^ 160\<close>, of j] order_less_trans [OF _ assms(2)] by metis
qed

lemma next_box:
  assumes "length n = NONCE_LEN" "counted n sent" "length sent < 2 ^ 160" "far_from n others"
    and "((increment_nonce ^^ i) n, p) \<in> set sent \<union> set others" "i \<le> length sent"
  shows "i < length sent \<and> p = snd (sent ! i)"
proof -
  have "i < 2 ^ 160" using assms(3,6) by linarith
  then have "((increment_nonce ^^ i) n, p) \<notin> set others" using assms(4) by (force simp: far_from_def)
  then obtain j where j: "j < length sent" "sent ! j = ((increment_nonce ^^ i) n, p)" using assms(5) by (auto simp: in_set_conv_nth)
  then have "(increment_nonce ^^ j) n = (increment_nonce ^^ i) n" using counted_nth [OF assms(2) j(1)] by simp
  then have "j = i" using nonces_differ [OF assms(1)] assms(3,6) j(1) by simp
  with j show ?thesis by simp
qed

text \<open>How an accepted frame stands to the text boxed: whole, or without the signature its header announces,
  which verified.\<close>

definition taken_from :: "crypto \<Rightarrow> bytes option \<Rightarrow> frame_header \<times> bytes \<Rightarrow> bytes \<Rightarrow> bool" where
  "taken_from cr verify_with accepted plain \<longleftrightarrow>
     (if fh_is_signed (fst accepted)
      then \<exists>pk sig. verify_with = Some pk \<and> plain = snd accepted @ sig \<and> length sig = CRYPTO_SIGN_BYTES \<and>
        cr_verify cr pk (snd accepted) sig
      else snd accepted = plain)"

lemma stripped_taken: "strip_signature cr plain h verify_with = Inr p \<Longrightarrow> taken_from cr verify_with (h, p) plain"
  by (auto simp: strip_signature_def split_signed_def taken_from_def ok_or_def verify_sig_def Let_def split: if_splits option.splits)
    (metis append_take_drop_id length_drop diff_diff_cancel linorder_not_less)

lemma decrypt_opens:
  assumes "channel_decrypt cr c h ct verify_with = (Inr p, c')" "ch_precomp c = Some k"
  obtains plain where "cr_box_open cr k (ch_rx_nonce c) ct = Some plain" "taken_from cr verify_with (h, p) plain"
    "c' = c\<lparr>ch_rx_nonce := increment_nonce (ch_rx_nonce c)\<rparr>"
  using assms stripped_taken by (auto simp: channel_decrypt_def split: if_splits option.splits)

section \<open>Frames in any order\<close>

lemma server_accepts_prefix:
  assumes "length n = NONCE_LEN" "counted n sent" "length sent < 2 ^ 160" "far_from n others"
  shows "ch_precomp (sc_channel sc) = Some k \<Longrightarrow> ch_rx_nonce (sc_channel sc) = (increment_nonce ^^ i) n \<Longrightarrow> i \<le> length sent \<Longrightarrow>
    \<forall>f \<in> set fs. \<forall>m p. cr_box_open cr k m (drop HEADER_LEN f) = Some p \<longrightarrow> (m, p) \<in> set sent \<union> set others \<Longrightarrow>
    \<exists>j. list_all2 (taken_from cr (Some (pk_sign (he_session (sc_hello sc))))) (server_accepts cr sc fs) (map snd (take j (drop i sent)))"
proof (induction fs arbitrary: sc i)
  case (Cons f fs)
  obtain h c where head: "channel_unmask_header (sc_channel sc) (take HEADER_LEN f) = (h, c)" by fastforce
  then have c: "ch_precomp c = Some k" "ch_rx_nonce c = (increment_nonce ^^ i) n"
    using Cons.prems(1,2) by (auto simp: channel_unmask_header_def split: prod.splits)
  let ?pk = "Some (pk_sign (he_session (sc_hello sc)))"
  obtain res sc' where dec: "server_decrypt cr (sc\<lparr>sc_channel := c\<rparr>) h (drop HEADER_LEN f) = (res, sc')" by fastforce
  show ?case
  proof (cases res)
    case (Inl e)
    then have "server_accepts cr sc (f # fs) = []" by (simp add: server_unmask_header_def head dec)
    then show ?thesis by (intro exI [of _ 0]) simp
  next
    case (Inr p)
    then obtain c' where "channel_decrypt cr c h (drop HEADER_LEN f) ?pk = (Inr p, c')" and sc': "sc' = sc\<lparr>sc_channel := c'\<rparr>"
      using dec by (auto simp: server_decrypt_def split: if_splits prod.splits)
    then obtain plain where plain: "cr_box_open cr k (ch_rx_nonce c) (drop HEADER_LEN f) = Some plain"
      "taken_from cr ?pk (h, p) plain" "c' = c\<lparr>ch_rx_nonce := increment_nonce (ch_rx_nonce c)\<rparr>" using decrypt_opens c(1) by blast
    then have i: "i < length sent" "plain = snd (sent ! i)"
      using next_box [OF assms _ Cons.prems(3)] Cons.prems(4) c(2) by auto
    obtain j where j: "list_all2 (taken_from cr ?pk) (server_accepts cr sc' fs) (map snd (take j (drop (Suc i) sent)))"
      using Cons.IH [of sc' "Suc i"] Cons.prems(4) i(1) c plain(3) sc' by auto
    have "server_accepts cr sc (f # fs) = (h, p) # server_accepts cr sc' fs" by (simp add: server_unmask_header_def head dec Inr)
    moreover have "take (Suc j) (drop i sent) = sent ! i # take j (drop (Suc i) sent)" using i(1) by (simp flip: Cons_nth_drop_Suc)
    ultimately show ?thesis using j plain(2) i(2) by (intro exI [of _ "Suc j"]) simp
  qed
qed (auto intro: exI [of _ 0])

abbreviation on_channel :: "(frame_header \<times> bytes) list \<Rightarrow> (frame_header \<times> bytes) list" where
  "on_channel accepted \<equiv> filter (\<lambda>(h, _). fh_is_encrypted_channel h) accepted"

lemma client_accepts_prefix:
  assumes "length n = NONCE_LEN" "counted n sent" "length sent < 2 ^ 160" "far_from n others"
  shows "ch_precomp (cc_channel cc) = Some k \<Longrightarrow> ch_rx_nonce (cc_channel cc) = (increment_nonce ^^ i) n \<Longrightarrow> i \<le> length sent \<Longrightarrow>
    \<forall>f \<in> set fs. \<forall>m p. cr_box_open cr k m (drop HEADER_LEN f) = Some p \<longrightarrow> (m, p) \<in> set sent \<union> set others \<Longrightarrow>
    \<exists>j. list_all2 (taken_from cr (cc_pool_session_sign_pk cc)) (on_channel (client_accepts cr cc fs)) (map snd (take j (drop i sent)))"
proof (induction fs arbitrary: cc i)
  case (Cons f fs)
  obtain h c where head: "channel_unmask_header (cc_channel cc) (take HEADER_LEN f) = (h, c)" by fastforce
  then have c: "ch_precomp c = Some k" "ch_rx_nonce c = (increment_nonce ^^ i) n"
    using Cons.prems(1,2) by (auto simp: channel_unmask_header_def split: prod.splits)
  let ?pk = "cc_pool_session_sign_pk cc" and ?cc = "cc\<lparr>cc_channel := c\<rparr>"
  obtain res cc' where dec: "client_decrypt cr ?cc h (drop HEADER_LEN f) = (res, cc')" by fastforce
  show ?case
  proof (cases res)
    case (Inl e)
    then have "client_accepts cr cc (f # fs) = []" by (simp add: client_unmask_header_def head dec)
    then show ?thesis by (intro exI [of _ 0]) simp
  next
    case (Inr p)
    have accepts: "client_accepts cr cc (f # fs) = (h, p) # client_accepts cr cc' fs" by (simp add: client_unmask_header_def head dec Inr)
    show ?thesis
    proof (cases "fh_is_encrypted_channel h")
      case False
      then have "cc' = ?cc" using dec Inr by (auto simp: client_decrypt_def split: bool.splits if_splits)
      then show ?thesis using Cons.IH [of ?cc i] Cons.prems(3,4) c accepts False by auto
    next
      case True
      then obtain c' where "channel_decrypt cr c h (drop HEADER_LEN f) ?pk = (Inr p, c')" and cc': "cc' = ?cc\<lparr>cc_channel := c'\<rparr>"
        using dec Inr by (auto simp: client_decrypt_def split: bool.splits prod.splits)
      then obtain plain where plain: "cr_box_open cr k (ch_rx_nonce c) (drop HEADER_LEN f) = Some plain"
        "taken_from cr ?pk (h, p) plain" "c' = c\<lparr>ch_rx_nonce := increment_nonce (ch_rx_nonce c)\<rparr>" using decrypt_opens c(1) by blast
      then have i: "i < length sent" "plain = snd (sent ! i)"
        using next_box [OF assms _ Cons.prems(3)] Cons.prems(4) c(2) by auto
      obtain j where j: "list_all2 (taken_from cr ?pk) (on_channel (client_accepts cr cc' fs)) (map snd (take j (drop (Suc i) sent)))"
        using Cons.IH [of cc' "Suc i"] Cons.prems(4) i(1) c plain(3) cc' by auto
      have "take (Suc j) (drop i sent) = sent ! i # take j (drop (Suc i) sent)" using i(1) by (simp flip: Cons_nth_drop_Suc)
      then show ?thesis using j plain(2) i(2) accepts True by (intro exI [of _ "Suc j"]) simp
    qed
  qed
qed (auto intro: exI [of _ 0])

section \<open>A session\<close>

text \<open>The two ends as the handshake leaves them: the session's key at both, the nonces derived from the hello.\<close>

definition session_start :: "u32 \<Rightarrow> bytes \<Rightarrow> bytes \<Rightarrow> client_channel \<Rightarrow> server_channel \<Rightarrow> bool" where
  "session_start nk pk k cc sc \<longleftrightarrow>
     (let nonces = session_nonces_derive nk pk in
      ch_precomp (cc_channel cc) = Some k \<and> ch_precomp (sc_channel sc) = Some k \<and>
      ch_tx_nonce (cc_channel cc) = sn_client_sender nonces \<and> ch_rx_nonce (sc_channel sc) = sn_client_sender nonces \<and>
      ch_tx_nonce (sc_channel sc) = sn_client_receiver nonces \<and> ch_rx_nonce (cc_channel cc) = sn_client_receiver nonces)"

lemma handshake_starts_session:
  assumes "client_hello cr cc0 pool_pk ua v r0 r1 = Some (f, cc1)" "server_accept cr hello pool motd keys = Inr (g, sc)"
    and "client_unmask_header cc1 (take HEADER_LEN g) = (h, cc2)" "read_handshake_response cr cc2 h (drop HEADER_LEN g) pool_sign_pk = (Inr (), cc)"
    and "he_nk hello = cc_nk cc0" "pk_sign (he_session hello) = kp_sign_pk (cc_session_keys cc0)" "upward cc sc"
  shows "\<exists>k. session_start (cc_nk cc0) (kp_sign_pk (cc_session_keys cc0)) k cc sc"
proof -
  let ?nonces = "session_nonces_derive (cc_nk cc0) (kp_sign_pk (cc_session_keys cc0))"
  have "cc_channel cc1 = channel_client (header_keys_from_nk (cc_nk cc0)) ?nonces"
    using assms(1) by (auto simp: client_hello_def Let_def split: sum.splits prod.splits)
  moreover obtain rk where "cc2 = cc1\<lparr>cc_channel := (cc_channel cc1)\<lparr>ch_rx_header_key := rk\<rparr>\<rparr>"
    using assms(3) by (auto simp: client_unmask_header_def channel_unmask_header_def split: prod.splits)
  moreover obtain k where "cc_channel cc = channel_set_precomp (cc_channel cc2) k"
    using assms(4) by (auto simp: read_handshake_response_def Let_def split: if_splits sum.splits prod.splits option.splits)
  moreover obtain k' rk' where "sc_channel sc = (channel_server (header_keys_from_nk (cc_nk cc0)) ?nonces k')\<lparr>ch_tx_header_key := rk'\<rparr>"
    using assms(2,5,6) by (auto simp: server_accept_def channel_frame_def Let_def elim!: tryq_InrE split: if_splits prod.splits)
  ultimately show ?thesis
    using assms(7) by (simp add: session_start_def channel_client_def channel_server_def channel_set_precomp_def upward_def sends_to_def)
qed

text \<open>C30: Whoever carries the frames adds nothing to what the two ends sent.  From the handshake on, let each end
  send any messages and the carrier present any frames to either, forged, changed, replayed, dropped, put in
  another order or sent back to their sender.  If no presented ciphertext opens under the session's key but at
  a nonce, and to the text, at which one of the ends boxed it, then what the pool takes, and what the gateway
  takes on the channel, is, in order and from the first message on, what the other end boxed, each once: whole, or,
  where the frame's header announces a signature, without it, and then it verified under the key of the peer's
  session.  (The gateway also takes the empty ping and frames sealed to its session key; they carry nothing of
  the channel and leave its nonces as they are.)\<close>

theorem only_authenticated_frames:
  assumes session: "session_start nk pk k cc sc"
    and few: "length ups < 2 ^ 160" "length downs < 2 ^ 160"
    and unforgeable: "\<forall>f \<in> set up_frames \<union> set down_frames. \<forall>n p. cr_box_open cr k n (drop HEADER_LEN f) = Some p \<longrightarrow>
      (n, p) \<in> set (client_boxes cr cc ups) \<union> set (server_boxes cr sc downs)"
  shows "(\<exists>i. list_all2 (taken_from cr (Some (pk_sign (he_session (sc_hello sc)))))
      (server_accepts cr sc up_frames) (map snd (take i (client_boxes cr cc ups)))) \<and>
    (\<exists>j. list_all2 (taken_from cr (cc_pool_session_sign_pk cc))
      (on_channel (client_accepts cr cc down_frames)) (map snd (take j (server_boxes cr sc downs))))"
proof -
  define nonces where "nonces = session_nonces_derive nk pk"
  define up down where "up = client_boxes cr cc ups" and "down = server_boxes cr sc downs"
  have ends: "ch_precomp (cc_channel cc) = Some k" "ch_precomp (sc_channel sc) = Some k"
    "ch_tx_nonce (cc_channel cc) = sn_client_sender nonces" "ch_rx_nonce (sc_channel sc) = sn_client_sender nonces"
    "ch_tx_nonce (sc_channel sc) = sn_client_receiver nonces" "ch_rx_nonce (cc_channel cc) = sn_client_receiver nonces"
    using session by (simp_all add: session_start_def Let_def nonces_def)
  have lens: "length (sn_client_sender nonces) = NONCE_LEN" "length (sn_client_receiver nonces) = NONCE_LEN"
    using session_nonces_apart(1,2) [OF nonces_def, of 0 0] by simp_all
  have boxes: "counted (sn_client_sender nonces) up" "length up < 2 ^ 160"
    "counted (sn_client_receiver nonces) down" "length down < 2 ^ 160"
    using client_boxes_counted [of cc cr ups] server_boxes_counted [of sc cr downs] few by (simp_all only: ends up_def down_def) linarith+
  have far: "far_from (sn_client_sender nonces) down" "far_from (sn_client_receiver nonces) up"
    using counted_far [OF boxes(3,4)] counted_far [OF boxes(1,2)] session_nonces_apart(3) [OF nonces_def] by metis+
  have opens: "\<forall>f \<in> set up_frames. \<forall>n p. cr_box_open cr k n (drop HEADER_LEN f) = Some p \<longrightarrow> (n, p) \<in> set up \<union> set down"
    "\<forall>f \<in> set down_frames. \<forall>n p. cr_box_open cr k n (drop HEADER_LEN f) = Some p \<longrightarrow> (n, p) \<in> set down \<union> set up"
    using unforgeable by (auto simp: up_def down_def)
  show ?thesis
    using server_accepts_prefix [OF lens(1) boxes(1,2) far(1) ends(2), of 0 up_frames] opens(1)
      client_accepts_prefix [OF lens(2) boxes(3,4) far(2) ends(1), of 0 down_frames] opens(2)
    by (simp add: ends up_def down_def)
qed

text \<open>A session under a box that carries its nonce: a frame presented twice is taken once.\<close>

definition nonce_crypto :: crypto where
  "nonce_crypto = plain_crypto\<lparr>cr_box := \<lambda>k n m. Some (n @ m),
     cr_box_open := \<lambda>k n c. if take NONCE_LEN c = n then Some (drop NONCE_LEN c) else None\<rparr>"

definition session_client :: client_channel where
  "session_client = sample_client\<lparr>cc_channel :=
     (channel_client (header_keys_from_nk 7) (session_nonces_derive 7 (replicate 32 2)))\<lparr>ch_precomp := Some []\<rparr>\<rparr>"

definition session_server :: server_channel where
  "session_server = sample_server\<lparr>sc_channel :=
     channel_server (header_keys_from_nk 7) (session_nonces_derive 7 (replicate 32 2)) []\<rparr>"

theorem only_authenticated_frames_witness:
  "\<exists>f cc h. client_encrypt nonce_crypto session_client MINING [9] = (Inr f, cc) \<and>
     server_accepts nonce_crypto session_server [f, f] = [(h, [9])]"
proof -
  let ?n = "sn_client_sender (session_nonces_derive 7 (replicate 32 2))"
  let ?c = "cc_channel session_client" and ?h = "default_header\<lparr>fh_is_encrypted_channel := True, fh_proto_cmd := MINING\<rparr>"
  let ?c1 = "?c\<lparr>ch_tx_nonce := increment_nonce ?n\<rparr>"
  have n: "length ?n = NONCE_LEN" by (rule session_nonces_apart(1) [OF refl, of 0 0]) simp_all
  have fits: "length (?n @ [9]) \<le> MAX_CMD_LEN" using n by (simp add: framing_consts MAX_CMD_LEN_val)
  obtain rk w where w: "channel_frame ?c1 ?h (?n @ [9]) = (w @ ?n @ [9], ?c1\<lparr>ch_tx_header_key := rk\<rparr>)" "length w = 4"
    "ratchet_unmask (ch_rx_header_key (sc_channel session_server)) w = (?h\<lparr>fh_cmd_len := word_of_nat (length (?n @ [9]))\<rparr>, rk)"
    using channel_frame_unmasks [OF fits, of ?h ?c1 "ch_rx_header_key (sc_channel session_server)"]
    by (auto simp: default_header_def MINING_def session_client_def session_server_def channel_client_def channel_server_def)
  let ?f = "w @ ?n @ [9]" and ?cc = "session_client\<lparr>cc_channel := ?c1\<lparr>ch_tx_header_key := rk\<rparr>\<rparr>"
  have sent: "client_encrypt nonce_crypto session_client MINING [9] = (Inr ?f, ?cc)"
    using w(1) by (simp add: client_encrypt_def channel_encrypt_def session_client_def channel_client_def nonce_crypto_def
        MAX_PLAINTEXT_LEN_def MAX_CMD_LEN_val channel_consts default_header_def)
  have boxes: "client_boxes nonce_crypto session_client [(MINING, [9])] = [(?n, [9])]"
    by (simp add: sent) (simp add: session_client_def channel_client_def)
  have start: "session_start 7 (replicate 32 2) [] session_client session_server"
    by (simp add: session_start_def session_client_def session_server_def channel_client_def channel_server_def Let_def)
  have opens: "cr_box_open nonce_crypto k m (drop HEADER_LEN ?f) = Some p \<longleftrightarrow> m = ?n \<and> p = [9]" for k m p
    using w(2) n by (auto simp: nonce_crypto_def HEADER_LEN_def)
  have unforgeable: "\<forall>f \<in> set [?f, ?f] \<union> set []. \<forall>m p. cr_box_open nonce_crypto [] m (drop HEADER_LEN f) = Some p \<longrightarrow>
      (m, p) \<in> set (client_boxes nonce_crypto session_client [(MINING, [9])]) \<union> set (server_boxes nonce_crypto session_server [])"
    unfolding boxes by (simp del: drop_append add: opens)
  have "length [(MINING, [9 :: u8])] < 2 ^ 160" "length ([] :: (u8 \<times> bytes \<times> bool) list) < 2 ^ 160" by simp_all
  from only_authenticated_frames [OF start this unforgeable] obtain i where
    taken: "list_all2 (taken_from nonce_crypto (Some (pk_sign (he_session (sc_hello session_server)))))
      (server_accepts nonce_crypto session_server [?f, ?f])
      (map snd (take i (client_boxes nonce_crypto session_client [(MINING, [9])])))" by blast
  let ?h' = "?h\<lparr>fh_cmd_len := word_of_nat (length (?n @ [9]))\<rparr>"
  obtain sc1 where unmask: "server_unmask_header session_server (take HEADER_LEN ?f) = (?h', sc1)"
    and sc1: "ch_precomp (sc_channel sc1) = Some []" "ch_rx_nonce (sc_channel sc1) = ?n"
    using w(2,3) by (simp add: server_unmask_header_def channel_unmask_header_def HEADER_LEN_def session_server_def channel_server_def)
  have "length (drop HEADER_LEN ?f) \<ge> CRYPTO_BOX_MACBYTES" using w(2) n by (simp add: framing_consts channel_consts)
  then have "\<exists>sc2. server_decrypt nonce_crypto sc1 ?h' (drop HEADER_LEN ?f) = (Inr [9], sc2)"
    using opens [of "[]" ?n "[9]"] sc1
    by (simp add: server_decrypt_def channel_decrypt_def strip_signature_def default_header_def not_less [symmetric] del: drop_append)
  then obtain rest where "server_accepts nonce_crypto session_server [?f, ?f] = (?h', [9]) # rest"
    unfolding server_accepts.simps(2) [of _ _ ?f "[?f]"] unmask Let_def prod.case by fastforce
  moreover have "length (server_accepts nonce_crypto session_server [?f, ?f]) \<le> 1"
    using list_all2_lengthD [OF taken [unfolded boxes]] by (simp del: server_accepts.simps)
  ultimately show ?thesis using sent by (intro exI [of _ ?f] exI [of _ ?cc] exI [of _ ?h']) (simp del: server_accepts.simps)
qed

end
