(* ===== verification/Bulk.thy ===== *)
theory Bulk
  imports Framing
begin

text \<open>
  Bulk transfers (\<^verbatim>\<open>core/src/datum/bulk.rs\<close>): fragments of a payload too large for one frame, each
  acknowledged, reassembled in order. \<open>accept\<close> returns before it changes the reassembler on every
  error, so an error leaves the transfer in progress as it was.
\<close>

section \<open>Fragments and acknowledgements\<close>

definition ACK_MARKER :: bytes where "ACK_MARKER = [0x44, 0x42, 0x41, 0x01]"
definition DBF_MARKER :: bytes where "DBF_MARKER = [0x44, 0x42, 0x46, 0x01]"
definition FRAGMENT_DATA_SIZE :: nat where "FRAGMENT_DATA_SIZE = 16 * 1024"
definition MAX_TRANSFER_SIZE :: nat where "MAX_TRANSFER_SIZE = 2 ^ CMD_LEN_BITS"
definition ACK_LEN :: nat where "ACK_LEN = 12"

datatype bulk_error =
    BadMarker
  | BkTruncated truncated
  | BadChunk nat
  | ZeroId
  | BadSize u32
  | WrongTransfer u32 u32
  | WrongOffset u32 u32
  | SizeChanged u32 u32
  | NotAtStart

record fragment =
  fg_id :: u32
  fg_total_size :: u32
  fg_offset :: u32
  fg_data :: bytes

definition fragment_decode :: "bytes \<Rightarrow> bulk_error + fragment" where
  "fragment_decode data =
     tryq BkTruncated (rd_arr 4 ''marker'' (rd_new data)) (\<lambda>(marker, c).
     if marker \<noteq> DBF_MARKER then Inl BadMarker else
     tryq BkTruncated (rd_u32 ''transfer id'' c) (\<lambda>(id, c).
     tryq BkTruncated (rd_u32 ''total size'' c) (\<lambda>(total_size, c).
     tryq BkTruncated (rd_u32 ''offset'' c) (\<lambda>(offset, c).
     let chunk = br_rest c in
     if chunk = [] \<or> length chunk > FRAGMENT_DATA_SIZE then Inl (BadChunk (length chunk))
     else Inr \<lparr>fg_id = id, fg_total_size = total_size, fg_offset = offset, fg_data = chunk\<rparr>))))"

record ack =
  ak_id :: u32
  ak_next_offset :: u32

definition ack_encode :: "ack \<Rightarrow> bytes" where
  "ack_encode a = ACK_MARKER @ put_u32_le (ak_id a) @ put_u32_le (ak_next_offset a)"

section \<open>Reassembly\<close>

record transfer =
  tf_id :: u32
  tf_total_size :: u32
  tf_buf :: bytes

record reassembler =
  re_transfer :: "transfer option"

definition reassembler_new :: reassembler where
  "reassembler_new = \<lparr>re_transfer = None\<rparr>"

definition reassembler_reset :: "reassembler \<Rightarrow> reassembler" where
  "reassembler_reset r = r\<lparr>re_transfer := None\<rparr>"

definition received_so_far :: "reassembler \<Rightarrow> fragment \<Rightarrow> bulk_error + nat" where
  "received_so_far r f =
     (case re_transfer r of
        None \<Rightarrow> if fg_offset f \<noteq> 0 then Inl NotAtStart else Inr 0
      | Some t \<Rightarrow>
          if tf_id t \<noteq> fg_id f then Inl (WrongTransfer (tf_id t) (fg_id f))
          else if tf_total_size t \<noteq> fg_total_size f then Inl (SizeChanged (tf_total_size t) (fg_total_size f))
          else if as_u32 (length (tf_buf t)) \<noteq> fg_offset f
          then Inl (WrongOffset (as_u32 (length (tf_buf t))) (fg_offset f))
          else Inr (length (tf_buf t)))"

definition reassembler_accept ::
  "reassembler \<Rightarrow> fragment \<Rightarrow> bulk_error + (ack \<times> bytes option \<times> reassembler)" where
  "reassembler_accept r f =
     (if fg_id f = 0 then Inl ZeroId
      else if fg_total_size f = 0 \<or> unat (fg_total_size f) > MAX_TRANSFER_SIZE
      then Inl (BadSize (fg_total_size f))
      else bindr (received_so_far r f) (\<lambda>received.
        if received + length (fg_data f) > unat (fg_total_size f) then Inl (BadChunk (length (fg_data f)))
        else
          let t = (case re_transfer r of Some t \<Rightarrow> t
                   | None \<Rightarrow> \<lparr>tf_id = fg_id f, tf_total_size = fg_total_size f, tf_buf = []\<rparr>);
              t = t\<lparr>tf_buf := tf_buf t @ fg_data f\<rparr>;
              ack = \<lparr>ak_id = tf_id t, ak_next_offset = as_u32 (length (tf_buf t))\<rparr>;
              done = (as_u32 (length (tf_buf t)) = tf_total_size t)
          in if done then Inr (ack, Some (tf_buf t), r\<lparr>re_transfer := None\<rparr>)
             else Inr (ack, None, r\<lparr>re_transfer := Some t\<rparr>)))"

text \<open>A run of accepted fragments: the acknowledgements and the payload of the last one.\<close>

fun accept_all :: "reassembler \<Rightarrow> fragment list \<Rightarrow> bulk_error + ((ack \<times> bytes option) list \<times> reassembler)" where
  "accept_all r [] = Inr ([], r)"
| "accept_all r (f # fs) =
     bindr (reassembler_accept r f) (\<lambda>(a, p, r). bindr (accept_all r fs) (\<lambda>(aps, r). Inr ((a, p) # aps, r)))"

section \<open>Lemmas\<close>

lemma decode_put_fragment:
  assumes "data \<noteq> []" "length data \<le> FRAGMENT_DATA_SIZE"
  shows "fragment_decode (DBF_MARKER @ put_u32_le i @ put_u32_le n @ put_u32_le off @ data) =
    Inr \<lparr>fg_id = i, fg_total_size = n, fg_offset = off, fg_data = data\<rparr>"
proof -
  have "length DBF_MARKER = 4" by (simp add: DBF_MARKER_def)
  then show ?thesis using assms by (simp add: fragment_decode_def rd_new_def wire Let_def)
qed

definition wf_reassembler :: "reassembler \<Rightarrow> bool" where
  "wf_reassembler r \<longleftrightarrow> (case re_transfer r of None \<Rightarrow> True
     | Some t \<Rightarrow> tf_id t \<noteq> 0 \<and> unat (tf_total_size t) \<le> MAX_TRANSFER_SIZE \<and>
         length (tf_buf t) < unat (tf_total_size t))"

lemma unat_small_len: "n \<le> MAX_TRANSFER_SIZE \<Longrightarrow> unat (as_u32 n) = n"
  by (simp add: MAX_TRANSFER_SIZE_def CMD_LEN_BITS_def unat_cast)

text \<open>What an accepted fragment did, in one case distinction.\<close>

lemma accept_cases:
  assumes "wf_reassembler r" "reassembler_accept r f = Inr (a, p, r')"
  obtains buf where
    "re_transfer r = None \<and> buf = [] \<and> fg_offset f = 0 \<or>
     re_transfer r = Some \<lparr>tf_id = fg_id f, tf_total_size = fg_total_size f, tf_buf = buf\<rparr>"
    "unat (fg_offset f) = length buf"
    "length (buf @ fg_data f) \<le> unat (fg_total_size f)" "unat (fg_total_size f) \<le> MAX_TRANSFER_SIZE" "fg_id f \<noteq> 0"
    "a = \<lparr>ak_id = fg_id f, ak_next_offset = as_u32 (length (buf @ fg_data f))\<rparr>"
    "if length (buf @ fg_data f) = unat (fg_total_size f)
     then p = Some (buf @ fg_data f) \<and> re_transfer r' = None
     else p = None \<and> re_transfer r' = Some \<lparr>tf_id = fg_id f, tf_total_size = fg_total_size f, tf_buf = buf @ fg_data f\<rparr>"
proof -
  define buf where "buf = (case re_transfer r of None \<Rightarrow> [] | Some t \<Rightarrow> tf_buf t)"
  have acc: "fg_id f \<noteq> 0" "unat (fg_total_size f) \<le> MAX_TRANSFER_SIZE"
    "length buf + length (fg_data f) \<le> unat (fg_total_size f)"
    and st: "re_transfer r = None \<and> buf = [] \<and> fg_offset f = 0 \<or>
     re_transfer r = Some \<lparr>tf_id = fg_id f, tf_total_size = fg_total_size f, tf_buf = buf\<rparr> \<and>
     as_u32 (length buf) = fg_offset f"
    using assms(2)
    by (auto simp: reassembler_accept_def received_so_far_def buf_def tryq_Inr_iff Let_def
        split: if_splits option.splits)
  have len: "unat (as_u32 (length buf)) = length buf"
    "unat (as_u32 (length (buf @ fg_data f))) = length (buf @ fg_data f)"
    using acc by (auto intro: unat_small_len)
  then have fin: "as_u32 (length (buf @ fg_data f)) = fg_total_size f \<longleftrightarrow>
      length (buf @ fg_data f) = unat (fg_total_size f)"
    by (metis word_unat_eq_iff)
  show thesis
  proof
    show "unat (fg_offset f) = length buf" using st len by auto
    show "a = \<lparr>ak_id = fg_id f, ak_next_offset = as_u32 (length (buf @ fg_data f))\<rparr>"
      "if length (buf @ fg_data f) = unat (fg_total_size f)
       then p = Some (buf @ fg_data f) \<and> re_transfer r' = None
       else p = None \<and> re_transfer r' = Some \<lparr>tf_id = fg_id f, tf_total_size = fg_total_size f, tf_buf = buf @ fg_data f\<rparr>"
      using assms(2) st fin unfolding reassembler_accept_def
      by (auto simp: tryq_Inr_iff Let_def split: if_splits)
  qed (use acc st in auto)
qed

lemma accept_unfinished:
  assumes "wf_reassembler r" "reassembler_accept r f = Inr (a, None, r')"
  shows "re_transfer r' = Some \<lparr>tf_id = fg_id f, tf_total_size = fg_total_size f,
    tf_buf = (case re_transfer r of None \<Rightarrow> [] | Some t \<Rightarrow> tf_buf t) @ fg_data f\<rparr>"
  by (rule accept_cases [OF assms]) (auto split: if_splits)

lemma accept_preserves_wf:
  assumes "wf_reassembler r" "reassembler_accept r f = Inr (a, p, r')"
  shows "wf_reassembler r'"
  by (rule accept_cases [OF assms]) (auto simp: wf_reassembler_def split: if_splits)

text \<open>A payload cut into chunks, and the fragments that carry them.\<close>

fun fragments :: "u32 \<Rightarrow> nat \<Rightarrow> nat \<Rightarrow> bytes list \<Rightarrow> fragment list" where
  "fragments i n off [] = []"
| "fragments i n off (c # cs) =
     \<lparr>fg_id = i, fg_total_size = as_u32 n, fg_offset = as_u32 off, fg_data = c\<rparr>
     # fragments i n (off + length c) cs"

fun fragment_acks :: "u32 \<Rightarrow> bytes \<Rightarrow> bytes list \<Rightarrow> (ack \<times> bytes option) list" where
  "fragment_acks i done [] = []"
| "fragment_acks i done (c # cs) =
     (\<lparr>ak_id = i, ak_next_offset = as_u32 (length (done @ c))\<rparr>, if cs = [] then Some (done @ c) else None)
     # fragment_acks i (done @ c) cs"

lemma accept_next_fragment:
  assumes "i \<noteq> 0" "0 < n" "n \<le> MAX_TRANSFER_SIZE" "length (buf @ c) \<le> n"
    "re_transfer r = (if buf = [] then None else Some \<lparr>tf_id = i, tf_total_size = as_u32 n, tf_buf = buf\<rparr>)"
  shows "reassembler_accept r \<lparr>fg_id = i, fg_total_size = as_u32 n, fg_offset = as_u32 (length buf), fg_data = c\<rparr> =
    Inr (\<lparr>ak_id = i, ak_next_offset = as_u32 (length (buf @ c))\<rparr>,
         if length (buf @ c) = n then Some (buf @ c) else None,
         r\<lparr>re_transfer := (if length (buf @ c) = n then None
             else Some \<lparr>tf_id = i, tf_total_size = as_u32 n, tf_buf = buf @ c\<rparr>)\<rparr>)"
proof -
  have u: "unat (as_u32 n) = n" "unat (as_u32 (length (buf @ c))) = length (buf @ c)"
    using assms by (auto intro: unat_small_len)
  have fin: "as_u32 (length (buf @ c)) = as_u32 n \<longleftrightarrow> length (buf @ c) = n"
    using u by (metis word_unat_eq_iff)
  have nz: "as_u32 n \<noteq> 0" using u(1) assms(2) by auto
  show ?thesis
    using assms fin nz u by (cases "buf = []") (simp_all add: reassembler_accept_def received_so_far_def Let_def)
qed

lemma accept_all_fragments:
  assumes "i \<noteq> 0" "n \<le> MAX_TRANSFER_SIZE" "length buf + length (concat cs) = n" "\<forall>c \<in> set cs. c \<noteq> []" "cs \<noteq> []"
    "re_transfer r = (if buf = [] then None else Some \<lparr>tf_id = i, tf_total_size = as_u32 n, tf_buf = buf\<rparr>)"
  shows "accept_all r (fragments i n (length buf) cs) = Inr (fragment_acks i buf cs, r\<lparr>re_transfer := None\<rparr>)"
  using assms
proof (induction cs arbitrary: buf r)
  case (Cons c cs)
  have c: "c \<noteq> []" and n: "0 < n" "length (buf @ c) \<le> n" using Cons.prems by auto
  have full: "length (buf @ c) = n \<longleftrightarrow> cs = []"
    using Cons.prems by (cases cs) auto
  note step = accept_next_fragment [OF Cons.prems(1) n(1) Cons.prems(2) n(2) Cons.prems(6)]
  show ?case
  proof (cases "cs = []")
    case True
    then show ?thesis using step full by simp
  next
    case False
    let ?r = "r\<lparr>re_transfer := Some \<lparr>tf_id = i, tf_total_size = as_u32 n, tf_buf = buf @ c\<rparr>\<rparr>"
    have "accept_all ?r (fragments i n (length (buf @ c)) cs) =
        Inr (fragment_acks i (buf @ c) cs, ?r\<lparr>re_transfer := None\<rparr>)"
      using Cons.prems c False by (intro Cons.IH) auto
    then show ?thesis using step full False by simp
  qed
qed simp

text \<open>Whatever run of fragments completes a payload, the payload is their data in order.\<close>

lemma accept_all_sound:
  assumes "wf_reassembler r" "accept_all r (fs @ [f]) = Inr (aps @ [(a, Some p)], r')"
    "\<forall>ap \<in> set aps. snd ap = None"
  shows "p = (case re_transfer r of None \<Rightarrow> [] | Some t \<Rightarrow> tf_buf t) @ concat (map fg_data (fs @ [f])) \<and>
    length p = unat (fg_total_size f) \<and> re_transfer r' = None \<and>
    (\<forall>g \<in> set (fs @ [f]). fg_id g = fg_id f \<and> fg_total_size g = fg_total_size f)"
  using assms
proof (induction fs arbitrary: r aps)
  case Nil
  then have "reassembler_accept r f = Inr (a, Some p, r')"
    by (auto simp: tryq_Inr_iff)
  then show ?case by (rule accept_cases [OF Nil(1)]) (auto split: if_splits)
next
  case (Cons g fs)
  then obtain b q r1 bps where g: "reassembler_accept r g = Inr (b, q, r1)"
    "accept_all r1 (fs @ [f]) = Inr (bps, r')" "aps @ [(a, Some p)] = (b, q) # bps"
    by (auto simp: tryq_Inr_iff)
  have "bps \<noteq> []" using g(2) by (cases fs) (auto simp: tryq_Inr_iff)
  then obtain cps where cps: "aps = (b, q) # cps" "bps = cps @ [(a, Some p)]"
    using g(3) by (cases aps) auto
  have "\<forall>ap \<in> set cps. snd ap = None" using Cons.prems(3) cps(1) by simp
  note IH = Cons.IH [OF accept_preserves_wf [OF Cons.prems(1) g(1)] g(2) [unfolded cps(2)] this]
  have q: "q = None" using Cons.prems(3) cps(1) by simp
  note buf = accept_unfinished [OF Cons.prems(1) g(1) [unfolded q]]
  have "\<exists>h \<in> set (fs @ [f]). fg_id h = fg_id g \<and> fg_total_size h = fg_total_size g"
  proof -
    obtain h hs where h: "fs @ [f] = h # hs" by (cases fs) auto
    then obtain y where "reassembler_accept r1 h = Inr y" using g(2) by (auto simp: tryq_Inr_iff)
    then show ?thesis using h buf
      by (auto simp: reassembler_accept_def received_so_far_def tryq_Inr_iff split: if_splits)
  qed
  with IH have "fg_id g = fg_id f \<and> fg_total_size g = fg_total_size f" by metis
  with IH buf show ?case by auto
qed

section \<open>What reassembly guarantees\<close>

text \<open>C31: a bulk transfer is reassembled exactly: any payload of at most \<open>MAX_TRANSFER_SIZE\<close> bytes,
  cut into any non-empty chunks sent in order, is accepted fragment by fragment, each acknowledged
  with the offset after it, the payload returned with the last, and the reassembler left empty.\<close>

theorem bulk_transfer_completes:
  assumes "tid \<noteq> 0" "length (concat chunks) \<le> MAX_TRANSFER_SIZE" "chunks \<noteq> []" "\<forall>c \<in> set chunks. c \<noteq> []"
  shows "accept_all reassembler_new (fragments tid (length (concat chunks)) 0 chunks) =
      Inr (fragment_acks tid [] chunks, reassembler_new) \<and>
    snd (last (fragment_acks tid [] chunks)) = Some (concat chunks)"
proof -
  have last: "cs \<noteq> [] \<Longrightarrow> snd (last (fragment_acks i pre cs)) = Some (pre @ concat cs)" for i pre cs
  proof (induction cs arbitrary: pre)
    case (Cons c cs)
    have "fragment_acks i p cs = [] \<longleftrightarrow> cs = []" for p by (cases cs) simp_all
    then show ?case using Cons.IH by simp
  qed simp
  show ?thesis
    using accept_all_fragments [of tid "length (concat chunks)" "[]" chunks reassembler_new] last assms
    by (simp add: reassembler_new_def)
qed

theorem bulk_transfer_completes_witness:
  "accept_all reassembler_new (fragments 3 (length (concat [[1 :: u8, 2], [3], [4, 5]])) 0 [[1, 2], [3], [4, 5]]) =
      Inr (fragment_acks 3 [] [[1, 2], [3], [4, 5]], reassembler_new) \<and>
   snd (last (fragment_acks 3 [] [[1, 2], [3], [4, 5]])) = Some (concat [[1, 2], [3], [4, 5]])"
  by (rule bulk_transfer_completes) (simp_all add: MAX_TRANSFER_SIZE_def CMD_LEN_BITS_def)

text \<open>And nothing else is ever reassembled: when a run of fragments completes a payload, the
  payload is the concatenation of their data in order, all of one transfer and of its announced
  size.\<close>

theorem bulk_payload_sound:
  assumes "accept_all reassembler_new (fs @ [f]) = Inr (aps @ [(a, Some p)], r)" "\<forall>ap \<in> set aps. snd ap = None"
  shows "p = concat (map fg_data (fs @ [f])) \<and> length p = unat (fg_total_size f) \<and> r = reassembler_new \<and>
    (\<forall>g \<in> set fs. fg_id g = fg_id f \<and> fg_total_size g = fg_total_size f)"
  using accept_all_sound [OF _ assms] by (auto simp: wf_reassembler_def reassembler_new_def)

theorem bulk_payload_sound_witness:
  "accept_all reassembler_new (fragments 3 3 0 [[1, 2]] @ [\<lparr>fg_id = 3, fg_total_size = 3, fg_offset = 2, fg_data = [7]\<rparr>]) =
     Inr ([(\<lparr>ak_id = 3, ak_next_offset = 2\<rparr>, None)] @ [(\<lparr>ak_id = 3, ak_next_offset = 3\<rparr>, Some [1, 2, 7])], reassembler_new) \<and>
   [1, 2, 7] = concat (map fg_data (fragments 3 3 0 [[1, 2]] @ [\<lparr>fg_id = 3, fg_total_size = 3, fg_offset = 2, fg_data = [7]\<rparr>]))"
proof -
  have run: "accept_all reassembler_new (fragments 3 3 0 [[1, 2]] @ [\<lparr>fg_id = 3, fg_total_size = 3, fg_offset = 2, fg_data = [7]\<rparr>]) =
     Inr ([(\<lparr>ak_id = 3, ak_next_offset = 2\<rparr>, None)] @ [(\<lparr>ak_id = 3, ak_next_offset = 3\<rparr>, Some [1, 2, 7])], reassembler_new)"
    by (simp add: reassembler_accept_def received_so_far_def reassembler_new_def MAX_TRANSFER_SIZE_def CMD_LEN_BITS_def
        as_u32_def Let_def)
  with bulk_payload_sound [OF run] show ?thesis by simp
qed

end
