(* ===== verification/Sort_By.thy ===== *)
theory Sort_By
  imports Target "HOL-Library.Multiset"
begin

text \<open>
  \<open>slice::sort_by\<close>: a stable sort under a comparison. The locale \<open>comparison\<close> is what a caller
  owes the sort, a total and transitive "not after"; in return the result is a permutation in
  order. The lexicographic order on byte strings, which Rust derives for strings and arrays, is
  shown to be one here; the pool's payout order and the gateway's output order interpret it on
  their own comparisons.
\<close>

fun insort_by :: "('a \<Rightarrow> 'a \<Rightarrow> bool) \<Rightarrow> 'a \<Rightarrow> 'a list \<Rightarrow> 'a list" where
  "insort_by le x [] = [x]"
| "insort_by le x (y # ys) = (if le x y then x # y # ys else y # insort_by le x ys)"

definition sort_by :: "('a \<Rightarrow> 'a \<Rightarrow> bool) \<Rightarrow> 'a list \<Rightarrow> 'a list" where
  "sort_by le xs = foldr (insort_by le) xs []"

lemma mset_insort_by [simp]: "mset (insort_by le x xs) = add_mset x (mset xs)"
  by (induction xs) auto

lemma mset_sort_by [simp]: "mset (sort_by le xs) = mset xs"
  unfolding sort_by_def by (induction xs) simp_all

lemma set_sort_by [simp]: "set (sort_by le xs) = set xs"
  by (metis mset_sort_by set_mset_mset)

lemma length_sort_by [simp]: "length (sort_by le xs) = length xs"
  by (metis mset_sort_by size_mset)

locale comparison =
  fixes le :: "'a \<Rightarrow> 'a \<Rightarrow> bool"
  assumes total: "le x y \<or> le y x"
    and trans: "le x y \<Longrightarrow> le y z \<Longrightarrow> le x z"
begin

lemma insort_sorted: "sorted_wrt le xs \<Longrightarrow> sorted_wrt le (insort_by le x xs)"
proof (induction xs)
  case (Cons y ys)
  show ?case
  proof (cases "le x y")
    case True
    then show ?thesis using Cons.prems trans by auto
  next
    case False
    then have "le y x" using total by blast
    moreover have "set (insort_by le x ys) = insert x (set ys)"
      by (metis mset_insort_by set_mset_add_mset_insert set_mset_mset)
    ultimately show ?thesis using False Cons by simp
  qed
qed simp

lemma sorted: "sorted_wrt le (sort_by le xs)"
  unfolding sort_by_def by (induction xs) (simp_all add: insort_sorted)

lemma sorted_take: "sorted_wrt le (take n (sort_by le xs))"
  by (rule sorted_wrt_take [OF sorted])

end

lemma bytes_le_total: "bytes_le xs ys \<or> bytes_le ys xs"
  by (induction xs ys rule: bytes_le.induct) (auto split: if_splits)

lemma bytes_le_trans: "bytes_le xs ys \<Longrightarrow> bytes_le ys zs \<Longrightarrow> bytes_le xs zs"
proof (induction xs ys arbitrary: zs rule: bytes_le.induct)
  case (3 x xs y ys)
  obtain z zs' where zs: "zs = z # zs'" using 3(3) by (cases zs) auto
  show ?case using 3 zs by (auto split: if_splits)
qed auto

lemma bytes_le_antisym: "bytes_le xs ys \<Longrightarrow> bytes_le ys xs \<Longrightarrow> xs = ys"
  by (induction xs ys rule: bytes_le.induct) (auto split: if_splits elim: bytes_le.elims)

interpretation lex: comparison bytes_le
  by unfold_locales (use bytes_le_total bytes_le_trans in blast)+

end
