(* ===== verification/Script.thy ===== *)
theory Script
  imports Reader
begin

text \<open>
  core/src/bitcoin/script.rs: the opcodes, the iterator over a script's operations, the pushes a
  coinbase scriptSig is assembled from and read back through, and the size limit of an output
  script.  The iterator's state is the script and the index it stands at; \<open>script_op_at\<close> is one
  \<open>next\<close> and \<open>script_ops_from\<close> what is left of the iteration.
\<close>

definition OP_0 :: u8 where "OP_0 = 0x00"
definition OP_PUSHDATA1 :: u8 where "OP_PUSHDATA1 = 0x4c"
definition OP_PUSHDATA2 :: u8 where "OP_PUSHDATA2 = 0x4d"
definition OP_PUSHDATA4 :: u8 where "OP_PUSHDATA4 = 0x4e"
definition OP_1 :: u8 where "OP_1 = 0x51"
definition OP_16 :: u8 where "OP_16 = 0x60"
definition OP_RETURN :: u8 where "OP_RETURN = 0x6a"
definition OP_CHECKSIG :: u8 where "OP_CHECKSIG = 0xac"
definition OP_CHECKSIGVERIFY :: u8 where "OP_CHECKSIGVERIFY = 0xad"
definition OP_CHECKMULTISIG :: u8 where "OP_CHECKMULTISIG = 0xae"
definition OP_CHECKMULTISIGVERIFY :: u8 where "OP_CHECKMULTISIGVERIFY = 0xaf"
definition MAX_DIRECT_PUSH :: nat where "MAX_DIRECT_PUSH = unat OP_PUSHDATA1 - 1"
definition MAX_DIRECT_PUSH_OPCODE :: u8 where "MAX_DIRECT_PUSH_OPCODE = word_of_nat MAX_DIRECT_PUSH"
definition OP_N_BASE :: u8 where "OP_N_BASE = OP_1 - 1"
definition MAX_OUTPUT_SCRIPT_SIZE :: nat where "MAX_OUTPUT_SCRIPT_SIZE = 34"
definition MAX_OUTPUT_DATA_SIZE :: nat where "MAX_OUTPUT_DATA_SIZE = 83"

lemmas opcode_consts = OP_0_def OP_PUSHDATA1_def OP_PUSHDATA2_def OP_PUSHDATA4_def OP_1_def
  OP_16_def OP_RETURN_def OP_CHECKSIG_def OP_CHECKSIGVERIFY_def OP_CHECKMULTISIG_def
  OP_CHECKMULTISIGVERIFY_def MAX_DIRECT_PUSH_def MAX_DIRECT_PUSH_OPCODE_def OP_N_BASE_def

record script_push =
  sp_data_at :: nat
  sp_data :: bytes

record script_op =
  so_opcode :: u8
  so_push :: "script_push option"

text \<open>\<open>slice.get(a..b)\<close>\<close>

definition slice_get :: "'a list \<Rightarrow> nat \<Rightarrow> nat \<Rightarrow> 'a list option" where
  "slice_get xs a b = (if a \<le> b \<and> b \<le> length xs then Some (take (b - a) (drop a xs)) else None)"

definition script_op_at :: "bytes \<Rightarrow> nat \<Rightarrow> (script_op \<times> nat) option" where
  "script_op_at script at =
     (if length script \<le> at then None
      else let opcode = script ! at; after_opcode = at + 1 in
        if 0x01 \<le> opcode \<and> opcode \<le> MAX_DIRECT_PUSH_OPCODE \<or> opcode = OP_PUSHDATA1
           \<or> opcode = OP_PUSHDATA2 \<or> opcode = OP_PUSHDATA4 then
          let length_bytes = (if opcode = OP_PUSHDATA1 then 1 else if opcode = OP_PUSHDATA2 then 2
                              else if opcode = OP_PUSHDATA4 then 4 else 0) in
          Option.bind
            (if length_bytes = 0 then Some (after_opcode, unat opcode)
             else map_option (\<lambda>field. (after_opcode + length_bytes, le_val field))
                    (slice_get script after_opcode (after_opcode + length_bytes)))
            (\<lambda>(data_at, len).
               map_option
                 (\<lambda>data. (\<lparr>so_opcode = opcode,
                            so_push = Some \<lparr>sp_data_at = data_at, sp_data = data\<rparr>\<rparr>, data_at + len))
                 (slice_get script data_at (data_at + len)))
        else Some (\<lparr>so_opcode = opcode, so_push = None\<rparr>, at + 1))"

lemma script_op_at_moves:
  "script_op_at script at = Some (op, at') \<Longrightarrow> at < at' \<and> at' \<le> length script"
  by (auto simp: script_op_at_def slice_get_def Let_def split: if_splits)

function script_ops_from :: "bytes \<Rightarrow> nat \<Rightarrow> script_op list" where
  "script_ops_from script at =
     (case script_op_at script at of
        None \<Rightarrow> []
      | Some (op, at') \<Rightarrow> op # script_ops_from script at')"
  by pat_completeness auto
termination
  by (relation "measure (\<lambda>(script, at). length script - at)") (auto dest: script_op_at_moves)

declare script_ops_from.simps [simp del]

definition script_ops :: "bytes \<Rightarrow> script_op list" where
  "script_ops script = script_ops_from script 0"

definition script_pushes :: "bytes \<Rightarrow> script_push list" where
  "script_pushes script = List.map_filter so_push (script_ops script)"

definition output_script_size_is_valid :: "bytes \<Rightarrow> bool" where
  "output_script_size_is_valid script =
     (if script = [] then True
      else length script \<le>
        (if script ! 0 = OP_RETURN then MAX_OUTPUT_DATA_SIZE else MAX_OUTPUT_SCRIPT_SIZE))"

text \<open>The number's bytes, lowest first, until nothing is left of it.\<close>

function height_bytes :: "u32 \<Rightarrow> bytes" where
  "height_bytes v = (if v = 0 then [] else ucast v # height_bytes (drop_bit 8 v))"
  by pat_completeness auto
termination
proof (relation "measure unat")
  fix v :: u32 assume "v \<noteq> 0"
  then have "0 < unat v" by (simp add: unat_gt_0)
  then have "unat v div 256 < unat v" by simp
  then show "(drop_bit 8 v, v) \<in> measure unat" by (simp add: unat_drop_bit_eq drop_bit_eq_div [of _ "unat v"])
qed simp

declare height_bytes.simps [simp del]

definition SIGN_BIT :: u8 where "SIGN_BIT = 0x80"
definition SMALL_INT_MAX :: u32 where "SMALL_INT_MAX = ucast (OP_16 - OP_N_BASE)"

definition height_push :: "u32 \<Rightarrow> bytes" where
  "height_push height =
     (if height = 0 then [OP_0]
      else if height \<le> SMALL_INT_MAX then [OP_N_BASE + ucast height]
      else let bytes = height_bytes height;
               bytes = (if bytes \<noteq> [] \<and> last bytes AND SIGN_BIT \<noteq> 0 then bytes @ [0] else bytes)
           in word_of_nat (length bytes) # bytes)"

definition encode_push :: "bytes \<Rightarrow> bytes" where
  "encode_push data =
     (if MAX_DIRECT_PUSH < length data then [OP_PUSHDATA1] else [])
       @ [word_of_nat (length data)] @ data"

subsection \<open>Reading back what was pushed\<close>

lemma slice_get_middle:
  "slice_get (pre @ d @ t) (length pre) (length pre + length d) = Some d"
  by (simp add: slice_get_def)

lemma script_ops_from_end [simp]: "script_ops_from s (length s) = []"
  by (simp add: script_ops_from.simps [of s "length s"] script_op_at_def)

definition push_header :: "bytes \<Rightarrow> nat" where
  "push_header d = (if MAX_DIRECT_PUSH < length d then 2 else 1)"

lemma length_encode_push: "length (encode_push d) = push_header d + length d"
  by (simp add: encode_push_def push_header_def)

lemma unat_byte_length: "n < 256 \<Longrightarrow> unat (word_of_nat n :: u8) = n"
  by (simp add: unat_of_nat)

lemma script_op_at_push:
  assumes "1 \<le> length d" "length d < 256"
  shows "script_op_at (pre @ encode_push d @ t) (length pre) =
     Some (\<lparr>so_opcode = hd (encode_push d),
             so_push = Some \<lparr>sp_data_at = length pre + push_header d, sp_data = d\<rparr>\<rparr>,
           length pre + length (encode_push d))"
proof (cases "MAX_DIRECT_PUSH < length d")
  case True
  let ?n = "word_of_nat (length d) :: u8"
  have s: "pre @ encode_push d @ t = pre @ OP_PUSHDATA1 # ?n # d @ t"
    using True by (simp add: encode_push_def)
  have "slice_get (pre @ OP_PUSHDATA1 # ?n # d @ t) (length pre + 1) (length pre + 1 + 1) = Some [?n]"
    using slice_get_middle [of "pre @ [OP_PUSHDATA1]" "[?n]" "d @ t"] by simp
  moreover have "slice_get (pre @ OP_PUSHDATA1 # ?n # d @ t) (length pre + 2) (length pre + 2 + length d) = Some d"
    using slice_get_middle [of "pre @ [OP_PUSHDATA1, ?n]" d t] by simp
  ultimately show ?thesis using True assms(2) unfolding s
    by (simp add: script_op_at_def opcode_consts unat_byte_length push_header_def encode_push_def nth_append)
next
  case False
  let ?n = "word_of_nat (length d) :: u8"
  have s: "pre @ encode_push d @ t = pre @ ?n # d @ t" using False by (simp add: encode_push_def)
  have small: "length d \<le> 75" using False by (simp add: opcode_consts)
  have n: "1 \<le> ?n" "?n \<le> 75" "?n \<noteq> 76" "?n \<noteq> 77" "?n \<noteq> 78"
    using assms small by (simp_all add: word_le_nat_alt word_unat_eq_iff unat_byte_length)
  have "slice_get (pre @ ?n # d @ t) (length pre + 1) (length pre + 1 + length d) = Some d"
    using slice_get_middle [of "pre @ [?n]" d t] by simp
  with n show ?thesis using False assms(2) unfolding s
    by (simp add: script_op_at_def opcode_consts unat_byte_length push_header_def encode_push_def nth_append)
qed

text \<open>The iteration over a script some of whose prefix has been read.\<close>

definition pushes_from :: "bytes \<Rightarrow> nat \<Rightarrow> script_push list" where
  "pushes_from s n = List.map_filter so_push (script_ops_from s n)"

lemma pushes_from_end [simp]: "pushes_from s (length s) = []"
  by (simp add: pushes_from_def map_filter_simps)

lemma pushes_from_push:
  assumes "1 \<le> length d" "length d < 256"
  shows "pushes_from (pre @ encode_push d @ t) (length pre) =
     \<lparr>sp_data_at = length pre + push_header d, sp_data = d\<rparr> #
     pushes_from (pre @ encode_push d @ t) (length (pre @ encode_push d))"
  using script_op_at_push [OF assms, of pre t]
  by (simp add: pushes_from_def script_ops_from.simps [of _ "length pre"] map_filter_simps)

subsection \<open>The height push\<close>

lemma unat_low_byte: "unat (ucast (v :: u32) :: u8) = unat v mod 256"
  by (simp add: unsigned_ucast_eq take_bit_eq_mod)

lemma height_bytes_spec:
  "le_val (height_bytes v) = unat v"
  "v \<noteq> 0 \<Longrightarrow> height_bytes v \<noteq> [] \<and> last (height_bytes v) \<noteq> 0"
proof (induction v rule: height_bytes.induct)
  case (1 v)
  {
    case 1
    show ?case
    proof (cases "v = 0")
      case False
      have "unat (ucast v :: u8) = unat v mod 256" by (rule unat_low_byte)
      moreover have "unat (drop_bit 8 v) = unat v div 256"
        by (simp add: unat_drop_bit_eq drop_bit_eq_div [of _ "unat v"])
      ultimately show ?thesis using "1.IH"(1) [OF False] False by (simp add: height_bytes.simps [of v])
    qed (simp add: height_bytes.simps)
  next
    case 2
    show ?case
    proof (cases "drop_bit 8 v = 0")
      case True
      have "unat v div 256 = 0"
        using True by (simp add: word_unat_eq_iff unat_drop_bit_eq drop_bit_eq_div [of _ "unat v"])
      then have "ucast v \<noteq> (0::u8)" using 2 by (auto simp: word_unat_eq_iff unat_low_byte)
      then show ?thesis using 2 True by (simp add: height_bytes.simps [of v] height_bytes.simps [of 0])
    next
      case False
      with "1.IH"(2) [OF 2 False] 2 show ?thesis by (simp add: height_bytes.simps [of v])
    qed
  }
qed

lemma length_height_bytes: "length (height_bytes v) \<le> 4"
proof (rule ccontr)
  assume long: "\<not> ?thesis"
  then obtain bs b where bs: "height_bytes v = bs @ [b]" by (metis list.size(3) rev_exhaust zero_le)
  then have "v \<noteq> 0" by (auto simp: height_bytes.simps)
  then have "b \<noteq> 0" using height_bytes_spec(2) [of v] bs by simp
  then have "256 ^ length bs \<le> le_val (height_bytes v)"
    by (cases "unat b") (simp_all add: bs le_val_append word_unat_eq_iff)
  moreover have "4 \<le> length bs" using long bs by simp
  then have "(256::nat) ^ 4 \<le> 256 ^ length bs" by (rule power_increasing) simp
  ultimately show False using height_bytes_spec(1) [of v] unat_word_lt(3) [of v] by simp
qed

text \<open>A script number: little-endian, its sign in the top bit of the last byte.\<close>

definition script_num :: "bytes \<Rightarrow> int" where
  "script_num bs =
     (if bs = [] then 0
      else if last bs AND SIGN_BIT \<noteq> 0
        then - int (le_val (butlast bs) + 256 ^ (length bs - 1) * unat (last bs AND 0x7f))
        else int (le_val bs))"

definition minimal_num :: "bytes \<Rightarrow> bool" where
  "minimal_num bs \<longleftrightarrow> bs \<noteq> [] \<and>
     (last bs AND 0x7f = 0 \<longrightarrow> 2 \<le> length bs \<and> last (butlast bs) AND SIGN_BIT \<noteq> 0)"

lemma top_bit_nat:
  assumes "n < (256 :: nat)"
  shows "n = n mod 128 + (if odd (n div 128) then 128 else 0)"
proof (cases "n < 128")
  case False
  then have "n div 128 = Suc ((n - 128) div 128)" "n mod 128 = (n - 128) mod 128"
    by (simp_all add: le_div_geq le_mod_geq)
  with False assms show ?thesis by simp
qed simp

lemma sign_bit_split: "unat (b :: u8) = unat (b AND 0x7f) + (if b AND SIGN_BIT \<noteq> 0 then 128 else 0)"
proof -
  have "b AND 0x7f = take_bit 7 b" by (simp add: take_bit_eq_mask mask_eq_decr_exp)
  then have low: "unat (b AND 0x7f) = unat b mod 128" 
    by (simp add: take_bit_eq_mod unat_mod_distrib)
  have "SIGN_BIT = 2 ^ 7" by (simp add: SIGN_BIT_def)
  then have set: "b AND SIGN_BIT \<noteq> 0 \<longleftrightarrow> bit b 7" by (metis and_exp_eq_0_iff_not_bit)
  have up: "bit (unat b) 7 \<longleftrightarrow> bit b 7" by (simp only: bit_unsigned_iff) simp
  have pow: "(2::nat) ^ 7 = 128" by simp
  have odd: "bit (unat b) 7 \<longleftrightarrow> odd (unat b div 128)" using bit_iff_odd [of "unat b" 7] unfolding pow .
  have high: "b AND SIGN_BIT \<noteq> 0 \<longleftrightarrow> odd (unat b div 128)" using set up odd by blast
  show ?thesis unfolding low high by (rule top_bit_nat) (use unat_u8_lt [of b] in simp)
qed

definition height_data :: "u32 \<Rightarrow> bytes" where
  "height_data h = (let bs = height_bytes h in if last bs AND SIGN_BIT \<noteq> 0 then bs @ [0] else bs)"

lemma height_data_spec:
  assumes "h \<noteq> 0"
  shows "script_num (height_data h) = uint h" "minimal_num (height_data h)"
    and "1 \<le> length (height_data h)" "length (height_data h) \<le> 5"
proof -
  note bytes = height_bytes_spec(1) [of h] height_bytes_spec(2) [OF assms] length_height_bytes [of h]
  let ?b = "last (height_bytes h)"
  show "1 \<le> length (height_data h)" "length (height_data h) \<le> 5"
    using bytes by (auto simp: height_data_def Let_def Suc_le_eq)
  have zero: "(0 :: u8) AND SIGN_BIT = 0" "(0 :: u8) AND 0x7f = 0" by simp_all
  have num: "script_num (height_data h) = int (unat h)"
    using bytes by (simp add: height_data_def script_num_def le_val_append Let_def)
  then show "script_num (height_data h) = uint h" by simp
  have "?b AND 0x7f \<noteq> 0" if "?b AND SIGN_BIT = 0"
    using that sign_bit_split [of ?b] bytes(2) by (auto simp: word_unat_eq_iff)
  then show "minimal_num (height_data h)"
    using bytes by (auto simp: height_data_def minimal_num_def Let_def Suc_le_eq)
qed

lemma height_push_eq:
  "height_push h =
     (if unat h \<le> 16 then [if h = 0 then OP_0 else OP_N_BASE + ucast h] else encode_push (height_data h))"
proof (cases "unat h \<le> 16")
  case True
  then show ?thesis by (simp add: height_push_def SMALL_INT_MAX_def opcode_consts word_le_nat_alt)
next
  case False
  then have "h \<noteq> 0" by auto
  note data = height_data_spec(3,4) [OF this] height_bytes_spec(2) [OF this]
  have "height_push h = word_of_nat (length (height_data h)) # height_data h"
    using False data(3) \<open>h \<noteq> 0\<close>
    by (simp add: height_push_def SMALL_INT_MAX_def opcode_consts word_le_nat_alt height_data_def Let_def)
  with False data show ?thesis by (simp add: encode_push_def opcode_consts)
qed

lemma length_height_push: "1 \<le> length (height_push h)" "length (height_push h) \<le> 6"
proof -
  have "1 \<le> length (height_push h) \<and> length (height_push h) \<le> 6"
  proof (cases "unat h \<le> 16")
    case False
    then have "h \<noteq> 0" by auto
    with False height_data_spec(3,4) [OF this] show ?thesis
      by (simp add: height_push_eq length_encode_push push_header_def opcode_consts)
  qed (simp add: height_push_eq)
  then show "1 \<le> length (height_push h)" "length (height_push h) \<le> 6" by simp_all
qed

text \<open>What the iteration yields for the height, and where it goes on.\<close>

definition height_op :: "u32 \<Rightarrow> script_op" where
  "height_op h =
     (if unat h \<le> 16 then \<lparr>so_opcode = (if h = 0 then OP_0 else OP_N_BASE + ucast h), so_push = None\<rparr>
      else \<lparr>so_opcode = word_of_nat (length (height_data h)),
             so_push = Some \<lparr>sp_data_at = 1, sp_data = height_data h\<rparr>\<rparr>)"

lemma small_height_opcode:
  assumes "unat (h :: u32) \<le> 16" "h \<noteq> 0"
  shows "0x51 \<le> (0x50 + ucast h :: u8)" "(0x50 + ucast h :: u8) \<le> 0x60"
proof -
  have "0 < unat h" using assms(2) by (simp add: unat_gt_0)
  moreover have "unat (ucast h :: u8) = unat h" using assms by (simp add: unat_low_byte)
  moreover have "unat (0x50 + ucast h :: u8) = 0x50 + unat h"
    using assms(1) \<open>unat (ucast h :: u8) = unat h\<close> by (subst unat_add_lem [THEN iffD1]) simp_all
  ultimately show "0x51 \<le> (0x50 + ucast h :: u8)" "(0x50 + ucast h :: u8) \<le> 0x60"
    using assms(1) by (simp_all add: word_le_nat_alt)
qed

lemma plain_op_at:
  assumes "b = 0 \<or> 0x51 \<le> b"
  shows "script_op_at (b # t) 0 = Some (\<lparr>so_opcode = b, so_push = None\<rparr>, 1)"
proof -
  have "\<not> (1 \<le> b \<and> b \<le> 75 \<or> b = 76 \<or> b = 77 \<or> b = 78)"
    using assms by (auto simp: word_le_nat_alt word_unat_eq_iff)
  then show ?thesis by (simp add: script_op_at_def opcode_consts)
qed

lemma script_ops_height:
  "script_ops_from (height_push h @ t) 0 =
     height_op h # script_ops_from (height_push h @ t) (length (height_push h))"
proof (cases "unat h \<le> 16")
  case True
  let ?b = "if h = 0 then OP_0 else OP_N_BASE + ucast h"
  have b: "?b = 0 \<or> 0x51 \<le> ?b" using small_height_opcode [OF True] by (auto simp: opcode_consts)
  then have "script_op_at (?b # t) 0 = Some (\<lparr>so_opcode = ?b, so_push = None\<rparr>, 1)" by (rule plain_op_at)
  with True show ?thesis
    by (simp only: height_push_eq if_True append.simps height_op_def) (subst script_ops_from.simps, simp)
next
  case False
  then have "h \<noteq> 0" by auto
  note data = height_data_spec(3,4) [OF this]
  have "script_op_at (height_push h @ t) 0 = Some (height_op h, length (height_push h))"
    using False data script_op_at_push [of "height_data h" "[]" t]
    by (simp add: height_push_eq height_op_def push_header_def opcode_consts encode_push_def)
  then show ?thesis by (subst script_ops_from.simps) simp
qed

definition script_op_number :: "script_op \<Rightarrow> int option" where
  "script_op_number op =
     (case so_push op of
        Some p \<Rightarrow> if minimal_num (sp_data p) then Some (script_num (sp_data p)) else None
      | None \<Rightarrow> if so_opcode op = OP_0 then Some 0
                else if OP_1 \<le> so_opcode op \<and> so_opcode op \<le> OP_16
                  then Some (uint (so_opcode op - OP_N_BASE)) else None)"

text \<open>The height the gateway pushes first into a coinbase's scriptSig is the one a script
  interpreter reads there, in the one form BIP 34 admits: zero as \<open>OP_0\<close>, one to sixteen as the
  small-number opcodes, and anything larger as a push of the minimal little-endian number, whose
  sign bit is never set.\<close>

theorem height_push_reads_back:
  "script_op_number (hd (script_ops (height_push h @ rest))) = Some (uint h)"
proof (cases "unat h \<le> 16")
  case True
  have "h \<noteq> 0 \<Longrightarrow> 0x51 \<le> (0x50 + ucast h :: u8) \<and> (0x50 + ucast h :: u8) \<le> 0x60 \<and>
      (0x50 + ucast h :: u8) \<noteq> 0"
    using small_height_opcode [OF True] by (cases "0x50 + ucast h = (0::u8)") auto
  moreover have "unat (ucast h :: u8) = unat h" using True by (simp add: unat_low_byte)
  then have "uint (ucast h :: u8) = uint h" by (metis uint_nat)
  ultimately show ?thesis using True
    by (simp add: script_ops_def script_ops_height height_op_def script_op_number_def opcode_consts)
next
  case False
  then have "h \<noteq> 0" by auto
  with False height_data_spec [OF this] show ?thesis
    by (simp add: script_ops_def script_ops_height height_op_def script_op_number_def)
qed

end
