(* ===== verification/Transaction.thy ===== *)
theory Transaction
  imports Bitcoin Script
begin

text \<open>
  core/src/bitcoin/transaction.rs: the transaction id over the stripped serialization, the decoder
  of the coinbase a share is rebuilt from, and the encoding of an output.  SHA-256 is the parameter
  \<open>sha\<close>.  The loops over the declared counts are \<open>rd_times\<close>: a count the input does not hold ends
  in the truncation error of the read that runs out.

  The writer \<open>wire_tx\<close> is the serialization of Bitcoin's protocol (BIP 144), against which the two
  decoders are shown to be correct.
\<close>

definition TX_VERSION_SIZE :: nat where "TX_VERSION_SIZE = 4"
definition OUTPOINT_SIZE :: nat where "OUTPOINT_SIZE = HASH_SIZE + 4"
definition SEQUENCE_SIZE :: nat where "SEQUENCE_SIZE = 4"
definition VALUE_SIZE :: nat where "VALUE_SIZE = 8"
definition LOCK_TIME_SIZE :: nat where "LOCK_TIME_SIZE = 4"
definition MIN_OUTPUT_SIZE :: nat where "MIN_OUTPUT_SIZE = VALUE_SIZE + 1"
definition SEGWIT_MARKER_AND_FLAG :: "u8 \<times> u8" where "SEGWIT_MARKER_AND_FLAG = (0x00, 0x01)"
definition SEGWIT_MARKER_AND_FLAG_SIZE :: nat where "SEGWIT_MARKER_AND_FLAG_SIZE = 2"
definition NULL_OUTPOINT_INDEX :: bytes where "NULL_OUTPOINT_INDEX = replicate (OUTPOINT_SIZE - HASH_SIZE) 0xff"
definition SEQUENCE_FINAL :: bytes where "SEQUENCE_FINAL = replicate SEQUENCE_SIZE 0xff"

lemmas tx_sizes = TX_VERSION_SIZE_def OUTPOINT_SIZE_def SEQUENCE_SIZE_def VALUE_SIZE_def
  LOCK_TIME_SIZE_def MIN_OUTPUT_SIZE_def SEGWIT_MARKER_AND_FLAG_SIZE_def HASH_SIZE_def

definition read_version_and_marker :: "byte_reader \<Rightarrow> tx_error + (u32 \<times> bool \<times> byte_reader)" where
  "read_version_and_marker c =
     tryq TxTruncated (rd_u32 ''version'' c) (\<lambda>(version, c).
     let has_witness = (rd_peek2 c = Some SEGWIT_MARKER_AND_FLAG) in
     if has_witness then
       tryq TxTruncated (rd_advance SEGWIT_MARKER_AND_FLAG_SIZE ''segwit marker and flag'' c)
         (\<lambda>c. Inr (version, has_witness, c))
     else Inr (version, has_witness, c))"

definition skip_witness_item :: "byte_reader \<Rightarrow> tx_error + (unit \<times> byte_reader)" where
  "skip_witness_item c =
     bindr (decode_compact_size c) (\<lambda>(len, c).
     tryq TxTruncated (rd_advance (unat len) ''witness item'' c) (\<lambda>c. Inr ((), c)))"

definition skip_witness :: "byte_reader \<Rightarrow> tx_error + (unit \<times> byte_reader)" where
  "skip_witness c =
     bindr (decode_compact_size c) (\<lambda>(items, c).
     bindr (rd_times (unat items) skip_witness_item c) (\<lambda>(_, c). Inr ((), c)))"

definition skip_witnesses :: "byte_reader \<Rightarrow> nat \<Rightarrow> tx_error + byte_reader" where
  "skip_witnesses c inputs = bindr (rd_times inputs skip_witness c) (\<lambda>(_, c). Inr c)"

definition read_lock_time :: "byte_reader \<Rightarrow> nat \<Rightarrow> tx_error + (u32 \<times> byte_reader)" where
  "read_lock_time c tx_len =
     tryq TxTruncated (rd_u32 ''lock time'' c) (\<lambda>(lock_time, c).
     if rd_at_end c then Inr (lock_time, c) else Inl (TrailingBytes (tx_len - rd_pos c)))"

definition skip_input :: "byte_reader \<Rightarrow> tx_error + (unit \<times> byte_reader)" where
  "skip_input c =
     tryq TxTruncated (rd_advance OUTPOINT_SIZE ''outpoint'' c) (\<lambda>c.
     bindr (decode_compact_size c) (\<lambda>(len, c).
     tryq TxTruncated (rd_advance (unat len) ''scriptSig'' c) (\<lambda>c.
     tryq TxTruncated (rd_advance SEQUENCE_SIZE ''sequence'' c) (\<lambda>c. Inr ((), c)))))"

definition skip_output :: "byte_reader \<Rightarrow> tx_error + (unit \<times> byte_reader)" where
  "skip_output c =
     tryq TxTruncated (rd_advance VALUE_SIZE ''value'' c) (\<lambda>c.
     bindr (decode_compact_size c) (\<lambda>(len, c).
     tryq TxTruncated (rd_advance (unat len) ''scriptPubKey'' c) (\<lambda>c. Inr ((), c))))"

definition txid :: "(bytes \<Rightarrow> bytes) \<Rightarrow> bytes \<Rightarrow> tx_error + bytes" where
  "txid sha tx =
     bindr (read_version_and_marker (rd_new tx)) (\<lambda>(version, has_witness, c).
     let body_start = rd_pos c in
     bindr (decode_compact_size c) (\<lambda>(inputs, c).
     if inputs = 0 then Inl NoInputs
     else bindr (rd_times (unat inputs) skip_input c) (\<lambda>(_, c).
     bindr (decode_compact_size c) (\<lambda>(outputs, c).
     bindr (rd_times (unat outputs) skip_output c) (\<lambda>(_, c).
     let body_end = rd_pos c in
     bindr (if has_witness then skip_witnesses c (unat inputs) else Inr c) (\<lambda>c.
     bindr (read_lock_time c (length tx)) (\<lambda>(lock_time, c).
     Inr (sha256d sha
       (put_u32_le version @ take (body_end - body_start) (drop body_start tx)
          @ put_u32_le lock_time)))))))))"

record tx_out =
  to_value :: u64
  to_script_pubkey :: bytes

record coinbase_tx =
  ct_version :: u32
  ct_script_sig_offset :: nat
  ct_script_sig :: bytes
  ct_sequence :: u32
  ct_outputs :: "tx_out list"
  ct_lock_time :: u32
  ct_has_witness :: bool

definition read_output :: "byte_reader \<Rightarrow> tx_error + (tx_out \<times> byte_reader)" where
  "read_output c =
     tryq TxTruncated (rd_u64 ''value'' c) (\<lambda>(value, c).
     bindr (decode_compact_size c) (\<lambda>(len, c).
     tryq TxTruncated (rd_take (unat len) ''scriptPubKey'' c) (\<lambda>(script, c).
     Inr (\<lparr>to_value = value, to_script_pubkey = script\<rparr>, c))))"

definition parse_coinbase :: "bytes \<Rightarrow> tx_error + coinbase_tx" where
  "parse_coinbase tx =
     bindr (read_version_and_marker (rd_new tx)) (\<lambda>(version, has_witness, c).
     bindr (decode_compact_size c) (\<lambda>(inputs, c).
     if inputs \<noteq> 1 then Inl NotCoinbase
     else tryq TxTruncated (rd_take OUTPOINT_SIZE ''outpoint'' c) (\<lambda>(prevout, c).
     if take HASH_SIZE prevout \<noteq> replicate HASH_SIZE 0
        \<or> drop HASH_SIZE prevout \<noteq> NULL_OUTPOINT_INDEX then Inl InputNotNull
     else bindr (decode_compact_size c) (\<lambda>(script_len, c).
     let script_sig_offset = rd_pos c in
     tryq TxTruncated (rd_take (unat script_len) ''scriptSig'' c) (\<lambda>(script_sig, c).
     tryq TxTruncated (rd_u32 ''sequence'' c) (\<lambda>(sequence, c).
     bindr (decode_compact_size c) (\<lambda>(n_out, c).
     if length (br_rest c) < min (unat n_out * MIN_OUTPUT_SIZE) (2 ^ 64 - 1)
       then Inl (LengthOverflow ''output count'')
     else bindr (rd_times (unat n_out) read_output c) (\<lambda>(outputs, c).
     bindr (if has_witness then skip_witnesses c 1 else Inr c) (\<lambda>c.
     bindr (read_lock_time c (length tx)) (\<lambda>(lock_time, c).
     Inr \<lparr>ct_version = version, ct_script_sig_offset = script_sig_offset,
          ct_script_sig = script_sig, ct_sequence = sequence, ct_outputs = outputs,
          ct_lock_time = lock_time, ct_has_witness = has_witness\<rparr>))))))))))"

definition encode_output :: "u64 \<Rightarrow> bytes \<Rightarrow> bytes" where
  "encode_output value script =
     put_u64_le value @ encode_compact_size (as_u64 (length script)) @ script"

section \<open>The serialization the decoders read\<close>

record tx_in =
  ti_outpoint :: bytes
  ti_script_sig :: bytes
  ti_sequence :: u32
  ti_witness :: "bytes list"

record wire_transaction =
  wt_version :: u32
  wt_inputs :: "tx_in list"
  wt_outputs :: "tx_out list"
  wt_lock_time :: u32

definition wire_bytes :: "bytes \<Rightarrow> bytes" where
  "wire_bytes bs = encode_compact_size (as_u64 (length bs)) @ bs"

definition wire_input :: "tx_in \<Rightarrow> bytes" where
  "wire_input i = ti_outpoint i @ wire_bytes (ti_script_sig i) @ put_u32_le (ti_sequence i)"

definition wire_witness :: "tx_in \<Rightarrow> bytes" where
  "wire_witness i =
     encode_compact_size (as_u64 (length (ti_witness i))) @ concat (map wire_bytes (ti_witness i))"

definition wire_output :: "tx_out \<Rightarrow> bytes" where
  "wire_output out = encode_output (to_value out) (to_script_pubkey out)"

definition wire_body :: "wire_transaction \<Rightarrow> bytes" where
  "wire_body t =
     encode_compact_size (as_u64 (length (wt_inputs t))) @ concat (map wire_input (wt_inputs t)) @
     encode_compact_size (as_u64 (length (wt_outputs t))) @ concat (map wire_output (wt_outputs t))"

definition wire_tx :: "bool \<Rightarrow> wire_transaction \<Rightarrow> bytes" where
  "wire_tx with_witness t =
     put_u32_le (wt_version t) @ (if with_witness then [0x00, 0x01] else []) @ wire_body t @
     (if with_witness then concat (map wire_witness (wt_inputs t)) else []) @
     put_u32_le (wt_lock_time t)"

definition wf_in :: "tx_in \<Rightarrow> bool" where
  "wf_in i \<longleftrightarrow> length (ti_outpoint i) = OUTPOINT_SIZE \<and> length (ti_script_sig i) < 2 ^ 64 \<and>
     length (ti_witness i) < 2 ^ 64 \<and> (\<forall>w \<in> set (ti_witness i). length w < 2 ^ 64)"

definition wf_out :: "tx_out \<Rightarrow> bool" where
  "wf_out out \<longleftrightarrow> length (to_script_pubkey out) < 2 ^ 64"

definition wf_tx :: "wire_transaction \<Rightarrow> bool" where
  "wf_tx t \<longleftrightarrow> 0 < length (wt_inputs t) \<and> length (wt_inputs t) < 2 ^ 64 \<and>
     length (wt_outputs t) < 2 ^ 64 \<and> list_all wf_in (wt_inputs t) \<and> list_all wf_out (wt_outputs t)"

lemma unat_as_u64 [simp]: "n < 2 ^ 64 \<Longrightarrow> unat (as_u64 n) = n"
  by (simp add: unat_cast)

lemma skip_output_wire [wire]:
  "wf_out out \<Longrightarrow> skip_output \<lparr>br_full = f, br_rest = wire_output out @ t\<rparr> =
     Inr ((), \<lparr>br_full = f, br_rest = t\<rparr>)"
  by (simp add: skip_output_def wire_output_def encode_output_def wf_out_def wire tx_sizes)

lemma read_output_wire [wire]:
  "wf_out out \<Longrightarrow> read_output \<lparr>br_full = f, br_rest = wire_output out @ t\<rparr> =
     Inr (out, \<lparr>br_full = f, br_rest = t\<rparr>)"
  by (simp add: read_output_def wire_output_def encode_output_def wf_out_def wire)

lemma skip_input_wire [wire]:
  "wf_in i \<Longrightarrow> skip_input \<lparr>br_full = f, br_rest = wire_input i @ t\<rparr> =
     Inr ((), \<lparr>br_full = f, br_rest = t\<rparr>)"
  by (simp add: skip_input_def wire_input_def wire_bytes_def wf_in_def wire tx_sizes)

lemma rd_times_skip:
  assumes "\<And>x t. x \<in> set xs \<Longrightarrow>
      p \<lparr>br_full = f, br_rest = enc x @ t\<rparr> = Inr ((), \<lparr>br_full = f, br_rest = t\<rparr>)"
  shows "rd_times (length xs) p \<lparr>br_full = f, br_rest = concat (map enc xs) @ t\<rparr> =
      Inr (replicate (length xs) (), \<lparr>br_full = f, br_rest = t\<rparr>)"
  using assms by (induction xs) simp_all

lemma skip_witness_wire [wire]:
  assumes "wf_in i"
  shows "skip_witness \<lparr>br_full = f, br_rest = wire_witness i @ t\<rparr> = Inr ((), \<lparr>br_full = f, br_rest = t\<rparr>)"
proof -
  have "skip_witness_item \<lparr>br_full = f, br_rest = wire_bytes w @ t\<rparr> = Inr ((), \<lparr>br_full = f, br_rest = t\<rparr>)"
    if "w \<in> set (ti_witness i)" for w t
    using that assms by (simp add: skip_witness_item_def wire_bytes_def wf_in_def wire)
  then have "rd_times (length (ti_witness i)) skip_witness_item
      \<lparr>br_full = f, br_rest = concat (map wire_bytes (ti_witness i)) @ t\<rparr> =
      Inr (replicate (length (ti_witness i)) (), \<lparr>br_full = f, br_rest = t\<rparr>)"
    by (rule rd_times_skip)
  with assms show ?thesis by (simp add: skip_witness_def wire_witness_def wf_in_def wire)
qed

lemma wire_body_first:
  assumes "wf_tx t"
  shows "rd_peek2 \<lparr>br_full = f, br_rest = wire_body t @ r\<rparr> \<noteq> Some SEGWIT_MARKER_AND_FLAG"
proof -
  let ?n = "as_u64 (length (wt_inputs t))"
  have n: "unat ?n \<noteq> 0" using assms by (simp add: wf_tx_def)
  obtain b bs where cs: "encode_compact_size ?n = b # bs"
    using encode_compact_size_Cons by (meson neq_Nil_conv)
  have "b \<noteq> 0"
  proof (cases "?n \<le> COMPACT_SIZE_MAX_1")
    case True
    then have "unat ?n < 256" by (simp add: compact_size_consts word_le_nat_alt)
    then have "unat (ucast ?n :: u8) = unat ?n" by (simp add: unat_ucast_small)
    with n have "ucast ?n \<noteq> (0 :: u8)" by (auto simp: word_unat_eq_iff)
    then show ?thesis using True cs by (auto simp: encode_compact_size_def)
  next
    case False
    then show ?thesis using cs by (auto simp: encode_compact_size_def compact_size_consts split: if_splits)
  qed
  then show ?thesis
    by (simp add: wire_body_def cs rd_peek2_def SEGWIT_MARKER_AND_FLAG_def split: list.split)
qed

lemma read_version_wire:
  assumes "wf_tx t"
  shows "read_version_and_marker \<lparr>br_full = f, br_rest = wire_tx w t\<rparr> =
     Inr (wt_version t, w, \<lparr>br_full = f, br_rest = wire_body t @
       (if w then concat (map wire_witness (wt_inputs t)) else []) @ put_u32_le (wt_lock_time t)\<rparr>)"
proof (cases w)
  case True
  have "rd_peek2 \<lparr>br_full = f, br_rest = 0 # 1 # r\<rparr> = Some SEGWIT_MARKER_AND_FLAG" for r
    by (simp add: rd_peek2_def SEGWIT_MARKER_AND_FLAG_def)
  moreover have "rd_advance 2 x \<lparr>br_full = f, br_rest = 0 # 1 # r\<rparr> = Inr \<lparr>br_full = f, br_rest = r\<rparr>" for r x
    using rd_advance_append [of "[0, 1]" 2 x f r] by simp
  ultimately show ?thesis using True by (simp add: read_version_and_marker_def wire_tx_def wire tx_sizes)
next
  case False
  with wire_body_first [OF assms] show ?thesis
    by (simp add: read_version_and_marker_def wire_tx_def wire)
qed

lemma rd_times_inputs [wire]:
  "list_all wf_in is \<Longrightarrow> rd_times (length is) skip_input \<lparr>br_full = f, br_rest = concat (map wire_input is) @ r\<rparr>
     = Inr (replicate (length is) (), \<lparr>br_full = f, br_rest = r\<rparr>)"
  by (rule rd_times_skip) (simp add: wire list_all_iff)

lemma rd_times_witnesses [wire]:
  "list_all wf_in is \<Longrightarrow> rd_times (length is) skip_witness \<lparr>br_full = f, br_rest = concat (map wire_witness is) @ r\<rparr>
     = Inr (replicate (length is) (), \<lparr>br_full = f, br_rest = r\<rparr>)"
  by (rule rd_times_skip) (simp add: wire list_all_iff)

lemma rd_times_skip_outputs [wire]:
  "list_all wf_out os \<Longrightarrow> rd_times (length os) skip_output \<lparr>br_full = f, br_rest = concat (map wire_output os) @ r\<rparr>
     = Inr (replicate (length os) (), \<lparr>br_full = f, br_rest = r\<rparr>)"
  by (rule rd_times_skip) (simp add: wire list_all_iff)

lemma rd_times_outputs [wire]:
  "list_all wf_out os \<Longrightarrow> rd_times (length os) read_output \<lparr>br_full = f, br_rest = concat (map wire_output os) @ r\<rparr>
     = Inr (os, \<lparr>br_full = f, br_rest = r\<rparr>)"
  by (rule rd_times_append) (simp add: wire list_all_iff)

lemma read_lock_time_wire [wire]:
  "read_lock_time \<lparr>br_full = f, br_rest = put_u32_le l\<rparr> n = Inr (l, \<lparr>br_full = f, br_rest = []\<rparr>)"
  by (simp add: read_lock_time_def wire rd_at_end_def)

text \<open>The transaction id is the double SHA-256 of the transaction without its witnesses,
  whether the bytes given carry the segwit marker and witnesses or not: for every transaction the
  two serializations have the same id, and the decoder consumes every byte of either.\<close>

theorem txid_of_serialization:
  assumes "wf_tx t"
  shows "txid sha (wire_tx with_witness t) = Inr (sha256d sha (wire_tx False t))"
proof -
  let ?tx = "wire_tx with_witness t"
  let ?mid = "if with_witness then [0x00, 0x01 :: u8] else []"
  let ?tail = "(if with_witness then concat (map wire_witness (wt_inputs t)) else []) @ put_u32_le (wt_lock_time t)"
  have tx: "?tx = (put_u32_le (wt_version t) @ ?mid) @ wire_body t @ ?tail" by (simp add: wire_tx_def)
  have start: "rd_pos \<lparr>br_full = ?tx, br_rest = wire_body t @ ?tail\<rparr> = length (put_u32_le (wt_version t) @ ?mid)"
    by (simp only: rd_pos_def byte_reader.simps tx length_append)
  have body_end: "rd_pos \<lparr>br_full = ?tx, br_rest = ?tail\<rparr> =
      length (put_u32_le (wt_version t) @ ?mid) + length (wire_body t)"
    by (simp only: rd_pos_def byte_reader.simps tx length_append)
  have body: "take (length (wire_body t)) (drop (length (put_u32_le (wt_version t) @ ?mid)) ?tx) = wire_body t"
    unfolding tx by simp
  have wf: "list_all wf_in (wt_inputs t)" "list_all wf_out (wt_outputs t)"
    "length (wt_inputs t) < 2 ^ 64" "length (wt_outputs t) < 2 ^ 64" "wt_inputs t \<noteq> []"
    using assms by (auto simp: wf_tx_def)
  have some: "as_u64 (length (wt_inputs t)) \<noteq> 0" using wf by (auto simp: word_unat_eq_iff)
  have new: "rd_new ?tx = \<lparr>br_full = ?tx, br_rest = ?tx\<rparr>" by (simp add: rd_new_def)
  have witnesses: "bindr (if with_witness then skip_witnesses \<lparr>br_full = ?tx, br_rest = ?tail\<rparr> (length (wt_inputs t))
      else Inr \<lparr>br_full = ?tx, br_rest = ?tail\<rparr>) k = k \<lparr>br_full = ?tx, br_rest = put_u32_le (wt_lock_time t)\<rparr>" for k
    using wf by (simp add: skip_witnesses_def wire)
  have dropped: "wire_body t @ ?tail = encode_compact_size (as_u64 (length (wt_inputs t))) @
      concat (map wire_input (wt_inputs t)) @ encode_compact_size (as_u64 (length (wt_outputs t))) @
      concat (map wire_output (wt_outputs t)) @ ?tail"
    by (simp add: wire_body_def)
  show ?thesis
    unfolding txid_def new read_version_wire [OF assms]
    using wf some
    apply (simp only: tryq_simps prod.case Let_def start)
    apply (simp only: dropped wire tryq_simps prod.case unat_as_u64 if_False body_end witnesses)
    apply (simp only: add_diff_cancel_left' body)
    apply (simp add: wire_tx_def)
    done
qed

subsection \<open>Coinbases\<close>

definition null_outpoint :: bytes where
  "null_outpoint = replicate HASH_SIZE 0 @ NULL_OUTPOINT_INDEX"

definition coinbase_input :: "bytes \<Rightarrow> u32 \<Rightarrow> bytes list \<Rightarrow> tx_in" where
  "coinbase_input script sequence witness =
     \<lparr>ti_outpoint = null_outpoint, ti_script_sig = script, ti_sequence = sequence, ti_witness = witness\<rparr>"

definition coinbase_wire :: "coinbase_tx \<Rightarrow> bytes list \<Rightarrow> wire_transaction" where
  "coinbase_wire c witness =
     \<lparr>wt_version = ct_version c,
      wt_inputs = [coinbase_input (ct_script_sig c) (ct_sequence c) witness],
      wt_outputs = ct_outputs c, wt_lock_time = ct_lock_time c\<rparr>"

text \<open>Where the scriptSig starts: the version, the marker, the input count, the outpoint and the
  script's length come before it.\<close>

definition script_sig_start :: "bool \<Rightarrow> bytes \<Rightarrow> nat" where
  "script_sig_start with_witness script =
     (if with_witness then 2 else 0) + 41 + length (encode_compact_size (as_u64 (length script)))"

lemma length_null_outpoint [simp]: "length null_outpoint = OUTPOINT_SIZE"
  by (simp add: null_outpoint_def NULL_OUTPOINT_INDEX_def tx_sizes)

lemma length_wire_output: "MIN_OUTPUT_SIZE \<le> length (wire_output out)"
  using encode_compact_size_Cons [of "as_u64 (length (to_script_pubkey out))"]
  by (auto simp: wire_output_def encode_output_def tx_sizes Suc_le_eq)

lemma length_outputs: "length os * MIN_OUTPUT_SIZE \<le> length (concat (map wire_output os))"
proof (induction os)
  case (Cons out os)
  then show ?case using length_wire_output [of out] by simp
qed simp

lemma parse_coinbase_wire:
  assumes wf: "wf_tx (coinbase_wire c witness)"
    and at: "ct_script_sig_offset c = script_sig_start (ct_has_witness c) (ct_script_sig c)"
  shows "parse_coinbase (wire_tx (ct_has_witness c) (coinbase_wire c witness)) = Inr c"
proof -
  let ?t = "coinbase_wire c witness" and ?w = "ct_has_witness c" and ?s = "ct_script_sig c"
  let ?tx = "wire_tx ?w ?t"
  let ?wit = "if ?w then concat (map wire_witness (wt_inputs ?t)) else []"
  let ?outs = "concat (map wire_output (ct_outputs c))"
  let ?rest = "put_u32_le (ct_sequence c) @ encode_compact_size (as_u64 (length (ct_outputs c))) @
    ?outs @ ?wit @ put_u32_le (ct_lock_time c)"
  have t: "wt_version ?t = ct_version c" "wt_outputs ?t = ct_outputs c" "wt_lock_time ?t = ct_lock_time c"
    "wt_inputs ?t = [coinbase_input ?s (ct_sequence c) witness]"
    by (simp_all add: coinbase_wire_def)
  have lens: "length ?s < 2 ^ 64" "length (ct_outputs c) < 2 ^ 64" "list_all wf_out (ct_outputs c)"
    "wf_in (coinbase_input ?s (ct_sequence c) witness)"
    using wf by (simp_all add: wf_tx_def t) (simp add: wf_in_def coinbase_input_def)
  have body: "wire_body ?t @ r = encode_compact_size 1 @ null_outpoint @
      encode_compact_size (as_u64 (length ?s)) @ ?s @ put_u32_le (ct_sequence c) @
      encode_compact_size (as_u64 (length (ct_outputs c))) @ ?outs @ r" for r
    by (simp add: wire_body_def t wire_input_def coinbase_input_def wire_bytes_def as_u64_def)
  have tx: "?tx = put_u32_le (ct_version c) @ (if ?w then [0x00, 0x01] else []) @ encode_compact_size 1 @
      null_outpoint @ encode_compact_size (as_u64 (length ?s)) @ ?s @ ?rest"
    by (simp add: wire_tx_def body t)
  have offset: "rd_pos \<lparr>br_full = ?tx, br_rest = ?s @ ?rest\<rparr> = ct_script_sig_offset c"
    unfolding rd_pos_def at script_sig_start_def byte_reader.simps
    by (subst tx) (simp add: tx_sizes encode_compact_size_def compact_size_consts)
  have room: "\<not> length (?outs @ ?wit @ put_u32_le (ct_lock_time c))
      < min (length (ct_outputs c) * MIN_OUTPUT_SIZE) (2 ^ 64 - 1)"
    using length_outputs [of "ct_outputs c"] by simp
  have null: "take HASH_SIZE null_outpoint = replicate HASH_SIZE 0"
    "drop HASH_SIZE null_outpoint = NULL_OUTPOINT_INDEX" by (simp_all add: null_outpoint_def)
  have witnesses: "bindr (if ?w then skip_witnesses \<lparr>br_full = ?tx, br_rest = ?wit @ put_u32_le (ct_lock_time c)\<rparr> 1
      else Inr \<lparr>br_full = ?tx, br_rest = ?wit @ put_u32_le (ct_lock_time c)\<rparr>) k =
      k \<lparr>br_full = ?tx, br_rest = put_u32_le (ct_lock_time c)\<rparr>" for k
    using lens(4) by (simp add: skip_witnesses_def t wire)
  have new: "rd_new ?tx = \<lparr>br_full = ?tx, br_rest = ?tx\<rparr>" by (simp add: rd_new_def)
  have self: "\<lparr>ct_version = ct_version c, ct_script_sig_offset = ct_script_sig_offset c,
      ct_script_sig = ?s, ct_sequence = ct_sequence c, ct_outputs = ct_outputs c,
      ct_lock_time = ct_lock_time c, ct_has_witness = ?w\<rparr> = c" by simp
  show ?thesis
    unfolding parse_coinbase_def new read_version_wire [OF wf] t(1,3) body
    using lens
    by (simp only: wire tryq_simps prod.case Let_def unat_as_u64 length_null_outpoint null
        simp_thms if_False if_True offset room byte_reader.simps witnesses self)
qed

lemma txid_of_serialization_witness:
  "txid (\<lambda>bs. bs) (wire_tx True (coinbase_wire
       \<lparr>ct_version = 1, ct_script_sig_offset = 0, ct_script_sig = [1, 2], ct_sequence = 3,
        ct_outputs = [\<lparr>to_value = 5, to_script_pubkey = [0x51]\<rparr>], ct_lock_time = 0,
        ct_has_witness = True\<rparr> [[7, 8]])) =
   Inr (wire_tx False (coinbase_wire
       \<lparr>ct_version = 1, ct_script_sig_offset = 0, ct_script_sig = [1, 2], ct_sequence = 3,
        ct_outputs = [\<lparr>to_value = 5, to_script_pubkey = [0x51]\<rparr>], ct_lock_time = 0,
        ct_has_witness = True\<rparr> [[7, 8]]))"
  by (subst txid_of_serialization)
    (simp_all add: wf_tx_def coinbase_wire_def wf_in_def wf_out_def coinbase_input_def sha256d_def)

end
