(* ===== verification/Messages.thy ===== *)
theory Messages
  imports Transaction
begin

text \<open>
  The pieces every message of a connection is built from (core/src/datum/messages.rs) and the short
  messages of messages/abw.rs, messages/coinbaser.rs and messages/share_response.rs.  An encoder is
  a function of the record it writes, a decoder of the bytes; each is shown to be the inverse of
  the other on what its partner produces.
\<close>

definition STRUCT_END :: u8 where "STRUCT_END = 0xFE"

definition CONFIG :: u8 where "CONFIG = 0x99"
definition COINBASER :: u8 where "COINBASER = 0x11"
definition SHARE_RESPONSE :: u8 where "SHARE_RESPONSE = 0x8F"
definition BLOCKNOTIFY :: u8 where "BLOCKNOTIFY = 0xF9"
definition MIGRATION :: u8 where "MIGRATION = 0xA4"
definition COINBASER_REQUEST :: u8 where "COINBASER_REQUEST = 0x10"
definition SUBMIT_POW :: u8 where "SUBMIT_POW = 0x27"
definition BLOCKNOTIFY_MESSAGE :: bytes where "BLOCKNOTIFY_MESSAGE = [BLOCKNOTIFY]"

datatype msg_error =
    MsgTruncated truncated
  | BadVersion u8
  | BadFlags u8
  | BadStatus u8
  | BadSlot u8
  | WrongMessage (want: u8) (got: u8)
  | BadTerminator
  | Malformed string
  | TooLong string nat
  | OutOfRange string nat
  | MinDifficultyNotPowerOfTwo u64
  | PrimeIdTooWide u64
  | SplitExceedsValue (split_total: u64) (split_value: u64)
  | BadExtranonceSize u8
  | BadUsername
  | BadMerkleCount u8
  | UnknownSection u8
  | BadBlake2bSection
  | MissingBlake2bSection

definition open_message :: "bytes \<Rightarrow> u8 \<Rightarrow> msg_error + byte_reader" where
  "open_message data subcmd =
     tryq MsgTruncated (rd_u8 ''subcommand'' (rd_new data)) (\<lambda>(got, c).
     if got \<noteq> subcmd then Inl (WrongMessage subcmd got) else Inr c)"

definition read_terminator :: "byte_reader \<Rightarrow> msg_error + byte_reader" where
  "read_terminator c =
     tryq MsgTruncated (rd_u8 ''terminator'' c) (\<lambda>(b, c).
     if b \<noteq> STRUCT_END then Inl BadTerminator else Inr c)"

definition read_final_terminator :: "byte_reader \<Rightarrow> msg_error + byte_reader" where
  "read_final_terminator c =
     bindr (read_terminator c) (\<lambda>c.
     if \<not> rd_at_end c then Inl (Malformed ''bytes after the terminator'') else Inr c)"

lemma open_message_Cons [wire]:
  "open_message (subcmd # data) subcmd = Inr \<lparr>br_full = subcmd # data, br_rest = data\<rparr>"
  by (simp add: open_message_def rd_new_def wire)

lemma read_terminator_Cons [wire]:
  "read_terminator \<lparr>br_full = f, br_rest = STRUCT_END # t\<rparr> = Inr \<lparr>br_full = f, br_rest = t\<rparr>"
  by (simp add: read_terminator_def wire)

lemma read_final_terminator_end [wire]:
  "read_final_terminator \<lparr>br_full = f, br_rest = [STRUCT_END]\<rparr> = Inr \<lparr>br_full = f, br_rest = []\<rparr>"
  by (simp add: read_final_terminator_def wire rd_at_end_def)

lemma open_messageD:
  "open_message data subcmd = Inr c \<Longrightarrow> data = subcmd # br_rest c"
  by (auto simp: open_message_def tryq_Inr_iff dest!: rd_restD split: if_splits)

lemma read_terminatorD:
  "read_terminator c = Inr c' \<Longrightarrow> br_rest c = STRUCT_END # br_rest c'"
  by (auto simp: read_terminator_def tryq_Inr_iff dest!: rd_restD split: if_splits)

lemma read_final_terminatorD:
  "read_final_terminator c = Inr c' \<Longrightarrow> br_rest c = [STRUCT_END]"
  by (auto simp: read_final_terminator_def tryq_Inr_iff rd_at_end_def dest!: read_terminatorD
      split: if_splits)

section \<open>Anti-block-withholding\<close>

definition DRAFT_REVISION :: u8 where "DRAFT_REVISION = 0"
definition ASSIGNMENT_SLOTS :: u8 where "ASSIGNMENT_SLOTS = 16"
definition SHARE_TARGET_BASE_BITS :: u8 where "SHARE_TARGET_BASE_BITS = 32"
definition ASSIGNMENT_ACTIVE :: u8 where "ASSIGNMENT_ACTIVE = 0x01"
definition CANDIDATE_RECEIPT :: u8 where "CANDIDATE_RECEIPT = 0xA5"
definition ACTIVATION :: u8 where "ACTIVATION = 0xA6"
definition CANDIDATE_RELEASE :: u8 where "CANDIDATE_RELEASE = 0xA7"
definition ASSIGNMENT_NOTICE :: u8 where "ASSIGNMENT_NOTICE = 0xA8"
definition REVEAL :: u8 where "REVEAL = 0xA9"

definition clear_bits :: "u8 \<Rightarrow> u8" where
  "clear_bits target_byte = word_of_nat (min (unat SHARE_TARGET_BASE_BITS + unat target_byte) 255)"

record assignment_notice =
  an_active :: bool
  an_slot :: u8
  an_key_hash :: bytes

record activation =
  ac_slot :: u8

record candidate_ref =
  cr_slot :: u8
  cr_raw_pow_hash_le :: bytes

record reveal =
  rv_slot :: u8
  rv_xor_key :: bytes

definition abw_message :: "u8 \<Rightarrow> bytes \<Rightarrow> bytes" where
  "abw_message subcmd body = subcmd # DRAFT_REVISION # body @ [STRUCT_END]"

definition abw_open :: "bytes \<Rightarrow> u8 \<Rightarrow> msg_error + byte_reader" where
  "abw_open data subcmd =
     bindr (open_message data subcmd) (\<lambda>c.
     tryq MsgTruncated (rd_u8 ''revision'' c) (\<lambda>(rev, c).
     if rev \<noteq> DRAFT_REVISION then Inl (BadVersion rev) else Inr c))"

definition slot_checked :: "u8 \<Rightarrow> msg_error + u8" where
  "slot_checked slot = (if ASSIGNMENT_SLOTS \<le> slot then Inl (BadSlot slot) else Inr slot)"

definition encode_notice :: "assignment_notice \<Rightarrow> bytes" where
  "encode_notice a =
     abw_message ASSIGNMENT_NOTICE
       ([if an_active a then ASSIGNMENT_ACTIVE else 0, an_slot a] @ an_key_hash a)"

definition decode_notice :: "bytes \<Rightarrow> msg_error + assignment_notice" where
  "decode_notice data =
     bindr (abw_open data ASSIGNMENT_NOTICE) (\<lambda>c.
     tryq MsgTruncated (rd_u8 ''flags'' c) (\<lambda>(flags, c).
     if flags AND NOT ASSIGNMENT_ACTIVE \<noteq> 0 then Inl (BadFlags flags)
     else tryq MsgTruncated (rd_u8 ''slot'' c) (\<lambda>(slot, c).
     bindr (slot_checked slot) (\<lambda>slot.
     tryq MsgTruncated (rd_arr 32 ''key hash'' c) (\<lambda>(key_hash, c).
     bindr (read_final_terminator c) (\<lambda>_.
     Inr \<lparr>an_active = (flags AND ASSIGNMENT_ACTIVE \<noteq> 0), an_slot = slot,
          an_key_hash = key_hash\<rparr>))))))"

definition encode_activation :: "activation \<Rightarrow> bytes" where
  "encode_activation a = abw_message ACTIVATION [ac_slot a]"

definition decode_activation :: "bytes \<Rightarrow> msg_error + activation" where
  "decode_activation data =
     bindr (abw_open data ACTIVATION) (\<lambda>c.
     tryq MsgTruncated (rd_u8 ''slot'' c) (\<lambda>(slot, c).
     bindr (slot_checked slot) (\<lambda>slot.
     bindr (read_final_terminator c) (\<lambda>_. Inr \<lparr>ac_slot = slot\<rparr>))))"

definition candidate_ref_new :: "u8 \<Rightarrow> bytes \<Rightarrow> candidate_ref" where
  "candidate_ref_new slot raw_pow_hash =
     \<lparr>cr_slot = slot, cr_raw_pow_hash_le = reversed raw_pow_hash\<rparr>"

definition encode_candidate :: "candidate_ref \<Rightarrow> u8 \<Rightarrow> bytes" where
  "encode_candidate r subcmd = abw_message subcmd (cr_slot r # cr_raw_pow_hash_le r)"

definition decode_candidate :: "bytes \<Rightarrow> u8 \<Rightarrow> msg_error + candidate_ref" where
  "decode_candidate data subcmd =
     bindr (abw_open data subcmd) (\<lambda>c.
     tryq MsgTruncated (rd_u8 ''slot'' c) (\<lambda>(slot, c).
     bindr (slot_checked slot) (\<lambda>slot.
     tryq MsgTruncated (rd_arr 32 ''raw pow hash'' c) (\<lambda>(raw_pow_hash_le, c).
     bindr (read_final_terminator c) (\<lambda>_.
     Inr \<lparr>cr_slot = slot, cr_raw_pow_hash_le = raw_pow_hash_le\<rparr>)))))"

definition encode_reveal :: "reveal \<Rightarrow> bytes" where
  "encode_reveal r = abw_message REVEAL (rv_slot r # rv_xor_key r)"

definition decode_reveal :: "bytes \<Rightarrow> msg_error + reveal" where
  "decode_reveal data =
     bindr (abw_open data REVEAL) (\<lambda>c.
     tryq MsgTruncated (rd_u8 ''slot'' c) (\<lambda>(slot, c).
     bindr (slot_checked slot) (\<lambda>slot.
     tryq MsgTruncated (rd_arr 16 ''xor key'' c) (\<lambda>(xor_key, c).
     bindr (read_final_terminator c) (\<lambda>_.
     Inr \<lparr>rv_slot = slot, rv_xor_key = xor_key\<rparr>)))))"

lemmas abw_consts = DRAFT_REVISION_def ASSIGNMENT_SLOTS_def ASSIGNMENT_ACTIVE_def

lemma active_flag:
  "(flags :: u8) AND NOT ASSIGNMENT_ACTIVE = 0 \<longleftrightarrow> flags = (if flags AND ASSIGNMENT_ACTIVE \<noteq> 0 then ASSIGNMENT_ACTIVE else 0)"
proof -
  have "flags = (flags AND NOT 1) OR (flags AND 1)" by (rule bit_word_eqI) (auto simp: bit_simps)
  moreover have "flags AND 1 = of_bool (odd flags)" by (rule and_one_eq [unfolded mod_2_eq_odd])
  ultimately show ?thesis
    by (cases "odd flags") (auto simp: ASSIGNMENT_ACTIVE_def)
qed

lemma slot_checked_Inr [simp]: "slot_checked s = Inr s' \<longleftrightarrow> s' = s \<and> s < ASSIGNMENT_SLOTS"
  by (auto simp: slot_checked_def)

lemma slot_checked_ok [wire]: "s < ASSIGNMENT_SLOTS \<Longrightarrow> slot_checked s = Inr s"
  by simp

lemma abw_open_message [wire]:
  "abw_open (abw_message subcmd body) subcmd =
     Inr \<lparr>br_full = abw_message subcmd body, br_rest = body @ [STRUCT_END]\<rparr>"
  by (simp add: abw_open_def abw_message_def wire)

lemma abw_openD: "abw_open data subcmd = Inr c \<Longrightarrow> data = subcmd # DRAFT_REVISION # br_rest c"
  by (auto simp: abw_open_def tryq_Inr_iff dest!: open_messageD rd_restD split: if_splits)

lemmas messageD = abw_openD open_messageD read_terminatorD read_final_terminatorD rd_restD

lemma decode_notice_exact:
  "decode_notice data = Inr a \<longleftrightarrow>
     an_slot a < ASSIGNMENT_SLOTS \<and> length (an_key_hash a) = 32 \<and> data = encode_notice a"
proof
  assume "decode_notice data = Inr a"
  then show "an_slot a < ASSIGNMENT_SLOTS \<and> length (an_key_hash a) = 32 \<and> data = encode_notice a"
    by (auto simp: decode_notice_def encode_notice_def abw_message_def tryq_Inr_iff active_flag
        dest!: messageD split: if_splits)
next
  assume "an_slot a < ASSIGNMENT_SLOTS \<and> length (an_key_hash a) = 32 \<and> data = encode_notice a"
  then show "decode_notice data = Inr a"
    by (cases a) (auto simp: decode_notice_def encode_notice_def wire ASSIGNMENT_ACTIVE_def)
qed

lemma decode_activation_exact:
  "decode_activation data = Inr a \<longleftrightarrow> ac_slot a < ASSIGNMENT_SLOTS \<and> data = encode_activation a"
proof
  assume "decode_activation data = Inr a"
  then show "ac_slot a < ASSIGNMENT_SLOTS \<and> data = encode_activation a"
    by (auto simp: decode_activation_def encode_activation_def abw_message_def tryq_Inr_iff
        dest!: messageD)
qed (cases a, auto simp: decode_activation_def encode_activation_def wire)

lemma decode_candidate_exact:
  "decode_candidate data subcmd = Inr r \<longleftrightarrow>
     cr_slot r < ASSIGNMENT_SLOTS \<and> length (cr_raw_pow_hash_le r) = 32 \<and> data = encode_candidate r subcmd"
proof
  assume "decode_candidate data subcmd = Inr r"
  then show "cr_slot r < ASSIGNMENT_SLOTS \<and> length (cr_raw_pow_hash_le r) = 32 \<and> data = encode_candidate r subcmd"
    by (auto simp: decode_candidate_def encode_candidate_def abw_message_def tryq_Inr_iff
        dest!: messageD)
qed (cases r, auto simp: decode_candidate_def encode_candidate_def wire)

lemma decode_reveal_exact:
  "decode_reveal data = Inr r \<longleftrightarrow>
     rv_slot r < ASSIGNMENT_SLOTS \<and> length (rv_xor_key r) = 16 \<and> data = encode_reveal r"
proof
  assume "decode_reveal data = Inr r"
  then show "rv_slot r < ASSIGNMENT_SLOTS \<and> length (rv_xor_key r) = 16 \<and> data = encode_reveal r"
    by (auto simp: decode_reveal_def encode_reveal_def abw_message_def tryq_Inr_iff
        dest!: messageD)
qed (cases r, auto simp: decode_reveal_def encode_reveal_def wire)

text \<open>Each anti-block-withholding message has exactly one encoding: a byte string decodes to a
  message precisely when it is the encoding of that message and the message names one of the
  sixteen slots, so nothing with other flags, another revision, a slot out of range, a missing
  terminator or bytes after it is accepted, and nothing an honest peer sends is refused.\<close>

theorem abw_messages_exact:
  "(decode_notice data = Inr n \<longleftrightarrow>
     unat (an_slot n) < 16 \<and> length (an_key_hash n) = 32 \<and> data = encode_notice n)
   \<and> (decode_activation data = Inr a \<longleftrightarrow> unat (ac_slot a) < 16 \<and> data = encode_activation a)
   \<and> (decode_candidate data subcmd = Inr c \<longleftrightarrow>
     unat (cr_slot c) < 16 \<and> length (cr_raw_pow_hash_le c) = 32 \<and> data = encode_candidate c subcmd)
   \<and> (decode_reveal data = Inr r \<longleftrightarrow>
     unat (rv_slot r) < 16 \<and> length (rv_xor_key r) = 16 \<and> data = encode_reveal r)"
  by (intro conjI)
    (simp_all add: decode_notice_exact decode_activation_exact decode_candidate_exact
      decode_reveal_exact ASSIGNMENT_SLOTS_def word_less_nat_alt)

section \<open>The coinbaser exchange\<close>

definition MAX_COINBASER_BLOB_LEN :: nat where "MAX_COINBASER_BLOB_LEN = 65535"
definition MIN_COINBASER_OUTPUT_SCRIPT_LEN :: nat where "MIN_COINBASER_OUTPUT_SCRIPT_LEN = 2"
definition MAX_COINBASER_OUTPUT_SCRIPT_LEN :: nat where "MAX_COINBASER_OUTPUT_SCRIPT_LEN = 64"
definition MAX_COINBASER_OUTPUTS :: nat where "MAX_COINBASER_OUTPUTS = 1024"

record coinbaser_request =
  rq_value :: u64
  rq_prev_hash :: bytes

definition encode_request :: "coinbaser_request \<Rightarrow> bytes" where
  "encode_request q = COINBASER_REQUEST # put_u64_le (rq_value q) @ rq_prev_hash q @ [STRUCT_END]"

definition decode_request :: "bytes \<Rightarrow> msg_error + coinbaser_request" where
  "decode_request data =
     bindr (open_message data COINBASER_REQUEST) (\<lambda>c.
     tryq MsgTruncated (rd_u64 ''value'' c) (\<lambda>(value, c).
     tryq MsgTruncated (rd_arr 32 ''prev hash'' c) (\<lambda>(prev_hash, c).
     bindr (read_terminator c) (\<lambda>_.
     Inr \<lparr>rq_value = value, rq_prev_hash = prev_hash\<rparr>))))"

record coinbaser_response =
  cb_value :: u64
  cb_coinbaser_id :: u8
  cb_outputs :: "tx_out list"

text \<open>The loop over the outputs: the blob grows and the total saturates.\<close>

fun encode_outputs :: "tx_out list \<Rightarrow> bytes \<Rightarrow> u64 \<Rightarrow> msg_error + (bytes \<times> u64)" where
  "encode_outputs [] blob paid = Inr (blob, paid)"
| "encode_outputs (out # outs) blob paid =
     (let n = length (to_script_pubkey out) in
      if n < MIN_COINBASER_OUTPUT_SCRIPT_LEN \<or> MAX_COINBASER_OUTPUT_SCRIPT_LEN < n
        then Inl (OutOfRange ''output script'' n)
      else encode_outputs outs
             (blob @ put_u64_le (to_value out) @ [word_of_nat n] @ to_script_pubkey out)
             (sat_add paid (to_value out)))"

definition encode_response :: "coinbaser_response \<Rightarrow> msg_error + bytes" where
  "encode_response r =
     (if MAX_COINBASER_OUTPUTS < length (cb_outputs r)
        then Inl (TooLong ''coinbaser outputs'' (length (cb_outputs r)))
      else bindr (encode_outputs (cb_outputs r) [cb_coinbaser_id r] 0) (\<lambda>(blob, paid).
        if cb_value r < paid then Inl (SplitExceedsValue paid (cb_value r))
        else if MAX_COINBASER_BLOB_LEN < length blob then Inl (TooLong ''coinbaser blob'' (length blob))
        else Inr (COINBASER # put_u64_le (cb_value r) @ put_u32_le (as_u32 (length blob)) @ blob)))"

function decode_outputs :: "u64 \<Rightarrow> byte_reader \<Rightarrow> tx_out list \<Rightarrow> u64 \<Rightarrow> msg_error + tx_out list" where
  "decode_outputs value b outputs paid =
     (if rd_at_end b then Inr outputs
      else tryq MsgTruncated (rd_u64 ''output value'' b) (\<lambda>(v, b).
        if value < sat_add paid v then Inr outputs
        else tryq MsgTruncated (rd_u8 ''script length'' b) (\<lambda>(slen, b).
          if unat slen < MIN_COINBASER_OUTPUT_SCRIPT_LEN \<or> MAX_COINBASER_OUTPUT_SCRIPT_LEN < unat slen
            then Inl (OutOfRange ''output script'' (unat slen))
          else tryq MsgTruncated (rd_take (unat slen) ''output script'' b) (\<lambda>(script, b).
            let outputs = outputs @ [\<lparr>to_value = v, to_script_pubkey = script\<rparr>] in
            if MAX_COINBASER_OUTPUTS \<le> length outputs then Inr outputs
            else decode_outputs value b outputs (paid + v)))))"
  by pat_completeness auto
termination
  by (relation "measure (\<lambda>(value, b, outputs, paid). length (br_rest b))") (auto dest!: rd_restD)

declare decode_outputs.simps [simp del]

definition decode_response :: "bytes \<Rightarrow> msg_error + coinbaser_response" where
  "decode_response data =
     bindr (open_message data COINBASER) (\<lambda>c.
     tryq MsgTruncated (rd_u64 ''value'' c) (\<lambda>(value, c).
     tryq MsgTruncated (rd_u32 ''blob length'' c) (\<lambda>(blob_len, c).
     if unat blob_len < 1 \<or> MAX_COINBASER_BLOB_LEN < unat blob_len
       then Inl (OutOfRange ''coinbaser blob'' (unat blob_len))
     else tryq MsgTruncated (rd_take (unat blob_len) ''blob'' c) (\<lambda>(blob, c).
     tryq MsgTruncated (rd_u8 ''coinbaser id'' (rd_new blob)) (\<lambda>(coinbaser_id, b).
     bindr (decode_outputs value b [] 0) (\<lambda>outputs.
     Inr \<lparr>cb_value = value, cb_coinbaser_id = coinbaser_id, cb_outputs = outputs\<rparr>))))))"

definition payable :: "tx_out \<Rightarrow> bool" where
  "payable out \<longleftrightarrow> MIN_COINBASER_OUTPUT_SCRIPT_LEN \<le> length (to_script_pubkey out) \<and>
     length (to_script_pubkey out) \<le> MAX_COINBASER_OUTPUT_SCRIPT_LEN"

definition output_bytes :: "tx_out \<Rightarrow> bytes" where
  "output_bytes out =
     put_u64_le (to_value out) @ [word_of_nat (length (to_script_pubkey out))] @ to_script_pubkey out"

definition outputs_total :: "tx_out list \<Rightarrow> nat" where
  "outputs_total outs = sum_list (map (unat \<circ> to_value) outs)"

lemma outputs_total_simps [simp]:
  "outputs_total [] = 0"
  "outputs_total (out # outs) = unat (to_value out) + outputs_total outs"
  "outputs_total (outs @ outs') = outputs_total outs + outputs_total outs'"
  by (simp_all add: outputs_total_def)

lemmas coinbaser_consts = MIN_COINBASER_OUTPUT_SCRIPT_LEN_def MAX_COINBASER_OUTPUT_SCRIPT_LEN_def
  MAX_COINBASER_OUTPUTS_def MAX_COINBASER_BLOB_LEN_def

lemma encode_outputs_Inr:
  "encode_outputs outs blob paid = Inr (blob', paid') \<longleftrightarrow>
     list_all payable outs \<and> blob' = blob @ concat (map output_bytes outs) \<and>
     paid' = word_of_nat (min (unat paid + outputs_total outs) (2 ^ 64 - 1))"
proof (induction outs arbitrary: blob paid)
  case Nil
  have "min (unat paid) (2 ^ 64 - 1) = unat paid" using unat_word_lt(4) [of paid] by simp
  then show ?case by auto
next
  case (Cons out outs)
  have "min (unat (sat_add paid (to_value out)) + outputs_total outs) (2 ^ 64 - 1) =
        min (unat paid + outputs_total (out # outs)) (2 ^ 64 - 1)"
    by (simp add: unat_sat_add min_def)
  with Cons show ?case
    by (auto simp: Let_def payable_def output_bytes_def not_less)
qed

lemma unat_saturated: "unat (word_of_nat (min n (2 ^ 64 - 1)) :: u64) = min n (2 ^ 64 - 1)"
  by (simp add: unat_of_nat min_def)

lemma unat_script_len:
  "payable out \<Longrightarrow> unat (word_of_nat (length (to_script_pubkey out)) :: u8) = length (to_script_pubkey out)"
  by (simp add: payable_def coinbaser_consts unat_of_nat)

lemma decode_outputs_wire:
  assumes "list_all payable outs" "length pre + length outs \<le> MAX_COINBASER_OUTPUTS"
    and "unat value = 2 ^ 64 - 1 \<or> unat paid + outputs_total outs \<le> unat value"
  shows "decode_outputs value \<lparr>br_full = f, br_rest = concat (map output_bytes outs)\<rparr> pre paid = Inr (pre @ outs)"
  using assms
proof (induction outs arbitrary: pre paid)
  case Nil
  then show ?case by (simp add: decode_outputs.simps rd_at_end_def)
next
  case (Cons out outs)
  have len: "unat (word_of_nat (length (to_script_pubkey out)) :: u8) = length (to_script_pubkey out)"
    using Cons.prems(1) by (simp add: unat_script_len)
  have fits: "\<not> value < sat_add paid (to_value out)"
    using Cons.prems(3) unat_word_lt(4) [of "value"] by (auto simp: word_less_nat_alt unat_sat_add)
  have next_paid: "unat value = 2 ^ 64 - 1 \<or> unat (paid + to_value out) + outputs_total outs \<le> unat value"
  proof (cases "unat value = 2 ^ 64 - 1")
    case False
    with Cons.prems(3) have "unat paid + unat (to_value out) + outputs_total outs \<le> unat value" by simp
    moreover from this have "unat (paid + to_value out) = unat paid + unat (to_value out)"
      using unat_word_lt(4) [of "value"] by (subst unat_add_lem [THEN iffD1]) simp_all
    ultimately show ?thesis by simp
  qed simp
  have at_end: "\<not> rd_at_end \<lparr>br_full = f, br_rest = concat (map output_bytes (out # outs))\<rparr>"
    by (simp add: rd_at_end_def output_bytes_def)
  have rest: "concat (map output_bytes (out # outs)) = put_u64_le (to_value out) @
      word_of_nat (length (to_script_pubkey out)) # to_script_pubkey out @ concat (map output_bytes outs)"
    by (simp add: output_bytes_def)
  show ?case
  proof (cases "MAX_COINBASER_OUTPUTS \<le> Suc (length pre)")
    case True
    with Cons.prems(2) have "outs = []" by (cases outs) simp_all
    with True Cons.prems(1) at_end fits len rest show ?thesis
      by (subst decode_outputs.simps) (simp add: wire payable_def)
  next
    case False
    have self: "\<lparr>to_value = to_value out, to_script_pubkey = to_script_pubkey out\<rparr> = out" by simp
    have "decode_outputs value \<lparr>br_full = f, br_rest = concat (map output_bytes outs)\<rparr>
        (pre @ [\<lparr>to_value = to_value out, to_script_pubkey = to_script_pubkey out\<rparr>])
        (paid + to_value out) = Inr ((pre @ [out]) @ outs)"
      unfolding self using Cons.prems next_paid by (intro Cons.IH) simp_all
    with False Cons.prems(1) at_end fits len rest show ?thesis
      by (subst decode_outputs.simps) (simp add: wire payable_def)
  qed
qed

lemma length_output_bytes: "payable out \<Longrightarrow> 1 \<le> length (output_bytes out)"
  by (simp add: output_bytes_def)

text \<open>A split the pool encodes is the split the gateway decodes: same value, same id, the same
  outputs in the same order.\<close>

theorem coinbaser_response_roundtrip:
  assumes "encode_response r = Inr data"
  shows "decode_response data = Inr r"
proof -
  let ?outs = "cb_outputs r" and ?blob = "cb_coinbaser_id r # concat (map output_bytes (cb_outputs r))"
  let ?paid = "word_of_nat (min (outputs_total ?outs) (2 ^ 64 - 1)) :: u64"
  have few: "length ?outs \<le> MAX_COINBASER_OUTPUTS"
    using assms by (simp add: encode_response_def split: if_splits)
  obtain blob paid where enc: "encode_outputs ?outs [cb_coinbaser_id r] 0 = Inr (blob, paid)"
    using assms few by (auto simp: encode_response_def elim!: tryq_InrE)
  then have ok: "list_all payable ?outs" and blob: "blob = ?blob" and paid: "paid = ?paid"
    by (simp_all add: encode_outputs_Inr)
  have small: "?paid \<le> cb_value r" "length ?blob \<le> MAX_COINBASER_BLOB_LEN"
    and data: "data = COINBASER # put_u64_le (cb_value r) @ put_u32_le (as_u32 (length ?blob)) @ ?blob"
    using assms few enc blob paid by (simp_all add: encode_response_def not_less split: if_splits)
  have len: "unat (as_u32 (length ?blob)) = length ?blob"
    using small(2) by (simp add: unat_cast coinbaser_consts)
  have "unat (cb_value r) = 2 ^ 64 - 1 \<or> unat (0::u64) + outputs_total ?outs \<le> unat (cb_value r)"
    using small(1) unat_word_lt(4) [of "cb_value r"] by (auto simp: word_le_nat_alt unat_saturated [simplified])
  then have "decode_outputs (cb_value r) \<lparr>br_full = ?blob, br_rest = concat (map output_bytes ?outs)\<rparr> [] 0 = Inr ?outs"
    using decode_outputs_wire [OF ok, of "[]" "cb_value r" 0 ?blob] few by simp
  then show ?thesis
    using small(2) len
    by (simp add: decode_response_def data wire rd_new_def not_less)
qed

lemma coinbaser_response_roundtrip_witness:
  "decode_response (COINBASER # put_u64_le 9 @ put_u32_le 12 @ [3] @ put_u64_le 8 @ [2, 0x51, 0x52]) =
     Inr \<lparr>cb_value = 9, cb_coinbaser_id = 3,
          cb_outputs = [\<lparr>to_value = 8, to_script_pubkey = [0x51, 0x52]\<rparr>]\<rparr>"
  by (rule coinbaser_response_roundtrip)
    (simp add: encode_response_def coinbaser_consts sat_add_def as_u32_def)

lemma decode_outputs_step:
  assumes "decode_outputs limit b pre paid = Inr outs" "\<not> rd_at_end b"
    and "rd_u64 ''output value'' b = Inr (v, b1)" "\<not> limit < sat_add paid v"
  obtains slen b2 script b3 where "rd_u8 ''script length'' b1 = Inr (slen, b2)"
    and "\<not> (unat slen < MIN_COINBASER_OUTPUT_SCRIPT_LEN \<or> MAX_COINBASER_OUTPUT_SCRIPT_LEN < unat slen)"
    and "rd_take (unat slen) ''output script'' b2 = Inr (script, b3)"
    and "(if MAX_COINBASER_OUTPUTS \<le> length (pre @ [\<lparr>to_value = v, to_script_pubkey = script\<rparr>])
       then Inr (pre @ [\<lparr>to_value = v, to_script_pubkey = script\<rparr>])
       else decode_outputs limit b3 (pre @ [\<lparr>to_value = v, to_script_pubkey = script\<rparr>]) (paid + v)) = Inr outs"
proof -
  from assms obtain slen b2 where b2: "rd_u8 ''script length'' b1 = Inr (slen, b2)"
    by (auto simp: decode_outputs.simps [of limit b] elim!: tryq_InrE)
  have slen: "\<not> (unat slen < MIN_COINBASER_OUTPUT_SCRIPT_LEN \<or> MAX_COINBASER_OUTPUT_SCRIPT_LEN < unat slen)"
  proof
    assume "unat slen < MIN_COINBASER_OUTPUT_SCRIPT_LEN \<or> MAX_COINBASER_OUTPUT_SCRIPT_LEN < unat slen"
    with assms b2 show False by (simp add: decode_outputs.simps [of limit b])
  qed
  with assms b2 obtain script b3 where b3: "rd_take (unat slen) ''output script'' b2 = Inr (script, b3)"
    by (cases "rd_take (unat slen) ''output script'' b2") (auto simp: decode_outputs.simps [of limit b])
  show thesis
    by (rule that [OF b2 slen b3]) (use assms b2 slen b3 in \<open>simp add: decode_outputs.simps [of limit b] Let_def\<close>)
qed

lemma decode_outputs_sound:
  assumes "decode_outputs limit b pre paid = Inr outs"
    and "unat limit < 2 ^ 64 - 1" "outputs_total pre = unat paid" "unat paid \<le> unat limit"
    and "list_all payable pre" "length pre < MAX_COINBASER_OUTPUTS"
  shows "outputs_total outs \<le> unat limit \<and> list_all payable outs \<and> length outs \<le> MAX_COINBASER_OUTPUTS"
  using assms
proof (induction limit b pre paid rule: decode_outputs.induct)
  case (1 limit b pre paid)
  show ?case
  proof (cases "rd_at_end b")
    case True
    with 1 show ?thesis by (simp add: decode_outputs.simps [of limit b])
  next
    case False
    from "1.prems"(1) False obtain v b1 where v: "rd_u64 ''output value'' b = Inr (v, b1)"
      by (auto simp: decode_outputs.simps [of limit b] elim!: tryq_InrE)
    show ?thesis
    proof (cases "limit < sat_add paid v")
      case True
      with "1.prems" False v show ?thesis by (simp add: decode_outputs.simps [of limit b])
    next
      case fits: False
      have sum: "unat (paid + v) = unat paid + unat v" "unat paid + unat v \<le> unat limit"
        using fits "1.prems"(2)
        by (auto simp: word_less_nat_alt unat_sat_add not_less unat_word_ariths min_def split: if_splits)
      obtain slen b2 script b3 where b2: "rd_u8 ''script length'' b1 = Inr (slen, b2)"
        and slen: "\<not> (unat slen < MIN_COINBASER_OUTPUT_SCRIPT_LEN \<or> MAX_COINBASER_OUTPUT_SCRIPT_LEN < unat slen)"
        and b3: "rd_take (unat slen) ''output script'' b2 = Inr (script, b3)"
        and step: "(if MAX_COINBASER_OUTPUTS \<le> length (pre @ [\<lparr>to_value = v, to_script_pubkey = script\<rparr>])
           then Inr (pre @ [\<lparr>to_value = v, to_script_pubkey = script\<rparr>])
           else decode_outputs limit b3 (pre @ [\<lparr>to_value = v, to_script_pubkey = script\<rparr>]) (paid + v)) = Inr outs"
        by (rule decode_outputs_step [OF "1.prems"(1) False v fits])
      let ?pre = "pre @ [\<lparr>to_value = v, to_script_pubkey = script\<rparr>]"
      have pre: "outputs_total ?pre = unat (paid + v)" "list_all payable ?pre"
        using "1.prems"(3,5) sum slen rd_restD(1) [OF b3]
        by (simp_all add: payable_def [of "\<lparr>to_value = v, to_script_pubkey = script\<rparr>"])
      show ?thesis
      proof (cases "MAX_COINBASER_OUTPUTS \<le> length ?pre")
        case True
        with step have "outs = ?pre" by simp
        with pre sum "1.prems"(6) show ?thesis by simp
      next
        case more: False
        with step have "decode_outputs limit b3 ?pre (paid + v) = Inr outs" by simp
        with pre sum "1.prems"(2) more show ?thesis
          by (intro "1.IH" [OF False v refl fits b2 refl slen b3 refl refl]) simp_all
      qed
    qed
  qed
qed

text \<open>Whatever bytes arrive as a coinbaser response, the outputs a gateway takes from them
  total at most the value the response states, number at most 1024 and carry scripts of 2 to 64
  bytes, so a coinbase built for that value can carry them.\<close>

theorem coinbaser_response_bounded:
  assumes "decode_response data = Inr r" "unat (cb_value r) < 2 ^ 64 - 1"
  shows "sum_list (map (unat \<circ> to_value) (cb_outputs r)) \<le> unat (cb_value r)
    \<and> length (cb_outputs r) \<le> 1024
    \<and> (\<forall>out \<in> set (cb_outputs r). length (to_script_pubkey out) \<in> {2..64})"
proof -
  obtain b where "decode_outputs (cb_value r) b [] 0 = Inr (cb_outputs r)"
    using assms(1) by (auto simp: decode_response_def elim!: tryq_InrE split: if_splits)
  from decode_outputs_sound [OF this assms(2)] show ?thesis
    by (auto simp: coinbaser_consts outputs_total_def payable_def list_all_iff)
qed

lemma coinbaser_response_bounded_witness:
  "sum_list (map (unat \<circ> to_value) [\<lparr>to_value = 8, to_script_pubkey = [0x51, 0x52]\<rparr>]) \<le> unat (9::u64)"
proof -
  let ?r = "\<lparr>cb_value = 9, cb_coinbaser_id = 3,
      cb_outputs = [\<lparr>to_value = 8, to_script_pubkey = [0x51, 0x52]\<rparr>]\<rparr>"
  have "decode_outputs 9 \<lparr>br_full = f, br_rest = concat (map output_bytes (cb_outputs ?r))\<rparr> [] 0 =
      Inr ([] @ cb_outputs ?r)" for f
    by (rule decode_outputs_wire) (simp_all add: payable_def coinbaser_consts)
  then have "decode_response (COINBASER # put_u64_le 9 @ put_u32_le 12 @ [3] @ put_u64_le 8 @ [2, 0x51, 0x52]) = Inr ?r"
    by (simp add: decode_response_def wire coinbaser_consts output_bytes_def rd_new_def)
  from coinbaser_response_bounded [OF this] show ?thesis by simp
qed

end
