(* ===== verification/Split.thy ===== *)
theory Split
  imports Sort_By Messages
begin

text \<open>
  Dividing a block's value over the share window (\<^verbatim>\<open>prime/src/ledger/split.rs\<close>): the operator's
  fee first, then the amounts the weights give, subject to a smallest payout and a number of
  outputs.

  Amounts (\<open>u64\<close>) and weights (\<open>u128\<close>) are natural numbers with the saturation and the casts of
  the code written out. A subtraction that would go below zero and a sum that would pass 128 bits
  are \<open>None\<close>; \<open>split_with_total\<close> shows neither happens. The theorems say who is paid what: never more
  than the value, exactly the value when it covers one payout, nothing under the minimum, and most
  work first.
\<close>

section \<open>The fee\<close>

definition BASIS_POINTS_PER_UNIT :: nat where "BASIS_POINTS_PER_UNIT = 10000"
definition MIN_PAYOUT :: nat where "MIN_PAYOUT = 546"

record payout =
  po_identity :: bytes
  po_sats :: nat

record split_policy =
  sp_fee_bps :: nat

definition sat_mul128 :: "nat \<Rightarrow> nat \<Rightarrow> nat" where
  "sat_mul128 a b = min (a * b) (2 ^ 128 - 1)"

definition basis_points_of :: "nat \<Rightarrow> nat \<Rightarrow> nat" where
  "basis_points_of work bps = sat_mul128 work bps div BASIS_POINTS_PER_UNIT"

definition fee_on :: "split_policy \<Rightarrow> nat \<Rightarrow> nat" where
  "fee_on p v = basis_points_of v (sp_fee_bps p) mod 2 ^ 64"

definition miners_share :: "split_policy \<Rightarrow> nat \<Rightarrow> nat option" where
  "miners_share p v = (if v < fee_on p v then None else Some (v - fee_on p v))"

section \<open>The split\<close>

type_synonym weights = "(bytes \<times> nat) list"

definition most_work_first :: "bytes \<times> nat \<Rightarrow> bytes \<times> nat \<Rightarrow> bool" where
  "most_work_first x y \<longleftrightarrow> snd y < snd x \<or> (snd x = snd y \<and> bytes_le (fst x) (fst y))"

definition sum128 :: "nat list \<Rightarrow> nat option" where
  "sum128 ws = (if sum_list ws < 2 ^ 128 then Some (sum_list ws) else None)"

function drop_small :: "nat \<Rightarrow> nat \<Rightarrow> weights \<Rightarrow> nat \<Rightarrow> (weights \<times> nat) option" where
  "drop_small v min_payout es work =
     (if es = [] then Some ([], work)
      else let w = snd (last es) in
        if work = 0 then Some ([], work)
        else if sat_mul128 v w div work \<ge> min_payout then Some (es, work)
        else if work < w then None
        else drop_small v min_payout (butlast es) (work - w))"
  by pat_completeness auto
termination
  by (relation "measure (\<lambda>(v, m, es, work). length es)") simp_all

declare drop_small.simps [simp del]

fun pay_out :: "nat \<Rightarrow> nat \<Rightarrow> weights \<Rightarrow> payout list option" where
  "pay_out left work [] = Some []"
| "pay_out left work ((identity, w) # es) =
     (if work = 0 then Some []
      else let amount = (sat_mul128 left w div work) mod 2 ^ 64 in
        if left < amount \<or> work < w then None
        else map_option (\<lambda>out. if amount \<noteq> 0 then \<lparr>po_identity = identity, po_sats = amount\<rparr> # out else out)
          (pay_out (left - amount) (work - w) es))"

definition split_with :: "weights \<Rightarrow> nat \<Rightarrow> nat \<Rightarrow> nat \<Rightarrow> payout list option" where
  "split_with es v min_payout max_outputs =
     Option.bind (sum128 (map snd es)) (\<lambda>total.
       if total = 0 \<or> v = 0 \<or> max_outputs = 0 then Some []
       else let es = take max_outputs (sort_by most_work_first es) in
         Option.bind (sum128 (map snd es)) (\<lambda>work.
         Option.bind (drop_small v min_payout es work) (\<lambda>(es, work). pay_out v work es)))"

definition weights_split :: "weights \<Rightarrow> nat \<Rightarrow> payout list option" where
  "weights_split es v = split_with es v MIN_PAYOUT MAX_COINBASER_OUTPUTS"

section \<open>Lemmas: the order\<close>

interpretation payout_order: comparison most_work_first
proof
  show "most_work_first x y \<or> most_work_first y x" for x y
    using bytes_le_total [of "fst x" "fst y"] by (auto simp: most_work_first_def)
  show "most_work_first x z" if "most_work_first x y" "most_work_first y z" for x y z
    using that bytes_le_trans [of "fst x" "fst y" "fst z"] by (auto simp: most_work_first_def)
qed

lemma sorted_weights: "sorted_wrt (\<lambda>x y. snd y \<le> snd x) (take n (sort_by most_work_first es))"
  by (rule sorted_wrt_mono_rel [OF _ payout_order.sorted_take]) (auto simp: most_work_first_def)

lemma sum_take_le: "sum_list (map f (take n xs)) \<le> sum_list (map f xs)" for f :: "'a \<Rightarrow> nat"
  by (metis append_take_drop_id le_add1 map_append sum_list_append)

lemma sum_sort_by: "sum_list (map f (sort_by le xs)) = sum_list (map f xs)" for f :: "'a \<Rightarrow> nat"
  by (metis mset_map mset_sort_by sum_mset_sum_list)

section \<open>Lemmas: dropping small payouts\<close>

lemma sat_mul128_le: "sat_mul128 a b \<le> a * b"
  by (simp add: sat_mul128_def)

lemma sat_mul128_exact: "a * b < 2 ^ 128 \<Longrightarrow> sat_mul128 a b = a * b"
  by (simp add: sat_mul128_def)

lemma drop_small_result:
  assumes "work = sum_list (map snd es)"
  shows "\<exists>n. drop_small v m es work = Some (take n es, sum_list (map snd (take n es))) \<and>
    (take n es = [] \<or> (0 < sum_list (map snd (take n es)) \<and>
       m \<le> sat_mul128 v (snd (last (take n es))) div sum_list (map snd (take n es))))
    \<or> drop_small v m es work = Some ([], 0)"
  using assms
proof (induction es arbitrary: work rule: rev_induct)
  case Nil
  then show ?case by (simp add: drop_small.simps)
next
  case (snoc x es)
  consider "work = 0" | "0 < work" "m \<le> sat_mul128 v (snd x) div work"
    | "0 < work" "\<not> m \<le> sat_mul128 v (snd x) div work" by linarith
  then show ?case
  proof cases
    case 1
    then show ?thesis by (simp add: drop_small.simps)
  next
    case 2
    then have "drop_small v m (es @ [x]) work = Some (es @ [x], work)" by (simp add: drop_small.simps)
    with 2 snoc.prems show ?thesis by (intro exI [of _ "length (es @ [x])"] disjI1) simp
  next
    case 3
    have "work - snd x = sum_list (map snd es)" "\<not> work < snd x" using snoc.prems by simp_all
    then have "drop_small v m (es @ [x]) work = drop_small v m es (work - snd x)"
      using 3 by (subst drop_small.simps) simp
    moreover obtain n where "drop_small v m es (work - snd x) = Some (take n es, sum_list (map snd (take n es))) \<and>
      (take n es = [] \<or> (0 < sum_list (map snd (take n es)) \<and>
         m \<le> sat_mul128 v (snd (last (take n es))) div sum_list (map snd (take n es))))
      \<or> drop_small v m es (work - snd x) = Some ([], 0)"
      using snoc.IH [of "work - snd x"] \<open>work - snd x = sum_list (map snd es)\<close> by blast
    moreover have "take (min n (length es)) (es @ [x]) = take n es" by (simp add: min_def)
    ultimately show ?thesis by (intro exI [of _ "min n (length es)"]) (simp only:)
  qed
qed

section \<open>Lemmas: paying out\<close>

lemma amount_le: "w \<le> work \<Longrightarrow> 0 < work \<Longrightarrow> sat_mul128 left w div work \<le> left"
proof -
  assume "w \<le> work" "0 < work"
  then have "sat_mul128 left w \<le> left * work" using sat_mul128_le [of left w] mult_le_mono2 le_trans by blast
  then show ?thesis using \<open>0 < work\<close> div_le_mono [of _ "left * work" work] by fastforce
qed

lemma pay_out_total:
  assumes "work = sum_list (map snd es)" "left < 2 ^ 64"
  shows "\<exists>ps. pay_out left work es = Some ps \<and> sum_list (map po_sats ps) \<le> left \<and> length ps \<le> length es \<and>
    (left * work < 2 ^ 128 \<and> 0 < work \<longrightarrow> sum_list (map po_sats ps) = left)"
  using assms
proof (induction es arbitrary: work left)
  case (Cons e es)
  obtain i w where e: "e = (i, w)" by force
  show ?case
  proof (cases "work = 0")
    case False
    have w: "w \<le> work" "work - w = sum_list (map snd es)" using Cons.prems e by simp_all
    define a where "a = sat_mul128 left w div work"
    have a: "a \<le> left" unfolding a_def using w(1) False by (intro amount_le) simp_all
    then have am: "a mod 2 ^ 64 = a" using Cons.prems(2) by simp
    obtain ps where ps: "pay_out (left - a) (work - w) es = Some ps" "sum_list (map po_sats ps) \<le> left - a"
      "length ps \<le> length es"
      "(left - a) * (work - w) < 2 ^ 128 \<and> 0 < work - w \<longrightarrow> sum_list (map po_sats ps) = left - a"
      using Cons.IH [OF w(2) less_imp_diff_less [OF Cons.prems(2), of a]] by blast
    have full: "sum_list (map po_sats ps) = left - a" if "left * work < 2 ^ 128"
    proof (cases "w = work")
      case True
      then have "a = left" unfolding a_def using that False by (simp add: sat_mul128_exact)
      then show ?thesis using ps(2) by simp
    next
      case False
      have "(left - a) * (work - w) \<le> left * work" by (intro mult_le_mono) simp_all
      then show ?thesis using ps(4) that w(1) False by simp
    qed
    show ?thesis
      using ps a am w(1) False full unfolding a_def by (auto simp: e Let_def)
  qed (simp add: e)
qed simp

lemma div_le_div_cross:
  fixes x y k W :: nat
  assumes "x * k \<le> y * W" "0 < k" "0 < W"
  shows "x div W \<le> y div k"
proof -
  have "(x div W) * k * W \<le> x * k" by (metis div_times_less_eq_dividend mult.commute mult.left_commute mult_le_mono1)
  then have "(x div W) * k * W \<le> y * W" using assms(1) by linarith
  then have "(x div W) * k \<le> y" using assms(3) by simp
  then show ?thesis using assms(2) by (simp add: less_eq_div_iff_mult_less_eq)
qed

lemma share_kept:
  fixes v k left w W a :: nat
  assumes "v * k \<le> left * W" "0 < k" "w \<le> k" "a = left * w div k"
  shows "v * (k - w) \<le> (left - a) * W"
proof -
  have "a * k \<le> left * w" using assms(4) by simp
  then have "left * (k - w) \<le> (left - a) * k" using assms(3) by (simp add: diff_mult_distrib diff_mult_distrib2)
  then have 1: "left * (k - w) * W \<le> (left - a) * k * W" by (rule mult_le_mono1)
  have "v * k * (k - w) \<le> left * W * (k - w)" using assms(1) by (rule mult_le_mono1)
  with 1 have "v * k * (k - w) \<le> (left - a) * k * W" by (simp only: ac_simps)
  then have "k * (v * (k - w)) \<le> k * ((left - a) * W)" by (simp only: ac_simps)
  then show ?thesis using assms(2) by (simp only: mult_le_cancel1)
qed

lemma pay_out_floor:
  assumes "work = sum_list (map snd es)" "left < 2 ^ 64" "left * work < 2 ^ 128" "v * work \<le> left * W" "0 < W"
    "0 < m" "\<forall>e \<in> set es. m \<le> v * snd e div W"
  shows "\<exists>ps. pay_out left work es = Some ps \<and> map po_identity ps = map fst es \<and>
    (\<forall>p \<in> set ps. m \<le> po_sats p)"
  using assms
proof (induction es arbitrary: work left)
  case (Cons e es)
  obtain i w where e: "e = (i, w)" by force
  have w: "w \<le> work" "work - w = sum_list (map snd es)" using Cons.prems e by simp_all
  have "m \<le> v * w div W" using Cons.prems(7) e by simp
  then have pos: "0 < w" "0 < work" using Cons.prems(6) w(1) by (cases w; simp)+
  define a where "a = left * w div work"
  have ex: "sat_mul128 left w = left * w"
    using Cons.prems(3) w(1) mult_le_mono2 [of w work left] by (intro sat_mul128_exact) linarith
  have a: "a \<le> left" using amount_le [OF w(1) pos(2), of left] by (simp add: a_def ex)
  then have am: "a mod 2 ^ 64 = a" using Cons.prems(2) by simp
  have "v * w div W \<le> a" unfolding a_def
    using Cons.prems(4) by (intro div_le_div_cross) (use pos Cons.prems(5) in \<open>simp_all add: ac_simps\<close>)
  then have ma: "m \<le> a" using \<open>m \<le> v * w div W\<close> by simp
  have "(left - a) * (work - w) \<le> left * work" by (intro mult_le_mono) simp_all
  then obtain ps where ps: "pay_out (left - a) (work - w) es = Some ps" "map po_identity ps = map fst es"
    "\<forall>p \<in> set ps. m \<le> po_sats p"
    using Cons.IH [OF w(2) less_imp_diff_less [OF Cons.prems(2), of a]
        le_less_trans [OF _ Cons.prems(3)] share_kept [OF Cons.prems(4) pos(2) w(1) a_def] Cons.prems(5,6)]
      Cons.prems(7) by auto
  have "pay_out left work (e # es) = Some (\<lparr>po_identity = i, po_sats = a\<rparr> # ps)"
    using pos w(1) a am ps(1) ma Cons.prems(6) by (simp add: e ex a_def [symmetric] Let_def)
  then show ?case using ps ma e by simp
qed simp

section \<open>Lemmas: the whole split\<close>

lemma drop_small_nonempty:
  assumes "work = sum_list (map snd es)" "es \<noteq> []" "0 < snd (hd es)" "m \<le> v" "v * work < 2 ^ 128"
  shows "drop_small v m es work \<noteq> Some ([], k)"
  using assms
proof (induction es arbitrary: work rule: rev_induct)
  case (snoc x es)
  show ?case
  proof (cases "es = []")
    case True
    then have "work = snd x" "0 < snd x" using snoc.prems by simp_all
    then show ?thesis using snoc.prems(4,5) True by (simp add: drop_small.simps sat_mul128_exact)
  next
    case False
    then have hd: "0 < snd (hd es)" using snoc.prems(3) by simp
    have sub: "work - snd x = sum_list (map snd es)" "\<not> work < snd x" using snoc.prems(1) by simp_all
    have "v * (work - snd x) \<le> v * work" by (intro mult_le_mono2) simp
    then have "v * (work - snd x) < 2 ^ 128" using snoc.prems(5) by linarith
    from snoc.IH [OF sub(1) False hd snoc.prems(4) this]
    have IH: "drop_small v m es (work - snd x) \<noteq> Some ([], k)" .
    have "0 < sum_list (map snd es)" using False hd by (cases es) auto
    then have "work \<noteq> 0" using sub by simp
    then show ?thesis using IH sub(2) by (subst drop_small.simps) (simp add: Let_def)
  qed
qed simp

lemma last_is_least:
  assumes "sorted_wrt (\<lambda>x y. snd y \<le> snd x) es" "e \<in> set es"
  shows "snd (last es) \<le> (snd e :: nat)"
  using assms by (induction es) auto

lemma split_with_unfold:
  assumes "sum_list (map snd es) < 2 ^ 128" "0 < sum_list (map snd es)" "0 < v" "0 < k"
    "t = take k (sort_by most_work_first es)"
  shows "split_with es v m k =
    Option.bind (drop_small v m t (sum_list (map snd t))) (\<lambda>(es, work). pay_out v work es)"
proof -
  have "sum_list (map snd t) < 2 ^ 128"
    using assms(1) sum_take_le [of snd k "sort_by most_work_first es"] unfolding assms(5)
    by (simp only: sum_sort_by)
  then have "sum128 (map snd es) = Some (sum_list (map snd es))" "sum128 (map snd t) = Some (sum_list (map snd t))"
    using assms(1) by (simp_all only: sum128_def if_True)
  moreover have "sum_list (map snd es) \<noteq> 0" "v \<noteq> 0" "k \<noteq> 0" using assms(2-4) by (metis less_irrefl)+
  ultimately show ?thesis
    unfolding split_with_def by (simp only: bind.simps Let_def assms(5) [symmetric] simp_thms if_False)
qed

lemma split_with_result:
  assumes total: "sum_list (map snd es) < 2 ^ 128" and v: "v < 2 ^ 64"
  obtains "split_with es v m k = Some []"
  | es' n W where "0 < W" "es' = take n (take k (sort_by most_work_first es))" "W = sum_list (map snd es')"
    "m \<le> sat_mul128 v (snd (last es')) div W" "split_with es v m k = pay_out v W es'" "es' \<noteq> []"
proof -
  let ?t = "take k (sort_by most_work_first es)"
  show thesis
  proof (cases "sum_list (map snd es) = 0 \<or> v = 0 \<or> k = 0")
    case True
    then have "split_with es v m k = Some []"
      unfolding split_with_def sum128_def using total by (simp only: if_True bind.simps Let_def)
    then show thesis by (rule that(1))
  next
    case False
    then have "0 < sum_list (map snd es)" "0 < v" "0 < k" by (simp_all only: neq0_conv de_Morgan_disj simp_thms)
    note unf = split_with_unfold [OF total this refl, of m]
    obtain n where n: "drop_small v m ?t (sum_list (map snd ?t)) = Some (take n ?t, sum_list (map snd (take n ?t))) \<and>
      (take n ?t = [] \<or> (0 < sum_list (map snd (take n ?t)) \<and>
         m \<le> sat_mul128 v (snd (last (take n ?t))) div sum_list (map snd (take n ?t))))
      \<or> drop_small v m ?t (sum_list (map snd ?t)) = Some ([], 0)"
      using drop_small_result [OF refl, of v m ?t] by blast
    show thesis
    proof (cases "drop_small v m ?t (sum_list (map snd ?t)) = Some ([], 0) \<or> take n ?t = []")
      case True
      then have "split_with es v m k = Some []" using n unf by auto
      then show thesis by (rule that(1))
    next
      case F2: False
      show thesis
        by (rule that(2) [of "sum_list (map snd (take n ?t))" "take n ?t" n]) (use n F2 unf in auto)
    qed
  qed
qed

section \<open>What the split guarantees\<close>

lemma split_with_total:
  assumes "sum_list (map snd es) < 2 ^ 128" "v < 2 ^ 64"
  shows "\<exists>ps. split_with es v min_payout max_outputs = Some ps \<and>
    sum_list (map po_sats ps) \<le> v \<and> length ps \<le> max_outputs"
proof (rule split_with_result [OF assms, of min_payout max_outputs])
  fix es' n W
  assume es': "es' = take n (take max_outputs (sort_by most_work_first es))" "W = sum_list (map snd es')"
    "split_with es v min_payout max_outputs = pay_out v W es'"
  from pay_out_total [OF es'(2) assms(2)] obtain ps where "pay_out v W es' = Some ps"
    "sum_list (map po_sats ps) \<le> v" "length ps \<le> length es'" by blast
  moreover have "length es' \<le> max_outputs" unfolding es'(1) by simp
  ultimately show ?thesis using es'(3) by fastforce
qed simp

text \<open>The split never panics and never pays more than there is: for weights that total less than
  128 bits and any value, \<open>split_with\<close> returns at most \<open>max_outputs\<close> payouts, and they total at most
  the value.\<close>

theorem split_never_overpays:
  assumes "sum_list (map snd es) < 2 ^ 128" "v < 2 ^ 64"
  shows "\<exists>ps. split_with es v min_payout max_outputs = Some ps \<and>
    sum_list (map po_sats ps) \<le> v \<and> length ps \<le> max_outputs"
  using split_with_total [OF assms] .

theorem split_never_overpays_witness:
  "sum_list (map snd [([1 :: u8], 3 :: nat), ([2], 5)]) < 2 ^ 128 \<and>
   (\<exists>ps. split_with [([1], 3), ([2], 5)] 1000 546 2 = Some ps \<and> sum_list (map po_sats ps) \<le> 1000 \<and> length ps \<le> 2)"
  using split_never_overpays [of "[([1], 3), ([2], 5)]" 1000 546 2] by simp

text \<open>C5: the whole value reaches the miners and nobody is paid dust: while the products fit 128 bits
  and the value covers one smallest payout, the payouts total exactly the value, each is at least
  the minimum, and they go to the identities with the most work, in order of work, ties by name.\<close>

theorem split_pays_all:
  assumes "sum_list (map snd es) < 2 ^ 128" "v < 2 ^ 64" "v * sum_list (map snd es) < 2 ^ 128"
    "0 < sum_list (map snd es)" "0 < min_payout" "min_payout \<le> v" "0 < max_outputs"
  shows "\<exists>ps. split_with es v min_payout max_outputs = Some ps \<and> ps \<noteq> [] \<and>
    sum_list (map po_sats ps) = v \<and> (\<forall>p \<in> set ps. min_payout \<le> po_sats p) \<and> length ps \<le> max_outputs \<and>
    map po_identity ps = map fst (take (length ps) (sort_by most_work_first es))"
proof -
  let ?s = "sort_by most_work_first es"
  let ?t = "take max_outputs ?s"
  have desc: "sorted_wrt (\<lambda>x y. snd y \<le> snd x) ?s" using sorted_weights [of "length ?s" es] by simp
  have ne: "?s \<noteq> []" using assms(4) by (metis length_0_conv length_sort_by list.size(3) map_is_Nil_conv sum_list.Nil less_irrefl)
  have hd: "0 < snd (hd ?s)"
  proof (rule ccontr)
    assume "\<not> 0 < snd (hd ?s)"
    then have "snd e = 0" if "e \<in> set ?s" for e
      using desc ne that by (cases ?s) auto
    then have "sum_list (map snd ?s) = 0" by (simp add: sum_list_eq_0_iff)
    then show False using assms(4) by (metis sum_sort_by less_irrefl)
  qed
  have t: "?t \<noteq> []" "hd ?t = hd ?s" using assms(7) ne by (simp_all add: hd_take)
  have sumt: "sum_list (map snd ?t) \<le> sum_list (map snd es)"
    using sum_take_le [of snd max_outputs ?s] by (simp add: sum_sort_by)
  then have vt: "v * sum_list (map snd ?t) < 2 ^ 128" using assms(3) mult_le_mono2 le_less_trans by blast
  note nonempty = drop_small_nonempty [OF refl t(1) hd [folded t(2)] assms(6) vt]
  show ?thesis
  proof (rule split_with_result [OF assms(1,2), of min_payout max_outputs])
    assume "split_with es v min_payout max_outputs = Some []"
    moreover have "0 < v" using assms(5,6) by simp
    ultimately have "Option.bind (drop_small v min_payout ?t (sum_list (map snd ?t))) (\<lambda>(es, work). pay_out v work es) = Some []"
      using split_with_unfold [OF assms(1,4) _ assms(7) refl] by metis
    then obtain es' W where es': "drop_small v min_payout ?t (sum_list (map snd ?t)) = Some (es', W)" "pay_out v W es' = Some []"
      by (auto split: bind_splits)
    have "es' \<noteq> []" using es'(1) nonempty by metis
    with es'(1) obtain n where "es' = take n ?t" "W = sum_list (map snd es')" "0 < W"
      using drop_small_result [OF refl, of v min_payout ?t] by (metis Pair_inject option.inject)
    have "v * W < 2 ^ 128"
      using sum_take_le [of snd n ?t] \<open>es' = take n ?t\<close> \<open>W = _\<close>
      by (intro le_less_trans [OF mult_le_mono2 vt]) simp
    with pay_out_total [OF \<open>W = _\<close> assms(2)] es'(2) \<open>0 < W\<close> have "v = 0" by auto
    then show ?thesis using assms(5,6) by simp
  next
    fix es' n W
    assume es': "0 < W" "es' = take n ?t" "W = sum_list (map snd es')"
      "min_payout \<le> sat_mul128 v (snd (last es')) div W" "split_with es v min_payout max_outputs = pay_out v W es'" "es' \<noteq> []"
    have "W \<le> sum_list (map snd ?t)" using sum_take_le [of snd n ?t] es'(2,3) by simp
    then have vW: "v * W < 2 ^ 128" using vt mult_le_mono2 le_less_trans by blast
    have "min_payout \<le> v * snd (last es') div W"
      using es'(4) sat_mul128_le [of v "snd (last es')"] div_le_mono le_trans by blast
    moreover have "sorted_wrt (\<lambda>x y. snd y \<le> snd x) es'" unfolding es'(2) using desc by (simp add: sorted_wrt_take)
    ultimately have "\<forall>e \<in> set es'. min_payout \<le> v * snd e div W"
      using last_is_least [of es'] by (meson div_le_mono le_trans mult_le_mono2)
    from pay_out_floor [OF es'(3) assms(2) vW le_refl es'(1) assms(5) this]
    obtain ps where ps: "pay_out v W es' = Some ps" "map po_identity ps = map fst es'" "\<forall>p \<in> set ps. min_payout \<le> po_sats p"
      by blast
    have "sum_list (map po_sats ps) = v"
      using pay_out_total [OF es'(3) assms(2)] ps(1) vW es'(1) by auto
    moreover have "length ps = length es'" using ps(2) by (metis length_map)
    moreover have "es' = take (length es') ?s" unfolding es'(2) by (simp add: min_def)
    ultimately show ?thesis using ps es'(5,6) unfolding es'(2) by fastforce
  qed
qed

theorem split_pays_all_witness:
  "\<exists>ps. split_with [([1], 1), ([2], 5), ([3], 4)] 100000 546 2 = Some ps \<and> ps \<noteq> [] \<and>
     sum_list (map po_sats ps) = 100000 \<and> (\<forall>p \<in> set ps. 546 \<le> po_sats p) \<and> length ps \<le> 2 \<and>
     map po_identity ps = map fst (take (length ps) (sort_by most_work_first [([1], 1), ([2], 5), ([3], 4)]))"
  by (rule split_pays_all) simp_all

lemma fee_and_share:
  assumes "sp_fee_bps p \<le> BASIS_POINTS_PER_UNIT" "v < 2 ^ 64"
  shows "\<exists>m. miners_share p v = Some m \<and> fee_on p v + m = v \<and>
    fee_on p v * BASIS_POINTS_PER_UNIT \<le> v * sp_fee_bps p \<and>
    v * sp_fee_bps p < (fee_on p v + 1) * BASIS_POINTS_PER_UNIT"
proof -
  have "v * sp_fee_bps p \<le> v * 10000" using assms(1) by (simp add: BASIS_POINTS_PER_UNIT_def)
  moreover have "v * 10000 < 2 ^ 128" using assms(2) by simp
  ultimately have "v * sp_fee_bps p < 2 ^ 128" by (rule le_less_trans)
  then have basis: "basis_points_of v (sp_fee_bps p) = v * sp_fee_bps p div 10000"
    by (simp add: basis_points_of_def sat_mul128_exact BASIS_POINTS_PER_UNIT_def)
  have le: "v * sp_fee_bps p div 10000 \<le> v"
    using \<open>v * sp_fee_bps p \<le> v * 10000\<close> by (metis div_le_mono nonzero_mult_div_cancel_right zero_neq_numeral)
  then have "fee_on p v = v * sp_fee_bps p div 10000" using assms(2) by (simp add: fee_on_def basis)
  then show ?thesis
    using le by (simp add: miners_share_def BASIS_POINTS_PER_UNIT_def dividend_less_div_times)
qed

text \<open>The fee and the miners' share add up: for a fee of at most the whole in basis points and any
  64-bit value, the subtraction never goes below zero, the two parts total the value, and the fee is
  at most its share of the value.\<close>

theorem fee_and_share_total:
  assumes "sp_fee_bps p \<le> BASIS_POINTS_PER_UNIT" "v < 2 ^ 64"
  shows "\<exists>m. miners_share p v = Some m \<and> fee_on p v + m = v \<and>
    fee_on p v * BASIS_POINTS_PER_UNIT \<le> v * sp_fee_bps p \<and>
    v * sp_fee_bps p < (fee_on p v + 1) * BASIS_POINTS_PER_UNIT"
  using fee_and_share [OF assms] .

theorem fee_and_share_total_witness:
  "\<exists>m. miners_share \<lparr>sp_fee_bps = 200\<rparr> 312500000 = Some m \<and> fee_on \<lparr>sp_fee_bps = 200\<rparr> 312500000 + m = 312500000"
  using fee_and_share_total [of "\<lparr>sp_fee_bps = 200\<rparr>" 312500000] by (auto simp: BASIS_POINTS_PER_UNIT_def)

end
