(* ===== verification/Window.thy ===== *)
theory Window
  imports Split
begin

text \<open>
  The share window's contents (\<^verbatim>\<open>prime/src/ledger.rs\<close>, \<open>Identities\<close> and \<open>Contents\<close>): the newest
  shares, oldest first, and the work each identity holds in them. A share refers to its identity by
  an index into \<open>entries\<close>; an index is released when the last share that refers to it leaves the
  window, kept on the free list and reused.

  The specification is a list of shares: \<open>holds c xs\<close> says that the contents \<open>c\<close> represent the
  window \<open>xs\<close>. \<open>push\<close>, \<open>drop_oldest\<close> and \<open>trim\<close> refine appending, dropping the first share and
  \<open>trim_shares\<close> on that list. Every \<open>expect\<close> and index of the code is an option; the refinement shows
  that no step is ever \<open>None\<close>. Work totals are natural numbers: \<open>holds_total_lt\<close> shows they stay far
  below 128 bits. The growth policy of the deque's buffer is not modelled.
\<close>

section \<open>The state\<close>

definition MAX_SHARES :: nat where "MAX_SHARES = 2 ^ 22"

record share =
  sh_accepted_at :: nat
  sh_identity :: bytes
  sh_difficulty :: nat
  sh_block_hash :: bytes
  sh_tag_secondary :: bytes

record identity_state =
  is_work :: nat
  is_tag_secondary :: bytes

record window_share =
  ws_difficulty :: nat
  ws_accepted_at :: nat
  ws_credit :: nat

record identity_entry =
  ie_name :: bytes
  ie_state :: identity_state
  ie_shares :: nat

record identities =
  id_by_name :: "bytes \<rightharpoonup> nat"
  id_entries :: "identity_entry option list"
  id_free :: "nat list"

record contents =
  co_shares :: "window_share list"
  co_identities :: identities
  co_total_work :: nat

definition window_share_new :: "share \<Rightarrow> nat \<Rightarrow> window_share" where
  "window_share_new s i = \<lparr>ws_difficulty = sh_difficulty s,
     ws_accepted_at = (if sh_accepted_at s < 2 ^ 32 then sh_accepted_at s else 2 ^ 32 - 1),
     ws_credit = i\<rparr>"

section \<open>Identities\<close>

text \<open>The free list is a stack; its top is the head of \<open>id_free\<close>.\<close>

definition empty_identities :: identities where
  "empty_identities = \<lparr>id_by_name = Map.empty, id_entries = [], id_free = []\<rparr>"

definition index_of :: "identities \<Rightarrow> bytes \<Rightarrow> (nat \<times> identities) option" where
  "index_of ids name =
     (case id_by_name ids name of
        Some i \<Rightarrow> Some (i, ids)
      | None \<Rightarrow>
        let entry = \<lparr>ie_name = name, ie_state = \<lparr>is_work = 0, is_tag_secondary = []\<rparr>, ie_shares = 0\<rparr> in
        (case id_free ids of
           i # free \<Rightarrow>
             if i < length (id_entries ids)
             then Some (i, ids\<lparr>id_entries := (id_entries ids)[i := Some entry], id_free := free,
                               id_by_name := (id_by_name ids)(name \<mapsto> i)\<rparr>)
             else None
         | [] \<Rightarrow>
             let i = length (id_entries ids) in
             if i < 2 ^ 32
             then Some (i, ids\<lparr>id_entries := id_entries ids @ [Some entry],
                               id_by_name := (id_by_name ids)(name \<mapsto> i)\<rparr>)
             else None))"

definition entry_at :: "identities \<Rightarrow> nat \<Rightarrow> identity_entry option" where
  "entry_at ids i = (if i < length (id_entries ids) then id_entries ids ! i else None)"

definition put_entry :: "identities \<Rightarrow> nat \<Rightarrow> identity_entry \<Rightarrow> identities" where
  "put_entry ids i e = ids\<lparr>id_entries := (id_entries ids)[i := Some e]\<rparr>"

definition identity_name :: "identities \<Rightarrow> nat \<Rightarrow> bytes option" where
  "identity_name ids i = map_option ie_name (entry_at ids i)"

definition release_identity :: "identities \<Rightarrow> nat \<Rightarrow> identities option" where
  "release_identity ids i =
     (if i < length (id_entries ids) then
        (case id_entries ids ! i of
           None \<Rightarrow> Some ids
         | Some e \<Rightarrow> Some (ids\<lparr>id_entries := (id_entries ids)[i := None],
                               id_by_name := (id_by_name ids)(ie_name e := None),
                               id_free := i # id_free ids\<rparr>))
      else None)"

definition iter_identities :: "identities \<Rightarrow> (bytes \<times> identity_state) list" where
  "iter_identities ids = map (\<lambda>e. (ie_name e, ie_state e)) (map the (filter (\<lambda>e. e \<noteq> None) (id_entries ids)))"

section \<open>Contents\<close>

definition empty_contents :: contents where
  "empty_contents = \<lparr>co_shares = [], co_identities = empty_identities, co_total_work = 0\<rparr>"

definition push :: "contents \<Rightarrow> share \<Rightarrow> contents option" where
  "push c s =
     Option.bind (index_of (co_identities c) (sh_identity s)) (\<lambda>(index, ids).
     Option.bind (entry_at ids index) (\<lambda>entry.
       let work = sh_difficulty s;
           entry = entry\<lparr>ie_state := \<lparr>is_work = is_work (ie_state entry) + work,
                                      is_tag_secondary = sh_tag_secondary s\<rparr>,
                         ie_shares := ie_shares entry + 1\<rparr>
       in Some \<lparr>co_shares = co_shares c @ [window_share_new s index],
                co_identities = put_entry ids index entry,
                co_total_work = co_total_work c + work\<rparr>))"

definition drop_oldest :: "contents \<Rightarrow> contents option" where
  "drop_oldest c =
     (case co_shares c of
        [] \<Rightarrow> Some c
      | oldest # rest \<Rightarrow>
        let work = ws_difficulty oldest; index = ws_credit oldest; ids = co_identities c in
        Option.bind (entry_at ids index) (\<lambda>entry.
          if co_total_work c < work \<or> is_work (ie_state entry) < work \<or> ie_shares entry = 0 then None
          else
            let entry = entry\<lparr>ie_state := (ie_state entry)\<lparr>is_work := is_work (ie_state entry) - work\<rparr>,
                              ie_shares := ie_shares entry - 1\<rparr>;
                ids = put_entry ids index entry
            in Option.bind (if ie_shares entry = 0 then release_identity ids index else Some ids) (\<lambda>ids.
               Some \<lparr>co_shares = rest, co_identities = ids, co_total_work = co_total_work c - work\<rparr>)))"

lemma drop_oldest_shares:
  "drop_oldest c = Some c' \<Longrightarrow> co_shares c' = tl (co_shares c)"
  by (auto simp: drop_oldest_def Let_def split: list.splits bind_splits if_splits)

function trim_work :: "nat \<Rightarrow> contents \<Rightarrow> contents option" where
  "trim_work window c =
     (if 1 < length (co_shares c) \<and> window < co_total_work c then
        let over = co_total_work c - window; oldest = hd (co_shares c) in
        if over < ws_difficulty oldest then Some c
        else Option.bind (drop_oldest c) (\<lambda>c. trim_work window c)
      else Some c)"
  by pat_completeness auto
termination
  by (relation "measure (\<lambda>(w, c). length (co_shares c))") (auto dest!: drop_oldest_shares)

function trim_count :: "nat \<Rightarrow> contents \<Rightarrow> contents option" where
  "trim_count max_shares c =
     (if max_shares < length (co_shares c) then Option.bind (drop_oldest c) (\<lambda>c. trim_count max_shares c)
      else Some c)"
  by pat_completeness auto
termination
  by (relation "measure (\<lambda>(w, c). length (co_shares c))") (auto dest!: drop_oldest_shares)

definition trim_contents :: "nat \<Rightarrow> nat \<Rightarrow> contents \<Rightarrow> contents option" where
  "trim_contents window max_shares c = Option.bind (trim_work window c) (trim_count max_shares)"

declare trim_work.simps [simp del] trim_count.simps [simp del]

text \<open>The rows \<open>Contents::read\<close> is given, oldest first: each is pushed and the window trimmed.\<close>

fun read_rows :: "nat \<Rightarrow> nat \<Rightarrow> contents \<Rightarrow> share list \<Rightarrow> contents option" where
  "read_rows window max_shares c [] = Some c"
| "read_rows window max_shares c (s # rows) =
     Option.bind (push c s) (\<lambda>c. Option.bind (trim_contents window max_shares c)
       (\<lambda>c. read_rows window max_shares c rows))"

definition read_contents :: "nat \<Rightarrow> nat \<Rightarrow> share list \<Rightarrow> contents option" where
  "read_contents window max_shares rows = read_rows window max_shares empty_contents rows"

section \<open>The specification: a list of shares\<close>

definition credits :: "bytes \<Rightarrow> share list \<Rightarrow> share list" where
  "credits n xs = filter (\<lambda>s. sh_identity s = n) xs"

definition work_of :: "bytes \<Rightarrow> share list \<Rightarrow> nat" where
  "work_of n xs = sum_list (map sh_difficulty (credits n xs))"

definition total_of :: "share list \<Rightarrow> nat" where
  "total_of xs = sum_list (map sh_difficulty xs)"

definition entry_for :: "bytes \<Rightarrow> share list \<Rightarrow> identity_entry" where
  "entry_for n xs = \<lparr>ie_name = n,
     ie_state = \<lparr>is_work = work_of n xs, is_tag_secondary = sh_tag_secondary (last (credits n xs))\<rparr>,
     ie_shares = length (credits n xs)\<rparr>"

fun trim_shares_work :: "nat \<Rightarrow> share list \<Rightarrow> share list" where
  "trim_shares_work window [] = []"
| "trim_shares_work window (x # xs) =
     (if xs \<noteq> [] \<and> window \<le> total_of xs \<and> window < total_of (x # xs)
      then trim_shares_work window xs else x # xs)"

definition trim_shares :: "nat \<Rightarrow> nat \<Rightarrow> share list \<Rightarrow> share list" where
  "trim_shares window max_shares xs =
     (let ys = trim_shares_work window xs in drop (length ys - max_shares) ys)"

text \<open>The identities of a window: every name it credits once, under its index, with its work, its
  newest tag and its number of shares; every other slot on the free list.\<close>

definition ids_hold :: "nat \<Rightarrow> identities \<Rightarrow> share list \<Rightarrow> bool" where
  "ids_hold bound ids xs \<longleftrightarrow>
     (\<forall>n i. id_by_name ids n = Some i \<longrightarrow> n \<in> sh_identity ` set xs \<and> entry_at ids i = Some (entry_for n xs)) \<and>
     (\<forall>n \<in> sh_identity ` set xs. id_by_name ids n \<noteq> None) \<and>
     (\<forall>i e. entry_at ids i = Some e \<longrightarrow> id_by_name ids (ie_name e) = Some i) \<and>
     distinct (id_free ids) \<and> set (id_free ids) = {i. i < length (id_entries ids) \<and> id_entries ids ! i = None} \<and>
     length (id_entries ids) \<le> bound"

definition holds :: "nat \<Rightarrow> contents \<Rightarrow> share list \<Rightarrow> bool" where
  "holds bound c xs \<longleftrightarrow>
     ids_hold bound (co_identities c) xs \<and> co_total_work c = total_of xs \<and>
     list_all2 (\<lambda>w s. id_by_name (co_identities c) (sh_identity s) = Some (ws_credit w) \<and>
        w = window_share_new s (ws_credit w)) (co_shares c) xs"

section \<open>Lemmas: pushing a share\<close>

lemma credits_append:
  "credits n (xs @ [s]) = (if sh_identity s = n then credits n xs @ [s] else credits n xs)"
  by (simp add: credits_def)

lemma credits_empty_iff: "credits n xs = [] \<longleftrightarrow> n \<notin> sh_identity ` set xs"
  by (auto simp: credits_def filter_empty_conv)

lemma entry_for_other: "sh_identity s \<noteq> n \<Longrightarrow> entry_for n (xs @ [s]) = entry_for n xs"
  by (simp add: entry_for_def work_of_def credits_append)

lemma entry_for_name [simp]: "ie_name (entry_for n xs) = n"
  by (simp add: entry_for_def)

lemma ids_hold_push:
  assumes h: "ids_hold B ids xs" and n: "n = sh_identity s"
    and slot: "id_by_name ids n = Some i \<or> id_by_name ids n = None \<and> entry_at ids i = None"
    and byn: "id_by_name ids' = (id_by_name ids)(n \<mapsto> i)"
    and ent: "\<And>j. entry_at ids' j = (if j = i then Some (entry_for n (xs @ [s])) else entry_at ids j)"
    and free: "distinct (id_free ids')" "set (id_free ids') = {i. i < length (id_entries ids') \<and> id_entries ids' ! i = None}"
    and len: "length (id_entries ids') \<le> B"
  shows "ids_hold B ids' (xs @ [s])"
proof -
  have other: "m \<in> sh_identity ` set xs" "j \<noteq> i" "entry_at ids j = Some (entry_for m xs)"
    if "id_by_name ids m = Some j" "m \<noteq> n" for m j
  proof -
    show m: "m \<in> sh_identity ` set xs" "entry_at ids j = Some (entry_for m xs)"
      using h that(1) by (auto simp: ids_hold_def)
    show "j \<noteq> i"
    proof
      assume "j = i"
      then have "id_by_name ids n = Some i" using slot m(2) by auto
      then have "entry_at ids i = Some (entry_for n xs)" using h by (auto simp: ids_hold_def)
      then show False using m(2) \<open>j = i\<close> that(2) by (metis entry_for_name option.inject)
    qed
  qed
  have 1: "m \<in> sh_identity ` set (xs @ [s]) \<and> entry_at ids' j = Some (entry_for m (xs @ [s]))"
    if "id_by_name ids' m = Some j" for m j
    using that other [of m j] n by (cases "m = n") (auto simp: byn ent entry_for_other)
  have 2: "id_by_name ids' (ie_name e) = Some j" if "entry_at ids' j = Some e" for j e
  proof (cases "j = i")
    case True
    then show ?thesis using that by (auto simp: byn ent)
  next
    case False
    then have e: "id_by_name ids (ie_name e) = Some j" using that h by (auto simp: ent ids_hold_def)
    then have "ie_name e \<noteq> n" using slot False by auto
    then show ?thesis using e by (simp add: byn)
  qed
  have 3: "id_by_name ids' m \<noteq> None" if "m \<in> sh_identity ` set (xs @ [s])" for m
    using that h n by (auto simp: byn ids_hold_def)
  show ?thesis unfolding ids_hold_def using 1 2 3 free len by blast
qed

lemma entry_at_put:
  "i < length (id_entries ids) \<Longrightarrow> entry_at (put_entry ids i e) j = (if j = i then Some e else entry_at ids j)"
  by (auto simp: entry_at_def put_entry_def)

lemma put_entry_sel [simp]:
  "id_by_name (put_entry ids i e) = id_by_name ids" "id_free (put_entry ids i e) = id_free ids"
  "length (id_entries (put_entry ids i e)) = length (id_entries ids)"
  by (simp_all add: put_entry_def)

lemma free_put_entry:
  assumes "set (id_free ids) = {i. i < length (id_entries ids) \<and> id_entries ids ! i = None}" "entry_at ids i \<noteq> None"
  shows "set (id_free (put_entry ids i e)) = {j. j < length (id_entries (put_entry ids i e)) \<and> id_entries (put_entry ids i e) ! j = None}"
proof -
  have i: "i < length (id_entries ids)" "id_entries ids ! i \<noteq> None"
    using assms(2) by (auto simp: entry_at_def split: if_splits)
  have "(j < length (id_entries ids) \<and> id_entries ids ! j = None) \<longleftrightarrow>
      (j < length (id_entries ids) \<and> (id_entries ids)[i := Some e] ! j = None)" for j
    using i by (cases "j = i") simp_all
  then show ?thesis using assms(1) by (simp add: put_entry_def)
qed

text \<open>A full table: every slot holds an identity of the window, so there are no more than shares.\<close>

lemma entries_le_shares:
  assumes h: "ids_hold B ids xs" and "id_free ids = []"
  shows "length (id_entries ids) \<le> length xs"
proof -
  let ?names = "map (\<lambda>e. ie_name (the e)) (id_entries ids)"
  have full: "\<exists>e. entry_at ids i = Some e \<and> id_by_name ids (ie_name e) = Some i" if "i < length (id_entries ids)" for i
    using assms that by (auto simp: ids_hold_def entry_at_def)
  have "distinct ?names"
  proof (rule distinct_conv_nth [THEN iffD2], intro allI impI)
    fix i j assume ij: "i < length ?names" "j < length ?names" "i \<noteq> j"
    then obtain e e' where "entry_at ids i = Some e" "entry_at ids j = Some e'"
      "id_by_name ids (ie_name e) = Some i" "id_by_name ids (ie_name e') = Some j"
      using full by (metis length_map)
    then show "?names ! i \<noteq> ?names ! j" using ij by (auto simp: entry_at_def)
  qed
  moreover have "set ?names \<subseteq> sh_identity ` set xs"
  proof
    fix n assume "n \<in> set ?names"
    then obtain i where i: "i < length (id_entries ids)" "n = ie_name (the (id_entries ids ! i))"
      by (auto simp: in_set_conv_nth)
    with full [OF i(1)] have "id_by_name ids n = Some i" by (auto simp: entry_at_def)
    then show "n \<in> sh_identity ` set xs" using h by (auto simp: ids_hold_def)
  qed
  ultimately have "length ?names \<le> card (sh_identity ` set xs)"
    by (metis List.finite_set card_mono distinct_card finite_imageI)
  also have "\<dots> \<le> length xs" by (meson card_image_le List.finite_set card_length le_trans)
  finally show ?thesis by simp
qed

lemma index_of_holds:
  assumes h: "ids_hold B ids xs" and room: "length xs < B" "B \<le> 2 ^ 32"
  obtains i ids' e where "index_of ids n = Some (i, ids')" "entry_at ids' i = Some e" "ie_name e = n"
    "id_by_name ids n = Some i \<and> ids' = ids \<and> e = entry_for n xs \<or>
     id_by_name ids n = None \<and> entry_at ids i = None \<and> is_work (ie_state e) = 0 \<and> ie_shares e = 0"
    "id_by_name ids' = (id_by_name ids)(n \<mapsto> i)" "\<forall>j. j \<noteq> i \<longrightarrow> entry_at ids' j = entry_at ids j"
    "distinct (id_free ids')" "set (id_free ids') = {i. i < length (id_entries ids') \<and> id_entries ids' ! i = None}"
    "length (id_entries ids') \<le> B" "i < length (id_entries ids')"
proof (cases "id_by_name ids n")
  case (Some i)
  then have e: "entry_at ids i = Some (entry_for n xs)" using h by (auto simp: ids_hold_def)
  then have "i < length (id_entries ids)" by (simp add: entry_at_def split: if_splits)
  then show thesis using Some e h
    by (intro that [of i ids "entry_for n xs"]) (auto simp: index_of_def ids_hold_def fun_upd_idem)
next
  case None
  let ?e = "\<lparr>ie_name = n, ie_state = \<lparr>is_work = 0, is_tag_secondary = []\<rparr>, ie_shares = 0\<rparr>"
  have free: "distinct (id_free ids)" "set (id_free ids) = {i. i < length (id_entries ids) \<and> id_entries ids ! i = None}"
    "length (id_entries ids) \<le> B" using h by (auto simp: ids_hold_def)
  show thesis
  proof (cases "id_free ids")
    case Nil
    let ?i = "length (id_entries ids)"
    let ?ids = "ids\<lparr>id_entries := id_entries ids @ [Some ?e], id_by_name := (id_by_name ids)(n \<mapsto> ?i)\<rparr>"
    have lt: "?i < B" using entries_le_shares [OF h Nil] room(1) by simp
    have fr: "set (id_free ?ids) = {i. i < length (id_entries ?ids) \<and> id_entries ?ids ! i = None}"
      using free(2) Nil by (auto simp: nth_append)
    show thesis
      by (rule that [of ?i ?ids ?e])
        (use None Nil lt room free(1) fr in \<open>auto simp: index_of_def Let_def entry_at_def nth_append\<close>)
  next
    case (Cons i fs)
    let ?ids = "ids\<lparr>id_entries := (id_entries ids)[i := Some ?e], id_free := fs, id_by_name := (id_by_name ids)(n \<mapsto> i)\<rparr>"
    have i: "i < length (id_entries ids)" "id_entries ids ! i = None" using free(2) Cons by auto
    have "j \<in> set fs \<longleftrightarrow> j < length (id_entries ids) \<and> (id_entries ids)[i := Some ?e] ! j = None" for j
    proof -
      have "j \<in> set (id_free ids) \<longleftrightarrow> j < length (id_entries ids) \<and> id_entries ids ! j = None" using free(2) by blast
      then show ?thesis using free(1) i Cons by (cases "j = i") auto
    qed
    then have fr: "set (id_free ?ids) = {i. i < length (id_entries ?ids) \<and> id_entries ?ids ! i = None}"
      by auto
    show thesis
      by (rule that [of i ?ids ?e])
        (use None Cons i free(1,3) fr in \<open>auto simp: index_of_def Let_def entry_at_def\<close>)
  qed
qed

lemma list_all2_by_name:
  assumes "list_all2 (\<lambda>w s. b (sh_identity s) = Some (ws_credit w) \<and> w = window_share_new s (ws_credit w)) ws xs"
    "\<And>m j. m \<in> sh_identity ` set xs \<Longrightarrow> b m = Some j \<Longrightarrow> b' m = Some j"
  shows "list_all2 (\<lambda>w s. b' (sh_identity s) = Some (ws_credit w) \<and> w = window_share_new s (ws_credit w)) ws xs"
  using assms by (auto simp: list_all2_conv_all_nth)

lemma push_holds:
  assumes h: "holds B c xs" and room: "length xs < B" "B \<le> 2 ^ 32"
  obtains c' where "push c s = Some c'" "holds B c' (xs @ [s])"
proof -
  let ?n = "sh_identity s" and ?ids = "co_identities c"
  have ids: "ids_hold B ?ids xs"
    and la: "list_all2 (\<lambda>w s. id_by_name ?ids (sh_identity s) = Some (ws_credit w) \<and>
        w = window_share_new s (ws_credit w)) (co_shares c) xs"
    using h by (simp_all add: holds_def)
  obtain i ids' e where ix: "index_of ?ids ?n = Some (i, ids')" "entry_at ids' i = Some e" "ie_name e = ?n"
    "id_by_name ?ids ?n = Some i \<and> ids' = ?ids \<and> e = entry_for ?n xs \<or>
     id_by_name ?ids ?n = None \<and> entry_at ?ids i = None \<and> is_work (ie_state e) = 0 \<and> ie_shares e = 0"
    "id_by_name ids' = (id_by_name ?ids)(?n \<mapsto> i)" "\<forall>j. j \<noteq> i \<longrightarrow> entry_at ids' j = entry_at ?ids j"
    "distinct (id_free ids')" "set (id_free ids') = {i. i < length (id_entries ids') \<and> id_entries ids' ! i = None}"
    "length (id_entries ids') \<le> B" "i < length (id_entries ids')"
    by (rule index_of_holds [OF ids room, of ?n])
  define e' where "e' = e\<lparr>ie_state := \<lparr>is_work = is_work (ie_state e) + sh_difficulty s, is_tag_secondary = sh_tag_secondary s\<rparr>,
     ie_shares := ie_shares e + 1\<rparr>"
  have e': "e' = entry_for ?n (xs @ [s])"
  proof (cases "id_by_name ?ids ?n")
    case None
    then have "?n \<notin> sh_identity ` set xs" using ids by (auto simp: ids_hold_def)
    then have "credits ?n xs = []" by (simp add: credits_empty_iff)
    then show ?thesis using ix(3,4) None
      by (cases e) (simp add: e'_def entry_for_def work_of_def credits_append)
  next
    case (Some j)
    then have "e = entry_for ?n xs" using ix(4) by auto
    then show ?thesis by (simp add: e'_def entry_for_def work_of_def credits_append)
  qed
  let ?c = "\<lparr>co_shares = co_shares c @ [window_share_new s i], co_identities = put_entry ids' i e',
     co_total_work = co_total_work c + sh_difficulty s\<rparr>"
  have "push c s = Some ?c" using ix(1,2) by (simp add: push_def e'_def Let_def)
  moreover have "ids_hold B (put_entry ids' i e') (xs @ [s])"
  proof (rule ids_hold_push [OF ids refl])
    show "id_by_name ?ids ?n = Some i \<or> id_by_name ?ids ?n = None \<and> entry_at ?ids i = None" using ix(4) by auto
    show "entry_at (put_entry ids' i e') j = (if j = i then Some (entry_for ?n (xs @ [s])) else entry_at ?ids j)" for j
      using ix(6,10) by (simp add: entry_at_put e')
    show "set (id_free (put_entry ids' i e')) = {j. j < length (id_entries (put_entry ids' i e')) \<and> id_entries (put_entry ids' i e') ! j = None}"
      using ix(2,8) by (intro free_put_entry) simp_all
  qed (use ix in simp_all)
  moreover have "list_all2 (\<lambda>w s. id_by_name (put_entry ids' i e') (sh_identity s) = Some (ws_credit w) \<and>
      w = window_share_new s (ws_credit w)) (co_shares c @ [window_share_new s i]) (xs @ [s])"
  proof (rule list_all2_appendI)
    show "list_all2 (\<lambda>w s. id_by_name (put_entry ids' i e') (sh_identity s) = Some (ws_credit w) \<and>
      w = window_share_new s (ws_credit w)) (co_shares c) xs"
      by (rule list_all2_by_name [OF la]) (use ix(4,5) in auto)
  qed (simp add: ix(5) window_share_new_def)
  ultimately show thesis
    using h by (intro that [of ?c]) (simp_all add: holds_def total_of_def)
qed

section \<open>Lemmas: dropping the oldest share\<close>

lemma credits_Cons: "credits n (x # xs) = (if sh_identity x = n then x # credits n xs else credits n xs)"
  by (simp add: credits_def)

lemma entry_for_other_Cons: "sh_identity x \<noteq> n \<Longrightarrow> entry_for n (x # xs) = entry_for n xs"
  by (simp add: entry_for_def work_of_def credits_Cons)

lemma slot_of:
  assumes "ids_hold B ids xs" "id_by_name ids n = Some i"
  shows "entry_at ids i = Some (entry_for n xs)" "i < length (id_entries ids)"
    "id_entries ids ! i = Some (entry_for n xs)"
proof -
  show 1: "entry_at ids i = Some (entry_for n xs)" using assms by (auto simp: ids_hold_def)
  then show "i < length (id_entries ids)" "id_entries ids ! i = Some (entry_for n xs)"
    by (auto simp: entry_at_def split: if_splits)
qed

lemma slot_distinct:
  assumes "ids_hold B ids xs" "id_by_name ids n = Some i" "id_by_name ids m = Some i"
  shows "m = n"
  using slot_of(1) [OF assms(1,2)] slot_of(1) [OF assms(1,3)] by (metis entry_for_name option.inject)

lemma ids_hold_keep:
  assumes h: "ids_hold B ids (x # xs)" and i: "id_by_name ids (sh_identity x) = Some i"
    and more: "credits (sh_identity x) xs \<noteq> []"
  shows "ids_hold B (put_entry ids i (entry_for (sh_identity x) xs)) xs"
proof -
  let ?n = "sh_identity x" and ?ids = "put_entry ids i (entry_for (sh_identity x) xs)"
  note slot = slot_of [OF h i]
  have ent: "entry_at ?ids j = (if j = i then Some (entry_for ?n xs) else entry_at ids j)" for j
    using slot(2) by (simp add: entry_at_put)
  have in_xs: "?n \<in> sh_identity ` set xs" using more by (simp add: credits_empty_iff)
  have 1: "m \<in> sh_identity ` set xs \<and> entry_at ?ids j = Some (entry_for m xs)" if "id_by_name ?ids m = Some j" for m j
  proof (cases "m = ?n")
    case True
    then show ?thesis using that i in_xs ent by simp
  next
    case False
    have m: "id_by_name ids m = Some j" using that by simp
    then have "m \<in> sh_identity ` set (x # xs)" using h by (auto simp: ids_hold_def)
    moreover have "j \<noteq> i" using slot_distinct [OF h i] m False by blast
    ultimately show ?thesis using False ent slot_of(1) [OF h m] by (auto simp: entry_for_other_Cons)
  qed
  have 2: "id_by_name ?ids (ie_name e) = Some j" if "entry_at ?ids j = Some e" for j e
    using that ent i h by (auto simp: ids_hold_def split: if_splits)
  have 3: "set (id_free ?ids) = {j. j < length (id_entries ?ids) \<and> id_entries ?ids ! j = None}"
    using h slot(1) by (intro free_put_entry) (auto simp: ids_hold_def)
  show ?thesis unfolding ids_hold_def using 1 2 3 h by (auto simp: ids_hold_def)
qed

lemma ids_hold_release:
  assumes h: "ids_hold B ids (x # xs)" and i: "id_by_name ids (sh_identity x) = Some i"
    and gone: "credits (sh_identity x) xs = []"
  shows "ids_hold B (ids\<lparr>id_entries := (id_entries ids)[i := None],
    id_by_name := (id_by_name ids)(sh_identity x := None), id_free := i # id_free ids\<rparr>) xs" (is "ids_hold B ?ids xs")
proof -
  let ?n = "sh_identity x"
  note slot = slot_of [OF h i]
  have ent: "entry_at ?ids j = (if j = i then None else entry_at ids j)" for j
    using slot(2) by (auto simp: entry_at_def)
  have out: "?n \<notin> sh_identity ` set xs" using gone by (simp add: credits_empty_iff)
  have 1: "m \<in> sh_identity ` set xs \<and> entry_at ?ids j = Some (entry_for m xs)" if "id_by_name ?ids m = Some j" for m j
  proof -
    have m: "m \<noteq> ?n" "id_by_name ids m = Some j" using that by (auto split: if_splits)
    then have "m \<in> sh_identity ` set (x # xs)" using h by (auto simp: ids_hold_def)
    moreover have "j \<noteq> i" using slot_distinct [OF h i] m by blast
    ultimately show ?thesis using m(1) ent slot_of(1) [OF h m(2)] by (auto simp: entry_for_other_Cons)
  qed
  have 2: "id_by_name ?ids (ie_name e) = Some j" if "entry_at ?ids j = Some e" for j e
  proof -
    have "j \<noteq> i" "entry_at ids j = Some e" using that ent by (auto split: if_splits)
    then have "id_by_name ids (ie_name e) = Some j" using h by (auto simp: ids_hold_def)
    then show ?thesis using \<open>j \<noteq> i\<close> i by auto
  qed
  have free: "distinct (id_free ids)" "set (id_free ids) = {i. i < length (id_entries ids) \<and> id_entries ids ! i = None}"
    using h by (auto simp: ids_hold_def)
  have "j \<in> set (i # id_free ids) \<longleftrightarrow> j < length (id_entries ids) \<and> (id_entries ids)[i := None] ! j = None" for j
  proof -
    have "j \<in> set (id_free ids) \<longleftrightarrow> j < length (id_entries ids) \<and> id_entries ids ! j = None" using free(2) by blast
    then show ?thesis using slot(2) by (cases "j = i") auto
  qed
  then have 3: "set (id_free ?ids) = {j. j < length (id_entries ?ids) \<and> id_entries ?ids ! j = None}" by auto
  have 4: "distinct (id_free ?ids)" using free slot(3) by auto
  have 5: "id_by_name ?ids m \<noteq> None" if "m \<in> sh_identity ` set xs" for m
  proof -
    have "m \<noteq> ?n" using that out by blast
    then show ?thesis using that h by (auto simp: ids_hold_def)
  qed
  show ?thesis unfolding ids_hold_def using 1 2 3 4 5 h by (auto simp: ids_hold_def)
qed

lemma drop_oldest_holds:
  assumes h: "holds B c (x # xs)"
  obtains c' where "drop_oldest c = Some c'" "holds B c' xs"
proof -
  let ?n = "sh_identity x" and ?ids = "co_identities c"
  obtain w ws where ws: "co_shares c = w # ws" "id_by_name ?ids ?n = Some (ws_credit w)"
    "w = window_share_new x (ws_credit w)"
    "list_all2 (\<lambda>w s. id_by_name ?ids (sh_identity s) = Some (ws_credit w) \<and> w = window_share_new s (ws_credit w)) ws xs"
    using h by (auto simp: holds_def list_all2_Cons2)
  let ?i = "ws_credit w"
  have ids: "ids_hold B ?ids (x # xs)" and tot: "co_total_work c = total_of (x # xs)" using h by (auto simp: holds_def)
  have d: "ws_difficulty w = sh_difficulty x" using ws(3) by (metis window_share.select_convs(1) window_share_new_def)
  note slot = slot_of [OF ids ws(2)]
  let ?e = "entry_for ?n (x # xs)"
  define e' where "e' = ?e\<lparr>ie_state := (ie_state ?e)\<lparr>is_work := is_work (ie_state ?e) - sh_difficulty x\<rparr>, ie_shares := ie_shares ?e - 1\<rparr>"
  have sh: "ie_shares e' = length (credits ?n xs)" by (simp add: e'_def entry_for_def credits_Cons)
  have e': "e' = entry_for ?n xs" if "credits ?n xs \<noteq> []"
    using that by (simp add: e'_def entry_for_def work_of_def credits_Cons)
  have guard: "\<not> (co_total_work c < sh_difficulty x \<or> is_work (ie_state ?e) < sh_difficulty x \<or> ie_shares ?e = 0)"
    by (simp add: tot total_of_def entry_for_def work_of_def credits_Cons)
  have unf: "drop_oldest c = Option.bind (if ie_shares e' = 0 then release_identity (put_entry ?ids ?i e') ?i else Some (put_entry ?ids ?i e'))
      (\<lambda>ids. Some \<lparr>co_shares = ws, co_identities = ids, co_total_work = co_total_work c - sh_difficulty x\<rparr>)"
    unfolding drop_oldest_def ws(1) list.case Let_def d slot(1) bind.simps if_not_P [OF guard] e'_def by simp
  show thesis
  proof (cases "credits ?n xs = []")
    case True
    let ?ids' = "?ids\<lparr>id_entries := (id_entries ?ids)[?i := None], id_by_name := (id_by_name ?ids)(?n := None), id_free := ?i # id_free ?ids\<rparr>"
    have nm: "ie_name e' = ?n" by (simp add: e'_def)
    have "release_identity (put_entry ?ids ?i e') ?i = Some ?ids'"
      using slot(2) nm by (simp add: release_identity_def put_entry_def)
    then have "drop_oldest c = Some \<lparr>co_shares = ws, co_identities = ?ids', co_total_work = co_total_work c - sh_difficulty x\<rparr>"
      using unf sh True by simp
    moreover have "list_all2 (\<lambda>w s. id_by_name ?ids' (sh_identity s) = Some (ws_credit w) \<and> w = window_share_new s (ws_credit w)) ws xs"
      by (rule list_all2_by_name [OF ws(4)]) (use True in \<open>auto simp: credits_empty_iff image_iff\<close>)
    ultimately show thesis
      using ids_hold_release [OF ids ws(2) True] tot
      by (intro that [of "\<lparr>co_shares = ws, co_identities = ?ids', co_total_work = co_total_work c - sh_difficulty x\<rparr>"])
        (simp_all add: holds_def total_of_def)
  next
    case False
    then have "drop_oldest c = Some \<lparr>co_shares = ws, co_identities = put_entry ?ids ?i e', co_total_work = co_total_work c - sh_difficulty x\<rparr>"
      using unf sh by simp
    then show thesis
      using ids_hold_keep [OF ids ws(2) False] tot ws(4) e' [OF False]
      by (intro that [of "\<lparr>co_shares = ws, co_identities = put_entry ?ids ?i e', co_total_work = co_total_work c - sh_difficulty x\<rparr>"])
        (simp_all add: holds_def total_of_def)
  qed
qed

lemma holds_length: "holds B c xs \<Longrightarrow> length (co_shares c) = length xs"
  by (auto simp: holds_def dest: list_all2_lengthD)

section \<open>Lemmas: trimming\<close>

lemma trim_work_holds:
  assumes "holds B c xs"
  obtains c' where "trim_work window c = Some c'" "holds B c' (trim_shares_work window xs)"
  using assms
proof (induction xs arbitrary: c thesis)
  case Nil
  then show ?case by (intro Nil.prems(1) [of c]) (simp_all add: trim_work.simps holds_length)
next
  case (Cons x xs)
  note h = Cons.prems(2)
  have len: "length (co_shares c) = Suc (length xs)" using holds_length [OF h] by simp
  have tot: "co_total_work c = total_of (x # xs)" using h by (simp add: holds_def)
  have hd: "ws_difficulty (hd (co_shares c)) = sh_difficulty x"
    using h by (auto simp: holds_def list_all2_Cons2) (metis window_share.select_convs(1) window_share_new_def)
  have sum: "total_of (x # xs) = sh_difficulty x + total_of xs" by (simp add: total_of_def)
  show ?case
  proof (cases "xs \<noteq> [] \<and> window \<le> total_of xs \<and> window < total_of (x # xs)")
    case True
    obtain c1 where c1: "drop_oldest c = Some c1" "holds B c1 xs" by (rule drop_oldest_holds [OF h])
    obtain c2 where c2: "trim_work window c1 = Some c2" "holds B c2 (trim_shares_work window xs)"
      by (rule Cons.IH [OF _ c1(2)])
    have "trim_work window c = Some c2"
      using True len tot hd sum c1(1) c2(1) by (subst trim_work.simps) (auto simp: Let_def)
    then show ?thesis using c2(2) True by (intro Cons.prems(1)) simp_all
  next
    case False
    have "trim_work window c = Some c"
      using False len tot hd sum by (subst trim_work.simps) (auto simp: Let_def)
    moreover have "trim_shares_work window (x # xs) = x # xs" using False by (simp only: trim_shares_work.simps if_False)
    ultimately show ?thesis using h by (intro Cons.prems(1)) (simp_all only:)
  qed
qed

lemma trim_count_holds:
  assumes "holds B c xs"
  obtains c' where "trim_count m c = Some c'" "holds B c' (drop (length xs - m) xs)"
  using assms
proof (induction xs arbitrary: c thesis)
  case Nil
  then show ?case by (intro Nil.prems(1) [of c]) (simp_all add: trim_count.simps holds_length)
next
  case (Cons x xs)
  show ?case
  proof (cases "m < length (x # xs)")
    case True
    obtain c1 where c1: "drop_oldest c = Some c1" "holds B c1 xs" by (rule drop_oldest_holds [OF Cons.prems(2)])
    obtain c2 where c2: "trim_count m c1 = Some c2" "holds B c2 (drop (length xs - m) xs)"
      by (rule Cons.IH [OF _ c1(2)])
    have "trim_count m c = Some c2"
      using True c1(1) c2(1) holds_length [OF Cons.prems(2)] by (subst trim_count.simps) simp
    moreover have "length (x # xs) - m = Suc (length xs - m)" using True by simp
    ultimately show ?thesis using c2 by (intro Cons.prems(1)) simp_all
  next
    case False
    then have "trim_count m c = Some c"
      using holds_length [OF Cons.prems(2)] by (subst trim_count.simps) simp
    then show ?thesis using False Cons.prems(2) by (intro Cons.prems(1)) simp_all
  qed
qed

lemma trim_holds:
  assumes "holds B c xs"
  obtains c' where "trim_contents window m c = Some c'" "holds B c' (trim_shares window m xs)"
proof -
  obtain c1 where c1: "trim_work window c = Some c1" "holds B c1 (trim_shares_work window xs)"
    by (rule trim_work_holds [OF assms])
  obtain c2 where "trim_count m c1 = Some c2"
    "holds B c2 (drop (length (trim_shares_work window xs) - m) (trim_shares_work window xs))"
    by (rule trim_count_holds [OF c1(2)])
  with c1 show thesis by (intro that) (simp_all add: trim_contents_def trim_shares_def Let_def)
qed

section \<open>Lemmas: what trimming keeps\<close>

lemma total_of_Cons [simp]: "total_of (x # xs) = sh_difficulty x + total_of xs"
  by (simp add: total_of_def)

lemma trim_shares_work_suffix: "\<exists>zs. xs = zs @ trim_shares_work window xs"
  by (induction xs) (auto intro: exI [of _ "[]"] exI [of _ "_ # _"])

lemma trim_shares_work_spec:
  "trim_shares_work window xs = xs \<or> window \<le> total_of (trim_shares_work window xs)"
  "trim_shares_work window xs = y # ys \<Longrightarrow> ys \<noteq> [] \<Longrightarrow> window < total_of (y # ys) \<Longrightarrow> total_of ys < window"
proof -
  show "trim_shares_work window xs = xs \<or> window \<le> total_of (trim_shares_work window xs)"
    by (induction xs) auto
  show "trim_shares_work window xs = y # ys \<Longrightarrow> ys \<noteq> [] \<Longrightarrow> window < total_of (y # ys) \<Longrightarrow> total_of ys < window"
    by (induction xs) (auto split: if_splits)
qed

lemma trim_shares_nonempty:
  assumes "xs \<noteq> []" "0 < m"
  shows "trim_shares window m xs \<noteq> []"
proof -
  have "trim_shares_work window xs \<noteq> []" using assms(1) by (induction xs) auto
  then have "0 < length (trim_shares_work window xs)" by simp
  then have "length (trim_shares_work window xs) - m < length (trim_shares_work window xs)" using assms(2) by linarith
  then show ?thesis by (simp only: trim_shares_def Let_def drop_eq_Nil not_le simp_thms)
qed

lemma length_trim_shares: "length (trim_shares window m xs) \<le> m"
  by (simp add: trim_shares_def Let_def)

lemma trim_shares_suffix: "\<exists>zs. xs = zs @ trim_shares window m xs"
proof -
  obtain zs where zs: "xs = zs @ trim_shares_work window xs" using trim_shares_work_suffix by blast
  let ?y = "trim_shares_work window xs"
  have "xs = (zs @ take (length ?y - m) ?y) @ drop (length ?y - m) ?y" using zs by simp
  then show ?thesis unfolding trim_shares_def Let_def by blast
qed

section \<open>Lemmas: reading back and the weights\<close>

fun window_after :: "nat \<Rightarrow> nat \<Rightarrow> share list \<Rightarrow> share list \<Rightarrow> share list" where
  "window_after window m xs [] = xs"
| "window_after window m xs (s # rows) = window_after window m (trim_shares window m (xs @ [s])) rows"

lemma empty_holds: "holds B empty_contents []"
  by (simp add: holds_def empty_contents_def ids_hold_def empty_identities_def entry_at_def total_of_def)

lemma read_rows_holds:
  assumes "holds (m + 1) c xs" "length xs \<le> m" "m < 2 ^ 32"
  shows "\<exists>c'. read_rows window m c rows = Some c' \<and> holds (m + 1) c' (window_after window m xs rows)"
  using assms
proof (induction rows arbitrary: c xs)
  case (Cons s rows)
  obtain c1 where c1: "push c s = Some c1" "holds (m + 1) c1 (xs @ [s])"
    by (rule push_holds [OF Cons.prems(1)]) (use Cons.prems in auto)
  obtain c2 where c2: "trim_contents window m c1 = Some c2" "holds (m + 1) c2 (trim_shares window m (xs @ [s]))"
    by (rule trim_holds [OF c1(2)])
  from Cons.IH [OF c2(2) length_trim_shares Cons.prems(3)] c1 c2 show ?case by simp
qed simp

lemma iter_identities_set:
  assumes "ids_hold B ids xs"
  shows "set (iter_identities ids) = (\<lambda>n. (n, ie_state (entry_for n xs))) ` (sh_identity ` set xs)"
    and "distinct (map fst (iter_identities ids))"
proof -
  have mem: "p \<in> set (iter_identities ids) \<longleftrightarrow> (\<exists>i e. entry_at ids i = Some e \<and> p = (ie_name e, ie_state e))" for p
  proof -
    have "p \<in> set (iter_identities ids) \<longleftrightarrow> (\<exists>e. Some e \<in> set (id_entries ids) \<and> p = (ie_name e, ie_state e))"
      by (force simp: iter_identities_def)
    moreover have "Some e \<in> set (id_entries ids) \<longleftrightarrow> (\<exists>i. entry_at ids i = Some e)" for e
      by (auto simp: entry_at_def in_set_conv_nth split: if_splits)
    ultimately show ?thesis by blast
  qed
  show "set (iter_identities ids) = (\<lambda>n. (n, ie_state (entry_for n xs))) ` (sh_identity ` set xs)"
  proof (intro set_eqI iffI)
    fix p assume "p \<in> set (iter_identities ids)"
    then obtain i e where e: "entry_at ids i = Some e" "p = (ie_name e, ie_state e)" using mem by blast
    then have n: "id_by_name ids (ie_name e) = Some i" using assms by (auto simp: ids_hold_def)
    then have "e = entry_for (ie_name e) xs" "ie_name e \<in> sh_identity ` set xs"
      using slot_of(1) [OF assms n] e assms by (auto simp: ids_hold_def)
    with e(2) have "p = (\<lambda>n. (n, ie_state (entry_for n xs))) (ie_name e)" by simp
    then show "p \<in> (\<lambda>n. (n, ie_state (entry_for n xs))) ` (sh_identity ` set xs)"
      using \<open>ie_name e \<in> sh_identity ` set xs\<close> by (rule image_eqI)
  next
    fix p assume "p \<in> (\<lambda>n. (n, ie_state (entry_for n xs))) ` (sh_identity ` set xs)"
    then obtain n where n: "n \<in> sh_identity ` set xs" "p = (n, ie_state (entry_for n xs))" by blast
    then obtain i where "id_by_name ids n = Some i" using assms by (auto simp: ids_hold_def)
    from slot_of(1) [OF assms this] n(2) mem show "p \<in> set (iter_identities ids)" by force
  qed
  have A: "distinct (map ie_name (map the (filter (\<lambda>e. e \<noteq> None) es)))"
    if "\<And>i j e f. i < length es \<Longrightarrow> j < length es \<Longrightarrow> es ! i = Some e \<Longrightarrow> es ! j = Some f \<Longrightarrow> ie_name e = ie_name f \<Longrightarrow> i = j" for es
    using that
  proof (induction es)
    case (Cons e es)
    have "distinct (map ie_name (map the (filter (\<lambda>e. e \<noteq> None) es)))"
      by (rule Cons.IH) (metis Cons.prems Suc_less_eq length_Cons nat.inject nth_Cons_Suc)
    moreover have "ie_name f \<notin> set (map ie_name (map the (filter (\<lambda>e. e \<noteq> None) es)))" if "e = Some f" for f
    proof
      assume "ie_name f \<in> set (map ie_name (map the (filter (\<lambda>e. e \<noteq> None) es)))"
      then obtain j g where "j < length es" "es ! j = Some g" "ie_name g = ie_name f"
        by (auto simp: in_set_conv_nth)
      then show False using Cons.prems [of 0 "Suc j" f g] that by simp
    qed
    ultimately show ?case by (cases e) auto
  qed simp
  have B: "i = j" if "i < length (id_entries ids)" "j < length (id_entries ids)" "id_entries ids ! i = Some e"
    "id_entries ids ! j = Some f" "ie_name e = ie_name f" for i j e f
  proof -
    have "entry_at ids i = Some e" "entry_at ids j = Some f" using that by (simp_all add: entry_at_def)
    then have "id_by_name ids (ie_name e) = Some i" "id_by_name ids (ie_name f) = Some j"
      using assms by (auto simp: ids_hold_def)
    then show "i = j" using that(5) by simp
  qed
  have "distinct (map ie_name (map the (filter (\<lambda>e. e \<noteq> None) (id_entries ids))))"
    by (rule A) (rule B)
  then show "distinct (map fst (iter_identities ids))"
    unfolding iter_identities_def map_map comp_def fst_conv .
qed

text \<open>\<open>Ledger::weights\<close>: the identities and their work.\<close>

definition contents_weights :: "contents \<Rightarrow> weights" where
  "contents_weights c = map (\<lambda>(n, st). (n, is_work st)) (iter_identities (co_identities c))"

lemma sum_work_of:
  "finite N \<Longrightarrow> sh_identity ` set xs \<subseteq> N \<Longrightarrow> sum (\<lambda>n. work_of n xs) N = total_of xs"
proof (induction xs)
  case (Cons x xs)
  have "sum (\<lambda>n. work_of n (x # xs)) N = sum (\<lambda>n. (if n = sh_identity x then sh_difficulty x else 0) + work_of n xs) N"
    by (intro sum.cong) (auto simp: work_of_def credits_Cons)
  also have "\<dots> = sh_difficulty x + sum (\<lambda>n. work_of n xs) N"
    using Cons.prems by (simp add: sum.distrib sum.delta)
  finally show ?case using Cons by simp
qed (simp add: work_of_def credits_def total_of_def)

lemma contents_weights_spec:
  assumes "holds B c xs"
  shows "distinct (map fst (contents_weights c))"
    "set (contents_weights c) = (\<lambda>n. (n, work_of n xs)) ` (sh_identity ` set xs)"
    "sum_list (map snd (contents_weights c)) = total_of xs"
proof -
  have ids: "ids_hold B (co_identities c) xs" using assms by (simp add: holds_def)
  note it = iter_identities_set [OF ids]
  have fst_eq: "map fst (contents_weights c) = map fst (iter_identities (co_identities c))"
    by (simp add: contents_weights_def comp_def split_beta)
  show d: "distinct (map fst (contents_weights c))" using it(2) fst_eq by simp
  have "set (contents_weights c) = (\<lambda>(n, st). (n, is_work st)) ` set (iter_identities (co_identities c))"
    by (simp add: contents_weights_def)
  also have "\<dots> = (\<lambda>n. (n, work_of n xs)) ` (sh_identity ` set xs)"
    unfolding it(1) image_image by (simp add: entry_for_def)
  finally show s: "set (contents_weights c) = (\<lambda>n. (n, work_of n xs)) ` (sh_identity ` set xs)" .
  have "distinct (contents_weights c)" using d by (simp only: distinct_map)
  then have "sum_list (map snd (contents_weights c)) = sum snd (set (contents_weights c))"
    by (simp add: sum_list_distinct_conv_sum_set)
  also have "\<dots> = sum (\<lambda>n. work_of n xs) (sh_identity ` set xs)"
    unfolding s by (subst sum.reindex) (auto simp: inj_on_def)
  also have "\<dots> = total_of xs" by (rule sum_work_of) simp_all
  finally show "sum_list (map snd (contents_weights c)) = total_of xs" .
qed

lemma total_of_lt:
  assumes "\<forall>s \<in> set xs. sh_difficulty s < 2 ^ 64" "length xs \<le> m"
  shows "total_of xs \<le> m * (2 ^ 64 - 1)"
proof -
  have "total_of xs \<le> length xs * (2 ^ 64 - 1)"
    using assms(1)
  proof (induction xs)
    case (Cons x xs)
    then have "sh_difficulty x \<le> 2 ^ 64 - 1" "total_of xs \<le> length xs * (2 ^ 64 - 1)" by auto
    then show ?case by simp
  qed (simp add: total_of_def)
  also have "\<dots> \<le> m * (2 ^ 64 - 1)" using assms(2) by (rule mult_le_mono1)
  finally show ?thesis .
qed

lemma total_lt_128:
  assumes "\<forall>s \<in> set xs. sh_difficulty s < 2 ^ 64" "length xs \<le> MAX_SHARES + 1"
  shows "total_of xs < 2 ^ 128"
  using total_of_lt [OF assms] by (simp add: MAX_SHARES_def)

section \<open>What the window guarantees\<close>

text \<open>C6: the window refines a list of shares and never panics: \<open>push\<close> appends, \<open>trim_contents\<close>
  trims, and reading back any rows of the store gives the window that pushing and trimming them one
  by one gives; every index and \<open>expect\<close> on the way succeeds for any window of fewer than \<open>2 ^ 32\<close>
  shares.\<close>

theorem window_refines_share_list:
  assumes "holds (max_shares + 1) c xs" "length xs \<le> max_shares" "max_shares < 2 ^ 32"
  shows "(\<exists>c'. push c s = Some c' \<and> holds (max_shares + 1) c' (xs @ [s]) \<and>
      (\<exists>c''. trim_contents window max_shares c' = Some c'' \<and>
        holds (max_shares + 1) c'' (trim_shares window max_shares (xs @ [s])))) \<and>
    (\<exists>c'. read_contents window max_shares rows = Some c' \<and>
      holds (max_shares + 1) c' (window_after window max_shares [] rows))"
proof -
  obtain c1 where c1: "push c s = Some c1" "holds (max_shares + 1) c1 (xs @ [s])"
    by (rule push_holds [OF assms(1)]) (use assms in auto)
  obtain c2 where "trim_contents window max_shares c1 = Some c2"
    "holds (max_shares + 1) c2 (trim_shares window max_shares (xs @ [s]))"
    by (rule trim_holds [OF c1(2)])
  with c1 read_rows_holds [OF empty_holds _ assms(3), of window rows] show ?thesis
    by (auto simp: read_contents_def)
qed

definition sample_share :: "u8 \<Rightarrow> nat \<Rightarrow> share" where
  "sample_share b d = \<lparr>sh_accepted_at = 1000, sh_identity = [b], sh_difficulty = d,
     sh_block_hash = replicate 32 b, sh_tag_secondary = []\<rparr>"

theorem window_refines_share_list_witness:
  "\<exists>c' c''. push empty_contents (sample_share 1 5) = Some c' \<and> holds 4 c' [sample_share 1 5] \<and>
     trim_contents 10 3 c' = Some c'' \<and> holds 4 c'' (trim_shares 10 3 [sample_share 1 5])"
  using window_refines_share_list [of 3 empty_contents "[]" "sample_share 1 5" 10 "[]"] empty_holds [of 4] by auto

text \<open>The window is the newest shares that reach its work: trimming keeps a suffix of at most
  \<open>max_shares\<close> shares, never empty; when the count does not cut it, the suffix is everything or
  still reaches the window's work, and without its oldest share it would fall short.\<close>

theorem window_is_newest_enough:
  assumes "xs \<noteq> []" "0 < max_shares" "ys = trim_shares window max_shares xs"
  shows "(\<exists>zs. xs = zs @ ys) \<and> ys \<noteq> [] \<and> length ys \<le> max_shares \<and>
    (length ys < max_shares \<longrightarrow>
       (ys = xs \<or> window \<le> total_of ys) \<and>
       (1 < length ys \<and> window < total_of ys \<longrightarrow> total_of (tl ys) < window))"
proof -
  have full: "ys = trim_shares_work window xs" if "length ys < max_shares"
    using that assms(3) by (auto simp: trim_shares_def Let_def)
  have "(ys = xs \<or> window \<le> total_of ys) \<and> (1 < length ys \<and> window < total_of ys \<longrightarrow> total_of (tl ys) < window)"
    if "length ys < max_shares"
    using trim_shares_work_spec(1) [of window xs] trim_shares_work_spec(2) [of window xs]
    unfolding full [OF that, symmetric] by (cases ys) auto
  then have tail: "length ys < max_shares \<longrightarrow> (ys = xs \<or> window \<le> total_of ys) \<and>
      (1 < length ys \<and> window < total_of ys \<longrightarrow> total_of (tl ys) < window)" by simp
  have "(\<exists>zs. xs = zs @ ys) \<and> ys \<noteq> [] \<and> length ys \<le> max_shares"
    unfolding assms(3)
    using trim_shares_suffix trim_shares_nonempty [OF assms(1,2)] length_trim_shares by simp
  with tail show ?thesis by simp
qed

theorem window_is_newest_enough_witness:
  "trim_shares 6 5 [sample_share 1 5, sample_share 2 4, sample_share 1 3] = [sample_share 2 4, sample_share 1 3] \<and>
   total_of (tl [sample_share 2 4, sample_share 1 3]) < 6"
proof -
  have eq: "[sample_share 2 4, sample_share 1 3] = trim_shares 6 5 [sample_share 1 5, sample_share 2 4, sample_share 1 3]"
    by (simp add: trim_shares_def Let_def sample_share_def total_of_def)
  with window_is_newest_enough [OF _ _ eq] show ?thesis by (simp add: sample_share_def)
qed

text \<open>C27: the weights a block is split by are exactly the work in the window: each identity with a
  share in it is listed once, with the difficulty its shares sum to, and the weights total the
  window's work, which stays below 128 bits.\<close>

theorem weights_total_the_window:
  assumes "holds bound c xs" "\<forall>s \<in> set xs. sh_difficulty s < 2 ^ 64" "length xs \<le> MAX_SHARES + 1"
  shows "distinct (map fst (contents_weights c)) \<and>
    set (contents_weights c) = (\<lambda>n. (n, work_of n xs)) ` (sh_identity ` set xs) \<and>
    sum_list (map snd (contents_weights c)) = co_total_work c \<and> co_total_work c < 2 ^ 128"
proof -
  have "total_of xs < 2 ^ 128" by (rule total_lt_128 [OF assms(2,3)])
  then show ?thesis using contents_weights_spec [OF assms(1)] assms(1) by (simp add: holds_def)
qed

theorem weights_total_the_window_witness:
  "\<exists>c. push empty_contents (sample_share 1 5) = Some c \<and> contents_weights c = [([1], 5)] \<and>
     sum_list (map snd (contents_weights c)) = co_total_work c \<and> co_total_work c < 2 ^ 128"
proof -
  obtain c where c: "push empty_contents (sample_share 1 5) = Some c" "holds 4 c ([] @ [sample_share 1 5])"
    by (rule push_holds [OF empty_holds [of 4], of "sample_share 1 5"]) auto
  have w: "contents_weights c = [([1], 5)]"
    using c(1) by (auto simp: push_def empty_contents_def empty_identities_def index_of_def entry_at_def
        Let_def sample_share_def contents_weights_def iter_identities_def put_entry_def)
  show ?thesis
    using c w weights_total_the_window [OF c(2)] by (auto simp: sample_share_def MAX_SHARES_def)
qed

end
