(* ===== verification/Bounded.thy ===== *)
theory Bounded
  imports Prelude "HOL-Library.AList"
begin

text \<open>
  prime/src/bounded.rs: the map and the set that forget their oldest entry once they are past a
  capacity.  The hash map is an association list with distinct keys (its order is never
  observed), the deque of keys is a list with the oldest key first.

  The contract is the recency list \<open>bounded_list\<close>: the pairs of the map, oldest first.  Every
  operation is shown to be a plain list operation on it, and the locale \<open>forgetful_map\<close> states
  what the pool's components rely on.
\<close>

record ('k, 'v) bounded_map =
  bm_entries :: "('k \<times> 'v) list"
  bm_order :: "'k list"
  bm_capacity :: nat

definition bounded_new :: "nat \<Rightarrow> ('k, 'v) bounded_map" where
  "bounded_new capacity = \<lparr>bm_entries = [], bm_order = [], bm_capacity = max capacity 1\<rparr>"

definition bounded_len :: "('k, 'v) bounded_map \<Rightarrow> nat" where
  "bounded_len m = length (bm_entries m)"

definition bounded_is_empty :: "('k, 'v) bounded_map \<Rightarrow> bool" where
  "bounded_is_empty m \<longleftrightarrow> bm_entries m = []"

definition bounded_get :: "('k, 'v) bounded_map \<Rightarrow> 'k \<Rightarrow> 'v option" where
  "bounded_get m k = map_of (bm_entries m) k"

definition forget_order :: "'k \<Rightarrow> 'k list \<Rightarrow> 'k list" where
  "forget_order k order = remove1 k order"

definition bounded_get_renewed ::
    "('k, 'v) bounded_map \<Rightarrow> 'k \<Rightarrow> ('k, 'v) bounded_map \<times> 'v option" where
  "bounded_get_renewed m k =
     (let m' = (if bounded_get m k \<noteq> None
                then m\<lparr>bm_order := forget_order k (bm_order m) @ [k]\<rparr> else m)
      in (m', bounded_get m' k))"

text \<open>The eviction loop of \<open>insert\<close>: it stops when the deque is empty.\<close>

fun evict_oldest :: "nat \<Rightarrow> ('k \<times> 'v) list \<Rightarrow> 'k list \<Rightarrow> ('k \<times> 'v) list \<times> 'k list" where
  "evict_oldest capacity entries order =
     (if capacity < length entries then
        (case order of
           [] \<Rightarrow> (entries, [])
         | oldest # rest \<Rightarrow> evict_oldest capacity (AList.delete oldest entries) rest)
      else (entries, order))"

declare evict_oldest.simps [simp del]

definition bounded_insert ::
    "('k, 'v) bounded_map \<Rightarrow> 'k \<Rightarrow> 'v \<Rightarrow> ('k, 'v) bounded_map \<times> 'v option" where
  "bounded_insert m k v =
     (let replaced = bounded_get m k;
          entries = AList.update k v (bm_entries m);
          order = (if replaced \<noteq> None then forget_order k (bm_order m) else bm_order m) @ [k];
          (entries, order) = evict_oldest (bm_capacity m) entries order
      in (m\<lparr>bm_entries := entries, bm_order := order\<rparr>, replaced))"

definition bounded_remove ::
    "('k, 'v) bounded_map \<Rightarrow> 'k \<Rightarrow> ('k, 'v) bounded_map \<times> 'v option" where
  "bounded_remove m k =
     (case bounded_get m k of
        None \<Rightarrow> (m, None)
      | Some v \<Rightarrow> (m\<lparr>bm_entries := AList.delete k (bm_entries m),
                     bm_order := forget_order k (bm_order m)\<rparr>, Some v))"

definition bounded_retain ::
    "('k \<Rightarrow> 'v \<Rightarrow> bool) \<Rightarrow> ('k, 'v) bounded_map \<Rightarrow> ('k, 'v) bounded_map" where
  "bounded_retain keep m =
     (let entries = filter (\<lambda>(k, v). keep k v) (bm_entries m)
      in m\<lparr>bm_entries := entries,
           bm_order := filter (\<lambda>k. map_of entries k \<noteq> None) (bm_order m)\<rparr>)"

subsection \<open>The bounded set\<close>

type_synonym 'a bounded_set = "('a, unit) bounded_map"

definition bounded_contains :: "'a bounded_set \<Rightarrow> 'a \<Rightarrow> bool" where
  "bounded_contains s x \<longleftrightarrow> bounded_get s x \<noteq> None"

definition bounded_set_insert :: "'a bounded_set \<Rightarrow> 'a \<Rightarrow> 'a bounded_set \<times> bool" where
  "bounded_set_insert s x =
     (if bounded_get s x \<noteq> None then (s, False) else (fst (bounded_insert s x ()), True))"

definition bounded_set_remove :: "'a bounded_set \<Rightarrow> 'a \<Rightarrow> 'a bounded_set \<times> bool" where
  "bounded_set_remove s x = (let (s', v) = bounded_remove s x in (s', v \<noteq> None))"

subsection \<open>The invariant and the recency list\<close>

definition bounded_ok :: "('k, 'v) bounded_map \<Rightarrow> bool" where
  "bounded_ok m \<longleftrightarrow> distinct (map fst (bm_entries m)) \<and> distinct (bm_order m) \<and>
     set (bm_order m) = fst ` set (bm_entries m) \<and> length (bm_entries m) \<le> bm_capacity m \<and>
     0 < bm_capacity m"

definition bounded_list :: "('k, 'v) bounded_map \<Rightarrow> ('k \<times> 'v) list" where
  "bounded_list m = map (\<lambda>k. (k, the (map_of (bm_entries m) k))) (bm_order m)"

definition newest :: "nat \<Rightarrow> 'a list \<Rightarrow> 'a list" where
  "newest n xs = drop (length xs - n) xs"

lemma newest_all [simp]: "length xs \<le> n \<Longrightarrow> newest n xs = xs"
  by (simp add: newest_def)

lemma newest_Cons: "n \<le> length xs \<Longrightarrow> newest n (x # xs) = newest n xs"
  by (simp add: newest_def Suc_diff_le)

lemma length_newest [simp]: "length (newest n xs) = min n (length xs)"
  by (simp add: newest_def)

lemma remove1_distinct: "distinct xs \<Longrightarrow> remove1 x xs = filter (\<lambda>y. y \<noteq> x) xs"
  by (simp add: distinct_remove1_removeAll removeAll_filter_not_eq) metis

lemma distinct_keys_delete:
  "distinct (map fst al) \<Longrightarrow> distinct (map fst (AList.delete k al))"
  by (simp add: distinct_delete)

lemma filter_absent [simp]: "k \<notin> set xs \<Longrightarrow> filter (\<lambda>x. x \<noteq> k) xs = xs"
  by (induction xs) auto

lemma keys_delete: "fst ` set (AList.delete k al) = fst ` set al - {k}"
proof -
  have "set (map fst (AList.delete k al)) = set (map fst al) - {k}" by (simp only: delete_keys set_removeAll)
  then show ?thesis by simp
qed

lemma length_update:
  "length (AList.update k v al) = (if k \<in> fst ` set al then length al else Suc (length al))"
  by (induction al) auto

lemma order_length:
  assumes "distinct (map fst al)" "distinct ks" "set ks = fst ` set al"
  shows "length ks = length al"
proof -
  have "length ks = card (set ks)" using assms(2) by (simp add: distinct_card)
  also have "\<dots> = card (set (map fst al))" using assms(3) by simp
  also have "\<dots> = length al" using assms(1) distinct_card [of "map fst al"] by simp
  finally show ?thesis .
qed

text \<open>The eviction loop keeps the newest \<open>capacity\<close> keys of the order and their entries.\<close>

lemma evict_oldest_spec:
  assumes "distinct (map fst al)" "distinct ks" "set ks = fst ` set al"
    and "evict_oldest c al ks = (al', ks')"
  shows "ks' = newest c ks" "distinct (map fst al')" "set ks' = fst ` set al'"
    and "\<And>k. map_of al' k = (if k \<in> set ks' then map_of al k else None)"
proof -
  have "ks' = newest c ks \<and> distinct (map fst al') \<and> set ks' = fst ` set al' \<and>
        (\<forall>k. map_of al' k = (if k \<in> set ks' then map_of al k else None))"
    using assms
  proof (induction ks arbitrary: al)
    case Nil
    then have "al = []" by simp
    with Nil show ?case by (simp add: evict_oldest.simps)
  next
    case (Cons k ks)
    note len = order_length [OF Cons.prems(1-3)]
    show ?case
    proof (cases "c < length al")
      case False
      then have "al' = al" "ks' = k # ks"
        using Cons.prems(4) by (simp_all add: evict_oldest.simps [of c al])
      moreover have "map_of al x = None" if "x \<notin> set (k # ks)" for x
        using that Cons.prems(3) by (simp only: map_of_eq_None_iff) simp
      ultimately show ?thesis using False Cons.prems len by auto
    next
      case True
      let ?al = "AList.delete k al"
      have set: "set ks = fst ` set ?al"
        using Cons.prems(2,3) by (auto simp: keys_delete)
      have "distinct (map fst ?al)" "distinct ks" using Cons.prems(1,2) by (simp_all add: distinct_keys_delete)
      moreover have "evict_oldest c ?al ks = (al', ks')"
        using Cons.prems(4) True by (simp add: evict_oldest.simps [of c al])
      ultimately have IH: "ks' = newest c ks" "distinct (map fst al')" "set ks' = fst ` set al'"
        "\<forall>x. map_of al' x = (if x \<in> set ks' then map_of ?al x else None)"
        using Cons.IH [OF _ _ set] by blast+
      have "c \<le> length ks" using True len by simp
      with IH(1) have "ks' = newest c (k # ks)" by (simp add: newest_Cons)
      moreover have "k \<notin> set ks'"
        using IH(1) Cons.prems(2) by (auto simp: newest_def dest: in_set_dropD)
      ultimately show ?thesis using IH by (auto simp: delete_conv)
    qed
  qed
  then show "ks' = newest c ks" "distinct (map fst al')" "set ks' = fst ` set al'"
    "\<And>k. map_of al' k = (if k \<in> set ks' then map_of al k else None)" by blast+
qed

lemma map_of_keyed: "map_of (map (\<lambda>k. (k, f k)) ks) k = (if k \<in> set ks then Some (f k) else None)"
  by (induction ks) auto

lemma newest_map: "newest n (map f xs) = map f (newest n xs)"
  by (simp add: newest_def drop_map)

lemma set_newest: "x \<in> set (newest n xs) \<Longrightarrow> x \<in> set xs"
  by (auto simp: newest_def dest: in_set_dropD)

lemma distinct_newest: "distinct xs \<Longrightarrow> distinct (newest n xs)"
  by (simp add: newest_def)

lemma bounded_member:
  assumes "bounded_ok m"
  shows "bounded_get m k \<noteq> None \<longleftrightarrow> k \<in> set (bm_order m)"
  using assms by (metis bounded_get_def bounded_ok_def map_of_eq_None_iff)

lemma bounded_get_list:
  assumes "bounded_ok m"
  shows "bounded_get m k = map_of (bounded_list m) k"
  using bounded_member [OF assms, of k] by (auto simp: bounded_list_def map_of_keyed bounded_get_def)

lemma bounded_list_keys [simp]: "map fst (bounded_list m) = bm_order m"
  by (simp add: bounded_list_def comp_def)

lemma bounded_len_list:
  assumes "bounded_ok m"
  shows "bounded_len m = length (bounded_list m)"
  using assms order_length [of "bm_entries m" "bm_order m"]
  by (simp add: bounded_len_def bounded_ok_def bounded_list_def)

lemma filter_keyed:
  "filter (\<lambda>p. fst p \<noteq> k) (map (\<lambda>k. (k, f k)) ks) = map (\<lambda>k. (k, f k)) (filter (\<lambda>x. x \<noteq> k) ks)"
  by (induction ks) auto

lemma bounded_new_ok [simp]: "bounded_ok (bounded_new c)" "bounded_list (bounded_new c) = []"
  by (auto simp: bounded_ok_def bounded_new_def bounded_list_def)

lemma bounded_insert_refines:
  assumes ok: "bounded_ok m" and ins: "bounded_insert m k v = (m', r)"
  shows "bounded_ok m'" "bm_capacity m' = bm_capacity m" "r = bounded_get m k"
    and "bounded_list m' =
           newest (bm_capacity m) (filter (\<lambda>p. fst p \<noteq> k) (bounded_list m) @ [(k, v)])"
proof -
  let ?al = "AList.update k v (bm_entries m)"
  let ?ks = "filter (\<lambda>x. x \<noteq> k) (bm_order m) @ [k]"
  have keys: "set (bm_order m) = fst ` set (bm_entries m)" "distinct (bm_order m)"
    "distinct (map fst (bm_entries m))" "0 < bm_capacity m" using ok by (simp_all add: bounded_ok_def)
  have order: "(if bounded_get m k \<noteq> None then forget_order k (bm_order m) else bm_order m) @ [k] = ?ks"
    using bounded_member [OF ok, of k] keys(2)
    by (auto simp: forget_order_def remove1_distinct)
  obtain al' ks' where ev: "evict_oldest (bm_capacity m) ?al ?ks = (al', ks')" by fastforce
  have m': "m' = m\<lparr>bm_entries := al', bm_order := ks'\<rparr>" and r: "r = bounded_get m k"
    using ins by (simp_all add: bounded_insert_def Let_def order ev del: not_None_eq)
  have al: "distinct (map fst ?al)" using keys(3) by (simp add: distinct_update)
  have ks: "distinct ?ks" "set ?ks = fst ` set ?al" using keys(1,2) by (auto simp: dom_update)
  note ev' = evict_oldest_spec [OF al ks ev]
  have len: "length ks' \<le> bm_capacity m" using ev'(1) by simp
  have "distinct ks'" using ks(1) ev'(1) by (simp add: distinct_newest)
  then show "bounded_ok m'" "bm_capacity m' = bm_capacity m" "r = bounded_get m k"
    using m' r ev'(2,3) keys(4) order_length [OF ev'(2) _ ev'(3)] len
    by (simp_all add: bounded_ok_def)
  let ?f = "\<lambda>x. (x, if x = k then v else the (map_of (bm_entries m) x))"
  have "bounded_list m' = map ?f ks'"
    using m' ev'(4) by (auto simp: bounded_list_def update_conv)
  also have "\<dots> = newest (bm_capacity m) (map ?f ?ks)" by (simp only: ev'(1) newest_map)
  also have "map ?f ?ks = filter (\<lambda>p. fst p \<noteq> k) (bounded_list m) @ [(k, v)]"
    by (simp add: bounded_list_def filter_keyed)
  finally show "bounded_list m' =
    newest (bm_capacity m) (filter (\<lambda>p. fst p \<noteq> k) (bounded_list m) @ [(k, v)])" .
qed

lemma bounded_remove_refines:
  assumes ok: "bounded_ok m" and rem: "bounded_remove m k = (m', r)"
  shows "bounded_ok m'" "bm_capacity m' = bm_capacity m" "r = bounded_get m k"
    and "bounded_list m' = filter (\<lambda>p. fst p \<noteq> k) (bounded_list m)"
proof -
  have keys: "set (bm_order m) = fst ` set (bm_entries m)" "distinct (bm_order m)"
    "distinct (map fst (bm_entries m))" "length (bm_entries m) \<le> bm_capacity m" "0 < bm_capacity m"
    using ok by (simp_all add: bounded_ok_def)
  show "r = bounded_get m k" "bm_capacity m' = bm_capacity m"
    using rem by (auto simp: bounded_remove_def split: option.splits)
  have "bounded_ok m' \<and> bounded_list m' = filter (\<lambda>p. fst p \<noteq> k) (bounded_list m)"
  proof (cases "bounded_get m k")
    case None
    then have "k \<notin> set (bm_order m)" using bounded_member [OF ok] by blast
    then have "filter (\<lambda>x. x \<noteq> k) (bm_order m) = bm_order m" by simp
    with None rem ok show ?thesis by (simp add: bounded_remove_def bounded_list_def filter_keyed)
  next
    case (Some v)
    then have m': "m' = m\<lparr>bm_entries := AList.delete k (bm_entries m),
                          bm_order := filter (\<lambda>x. x \<noteq> k) (bm_order m)\<rparr>"
      using rem keys(2) by (auto simp: bounded_remove_def forget_order_def remove1_distinct)
    have "length (AList.delete k (bm_entries m)) \<le> bm_capacity m"
      using length_delete_le [of k "bm_entries m"] keys(4) by simp
    with m' keys have "bounded_ok m'"
      by (auto simp: bounded_ok_def distinct_keys_delete keys_delete)
    moreover have "bounded_list m' = filter (\<lambda>p. fst p \<noteq> k) (bounded_list m)"
      using m' by (simp add: bounded_list_def filter_keyed delete_conv)
    ultimately show ?thesis by simp
  qed
  then show "bounded_ok m'" "bounded_list m' = filter (\<lambda>p. fst p \<noteq> k) (bounded_list m)" by blast+
qed

lemma bounded_get_renewed_refines:
  assumes ok: "bounded_ok m" and get: "bounded_get_renewed m k = (m', r)"
  shows "bounded_ok m'" "bm_capacity m' = bm_capacity m" "r = bounded_get m k"
    and "bounded_list m' =
           (case bounded_get m k of None \<Rightarrow> bounded_list m
            | Some v \<Rightarrow> filter (\<lambda>p. fst p \<noteq> k) (bounded_list m) @ [(k, v)])"
proof -
  have keys: "distinct (bm_order m)" "set (bm_order m) = fst ` set (bm_entries m)"
    using ok by (simp_all add: bounded_ok_def)
  show "bm_capacity m' = bm_capacity m" "r = bounded_get m k"
    using get by (auto simp: bounded_get_renewed_def Let_def bounded_get_def)
  have "bounded_ok m' \<and> bounded_list m' =
           (case bounded_get m k of None \<Rightarrow> bounded_list m
            | Some v \<Rightarrow> filter (\<lambda>p. fst p \<noteq> k) (bounded_list m) @ [(k, v)])"
  proof (cases "bounded_get m k")
    case None
    with ok get show ?thesis by (simp add: bounded_get_renewed_def)
  next
    case (Some v)
    then have m': "m' = m\<lparr>bm_order := filter (\<lambda>x. x \<noteq> k) (bm_order m) @ [k]\<rparr>"
      using get keys(1) by (simp add: bounded_get_renewed_def Let_def forget_order_def remove1_distinct)
    have "k \<in> set (bm_order m)" using Some bounded_member [OF ok, of k] by simp
    with m' ok have "bounded_ok m'" by (auto simp: bounded_ok_def)
    moreover have "bounded_list m' = filter (\<lambda>p. fst p \<noteq> k) (bounded_list m) @ [(k, v)]"
      using m' Some by (simp add: bounded_list_def filter_keyed bounded_get_def)
    ultimately show ?thesis using Some by simp
  qed
  then show "bounded_ok m'" "bounded_list m' =
           (case bounded_get m k of None \<Rightarrow> bounded_list m
            | Some v \<Rightarrow> filter (\<lambda>p. fst p \<noteq> k) (bounded_list m) @ [(k, v)])" by blast+
qed

lemma map_of_filter_keep:
  assumes "distinct (map fst al)"
  shows "map_of (filter (\<lambda>(k, v). keep k v) al) k =
           (case map_of al k of None \<Rightarrow> None | Some v \<Rightarrow> if keep k v then Some v else None)"
  using assms
proof (induction al)
  case (Cons p al)
  obtain a b where p: "p = (a, b)" by (cases p)
  have "map_of al a = None" using Cons.prems p by (simp add: map_of_eq_None_iff)
  with Cons p show ?case by (auto split: option.splits)
qed simp

lemma filter_kept_keys:
  assumes "\<And>k. k \<in> set ks \<Longrightarrow> f k \<noteq> None"
  shows "map (\<lambda>k. (k, the (case f k of None \<Rightarrow> None | Some v \<Rightarrow> if keep k v then Some v else None)))
           (filter (\<lambda>k. (case f k of None \<Rightarrow> None
                         | Some v \<Rightarrow> if keep k v then Some v else None) \<noteq> None) ks) =
         filter (\<lambda>(k, v). keep k v) (map (\<lambda>k. (k, the (f k))) ks)"
  using assms
proof (induction ks)
  case (Cons a ks)
  obtain v where "f a = Some v" using Cons.prems [of a] by auto
  with Cons show ?case by simp
qed simp

lemma bounded_retain_refines:
  assumes ok: "bounded_ok m"
  shows "bounded_ok (bounded_retain keep m)"
    and "bounded_list (bounded_retain keep m) = filter (\<lambda>(k, v). keep k v) (bounded_list m)"
proof -
  let ?al = "filter (\<lambda>(k, v). keep k v) (bm_entries m)"
  have keys: "set (bm_order m) = fst ` set (bm_entries m)" "distinct (bm_order m)"
    "distinct (map fst (bm_entries m))" using ok by (simp_all add: bounded_ok_def)
  have "distinct (map fst ?al)" using keys(3) by (simp add: distinct_map_filter)
  moreover have "length ?al \<le> bm_capacity m"
    using ok by (auto simp: bounded_ok_def intro: le_trans [OF length_filter_le])
  moreover have "set (filter (\<lambda>k. map_of ?al k \<noteq> None) (bm_order m)) = fst ` set ?al"
    using keys(1) by (auto simp: map_of_eq_None_iff simp del: not_None_eq)
  ultimately show "bounded_ok (bounded_retain keep m)"
    using ok by (simp add: bounded_ok_def bounded_retain_def Let_def del: not_None_eq)
  have "map_of (bm_entries m) k \<noteq> None" if "k \<in> set (bm_order m)" for k
    using that keys(1) by (simp only: map_of_eq_None_iff) simp
  then show "bounded_list (bounded_retain keep m) = filter (\<lambda>(k, v). keep k v) (bounded_list m)"
    by (simp add: bounded_list_def bounded_retain_def Let_def map_of_filter_keep [OF keys(3)]
        filter_kept_keys del: not_None_eq)
qed

subsection \<open>The contract the pool's components rely on\<close>

text \<open>
  A forgetful map keeps what was inserted last, never invents an entry, and forgets an entry only
  to make room: while fewer than \<open>capacity\<close> other keys were inserted since, it is still there.
\<close>

locale forgetful_map =
  fixes get :: "'m \<Rightarrow> 'k \<Rightarrow> 'v option" and put :: "'m \<Rightarrow> 'k \<Rightarrow> 'v \<Rightarrow> 'm"
    and room :: "'m \<Rightarrow> 'k \<Rightarrow> nat" and ok :: "'m \<Rightarrow> bool"
  assumes put_ok: "ok m \<Longrightarrow> ok (put m k v)"
    and get_put: "ok m \<Longrightarrow> get (put m k v) k = Some v"
    and get_other: "ok m \<Longrightarrow> j \<noteq> k \<Longrightarrow> get (put m k v) j = Some w \<Longrightarrow> get m j = Some w"
    and kept: "ok m \<Longrightarrow> j \<noteq> k \<Longrightarrow> get m j = Some w \<Longrightarrow> 0 < room m j \<Longrightarrow> get (put m k v) j = Some w"
    and room_put: "ok m \<Longrightarrow> room m j \<le> Suc (room (put m k v) j)"
begin

fun put_all :: "'m \<Rightarrow> ('k \<times> 'v) list \<Rightarrow> 'm" where
  "put_all m [] = m"
| "put_all m ((k, v) # kvs) = put_all (put m k v) kvs"

lemma put_all_ok: "ok m \<Longrightarrow> ok (put_all m kvs)"
  by (induction m kvs rule: put_all.induct) (auto intro: put_ok)

lemma survives:
  assumes "ok m" "get m j = Some w" "length kvs \<le> room m j" "j \<notin> fst ` set kvs"
  shows "get (put_all m kvs) j = Some w"
  using assms
proof (induction m kvs rule: put_all.induct)
  case (2 m k v kvs)
  have "get (put m k v) j = Some w" using 2 by (intro kept) auto
  moreover have "length kvs \<le> room (put m k v) j" using 2 room_put [of m j k v] by auto
  ultimately show ?case using 2 put_ok by simp
qed simp

lemma not_invented:
  assumes "ok m" "get (put_all m kvs) j = Some w" "j \<notin> fst ` set kvs"
  shows "get m j = Some w"
  using assms
proof (induction m kvs rule: put_all.induct)
  case (2 m k v kvs)
  then have "get (put m k v) j = Some w" using put_ok by simp
  with 2 show ?case by (intro get_other [of m j k v w]) auto
qed simp

end

definition room_for :: "('k, 'v) bounded_map \<Rightarrow> 'k \<Rightarrow> nat" where
  "room_for m k = bm_capacity m - length (dropWhile (\<lambda>x. x \<noteq> k) (bm_order m))"

lemma dropWhile_drop_le:
  "length (dropWhile P (drop n xs)) \<le> length (dropWhile P xs)"
proof (induction xs arbitrary: n)
  case (Cons x xs)
  show ?case
  proof (cases n)
    case (Suc i)
    have "length (dropWhile P (drop i xs)) \<le> length xs"
      by (rule le_trans [OF length_dropWhile_le]) simp
    with Cons.IH [of i] Suc show ?thesis by auto
  qed simp
qed simp

lemma dropWhile_moved_le:
  "j \<noteq> k \<Longrightarrow> length (dropWhile (\<lambda>x. x \<noteq> j) (filter (\<lambda>x. x \<noteq> k) xs @ [k]))
     \<le> Suc (length (dropWhile (\<lambda>x. x \<noteq> j) xs))"
proof (induction xs)
  case (Cons x xs)
  have "length (filter (\<lambda>x. x \<noteq> k) xs) \<le> length xs" by simp
  with Cons show ?case by auto
qed simp

lemma dropWhile_moved: "dropWhile (\<lambda>x. x \<noteq> k) (filter (\<lambda>x. x \<noteq> k) xs @ [k]) = [k]"
  by (induction xs) auto

lemma in_newest:
  assumes "j \<in> set xs" "length (dropWhile (\<lambda>x. x \<noteq> j) xs) \<le> n"
  shows "j \<in> set (newest n xs)"
proof -
  obtain ys zs where xs: "xs = ys @ j # zs" "j \<notin> set ys" using split_list_first [OF assms(1)] by blast
  have "\<forall>x \<in> set ys. x \<noteq> j" using xs(2) by blast
  then have "dropWhile (\<lambda>x. x \<noteq> j) xs = j # zs" using xs(1) by (simp add: dropWhile_append2)
  with assms(2) have "length xs - n \<le> length ys" using xs by simp
  with xs show ?thesis by (simp add: newest_def)
qed

lemma bounded_insert_order:
  assumes "bounded_ok m" "bounded_insert m k v = (m', r)"
  shows "bm_order m' = newest (bm_capacity m) (filter (\<lambda>x. x \<noteq> k) (bm_order m) @ [k])"
proof -
  have "bm_order m' = map fst (newest (bm_capacity m) (filter (\<lambda>p. fst p \<noteq> k) (bounded_list m) @ [(k, v)]))"
    using bounded_insert_refines(4) [OF assms] by (simp flip: bounded_list_keys)
  also have "\<dots> = newest (bm_capacity m) (filter (\<lambda>x. x \<noteq> k) (bm_order m) @ [k])"
    by (simp add: bounded_list_def filter_keyed comp_def flip: newest_map)
  finally show ?thesis .
qed

lemma map_of_newest_other:
  assumes "distinct (map fst xs)" "p \<in> set (newest n xs)"
  shows "map_of xs (fst p) = Some (snd p)"
  using assms by (cases p) (auto dest: set_newest)

lemma bounded_insert_get:
  assumes ok: "bounded_ok m" and ins: "bounded_insert m k v = (m', r)"
  shows "bounded_get m' j = (if j \<in> set (bm_order m') then if j = k then Some v else bounded_get m j
                             else None)"
proof -
  note ref = bounded_insert_refines [OF ok ins]
  let ?l = "filter (\<lambda>p. fst p \<noteq> k) (bounded_list m) @ [(k, v)]"
  have d: "distinct (map fst ?l)"
    using ok by (simp add: bounded_list_def filter_keyed comp_def bounded_ok_def)
  have l: "map_of ?l j = (if j = k then Some v else bounded_get m j)"
    by (auto simp: bounded_get_list [OF ok] bounded_list_def filter_keyed map_of_keyed map_add_def)
  show ?thesis
  proof (cases "j \<in> set (bm_order m')")
    case True
    then obtain w where w: "bounded_get m' j = Some w" using bounded_member [OF ref(1)] by blast
    then have "(j, w) \<in> set (bounded_list m')"
      by (simp add: bounded_get_list [OF ref(1)] map_of_SomeD)
    then have "map_of ?l j = Some w" using map_of_newest_other [OF d] ref(4) by fastforce
    with True w l show ?thesis by simp
  next
    case False
    then show ?thesis using bounded_member [OF ref(1)] by fastforce
  qed
qed

interpretation recent: forgetful_map bounded_get "\<lambda>m k v. fst (bounded_insert m k v)" room_for bounded_ok
proof
  fix m :: "('a, 'b) bounded_map" and k v j w
  assume ok: "bounded_ok m"
  obtain m' r where ins: "bounded_insert m k v = (m', r)" by fastforce
  note ref = bounded_insert_refines [OF ok ins] and order = bounded_insert_order [OF ok ins]
    and get = bounded_insert_get [OF ok ins]
  have cap: "0 < bm_capacity m" using ok by (simp add: bounded_ok_def)
  show "bounded_ok (fst (bounded_insert m k v))" using ins ref by simp
  have "k \<in> set (bm_order m')" using cap unfolding order by (intro in_newest) (auto simp: dropWhile_moved)
  then show "bounded_get (fst (bounded_insert m k v)) k = Some v" using ins get by simp
  show "bounded_get (fst (bounded_insert m k v)) j = Some w \<Longrightarrow> bounded_get m j = Some w" if "j \<noteq> k"
    using that ins get by (auto split: if_splits)
  show "bounded_get (fst (bounded_insert m k v)) j = Some w"
    if "j \<noteq> k" "bounded_get m j = Some w" "0 < room_for m j"
  proof -
    have "j \<in> set (bm_order m)" using that(2) bounded_member [OF ok] by fastforce
    then have "j \<in> set (bm_order m')" unfolding order
      using that(1,3) dropWhile_moved_le [of j k "bm_order m"]
      by (intro in_newest) (auto simp: room_for_def)
    with that ins get show ?thesis by simp
  qed
  show "room_for m j \<le> Suc (room_for (fst (bounded_insert m k v)) j)"
  proof -
    have "length (dropWhile (\<lambda>x. x \<noteq> j) (bm_order m')) \<le> Suc (length (dropWhile (\<lambda>x. x \<noteq> j) (bm_order m)))"
      unfolding order newest_def
    proof (rule le_trans [OF dropWhile_drop_le])
      show "length (dropWhile (\<lambda>x. x \<noteq> j) (filter (\<lambda>x. x \<noteq> k) (bm_order m) @ [k]))
          \<le> Suc (length (dropWhile (\<lambda>x. x \<noteq> j) (bm_order m)))"
        using dropWhile_moved_le [of j k "bm_order m"] by (cases "j = k") (simp_all add: dropWhile_moved)
    qed
    then show ?thesis using ins ref(2) by (simp add: room_for_def)
  qed
qed

subsection \<open>The map is a recency list\<close>

text \<open>The calls a client makes, and what each does to the map and to the recency list.\<close>

datatype ('k, 'v) bounded_op =
    Op_Insert 'k 'v | Op_Renew 'k | Op_Remove 'k | Op_Retain "'k \<Rightarrow> 'v \<Rightarrow> bool"

fun on_map :: "('k, 'v) bounded_op \<Rightarrow> ('k, 'v) bounded_map \<Rightarrow> ('k, 'v) bounded_map \<times> 'v option" where
  "on_map (Op_Insert k v) m = bounded_insert m k v"
| "on_map (Op_Renew k) m = bounded_get_renewed m k"
| "on_map (Op_Remove k) m = bounded_remove m k"
| "on_map (Op_Retain keep) m = (bounded_retain keep m, None)"

fun on_list :: "nat \<Rightarrow> ('k, 'v) bounded_op \<Rightarrow> ('k \<times> 'v) list \<Rightarrow> ('k \<times> 'v) list \<times> 'v option" where
  "on_list c (Op_Insert k v) l = (newest c (filter (\<lambda>p. fst p \<noteq> k) l @ [(k, v)]), map_of l k)"
| "on_list c (Op_Renew k) l =
     ((case map_of l k of None \<Rightarrow> l | Some v \<Rightarrow> filter (\<lambda>p. fst p \<noteq> k) l @ [(k, v)]), map_of l k)"
| "on_list c (Op_Remove k) l = (filter (\<lambda>p. fst p \<noteq> k) l, map_of l k)"
| "on_list c (Op_Retain keep) l = (filter (\<lambda>(k, v). keep k v) l, None)"

fun outputs_of :: "('op \<Rightarrow> 's \<Rightarrow> 's \<times> 'r) \<Rightarrow> 's \<Rightarrow> 'op list \<Rightarrow> 's \<times> 'r list" where
  "outputs_of step s [] = (s, [])"
| "outputs_of step s (a # as) =
     (let (s', r) = step a s; (s'', rs) = outputs_of step s' as in (s'', r # rs))"

lemma on_map_refines:
  assumes "bounded_ok m" "on_map a m = (m', r)"
  shows "bounded_ok m'" "bm_capacity m' = bm_capacity m"
    and "on_list (bm_capacity m) a (bounded_list m) = (bounded_list m', r)"
proof -
  have "bounded_ok m' \<and> bm_capacity m' = bm_capacity m \<and>
        on_list (bm_capacity m) a (bounded_list m) = (bounded_list m', r)"
  proof (cases a)
    case (Op_Insert k v)
    with assms bounded_insert_refines [OF assms(1), of k v m' r] show ?thesis
      by (simp add: bounded_get_list)
  next
    case (Op_Renew k)
    with assms bounded_get_renewed_refines [OF assms(1), of k m' r] show ?thesis
      by (simp add: bounded_get_list)
  next
    case (Op_Remove k)
    with assms bounded_remove_refines [OF assms(1), of k m' r] show ?thesis
      by (simp add: bounded_get_list)
  next
    case (Op_Retain keep)
    with assms bounded_retain_refines [OF assms(1), of keep] show ?thesis
      by (auto simp: bounded_retain_def Let_def)
  qed
  then show "bounded_ok m'" "bm_capacity m' = bm_capacity m"
    "on_list (bm_capacity m) a (bounded_list m) = (bounded_list m', r)" by blast+
qed

lemma runs_refine:
  assumes "bounded_ok m" "outputs_of on_map m ops = (m', rs)"
  shows "bounded_ok m' \<and> bm_capacity m' = bm_capacity m \<and>
         outputs_of (on_list (bm_capacity m)) (bounded_list m) ops = (bounded_list m', rs)"
  using assms
proof (induction ops arbitrary: m m' rs)
  case (Cons a ops)
  obtain m1 r where a: "on_map a m = (m1, r)" by fastforce
  obtain m2 rs' where rest: "outputs_of on_map m1 ops = (m2, rs')" by fastforce
  note ref = on_map_refines [OF Cons.prems(1) a]
  from Cons.IH [OF ref(1) rest] Cons.prems(2) a rest ref show ?case by (simp add: split_beta)
qed simp

text \<open>C34: whatever calls a component makes on a new bounded map, every answer it gets and the
  entries it is left with are those of a plain list of pairs, oldest first, that moves a pair to
  its end when it is inserted or renewed and keeps the newest \<open>capacity\<close> of them; in particular
  the map never holds more than its capacity and the deque of keys never drifts from the map.\<close>

theorem bounded_map_is_recency_list:
  assumes "outputs_of on_map (bounded_new capacity) ops = (m, answers)"
  shows "outputs_of (on_list (max capacity 1)) [] ops = (bounded_list m, answers) \<and>
         bounded_len m = length (bounded_list m) \<and> bounded_len m \<le> max capacity 1 \<and>
         (\<forall>k. bounded_get m k = map_of (bounded_list m) k)"
proof -
  have cap: "bm_capacity (bounded_new capacity) = max capacity 1" by (simp add: bounded_new_def)
  note run = runs_refine [OF bounded_new_ok(1) assms, unfolded cap bounded_new_ok(2)]
  then have ok: "bounded_ok m" by blast
  have "bounded_len m \<le> bm_capacity m" using ok by (simp add: bounded_ok_def bounded_len_def)
  with run bounded_len_list [OF ok] bounded_get_list [OF ok] show ?thesis by simp
qed

lemma bounded_map_is_recency_list_witness:
  "bounded_list (fst (outputs_of on_map (bounded_new 2)
     [Op_Insert (1::nat) ''a'', Op_Insert 2 ''b'', Op_Renew 1, Op_Insert 3 ''c''])) =
     [(1, ''a''), (3, ''c'')]"
proof -
  let ?ops = "[Op_Insert (1::nat) ''a'', Op_Insert 2 ''b'', Op_Renew 1, Op_Insert 3 ''c'']"
  obtain m answers where run: "outputs_of on_map (bounded_new 2) ?ops = (m, answers)" by fastforce
  have "fst (outputs_of (on_list (max 2 1)) [] ?ops) = [(1, ''a''), (3, ''c'')]"
    by (simp add: newest_def)
  with bounded_map_is_recency_list [OF run] have "bounded_list m = [(1, ''a''), (3, ''c'')]" by simp
  with run show ?thesis by (simp only: fst_conv)
qed

subsection \<open>The set remembers\<close>

lemma bounded_set_insert_ok:
  assumes "bounded_ok s"
  shows "bounded_ok (fst (bounded_set_insert s x))"
    and "bm_capacity (fst (bounded_set_insert s x)) = bm_capacity s"
    and "snd (bounded_set_insert s x) = (\<not> bounded_contains s x)"
    and "bounded_contains (fst (bounded_set_insert s x)) x"
  using assms recent.put_ok [OF assms, of x "()"] recent.get_put [OF assms, of x "()"]
    bounded_insert_refines(2) [OF assms surjective_pairing, of x "()"]
  by (auto simp: bounded_set_insert_def bounded_contains_def)

text \<open>A value inserted is still in the set while fewer than \<open>capacity\<close> others went in after it.\<close>

lemma room_after_insert:
  assumes "bounded_ok m"
  shows "bm_capacity m \<le> Suc (room_for (fst (bounded_insert m j v)) j)"
proof -
  obtain m' r where ins: "bounded_insert m j v = (m', r)" by fastforce
  have "length (dropWhile (\<lambda>x. x \<noteq> j) (bm_order m')) \<le> 1"
    unfolding bounded_insert_order [OF assms ins] newest_def
    by (rule le_trans [OF dropWhile_drop_le]) (simp add: dropWhile_moved)
  with bounded_insert_refines(2) [OF assms ins] show ?thesis by (simp add: room_for_def ins)
qed

lemma bounded_map_remembers:
  assumes "bounded_ok m" "j \<notin> fst ` set kvs" "length kvs < bm_capacity m"
  shows "bounded_get (recent.put_all (fst (bounded_insert m j v)) kvs) j = Some v"
  using assms room_after_insert [OF assms(1), of j v]
  by (intro recent.survives recent.put_ok recent.get_put) auto

end
