(* ===== verification/Responses.thy ===== *)
theory Responses
  imports Messages
begin

text \<open>
  The enums over a wire field's codes (core/src/datum/codes.rs) and the pool's answer to a share
  (messages/share_response.rs).

  The macro \<open>wire_codes!\<close> gives each enum a variant per code it names and \<open>Unknown\<close> for the rest; its
  contract, that a code survives a decode and an encode, is the locale of that name.
\<close>

section \<open>Code enums\<close>

locale wire_codes =
  fixes code :: "'e \<Rightarrow> 'c" and from_code :: "'c \<Rightarrow> 'e"
  assumes code_from_code: "code (from_code c) = c"
begin

text \<open>The values a decoder can produce; a sender that uses no other is understood exactly.\<close>

definition canonical :: "'e \<Rightarrow> bool" where
  "canonical e \<longleftrightarrow> from_code (code e) = e"

lemma canonical_from_code: "canonical (from_code c)"
  by (simp add: canonical_def code_from_code)

lemma from_code_inject: "from_code c = from_code c' \<longleftrightarrow> c = c'"
  by (metis code_from_code)

lemma code_inject: "canonical e \<Longrightarrow> canonical e' \<Longrightarrow> code e = code e' \<longleftrightarrow> e = e'"
  by (metis canonical_def)

end

datatype reject_reason =
    BadJobId | BadCoinbaseId | RejectExtranonceSize | BadTarget | RejectUsername | BadCoinbaserId
  | RejectMerkleCount | CoinbaseTooLarge | CoinbaseMissing | TargetMismatch | HashNotZero | HighHash
  | CoinbaseIdMismatch | BadNtime | RejectVersion | StaleBlock | BadCoinbase | BadCoinbaseOutputs
  | MissingPoolTag | DuplicateWork | Other | RejectBlake2bSection | HeaderFieldMismatch
  | HeaderMerkleMismatch | NoSplit | BadAbwSlot
  | UnknownReason u16

fun reject_code :: "reject_reason \<Rightarrow> u16" where
  "reject_code BadJobId = 10"
| "reject_code BadCoinbaseId = 11"
| "reject_code RejectExtranonceSize = 12"
| "reject_code BadTarget = 13"
| "reject_code RejectUsername = 14"
| "reject_code BadCoinbaserId = 15"
| "reject_code RejectMerkleCount = 16"
| "reject_code CoinbaseTooLarge = 17"
| "reject_code CoinbaseMissing = 18"
| "reject_code TargetMismatch = 19"
| "reject_code HashNotZero = 20"
| "reject_code HighHash = 21"
| "reject_code CoinbaseIdMismatch = 22"
| "reject_code BadNtime = 23"
| "reject_code RejectVersion = 24"
| "reject_code StaleBlock = 25"
| "reject_code BadCoinbase = 26"
| "reject_code BadCoinbaseOutputs = 27"
| "reject_code MissingPoolTag = 28"
| "reject_code DuplicateWork = 29"
| "reject_code Other = 30"
| "reject_code RejectBlake2bSection = 40"
| "reject_code HeaderFieldMismatch = 41"
| "reject_code HeaderMerkleMismatch = 42"
| "reject_code NoSplit = 43"
| "reject_code BadAbwSlot = 44"
| "reject_code (UnknownReason c) = c"

definition reject_from_code :: "u16 \<Rightarrow> reject_reason" where
  "reject_from_code c =
     (if c = 10 then BadJobId else if c = 11 then BadCoinbaseId
      else if c = 12 then RejectExtranonceSize else if c = 13 then BadTarget
      else if c = 14 then RejectUsername else if c = 15 then BadCoinbaserId
      else if c = 16 then RejectMerkleCount else if c = 17 then CoinbaseTooLarge
      else if c = 18 then CoinbaseMissing else if c = 19 then TargetMismatch
      else if c = 20 then HashNotZero else if c = 21 then HighHash
      else if c = 22 then CoinbaseIdMismatch else if c = 23 then BadNtime
      else if c = 24 then RejectVersion else if c = 25 then StaleBlock
      else if c = 26 then BadCoinbase else if c = 27 then BadCoinbaseOutputs
      else if c = 28 then MissingPoolTag else if c = 29 then DuplicateWork
      else if c = 30 then Other else if c = 40 then RejectBlake2bSection
      else if c = 41 then HeaderFieldMismatch else if c = 42 then HeaderMerkleMismatch
      else if c = 43 then NoSplit else if c = 44 then BadAbwSlot else UnknownReason c)"

interpretation reject: wire_codes reject_code reject_from_code
  by unfold_locales (simp add: reject_from_code_def)

section \<open>The answer to a share\<close>

datatype share_verdict = Accepted | AcceptedTentatively | Rejected reject_reason

definition ACCEPTED :: u8 where "ACCEPTED = 0x50"
definition ACCEPTED_TENTATIVELY :: u8 where "ACCEPTED_TENTATIVELY = 0x55"
definition REJECTED :: u8 where "REJECTED = 0x66"
definition SHARE_RESPONSE_ABW_MARKER :: u8 where "SHARE_RESPONSE_ABW_MARKER = 0x06"
definition ABW_REF_TAIL_LEN :: nat where "ABW_REF_TAIL_LEN = HASH_SIZE + 1"

lemmas share_response_consts = ACCEPTED_def ACCEPTED_TENTATIVELY_def REJECTED_def
  SHARE_RESPONSE_ABW_MARKER_def ABW_REF_TAIL_LEN_def

record share_response =
  sr_verdict :: share_verdict
  sr_nonce :: u32
  sr_target_byte :: u8
  sr_job_id :: u8
  sr_abw_ref :: "candidate_ref option"

definition encode_share_response :: "share_response \<Rightarrow> bytes" where
  "encode_share_response r =
     (let (status, reason) =
        (case sr_verdict r of
           Accepted \<Rightarrow> (ACCEPTED, 0)
         | AcceptedTentatively \<Rightarrow> (ACCEPTED_TENTATIVELY, 0)
         | Rejected why \<Rightarrow> (REJECTED, reject_code why))
      in SHARE_RESPONSE # status # put_u16_le reason @ put_u32_le (sr_nonce r) @
         [sr_target_byte r, sr_job_id r] @
         (case sr_abw_ref r of
            None \<Rightarrow> []
          | Some a \<Rightarrow> [SHARE_RESPONSE_ABW_MARKER, cr_slot a] @ cr_raw_pow_hash_le a @ [STRUCT_END]))"

text \<open>The reference is taken only when it is the whole rest of the message.\<close>

definition trailing_ref :: "bytes \<Rightarrow> candidate_ref option" where
  "trailing_ref rest =
     (case rest of
        marker # slot # tail_bytes \<Rightarrow>
          if marker = SHARE_RESPONSE_ABW_MARKER \<and> length tail_bytes = ABW_REF_TAIL_LEN
             \<and> slot < ASSIGNMENT_SLOTS
          then if drop HASH_SIZE tail_bytes = [STRUCT_END]
               then Some \<lparr>cr_slot = slot, cr_raw_pow_hash_le = take HASH_SIZE tail_bytes\<rparr>
               else None
          else None
      | _ \<Rightarrow> None)"

definition decode_share_response :: "bytes \<Rightarrow> msg_error + share_response" where
  "decode_share_response data =
     bindr (open_message data SHARE_RESPONSE) (\<lambda>c.
     tryq MsgTruncated (rd_u8 ''status'' c) (\<lambda>(status, c).
     tryq MsgTruncated (rd_u16 ''reason'' c) (\<lambda>(reason, c).
     bindr (if status = ACCEPTED then Inr Accepted
            else if status = ACCEPTED_TENTATIVELY then Inr AcceptedTentatively
            else if status = REJECTED then Inr (Rejected (reject_from_code reason))
            else Inl (BadStatus status)) (\<lambda>verdict.
     tryq MsgTruncated (rd_u32 ''nonce'' c) (\<lambda>(nonce, c).
     tryq MsgTruncated (rd_u8 ''target byte'' c) (\<lambda>(target_byte, c).
     tryq MsgTruncated (rd_u8 ''job id'' c) (\<lambda>(job_id, c).
     Inr \<lparr>sr_verdict = verdict, sr_nonce = nonce, sr_target_byte = target_byte, sr_job_id = job_id,
          sr_abw_ref = trailing_ref (br_rest c)\<rparr>)))))))"

definition wf_share_response :: "share_response \<Rightarrow> bool" where
  "wf_share_response r \<longleftrightarrow>
     (case sr_verdict r of Rejected why \<Rightarrow> reject.canonical why | _ \<Rightarrow> True) \<and>
     (case sr_abw_ref r of
        None \<Rightarrow> True
      | Some a \<Rightarrow> cr_slot a < ASSIGNMENT_SLOTS \<and> length (cr_raw_pow_hash_le a) = HASH_SIZE)"

lemma trailing_ref_wire:
  "cr_slot a < ASSIGNMENT_SLOTS \<Longrightarrow> length (cr_raw_pow_hash_le a) = HASH_SIZE \<Longrightarrow>
     trailing_ref (SHARE_RESPONSE_ABW_MARKER # cr_slot a # cr_raw_pow_hash_le a @ [STRUCT_END]) = Some a"
  by (cases a) (simp add: trailing_ref_def ABW_REF_TAIL_LEN_def)

lemma trailing_ref_Nil [simp]: "trailing_ref [] = None"
  by (simp add: trailing_ref_def)

text \<open>Every verdict the pool can send, with or without an anti-block-withholding reference, is
  read back by the gateway unchanged, the reason code of a rejection included.\<close>

theorem share_response_roundtrip:
  assumes "wf_share_response r"
  shows "decode_share_response (encode_share_response r) = Inr r"
proof -
  have verdict: "(if status = ACCEPTED then Inr Accepted
            else if status = ACCEPTED_TENTATIVELY then Inr AcceptedTentatively
            else if status = REJECTED then Inr (Rejected (reject_from_code reason))
            else Inl (BadStatus status)) = (Inr (sr_verdict r) :: msg_error + share_verdict)"
    if "(case sr_verdict r of
           Accepted \<Rightarrow> (ACCEPTED, 0)
         | AcceptedTentatively \<Rightarrow> (ACCEPTED_TENTATIVELY, 0)
         | Rejected why \<Rightarrow> (REJECTED, reject_code why)) = (status, reason)" for status reason
    using that assms
    by (cases "sr_verdict r") (auto simp: share_response_consts wf_share_response_def reject.canonical_def)
  obtain status reason where sent: "(case sr_verdict r of
           Accepted \<Rightarrow> (ACCEPTED, 0)
         | AcceptedTentatively \<Rightarrow> (ACCEPTED_TENTATIVELY, 0)
         | Rejected why \<Rightarrow> (REJECTED, reject_code why)) = (status, reason)"
    by fastforce
  have ref: "trailing_ref (case sr_abw_ref r of
        None \<Rightarrow> []
      | Some a \<Rightarrow> [SHARE_RESPONSE_ABW_MARKER, cr_slot a] @ cr_raw_pow_hash_le a @ [STRUCT_END]) = sr_abw_ref r"
    using assms by (auto simp: wf_share_response_def trailing_ref_wire split: option.splits)
  show ?thesis
    unfolding encode_share_response_def sent Let_def prod.case decode_share_response_def
    by (simp add: wire verdict [OF sent] ref)
qed

lemma share_response_roundtrip_witness:
  "decode_share_response (encode_share_response
     \<lparr>sr_verdict = Rejected StaleBlock, sr_nonce = 7, sr_target_byte = 4, sr_job_id = 2,
      sr_abw_ref = Some \<lparr>cr_slot = 3, cr_raw_pow_hash_le = replicate 32 0xab\<rparr>\<rparr>) =
   Inr \<lparr>sr_verdict = Rejected StaleBlock, sr_nonce = 7, sr_target_byte = 4, sr_job_id = 2,
      sr_abw_ref = Some \<lparr>cr_slot = 3, cr_raw_pow_hash_le = replicate 32 0xab\<rparr>\<rparr>"
  by (rule share_response_roundtrip)
    (simp add: wf_share_response_def reject.canonical_def reject_from_code_def ASSIGNMENT_SLOTS_def HASH_SIZE_def)

end
