(* ===== verification/Share_Msg.thy ===== *)
theory Share_Msg
  imports Messages Header Target
begin

text \<open>
  core/src/datum/messages/share.rs: the share a gateway submits, the job, coinbase and BLAKE2b
  sections it carries, and the header the pool rebuilds from them.  The header is the record of
  theory Header, whose version and height keep the bits of the code's \<open>i32\<close>; the transaction's
  hashes go through the parameter \<open>sha\<close>.  \<open>PowSubmit::decode\<close>'s loop over the sections is
  \<open>decode_sections\<close>; it ends because every section takes at least its marker.
\<close>

definition SECTION_JOB :: u8 where "SECTION_JOB = 0x01"
definition SECTION_COINBASE :: u8 where "SECTION_COINBASE = 0x02"
definition SECTION_BLAKE2B :: u8 where "SECTION_BLAKE2B = 0x03"
definition SECTION_ABW_SLOT :: u8 where "SECTION_ABW_SLOT = 0x05"
definition BLAKE2B_ALGORITHM :: u8 where "BLAKE2B_ALGORITHM = 0x01"
definition BLAKE2B_TIME :: u8 where "BLAKE2B_TIME = 0x04"
definition FLAG_IS_BLOCK :: u8 where "FLAG_IS_BLOCK = 0x01"
definition FLAG_SUBSIDY_ONLY :: u8 where "FLAG_SUBSIDY_ONLY = 0x02"
definition FLAG_QUICKDIFF :: u8 where "FLAG_QUICKDIFF = 0x04"
definition FLAG_BLAKE2B :: u8 where "FLAG_BLAKE2B = 0x08"
definition RESERVED_USE_TIME_OFFSET :: u8 where "RESERVED_USE_TIME_OFFSET = 0x01"
definition EXTRANONCE_SIZE :: nat where "EXTRANONCE_SIZE = 12"
definition HEADER_EXTRANONCE_SIZE :: nat where "HEADER_EXTRANONCE_SIZE = 16"
definition HEADER_EXTRANONCE_PAD :: nat where "HEADER_EXTRANONCE_PAD = HEADER_EXTRANONCE_SIZE - EXTRANONCE_SIZE"
definition RESERVED_SIZE :: nat where "RESERVED_SIZE = 4"
definition COINBASE_ID_SUBSIDY_ONLY :: u8 where "COINBASE_ID_SUBSIDY_ONLY = 0xFF"
definition MAX_JOBS :: nat where "MAX_JOBS = 256"
definition MAX_COINBASE_SECTION_LEN :: nat where "MAX_COINBASE_SECTION_LEN = 32768"
definition MAX_MERKLE_BRANCHES :: nat where "MAX_MERKLE_BRANCHES = 24"
definition MAX_USERNAME_LEN :: nat where "MAX_USERNAME_LEN = 384"

lemmas section_consts = SECTION_JOB_def SECTION_COINBASE_def SECTION_BLAKE2B_def SECTION_ABW_SLOT_def
  STRUCT_END_def BLAKE2B_ALGORITHM_def BLAKE2B_TIME_def
lemmas flag_consts = FLAG_IS_BLOCK_def FLAG_SUBSIDY_ONLY_def FLAG_QUICKDIFF_def FLAG_BLAKE2B_def
  RESERVED_USE_TIME_OFFSET_def
lemmas share_sizes = EXTRANONCE_SIZE_def HEADER_EXTRANONCE_SIZE_def HEADER_EXTRANONCE_PAD_def
  RESERVED_SIZE_def MAX_MERKLE_BRANCHES_def MAX_USERNAME_LEN_def

record job_section =
  js_prev_hash :: bytes
  js_target_byte_index :: u16
  js_nbits :: bytes
  js_coinbaser_id :: u8
  js_height :: u32
  js_coinbase_value :: u64
  js_txn_count :: u32
  js_txn_total_weight :: u32
  js_txn_total_size :: u32
  js_txn_total_sigops :: u32
  js_merkle_branches :: "bytes list"

record coinbase_section =
  cs_coinbase_id :: u8
  cs_coinb1 :: bytes
  cs_coinb2 :: bytes

definition assemble_section :: "coinbase_section \<Rightarrow> bytes \<Rightarrow> bytes" where
  "assemble_section c extranonce = cs_coinb1 c @ extranonce @ cs_coinb2 c"

record blake2b_section =
  bs_sia_ntime :: bytes
  bs_sia_nonce :: bytes
  bs_time_on_wire :: u32

definition job_coinbase_tx :: "job_section \<Rightarrow> coinbase_section \<Rightarrow> u8 \<Rightarrow> bytes option" where
  "job_coinbase_tx j cb target_byte =
     (let tx = assemble_section cb (replicate EXTRANONCE_SIZE 0); i = unat (js_target_byte_index j)
      in if i < length tx then Some (tx[i := target_byte]) else None)"

definition job_merkle_root :: "(bytes \<Rightarrow> bytes) \<Rightarrow> job_section \<Rightarrow> bytes \<Rightarrow> bool \<Rightarrow> bytes" where
  "job_merkle_root sha j coinbase_tx subsidy_only =
     merkle_root_from_branches sha (sha256d sha coinbase_tx)
       (if subsidy_only then [] else js_merkle_branches j)"

definition job_header ::
    "job_section \<Rightarrow> u32 \<Rightarrow> u32 \<Rightarrow> bytes \<Rightarrow> bool \<Rightarrow> u8 \<Rightarrow> bool \<Rightarrow> block_header_v2 option" where
  "job_header j version time merkle_root subsidy_only target_byte abw =
     (let tx_count = (if subsidy_only then 1 else unat (js_txn_count j) + 1) in
      if 2 ^ 16 \<le> tx_count then None
      else Some \<lparr>hd_version = version, hd_prev_block = js_prev_hash j, hd_merkle_root = merkle_root,
        hd_time = time, hd_bits = u32_from_le (js_nbits j), hd_nonce = 0, hd_nonce2 = 0,
        hd_nonce3 = 0, hd_extranonce = replicate HEADER_EXTRANONCE_SIZE 0, hd_time_offset = 0,
        hd_txcount = as_u16 tx_count, hd_flags = 0,
        hd_xor_key_mask_clear_bits = (if abw then clear_bits target_byte else 0),
        hd_xor_key = replicate 16 0, hd_height = js_height j, hd_mm_rhs = replicate 32 0\<rparr>)"

definition header_extranonce :: "bytes \<Rightarrow> bytes" where
  "header_extranonce extranonce =
     copy_at HEADER_EXTRANONCE_PAD extranonce (replicate HEADER_EXTRANONCE_SIZE 0)"

definition share_extranonce :: "bytes \<Rightarrow> bytes option" where
  "share_extranonce field =
     (let pad = take HEADER_EXTRANONCE_PAD field; extranonce = drop HEADER_EXTRANONCE_PAD field in
      if pad \<noteq> replicate HEADER_EXTRANONCE_PAD 0 then None else Some extranonce)"

definition sia_halves :: "bytes \<Rightarrow> u32 \<times> u32" where
  "sia_halves field = (u32_from_le (take 4 field), u32_from_le (drop 4 field))"

definition set_sia_fields :: "block_header_v2 \<Rightarrow> bytes \<Rightarrow> bytes \<Rightarrow> block_header_v2" where
  "set_sia_fields h sia_ntime sia_nonce =
     (let (nonce, nonce2) = sia_halves sia_nonce; (time_offset, nonce3) = sia_halves sia_ntime
      in h\<lparr>hd_nonce := nonce, hd_nonce2 := nonce2, hd_time_offset := time_offset, hd_nonce3 := nonce3\<rparr>)"

definition blake2b_from_header :: "block_header_v2 \<Rightarrow> blake2b_section" where
  "blake2b_from_header h =
     \<lparr>bs_sia_ntime = sia_words (hd_time_offset h) (hd_nonce3 h),
      bs_sia_nonce = sia_words (hd_nonce h) (hd_nonce2 h), bs_time_on_wire = time_on_wire h\<rparr>"

definition nonce_fields :: "blake2b_section \<Rightarrow> u32 \<times> u32" where
  "nonce_fields b = sia_halves (bs_sia_nonce b)"

definition time_fields :: "blake2b_section \<Rightarrow> u32 \<times> u32" where
  "time_fields b = sia_halves (bs_sia_ntime b)"

section \<open>The sections on the wire\<close>

definition read_branch :: "byte_reader \<Rightarrow> msg_error + (bytes \<times> byte_reader)" where
  "read_branch r = tryq MsgTruncated (rd_arr 32 ''merkle branch'' r) Inr"

definition decode_job_section :: "byte_reader \<Rightarrow> msg_error + (job_section \<times> byte_reader)" where
  "decode_job_section r =
     tryq MsgTruncated (rd_arr 32 ''prev hash'' r) (\<lambda>(prev_hash, r).
     tryq MsgTruncated (rd_u16 ''target byte index'' r) (\<lambda>(target_byte_index, r).
     tryq MsgTruncated (rd_arr 4 ''nbits'' r) (\<lambda>(nbits, r).
     tryq MsgTruncated (rd_u8 ''coinbaser id'' r) (\<lambda>(coinbaser_id, r).
     tryq MsgTruncated (rd_u32 ''height'' r) (\<lambda>(height, r).
     tryq MsgTruncated (rd_u64 ''coinbase value'' r) (\<lambda>(coinbase_value, r).
     tryq MsgTruncated (rd_u32 ''txn count'' r) (\<lambda>(txn_count, r).
     tryq MsgTruncated (rd_u32 ''txn weight'' r) (\<lambda>(txn_total_weight, r).
     tryq MsgTruncated (rd_u32 ''txn size'' r) (\<lambda>(txn_total_size, r).
     tryq MsgTruncated (rd_u32 ''txn sigops'' r) (\<lambda>(txn_total_sigops, r).
     tryq MsgTruncated (rd_u8 ''merkle count'' r) (\<lambda>(n, r).
     if MAX_MERKLE_BRANCHES < unat n then Inl (BadMerkleCount n)
     else bindr (rd_times (unat n) read_branch r) (\<lambda>(merkle_branches, r).
     Inr (\<lparr>js_prev_hash = prev_hash, js_target_byte_index = target_byte_index, js_nbits = nbits,
           js_coinbaser_id = coinbaser_id, js_height = height, js_coinbase_value = coinbase_value,
           js_txn_count = txn_count, js_txn_total_weight = txn_total_weight,
           js_txn_total_size = txn_total_size, js_txn_total_sigops = txn_total_sigops,
           js_merkle_branches = merkle_branches\<rparr>, r)))))))))))))"

definition encode_job_section :: "job_section \<Rightarrow> bytes" where
  "encode_job_section j =
     SECTION_JOB # js_prev_hash j @ put_u16_le (js_target_byte_index j) @ js_nbits j @
     [js_coinbaser_id j] @ put_u32_le (js_height j) @ put_u64_le (js_coinbase_value j) @
     put_u32_le (js_txn_count j) @ put_u32_le (js_txn_total_weight j) @
     put_u32_le (js_txn_total_size j) @ put_u32_le (js_txn_total_sigops j) @
     [word_of_nat (length (js_merkle_branches j))] @ concat (js_merkle_branches j)"

definition decode_coinbase_section :: "byte_reader \<Rightarrow> msg_error + (coinbase_section \<times> byte_reader)" where
  "decode_coinbase_section r =
     tryq MsgTruncated (rd_u8 ''coinbase section id'' r) (\<lambda>(coinbase_id, r).
     tryq MsgTruncated (rd_u16 ''coinb1 len'' r) (\<lambda>(len1, r).
     tryq MsgTruncated (rd_u16 ''coinb2 len'' r) (\<lambda>(len2, r).
     tryq MsgTruncated (rd_take (unat len1) ''coinb1'' r) (\<lambda>(coinb1, r).
     tryq MsgTruncated (rd_take (unat len2) ''coinb2'' r) (\<lambda>(coinb2, r).
     Inr (\<lparr>cs_coinbase_id = coinbase_id, cs_coinb1 = coinb1, cs_coinb2 = coinb2\<rparr>, r))))))"

definition encode_coinbase_section :: "coinbase_section \<Rightarrow> bytes" where
  "encode_coinbase_section c =
     SECTION_COINBASE # cs_coinbase_id c # put_u16_le (as_u16 (length (cs_coinb1 c))) @
     put_u16_le (as_u16 (length (cs_coinb2 c))) @ cs_coinb1 c @ cs_coinb2 c"

definition decode_blake2b_section :: "byte_reader \<Rightarrow> msg_error + (blake2b_section \<times> byte_reader)" where
  "decode_blake2b_section r =
     tryq MsgTruncated (rd_u8 ''algorithm'' r) (\<lambda>(algorithm, r).
     if algorithm \<noteq> BLAKE2B_ALGORITHM then Inl BadBlake2bSection
     else tryq MsgTruncated (rd_arr 8 ''sia ntime'' r) (\<lambda>(sia_ntime, r).
     tryq MsgTruncated (rd_arr 8 ''sia nonce'' r) (\<lambda>(sia_nonce, r).
     tryq MsgTruncated (rd_u8 ''time marker'' r) (\<lambda>(marker, r).
     if marker \<noteq> BLAKE2B_TIME then Inl BadBlake2bSection
     else tryq MsgTruncated (rd_u32 ''time on wire'' r) (\<lambda>(time_on_wire, r).
     Inr (\<lparr>bs_sia_ntime = sia_ntime, bs_sia_nonce = sia_nonce, bs_time_on_wire = time_on_wire\<rparr>, r))))))"

definition encode_blake2b_section :: "blake2b_section \<Rightarrow> bytes" where
  "encode_blake2b_section b =
     SECTION_BLAKE2B # BLAKE2B_ALGORITHM # bs_sia_ntime b @ bs_sia_nonce b @
     BLAKE2B_TIME # put_u32_le (bs_time_on_wire b)"

definition wf_job :: "job_section \<Rightarrow> bool" where
  "wf_job j \<longleftrightarrow> length (js_prev_hash j) = 32 \<and> length (js_nbits j) = 4 \<and>
     length (js_merkle_branches j) \<le> MAX_MERKLE_BRANCHES \<and>
     (\<forall>b \<in> set (js_merkle_branches j). length b = 32)"

definition wf_coinbase :: "coinbase_section \<Rightarrow> bool" where
  "wf_coinbase c \<longleftrightarrow> length (cs_coinb1 c) < 2 ^ 16 \<and> length (cs_coinb2 c) < 2 ^ 16"

definition wf_blake2b :: "blake2b_section \<Rightarrow> bool" where
  "wf_blake2b b \<longleftrightarrow> length (bs_sia_ntime b) = 8 \<and> length (bs_sia_nonce b) = 8"

lemma read_branch_append: "length b = 32 \<Longrightarrow>
    read_branch \<lparr>br_full = f, br_rest = b @ t\<rparr> = Inr (b, \<lparr>br_full = f, br_rest = t\<rparr>)"
  by (simp add: read_branch_def wire)

lemma decode_job_wire [wire]:
  assumes "wf_job j"
  shows "decode_job_section \<lparr>br_full = f, br_rest = drop 1 (encode_job_section j) @ t\<rparr> =
     Inr (j, \<lparr>br_full = f, br_rest = t\<rparr>)"
proof -
  have n: "unat (word_of_nat (length (js_merkle_branches j)) :: u8) = length (js_merkle_branches j)"
    using assms by (simp add: wf_job_def share_sizes unat_of_nat)
  have branches: "rd_times (length (js_merkle_branches j)) read_branch
      \<lparr>br_full = f, br_rest = concat (js_merkle_branches j) @ t\<rparr> =
      Inr (js_merkle_branches j, \<lparr>br_full = f, br_rest = t\<rparr>)"
    using rd_times_append [where xs = "js_merkle_branches j" and enc = "\<lambda>b. b" and p = read_branch] assms
    by (simp add: read_branch_append wf_job_def)
  show ?thesis using assms
    by (simp add: decode_job_section_def encode_job_section_def wf_job_def wire n branches not_less)
qed

lemma decode_coinbase_wire [wire]:
  "wf_coinbase c \<Longrightarrow>
     decode_coinbase_section \<lparr>br_full = f, br_rest = drop 1 (encode_coinbase_section c) @ t\<rparr> =
     Inr (c, \<lparr>br_full = f, br_rest = t\<rparr>)"
  by (simp add: decode_coinbase_section_def encode_coinbase_section_def wf_coinbase_def wire unat_cast)

lemma decode_blake2b_wire [wire]:
  "wf_blake2b b \<Longrightarrow>
     decode_blake2b_section \<lparr>br_full = f, br_rest = drop 1 (encode_blake2b_section b) @ t\<rparr> =
     Inr (b, \<lparr>br_full = f, br_rest = t\<rparr>)"
  by (simp add: decode_blake2b_section_def encode_blake2b_section_def wf_blake2b_def wire)

lemma encode_sections:
  "encode_job_section j = SECTION_JOB # drop 1 (encode_job_section j)"
  "encode_coinbase_section c = SECTION_COINBASE # drop 1 (encode_coinbase_section c)"
  "encode_blake2b_section b = SECTION_BLAKE2B # drop 1 (encode_blake2b_section b)"
  by (simp_all add: encode_job_section_def encode_coinbase_section_def encode_blake2b_section_def)

section \<open>The share\<close>

definition TARGET_BYTE_PLACEHOLDER :: u8 where "TARGET_BYTE_PLACEHOLDER = 0xFF"

record share_prefix =
  px_job_id :: u8
  px_coinbase_id :: u8
  px_flags :: u8
  px_target_byte :: u8
  px_ntime :: u32
  px_nonce :: u32

definition share_prefix_default :: share_prefix where
  "share_prefix_default =
     \<lparr>px_job_id = 0, px_coinbase_id = 0, px_flags = 0, px_target_byte = TARGET_BYTE_PLACEHOLDER,
      px_ntime = 0, px_nonce = 0\<rparr>"

definition share_prefix_read :: "bytes \<Rightarrow> msg_error + (share_prefix \<times> byte_reader)" where
  "share_prefix_read data =
     bindr (open_message data SUBMIT_POW) (\<lambda>r.
     tryq MsgTruncated (rd_u8 ''job id'' r) (\<lambda>(job_id, r).
     tryq MsgTruncated (rd_u8 ''coinbase id'' r) (\<lambda>(coinbase_id, r).
     tryq MsgTruncated (rd_u8 ''flags'' r) (\<lambda>(flags, r).
     tryq MsgTruncated (rd_u8 ''target byte'' r) (\<lambda>(target_byte, r).
     tryq MsgTruncated (rd_u32 ''ntime'' r) (\<lambda>(ntime, r).
     tryq MsgTruncated (rd_u32 ''nonce'' r) (\<lambda>(nonce, r).
     Inr (\<lparr>px_job_id = job_id, px_coinbase_id = coinbase_id, px_flags = flags,
           px_target_byte = target_byte, px_ntime = ntime, px_nonce = nonce\<rparr>, r))))))))"

definition submit_prefix :: "bytes \<Rightarrow> share_prefix option" where
  "submit_prefix data = map_option fst (ok (share_prefix_read data))"

record pow_submit =
  ps_job_id :: u8
  ps_coinbase_id :: u8
  ps_is_block :: bool
  ps_subsidy_only :: bool
  ps_quickdiff :: bool
  ps_target_byte :: u8
  ps_ntime :: u32
  ps_nonce :: u32
  ps_version :: u32
  ps_extranonce :: bytes
  ps_username :: bytes
  ps_use_time_offset :: bool
  ps_job :: "job_section option"
  ps_coinbase :: "coinbase_section option"
  ps_blake2b :: blake2b_section
  ps_abw_slot :: "u8 option"

definition submit_difficulty :: "pow_submit \<Rightarrow> u64" where
  "submit_difficulty s = difficulty_for_exponent (ps_target_byte s)"

definition block_time :: "pow_submit \<Rightarrow> u32" where
  "block_time s =
     (let b = ps_blake2b s in
      if ps_use_time_offset s then bs_time_on_wire b + fst (time_fields b) else bs_time_on_wire b)"

definition submit_header :: "pow_submit \<Rightarrow> job_section \<Rightarrow> bytes \<Rightarrow> bytes option \<Rightarrow> block_header_v2 option" where
  "submit_header s job merkle_root abw_key =
     Option.bind
       (job_header job (ps_version s AND NOT V2_FLAG) (block_time s) merkle_root (ps_subsidy_only s)
          (ps_target_byte s) (abw_key \<noteq> None))
       (\<lambda>h.
         let h = set_sia_fields h (bs_sia_ntime (ps_blake2b s)) (bs_sia_nonce (ps_blake2b s));
             h = h\<lparr>hd_extranonce := header_extranonce (ps_extranonce s)\<rparr>;
             h = (if ps_use_time_offset s then h\<lparr>hd_flags := FLAG_USE_TIME_OFFSET\<rparr> else h)
         in Some (h\<lparr>hd_xor_key := (case abw_key of None \<Rightarrow> replicate 16 0 | Some k \<Rightarrow> k)\<rparr>))"

record sections =
  sec_job :: "job_section option"
  sec_coinbase :: "coinbase_section option"
  sec_blake2b :: "blake2b_section option"
  sec_abw_slot :: "u8 option"

lemma section_shrinks:
  "decode_job_section r = Inr (j, r') \<Longrightarrow> length (br_rest r') < length (br_rest r)"
  "decode_coinbase_section r = Inr (c, r') \<Longrightarrow> length (br_rest r') < length (br_rest r)"
  "decode_blake2b_section r = Inr (b, r') \<Longrightarrow> length (br_rest r') < length (br_rest r)"
proof -
  have times: "rd_times n read_branch r1 = Inr (bs, r2) \<Longrightarrow> length (br_rest r2) \<le> length (br_rest r1)" for n r1 bs r2
  proof (induction n arbitrary: r1 bs)
    case (Suc n)
    then obtain b r3 bs' where "read_branch r1 = Inr (b, r3)" "rd_times n read_branch r3 = Inr (bs', r2)"
      by (auto elim!: tryq_InrE)
    moreover from this(1) have "length (br_rest r3) \<le> length (br_rest r1)"
      by (auto simp: read_branch_def elim!: tryq_InrE dest!: rd_restD)
    ultimately show ?case using Suc.IH by fastforce
  qed simp
  show "decode_job_section r = Inr (j, r') \<Longrightarrow> length (br_rest r') < length (br_rest r)"
    by (auto simp: decode_job_section_def elim!: tryq_InrE dest!: rd_restD times split: if_splits)
  show "decode_coinbase_section r = Inr (c, r') \<Longrightarrow> length (br_rest r') < length (br_rest r)"
    by (auto simp: decode_coinbase_section_def elim!: tryq_InrE dest!: rd_restD)
  show "decode_blake2b_section r = Inr (b, r') \<Longrightarrow> length (br_rest r') < length (br_rest r)"
    by (auto simp: decode_blake2b_section_def elim!: tryq_InrE dest!: rd_restD split: if_splits)
qed

function decode_sections :: "sections \<Rightarrow> byte_reader \<Rightarrow> msg_error + sections" where
  "decode_sections acc r =
     tryq MsgTruncated (rd_u8 ''section marker'' r) (\<lambda>(marker, r).
       if marker = STRUCT_END then Inr acc
       else if marker = SECTION_JOB then
         bindr (decode_job_section r) (\<lambda>(j, r). decode_sections (acc\<lparr>sec_job := Some j\<rparr>) r)
       else if marker = SECTION_COINBASE then
         bindr (decode_coinbase_section r) (\<lambda>(c, r). decode_sections (acc\<lparr>sec_coinbase := Some c\<rparr>) r)
       else if marker = SECTION_ABW_SLOT then
         tryq MsgTruncated (rd_u8 ''abw slot'' r)
           (\<lambda>(slot, r). decode_sections (acc\<lparr>sec_abw_slot := Some slot\<rparr>) r)
       else if marker = SECTION_BLAKE2B then
         bindr (decode_blake2b_section r) (\<lambda>(b, r). decode_sections (acc\<lparr>sec_blake2b := Some b\<rparr>) r)
       else Inl (UnknownSection marker))"
  by pat_completeness auto
termination
  by (relation "measure (\<lambda>(acc, r). length (br_rest r))") (auto dest!: rd_restD section_shrinks)

declare decode_sections.simps [simp del]

definition submit_decode :: "bytes \<Rightarrow> msg_error + pow_submit" where
  "submit_decode data =
     bindr (share_prefix_read data) (\<lambda>(px, r).
     tryq MsgTruncated (rd_u32 ''version'' r) (\<lambda>(version, r).
     tryq MsgTruncated (rd_u8 ''extranonce size'' r) (\<lambda>(en_size, r).
     if unat en_size \<noteq> EXTRANONCE_SIZE then Inl (BadExtranonceSize en_size)
     else tryq MsgTruncated (rd_arr EXTRANONCE_SIZE ''extranonce'' r) (\<lambda>(extranonce, r).
     bindr (ok_or BadUsername (find_index (\<lambda>b. b = 0) (take (MAX_USERNAME_LEN + 1) (br_rest r)))) (\<lambda>nul.
     let username = from_utf8_lossy (take nul (br_rest r)) in
     tryq MsgTruncated (rd_advance (nul + 1) ''username'' r) (\<lambda>r.
     tryq MsgTruncated (rd_take RESERVED_SIZE ''reserved'' r) (\<lambda>(reserved, r).
     let use_time_offset = (reserved ! 0 AND RESERVED_USE_TIME_OFFSET \<noteq> 0) in
     bindr (decode_sections \<lparr>sec_job = None, sec_coinbase = None, sec_blake2b = None, sec_abw_slot = None\<rparr> r)
       (\<lambda>found.
     bindr (ok_or MissingBlake2bSection (sec_blake2b found)) (\<lambda>blake2b.
     Inr \<lparr>ps_job_id = px_job_id px, ps_coinbase_id = px_coinbase_id px,
          ps_is_block = (px_flags px AND FLAG_IS_BLOCK \<noteq> 0),
          ps_subsidy_only = (px_flags px AND FLAG_SUBSIDY_ONLY \<noteq> 0),
          ps_quickdiff = (px_flags px AND FLAG_QUICKDIFF \<noteq> 0),
          ps_target_byte = px_target_byte px, ps_ntime = px_ntime px, ps_nonce = px_nonce px,
          ps_version = version, ps_extranonce = extranonce, ps_username = username,
          ps_use_time_offset = use_time_offset, ps_job = sec_job found,
          ps_coinbase = sec_coinbase found, ps_blake2b = blake2b, ps_abw_slot = sec_abw_slot found\<rparr>)))))))))"

definition flag_of :: "bool \<Rightarrow> u8 \<Rightarrow> u8" where
  "flag_of flagged mark = (if flagged then mark else 0)"

definition submit_encode :: "pow_submit \<Rightarrow> bytes" where
  "submit_encode s =
     [SUBMIT_POW, ps_job_id s, ps_coinbase_id s,
      flag_of (ps_is_block s) FLAG_IS_BLOCK OR flag_of (ps_subsidy_only s) FLAG_SUBSIDY_ONLY
        OR flag_of (ps_quickdiff s) FLAG_QUICKDIFF OR FLAG_BLAKE2B,
      ps_target_byte s] @ put_u32_le (ps_ntime s) @ put_u32_le (ps_nonce s) @
     put_u32_le (ps_version s) @ [word_of_nat EXTRANONCE_SIZE] @ ps_extranonce s @
     ps_username s @ [0] @
     (replicate RESERVED_SIZE 0)[0 := if ps_use_time_offset s then RESERVED_USE_TIME_OFFSET else 0] @
     encode_blake2b_section (ps_blake2b s) @
     (case ps_abw_slot s of None \<Rightarrow> [] | Some slot \<Rightarrow> [SECTION_ABW_SLOT, slot]) @
     (case ps_job s of None \<Rightarrow> [] | Some j \<Rightarrow> encode_job_section j) @
     (case ps_coinbase s of None \<Rightarrow> [] | Some c \<Rightarrow> encode_coinbase_section c) @ [STRUCT_END]"

definition wf_submit :: "pow_submit \<Rightarrow> bool" where
  "wf_submit s \<longleftrightarrow> length (ps_extranonce s) = EXTRANONCE_SIZE \<and> utf8_valid (ps_username s) \<and>
     0 \<notin> set (ps_username s) \<and> length (ps_username s) \<le> MAX_USERNAME_LEN \<and>
     wf_blake2b (ps_blake2b s) \<and> (\<forall>j. ps_job s = Some j \<longrightarrow> wf_job j) \<and>
     (\<forall>c. ps_coinbase s = Some c \<longrightarrow> wf_coinbase c)"

lemma flags_read_back:
  "(flag_of a FLAG_IS_BLOCK OR flag_of b FLAG_SUBSIDY_ONLY OR flag_of c FLAG_QUICKDIFF OR FLAG_BLAKE2B)
     AND FLAG_IS_BLOCK \<noteq> 0 \<longleftrightarrow> a"
  "(flag_of a FLAG_IS_BLOCK OR flag_of b FLAG_SUBSIDY_ONLY OR flag_of c FLAG_QUICKDIFF OR FLAG_BLAKE2B)
     AND FLAG_SUBSIDY_ONLY \<noteq> 0 \<longleftrightarrow> b"
  "(flag_of a FLAG_IS_BLOCK OR flag_of b FLAG_SUBSIDY_ONLY OR flag_of c FLAG_QUICKDIFF OR FLAG_BLAKE2B)
     AND FLAG_QUICKDIFF \<noteq> 0 \<longleftrightarrow> c"
  by (cases a; cases b; cases c; simp add: flag_of_def flag_consts)+

lemma decode_sections_step:
  "decode_sections acc \<lparr>br_full = f, br_rest = STRUCT_END # t\<rparr> = Inr acc"
  "wf_job j \<Longrightarrow> decode_sections acc \<lparr>br_full = f, br_rest = encode_job_section j @ t\<rparr> =
     decode_sections (acc\<lparr>sec_job := Some j\<rparr>) \<lparr>br_full = f, br_rest = t\<rparr>"
  "wf_coinbase c \<Longrightarrow> decode_sections acc \<lparr>br_full = f, br_rest = encode_coinbase_section c @ t\<rparr> =
     decode_sections (acc\<lparr>sec_coinbase := Some c\<rparr>) \<lparr>br_full = f, br_rest = t\<rparr>"
  "wf_blake2b b \<Longrightarrow> decode_sections acc \<lparr>br_full = f, br_rest = encode_blake2b_section b @ t\<rparr> =
     decode_sections (acc\<lparr>sec_blake2b := Some b\<rparr>) \<lparr>br_full = f, br_rest = t\<rparr>"
  "decode_sections acc \<lparr>br_full = f, br_rest = SECTION_ABW_SLOT # slot # t\<rparr> =
     decode_sections (acc\<lparr>sec_abw_slot := Some slot\<rparr>) \<lparr>br_full = f, br_rest = t\<rparr>"
proof -
  show "decode_sections acc \<lparr>br_full = f, br_rest = STRUCT_END # t\<rparr> = Inr acc"
    by (subst decode_sections.simps) (simp add: wire)
  show "decode_sections acc \<lparr>br_full = f, br_rest = SECTION_ABW_SLOT # slot # t\<rparr> =
     decode_sections (acc\<lparr>sec_abw_slot := Some slot\<rparr>) \<lparr>br_full = f, br_rest = t\<rparr>"
    by (subst decode_sections.simps) (simp add: wire section_consts)
  show "wf_job j \<Longrightarrow> decode_sections acc \<lparr>br_full = f, br_rest = encode_job_section j @ t\<rparr> =
     decode_sections (acc\<lparr>sec_job := Some j\<rparr>) \<lparr>br_full = f, br_rest = t\<rparr>"
    by (subst encode_sections, subst decode_sections.simps)
      (simp add: rd_u8_Cons decode_job_wire section_consts del: drop_0 drop_Suc_Cons One_nat_def)
  show "wf_coinbase c \<Longrightarrow> decode_sections acc \<lparr>br_full = f, br_rest = encode_coinbase_section c @ t\<rparr> =
     decode_sections (acc\<lparr>sec_coinbase := Some c\<rparr>) \<lparr>br_full = f, br_rest = t\<rparr>"
    by (subst encode_sections, subst decode_sections.simps)
      (simp add: rd_u8_Cons decode_coinbase_wire section_consts del: drop_0 drop_Suc_Cons One_nat_def)
  show "wf_blake2b b \<Longrightarrow> decode_sections acc \<lparr>br_full = f, br_rest = encode_blake2b_section b @ t\<rparr> =
     decode_sections (acc\<lparr>sec_blake2b := Some b\<rparr>) \<lparr>br_full = f, br_rest = t\<rparr>"
    by (subst encode_sections, subst decode_sections.simps)
      (simp add: rd_u8_Cons decode_blake2b_wire section_consts del: drop_0 drop_Suc_Cons One_nat_def)
qed

lemma find_nul:
  assumes "(0 :: u8) \<notin> set u" "length u \<le> n"
  shows "find_index (\<lambda>b. b = 0) (take (n + 1) (u @ 0 # t)) = Some (length u)"
proof -
  have "take (n + 1) (u @ 0 # t) = u @ 0 # take (n - length u) t"
    using assms(2) by (simp add: Suc_diff_le)
  moreover have "\<forall>y \<in> set u. \<not> y = 0" using assms(1) by auto
  ultimately show ?thesis by (simp only: find_index_prefix)
qed

lemma submit_wire:
  assumes "wf_submit s"
  shows "submit_decode (submit_encode s) = Inr s"
proof -
  let ?f = "submit_encode s"
  define secs where "secs = encode_blake2b_section (ps_blake2b s) @
     (case ps_abw_slot s of None \<Rightarrow> [] | Some slot \<Rightarrow> [SECTION_ABW_SLOT, slot]) @
     (case ps_job s of None \<Rightarrow> [] | Some j \<Rightarrow> encode_job_section j) @
     (case ps_coinbase s of None \<Rightarrow> [] | Some c \<Rightarrow> encode_coinbase_section c) @ [STRUCT_END]"
  have wf: "length (ps_extranonce s) = EXTRANONCE_SIZE" "utf8_valid (ps_username s)"
    "0 \<notin> set (ps_username s)" "length (ps_username s) \<le> MAX_USERNAME_LEN"
    "wf_blake2b (ps_blake2b s)" "\<forall>j. ps_job s = Some j \<longrightarrow> wf_job j"
    "\<forall>c. ps_coinbase s = Some c \<longrightarrow> wf_coinbase c"
    using assms by (simp_all add: wf_submit_def)
  have found: "decode_sections \<lparr>sec_job = None, sec_coinbase = None, sec_blake2b = None, sec_abw_slot = None\<rparr>
      \<lparr>br_full = ?f, br_rest = secs\<rparr> =
    Inr \<lparr>sec_job = ps_job s, sec_coinbase = ps_coinbase s, sec_blake2b = Some (ps_blake2b s),
         sec_abw_slot = ps_abw_slot s\<rparr>"
    using wf(5-7) unfolding secs_def
    by (cases "ps_job s"; cases "ps_coinbase s"; cases "ps_abw_slot s") (simp_all add: decode_sections_step)
  obtain res where res: "(replicate RESERVED_SIZE 0)[0 := if ps_use_time_offset s then RESERVED_USE_TIME_OFFSET else 0] = res"
    and res4: "length res = RESERVED_SIZE" and res0: "(res ! 0 AND RESERVED_USE_TIME_OFFSET \<noteq> 0) = ps_use_time_offset s"
    by (cases "ps_use_time_offset s") (auto simp: share_sizes flag_consts)
  define rest where "rest = ps_username s @ 0 # res @ secs"
  have adv: "rd_advance (length (ps_username s) + 1) what \<lparr>br_full = ?f, br_rest = rest\<rparr> =
      Inr \<lparr>br_full = ?f, br_rest = res @ secs\<rparr>" for what
    using rd_advance_append [of "ps_username s @ [0]" _ what ?f "res @ secs"] by (simp add: rest_def)
  have nul: "find_index (\<lambda>b. b = 0) (take (MAX_USERNAME_LEN + 1) rest) = Some (length (ps_username s))"
    unfolding rest_def by (rule find_nul [OF wf(3,4)])
  have name: "take (length (ps_username s)) rest = ps_username s" by (simp add: rest_def)
  have prefix: "share_prefix_read ?f = Inr
      (\<lparr>px_job_id = ps_job_id s, px_coinbase_id = ps_coinbase_id s,
        px_flags = flag_of (ps_is_block s) FLAG_IS_BLOCK OR flag_of (ps_subsidy_only s) FLAG_SUBSIDY_ONLY
          OR flag_of (ps_quickdiff s) FLAG_QUICKDIFF OR FLAG_BLAKE2B,
        px_target_byte = ps_target_byte s, px_ntime = ps_ntime s, px_nonce = ps_nonce s\<rparr>,
       \<lparr>br_full = ?f, br_rest = put_u32_le (ps_version s) @ word_of_nat EXTRANONCE_SIZE # ps_extranonce s @ rest\<rparr>)"
    unfolding submit_encode_def res share_prefix_read_def rest_def secs_def by (simp add: wire)
  have en: "unat (word_of_nat EXTRANONCE_SIZE :: u8) = EXTRANONCE_SIZE" by (simp add: share_sizes)
  show ?thesis
    unfolding submit_decode_def prefix tryq_simps prod.case share_prefix.simps flags_read_back
    using wf(1,2) res4
    by (simp add: wire en found nul name adv [simplified] nul [simplified] res0)
qed

text \<open>A share the gateway sends is the share the pool decodes: every field, and each of the
  job, coinbase, BLAKE2b and slot sections it carries or leaves out.\<close>

theorem submit_roundtrip:
  assumes "wf_submit s"
  shows "submit_decode (submit_encode s) = Inr s"
  by (rule submit_wire [OF assms])

text \<open>A share on an ABW slot that carries its job and coinbase sections.\<close>

definition sample_submit :: pow_submit where
  "sample_submit =
     \<lparr>ps_job_id = 3, ps_coinbase_id = 1, ps_is_block = True, ps_subsidy_only = False,
      ps_quickdiff = True, ps_target_byte = 14, ps_ntime = 7, ps_nonce = 0xDEADBEEF,
      ps_version = 0x20000000, ps_extranonce = replicate EXTRANONCE_SIZE 5,
      ps_username = [0x61, 0x2E, 0x62], ps_use_time_offset = True,
      ps_job = Some \<lparr>js_prev_hash = replicate 32 1, js_target_byte_index = 60,
        js_nbits = [0xFF, 0xFF, 0, 0x1D], js_coinbaser_id = 2, js_height = 100,
        js_coinbase_value = 5000, js_txn_count = 1, js_txn_total_weight = 400,
        js_txn_total_size = 100, js_txn_total_sigops = 1, js_merkle_branches = [replicate 32 9]\<rparr>,
      ps_coinbase = Some \<lparr>cs_coinbase_id = 1, cs_coinb1 = [1, 2], cs_coinb2 = [3]\<rparr>,
      ps_blake2b = \<lparr>bs_sia_ntime = replicate 8 0, bs_sia_nonce = replicate 8 6, bs_time_on_wire = 9\<rparr>,
      ps_abw_slot = Some 4\<rparr>"

lemma submit_roundtrip_witness: "submit_decode (submit_encode sample_submit) = Inr sample_submit"
  by (rule submit_roundtrip)
    (simp add: wf_submit_def wf_job_def wf_coinbase_def wf_blake2b_def sample_submit_def share_sizes
       utf8_valid_ascii)

end
