(* ===== verification/Coinbase.thy ===== *)
theory Coinbase
  imports Share_Msg "HOL-Library.Sublist"
begin

text \<open>
  core/src/datum/coinbase.rs: the coinbase the gateway builds and the pool reads back.  The scriptSig
  with the height, the tags and the unique id; the selection of the dictated outputs a block has room
  for; the assembly of the two sections around the extranonce; and the parser of the scriptSig.
  Sums of outputs' values are \<open>u64\<close>s; sizes and budgets are natural numbers, with the saturating
  subtractions as truncated ones.
\<close>

definition TAG_SEPARATOR :: u8 where "TAG_SEPARATOR = 0x0F"
definition TAG_END :: u8 where "TAG_END = 0x00"
definition UNIQUE_ID_PUSH_DATA_SIZE_NO_PRIME :: nat where "UNIQUE_ID_PUSH_DATA_SIZE_NO_PRIME = 1 + 2"
definition UNIQUE_ID_PUSH_DATA_SIZE_V1 :: nat where
  "UNIQUE_ID_PUSH_DATA_SIZE_V1 = UNIQUE_ID_PUSH_DATA_SIZE_NO_PRIME + 4"
definition UNIQUE_ID_PUSH_DATA_SIZE_V3 :: nat where
  "UNIQUE_ID_PUSH_DATA_SIZE_V3 = UNIQUE_ID_PUSH_DATA_SIZE_NO_PRIME + 8"
definition ENPREFIX_SIZE :: nat where "ENPREFIX_SIZE = 2"
definition EXTRANONCE_PUSH_SIZE :: nat where "EXTRANONCE_PUSH_SIZE = 1 + ENPREFIX_SIZE + EXTRANONCE_SIZE"
definition EXTRANONCE_PUSH_OPCODE :: u8 where "EXTRANONCE_PUSH_OPCODE = word_of_nat (EXTRANONCE_PUSH_SIZE - 1)"
definition TAG_MARKER_BYTES :: nat where "TAG_MARKER_BYTES = 2"
definition MAX_COINBASE_SCRIPT_SIG_LEN :: nat where "MAX_COINBASE_SCRIPT_SIG_LEN = 100"
definition MAX_COINBASE_TAG_SPACE :: nat where "MAX_COINBASE_TAG_SPACE = 86"
definition WIDE_PRIME_PUSH_EXTRA_BYTES :: nat where "WIDE_PRIME_PUSH_EXTRA_BYTES = 4"
definition SCRIPT_SIG_ROOM_FOR_EXTRANONCE :: nat where
  "SCRIPT_SIG_ROOM_FOR_EXTRANONCE = MAX_COINBASE_SCRIPT_SIG_LEN - EXTRANONCE_PUSH_SIZE"
definition OP_RETURN_EXTRANONCE_OUTPUT_SIZE :: nat where
  "OP_RETURN_EXTRANONCE_OUTPUT_SIZE = MIN_OUTPUT_SIZE + 1 + EXTRANONCE_PUSH_SIZE"
definition COINBASE_TX_VERSION :: u32 where "COINBASE_TX_VERSION = 1"
definition PRUNABLE_OP_RETURN :: bytes where "PRUNABLE_OP_RETURN = [OP_RETURN, 0x01, 0x00]"
definition MIN_USEFUL_OUTPUT_ROOM :: nat where "MIN_USEFUL_OUTPUT_ROOM = 30"
definition MAX_TXN_COUNT_SIZE :: nat where "MAX_TXN_COUNT_SIZE = 5"
definition COINBASE_WITNESS_BYTES :: nat where "COINBASE_WITNESS_BYTES = 36"
definition UNIQUE_ID_PUSH_TARGET_BYTE_AT :: nat where "UNIQUE_ID_PUSH_TARGET_BYTE_AT = 1"
definition WITNESS_SCALE_FACTOR :: nat where "WITNESS_SCALE_FACTOR = 4"
definition MAX_PUBKEYS_PER_MULTISIG :: nat where "MAX_PUBKEYS_PER_MULTISIG = 20"
definition MOST_UNDICTATED_OUTPUTS :: nat where "MOST_UNDICTATED_OUTPUTS = 3"

lemmas coinbase_consts = UNIQUE_ID_PUSH_DATA_SIZE_NO_PRIME_def UNIQUE_ID_PUSH_DATA_SIZE_V1_def
  UNIQUE_ID_PUSH_DATA_SIZE_V3_def ENPREFIX_SIZE_def EXTRANONCE_PUSH_SIZE_def EXTRANONCE_PUSH_OPCODE_def
  TAG_MARKER_BYTES_def MAX_COINBASE_SCRIPT_SIG_LEN_def MAX_COINBASE_TAG_SPACE_def
  WIDE_PRIME_PUSH_EXTRA_BYTES_def SCRIPT_SIG_ROOM_FOR_EXTRANONCE_def
  OP_RETURN_EXTRANONCE_OUTPUT_SIZE_def UNIQUE_ID_PUSH_TARGET_BYTE_AT_def EXTRANONCE_SIZE_def

section \<open>The scriptSig\<close>

definition tag_space :: "bool \<Rightarrow> nat" where
  "tag_space wide_prime = MAX_COINBASE_TAG_SPACE - (if wide_prime then WIDE_PRIME_PUSH_EXTRA_BYTES else 0)"

definition max_tag_bytes :: "bool \<Rightarrow> nat" where
  "max_tag_bytes wide_prime = tag_space wide_prime - TAG_MARKER_BYTES"

definition tag_push_data :: "bytes \<Rightarrow> bytes \<Rightarrow> bytes" where
  "tag_push_data primary secondary =
     primary @ (if secondary \<noteq> [] then TAG_SEPARATOR # secondary else []) @ [TAG_END]"

definition unique_id_push :: "u16 \<Rightarrow> bytes \<Rightarrow> bytes" where
  "unique_id_push unique_id prime_id =
     [word_of_nat (UNIQUE_ID_PUSH_DATA_SIZE_NO_PRIME + length prime_id), TARGET_BYTE_PLACEHOLDER] @
     put_u16_le unique_id @ prime_id"

record script_sig_inputs =
  si_height :: u32
  si_tag_primary :: bytes
  si_tag_secondary :: bytes
  si_unique_id :: u16
  si_prime_id :: u64
  si_wide_prime :: bool
  si_datum_active :: bool

definition tag_push_data_that_fits :: "script_sig_inputs \<Rightarrow> bytes option" where
  "tag_push_data_that_fits t =
     (let tag0 = si_tag_primary t; tag1 = si_tag_secondary t; space = tag_space (si_wide_prime t);
          data = tag_push_data tag0 tag1;
          data = (if space < length data then
                    let excess = length data - space;
                        kept = (if excess < length tag1 then take (length tag1 - excess) tag1 else [])
                    in tag_push_data tag0 kept
                  else data)
      in if length data \<le> space then Some data else None)"

definition prime_id_bytes :: "script_sig_inputs \<Rightarrow> bytes" where
  "prime_id_bytes t =
     (if si_prime_id t = 0 \<and> \<not> si_datum_active t then []
      else if si_wide_prime t then put_u64_le (si_prime_id t)
      else put_u32_le (ucast (si_prime_id t)))"

definition script_sig :: "script_sig_inputs \<Rightarrow> (bytes \<times> nat) option" where
  "script_sig t =
     map_option
       (\<lambda>tags.
         let script = height_push (si_height t) @ encode_push tags
         in (script @ unique_id_push (si_unique_id t) (prime_id_bytes t),
             length script + UNIQUE_ID_PUSH_TARGET_BYTE_AT))
       (tag_push_data_that_fits t)"

record parsed_script_sig =
  pp_target_byte_index :: nat
  pp_tag_secondary :: bytes

text \<open>\<open>strip_prefix\<close> and \<open>strip_suffix\<close> of slices.\<close>

definition strip_prefix :: "'a list \<Rightarrow> 'a list \<Rightarrow> 'a list option" where
  "strip_prefix pre xs = (if take (length pre) xs = pre then Some (drop (length pre) xs) else None)"

text \<open>\<open>char::is_control\<close> on the UTF-8 form: the characters U+0000 to U+001F, U+007F and U+0080 to
  U+009F (the bytes C2 80 to C2 9F).\<close>

function without_control :: "bytes \<Rightarrow> bytes" where
  "without_control bs =
     (case bs of
        [] \<Rightarrow> []
      | _ \<Rightarrow>
        (let n = fst (utf8_step bs); c = take n bs in
         (if (length c = 1 \<and> (hd c < 0x20 \<or> hd c = 0x7f)) \<or>
             (length c = 2 \<and> hd c = 0xC2 \<and> c ! 1 \<le> 0x9f)
          then [] else c) @ without_control (drop n bs)))"
  by pat_completeness auto
termination
proof (relation "measure length")
  fix bs b rest n c
  assume "bs = b # rest" "n = fst (utf8_step bs)"
  then show "(drop n bs, bs) \<in> measure length" using utf8_step_pos [of bs] by simp
qed simp

declare without_control.simps [simp del]

definition decode_tag :: "bytes \<Rightarrow> bytes" where
  "decode_tag bytes =
     (let bytes = (if bytes \<noteq> [] \<and> last bytes = TAG_END then butlast bytes else bytes)
      in without_control (from_utf8_lossy bytes))"

text \<open>Whether a push carries the pool's prime id: 32 bits wide or 64.\<close>

definition carries_prime :: "u64 \<Rightarrow> bytes \<Rightarrow> bool" where
  "carries_prime prime_id data =
     (if length data < UNIQUE_ID_PUSH_DATA_SIZE_NO_PRIME then False
      else let prime = put_u64_le prime_id; ident = drop UNIQUE_ID_PUSH_DATA_SIZE_NO_PRIME data in
        if length data = UNIQUE_ID_PUSH_DATA_SIZE_V1 then unat prime_id < 2 ^ 32 \<and> ident = take 4 prime
        else if length data = UNIQUE_ID_PUSH_DATA_SIZE_V3 then ident = prime
        else False)"

definition parse_script_sig :: "coinbase_tx \<Rightarrow> u64 \<Rightarrow> bytes \<Rightarrow> parsed_script_sig option" where
  "parse_script_sig tx prime_id coinbase_tag =
     (let pushes = script_pushes (ct_script_sig tx) in
      Option.bind (find_index (\<lambda>push. carries_prime prime_id (sp_data push)) pushes) (\<lambda>at.
      let tag_push = (if at = 0 then None else Some (sp_data (pushes ! (at - 1)))) in
      Option.bind
        (if coinbase_tag = [] then
           Some (case Option.bind tag_push (strip_prefix [TAG_SEPARATOR]) of
                   None \<Rightarrow> [] | Some rest \<Rightarrow> decode_tag rest)
         else
           (case Option.bind tag_push (strip_prefix coinbase_tag) of
              Some (marker # rest) \<Rightarrow>
                if marker = TAG_END \<or> marker = TAG_SEPARATOR
                then Some (if marker = TAG_SEPARATOR then decode_tag rest else [])
                else None
            | _ \<Rightarrow> None))
        (\<lambda>tag_secondary.
           Some \<lparr>pp_target_byte_index = ct_script_sig_offset tx + sp_data_at (pushes ! at),
                 pp_tag_secondary = tag_secondary\<rparr>)))"

section \<open>Building\<close>

record block_limits =
  bl_sizelimit :: nat
  bl_weightlimit :: nat
  bl_txn_total_size :: nat
  bl_txn_total_weight :: nat

record coinbase_spec =
  sp_coinbase_id :: u8
  sp_script_sig :: bytes
  sp_target_byte_index_in_script :: nat
  sp_enprefix :: u16
  sp_witness_commitment :: "bytes option"
  sp_pool_payout_script :: bytes
  sp_coinbase_value :: u64
  sp_outputs :: "tx_out list"
  sp_limits :: block_limits
  sp_sigop_budget :: nat

record built_coinbase =
  bc_section :: coinbase_section
  bc_target_byte_index :: nat

definition output_sigop_cost :: "bytes \<Rightarrow> nat" where
  "output_sigop_cost script =
     sum_list (map (\<lambda>op.
       if so_opcode op = OP_CHECKSIG \<or> so_opcode op = OP_CHECKSIGVERIFY then WITNESS_SCALE_FACTOR
       else if so_opcode op = OP_CHECKMULTISIG \<or> so_opcode op = OP_CHECKMULTISIGVERIFY
         then MAX_PUBKEYS_PER_MULTISIG * WITNESS_SCALE_FACTOR
       else 0) (script_ops script))"

text \<open>The loop of \<open>select_outputs\<close>: \<open>remaining\<close> bytes, \<open>sigops_left\<close> and the value \<open>paid\<close> so far.\<close>

fun select_loop :: "u64 \<Rightarrow> tx_out list \<Rightarrow> nat \<Rightarrow> nat \<Rightarrow> u64 \<Rightarrow> tx_out list \<times> u64" where
  "select_loop limit [] remaining sigops_left paid = ([], paid)"
| "select_loop limit (out # outs) remaining sigops_left paid =
     (if remaining < MIN_USEFUL_OUTPUT_ROOM \<or> limit \<le> paid then ([], paid)
      else let cost = length (to_script_pubkey out) + MIN_OUTPUT_SIZE;
               sigops = output_sigop_cost (to_script_pubkey out) in
        if limit < sat_add paid (to_value out) \<or> remaining < cost \<or> sigops_left < sigops
          then select_loop limit outs remaining sigops_left paid
        else let (included, paid) =
               select_loop limit outs (remaining - cost) (sigops_left - sigops) (paid + to_value out)
             in (out # included, paid))"

definition select_outputs :: "coinbase_spec \<Rightarrow> nat \<Rightarrow> tx_out list \<times> u64" where
  "select_outputs p budget =
     select_loop (sp_coinbase_value p) (sp_outputs p) budget (sp_sigop_budget p) 0"

definition put_u16_be :: "u16 \<Rightarrow> bytes" where
  "put_u16_be w = rev (put_u16_le w)"

definition assemble :: "coinbase_spec \<Rightarrow> tx_out list \<Rightarrow> u64 \<Rightarrow> built_coinbase" where
  "assemble p included paid =
     (let in_script = (length (sp_script_sig p) \<le> SCRIPT_SIG_ROOM_FOR_EXTRANONCE);
          coinb1 = put_u32_le COINBASE_TX_VERSION @ encode_compact_size 1 @ replicate HASH_SIZE 0 @
            NULL_OUTPOINT_INDEX;
          n_out = as_u64 (length included) + 1 + (if sp_witness_commitment p \<noteq> None then 1 else 0);
          script_sig_len = length (sp_script_sig p) + (if in_script then EXTRANONCE_PUSH_SIZE else 0);
          coinb1 = coinb1 @ encode_compact_size (as_u64 script_sig_len);
          target_byte_index = length coinb1 + sp_target_byte_index_in_script p;
          coinb1 = coinb1 @ sp_script_sig p;
          (coinb1, coinb2) =
            (if in_script then
               (coinb1 @ [EXTRANONCE_PUSH_OPCODE] @ put_u16_be (sp_enprefix p),
                SEQUENCE_FINAL @ encode_compact_size n_out)
             else
               (coinb1 @ SEQUENCE_FINAL @ encode_compact_size (n_out + 1) @ put_u64_le 0 @
                [word_of_nat (OP_RETURN_EXTRANONCE_OUTPUT_SIZE - MIN_OUTPUT_SIZE)] @
                [OP_RETURN, EXTRANONCE_PUSH_OPCODE] @ put_u16_be (sp_enprefix p),
                []));
          coinb2 = coinb2 @ concat (map (\<lambda>out. encode_output (to_value out) (to_script_pubkey out)) included);
          coinb2 = coinb2 @ (if paid < sp_coinbase_value p
            then encode_output (sp_coinbase_value p - paid) (sp_pool_payout_script p)
            else encode_output 0 PRUNABLE_OP_RETURN);
          coinb2 = coinb2 @ (case sp_witness_commitment p of None \<Rightarrow> [] | Some wc \<Rightarrow> encode_output 0 wc);
          coinb2 = coinb2 @ replicate LOCK_TIME_SIZE 0
      in \<lparr>bc_section = \<lparr>cs_coinbase_id = sp_coinbase_id p, cs_coinb1 = coinb1, cs_coinb2 = coinb2\<rparr>,
          bc_target_byte_index = target_byte_index\<rparr>)"

definition fixed_bytes :: "coinbase_spec \<Rightarrow> nat" where
  "fixed_bytes p =
     (let section = bc_section (assemble p [] 0);
          count_growth =
            length (encode_compact_size (as_u64 (length (sp_outputs p)) + as_u64 MOST_UNDICTATED_OUTPUTS))
            - length (encode_compact_size (as_u64 MOST_UNDICTATED_OUTPUTS))
      in length (cs_coinb1 section) + EXTRANONCE_SIZE + length (cs_coinb2 section) + count_growth)"

definition output_budget :: "nat \<Rightarrow> block_limits \<Rightarrow> nat" where
  "output_budget fixed limits =
     (let around = HEADER_V2_SIZE + MAX_TXN_COUNT_SIZE;
          size_used = bl_txn_total_size limits + around + COINBASE_WITNESS_BYTES;
          by_size = bl_sizelimit limits - size_used;
          weight_used = bl_txn_total_weight limits + WITNESS_SCALE_FACTOR * around + COINBASE_WITNESS_BYTES;
          by_weight = (bl_weightlimit limits - weight_used) div WITNESS_SCALE_FACTOR;
          room = min (min by_size by_weight) MAX_COINBASE_SECTION_LEN
      in room - fixed)"

definition build_coinbase :: "coinbase_spec \<Rightarrow> built_coinbase \<times> tx_out list" where
  "build_coinbase p =
     (let (included, paid) = select_outputs p (output_budget (fixed_bytes p) (sp_limits p))
      in (assemble p included paid, included))"

section \<open>The outputs a coinbase carries\<close>

definition output_cost :: "tx_out \<Rightarrow> nat" where
  "output_cost out = length (to_script_pubkey out) + MIN_OUTPUT_SIZE"

definition output_sigops :: "tx_out \<Rightarrow> nat" where
  "output_sigops out = output_sigop_cost (to_script_pubkey out)"

lemma subseq_set: "subseq xs ys \<Longrightarrow> x \<in> set xs \<Longrightarrow> x \<in> set ys"
  by (induction rule: list_emb.induct) auto

lemma sat_add_fits:
  assumes "\<not> (limit :: u64) < sat_add paid v" "unat limit < 2 ^ 64 - 1"
  shows "unat (paid + v) = unat paid + unat v" "unat paid + unat v \<le> unat limit"
proof -
  have "min (unat paid + unat v) (2 ^ 64 - 1) \<le> unat limit"
    using assms(1) by (simp add: word_less_nat_alt unat_sat_add not_less min_le_iff_disj)
  with assms(2) show fits: "unat paid + unat v \<le> unat limit" by linarith
  have "unat paid + unat v < 2 ^ LENGTH(64)" using fits assms(2) by simp
  then show "unat (paid + v) = unat paid + unat v" by (simp only: unat_add_lem)
qed

lemma select_loop_spec:
  assumes "select_loop limit outs remaining sigops_left paid = (included, paid')"
    and "paid \<le> limit" "unat limit < 2 ^ 64 - 1"
  shows "subseq included outs" "unat paid' = unat paid + outputs_total included" "paid' \<le> limit"
    and "sum_list (map output_cost included) \<le> remaining"
    and "sum_list (map output_sigops included) \<le> sigops_left"
proof -
  have "subseq included outs \<and> unat paid' = unat paid + outputs_total included \<and> paid' \<le> limit \<and>
    sum_list (map output_cost included) \<le> remaining \<and> sum_list (map output_sigops included) \<le> sigops_left"
    using assms
  proof (induction limit outs remaining sigops_left paid arbitrary: included paid' rule: select_loop.induct)
    case (2 limit out outs remaining sigops_left paid)
    consider (stop) "remaining < MIN_USEFUL_OUTPUT_ROOM \<or> limit \<le> paid"
      | (skip) "\<not> (remaining < MIN_USEFUL_OUTPUT_ROOM \<or> limit \<le> paid)"
          "limit < sat_add paid (to_value out) \<or> remaining < output_cost out \<or> sigops_left < output_sigops out"
      | (take) "\<not> (remaining < MIN_USEFUL_OUTPUT_ROOM \<or> limit \<le> paid)"
          "\<not> (limit < sat_add paid (to_value out) \<or> remaining < output_cost out \<or> sigops_left < output_sigops out)"
      by blast
    then show ?case
    proof cases
      case stop
      with "2.prems" show ?thesis by simp
    next
      case skip
      with "2.prems" have "select_loop limit outs remaining sigops_left paid = (included, paid')"
        by (simp add: Let_def output_cost_def output_sigops_def)
      from "2.IH"(1) [OF skip(1) refl refl skip(2) [unfolded output_cost_def output_sigops_def] this "2.prems"(2,3)]
      show ?thesis by auto
    next
      case take
      obtain rest paid2 where rest: "select_loop limit outs (remaining - output_cost out)
          (sigops_left - output_sigops out) (paid + to_value out) = (rest, paid2)" by fastforce
      with take "2.prems" have inc: "included = out # rest" "paid' = paid2"
        by (simp_all add: Let_def output_cost_def output_sigops_def)
      have sum: "unat (paid + to_value out) = unat paid + unat (to_value out)"
        "unat paid + unat (to_value out) \<le> unat limit"
        using take(2) sat_add_fits [OF _ "2.prems"(3)] by blast+
      then have "paid + to_value out \<le> limit" by (simp add: word_le_nat_alt)
      from "2.IH"(2) [OF take(1) refl refl take(2) [unfolded output_cost_def output_sigops_def]
          rest [unfolded output_cost_def output_sigops_def] this "2.prems"(3)]
      show ?thesis using inc sum take(2) by (auto simp: output_cost_def output_sigops_def)
    qed
  qed simp
  then show "subseq included outs" "unat paid' = unat paid + outputs_total included" "paid' \<le> limit"
    "sum_list (map output_cost included) \<le> remaining"
    "sum_list (map output_sigops included) \<le> sigops_left" by blast+
qed

section \<open>The coinbase as the transaction the pool parses\<close>

definition in_script :: "coinbase_spec \<Rightarrow> bool" where
  "in_script p \<longleftrightarrow> length (sp_script_sig p) \<le> SCRIPT_SIG_ROOM_FOR_EXTRANONCE"

definition extranonce_push :: "coinbase_spec \<Rightarrow> bytes \<Rightarrow> bytes" where
  "extranonce_push p en = EXTRANONCE_PUSH_OPCODE # put_u16_be (sp_enprefix p) @ en"

definition full_script_sig :: "coinbase_spec \<Rightarrow> bytes \<Rightarrow> bytes" where
  "full_script_sig p en = sp_script_sig p @ (if in_script p then extranonce_push p en else [])"

definition pool_output :: "coinbase_spec \<Rightarrow> u64 \<Rightarrow> tx_out" where
  "pool_output p paid =
     (if paid < sp_coinbase_value p
      then \<lparr>to_value = sp_coinbase_value p - paid, to_script_pubkey = sp_pool_payout_script p\<rparr>
      else \<lparr>to_value = 0, to_script_pubkey = PRUNABLE_OP_RETURN\<rparr>)"

definition coinbase_outputs :: "coinbase_spec \<Rightarrow> tx_out list \<Rightarrow> u64 \<Rightarrow> bytes \<Rightarrow> tx_out list" where
  "coinbase_outputs p included paid en =
     (if in_script p then []
      else [\<lparr>to_value = 0, to_script_pubkey = OP_RETURN # extranonce_push p en\<rparr>]) @
     included @ [pool_output p paid] @
     (case sp_witness_commitment p of None \<Rightarrow> [] | Some wc \<Rightarrow> [\<lparr>to_value = 0, to_script_pubkey = wc\<rparr>])"

definition coinbase_of :: "coinbase_spec \<Rightarrow> tx_out list \<Rightarrow> u64 \<Rightarrow> bytes \<Rightarrow> coinbase_tx" where
  "coinbase_of p included paid en =
     \<lparr>ct_version = COINBASE_TX_VERSION,
      ct_script_sig_offset = script_sig_start False (full_script_sig p en),
      ct_script_sig = full_script_sig p en, ct_sequence = 0xffffffff,
      ct_outputs = coinbase_outputs p included paid en, ct_lock_time = 0, ct_has_witness = False\<rparr>"

lemma length_put_u16_be [simp]: "length (put_u16_be w) = 2"
  by (simp add: put_u16_be_def)

lemma put_u32_all_ones: "put_u32_le 0xffffffff = replicate 4 0xff"
  using le_bytes_le_val [of "replicate 4 0xff"] le_val_ff [of 4] by (simp add: put_u32_le_def)

lemma le_bytes_zero: "le_bytes n 0 = replicate n 0"
  by (induction n) simp_all

lemma put_zero: "put_u32_le 0 = replicate 4 0" "put_u64_le 0 = replicate 8 0"
  by (simp_all only: put_u32_le_def put_u64_le_def unsigned_0 le_bytes_zero)

lemma as_u64_Suc: "as_u64 n + 1 = as_u64 (Suc n)"
  by (simp add: as_u64_def)

lemma assembled_coinbase:
  assumes "length en = EXTRANONCE_SIZE"
  shows "assemble_section (bc_section (assemble p included paid)) en =
     wire_tx False (coinbase_wire (coinbase_of p included paid en) [])"
proof -
  have outs: "concat (map (\<lambda>out. encode_output (to_value out) (to_script_pubkey out)) outs) =
      concat (map wire_output outs)" for outs
    by (simp add: wire_output_def [abs_def])
  have push: "length (extranonce_push p en) = EXTRANONCE_PUSH_SIZE"
    using assms by (simp add: extranonce_push_def coinbase_consts)
  have pool: "(if paid < sp_coinbase_value p
      then encode_output (sp_coinbase_value p - paid) (sp_pool_payout_script p)
      else encode_output 0 PRUNABLE_OP_RETURN) = wire_output (pool_output p paid)"
    by (simp add: wire_output_def pool_output_def)
  have n16: "encode_compact_size (as_u64 16) = [16]"
    by (simp add: encode_compact_size_def compact_size_consts as_u64_def)
  have op_return: "wire_output \<lparr>to_value = 0, to_script_pubkey = OP_RETURN # extranonce_push p en\<rparr> =
      put_u64_le 0 @ [word_of_nat (OP_RETURN_EXTRANONCE_OUTPUT_SIZE - MIN_OUTPUT_SIZE)] @
      [OP_RETURN, EXTRANONCE_PUSH_OPCODE] @ put_u16_be (sp_enprefix p) @ en"
    using push n16
    by (simp add: wire_output_def encode_output_def extranonce_push_def coinbase_consts)
  have final: "put_u32_le 0xffffffff = SEQUENCE_FINAL"
    by (simp add: put_u32_all_ones SEQUENCE_FINAL_def tx_sizes)
  have lock: "put_u32_le 0 = replicate LOCK_TIME_SIZE 0" by (simp add: put_zero tx_sizes)
  have one: "encode_compact_size (as_u64 (length [x])) = encode_compact_size 1" for x :: tx_in
    by (simp add: as_u64_def)
  have n: "as_u64 (length included) + 1 + (if sp_witness_commitment p \<noteq> None then 1 else 0) =
      as_u64 (length (included @ [pool_output p paid] @
        (case sp_witness_commitment p of None \<Rightarrow> [] | Some wc \<Rightarrow> [\<lparr>to_value = 0, to_script_pubkey = wc\<rparr>])))"
    by (auto simp: as_u64_def split: option.split)
  have body: "assemble_section (bc_section (assemble p included paid)) en =
      put_u32_le COINBASE_TX_VERSION @ encode_compact_size 1 @ null_outpoint @
      encode_compact_size (as_u64 (length (full_script_sig p en))) @ full_script_sig p en @ SEQUENCE_FINAL @
      encode_compact_size (as_u64 (length (coinbase_outputs p included paid en))) @
      concat (map wire_output (coinbase_outputs p included paid en)) @ replicate LOCK_TIME_SIZE 0"
  proof (cases "in_script p")
    case True
    then have len: "length (sp_script_sig p) + (if length (sp_script_sig p) \<le> SCRIPT_SIG_ROOM_FOR_EXTRANONCE
        then EXTRANONCE_PUSH_SIZE else 0) = length (full_script_sig p en)"
      using push by (simp add: full_script_sig_def in_script_def)
    show ?thesis
      using True unfolding assemble_def Let_def n len pool outs
      by (simp add: in_script_def assemble_section_def full_script_sig_def coinbase_outputs_def
          extranonce_push_def null_outpoint_def wire_output_def split: option.split)
  next
    case False
    then have len: "length (sp_script_sig p) + (if length (sp_script_sig p) \<le> SCRIPT_SIG_ROOM_FOR_EXTRANONCE
        then EXTRANONCE_PUSH_SIZE else 0) = length (full_script_sig p en)"
      by (simp add: full_script_sig_def in_script_def)
    have wc: "(case sp_witness_commitment p of None \<Rightarrow> [] | Some wc \<Rightarrow> encode_output 0 wc) =
        concat (map wire_output (case sp_witness_commitment p of None \<Rightarrow> []
          | Some wc \<Rightarrow> [\<lparr>to_value = 0, to_script_pubkey = wc\<rparr>]))"
      by (simp add: wire_output_def split: option.split)
    have all: "coinbase_outputs p included paid en =
        \<lparr>to_value = 0, to_script_pubkey = OP_RETURN # extranonce_push p en\<rparr> # included @ [pool_output p paid] @
        (case sp_witness_commitment p of None \<Rightarrow> [] | Some wc \<Rightarrow> [\<lparr>to_value = 0, to_script_pubkey = wc\<rparr>])"
      using False by (simp add: coinbase_outputs_def)
    have sig: "full_script_sig p en = sp_script_sig p" using False by (simp add: full_script_sig_def)
    show ?thesis
      using False unfolding assemble_def Let_def n len pool outs all sig list.map concat.simps op_return wc
      by (simp add: in_script_def assemble_section_def null_outpoint_def as_u64_Suc)
  qed
  then show ?thesis
    by (simp add: wire_tx_def wire_body_def coinbase_wire_def coinbase_of_def wire_input_def
        coinbase_input_def wire_bytes_def final lock as_u64_def)
qed

text \<open>The lengths Rust's types and the messages' limits put on a specification.\<close>

definition wf_spec :: "coinbase_spec \<Rightarrow> bool" where
  "wf_spec p \<longleftrightarrow> length (sp_script_sig p) < 2 ^ 32 \<and> length (sp_outputs p) < 2 ^ 32 \<and>
     length (sp_pool_payout_script p) < 2 ^ 32 \<and>
     (\<forall>wc. sp_witness_commitment p = Some wc \<longrightarrow> length wc < 2 ^ 32) \<and>
     (\<forall>out \<in> set (sp_outputs p). length (to_script_pubkey out) < 2 ^ 32) \<and>
     unat (sp_coinbase_value p) < 2 ^ 64 - 1"

lemma length_full_script_sig:
  "length en = EXTRANONCE_SIZE \<Longrightarrow>
     length (full_script_sig p en) = length (sp_script_sig p) + (if in_script p then EXTRANONCE_PUSH_SIZE else 0)"
  by (simp add: full_script_sig_def extranonce_push_def coinbase_consts)

lemma wf_coinbase_wire:
  assumes "wf_spec p" "set included \<subseteq> set (sp_outputs p)" "length included \<le> length (sp_outputs p)"
    and "length en = EXTRANONCE_SIZE"
  shows "wf_tx (coinbase_wire (coinbase_of p included paid en) [])"
proof -
  have "length (full_script_sig p en) < 2 ^ 64"
    using assms(1,4) by (simp add: length_full_script_sig wf_spec_def coinbase_consts)
  moreover have "length (coinbase_outputs p included paid en) < 2 ^ 64"
    using assms(1,3) by (simp add: coinbase_outputs_def wf_spec_def split: option.split)
  moreover have small: "\<And>n :: nat. n < 2 ^ 32 \<Longrightarrow> n < 2 ^ 64" by simp
  have "list_all wf_out (coinbase_outputs p included paid en)"
    using assms
    by (auto simp: coinbase_outputs_def wf_spec_def wf_out_def list_all_iff pool_output_def
        PRUNABLE_OP_RETURN_def extranonce_push_def EXTRANONCE_SIZE_def intro: small [simplified]
        split: option.splits)
  ultimately show ?thesis
    by (simp add: wf_tx_def coinbase_wire_def coinbase_of_def wf_in_def coinbase_input_def)
qed

lemma build_coinbase_parts:
  assumes "build_coinbase p = (b, included)"
  obtains paid where "b = assemble p included paid"
    and "select_outputs p (output_budget (fixed_bytes p) (sp_limits p)) = (included, paid)"
  using assms by (auto simp: build_coinbase_def split: prod.splits)

lemma coinbase_total:
  assumes "unat paid = outputs_total included" "paid \<le> sp_coinbase_value p"
  shows "outputs_total (coinbase_outputs p included paid en) = unat (sp_coinbase_value p)"
proof -
  have "unat (to_value (pool_output p paid)) = unat (sp_coinbase_value p) - unat paid"
    using assms(2) by (auto simp: pool_output_def unat_sub word_le_nat_alt word_less_nat_alt not_less)
  with assms show ?thesis
    by (simp add: coinbase_outputs_def word_le_nat_alt split: option.split)
qed

lemma built_coinbase_parses:
  assumes "build_coinbase p = (b, included)" "wf_spec p" "length en = EXTRANONCE_SIZE"
  shows "\<exists>c. parse_coinbase (assemble_section (bc_section b) en) = Inr c \<and> \<not> ct_has_witness c \<and>
     ct_script_sig c = full_script_sig p en \<and>
     ct_script_sig_offset c + sp_target_byte_index_in_script p = bc_target_byte_index b \<and>
     ct_outputs c =
       (if in_script p then [] else [\<lparr>to_value = 0, to_script_pubkey = OP_RETURN # extranonce_push p en\<rparr>]) @
       included @ [pool_output p (word_of_nat (outputs_total included))] @
       (case sp_witness_commitment p of None \<Rightarrow> [] | Some wc \<Rightarrow> [\<lparr>to_value = 0, to_script_pubkey = wc\<rparr>]) \<and>
     outputs_total (ct_outputs c) = unat (sp_coinbase_value p) \<and>
     subseq included (sp_outputs p) \<and> sum_list (map output_sigops included) \<le> sp_sigop_budget p"
proof -
  obtain paid where b: "b = assemble p included paid"
    and sel: "select_outputs p (output_budget (fixed_bytes p) (sp_limits p)) = (included, paid)"
    using build_coinbase_parts [OF assms(1)] .
  have val: "unat (sp_coinbase_value p) < 2 ^ 64 - 1" using assms(2) by (simp add: wf_spec_def)
  have zero: "0 \<le> sp_coinbase_value p" by simp
  note loop = select_loop_spec [OF sel [unfolded select_outputs_def] zero val]
  have paid: "unat paid = outputs_total included" using loop(2) by simp
  have sub: "set included \<subseteq> set (sp_outputs p)" "length included \<le> length (sp_outputs p)"
    using loop(1) by (auto dest: subseq_set list_emb_length)
  let ?c = "coinbase_of p included paid en"
  have tx: "assemble_section (bc_section b) en = wire_tx False (coinbase_wire ?c [])"
    unfolding b by (rule assembled_coinbase [OF assms(3)])
  have wit: "ct_has_witness ?c = False" by (simp add: coinbase_of_def)
  have "parse_coinbase (wire_tx (ct_has_witness ?c) (coinbase_wire ?c [])) = Inr ?c"
    by (rule parse_coinbase_wire [OF wf_coinbase_wire [OF assms(2) sub assms(3)]]) (simp add: coinbase_of_def)
  then have parse: "parse_coinbase (assemble_section (bc_section b) en) = Inr ?c" unfolding tx wit .
  have at: "ct_script_sig_offset ?c + sp_target_byte_index_in_script p = bc_target_byte_index b"
    unfolding b using length_full_script_sig [OF assms(3), of p]
    by (simp add: coinbase_of_def script_sig_start_def assemble_def Let_def in_script_def split_beta
        encode_compact_size_def compact_size_consts NULL_OUTPOINT_INDEX_def tx_sizes)
  have "word_of_nat (outputs_total included) = paid" by (simp add: paid [symmetric])
  then have outs: "ct_outputs ?c =
       (if in_script p then [] else [\<lparr>to_value = 0, to_script_pubkey = OP_RETURN # extranonce_push p en\<rparr>]) @
       included @ [pool_output p (word_of_nat (outputs_total included))] @
       (case sp_witness_commitment p of None \<Rightarrow> [] | Some wc \<Rightarrow> [\<lparr>to_value = 0, to_script_pubkey = wc\<rparr>])"
    by (simp add: coinbase_of_def coinbase_outputs_def)
  have tot: "outputs_total (ct_outputs ?c) = unat (sp_coinbase_value p)"
    using coinbase_total [OF paid loop(3)] by (simp add: coinbase_of_def)
  have sig: "ct_script_sig ?c = full_script_sig p en" by (simp add: coinbase_of_def)
  show ?thesis
    by (intro exI [of _ ?c] conjI parse at outs tot sig loop(1,5)) (simp add: wit)
qed

text \<open>The coinbase the gateway builds is the coinbase the pool parses, whichever extranonce is
  spliced in: one transaction without witness whose outputs are, in order, the extranonce's data
  output when the scriptSig had no room for it, the dictated outputs the build reports as included,
  the pool's output with the rest of the value, and the witness commitment; together they pay
  exactly the coinbase value, the included ones are dictated outputs in the dictated order, and
  their signature operations stay in the budget.\<close>

theorem built_coinbase_reads_back:
  assumes "build_coinbase p = (b, included)" "wf_spec p" "length en = EXTRANONCE_SIZE"
  shows "\<exists>c. parse_coinbase (assemble_section (bc_section b) en) = Inr c \<and> \<not> ct_has_witness c \<and>
     ct_script_sig c = full_script_sig p en \<and>
     ct_script_sig_offset c + sp_target_byte_index_in_script p = bc_target_byte_index b \<and>
     ct_outputs c =
       (if in_script p then [] else [\<lparr>to_value = 0, to_script_pubkey = OP_RETURN # extranonce_push p en\<rparr>]) @
       included @ [pool_output p (word_of_nat (outputs_total included))] @
       (case sp_witness_commitment p of None \<Rightarrow> [] | Some wc \<Rightarrow> [\<lparr>to_value = 0, to_script_pubkey = wc\<rparr>]) \<and>
     outputs_total (ct_outputs c) = unat (sp_coinbase_value p) \<and>
     subseq included (sp_outputs p) \<and> sum_list (map output_sigops included) \<le> sp_sigop_budget p"
  using assms by (rule built_coinbase_parses)

definition sample_spec :: coinbase_spec where
  "sample_spec =
     \<lparr>sp_coinbase_id = 1, sp_script_sig = [3, 1, 2, 3], sp_target_byte_index_in_script = 2, sp_enprefix = 0xB10C,
      sp_witness_commitment = Some [0x6a, 1, 7], sp_pool_payout_script = replicate 22 9,
      sp_coinbase_value = 5000, sp_outputs = [\<lparr>to_value = 4000, to_script_pubkey = replicate 22 8\<rparr>],
      sp_limits = \<lparr>bl_sizelimit = 1000000, bl_weightlimit = 4000000, bl_txn_total_size = 0, bl_txn_total_weight = 0\<rparr>,
      sp_sigop_budget = 80\<rparr>"

lemma built_coinbase_reads_back_witness:
  "\<exists>c. parse_coinbase (assemble_section (bc_section (fst (build_coinbase sample_spec))) (replicate 12 1)) = Inr c \<and>
     outputs_total (ct_outputs c) = 5000"
proof -
  have wf: "wf_spec sample_spec" by (simp add: wf_spec_def sample_spec_def)
  have "unat (sp_coinbase_value sample_spec) = 5000" by (simp add: sample_spec_def)
  with built_coinbase_reads_back [OF surjective_pairing wf, of "replicate 12 1"] show ?thesis
    by (auto simp: EXTRANONCE_SIZE_def)
qed

subsection \<open>The block has room for it\<close>

definition size_len :: "nat \<Rightarrow> nat" where
  "size_len n = length (encode_compact_size (as_u64 n))"

lemma size_len_values:
  "n < 2 ^ 64 \<Longrightarrow> size_len n = (if n \<le> 0xfc then 1 else if n \<le> 0xffff then 3 else if n \<le> 0xffffffff then 5 else 9)"
  by (simp add: size_len_def encode_compact_size_def compact_size_consts word_le_nat_alt unat_cast)

lemma length_wire_tx_coinbase:
  "length (wire_tx False (coinbase_wire (coinbase_of p included paid en) [])) =
     4 + 1 + OUTPOINT_SIZE + size_len (length (full_script_sig p en)) + length (full_script_sig p en) + 4 +
     size_len (length (coinbase_outputs p included paid en)) +
     sum_list (map (length \<circ> wire_output) (coinbase_outputs p included paid en)) + 4"
  by (simp add: wire_tx_def wire_body_def coinbase_wire_def coinbase_of_def wire_input_def wire_bytes_def
      coinbase_input_def length_concat comp_def size_len_def encode_compact_size_def [of 1]
      compact_size_consts as_u64_def)

lemma length_wire_output_cost:
  "length (to_script_pubkey out) \<le> 252 \<Longrightarrow> length (wire_output out) = output_cost out"
  using size_len_values [of "length (to_script_pubkey out)"]
  by (simp add: wire_output_def encode_output_def output_cost_def tx_sizes size_len_def)

lemma length_pool_output:
  assumes "3 \<le> length (sp_pool_payout_script p)" "length (sp_pool_payout_script p) \<le> 252"
    and "0 < sp_coinbase_value p"
  shows "length (wire_output (pool_output p paid)) \<le> length (wire_output (pool_output p 0))"
  using assms
  by (subst (1 2) length_wire_output_cost) (auto simp: pool_output_def output_cost_def PRUNABLE_OP_RETURN_def)

lemma assembled_fits:
  assumes wf: "wf_spec p" and pool: "3 \<le> length (sp_pool_payout_script p)" "length (sp_pool_payout_script p) \<le> 252"
    and val: "0 < sp_coinbase_value p" and few: "length included \<le> length (sp_outputs p)"
    and short: "\<forall>out \<in> set included. length (to_script_pubkey out) \<le> 252"
    and en: "length en = EXTRANONCE_SIZE"
  shows "length (assemble_section (bc_section (assemble p included paid)) en)
      \<le> fixed_bytes p + sum_list (map output_cost included)"
proof -
  have tx: "length (assemble_section (bc_section (assemble p outs v)) en) =
      length (wire_tx False (coinbase_wire (coinbase_of p outs v en) []))" for outs v
    by (simp only: assembled_coinbase [OF en])
  have apart: "length (assemble_section (bc_section (assemble p outs v)) en) =
      length (cs_coinb1 (bc_section (assemble p outs v))) + EXTRANONCE_SIZE +
      length (cs_coinb2 (bc_section (assemble p outs v)))" for outs v
    by (simp add: assemble_section_def en)
  have three: "size_len 3 = 1" by (simp add: size_len_values)
  have growth: "length (encode_compact_size (as_u64 (length (sp_outputs p)) + as_u64 MOST_UNDICTATED_OUTPUTS)) =
      size_len (length (sp_outputs p) + 3)"
    by (simp add: size_len_def MOST_UNDICTATED_OUTPUTS_def as_u64_def)
  have fixed: "fixed_bytes p = length (wire_tx False (coinbase_wire (coinbase_of p [] 0 en) [])) +
      (size_len (length (sp_outputs p) + 3) - 1)"
    unfolding fixed_bytes_def Let_def growth using three
    by (simp add: tx [symmetric] apart size_len_def MOST_UNDICTATED_OUTPUTS_def)
  have none: "length (coinbase_outputs p [] 0 en) \<le> 3" "length (coinbase_outputs p [] 0 en) < 2 ^ 64"
    by (auto simp: coinbase_outputs_def split: option.split)
  have small: "length (sp_outputs p) + 3 < 2 ^ 64" using wf by (simp add: wf_spec_def)
  have count: "size_len (length (coinbase_outputs p included paid en)) \<le> size_len (length (sp_outputs p) + 3)"
  proof -
    have "length (coinbase_outputs p included paid en) \<le> length (sp_outputs p) + 3"
      using few by (auto simp: coinbase_outputs_def split: option.split)
    with small show ?thesis by (subst (1 2) size_len_values) auto
  qed
  have one: "1 \<le> size_len (length (sp_outputs p) + 3)" "size_len (length (coinbase_outputs p [] 0 en)) = 1"
    using small none by (simp_all add: size_len_values)
  have "map (length \<circ> wire_output) included = map output_cost included"
    using short by (simp add: length_wire_output_cost del: map_map)
  then have sum: "sum_list (map (length \<circ> wire_output) included) = sum_list (map output_cost included)" by (simp only:)
  have outs: "sum_list (map (length \<circ> wire_output) (coinbase_outputs p included paid en)) \<le>
      sum_list (map output_cost included) + sum_list (map (length \<circ> wire_output) (coinbase_outputs p [] 0 en))"
    using length_pool_output [OF pool val, of paid]
    by (auto simp: coinbase_outputs_def sum split: option.split)
  show ?thesis
    unfolding tx fixed length_wire_tx_coinbase using count one outs by linarith
qed

lemma built_coinbase_fits:
  assumes "build_coinbase p = (b, included)" "wf_spec p" "length en = EXTRANONCE_SIZE"
    and "3 \<le> length (sp_pool_payout_script p)" "length (sp_pool_payout_script p) \<le> 252"
    and "0 < sp_coinbase_value p"
    and "\<forall>out \<in> set (sp_outputs p). length (to_script_pubkey out) \<le> 252"
    and fits: "HEADER_V2_SIZE + 5 + 36 + bl_txn_total_size (sp_limits p) + fixed_bytes p \<le> bl_sizelimit (sp_limits p)"
      "4 * (HEADER_V2_SIZE + 5 + fixed_bytes p) + 36 + bl_txn_total_weight (sp_limits p) \<le> bl_weightlimit (sp_limits p)"
      "fixed_bytes p \<le> MAX_COINBASE_SECTION_LEN"
  shows "HEADER_V2_SIZE + 5 + 36 + bl_txn_total_size (sp_limits p) +
      length (assemble_section (bc_section b) en) \<le> bl_sizelimit (sp_limits p)"
    and "4 * (HEADER_V2_SIZE + 5 + length (assemble_section (bc_section b) en)) + 36 +
      bl_txn_total_weight (sp_limits p) \<le> bl_weightlimit (sp_limits p)"
    and "length (cs_coinb1 (bc_section b)) + length (cs_coinb2 (bc_section b)) \<le> MAX_COINBASE_SECTION_LEN"
proof -
  obtain paid where b: "b = assemble p included paid"
    and sel: "select_outputs p (output_budget (fixed_bytes p) (sp_limits p)) = (included, paid)"
    using build_coinbase_parts [OF assms(1)] .
  have "unat (sp_coinbase_value p) < 2 ^ 64 - 1" using assms(2) by (simp add: wf_spec_def)
  note loop = select_loop_spec [OF sel [unfolded select_outputs_def] word_zero_le this]
  let ?len = "length (assemble_section (bc_section b) en)"
  let ?room = "output_budget (fixed_bytes p) (sp_limits p)"
  have short: "\<forall>out \<in> set included. length (to_script_pubkey out) \<le> 252"
    using assms(7) subseq_set [OF loop(1)] by blast
  have "?len \<le> fixed_bytes p + sum_list (map output_cost included)"
    unfolding b by (rule assembled_fits [OF assms(2,4,5,6) list_emb_length [OF loop(1)] short assms(3)])
  with loop(4) have len: "?len \<le> fixed_bytes p + ?room" by linarith
  have room: "HEADER_V2_SIZE + 5 + 36 + bl_txn_total_size (sp_limits p) + (fixed_bytes p + ?room) \<le> bl_sizelimit (sp_limits p)"
    "4 * (HEADER_V2_SIZE + 5 + (fixed_bytes p + ?room)) + 36 + bl_txn_total_weight (sp_limits p) \<le> bl_weightlimit (sp_limits p)"
    "fixed_bytes p + ?room \<le> MAX_COINBASE_SECTION_LEN"
  proof -
    define by_size where "by_size = bl_sizelimit (sp_limits p) - (bl_txn_total_size (sp_limits p) + (HEADER_V2_SIZE + 5) + 36)"
    define by_weight where
      "by_weight = bl_weightlimit (sp_limits p) - (bl_txn_total_weight (sp_limits p) + 4 * (HEADER_V2_SIZE + 5) + 36)"
    have room: "?room = min (min by_size (by_weight div 4)) MAX_COINBASE_SECTION_LEN - fixed_bytes p"
      by (simp add: output_budget_def Let_def MAX_TXN_COUNT_SIZE_def COINBASE_WITNESS_BYTES_def
          WITNESS_SCALE_FACTOR_def by_size_def by_weight_def)
    have le: "fixed_bytes p \<le> by_size" "4 * fixed_bytes p \<le> by_weight"
    proof -
      show "fixed_bytes p \<le> by_size" unfolding by_size_def using fits(1) by linarith
      have "4 * fixed_bytes p + (bl_txn_total_weight (sp_limits p) + 4 * (HEADER_V2_SIZE + 5) + 36)
          \<le> bl_weightlimit (sp_limits p)" using fits(2) by (simp add: algebra_simps)
      then show "4 * fixed_bytes p \<le> by_weight" unfolding by_weight_def by (rule add_le_imp_le_diff)
    qed
    from le(2) have "fixed_bytes p \<le> by_weight div 4" by (simp add: less_eq_div_iff_mult_less_eq mult.commute)
    with le(1) fits(3) have "fixed_bytes p + ?room = min (min by_size (by_weight div 4)) MAX_COINBASE_SECTION_LEN"
      unfolding room by simp
    then have three: "fixed_bytes p + ?room \<le> by_size" "fixed_bytes p + ?room \<le> by_weight div 4"
      "fixed_bytes p + ?room \<le> MAX_COINBASE_SECTION_LEN" by simp_all
    from three(2) have "4 * (fixed_bytes p + ?room) \<le> by_weight"
      by (simp add: less_eq_div_iff_mult_less_eq mult.commute)
    with fits(2) have "4 * (fixed_bytes p + ?room) + (bl_txn_total_weight (sp_limits p) + 4 * (HEADER_V2_SIZE + 5) + 36)
        \<le> bl_weightlimit (sp_limits p)"
      unfolding by_weight_def by (simp add: algebra_simps)
    then show "4 * (HEADER_V2_SIZE + 5 + (fixed_bytes p + ?room)) + 36 + bl_txn_total_weight (sp_limits p) \<le> bl_weightlimit (sp_limits p)"
      by (simp add: algebra_simps)
    show "HEADER_V2_SIZE + 5 + 36 + bl_txn_total_size (sp_limits p) + (fixed_bytes p + ?room) \<le> bl_sizelimit (sp_limits p)"
      using three(1) fits(1) unfolding by_size_def by linarith
    show "fixed_bytes p + ?room \<le> MAX_COINBASE_SECTION_LEN" by (rule three(3))
  qed
  show "HEADER_V2_SIZE + 5 + 36 + bl_txn_total_size (sp_limits p) + ?len \<le> bl_sizelimit (sp_limits p)"
    "4 * (HEADER_V2_SIZE + 5 + ?len) + 36 + bl_txn_total_weight (sp_limits p) \<le> bl_weightlimit (sp_limits p)"
    "length (cs_coinb1 (bc_section b)) + length (cs_coinb2 (bc_section b)) \<le> MAX_COINBASE_SECTION_LEN"
    using len room by (auto simp: assemble_section_def)
qed

lemma op_return_push_costs_nothing:
  assumes "1 \<le> length d" "length d \<le> 75"
  shows "output_sigop_cost (OP_RETURN # encode_push d) = 0"
proof -
  let ?s = "[OP_RETURN] @ encode_push d @ []"
  have ret: "script_op_at ?s 0 = Some (\<lparr>so_opcode = OP_RETURN, so_push = None\<rparr>, 1)"
    by (simp add: script_op_at_def opcode_consts)
  have "script_op_at ?s (length [OP_RETURN]) = Some (\<lparr>so_opcode = hd (encode_push d),
      so_push = Some \<lparr>sp_data_at = length [OP_RETURN] + push_header d, sp_data = d\<rparr>\<rparr>, length [OP_RETURN] + length (encode_push d))"
    using assms by (intro script_op_at_push) simp_all
  then have push: "script_op_at ?s 1 = Some (\<lparr>so_opcode = hd (encode_push d),
      so_push = Some \<lparr>sp_data_at = 1 + push_header d, sp_data = d\<rparr>\<rparr>, length ?s)" by simp
  have ops: "script_ops ?s = [\<lparr>so_opcode = OP_RETURN, so_push = None\<rparr>,
      \<lparr>so_opcode = hd (encode_push d), so_push = Some \<lparr>sp_data_at = 1 + push_header d, sp_data = d\<rparr>\<rparr>]"
    unfolding script_ops_def script_ops_from.simps [of ?s 0] ret option.case prod.case script_ops_from.simps [of ?s 1] push
    by (simp only: script_ops_from_end)
  have "unat (word_of_nat (length d) :: u8) = length d" using assms by (intro unat_byte_length) simp
  then have "hd (encode_push d) \<noteq> OP_CHECKSIG \<and> hd (encode_push d) \<noteq> OP_CHECKSIGVERIFY \<and>
      hd (encode_push d) \<noteq> OP_CHECKMULTISIG \<and> hd (encode_push d) \<noteq> OP_CHECKMULTISIGVERIFY"
    using assms(2) by (auto simp: encode_push_def opcode_consts word_unat_eq_iff)
  then show ?thesis using ops by (simp add: output_sigop_cost_def opcode_consts)
qed

lemma built_coinbase_sigops:
  assumes "build_coinbase p = (b, included)" "wf_spec p" "length en = EXTRANONCE_SIZE"
  shows "\<exists>c. parse_coinbase (assemble_section (bc_section b) en) = Inr c \<and>
    sum_list (map output_sigops (ct_outputs c)) \<le> sp_sigop_budget p + output_sigop_cost (sp_pool_payout_script p) +
      (case sp_witness_commitment p of None \<Rightarrow> 0 | Some wc \<Rightarrow> output_sigop_cost wc)"
proof -
  obtain c where c: "parse_coinbase (assemble_section (bc_section b) en) = Inr c"
    and outs: "ct_outputs c =
       (if in_script p then [] else [\<lparr>to_value = 0, to_script_pubkey = OP_RETURN # extranonce_push p en\<rparr>]) @
       included @ [pool_output p (word_of_nat (outputs_total included))] @
       (case sp_witness_commitment p of None \<Rightarrow> [] | Some wc \<Rightarrow> [\<lparr>to_value = 0, to_script_pubkey = wc\<rparr>])"
    and within: "sum_list (map output_sigops included) \<le> sp_sigop_budget p"
    using built_coinbase_parses [OF assms] by blast
  have "extranonce_push p en = encode_push (put_u16_be (sp_enprefix p) @ en)"
    using assms(3) by (simp add: extranonce_push_def encode_push_def coinbase_consts opcode_consts)
  then have extra: "output_sigop_cost (OP_RETURN # extranonce_push p en) = 0"
    using op_return_push_costs_nothing [of "put_u16_be (sp_enprefix p) @ en"] assms(3) by (simp add: EXTRANONCE_SIZE_def)
  have "output_sigop_cost PRUNABLE_OP_RETURN = 0"
    using op_return_push_costs_nothing [of "[0]"] by (simp add: PRUNABLE_OP_RETURN_def encode_push_def opcode_consts)
  then have "output_sigops (pool_output p v) \<le> output_sigop_cost (sp_pool_payout_script p)" for v
    by (simp add: pool_output_def output_sigops_def)
  from this [of "word_of_nat (outputs_total included)"] show ?thesis
    using c within extra by (intro exI [of _ c]) (auto simp: outs output_sigops_def split: option.split)
qed

text \<open>C33: while the fixed part of the coinbase fits what the template's transactions leave of the
  block, the coinbase with the dictated outputs it takes keeps the block within the template's size
  and weight limits, and its two sections within what the pool accepts in one share; and its outputs
  spend no more signature operations than the budget left of the block's, beside those of the pool's own
  output and of the witness commitment.\<close>

theorem built_coinbase_fits_block:
  assumes "build_coinbase p = (b, included)" "wf_spec p" "length en = EXTRANONCE_SIZE"
    and "3 \<le> length (sp_pool_payout_script p)" "length (sp_pool_payout_script p) \<le> 252"
    and "0 < sp_coinbase_value p"
    and "\<forall>out \<in> set (sp_outputs p). length (to_script_pubkey out) \<le> 252"
    and fits: "HEADER_V2_SIZE + 5 + 36 + bl_txn_total_size (sp_limits p) + fixed_bytes p \<le> bl_sizelimit (sp_limits p)"
      "4 * (HEADER_V2_SIZE + 5 + fixed_bytes p) + 36 + bl_txn_total_weight (sp_limits p) \<le> bl_weightlimit (sp_limits p)"
      "fixed_bytes p \<le> MAX_COINBASE_SECTION_LEN"
  shows "HEADER_V2_SIZE + 5 + 36 + bl_txn_total_size (sp_limits p) +
      length (assemble_section (bc_section b) en) \<le> bl_sizelimit (sp_limits p)
    \<and> 4 * (HEADER_V2_SIZE + 5 + length (assemble_section (bc_section b) en)) + 36 +
      bl_txn_total_weight (sp_limits p) \<le> bl_weightlimit (sp_limits p)
    \<and> length (cs_coinb1 (bc_section b)) + length (cs_coinb2 (bc_section b)) \<le> MAX_COINBASE_SECTION_LEN
    \<and> (\<exists>c. parse_coinbase (assemble_section (bc_section b) en) = Inr c \<and>
      sum_list (map output_sigops (ct_outputs c)) \<le> sp_sigop_budget p + output_sigop_cost (sp_pool_payout_script p) +
        (case sp_witness_commitment p of None \<Rightarrow> 0 | Some wc \<Rightarrow> output_sigop_cost wc))"
  by (intro conjI built_coinbase_fits [OF assms] built_coinbase_sigops [OF assms(1-3)])

section \<open>The scriptSig reads back\<close>

text \<open>What is left of the secondary tag once the push fits its space.\<close>

definition kept_tag :: "script_sig_inputs \<Rightarrow> bytes" where
  "kept_tag t =
     (let excess = length (tag_push_data (si_tag_primary t) (si_tag_secondary t)) - tag_space (si_wide_prime t)
      in take (length (si_tag_secondary t) - excess) (si_tag_secondary t))"

definition unique_id_data :: "script_sig_inputs \<Rightarrow> bytes" where
  "unique_id_data t = TARGET_BYTE_PLACEHOLDER # put_u16_le (si_unique_id t) @ prime_id_bytes t"

lemma tag_push_data_that_fits_Some:
  assumes "tag_push_data_that_fits t = Some d"
  shows "d = tag_push_data (si_tag_primary t) (kept_tag t)" "1 \<le> length d" "length d \<le> 86"
  using assms
  by (auto simp: tag_push_data_that_fits_def Let_def kept_tag_def tag_push_data_def tag_space_def
      coinbase_consts split: if_splits)

lemma unique_id_push_eq: "unique_id_push (si_unique_id t) (prime_id_bytes t) = encode_push (unique_id_data t)"
  by (simp add: unique_id_push_def encode_push_def unique_id_data_def coinbase_consts opcode_consts
      prime_id_bytes_def)

definition height_pushes :: "u32 \<Rightarrow> script_push list" where
  "height_pushes h = (case so_push (height_op h) of None \<Rightarrow> [] | Some p \<Rightarrow> [p])"

lemma script_pushes_layout:
  assumes "1 \<le> length d" "length d < 256" "1 \<le> length u" "length u < 256"
  shows "script_pushes (height_push h @ encode_push d @ encode_push u @ rest) =
     height_pushes h @
     [\<lparr>sp_data_at = length (height_push h) + push_header d, sp_data = d\<rparr>,
      \<lparr>sp_data_at = length (height_push h) + length (encode_push d) + push_header u, sp_data = u\<rparr>] @
     pushes_from (height_push h @ encode_push d @ encode_push u @ rest)
       (length (height_push h @ encode_push d @ encode_push u))"
proof -
  let ?s = "height_push h @ encode_push d @ encode_push u @ rest"
  have "script_pushes ?s = height_pushes h @ pushes_from ?s (length (height_push h))"
    by (simp add: script_pushes_def script_ops_def script_ops_height height_pushes_def pushes_from_def
        map_filter_simps split: option.split)
  also have "pushes_from ?s (length (height_push h)) =
      \<lparr>sp_data_at = length (height_push h) + push_header d, sp_data = d\<rparr> #
      pushes_from ?s (length (height_push h @ encode_push d))"
    using pushes_from_push [OF assms(1,2), of "height_push h" "encode_push u @ rest"] by simp
  also have "pushes_from ?s (length (height_push h @ encode_push d)) =
      \<lparr>sp_data_at = length (height_push h) + length (encode_push d) + push_header u, sp_data = u\<rparr> #
      pushes_from ?s (length (height_push h @ encode_push d @ encode_push u))"
    using pushes_from_push [OF assms(3,4), of "height_push h @ encode_push d" rest] by simp
  finally show ?thesis by simp
qed

lemma height_carries_no_prime: "p \<in> set (height_pushes h) \<Longrightarrow> \<not> carries_prime prime (sp_data p)"
proof -
  assume p: "p \<in> set (height_pushes h)"
  then have "h \<noteq> 0" "sp_data p = height_data h"
    by (auto simp: height_pushes_def height_op_def split: if_splits)
  with height_data_spec(4) [of h] show ?thesis by (simp add: carries_prime_def coinbase_consts Let_def)
qed

lemma take_le_bytes: "take m (le_bytes n k) = le_bytes (min m n) k"
proof (induction n arbitrary: m k)
  case (Suc n)
  show ?case by (cases m) (simp_all add: Suc.IH)
qed simp

lemma unique_id_carries_prime:
  assumes "si_datum_active t" "si_wide_prime t \<or> unat (si_prime_id t) < 2 ^ 32"
  shows "carries_prime (si_prime_id t) (unique_id_data t)"
proof (cases "si_wide_prime t")
  case True
  with assms show ?thesis
    by (simp add: carries_prime_def unique_id_data_def prime_id_bytes_def coinbase_consts Let_def)
next
  case False
  with assms(2) have small: "unat (si_prime_id t) < 2 ^ 32" by simp
  have "unat (ucast (si_prime_id t) :: u32) = unat (si_prime_id t)"
    using small by (simp add: unat_ucast_small)
  then have "put_u32_le (ucast (si_prime_id t)) = take 4 (put_u64_le (si_prime_id t))"
    by (simp only: put_u32_le_def put_u64_le_def take_le_bytes) simp
  with False assms small show ?thesis
    by (simp add: carries_prime_def unique_id_data_def prime_id_bytes_def coinbase_consts Let_def)
qed

lemma find_index_append_first:
  assumes "\<forall>x \<in> set xs. \<not> P x" "P y"
  shows "find_index P (xs @ y # ys) = Some (length xs)"
  using assms by (simp add: find_index_prefix)

lemma decode_tag_end: "decode_tag (bs @ [TAG_END]) = without_control (from_utf8_lossy bs)"
  by (simp add: decode_tag_def)

lemma without_control_Nil [simp]: "without_control [] = []"
  by (simp add: without_control.simps)

lemma script_sig_parses:
  assumes "script_sig t = Some (script, target_at)" "si_datum_active t"
    and "si_wide_prime t \<or> unat (si_prime_id t) < 2 ^ 32"
    and "\<not> carries_prime (si_prime_id t) (tag_push_data (si_tag_primary t) (kept_tag t))"
    and "ct_script_sig tx = script @ rest"
  shows "parse_script_sig tx (si_prime_id t) (si_tag_primary t) =
     Some \<lparr>pp_target_byte_index = ct_script_sig_offset tx + target_at,
           pp_tag_secondary = without_control (from_utf8_lossy (kept_tag t))\<rparr>"
proof -
  let ?d = "tag_push_data (si_tag_primary t) (kept_tag t)" and ?u = "unique_id_data t"
  let ?h = "height_push (si_height t)"
  obtain d where d: "tag_push_data_that_fits t = Some d"
    and script: "script = (?h @ encode_push d) @ unique_id_push (si_unique_id t) (prime_id_bytes t)"
    and at: "target_at = length (?h @ encode_push d) + UNIQUE_ID_PUSH_TARGET_BYTE_AT"
    using assms(1) by (auto simp: script_sig_def Let_def)
  note fits = tag_push_data_that_fits_Some [OF d]
  have u: "1 \<le> length ?u" "length ?u < 256" "push_header ?u = 1"
    by (simp_all add: unique_id_data_def prime_id_bytes_def push_header_def opcode_consts)
  let ?pushes = "script_pushes (ct_script_sig tx)"
  let ?tag = "\<lparr>sp_data_at = length ?h + push_header ?d, sp_data = ?d\<rparr>"
  let ?uid = "\<lparr>sp_data_at = length ?h + length (encode_push ?d) + push_header ?u, sp_data = ?u\<rparr>"
  obtain more where pushes: "?pushes = (height_pushes (si_height t) @ [?tag]) @ ?uid # more"
    using script_pushes_layout [of ?d ?u "si_height t" rest] fits u
    by (simp add: assms(5) script unique_id_push_eq)
  have "find_index (\<lambda>push. carries_prime (si_prime_id t) (sp_data push)) ?pushes =
      Some (length (height_pushes (si_height t) @ [?tag]))"
    unfolding pushes
    by (rule find_index_append_first)
      (use height_carries_no_prime assms(4) unique_id_carries_prime [OF assms(2,3)] in auto)
  then have found: "find_index (\<lambda>push. carries_prime (si_prime_id t) (sp_data push)) ?pushes =
      Some (Suc (length (height_pushes (si_height t))))" by simp
  have nth: "?pushes ! Suc (length (height_pushes (si_height t))) = ?uid"
    "?pushes ! length (height_pushes (si_height t)) = ?tag"
    unfolding pushes by (simp_all add: nth_append)
  have ends: "TAG_END \<noteq> TAG_SEPARATOR" by (simp add: TAG_END_def TAG_SEPARATOR_def)
  have tag: "(if si_tag_primary t = [] then
           Some (case Option.bind (Some ?d) (strip_prefix [TAG_SEPARATOR]) of
                   None \<Rightarrow> [] | Some rest \<Rightarrow> decode_tag rest)
         else
           (case Option.bind (Some ?d) (strip_prefix (si_tag_primary t)) of
              Some (marker # rest) \<Rightarrow>
                if marker = TAG_END \<or> marker = TAG_SEPARATOR
                then Some (if marker = TAG_SEPARATOR then decode_tag rest else [])
                else None
            | _ \<Rightarrow> None)) = Some (without_control (from_utf8_lossy (kept_tag t)))"
    using ends by (simp add: tag_push_data_def strip_prefix_def decode_tag_end from_utf8_lossy.simps [of "[]"])
  have prev: "(if Suc (length (height_pushes (si_height t))) = 0 then None
      else Some (sp_data (?pushes ! (Suc (length (height_pushes (si_height t))) - 1)))) = Some ?d"
    by (simp add: nth)
  have "parse_script_sig tx (si_prime_id t) (si_tag_primary t) =
      Some \<lparr>pp_target_byte_index = ct_script_sig_offset tx + sp_data_at ?uid,
            pp_tag_secondary = without_control (from_utf8_lossy (kept_tag t))\<rparr>"
    unfolding parse_script_sig_def Let_def found Option.bind.bind_lunit prev tag [unfolded Option.bind.bind_lunit] nth ..
  then show ?thesis using at fits(1) u(3) by (simp add: coinbase_consts)
qed

text \<open>The pool reads out of a coinbase's scriptSig what the gateway put there, whatever follows
  it: the target byte's index is the one the gateway reported, and the secondary tag is the
  gateway's, cut to the space left and without control characters.  The one condition is that the
  tag push itself does not look like the unique-id push of the pool's prime id.\<close>

theorem script_sig_reads_back:
  assumes "script_sig t = Some (script, target_at)" "si_datum_active t"
    and "si_wide_prime t \<or> unat (si_prime_id t) < 2 ^ 32"
    and "\<not> carries_prime (si_prime_id t) (tag_push_data (si_tag_primary t) (kept_tag t))"
    and "ct_script_sig tx = script @ rest"
  shows "parse_script_sig tx (si_prime_id t) (si_tag_primary t) =
     Some \<lparr>pp_target_byte_index = ct_script_sig_offset tx + target_at,
           pp_tag_secondary = without_control (from_utf8_lossy (kept_tag t))\<rparr>"
  using assms by (rule script_sig_parses)

definition sample_inputs :: script_sig_inputs where
  "sample_inputs =
     \<lparr>si_height = 840000, si_tag_primary = [0x70, 0x6f], si_tag_secondary = [0x61], si_unique_id = 7,
      si_prime_id = 5, si_wide_prime = False, si_datum_active = True\<rparr>"

lemma script_sig_reads_back_witness:
  "\<exists>script target_at. script_sig sample_inputs = Some (script, target_at) \<and>
     parse_script_sig \<lparr>ct_version = 1, ct_script_sig_offset = 42, ct_script_sig = script @ [9],
         ct_sequence = 0, ct_outputs = [], ct_lock_time = 0, ct_has_witness = False\<rparr> 5 [0x70, 0x6f] =
       Some \<lparr>pp_target_byte_index = 42 + target_at, pp_tag_secondary = [0x61]\<rparr>"
proof -
  have kept: "kept_tag sample_inputs = [0x61]"
    by (simp add: kept_tag_def sample_inputs_def tag_push_data_def tag_space_def coinbase_consts)
  have ascii: "without_control (from_utf8_lossy [0x61]) = [0x61]"
    using utf8_valid_ascii [of "[0x61]"]
    by (simp add: without_control.simps [of "[0x61]"] utf8_step_def utf8_width_def)
  have "\<exists>s i. script_sig sample_inputs = Some (s, i)"
    by (simp add: script_sig_def tag_push_data_that_fits_def sample_inputs_def tag_push_data_def
        tag_space_def coinbase_consts Let_def)
  then obtain script target_at where sig: "script_sig sample_inputs = Some (script, target_at)" by blast
  have not_prime: "\<not> carries_prime (si_prime_id sample_inputs)
      (tag_push_data (si_tag_primary sample_inputs) (kept_tag sample_inputs))"
    unfolding kept by (simp add: sample_inputs_def tag_push_data_def carries_prime_def coinbase_consts)
  have active: "si_datum_active sample_inputs" "unat (si_prime_id sample_inputs) < 2 ^ 32"
    "si_prime_id sample_inputs = 5" "si_tag_primary sample_inputs = [0x70, 0x6f]"
    by (simp_all add: sample_inputs_def)
  have "parse_script_sig \<lparr>ct_version = 1, ct_script_sig_offset = 42, ct_script_sig = script @ [9],
         ct_sequence = 0, ct_outputs = [], ct_lock_time = 0, ct_has_witness = False\<rparr>
       (si_prime_id sample_inputs) (si_tag_primary sample_inputs) =
       Some \<lparr>pp_target_byte_index = 42 + target_at, pp_tag_secondary = [0x61]\<rparr>"
    using script_sig_reads_back [OF sig active(1) disjI2 [OF active(2)] not_prime, of _ "[9]"]
    by (simp add: kept ascii)
  with sig active show ?thesis by auto
qed

lemma sample_fixed_bytes: "fixed_bytes sample_spec = 113"
  by (simp add: fixed_bytes_def assemble_def sample_spec_def Let_def coinbase_consts encode_compact_size_def
      compact_size_consts as_u64_def MOST_UNDICTATED_OUTPUTS_def NULL_OUTPOINT_INDEX_def tx_sizes
      SEQUENCE_FINAL_def encode_output_def)

lemma built_coinbase_fits_block_witness:
  "length (assemble_section (bc_section (fst (build_coinbase sample_spec))) (replicate 12 1)) + 205 \<le> 1000000"
proof -
  have wf: "wf_spec sample_spec" by (simp add: wf_spec_def sample_spec_def)
  have "HEADER_V2_SIZE + 5 + 36 + bl_txn_total_size (sp_limits sample_spec) +
      length (assemble_section (bc_section (fst (build_coinbase sample_spec))) (replicate 12 1))
      \<le> bl_sizelimit (sp_limits sample_spec)"
    by (rule built_coinbase_fits_block [OF surjective_pairing wf, unfolded sample_fixed_bytes, THEN conjunct1])
      (simp_all add: EXTRANONCE_SIZE_def HEADER_V2_SIZE_def MAX_COINBASE_SECTION_LEN_def, simp_all add: sample_spec_def)
  then show ?thesis by (simp add: HEADER_V2_SIZE_def sample_spec_def)
qed

end
