(* ===== verification/Config_Msg.thy ===== *)
theory Config_Msg
  imports Bulk Channel Messages
begin

text \<open>
  core/src/datum/messages/config.rs, the pool's configuration message, and
  core/src/datum/messages/migration.rs, its migration request.

  Strings are their UTF-8 bytes; \<open>usize\<close> lengths are natural numbers.  What the decoders return is
  within the limits the coinbase builder relies on: the tag is UTF-8, free of NUL bytes and at most
  81 bytes long, the payout script at most 83.
\<close>

section \<open>The configuration\<close>

definition CONFIG_VERSION :: u8 where "CONFIG_VERSION = 1"
definition CONFIG_VERSION_V3 :: u8 where "CONFIG_VERSION_V3 = 3"
definition CONFIG_FLAG_ABW_DISABLED :: u8 where "CONFIG_FLAG_ABW_DISABLED = 0x01"
definition MAX_PAYOUT_SCRIPT_LEN :: nat where "MAX_PAYOUT_SCRIPT_LEN = 83"
definition MAX_COINBASE_TAG_LEN :: nat where "MAX_COINBASE_TAG_LEN = 81"

lemmas config_consts = CONFIG_VERSION_def CONFIG_VERSION_V3_def CONFIG_FLAG_ABW_DISABLED_def
  MAX_PAYOUT_SCRIPT_LEN_def MAX_COINBASE_TAG_LEN_def

definition push_counted :: "bytes \<Rightarrow> bytes" where
  "push_counted bs = word_of_nat (length bs) # bs"

definition take_counted :: "string \<Rightarrow> nat \<Rightarrow> byte_reader \<Rightarrow> msg_error + (bytes \<times> byte_reader)" where
  "take_counted what limit c =
     tryq MsgTruncated (rd_u8 what c) (\<lambda>(n, c).
     let len = unat n in
     if limit < len then Inl (TooLong what len)
     else tryq MsgTruncated (rd_take len what c) Inr)"

definition COINBASE_TAG_HOLDS_NUL :: string where
  "COINBASE_TAG_HOLDS_NUL =
     ''coinbase tag holds a NUL byte, which a C gateway reads as the end of the tag''"

definition config_coinbase_tag :: "bytes \<Rightarrow> msg_error + bytes" where
  "config_coinbase_tag field =
     map_err (\<lambda>_. Malformed ''coinbase tag is not UTF-8'')
       (from_utf8 (takeWhile (\<lambda>b. b \<noteq> 0) field))"

record v3_config =
  v3_resume_token :: bytes
  v3_bulk_framing :: bool
  v3_abw_disabled :: bool

record client_config =
  cc_payout_script :: bytes
  cc_prime_id :: u64
  cc_coinbase_tag :: bytes
  cc_min_difficulty :: u64
  cc_v3 :: "v3_config option"

definition is_power_of_two :: "u64 \<Rightarrow> bool" where
  "is_power_of_two x \<longleftrightarrow> x \<noteq> 0 \<and> x AND (x - 1) = 0"

definition check_fields :: "client_config \<Rightarrow> msg_error + unit" where
  "check_fields c =
     (if MAX_PAYOUT_SCRIPT_LEN < length (cc_payout_script c)
        then Inl (TooLong ''payout script'' (length (cc_payout_script c)))
      else if MAX_COINBASE_TAG_LEN < length (cc_coinbase_tag c)
        then Inl (TooLong ''coinbase tag'' (length (cc_coinbase_tag c)))
      else if 0 \<in> set (cc_coinbase_tag c) then Inl (Malformed COINBASE_TAG_HOLDS_NUL)
      else if \<not> is_power_of_two (cc_min_difficulty c)
        then Inl (MinDifficultyNotPowerOfTwo (cc_min_difficulty c))
      else if cc_v3 c = None \<and> 2 ^ 32 \<le> unat (cc_prime_id c) then Inl (PrimeIdTooWide (cc_prime_id c))
      else Inr ())"

definition config_encode :: "client_config \<Rightarrow> msg_error + bytes" where
  "config_encode c =
     bindr (check_fields c) (\<lambda>_.
     Inr (CONFIG #
       (case cc_v3 c of
          None \<Rightarrow>
            CONFIG_VERSION # push_counted (cc_payout_script c) @ put_u32_le (ucast (cc_prime_id c)) @
            push_counted (cc_coinbase_tag c) @ put_u64_le (cc_min_difficulty c) @ [0, STRUCT_END]
        | Some v3 \<Rightarrow>
            CONFIG_VERSION_V3 # push_counted (cc_payout_script c) @ put_u64_le (cc_prime_id c) @
            v3_resume_token v3 @ push_counted (cc_coinbase_tag c) @
            put_u64_le (cc_min_difficulty c) @
            [if v3_abw_disabled v3 then CONFIG_FLAG_ABW_DISABLED else 0, STRUCT_END] @
            (if v3_bulk_framing v3 then DBF_MARKER else []))))"

definition read_prime_id :: "u8 \<Rightarrow> byte_reader \<Rightarrow> msg_error + ((u64 \<times> bytes option) \<times> byte_reader)" where
  "read_prime_id version c =
     (if version = CONFIG_VERSION then
        tryq MsgTruncated (rd_u32 ''prime id'' c) (\<lambda>(p, c). Inr ((ucast p, None), c))
      else if version = CONFIG_VERSION_V3 then
        tryq MsgTruncated (rd_u64 ''prime id'' c) (\<lambda>(p, c).
        tryq MsgTruncated (rd_arr RESUME_TOKEN_LEN ''resume token'' c) (\<lambda>(token, c).
        Inr ((p, Some token), c)))
      else Inl (BadVersion version))"

definition config_decode :: "bytes \<Rightarrow> msg_error + client_config" where
  "config_decode data =
     bindr (open_message data CONFIG) (\<lambda>c.
     tryq MsgTruncated (rd_u8 ''version'' c) (\<lambda>(version, c).
     bindr (take_counted ''payout script'' MAX_PAYOUT_SCRIPT_LEN c) (\<lambda>(payout_script, c).
     bindr (read_prime_id version c) (\<lambda>((prime_id, resume_token), c).
     bindr (take_counted ''coinbase tag'' MAX_COINBASE_TAG_LEN c) (\<lambda>(field, c).
     bindr (config_coinbase_tag field) (\<lambda>tag.
     tryq MsgTruncated (rd_u64 ''min difficulty'' c) (\<lambda>(min_difficulty, c).
     tryq MsgTruncated (rd_u8 ''flags'' c) (\<lambda>(flags, c).
     bindr (read_terminator c) (\<lambda>c.
     let known_flags = (if resume_token \<noteq> None then CONFIG_FLAG_ABW_DISABLED else 0) in
     if flags AND NOT known_flags \<noteq> 0 then Inl (BadFlags flags)
     else Inr \<lparr>cc_payout_script = payout_script, cc_prime_id = prime_id, cc_coinbase_tag = tag,
               cc_min_difficulty = min_difficulty,
               cc_v3 = map_option (\<lambda>token. \<lparr>v3_resume_token = token,
                   v3_bulk_framing = (take (length DBF_MARKER) (br_rest c) = DBF_MARKER),
                   v3_abw_disabled = (flags AND CONFIG_FLAG_ABW_DISABLED \<noteq> 0)\<rparr>) resume_token\<rparr>)))))))))"

lemma take_counted_push [wire]:
  assumes "length bs \<le> limit" "limit < 256"
  shows "take_counted what limit \<lparr>br_full = f, br_rest = push_counted bs @ t\<rparr> =
    Inr (bs, \<lparr>br_full = f, br_rest = t\<rparr>)"
proof -
  have "unat (word_of_nat (length bs) :: u8) = length bs" using assms by (simp add: unat_of_nat)
  then show ?thesis using assms(1) by (simp add: take_counted_def push_counted_def wire Let_def)
qed

lemma config_coinbase_tag_ok:
  "0 \<notin> set tag \<Longrightarrow> utf8_valid tag \<Longrightarrow> config_coinbase_tag tag = Inr tag"
proof -
  assume tag: "0 \<notin> set tag" "utf8_valid tag"
  from tag(1) have all: "takeWhile (\<lambda>b. b \<noteq> 0) tag = tag"
    unfolding takeWhile_eq_all_conv by auto
  show ?thesis unfolding config_coinbase_tag_def all from_utf8_def using tag(2) by simp
qed

lemma config_coinbase_tagD:
  "config_coinbase_tag field = Inr tag \<Longrightarrow> 0 \<notin> set tag \<and> utf8_valid tag \<and> length tag \<le> length field"
  by (auto simp: config_coinbase_tag_def from_utf8_def length_takeWhile_le dest: set_takeWhileD split: if_splits)

lemma take_counted_len:
  "take_counted what limit c = Inr (bs, c') \<Longrightarrow> length bs \<le> limit"
  by (auto simp: take_counted_def tryq_Inr_iff rd_Inr_iff Let_def split: if_splits)

lemma ucast_32_64: "unat (x :: u64) < 2 ^ 32 \<Longrightarrow> ucast (ucast x :: u32) = x"
  by (rule ucast_ucast_id) simp_all

text \<open>Every configuration the pool encodes is the one the gateway decodes, in the version 1
  and the version 3 form, whatever its flags.\<close>

theorem config_roundtrip:
  assumes "config_encode c = Inr data" "utf8_valid (cc_coinbase_tag c)"
    "\<forall>v3. cc_v3 c = Some v3 \<longrightarrow> length (v3_resume_token v3) = RESUME_TOKEN_LEN"
  shows "config_decode data = Inr c"
proof -
  have ok: "length (cc_payout_script c) \<le> MAX_PAYOUT_SCRIPT_LEN" "length (cc_coinbase_tag c) \<le> MAX_COINBASE_TAG_LEN"
    "0 \<notin> set (cc_coinbase_tag c)" "cc_v3 c = None \<longrightarrow> unat (cc_prime_id c) < 2 ^ 32"
    using assms(1) by (auto simp: config_encode_def check_fields_def split: if_splits)
  note tag = config_coinbase_tag_ok [OF ok(3) assms(2)]
  have small: "MAX_PAYOUT_SCRIPT_LEN < 256" "MAX_COINBASE_TAG_LEN < 256" by (simp_all add: config_consts)
  show ?thesis
  proof (cases "cc_v3 c")
    case None
    then show ?thesis using assms(1) ok small tag
      by (auto simp: config_encode_def config_decode_def read_prime_id_def wire ucast_32_64
          split: if_splits intro!: client_config.equality elim!: tryq_InrE)
  next
    case (Some v3)
    then have token: "length (v3_resume_token v3) = RESUME_TOKEN_LEN" using assms(3) by simp
    have "CONFIG_VERSION_V3 \<noteq> CONFIG_VERSION" by (simp add: config_consts)
    then show ?thesis using Some token assms(1) ok small tag
      by (cases "v3_abw_disabled v3")
        (auto simp: config_encode_def config_decode_def read_prime_id_def wire
          CONFIG_FLAG_ABW_DISABLED_def DBF_MARKER_def
          split: if_splits intro!: client_config.equality v3_config.equality elim!: tryq_InrE)
  qed
qed

definition sample_config :: client_config where
  "sample_config =
     \<lparr>cc_payout_script = [0x51, 0x20], cc_prime_id = 0x1122334455667788,
      cc_coinbase_tag = [0x72, 0x61], cc_min_difficulty = 64,
      cc_v3 = Some \<lparr>v3_resume_token = replicate RESUME_TOKEN_LEN 7, v3_bulk_framing = True,
        v3_abw_disabled = True\<rparr>\<rparr>"

lemma config_roundtrip_witness:
  "\<exists>data. config_encode sample_config = Inr data \<and> config_decode data = Inr sample_config"
proof -
  have "check_fields sample_config = Inr ()"
    by (simp add: check_fields_def sample_config_def config_consts is_power_of_two_def)
  then obtain data where data: "config_encode sample_config = Inr data"
    by (auto simp: config_encode_def)
  have "config_decode data = Inr sample_config"
    by (rule config_roundtrip [OF data]) (simp_all add: sample_config_def utf8_valid_ascii)
  with data show ?thesis by blast
qed

text \<open>Whatever bytes a gateway decodes as a configuration, it gets a payout script of at most
  83 bytes and a tag that is UTF-8, free of NUL bytes and at most 81 bytes long; the version 1 form
  carries a 32-bit prime id, and the version 3 form a whole resume token.\<close>

theorem config_decode_bounded:
  assumes "config_decode data = Inr c"
  shows "length (cc_payout_script c) \<le> 83 \<and> length (cc_coinbase_tag c) \<le> 81 \<and>
    0 \<notin> set (cc_coinbase_tag c) \<and> utf8_valid (cc_coinbase_tag c) \<and>
    (case cc_v3 c of None \<Rightarrow> unat (cc_prime_id c) < 2 ^ 32 | Some v3 \<Rightarrow> length (v3_resume_token v3) = 40)"
proof -
  have prime: "(case token of None \<Rightarrow> unat p < 2 ^ 32 | Some t \<Rightarrow> length t = 40)"
    if "read_prime_id v r = Inr ((p, token), r')" for v r p token r'
    using that unat_word_lt(3)
    by (auto simp: read_prime_id_def RESUME_TOKEN_LEN_def rd_Inr_iff elim!: tryq_InrE split: if_splits)
  show ?thesis using assms
    by (auto simp: config_decode_def config_consts split: if_splits option.splits elim!: tryq_InrE
        dest!: take_counted_len config_coinbase_tagD prime)
qed

lemma config_decode_bounded_witness:
  "\<exists>c. config_decode [0x99, 1, 1, 0x51, 0, 0, 0, 0, 1, 0x61, 1, 0, 0, 0, 0, 0, 0, 0, 0, 0xFE] = Inr c \<and>
     length (cc_coinbase_tag c) \<le> 81"
proof -
  let ?c = "\<lparr>cc_payout_script = [0x51], cc_prime_id = 0, cc_coinbase_tag = [0x61], cc_min_difficulty = 1, cc_v3 = None\<rparr>"
  have tag: "config_coinbase_tag [0x61] = Inr [0x61]"
    by (rule config_coinbase_tag_ok) (simp_all add: utf8_valid_ascii)
  have c: "config_decode [0x99, 1, 1, 0x51, 0, 0, 0, 0, 1, 0x61, 1, 0, 0, 0, 0, 0, 0, 0, 0, 0xFE] = Inr ?c"
    by (simp add: config_decode_def open_message_def read_terminator_def take_counted_def
        read_prime_id_def reader_defs rd_new_def config_consts CONFIG_def STRUCT_END_def
        tag u32_from_le_def u64_from_le_def numeral_eq_Suc)
  show ?thesis using config_decode_bounded [OF c] c by blast
qed

section \<open>The migration request\<close>

definition MIGRATION_REVISION :: u8 where "MIGRATION_REVISION = 0"
definition MIGRATION_ACTION_REDIRECT :: u8 where "MIGRATION_ACTION_REDIRECT = 0"
definition MIGRATION_ACTION_RETURN_HOME :: u8 where "MIGRATION_ACTION_RETURN_HOME = 1"
definition MAX_MIGRATION_HOST_LEN :: nat where "MAX_MIGRATION_HOST_LEN = 1024"

lemmas migration_consts = MIGRATION_REVISION_def MIGRATION_ACTION_REDIRECT_def
  MIGRATION_ACTION_RETURN_HOME_def MAX_MIGRATION_HOST_LEN_def

record migration_target =
  mt_host :: bytes
  mt_port :: u16
  mt_pubkey :: public_keys

datatype migration_request = Redirect migration_target | ReturnHome

definition read_redirect :: "byte_reader \<Rightarrow> msg_error + (migration_request \<times> byte_reader)" where
  "read_redirect c =
     tryq MsgTruncated (rd_u16 ''host length'' c) (\<lambda>(n, c).
     let host_len = unat n in
     if host_len = 0 \<or> MAX_MIGRATION_HOST_LEN \<le> host_len then Inl (OutOfRange ''host'' host_len)
     else tryq MsgTruncated (rd_take host_len ''host'' c) (\<lambda>(host, c).
     if 0 \<in> set host then Inl (Malformed ''host holds a NUL byte'')
     else let host = from_utf8_lossy host in
     tryq MsgTruncated (rd_u16 ''port'' c) (\<lambda>(port, c).
     if port = 0 then Inl (Malformed ''port is 0'')
     else tryq MsgTruncated (rd_arr PUBLIC_KEYS_LEN ''pubkey'' c) (\<lambda>(pubkey, c).
     Inr (Redirect \<lparr>mt_host = host, mt_port = port, mt_pubkey = public_keys_from_bytes pubkey\<rparr>, c)))))"

definition migration_decode :: "bytes \<Rightarrow> msg_error + migration_request" where
  "migration_decode data =
     bindr (open_message data MIGRATION) (\<lambda>c.
     tryq MsgTruncated (rd_u8 ''revision'' c) (\<lambda>(revision, c).
     if revision \<noteq> MIGRATION_REVISION then Inl (BadVersion revision)
     else tryq MsgTruncated (rd_u8 ''action'' c) (\<lambda>(action, c).
     bindr (if action = MIGRATION_ACTION_RETURN_HOME then Inr (ReturnHome, c)
            else if action = MIGRATION_ACTION_REDIRECT then read_redirect c
            else Inl (Malformed ''unknown migration action'')) (\<lambda>(request, c).
     bindr (read_final_terminator c) (\<lambda>_. Inr request)))))"

text \<open>The bytes a redirect to a host is written as.\<close>

definition redirect_bytes :: "bytes \<Rightarrow> u16 \<Rightarrow> bytes \<Rightarrow> bytes" where
  "redirect_bytes host port pubkey =
     [MIGRATION, MIGRATION_REVISION, MIGRATION_ACTION_REDIRECT] @ put_u16_le (as_u16 (length host)) @
     host @ put_u16_le port @ pubkey @ [STRUCT_END]"

lemma read_redirect_bytes:
  assumes "0 < length host" "length host < 1024" "0 \<notin> set host" "port \<noteq> 0" "length pubkey = PUBLIC_KEYS_LEN"
  shows "read_redirect \<lparr>br_full = f, br_rest = put_u16_le (as_u16 (length host)) @ host @ put_u16_le port @ pubkey @ t\<rparr> =
    Inr (Redirect \<lparr>mt_host = from_utf8_lossy host, mt_port = port, mt_pubkey = public_keys_from_bytes pubkey\<rparr>,
      \<lparr>br_full = f, br_rest = t\<rparr>)"
proof -
  have "unat (as_u16 (length host)) = length host" using assms(2) by (simp add: unat_cast)
  then show ?thesis using assms by (simp add: read_redirect_def wire Let_def migration_consts)
qed

lemma read_redirectD:
  assumes "read_redirect c = Inr (req, c')"
  shows "\<exists>host port pubkey. 0 < length host \<and> length host < 1024 \<and> 0 \<notin> set host \<and> port \<noteq> 0 \<and>
    length pubkey = PUBLIC_KEYS_LEN \<and>
    br_rest c = put_u16_le (as_u16 (length host)) @ host @ put_u16_le port @ pubkey @ br_rest c' \<and>
    req = Redirect \<lparr>mt_host = from_utf8_lossy host, mt_port = port, mt_pubkey = public_keys_from_bytes pubkey\<rparr>"
proof -
  from assms obtain n host port pubkey c1 c2 c3 where
    r: "rd_u16 ''host length'' c = Inr (n, c1)" "rd_take (unat n) ''host'' c1 = Inr (host, c2)"
    "rd_u16 ''port'' c2 = Inr (port, c3)" "rd_arr PUBLIC_KEYS_LEN ''pubkey'' c3 = Inr (pubkey, c')"
    and ok: "unat n \<noteq> 0" "unat n < 1024" "0 \<notin> set host" "port \<noteq> 0"
    and req: "req = Redirect \<lparr>mt_host = from_utf8_lossy host, mt_port = port, mt_pubkey = public_keys_from_bytes pubkey\<rparr>"
    by (auto simp: read_redirect_def Let_def migration_consts not_le elim!: tryq_InrE split: if_splits)
  have len: "length host = unat n" using r(2) by (auto simp: rd_Inr_iff)
  have "as_u16 (length host) = n" unfolding len by (simp add: as_u16_def)
  moreover from r have "br_rest c = put_u16_le n @ host @ put_u16_le port @ pubkey @ br_rest c'"
    "length pubkey = PUBLIC_KEYS_LEN"
    by (auto dest!: rd_restD simp: rd_arr_Inr_iff)
  ultimately show ?thesis using ok req len
    by (intro exI [of _ host] exI [of _ port] exI [of _ pubkey]) simp
qed

text \<open>Exactly two shapes of bytes decode as a migration request: the return home, and a redirect
  with a non-empty host of fewer than 1024 bytes holding no NUL, a non-zero port and a whole key
  pair, with nothing after the terminator.\<close>

theorem migration_decode_exact:
  "migration_decode data = Inr req \<longleftrightarrow>
     data = [MIGRATION, 0, 1, STRUCT_END] \<and> req = ReturnHome \<or>
     (\<exists>host port pubkey. data = redirect_bytes host port pubkey \<and> 0 < length host \<and>
        length host < 1024 \<and> 0 \<notin> set host \<and> port \<noteq> 0 \<and> length pubkey = PUBLIC_KEYS_LEN \<and>
        req = Redirect \<lparr>mt_host = from_utf8_lossy host, mt_port = port,
                        mt_pubkey = public_keys_from_bytes pubkey\<rparr>)"
    (is "?l \<longleftrightarrow> ?home \<or> ?redirect")
proof
  assume ?l
  then show "?home \<or> ?redirect"
    by (auto simp: migration_decode_def tryq_Inr_iff migration_consts redirect_bytes_def
        dest!: open_messageD rd_restD read_redirectD read_final_terminatorD split: if_splits)
next
  assume "?home \<or> ?redirect"
  then show ?l
    by (auto simp: migration_decode_def wire migration_consts redirect_bytes_def read_redirect_bytes)
qed

end
