(* ===== verification/Notify_Id.thy ===== *)
theory Notify_Id
  imports Share_Msg
begin

text \<open>
  gateway/src/stratum/notify_id.rs: the job id of a mining.notify, and the coinbase kinds of
  gateway/src/job.rs it names.  Strings are their UTF-8 bytes; \<open>char_boundary\<close>, \<open>str_get\<close> and
  \<open>from_str_radix16\<close> are the standard library's \<open>str::get\<close> and \<open>from_str_radix\<close> at radix 16, an
  optional leading plus sign included, and \<open>hex_fixed\<close> its zero-padded lower-case hexadecimal format.
\<close>

section \<open>Hexadecimal text\<close>

definition hex_char :: "nat \<Rightarrow> u8" where
  "hex_char d = word_of_nat (if d < 10 then 0x30 + d else 0x61 + (d - 10))"

fun hex_fixed :: "nat \<Rightarrow> nat \<Rightarrow> bytes" where
  "hex_fixed 0 k = []"
| "hex_fixed (Suc w) k = hex_fixed w (k div 16) @ [hex_char (k mod 16)]"

definition hex_digit :: "u8 \<Rightarrow> nat option" where
  "hex_digit b =
     (if 0x30 \<le> b \<and> b \<le> 0x39 then Some (unat b - 0x30)
      else if 0x61 \<le> b \<and> b \<le> 0x66 then Some (unat b - 0x61 + 10)
      else if 0x41 \<le> b \<and> b \<le> 0x46 then Some (unat b - 0x41 + 10)
      else None)"

fun hex_number :: "bytes \<Rightarrow> nat \<Rightarrow> nat option" where
  "hex_number [] acc = Some acc"
| "hex_number (b # bs) acc =
     (case hex_digit b of None \<Rightarrow> None | Some d \<Rightarrow> hex_number bs (acc * 16 + d))"

definition from_str_radix16 :: "nat \<Rightarrow> bytes \<Rightarrow> nat option" where
  "from_str_radix16 width s =
     (if s = [] \<or> s = [0x2B] \<or> s = [0x2D] then None
      else case hex_number (if hd s = 0x2B then tl s else s) 0 of
        None \<Rightarrow> None
      | Some n \<Rightarrow> if n < 2 ^ width then Some n else None)"

definition char_boundary :: "bytes \<Rightarrow> nat \<Rightarrow> bool" where
  "char_boundary s i \<longleftrightarrow> i = 0 \<or> i = length s \<or> i < length s \<and> \<not> (0x80 \<le> s ! i \<and> s ! i < 0xC0)"

definition str_get :: "bytes \<Rightarrow> nat \<Rightarrow> nat \<Rightarrow> bytes option" where
  "str_get s a b =
     (if a \<le> b \<and> b \<le> length s \<and> char_boundary s a \<and> char_boundary s b
      then Some (take (b - a) (drop a s)) else None)"

lemma length_hex_fixed [simp]: "length (hex_fixed w k) = w"
  by (induction w arbitrary: k) simp_all

lemma unat_hex_char: "d < 16 \<Longrightarrow> unat (hex_char d) = (if d < 10 then 0x30 + d else 0x57 + d)"
  by (simp add: hex_char_def unat_of_nat)

lemma hex_char_digit: "d < 16 \<Longrightarrow> hex_digit (hex_char d) = Some d"
  by (simp add: hex_digit_def word_le_nat_alt unat_hex_char)

lemma hex_char_ascii: "d < 16 \<Longrightarrow> hex_char d < 0x80 \<and> 0x30 \<le> hex_char d"
  by (simp add: word_le_nat_alt word_less_nat_alt unat_hex_char)

lemma hex_fixed_ascii: "b \<in> set (hex_fixed w k) \<Longrightarrow> b < 0x80 \<and> 0x30 \<le> b"
  by (induction w arbitrary: k) (auto simp: hex_char_ascii)

lemma hex_number_append: "hex_number (xs @ ys) acc = Option.bind (hex_number xs acc) (hex_number ys)"
  by (induction xs arbitrary: acc) (auto split: option.split)

lemma hex_number_fixed: "k < 16 ^ w \<Longrightarrow> hex_number (hex_fixed w k) acc = Some (acc * 16 ^ w + k)"
proof (induction w arbitrary: k acc)
  case (Suc w)
  then have "k div 16 < 16 ^ w" by (simp add: less_mult_imp_div_less)
  from Suc.IH [OF this] show ?case
    by (simp add: hex_number_append hex_char_digit algebra_simps)
qed simp

lemma from_str_radix16_fixed:
  assumes "0 < w" "k < 16 ^ w" "(16 :: nat) ^ w \<le> 2 ^ width"
  shows "from_str_radix16 width (hex_fixed w k) = Some k"
proof -
  have "hex_fixed w k \<noteq> []" using assms(1) by (metis length_hex_fixed length_0_conv less_irrefl)
  moreover from this have "0x30 \<le> hd (hex_fixed w k)" by (meson hd_in_set hex_fixed_ascii)
  then have "hd (hex_fixed w k) \<noteq> 0x2B" "hex_fixed w k \<noteq> [0x2B]" "hex_fixed w k \<noteq> [0x2D]" by auto
  ultimately show ?thesis using assms(2,3) hex_number_fixed [of k w 0] by (simp add: from_str_radix16_def)
qed

lemma char_boundary_ascii: "\<forall>b \<in> set s. b < 0x80 \<Longrightarrow> i \<le> length s \<Longrightarrow> char_boundary s i"
proof (cases "i = length s")
  case False
  moreover assume "\<forall>b \<in> set s. b < 0x80" "i \<le> length s"
  ultimately have "s ! i < 0x80" by simp
  then have "\<not> 0x80 \<le> s ! i" by (simp add: not_le)
  then show ?thesis using False \<open>i \<le> length s\<close> by (simp add: char_boundary_def)
qed (simp add: char_boundary_def)

lemma str_get_ascii:
  "\<forall>b \<in> set s. b < 0x80 \<Longrightarrow> a \<le> b \<Longrightarrow> b \<le> length s \<Longrightarrow> str_get s a b = Some (take (b - a) (drop a s))"
  by (simp add: str_get_def char_boundary_ascii)

section \<open>Job ids\<close>

datatype coinbase_kind = Pooled | SubsidyOnly

definition POOLED_WIRE_ID :: u8 where "POOLED_WIRE_ID = 1"

fun wire_id :: "coinbase_kind \<Rightarrow> u8" where
  "wire_id Pooled = POOLED_WIRE_ID"
| "wire_id SubsidyOnly = COINBASE_ID_SUBSIDY_ONLY"

definition JOB_INDEX_XOR :: u16 where "JOB_INDEX_XOR = 0xC0DE"
definition JOB_ID_TIME_CHARS :: nat where "JOB_ID_TIME_CHARS = 8"
definition JOB_ID_CHARS :: nat where "JOB_ID_CHARS = 14"
definition JOB_ID_INDEX_AT :: nat where "JOB_ID_INDEX_AT = 10"
definition NOTIFY_ID_CHARS :: nat where "NOTIFY_ID_CHARS = JOB_ID_CHARS + 2"
definition QUICKDIFF_PREFIX :: u8 where "QUICKDIFF_PREFIX = 0x51"
definition EMPTY_WORK_PREFIX :: u8 where "EMPTY_WORK_PREFIX = 0x4E"

lemmas notify_consts = POOLED_WIRE_ID_def COINBASE_ID_SUBSIDY_ONLY_def JOB_INDEX_XOR_def
  JOB_ID_CHARS_def JOB_ID_INDEX_AT_def NOTIFY_ID_CHARS_def QUICKDIFF_PREFIX_def EMPTY_WORK_PREFIX_def

definition stratum_job_id :: "u32 \<Rightarrow> u8 \<Rightarrow> bytes" where
  "stratum_job_id created_at slot =
     hex_fixed 8 (unat created_at) @ hex_fixed 2 (unat slot) @
     hex_fixed 4 (unat ((ucast slot :: u16) XOR JOB_INDEX_XOR))"

definition slot_of :: "bytes \<Rightarrow> u8 option" where
  "slot_of s =
     Option.bind (str_get s JOB_ID_INDEX_AT JOB_ID_CHARS) (\<lambda>field.
     Option.bind (from_str_radix16 16 field) (\<lambda>raw.
     let idx = (word_of_nat raw :: u16) XOR JOB_INDEX_XOR in
     if MAX_JOBS \<le> unat idx then None else Some (ucast idx)))"

datatype notify_prefix = Plain | Quickdiff | EmptyWork

fun prefix_of_kind :: "coinbase_kind \<Rightarrow> notify_prefix" where
  "prefix_of_kind SubsidyOnly = EmptyWork"
| "prefix_of_kind Pooled = Plain"

fun prefix_coinbase :: "notify_prefix \<Rightarrow> coinbase_kind" where
  "prefix_coinbase Plain = Pooled"
| "prefix_coinbase Quickdiff = Pooled"
| "prefix_coinbase EmptyWork = SubsidyOnly"

definition notify_id :: "notify_prefix \<Rightarrow> bytes \<Rightarrow> bytes" where
  "notify_id p job_id =
     (let cb = wire_id (prefix_coinbase p) in
      case p of
        Plain \<Rightarrow> job_id @ hex_fixed 2 (unat cb)
      | Quickdiff \<Rightarrow> QUICKDIFF_PREFIX # job_id @ hex_fixed 2 (unat cb)
      | EmptyWork \<Rightarrow> EMPTY_WORK_PREFIX # job_id @ hex_fixed 2 (unat cb))"

record notify_id_t =
  ni_slot :: u8
  ni_prefix :: notify_prefix

definition notify_id_parse :: "bytes \<Rightarrow> (notify_id_t \<times> bytes) option" where
  "notify_id_parse s =
     Option.bind
       (if length s = NOTIFY_ID_CHARS then Some (Plain, s)
        else if length s = NOTIFY_ID_CHARS + 1 \<and> hd s = QUICKDIFF_PREFIX then Some (Quickdiff, tl s)
        else if length s = NOTIFY_ID_CHARS + 1 \<and> hd s = EMPTY_WORK_PREFIX then Some (EmptyWork, tl s)
        else None) (\<lambda>(prefix, rest).
     Option.bind (str_get rest 0 JOB_ID_CHARS) (\<lambda>job_id.
     Option.bind (slot_of job_id) (\<lambda>slot.
     Option.bind (Option.bind (str_get rest JOB_ID_CHARS NOTIFY_ID_CHARS) (from_str_radix16 8)) (\<lambda>id.
     if word_of_nat id \<noteq> wire_id (prefix_coinbase prefix) then None
     else Some (\<lparr>ni_slot = slot, ni_prefix = prefix\<rparr>, job_id)))))"

lemma stratum_job_id_ascii: "b \<in> set (stratum_job_id t s) \<Longrightarrow> b < 0x80"
  by (auto simp: stratum_job_id_def dest: hex_fixed_ascii)

lemma length_stratum_job_id: "length (stratum_job_id t s) = JOB_ID_CHARS"
  by (simp add: stratum_job_id_def JOB_ID_CHARS_def)

lemma slot_of_job_id: "slot_of (stratum_job_id t s) = Some s"
proof -
  let ?x = "(ucast s :: u16) XOR JOB_INDEX_XOR"
  have "str_get (stratum_job_id t s) JOB_ID_INDEX_AT JOB_ID_CHARS = Some (hex_fixed 4 (unat ?x))"
    using str_get_ascii [of "stratum_job_id t s" JOB_ID_INDEX_AT JOB_ID_CHARS] length_stratum_job_id [of t s]
    by (auto simp: stratum_job_id_ascii JOB_ID_CHARS_def JOB_ID_INDEX_AT_def) (simp add: stratum_job_id_def)
  moreover have "from_str_radix16 16 (hex_fixed 4 (unat ?x)) = Some (unat ?x)"
    using unat_word_lt(2) [of ?x] by (intro from_str_radix16_fixed) simp_all
  moreover have "?x XOR JOB_INDEX_XOR = ucast s" by (simp add: ac_simps xor.assoc)
  moreover have "unat (ucast s :: u16) < MAX_JOBS"
    using unat_word_lt(1) [of s] by (simp add: MAX_JOBS_def)
  ultimately show ?thesis by (simp add: slot_of_def not_le)
qed

text \<open>The id a miner submits names exactly the slot and the kind of work it was notified with,
  whichever of the three prefixes the notify carried, and gives the stratum job id back, so the job
  whose creation time it carries can be checked.\<close>

theorem notify_id_reads_back:
  "notify_id_parse (notify_id p (stratum_job_id created_at slot)) =
     Some (\<lparr>ni_slot = slot, ni_prefix = p\<rparr>, stratum_job_id created_at slot)"
proof -
  define j where "j = stratum_job_id created_at slot"
  define i where "i = hex_fixed 2 (unat (wire_id (prefix_coinbase p)))"
  have j: "length j = 14" "\<forall>b \<in> set (j @ i). b < 0x80" "slot_of j = Some slot"
    using length_stratum_job_id [of created_at slot] slot_of_job_id [of created_at slot]
    by (auto simp: j_def i_def JOB_ID_CHARS_def stratum_job_id_ascii dest: hex_fixed_ascii)
  have i: "length i = 2" "from_str_radix16 8 i = Some (unat (wire_id (prefix_coinbase p)))"
    using unat_word_lt(1) [of "wire_id (prefix_coinbase p)"]
    by (simp_all add: i_def from_str_radix16_fixed [where w = 2])
  have gets: "str_get (j @ i) 0 14 = Some j" "str_get (j @ i) 14 16 = Some i"
    using str_get_ascii [OF j(2), of 0 14] str_get_ascii [OF j(2), of 14 16] j(1) i(1) by simp_all
  have "notify_id p j = (case p of Plain \<Rightarrow> [] | Quickdiff \<Rightarrow> [QUICKDIFF_PREFIX] | EmptyWork \<Rightarrow> [EMPTY_WORK_PREFIX]) @ j @ i"
    by (cases p) (simp_all add: notify_id_def i_def)
  then show ?thesis using j i gets unfolding j_def [symmetric]
    by (cases p) (simp_all add: notify_id_parse_def notify_consts)
qed

end
