(* ===== verification/Job.thy ===== *)
theory Job
  imports Notify_Id Coinbase Config_Msg
begin

text \<open>
  A gateway's jobs: gateway/src/job.rs, gateway/src/job/builder.rs, the template of
  gateway/src/template.rs they are built from, and the commitments of gateway/src/datum/abw.rs they
  are mined under.

  \<open>Instant\<close>s are milliseconds on a clock that is an argument.  The cache of commitments behind the
  job's lock is a map in the job's record, and \<open>commitment\<close> returns the job with the entry it added.
  An index out of bounds and the subtraction of the subsidy, which the template's decoder keeps from
  wrapping, are the code's panics and wraps: \<open>None\<close> where the code panics, word arithmetic where it
  wraps.
\<close>

section \<open>Templates and assignments\<close>

record template_txn =
  tt_raw :: bytes
  tt_txid :: bytes
  tt_witness_hash :: bytes

record txn_totals =
  to_fee :: u64
  to_weight :: u32
  to_size :: u32
  to_sigops :: u32

record template =
  tp_height :: u32
  tp_coinbase_value :: u64
  tp_mintime :: u64
  tp_curtime :: u64
  tp_sizelimit :: u64
  tp_weightlimit :: u64
  tp_sigoplimit :: u64
  tp_version :: u32
  tp_nbits :: u32
  tp_prev_hash :: bytes
  tp_witness_commitment :: bytes
  tp_blake2b_rule :: bool
  tp_reduced_data :: bool
  tp_txns :: "template_txn list"
  tp_totals :: txn_totals

definition template_witness_hashes :: "template \<Rightarrow> bytes list" where
  "template_witness_hashes t = map tt_witness_hash (tp_txns t)"

record abw_assignment =
  ab_slot :: u8
  ab_key_hash :: bytes

record abw_assignments =
  aa_key_hashes :: "bytes option list"
  aa_active :: "u8 option"

definition assignments_default :: abw_assignments where
  "assignments_default =
     \<lparr>aa_key_hashes = replicate (unat ASSIGNMENT_SLOTS) None, aa_active = None\<rparr>"

text \<open>Indexing the array past its end is the code's panic, \<open>None\<close>.\<close>

definition key_hash_at :: "abw_assignments \<Rightarrow> u8 \<Rightarrow> bytes option option" where
  "key_hash_at a slot =
     (if unat slot < length (aa_key_hashes a) then Some (aa_key_hashes a ! unat slot) else None)"

definition assignment :: "abw_assignments \<Rightarrow> abw_assignment option option" where
  "assignment a =
     (case aa_active a of
        None \<Rightarrow> Some None
      | Some slot \<Rightarrow> map_option (map_option (\<lambda>h. \<lparr>ab_slot = slot, ab_key_hash = h\<rparr>)) (key_hash_at a slot))"

definition assignments_holds :: "abw_assignments \<Rightarrow> abw_assignment \<Rightarrow> bool option" where
  "assignments_holds a x = map_option (\<lambda>h. h = Some (ab_key_hash x)) (key_hash_at a (ab_slot x))"

definition assignments_install :: "u8 \<Rightarrow> bytes \<Rightarrow> bool \<Rightarrow> abw_assignments \<Rightarrow> abw_assignments option" where
  "assignments_install slot key_hash active a =
     map_option (\<lambda>_.
       let a = a\<lparr>aa_key_hashes := (aa_key_hashes a)[unat slot := Some key_hash]\<rparr>
       in if active then a\<lparr>aa_active := Some slot\<rparr> else a) (key_hash_at a slot)"

definition assignments_activate :: "u8 \<Rightarrow> abw_assignments \<Rightarrow> (bool \<times> abw_assignments) option" where
  "assignments_activate slot a =
     map_option (\<lambda>h. if h = None then (False, a) else (True, a\<lparr>aa_active := Some slot\<rparr>))
       (key_hash_at a slot)"

definition assignments_reveal ::
    "(bytes \<Rightarrow> bytes) \<Rightarrow> u8 \<Rightarrow> bytes \<Rightarrow> abw_assignments \<Rightarrow> (bool \<times> abw_assignments) option" where
  "assignments_reveal sha slot xor_key a =
     map_option (\<lambda>h.
       if (case h of Some hash \<Rightarrow> xor_key_hash sha xor_key \<noteq> hash | None \<Rightarrow> False) then (False, a)
       else (True,
         let a = a\<lparr>aa_key_hashes := (aa_key_hashes a)[unat slot := None]\<rparr>
         in if aa_active a = Some slot then a\<lparr>aa_active := None\<rparr> else a)) (key_hash_at a slot)"

section \<open>Jobs\<close>

record h2_commitment =
  h2_header :: block_header_v2
  h2_h2 :: bytes

record job =
  jb_serial :: u64
  jb_slot :: u8
  jb_stratum_job_id :: bytes
  jb_template :: template
  jb_block_target :: bytes
  jb_prevblock_hidden :: bytes
  jb_job_section :: job_section
  jb_pooled_coinbase :: built_coinbase
  jb_subsidy_only_coinbase :: built_coinbase
  jb_coinbaser_outputs :: "tx_out list"
  jb_pool_payout_script :: bytes
  jb_is_datum_job :: bool
  jb_abw :: "abw_assignment option"
  jb_created_at :: nat
  jb_stale_prevblock :: bool
  jb_commitments :: "coinbase_kind \<times> u8 \<Rightarrow> h2_commitment option"

definition job_coinbase :: "job \<Rightarrow> coinbase_kind \<Rightarrow> built_coinbase" where
  "job_coinbase j kind =
     (case kind of Pooled \<Rightarrow> jb_pooled_coinbase j | SubsidyOnly \<Rightarrow> jb_subsidy_only_coinbase j)"

definition full_coinbase :: "job \<Rightarrow> coinbase_kind \<Rightarrow> u8 \<Rightarrow> bytes option" where
  "full_coinbase j kind target_byte =
     job_coinbase_tx (jb_job_section j) (bc_section (job_coinbase j kind)) target_byte"

definition job_hash_stages ::
    "(bytes \<Rightarrow> bytes) \<Rightarrow> (bytes \<Rightarrow> bytes) \<Rightarrow> job \<Rightarrow> block_header_v2 \<Rightarrow> hash_stages_t" where
  "job_hash_stages sha blake j h =
     (case jb_abw j of
        Some a \<Rightarrow> hash_stages_with_key_hash sha blake h (ab_key_hash a)
      | None \<Rightarrow> hash_stages sha blake h)"

definition job_raw_pow_hash ::
    "(bytes \<Rightarrow> bytes) \<Rightarrow> (bytes \<Rightarrow> bytes) \<Rightarrow> job \<Rightarrow> block_header_v2 \<Rightarrow> bytes" where
  "job_raw_pow_hash sha blake j h = raw_pow_hash sha blake h (job_hash_stages sha blake j h)"

definition commitment ::
    "(bytes \<Rightarrow> bytes) \<Rightarrow> (bytes \<Rightarrow> bytes) \<Rightarrow> coinbase_kind \<Rightarrow> u8 \<Rightarrow> job \<Rightarrow> h2_commitment option \<times> job" where
  "commitment sha blake kind target_byte j =
     (case jb_commitments j (kind, target_byte) of
        Some c \<Rightarrow> (Some c, j)
      | None \<Rightarrow>
          (case full_coinbase j kind target_byte of
             None \<Rightarrow> (None, j)
           | Some tx \<Rightarrow>
               let subsidy_only = (kind = SubsidyOnly) in
               (case job_header (jb_job_section j) (tp_version (jb_template j))
                       (ucast (tp_curtime (jb_template j)))
                       (job_merkle_root sha (jb_job_section j) tx subsidy_only) subsidy_only
                       target_byte (jb_abw j \<noteq> None) of
                  None \<Rightarrow> (None, j)
                | Some header \<Rightarrow>
                    let c = \<lparr>h2_header = header, h2_h2 = st_h2 (job_hash_stages sha blake j header)\<rparr>
                    in (Some c, j\<lparr>jb_commitments := (jb_commitments j)((kind, target_byte) \<mapsto> c)\<rparr>))))"

definition job_header_for ::
    "(bytes \<Rightarrow> bytes) \<Rightarrow> (bytes \<Rightarrow> bytes) \<Rightarrow> coinbase_kind \<Rightarrow> u8 \<Rightarrow> bytes \<Rightarrow> bytes \<Rightarrow> bytes \<Rightarrow> job
       \<Rightarrow> block_header_v2 option \<times> job" where
  "job_header_for sha blake kind target_byte extranonce sia_ntime sia_nonce j =
     (let (c, j) = commitment sha blake kind target_byte j in
      (map_option (\<lambda>c.
         set_sia_fields ((h2_header c)\<lparr>hd_extranonce := extranonce\<rparr>) sia_ntime sia_nonce) c, j))"

text \<open>The header before the miner's fields computed without the cache: what a cached entry must be.\<close>

definition fresh_commitment ::
    "(bytes \<Rightarrow> bytes) \<Rightarrow> (bytes \<Rightarrow> bytes) \<Rightarrow> job \<Rightarrow> coinbase_kind \<Rightarrow> u8 \<Rightarrow> h2_commitment option" where
  "fresh_commitment sha blake j kind target_byte =
     fst (commitment sha blake kind target_byte (j\<lparr>jb_commitments := \<lambda>_. None\<rparr>))"

definition commitments_ok :: "(bytes \<Rightarrow> bytes) \<Rightarrow> (bytes \<Rightarrow> bytes) \<Rightarrow> job \<Rightarrow> bool" where
  "commitments_ok sha blake j \<longleftrightarrow>
     (\<forall>kind target_byte c. jb_commitments j (kind, target_byte) = Some c \<longrightarrow>
        fresh_commitment sha blake j kind target_byte = Some c)"

lemma commitments_update_irrelevant [simp]:
  "job_coinbase (jb_commitments_update f j) = job_coinbase j"
  "full_coinbase (jb_commitments_update f j) = full_coinbase j"
  "job_hash_stages sha blake (jb_commitments_update f j) = job_hash_stages sha blake j"
  by (auto simp: fun_eq_iff job_coinbase_def full_coinbase_def job_hash_stages_def split: coinbase_kind.split)

lemma fresh_commitment_update [simp]:
  "fresh_commitment sha blake (jb_commitments_update f j) = fresh_commitment sha blake j"
  by (simp add: fun_eq_iff fresh_commitment_def)

lemma commitment_cached:
  "commitment sha blake kind target_byte j =
     (case jb_commitments j (kind, target_byte) of
        Some c \<Rightarrow> (Some c, j)
      | None \<Rightarrow> (case fresh_commitment sha blake j kind target_byte of
          None \<Rightarrow> (None, j)
        | Some c \<Rightarrow> (Some c, j\<lparr>jb_commitments := (jb_commitments j)((kind, target_byte) \<mapsto> c)\<rparr>)))"
  unfolding fresh_commitment_def by (simp add: commitment_def Let_def split: option.splits)

lemma commitment_fresh:
  assumes "commitments_ok sha blake j"
  shows "fst (commitment sha blake kind target_byte j) = fresh_commitment sha blake j kind target_byte"
    and "commitments_ok sha blake (snd (commitment sha blake kind target_byte j))"
    and "\<exists>f. snd (commitment sha blake kind target_byte j) = jb_commitments_update f j"
proof -
  have self: "j\<lparr>jb_commitments := jb_commitments j\<rparr> = j" by simp
  have keep: "\<exists>f. j = jb_commitments_update f j" by (metis self)
  note ok = assms [unfolded commitments_ok_def, rule_format]
  show fst: "fst (commitment sha blake kind target_byte j) = fresh_commitment sha blake j kind target_byte"
    by (auto simp: commitment_cached ok split: option.splits)
  show "\<exists>f. snd (commitment sha blake kind target_byte j) = jb_commitments_update f j"
    using keep by (auto simp: commitment_cached split: option.splits)
  show "commitments_ok sha blake (snd (commitment sha blake kind target_byte j))"
    using ok assms by (auto simp: commitments_ok_def commitment_cached split: option.splits)
qed

section \<open>Building a job\<close>

text \<open>The fields of the gateway's configuration a job is built from.\<close>

record job_config =
  jc_protocol_job_slots :: nat
  jc_pool_output_script :: bytes
  jc_tag_primary :: bytes
  jc_tag_secondary :: bytes
  jc_unique_id :: u32

definition ENPREFIX_XOR :: u16 where "ENPREFIX_XOR = 0xB10C"

datatype build_error = PayoutScriptSize nat | TagsDoNotFit | TooManyBranches nat | BadBits

record job_inputs =
  ji_serial :: u64
  ji_template :: template
  ji_pool_config :: "client_config option"
  ji_coinbaser :: "coinbaser_response option"
  ji_abw :: "abw_assignment option"

definition job_inputs_new :: "u64 \<Rightarrow> template \<Rightarrow> job_inputs" where
  "job_inputs_new serial t =
     \<lparr>ji_serial = serial, ji_template = t, ji_pool_config = None, ji_coinbaser = None, ji_abw = None\<rparr>"

definition config_payout_script :: "job_config \<Rightarrow> client_config option \<Rightarrow> bytes" where
  "config_payout_script c pool =
     (case pool of None \<Rightarrow> jc_pool_output_script c | Some p \<Rightarrow> cc_payout_script p)"

definition filter_coinbaser :: "template \<Rightarrow> coinbaser_response option \<Rightarrow> coinbaser_response" where
  "filter_coinbaser t coinbaser =
     (case coinbaser of
        None \<Rightarrow> \<lparr>cb_value = tp_coinbase_value t, cb_coinbaser_id = 0, cb_outputs = []\<rparr>
      | Some r \<Rightarrow> r\<lparr>cb_outputs := filter (\<lambda>out.
          \<not> tp_reduced_data t \<or> output_script_size_is_valid (to_script_pubkey out)) (cb_outputs r)\<rparr>)"

definition build_coinbases ::
    "template \<Rightarrow> bytes \<Rightarrow> nat \<Rightarrow> u16 \<Rightarrow> bytes \<Rightarrow> tx_out list
       \<Rightarrow> built_coinbase \<times> built_coinbase \<times> tx_out list" where
  "build_coinbases t script target_byte_index_in_script enprefix pool_payout_script outputs =
     (let limits = \<lparr>bl_sizelimit = unat (tp_sizelimit t), bl_weightlimit = unat (tp_weightlimit t),
                    bl_txn_total_size = unat (to_size (tp_totals t)),
                    bl_txn_total_weight = unat (to_weight (tp_totals t))\<rparr>;
          spec = (\<lambda>outs sigops kind.
            \<lparr>sp_coinbase_id = wire_id kind, sp_script_sig = script,
             sp_target_byte_index_in_script = target_byte_index_in_script, sp_enprefix = enprefix,
             sp_witness_commitment =
               (case kind of Pooled \<Rightarrow> Some (tp_witness_commitment t) | SubsidyOnly \<Rightarrow> None),
             sp_pool_payout_script = pool_payout_script,
             sp_coinbase_value =
               (case kind of
                  Pooled \<Rightarrow> tp_coinbase_value t
                | SubsidyOnly \<Rightarrow> tp_coinbase_value t - to_fee (tp_totals t)),
             sp_outputs = outs, sp_limits = limits, sp_sigop_budget = sigops\<rparr>);
          (subsidy_only, _) = build_coinbase (spec [] 0 SubsidyOnly);
          sigops = unat (tp_sigoplimit t) - unat (to_sigops (tp_totals t)) -
            output_sigop_cost pool_payout_script;
          (pooled, included_outputs) = build_coinbase (spec outputs sigops Pooled)
      in (pooled, subsidy_only, included_outputs))"

text \<open>\<open>unix_now\<close> and \<open>now\<close> are the two clocks \<open>build\<close> reads; \<open>None\<close> is the remainder by a zero number of
  slots, which panics and which the configuration refuses.\<close>

definition build_job ::
    "(bytes \<Rightarrow> bytes) \<Rightarrow> job_config \<Rightarrow> u32 \<Rightarrow> nat \<Rightarrow> job_inputs \<Rightarrow> (build_error + job) option" where
  "build_job sha c unix_now now j =
     (if jc_protocol_job_slots c = 0 then None else
      let t = ji_template j;
          slot = word_of_nat (unat (ji_serial j) mod jc_protocol_job_slots c);
          enprefix = ucast (ji_serial j) XOR ENPREFIX_XOR;
          pool_payout_script = config_payout_script c (ji_pool_config j);
          (prime_id, tag_primary) =
            (case ji_pool_config j of
               Some p \<Rightarrow> (cc_prime_id p, cc_coinbase_tag p)
             | None \<Rightarrow> (0, jc_tag_primary c))
      in if pool_payout_script = [] \<or> MAX_PAYOUT_SCRIPT_LEN < length pool_payout_script
           then Some (Inl (PayoutScriptSize (length pool_payout_script)))
         else case script_sig \<lparr>si_height = tp_height t, si_tag_primary = tag_primary,
                si_tag_secondary = jc_tag_secondary c, si_unique_id = ucast (jc_unique_id c),
                si_prime_id = prime_id,
                si_wide_prime = (case ji_pool_config j of Some p \<Rightarrow> cc_v3 p \<noteq> None | None \<Rightarrow> False),
                si_datum_active = (ji_pool_config j \<noteq> None)\<rparr> of
           None \<Rightarrow> Some (Inl TagsDoNotFit)
         | Some (script, target_byte_index_in_script) \<Rightarrow>
             let split = filter_coinbaser t (ji_coinbaser j);
                 (pooled, subsidy_only, coinbaser_outputs) =
                   build_coinbases t script target_byte_index_in_script enprefix pool_payout_script
                     (cb_outputs split)
             in Option.bind (merkle_branches sha (map tt_txid (tp_txns t))) (\<lambda>branches.
                if MAX_MERKLE_BRANCHES < length branches then Some (Inl (TooManyBranches (length branches)))
                else case bits_to_target (tp_nbits t) of
                  None \<Rightarrow> Some (Inl BadBits)
                | Some block_target \<Rightarrow>
                    Some (Inr \<lparr>jb_serial = ji_serial j, jb_slot = slot,
                      jb_stratum_job_id = stratum_job_id unix_now slot, jb_template = t,
                      jb_block_target = block_target,
                      jb_prevblock_hidden = prevblock_hidden sha (tp_prev_hash t),
                      jb_job_section =
                        \<lparr>js_prev_hash = tp_prev_hash t,
                         js_target_byte_index = as_u16 (bc_target_byte_index pooled),
                         js_nbits = put_u32_le (tp_nbits t), js_coinbaser_id = cb_coinbaser_id split,
                         js_height = tp_height t, js_coinbase_value = tp_coinbase_value t,
                         js_txn_count = as_u32 (length (tp_txns t)),
                         js_txn_total_weight = to_weight (tp_totals t),
                         js_txn_total_size = to_size (tp_totals t),
                         js_txn_total_sigops = to_sigops (tp_totals t),
                         js_merkle_branches = branches\<rparr>,
                      jb_pooled_coinbase = pooled, jb_subsidy_only_coinbase = subsidy_only,
                      jb_coinbaser_outputs = coinbaser_outputs,
                      jb_pool_payout_script = pool_payout_script,
                      jb_is_datum_job = (ji_pool_config j \<noteq> None), jb_abw = ji_abw j,
                      jb_created_at = now, jb_stale_prevblock = False,
                      jb_commitments = \<lambda>_. None\<rparr>)))"

lemma set_chunks2: "x \<in> set (chunks2 f xs) \<Longrightarrow> \<exists>a b. a \<in> set xs \<and> b \<in> set xs \<and> x = f a b"
  by (induction f xs rule: chunks2.induct) auto

lemma set_next_level:
  "x \<in> set (next_level level f) \<Longrightarrow> \<exists>a b. a \<in> set level \<and> b \<in> set level \<and> x = f a b"
proof -
  assume x: "x \<in> set (next_level level f)"
  have "level \<noteq> []" using x by (auto simp: next_level_def)
  then have grown: "set (level @ [last level]) = set level" by auto
  show ?thesis
  proof (cases "length level mod 2 = 1")
    case True
    then have "x \<in> set (chunks2 f (level @ [last level]))" using x by (simp add: next_level_def)
    from set_chunks2 [OF this] show ?thesis unfolding grown .
  next
    case False
    then have "x \<in> set (chunks2 f level)" using x by (simp add: next_level_def)
    from set_chunks2 [OF this] show ?thesis .
  qed
qed

lemma merkle_branches_loop_lengths:
  assumes "hash32 sha" "\<forall>h. Some h \<in> set level \<longrightarrow> length h = 32"
    and "merkle_branches_loop sha level = Some branches"
  shows "\<forall>b \<in> set branches. length b = 32"
  using assms
proof (induction sha level arbitrary: branches rule: merkle_branches_loop.induct)
  case (1 sha level)
  let ?f = "\<lambda>a b. Option.bind a (\<lambda>a. map_option (hash_pair sha a) b)"
  show ?case
  proof (cases "1 < length level")
    case True
    then obtain sibling rest where sib: "level ! 1 = Some sibling"
      and rest: "merkle_branches_loop sha (next_level level ?f) = Some rest" "branches = sibling # rest"
      using 1(4) by (subst (asm) merkle_branches_loop.simps) (auto simp: bind_eq_Some_conv)
    have "Some sibling \<in> set level" using sib True nth_mem [of 1 level] by simp
    moreover have "\<forall>h. Some h \<in> set (next_level level ?f) \<longrightarrow> length h = 32"
      using 1(2)
      by (auto dest!: set_next_level sym [where s = "Some _"]
          simp: hash_pair_def sha256d_def bind_eq_Some_conv hash32_def)
    ultimately show ?thesis using 1(1) [OF True sib 1(2)] 1(3) rest by auto
  next
    case False
    then show ?thesis using 1(4) by (subst (asm) merkle_branches_loop.simps) simp
  qed
qed

lemma assemble_target_byte_index:
  "bc_target_byte_index (assemble p included paid) =
     4 + length (encode_compact_size 1) + HASH_SIZE + length NULL_OUTPOINT_INDEX +
     length (encode_compact_size (as_u64 (length (sp_script_sig p) +
       (if length (sp_script_sig p) \<le> SCRIPT_SIG_ROOM_FOR_EXTRANONCE then EXTRANONCE_PUSH_SIZE else 0)))) +
     sp_target_byte_index_in_script p"
  by (simp add: assemble_def Let_def)

lemma build_coinbase_target_byte_index:
  assumes "build_coinbase p = (b, included)" "build_coinbase p' = (b', included')"
    "sp_script_sig p = sp_script_sig p'" "sp_target_byte_index_in_script p = sp_target_byte_index_in_script p'"
  shows "bc_target_byte_index b = bc_target_byte_index b'"
  using assms by (auto simp: build_coinbase_def assemble_target_byte_index split: prod.splits)

lemma build_job_parts:
  assumes "build_job sha c unix_now now i = Some (Inr j)"
  obtains script at where "jc_protocol_job_slots c \<noteq> 0"
    and "build_coinbases (ji_template i) script at (ucast (ji_serial i) XOR ENPREFIX_XOR)
       (jb_pool_payout_script j) (cb_outputs (filter_coinbaser (ji_template i) (ji_coinbaser i))) =
       (jb_pooled_coinbase j, jb_subsidy_only_coinbase j, jb_coinbaser_outputs j)"
    and "merkle_branches sha (map tt_txid (tp_txns (ji_template i))) = Some (js_merkle_branches (jb_job_section j))"
    and "length (js_merkle_branches (jb_job_section j)) \<le> MAX_MERKLE_BRANCHES"
    and "jb_pool_payout_script j = config_payout_script c (ji_pool_config i)"
    and "jb_pool_payout_script j \<noteq> []" "length (jb_pool_payout_script j) \<le> MAX_PAYOUT_SCRIPT_LEN"
    and "bits_to_target (tp_nbits (ji_template i)) = Some (jb_block_target j)"
    and "jb_slot j = word_of_nat (unat (ji_serial i) mod jc_protocol_job_slots c)"
    and "jb_template j = ji_template i" "jb_abw j = ji_abw i" "jb_commitments j = (\<lambda>_. None)"
    and "jb_serial j = ji_serial i" "jb_created_at j = now" "\<not> jb_stale_prevblock j"
    and "js_nbits (jb_job_section j) = put_u32_le (tp_nbits (ji_template i))"
    and "js_prev_hash (jb_job_section j) = tp_prev_hash (ji_template i)"
    and "js_target_byte_index (jb_job_section j) = as_u16 (bc_target_byte_index (jb_pooled_coinbase j))"
    and "js_coinbaser_id (jb_job_section j) = cb_coinbaser_id (filter_coinbaser (ji_template i) (ji_coinbaser i))"
    and "js_coinbase_value (jb_job_section j) = tp_coinbase_value (ji_template i)"
  using assms
  by (auto simp: build_job_def Let_def not_less bind_eq_Some_conv
      split: if_splits option.splits prod.splits)

text \<open>The root of a job's work over a coinbase is that of the coinbase and the template's transactions.\<close>

lemma built_job_root:
  assumes "build_job sha c unix_now now i = Some (Inr j)"
  shows "\<exists>root. merkle_tree_root sha (sha256d sha tx # map tt_txid (tp_txns (ji_template i))) = Some root \<and>
    job_merkle_root sha (jb_job_section j) tx False = mt_root root"
    and "job_merkle_root sha (jb_job_section j) tx True = sha256d sha tx"
proof -
  let ?txids = "map tt_txid (tp_txns (ji_template i))"
  have "merkle_branches sha ?txids = Some (js_merkle_branches (jb_job_section j))"
    by (rule build_job_parts [OF assms])
  moreover obtain bs where "merkle_branches sha ?txids = Some bs"
    "merkle_root_from_branches sha (sha256d sha tx) bs = fst (merkle_tree_loop sha (sha256d sha tx # ?txids) False)"
    by (rule merkle_branches_complete)
  ultimately show "\<exists>root. merkle_tree_root sha (sha256d sha tx # ?txids) = Some root \<and>
      job_merkle_root sha (jb_job_section j) tx False = mt_root root"
    by (auto simp: merkle_tree_root_def job_merkle_root_def split: prod.splits)
  show "job_merkle_root sha (jb_job_section j) tx True = sha256d sha tx"
    by (simp add: job_merkle_root_def merkle_root_from_branches_def)
qed

text \<open>A job the builder returns is one the rest of the gateway can serve: its slot is one of the
  configured ones, both coinbases carry the target byte at the one index the job section states, the
  pool's payout script is one the configuration bounds, no header is cached yet, and the merkle root
  of its pooled work over any coinbase is the root of the whole tree of the coinbase and the
  template's transactions, that of its subsidy-only work the coinbase's hash alone.\<close>

theorem built_job_commits_to_its_template:
  assumes "build_job sha c unix_now now i = Some (Inr j)"
    and "hash32 sha" "length (tp_prev_hash (ji_template i)) = 32"
    and "\<forall>t \<in> set (tp_txns (ji_template i)). length (tt_txid t) = 32"
    and "jc_protocol_job_slots c \<le> 256"
  shows "unat (jb_slot j) < jc_protocol_job_slots c \<and> wf_job (jb_job_section j) \<and>
    commitments_ok sha blake j \<and>
    bc_target_byte_index (jb_pooled_coinbase j) = bc_target_byte_index (jb_subsidy_only_coinbase j) \<and>
    js_target_byte_index (jb_job_section j) = as_u16 (bc_target_byte_index (jb_pooled_coinbase j)) \<and>
    jb_pool_payout_script j \<noteq> [] \<and> length (jb_pool_payout_script j) \<le> 83 \<and>
    (\<exists>root. merkle_tree_root sha (sha256d sha tx # map tt_txid (tp_txns (ji_template i))) = Some root \<and>
       job_merkle_root sha (jb_job_section j) tx False = mt_root root) \<and>
    job_merkle_root sha (jb_job_section j) tx True = sha256d sha tx"
proof -
  let ?t = "ji_template i" and ?txids = "map tt_txid (tp_txns (ji_template i))"
  obtain script at where parts: "jc_protocol_job_slots c \<noteq> 0"
    "build_coinbases ?t script at (ucast (ji_serial i) XOR ENPREFIX_XOR)
       (jb_pool_payout_script j) (cb_outputs (filter_coinbaser ?t (ji_coinbaser i))) =
       (jb_pooled_coinbase j, jb_subsidy_only_coinbase j, jb_coinbaser_outputs j)"
    "merkle_branches sha ?txids = Some (js_merkle_branches (jb_job_section j))"
    "length (js_merkle_branches (jb_job_section j)) \<le> MAX_MERKLE_BRANCHES"
    "jb_pool_payout_script j \<noteq> []" "length (jb_pool_payout_script j) \<le> MAX_PAYOUT_SCRIPT_LEN"
    "jb_slot j = word_of_nat (unat (ji_serial i) mod jc_protocol_job_slots c)"
    "jb_commitments j = (\<lambda>_. None)"
    "js_nbits (jb_job_section j) = put_u32_le (tp_nbits ?t)"
    "js_prev_hash (jb_job_section j) = tp_prev_hash ?t"
    "js_target_byte_index (jb_job_section j) = as_u16 (bc_target_byte_index (jb_pooled_coinbase j))"
    by (rule build_job_parts [OF assms(1)])
  have "unat (ji_serial i) mod jc_protocol_job_slots c < 256"
    using parts(1) assms(5) by (meson less_le_trans mod_less_divisor neq0_conv)
  then have slot: "unat (jb_slot j) < jc_protocol_job_slots c"
    using parts(1) by (simp add: parts(7) unat_of_nat)
  have branches: "\<forall>b \<in> set (js_merkle_branches (jb_job_section j)). length b = 32"
    using parts(3) assms(4) merkle_branches_loop_lengths [OF assms(2), of "None # map Some ?txids"]
    by (auto simp: merkle_branches_def split: if_splits)
  have index: "bc_target_byte_index (jb_pooled_coinbase j) = bc_target_byte_index (jb_subsidy_only_coinbase j)"
    using parts(2)
    by (auto simp: build_coinbases_def Let_def split: prod.splits elim!: build_coinbase_target_byte_index)
  show ?thesis
    using slot branches index built_job_root [OF assms(1), of tx] parts(4-6,8-11) assms(3)
    by (simp add: wf_job_def commitments_ok_def MAX_PAYOUT_SCRIPT_LEN_def)
qed

section \<open>The share message\<close>

record queued_share =
  qs_job :: job
  qs_prefix :: notify_prefix
  qs_is_block :: bool
  qs_target_byte :: u8
  qs_header :: block_header_v2
  qs_username :: bytes

definition pow_submit_of ::
    "queued_share \<Rightarrow> bytes \<Rightarrow> bytes \<Rightarrow> job_section option \<Rightarrow> coinbase_section option \<Rightarrow> pow_submit" where
  "pow_submit_of s extranonce username jsec coinbase =
     (let h = qs_header s; blake2b = blake2b_from_header h in
      \<lparr>ps_job_id = jb_slot (qs_job s), ps_coinbase_id = wire_id (prefix_coinbase (qs_prefix s)),
       ps_is_block = qs_is_block s, ps_subsidy_only = (qs_prefix s = EmptyWork),
       ps_quickdiff = (qs_prefix s = Quickdiff), ps_target_byte = qs_target_byte s,
       ps_ntime = fst (time_fields blake2b), ps_nonce = hd_nonce h,
       ps_version = V2_FLAG OR hd_version h, ps_extranonce = extranonce, ps_username = username,
       ps_use_time_offset = (hd_flags h AND FLAG_USE_TIME_OFFSET \<noteq> 0), ps_job = jsec,
       ps_coinbase = coinbase, ps_blake2b = blake2b,
       ps_abw_slot = map_option ab_slot (jb_abw (qs_job s))\<rparr>)"

text \<open>\<open>username::for_wire\<close>, with the loop back to a character boundary.\<close>

fun floor_char_boundary :: "bytes \<Rightarrow> nat \<Rightarrow> nat" where
  "floor_char_boundary s 0 = 0"
| "floor_char_boundary s (Suc e) =
     (if char_boundary s (Suc e) then Suc e else floor_char_boundary s e)"

definition username_for_wire :: "bool \<Rightarrow> bool \<Rightarrow> bytes \<Rightarrow> bytes \<Rightarrow> bytes" where
  "username_for_wire pass_full_users pass_workers pool_address username =
     (let dotted = (username \<noteq> [] \<and> hd username = 0x2E);
          full = (if \<not> pass_full_users \<and> \<not> pass_workers \<or> username = [] then pool_address
                  else if pass_full_users \<and> \<not> dotted then username
                  else pool_address @ (if dotted then [] else [0x2E]) @ username)
      in take (floor_char_boundary full (min (length full) MAX_USERNAME_LEN)) full)"

section \<open>The header the pool rebuilds\<close>

lemma fresh_commitment_Some:
  assumes "fresh_commitment sha blake j kind target_byte = Some c"
  obtains tx where "full_coinbase j kind target_byte = Some tx"
    and "job_header (jb_job_section j) (tp_version (jb_template j)) (ucast (tp_curtime (jb_template j)))
           (job_merkle_root sha (jb_job_section j) tx (kind = SubsidyOnly)) (kind = SubsidyOnly)
           target_byte (jb_abw j \<noteq> None) = Some (h2_header c)"
    and "h2_h2 c = st_h2 (job_hash_stages sha blake j (h2_header c))"
  using assms by (auto simp: fresh_commitment_def commitment_def Let_def split: option.splits)

lemma job_header_for_Some:
  assumes "commitments_ok sha blake j"
    and "fst (job_header_for sha blake kind target_byte ext sia_ntime sia_nonce j) = Some h"
  obtains tx h0 where "full_coinbase j kind target_byte = Some tx"
    and "job_header (jb_job_section j) (tp_version (jb_template j)) (ucast (tp_curtime (jb_template j)))
           (job_merkle_root sha (jb_job_section j) tx (kind = SubsidyOnly)) (kind = SubsidyOnly)
           target_byte (jb_abw j \<noteq> None) = Some h0"
    and "h = set_sia_fields (h0\<lparr>hd_extranonce := ext\<rparr>) sia_ntime sia_nonce"
proof -
  from assms obtain c where "fresh_commitment sha blake j kind target_byte = Some c"
    "h = set_sia_fields ((h2_header c)\<lparr>hd_extranonce := ext\<rparr>) sia_ntime sia_nonce"
    using commitment_fresh(1) [OF assms(1), of kind target_byte]
    by (auto simp: job_header_for_def split: prod.splits)
  then show ?thesis by (elim fresh_commitment_Some) (rule that)
qed

lemma sia_halves_words [simp]: "sia_halves (sia_words low high) = (low, high)"
  by (simp add: sia_halves_def sia_words_def)

lemma set_sia_fields_sel:
  "set_sia_fields h a b = h\<lparr>hd_nonce := fst (sia_halves b), hd_nonce2 := snd (sia_halves b),
     hd_time_offset := fst (sia_halves a), hd_nonce3 := snd (sia_halves a)\<rparr>"
  by (simp add: set_sia_fields_def split: prod.splits)

lemma version_flag: "(V2_FLAG OR v) AND NOT V2_FLAG = v AND NOT V2_FLAG"
  "(v AND NOT V2_FLAG) OR V2_FLAG = v OR V2_FLAG"
  by (rule bit_eqI; auto simp: bit_and_iff bit_or_iff bit_not_iff)+

lemma share_extranonce_back:
  assumes "share_extranonce ext = Some en" "length ext = HEADER_EXTRANONCE_SIZE"
  shows "header_extranonce en = ext" "length en = EXTRANONCE_SIZE"
proof -
  have ext: "take 4 ext = replicate 4 0" "en = drop 4 ext"
    using assms by (auto simp: share_extranonce_def share_sizes Let_def split: if_splits)
  show "length en = EXTRANONCE_SIZE" using ext assms(2) by (simp add: share_sizes)
  then show "header_extranonce en = ext"
    using ext append_take_drop_id [of 4 ext] by (simp add: header_extranonce_def copy_at_def share_sizes)
qed

text \<open>What a hash of the header depends on: neither the version's top bit, which every form of the
  header sets, nor the key itself, whose hash goes in its place.\<close>

lemma raw_pow_hash_unmasked:
  "raw_pow_hash sha blake h' (hash_stages_with_key_hash sha blake h' k) =
   raw_pow_hash sha blake h (hash_stages_with_key_hash sha blake h k)"
  if "h' = h\<lparr>hd_version := hd_version h AND NOT V2_FLAG, hd_xor_key := key\<rparr>"
  unfolding that
  by (simp add: raw_pow_hash_def hash_stages_with_key_hash_def asic_input_with_def h1_preimage_def
      asic_profile_def time_on_wire_def version_flag Let_def)

lemma rebuilt_header:
  assumes h0: "job_header sec v t root subsidy_only tb abw = Some h0"
    and h: "h = set_sia_fields (h0\<lparr>hd_extranonce := ext\<rparr>) sia_ntime sia_nonce"
    and s: "ps_version s = V2_FLAG OR hd_version h" "\<not> ps_use_time_offset s"
      "ps_blake2b s = blake2b_from_header h" "header_extranonce (ps_extranonce s) = ext"
      "ps_subsidy_only s = subsidy_only" "ps_target_byte s = tb"
    and abw: "abw = (key \<noteq> None)"
  shows "submit_header s sec root key =
    Some (h\<lparr>hd_version := hd_version h AND NOT V2_FLAG,
            hd_xor_key := (case key of None \<Rightarrow> replicate 16 0 | Some k \<Rightarrow> k)\<rparr>)"
proof -
  have flags: "hd_flags h = 0" "hd_time h = t" "hd_version h = v"
    using h0 unfolding h by (auto simp: job_header_def set_sia_fields_sel Let_def split: if_splits)
  have wire: "time_on_wire h = t" using flags by (simp add: time_on_wire_def)
  have b: "ps_blake2b s = \<lparr>bs_sia_ntime = sia_words (hd_time_offset h) (hd_nonce3 h),
      bs_sia_nonce = sia_words (hd_nonce h) (hd_nonce2 h), bs_time_on_wire = t\<rparr>"
    by (simp add: s(3) blake2b_from_header_def wire)
  have time: "block_time s = t" by (simp add: block_time_def s(2) b)
  have v: "hd_version h0 = v" using flags(3) unfolding h by (simp add: set_sia_fields_sel)
  have "job_header sec (hd_version h0 AND NOT V2_FLAG) t root subsidy_only tb (key \<noteq> None) =
      Some (h0\<lparr>hd_version := hd_version h0 AND NOT V2_FLAG\<rparr>)"
    using h0 unfolding v by (auto simp: job_header_def Let_def abw split: if_splits)
  then show ?thesis
    using s(2,4-6)
    by (simp add: submit_header_def s(1) version_flag time b set_sia_fields_sel h
        flip: not_None_eq del: not_None_eq)
qed

text \<open>C8: whatever fields a miner sends for a job, the share the gateway sends to the pool decodes
  to one from which the pool rebuilds the header the miner worked on and reaches the gateway's
  hash.  The rebuilt header is the gateway's with the pool's XOR key in it and the version without
  its flag bit, and the hash agrees whether the job was mined in the clear or under the hash of a
  key the gateway does not hold.\<close>

theorem pool_rebuilds_the_header:
  assumes "commitments_ok sha blake j"
    and "fst (job_header_for sha blake (prefix_coinbase p) tb ext sia_ntime sia_nonce j) = Some h"
    and "length ext = HEADER_EXTRANONCE_SIZE" "share_extranonce ext = Some en"
    and "wf_job (jb_job_section j)" "wf_coinbase (bc_section (job_coinbase j (prefix_coinbase p)))"
    and "utf8_valid name" "0 \<notin> set name" "length name \<le> MAX_USERNAME_LEN"
    and "case jb_abw j of None \<Rightarrow> key = None | Some a \<Rightarrow> \<exists>k. key = Some k \<and> ab_key_hash a = xor_key_hash sha k"
  shows "\<exists>s tx h'.
    submit_decode (submit_encode (pow_submit_of
        \<lparr>qs_job = j, qs_prefix = p, qs_is_block = blk, qs_target_byte = tb, qs_header = h, qs_username = user\<rparr>
        en name (Some (jb_job_section j)) (Some (bc_section (job_coinbase j (prefix_coinbase p)))))) = Inr s \<and>
    ps_job s = Some (jb_job_section j) \<and>
    ps_coinbase s = Some (bc_section (job_coinbase j (prefix_coinbase p))) \<and>
    job_coinbase_tx (jb_job_section j) (bc_section (job_coinbase j (prefix_coinbase p))) (ps_target_byte s) = Some tx \<and>
    submit_header s (jb_job_section j)
      (job_merkle_root sha (jb_job_section j) tx (ps_subsidy_only s)) key = Some h' \<and>
    h' = h\<lparr>hd_version := hd_version h AND NOT V2_FLAG,
            hd_xor_key := (case key of None \<Rightarrow> replicate 16 0 | Some k \<Rightarrow> k)\<rparr> \<and>
    raw_pow_hash sha blake h' (hash_stages sha blake h') = job_raw_pow_hash sha blake j h"
proof -
  obtain tx h0 where tx: "full_coinbase j (prefix_coinbase p) tb = Some tx"
    and h0: "job_header (jb_job_section j) (tp_version (jb_template j)) (ucast (tp_curtime (jb_template j)))
      (job_merkle_root sha (jb_job_section j) tx (prefix_coinbase p = SubsidyOnly))
      (prefix_coinbase p = SubsidyOnly) tb (jb_abw j \<noteq> None) = Some h0"
    and h: "h = set_sia_fields (h0\<lparr>hd_extranonce := ext\<rparr>) sia_ntime sia_nonce"
    by (rule job_header_for_Some [OF assms(1,2)])
  have flags: "hd_flags h = 0" "hd_xor_key h = replicate 16 0"
    using h0 unfolding h by (auto simp: job_header_def set_sia_fields_sel Let_def split: if_splits)
  note en = share_extranonce_back [OF assms(4,3)]
  define s where "s = pow_submit_of
    \<lparr>qs_job = j, qs_prefix = p, qs_is_block = blk, qs_target_byte = tb, qs_header = h, qs_username = user\<rparr>
    en name (Some (jb_job_section j)) (Some (bc_section (job_coinbase j (prefix_coinbase p))))"
  have kind: "(p = EmptyWork) = (prefix_coinbase p = SubsidyOnly)" by (cases p) simp_all
  have sel: "ps_version s = V2_FLAG OR hd_version h" "\<not> ps_use_time_offset s"
    "ps_blake2b s = blake2b_from_header h" "ps_extranonce s = en" "ps_username s = name"
    "ps_subsidy_only s = (prefix_coinbase p = SubsidyOnly)" "ps_target_byte s = tb"
    "ps_job s = Some (jb_job_section j)" "ps_coinbase s = Some (bc_section (job_coinbase j (prefix_coinbase p)))"
    by (simp_all add: s_def pow_submit_of_def Let_def flags kind)
  have "wf_submit s"
    using assms(5-9) en(2) by (simp add: wf_submit_def sel wf_blake2b_def blake2b_from_header_def sia_words_def)
  note decoded = submit_wire [OF this]
  define h' where "h' = h\<lparr>hd_version := hd_version h AND NOT V2_FLAG,
    hd_xor_key := (case key of None \<Rightarrow> replicate 16 0 | Some k \<Rightarrow> k)\<rparr>"
  have abw: "(jb_abw j \<noteq> None) = (key \<noteq> None)" using assms(10) by (auto split: option.splits)
  have sent: "header_extranonce (ps_extranonce s) = ext" by (simp add: sel en(1))
  have rebuilt: "submit_header s (jb_job_section j)
      (job_merkle_root sha (jb_job_section j) tx (ps_subsidy_only s)) key = Some h'"
    unfolding h'_def sel(6)
    by (rule rebuilt_header [OF h0 h sel(1,2,3) sent sel(6,7) abw])
  have "raw_pow_hash sha blake h' (hash_stages sha blake h') = job_raw_pow_hash sha blake j h"
    using assms(10) raw_pow_hash_unmasked [OF h'_def, of sha blake] flags(2)
    by (auto simp: job_raw_pow_hash_def job_hash_stages_def hash_stages_def h'_def split: option.splits)
  with decoded rebuilt tx sel show ?thesis
    unfolding s_def [symmetric] full_coinbase_def h'_def [symmetric]
    by (intro exI [of _ s] exI [of _ tx] exI [of _ h']) simp
qed

text \<open>A job under a commitment to the hash of an all-one key.\<close>

definition sample_template :: template where
  "sample_template =
     \<lparr>tp_height = 9, tp_coinbase_value = 5000, tp_mintime = 1, tp_curtime = 77, tp_sizelimit = 100000,
      tp_weightlimit = 400000, tp_sigoplimit = 80000, tp_version = 0x20000000, tp_nbits = 0x1D00FFFF,
      tp_prev_hash = replicate 32 1, tp_witness_commitment = replicate 38 2, tp_blake2b_rule = True,
      tp_reduced_data = False, tp_txns = [],
      tp_totals = \<lparr>to_fee = 0, to_weight = 0, to_size = 0, to_sigops = 0\<rparr>\<rparr>"

definition sample_job :: "(bytes \<Rightarrow> bytes) \<Rightarrow> job" where
  "sample_job sha =
     (let section = \<lparr>js_prev_hash = replicate 32 1, js_target_byte_index = 1,
        js_nbits = put_u32_le 0x1D00FFFF, js_coinbaser_id = 0, js_height = 9, js_coinbase_value = 5000,
        js_txn_count = 0, js_txn_total_weight = 0, js_txn_total_size = 0, js_txn_total_sigops = 0,
        js_merkle_branches = []\<rparr>;
      coinbase = (\<lambda>k. \<lparr>bc_section = \<lparr>cs_coinbase_id = wire_id k, cs_coinb1 = [1, 0xFF], cs_coinb2 = [3]\<rparr>,
        bc_target_byte_index = 1\<rparr>)
      in \<lparr>jb_serial = 5, jb_slot = 5, jb_stratum_job_id = stratum_job_id 9 5,
          jb_template = sample_template, jb_block_target = replicate 32 0,
          jb_prevblock_hidden = [], jb_job_section = section, jb_pooled_coinbase = coinbase Pooled,
          jb_subsidy_only_coinbase = coinbase SubsidyOnly, jb_coinbaser_outputs = [],
          jb_pool_payout_script = [0x51], jb_is_datum_job = True,
          jb_abw = Some \<lparr>ab_slot = 3, ab_key_hash = xor_key_hash sha (replicate 16 1)\<rparr>,
          jb_created_at = 0, jb_stale_prevblock = False, jb_commitments = \<lambda>_. None\<rparr>)"

lemma pool_rebuilds_the_header_witness:
  "\<exists>h s h' root. fst (job_header_for (\<lambda>_. replicate 32 4) (\<lambda>_. replicate 32 6) Pooled 3 (replicate 16 0)
        (replicate 8 1) (replicate 8 2) (sample_job (\<lambda>_. replicate 32 4))) = Some h \<and>
     submit_header s (jb_job_section (sample_job (\<lambda>_. replicate 32 4))) root (Some (replicate 16 1)) = Some h' \<and>
     hd_xor_key h' = replicate 16 1 \<and>
     raw_pow_hash (\<lambda>_. replicate 32 4) (\<lambda>_. replicate 32 6) h'
         (hash_stages (\<lambda>_. replicate 32 4) (\<lambda>_. replicate 32 6) h') =
       job_raw_pow_hash (\<lambda>_. replicate 32 4) (\<lambda>_. replicate 32 6) (sample_job (\<lambda>_. replicate 32 4)) h"
proof -
  let ?sha = "\<lambda>_ :: bytes. replicate 32 (4 :: u8)" and ?blake = "\<lambda>_ :: bytes. replicate 32 (6 :: u8)"
  let ?j = "sample_job ?sha"
  have ok: "commitments_ok ?sha ?blake ?j" by (simp add: commitments_ok_def sample_job_def)
  have sec: "jb_job_section ?j = \<lparr>js_prev_hash = replicate 32 1, js_target_byte_index = 1,
        js_nbits = put_u32_le 0x1D00FFFF, js_coinbaser_id = 0, js_height = 9, js_coinbase_value = 5000,
        js_txn_count = 0, js_txn_total_weight = 0, js_txn_total_size = 0, js_txn_total_sigops = 0,
        js_merkle_branches = []\<rparr>"
    and coin: "bc_section (job_coinbase ?j Pooled) = \<lparr>cs_coinbase_id = 1, cs_coinb1 = [1, 0xFF], cs_coinb2 = [3]\<rparr>"
    and abw: "jb_abw ?j = Some \<lparr>ab_slot = 3, ab_key_hash = xor_key_hash ?sha (replicate 16 1)\<rparr>"
    and cached: "jb_commitments ?j = (\<lambda>_. None)"
    by (simp_all add: sample_job_def job_coinbase_def POOLED_WIRE_ID_def)
  have "\<exists>h. fst (job_header_for ?sha ?blake Pooled 3 (replicate 16 0) (replicate 8 1) (replicate 8 2) ?j) = Some h"
    by (simp add: job_header_for_def commitment_def cached full_coinbase_def job_coinbase_tx_def
        assemble_section_def sec coin job_header_def Let_def EXTRANONCE_SIZE_def)
  then obtain h where h:
    "fst (job_header_for ?sha ?blake Pooled 3 (replicate 16 0) (replicate 8 1) (replicate 8 2) ?j) = Some h" ..
  have "\<exists>s tx h'.
    submit_decode (submit_encode (pow_submit_of
        \<lparr>qs_job = ?j, qs_prefix = Plain, qs_is_block = False, qs_target_byte = 3, qs_header = h, qs_username = []\<rparr>
        (replicate 12 0) [0x61] (Some (jb_job_section ?j)) (Some (bc_section (job_coinbase ?j (prefix_coinbase Plain)))))) = Inr s \<and>
    ps_job s = Some (jb_job_section ?j) \<and>
    ps_coinbase s = Some (bc_section (job_coinbase ?j (prefix_coinbase Plain))) \<and>
    job_coinbase_tx (jb_job_section ?j) (bc_section (job_coinbase ?j (prefix_coinbase Plain))) (ps_target_byte s) = Some tx \<and>
    submit_header s (jb_job_section ?j)
      (job_merkle_root ?sha (jb_job_section ?j) tx (ps_subsidy_only s)) (Some (replicate 16 1)) = Some h' \<and>
    h' = h\<lparr>hd_version := hd_version h AND NOT V2_FLAG,
            hd_xor_key := (case Some (replicate 16 1) of None \<Rightarrow> replicate 16 0 | Some k \<Rightarrow> k)\<rparr> \<and>
    raw_pow_hash ?sha ?blake h' (hash_stages ?sha ?blake h') = job_raw_pow_hash ?sha ?blake ?j h"
    by (rule pool_rebuilds_the_header [where ext = "replicate 16 0" and sia_ntime = "replicate 8 1"
          and sia_nonce = "replicate 8 2"])
      (use ok h in \<open>simp_all add: sec coin abw wf_job_def wf_coinbase_def share_extranonce_def share_sizes
         utf8_valid_ascii Let_def\<close>)
  then show ?thesis using h by fastforce
qed

section \<open>The commitments a gateway holds\<close>

text \<open>The states the pool's messages lead to: the decoders bound every slot by \<open>ASSIGNMENT_SLOTS\<close>.\<close>

inductive abw_reachable :: "(bytes \<Rightarrow> bytes) \<Rightarrow> abw_assignments \<Rightarrow> bool" for sha where
  start: "abw_reachable sha assignments_default"
| install: "abw_reachable sha a \<Longrightarrow> slot < ASSIGNMENT_SLOTS \<Longrightarrow>
    assignments_install slot key_hash active a = Some a' \<Longrightarrow> abw_reachable sha a'"
| activate: "abw_reachable sha a \<Longrightarrow> slot < ASSIGNMENT_SLOTS \<Longrightarrow>
    assignments_activate slot a = Some (res, a') \<Longrightarrow> abw_reachable sha a'"
| reveal: "abw_reachable sha a \<Longrightarrow> slot < ASSIGNMENT_SLOTS \<Longrightarrow>
    assignments_reveal sha slot xor_key a = Some (res, a') \<Longrightarrow> abw_reachable sha a'"

definition assignments_ok :: "abw_assignments \<Rightarrow> bool" where
  "assignments_ok a \<longleftrightarrow> length (aa_key_hashes a) = unat ASSIGNMENT_SLOTS \<and>
     (\<forall>slot. aa_active a = Some slot \<longrightarrow> slot < ASSIGNMENT_SLOTS \<and> aa_key_hashes a ! unat slot \<noteq> None)"

lemma key_hash_at_ok:
  "assignments_ok a \<Longrightarrow> slot < ASSIGNMENT_SLOTS \<Longrightarrow> key_hash_at a slot = Some (aa_key_hashes a ! unat slot)"
  by (simp add: key_hash_at_def assignments_ok_def word_less_nat_alt)

lemma assignments_ok_reachable: "abw_reachable sha a \<Longrightarrow> assignments_ok a"
proof (induction rule: abw_reachable.induct)
  case start
  then show ?case by (simp add: assignments_ok_def assignments_default_def)
next
  case (install a slot key_hash active a')
  then show ?case
    by (auto simp: assignments_install_def key_hash_at_ok)
      (auto simp: assignments_ok_def nth_list_update word_less_nat_alt Let_def)
next
  case (activate a slot res a')
  then show ?case
    by (auto simp: assignments_activate_def key_hash_at_ok split: if_splits) (auto simp: assignments_ok_def)
next
  case (reveal a slot xor_key res a')
  then show ?case
    by (auto simp: assignments_reveal_def key_hash_at_ok Let_def split: if_splits)
      (auto simp: assignments_ok_def nth_list_update word_unat_eq_iff)
qed

text \<open>The commitment new work is built under is always one the gateway holds: in every state the
  pool's assignment, activation and reveal messages can lead to, no look-up leaves the slot table,
  the assignment is there exactly while a slot is active, and it is held; and once a slot's key
  is revealed, no work is built under it and no share on it is sent until it is assigned again.\<close>

theorem abw_assignment_is_held:
  assumes "abw_reachable sha a"
  shows "assignment a = Some (map_option (\<lambda>slot. \<lparr>ab_slot = slot,
           ab_key_hash = the (aa_key_hashes a ! unat slot)\<rparr>) (aa_active a)) \<and>
    (\<forall>x. assignment a = Some (Some x) \<longrightarrow> assignments_holds a x = Some True) \<and>
    (\<forall>slot < ASSIGNMENT_SLOTS. \<forall>key a'. assignments_reveal sha slot key a = Some (True, a') \<longrightarrow>
       (\<forall>hash. assignments_holds a' \<lparr>ab_slot = slot, ab_key_hash = hash\<rparr> = Some False) \<and>
       (\<forall>x. assignment a' = Some (Some x) \<longrightarrow> ab_slot x \<noteq> slot))"
proof (intro conjI allI impI)
  have ok: "assignments_ok a" by (rule assignments_ok_reachable [OF assms])
  show assigned: "assignment a = Some (map_option (\<lambda>slot. \<lparr>ab_slot = slot,
      ab_key_hash = the (aa_key_hashes a ! unat slot)\<rparr>) (aa_active a))"
    using ok by (auto simp: assignment_def key_hash_at_ok assignments_ok_def split: option.splits)
  show "assignments_holds a x = Some True" if "assignment a = Some (Some x)" for x
    using that ok unfolding assigned
    by (auto simp: assignments_holds_def key_hash_at_ok assignments_ok_def)
  fix slot key a' assume slot: "slot < ASSIGNMENT_SLOTS" and a': "assignments_reveal sha slot key a = Some (True, a')"
  have ok': "assignments_ok a'" by (rule assignments_ok_reachable [OF abw_reachable.reveal [OF assms slot a']])
  have none: "aa_key_hashes a' ! unat slot = None"
    using a' slot ok
    by (auto simp: assignments_reveal_def key_hash_at_ok Let_def assignments_ok_def word_less_nat_alt split: if_splits)
  show "assignments_holds a' \<lparr>ab_slot = slot, ab_key_hash = hash\<rparr> = Some False" for hash
    using none slot ok' by (simp add: assignments_holds_def key_hash_at_ok)
  show "ab_slot x \<noteq> slot" if "assignment a' = Some (Some x)" for x
    using that none ok' by (auto simp: assignment_def key_hash_at_ok assignments_ok_def split: option.splits)
qed

lemma abw_assignment_is_held_witness:
  "\<exists>a. assignments_install 3 [7] True assignments_default = Some a \<and> assignment a \<noteq> Some None \<and>
     assignments_holds a \<lparr>ab_slot = 3, ab_key_hash = [7]\<rparr> = Some True"
proof -
  obtain a where a: "assignments_install 3 [7] True assignments_default = Some a"
    by (auto simp: assignments_install_def key_hash_at_def assignments_default_def ASSIGNMENT_SLOTS_def)
  have reach: "abw_reachable (\<lambda>_. []) a"
    by (rule abw_reachable.install [OF abw_reachable.start _ a]) (simp add: ASSIGNMENT_SLOTS_def)
  have active: "aa_active a = Some 3" "aa_key_hashes a ! 3 = Some [7]"
    using a by (auto simp: assignments_install_def key_hash_at_def assignments_default_def ASSIGNMENT_SLOTS_def Let_def)
  show ?thesis using a active abw_assignment_is_held [OF reach] by auto
qed

text \<open>The job built on the template above without a pool.\<close>

definition sample_job_config :: job_config where
  "sample_job_config = \<lparr>jc_protocol_job_slots = 256, jc_pool_output_script = [0x51, 0x20],
     jc_tag_primary = [], jc_tag_secondary = [], jc_unique_id = 4242\<rparr>"

lemma sample_build:
  assumes "merkle_branches sha (map tt_txid txns) = Some branches" "length branches \<le> MAX_MERKLE_BRANCHES"
  shows "\<exists>j. build_job sha sample_job_config 9 0 (job_inputs_new 261 (sample_template\<lparr>tp_txns := txns\<rparr>)) = Some (Inr j)"
proof -
  let ?i = "\<lparr>si_height = 9, si_tag_primary = [], si_tag_secondary = [], si_unique_id = 4242,
    si_prime_id = 0, si_wide_prime = False, si_datum_active = False\<rparr>"
  have "\<exists>script at. script_sig ?i = Some (script, at)"
    by (simp add: script_sig_def tag_push_data_that_fits_def tag_push_data_def coinbase_consts Let_def tag_space_def)
  then obtain script at where "script_sig ?i = Some (script, at)" by blast
  moreover have "\<exists>t. bits_to_target 0x1D00FFFF = Some t"
  proof -
    have "compact_value 0x1D00FFFF = 65535 * 256 ^ 26"
      by (simp add: compact_value_def scaled_def target_consts drop_bit_eq_div)
    then show ?thesis
      using bits_to_target_value [of "0x1D00FFFF"]
      by (auto simp: target_consts split: option.splits)
  qed
  then obtain t where "bits_to_target 0x1D00FFFF = Some t" by blast
  ultimately show ?thesis
    using assms
    by (simp add: build_job_def job_inputs_new_def config_payout_script_def MAX_PAYOUT_SCRIPT_LEN_def
        sample_template_def sample_job_config_def Let_def split: prod.split)
qed

lemma built_job_commits_to_its_template_witness:
  "\<exists>j. build_job (\<lambda>_. replicate 32 4) sample_job_config 9 0 (job_inputs_new 261 sample_template) = Some (Inr j) \<and>
    wf_job (jb_job_section j) \<and> unat (jb_slot j) < 256"
proof -
  have "sample_template\<lparr>tp_txns := []\<rparr> = sample_template" by (simp add: sample_template_def)
  then obtain j where j: "build_job (\<lambda>_. replicate 32 4) sample_job_config 9 0
      (job_inputs_new 261 sample_template) = Some (Inr j)"
    using sample_build [of "\<lambda>_. replicate 32 4" "[]" "[]"] by (auto simp: merkle_branches_def)
  show ?thesis
    using built_job_commits_to_its_template [OF j] j
    by (simp add: hash32_def job_inputs_new_def sample_template_def sample_job_config_def)
qed

end
