(* ===== verification/Abw_Pool.thy ===== *)
theory Abw_Pool
  imports Messages Header
begin

text \<open>
  prime/src/abw.rs: the anti-block-withholding slots of one session of the pool.

  An \<open>Instant\<close> is the milliseconds since some epoch, so \<open>duration_since\<close> is the truncated
  subtraction the standard library makes of it; a key drawn at random is an argument.  The code
  indexes its two arrays of sixteen entries by the active slot, the one after it and the slots 0 to
  15; the lemma \<open>pool_slots_reachable\<close> shows that the active slot is always one of them, so no \<open>!\<close>
  here reads past an end.  A slot a share names is looked up with the code's \<open>get\<close>.
\<close>

definition ROTATE_AFTER_SHARES :: u64 where "ROTATE_AFTER_SHARES = 16384"
definition ROTATE_AFTER :: nat where "ROTATE_AFTER = 600000"
definition REVEAL_AFTER :: nat where "REVEAL_AFTER = 300000"
definition MAX_TIP_ROTATIONS_PER_REVEAL :: nat where "MAX_TIP_ROTATIONS_PER_REVEAL = 4"
definition REPLAY_GRACE :: nat where "REPLAY_GRACE = 10000"
definition SLOTS :: nat where "SLOTS = 16"

datatype slot_key_status = Secret | Revealed_key

datatype slot =
    Empty
  | Seeded (slot_key: bytes)
  | Retired (slot_key: bytes) (slot_reveal_at: nat) (slot_on_open: bool)
  | Revealed (slot_key: bytes) (slot_resend_at: "nat option")

fun secret_key :: "slot \<Rightarrow> bytes option" where
  "secret_key (Seeded k) = Some k"
| "secret_key (Retired k _ _) = Some k"
| "secret_key _ = None"

fun due_at :: "slot \<Rightarrow> nat option" where
  "due_at (Retired _ at _) = Some at"
| "due_at (Revealed _ at) = at"
| "due_at _ = None"

record pending_reveal =
  pr_slot :: u8
  pr_resend :: bool
  pr_payload :: bytes

record rotation =
  rt_reveals :: "pending_reveal list"
  rt_notice :: bytes

record abw_slot_state =
  as_slots :: "slot list"
  as_active :: u8
  as_shares_since_activation :: u64
  as_activated_at :: nat
  as_held_until :: nat
  as_tip_rotation_pending :: bool
  as_published :: "bool list"

definition abw_seed :: "u8 \<Rightarrow> bytes \<Rightarrow> abw_slot_state \<Rightarrow> abw_slot_state" where
  "abw_seed slot key st =
     st\<lparr>as_slots := (as_slots st)[unat slot := Seeded key],
        as_published := (as_published st)[unat slot := False], as_active := slot\<rparr>"

definition abw_start :: "nat \<Rightarrow> bytes \<Rightarrow> abw_slot_state" where
  "abw_start now key =
     abw_seed 0 key
       \<lparr>as_slots = replicate SLOTS Empty, as_active = 0, as_shares_since_activation = 0,
        as_activated_at = now, as_held_until = now, as_tip_rotation_pending = False,
        as_published = replicate SLOTS False\<rparr>"

definition key_for :: "abw_slot_state \<Rightarrow> u8 \<Rightarrow> (bytes \<times> slot_key_status) option" where
  "key_for st slot =
     (if length (as_slots st) \<le> unat slot then None
      else let published = as_published st ! unat slot in
        (case as_slots st ! unat slot of
           Seeded key \<Rightarrow> Some (key, if published then Revealed_key else Secret)
         | Retired key _ _ \<Rightarrow> Some (key, if published then Revealed_key else Secret)
         | Revealed key _ \<Rightarrow> Some (key, Revealed_key)
         | Empty \<Rightarrow> None))"

definition note_published :: "u8 \<Rightarrow> abw_slot_state \<Rightarrow> bool option \<times> abw_slot_state" where
  "note_published slot st =
     (if length (as_slots st) \<le> unat slot \<or> secret_key (as_slots st ! unat slot) = None then (None, st)
      else let st' = st\<lparr>as_published := (as_published st)[unat slot := True]\<rparr> in
        if as_published st ! unat slot then (None, st') else (Some (slot = as_active st), st'))"

definition active_published :: "abw_slot_state \<Rightarrow> bool" where
  "active_published st = as_published st ! unat (as_active st)"

definition abw_notice :: "(bytes \<Rightarrow> bytes) \<Rightarrow> u8 \<Rightarrow> bool \<Rightarrow> abw_slot_state \<Rightarrow> bytes option" where
  "abw_notice sha slot active st =
     map_option (\<lambda>key. encode_notice
         \<lparr>an_active = active, an_slot = slot, an_key_hash = xor_key_hash sha key\<rparr>)
       (secret_key (as_slots st ! unat slot))"

definition all_slots :: "u8 list" where
  "all_slots = map word_of_nat [0..<SLOTS]"

definition abw_notices :: "(bytes \<Rightarrow> bytes) \<Rightarrow> abw_slot_state \<Rightarrow> bytes list" where
  "abw_notices sha st =
     List.map_filter (\<lambda>slot. abw_notice sha slot False st)
       (filter (\<lambda>slot. is_Retired (as_slots st ! unat slot)) all_slots) @
     (case abw_notice sha (as_active st) True st of None \<Rightarrow> [] | Some n \<Rightarrow> [n])"

definition abw_connect :: "nat \<Rightarrow> abw_slot_state \<Rightarrow> abw_slot_state" where
  "abw_connect opened_at st = st\<lparr>as_held_until := opened_at + REPLAY_GRACE\<rparr>"

definition abw_held :: "nat \<Rightarrow> abw_slot_state \<Rightarrow> bool" where
  "abw_held now st \<longleftrightarrow> now < as_held_until st"

fun resume_slot :: "nat \<Rightarrow> slot \<Rightarrow> slot" where
  "resume_slot closed_at (Retired k at True) = Retired k (closed_at + REVEAL_AFTER) False"
| "resume_slot closed_at (Revealed k None) = Revealed k (Some closed_at)"
| "resume_slot closed_at s = s"

definition abw_resume :: "nat \<Rightarrow> abw_slot_state \<Rightarrow> abw_slot_state" where
  "abw_resume closed_at st = st\<lparr>as_slots := map (resume_slot closed_at) (as_slots st)\<rparr>"

definition abw_reveal :: "u8 \<Rightarrow> abw_slot_state \<Rightarrow> pending_reveal option \<times> abw_slot_state" where
  "abw_reveal slot st =
     (let disclosed = (\<lambda>key resend.
        (Some \<lparr>pr_slot = slot, pr_resend = resend,
               pr_payload = encode_reveal \<lparr>rv_slot = slot, rv_xor_key = key\<rparr>\<rparr>,
         st\<lparr>as_slots := (as_slots st)[unat slot := Revealed key None]\<rparr>))
      in case as_slots st ! unat slot of
           Retired key _ _ \<Rightarrow> disclosed key False
         | Revealed key (Some _) \<Rightarrow> disclosed key True
         | _ \<Rightarrow> (None, st))"

definition next_slot :: "abw_slot_state \<Rightarrow> u8" where
  "next_slot st = (as_active st + 1) mod ASSIGNMENT_SLOTS"

definition next_slot_reveal_at :: "abw_slot_state \<Rightarrow> nat option" where
  "next_slot_reveal_at st =
     (case as_slots st ! unat (next_slot st) of Retired _ at _ \<Rightarrow> Some at | _ \<Rightarrow> None)"

definition abw_next_due :: "abw_slot_state \<Rightarrow> nat" where
  "abw_next_due st =
     (let rotation = (if as_tip_rotation_pending st \<or> active_published st then as_held_until st
                      else as_activated_at st + ROTATE_AFTER);
          rotation = (case next_slot_reveal_at st of None \<Rightarrow> rotation | Some at \<Rightarrow> max rotation at);
          dues = List.map_filter due_at (as_slots st);
          due = (if dues = [] then rotation else min rotation (Min (set dues)))
      in max due (as_held_until st))"

definition is_due :: "nat \<Rightarrow> slot \<Rightarrow> bool" where
  "is_due now s = (case due_at s of None \<Rightarrow> False | Some at \<Rightarrow> at \<le> now)"

definition reveal_due :: "nat \<Rightarrow> abw_slot_state \<Rightarrow> bool" where
  "reveal_due now st \<longleftrightarrow> \<not> abw_held now st \<and> list_ex (is_due now) (as_slots st)"

fun reveal_all :: "u8 list \<Rightarrow> abw_slot_state \<Rightarrow> pending_reveal list \<times> abw_slot_state" where
  "reveal_all [] st = ([], st)"
| "reveal_all (slot # rest) st =
     (let (r, st) = abw_reveal slot st; (rs, st) = reveal_all rest st
      in (case r of None \<Rightarrow> rs | Some r \<Rightarrow> r # rs, st))"

definition reveals_due :: "nat \<Rightarrow> abw_slot_state \<Rightarrow> pending_reveal list \<times> abw_slot_state" where
  "reveals_due now st =
     (if abw_held now st then ([], st)
      else reveal_all (filter (\<lambda>slot. is_due now (as_slots st ! unat slot)) all_slots) st)"

text \<open>\<open>None\<close> is the \<open>expect\<close> that the slot was seeded.\<close>

definition abw_rotate ::
    "(bytes \<Rightarrow> bytes) \<Rightarrow> nat \<Rightarrow> bytes \<Rightarrow> abw_slot_state \<Rightarrow> (rotation \<times> abw_slot_state) option" where
  "abw_rotate sha now key st =
     (let old = as_active st; new = next_slot st;
          (r, st) = abw_reveal new st;
          st = (case as_slots st ! unat old of
                  Seeded k \<Rightarrow> st\<lparr>as_slots := (as_slots st)[unat old := Retired k (now + REVEAL_AFTER) True]\<rparr>
                | _ \<Rightarrow> st);
          st = (abw_seed new key st)\<lparr>as_shares_since_activation := 0, as_activated_at := now,
                  as_tip_rotation_pending := False\<rparr>
      in map_option (\<lambda>notice. (\<lparr>rt_reveals = (case r of None \<Rightarrow> [] | Some r \<Rightarrow> [r]), rt_notice = notice\<rparr>, st))
           (abw_notice sha new True st))"

definition note_share :: "abw_slot_state \<Rightarrow> abw_slot_state" where
  "note_share st = st\<lparr>as_shares_since_activation := sat_add (as_shares_since_activation st) 1\<rparr>"

definition rotation_due :: "nat \<Rightarrow> abw_slot_state \<Rightarrow> string option" where
  "rotation_due now st =
     (if abw_held now st \<or> next_slot_reveal_at st \<noteq> None then None
      else if active_published st then Some ''a relayed block published its key''
      else if as_tip_rotation_pending st then Some ''new tip''
      else if ROTATE_AFTER_SHARES \<le> as_shares_since_activation st then Some ''share count''
      else if ROTATE_AFTER \<le> now - as_activated_at st then Some ''slot age''
      else None)"

definition note_tip :: "nat \<Rightarrow> abw_slot_state \<Rightarrow> bool \<times> abw_slot_state" where
  "note_tip now st =
     (let old_enough = (REVEAL_AFTER div MAX_TIP_ROTATIONS_PER_REVEAL \<le> now - as_activated_at st)
      in (old_enough, st\<lparr>as_tip_rotation_pending := as_tip_rotation_pending st \<or> old_enough\<rparr>))"

section \<open>The life of a session's slots\<close>

text \<open>
  The states a session goes through, with the instant of its latest event and, for each slot, the
  instant it was last retired at.  A rotation follows a \<open>rotation_due\<close> that gave a reason no later
  than it, as in \<open>run\<close> and \<open>rotate_on_tip\<close> of prime/src/connection.rs and connection/assignments.rs.
\<close>

inductive slots_run :: "(bytes \<Rightarrow> bytes) \<Rightarrow> nat \<Rightarrow> abw_slot_state \<Rightarrow> (u8 \<Rightarrow> nat) \<Rightarrow> bool" for sha where
  start: "slots_run sha now (abw_start now key) retired_at"
| rotate: "slots_run sha clock st retired_at \<Longrightarrow> clock \<le> due \<Longrightarrow> due \<le> now \<Longrightarrow>
    rotation_due due st \<noteq> None \<Longrightarrow> abw_rotate sha now key st = Some (rot, st') \<Longrightarrow>
    slots_run sha now st' (retired_at(as_active st := now))"
| reveal: "slots_run sha clock st retired_at \<Longrightarrow> clock \<le> now \<Longrightarrow> reveals_due now st = (rs, st') \<Longrightarrow>
    slots_run sha now st' retired_at"
| share: "slots_run sha clock st retired_at \<Longrightarrow> slots_run sha clock (note_share st) retired_at"
| tip: "slots_run sha clock st retired_at \<Longrightarrow> clock \<le> now \<Longrightarrow> note_tip now st = (b, st') \<Longrightarrow>
    slots_run sha now st' retired_at"
| publish: "slots_run sha clock st retired_at \<Longrightarrow> note_published slot st = (b, st') \<Longrightarrow>
    slots_run sha clock st' retired_at"
| connect: "slots_run sha clock st retired_at \<Longrightarrow> slots_run sha clock (abw_connect opened_at st) retired_at"
| resume: "slots_run sha clock st retired_at \<Longrightarrow> clock \<le> closed_at \<Longrightarrow>
    slots_run sha closed_at (abw_resume closed_at st) retired_at"

definition slots_ok :: "nat \<Rightarrow> slot list \<Rightarrow> u8 \<Rightarrow> (u8 \<Rightarrow> nat) \<Rightarrow> bool" where
  "slots_ok clock slots active retired_at \<longleftrightarrow>
     length slots = SLOTS \<and> unat active < SLOTS \<and>
     (\<forall>i < SLOTS. is_Seeded (slots ! i) \<longleftrightarrow> i = unat active) \<and>
     (\<forall>i < SLOTS. \<forall>k due_t b. slots ! i = Retired k due_t b \<longrightarrow>
        retired_at (word_of_nat i) + REVEAL_AFTER \<le> due_t \<and> retired_at (word_of_nat i) \<le> clock)"

definition pool_slots_ok :: "nat \<Rightarrow> abw_slot_state \<Rightarrow> (u8 \<Rightarrow> nat) \<Rightarrow> bool" where
  "pool_slots_ok clock st retired_at \<longleftrightarrow>
     slots_ok clock (as_slots st) (as_active st) retired_at \<and> length (as_published st) = SLOTS"

lemma slots_ok_later: "slots_ok clock slots active rt \<Longrightarrow> clock \<le> now \<Longrightarrow> slots_ok now slots active rt"
  by (fastforce simp: slots_ok_def)

lemma slots_ok_revealed:
  assumes "slots_ok clock slots active rt" "i < SLOTS" "\<not> is_Seeded (slots ! i)"
  shows "slots_ok clock (slots[i := Revealed k None]) active rt"
  using assms by (auto simp: slots_ok_def nth_list_update)

lemma updated_back: "xs[i := x] ! j = y \<Longrightarrow> y \<noteq> x \<Longrightarrow> xs ! j = y"
  by (cases "i = j"; cases "i < length xs") (simp_all add: list_update_beyond)

lemma abw_revealD:
  assumes "abw_reveal slot st = (r, st')"
  obtains "r = None" "st' = st"
  | k due_t b where "as_slots st ! unat slot = Retired k due_t b"
      "r = Some \<lparr>pr_slot = slot, pr_resend = False, pr_payload = encode_reveal \<lparr>rv_slot = slot, rv_xor_key = k\<rparr>\<rparr>"
      "st' = st\<lparr>as_slots := (as_slots st)[unat slot := Revealed k None]\<rparr>"
  | k due_t where "as_slots st ! unat slot = Revealed k (Some due_t)"
      "r = Some \<lparr>pr_slot = slot, pr_resend = True, pr_payload = encode_reveal \<lparr>rv_slot = slot, rv_xor_key = k\<rparr>\<rparr>"
      "st' = st\<lparr>as_slots := (as_slots st)[unat slot := Revealed k None]\<rparr>"
  using assms by (auto simp: abw_reveal_def Let_def split: slot.splits option.splits)

lemma abw_reveal_ok:
  assumes "abw_reveal slot st = (r, st')" "pool_slots_ok clock st rt" "unat slot < SLOTS"
  shows "pool_slots_ok clock st' rt" "as_active st' = as_active st"
  using assms
  by (auto elim!: abw_revealD simp: pool_slots_ok_def intro!: slots_ok_revealed)

text \<open>What a series of reveals discloses: keys of slots retired before it, or keys sent once already.\<close>

lemma reveal_all_ok:
  assumes "reveal_all slots st = (rs, st')" "pool_slots_ok clock st rt" "\<forall>s \<in> set slots. unat s < SLOTS"
  shows "pool_slots_ok clock st' rt \<and> as_active st' = as_active st \<and>
    (\<forall>r \<in> set rs. pr_slot r \<in> set slots \<and> pr_slot r \<noteq> as_active st \<and>
       (\<not> pr_resend r \<longrightarrow> (\<exists>k due_t b. as_slots st ! unat (pr_slot r) = Retired k due_t b)))"
  using assms
proof (induction slots arbitrary: st rs)
  case (Cons slot slots)
  obtain r st1 where r: "abw_reveal slot st = (r, st1)" by fastforce
  obtain rs1 where rs1: "reveal_all slots st1 = (rs1, st')" and rs: "rs = (case r of None \<Rightarrow> rs1 | Some r \<Rightarrow> r # rs1)"
    using Cons.prems(1) by (auto simp: r split: prod.splits)
  have ok1: "pool_slots_ok clock st1 rt" "as_active st1 = as_active st"
    using abw_reveal_ok [OF r Cons.prems(2)] Cons.prems(3) by simp_all
  have ih: "pool_slots_ok clock st' rt \<and> as_active st' = as_active st1 \<and>
    (\<forall>r \<in> set rs1. pr_slot r \<in> set slots \<and> pr_slot r \<noteq> as_active st1 \<and>
       (\<not> pr_resend r \<longrightarrow> (\<exists>k due_t b. as_slots st1 ! unat (pr_slot r) = Retired k due_t b)))"
    by (rule Cons.IH [OF rs1 ok1(1)]) (use Cons.prems(3) in simp)
  have before: "as_slots st1 ! i = Retired k due_t b \<Longrightarrow> as_slots st ! i = Retired k due_t b" for i k due_t b
    using r by (elim abw_revealD) (auto dest: updated_back)
  have len: "length (as_slots st) = SLOTS" "unat slot < SLOTS"
    and seeded: "\<forall>i < SLOTS. is_Seeded (as_slots st ! i) \<longleftrightarrow> i = unat (as_active st)"
    using Cons.prems(2,3) by (auto simp: pool_slots_ok_def slots_ok_def)
  have here: "pr_slot x = slot \<and> slot \<noteq> as_active st \<and>
      (\<not> pr_resend x \<longrightarrow> (\<exists>k due_t b. as_slots st ! unat slot = Retired k due_t b))" if "r = Some x" for x
    using r that seeded len(2) by (elim abw_revealD) auto
  show ?case using ih here before ok1(2) unfolding rs by (auto split: option.splits)
qed simp

lemma all_slots_lt: "s \<in> set all_slots \<Longrightarrow> unat s < SLOTS"
  by (auto simp: all_slots_def SLOTS_def unat_of_nat)

lemma reveals_due_ok:
  assumes "reveals_due now st = (rs, st')" "pool_slots_ok clock st rt"
  shows "pool_slots_ok clock st' rt"
    and "r \<in> set rs \<Longrightarrow> pr_slot r \<noteq> as_active st \<and>
      (\<not> pr_resend r \<longrightarrow> rt (pr_slot r) + REVEAL_AFTER \<le> now)"
    and "abw_held now st \<Longrightarrow> rs = []"
proof -
  let ?due = "filter (\<lambda>slot. is_due now (as_slots st ! unat slot)) all_slots"
  have all: "pool_slots_ok clock st' rt \<and>
      (\<forall>r \<in> set rs. pr_slot r \<in> set ?due \<and> pr_slot r \<noteq> as_active st \<and>
         (\<not> pr_resend r \<longrightarrow> (\<exists>k due_t b. as_slots st ! unat (pr_slot r) = Retired k due_t b)))"
  proof (cases "abw_held now st")
    case False
    then have "reveal_all ?due st = (rs, st')" using assms(1) by (simp add: reveals_due_def)
    from reveal_all_ok [OF this assms(2)] show ?thesis using all_slots_lt by auto
  qed (use assms in \<open>auto simp: reveals_due_def\<close>)
  then show "pool_slots_ok clock st' rt" by blast
  show "abw_held now st \<Longrightarrow> rs = []" using assms(1) by (simp add: reveals_due_def)
  assume r: "r \<in> set rs"
  have "rt (pr_slot r) + REVEAL_AFTER \<le> now" if "\<not> pr_resend r"
  proof -
    from all r that obtain k due_t b where at: "as_slots st ! unat (pr_slot r) = Retired k due_t b"
      "is_due now (as_slots st ! unat (pr_slot r))" "unat (pr_slot r) < SLOTS"
      using all_slots_lt by auto
    have "\<forall>i < SLOTS. \<forall>k t b. as_slots st ! i = Retired k t b \<longrightarrow> rt (word_of_nat i) + REVEAL_AFTER \<le> t"
      using assms(2) by (simp add: pool_slots_ok_def slots_ok_def)
    from this [rule_format, OF at(3,1)] have "rt (pr_slot r) + REVEAL_AFTER \<le> due_t" by simp
    then show ?thesis using at(1,2) by (simp add: is_due_def)
  qed
  with all r show "pr_slot r \<noteq> as_active st \<and> (\<not> pr_resend r \<longrightarrow> rt (pr_slot r) + REVEAL_AFTER \<le> now)"
    by blast
qed

lemma next_slot_lt: "unat (next_slot st) < SLOTS"
  by (simp add: next_slot_def ASSIGNMENT_SLOTS_def SLOTS_def unat_mod)

lemma next_slot_ne:
  assumes "unat (as_active st) < SLOTS"
  shows "next_slot st \<noteq> as_active st"
proof
  assume eq: "next_slot st = as_active st"
  have "unat (as_active st + 1) = unat (as_active st) + 1"
    using assms by (simp add: unat_word_ariths SLOTS_def)
  then have "unat (next_slot st) = (unat (as_active st) + 1) mod 16"
    by (simp add: next_slot_def ASSIGNMENT_SLOTS_def unat_mod)
  moreover have "(n + 1) mod 16 \<noteq> n" if "n < 16" for n :: nat
    using that by (cases "n = 15") simp_all
  from this [of "unat (as_active st)"] have "(unat (as_active st) + 1) mod 16 \<noteq> unat (as_active st)"
    using assms by (simp add: SLOTS_def)
  ultimately show False using eq by simp
qed

lemma slots_ok_rotated:
  assumes "slots_ok clock slots active rt" "clock \<le> now" "new \<noteq> active" "unat new < SLOTS"
    and "slots ! unat active = Seeded k"
  shows "slots_ok now (slots[unat active := Retired k (now + REVEAL_AFTER) b, unat new := Seeded key]) new
    (rt(active := now))"
proof -
  let ?slots = "slots[unat active := Retired k (now + REVEAL_AFTER) b, unat new := Seeded key]"
  have ok: "length slots = SLOTS" "unat active < SLOTS" "\<forall>i < SLOTS. is_Seeded (slots ! i) \<longleftrightarrow> i = unat active"
    "\<forall>i < SLOTS. \<forall>k t b. slots ! i = Retired k t b \<longrightarrow> rt (word_of_nat i) + REVEAL_AFTER \<le> t \<and> rt (word_of_nat i) \<le> now"
    using slots_ok_later [OF assms(1,2)] by (simp_all add: slots_ok_def)
  have ne: "unat new \<noteq> unat active" using assms(3) by (simp add: word_unat_eq_iff)
  have "(rt(active := now)) (word_of_nat i) + REVEAL_AFTER \<le> t \<and> (rt(active := now)) (word_of_nat i) \<le> now"
    if "i < SLOTS" "?slots ! i = Retired k' t b'" for i k' t b'
  proof (cases "i = unat active")
    case True
    then show ?thesis using that ok(1,2) ne by (simp add: nth_list_update)
  next
    case False
    from that have "i < 2 ^ 8" by (simp add: SLOTS_def)
    then have "unat (word_of_nat i :: u8) = i" by (simp add: unat_of_nat)
    then have "(word_of_nat i :: u8) \<noteq> active" using False by auto
    moreover have "slots ! i = Retired k' t b'"
      using that(2) False that(1) ok(1) by (cases "i = unat new") simp_all
    ultimately show ?thesis using ok(4) [rule_format, OF that(1)] by simp
  qed
  then show ?thesis using ok(1-3) assms(4) ne by (auto simp: slots_ok_def nth_list_update)
qed

lemma abw_rotate_ok:
  assumes "pool_slots_ok clock st rt" "clock \<le> now"
  obtains rot st' where "abw_rotate sha now key st = Some (rot, st')"
    and "pool_slots_ok now st' (rt(as_active st := now))"
    and "as_active st' = next_slot st" "key_for st' (next_slot st) = Some (key, Secret)"
    and "next_slot_reveal_at st = None \<longrightarrow> (\<forall>r \<in> set (rt_reveals rot). pr_resend r)"
proof -
  have active: "unat (as_active st) < SLOTS" and len: "length (as_slots st) = SLOTS" "length (as_published st) = SLOTS"
    and seeded: "is_Seeded (as_slots st ! unat (as_active st))"
    using assms(1) by (auto simp: pool_slots_ok_def slots_ok_def)
  note ne = next_slot_ne [OF active]
  obtain r st1 where r: "abw_reveal (next_slot st) st = (r, st1)" by fastforce
  have st1: "pool_slots_ok clock st1 rt" "as_active st1 = as_active st"
    using abw_reveal_ok [OF r assms(1) next_slot_lt] by simp_all
  have pub: "as_published st1 = as_published st" using r by (elim abw_revealD) simp_all
  obtain k where k: "as_slots st1 ! unat (as_active st) = Seeded k"
    using st1 active by (auto simp: pool_slots_ok_def slots_ok_def is_Seeded_def)
  define slots' where "slots' = (as_slots st1)[unat (as_active st) := Retired k (now + REVEAL_AFTER) True,
    unat (next_slot st) := Seeded key]"
  have ok: "slots_ok now slots' (next_slot st) (rt(as_active st := now))"
    unfolding slots'_def
    by (rule slots_ok_rotated [OF _ assms(2) ne next_slot_lt k]) (use st1 in \<open>simp add: pool_slots_ok_def\<close>)
  define st' where "st' = st1\<lparr>as_slots := slots', as_published := (as_published st)[unat (next_slot st) := False],
    as_active := next_slot st, as_shares_since_activation := 0, as_activated_at := now,
    as_tip_rotation_pending := False\<rparr>"
  have at: "slots' ! unat (next_slot st) = Seeded key" "length slots' = SLOTS"
    using ok next_slot_lt [of st] st1(1) by (auto simp: slots'_def slots_ok_def pool_slots_ok_def)
  have rotated: "abw_rotate sha now key st =
      Some (\<lparr>rt_reveals = (case r of None \<Rightarrow> [] | Some r \<Rightarrow> [r]),
             rt_notice = the (abw_notice sha (next_slot st) True st')\<rparr>, st')"
    using at by (simp add: abw_rotate_def r k abw_seed_def pub st'_def slots'_def abw_notice_def Let_def)
  have ok': "pool_slots_ok now st' (rt(as_active st := now))"
    using ok len by (simp add: pool_slots_ok_def st'_def)
  have key: "key_for st' (next_slot st) = Some (key, Secret)"
    using at len next_slot_lt [of st] by (simp add: key_for_def st'_def)
  have resent: "next_slot_reveal_at st = None \<longrightarrow>
      (\<forall>r \<in> set (rt_reveals \<lparr>rt_reveals = (case r of None \<Rightarrow> [] | Some r \<Rightarrow> [r]),
          rt_notice = the (abw_notice sha (next_slot st) True st')\<rparr>). pr_resend r)"
    using r by (elim abw_revealD) (auto simp: next_slot_reveal_at_def)
  have "as_active st' = next_slot st" by (simp add: st'_def)
  then show thesis by (rule that [OF rotated ok' _ key resent])
qed

lemma pool_slots_reachable: "slots_run sha clock st rt \<Longrightarrow> pool_slots_ok clock st rt"
proof (induction rule: slots_run.induct)
  case (start now key retired_at)
  then show ?case
    by (auto simp: pool_slots_ok_def slots_ok_def abw_start_def abw_seed_def nth_list_update SLOTS_def)
next
  case (rotate clock st rt due now key rot st')
  have "clock \<le> now" using rotate by simp
  then obtain rot' st'' where "abw_rotate sha now key st = Some (rot', st'')"
    "pool_slots_ok now st'' (rt(as_active st := now))"
    by (rule abw_rotate_ok [OF rotate.IH])
  with rotate.hyps show ?case by (simp del: fun_upd_apply)
next
  case (reveal clock st rt now rs st')
  then have "pool_slots_ok now st rt" by (auto simp: pool_slots_ok_def intro: slots_ok_later)
  then show ?case by (rule reveals_due_ok(1) [OF reveal.hyps(3)])
next
  case (tip clock st rt now b st')
  then have "as_slots st' = as_slots st" "as_active st' = as_active st" "as_published st' = as_published st"
    by (auto simp: note_tip_def Let_def)
  with tip show ?case by (auto simp: pool_slots_ok_def intro: slots_ok_later)
next
  case (publish clock st rt slot b st')
  then show ?case by (auto simp: pool_slots_ok_def note_published_def Let_def split: if_splits)
next
  case (resume clock st rt closed_at)
  have "slots_ok closed_at (map (resume_slot closed_at) (as_slots st)) (as_active st) rt"
  proof -
    have seeded: "is_Seeded (resume_slot closed_at s) = is_Seeded s" for s
      by (cases "(closed_at, s)" rule: resume_slot.cases) simp_all
    have retired: "resume_slot closed_at s = Retired k t b \<Longrightarrow>
        s = Retired k t b \<or> (\<exists>t'. s = Retired k t' True) \<and> t = closed_at + REVEAL_AFTER" for s k t b
      by (cases "(closed_at, s)" rule: resume_slot.cases) simp_all
    have ok: "slots_ok clock (as_slots st) (as_active st) rt" using resume.IH by (simp add: pool_slots_ok_def)
    then have len: "length (as_slots st) = SLOTS" by (simp add: slots_ok_def)
    have "rt (word_of_nat i) + REVEAL_AFTER \<le> t \<and> rt (word_of_nat i) \<le> closed_at"
      if "i < SLOTS" "map (resume_slot closed_at) (as_slots st) ! i = Retired k t b" for i k t b
      using ok that len resume.hyps retired [of "as_slots st ! i" k t b]
      by (auto simp: slots_ok_def) (meson le_trans)+
    then show ?thesis using ok len by (auto simp: slots_ok_def seeded)
  qed
  then show ?case using resume.IH by (simp add: pool_slots_ok_def abw_resume_def)
qed (simp_all add: pool_slots_ok_def note_share_def abw_connect_def)

text \<open>C15: the pool never discloses a slot's key while work may still be mined under it, or early:
  in every state a session can reach, the reveals sent are of slots other than the active one, none
  is sent while a resumed connection's replay is awaited, and a key disclosed for the first time
  belongs to a slot retired at least five minutes before.  A rotation that is due never panics,
  discloses nothing that was not disclosed already, and leaves the new slot's key a secret the
  shares on it are verified with.\<close>

theorem keys_disclosed_late:
  assumes "slots_run sha clock st retired_at" "clock \<le> now"
  shows "(\<forall>r \<in> set (fst (reveals_due now st)). pr_slot r \<noteq> as_active st \<and> as_held_until st \<le> now \<and>
           (\<not> pr_resend r \<longrightarrow> retired_at (pr_slot r) + 300000 \<le> now)) \<and>
    (rotation_due now st \<noteq> None \<longrightarrow>
       (\<exists>rot st'. abw_rotate sha now key st = Some (rot, st') \<and>
          (\<forall>r \<in> set (rt_reveals rot). pr_resend r) \<and>
          as_active st' \<noteq> as_active st \<and> key_for st' (as_active st') = Some (key, Secret)))"
proof
  note ok = pool_slots_reachable [OF assms(1)]
  obtain rs st1 where rs: "reveals_due now st = (rs, st1)" by fastforce
  show "\<forall>r \<in> set (fst (reveals_due now st)). pr_slot r \<noteq> as_active st \<and> as_held_until st \<le> now \<and>
           (\<not> pr_resend r \<longrightarrow> retired_at (pr_slot r) + 300000 \<le> now)"
  proof
    fix r assume "r \<in> set (fst (reveals_due now st))"
    then have r: "r \<in> set rs" by (simp add: rs)
    then have "\<not> abw_held now st" using reveals_due_ok(3) [OF rs ok] by auto
    with reveals_due_ok(2) [OF rs ok r] show "pr_slot r \<noteq> as_active st \<and> as_held_until st \<le> now \<and>
        (\<not> pr_resend r \<longrightarrow> retired_at (pr_slot r) + 300000 \<le> now)"
      by (simp add: abw_held_def REVEAL_AFTER_def)
  qed
  obtain rot st' where rot: "abw_rotate sha now key st = Some (rot, st')"
    "as_active st' = next_slot st" "key_for st' (next_slot st) = Some (key, Secret)"
    "next_slot_reveal_at st = None \<longrightarrow> (\<forall>r \<in> set (rt_reveals rot). pr_resend r)"
    by (rule abw_rotate_ok [OF ok assms(2)])
  have "next_slot st \<noteq> as_active st"
    using ok by (intro next_slot_ne) (simp add: pool_slots_ok_def slots_ok_def)
  with rot show "rotation_due now st \<noteq> None \<longrightarrow>
       (\<exists>rot st'. abw_rotate sha now key st = Some (rot, st') \<and>
          (\<forall>r \<in> set (rt_reveals rot). pr_resend r) \<and>
          as_active st' \<noteq> as_active st \<and> key_for st' (as_active st') = Some (key, Secret))"
    by (auto simp: rotation_due_def split: if_splits)
qed

lemma keys_disclosed_late_witness:
  "\<exists>rot st'. abw_rotate (\<lambda>_. replicate 32 3) 600000 (replicate 16 2) (abw_start 0 (replicate 16 1)) = Some (rot, st') \<and>
     key_for st' (as_active st') = Some (replicate 16 2, Secret)"
proof -
  have run: "slots_run (\<lambda>_. replicate 32 3) 0 (abw_start 0 (replicate 16 1)) (\<lambda>_. 0)" by (rule slots_run.start)
  have "rotation_due 600000 (abw_start 0 (replicate 16 1)) \<noteq> None"
    by (simp add: rotation_due_def abw_start_def abw_seed_def abw_held_def next_slot_reveal_at_def
        next_slot_def ASSIGNMENT_SLOTS_def SLOTS_def ROTATE_AFTER_def)
  then show ?thesis
    using keys_disclosed_late [OF run, of 600000 "replicate 16 2"] by auto
qed

end
