(* ===== verification/Verify.thy ===== *)
theory Verify
  imports Abw_Pool Coinbase Config_Msg Bounded Split Responses
begin

text \<open>
  prime/src/verify.rs, verify/rebuild.rs and verify/jobs.rs: the checks one connection of the pool
  makes of a share.

  Times, amounts and sizes (\<open>u64\<close>, \<open>usize\<close>) are natural numbers with the saturation written out; a
  generation is a \<open>u64\<close>.  The table of 256 jobs is a list, so a job id always names an entry.  The
  splits of the deque, the hash maps and the shared slices are lists and maps; the node's verdicts on
  a job are an association list with distinct keys, whose order is never observed.  An \<open>expect\<close> that
  fails is \<open>None\<close>; \<open>install_sections_total\<close> shows it does not.
\<close>

definition SECS_PER_HOUR :: nat where "SECS_PER_HOUR = 3600"
definition MAX_INSTALLED_COINBASE_BYTES :: nat where
  "MAX_INSTALLED_COINBASE_BYTES = 2 * MAX_JOBS * MAX_COINBASE_SECTION_LEN"
definition NTIME_WINDOW_SECS :: nat where "NTIME_WINDOW_SECS = 2 * SECS_PER_HOUR"
definition SPLIT_GRACE_SECS :: nat where "SPLIT_GRACE_SECS = 10"
definition MAX_SPLITS :: nat where "MAX_SPLITS = 64"
definition SAVED_SPLITS :: nat where "SAVED_SPLITS = 8"
definition VERSION_ROLLING_MASK :: u32 where "VERSION_ROLLING_MASK = 0x1fffe000"
definition MAX_RELAY_TARGET_SHIFT :: nat where "MAX_RELAY_TARGET_SHIFT = 2"
definition MAX_COINBASE_TYPES :: u8 where "MAX_COINBASE_TYPES = 6"
definition TIP_GRACE_SECS :: nat where "TIP_GRACE_SECS = 1"
definition MAX_RECENT_TIPS :: nat where "MAX_RECENT_TIPS = 3"
definition UNSEEN_PARENT_SECS :: nat where "UNSEEN_PARENT_SECS = 120"
definition MAX_INSTALLING_SHARES :: nat where "MAX_INSTALLING_SHARES = 4096"
definition MAX_JOBS_HOLDING_TXNS :: nat where "MAX_JOBS_HOLDING_TXNS = 4"
definition MAX_BLOCK_CHECKS :: nat where "MAX_BLOCK_CHECKS = 64"

section \<open>Policies, splits and the node's template\<close>

datatype chain = Main | Test | Testnet4 | Signet | Regtest | OtherChain

record template_summary =
  ts_prev_hash :: bytes
  ts_height :: u32
  ts_coinbase_value :: u64
  ts_bits :: u32
  ts_mintime :: u64

record share_policy =
  pc_config :: client_config
  pc_chain :: "chain option"

record dictated_output =
  do_payout :: payout
  do_script_pubkey :: bytes

record dictated_split =
  ds_outputs :: "dictated_output list"
  ds_value :: u64
  ds_prev_hash :: bytes
  ds_sent_at :: nat

record dictated_splits =
  dz_last_id :: u8
  dz_by_id :: "u8 \<Rightarrow> dictated_split option"
  dz_order :: "u8 list"

definition splits_default :: dictated_splits where
  "splits_default = \<lparr>dz_last_id = 0, dz_by_id = (\<lambda>_. None), dz_order = []\<rparr>"

definition splits_next_id :: "dictated_splits \<Rightarrow> u8" where
  "splits_next_id s = (let next = dz_last_id s + 1 in if next = 0 then 1 else next)"

definition splits_keep_newest :: "nat \<Rightarrow> dictated_splits \<Rightarrow> dictated_splits" where
  "splits_keep_newest n s =
     (let surplus = length (dz_order s) - n
      in s\<lparr>dz_by_id := (\<lambda>k. if k \<in> set (take surplus (dz_order s)) then None else dz_by_id s k),
           dz_order := drop surplus (dz_order s)\<rparr>)"

definition splits_record ::
    "u8 \<Rightarrow> u64 \<Rightarrow> bytes \<Rightarrow> dictated_output list \<Rightarrow> nat \<Rightarrow> dictated_splits \<Rightarrow> dictated_splits" where
  "splits_record k v prev_hash outputs sent_at s =
     splits_keep_newest MAX_SPLITS
       (s\<lparr>dz_order := filter (\<lambda>held. held \<noteq> k) (dz_order s) @ [k],
          dz_by_id := (dz_by_id s)(k \<mapsto> \<lparr>ds_outputs = outputs, ds_value = v,
            ds_prev_hash = prev_hash, ds_sent_at = sent_at\<rparr>),
          dz_last_id := k\<rparr>)"

definition splits_retain_prev :: "(bytes \<Rightarrow> bool) \<Rightarrow> dictated_splits \<Rightarrow> dictated_splits" where
  "splits_retain_prev keep s =
     (let by_id = (\<lambda>k. case dz_by_id s k of
                     Some d \<Rightarrow> if keep (ds_prev_hash d) then Some d else None | None \<Rightarrow> None)
      in s\<lparr>dz_by_id := by_id, dz_order := filter (\<lambda>k. by_id k \<noteq> None) (dz_order s)\<rparr>)"

record next_block =
  nb_prev_hash :: "bytes option"
  nb_bits :: u32
  nb_height :: "u32 option"
  nb_mintime :: "u64 option"

definition allows_min_difficulty_blocks :: "chain option \<Rightarrow> bool" where
  "allows_min_difficulty_blocks c \<longleftrightarrow> c = Some Test \<or> c = Some Testnet4"

section \<open>The jobs of a connection\<close>

datatype job_txns = Unrequested | Requested | Held "bytes list" | Refused reject_reason

datatype block_check = Valid u32 | Invalid reject_reason | Unavailable nat

record replaced_tip =
  rp_hash :: bytes
  rp_replaced_at :: nat

record job_state =
  st_job :: job_section
  st_coinbases :: "u8 \<Rightarrow> coinbase_section option"
  st_parent_seen :: bool
  st_evicted :: bool
  st_installed_at :: nat
  st_generation :: u64
  st_txns :: job_txns
  st_checks :: "(bytes \<times> block_check) list"

definition coinbase_bytes :: "coinbase_section \<Rightarrow> nat" where
  "coinbase_bytes cb = length (cs_coinb1 cb) + length (cs_coinb2 cb)"

definition state_coinbase_bytes :: "job_state \<Rightarrow> nat" where
  "state_coinbase_bytes st =
     sum_list (map (\<lambda>i. case st_coinbases st (word_of_nat i) of None \<Rightarrow> 0 | Some cb \<Rightarrow> coinbase_bytes cb)
       [0..<256])"

definition evict_job :: "job_state \<Rightarrow> job_state" where
  "evict_job st = st\<lparr>st_evicted := True, st_txns := Unrequested, st_checks := []\<rparr>"

definition parent_is_kept :: "bytes option \<Rightarrow> replaced_tip list \<Rightarrow> bytes \<Rightarrow> bool" where
  "parent_is_kept tip recent_tips prev_hash \<longleftrightarrow>
     tip = Some prev_hash \<or> list_ex (\<lambda>t. rp_hash t = prev_hash) recent_tips"

record verifier =
  vf_policy :: share_policy
  vf_jobs :: "job_state option list"
  vf_splits :: dictated_splits
  vf_tip :: "bytes option"
  vf_next :: "next_block option"
  vf_recent_tips :: "replaced_tip list"
  vf_next_generation :: u64
  vf_installed_by :: "bytes bounded_set"
  vf_installed_coinbase_bytes :: nat
  vf_cap :: nat

definition verifier_new :: "share_policy \<Rightarrow> verifier" where
  "verifier_new policy =
     \<lparr>vf_policy = policy, vf_jobs = replicate MAX_JOBS None, vf_splits = splits_default,
      vf_tip = None, vf_next = None, vf_recent_tips = [], vf_next_generation = 1,
      vf_installed_by = bounded_new MAX_INSTALLING_SHARES, vf_installed_coinbase_bytes = 0,
      vf_cap = MAX_INSTALLED_COINBASE_BYTES\<rparr>"

definition job_at :: "verifier \<Rightarrow> u8 \<Rightarrow> job_state option" where
  "job_at v job_id = vf_jobs v ! unat job_id"

definition set_template :: "template_summary option \<Rightarrow> verifier \<Rightarrow> bool \<times> verifier" where
  "set_template t v =
     (let next = map_option (\<lambda>t. \<lparr>nb_prev_hash = Some (ts_prev_hash t), nb_bits = ts_bits t,
                    nb_height = Some (ts_height t), nb_mintime = Some (ts_mintime t)\<rparr>) t
      in (map_option nb_bits (vf_next v) \<noteq> map_option nb_bits next, v\<lparr>vf_next := next\<rparr>))"

definition next_target :: "verifier \<Rightarrow> bytes option" where
  "next_target v = Option.bind (vf_next v) (\<lambda>n. bits_to_target (nb_bits n))"

definition next_on :: "verifier \<Rightarrow> bytes \<Rightarrow> next_block option" where
  "next_on v prev_hash =
     (case vf_next v of
        None \<Rightarrow> None
      | Some n \<Rightarrow>
          if (case nb_prev_hash n of
                Some parent \<Rightarrow> parent = prev_hash
              | None \<Rightarrow> vf_tip v = Some prev_hash)
          then Some n else None)"

definition evict_off_recent :: "bytes option \<Rightarrow> replaced_tip list \<Rightarrow> nat \<Rightarrow> job_state \<Rightarrow> job_state" where
  "evict_off_recent tip recent_tips now st =
     (if st_evicted st then st
      else if parent_is_kept tip recent_tips (js_prev_hash (st_job st)) then st\<lparr>st_parent_seen := True\<rparr>
      else if st_parent_seen st \<or> UNSEEN_PARENT_SECS < now - st_installed_at st then evict_job st
      else st)"

definition evict_jobs_off_recent_tips :: "nat \<Rightarrow> verifier \<Rightarrow> verifier" where
  "evict_jobs_off_recent_tips now v =
     v\<lparr>vf_jobs := map (map_option (evict_off_recent (vf_tip v) (vf_recent_tips v) now)) (vf_jobs v)\<rparr>"

definition set_tip :: "bytes option \<Rightarrow> nat \<Rightarrow> verifier \<Rightarrow> verifier" where
  "set_tip tip now v =
     (let tips = vf_recent_tips v;
          tips = (if vf_tip v \<noteq> tip then
                    let tips = (case vf_tip v of
                            Some replaced \<Rightarrow> tips @ [\<lparr>rp_hash = replaced, rp_replaced_at = now\<rparr>]
                          | None \<Rightarrow> tips);
                        tips = dropWhile (\<lambda>t. TIP_GRACE_SECS < now - rp_replaced_at t) tips
                    in drop (length tips - MAX_RECENT_TIPS) tips
                  else tips);
          v = v\<lparr>vf_recent_tips := tips, vf_tip := tip\<rparr>
      in if tip \<noteq> None then evict_jobs_off_recent_tips now v else v)"

definition recent_tip :: "verifier \<Rightarrow> bytes \<Rightarrow> bool" where
  "recent_tip v prev_hash = list_ex (\<lambda>t. rp_hash t = prev_hash) (vf_recent_tips v)"

definition within_tip_grace :: "verifier \<Rightarrow> bytes \<Rightarrow> nat \<Rightarrow> bool" where
  "within_tip_grace v prev_hash now =
     list_ex (\<lambda>t. rp_hash t = prev_hash \<and> now - rp_replaced_at t \<le> TIP_GRACE_SECS) (vf_recent_tips v)"

definition take_splits :: "verifier \<Rightarrow> dictated_splits \<times> verifier" where
  "take_splits v =
     (let splits = vf_splits v;
          splits = (if vf_tip v \<noteq> None
                    then splits_retain_prev (\<lambda>prev. vf_tip v = Some prev \<or> recent_tip v prev) splits
                    else splits)
      in (splits_keep_newest SAVED_SPLITS splits, v\<lparr>vf_splits := splits_default\<rparr>))"

definition restore_splits :: "dictated_splits \<Rightarrow> verifier \<Rightarrow> verifier" where
  "restore_splits splits v = v\<lparr>vf_splits := splits\<rparr>"

definition record_dictated ::
    "u8 \<Rightarrow> u64 \<Rightarrow> bytes \<Rightarrow> dictated_output list \<Rightarrow> nat \<Rightarrow> verifier \<Rightarrow> verifier" where
  "record_dictated k v prev_hash outputs now vf =
     vf\<lparr>vf_splits := splits_record k v prev_hash outputs now (vf_splits vf)\<rparr>"

fun reason_for_decode_error :: "msg_error \<Rightarrow> reject_reason" where
  "reason_for_decode_error (BadExtranonceSize _) = RejectExtranonceSize"
| "reason_for_decode_error BadUsername = RejectUsername"
| "reason_for_decode_error (BadMerkleCount _) = RejectMerkleCount"
| "reason_for_decode_error BadBlake2bSection = RejectBlake2bSection"
| "reason_for_decode_error MissingBlake2bSection = RejectBlake2bSection"
| "reason_for_decode_error _ = Other"

section \<open>Jobs by generation\<close>

definition brings_new_job :: "verifier \<Rightarrow> pow_submit \<Rightarrow> bool" where
  "brings_new_job v s =
     (case ps_job s of
        None \<Rightarrow> False
      | Some job \<Rightarrow> (case job_at v (ps_job_id s) of None \<Rightarrow> True | Some st \<Rightarrow> st_job st \<noteq> job))"

definition installed_generation :: "verifier \<Rightarrow> pow_submit \<Rightarrow> u64 option" where
  "installed_generation v s =
     (case job_at v (ps_job_id s) of
        None \<Rightarrow> None
      | Some st \<Rightarrow>
          if (case ps_job s of None \<Rightarrow> True | Some job \<Rightarrow> job = st_job st)
          then Some (st_generation st) else None)"

definition live_job :: "verifier \<Rightarrow> u8 \<Rightarrow> u64 \<Rightarrow> job_state option" where
  "live_job v job_id generation =
     (case job_at v job_id of
        None \<Rightarrow> None
      | Some st \<Rightarrow> if st_generation st = generation \<and> \<not> st_evicted st then Some st else None)"

definition verifier_job :: "verifier \<Rightarrow> u8 \<Rightarrow> u64 \<Rightarrow> job_section option" where
  "verifier_job v job_id generation = map_option st_job (live_job v job_id generation)"

definition job_txns_of :: "verifier \<Rightarrow> u8 \<Rightarrow> u64 \<Rightarrow> job_txns option" where
  "job_txns_of v job_id generation = map_option st_txns (live_job v job_id generation)"

definition put_job :: "u8 \<Rightarrow> job_state \<Rightarrow> verifier \<Rightarrow> verifier" where
  "put_job job_id st v = v\<lparr>vf_jobs := (vf_jobs v)[unat job_id := Some st]\<rparr>"

text \<open>\<open>release_oldest_held_txns\<close>: the positions of the jobs holding transactions, by generation, of
  which the oldest past the limit lose them.  The generations are distinct, so sorting by them
  orders the pairs.\<close>

definition is_held :: "job_state option \<Rightarrow> bool" where
  "is_held st = (case st of Some st \<Rightarrow> (case st_txns st of Held _ \<Rightarrow> True | _ \<Rightarrow> False) | None \<Rightarrow> False)"

definition release_txns :: "job_state \<Rightarrow> job_state" where
  "release_txns st = st\<lparr>st_txns := Unrequested, st_checks := []\<rparr>"

definition release_oldest_held_txns :: "verifier \<Rightarrow> verifier" where
  "release_oldest_held_txns v =
     (let jobs = vf_jobs v;
          holding = filter (\<lambda>i. is_held (jobs ! i)) [0..<length jobs];
          sorted = sort_key (\<lambda>i. unat (st_generation (the (jobs ! i)))) holding
      in if length holding < MAX_JOBS_HOLDING_TXNS then v
         else v\<lparr>vf_jobs := fold (\<lambda>i jobs. jobs[i := map_option release_txns (jobs ! i)])
                  (take (length holding - MAX_JOBS_HOLDING_TXNS) sorted) jobs\<rparr>)"

definition set_job_txns :: "u8 \<Rightarrow> u64 \<Rightarrow> job_txns \<Rightarrow> verifier \<Rightarrow> bool \<times> verifier" where
  "set_job_txns job_id generation txns v =
     (case live_job v job_id generation of
        None \<Rightarrow> (False, v)
      | Some st \<Rightarrow>
          let v = put_job job_id (st\<lparr>st_txns := txns\<rparr>) v
          in (True, case txns of Held _ \<Rightarrow> release_oldest_held_txns v | _ \<Rightarrow> v))"

definition block_check_of :: "verifier \<Rightarrow> u8 \<Rightarrow> u64 \<Rightarrow> bytes \<Rightarrow> block_check option" where
  "block_check_of v job_id generation digest =
     Option.bind (live_job v job_id generation) (\<lambda>st. map_of (st_checks st) digest)"

definition record_block_check :: "u8 \<Rightarrow> u64 \<Rightarrow> bytes \<Rightarrow> block_check \<Rightarrow> verifier \<Rightarrow> verifier" where
  "record_block_check job_id generation digest check v =
     (case live_job v job_id generation of
        None \<Rightarrow> v
      | Some st \<Rightarrow>
          let checks = (if MAX_BLOCK_CHECKS \<le> length (st_checks st) then [] else st_checks st)
          in put_job job_id (st\<lparr>st_checks := AList.update digest check checks\<rparr>) v)"

definition check_coinbase_id :: "pow_submit \<Rightarrow> reject_reason + unit" where
  "check_coinbase_id s =
     (if (if ps_subsidy_only s then ps_coinbase_id s = COINBASE_ID_SUBSIDY_ONLY
          else ps_coinbase_id s < MAX_COINBASE_TYPES)
      then Inr () else Inl BadCoinbaseId)"

definition parent_unseen :: "verifier \<Rightarrow> pow_submit \<Rightarrow> bytes \<Rightarrow> bool" where
  "parent_unseen v s prev_hash =
     (case job_at v (ps_job_id s) of
        None \<Rightarrow> False
      | Some st \<Rightarrow> \<not> st_evicted st \<and> \<not> st_parent_seen st \<and> js_prev_hash (st_job st) = prev_hash)"

definition names_evicted_job :: "verifier \<Rightarrow> pow_submit \<Rightarrow> bool" where
  "names_evicted_job v s =
     (case job_at v (ps_job_id s) of
        None \<Rightarrow> False
      | Some st \<Rightarrow> st_evicted st \<and>
          (case ps_job s of None \<Rightarrow> True | Some job \<Rightarrow> js_prev_hash job = js_prev_hash (st_job st)))"

definition resolve :: "verifier \<Rightarrow> pow_submit \<Rightarrow> reject_reason + (job_section \<times> coinbase_section)" where
  "resolve v s =
     (let slot = job_at v (ps_job_id s); new_job = brings_new_job v s in
      bindr
        (case (ps_job s, slot) of
           (Some job, _) \<Rightarrow>
             if new_job then Inr job
             else (case slot of Some st \<Rightarrow> Inr (st_job st) | None \<Rightarrow> Inl BadJobId)
         | (None, Some st) \<Rightarrow> Inr (st_job st)
         | (None, None) \<Rightarrow> Inl BadJobId) (\<lambda>job.
      bindr
        (case ps_coinbase s of
           Some cb \<Rightarrow>
             if cs_coinbase_id cb \<noteq> ps_coinbase_id s then Inl CoinbaseIdMismatch
             else if MAX_COINBASE_SECTION_LEN < coinbase_bytes cb then Inl CoinbaseTooLarge
             else Inr cb
         | None \<Rightarrow>
             ok_or CoinbaseMissing
               (case slot of
                  Some st \<Rightarrow> if new_job then None else st_coinbases st (ps_coinbase_id s)
                | None \<Rightarrow> None)) (\<lambda>cb.
      Inr (job, cb))))"

definition coinbase_bytes_at :: "job_state option \<Rightarrow> u8 \<Rightarrow> nat" where
  "coinbase_bytes_at slot k =
     (case Option.bind slot (\<lambda>st. st_coinbases st k) of None \<Rightarrow> 0 | Some cb \<Rightarrow> coinbase_bytes cb)"

definition install_sections ::
    "pow_submit \<Rightarrow> bytes \<Rightarrow> nat \<Rightarrow> verifier \<Rightarrow> ((reject_reason + unit) \<times> verifier) option" where
  "install_sections s raw now v =
     (let slot = job_at v (ps_job_id s);
          new_job = brings_new_job v s;
          new_coinbase = (case ps_coinbase s of
              None \<Rightarrow> False
            | Some cb \<Rightarrow> new_job \<or> Option.bind slot (\<lambda>st. st_coinbases st (cs_coinbase_id cb)) \<noteq> Some cb);
          changes_slot = (new_job \<or> new_coinbase)
      in if changes_slot \<and> bounded_contains (vf_installed_by v) raw
           then Some (Inl DuplicateWork, v)
         else
           let released = (if new_job then (case slot of None \<Rightarrow> 0 | Some st \<Rightarrow> state_coinbase_bytes st) else 0);
               replaced = (case ps_coinbase s of
                   Some cb \<Rightarrow> if \<not> new_job then coinbase_bytes_at slot (cs_coinbase_id cb) else 0
                 | None \<Rightarrow> 0);
               added = (case ps_coinbase s of None \<Rightarrow> 0 | Some cb \<Rightarrow> coinbase_bytes cb);
               projected = vf_installed_coinbase_bytes v - (released + replaced) + added
           in if ps_coinbase s \<noteq> None \<and> vf_cap v < projected then Some (Inl CoinbaseTooLarge, v)
              else
                let v = (if new_job then
                      put_job (ps_job_id s)
                        \<lparr>st_job = the (ps_job s), st_coinbases = (\<lambda>_. None),
                         st_parent_seen = parent_is_kept (vf_tip v) (vf_recent_tips v) (js_prev_hash (the (ps_job s))),
                         st_evicted = False, st_installed_at = now,
                         st_generation = vf_next_generation v, st_txns = Unrequested, st_checks = []\<rparr>
                        (v\<lparr>vf_next_generation := vf_next_generation v + 1\<rparr>)
                    else v)
                in Option.bind
                  (case ps_coinbase s of
                     None \<Rightarrow> Some v
                   | Some cb \<Rightarrow>
                       map_option (\<lambda>st. put_job (ps_job_id s)
                           (st\<lparr>st_coinbases := (st_coinbases st)(cs_coinbase_id cb \<mapsto> cb)\<rparr>) v)
                         (job_at v (ps_job_id s))) (\<lambda>v.
                let v = v\<lparr>vf_installed_coinbase_bytes := projected\<rparr>;
                    v = (if changes_slot
                         then v\<lparr>vf_installed_by := fst (bounded_set_insert (vf_installed_by v) raw)\<rparr>
                         else v);
                    v = (if vf_tip v \<noteq> None then evict_jobs_off_recent_tips now v else v)
                in Some (Inr (), v)))"

section \<open>What the coinbase pays\<close>

definition sat64 :: "nat \<Rightarrow> nat \<Rightarrow> nat" where
  "sat64 a b = min (a + b) (2 ^ 64 - 1)"

record payments =
  pm_paid_to_split :: nat
  pm_paid_to_pool :: nat
  pm_unpaid_outputs :: "payout list"

definition output_matches :: "tx_out \<Rightarrow> dictated_output \<Rightarrow> bool" where
  "output_matches out d \<longleftrightarrow>
     po_sats (do_payout d) = unat (to_value out) \<and> do_script_pubkey d = to_script_pubkey out"

text \<open>The loop over the coinbase's outputs: the next dictated output to look at, which were paid and
  the two totals.\<close>

fun pay_outputs ::
    "dictated_output list \<Rightarrow> bytes \<Rightarrow> tx_out list \<Rightarrow> nat \<Rightarrow> bool list \<Rightarrow> nat \<Rightarrow> nat
       \<Rightarrow> reject_reason + (bool list \<times> nat \<times> nat)" where
  "pay_outputs dictated payout_script [] next paid to_split to_pool = Inr (paid, to_split, to_pool)"
| "pay_outputs dictated payout_script (out # outs) next paid to_split to_pool =
     (if to_value out = 0 then pay_outputs dictated payout_script outs next paid to_split to_pool
      else case find_index (output_matches out) (drop next dictated) of
        Some pos \<Rightarrow>
          pay_outputs dictated payout_script outs (next + pos + 1) (paid[next + pos := True])
            (sat64 to_split (unat (to_value out))) to_pool
      | None \<Rightarrow>
          if to_script_pubkey out = payout_script
          then pay_outputs dictated payout_script outs next paid to_split
                 (sat64 to_pool (unat (to_value out)))
          else Inl BadCoinbaseOutputs)"

definition check_outputs ::
    "verifier \<Rightarrow> job_section \<Rightarrow> coinbase_tx \<Rightarrow> pow_submit \<Rightarrow> reject_reason + payments" where
  "check_outputs v job tx s =
     (let payout_script = cc_payout_script (pc_config (vf_policy v));
          recorded = (if ps_subsidy_only s then None else dz_by_id (vf_splits v) (js_coinbaser_id job))
      in if (case recorded of
               Some d \<Rightarrow> ds_prev_hash d \<noteq> js_prev_hash job \<or> ds_value d \<noteq> js_coinbase_value job
             | None \<Rightarrow> False)
           then Inl BadCoinbaserId
         else
           let dictated = (case recorded of None \<Rightarrow> [] | Some d \<Rightarrow> ds_outputs d) in
           bindr (pay_outputs dictated payout_script (ct_outputs tx) 0
                    (replicate (length dictated) False) 0 0) (\<lambda>(paid, to_split, to_pool).
           if \<not> ps_subsidy_only s \<and> sat64 to_split to_pool \<noteq> unat (js_coinbase_value job)
             then Inl BadCoinbase
           else Inr \<lparr>pm_paid_to_split = to_split, pm_paid_to_pool = to_pool,
             pm_unpaid_outputs = map (\<lambda>(d, _). do_payout d)
               (filter (\<lambda>(d, paid). \<not> paid \<and> do_script_pubkey d \<noteq> payout_script) (zip dictated paid))\<rparr>))"

section \<open>The share rebuilt and checked\<close>

record rebuilt_share =
  rb_is_block :: bool
  rb_difficulty :: u64
  rb_block_hash :: bytes
  rb_raw_pow_hash :: bytes
  rb_prev_hash :: bytes
  rb_job_bits :: u32
  rb_header :: bytes
  rb_coinbase_tx :: bytes
  rb_height :: u32
  rb_txn_count :: u32
  rb_coinbaser_id :: u8
  rb_paid_to_split :: nat
  rb_paid_to_pool :: nat
  rb_unpaid_outputs :: "payout list"
  rb_tag_secondary :: bytes
  rb_version :: u32
  rb_coinbase_digest :: bytes
  rb_job_generation :: "u64 option"

record refusal =
  rf_reason :: reject_reason
  rf_rebuilt :: "rebuilt_share option"

definition unreferenced :: "reject_reason \<Rightarrow> refusal" where
  "unreferenced reason = \<lparr>rf_reason = reason, rf_rebuilt = None\<rparr>"

definition meets_own_bits :: "rebuilt_share \<Rightarrow> bool" where
  "meets_own_bits r =
     (case bits_to_target (rb_job_bits r) of None \<Rightarrow> False | Some t \<Rightarrow> meets_target (rb_block_hash r) t)"

definition is_block_candidate :: "rebuilt_share \<Rightarrow> bool" where
  "is_block_candidate r \<longleftrightarrow> rb_is_block r \<or> meets_own_bits r"

definition meets_share_target :: "pow_submit \<Rightarrow> rebuilt_share \<Rightarrow> bool" where
  "meets_share_target s r = meets_target (rb_raw_pow_hash r) (target_for_exponent (ps_target_byte s))"

definition relayable :: "verifier \<Rightarrow> rebuilt_share \<Rightarrow> bool" where
  "relayable v r =
     (if \<not> meets_own_bits r then False
      else if allows_min_difficulty_blocks (pc_chain (vf_policy v)) then True
      else case next_on v (rb_prev_hash r) of
        Some next \<Rightarrow> rb_job_bits r = nb_bits next
      | None \<Rightarrow>
          (case (next_target v, bits_to_target (rb_job_bits r)) of
             (Some next, Some own) \<Rightarrow> bytes_le own (shl_saturating next MAX_RELAY_TARGET_SHIFT)
           | _ \<Rightarrow> True))"

text \<open>\<open>None\<close> is the index of the target byte past the end of the coinbase, where the code panics.\<close>

definition rebuild_share ::
    "(bytes \<Rightarrow> bytes) \<Rightarrow> (bytes \<Rightarrow> bytes) \<Rightarrow> verifier \<Rightarrow> job_section \<Rightarrow> coinbase_section \<Rightarrow> pow_submit
       \<Rightarrow> bytes option \<Rightarrow> (reject_reason + rebuilt_share) option" where
  "rebuild_share sha blake v job cb s abw_key =
     (let config = pc_config (vf_policy v) in
      if MAX_TARGET_EXPONENT < ps_target_byte s \<or> ps_target_byte s < floor_log2 (cc_min_difficulty config)
        then Some (Inl BadTarget)
      else
        let tx = assemble_section cb (replicate EXTRANONCE_SIZE 0) in
        case parse_coinbase tx of
          Inl _ \<Rightarrow> Some (Inl BadCoinbase)
        | Inr parsed \<Rightarrow>
          if ct_has_witness parsed then Some (Inl BadCoinbase)
          else case parse_script_sig parsed (cc_prime_id config) (cc_coinbase_tag config) of
            None \<Rightarrow> Some (Inl MissingPoolTag)
          | Some script \<Rightarrow>
            let target_byte_index = pp_target_byte_index script in
            if unat (js_target_byte_index job) \<noteq> target_byte_index then Some (Inl TargetMismatch)
            else if length tx \<le> target_byte_index then None
            else
              let tx = tx[target_byte_index := ps_target_byte s] in
              case check_outputs v job parsed s of
                Inl reason \<Rightarrow> Some (Inl reason)
              | Inr payments \<Rightarrow>
                let merkle_root = job_merkle_root sha job tx (ps_subsidy_only s) in
                case submit_header s job merkle_root abw_key of
                  None \<Rightarrow> Some (Inl BadCoinbase)
                | Some h \<Rightarrow>
                  let hashes = pow_hashes sha blake h in
                  Some (Inr
                    \<lparr>rb_is_block = (case next_target v of None \<Rightarrow> False
                        | Some t \<Rightarrow> meets_target (ph_block_hash hashes) t),
                     rb_difficulty = submit_difficulty s, rb_block_hash = ph_block_hash hashes,
                     rb_raw_pow_hash = ph_raw_pow_hash hashes, rb_prev_hash = js_prev_hash job,
                     rb_job_bits = u32_from_le (js_nbits job), rb_header = serialize_header h,
                     rb_coinbase_tx = tx, rb_height = js_height job, rb_txn_count = js_txn_count job,
                     rb_coinbaser_id = js_coinbaser_id job,
                     rb_paid_to_split = pm_paid_to_split payments,
                     rb_paid_to_pool = pm_paid_to_pool payments,
                     rb_unpaid_outputs = pm_unpaid_outputs payments,
                     rb_tag_secondary = pp_tag_secondary script,
                     rb_version = ps_version s AND NOT V2_FLAG,
                     rb_coinbase_digest = sha256d sha (cs_coinb1 cb @ cs_coinb2 cb @
                       [if ps_subsidy_only s then 1 else 0]),
                     rb_job_generation = None\<rparr>))"

definition rebuild ::
    "(bytes \<Rightarrow> bytes) \<Rightarrow> (bytes \<Rightarrow> bytes) \<Rightarrow> verifier \<Rightarrow> pow_submit \<Rightarrow> abw_slot_state option
       \<Rightarrow> (refusal + rebuilt_share) option" where
  "rebuild sha blake v s abw =
     (let refuse = (\<lambda>first reason. Some (Inl (unreferenced (case first of None \<Rightarrow> reason | Some r \<Rightarrow> r))))
      in case check_coinbase_id s of
        Inl reason \<Rightarrow> Some (Inl (unreferenced reason))
      | Inr _ \<Rightarrow>
        let stale = (if names_evicted_job v s then Some StaleBlock else None) in
        case resolve v s of
          Inl reason \<Rightarrow> refuse stale reason
        | Inr (job, cb) \<Rightarrow>
          case (case abw of
              None \<Rightarrow> Inr None
            | Some abw \<Rightarrow>
                (case Option.bind (ps_abw_slot s) (key_for abw) of
                   None \<Rightarrow> Inl BadAbwSlot
                 | Some k \<Rightarrow> Inr (Some k))) of
            Inl reason \<Rightarrow> refuse stale reason
          | Inr held_key \<Rightarrow>
            let revealed = (case held_key of None \<Rightarrow> False | Some (_, status) \<Rightarrow> status = Revealed_key);
                first = (case stale of Some r \<Rightarrow> Some r
                         | None \<Rightarrow> if revealed then Some BadAbwSlot else None) in
            Option.bind (rebuild_share sha blake v job cb s (map_option fst held_key)) (\<lambda>r.
            case r of
              Inl reason \<Rightarrow> refuse first reason
            | Inr rebuilt \<Rightarrow>
              (case first of
                 Some reason \<Rightarrow> Some (Inl \<lparr>rf_reason = reason, rf_rebuilt = Some rebuilt\<rparr>)
               | None \<Rightarrow> Some (Inr rebuilt))))"

definition check_job_header :: "verifier \<Rightarrow> pow_submit \<Rightarrow> rebuilt_share \<Rightarrow> reject_reason + unit" where
  "check_job_header v s r =
     (case next_on v (rb_prev_hash r) of
        None \<Rightarrow> Inr ()
      | Some next \<Rightarrow>
          if \<not> allows_min_difficulty_blocks (pc_chain (vf_policy v)) \<and> rb_job_bits r \<noteq> nb_bits next
            then Inl BadTarget
          else if (case nb_height next of None \<Rightarrow> False | Some height \<Rightarrow> height \<noteq> rb_height r)
            then Inl HeaderFieldMismatch
          else if (case nb_mintime next of None \<Rightarrow> False
                   | Some mintime \<Rightarrow> unat (block_time s) < unat mintime)
            then Inl BadNtime
          else Inr ())"

definition check_split :: "verifier \<Rightarrow> pow_submit \<Rightarrow> rebuilt_share \<Rightarrow> nat \<Rightarrow> reject_reason + unit" where
  "check_split v s r now =
     (if ps_subsidy_only s \<or> rb_paid_to_split r \<noteq> 0 \<or> rb_coinbaser_id r = 0 \<or> rb_is_block r then Inr ()
      else case dz_by_id (vf_splits v) (rb_coinbaser_id r) of
        None \<Rightarrow> Inr ()
      | Some split \<Rightarrow>
          if ds_outputs split \<noteq> [] \<and> SPLIT_GRACE_SECS < now - ds_sent_at split then Inl NoSplit
          else Inr ())"

definition abs_diff :: "nat \<Rightarrow> nat \<Rightarrow> nat" where
  "abs_diff a b = (if a < b then b - a else a - b)"

definition check_username_and_time :: "pow_submit \<Rightarrow> nat \<Rightarrow> reject_reason + unit" where
  "check_username_and_time s now =
     (if ps_username s = [] \<or> MAX_USERNAME_LEN < length (ps_username s) \<or>
         \<not> list_all (\<lambda>b. 0x21 \<le> b \<and> b \<le> 0x7e) (ps_username s) \<or> hd (ps_username s) = 0x2E
        then Inl RejectUsername
      else if NTIME_WINDOW_SECS < abs_diff (unat (block_time s)) now then Inl BadNtime
      else Inr ())"

definition check_share :: "verifier \<Rightarrow> pow_submit \<Rightarrow> rebuilt_share \<Rightarrow> nat \<Rightarrow> reject_reason + unit" where
  "check_share v s r now =
     (if (case vf_tip v of None \<Rightarrow> False | Some tip \<Rightarrow>
            rb_prev_hash r \<noteq> tip \<and> \<not> within_tip_grace v (rb_prev_hash r) now \<and>
            (\<not> rb_is_block r \<or> parent_unseen v s (rb_prev_hash r)))
        then Inl StaleBlock
      else bindr (check_split v s r now) (\<lambda>_. check_username_and_time s now))"

definition check_rebuilt ::
    "pow_submit \<Rightarrow> rebuilt_share \<Rightarrow> nat \<Rightarrow> bool \<Rightarrow> verifier \<Rightarrow> ((reject_reason + unit) \<times> verifier) option" where
  "check_rebuilt s r now meets v =
     (case check_job_header v s r of
        Inl reason \<Rightarrow> Some (Inl reason, v)
      | Inr _ \<Rightarrow>
        Option.bind
          (if meets \<or> rb_is_block r then install_sections s (rb_raw_pow_hash r) now v
           else Some (Inr (), v)) (\<lambda>(installed, v).
        case installed of
          Inl reason \<Rightarrow> Some (Inl reason, v)
        | Inr _ \<Rightarrow>
          (case check_share v s r now of
             Inl reason \<Rightarrow> Some (Inl reason, v)
           | Inr _ \<Rightarrow> Some (if \<not> meets then Inl HighHash else Inr (), v))))"

definition verify ::
    "(bytes \<Rightarrow> bytes) \<Rightarrow> (bytes \<Rightarrow> bytes) \<Rightarrow> pow_submit \<Rightarrow> abw_slot_state option \<Rightarrow> nat \<Rightarrow> verifier
       \<Rightarrow> ((refusal + rebuilt_share) \<times> verifier) option" where
  "verify sha blake s abw now v =
     Option.bind (rebuild sha blake v s abw) (\<lambda>r.
     case r of
       Inl refusal \<Rightarrow>
         Some (Inl (refusal\<lparr>rf_rebuilt :=
           map_option (\<lambda>r. r\<lparr>rb_job_generation := installed_generation v s\<rparr>) (rf_rebuilt refusal)\<rparr>), v)
     | Inr rebuilt \<Rightarrow>
         Option.bind (check_rebuilt s rebuilt now (meets_share_target s rebuilt) v) (\<lambda>(checked, v).
         let rebuilt = rebuilt\<lparr>rb_job_generation := installed_generation v s\<rparr> in
         Some (case checked of
             Inr _ \<Rightarrow> Inr rebuilt
           | Inl reason \<Rightarrow> Inl \<lparr>rf_reason = reason, rf_rebuilt = Some rebuilt\<rparr>, v)))"

end
