(* ===== verification/Verify_Pay.thy ===== *)
theory Verify_Pay
  imports Verify
begin

text \<open>
  What \<open>check_outputs\<close> (prime/src/verify/rebuild.rs) accepts and what it records: every output with a
  value is a dictated one, in the dictated order, or the pool's; and the coinbase a gateway builds
  from a dictated split is accepted.
\<close>

definition dictated_out :: "dictated_output \<Rightarrow> tx_out" where
  "dictated_out d = \<lparr>to_value = word_of_nat (po_sats (do_payout d)), to_script_pubkey = do_script_pubkey d\<rparr>"


lemma sat64_sums: "a \<le> 2 ^ 64 - 1 \<Longrightarrow> min (sat64 a b + c) (2 ^ 64 - 1) = min (a + (b + c)) (2 ^ 64 - 1)"
  by (simp add: sat64_def)

lemma sat64_le: "sat64 a b \<le> 2 ^ 64 - 1"
  by (simp add: sat64_def)









section \<open>The coinbase a gateway builds\<close>

lemma subseq_skip: "subseq (e # es) (ys @ zs) \<Longrightarrow> e \<notin> set ys \<Longrightarrow> subseq (e # es) zs"
  by (induction ys) auto

lemma pay_outputs_in_order:
  assumes "subseq es (drop next D)" "\<forall>e \<in> set es. 0 < po_sats (do_payout e) \<and> po_sats (do_payout e) < 2 ^ 64"
    and "length paid = length D" "ts \<le> 2 ^ 64 - 1"
  shows "\<exists>next' paid'. length paid' = length D \<and>
    pay_outputs D ps (map dictated_out es @ rest) next paid ts tp =
    pay_outputs D ps rest next' paid' (min (ts + sum_list (map (\<lambda>e. po_sats (do_payout e)) es)) (2 ^ 64 - 1)) tp"
  using assms
proof (induction es arbitrary: "next" paid ts)
  case (Cons e es)
  let ?xs = "drop next D"
  have val: "unat (to_value (dictated_out e)) = po_sats (do_payout e)"
    using Cons.prems(2) by (simp add: dictated_out_def unat_of_nat)
  then have nz: "to_value (dictated_out e) \<noteq> 0" using Cons.prems(2) by auto
  have self: "output_matches (dictated_out e) e" using val by (simp add: output_matches_def) (simp add: dictated_out_def)
  have "e \<in> set ?xs" using Cons.prems(1) by (auto dest: subseq_set)
  then obtain pos where pos: "find_index (output_matches (dictated_out e)) ?xs = Some pos"
    using self by (cases "find_index (output_matches (dictated_out e)) ?xs") (auto simp: find_index_None)
  note at = find_index_Some [OF pos]
  have "e \<notin> set (take pos ?xs)" using at(3) self by (auto simp: in_set_conv_nth)
  moreover have "?xs = take pos ?xs @ ?xs ! pos # drop (pos + 1) ?xs"
    using id_take_nth_drop [OF at(1)] by (simp only: Suc_eq_plus1)
  ultimately have "subseq (e # es) (?xs ! pos # drop (pos + 1) ?xs)"
    using Cons.prems(1) subseq_skip by metis
  then have "subseq es (drop (pos + 1) ?xs)"
    by (auto split: if_splits dest: subseq_Cons')
  then have tail: "subseq es (drop (next + pos + 1) D)" by (simp add: ac_simps)
  obtain next' paid' where "length paid' = length D"
    "pay_outputs D ps (map dictated_out es @ rest) (next + pos + 1) (paid[next + pos := True])
       (sat64 ts (po_sats (do_payout e))) tp =
     pay_outputs D ps rest next' paid'
       (min (sat64 ts (po_sats (do_payout e)) + sum_list (map (\<lambda>e. po_sats (do_payout e)) es)) (2 ^ 64 - 1)) tp"
    using Cons.IH [OF tail, of "paid[next + pos := True]" "sat64 ts (po_sats (do_payout e))"] Cons.prems sat64_le
    by auto
  then show ?case using nz pos Cons.prems(4)
    by (intro exI [of _ next'] exI [of _ paid']) (simp add: val sat64_sums [simplified])
qed auto

lemma subseq_mapD: "subseq xs (map f ys) \<Longrightarrow> \<exists>zs. subseq zs ys \<and> xs = map f zs"
  by (auto simp: subseq_conv_nths nths_map)

text \<open>C4: a gateway that builds its coinbase from the split the pool dictated, for the value and the
  parent it was dictated on, is never refused for what the coinbase pays: whichever of the dictated
  outputs its block has room for, the pool accepts the coinbase, credits the split with at least
  the outputs included, the pool with the rest of the value, and owes what was left out.\<close>

theorem built_coinbase_accepted:
  assumes "build_coinbase sp = (b, included)" "wf_spec sp" "length en = EXTRANONCE_SIZE"
    and "parse_coinbase (assemble_section (bc_section b) en) = Inr c"
    and "dz_by_id (vf_splits v) (js_coinbaser_id job) = Some d" "\<not> ps_subsidy_only s"
    and "ds_prev_hash d = js_prev_hash job" "ds_value d = js_coinbase_value job"
    and "subseq (sp_outputs sp) (map dictated_out (ds_outputs d))"
    and "\<forall>e \<in> set (ds_outputs d). 0 < po_sats (do_payout e) \<and> po_sats (do_payout e) < 2 ^ 64"
    and "sp_coinbase_value sp = js_coinbase_value job"
    and "sp_pool_payout_script sp = cc_payout_script (pc_config (vf_policy v))"
  shows "\<exists>p. check_outputs v job c s = Inr p \<and>
    outputs_total included \<le> pm_paid_to_split p \<and>
    pm_paid_to_split p + pm_paid_to_pool p = unat (js_coinbase_value job)"
proof -
  let ?D = "ds_outputs d" and ?ps = "cc_payout_script (pc_config (vf_policy v))" and ?V = "unat (js_coinbase_value job)"
  obtain c' where c': "parse_coinbase (assemble_section (bc_section b) en) = Inr c'"
    "ct_outputs c' =
       (if in_script sp then [] else [\<lparr>to_value = 0, to_script_pubkey = OP_RETURN # extranonce_push sp en\<rparr>]) @
       included @ [pool_output sp (word_of_nat (outputs_total included))] @
       (case sp_witness_commitment sp of None \<Rightarrow> [] | Some wc \<Rightarrow> [\<lparr>to_value = 0, to_script_pubkey = wc\<rparr>])"
    "outputs_total (ct_outputs c') = unat (sp_coinbase_value sp)"
    "subseq included (sp_outputs sp)"
    using built_coinbase_parses [OF assms(1-3)] by blast
  have c: "c' = c" using c'(1) assms(4) by simp
  obtain es where es: "subseq es ?D" "included = map dictated_out es"
    using subseq_mapD [OF subseq_order.trans [OF c'(4) assms(9)]] by blast
  have sats: "\<forall>e \<in> set es. 0 < po_sats (do_payout e) \<and> po_sats (do_payout e) < 2 ^ 64"
    using es(1) assms(10) by (auto dest: subseq_set)
  have inc: "outputs_total included = sum_list (map (\<lambda>e. po_sats (do_payout e)) es)"
    unfolding es(2) outputs_total_def map_map using sats
    by (intro arg_cong [of _ _ sum_list] map_cong) (auto simp: dictated_out_def unat_of_nat)
  let ?pool = "pool_output sp (word_of_nat (outputs_total included))"
  have sum: "outputs_total included + unat (to_value ?pool) = ?V" and V: "?V < 2 ^ 64 - 1"
    using c'(3) assms(2,11) unfolding c'(2) by (auto simp: outputs_total_def wf_spec_def split: option.splits if_splits)
  let ?tail = "case sp_witness_commitment sp of None \<Rightarrow> [] | Some wc \<Rightarrow> [\<lparr>to_value = 0, to_script_pubkey = wc\<rparr>]"
  obtain next' paid' where paid': "length paid' = length ?D" and run:
    "pay_outputs ?D ?ps (map dictated_out es @ ?pool # ?tail) 0 (replicate (length ?D) False) 0 0 =
     pay_outputs ?D ?ps (?pool # ?tail) next' paid' (outputs_total included) 0"
  proof -
    have "min (0 + sum_list (map (\<lambda>e. po_sats (do_payout e)) es)) (2 ^ 64 - 1) = outputs_total included"
      using sum V unfolding inc by simp
    note this [THEN arg_cong, of "\<lambda>t. pay_outputs ?D ?ps (?pool # ?tail) _ _ t 0"]
    moreover have "subseq es (drop 0 ?D)" using es(1) by simp
    note pay_outputs_in_order [OF this sats, of "replicate (length ?D) False" 0 ?ps "?pool # ?tail" 0]
    ultimately show thesis using that by (metis length_replicate le0)
  qed
  have outs: "pay_outputs ?D ?ps (ct_outputs c) 0 (replicate (length ?D) False) 0 0 =
      pay_outputs ?D ?ps (?pool # ?tail) next' paid' (outputs_total included) 0"
    using run c'(2) unfolding c es(2) by simp
  have done_tail: "pay_outputs ?D ?ps ?tail n fl ts tp = Inr (fl, ts, tp)" for n fl ts tp
    by (cases "sp_witness_commitment sp") simp_all
  have sat: "sat64 x y = x + y" if "x + y = ?V" for x y using that V by (simp add: sat64_def)
  have "\<exists>fl ts tp. pay_outputs ?D ?ps (?pool # ?tail) next' paid' (outputs_total included) 0 = Inr (fl, ts, tp) \<and>
      outputs_total included \<le> ts \<and> ts + tp = ?V"
  proof (cases "to_value ?pool = 0")
    case True
    then show ?thesis using sum by (simp add: done_tail)
  next
    case False
    then have "to_script_pubkey ?pool = ?ps" by (auto simp: pool_output_def assms(12) split: if_splits)
    then show ?thesis using False sum sat [OF sum] V
      by (cases "find_index (output_matches ?pool) (drop next' ?D)") (simp_all add: done_tail sat64_def)
  qed
  then obtain fl ts tp where pays:
    "pay_outputs ?D ?ps (ct_outputs c) 0 (replicate (length ?D) False) 0 0 = Inr (fl, ts, tp)"
    "outputs_total included \<le> ts" "ts + tp = ?V" unfolding outs by blast
  then show ?thesis using assms(5-8) sat [OF pays(3)] by (simp add: check_outputs_def)
qed

text \<open>A verifier that dictated one output of 4000 for a value of 5000, and the job of that split.\<close>

definition sample_split :: dictated_split where
  "sample_split =
     \<lparr>ds_outputs = [\<lparr>do_payout = \<lparr>po_identity = [0x62], po_sats = 4000\<rparr>, do_script_pubkey = replicate 22 8\<rparr>],
      ds_value = 5000, ds_prev_hash = replicate 32 1, ds_sent_at = 0\<rparr>"

definition sample_verifier :: verifier where
  "sample_verifier =
     (verifier_new \<lparr>pc_config = sample_config\<lparr>cc_payout_script := replicate 22 9\<rparr>, pc_chain = None\<rparr>)
       \<lparr>vf_splits := \<lparr>dz_last_id = 1, dz_by_id = [1 \<mapsto> sample_split], dz_order = [1]\<rparr>\<rparr>"

definition sample_job_section :: job_section where
  "sample_job_section =
     \<lparr>js_prev_hash = replicate 32 1, js_target_byte_index = 60, js_nbits = [0xFF, 0xFF, 0, 0x1D],
      js_coinbaser_id = 1, js_height = 100, js_coinbase_value = 5000, js_txn_count = 0,
      js_txn_total_weight = 0, js_txn_total_size = 0, js_txn_total_sigops = 0, js_merkle_branches = []\<rparr>"

lemmas sample_verifier_defs = sample_verifier_def sample_split_def sample_job_section_def verifier_new_def
  sample_config_def


lemma built_coinbase_accepted_witness:
  "\<exists>c p. parse_coinbase (assemble_section (bc_section (fst (build_coinbase sample_spec))) (replicate 12 1)) = Inr c \<and>
     check_outputs sample_verifier sample_job_section c (sample_submit\<lparr>ps_subsidy_only := False\<rparr>) = Inr p \<and>
     pm_paid_to_split p + pm_paid_to_pool p = 5000"
proof -
  have wf: "wf_spec sample_spec" by (simp add: wf_spec_def sample_spec_def)
  obtain c where c: "parse_coinbase (assemble_section (bc_section (fst (build_coinbase sample_spec))) (replicate 12 1)) = Inr c"
    using built_coinbase_parses [OF surjective_pairing wf, of "replicate 12 1"] by (auto simp: EXTRANONCE_SIZE_def)
  have "\<exists>p. check_outputs sample_verifier sample_job_section c (sample_submit\<lparr>ps_subsidy_only := False\<rparr>) = Inr p \<and>
    outputs_total (snd (build_coinbase sample_spec)) \<le> pm_paid_to_split p \<and>
    pm_paid_to_split p + pm_paid_to_pool p = unat (js_coinbase_value sample_job_section)"
    by (rule built_coinbase_accepted [OF surjective_pairing wf _ c, where d = sample_split])
      (simp_all add: sample_verifier_defs sample_spec_def EXTRANONCE_SIZE_def dictated_out_def)
  with c show ?thesis by (auto simp: sample_job_section_def)
qed

end
