(* ===== verification/Verify_Jobs.thy ===== *)
theory Verify_Jobs
  imports Verify_Pay
begin

text \<open>
  What one connection's checks keep (prime/src/verify.rs, verify/rebuild.rs, verify/jobs.rs): no
  share makes them panic, the jobs, coinbases, transactions, verdicts, tips and splits they hold stay
  within their bounds, and an accepted share is what the pool credits it for.
\<close>

section \<open>The target byte is inside the coinbase\<close>

lemma script_op_at_push_within:
  "script_op_at script p = Some (op, p') \<Longrightarrow> so_push op = Some push \<Longrightarrow>
     sp_data_at push + length (sp_data push) \<le> length script"
  by (auto simp: script_op_at_def slice_get_def Let_def split: if_splits)

lemma script_ops_push_within:
  "op \<in> set (script_ops_from script p) \<Longrightarrow> so_push op = Some push \<Longrightarrow>
     sp_data_at push + length (sp_data push) \<le> length script"
proof (induction script p rule: script_ops_from.induct)
  case (1 script p)
  show ?case
  proof (cases "script_op_at script p")
    case None
    then show ?thesis using 1(2) by (simp add: script_ops_from.simps [of script p])
  next
    case (Some step)
    then obtain o1 p' where s: "script_op_at script p = Some (o1, p')" by (cases step) auto
    then have "op = o1 \<or> op \<in> set (script_ops_from script p')"
      using 1(2) by (simp add: script_ops_from.simps [of script p])
    then show ?thesis using 1(1) [OF s refl] 1(3) script_op_at_push_within [OF s] by blast
  qed
qed

lemma script_pushes_within:
  "push \<in> set (script_pushes script) \<Longrightarrow> sp_data_at push + length (sp_data push) \<le> length script"
  by (auto simp: script_pushes_def script_ops_def map_filter_def dest!: script_ops_push_within)

lemma parse_script_sig_within:
  assumes "parse_script_sig tx prime_id tag = Some script"
  shows "pp_target_byte_index script < ct_script_sig_offset tx + length (ct_script_sig tx)"
proof -
  let ?pushes = "script_pushes (ct_script_sig tx)"
  obtain p where found: "find_index (\<lambda>push. carries_prime prime_id (sp_data push)) ?pushes = Some p"
    and at: "pp_target_byte_index script = ct_script_sig_offset tx + sp_data_at (?pushes ! p)"
    using assms by (auto simp: parse_script_sig_def Let_def bind_eq_Some_conv)
  have p: "p < length ?pushes" "carries_prime prime_id (sp_data (?pushes ! p))"
    using find_index_Some [OF found] by auto
  have "0 < length (sp_data (?pushes ! p))"
    using p(2) by (auto simp: carries_prime_def UNIQUE_ID_PUSH_DATA_SIZE_NO_PRIME_def split: if_splits)
  with script_pushes_within [OF nth_mem [OF p(1)]] show ?thesis unfolding at by linarith
qed

lemma read_version_full:
  "read_version_and_marker c = Inr (v, w, c') \<Longrightarrow> br_full c' = br_full c \<and>
     length (br_rest c') \<le> length (br_rest c)"
  by (auto simp: read_version_and_marker_def Let_def tryq_Inr_iff rd_Inr_iff split: if_splits)

lemma parse_coinbase_within:
  assumes "parse_coinbase tx = Inr ct"
  shows "ct_script_sig_offset ct + length (ct_script_sig ct) \<le> length tx"
  using assms
  by (auto simp: parse_coinbase_def Let_def tryq_Inr_iff rd_pos_def rd_take_Inr_iff
      split: if_splits dest!: read_version_full decode_compact_size_canonical)

lemma rebuild_share_total: "rebuild_share sha blake v job cb s abw_key \<noteq> None"
proof -
  let ?config = "pc_config (vf_policy v)" and ?tx = "assemble_section cb (replicate EXTRANONCE_SIZE 0)"
  have "pp_target_byte_index script < length ?tx"
    if "parse_coinbase ?tx = Inr parsed"
      "parse_script_sig parsed (cc_prime_id ?config) (cc_coinbase_tag ?config) = Some script" for parsed script
    using parse_coinbase_within [OF that(1)] parse_script_sig_within [OF that(2)] by simp
  then show ?thesis
    by (simp add: rebuild_share_def Let_def split: sum.split option.split) (meson leD)
qed

section \<open>Installing a share's sections\<close>

lemma job_at_put [simp]:
  assumes "length (vf_jobs v) = MAX_JOBS"
  shows "job_at (put_job k st v) j = (if j = k then Some st else job_at v j)"
proof -
  have "unat k < length (vf_jobs v)" using unat_word_lt(1) [of k] assms by (simp add: MAX_JOBS_def)
  then show ?thesis by (auto simp: job_at_def put_job_def nth_list_update word_unat_eq_iff)
qed

lemma put_job_fields [simp]:
  "vf_tip (put_job k st v) = vf_tip v" "vf_cap (put_job k st v) = vf_cap v"
  "vf_recent_tips (put_job k st v) = vf_recent_tips v" "vf_splits (put_job k st v) = vf_splits v"
  "vf_installed_by (put_job k st v) = vf_installed_by v" "vf_policy (put_job k st v) = vf_policy v"
  "vf_installed_coinbase_bytes (put_job k st v) = vf_installed_coinbase_bytes v"
  "length (vf_jobs (put_job k st v)) = length (vf_jobs v)"
  "vf_next (put_job k st v) = vf_next v"
  "vf_jobs (put_job k st v) = (vf_jobs v)[unat k := Some st]"
  by (simp_all add: put_job_def)

lemma resolve_slot:
  assumes "resolve v s = Inr (job, cb)"
  shows "brings_new_job v s \<and> ps_job s = Some job \<or> \<not> brings_new_job v s \<and> (\<exists>st. job_at v (ps_job_id s) = Some st \<and> job = st_job st)"
  using assms
  by (auto simp: resolve_def Let_def tryq_Inr_iff brings_new_job_def split: option.splits if_splits)

lemma resolve_coinbase:
  assumes "resolve v s = Inr (job, cb)"
  shows "ps_coinbase s = Some cb \<and> cs_coinbase_id cb = ps_coinbase_id s \<and> coinbase_bytes cb \<le> MAX_COINBASE_SECTION_LEN
    \<or> ps_coinbase s = None \<and> \<not> brings_new_job v s \<and>
      (\<exists>st. job_at v (ps_job_id s) = Some st \<and> st_coinbases st (ps_coinbase_id s) = Some cb)"
  using assms
  by (auto simp: resolve_def Let_def tryq_Inr_iff split: option.splits if_splits)

lemma install_sections_total:
  assumes "length (vf_jobs v) = MAX_JOBS" "resolve v s = Inr (job, cb)"
  shows "install_sections s raw now v \<noteq> None"
  using resolve_slot [OF assms(2)] assms(1)
  by (auto simp: install_sections_def Let_def split: option.split)

lemma bind_total:
  "m \<noteq> None \<Longrightarrow> (\<And>a. k a \<noteq> None) \<Longrightarrow> Option.bind m k \<noteq> None"
  by (cases m) simp_all

lemma bind_case_sum:
  "Option.bind m (\<lambda>r. case r of Inl e \<Rightarrow> f e | Inr b \<Rightarrow> g b) = Some x \<longleftrightarrow>
     (\<exists>e. m = Some (Inl e) \<and> f e = Some x) \<or> (\<exists>b. m = Some (Inr b) \<and> g b = Some x)"
  by (cases m) (auto split: sum.split elim: sum.exhaust)

lemma rebuild_Inr:
  assumes "rebuild sha blake v s abw = Some (Inr r)"
  obtains job cb k where "check_coinbase_id s = Inr ()" "\<not> names_evicted_job v s"
    "resolve v s = Inr (job, cb)"
    "rebuild_share sha blake v job cb s k = Some (Inr r)"
    "case abw of None \<Rightarrow> k = None
      | Some a \<Rightarrow> \<exists>key status. Option.bind (ps_abw_slot s) (key_for a) = Some (key, status)
          \<and> status \<noteq> Revealed_key \<and> k = Some key"
  using assms that
  by (auto simp: rebuild_def Let_def bind_case_sum split: sum.splits option.splits if_splits prod.splits)

lemma rebuild_total: "rebuild sha blake v s abw \<noteq> None"
proof -
  have "Option.bind (rebuild_share sha blake v job cb s k) (\<lambda>r. case r of Inl e \<Rightarrow> Some (A e) | Inr b \<Rightarrow> Some (B b)) \<noteq> None"
    for job cb k and A :: "_ \<Rightarrow> refusal + rebuilt_share" and B
    by (rule bind_total [OF rebuild_share_total]) (simp split: sum.split)
  then have "\<exists>y. Option.bind (rebuild_share sha blake v job cb s k)
      (\<lambda>r. case r of Inl e \<Rightarrow> Some (A e) | Inr b \<Rightarrow> Some (B b)) = Some y"
    for job cb k and A :: "_ \<Rightarrow> refusal + rebuilt_share" and B by simp
  then show ?thesis
    by (simp add: rebuild_def Let_def split: sum.split option.split prod.split)
qed

lemma verify_total:
  assumes "length (vf_jobs v) = MAX_JOBS"
  shows "verify sha blake s abw now v \<noteq> None"
proof -
  obtain r where r: "rebuild sha blake v s abw = Some r" using rebuild_total by (metis option.exhaust)
  show ?thesis
  proof (cases r)
    case (Inr share)
    from rebuild_Inr [OF r [unfolded Inr]] obtain job cb where "resolve v s = Inr (job, cb)" by metis
    from install_sections_total [OF assms this] have "install_sections s raw now v \<noteq> None" for raw .
    then have install: "(if b then install_sections s raw now v else Some (Inr (), v)) \<noteq> None" for b raw
      by simp
    have "check_rebuilt s share now m v \<noteq> None" for m
    proof (cases "check_job_header v s share")
      case Inl
      then show ?thesis by (simp add: check_rebuilt_def)
    next
      case Inr
      then show ?thesis unfolding check_rebuilt_def Inr sum.case
        by (intro bind_total [OF install]) (simp split: sum.split prod.split)
    qed
    then show ?thesis by (simp add: verify_def r Inr bind_eq_None_conv split_beta Let_def)
  qed (simp add: verify_def r)
qed

section \<open>What the connection holds\<close>

definition slot_bytes :: "job_state option \<Rightarrow> nat" where
  "slot_bytes st = (case st of None \<Rightarrow> 0 | Some st \<Rightarrow> state_coinbase_bytes st)"

definition installed_total :: "verifier \<Rightarrow> nat" where
  "installed_total v = sum_list (map slot_bytes (vf_jobs v))"

text \<open>A job's state: its coinbases under their own ids and within the size limit, at most
  \<open>MAX_BLOCK_CHECKS\<close> verdicts, and once evicted neither transactions nor verdicts.\<close>

definition slot_ok :: "job_state option \<Rightarrow> bool" where
  "slot_ok slot \<longleftrightarrow> (\<forall>st. slot = Some st \<longrightarrow>
     (\<forall>k cb. st_coinbases st k = Some cb \<longrightarrow> cs_coinbase_id cb = k \<and> coinbase_bytes cb \<le> MAX_COINBASE_SECTION_LEN)
     \<and> length (st_checks st) \<le> MAX_BLOCK_CHECKS
     \<and> (st_evicted st \<longrightarrow> st_txns st = Unrequested \<and> st_checks st = []))"

definition splits_wf :: "dictated_splits \<Rightarrow> bool" where
  "splits_wf s \<longleftrightarrow> distinct (dz_order s) \<and> (\<forall>k. dz_by_id s k \<noteq> None \<longleftrightarrow> k \<in> set (dz_order s))"

definition splits_ok :: "dictated_splits \<Rightarrow> bool" where
  "splits_ok s \<longleftrightarrow> splits_wf s \<and> length (dz_order s) \<le> MAX_SPLITS"

definition verifier_ok :: "verifier \<Rightarrow> bool" where
  "verifier_ok v \<longleftrightarrow> length (vf_jobs v) = MAX_JOBS \<and> list_all slot_ok (vf_jobs v)
     \<and> vf_installed_coinbase_bytes v = installed_total v \<and> installed_total v \<le> vf_cap v
     \<and> length (filter is_held (vf_jobs v)) \<le> MAX_JOBS_HOLDING_TXNS
     \<and> bounded_ok (vf_installed_by v) \<and> bm_capacity (vf_installed_by v) = MAX_INSTALLING_SHARES
     \<and> length (vf_recent_tips v) \<le> MAX_RECENT_TIPS \<and> splits_ok (vf_splits v)
     \<and> vf_cap v = MAX_INSTALLED_COINBASE_BYTES"

subsection \<open>One slot\<close>

lemma length_filter_update:
  "i < length xs \<Longrightarrow> length (filter P (xs[i := y])) + of_bool (P (xs ! i)) = length (filter P xs) + of_bool (P y)"
proof (induction xs arbitrary: i)
  case (Cons x xs)
  then show ?case using Cons.IH [of "i - 1"] by (cases i) auto
qed simp

lemma state_coinbase_bytes_put:
  "state_coinbase_bytes (st\<lparr>st_coinbases := (st_coinbases st)(k \<mapsto> cb)\<rparr>) + coinbase_bytes_at (Some st) k =
     state_coinbase_bytes st + coinbase_bytes cb"
proof -
  let ?f = "\<lambda>m i. case m (word_of_nat i :: u8) of None \<Rightarrow> 0 | Some cb \<Rightarrow> coinbase_bytes cb"
  have k: "unat k < 256" using unat_word_lt(1) [of k] by simp
  have new: "map (?f ((st_coinbases st)(k \<mapsto> cb))) [0..<256] = (map (?f (st_coinbases st)) [0..<256])[unat k := coinbase_bytes cb]"
    using k by (intro nth_equalityI) (auto simp: nth_list_update word_unat_eq_iff unat_of_nat)
  have "?f (st_coinbases st) (unat k) \<le> sum_list (map (?f (st_coinbases st)) [0..<256])"
    using k by (intro member_le_sum_list) (auto intro!: image_eqI [where x = "unat k"])
  then show ?thesis
    using k new by (simp add: state_coinbase_bytes_def sum_list_update coinbase_bytes_at_def)
qed

lemma state_coinbase_bytes_cong:
  "st_coinbases st = st_coinbases st' \<Longrightarrow> state_coinbase_bytes st = state_coinbase_bytes st'"
  by (simp add: state_coinbase_bytes_def)

lemma slot_bytes_evict [simp]: "slot_bytes (map_option (evict_off_recent tip tips now) slot) = slot_bytes slot"
  by (auto simp: slot_bytes_def evict_off_recent_def evict_job_def split: option.split
      intro!: state_coinbase_bytes_cong)

lemma slot_bytes_release [simp]: "slot_bytes (map_option release_txns slot) = slot_bytes slot"
  by (auto simp: slot_bytes_def release_txns_def split: option.split intro!: state_coinbase_bytes_cong)

lemma slot_ok_evict: "slot_ok slot \<Longrightarrow> slot_ok (map_option (evict_off_recent tip tips now) slot)"
  by (cases slot) (simp_all add: slot_ok_def evict_off_recent_def evict_job_def)

lemma slot_ok_release: "slot_ok slot \<Longrightarrow> slot_ok (map_option release_txns slot)"
  by (cases slot) (simp_all add: slot_ok_def release_txns_def)

lemma is_held_evict: "is_held (map_option (evict_off_recent tip tips now) slot) \<Longrightarrow> is_held slot"
  by (auto simp: is_held_def evict_off_recent_def evict_job_def split: option.splits if_splits)

lemma is_held_release [simp]: "\<not> is_held (map_option release_txns slot)"
  by (auto simp: is_held_def release_txns_def split: option.splits)

lemma installed_total_put:
  assumes "length (vf_jobs v) = MAX_JOBS"
  shows "installed_total (put_job k st v) + slot_bytes (job_at v k) = installed_total v + state_coinbase_bytes st"
proof -
  have k: "unat k < length (vf_jobs v)" using unat_word_lt(1) [of k] assms by (simp add: MAX_JOBS_def)
  then have "slot_bytes (vf_jobs v ! unat k) \<le> sum_list (map slot_bytes (vf_jobs v))"
    by (intro member_le_sum_list) auto
  with k show ?thesis
    by (simp add: installed_total_def map_update sum_list_update job_at_def) (simp add: slot_bytes_def)
qed

subsection \<open>Every operation keeps it\<close>

lemmas verifier_okD = verifier_ok_def [THEN iffD1]

lemma slot_of_job [simp]:
  "unat (k :: u8) < MAX_JOBS"
  using unat_word_lt(1) [of k] by (simp add: MAX_JOBS_def)

lemma job_at_ok:
  "verifier_ok v \<Longrightarrow> job_at v k = slot \<Longrightarrow> slot_ok slot"
  by (auto simp: verifier_ok_def job_at_def list_all_length)

lemma list_all_update: "list_all P xs \<Longrightarrow> P y \<Longrightarrow> list_all P (xs[i := y])"
  by (auto simp: list_all_iff dest!: set_update_subset_insert [THEN subsetD])

text \<open>A job replaced in its slot by one with the same coinbases that holds no more transactions.\<close>

lemma put_job_ok:
  assumes ok: "verifier_ok v" and slot: "job_at v k = Some st"
    and st': "slot_ok (Some st')" "st_coinbases st' = st_coinbases st" "is_held (Some st') \<Longrightarrow> is_held (Some st)"
  shows "verifier_ok (put_job k st' v)"
proof -
  have len: "length (vf_jobs v) = MAX_JOBS" using ok by (simp add: verifier_ok_def)
  then have at: "vf_jobs v ! unat k = Some st" using slot by (simp add: job_at_def)
  have total: "installed_total (put_job k st' v) = installed_total v"
    using installed_total_put [OF len, of k st'] slot state_coinbase_bytes_cong [OF st'(2)]
    by (simp add: slot_bytes_def)
  have "length (filter is_held (vf_jobs (put_job k st' v))) \<le> length (filter is_held (vf_jobs v))"
    using length_filter_update [of "unat k" "vf_jobs v" is_held "Some st'"] len at st'(3)
    by (cases "is_held (Some st')") simp_all
  with ok total show ?thesis
    using list_all_update [of slot_ok "vf_jobs v" "Some st'" "unat k"] st'(1) by (simp add: verifier_ok_def)
qed

lemma evict_jobs_ok:
  assumes "verifier_ok v"
  shows "verifier_ok (evict_jobs_off_recent_tips now v)"
proof -
  let ?f = "map_option (evict_off_recent (vf_tip v) (vf_recent_tips v) now)"
  have held: "length (filter is_held (map ?f js)) \<le> length (filter is_held js)" for js
    by (induction js) (auto dest: is_held_evict)
  show ?thesis
    using assms le_trans [OF held]
    by (auto simp: verifier_ok_def evict_jobs_off_recent_tips_def installed_total_def comp_def
        list_all_iff slot_ok_evict)
qed

lemma with_tips_ok:
  "verifier_ok v \<Longrightarrow> length tips \<le> MAX_RECENT_TIPS \<Longrightarrow>
     verifier_ok (v\<lparr>vf_recent_tips := tips, vf_tip := tip\<rparr>)"
  by (simp add: verifier_ok_def installed_total_def)

lemma set_tip_ok:
  assumes "verifier_ok v"
  shows "verifier_ok (set_tip tip now v)"
proof -
  have recent: "length (vf_recent_tips v) \<le> MAX_RECENT_TIPS" using assms by (simp add: verifier_ok_def)
  have kept: "length (drop (length tips - MAX_RECENT_TIPS) tips) \<le> MAX_RECENT_TIPS" for tips :: "replaced_tip list"
    by simp
  show ?thesis
    unfolding set_tip_def Let_def
    by (simp only: split: if_split)
      (intro conjI impI evict_jobs_ok with_tips_ok [OF assms] recent kept)
qed

lemma set_template_ok: "verifier_ok v \<Longrightarrow> verifier_ok (snd (set_template t v))"
  by (simp add: set_template_def verifier_ok_def installed_total_def Let_def)

lemma splits_keep_newest_wf:
  assumes "splits_wf s"
  shows "splits_wf (splits_keep_newest n s)"
proof -
  let ?k = "length (dz_order s) - n"
  have "set (dz_order s) = set (take ?k (dz_order s)) \<union> set (drop ?k (dz_order s))"
    by (metis append_take_drop_id set_append)
  moreover have "set (take ?k (dz_order s)) \<inter> set (drop ?k (dz_order s)) = {}"
    using assms by (metis append_take_drop_id distinct_append splits_wf_def)
  ultimately show ?thesis using assms by (auto simp: splits_wf_def splits_keep_newest_def Let_def)
qed

lemma length_keep_newest [simp]:
  "length (dz_order (splits_keep_newest n s)) = min n (length (dz_order s))"
  by (simp add: splits_keep_newest_def Let_def)

lemma splits_record_ok: "splits_ok s \<Longrightarrow> splits_ok (splits_record k v prev outputs sent s)"
  unfolding splits_ok_def splits_record_def
  by (intro conjI splits_keep_newest_wf) (auto simp: splits_wf_def)

lemma splits_retain_ok: "splits_ok s \<Longrightarrow> splits_ok (splits_retain_prev keep s)"
  by (auto simp: splits_ok_def splits_wf_def splits_retain_prev_def Let_def split: option.splits
      intro: le_trans [OF length_filter_le])

lemma release_fold:
  "distinct ps \<Longrightarrow> \<forall>i \<in> set ps. i < length jobs \<and> is_held (jobs ! i) \<Longrightarrow>
   jobs' = fold (\<lambda>i jobs. jobs[i := map_option release_txns (jobs ! i)]) ps jobs \<Longrightarrow>
     length jobs' = length jobs \<and> length (filter is_held jobs') + length ps = length (filter is_held jobs)
     \<and> map slot_bytes jobs' = map slot_bytes jobs \<and> (list_all slot_ok jobs \<longrightarrow> list_all slot_ok jobs')"
proof (induction ps arbitrary: jobs)
  case (Cons i ps)
  let ?jobs = "jobs[i := map_option release_txns (jobs ! i)]"
  have i: "i < length jobs" "is_held (jobs ! i)" using Cons.prems(2) by auto
  have rest: "\<forall>j \<in> set ps. j < length ?jobs \<and> is_held (?jobs ! j)"
    using Cons.prems(1,2) by (auto simp: nth_list_update)
  have "length (filter is_held ?jobs) + 1 = length (filter is_held jobs)"
    using length_filter_update [of i jobs is_held "map_option release_txns (jobs ! i)"] i by simp
  moreover have "map slot_bytes ?jobs = map slot_bytes jobs"
    using i by (simp add: map_update list_update_same_conv)
  moreover have "list_all slot_ok jobs \<longrightarrow> list_all slot_ok ?jobs"
    using i by (auto intro!: list_all_update slot_ok_release) (auto simp: list_all_length)
  ultimately show ?case using Cons.IH [OF _ rest] Cons.prems(1,3) by simp
qed simp

lemma holding_count:
  "length (filter (\<lambda>i. is_held (jobs ! i)) [0..<length jobs]) = length (filter is_held jobs)"
proof -
  have "filter is_held jobs = map ((!) jobs) (filter (\<lambda>i. is_held (jobs ! i)) [0..<length jobs])"
    using filter_map [of is_held "(!) jobs" "[0..<length jobs]"] by (simp add: map_nth comp_def)
  then show ?thesis by simp
qed

text \<open>One job more than allowed holds transactions; the oldest lose them.\<close>

lemma release_oldest_ok:
  assumes ok: "verifier_ok (v\<lparr>vf_jobs := js\<rparr>)" and js': "length js' = MAX_JOBS" "list_all slot_ok js'"
    "map slot_bytes js' = map slot_bytes js"
  shows "verifier_ok (release_oldest_held_txns (v\<lparr>vf_jobs := js'\<rparr>))"
proof -
  let ?holding = "filter (\<lambda>i. is_held (js' ! i)) [0..<length js']"
  let ?sorted = "sort_key (\<lambda>i. unat (st_generation (the (js' ! i)))) ?holding"
  let ?ps = "take (length ?holding - MAX_JOBS_HOLDING_TXNS) ?sorted"
  define jobs where "jobs = fold (\<lambda>i jobs. jobs[i := map_option release_txns (jobs ! i)]) ?ps js'"
  have ps: "distinct ?ps" "\<forall>i \<in> set ?ps. i < length js' \<and> is_held (js' ! i)"
    by (auto intro: distinct_take dest: in_set_takeD)
  note released = release_fold [OF ps jobs_def]
  have "length (filter is_held jobs) \<le> MAX_JOBS_HOLDING_TXNS"
    using released holding_count [of js'] by simp arith
  moreover have "length (filter is_held js') \<le> MAX_JOBS_HOLDING_TXNS"
    if "length ?holding < MAX_JOBS_HOLDING_TXNS" using that holding_count [of js'] by simp
  moreover have "release_oldest_held_txns (v\<lparr>vf_jobs := js'\<rparr>) =
      (if length ?holding < MAX_JOBS_HOLDING_TXNS then v\<lparr>vf_jobs := js'\<rparr> else v\<lparr>vf_jobs := jobs\<rparr>)"
    by (simp add: release_oldest_held_txns_def Let_def jobs_def)
  ultimately show ?thesis
    using ok js' released by (simp add: verifier_ok_def installed_total_def)
qed

lemma set_job_txns_ok:
  assumes ok: "verifier_ok v"
  shows "verifier_ok (snd (set_job_txns k g txns v))"
proof (cases "live_job v k g")
  case None
  then show ?thesis using ok by (simp add: set_job_txns_def)
next
  case (Some st)
  then have st: "job_at v k = Some st" "\<not> st_evicted st"
    by (auto simp: live_job_def split: option.splits if_splits)
  have slot: "slot_ok (Some (st\<lparr>st_txns := txns\<rparr>))"
    using job_at_ok [OF ok st(1)] st(2) by (simp add: slot_ok_def)
  have "vf_jobs v ! unat k = Some st" "length (vf_jobs v) = MAX_JOBS"
    using ok st(1) by (simp_all add: verifier_ok_def job_at_def)
  then have bytes: "map slot_bytes ((vf_jobs v)[unat k := Some (st\<lparr>st_txns := txns\<rparr>)]) = map slot_bytes (vf_jobs v)"
    by (simp add: map_update list_update_same_conv slot_bytes_def)
      (rule state_coinbase_bytes_cong, simp)
  show ?thesis
  proof (cases "\<exists>txs. txns = Held txs")
    case True
    have "verifier_ok (release_oldest_held_txns (v\<lparr>vf_jobs := (vf_jobs v)[unat k := Some (st\<lparr>st_txns := txns\<rparr>)]\<rparr>))"
    proof (rule release_oldest_ok [where js = "vf_jobs v"])
      show "list_all slot_ok ((vf_jobs v)[unat k := Some (st\<lparr>st_txns := txns\<rparr>)])"
        using ok slot by (intro list_all_update) (simp_all add: verifier_ok_def)
    qed (use ok bytes in \<open>simp_all add: verifier_ok_def\<close>)
    with True show ?thesis by (auto simp: set_job_txns_def Some put_job_def)
  next
    case False
    then have "verifier_ok (put_job k (st\<lparr>st_txns := txns\<rparr>) v)"
      by (intro put_job_ok [OF ok st(1) slot]) (auto simp: is_held_def split: job_txns.splits)
    with False show ?thesis by (cases txns) (simp_all add: set_job_txns_def Some Let_def)
  qed
qed

lemma record_block_check_ok:
  assumes ok: "verifier_ok v"
  shows "verifier_ok (record_block_check k g digest check v)"
proof (cases "live_job v k g")
  case (Some st)
  then have st: "job_at v k = Some st" "\<not> st_evicted st"
    by (auto simp: live_job_def split: option.splits if_splits)
  let ?checks = "if MAX_BLOCK_CHECKS \<le> length (st_checks st) then [] else st_checks st"
  have "length (AList.update digest check al) \<le> Suc (length al)" for al :: "(bytes \<times> block_check) list"
    by (induction al) auto
  then have "length (AList.update digest check ?checks) \<le> MAX_BLOCK_CHECKS"
    by (rule le_trans) (simp add: MAX_BLOCK_CHECKS_def not_le)
  then have "slot_ok (Some (st\<lparr>st_checks := AList.update digest check ?checks\<rparr>))"
    using job_at_ok [OF ok st(1)] st(2) by (simp add: slot_ok_def)
  then have "verifier_ok (put_job k (st\<lparr>st_checks := AList.update digest check ?checks\<rparr>) v)"
    by (rule put_job_ok [OF ok st(1)]) (simp_all add: is_held_def)
  then show ?thesis by (simp add: record_block_check_def Some Let_def)
qed (simp add: record_block_check_def ok)

lemma record_dictated_ok: "verifier_ok v \<Longrightarrow> verifier_ok (record_dictated k value prev outputs now v)"
  by (simp add: verifier_ok_def record_dictated_def installed_total_def splits_record_ok)

lemma splits_default_ok [simp]: "splits_ok splits_default"
  by (simp add: splits_ok_def splits_wf_def splits_default_def)

lemma take_splits_ok:
  assumes "verifier_ok v"
  shows "splits_ok (fst (take_splits v))" "verifier_ok (snd (take_splits v))"
proof -
  have "splits_ok s \<Longrightarrow> splits_ok (splits_keep_newest n s)" for s n
    by (simp add: splits_ok_def splits_keep_newest_wf min.coboundedI2)
  then show "splits_ok (fst (take_splits v))"
    using assms by (simp add: take_splits_def Let_def verifier_ok_def splits_retain_ok)
  show "verifier_ok (snd (take_splits v))"
    using assms by (simp add: take_splits_def Let_def verifier_ok_def installed_total_def)
qed

lemma restore_splits_ok: "verifier_ok v \<Longrightarrow> splits_ok saved \<Longrightarrow> verifier_ok (restore_splits saved v)"
  by (simp add: verifier_ok_def restore_splits_def installed_total_def)

lemma verifier_new_ok: "verifier_ok (verifier_new policy)"
  by (simp add: verifier_ok_def verifier_new_def installed_total_def slot_bytes_def is_held_def
      list_all_length slot_ok_def bounded_new_def bounded_ok_def sum_list_replicate
      MAX_INSTALLING_SHARES_def)

subsection \<open>Installing keeps it\<close>

text \<open>The slot once the share's sections are in it.\<close>

definition fresh_job :: "verifier \<Rightarrow> job_section \<Rightarrow> nat \<Rightarrow> job_state" where
  "fresh_job v job now =
     \<lparr>st_job = job, st_coinbases = (\<lambda>_. None),
      st_parent_seen = parent_is_kept (vf_tip v) (vf_recent_tips v) (js_prev_hash job),
      st_evicted = False, st_installed_at = now,
      st_generation = vf_next_generation v, st_txns = Unrequested, st_checks = []\<rparr>"

lemma fresh_job_bytes [simp]: "state_coinbase_bytes (fresh_job v job now) = 0"
  by (simp add: state_coinbase_bytes_def fresh_job_def)

lemma coinbase_bytes_at_le: "coinbase_bytes_at slot k \<le> slot_bytes slot"
proof (cases slot)
  case (Some st)
  then show ?thesis
    using state_coinbase_bytes_put [of st k "\<lparr>cs_coinbase_id = k, cs_coinb1 = [], cs_coinb2 = []\<rparr>"]
    by (simp add: slot_bytes_def coinbase_bytes_def)
qed (simp add: coinbase_bytes_at_def)

lemma put_job_bytes:
  assumes ok: "verifier_ok v" and st': "slot_ok (Some st')" "is_held (Some st') \<Longrightarrow> is_held (job_at v k)"
    and bytes: "state_coinbase_bytes st' + installed_total v = n + slot_bytes (job_at v k)" "n \<le> vf_cap v"
  shows "verifier_ok (put_job k st' v\<lparr>vf_installed_coinbase_bytes := n\<rparr>)"
proof -
  have len: "length (vf_jobs v) = MAX_JOBS" using ok by (simp add: verifier_ok_def)
  have total: "installed_total (put_job k st' v) = n"
    using installed_total_put [OF len, of k st'] bytes(1) by simp
  have "length (filter is_held (vf_jobs (put_job k st' v))) \<le> length (filter is_held (vf_jobs v))"
    using length_filter_update [of "unat k" "vf_jobs v" is_held "Some st'"] len st'(2)
    by (cases "is_held (Some st')") (simp_all add: job_at_def)
  moreover have "installed_total (put_job k st' v\<lparr>vf_installed_coinbase_bytes := n\<rparr>) = n"
    using total by (simp add: installed_total_def)
  ultimately show ?thesis
    using ok list_all_update [of slot_ok "vf_jobs v" "Some st'" "unat k"] st'(1) bytes(2)
    by (simp add: verifier_ok_def)
qed

definition noted :: "bool \<Rightarrow> bytes \<Rightarrow> nat \<Rightarrow> verifier \<Rightarrow> verifier" where
  "noted changes raw now v =
     (let v = (if changes then v\<lparr>vf_installed_by := fst (bounded_set_insert (vf_installed_by v) raw)\<rparr> else v)
      in if vf_tip v \<noteq> None then evict_jobs_off_recent_tips now v else v)"

lemma noted_ok:
  assumes "verifier_ok v"
  shows "verifier_ok (noted changes raw now v)"
proof -
  let ?v = "if changes then v\<lparr>vf_installed_by := fst (bounded_set_insert (vf_installed_by v) raw)\<rparr> else v"
  have "verifier_ok ?v"
    using assms bounded_set_insert_ok(1,2) [of "vf_installed_by v" raw]
    by (simp add: verifier_ok_def installed_total_def)
  then show ?thesis by (simp only: noted_def Let_def evict_jobs_ok simp_thms split: if_split)
qed

lemma put_put [simp]: "put_job k st' (put_job k st v) = put_job k st' v"
  by (simp add: put_job_def)

text \<open>The three ways a share's sections change its slot.\<close>

lemma install_sections_Inr:
  assumes ok: "verifier_ok v" and install: "install_sections s raw now v = Some (Inr (), v')"
    and resolved: "resolve v s = Inr (job, cb0)"
  obtains (replaces) cb changes where "ps_job s = Some job" "ps_coinbase s = Some cb"
      "vf_installed_coinbase_bytes v - slot_bytes (job_at v (ps_job_id s)) + coinbase_bytes cb \<le> vf_cap v"
      "v' = noted changes raw now (put_job (ps_job_id s)
         ((fresh_job v job now)\<lparr>st_coinbases := [cs_coinbase_id cb \<mapsto> cb]\<rparr>)
         (v\<lparr>vf_next_generation := vf_next_generation v + 1\<rparr>)
         \<lparr>vf_installed_coinbase_bytes :=
           vf_installed_coinbase_bytes v - slot_bytes (job_at v (ps_job_id s)) + coinbase_bytes cb\<rparr>)"
  | (adds) st cb changes where "job_at v (ps_job_id s) = Some st" "ps_coinbase s = Some cb"
      "vf_installed_coinbase_bytes v - coinbase_bytes_at (Some st) (cs_coinbase_id cb) + coinbase_bytes cb \<le> vf_cap v"
      "v' = noted changes raw now (put_job (ps_job_id s)
         (st\<lparr>st_coinbases := (st_coinbases st)(cs_coinbase_id cb \<mapsto> cb)\<rparr>) v
         \<lparr>vf_installed_coinbase_bytes :=
           vf_installed_coinbase_bytes v - coinbase_bytes_at (Some st) (cs_coinbase_id cb) + coinbase_bytes cb\<rparr>)"
  | (names) "v' = noted False raw now v"
proof -
  have len [simp]: "length (vf_jobs v) = MAX_JOBS" using ok by (simp add: verifier_ok_def)
  consider (new) cb where "brings_new_job v s" "ps_job s = Some job" "ps_coinbase s = Some cb"
    | (same) cb st where "\<not> brings_new_job v s" "ps_coinbase s = Some cb" "job_at v (ps_job_id s) = Some st"
    | (bare) "\<not> brings_new_job v s" "ps_coinbase s = None"
    using resolve_slot [OF resolved] resolve_coinbase [OF resolved] by blast
  then show ?thesis
  proof cases
    case new
    have slot: "(case job_at v (ps_job_id s) of None \<Rightarrow> 0 | Some st \<Rightarrow> state_coinbase_bytes st) = slot_bytes (job_at v (ps_job_id s))"
      by (simp add: slot_bytes_def)
    show ?thesis
      using install new
      by (intro replaces [OF new(2,3), of True])
        (auto simp: install_sections_def Let_def noted_def fresh_job_def slot split: if_splits)
  next
    case same
    show ?thesis
      using install same
      by (intro adds [OF same(3,2), of "st_coinbases st (cs_coinbase_id cb) \<noteq> Some cb"])
        (auto simp: install_sections_def Let_def noted_def split: if_splits)
  next
    case bare
    then show ?thesis
      using install by (intro names) (auto simp: install_sections_def Let_def noted_def split: if_splits)
  qed
qed

lemma install_sections_ok:
  assumes ok: "verifier_ok v" and install: "install_sections s raw now v = Some (res, v')"
    and resolved: "resolve v s = Inr (job, cb0)"
  shows "verifier_ok v'"
proof (cases res)
  case (Inl reason)
  then have "v' = v" using install
    by (auto simp: install_sections_def Let_def bind_eq_Some_conv split: if_splits)
  then show ?thesis using ok by simp
next
  case (Inr u)
  have total: "vf_installed_coinbase_bytes v = installed_total v" and len: "length (vf_jobs v) = MAX_JOBS"
    using ok by (simp_all add: verifier_ok_def)
  have size: "coinbase_bytes cb \<le> MAX_COINBASE_SECTION_LEN" if "ps_coinbase s = Some cb" for cb
    using resolve_coinbase [OF resolved] that by auto
  have slot: "slot_bytes (job_at v k) \<le> installed_total v" for k
    using len by (auto simp: job_at_def installed_total_def intro!: member_le_sum_list)
  from install [unfolded Inr] have "install_sections s raw now v = Some (Inr (), v')" by simp
  from ok this resolved show ?thesis
  proof (cases rule: install_sections_Inr)
    case (replaces cb changes)
    let ?st = "(fresh_job v job now)\<lparr>st_coinbases := [cs_coinbase_id cb \<mapsto> cb]\<rparr>"
    let ?v = "v\<lparr>vf_next_generation := vf_next_generation v + 1\<rparr>"
    have job [simp]: "job_at ?v k = job_at v k" for k by (simp add: job_at_def)
    have v: "verifier_ok ?v" "installed_total ?v = installed_total v"
      using ok by (simp_all add: verifier_ok_def installed_total_def)
    have "state_coinbase_bytes ?st = coinbase_bytes cb"
      using state_coinbase_bytes_put [of "fresh_job v job now" "cs_coinbase_id cb" cb]
      by (simp add: coinbase_bytes_at_def) (simp add: fresh_job_def)
    moreover have "slot_ok (Some ?st)" using size [OF replaces(2)] by (simp add: slot_ok_def fresh_job_def)
    moreover have "\<not> is_held (Some ?st)" by (simp add: is_held_def fresh_job_def)
    ultimately have "verifier_ok (put_job (ps_job_id s) ?st ?v\<lparr>vf_installed_coinbase_bytes :=
        vf_installed_coinbase_bytes v - slot_bytes (job_at v (ps_job_id s)) + coinbase_bytes cb\<rparr>)"
      using replaces(3) slot [of "ps_job_id s"] by (intro put_job_bytes [OF v(1)]) (simp_all add: v(2) total)
    then show ?thesis unfolding replaces(4) by (rule noted_ok)
  next
    case (adds st cb changes)
    let ?st = "st\<lparr>st_coinbases := (st_coinbases st)(cs_coinbase_id cb \<mapsto> cb)\<rparr>"
    let ?old = "coinbase_bytes_at (Some st) (cs_coinbase_id cb)"
    have bytes: "state_coinbase_bytes ?st + ?old = slot_bytes (job_at v (ps_job_id s)) + coinbase_bytes cb"
      using state_coinbase_bytes_put [of st "cs_coinbase_id cb" cb] adds(1) by (simp add: slot_bytes_def)
    have "?old \<le> slot_bytes (job_at v (ps_job_id s))"
      using coinbase_bytes_at_le [of "Some st"] adds(1) by simp
    then have sum: "state_coinbase_bytes ?st + installed_total v =
        vf_installed_coinbase_bytes v - ?old + coinbase_bytes cb + slot_bytes (job_at v (ps_job_id s))"
      using bytes slot [of "ps_job_id s"] total by linarith
    have "slot_ok (Some ?st)"
      using job_at_ok [OF ok adds(1)] size [OF adds(2)] by (simp add: slot_ok_def)
    moreover have "is_held (Some ?st) \<Longrightarrow> is_held (job_at v (ps_job_id s))"
      using adds(1) by (simp add: is_held_def)
    ultimately have "verifier_ok (put_job (ps_job_id s) ?st v\<lparr>vf_installed_coinbase_bytes :=
        vf_installed_coinbase_bytes v - ?old + coinbase_bytes cb\<rparr>)"
      using adds(3) sum by (intro put_job_bytes [OF ok]) simp_all
    then show ?thesis unfolding adds(4) by (rule noted_ok)
  next
    case names
    then show ?thesis using noted_ok [OF ok] by simp
  qed
qed

lemma check_rebuilt_Some:
  assumes checked: "check_rebuilt s r now meets v = Some (res, v')"
  shows "v' = v \<or> (\<exists>res'. install_sections s (rb_raw_pow_hash r) now v = Some (res', v'))"
    and "res = Inr () \<Longrightarrow> meets \<and> check_job_header v s r = Inr () \<and>
      install_sections s (rb_raw_pow_hash r) now v = Some (Inr (), v') \<and> check_share v' s r now = Inr ()"
proof -
  have "(v' = v \<or> (\<exists>res'. install_sections s (rb_raw_pow_hash r) now v = Some (res', v'))) \<and>
    (res = Inr () \<longrightarrow> meets \<and> check_job_header v s r = Inr () \<and>
      install_sections s (rb_raw_pow_hash r) now v = Some (Inr (), v') \<and> check_share v' s r now = Inr ())"
  proof (cases "check_job_header v s r")
    case (Inl reason)
    then show ?thesis using checked by (auto simp: check_rebuilt_def)
  next
    case (Inr u)
    let ?step = "if meets \<or> rb_is_block r then install_sections s (rb_raw_pow_hash r) now v else Some (Inr (), v)"
    obtain installed w where step: "?step = Some (installed, w)"
      and rest: "(case installed of Inl reason \<Rightarrow> Some (Inl reason, w)
        | Inr _ \<Rightarrow> (case check_share w s r now of Inl reason \<Rightarrow> Some (Inl reason, w)
            | Inr _ \<Rightarrow> Some (if \<not> meets then Inl HighHash else Inr (), w))) = Some (res, v')"
      using checked Inr by (auto simp: check_rebuilt_def bind_eq_Some_conv simp del: split_paired_Ex)
    have w: "v' = w" using rest by (auto split: sum.splits if_splits)
    have "res = Inr () \<Longrightarrow> meets \<and> installed = Inr () \<and> check_share w s r now = Inr ()"
      using rest by (auto split: sum.splits if_splits)
    then show ?thesis using step Inr unfolding w by (auto split: if_splits)
  qed
  then show "v' = v \<or> (\<exists>res'. install_sections s (rb_raw_pow_hash r) now v = Some (res', v'))"
    and "res = Inr () \<Longrightarrow> meets \<and> check_job_header v s r = Inr () \<and>
      install_sections s (rb_raw_pow_hash r) now v = Some (Inr (), v') \<and> check_share v' s r now = Inr ()"
    by blast+
qed

lemma verify_ok:
  assumes ok: "verifier_ok v" and verified: "verify sha blake s abw now v = Some (res, v')"
  shows "verifier_ok v'"
proof -
  obtain r where r: "rebuild sha blake v s abw = Some r"
    using verified by (auto simp: verify_def bind_eq_Some_conv)
  show ?thesis
  proof (cases r)
    case (Inl refusal)
    then show ?thesis using verified r ok by (simp add: verify_def)
  next
    case (Inr share)
    then obtain job cb where resolved: "resolve v s = Inr (job, cb)" using r rebuild_Inr by metis
    obtain m res1 where "check_rebuilt s share now m v = Some (res1, v')"
      using verified r Inr by (auto simp: verify_def bind_eq_Some_conv Let_def)
    from check_rebuilt_Some(1) [OF this] ok resolved show ?thesis
      by (auto intro: install_sections_ok)
  qed
qed

section \<open>What a connection's operations keep\<close>

text \<open>What the rest of the pool does to one connection's checks, from its opening on.\<close>

inductive verifier_run :: "(bytes \<Rightarrow> bytes) \<Rightarrow> (bytes \<Rightarrow> bytes) \<Rightarrow> share_policy \<Rightarrow> verifier \<Rightarrow> bool"
  for sha blake policy where
  opened: "verifier_run sha blake policy (verifier_new policy)"
| new_tip: "verifier_run sha blake policy v \<Longrightarrow> verifier_run sha blake policy (set_tip tip now v)"
| new_template: "verifier_run sha blake policy v \<Longrightarrow> set_template t v = (b, v') \<Longrightarrow>
    verifier_run sha blake policy v'"
| share: "verifier_run sha blake policy v \<Longrightarrow> verify sha blake s abw now v = Some (res, v') \<Longrightarrow>
    verifier_run sha blake policy v'"
| dictated: "verifier_run sha blake policy v \<Longrightarrow>
    verifier_run sha blake policy (record_dictated k value prev outputs now v)"
| restored: "verifier_run sha blake policy v \<Longrightarrow> verifier_run sha blake policy w \<Longrightarrow>
    take_splits w = (saved, w') \<Longrightarrow> verifier_run sha blake policy (restore_splits saved v)"
| taken: "verifier_run sha blake policy v \<Longrightarrow> take_splits v = (saved, v') \<Longrightarrow>
    verifier_run sha blake policy v'"
| txns: "verifier_run sha blake policy v \<Longrightarrow> set_job_txns k g t v = (b, v') \<Longrightarrow>
    verifier_run sha blake policy v'"
| checked: "verifier_run sha blake policy v \<Longrightarrow>
    verifier_run sha blake policy (record_block_check k g digest check v)"

lemma verifier_run_ok: "verifier_run sha blake policy v \<Longrightarrow> verifier_ok v"
proof (induction rule: verifier_run.induct)
  case (new_template v t b v')
  then show ?case using set_template_ok [of v t] by simp
next
  case (restored v w saved w')
  then show ?case using take_splits_ok(1) [of w] restore_splits_ok by simp
next
  case (taken v saved v')
  then show ?case using take_splits_ok(2) [of v] by simp
next
  case (txns v k g t b v')
  then show ?case using set_job_txns_ok [of v k g t] by simp
qed (auto intro: verifier_new_ok set_tip_ok verify_ok record_dictated_ok record_block_check_ok)

text \<open>C20: whatever shares, tips, templates, splits, transactions and verdicts one connection of the
  pool goes through, it accounts exactly for the coinbase bytes of its 256 jobs and keeps them under
  the cap; at most four jobs hold transactions, and tips, splits, installing hashes and verdicts stay
  within their limits; an evicted job holds no transactions and no verdict.\<close>

theorem connection_stays_bounded:
  assumes "verifier_run sha blake policy v"
  shows "length (vf_jobs v) = 256
    \<and> vf_installed_coinbase_bytes v = sum_list (map slot_bytes (vf_jobs v))
    \<and> vf_installed_coinbase_bytes v \<le> MAX_INSTALLED_COINBASE_BYTES
    \<and> length (filter is_held (vf_jobs v)) \<le> 4
    \<and> length (vf_recent_tips v) \<le> 3 \<and> length (dz_order (vf_splits v)) \<le> 64
    \<and> length (bm_order (vf_installed_by v)) \<le> 4096
    \<and> (\<forall>st \<in> set (vf_jobs v). slot_ok st)"
proof -
  have ok: "verifier_ok v" by (rule verifier_run_ok [OF assms])
  then have "length (bm_order (vf_installed_by v)) \<le> 4096"
    by (auto simp: verifier_ok_def bounded_ok_def order_length MAX_INSTALLING_SHARES_def)
  with ok show ?thesis
    by (simp add: verifier_ok_def installed_total_def splits_ok_def list_all_iff MAX_JOBS_def
        MAX_JOBS_HOLDING_TXNS_def MAX_RECENT_TIPS_def MAX_SPLITS_def)
qed

text \<open>C22: no submitted share, whatever its bytes, makes the pool's checks panic: the target byte's
  index is inside the coinbase it was read from, and a share that resolved installs.\<close>

theorem shares_never_panic:
  assumes "verifier_run sha blake policy v"
  shows "\<exists>res v'. verify sha blake s abw now v = Some (res, v') \<and> verifier_run sha blake policy v'"
proof -
  have "length (vf_jobs v) = MAX_JOBS" using verifier_run_ok [OF assms] by (simp add: verifier_ok_def)
  from verify_total [OF this] obtain res v' where "verify sha blake s abw now v = Some (res, v')"
    by (metis option.exhaust surj_pair)
  with verifier_run.share [OF assms] show ?thesis by blast
qed

section \<open>What an accepted share is\<close>

lemma rebuild_share_Inr:
  assumes "rebuild_share sha blake v job cb s abw_key = Some (Inr r)"
  obtains parsed script h pays tx where
    "floor_log2 (cc_min_difficulty (pc_config (vf_policy v))) \<le> ps_target_byte s" "ps_target_byte s \<le> MAX_TARGET_EXPONENT"
    "parse_script_sig parsed (cc_prime_id (pc_config (vf_policy v))) (cc_coinbase_tag (pc_config (vf_policy v))) = Some script"
    "tx = (assemble_section cb (replicate EXTRANONCE_SIZE 0))[unat (js_target_byte_index job) := ps_target_byte s]"
    "parse_coinbase (assemble_section cb (replicate EXTRANONCE_SIZE 0)) = Inr parsed" "\<not> ct_has_witness parsed"
    "unat (js_target_byte_index job) = pp_target_byte_index script" "unat (js_target_byte_index job) < length tx"
    "check_outputs v job parsed s = Inr pays"
    "submit_header s job (job_merkle_root sha job tx (ps_subsidy_only s)) abw_key = Some h"
    "rb_raw_pow_hash r = ph_raw_pow_hash (pow_hashes sha blake h)"
    "rb_block_hash r = ph_block_hash (pow_hashes sha blake h)"
    "rb_is_block r \<longleftrightarrow> (\<exists>t. next_target v = Some t \<and> meets_target (rb_block_hash r) t)"
    "rb_header r = serialize_header h" "rb_coinbase_tx r = tx" "rb_prev_hash r = js_prev_hash job"
    "rb_job_bits r = u32_from_le (js_nbits job)" "rb_height r = js_height job" "rb_coinbaser_id r = js_coinbaser_id job"
    "rb_difficulty r = submit_difficulty s"
    "rb_paid_to_split r = pm_paid_to_split pays" "rb_paid_to_pool r = pm_paid_to_pool pays"
    "rb_unpaid_outputs r = pm_unpaid_outputs pays"
  using assms
  by (auto simp: rebuild_share_def Let_def not_le not_less split: if_splits sum.splits option.splits)

lemma check_share_Inr:
  "check_share v s r now = Inr () \<Longrightarrow>
     (vf_tip v = None \<or> vf_tip v = Some (rb_prev_hash r) \<or> within_tip_grace v (rb_prev_hash r) now
        \<or> rb_is_block r \<and> \<not> parent_unseen v s (rb_prev_hash r))
     \<and> check_split v s r now = Inr () \<and> check_username_and_time s now = Inr ()"
  by (auto simp: check_share_def tryq_Inr_iff split: if_splits option.splits)

lemma check_split_Inr:
  "check_split v s r now = Inr () \<Longrightarrow> \<not> ps_subsidy_only s \<Longrightarrow> rb_paid_to_split r = 0 \<Longrightarrow> rb_coinbaser_id r \<noteq> 0 \<Longrightarrow>
     \<not> rb_is_block r \<Longrightarrow> dz_by_id (vf_splits v) (rb_coinbaser_id r) = Some split \<Longrightarrow>
     ds_outputs split = [] \<or> now \<le> ds_sent_at split + SPLIT_GRACE_SECS"
  by (auto simp: check_split_def split: if_splits)

lemma check_job_header_Inr:
  "check_job_header v s r = Inr () \<Longrightarrow> next_on v (rb_prev_hash r) = Some next_block \<Longrightarrow>
     (allows_min_difficulty_blocks (pc_chain (vf_policy v)) \<or> rb_job_bits r = nb_bits next_block) \<and>
     nb_height next_block \<in> {None, Some (rb_height r)} \<and>
     (case nb_mintime next_block of None \<Rightarrow> True | Some mintime \<Rightarrow> unat mintime \<le> unat (block_time s))"
  by (auto simp: check_job_header_def split: if_splits option.splits)

lemma check_username_Inr:
  "check_username_and_time s now = Inr () \<Longrightarrow>
     ps_username s \<noteq> [] \<and> length (ps_username s) \<le> MAX_USERNAME_LEN
     \<and> (\<forall>b \<in> set (ps_username s). 0x21 \<le> b \<and> b \<le> 0x7e) \<and> hd (ps_username s) \<noteq> 0x2E
     \<and> unat (block_time s) \<le> now + 7200 \<and> now \<le> unat (block_time s) + 7200"
  by (auto simp: check_username_and_time_def abs_diff_def list_all_iff NTIME_WINDOW_SECS_def
      SECS_PER_HOUR_def split: if_splits)

lemma install_keeps_tip:
  assumes "verifier_ok v" "install_sections s raw now v = Some (Inr (), v')" "resolve v s = Inr (job, cb)"
  shows "vf_tip v' = vf_tip v \<and> vf_recent_tips v' = vf_recent_tips v"
  using assms
  by (cases rule: install_sections_Inr) (simp_all add: noted_def Let_def evict_jobs_off_recent_tips_def)

lemma verify_Inr:
  assumes "verify sha blake s abw now v = Some (Inr r, v')"
  obtains r0 where "rebuild sha blake v s abw = Some (Inr r0)"
    "check_rebuilt s r0 now (meets_share_target s r0) v = Some (Inr (), v')"
    "r = r0\<lparr>rb_job_generation := installed_generation v' s\<rparr>"
proof -
  obtain r0 where r0: "rebuild sha blake v s abw = Some (Inr r0)"
    and "Option.bind (check_rebuilt s r0 now (meets_share_target s r0) v) (\<lambda>(checked, v).
         let rebuilt = r0\<lparr>rb_job_generation := installed_generation v s\<rparr> in
         Some (case checked of
             Inr _ \<Rightarrow> Inr rebuilt
           | Inl reason \<Rightarrow> Inl \<lparr>rf_reason = reason, rf_rebuilt = Some rebuilt\<rparr>, v)) = Some (Inr r, v')"
    using assms unfolding verify_def bind_case_sum by auto
  then obtain checked where c: "check_rebuilt s r0 now (meets_share_target s r0) v = Some (checked, v')"
    "(case checked of Inr _ \<Rightarrow> Inr (r0\<lparr>rb_job_generation := installed_generation v' s\<rparr>)
      | Inl reason \<Rightarrow> Inl \<lparr>rf_reason = reason, rf_rebuilt = Some (r0\<lparr>rb_job_generation := installed_generation v' s\<rparr>)\<rparr>) = Inr r"
    by (auto simp: bind_eq_Some_conv Let_def)
  then show thesis using that [OF r0] by (cases checked) auto
qed

text \<open>C1: a share the pool accepts is work done for it.  The coinbase rebuilt from the job's sections is
  well formed, pays what the split check accepts, carries the pool's prime id and, at the index the job
  states and the script marks, the share's target byte, which is between the pool's minimum and the
  highest target.  The header commits to that coinbase, under a slot key held and not yet revealed when
  slots are used; its proof of work hash meets the share's target, and it is a block exactly when its
  block hash meets the target of the node's template.  The job's bits, height and earliest time are the
  template's where the template builds on the same block; the job builds on the node's tip, or a tip
  within its grace, or the share is itself a block on a parent the node has reported.  A share that pays
  a dictated split nothing comes within the grace of that split.  The username is of 1 to 384 printable
  characters and starts with no dot; the time is within two hours of the pool's.\<close>

theorem accepted_share_sound:
  assumes run: "verifier_run sha blake policy v" and verified: "verify sha blake s abw now v = Some (Inr r, v')"
  shows "\<exists>job cb h k parsed script pays. resolve v s = Inr (job, cb)
    \<and> \<not> names_evicted_job v s \<and> check_coinbase_id s = Inr ()
    \<and> parse_coinbase (assemble_section cb (replicate EXTRANONCE_SIZE 0)) = Inr parsed \<and> \<not> ct_has_witness parsed
    \<and> parse_script_sig parsed (cc_prime_id (pc_config (vf_policy v))) (cc_coinbase_tag (pc_config (vf_policy v))) = Some script
    \<and> unat (js_target_byte_index job) = pp_target_byte_index script
    \<and> rb_coinbase_tx r = (assemble_section cb (replicate EXTRANONCE_SIZE 0))[unat (js_target_byte_index job) := ps_target_byte s]
    \<and> rb_coinbase_tx r ! unat (js_target_byte_index job) = ps_target_byte s
    \<and> check_outputs v job parsed s = Inr pays \<and> rb_paid_to_split r = pm_paid_to_split pays
    \<and> rb_paid_to_pool r = pm_paid_to_pool pays \<and> rb_unpaid_outputs r = pm_unpaid_outputs pays
    \<and> floor_log2 (cc_min_difficulty (pc_config (vf_policy v))) \<le> ps_target_byte s \<and> ps_target_byte s \<le> MAX_TARGET_EXPONENT
    \<and> rb_difficulty r = submit_difficulty s
    \<and> submit_header s job (job_merkle_root sha job (rb_coinbase_tx r) (ps_subsidy_only s)) k = Some h
    \<and> rb_header r = serialize_header h
    \<and> (case abw of None \<Rightarrow> k = None
       | Some st \<Rightarrow> \<exists>key status. Option.bind (ps_abw_slot s) (key_for st) = Some (key, status)
           \<and> status \<noteq> Revealed_key \<and> k = Some key)
    \<and> rb_raw_pow_hash r = ph_raw_pow_hash (pow_hashes sha blake h)
    \<and> meets_target (rb_raw_pow_hash r) (target_for_exponent (ps_target_byte s))
    \<and> rb_block_hash r = ph_block_hash (pow_hashes sha blake h)
    \<and> (rb_is_block r \<longleftrightarrow> (\<exists>t. next_target v = Some t \<and> meets_target (rb_block_hash r) t))
    \<and> (\<forall>nb. next_on v (js_prev_hash job) = Some nb \<longrightarrow>
         (allows_min_difficulty_blocks (pc_chain (vf_policy v)) \<or> u32_from_le (js_nbits job) = nb_bits nb) \<and>
         nb_height nb \<in> {None, Some (js_height job)} \<and>
         (case nb_mintime nb of None \<Rightarrow> True | Some mintime \<Rightarrow> unat mintime \<le> unat (block_time s)))
    \<and> rb_prev_hash r = js_prev_hash job
    \<and> (vf_tip v = None \<or> vf_tip v = Some (js_prev_hash job) \<or> within_tip_grace v (js_prev_hash job) now
       \<or> rb_is_block r \<and> \<not> parent_unseen v' s (js_prev_hash job))
    \<and> (\<not> ps_subsidy_only s \<longrightarrow> rb_paid_to_split r = 0 \<longrightarrow> js_coinbaser_id job \<noteq> 0 \<longrightarrow> \<not> rb_is_block r \<longrightarrow>
         (\<forall>split. dz_by_id (vf_splits v') (js_coinbaser_id job) = Some split \<longrightarrow>
            ds_outputs split = [] \<or> now \<le> ds_sent_at split + 10))
    \<and> 1 \<le> length (ps_username s) \<and> length (ps_username s) \<le> 384
    \<and> (\<forall>b \<in> set (ps_username s). 0x21 \<le> b \<and> b \<le> 0x7e) \<and> hd (ps_username s) \<noteq> 0x2E
    \<and> unat (block_time s) \<le> now + 7200 \<and> now \<le> unat (block_time s) + 7200"
proof -
  have ok: "verifier_ok v" by (rule verifier_run_ok [OF run])
  obtain r0 where rebuilt: "rebuild sha blake v s abw = Some (Inr r0)"
    and checked: "check_rebuilt s r0 now (meets_share_target s r0) v = Some (Inr (), v')"
    and r: "r = r0\<lparr>rb_job_generation := installed_generation v' s\<rparr>"
    using verified by (rule verify_Inr)
  obtain job cb k where resolved: "check_coinbase_id s = Inr ()" "\<not> names_evicted_job v s" "resolve v s = Inr (job, cb)"
      "rebuild_share sha blake v job cb s k = Some (Inr r0)"
    and key: "case abw of None \<Rightarrow> k = None
       | Some st \<Rightarrow> \<exists>key status. Option.bind (ps_abw_slot s) (key_for st) = Some (key, status)
           \<and> status \<noteq> Revealed_key \<and> k = Some key" by (rule rebuild_Inr [OF rebuilt])
  note accepted = check_rebuilt_Some(2) [OF checked refl]
  have share: "check_share v' s r0 now = Inr ()" and header: "check_job_header v s r0 = Inr ()"
    and meets: "meets_share_target s r0" and installed: "install_sections s (rb_raw_pow_hash r0) now v = Some (Inr (), v')"
    using accepted by blast+
  note checks = check_share_Inr [OF share]
  note limits = check_username_Inr [OF checks [THEN conjunct2, THEN conjunct2]]
  have tips: "vf_tip v' = vf_tip v" "within_tip_grace v' prev now = within_tip_grace v prev now" for prev
    using install_keeps_tip [OF ok installed resolved(3)] by (simp_all add: within_tip_grace_def)
  from resolved(4) show ?thesis
  proof (cases rule: rebuild_share_Inr)
    case (1 parsed script h pays tx)
    have sel: "rb_header r = rb_header r0" "rb_coinbase_tx r = tx" "rb_raw_pow_hash r = rb_raw_pow_hash r0"
      "rb_block_hash r = rb_block_hash r0" "rb_is_block r = rb_is_block r0" "rb_prev_hash r = js_prev_hash job"
      "rb_difficulty r = rb_difficulty r0" "rb_paid_to_split r = pm_paid_to_split pays"
      "rb_paid_to_pool r = pm_paid_to_pool pays" "rb_unpaid_outputs r = pm_unpaid_outputs pays"
      by (simp_all add: r 1)
    have byte: "tx ! unat (js_target_byte_index job) = ps_target_byte s" using 1(4,8) by simp
    have tip: "vf_tip v = None \<or> vf_tip v = Some (js_prev_hash job) \<or> within_tip_grace v (js_prev_hash job) now
       \<or> rb_is_block r0 \<and> \<not> parent_unseen v' s (js_prev_hash job)"
      using checks [THEN conjunct1] by (simp add: tips 1)
    have split: "ds_outputs split = [] \<or> now \<le> ds_sent_at split + 10"
      if "\<not> ps_subsidy_only s" "pm_paid_to_split pays = 0" "js_coinbaser_id job \<noteq> 0" "\<not> rb_is_block r0"
        "dz_by_id (vf_splits v') (js_coinbaser_id job) = Some split" for split
      using check_split_Inr [OF checks [THEN conjunct2, THEN conjunct1]] that by (simp add: 1 SPLIT_GRACE_SECS_def)
    note next_block = check_job_header_Inr [OF header, unfolded 1]
    have name: "1 \<le> length (ps_username s)" "length (ps_username s) \<le> 384"
      using limits by (simp_all add: MAX_USERNAME_LEN_def Suc_le_eq)
    show ?thesis
      by (rule exI [of _ job], rule exI [of _ cb], rule exI [of _ h], rule exI [of _ k], rule exI [of _ parsed],
          rule exI [of _ script], rule exI [of _ pays], unfold sel)
        (use 1 resolved key meets byte tip split next_block name limits in \<open>simp add: meets_share_target_def\<close>)
  qed
qed

text \<open>A connection that took one share, its job and coinbase sections with it.\<close>

definition sample_coinbase_section :: coinbase_section where
  "sample_coinbase_section =
     \<lparr>cs_coinbase_id = 1,
      cs_coinb1 = [1, 0, 0, 0, 1] @ replicate 32 0 @ replicate 4 0xFF @ [21, 7, 0, 0, 0, 4, 3, 2, 1, 12],
      cs_coinb2 = replicate 4 0xFF @ [1, 0x88, 0x13, 0, 0, 0, 0, 0, 0, 1, 0x51] @ replicate 4 0\<rparr>"

definition sample_share :: pow_submit where
  "sample_share =
     \<lparr>ps_job_id = 3, ps_coinbase_id = 1, ps_is_block = False, ps_subsidy_only = False,
      ps_quickdiff = False, ps_target_byte = 14, ps_ntime = 7, ps_nonce = 0,
      ps_version = 0x20000000, ps_extranonce = replicate 12 5,
      ps_username = [0x62, 0x63, 0x31] @ replicate 13 0x71, ps_use_time_offset = False,
      ps_job = Some (sample_job_section\<lparr>js_target_byte_index := 43\<rparr>),
      ps_coinbase = Some sample_coinbase_section,
      ps_blake2b = \<lparr>bs_sia_ntime = replicate 8 0, bs_sia_nonce = replicate 8 6, bs_time_on_wire = 9\<rparr>,
      ps_abw_slot = None\<rparr>"

definition sample_policy :: share_policy where
  "sample_policy =
     \<lparr>pc_config = \<lparr>cc_payout_script = [0x51], cc_prime_id = 0x01020304, cc_coinbase_tag = [],
        cc_min_difficulty = 64, cc_v3 = None\<rparr>, pc_chain = None\<rparr>"

definition sample_parsed :: coinbase_tx where
  "sample_parsed =
     \<lparr>ct_version = 1, ct_script_sig_offset = 42,
      ct_script_sig = [7, 0, 0, 0, 4, 3, 2, 1, 12, 0, 0, 0, 0, 0, 0, 0, 0, 0, 0, 0, 0],
      ct_sequence = 0xFFFFFFFF, ct_outputs = [\<lparr>to_value = 5000, to_script_pubkey = [0x51]\<rparr>],
      ct_lock_time = 0, ct_has_witness = False\<rparr>"

lemma le_bytes_num: "le_bytes (numeral k) n = word_of_nat (n mod 256) # le_bytes (pred_numeral k) (n div 256)"
  by (simp only: numeral_eq_Suc le_bytes.simps)

lemma replicate_num: "replicate (numeral k) x = x # replicate (pred_numeral k) x"
  by (simp only: numeral_eq_Suc replicate.simps)

lemma sample_coinbase_parsed:
  "parse_coinbase (assemble_section sample_coinbase_section (replicate 12 0)) = Inr sample_parsed"
proof -
  have wf: "wf_tx (coinbase_wire sample_parsed [])"
    by (simp add: wf_tx_def coinbase_wire_def wf_in_def wf_out_def coinbase_input_def sample_parsed_def)
  have "assemble_section sample_coinbase_section (replicate 12 0) = wire_tx False (coinbase_wire sample_parsed [])"
    by (simp add: assemble_section_def sample_coinbase_section_def wire_tx_def coinbase_wire_def
        wire_body_def wire_input_def coinbase_input_def wire_bytes_def wire_output_def encode_output_def
        sample_parsed_def null_outpoint_def NULL_OUTPOINT_INDEX_def tx_sizes encode_compact_size_def
        compact_size_consts as_u64_def put_u32_le_def put_u64_le_def le_bytes_num replicate_num)
  moreover have "ct_script_sig_offset sample_parsed = script_sig_start False (ct_script_sig sample_parsed)"
    by (simp add: script_sig_start_def sample_parsed_def encode_compact_size_def compact_size_consts as_u64_def)
  ultimately show ?thesis
    using parse_coinbase_wire [OF wf] by (simp add: sample_parsed_def)
qed

lemma sample_script_parsed:
  "parse_script_sig sample_parsed 0x01020304 [] = Some \<lparr>pp_target_byte_index = 43, pp_tag_secondary = []\<rparr>"
proof -
  let ?id = "[0, 0, 0, 4, 3, 2, 1] :: bytes" and ?en = "replicate 12 0 :: bytes"
  have s: "ct_script_sig sample_parsed = encode_push ?id @ encode_push ?en"
    by (simp add: sample_parsed_def encode_push_def opcode_consts replicate_num)
  have len: "length (encode_push ?id) = 8" by (simp add: encode_push_def opcode_consts)
  have "script_pushes (ct_script_sig sample_parsed) = [\<lparr>sp_data_at = 1, sp_data = ?id\<rparr>, \<lparr>sp_data_at = 9, sp_data = ?en\<rparr>]"
    using pushes_from_push [of ?id "[]" "encode_push ?en"] pushes_from_push [of ?en "encode_push ?id" "[]"]
      pushes_from_end [of "encode_push ?id @ encode_push ?en"]
    by (simp add: s script_pushes_def script_ops_def len push_header_def opcode_consts flip: pushes_from_def)
  then show ?thesis
    by (simp add: parse_script_sig_def find_index_def carries_prime_def coinbase_consts put_u64_le_def
        sample_parsed_def le_bytes_num)
qed

lemma bytes_le_zero: "bytes_le (replicate n 0) xs \<longleftrightarrow> n \<le> length xs \<or> (\<exists>x \<in> set xs. x \<noteq> 0)"
proof (induction n arbitrary: xs)
  case (Suc n)
  then show ?case by (cases xs) (auto simp: word_gt_0)
qed simp

lemma length_target_for_exponent [simp]: "length (target_for_exponent e) = TARGET_BYTES"
  by (simp add: target_for_exponent_def Let_def)

abbreviation "any_hash \<equiv> (\<lambda>_ :: bytes. replicate 32 (7 :: u8))"
abbreviation "no_hash \<equiv> (\<lambda>_ :: bytes. replicate 32 (0 :: u8))"

lemma sample_rebuilt:
  "\<exists>r. rebuild any_hash no_hash (verifier_new sample_policy) sample_share None = Some (Inr r)
     \<and> rb_raw_pow_hash r = replicate 32 0 \<and> rb_prev_hash r = replicate 32 1"
proof -
  let ?v = "verifier_new sample_policy" and ?job = "sample_job_section\<lparr>js_target_byte_index := 43\<rparr>"
  have job_at: "job_at ?v k = None" for k
    using unat_word_lt(1) [of k] by (simp add: job_at_def verifier_new_def MAX_JOBS_def)
  have checks: "check_coinbase_id sample_share = Inr ()" "names_evicted_job ?v sample_share = False"
    "resolve ?v sample_share = Inr (?job, sample_coinbase_section)"
    by (simp_all add: check_coinbase_id_def sample_share_def MAX_COINBASE_TYPES_def names_evicted_job_def
        job_at resolve_def brings_new_job_def coinbase_bytes_def sample_coinbase_section_def
        MAX_COINBASE_SECTION_LEN_def Let_def)
  have len: "43 < length (assemble_section sample_coinbase_section (replicate 12 0))"
    by (simp add: assemble_section_def sample_coinbase_section_def)
  have outputs: "check_outputs ?v ?job sample_parsed sample_share =
      Inr \<lparr>pm_paid_to_split = 0, pm_paid_to_pool = 5000, pm_unpaid_outputs = []\<rparr>"
    by (simp add: check_outputs_def verifier_new_def sample_policy_def splits_default_def sample_share_def
        sample_job_section_def sample_parsed_def find_index_def sat64_def)
  have target: "\<not> MAX_TARGET_EXPONENT < ps_target_byte sample_share" "floor_log2 64 \<le> ps_target_byte sample_share"
    by (simp_all add: sample_share_def MAX_TARGET_EXPONENT_def floor_log2_def ilog2.simps)
  have config: "pc_config (vf_policy ?v) = \<lparr>cc_payout_script = [0x51], cc_prime_id = 0x01020304,
      cc_coinbase_tag = [], cc_min_difficulty = 64, cc_v3 = None\<rparr>"
    by (simp add: verifier_new_def sample_policy_def)
  let ?root = "job_merkle_root any_hash ?job
      ((assemble_section sample_coinbase_section (replicate 12 0))[43 := ps_target_byte sample_share])
      (ps_subsidy_only sample_share)"
  obtain h where h: "submit_header sample_share ?job ?root None = Some h"
    by (simp add: submit_header_def job_header_def sample_share_def sample_job_section_def)
  have hash: "ph_raw_pow_hash (pow_hashes any_hash no_hash h) = replicate 32 0"
    by (simp add: pow_hashes_def raw_pow_hash_def Let_def)
  have plain: "\<not> ct_has_witness sample_parsed" by (simp add: sample_parsed_def)
  have index: "unat (js_target_byte_index ?job) = 43" "js_prev_hash ?job = replicate 32 1"
    by (simp_all add: sample_job_section_def)
  have "\<exists>r. rebuild_share any_hash no_hash ?v ?job sample_coinbase_section sample_share None = Some (Inr r)
     \<and> rb_raw_pow_hash r = replicate 32 0 \<and> rb_prev_hash r = replicate 32 1"
    unfolding rebuild_share_def config client_config.simps EXTRANONCE_SIZE_def
    using target len
    by (simp add: sample_coinbase_parsed sample_script_parsed outputs plain Let_def h hash index not_less not_le)
  then show ?thesis by (auto simp: rebuild_def checks)
qed


lemma sample_share_state:
  "\<exists>r v' st. verify any_hash no_hash sample_share None 9 (verifier_new sample_policy) = Some (Inr r, v') \<and>
     job_at v' 3 = Some st \<and> st_job st = sample_job_section\<lparr>js_target_byte_index := 43\<rparr> \<and> \<not> st_evicted st \<and>
     st_checks st = [] \<and> rb_job_generation r = Some (st_generation st)"
proof -
  let ?v = "verifier_new sample_policy"
  have job_at: "job_at ?v k = None" for k
    using unat_word_lt(1) [of k] by (simp add: job_at_def verifier_new_def MAX_JOBS_def)
  obtain r where r: "rebuild any_hash no_hash ?v sample_share None = Some (Inr r)"
    "rb_raw_pow_hash r = replicate 32 0" "rb_prev_hash r = replicate 32 1" using sample_rebuilt by blast
  have meets: "meets_share_target sample_share r"
    by (simp add: meets_share_target_def r meets_target_def bytes_le_zero TARGET_BYTES_def)
  have header: "check_job_header ?v sample_share r = Inr ()"
    by (simp add: check_job_header_def next_on_def verifier_new_def)
  have time: "check_username_and_time sample_share 9 = Inr ()"
    by (simp add: check_username_and_time_def sample_share_def list_all_iff MAX_USERNAME_LEN_def abs_diff_def block_time_def
        NTIME_WINDOW_SECS_def word_le_nat_alt)
  have new: "vf_installed_by ?v = bounded_new MAX_INSTALLING_SHARES" "vf_installed_coinbase_bytes ?v = 0"
    "vf_cap ?v = MAX_INSTALLED_COINBASE_BYTES" "vf_tip ?v = None" "vf_splits ?v = splits_default"
    "length (vf_jobs ?v) = MAX_JOBS"
    by (simp_all add: verifier_new_def)
  have empty: "\<not> bounded_contains (bounded_new n) x" for n and x :: bytes
    by (simp add: bounded_contains_def bounded_new_def bounded_get_def)
  have sections: "ps_job sample_share = Some (sample_job_section\<lparr>js_target_byte_index := 43\<rparr>)"
    "ps_coinbase sample_share = Some sample_coinbase_section" "ps_job_id sample_share = 3"
    by (simp_all add: sample_share_def)
  have small: "coinbase_bytes sample_coinbase_section \<le> MAX_INSTALLED_COINBASE_BYTES"
    by (simp add: coinbase_bytes_def sample_coinbase_section_def MAX_INSTALLED_COINBASE_BYTES_def
        MAX_JOBS_def MAX_COINBASE_SECTION_LEN_def)
  have new_job: "brings_new_job ?v sample_share" by (simp add: brings_new_job_def sections job_at)
  have "\<exists>w. install_sections sample_share raw 9 ?v = Some (Inr (), w) \<and> vf_tip w = None \<and>
      vf_splits w = splits_default \<and> (\<exists>st. job_at w 3 = Some st \<and> st_job st = sample_job_section\<lparr>js_target_byte_index := 43\<rparr> \<and>
        \<not> st_evicted st \<and> st_checks st = [])" for raw
    using small
    by (simp add: install_sections_def sections job_at new new_job empty Let_def not_less) (simp add: job_at_def put_job_def new MAX_JOBS_def)
  then obtain w st where w: "install_sections sample_share (rb_raw_pow_hash r) 9 ?v = Some (Inr (), w)"
    "vf_tip w = None" "vf_splits w = splits_default"
    and st: "job_at w 3 = Some st" "st_job st = sample_job_section\<lparr>js_target_byte_index := 43\<rparr>" "\<not> st_evicted st" "st_checks st = []"
    by blast
  have "check_share w sample_share r 9 = Inr ()"
    by (simp add: check_share_def w check_split_def splits_default_def time)
  then have "check_rebuilt sample_share r 9 True ?v = Some (Inr (), w)"
    by (simp add: check_rebuilt_def header w)
  moreover have "installed_generation w sample_share = Some (st_generation st)"
    by (simp add: installed_generation_def sections st)
  ultimately show ?thesis using st by (simp add: verify_def r meets Let_def)
qed

lemma sample_share_accepted:
  "\<exists>r v'. verify any_hash no_hash sample_share None 9 (verifier_new sample_policy) = Some (Inr r, v')"
  using sample_share_state by blast

lemma connection_stays_bounded_witness:
  "\<exists>r v'. verify any_hash no_hash sample_share None 9 (verifier_new sample_policy) = Some (Inr r, v')
     \<and> vf_installed_coinbase_bytes v' = sum_list (map slot_bytes (vf_jobs v'))"
proof -
  obtain r v' where v': "verify any_hash no_hash sample_share None 9 (verifier_new sample_policy) = Some (Inr r, v')"
    using sample_share_accepted by blast
  then have "verifier_run any_hash no_hash sample_policy v'" by (rule verifier_run.share [OF verifier_run.opened])
  from connection_stays_bounded [OF this] v' show ?thesis by blast
qed

lemma shares_never_panic_witness:
  "\<exists>res v'. verify any_hash no_hash sample_submit None 9 (verifier_new sample_policy) = Some (res, v')"
  using shares_never_panic [OF verifier_run.opened] by blast

lemma accepted_share_sound_witness:
  "\<exists>r v'. verify any_hash no_hash sample_share None 9 (verifier_new sample_policy) = Some (Inr r, v')
     \<and> meets_target (rb_raw_pow_hash r) (target_for_exponent 14)"
proof -
  obtain r v' where v': "verify any_hash no_hash sample_share None 9 (verifier_new sample_policy) = Some (Inr r, v')"
    using sample_share_accepted by blast
  have "meets_target (rb_raw_pow_hash r) (target_for_exponent (ps_target_byte sample_share))"
    using accepted_share_sound [OF verifier_run.opened v'] by blast
  with v' show ?thesis by (auto simp: sample_share_def)
qed

end
