(* ===== verification/Trim.thy ===== *)
theory Trim
  imports Window
begin

text \<open>
  How the share window's trimming (\<^verbatim>\<open>prime/src/ledger.rs\<close>, \<open>Contents::trim\<close>) composes: trimming as
  shares arrive, trimming again to a narrower window and trimming what a file retains all give the
  window that one trimming of every share gives.  The ledger's invariant rests on \<open>trim_suffix\<close>:
  the window is a function of any retained shares that are at least as many as the window holds.
\<close>

section \<open>Trimming to the window's work\<close>

lemma total_of_append [simp]: "total_of (xs @ ys) = total_of xs + total_of ys"
  by (simp add: total_of_def)

lemma total_of_Nil [simp]: "total_of [] = 0"
  by (simp add: total_of_def)

lemma trim_work_small: "total_of xs \<le> window \<Longrightarrow> trim_shares_work window xs = xs"
  by (cases xs) simp_all

lemma trim_work_append:
  "trim_shares_work window (trim_shares_work window xs @ ys) = trim_shares_work window (xs @ ys)"
  by (induction xs) auto

lemma trim_work_narrow:
  "window' \<le> window \<Longrightarrow> trim_shares_work window' (trim_shares_work window xs) = trim_shares_work window' xs"
  by (induction xs) auto

lemma length_trim_work_le: "length (trim_shares_work window xs) \<le> length xs"
  by (induction xs) auto

lemma length_trim_work_narrow:
  assumes "window' \<le> window"
  shows "length (trim_shares_work window' xs) \<le> length (trim_shares_work window xs)"
  using length_trim_work_le [of window' "trim_shares_work window xs"] trim_work_narrow [OF assms, of xs] by simp

lemma trim_work_longer:
  "length (trim_shares_work window (ps @ zs)) \<le> length zs \<Longrightarrow>
     trim_shares_work window zs = trim_shares_work window (ps @ zs)"
  by (induction ps) (auto split: if_splits)

lemma trim_work_within:
  assumes "trim_shares_work window xs = ps @ zs"
  shows "trim_shares_work window zs = zs"
proof (cases ps)
  case Nil
  then show ?thesis using trim_work_narrow [of window window xs] assms by simp
next
  case (Cons y ps')
  then have ts: "trim_shares_work window xs = y # (ps' @ zs)" using assms by simp
  show ?thesis
  proof (cases "ps' @ zs = [] \<or> total_of (y # ps' @ zs) \<le> window")
    case True
    then show ?thesis by (auto intro: trim_work_small)
  next
    case False
    then have "total_of (ps' @ zs) < window" using trim_shares_work_spec(2) [OF ts] by simp
    then show ?thesis by (intro trim_work_small) simp
  qed
qed

section \<open>Trimming to the work and the count\<close>

lemma trim_shares_Nil [simp]: "trim_shares window m [] = []"
  by (simp add: trim_shares_def)

lemma length_trim_shares_min:
  "length (trim_shares window m xs) = min m (length (trim_shares_work window xs))"
  by (simp add: trim_shares_def Let_def)

lemma newest_of_suffix:
  "m \<le> length zs \<Longrightarrow> drop (length (ps @ zs) - m) (ps @ zs) = drop (length zs - m) zs"
  by (induction ps) (simp_all add: Suc_diff_le)

text \<open>The window of a file is the window of any of its newest shares, as many as the window holds.\<close>

lemma trim_suffix:
  assumes "length (trim_shares window m (ps @ zs)) \<le> length zs"
  shows "trim_shares window m zs = trim_shares window m (ps @ zs)"
proof (cases "length (trim_shares_work window (ps @ zs)) \<le> length zs")
  case True
  then show ?thesis by (simp add: trim_shares_def trim_work_longer)
next
  case False
  let ?t = "trim_shares_work window (ps @ zs)"
  obtain qs where "ps @ zs = qs @ ?t" using trim_shares_work_suffix by blast
  then obtain rs where rs: "?t = rs @ zs"
    using False by (metis append_eq_append_conv2 length_append nat_le_linear trans_le_add2)
  have m: "m \<le> length zs" using assms False by (simp add: length_trim_shares_min min_def split: if_splits)
  have "trim_shares window m (ps @ zs) = drop (length (rs @ zs) - m) (rs @ zs)"
    by (simp add: trim_shares_def rs)
  then show ?thesis
    using newest_of_suffix [OF m, of rs] trim_work_within [OF rs] by (simp add: trim_shares_def)
qed

lemma trim_shares_append:
  "trim_shares window m (trim_shares window m xs @ ys) = trim_shares window m (xs @ ys)"
proof -
  obtain ps where ps: "xs = ps @ trim_shares window m xs" using trim_shares_suffix by blast
  have "length (trim_shares_work window (xs @ ys)) \<le> length (trim_shares_work window xs) + length ys"
    using length_trim_work_le [of window "trim_shares_work window xs @ ys"] by (simp add: trim_work_append)
  then have "length (trim_shares window m (xs @ ys)) \<le> length (trim_shares window m xs @ ys)"
    by (simp add: length_trim_shares_min min_def)
  moreover have whole: "xs @ ys = ps @ (trim_shares window m xs @ ys)" using ps by simp
  ultimately have "length (trim_shares window m (ps @ (trim_shares window m xs @ ys))) \<le>
      length (trim_shares window m xs @ ys)" by argo
  from trim_suffix [OF this] whole show ?thesis by argo
qed

lemma trim_shares_narrow:
  assumes "window' \<le> window"
  shows "trim_shares window' m (trim_shares window m xs) = trim_shares window' m xs"
proof -
  obtain ps where ps: "xs = ps @ trim_shares window m xs" using trim_shares_suffix by blast
  have "length (trim_shares window' m (ps @ trim_shares window m xs)) \<le> length (trim_shares window m xs)"
    using length_trim_work_narrow [OF assms, of xs] ps [symmetric] by (simp add: length_trim_shares_min)
  from trim_suffix [OF this] ps show ?thesis by simp
qed

lemma trim_shares_idem [simp]: "trim_shares window m (trim_shares window m xs) = trim_shares window m xs"
  by (rule trim_shares_narrow) simp

lemma window_after_trim: "window_after window m (trim_shares window m xs) rows = trim_shares window m (xs @ rows)"
proof (induction rows arbitrary: xs)
  case (Cons s rows)
  show ?case using Cons.IH [of "xs @ [s]"] by (simp add: trim_shares_append)
qed simp

lemma window_after_empty: "window_after window m [] rows = trim_shares window m rows"
  using window_after_trim [of window m "[]" rows] by simp

section \<open>The rows a read back selects\<close>

text \<open>The newest shares, oldest first, whose difficulties reach the window, at most \<open>m\<close>.\<close>

definition reaching :: "nat \<Rightarrow> nat \<Rightarrow> share list \<Rightarrow> share list \<Rightarrow> bool" where
  "reaching window m xs zs \<longleftrightarrow>
     (\<exists>ps. xs = ps @ zs \<and> (ps = [] \<or> window \<le> total_of zs \<or> m \<le> length zs))"

lemma trim_reaching:
  assumes sel: "reaching window m xs zs" and work: "\<forall>s \<in> set xs. 0 < sh_difficulty s"
    and window: "0 < window"
  shows "trim_shares window m zs = trim_shares window m xs"
proof -
  obtain ps where ps: "xs = ps @ zs" and cut: "ps = [] \<or> window \<le> total_of zs \<or> m \<le> length zs"
    using sel by (auto simp: reaching_def)
  have "length (trim_shares_work window xs) \<le> length zs" if reach: "window \<le> total_of zs"
  proof (rule ccontr)
    assume long: "\<not> ?thesis"
    obtain qs where "ps @ zs = qs @ trim_shares_work window xs" using trim_shares_work_suffix ps by metis
    then obtain rs where rs: "trim_shares_work window xs = rs @ zs"
      using long by (metis append_eq_append_conv2 length_append nat_le_linear trans_le_add2)
    then obtain y ys where y: "rs = y # ys" using long by (cases rs) auto
    have "0 < sh_difficulty y"
      using work y rs trim_shares_work_suffix [of xs window] by (metis UnI2 list.set_intros(1) append_Cons set_append)
    moreover have "zs \<noteq> []" using reach window by auto
    ultimately have "total_of (ys @ zs) < window"
      using trim_shares_work_spec(2) [of window xs y "ys @ zs"] rs y reach by simp
    then show False using reach by simp
  qed
  then have "length (trim_shares window m (ps @ zs)) \<le> length zs"
    using cut ps length_trim_shares [of window m xs] length_trim_work_le [of window xs]
    by (auto simp: length_trim_shares_min)
  from trim_suffix [OF this] ps show ?thesis by simp
qed

end
