(* ===== verification/Store.thy ===== *)
theory Store
  imports Trim Reader
begin

text \<open>
  The share rows on disk (\<^verbatim>\<open>prime/src/ledger/store.rs\<close>, \<^verbatim>\<open>prime/src/ledger/db.rs\<close>).

  The database is redb's, not this program's: \<open>'db\<close> is its handle and a \<open>redb\<close> record says what a
  read transaction sees of it (\<open>db_tables\<close>), whether one can be begun (\<open>db_reads\<close>) and what a write
  transaction leaves (\<open>db_write\<close>, \<open>None\<close> when it fails).  The law is redb's contract: what was
  committed is what is read (\<open>redb_ok\<close>).  A table is the list of its rows in key order.  The counter
  of credited work is stored as its decimal text, which stands here as the number.  Sequence numbers
  and counts are natural numbers.
\<close>

section \<open>Rows\<close>

definition NAME_SEPARATOR :: u8 where "NAME_SEPARATOR = 0x00"
definition MAX_RETAINED_PER_CALL :: nat where "MAX_RETAINED_PER_CALL = 4096"

definition split_at_separator :: "bytes \<Rightarrow> bytes \<times> bytes" where
  "split_at_separator rest =
     (case find_index (\<lambda>b. b = NAME_SEPARATOR) rest of
        Some i \<Rightarrow> (take i rest, drop (i + 1) rest)
      | None \<Rightarrow> (rest, []))"

definition pack :: "share \<Rightarrow> bytes" where
  "pack s =
     put_u64_le (as_u64 (sh_accepted_at s)) @ put_u64_le (as_u64 (sh_difficulty s)) @ sh_block_hash s @
     sh_identity s @ [NAME_SEPARATOR] @ sh_tag_secondary s"

definition unpack :: "bytes \<Rightarrow> share option" where
  "unpack bytes =
     okq (rd_u64 ''accepted_at'' (rd_new bytes)) (\<lambda>(accepted_at, c).
     okq (rd_u64 ''difficulty'' c) (\<lambda>(difficulty, c).
     okq (rd_arr 32 ''hash'' c) (\<lambda>(hash, c).
     let (identity, tag) = split_at_separator (br_rest c) in
     Some \<lparr>sh_accepted_at = unat accepted_at, sh_identity = from_utf8_lossy identity,
       sh_difficulty = unat difficulty, sh_block_hash = hash, sh_tag_secondary = from_utf8_lossy tag\<rparr>)))"

record row_head =
  rh_accepted_at :: nat
  rh_difficulty :: nat
  rh_block_hash :: bytes

definition unpack_head :: "bytes \<Rightarrow> row_head option" where
  "unpack_head bytes =
     okq (rd_u64 ''accepted_at'' (rd_new bytes)) (\<lambda>(accepted_at, c).
     okq (rd_u64 ''difficulty'' c) (\<lambda>(difficulty, c).
     okq (rd_arr 32 ''hash'' c) (\<lambda>(hash, c).
     Some \<lparr>rh_accepted_at = unat accepted_at, rh_difficulty = unat difficulty, rh_block_hash = hash\<rparr>)))"

section \<open>The database\<close>

datatype io_error = DbError | WrongChain bytes bytes

record tables =
  tb_shares :: "(nat \<times> bytes) list"
  tb_chain :: "bytes option"
  tb_cumulative_work :: "nat option"
  tb_blocks :: "(bytes \<times> bytes) list"
  tb_owed :: "(bytes \<times> bytes) list"
  tb_chain_state :: "(bytes \<times> bytes) list"

record 'db redb =
  db_tables :: "'db \<Rightarrow> tables"
  db_reads :: "'db \<Rightarrow> bool"
  db_write :: "'db \<Rightarrow> tables \<Rightarrow> 'db option"

definition redb_ok :: "'db redb \<Rightarrow> bool" where
  "redb_ok D \<longleftrightarrow> (\<forall>d t d'. db_write D d t = Some d' \<longrightarrow> db_tables D d' = t)"

text \<open>\<open>table.insert\<close>, \<open>table.remove\<close> and \<open>begin_read\<close>.\<close>

fun row_insert :: "nat \<Rightarrow> bytes \<Rightarrow> (nat \<times> bytes) list \<Rightarrow> (nat \<times> bytes) list" where
  "row_insert k v [] = [(k, v)]"
| "row_insert k v ((j, w) # rows) =
     (if k < j then (k, v) # (j, w) # rows
      else if k = j then (k, v) # rows
      else (j, w) # row_insert k v rows)"

definition row_remove :: "nat \<Rightarrow> (nat \<times> bytes) list \<Rightarrow> (nat \<times> bytes) list" where
  "row_remove k rows = filter (\<lambda>(j, _). j \<noteq> k) rows"

definition begin_read :: "'db redb \<Rightarrow> 'db \<Rightarrow> io_error + tables" where
  "begin_read D d = (if db_reads D d then Inr (db_tables D d) else Inl DbError)"

section \<open>The store\<close>

record 'db store =
  sr_db :: 'db
  sr_next_seq :: nat
  sr_retain_bound :: "nat option"
  sr_cumulative_work :: nat
  sr_stamped :: bool

text \<open>Deleting the retired table touches none of the tables above.\<close>

definition store_open :: "'db redb \<Rightarrow> 'db \<Rightarrow> nat option \<Rightarrow> bytes option \<Rightarrow> io_error + 'db store" where
  "store_open D d keep chain =
     (let t = db_tables D d; held_shares = (tb_shares t \<noteq> []) in
      bindr
        (case chain of
           None \<Rightarrow> Inr (t, False)
         | Some chain \<Rightarrow>
             (case tb_chain t of
                Some stored \<Rightarrow> if stored \<noteq> chain then Inl (WrongChain stored chain) else Inr (t, False)
              | None \<Rightarrow> Inr (t\<lparr>tb_chain := Some chain\<rparr>, held_shares))) (\<lambda>(t, stamped).
      let cumulative_work = (case tb_cumulative_work t of None \<Rightarrow> 0 | Some w \<Rightarrow> w) in
      bindr (ok_or DbError (db_write D d t)) (\<lambda>d.
      bindr (begin_read D d) (\<lambda>r.
      let next_seq = (if tb_shares r = [] then 0 else fst (last (tb_shares r)) + 1) in
      Inr \<lparr>sr_db = d, sr_next_seq = next_seq, sr_retain_bound = keep,
           sr_cumulative_work = cumulative_work, sr_stamped = stamped\<rparr>))))"

definition insert_batch :: "'db redb \<Rightarrow> share list \<Rightarrow> nat \<Rightarrow> 'db store \<Rightarrow> io_error + 'db store" where
  "insert_batch D shares cumulative_work st =
     (let t = db_tables D (sr_db st);
          rows = fold (\<lambda>(seq, share). row_insert seq (pack share))
            (zip [sr_next_seq st ..< sr_next_seq st + length shares] shares) (tb_shares t)
      in bindr (ok_or DbError
           (db_write D (sr_db st) (t\<lparr>tb_shares := rows, tb_cumulative_work := Some cumulative_work\<rparr>))) (\<lambda>d.
         Inr (st\<lparr>sr_db := d, sr_next_seq := sr_next_seq st + length shares\<rparr>)))"

text \<open>The scan back from the newest row.\<close>

fun accepted_back :: "nat \<Rightarrow> nat \<Rightarrow> bytes list \<Rightarrow> (nat \<times> bytes) list" where
  "accepted_back cutoff 0 vs = []"
| "accepted_back cutoff (Suc m) [] = []"
| "accepted_back cutoff (Suc m) (v # vs) =
     (case unpack_head v of
        None \<Rightarrow> accepted_back cutoff (Suc m) vs
      | Some head \<Rightarrow>
          if rh_accepted_at head < cutoff then []
          else (rh_accepted_at head, rh_block_hash head) # accepted_back cutoff m vs)"

definition accepted_since :: "'db redb \<Rightarrow> nat \<Rightarrow> nat \<Rightarrow> 'db store \<Rightarrow> io_error + (nat \<times> bytes) list" where
  "accepted_since D cutoff max_len st =
     bindr (begin_read D (sr_db st)) (\<lambda>t.
     Inr (rev (accepted_back cutoff max_len (rev (map snd (tb_shares t))))))"

text \<open>The keys of the rows to remove, from the oldest: the loop stops at the first that must be read
  back at startup.\<close>

fun oldest_rows :: "nat \<Rightarrow> nat \<Rightarrow> nat \<Rightarrow> (nat \<times> bytes) list \<Rightarrow> nat list" where
  "oldest_rows recent_from keep_after position [] = []"
| "oldest_rows recent_from keep_after position ((seq, v) # rows) =
     (if recent_from \<le> position \<and>
         (case unpack_head v of None \<Rightarrow> False | Some h \<Rightarrow> keep_after \<le> rh_accepted_at h)
      then [] else seq # oldest_rows recent_from keep_after (position + 1) rows)"

definition retain :: "'db redb \<Rightarrow> nat \<Rightarrow> nat \<Rightarrow> nat \<Rightarrow> 'db store \<Rightarrow> io_error + (nat \<times> 'db store)" where
  "retain D floor keep_after keep_newest st =
     (case sr_retain_bound st of
        None \<Rightarrow> Inr (0, st)
      | Some configured \<Rightarrow>
          bindr (begin_read D (sr_db st)) (\<lambda>t.
          let rows = tb_shares t; count = length rows;
              surplus = min (count - max configured floor) MAX_RETAINED_PER_CALL;
              recent_from = count - keep_newest;
              oldest = oldest_rows recent_from keep_after 0 (take surplus rows)
          in if oldest = [] then Inr (0, st)
             else bindr (ok_or DbError (db_write D (sr_db st)
                    (t\<lparr>tb_shares := fold row_remove oldest rows\<rparr>))) (\<lambda>d.
                  Inr (length oldest, st\<lparr>sr_db := d\<rparr>))))"

section \<open>Reading the window back\<close>

record read_back =
  rb_skipped :: nat
  rb_truncated :: bool
  rb_stamped :: bool

record window_scan =
  wn_work :: nat
  wn_counted :: nat
  wn_start :: "nat option"
  wn_skipped :: nat
  wn_capped :: bool

text \<open>The walk back from the newest row; \<open>saturating_add\<close> of 128 bits.\<close>

fun scan_back :: "nat \<Rightarrow> nat \<Rightarrow> (nat \<times> bytes) list \<Rightarrow> window_scan \<Rightarrow> window_scan" where
  "scan_back window max_shares rows w =
     (if window \<le> wn_work w then w
      else if max_shares \<le> wn_counted w then w\<lparr>wn_capped := True\<rparr>
      else case rows of
        [] \<Rightarrow> w
      | (seq, v) # rows \<Rightarrow>
          (case unpack_head v of
             Some head \<Rightarrow> scan_back window max_shares rows
               (w\<lparr>wn_work := min (wn_work w + rh_difficulty head) (2 ^ 128 - 1),
                  wn_counted := wn_counted w + 1, wn_start := Some seq\<rparr>)
           | None \<Rightarrow> scan_back window max_shares rows (w\<lparr>wn_skipped := wn_skipped w + 1\<rparr>)))"

declare scan_back.simps [simp del]

text \<open>The shares passed on, oldest first, after the count of them that only sizes a buffer.\<close>

definition read_window :: "tables \<Rightarrow> nat \<Rightarrow> nat \<Rightarrow> share list \<times> read_back" where
  "read_window t window max_shares =
     (let w = scan_back window max_shares (rev (tb_shares t))
            \<lparr>wn_work = 0, wn_counted = 0, wn_start = None, wn_skipped = 0, wn_capped = False\<rparr>;
          rb = \<lparr>rb_skipped = wn_skipped w, rb_truncated = (wn_work w < window \<and> \<not> wn_capped w),
                rb_stamped = False\<rparr>
      in case wn_start w of
           None \<Rightarrow> ([], rb)
         | Some start \<Rightarrow>
             (List.map_filter (\<lambda>(seq, v). unpack v) (filter (\<lambda>(seq, v). start \<le> seq) (tb_shares t)), rb))"

definition dump :: "'db redb \<Rightarrow> 'db \<Rightarrow> io_error + share list" where
  "dump D d = bindr (begin_read D d) (\<lambda>t. Inr (List.map_filter (\<lambda>(_, v). unpack v) (tb_shares t)))"

section \<open>Lemmas: the database\<close>

lemma write_tables: "redb_ok D \<Longrightarrow> db_write D d t = Some d' \<Longrightarrow> db_tables D d' = t"
  by (auto simp: redb_ok_def)

text \<open>A database that keeps its tables in memory satisfies redb's law.\<close>

definition mem_redb :: "tables redb" where
  "mem_redb = \<lparr>db_tables = id, db_reads = (\<lambda>_. True), db_write = (\<lambda>_ t. Some t)\<rparr>"

definition no_tables :: tables where
  "no_tables = \<lparr>tb_shares = [], tb_chain = None, tb_cumulative_work = None,
     tb_blocks = [], tb_owed = [], tb_chain_state = []\<rparr>"

lemma mem_redb_ok: "redb_ok mem_redb"
  by (simp add: redb_ok_def mem_redb_def)

section \<open>Lemmas: rows\<close>

text \<open>The shares the pool records: their difficulty is a power of two, their names free of zero bytes.\<close>

definition wf_share :: "share \<Rightarrow> bool" where
  "wf_share s \<longleftrightarrow> sh_accepted_at s < 2 ^ 64 \<and> 0 < sh_difficulty s \<and> sh_difficulty s < 2 ^ 64 \<and>
     length (sh_block_hash s) = 32 \<and> NAME_SEPARATOR \<notin> set (sh_identity s) \<and>
     utf8_valid (sh_identity s) \<and> utf8_valid (sh_tag_secondary s)"

lemma split_at_separator_names:
  "NAME_SEPARATOR \<notin> set name \<Longrightarrow> split_at_separator (name @ NAME_SEPARATOR # rest) = (name, rest)"
  by (subst split_at_separator_def) (subst find_index_prefix, auto)

lemma unpack_pack:
  assumes "wf_share s"
  shows "unpack (pack s) = Some s"
    and "unpack_head (pack s) = Some \<lparr>rh_accepted_at = sh_accepted_at s, rh_difficulty = sh_difficulty s,
      rh_block_hash = sh_block_hash s\<rparr>"
  using assms
  by (simp_all add: wf_share_def unpack_def unpack_head_def pack_def rd_new_def wire split_at_separator_names)

section \<open>Lemmas: the rows of a ledger\<close>

text \<open>Consecutive sequence numbers up to the next: rows are appended, and only the oldest removed.\<close>

definition rows_of :: "nat \<Rightarrow> share list \<Rightarrow> (nat \<times> bytes) list" where
  "rows_of lo xs = zip [lo ..< lo + length xs] (map pack xs)"

lemma rows_of_Nil [simp]: "rows_of lo [] = []"
  by (simp add: rows_of_def)

lemma rows_of_Cons: "rows_of lo (x # xs) = (lo, pack x) # rows_of (Suc lo) xs"
  by (simp add: rows_of_def upt_conv_Cons del: upt_Suc)

lemma rows_of_append: "rows_of lo (xs @ ys) = rows_of lo xs @ rows_of (lo + length xs) ys"
  by (induction xs arbitrary: lo) (simp_all add: rows_of_Cons)

lemma length_rows_of [simp]: "length (rows_of lo xs) = length xs"
  by (simp add: rows_of_def)

lemma map_snd_rows_of [simp]: "map snd (rows_of lo xs) = map pack xs"
  by (simp add: rows_of_def)

lemma rows_of_eq_Nil [simp]: "rows_of lo xs = [] \<longleftrightarrow> xs = []"
  by (metis length_0_conv length_rows_of)

lemma last_rows_of: "xs \<noteq> [] \<Longrightarrow> fst (last (rows_of lo xs)) + 1 = lo + length xs"
proof (induction xs rule: rev_induct)
  case (snoc x xs)
  then show ?case by (simp add: rows_of_append rows_of_Cons)
qed simp

lemma keys_rows_of: "(k, v) \<in> set (rows_of lo xs) \<Longrightarrow> lo \<le> k \<and> k < lo + length xs"
  by (auto simp: rows_of_def dest!: set_zip_leftD)

lemma row_insert_end: "(\<And>j w. (j, w) \<in> set rows \<Longrightarrow> j < k) \<Longrightarrow> row_insert k v rows = rows @ [(k, v)]"
proof (induction rows)
  case (Cons row rows)
  then show ?case by (cases row) (auto, fastforce)
qed simp

lemma insert_rows:
  "fold (\<lambda>(seq, share). row_insert seq (pack share)) (zip [lo + length xs ..< lo + length xs + length ys] ys)
     (rows_of lo xs) = rows_of lo (xs @ ys)"
proof (induction ys arbitrary: xs)
  case (Cons y ys)
  have "row_insert (lo + length xs) (pack y) (rows_of lo xs) = rows_of lo (xs @ [y])"
    by (subst row_insert_end) (auto dest: keys_rows_of simp: rows_of_append rows_of_Cons)
  with Cons.IH [of "xs @ [y]"] show ?case
    by (simp add: upt_rec [of "lo + length xs"] del: upt_Suc)
qed simp

lemma row_remove_first: "row_remove lo (rows_of lo (x # xs)) = rows_of (Suc lo) xs"
  by (auto simp: row_remove_def rows_of_Cons filter_id_conv dest: keys_rows_of)

lemma remove_oldest:
  "n \<le> length xs \<Longrightarrow> fold row_remove [lo ..< lo + n] (rows_of lo xs) = rows_of (lo + n) (drop n xs)"
proof (induction n arbitrary: lo xs)
  case (Suc n)
  then obtain x ys where xs: "xs = x # ys" by (cases xs) auto
  have "[lo ..< lo + Suc n] = lo # [Suc lo ..< Suc lo + n]" by (simp add: upt_rec [of lo] del: upt_Suc)
  then show ?case using Suc.IH [of ys "Suc lo"] Suc.prems xs by (simp add: row_remove_first del: upt_Suc)
qed simp

lemma oldest_rows_prefix:
  "\<exists>n. n \<le> length xs \<and> oldest_rows recent_from keep_after position (rows_of lo xs) = [lo ..< lo + n]"
proof (induction xs arbitrary: lo position)
  case (Cons x xs)
  obtain n where n: "n \<le> length xs"
    "oldest_rows recent_from keep_after (position + 1) (rows_of (Suc lo) xs) = [Suc lo ..< Suc lo + n]"
    using Cons.IH by blast
  show ?case
  proof (cases "recent_from \<le> position \<and>
      (case unpack_head (pack x) of None \<Rightarrow> False | Some h \<Rightarrow> keep_after \<le> rh_accepted_at h)")
    case True
    then show ?thesis by (intro exI [of _ 0]) (simp add: rows_of_Cons)
  next
    case False
    then have "oldest_rows recent_from keep_after position (rows_of lo (x # xs)) = lo # [Suc lo ..< Suc lo + n]"
      using n(2) by (simp only: rows_of_Cons oldest_rows.simps if_False)
    also have "\<dots> = [lo ..< lo + Suc n]" by (simp add: upt_rec [of lo] del: upt_Suc)
    finally show ?thesis using n(1) by (intro exI [of _ "Suc n"]) simp
  qed
qed simp

lemma take_rows_of: "take n (rows_of lo xs) = rows_of lo (take n xs)"
  by (simp add: rows_of_def take_zip take_map) (simp add: take_upt min_def)

lemma unpack_rows:
  "\<forall>s \<in> set xs. wf_share s \<Longrightarrow> List.map_filter (\<lambda>(seq, v). unpack v) (rows_of lo xs) = xs"
  by (induction xs arbitrary: lo) (simp_all add: rows_of_Cons map_filter_simps unpack_pack)

section \<open>Lemmas: the window read back\<close>

definition scanned :: "nat \<Rightarrow> share list \<Rightarrow> share list \<Rightarrow> bool \<Rightarrow> window_scan" where
  "scanned lo ps zs capped =
     \<lparr>wn_work = min (total_of zs) (2 ^ 128 - 1), wn_counted = length zs,
      wn_start = (if zs = [] then None else Some (lo + length ps)), wn_skipped = 0, wn_capped = capped\<rparr>"

lemma scan_back_rows:
  assumes "\<forall>s \<in> set (ps @ zs). wf_share s" "window < 2 ^ 128"
  shows "\<exists>ps' zs' capped. ps @ zs = ps' @ zs' \<and>
    scan_back window m (rev (rows_of lo ps)) (scanned lo ps zs False) = scanned lo ps' zs' capped \<and>
    (ps' = [] \<or> window \<le> total_of zs' \<or> m \<le> length zs')"
  using assms
proof (induction ps arbitrary: zs rule: rev_induct)
  case Nil
  show ?case
    by (rule exI [of _ "[]"], rule exI [of _ zs]) (auto simp: scan_back.simps [of window m "[]"] scanned_def)
next
  case (snoc p ps)
  have reach: "window \<le> wn_work (scanned lo (ps @ [p]) zs False) \<longleftrightarrow> window \<le> total_of zs"
    using snoc.prems(2) by (auto simp: scanned_def)
  have counted: "wn_counted (scanned lo (ps @ [p]) zs False) = length zs" by (simp add: scanned_def)
  consider (reached) "window \<le> total_of zs" | (capped) "\<not> window \<le> total_of zs" "m \<le> length zs"
    | (row) "\<not> window \<le> total_of zs" "\<not> m \<le> length zs" by blast
  then show ?case
  proof cases
    case reached
    then show ?thesis using reach
      by (intro exI [of _ "ps @ [p]"] exI [of _ zs] exI [of _ False]) (simp add: scan_back.simps)
  next
    case capped
    then show ?thesis using reach counted
      by (intro exI [of _ "ps @ [p]"] exI [of _ zs] exI [of _ True]) (simp add: scan_back.simps scanned_def)
  next
    case row
    have p: "unpack_head (pack p) = Some \<lparr>rh_accepted_at = sh_accepted_at p, rh_difficulty = sh_difficulty p,
        rh_block_hash = sh_block_hash p\<rparr>" using snoc.prems(1) by (simp add: unpack_pack)
    have rows: "rev (rows_of lo (ps @ [p])) = (lo + length ps, pack p) # rev (rows_of lo ps)"
      by (simp add: rows_of_append rows_of_Cons)
    have sum: "min (min (total_of zs) (2 ^ 128 - 1) + sh_difficulty p) (2 ^ 128 - 1) =
        min (total_of (p # zs)) (2 ^ 128 - 1 :: nat)" by (simp add: min_def)
    have next_state: "(scanned lo (ps @ [p]) zs False)\<lparr>wn_work := min (wn_work (scanned lo (ps @ [p]) zs False) + sh_difficulty p) (2 ^ 128 - 1),
        wn_counted := wn_counted (scanned lo (ps @ [p]) zs False) + 1, wn_start := Some (lo + length ps)\<rparr> =
        scanned lo ps (p # zs) False"
      using sum by (simp add: scanned_def)
    have "scan_back window m (rev (rows_of lo (ps @ [p]))) (scanned lo (ps @ [p]) zs False) =
        scan_back window m (rev (rows_of lo ps)) (scanned lo ps (p # zs) False)"
      unfolding rows by (subst scan_back.simps) (simp add: reach counted row p next_state [simplified counted, simplified])
    moreover have "\<forall>s \<in> set (ps @ p # zs). wf_share s" using snoc.prems(1) by simp
    ultimately show ?thesis using snoc.IH [of "p # zs"] snoc.prems(2) by simp
  qed
qed

lemma read_window_reaching:
  assumes wf: "\<forall>s \<in> set xs. wf_share s" and window: "window < 2 ^ 128" and rows: "tb_shares t = rows_of lo xs"
  shows "reaching window m xs (fst (read_window t window m))"
proof -
  obtain ps zs capped where split: "xs = ps @ zs" and
    scan: "scan_back window m (rev (rows_of lo xs)) (scanned lo xs [] False) = scanned lo ps zs capped" and
    cut: "ps = [] \<or> window \<le> total_of zs \<or> m \<le> length zs"
    using scan_back_rows [of xs "[]" window m lo] wf window by auto
  have "filter (\<lambda>(seq, v). lo + length ps \<le> seq) (rows_of lo ps) = []"
    by (auto simp: filter_empty_conv dest: keys_rows_of)
  moreover have "filter (\<lambda>(seq, v). lo + length ps \<le> seq) (rows_of (lo + length ps) zs) = rows_of (lo + length ps) zs"
    by (auto simp: filter_id_conv dest: keys_rows_of)
  ultimately have from_start: "filter (\<lambda>(seq, v). lo + length ps \<le> seq) (rows_of lo xs) = rows_of (lo + length ps) zs"
    by (simp add: split rows_of_append)
  have start: "scanned lo xs [] False =
      \<lparr>wn_work = 0, wn_counted = 0, wn_start = None, wn_skipped = 0, wn_capped = False\<rparr>"
    by (simp add: scanned_def)
  have "fst (read_window t window m) = zs"
    using scan unfolding read_window_def rows start
    using from_start unpack_rows [of zs "lo + length ps"] wf split
    by (simp add: scanned_def Let_def)
  with split cut show ?thesis by (auto simp: reaching_def)
qed

lemma trim_read_window:
  assumes "\<forall>s \<in> set xs. wf_share s" "window < 2 ^ 128" "tb_shares t = rows_of lo xs" "0 < window"
  shows "trim_shares window m (fst (read_window t window m)) = trim_shares window m xs"
  using assms(1,4) by (intro trim_reaching read_window_reaching [OF assms(1-3)]) (auto simp: wf_share_def)

end
