(* ===== verification/Claims.thy ===== *)
theory Claims
  imports Verify_Jobs
begin

text \<open>
  The hashes of the accepted shares (\<^verbatim>\<open>prime/src/accounting.rs\<close>, \<open>AcceptedShareHashes\<close> and \<open>claim\<close>),
  which make a share credited once however many connections send it.  The hash map is a map and the
  deque a list, oldest first; times are seconds, with the saturating sums of 64 bits written out.
\<close>

definition SECS_PER_MINUTE :: nat where "SECS_PER_MINUTE = 60"
definition CLOCK_STEP_MARGIN_SECS :: nat where "CLOCK_STEP_MARGIN_SECS = 10 * SECS_PER_MINUTE"
definition ACCEPTED_HASH_RETENTION_SECS :: nat where
  "ACCEPTED_HASH_RETENTION_SECS = 2 * NTIME_WINDOW_SECS + CLOCK_STEP_MARGIN_SECS"
definition MAX_ACCEPTED_HASHES :: nat where "MAX_ACCEPTED_HASHES = 2 ^ 20"

lemmas retention_consts = SECS_PER_MINUTE_def CLOCK_STEP_MARGIN_SECS_def ACCEPTED_HASH_RETENTION_SECS_def
  NTIME_WINDOW_SECS_def SECS_PER_HOUR_def

record accepted_hashes =
  ah_accepted_at :: "bytes \<Rightarrow> nat option"
  ah_order :: "(nat \<times> bytes) list"
  ah_capacity :: nat
  ah_warned_capped :: bool

definition hashes_new :: "nat \<Rightarrow> accepted_hashes" where
  "hashes_new capacity =
     \<lparr>ah_accepted_at = (\<lambda>_. None), ah_order = [], ah_capacity = max capacity 1, ah_warned_capped = False\<rparr>"

definition hashes_forget :: "nat \<times> bytes \<Rightarrow> accepted_hashes \<Rightarrow> bool \<times> accepted_hashes" where
  "hashes_forget entry h =
     (if ah_accepted_at h (snd entry) = Some (fst entry)
      then (True, h\<lparr>ah_accepted_at := (ah_accepted_at h)(snd entry := None)\<rparr>)
      else (False, h))"

text \<open>The loops that pop the front of the order while it is expired, and while the order is full.\<close>

function hashes_expire :: "nat \<Rightarrow> accepted_hashes \<Rightarrow> accepted_hashes" where
  "hashes_expire now h =
     (case ah_order h of
        [] \<Rightarrow> h
      | (t, hash) # rest \<Rightarrow>
          if now \<le> sat64 t ACCEPTED_HASH_RETENTION_SECS then h
          else hashes_expire now (snd (hashes_forget (t, hash) (h\<lparr>ah_order := rest\<rparr>))))"
  by pat_completeness auto
termination
  by (relation "measure (\<lambda>(now, h). length (ah_order h))") (auto simp: hashes_forget_def)

function drop_full :: "bool \<Rightarrow> accepted_hashes \<Rightarrow> bool \<times> accepted_hashes" where
  "drop_full forgot h =
     (case ah_order h of
        [] \<Rightarrow> (forgot, h)
      | oldest # rest \<Rightarrow>
          if length (ah_order h) < ah_capacity h then (forgot, h)
          else let (f, h) = hashes_forget oldest (h\<lparr>ah_order := rest\<rparr>) in drop_full (forgot \<or> f) h)"
  by pat_completeness auto
termination
proof (relation "measure (\<lambda>(f, h). length (ah_order h))", goal_cases)
  case (2 forgot h oldest rest hf f h')
  then show ?case by (auto simp: hashes_forget_def split: if_splits)
qed simp

declare hashes_expire.simps [simp del] drop_full.simps [simp del]

definition hashes_hold :: "bytes \<Rightarrow> nat \<Rightarrow> nat \<Rightarrow> accepted_hashes \<Rightarrow> bool \<times> accepted_hashes" where
  "hashes_hold hash t now h =
     (let h = hashes_expire now h in
      if ah_accepted_at h hash \<noteq> None then (False, h)
      else
        let (forgot_early, h) = drop_full False h;
            h = (if forgot_early \<and> \<not> ah_warned_capped h then h\<lparr>ah_warned_capped := True\<rparr> else h)
        in (True, h\<lparr>ah_accepted_at := (ah_accepted_at h)(hash \<mapsto> t), ah_order := ah_order h @ [(t, hash)]\<rparr>))"

definition hashes_insert :: "bytes \<Rightarrow> nat \<Rightarrow> accepted_hashes \<Rightarrow> bool \<times> accepted_hashes" where
  "hashes_insert hash now h = hashes_hold hash now now h"

definition hashes_restore :: "bytes \<Rightarrow> nat \<Rightarrow> nat \<Rightarrow> accepted_hashes \<Rightarrow> bool \<times> accepted_hashes" where
  "hashes_restore hash t now h = hashes_hold hash t now h"

definition hashes_remove :: "bytes \<Rightarrow> accepted_hashes \<Rightarrow> bool \<times> accepted_hashes" where
  "hashes_remove hash h =
     (ah_accepted_at h hash \<noteq> None, h\<lparr>ah_accepted_at := (ah_accepted_at h)(hash := None)\<rparr>)"

definition claim :: "rebuilt_share \<Rightarrow> nat \<Rightarrow> accepted_hashes \<Rightarrow> (refusal + rebuilt_share) \<times> accepted_hashes" where
  "claim rebuilt now h =
     (let (inserted, h) = hashes_insert (rb_block_hash rebuilt) now h in
      (if inserted then Inr rebuilt
       else Inl \<lparr>rf_reason = DuplicateWork, rf_rebuilt = Some rebuilt\<rparr>, h))"

section \<open>A claimed hash stays claimed\<close>

text \<open>The hash is held under the time of an entry with at most \<open>n\<close> entries after it, and no other
  entry of the order names it at that time.\<close>

definition held_with :: "bytes \<Rightarrow> nat \<Rightarrow> nat \<Rightarrow> accepted_hashes \<Rightarrow> bool" where
  "held_with hash t n h \<longleftrightarrow> ah_accepted_at h hash = Some t \<and>
     (\<exists>before after. ah_order h = before @ (t, hash) # after \<and> (t, hash) \<notin> set before \<and> length after \<le> n)"

lemma held_with_forget:
  assumes "held_with hash t n h" "ah_order h = oldest # rest" "oldest \<noteq> (t, hash)"
  shows "held_with hash t n (snd (hashes_forget oldest (h\<lparr>ah_order := rest\<rparr>)))"
proof -
  obtain before after where o: "ah_order h = before @ (t, hash) # after" "(t, hash) \<notin> set before" "length after \<le> n"
    and m: "ah_accepted_at h hash = Some t" using assms(1) by (auto simp: held_with_def)
  obtain b where "before = oldest # b" using o(1) assms(2,3) by (cases before) auto
  then have "rest = b @ (t, hash) # after" "(t, hash) \<notin> set b" using o assms(2) by auto
  moreover have "snd oldest = hash \<Longrightarrow> fst oldest \<noteq> t" using assms(3) by (metis prod.collapse)
  ultimately show ?thesis using m o(3) by (auto simp: held_with_def hashes_forget_def)
qed

lemma held_with_expire:
  "held_with hash t n h \<Longrightarrow> now \<le> sat64 t ACCEPTED_HASH_RETENTION_SECS \<Longrightarrow> held_with hash t n (hashes_expire now h)"
proof (induction now h rule: hashes_expire.induct)
  case (1 now h)
  show ?case
  proof (cases "ah_order h")
    case Nil
    then show ?thesis using 1(2) by (simp add: hashes_expire.simps [of now h])
  next
    case (Cons entry rest)
    obtain t' hash' where e: "entry = (t', hash')" by fastforce
    show ?thesis
    proof (cases "now \<le> sat64 t' ACCEPTED_HASH_RETENTION_SECS")
      case True
      then show ?thesis using 1(2) Cons e by (simp add: hashes_expire.simps [of now h])
    next
      case False
      then have "entry \<noteq> (t, hash)" using 1(3) e by auto
      from held_with_forget [OF 1(2) Cons this] 1(1) [OF Cons e [symmetric] False] 1(3)
      show ?thesis using Cons e False by (simp add: hashes_expire.simps [of now h])
    qed
  qed
qed

lemma held_with_drop_full:
  "held_with hash t n h \<Longrightarrow> Suc n < ah_capacity h \<Longrightarrow> held_with hash t n (snd (drop_full forgot h))"
proof (induction forgot h rule: drop_full.induct)
  case (1 forgot h)
  show ?case
  proof (cases "ah_order h")
    case Nil
    then show ?thesis using 1(2) by (simp add: drop_full.simps [of forgot h])
  next
    case (Cons oldest rest)
    show ?thesis
    proof (cases "length (ah_order h) < ah_capacity h")
      case True
      then show ?thesis using 1(2) Cons by (simp add: drop_full.simps [of forgot h])
    next
      case False
      obtain before after where o: "ah_order h = before @ (t, hash) # after" "(t, hash) \<notin> set before" "length after \<le> n"
        using 1(2) by (auto simp: held_with_def)
      have ne: "oldest \<noteq> (t, hash)"
      proof
        assume "oldest = (t, hash)"
        then have "before = []" using o(1,2) Cons by (cases before) auto
        then show False using o(1,3) False 1(3) by simp
      qed
      obtain f h1 where f: "hashes_forget oldest (h\<lparr>ah_order := rest\<rparr>) = (f, h1)" by fastforce
      have held: "held_with hash t n h1" using held_with_forget [OF 1(2) Cons ne] f by simp
      have "ah_capacity h1 = ah_capacity h" using f by (auto simp: hashes_forget_def split: if_splits)
      then have "held_with hash t n (snd (drop_full (forgot \<or> f) h1))"
        using 1(1) [OF Cons False f [symmetric] refl held] 1(3) by simp
      then show ?thesis using Cons False f by (simp add: drop_full.simps [of forgot h])
    qed
  qed
qed

lemma forget_sel [simp]:
  "ah_capacity (snd (hashes_forget e h)) = ah_capacity h" "ah_order (snd (hashes_forget e h)) = ah_order h"
  by (simp_all add: hashes_forget_def)

lemma expire_sel:
  "ah_capacity (hashes_expire now h) = ah_capacity h \<and> (\<exists>k. ah_order (hashes_expire now h) = drop k (ah_order h))"
proof (induction "ah_order h" arbitrary: h)
  case Nil
  then show ?case by (simp add: hashes_expire.simps [of now h])
next
  case (Cons e rest)
  let ?h = "snd (hashes_forget e (h\<lparr>ah_order := rest\<rparr>))"
  obtain k where "ah_capacity (hashes_expire now ?h) = ah_capacity ?h" "ah_order (hashes_expire now ?h) = drop k rest"
    using Cons(1) [of ?h] by auto
  then show ?case
    using Cons(2) [symmetric]
    by (cases e) (auto simp: hashes_expire.simps [of now h] intro: exI [of _ 0] exI [of _ "Suc k"])
qed

lemma drop_full_sel:
  "ah_capacity (snd (drop_full f h)) = ah_capacity h \<and> (\<exists>k. ah_order (snd (drop_full f h)) = drop k (ah_order h))"
proof (induction "ah_order h" arbitrary: h f)
  case Nil
  then show ?case by (simp add: drop_full.simps [of f h])
next
  case (Cons e rest)
  let ?r = "hashes_forget e (h\<lparr>ah_order := rest\<rparr>)"
  obtain k where "ah_capacity (snd (drop_full (f \<or> fst ?r) (snd ?r))) = ah_capacity h"
    "ah_order (snd (drop_full (f \<or> fst ?r) (snd ?r))) = drop k rest"
    using Cons(1) [of "snd ?r"] by auto
  then show ?case
    using Cons(2) [symmetric]
    by (auto simp: drop_full.simps [of f h] split_beta Let_def intro: exI [of _ 0] exI [of _ "Suc k"])
qed

lemma held_after_hold:
  assumes held: "held_with hash t n h" and now: "now \<le> sat64 t ACCEPTED_HASH_RETENTION_SECS"
    and room: "Suc n < ah_capacity h"
  shows "held_with hash t (Suc n) (snd (hashes_hold other t' now h))"
    and "fst (hashes_hold hash t' now h) = False"
proof -
  let ?e = "hashes_expire now h"
  have e: "held_with hash t n ?e" by (rule held_with_expire [OF held now])
  then show "fst (hashes_hold hash t' now h) = False" by (simp add: hashes_hold_def held_with_def)
  obtain f d where d: "drop_full False ?e = (f, d)" by fastforce
  have held_d: "held_with hash t n d"
    using held_with_drop_full [OF e, of False] room d expire_sel [of now h] by simp
  have weaken: "held_with hash t n g \<Longrightarrow> held_with hash t (Suc n) g" for g
    by (auto simp: held_with_def intro: le_SucI)
  show "held_with hash t (Suc n) (snd (hashes_hold other t' now h))"
  proof (cases "ah_accepted_at ?e other = None")
    case True
    obtain before after where o: "ah_order d = before @ (t, hash) # after" "(t, hash) \<notin> set before" "length after \<le> n"
      and m: "ah_accepted_at d hash = Some t" using held_d by (auto simp: held_with_def)
    have ne: "other \<noteq> hash" using e True by (auto simp: held_with_def)
    let ?g = "if f \<and> \<not> ah_warned_capped d then d\<lparr>ah_warned_capped := True\<rparr> else d"
    have hold: "snd (hashes_hold other t' now h) =
        ?g\<lparr>ah_accepted_at := (ah_accepted_at ?g)(other \<mapsto> t'), ah_order := ah_order ?g @ [(t', other)]\<rparr>"
      using True d by (simp add: hashes_hold_def)
    have "ah_order (snd (hashes_hold other t' now h)) = before @ (t, hash) # (after @ [(t', other)])"
      "ah_accepted_at (snd (hashes_hold other t' now h)) hash = Some t"
      unfolding hold using o(1) m ne by simp_all
    then show ?thesis using o(2,3) unfolding held_with_def by fastforce
  next
    case False
    then show ?thesis using weaken [OF e] by (simp add: hashes_hold_def)
  qed
qed

text \<open>What the pool does with the hashes after a share was accepted: claims of other shares, shares
  whose claim a failed record releases, and a restart's hashes are added as claims are.\<close>

datatype hash_op = Op_Hold bytes nat nat | Op_Remove bytes

fun run_hash_op :: "hash_op \<Rightarrow> accepted_hashes \<Rightarrow> accepted_hashes" where
  "run_hash_op (Op_Hold hash t now) h = snd (hashes_hold hash t now h)"
| "run_hash_op (Op_Remove hash) h = snd (hashes_remove hash h)"

fun op_spares :: "bytes \<Rightarrow> nat \<Rightarrow> hash_op \<Rightarrow> bool" where
  "op_spares hash until (Op_Hold _ _ now) \<longleftrightarrow> now \<le> until"
| "op_spares hash until (Op_Remove other) \<longleftrightarrow> other \<noteq> hash"

lemma op_capacity [simp]: "ah_capacity (run_hash_op op h) = ah_capacity h"
  using expire_sel drop_full_sel
  by (cases op) (auto simp: hashes_hold_def hashes_remove_def Let_def split_beta)

lemma ops_capacity: "ah_capacity (fold run_hash_op ops h) = ah_capacity h"
  by (induction ops arbitrary: h) simp_all

lemma held_through:
  assumes "held_with hash t n h" "list_all (op_spares hash (sat64 t ACCEPTED_HASH_RETENTION_SECS)) ops"
    "n + length ops < ah_capacity h"
  shows "held_with hash t (n + length ops) (fold run_hash_op ops h)"
  using assms
proof (induction ops arbitrary: n h)
  case (Cons op ops)
  have "held_with hash t (Suc n) (run_hash_op op h)"
  proof (cases op)
    case (Op_Hold other t' now)
    then show ?thesis using Cons.prems held_after_hold(1) [OF Cons.prems(1)] by simp
  next
    case (Op_Remove other)
    then show ?thesis using Cons.prems by (auto simp: held_with_def hashes_remove_def intro: le_SucI)
  qed
  from Cons.IH [OF this] Cons.prems show ?case by simp
qed simp

lemma held_after_insert:
  assumes "fst (hashes_hold hash t now h)" "(t, hash) \<notin> set (ah_order h)"
  shows "held_with hash t 0 (snd (hashes_hold hash t now h))"
proof -
  let ?e = "hashes_expire now h"
  obtain f d where d: "drop_full False ?e = (f, d)" by fastforce
  obtain j k where "ah_order d = drop k (drop j (ah_order h))"
    using expire_sel [of now h] drop_full_sel [of False ?e] d by auto
  then have "(t, hash) \<notin> set (ah_order d)" using assms(2) by (auto dest: in_set_dropD)
  then show ?thesis using assms(1) d by (auto simp: hashes_hold_def held_with_def Let_def split: if_splits)
qed

lemma accepted_time:
  assumes "verify sha blake s abw now v = Some (Inr r, v')"
  shows "unat (block_time s) \<le> now + 7200 \<and> now \<le> unat (block_time s) + 7200"
  using assms
proof (rule verify_Inr)
  fix r0 assume "check_rebuilt s r0 now (meets_share_target s r0) v = Some (Inr (), v')"
  from check_rebuilt_Some(2) [OF this refl] have "check_share v' s r0 now = Inr ()" by blast
  with check_share_Inr check_username_Inr show ?thesis by blast
qed

text \<open>C16: a share is credited once.  A share accepted and claimed at \<open>first\<close> is refused as duplicate
  work when it is accepted again at \<open>again\<close>, on this connection or another, after any claims,
  releases and restored hashes in between, as long as fewer hashes than the pool holds came in
  between and the clock had not run more than ten minutes ahead of the second acceptance.\<close>

theorem share_credited_once:
  assumes first: "verify sha blake s abw first v = Some (Inr r, v')"
    and claimed: "claim r first h = (Inr r1, h1)" "(first, rb_block_hash r) \<notin> set (ah_order h)"
    and between: "list_all (op_spares (rb_block_hash r) (again + 600)) ops" "length ops < ah_capacity h - 1"
    and again: "verify sha blake s' abw' again w = Some (Inr r', w')"
    and same: "block_time s' = block_time s" "rb_block_hash r' = rb_block_hash r" and clock: "first + 15000 < 2 ^ 64"
  shows "fst (claim r' again (fold run_hash_op ops h1)) = Inl \<lparr>rf_reason = DuplicateWork, rf_rebuilt = Some r'\<rparr>"
proof -
  let ?hash = "rb_block_hash r"
  have until: "sat64 first ACCEPTED_HASH_RETENTION_SECS = first + 15000"
    using clock by (simp add: sat64_def retention_consts)
  have late: "again + 600 \<le> first + 15000"
    using accepted_time [OF first] accepted_time [OF again] unfolding same(1) by linarith
  have ins: "fst (hashes_hold ?hash first first h)" "h1 = snd (hashes_hold ?hash first first h)"
    using claimed(1) by (auto simp: claim_def hashes_insert_def split_beta Let_def split: if_splits)
  have held: "held_with ?hash first 0 h1" using held_after_insert [OF ins(1) claimed(2)] ins(2) by simp
  have cap: "ah_capacity h1 = ah_capacity h"
    using op_capacity [of "Op_Hold ?hash first first" h] ins(2) by simp
  have "op_spares ?hash (again + 600) op \<Longrightarrow> op_spares ?hash (first + 15000) op" for op
    using late by (cases op) auto
  then have ops: "list_all (op_spares ?hash (sat64 first ACCEPTED_HASH_RETENTION_SECS)) ops"
    using between(1) unfolding until by (auto simp: list_all_iff)
  have room: "0 + length ops < ah_capacity h1" "Suc (0 + length ops) < ah_capacity (fold run_hash_op ops h1)"
    using between(2) cap by (auto simp: ops_capacity)
  have "fst (hashes_hold ?hash again again (fold run_hash_op ops h1)) = False"
    by (rule held_after_hold(2) [OF held_through [OF held ops room(1)] _ room(2)]) (use late until in simp)
  then show ?thesis by (simp add: claim_def hashes_insert_def same(2) split_beta Let_def)
qed

lemma share_credited_once_witness:
  "\<exists>r v' h1. verify any_hash no_hash sample_share None 9 (verifier_new sample_policy) = Some (Inr r, v') \<and>
     claim r 9 (hashes_new MAX_ACCEPTED_HASHES) = (Inr r, h1) \<and>
     fst (claim r 9 (fold run_hash_op [Op_Hold [1] 30 30] h1)) =
       Inl \<lparr>rf_reason = DuplicateWork, rf_rebuilt = Some r\<rparr>"
proof -
  obtain r v' where v': "verify any_hash no_hash sample_share None 9 (verifier_new sample_policy) = Some (Inr r, v')"
    using sample_share_accepted by blast
  obtain h1 where h1: "claim r 9 (hashes_new MAX_ACCEPTED_HASHES) = (Inr r, h1)"
    by (simp add: claim_def hashes_insert_def hashes_hold_def hashes_new_def hashes_expire.simps drop_full.simps)
  have "fst (claim r 9 (fold run_hash_op [Op_Hold [1] 30 30] h1)) = Inl \<lparr>rf_reason = DuplicateWork, rf_rebuilt = Some r\<rparr>"
    by (rule share_credited_once [OF v' h1 _ _ _ v']) (simp_all add: hashes_new_def MAX_ACCEPTED_HASHES_def)
  with v' h1 show ?thesis by blast
qed

end
