(* ===== verification/Ledger.thy ===== *)
theory Ledger
  imports Store Claims Complex_Main
begin

text \<open>
  The ledger (\<^verbatim>\<open>prime/src/ledger.rs\<close>): the share window in memory, the share rows on disk and what
  keeps the two in step: recording a batch, sizing the window, re-reading the file after a widening
  and reading it back at startup.

  \<open>None\<close> is a panic (an \<open>expect\<close> or an index in \<open>Contents\<close>), \<open>Inl\<close> the error the code returns with
  the ledger left as it was.  An \<open>f64\<close> is a finite rational, an infinity or a NaN; its product is the
  argument \<open>fmul\<close>, whose rounding no statement here depends on.  The cumulative work wraps at 128 bits.
  A re-read runs without the lock, so its three parts are separate operations and the runs of
  \<open>ledger_run\<close> interleave them with the rest.
\<close>

section \<open>The state\<close>

datatype f64 = Finite rat | Infinite bool | NaN

record 'db ledger =
  lg_contents :: contents
  lg_window_rule :: f64
  lg_split_policy :: split_policy
  lg_window :: nat
  lg_store :: "'db store option"
  lg_cumulative_work :: nat
  lg_max_shares :: nat
  lg_count_capped :: bool
  lg_network_difficulty :: "f64 option"
  lg_reread_due :: bool
  lg_recorded_during_reread :: "share list option"

record reread =
  rr_snapshot :: tables
  rr_window :: nat
  rr_max_shares :: nat

text \<open>\<open>w as u128\<close> truncates and saturates.\<close>

definition window_for :: "(f64 \<Rightarrow> f64 \<Rightarrow> f64) \<Rightarrow> f64 \<Rightarrow> f64 \<Rightarrow> nat" where
  "window_for fmul multiple network_difficulty =
     (case fmul network_difficulty multiple of
        Finite w \<Rightarrow> if 1 \<le> w then min (nat \<lfloor>w\<rfloor>) (2 ^ 128 - 1) else 1
      | _ \<Rightarrow> 1)"

section \<open>The operations\<close>

definition ledger_new :: "(f64 \<Rightarrow> f64 \<Rightarrow> f64) \<Rightarrow> f64 \<Rightarrow> split_policy \<Rightarrow> 'db ledger" where
  "ledger_new fmul window_rule split_policy =
     \<lparr>lg_contents = empty_contents, lg_window_rule = window_rule, lg_split_policy = split_policy,
      lg_window = window_for fmul window_rule (Finite 1), lg_store = None, lg_cumulative_work = 0,
      lg_max_shares = MAX_SHARES, lg_count_capped = False, lg_network_difficulty = None,
      lg_reread_due = False, lg_recorded_during_reread = None\<rparr>"

definition ledger_len :: "'db ledger \<Rightarrow> nat" where
  "ledger_len L = length (co_shares (lg_contents L))"

definition is_count_capped :: "'db ledger \<Rightarrow> bool" where
  "is_count_capped L \<longleftrightarrow> lg_max_shares L \<le> ledger_len L \<and> co_total_work (lg_contents L) < lg_window L"

definition ledger_trim :: "'db ledger \<Rightarrow> 'db ledger option" where
  "ledger_trim L =
     Option.bind (trim_contents (lg_window L) (lg_max_shares L) (lg_contents L)) (\<lambda>c.
     let L = L\<lparr>lg_contents := c\<rparr> in Some (L\<lparr>lg_count_capped := is_count_capped L\<rparr>))"

text \<open>The loop \<open>record_batch\<close> and \<open>finish_reread\<close> share: each share is pushed and the window trimmed.\<close>

fun push_shares :: "share list \<Rightarrow> 'db ledger \<Rightarrow> 'db ledger option" where
  "push_shares [] L = Some L"
| "push_shares (s # shares) L =
     Option.bind (push (lg_contents L) s) (\<lambda>c.
     Option.bind (ledger_trim (L\<lparr>lg_contents := c\<rparr>)) (push_shares shares))"

text \<open>\<open>Contents::read\<close> of what \<open>read_window\<close> passes on.\<close>

definition window_read :: "tables \<Rightarrow> nat \<Rightarrow> nat \<Rightarrow> (contents \<times> read_back) option" where
  "window_read t window max_shares =
     (let (rows, rb) = read_window t window max_shares
      in map_option (\<lambda>c. (c, rb)) (read_contents window max_shares rows))"

definition ledger_load :: "'db redb \<Rightarrow> 'db store \<Rightarrow> 'db ledger \<Rightarrow> (io_error + read_back \<times> 'db ledger) option" where
  "ledger_load D st L =
     (case begin_read D (sr_db st) of
        Inl e \<Rightarrow> Some (Inl e)
      | Inr t \<Rightarrow>
          Option.bind (window_read t (lg_window L) (lg_max_shares L)) (\<lambda>(c, rb).
          Option.bind (ledger_trim (L\<lparr>lg_contents := c\<rparr>)) (\<lambda>L. Some (Inr (rb, L)))))"

definition attach :: "'db redb \<Rightarrow> 'db store \<Rightarrow> 'db ledger \<Rightarrow> (io_error + read_back \<times> 'db ledger) option" where
  "attach D st L =
     map_option (map_sum id (\<lambda>(rb, L).
       (rb\<lparr>rb_stamped := sr_stamped st\<rparr>,
        L\<lparr>lg_cumulative_work := sr_cumulative_work st, lg_store := Some st\<rparr>))) (ledger_load D st L)"

definition set_window :: "nat \<Rightarrow> 'db ledger \<Rightarrow> (bool \<times> 'db ledger) option" where
  "set_window w L =
     (let w = max w 1;
          L = L\<lparr>lg_reread_due := lg_reread_due L \<or> (lg_window L < w \<and> lg_store L \<noteq> None),
                lg_window := w\<rparr>
      in map_option (\<lambda>L. (lg_reread_due L, L)) (ledger_trim L))"

definition set_network_difficulty ::
  "(f64 \<Rightarrow> f64 \<Rightarrow> f64) \<Rightarrow> f64 \<Rightarrow> 'db ledger \<Rightarrow> (bool \<times> 'db ledger) option" where
  "set_network_difficulty fmul nd L =
     set_window (window_for fmul (lg_window_rule L) nd) (L\<lparr>lg_network_difficulty := Some nd\<rparr>)"

definition begin_reread :: "'db redb \<Rightarrow> 'db ledger \<Rightarrow> reread option \<times> 'db ledger" where
  "begin_reread D L =
     (if \<not> lg_reread_due L \<or> lg_recorded_during_reread L \<noteq> None then (None, L)
      else case lg_store L of
        None \<Rightarrow> (None, L)
      | Some st \<Rightarrow>
          (case begin_read D (sr_db st) of
             Inl e \<Rightarrow> (None, L)
           | Inr snapshot \<Rightarrow>
               (Some \<lparr>rr_snapshot = snapshot, rr_window = lg_window L, rr_max_shares = lg_max_shares L\<rparr>,
                L\<lparr>lg_recorded_during_reread := Some []\<rparr>)))"

text \<open>The read itself may fail in redb at any row, so its outcome is \<open>Inl\<close> or this one.\<close>

definition reread_read :: "reread \<Rightarrow> (contents \<times> read_back) option" where
  "reread_read r = window_read (rr_snapshot r) (rr_window r) (rr_max_shares r)"

definition finish_reread ::
  "nat \<Rightarrow> io_error + (contents \<times> read_back) \<Rightarrow> 'db ledger \<Rightarrow> ((nat \<times> contents) \<times> 'db ledger) option" where
  "finish_reread window rd L =
     (let recorded = (case lg_recorded_during_reread L of None \<Rightarrow> [] | Some r \<Rightarrow> r);
          L = L\<lparr>lg_recorded_during_reread := None\<rparr>
      in case rd of
           Inl e \<Rightarrow> Some ((0, empty_contents), L)
         | Inr (c, rb) \<Rightarrow>
             let before = ledger_len L; replaced = lg_contents L;
                 L = L\<lparr>lg_contents := c, lg_reread_due := window < lg_window L\<rparr>
             in Option.bind (ledger_trim L) (\<lambda>L.
                Option.bind (push_shares recorded L) (\<lambda>L.
                Some ((ledger_len L - before, replaced), L))))"

text \<open>\<open>reread\<close> when the read succeeds and nothing comes between; \<open>ledger_run\<close> below interleaves.\<close>

definition ledger_reread :: "'db redb \<Rightarrow> 'db ledger \<Rightarrow> (nat \<times> 'db ledger) option" where
  "ledger_reread D L =
     (case begin_reread D L of
        (None, L) \<Rightarrow> Some (0, L)
      | (Some r, L) \<Rightarrow>
          Option.bind (reread_read r) (\<lambda>rd.
          Option.bind (finish_reread (rr_window r) (Inr rd) L) (\<lambda>((gained, _), L). Some (gained, L))))"

definition add_work :: "share list \<Rightarrow> nat \<Rightarrow> nat" where
  "add_work = fold (\<lambda>s work. (work + sh_difficulty s) mod 2 ^ 128)"

text \<open>What follows the commit: the window takes the shares, then retention runs unless a re-read does.\<close>

definition take_batch :: "'db redb \<Rightarrow> nat \<Rightarrow> share list \<Rightarrow> 'db ledger \<Rightarrow> (nat \<times> 'db ledger) option" where
  "take_batch D keep_after shares L =
     Option.bind (push_shares shares L) (\<lambda>L.
     case lg_recorded_during_reread L of
       Some recorded \<Rightarrow> Some (0, L\<lparr>lg_recorded_during_reread := Some (recorded @ shares)\<rparr>)
     | None \<Rightarrow>
         (case lg_store L of
            None \<Rightarrow> Some (0, L)
          | Some st \<Rightarrow>
              (case retain D (ledger_len L) keep_after MAX_ACCEPTED_HASHES st of
                 Inl e \<Rightarrow> Some (0, L)
               | Inr (removed, st) \<Rightarrow> Some (removed, L\<lparr>lg_store := Some st\<rparr>))))"

definition record_batch :: "'db redb \<Rightarrow> share list \<Rightarrow> 'db ledger \<Rightarrow> (io_error + nat \<times> 'db ledger) option" where
  "record_batch D shares L =
     (if shares = [] then Some (Inr (0, L))
      else
        let newest = Max (set (map sh_accepted_at shares));
            keep_after = newest - ACCEPTED_HASH_RETENTION_SECS;
            work = add_work shares (lg_cumulative_work L)
        in case lg_store L of
             None \<Rightarrow> map_option Inr (take_batch D keep_after shares (L\<lparr>lg_cumulative_work := work\<rparr>))
           | Some st \<Rightarrow>
               (case insert_batch D shares work st of
                  Inl e \<Rightarrow> Some (Inl e)
                | Inr st \<Rightarrow> map_option Inr
                    (take_batch D keep_after shares (L\<lparr>lg_cumulative_work := work, lg_store := Some st\<rparr>))))"

text \<open>\<open>open_share_ledger\<close> with a path; the block records it opens beside the shares are apart.\<close>

definition open_share_ledger ::
  "'db redb \<Rightarrow> 'db option \<Rightarrow> nat option \<Rightarrow> bytes option \<Rightarrow> 'db ledger \<Rightarrow> (io_error + 'db ledger) option" where
  "open_share_ledger D path keep chain_name L =
     (case path of
        None \<Rightarrow> Some (Inr L)
      | Some d \<Rightarrow>
          (case store_open D d keep chain_name of
             Inl e \<Rightarrow> Some (Inl e)
           | Inr st \<Rightarrow> map_option (map_sum id snd) (attach D st L)))"

text \<open>What the hashrate reads: the newest shares, up to the first accepted before \<open>cutoff\<close>.\<close>

definition shares_since :: "nat \<Rightarrow> 'db ledger \<Rightarrow> window_share list" where
  "shares_since cutoff L = takeWhile (\<lambda>s. cutoff \<le> ws_accepted_at s) (rev (co_shares (lg_contents L)))"

definition work_since :: "nat \<Rightarrow> 'db ledger \<Rightarrow> nat" where
  "work_since cutoff L = sum_list (map ws_difficulty (shares_since cutoff L))"

text \<open>The code's map by index, an association list here in order of first appearance.\<close>

definition work_since_by_identity :: "nat \<Rightarrow> 'db ledger \<Rightarrow> (bytes \<times> nat) list option" where
  "work_since_by_identity cutoff L =
     (let by_index = fold (\<lambda>s m. AList.update (ws_credit s)
            ((case map_of m (ws_credit s) of None \<Rightarrow> 0 | Some w \<Rightarrow> w) + ws_difficulty s) m) (shares_since cutoff L) []
      in those (map (\<lambda>(i, work). map_option (\<lambda>n. (n, work))
           (identity_name (co_identities (lg_contents L)) i)) by_index))"

definition ledger_identities :: "'db ledger \<Rightarrow> (bytes \<times> identity_state) list" where
  "ledger_identities L =
     sort_by (\<lambda>(a, x) (b, y). most_work_first (a, is_work x) (b, is_work y))
       (iter_identities (co_identities (lg_contents L)))"


section \<open>Lemmas: the window in memory\<close>

lemma map_sum_Inr_iff: "map_sum f g x = Inr y \<longleftrightarrow> (\<exists>z. x = Inr z \<and> y = g z)"
  by (cases x) auto

lemma window_for_bounds: "0 < window_for fmul rule nd" "window_for fmul rule nd < 2 ^ 128"
  by (auto simp: window_for_def le_floor_iff less_floor_iff zero_less_nat_eq split: f64.split)

lemma ledger_trim_holds:
  assumes "holds (lg_max_shares L + 1) (lg_contents L) xs"
  shows "\<exists>c b. ledger_trim L = Some (L\<lparr>lg_contents := c, lg_count_capped := b\<rparr>) \<and>
    holds (lg_max_shares L + 1) c (trim_shares (lg_window L) (lg_max_shares L) xs)"
proof -
  obtain c where "trim_contents (lg_window L) (lg_max_shares L) (lg_contents L) = Some c"
    "holds (lg_max_shares L + 1) c (trim_shares (lg_window L) (lg_max_shares L) xs)"
    by (rule trim_holds [OF assms])
  then show ?thesis by (auto simp: ledger_trim_def Let_def)
qed

lemma push_shares_holds:
  assumes "holds (lg_max_shares L + 1) (lg_contents L) xs" "length xs \<le> lg_max_shares L" "lg_max_shares L < 2 ^ 32"
  shows "\<exists>c b. push_shares ss L = Some (L\<lparr>lg_contents := c, lg_count_capped := b\<rparr>) \<and>
    holds (lg_max_shares L + 1) c (window_after (lg_window L) (lg_max_shares L) xs ss)"
  using assms
proof (induction ss arbitrary: L xs)
  case Nil
  have "L = L\<lparr>lg_contents := lg_contents L, lg_count_capped := lg_count_capped L\<rparr>" by simp
  then show ?case using Nil(1) by (intro exI [of _ "lg_contents L"] exI [of _ "lg_count_capped L"]) simp
next
  case (Cons s ss)
  obtain c1 where c1: "push (lg_contents L) s = Some c1" "holds (lg_max_shares L + 1) c1 (xs @ [s])"
    by (rule push_holds [OF Cons.prems(1)]) (use Cons.prems in auto)
  obtain c2 b2 where c2: "ledger_trim (L\<lparr>lg_contents := c1\<rparr>) = Some (L\<lparr>lg_contents := c2, lg_count_capped := b2\<rparr>)"
    "holds (lg_max_shares L + 1) c2 (trim_shares (lg_window L) (lg_max_shares L) (xs @ [s]))"
    using ledger_trim_holds [of "L\<lparr>lg_contents := c1\<rparr>" "xs @ [s]"] c1(2) by auto
  show ?case
    using Cons.IH [of "L\<lparr>lg_contents := c2, lg_count_capped := b2\<rparr>"] c1(1) c2 Cons.prems(3) length_trim_shares
    by simp
qed

lemma window_read_holds:
  assumes "\<forall>s \<in> set ys. wf_share s" "tb_shares t = rows_of lo ys" "0 < window" "window < 2 ^ 128" "m < 2 ^ 32"
  shows "\<exists>c rb. window_read t window m = Some (c, rb) \<and> holds (m + 1) c (trim_shares window m ys)"
proof -
  obtain rows rb where rows: "read_window t window m = (rows, rb)" by fastforce
  then have "trim_shares window m rows = trim_shares window m ys"
    using trim_read_window [OF assms(1,4,2,3), of m] by simp
  then show ?thesis
    using read_rows_holds [OF empty_holds _ assms(5), of window rows] rows
    by (auto simp: window_read_def read_contents_def window_after_empty)
qed

section \<open>Lemmas: the rows on disk\<close>

definition store_holds :: "'db redb \<Rightarrow> 'db store \<Rightarrow> nat \<Rightarrow> share list \<Rightarrow> bool" where
  "store_holds D st lo ys \<longleftrightarrow>
     tb_shares (db_tables D (sr_db st)) = rows_of lo ys \<and> sr_next_seq st = lo + length ys \<and>
     (\<forall>s \<in> set ys. wf_share s)"

definition work_on_disk :: "'db redb \<Rightarrow> 'db \<Rightarrow> nat" where
  "work_on_disk D d = (case tb_cumulative_work (db_tables D d) of None \<Rightarrow> 0 | Some w \<Rightarrow> w)"

lemma insert_batch_holds:
  assumes D: "redb_ok D" and st: "store_holds D st lo ys" and bs: "\<forall>s \<in> set bs. wf_share s"
    and ins: "insert_batch D bs work st = Inr st'"
  shows "store_holds D st' lo (ys @ bs)" "sr_retain_bound st' = sr_retain_bound st"
    "work_on_disk D (sr_db st') = work"
proof -
  obtain d where d: "db_write D (sr_db st) ((db_tables D (sr_db st))\<lparr>tb_shares := rows_of lo (ys @ bs),
      tb_cumulative_work := Some work\<rparr>) = Some d"
    and st': "st' = st\<lparr>sr_db := d, sr_next_seq := sr_next_seq st + length bs\<rparr>"
    using ins st insert_rows [of lo ys bs]
    by (auto simp: insert_batch_def store_holds_def Let_def tryq_def ok_or_def split: option.splits)
  show "store_holds D st' lo (ys @ bs)" "sr_retain_bound st' = sr_retain_bound st"
    "work_on_disk D (sr_db st') = work"
    using st st' bs write_tables [OF D d] by (auto simp: store_holds_def work_on_disk_def)
qed

lemma retain_holds:
  assumes D: "redb_ok D" and st: "store_holds D st lo ys"
    and ret: "retain D least keep_after keep_newest st = Inr (n, st')"
  shows "store_holds D st' (lo + n) (drop n ys)" "n = 0 \<or> least \<le> length ys - n"
    "sr_retain_bound st' = sr_retain_bound st" "work_on_disk D (sr_db st') = work_on_disk D (sr_db st)"
    "sr_retain_bound st = None \<longrightarrow> n = 0"
proof -
  let ?t = "db_tables D (sr_db st)"
  have "st' = st \<and> n = 0 \<or> (\<exists>c k d. sr_retain_bound st = Some c \<and> k \<le> length ys - max c least \<and>
      k \<noteq> 0 \<and> n = k \<and> db_write D (sr_db st) (?t\<lparr>tb_shares := rows_of (lo + k) (drop k ys)\<rparr>) = Some d \<and>
      st' = st\<lparr>sr_db := d\<rparr>)"
  proof (cases "sr_retain_bound st")
    case None
    then show ?thesis using ret by (simp add: retain_def)
  next
    case (Some c)
    let ?surplus = "min (length ys - max c least) MAX_RETAINED_PER_CALL"
    obtain k where k: "k \<le> length (take ?surplus ys)"
      "oldest_rows (length ys - keep_newest) keep_after 0 (rows_of lo (take ?surplus ys)) = [lo ..< lo + k]"
      using oldest_rows_prefix by blast
    have "fold row_remove [lo ..< lo + k] (rows_of lo ys) = rows_of (lo + k) (drop k ys)"
      using k(1) by (intro remove_oldest) (simp add: min_def split: if_splits)
    then show ?thesis
      using ret Some st k
      by (auto simp: retain_def store_holds_def Let_def tryq_def ok_or_def take_rows_of begin_read_def
          split: option.splits sum.splits if_splits)
  qed
  then show "store_holds D st' (lo + n) (drop n ys)" "n = 0 \<or> least \<le> length ys - n"
    "sr_retain_bound st' = sr_retain_bound st" "work_on_disk D (sr_db st') = work_on_disk D (sr_db st)"
    "sr_retain_bound st = None \<longrightarrow> n = 0"
    using st by (auto simp: store_holds_def work_on_disk_def write_tables [OF D] dest: in_set_dropD)
qed

lemma store_open_holds:
  assumes D: "redb_ok D" and rows: "tb_shares (db_tables D d) = rows_of lo ys" "\<forall>s \<in> set ys. wf_share s"
    and op: "store_open D d keep chain = Inr st"
  shows "\<exists>lo. store_holds D st lo ys" "sr_retain_bound st = keep" "sr_cumulative_work st = work_on_disk D d"
    "work_on_disk D (sr_db st) = work_on_disk D d" "db_reads D (sr_db st)"
proof -
  obtain t stamped d' where
    stamp: "(case chain of None \<Rightarrow> Inr (db_tables D d, False)
       | Some chain \<Rightarrow> (case tb_chain (db_tables D d) of
           Some stored \<Rightarrow> if stored \<noteq> chain then Inl (WrongChain stored chain) else Inr (db_tables D d, False)
         | None \<Rightarrow> Inr ((db_tables D d)\<lparr>tb_chain := Some chain\<rparr>, tb_shares (db_tables D d) \<noteq> []))) = Inr (t, stamped)"
    and w: "db_write D d t = Some d'" and r: "db_reads D d'"
    and st: "st = \<lparr>sr_db = d', sr_next_seq = (if tb_shares (db_tables D d') = [] then 0
        else fst (last (tb_shares (db_tables D d'))) + 1), sr_retain_bound = keep,
      sr_cumulative_work = (case tb_cumulative_work t of None \<Rightarrow> 0 | Some w \<Rightarrow> w), sr_stamped = stamped\<rparr>"
    using op unfolding store_open_def Let_def tryq_Inr_iff
    by (clarsimp simp: tryq_Inr_iff begin_read_def split: if_splits)
  have t: "tb_shares t = tb_shares (db_tables D d)" "tb_cumulative_work t = tb_cumulative_work (db_tables D d)"
    using stamp by (auto split: option.splits if_splits)
  have t': "db_tables D d' = t" by (rule write_tables [OF D w])
  have "store_holds D st (if ys = [] then 0 else lo) ys"
    using t t' st rows last_rows_of [of ys lo] by (auto simp: store_holds_def)
  then show "\<exists>lo. store_holds D st lo ys" by blast
  show "sr_retain_bound st = keep" "sr_cumulative_work st = work_on_disk D d"
    "work_on_disk D (sr_db st) = work_on_disk D d" "db_reads D (sr_db st)"
    using t t' st r by (auto simp: work_on_disk_def)
qed

section \<open>Runs\<close>

text \<open>\<open>hs\<close> is every share committed so far, \<open>rr\<close> the re-read running without the lock.  A restart reads
  the file as the process left it; a crash, as it was left between a commit and the window's update.\<close>

inductive ledger_run for D :: "'db redb" and fmul rule policy keep chain where
  run_open: "tb_shares (db_tables D d) = [] \<Longrightarrow> tb_cumulative_work (db_tables D d) = None \<Longrightarrow>
    open_share_ledger D (Some d) keep chain (ledger_new fmul rule policy) = Some (Inr L) \<Longrightarrow>
    ledger_run D fmul rule policy keep chain L None []"
| run_batch: "ledger_run D fmul rule policy keep chain L rr hs \<Longrightarrow> \<forall>s \<in> set bs. wf_share s \<Longrightarrow>
    record_batch D bs L = Some (Inr (n, L')) \<Longrightarrow> ledger_run D fmul rule policy keep chain L' rr (hs @ bs)"
| run_difficulty: "ledger_run D fmul rule policy keep chain L rr hs \<Longrightarrow>
    set_network_difficulty fmul nd L = Some (due, L') \<Longrightarrow> ledger_run D fmul rule policy keep chain L' rr hs"
| run_begin: "ledger_run D fmul rule policy keep chain L rr hs \<Longrightarrow>
    begin_reread D L = (Some r, L') \<Longrightarrow> ledger_run D fmul rule policy keep chain L' (Some r) hs"
| run_finish: "ledger_run D fmul rule policy keep chain L (Some r) hs \<Longrightarrow> reread_read r = Some rd \<Longrightarrow>
    finish_reread (rr_window r) (Inr rd) L = Some (g, L') \<Longrightarrow> ledger_run D fmul rule policy keep chain L' None hs"
| run_fail: "ledger_run D fmul rule policy keep chain L (Some r) hs \<Longrightarrow>
    finish_reread (rr_window r) (Inl e) L = Some (g, L') \<Longrightarrow> ledger_run D fmul rule policy keep chain L' None hs"
| run_restart: "ledger_run D fmul rule policy keep chain L rr hs \<Longrightarrow> lg_store L = Some st \<Longrightarrow>
    open_share_ledger D (Some (sr_db st)) keep chain (ledger_new fmul rule policy) = Some (Inr L') \<Longrightarrow>
    ledger_run D fmul rule policy keep chain L' None hs"
| run_crash: "ledger_run D fmul rule policy keep chain L rr hs \<Longrightarrow> lg_store L = Some st \<Longrightarrow>
    \<forall>s \<in> set bs. wf_share s \<Longrightarrow>
    insert_batch D bs (add_work bs (lg_cumulative_work L)) st = Inr st' \<Longrightarrow>
    open_share_ledger D (Some (sr_db st')) keep chain (ledger_new fmul rule policy) = Some (Inr L') \<Longrightarrow>
    ledger_run D fmul rule policy keep chain L' None (hs @ bs)"

section \<open>The invariant\<close>

text \<open>The file, against the history: \<open>ys\<close> are the newest shares, all of them when nothing is retained away.\<close>

definition file_inv :: "'db redb \<Rightarrow> nat option \<Rightarrow> 'db store \<Rightarrow> nat \<Rightarrow> share list \<Rightarrow> share list \<Rightarrow> bool" where
  "file_inv D keep st lo ys hs \<longleftrightarrow>
     store_holds D st lo ys \<and> sr_retain_bound st = keep \<and> (\<exists>ps. hs = ps @ ys) \<and> (keep = None \<longrightarrow> ys = hs) \<and>
     work_on_disk D (sr_db st) = total_of hs mod 2 ^ 128"

text \<open>The window, against the file.\<close>

definition window_inv :: "'db ledger \<Rightarrow> share list \<Rightarrow> share list \<Rightarrow> bool" where
  "window_inv L ys cs \<longleftrightarrow>
     lg_max_shares L = MAX_SHARES \<and> 0 < lg_window L \<and> lg_window L < 2 ^ 128 \<and>
     holds (MAX_SHARES + 1) (lg_contents L) cs \<and> (\<exists>ps. ys = ps @ cs) \<and>
     cs = trim_shares (lg_window L) MAX_SHARES cs \<and>
     (\<not> lg_reread_due L \<longrightarrow> cs = trim_shares (lg_window L) MAX_SHARES ys)"

text \<open>A running re-read: its snapshot and the shares recorded since make up the file.\<close>

definition reread_inv :: "'db ledger \<Rightarrow> nat \<Rightarrow> share list \<Rightarrow> reread option \<Rightarrow> bool" where
  "reread_inv L lo ys rr \<longleftrightarrow>
     (case rr of
        None \<Rightarrow> lg_recorded_during_reread L = None
      | Some r \<Rightarrow> \<exists>old new. ys = old @ new \<and> lg_recorded_during_reread L = Some new \<and>
          tb_shares (rr_snapshot r) = rows_of lo old \<and> rr_max_shares r = MAX_SHARES \<and>
          0 < rr_window r \<and> rr_window r < 2 ^ 128)"

definition ledger_inv :: "'db redb \<Rightarrow> nat option \<Rightarrow> 'db ledger \<Rightarrow> reread option \<Rightarrow> share list \<Rightarrow> bool" where
  "ledger_inv D keep L rr hs \<longleftrightarrow>
     (\<exists>st lo ys cs. lg_store L = Some st \<and> lg_cumulative_work L = work_on_disk D (sr_db st) \<and>
        file_inv D keep st lo ys hs \<and> window_inv L ys cs \<and> reread_inv L lo ys rr)"

lemma ledger_invI:
  "lg_store L = Some st \<Longrightarrow> lg_cumulative_work L = work_on_disk D (sr_db st) \<Longrightarrow> file_inv D keep st lo ys hs \<Longrightarrow>
     window_inv L ys cs \<Longrightarrow> reread_inv L lo ys rr \<Longrightarrow> ledger_inv D keep L rr hs"
  unfolding ledger_inv_def by blast

lemma ledger_invE [elims]:
  assumes "ledger_inv D keep L rr hs"
  obtains st lo ys cs where "lg_store L = Some st" "lg_cumulative_work L = work_on_disk D (sr_db st)"
    "file_inv D keep st lo ys hs" "window_inv L ys cs" "reread_inv L lo ys rr"
  using assms unfolding ledger_inv_def by blast

lemma window_inv_update [simp]:
  "window_inv (L\<lparr>lg_cumulative_work := w\<rparr>) = window_inv L" "window_inv (L\<lparr>lg_store := st\<rparr>) = window_inv L"
  "window_inv (L\<lparr>lg_recorded_during_reread := r\<rparr>) = window_inv L"
  "window_inv (L\<lparr>lg_network_difficulty := nd\<rparr>) = window_inv L"
  by (simp_all add: fun_eq_iff window_inv_def)

lemma reread_inv_update [simp]:
  "reread_inv (L\<lparr>lg_cumulative_work := w\<rparr>) = reread_inv L" "reread_inv (L\<lparr>lg_store := st\<rparr>) = reread_inv L"
  "reread_inv (L\<lparr>lg_contents := c\<rparr>) = reread_inv L" "reread_inv (L\<lparr>lg_count_capped := b\<rparr>) = reread_inv L"
  by (simp_all add: fun_eq_iff reread_inv_def split: option.split)

lemma reread_inv_None: "reread_inv L lo ys None \<longleftrightarrow> lg_recorded_during_reread L = None"
  by (simp add: reread_inv_def)

lemma reread_inv_cong: "lg_recorded_during_reread L' = lg_recorded_during_reread L \<Longrightarrow> reread_inv L' = reread_inv L"
  by (simp add: fun_eq_iff reread_inv_def split: option.split)

lemma max_shares_bounds: "0 < MAX_SHARES" "MAX_SHARES < 2 ^ 32"
  by (simp_all add: MAX_SHARES_def)

lemma add_work_mod: "add_work bs (total_of hs mod 2 ^ 128) = total_of (hs @ bs) mod 2 ^ 128"
proof (induction bs arbitrary: hs)
  case (Cons b bs)
  from Cons.IH [of "hs @ [b]"] show ?case by (simp add: add_work_def mod_add_left_eq)
qed (simp add: add_work_def)

lemma window_push:
  assumes "window_inv L ys cs"
  shows "\<exists>c b cs'. push_shares bs L = Some (L\<lparr>lg_contents := c, lg_count_capped := b\<rparr>) \<and>
    window_inv (L\<lparr>lg_contents := c, lg_count_capped := b\<rparr>) (ys @ bs) cs'"
proof -
  let ?T = "trim_shares (lg_window L) MAX_SHARES"
  from assms have m: "lg_max_shares L = MAX_SHARES" and c: "holds (MAX_SHARES + 1) (lg_contents L) cs"
    and idem: "?T cs = cs" and fresh: "\<not> lg_reread_due L \<Longrightarrow> cs = ?T ys" by (simp_all add: window_inv_def)
  have cs: "window_after (lg_window L) MAX_SHARES cs bs = ?T (cs @ bs)"
    using window_after_trim [of "lg_window L" MAX_SHARES cs bs] idem by simp
  have "length cs \<le> MAX_SHARES" using length_trim_shares [of "lg_window L" MAX_SHARES cs] idem by simp
  then obtain c' b where push: "push_shares bs L = Some (L\<lparr>lg_contents := c', lg_count_capped := b\<rparr>)"
    and c': "holds (MAX_SHARES + 1) c' (?T (cs @ bs))"
    using push_shares_holds [of L cs bs] c m max_shares_bounds(2) cs by auto
  obtain ps qs where "ys = ps @ cs" "cs @ bs = qs @ ?T (cs @ bs)"
    using assms trim_shares_suffix [of "cs @ bs" "lg_window L" MAX_SHARES] unfolding window_inv_def by blast
  then have "\<exists>ps. ys @ bs = ps @ ?T (cs @ bs)" by (metis append.assoc)
  moreover have "?T (cs @ bs) = ?T (ys @ bs)" if "\<not> lg_reread_due L"
    using fresh [OF that] trim_shares_append [of "lg_window L" MAX_SHARES ys bs] by simp
  ultimately have "window_inv (L\<lparr>lg_contents := c', lg_count_capped := b\<rparr>) (ys @ bs) (?T (cs @ bs))"
    using assms c' by (simp add: window_inv_def)
  with push show ?thesis by blast
qed

lemma window_retain:
  assumes "window_inv L ys cs" "n = 0 \<or> length cs \<le> length ys - n"
  shows "window_inv L (drop n ys) cs"
proof (cases "n = 0")
  case False
  then have len: "length cs \<le> length (drop n ys)" using assms(2) by simp
  obtain ps where "ys = ps @ cs" using assms(1) by (auto simp: window_inv_def)
  moreover from this have "n \<le> length ps \<or> cs = []" using len by (cases cs) auto
  ultimately have "\<exists>qs. drop n ys = qs @ cs" by (intro exI [of _ "drop n ps"]) auto
  moreover have "cs = trim_shares (lg_window L) MAX_SHARES (drop n ys)" if "cs = trim_shares (lg_window L) MAX_SHARES ys"
    using trim_suffix [of "lg_window L" MAX_SHARES "take n ys" "drop n ys"] len that by simp
  ultimately show ?thesis using assms(1) by (auto simp: window_inv_def)
qed (use assms in simp)

lemma window_trimmed:
  assumes trim: "ledger_trim L = Some L'" and m: "lg_max_shares L = MAX_SHARES"
    and w: "0 < lg_window L" "lg_window L < 2 ^ 128" and c: "holds (MAX_SHARES + 1) (lg_contents L) xs"
    and ys: "ys = ps @ xs"
    and fresh: "\<not> lg_reread_due L \<Longrightarrow> trim_shares (lg_window L) MAX_SHARES xs = trim_shares (lg_window L) MAX_SHARES ys"
  shows "window_inv L' ys (trim_shares (lg_window L) MAX_SHARES xs)"
    "lg_store L' = lg_store L" "lg_cumulative_work L' = lg_cumulative_work L"
    "lg_recorded_during_reread L' = lg_recorded_during_reread L" "lg_window L' = lg_window L"
proof -
  let ?T = "trim_shares (lg_window L) MAX_SHARES"
  obtain c' b where L': "L' = L\<lparr>lg_contents := c', lg_count_capped := b\<rparr>"
    and c': "holds (MAX_SHARES + 1) c' (?T xs)"
    using ledger_trim_holds [of L xs] c m trim by auto
  obtain qs where "xs = qs @ ?T xs" using trim_shares_suffix by blast
  then have "\<exists>ps. ys = ps @ ?T xs" using ys by (metis append.assoc)
  then show "window_inv L' ys (?T xs)" using L' c' m w fresh by (simp add: window_inv_def)
  show "lg_store L' = lg_store L" "lg_cumulative_work L' = lg_cumulative_work L"
    "lg_recorded_during_reread L' = lg_recorded_during_reread L" "lg_window L' = lg_window L" using L' by simp_all
qed

lemma window_resize:
  assumes inv: "window_inv L ys cs" and w: "w < 2 ^ 128" and st: "lg_store L \<noteq> None"
    and op: "set_window w L = Some (due, L')"
  shows "\<exists>cs'. window_inv L' ys cs'" "lg_store L' = lg_store L" "lg_cumulative_work L' = lg_cumulative_work L"
    "lg_recorded_during_reread L' = lg_recorded_during_reread L"
proof -
  let ?L = "L\<lparr>lg_reread_due := lg_reread_due L \<or> (lg_window L < max w 1 \<and> lg_store L \<noteq> None), lg_window := max w 1\<rparr>"
  have trim: "ledger_trim ?L = Some L'" using op by (auto simp: set_window_def Let_def)
  obtain ps where ys: "ys = ps @ cs" using inv by (auto simp: window_inv_def)
  have m: "lg_max_shares ?L = MAX_SHARES" "0 < lg_window ?L" "lg_window ?L < 2 ^ 128"
    "holds (MAX_SHARES + 1) (lg_contents ?L) cs" using inv w by (simp_all add: window_inv_def)
  have "trim_shares (max w 1) MAX_SHARES cs = trim_shares (max w 1) MAX_SHARES ys" if "\<not> lg_reread_due ?L"
  proof -
    from that have le: "max w 1 \<le> lg_window L" and "\<not> lg_reread_due L" using st by auto
    then have "cs = trim_shares (lg_window L) MAX_SHARES ys" using inv unfolding window_inv_def by blast
    then show ?thesis using trim_shares_narrow [OF le] by simp
  qed
  then have fresh: "\<not> lg_reread_due ?L \<Longrightarrow>
      trim_shares (lg_window ?L) MAX_SHARES cs = trim_shares (lg_window ?L) MAX_SHARES ys" by simp
  note t = window_trimmed [OF trim m ys fresh]
  show "\<exists>cs'. window_inv L' ys cs'" using t(1) by blast
  show "lg_store L' = lg_store L" "lg_cumulative_work L' = lg_cumulative_work L"
    "lg_recorded_during_reread L' = lg_recorded_during_reread L" using t(2-4) by simp_all
qed

lemma window_finish:
  assumes inv: "window_inv L (old @ new) cs" and rec: "lg_recorded_during_reread L = Some new"
    and c: "holds (MAX_SHARES + 1) c (trim_shares window MAX_SHARES old)"
    and op: "finish_reread window (Inr (c, rb)) L = Some (g, L')"
  shows "\<exists>cs'. window_inv L' (old @ new) cs'" "lg_store L' = lg_store L"
    "lg_cumulative_work L' = lg_cumulative_work L" "lg_recorded_during_reread L' = None"
proof -
  let ?L = "L\<lparr>lg_recorded_during_reread := None, lg_contents := c, lg_reread_due := window < lg_window L\<rparr>"
  obtain L1 where trim: "ledger_trim ?L = Some L1" and push: "push_shares new L1 = Some L'"
    using op rec by (auto simp: finish_reread_def Let_def bind_eq_Some_conv)
  obtain ps where ps: "old = ps @ trim_shares window MAX_SHARES old" using trim_shares_suffix by blast
  have m: "lg_max_shares ?L = MAX_SHARES" "0 < lg_window ?L" "lg_window ?L < 2 ^ 128"
    "holds (MAX_SHARES + 1) (lg_contents ?L) (trim_shares window MAX_SHARES old)"
    using inv c by (simp_all add: window_inv_def)
  have fresh: "\<not> lg_reread_due ?L \<Longrightarrow> trim_shares (lg_window ?L) MAX_SHARES (trim_shares window MAX_SHARES old) =
      trim_shares (lg_window ?L) MAX_SHARES old"
    using trim_shares_narrow [of "lg_window L" window] by simp
  note t = window_trimmed [OF trim m ps fresh]
  from window_push [OF t(1), of new] push show "\<exists>cs'. window_inv L' (old @ new) cs'" "lg_store L' = lg_store L"
    "lg_cumulative_work L' = lg_cumulative_work L" "lg_recorded_during_reread L' = None" using t(2-4) by auto
qed

section \<open>Every run keeps the invariant\<close>

lemma open_inv:
  assumes D: "redb_ok D" and rows: "tb_shares (db_tables D d) = rows_of lo ys" "\<forall>s \<in> set ys. wf_share s"
    and hs: "hs = ps @ ys" "keep = None \<longrightarrow> ys = hs" "work_on_disk D d = total_of hs mod 2 ^ 128"
    and op: "open_share_ledger D (Some d) keep chain (ledger_new fmul rule policy) = Some (Inr L)"
  shows "ledger_inv D keep L None hs"
proof -
  let ?L = "ledger_new fmul rule policy :: 'a ledger"
  obtain st rb L1 where st: "store_open D d keep chain = Inr st" and load: "ledger_load D st ?L = Some (Inr (rb, L1))"
    and L: "L = L1\<lparr>lg_cumulative_work := sr_cumulative_work st, lg_store := Some st\<rparr>"
    using op by (auto simp: open_share_ledger_def attach_def map_sum_Inr_iff split: sum.splits)
  note so = store_open_holds [OF D rows st]
  obtain lo' where lo': "store_holds D st lo' ys" using so(1) by blast
  define W where "W = lg_window ?L"
  have W: "0 < W" "W < 2 ^ 128" and m: "lg_max_shares ?L = MAX_SHARES"
    unfolding W_def by (simp_all add: ledger_new_def window_for_bounds [simplified])
  obtain c rb' where read: "window_read (db_tables D (sr_db st)) W MAX_SHARES = Some (c, rb')"
    and c: "holds (MAX_SHARES + 1) c (trim_shares W MAX_SHARES ys)"
    using window_read_holds [OF rows(2) lo' [unfolded store_holds_def, THEN conjunct1] W max_shares_bounds(2)] by blast
  have trim: "ledger_trim (?L\<lparr>lg_contents := c\<rparr>) = Some L1"
    using load so(5) read m unfolding W_def
    by (auto simp: ledger_load_def begin_read_def bind_eq_Some_conv)
  obtain qs where qs: "ys = qs @ trim_shares W MAX_SHARES ys" using trim_shares_suffix by blast
  note t = window_trimmed [OF trim, of "trim_shares W MAX_SHARES ys" ys qs]
  have "window_inv L1 ys (trim_shares W MAX_SHARES (trim_shares W MAX_SHARES ys))"
    using t(1) m W c qs unfolding W_def by simp
  then have "window_inv L ys (trim_shares W MAX_SHARES ys)" using L by simp
  moreover have "reread_inv L lo' ys None"
    using t(4) m W c qs L unfolding W_def by (simp add: ledger_new_def reread_inv_None)
  moreover have "file_inv D keep st lo' ys hs" using lo' so(2-4) hs by (simp add: file_inv_def)
  ultimately show ?thesis using L so(3,4) by (intro ledger_invI) simp_all
qed

lemma retain_inv:
  assumes D: "redb_ok D" and f: "file_inv D keep st lo ys hs" and w: "window_inv L ys cs"
    and L: "lg_cumulative_work L = work_on_disk D (sr_db st)" "lg_recorded_during_reread L = None"
    and ret: "retain D (ledger_len L) keep_after MAX_ACCEPTED_HASHES st = Inr (k, st')"
  shows "ledger_inv D keep (L\<lparr>lg_store := Some st'\<rparr>) None hs"
proof -
  note r = retain_holds [OF D f [unfolded file_inv_def, THEN conjunct1] ret]
  have "ledger_len L = length cs"
    using w holds_length unfolding window_inv_def ledger_len_def by blast
  then have "window_inv L (drop k ys) cs" by (intro window_retain [OF w]) (use r(2) in simp)
  moreover obtain ps where "hs = ps @ ys" using f by (auto simp: file_inv_def)
  then have "\<exists>ps. hs = ps @ drop k ys" by (intro exI [of _ "ps @ take k ys"]) simp
  then have "file_inv D keep st' (lo + k) (drop k ys) hs" using f r unfolding file_inv_def by (cases keep) simp_all
  ultimately show ?thesis using L r(4) by (intro ledger_invI) (simp_all add: reread_inv_None)
qed

lemma take_batch_inv:
  assumes D: "redb_ok D" and f: "file_inv D keep st lo (ys @ bs) hs" and w: "window_inv L ys cs"
    and L: "lg_store L = Some st" "lg_cumulative_work L = work_on_disk D (sr_db st)" and r: "reread_inv L lo ys rr"
    and op: "take_batch D keep_after bs L = Some (n, L')"
  shows "ledger_inv D keep L' rr hs"
proof -
  obtain c b cs' where push: "push_shares bs L = Some (L\<lparr>lg_contents := c, lg_count_capped := b\<rparr>)"
    and w2: "window_inv (L\<lparr>lg_contents := c, lg_count_capped := b\<rparr>) (ys @ bs) cs'"
    using window_push [OF w] by blast
  define L2 where "L2 = L\<lparr>lg_contents := c, lg_count_capped := b\<rparr>"
  have L2: "lg_store L2 = Some st" "lg_cumulative_work L2 = work_on_disk D (sr_db st)"
    "lg_recorded_during_reread L2 = lg_recorded_during_reread L" using L by (simp_all add: L2_def)
  show ?thesis
  proof (cases rr)
    case (Some q)
    then obtain old new where q: "ys = old @ new" "lg_recorded_during_reread L = Some new"
      using r by (auto simp: reread_inv_def)
    then have "L' = L2\<lparr>lg_recorded_during_reread := Some (new @ bs)\<rparr>"
      using op push L2(3) by (simp add: take_batch_def L2_def)
    moreover have "reread_inv (L2\<lparr>lg_recorded_during_reread := Some (new @ bs)\<rparr>) lo (ys @ bs) rr"
      using r q Some by (auto simp: reread_inv_def)
    ultimately show ?thesis using L2 f w2 by (intro ledger_invI) (simp_all add: L2_def)
  next
    case None
    then have rec: "lg_recorded_during_reread L2 = None" using r L2(3) by (simp add: reread_inv_def)
    consider (kept) "L' = L2" | (removed) k st' where
      "retain D (ledger_len L2) keep_after MAX_ACCEPTED_HASHES st = Inr (k, st')" "L' = L2\<lparr>lg_store := Some st'\<rparr>"
      using op push rec L2(1) by (auto simp: take_batch_def L2_def split: sum.splits)
    then show ?thesis
    proof cases
      case kept
      then show ?thesis using L2 f w2 rec None by (intro ledger_invI) (simp_all add: L2_def reread_inv_None)
    next
      case removed
      then show ?thesis using retain_inv [OF D f w2 [folded L2_def] L2(2) rec removed(1)] None by simp
    qed
  qed
qed

lemma batch_inv:
  assumes D: "redb_ok D" and inv: "ledger_inv D keep L rr hs" and bs: "\<forall>s \<in> set bs. wf_share s"
    and op: "record_batch D bs L = Some (Inr (n, L'))"
  shows "ledger_inv D keep L' rr (hs @ bs)"
proof (cases "bs = []")
  case True
  then show ?thesis using inv op by (simp add: record_batch_def)
next
  case False
  obtain st lo ys cs where L: "lg_store L = Some st" "lg_cumulative_work L = work_on_disk D (sr_db st)"
    and f: "file_inv D keep st lo ys hs" and w: "window_inv L ys cs" and r: "reread_inv L lo ys rr"
    by (rule ledger_invE [OF inv])
  let ?work = "add_work bs (lg_cumulative_work L)"
  obtain st1 where st1: "insert_batch D bs ?work st = Inr st1"
    using op L False by (auto simp: record_batch_def Let_def split: sum.splits)
  let ?L = "L\<lparr>lg_cumulative_work := ?work, lg_store := Some st1\<rparr>"
  obtain keep_after where op': "take_batch D keep_after bs ?L = Some (n, L')"
    using op L False st1 by (auto simp: record_batch_def Let_def)
  note ins = insert_batch_holds [OF D f [unfolded file_inv_def, THEN conjunct1] bs st1]
  have "file_inv D keep st1 lo (ys @ bs) (hs @ bs)"
    using f ins L add_work_mod [of bs hs] unfolding file_inv_def by auto
  with take_batch_inv [OF D _ _ _ _ _ op'] w r ins(3) show ?thesis by simp
qed

lemma crash_inv:
  assumes D: "redb_ok D" and inv: "ledger_inv D keep L rr hs" and bs: "\<forall>s \<in> set bs. wf_share s"
    and st: "lg_store L = Some st" and ins: "insert_batch D bs (add_work bs (lg_cumulative_work L)) st = Inr st'"
    and op: "open_share_ledger D (Some (sr_db st')) keep chain (ledger_new fmul rule policy) = Some (Inr L')"
  shows "ledger_inv D keep L' None (hs @ bs)"
  using inv
proof (rule ledger_invE)
  fix st0 lo ys cs
  assume a: "lg_store L = Some st0" "lg_cumulative_work L = work_on_disk D (sr_db st0)" "file_inv D keep st0 lo ys hs"
  then have f: "file_inv D keep st lo ys hs" and work: "lg_cumulative_work L = total_of hs mod 2 ^ 128"
    using st by (auto simp: file_inv_def)
  note i = insert_batch_holds [OF D f [unfolded file_inv_def, THEN conjunct1] bs ins]
  obtain ps where "hs = ps @ ys" "keep = None \<longrightarrow> ys = hs" using f by (auto simp: file_inv_def)
  then have hs: "hs @ bs = ps @ ys @ bs" "keep = None \<longrightarrow> ys @ bs = hs @ bs" by simp_all
  show ?thesis
    using open_inv [OF D _ _ hs _ op, of lo] i add_work_mod [of bs hs] work by (simp add: store_holds_def)
qed

lemma restart_inv:
  assumes D: "redb_ok D" and inv: "ledger_inv D keep L rr hs" and st: "lg_store L = Some st"
    and op: "open_share_ledger D (Some (sr_db st)) keep chain (ledger_new fmul rule policy) = Some (Inr L')"
  shows "ledger_inv D keep L' None hs"
  using inv
proof (rule ledger_invE)
  fix st0 lo ys cs
  assume a: "lg_store L = Some st0" "file_inv D keep st0 lo ys hs"
  then have f: "file_inv D keep st lo ys hs" using st by simp
  then obtain ps where hs: "hs = ps @ ys" "keep = None \<longrightarrow> ys = hs" by (auto simp: file_inv_def)
  show ?thesis
    by (rule open_inv [OF D _ _ hs _ op, of lo]) (use f in \<open>auto simp: file_inv_def store_holds_def\<close>)
qed

lemma difficulty_inv:
  assumes inv: "ledger_inv D keep L rr hs" and op: "set_network_difficulty fmul nd L = Some (due, L')"
  shows "ledger_inv D keep L' rr hs"
  using inv
proof (rule ledger_invE)
  fix st lo ys cs
  assume a: "lg_store L = Some st" "lg_cumulative_work L = work_on_disk D (sr_db st)"
    "file_inv D keep st lo ys hs" "window_inv L ys cs" "reread_inv L lo ys rr"
  let ?L = "L\<lparr>lg_network_difficulty := Some nd\<rparr>"
  note w = window_resize [of ?L ys cs "window_for fmul (lg_window_rule L) nd" due L', OF _ window_for_bounds(2)]
  obtain cs' where "window_inv L' ys cs'" using w(1) a op by (auto simp: set_network_difficulty_def)
  moreover have "reread_inv L' lo ys rr"
    using w(4) a op reread_inv_cong [of L' L] by (simp add: set_network_difficulty_def)
  ultimately show ?thesis
    using w(2,3) a op by (intro ledger_invI) (simp_all add: set_network_difficulty_def)
qed

lemma begin_inv:
  assumes inv: "ledger_inv D keep L rr hs" and op: "begin_reread D L = (Some r, L')"
  shows "ledger_inv D keep L' (Some r) hs"
  using inv
proof (rule ledger_invE)
  fix st lo ys cs
  assume a: "lg_store L = Some st" "lg_cumulative_work L = work_on_disk D (sr_db st)"
    "file_inv D keep st lo ys hs" "window_inv L ys cs"
  have r: "r = \<lparr>rr_snapshot = db_tables D (sr_db st), rr_window = lg_window L, rr_max_shares = lg_max_shares L\<rparr>"
    "L' = L\<lparr>lg_recorded_during_reread := Some []\<rparr>"
    using op a(1) by (auto simp: begin_reread_def begin_read_def split: if_splits)
  moreover have "reread_inv L' lo ys (Some r)"
    using a(3,4) r by (simp add: reread_inv_def window_inv_def file_inv_def store_holds_def)
  ultimately show ?thesis using a by (intro ledger_invI) simp_all
qed

lemma running_reread:
  assumes "ledger_inv D keep L (Some r) hs"
  obtains st lo old new cs c rb where "lg_store L = Some st" "lg_cumulative_work L = work_on_disk D (sr_db st)"
    "file_inv D keep st lo (old @ new) hs" "window_inv L (old @ new) cs" "lg_recorded_during_reread L = Some new"
    "reread_read r = Some (c, rb)" "holds (MAX_SHARES + 1) c (trim_shares (rr_window r) MAX_SHARES old)"
  using assms
proof (rule ledger_invE)
  fix st lo ys cs
  assume a: "lg_store L = Some st" "lg_cumulative_work L = work_on_disk D (sr_db st)"
    "file_inv D keep st lo ys hs" "window_inv L ys cs" "reread_inv L lo ys (Some r)"
  obtain old new where q: "ys = old @ new" "lg_recorded_during_reread L = Some new"
    "tb_shares (rr_snapshot r) = rows_of lo old" "rr_max_shares r = MAX_SHARES" "0 < rr_window r" "rr_window r < 2 ^ 128"
    using a(5) by (auto simp: reread_inv_def)
  have wf: "\<forall>s \<in> set old. wf_share s" using a(3) q(1) by (auto simp: file_inv_def store_holds_def)
  obtain c rb where c: "reread_read r = Some (c, rb)" "holds (MAX_SHARES + 1) c (trim_shares (rr_window r) MAX_SHARES old)"
    using window_read_holds [OF wf q(3,5,6) max_shares_bounds(2)] q(4) by (auto simp: reread_read_def)
  show thesis by (rule that [OF a(1,2) _ _ q(2) c]) (use a q in simp_all)
qed

lemma finish_inv:
  assumes inv: "ledger_inv D keep L (Some r) hs" and rd: "rd = Inl e \<or> (\<exists>x. reread_read r = Some x \<and> rd = Inr x)"
    and op: "finish_reread (rr_window r) rd L = Some (g, L')"
  shows "ledger_inv D keep L' None hs"
  using inv
proof (rule running_reread)
  fix st lo old new cs c rb
  assume a: "lg_store L = Some st" "lg_cumulative_work L = work_on_disk D (sr_db st)"
    "file_inv D keep st lo (old @ new) hs" "window_inv L (old @ new) cs" "lg_recorded_during_reread L = Some new"
    "reread_read r = Some (c, rb)" "holds (MAX_SHARES + 1) c (trim_shares (rr_window r) MAX_SHARES old)"
  show ?thesis
  proof (cases rd)
    case (Inl e')
    then have "L' = L\<lparr>lg_recorded_during_reread := None\<rparr>" using op by (simp add: finish_reread_def Let_def)
    then show ?thesis using a by (intro ledger_invI) (simp_all add: reread_inv_None)
  next
    case (Inr x)
    then have op': "finish_reread (rr_window r) (Inr (c, rb)) L = Some (g, L')" using rd a(6) op by simp
    note f = window_finish [OF a(4,5,7) op']
    then obtain cs' where "window_inv L' (old @ new) cs'" by blast
    then show ?thesis using f(2-4) a by (intro ledger_invI) (simp_all add: reread_inv_None)
  qed
qed

lemma ledger_run_inv:
  assumes "ledger_run D fmul rule policy keep chain L rr hs" "redb_ok D"
  shows "ledger_inv D keep L rr hs"
  using assms
proof (induction rule: ledger_run.induct)
  case (run_open d L)
  then show ?case using open_inv [of D d 0 "[]" "[]" "[]"] by (simp add: work_on_disk_def)
next
  case run_batch
  then show ?case using batch_inv by blast
next
  case run_difficulty
  then show ?case using difficulty_inv by blast
next
  case run_begin
  then show ?case using begin_inv by blast
next
  case run_finish
  then show ?case using finish_inv by blast
next
  case run_fail
  then show ?case using finish_inv by blast
next
  case run_restart
  then show ?case using restart_inv by blast
next
  case run_crash
  then show ?case using crash_inv by blast
qed

section \<open>No panic\<close>

lemma ledger_trim_total: "window_inv L ys cs \<Longrightarrow> ledger_trim (L\<lparr>lg_reread_due := b, lg_window := w\<rparr>) \<noteq> None"
  using ledger_trim_holds [of "L\<lparr>lg_reread_due := b, lg_window := w\<rparr>" cs] by (auto simp: window_inv_def)

lemma open_total:
  assumes D: "redb_ok D" and rows: "tb_shares (db_tables D d) = rows_of lo ys" "\<forall>s \<in> set ys. wf_share s"
  shows "open_share_ledger D (Some d) keep chain (ledger_new fmul rule policy) \<noteq> None"
proof (cases "store_open D d keep chain")
  case (Inr st)
  let ?L = "ledger_new fmul rule policy :: 'a ledger"
  note so = store_open_holds [OF D rows Inr]
  obtain lo' where lo': "store_holds D st lo' ys" using so(1) by blast
  have W: "0 < lg_window ?L" "lg_window ?L < 2 ^ 128" and m: "lg_max_shares ?L = MAX_SHARES"
    by (simp_all add: ledger_new_def window_for_bounds [simplified])
  obtain c rb where "window_read (db_tables D (sr_db st)) (lg_window ?L) MAX_SHARES = Some (c, rb)"
    and "holds (MAX_SHARES + 1) c (trim_shares (lg_window ?L) MAX_SHARES ys)"
    using window_read_holds [OF rows(2) lo' [unfolded store_holds_def, THEN conjunct1] W max_shares_bounds(2)] by blast
  then show ?thesis
    using Inr so(5) m ledger_trim_holds [of "?L\<lparr>lg_contents := c\<rparr>" "trim_shares (lg_window ?L) MAX_SHARES ys"]
    by (auto simp: open_share_ledger_def attach_def ledger_load_def begin_read_def)
qed (simp add: open_share_ledger_def)

lemma take_batch_total: "window_inv L ys cs \<Longrightarrow> take_batch D keep_after bs L \<noteq> None"
  using window_push [of L ys cs bs] by (auto simp: take_batch_def split: option.splits sum.splits)

lemma batch_total:
  assumes "ledger_inv D keep L rr hs"
  shows "record_batch D bs L \<noteq> None"
  using assms
proof (rule ledger_invE)
  fix st ys cs
  assume st: "lg_store L = Some st" and w: "window_inv L ys cs"
  have "take_batch D k bs (L\<lparr>lg_cumulative_work := n, lg_store := Some st'\<rparr>) \<noteq> None" for k n st'
    by (rule take_batch_total [of _ ys cs]) (use w in simp)
  then show ?thesis using st by (simp add: record_batch_def Let_def split: sum.split)
qed

lemma difficulty_total:
  assumes "ledger_inv D keep L rr hs"
  shows "set_network_difficulty fmul nd L \<noteq> None"
  using assms
proof (rule ledger_invE)
  fix ys cs
  assume "window_inv L ys cs"
  then have "window_inv (L\<lparr>lg_network_difficulty := Some nd\<rparr>) ys cs" by simp
  from ledger_trim_total [OF this] show ?thesis
    by (simp add: set_network_difficulty_def set_window_def Let_def)
qed

lemma finish_total:
  assumes "ledger_inv D keep L (Some r) hs"
  shows "\<exists>x y. reread_read r = Some x \<and> finish_reread (rr_window r) (Inr x) L = Some y"
  using assms
proof (rule running_reread)
  fix old new cs c rb
  assume w: "window_inv L (old @ new) cs" and rec: "lg_recorded_during_reread L = Some new"
    and rd: "reread_read r = Some (c, rb)" and c: "holds (MAX_SHARES + 1) c (trim_shares (rr_window r) MAX_SHARES old)"
  let ?L = "L\<lparr>lg_recorded_during_reread := None, lg_contents := c, lg_reread_due := rr_window r < lg_window L\<rparr>"
  have m: "lg_max_shares ?L = MAX_SHARES" "0 < lg_window ?L" "lg_window ?L < 2 ^ 128"
    "holds (MAX_SHARES + 1) (lg_contents ?L) (trim_shares (rr_window r) MAX_SHARES old)"
    using w c by (simp_all add: window_inv_def)
  obtain L1 where trim: "ledger_trim ?L = Some L1"
    using ledger_trim_holds [of ?L] m(1,4) by auto
  obtain ps where ps: "old = ps @ trim_shares (rr_window r) MAX_SHARES old" using trim_shares_suffix by blast
  have "window_inv L1 old (trim_shares (lg_window ?L) MAX_SHARES (trim_shares (rr_window r) MAX_SHARES old))"
    by (rule window_trimmed(1) [OF trim m ps]) (use trim_shares_narrow [of "lg_window L" "rr_window r"] in simp)
  from window_push [OF this, of new] trim rec rd show ?thesis
    by (auto simp: finish_reread_def Let_def)
qed

section \<open>What the ledger guarantees\<close>

definition file_shares :: "'db redb \<Rightarrow> 'db \<Rightarrow> share list" where
  "file_shares D d = List.map_filter (\<lambda>(_, v). unpack v) (tb_shares (db_tables D d))"

lemma file_inv_shares: "file_inv D keep st lo ys hs \<Longrightarrow> file_shares D (sr_db st) = ys"
  by (simp add: file_inv_def store_holds_def file_shares_def unpack_rows)

definition no_fee :: split_policy where "no_fee = \<lparr>sp_fee_bps = 0\<rparr>"

lemma mem_redb_attach:
  assumes "attach mem_redb st L = Some r"
  shows "\<exists>rb L'. r = Inr (rb, L') \<and> lg_store L' = Some st"
  using assms by (auto simp: attach_def ledger_load_def begin_read_def mem_redb_def bind_eq_Some_conv)

lemma mem_redb_opens:
  assumes "tb_shares d = rows_of lo ys" "\<forall>s \<in> set ys. wf_share s"
  shows "\<exists>L. open_share_ledger mem_redb (Some d) None None (ledger_new fmul rule policy) = Some (Inr L)"
proof -
  let ?L = "ledger_new fmul rule policy"
  have "open_share_ledger mem_redb (Some d) None None ?L \<noteq> None"
    by (rule open_total [OF mem_redb_ok _ assms(2), of _ lo]) (simp add: mem_redb_def assms(1))
  moreover obtain st where "store_open mem_redb d None None = Inr st"
    by (simp add: store_open_def begin_read_def mem_redb_def)
  ultimately obtain r where "open_share_ledger mem_redb (Some d) None None ?L = Some (map_sum id snd r)"
    "attach mem_redb st ?L = Some r" by (auto simp: open_share_ledger_def)
  then show ?thesis using mem_redb_attach [of st ?L r] by auto
qed

lemma sample_run:
  "\<exists>L st. ledger_run mem_redb (\<lambda>a b. Finite 10) (Finite 10) no_fee None None L None [Window.sample_share 1 5] \<and>
     lg_store L = Some st \<and> db_reads mem_redb (sr_db st)"
proof -
  obtain L where op: "open_share_ledger mem_redb (Some no_tables) None None (ledger_new (\<lambda>a b. Finite 10) (Finite 10) no_fee) = Some (Inr L)"
    using mem_redb_opens [of no_tables 0 "[]" "\<lambda>a b. Finite 10" "Finite 10" no_fee] by (auto simp: no_tables_def)
  have run: "ledger_run mem_redb (\<lambda>a b. Finite 10) (Finite 10) no_fee None None L None []"
    by (rule run_open [OF _ _ op]) (simp_all add: mem_redb_def no_tables_def)
  note inv = ledger_run_inv [OF run mem_redb_ok]
  obtain st where st: "lg_store L = Some st" by (rule ledger_invE [OF inv])
  obtain n L' where L': "record_batch mem_redb [Window.sample_share 1 5] L = Some (Inr (n, L'))"
    using batch_total [OF inv, of "[Window.sample_share 1 5]"] st
    by (auto simp: record_batch_def Let_def insert_batch_def mem_redb_def)
  have wf: "\<forall>s \<in> set [Window.sample_share 1 5]. wf_share s"
    by (simp add: wf_share_def Window.sample_share_def NAME_SEPARATOR_def utf8_valid_ascii)
  note run' = run_batch [OF run wf L']
  obtain st' where "lg_store L' = Some st'" by (rule ledger_invE [OF ledger_run_inv [OF run' mem_redb_ok]])
  then show ?thesis using run' by (auto simp: mem_redb_def)
qed

lemma ledger_trim_keeps:
  "ledger_trim L = Some L' \<Longrightarrow> lg_reread_due L' = lg_reread_due L \<and> lg_window L' = lg_window L \<and>
     lg_store L' = lg_store L \<and> lg_split_policy L' = lg_split_policy L"
  by (auto simp: ledger_trim_def Let_def bind_eq_Some_conv)

lemma push_shares_keeps:
  "push_shares bs L = Some L' \<Longrightarrow> lg_reread_due L' = lg_reread_due L \<and> lg_window L' = lg_window L \<and>
     lg_store L' = lg_store L \<and> lg_split_policy L' = lg_split_policy L"
proof (induction bs arbitrary: L)
  case (Cons b bs)
  then obtain c L1 where "ledger_trim (L\<lparr>lg_contents := c\<rparr>) = Some L1" "push_shares bs L1 = Some L'"
    by (auto simp: bind_eq_Some_conv)
  then show ?case using Cons.IH [of L1] ledger_trim_keeps [of "L\<lparr>lg_contents := c\<rparr>" L1] by simp
qed simp

text \<open>The policy a ledger was made with is the policy it splits by.\<close>

lemma open_policy:
  "open_share_ledger D (Some d) keep chain (ledger_new fmul rule policy) = Some (Inr L) \<Longrightarrow> lg_split_policy L = policy"
  by (auto simp: open_share_ledger_def attach_def ledger_load_def map_sum_Inr_iff bind_eq_Some_conv ledger_new_def
      split: sum.splits dest!: ledger_trim_keeps)

lemma take_batch_policy:
  assumes "take_batch D keep_after bs L = Some (n, L')"
  shows "lg_split_policy L' = lg_split_policy L"
proof -
  obtain L1 where "push_shares bs L = Some L1" "lg_split_policy L' = lg_split_policy L1"
    using assms by (auto simp: take_batch_def bind_eq_Some_conv split: option.splits sum.splits)
  then show ?thesis using push_shares_keeps by metis
qed

lemma batch_policy:
  assumes "record_batch D bs L = Some (Inr (n, L'))"
  shows "lg_split_policy L' = lg_split_policy L"
proof (cases "bs = []")
  case False
  then obtain k L1 where "take_batch D k bs L1 = Some (n, L')" "lg_split_policy L1 = lg_split_policy L"
    using assms by (cases "lg_store L") (auto simp: record_batch_def Let_def split: sum.splits)
  then show ?thesis using take_batch_policy by metis
qed (use assms in \<open>simp add: record_batch_def\<close>)

lemma finish_steps:
  assumes "finish_reread window (Inr x) L = Some (g, L')"
  obtains c new L1 where "ledger_trim (L\<lparr>lg_recorded_during_reread := None, lg_contents := c,
      lg_reread_due := window < lg_window L\<rparr>) = Some L1" "push_shares new L1 = Some L'"
  using assms by (cases x) (auto simp: finish_reread_def Let_def bind_eq_Some_conv)

lemma finish_keeps:
  assumes "finish_reread window (Inr x) L = Some (g, L')"
  shows "lg_reread_due L' \<longleftrightarrow> window < lg_window L" "lg_window L' = lg_window L" "lg_store L' = lg_store L"
    "lg_split_policy L' = lg_split_policy L"
  by (rule finish_steps [OF assms], drule ledger_trim_keeps, drule push_shares_keeps, simp)+

lemma finish_policy:
  assumes "finish_reread w rd L = Some (g, L')"
  shows "lg_split_policy L' = lg_split_policy L"
proof (cases rd)
  case (Inl e)
  then show ?thesis using assms by (auto simp: finish_reread_def Let_def)
next
  case (Inr x)
  then show ?thesis using finish_keeps(4) assms by blast
qed

lemma ledger_run_policy: "ledger_run D fmul rule policy keep chain L rr hs \<Longrightarrow> lg_split_policy L = policy"
proof (induction rule: ledger_run.induct)
  case (run_difficulty L rr hs nd due L')
  then show ?case
    by (auto simp: set_network_difficulty_def set_window_def Let_def dest!: ledger_trim_keeps)
next
  case (run_begin L rr hs r L')
  then show ?case by (auto simp: begin_reread_def split: if_splits option.splits sum.splits)
qed (simp_all add: open_policy batch_policy finish_policy)

lemma fresh_window:
  assumes "ledger_run D fmul rule policy keep chain L rr hs" "redb_ok D" "lg_store L = Some st" "\<not> lg_reread_due L"
  shows "holds (MAX_SHARES + 1) (lg_contents L) (trim_shares (lg_window L) MAX_SHARES (file_shares D (sr_db st)))"
  using ledger_run_inv [OF assms(1,2)]
proof (rule ledger_invE)
  fix st' lo ys cs
  assume a: "lg_store L = Some st'" "file_inv D keep st' lo ys hs" "window_inv L ys cs"
  then have "file_shares D (sr_db st) = ys" using file_inv_shares [OF a(2)] assms(3) by simp
  then show ?thesis using a(3) assms(4) unfolding window_inv_def by metis
qed

lemma reread_returns:
  assumes run: "ledger_run D fmul rule policy keep chain L None hs" and D: "redb_ok D"
    and st: "lg_store L = Some st" and reads: "db_reads D (sr_db st)"
  shows "\<exists>g L'. ledger_reread D L = Some (g, L') \<and> \<not> lg_reread_due L' \<and> lg_store L' = Some st \<and>
    lg_window L' = lg_window L \<and> ledger_run D fmul rule policy keep chain L' None hs"
proof (cases "lg_reread_due L")
  case False
  then show ?thesis using run st by (simp add: ledger_reread_def begin_reread_def)
next
  case True
  have "lg_recorded_during_reread L = None"
    by (rule ledger_invE [OF ledger_run_inv [OF run D]]) (simp add: reread_inv_None)
  then have op: "begin_reread D L = (Some \<lparr>rr_snapshot = db_tables D (sr_db st), rr_window = lg_window L,
      rr_max_shares = lg_max_shares L\<rparr>, L\<lparr>lg_recorded_during_reread := Some []\<rparr>)" (is "_ = (Some ?r, ?L)")
    using True st reads by (simp add: begin_reread_def begin_read_def)
  note run' = run_begin [OF run op]
  obtain x g L' where fin: "reread_read ?r = Some x" "finish_reread (rr_window ?r) (Inr x) ?L = Some (g, L')"
    using finish_total [OF ledger_run_inv [OF run' D]] by fastforce
  have "ledger_reread D L = Some (fst g, L')" using op fin by (simp add: ledger_reread_def split: prod.split)
  then show ?thesis using run_finish [OF run' fin] finish_keeps [OF fin(2)] st by auto
qed

lemma open_file:
  assumes D: "redb_ok D" and op: "open_share_ledger D (Some d) keep chain (ledger_new fmul rule policy) = Some (Inr L)"
  shows "\<exists>st. lg_store L = Some st \<and> file_shares D (sr_db st) = file_shares D d"
proof -
  obtain st where st: "store_open D d keep chain = Inr st" "lg_store L = Some st"
    using op by (auto simp: open_share_ledger_def attach_def map_sum_Inr_iff split: sum.splits)
  have "tb_shares (db_tables D (sr_db st)) = tb_shares (db_tables D d)"
    using st(1) unfolding store_open_def Let_def tryq_Inr_iff
    by (clarsimp simp: tryq_Inr_iff begin_read_def write_tables [OF D] split: if_splits option.splits)
  then show ?thesis using st(2) by (simp add: file_shares_def)
qed

text \<open>C7: whatever the order of batches, changes of difficulty, re-reads that succeed or fail, restarts
  and crashes, the window in memory is the window of the file.  The file holds the newest shares
  committed, all of them when \<open>--ledger-keep-shares\<close> is not given; the window holds the newest of those, and
  exactly the ones one trimming of the file selects unless a re-read is due; the cumulative work is
  that of every share committed, in memory as on disk.\<close>

theorem ledger_window_from_disk:
  assumes "ledger_run D fmul rule policy keep chain L rr hs" "redb_ok D" "lg_store L = Some st"
  shows "\<exists>cs ps qs. holds (MAX_SHARES + 1) (lg_contents L) cs \<and>
    hs = ps @ file_shares D (sr_db st) \<and> (keep = None \<longrightarrow> ps = []) \<and> file_shares D (sr_db st) = qs @ cs \<and>
    (\<not> lg_reread_due L \<longrightarrow> cs = trim_shares (lg_window L) MAX_SHARES (file_shares D (sr_db st))) \<and>
    lg_cumulative_work L = total_of hs mod 2 ^ 128 \<and> work_on_disk D (sr_db st) = total_of hs mod 2 ^ 128"
  using ledger_run_inv [OF assms(1,2)]
proof (rule ledger_invE)
  fix st' lo ys cs
  assume a: "lg_store L = Some st'" "lg_cumulative_work L = work_on_disk D (sr_db st')"
    "file_inv D keep st' lo ys hs" "window_inv L ys cs"
  have [simp]: "st' = st" using a(1) assms(3) by simp
  have ys: "file_shares D (sr_db st) = ys" using file_inv_shares [OF a(3)] by simp
  obtain ps where ps: "hs = ps @ ys" "keep = None \<longrightarrow> ps = []" using a(3) by (auto simp: file_inv_def)
  obtain qs where "ys = qs @ cs" using a(4) by (auto simp: window_inv_def)
  then show ?thesis using a(2-4) ps unfolding ys file_inv_def window_inv_def
    by (intro exI [of _ cs] exI [of _ ps] exI [of _ qs]) simp
qed

theorem ledger_window_from_disk_witness:
  "\<exists>(L :: tables ledger) st cs. lg_store L = Some st \<and> holds (MAX_SHARES + 1) (lg_contents L) cs \<and>
     file_shares mem_redb (sr_db st) = [Window.sample_share 1 5] \<and> lg_cumulative_work L = 5"
proof -
  obtain L st where run: "ledger_run mem_redb (\<lambda>a b. Finite 10) (Finite 10) no_fee None None L None [Window.sample_share 1 5]"
    and st: "lg_store L = Some st" using sample_run by blast
  from ledger_window_from_disk [OF run mem_redb_ok st] obtain cs where
    "holds (MAX_SHARES + 1) (lg_contents L) cs" "file_shares mem_redb (sr_db st) = [Window.sample_share 1 5]"
    "lg_cumulative_work L = total_of [Window.sample_share 1 5] mod 2 ^ 128" by auto
  with st show ?thesis by (intro exI [of _ L] exI [of _ st] exI [of _ cs]) (simp add: Window.sample_share_def)
qed

text \<open>C35: no operation of the ledger panics in any state a run reaches: recording a batch, a change of
  difficulty, the read and the installation of a running re-read, and reading the file back at startup
  each return, with a result or with the error of the database.\<close>

theorem ledger_never_panics:
  assumes "ledger_run D fmul rule policy keep chain L rr hs" "redb_ok D" "lg_store L = Some st"
  shows "record_batch D bs L \<noteq> None \<and> set_network_difficulty fmul nd L \<noteq> None \<and>
    (\<forall>r. rr = Some r \<longrightarrow> (\<exists>x y. reread_read r = Some x \<and> finish_reread (rr_window r) (Inr x) L = Some y)) \<and>
    open_share_ledger D (Some (sr_db st)) keep' chain' (ledger_new fmul rule' policy') \<noteq> None"
proof -
  note inv = ledger_run_inv [OF assms(1,2)]
  have "open_share_ledger D (Some (sr_db st)) keep' chain' (ledger_new fmul rule' policy') \<noteq> None"
  proof (rule ledger_invE [OF inv])
    fix st' lo ys
    assume "lg_store L = Some st'" "file_inv D keep st' lo ys hs"
    then show ?thesis
      by (intro open_total [OF assms(2), of _ lo ys]) (use assms(3) in \<open>simp_all add: file_inv_def store_holds_def\<close>)
  qed
  then show ?thesis
    using batch_total [OF inv] difficulty_total [OF inv] finish_total inv by blast
qed

theorem ledger_never_panics_witness:
  "\<exists>(L :: tables ledger) st. lg_store L = Some st \<and> record_batch mem_redb [Window.sample_share 2 7] L \<noteq> None"
proof -
  obtain L st where run: "ledger_run mem_redb (\<lambda>a b. Finite 10) (Finite 10) no_fee None None L None [Window.sample_share 1 5]"
    and st: "lg_store L = Some st" using sample_run by blast
  from ledger_never_panics [OF run mem_redb_ok st, of "[Window.sample_share 2 7]"] st show ?thesis by blast
qed

text \<open>A re-read of a readable file ends, leaves none due, and installs the window the file holds at
  the ledger's size, so a widened window is the one it would be had it always been that wide.\<close>

theorem reread_restores_window:
  assumes "ledger_run D fmul rule policy keep chain L None hs" "redb_ok D" "lg_store L = Some st" "db_reads D (sr_db st)"
  shows "\<exists>g L'. ledger_reread D L = Some (g, L') \<and> \<not> lg_reread_due L' \<and>
    holds (MAX_SHARES + 1) (lg_contents L') (trim_shares (lg_window L) MAX_SHARES (file_shares D (sr_db st)))"
  using reread_returns [OF assms] fresh_window [OF _ assms(2)] by metis

theorem reread_restores_window_witness:
  "\<exists>L st g L'. ledger_reread mem_redb L = Some (g, L') \<and> lg_store L = Some st \<and> \<not> lg_reread_due L'"
proof -
  obtain L st where run: "ledger_run mem_redb (\<lambda>a b. Finite 10) (Finite 10) no_fee None None L None [Window.sample_share 1 5]"
    and st: "lg_store L = Some st" "db_reads mem_redb (sr_db st)" using sample_run by blast
  from reread_restores_window [OF run mem_redb_ok st] st show ?thesis by blast
qed

text \<open>C36: a pool that is stopped and started again pays over the window it held: reading the file back,
  sizing the window as it was and re-reading gives contents that represent the same shares, and the
  cumulative work continues where it was.\<close>

theorem restart_restores_window:
  assumes run: "ledger_run D fmul rule policy keep chain L rr hs" and D: "redb_ok D"
    and st: "lg_store L = Some st" and fresh: "\<not> lg_reread_due L"
    and op: "open_share_ledger D (Some (sr_db st)) keep chain (ledger_new fmul rule policy) = Some (Inr L1)"
    and nd: "set_network_difficulty fmul nd L1 = Some (due, L2)" "lg_window L2 = lg_window L"
    and reads: "\<forall>d. db_reads D d"
  shows "\<exists>g L3 cs. ledger_reread D L2 = Some (g, L3) \<and> holds (MAX_SHARES + 1) (lg_contents L3) cs \<and>
    holds (MAX_SHARES + 1) (lg_contents L) cs \<and> lg_cumulative_work L3 = lg_cumulative_work L"
proof -
  note run1 = run_restart [OF run st op]
  note run2 = run_difficulty [OF run1 nd(1)]
  obtain st1 where st1: "lg_store L1 = Some st1" "file_shares D (sr_db st1) = file_shares D (sr_db st)"
    using open_file [OF D op] by blast
  have st2: "lg_store L2 = Some st1"
    using nd(1) st1(1) by (auto simp: set_network_difficulty_def set_window_def Let_def dest!: ledger_trim_keeps)
  obtain g L3 where L3: "ledger_reread D L2 = Some (g, L3)" "\<not> lg_reread_due L3" "lg_store L3 = Some st1"
    "lg_window L3 = lg_window L2" and run3: "ledger_run D fmul rule policy keep chain L3 None hs"
    using reread_returns [OF run2 D st2] reads by blast
  have work: "lg_cumulative_work X = total_of hs mod 2 ^ 128"
    if "ledger_run D fmul rule policy keep chain X q hs" for X q
    by (rule ledger_invE [OF ledger_run_inv [OF that D]]) (simp add: file_inv_def)
  show ?thesis
    using L3 fresh_window [OF run3 D L3(3,2)] fresh_window [OF run D st fresh] st1(2) nd(2) work [OF run] work [OF run3]
    by auto
qed

lemma sized_to_ten:
  "set_network_difficulty (\<lambda>a b. Finite 10) nd L = Some (due, L') \<Longrightarrow> lg_window L' = 10"
  by (auto simp: set_network_difficulty_def set_window_def Let_def window_for_def dest!: ledger_trim_keeps)

theorem restart_restores_window_witness:
  "\<exists>(L :: tables ledger) st L1 L2 g L3 cs. lg_store L = Some st \<and>
     open_share_ledger mem_redb (Some (sr_db st)) None None (ledger_new (\<lambda>a b. Finite 10) (Finite 10) no_fee) = Some (Inr L1) \<and>
     set_network_difficulty (\<lambda>a b. Finite 10) (Finite 1) L1 = Some L2 \<and> ledger_reread mem_redb (snd L2) = Some (g, L3) \<and>
     holds (MAX_SHARES + 1) (lg_contents L3) cs \<and> holds (MAX_SHARES + 1) (lg_contents L) cs \<and>
     lg_cumulative_work L3 = lg_cumulative_work L"
proof -
  let ?f = "\<lambda>a b. Finite 10"
  let ?run = "ledger_run mem_redb ?f (Finite 10) no_fee None None"
  have reads: "\<forall>d. db_reads mem_redb d" by (simp add: mem_redb_def)
  note inv = ledger_run_inv [OF _ mem_redb_ok]
  obtain L0 st0 where run0: "?run L0 None [Window.sample_share 1 5]" "lg_store L0 = Some st0"
    using sample_run by blast
  obtain due0 L' where nd0: "set_network_difficulty ?f (Finite 1) L0 = Some (due0, L')"
    using difficulty_total [OF inv [OF run0(1)], of ?f "Finite 1"] by auto
  note run' = run_difficulty [OF run0(1) nd0]
  obtain st' where st': "lg_store L' = Some st'" by (rule ledger_invE [OF inv [OF run']])
  obtain L where L: "\<not> lg_reread_due L" "lg_store L = Some st'" "lg_window L = 10" and run: "?run L None [Window.sample_share 1 5]"
    using reread_returns [OF run' mem_redb_ok st'] reads sized_to_ten [OF nd0] by auto
  obtain L1 where op: "open_share_ledger mem_redb (Some (sr_db st')) None None (ledger_new ?f (Finite 10) no_fee) = Some (Inr L1)"
  proof (rule ledger_invE [OF inv [OF run]])
    fix st lo ys
    assume "lg_store L = Some st" "file_inv mem_redb None st lo ys [Window.sample_share 1 5]"
    then show ?thesis
      using mem_redb_opens [of "sr_db st'" lo ys] L(2) that by (auto simp: file_inv_def store_holds_def mem_redb_def)
  qed
  obtain due L2 where nd: "set_network_difficulty ?f (Finite 1) L1 = Some (due, L2)"
    using difficulty_total [OF inv [OF run_restart [OF run L(2) op]], of ?f "Finite 1"] by auto
  have "lg_window L2 = lg_window L" using sized_to_ten [OF nd] L(3) by simp
  from restart_restores_window [OF run mem_redb_ok L(2,1) op nd this reads] op nd L(2) show ?thesis
    by (metis snd_conv)
qed

end
