(* ===== verification/Group_Commit.thy ===== *)
theory Group_Commit
  imports Ledger
begin

text \<open>
  Shares recorded from many connections at once (\<^verbatim>\<open>prime/src/ledger/group_commit.rs\<close>).  A caller
  queues its share under a ticket and loops: it takes its result, waits while a commit runs, or leads
  the next commit of every queued share.  The lock is dropped while a commit runs, so the run below
  interleaves the callers' critical sections: \<open>gc_enqueue\<close>, \<open>gc_poll\<close> (one turn of the loop) and
  \<open>gc_publish\<close> (the drop of \<open>Finish\<close>).  The commit itself is \<open>record_batch\<close>, which
  \<open>ledger_never_panics\<close> shows to return.
\<close>

section \<open>The state\<close>

definition MAX_BATCH :: nat where "MAX_BATCH = 4096"

record gc_state =
  gc_next_ticket :: nat
  gc_queued :: "(nat \<times> share) list"
  gc_committing :: bool
  gc_results :: "nat \<rightharpoonup> (io_error + nat)"

definition gc_new :: gc_state where
  "gc_new = \<lparr>gc_next_ticket = 0, gc_queued = [], gc_committing = False, gc_results = Map.empty\<rparr>"

definition gc_enqueue :: "share \<Rightarrow> gc_state \<Rightarrow> nat \<times> gc_state" where
  "gc_enqueue share st =
     (gc_next_ticket st, st\<lparr>gc_next_ticket := gc_next_ticket st + 1, gc_queued := gc_queued st @ [(gc_next_ticket st, share)]\<rparr>)"

datatype poll = Finished "io_error + nat" | Waiting | Leads "(nat \<times> share) list"

definition gc_poll :: "nat \<Rightarrow> gc_state \<Rightarrow> poll \<times> gc_state" where
  "gc_poll ticket st =
     (case gc_results st ticket of
        Some result \<Rightarrow> (Finished result, st\<lparr>gc_results := (gc_results st)(ticket := None)\<rparr>)
      | None \<Rightarrow>
          if gc_committing st then (Waiting, st)
          else let n = min (length (gc_queued st)) MAX_BATCH in
            (Leads (take n (gc_queued st)), st\<lparr>gc_committing := True, gc_queued := drop n (gc_queued st)\<rparr>))"

text \<open>The rows retention removed are given to the first ticket only.\<close>

definition ticket_result :: "io_error + nat \<Rightarrow> nat \<Rightarrow> io_error + nat" where
  "ticket_result result i = (case result of Inr removed \<Rightarrow> Inr (if i = 0 then removed else 0) | Inl e \<Rightarrow> Inl e)"

definition gc_publish :: "nat list \<Rightarrow> io_error + nat \<Rightarrow> gc_state \<Rightarrow> gc_state" where
  "gc_publish tickets result st =
     st\<lparr>gc_committing := False,
        gc_results := fold (\<lambda>(i, t) m. m(t \<mapsto> ticket_result result i)) (enumerate 0 tickets) (gc_results st)\<rparr>"

section \<open>Runs\<close>

text \<open>\<open>w\<close> maps the tickets of callers that have not returned to their shares, \<open>running\<close> is the batch
  being committed, \<open>cm\<close> the tickets and shares of the commits that succeeded, in order, and \<open>rets\<close> what
  callers were returned.  Between two turns another thread may leave the ledger in any state it reaches
  without recording a share.\<close>

inductive gc_run for D :: "'db redb" and fmul rule policy keep chain hs0 where
  gc_start: "ledger_run D fmul rule policy keep chain L rr hs0 \<Longrightarrow>
    gc_run D fmul rule policy keep chain hs0 L gc_new Map.empty None [] []"
| gc_other: "gc_run D fmul rule policy keep chain hs0 L st w running cm rets \<Longrightarrow>
    ledger_run D fmul rule policy keep chain L' rr (hs0 @ map snd cm) \<Longrightarrow>
    gc_run D fmul rule policy keep chain hs0 L' st w running cm rets"
| gc_arrive: "gc_run D fmul rule policy keep chain hs0 L st w running cm rets \<Longrightarrow> wf_share s \<Longrightarrow>
    gc_enqueue s st = (t, st') \<Longrightarrow> gc_run D fmul rule policy keep chain hs0 L st' (w(t \<mapsto> s)) running cm rets"
| gc_lead: "gc_run D fmul rule policy keep chain hs0 L st w running cm rets \<Longrightarrow> w t \<noteq> None \<Longrightarrow>
    gc_poll t st = (Leads b, st') \<Longrightarrow> gc_run D fmul rule policy keep chain hs0 L st' w (Some b) cm rets"
| gc_commit: "gc_run D fmul rule policy keep chain hs0 L st w (Some b) cm rets \<Longrightarrow>
    record_batch D (map snd b) L = Some (Inr (n, L')) \<Longrightarrow>
    gc_run D fmul rule policy keep chain hs0 L' (gc_publish (map fst b) (Inr n) st) w None (cm @ b) rets"
| gc_fail: "gc_run D fmul rule policy keep chain hs0 L st w (Some b) cm rets \<Longrightarrow>
    record_batch D (map snd b) L = Some (Inl e) \<Longrightarrow>
    gc_run D fmul rule policy keep chain hs0 L (gc_publish (map fst b) (Inl e) st) w None cm rets"
| gc_return: "gc_run D fmul rule policy keep chain hs0 L st w running cm rets \<Longrightarrow> w t = Some s \<Longrightarrow>
    gc_poll t st = (Finished r, st') \<Longrightarrow>
    gc_run D fmul rule policy keep chain hs0 L st' (w(t := None)) running cm (rets @ [(t, s, r)])"

section \<open>The invariant\<close>

abbreviation batch_of :: "(nat \<times> share) list option \<Rightarrow> (nat \<times> share) list" where
  "batch_of running \<equiv> (case running of None \<Rightarrow> [] | Some b \<Rightarrow> b)"

text \<open>The tickets of the commits that succeeded, of the running one and of the queue, in this order, ascend.\<close>

definition tickets_inv :: "nat \<Rightarrow> (nat \<rightharpoonup> (io_error + nat)) \<Rightarrow> (nat \<times> share) list \<Rightarrow> bool" where
  "tickets_inv nxt res tks \<longleftrightarrow>
     sorted_wrt (<) (map fst tks) \<and> (\<forall>t s. (t, s) \<in> set tks \<longrightarrow> t < nxt) \<and> (\<forall>t. res t \<noteq> None \<longrightarrow> t < nxt)"

text \<open>A caller that waits has its share pending, in the queue or the running batch, or a result: of a
  commit that succeeded when it is \<open>Inr\<close>, of none when it is \<open>Inl\<close>.\<close>

definition callers_inv ::
  "(nat \<rightharpoonup> (io_error + nat)) \<Rightarrow> (nat \<rightharpoonup> share) \<Rightarrow> (nat \<times> share) list \<Rightarrow> (nat \<times> share) list \<Rightarrow> bool" where
  "callers_inv res w pend cm \<longleftrightarrow>
     (\<forall>t s. (t, s) \<in> set pend \<longrightarrow> w t = Some s \<and> res t = None \<and> wf_share s) \<and>
     (\<forall>t s. w t = Some s \<longrightarrow> res t \<noteq> None \<or> (t, s) \<in> set pend) \<and>
     (\<forall>t n. res t = Some (Inr n) \<longrightarrow> (\<exists>s. w t = Some s \<and> (t, s) \<in> set cm)) \<and>
     (\<forall>t e. res t = Some (Inl e) \<longrightarrow> w t \<noteq> None \<and> (\<forall>s. (t, s) \<notin> set cm))"

definition returned_inv ::
  "nat \<Rightarrow> (nat \<rightharpoonup> share) \<Rightarrow> (nat \<times> share) list \<Rightarrow> (nat \<times> share \<times> (io_error + nat)) list \<Rightarrow> bool" where
  "returned_inv nxt w cm rets \<longleftrightarrow>
     (\<forall>t s r. (t, s, r) \<in> set rets \<longrightarrow> t < nxt \<and> w t = None \<and>
        (case r of Inr n \<Rightarrow> (t, s) \<in> set cm | Inl e \<Rightarrow> \<forall>s. (t, s) \<notin> set cm))"

definition gc_inv where
  "gc_inv st w running cm rets \<longleftrightarrow>
     tickets_inv (gc_next_ticket st) (gc_results st) (cm @ batch_of running @ gc_queued st) \<and>
     callers_inv (gc_results st) w (batch_of running @ gc_queued st) cm \<and>
     returned_inv (gc_next_ticket st) w cm rets \<and> (gc_committing st \<longleftrightarrow> running \<noteq> None)"

lemma publish_results:
  assumes "distinct ts"
  shows "gc_results (gc_publish ts r st) t =
    (case find_index (\<lambda>u. u = t) ts of Some i \<Rightarrow> Some (ticket_result r i) | None \<Rightarrow> gc_results st t)"
proof -
  have "fold (\<lambda>(i, t) m. m(t \<mapsto> ticket_result r i)) (enumerate k ts) m t =
      (case find_index (\<lambda>u. u = t) ts of Some i \<Rightarrow> Some (ticket_result r (k + i)) | None \<Rightarrow> m t)" for k m
    using assms
  proof (induction ts arbitrary: k m)
    case (Cons a ts)
    have nin: "find_index (\<lambda>u. u = a) ts = None" using Cons.prems by (auto simp: find_index_None)
    have "find_index (\<lambda>u. u = t) (a # ts) = (if a = t then Some 0 else map_option Suc (find_index (\<lambda>u. u = t) ts))"
      by (auto simp: find_index_def Let_def)
    then show ?case using Cons.IH [of "Suc k" "m(a \<mapsto> ticket_result r k)"] Cons.prems nin
      by (cases "a = t") (auto split: option.split)
  qed (simp add: find_index_def)
  then show ?thesis by (simp add: gc_publish_def split: option.split)
qed

lemma publish_mem:
  assumes "distinct ts"
  shows "t \<in> set ts \<Longrightarrow> \<exists>i. gc_results (gc_publish ts r st) t = Some (ticket_result r i)"
    "t \<notin> set ts \<Longrightarrow> gc_results (gc_publish ts r st) t = gc_results st t"
  using find_index_None [of "\<lambda>u. u = t" ts] by (auto simp: publish_results [OF assms] split: option.split)

lemma publish_sel [simp]:
  "gc_queued (gc_publish ts r st) = gc_queued st" "gc_next_ticket (gc_publish ts r st) = gc_next_ticket st"
  "gc_committing (gc_publish ts r st) = False"
  by (simp_all add: gc_publish_def)

lemma disjoint_keys: "distinct (map fst (xs @ ys)) \<Longrightarrow> (u, s) \<in> set xs \<Longrightarrow> (u, s') \<notin> set ys"
  by (induction xs) (auto simp: image_iff)

lemma tickets_distinct: "tickets_inv nxt res tks \<Longrightarrow> distinct (map fst tks)"
  by (simp add: tickets_inv_def strict_sorted_iff)

lemma waiting_ticket_lt:
  assumes "tickets_inv nxt res (cm @ pend)" "callers_inv res w pend cm" "w t = Some s"
  shows "t < nxt"
proof -
  from assms(2,3) consider "res t \<noteq> None" | "(t, s) \<in> set pend" unfolding callers_inv_def by blast
  then show ?thesis using assms(1) by cases (auto simp: tickets_inv_def)
qed

lemma arrive_inv:
  assumes t: "tickets_inv nxt res (cm @ pend)" and c: "callers_inv res w pend cm" and r: "returned_inv nxt w cm rets"
    and s: "wf_share s"
  shows "tickets_inv (Suc nxt) res (cm @ pend @ [(nxt, s)])" "callers_inv res (w(nxt \<mapsto> s)) (pend @ [(nxt, s)]) cm"
    "returned_inv (Suc nxt) (w(nxt \<mapsto> s)) cm rets"
proof -
  show "tickets_inv (Suc nxt) res (cm @ pend @ [(nxt, s)])"
    using t by (fastforce simp: tickets_inv_def sorted_wrt_append intro: less_SucI)
  have w: "w nxt = None" using waiting_ticket_lt [OF t c] by (cases "w nxt") auto
  have res: "res nxt = None" and pend: "(nxt, x) \<notin> set pend" for x using t by (auto simp: tickets_inv_def)
  show "callers_inv res (w(nxt \<mapsto> s)) (pend @ [(nxt, s)]) cm"
    unfolding callers_inv_def
  proof (intro conjI allI impI)
    fix u x assume "(u, x) \<in> set (pend @ [(nxt, s)])"
    then show "(w(nxt \<mapsto> s)) u = Some x" "res u = None" "wf_share x" using c res s pend by (auto simp: callers_inv_def)
  next
    fix u n assume "res u = Some (Inr n)"
    then show "\<exists>x. (w(nxt \<mapsto> s)) u = Some x \<and> (u, x) \<in> set cm" using c res unfolding callers_inv_def by fastforce
  qed (use c res in \<open>auto simp: callers_inv_def split: if_splits\<close>)
  show "returned_inv (Suc nxt) (w(nxt \<mapsto> s)) cm rets" using r by (fastforce simp: returned_inv_def)
qed

lemma return_inv:
  assumes t: "tickets_inv nxt res (cm @ pend)" and c: "callers_inv res w pend cm" and r: "returned_inv nxt w cm rets"
    and w: "w u = Some s" and res: "res u = Some x"
  shows "tickets_inv nxt (res(u := None)) (cm @ pend)" "callers_inv (res(u := None)) (w(u := None)) pend cm"
    "returned_inv nxt (w(u := None)) cm (rets @ [(u, s, x)])"
proof -
  show "tickets_inv nxt (res(u := None)) (cm @ pend)" using t by (auto simp: tickets_inv_def)
  have pend: "(u, y) \<notin> set pend" for y using c res unfolding callers_inv_def by fastforce
  show "callers_inv (res(u := None)) (w(u := None)) pend cm"
    unfolding callers_inv_def
  proof (intro conjI allI impI)
    fix t y assume "(t, y) \<in> set pend"
    moreover from this have "t \<noteq> u" using pend by blast
    ultimately show "(w(u := None)) t = Some y" "(res(u := None)) t = None" "wf_share y"
      using c by (simp_all add: callers_inv_def)
  next
    fix t y assume "(w(u := None)) t = Some y"
    then have "t \<noteq> u" "w t = Some y" by (simp_all split: if_splits)
    then show "(res(u := None)) t \<noteq> None \<or> (t, y) \<in> set pend" using c unfolding callers_inv_def by simp
  next
    fix t n assume "(res(u := None)) t = Some (Inr n)"
    then have "t \<noteq> u" "res t = Some (Inr n)" by (simp_all split: if_splits)
    then show "\<exists>y. (w(u := None)) t = Some y \<and> (t, y) \<in> set cm" using c unfolding callers_inv_def by simp
  next
    fix t e y assume "(res(u := None)) t = Some (Inl e)"
    then have "t \<noteq> u" "res t = Some (Inl e)" by (simp_all split: if_splits)
    then show "(w(u := None)) t \<noteq> None" "(t, y) \<notin> set cm" using c unfolding callers_inv_def by simp_all
  qed
  have "case x of Inr n \<Rightarrow> (u, s) \<in> set cm | Inl e \<Rightarrow> \<forall>s. (u, s) \<notin> set cm"
  proof (cases x)
    case (Inl e)
    then show ?thesis using c res unfolding callers_inv_def by simp
  next
    case (Inr n)
    then obtain s' where "w u = Some s'" "(u, s') \<in> set cm" using c res unfolding callers_inv_def by blast
    then show ?thesis using w Inr by simp
  qed
  then show "returned_inv nxt (w(u := None)) cm (rets @ [(u, s, x)])"
    using r waiting_ticket_lt [OF t c w] by (auto simp: returned_inv_def)
qed

lemma commit_inv:
  assumes t: "tickets_inv nxt res (cm @ b @ q)" and c: "callers_inv res w (b @ q) cm" and r: "returned_inv nxt w cm rets"
    and mem: "\<And>u s. (u, s) \<in> set b \<Longrightarrow> \<exists>i. res' u = Some (ticket_result x i)"
    and other: "\<And>u. u \<notin> fst ` set b \<Longrightarrow> res' u = res u"
    and cm': "cm' = (case x of Inr n \<Rightarrow> cm @ b | Inl e \<Rightarrow> cm)"
  shows "tickets_inv nxt res' (cm' @ q)" "callers_inv res' w q cm'" "returned_inv nxt w cm' rets"
proof -
  have disj: "(u, s) \<in> set b \<Longrightarrow> (u, s') \<notin> set q \<and> (u, s') \<notin> set cm" for u s s'
    using disjoint_keys [of cm "b @ q" u s' s] disjoint_keys [of b q u s s'] tickets_distinct [OF t] by auto
  have nin: "(\<And>s. (u, s) \<notin> set b) \<Longrightarrow> res' u = res u" for u using other [of u] by force
  have lt: "res' u \<noteq> None \<Longrightarrow> u < nxt" for u
    using t nin [of u] by (cases "\<exists>s. (u, s) \<in> set b") (auto simp: tickets_inv_def)
  show "tickets_inv nxt res' (cm' @ q)"
    using t lt by (cases x) (auto simp: tickets_inv_def sorted_wrt_append cm' ball_Un)
  have in_cm': "(u, s) \<in> set cm' \<longleftrightarrow> (u, s) \<in> set cm \<or> (\<exists>n. x = Inr n) \<and> (u, s) \<in> set b" for u s
    by (auto simp: cm' split: sum.split)
  show "callers_inv res' w q cm'"
    unfolding callers_inv_def in_cm'
  proof (intro conjI allI impI)
    fix u s assume q: "(u, s) \<in> set q"
    then have "(u, s') \<notin> set b" for s' using disj by blast
    then show "w u = Some s" "res' u = None" "wf_share s" using c q nin [of u] by (auto simp: callers_inv_def)
  next
    fix u s assume u: "w u = Some s"
    show "res' u \<noteq> None \<or> (u, s) \<in> set q"
    proof (cases "\<exists>s. (u, s) \<in> set b")
      case True
      then show ?thesis using mem by fastforce
    next
      case False
      have "res u \<noteq> None \<or> (u, s) \<in> set (b @ q)" using c u unfolding callers_inv_def by blast
      then show ?thesis using False nin [of u] by auto
    qed
  next
    fix u n assume res': "res' u = Some (Inr n)"
    show "\<exists>s. w u = Some s \<and> ((u, s) \<in> set cm \<or> (\<exists>n. x = Inr n) \<and> (u, s) \<in> set b)"
    proof (cases "\<exists>s. (u, s) \<in> set b")
      case True
      then obtain s where s: "(u, s) \<in> set b" by blast
      then have "w u = Some s" using c by (simp add: callers_inv_def)
      moreover have "\<exists>n. x = Inr n" using res' mem [OF s] by (cases x) (auto simp: ticket_result_def)
      ultimately show ?thesis using s by blast
    next
      case False
      then show ?thesis using nin [of u] res' c unfolding callers_inv_def by metis
    qed
  next
    fix u e s assume res': "res' u = Some (Inl e)"
    show "w u \<noteq> None" "\<not> ((u, s) \<in> set cm \<or> (\<exists>n. x = Inr n) \<and> (u, s) \<in> set b)"
    proof -
      show "w u \<noteq> None"
      proof (cases "\<exists>s. (u, s) \<in> set b")
        case False
        then have "res u = Some (Inl e)" using nin [of u] res' by auto
        then show ?thesis using c unfolding callers_inv_def by blast
      qed (use c in \<open>auto simp: callers_inv_def\<close>)
      show "\<not> ((u, s) \<in> set cm \<or> (\<exists>n. x = Inr n) \<and> (u, s) \<in> set b)"
      proof (cases "\<exists>s. (u, s) \<in> set b")
        case True
        then obtain s' where s': "(u, s') \<in> set b" by blast
        then have "\<nexists>n. x = Inr n" using res' mem [OF s'] by (cases x) (auto simp: ticket_result_def)
        then show ?thesis using disj [OF s'] by blast
      next
        case False
        then show ?thesis using nin [of u] res' c unfolding callers_inv_def by metis
      qed
    qed
  qed
  have wb: "(u, s) \<in> set b \<Longrightarrow> w u = Some s" for u s using c by (simp add: callers_inv_def)
  show "returned_inv nxt w cm' rets"
    unfolding returned_inv_def
  proof (intro allI impI)
    fix u s y assume "(u, s, y) \<in> set rets"
    then have u: "u < nxt" "w u = None" "case y of Inr n \<Rightarrow> (u, s) \<in> set cm | Inl e \<Rightarrow> \<forall>s. (u, s) \<notin> set cm"
      using r by (auto simp: returned_inv_def)
    moreover have "(u, s') \<notin> set b" for s' using wb [of u s'] u(2) by auto
    ultimately show "u < nxt \<and> w u = None \<and> (case y of Inr n \<Rightarrow> (u, s) \<in> set cm' | Inl e \<Rightarrow> \<forall>s. (u, s) \<notin> set cm')"
      by (auto simp: in_cm' split: sum.splits)
  qed
qed

lemma publish_inv:
  assumes inv: "gc_inv st w (Some b) cm rets" and cm': "cm' = (case x of Inr n \<Rightarrow> cm @ b | Inl e \<Rightarrow> cm)"
  shows "gc_inv (gc_publish (map fst b) x st) w None cm' rets"
proof -
  have t: "tickets_inv (gc_next_ticket st) (gc_results st) (cm @ b @ gc_queued st)"
    and c: "callers_inv (gc_results st) w (b @ gc_queued st) cm" and r: "returned_inv (gc_next_ticket st) w cm rets"
    using inv by (simp_all add: gc_inv_def)
  have d: "distinct (map fst b)" using tickets_distinct [OF t] by simp
  have mem: "\<exists>i. gc_results (gc_publish (map fst b) x st) u = Some (ticket_result x i)" if "(u, s) \<in> set b" for u s
    by (rule publish_mem(1) [OF d]) (use that in force)
  have other: "gc_results (gc_publish (map fst b) x st) u = gc_results st u" if "u \<notin> fst ` set b" for u
    by (rule publish_mem(2) [OF d]) (use that in simp)
  from commit_inv [OF t c r mem other cm'] show ?thesis by (simp add: gc_inv_def)
qed

lemma gc_run_inv:
  assumes "gc_run D fmul rule policy keep chain hs0 L st w running cm rets"
  shows "gc_inv st w running cm rets \<and> (\<exists>rr. ledger_run D fmul rule policy keep chain L rr (hs0 @ map snd cm))"
  using assms
proof (induction rule: gc_run.induct)
  case (gc_start L rr)
  then show ?case
    by (auto simp: gc_inv_def tickets_inv_def callers_inv_def returned_inv_def gc_new_def)
next
  case (gc_other L st w running cm rets L' rr)
  then show ?case by blast
next
  case (gc_arrive L st w running cm rets s t st')
  then have st': "t = gc_next_ticket st" "st' = st\<lparr>gc_next_ticket := Suc (gc_next_ticket st), gc_queued := gc_queued st @ [(gc_next_ticket st, s)]\<rparr>"
    by (auto simp: gc_enqueue_def)
  show ?case
    unfolding st' using arrive_inv [of "gc_next_ticket st" "gc_results st" cm "batch_of running @ gc_queued st" w rets s] gc_arrive
    by (simp add: gc_inv_def fun_upd_def)
next
  case (gc_lead L st w running cm rets t b st')
  then obtain n where b: "b = take n (gc_queued st)" "\<not> gc_committing st"
    "st' = st\<lparr>gc_committing := True, gc_queued := drop n (gc_queued st)\<rparr>"
    by (auto simp: gc_poll_def Let_def split: option.splits if_splits)
  then show ?case using gc_lead.IH by (auto simp: gc_inv_def)
next
  case (gc_commit L st w b cm rets n L')
  then obtain rr where inv: "gc_inv st w (Some b) cm rets" and run: "ledger_run D fmul rule policy keep chain L rr (hs0 @ map snd cm)"
    by blast
  have "\<forall>s \<in> set (map snd b). wf_share s" using inv by (auto simp: gc_inv_def callers_inv_def)
  from run_batch [OF run this gc_commit.hyps(2)]
  have "ledger_run D fmul rule policy keep chain L' rr (hs0 @ map snd (cm @ b))" by simp
  then show ?case using publish_inv [OF inv, of "cm @ b" "Inr n"] by auto
next
  case (gc_fail L st w b cm rets e)
  then show ?case using publish_inv [of st w b cm rets cm "Inl e"] by simp
next
  case (gc_return L st w running cm rets t s r st')
  then have st': "gc_results st t = Some r" "st' = st\<lparr>gc_results := (gc_results st)(t := None)\<rparr>"
    by (auto simp: gc_poll_def Let_def split: option.splits if_splits)
  show ?case
    unfolding st'(2)
    using return_inv [of "gc_next_ticket st" "gc_results st" cm "batch_of running @ gc_queued st" w rets t s r] gc_return st'(1)
    by (simp add: gc_inv_def fun_upd_def)
qed

section \<open>What a caller can rely on\<close>

text \<open>C18: a share is acknowledged exactly when it was recorded: in every interleaving of callers and
  commits, a caller that is told its share was recorded has it in the ledger's history, one that is
  told of an error does not, no ticket is recorded twice, the shares are recorded in the order they
  arrived, and the history is that of the shares recorded.\<close>

theorem group_commit_acknowledges:
  assumes "gc_run D fmul rule policy keep chain hs0 L st w running cm rets"
  shows "(\<exists>rr. ledger_run D fmul rule policy keep chain L rr (hs0 @ map snd cm)) \<and> sorted_wrt (<) (map fst cm) \<and>
    (\<forall>(t, s, r) \<in> set rets. case r of Inr n \<Rightarrow> (t, s) \<in> set cm | Inl e \<Rightarrow> t \<notin> fst ` set cm)"
proof -
  note inv = gc_run_inv [OF assms]
  have "sorted_wrt (<) (map fst cm)" using inv by (auto simp: gc_inv_def tickets_inv_def sorted_wrt_append)
  moreover have "case r of Inr n \<Rightarrow> (t, s) \<in> set cm | Inl e \<Rightarrow> t \<notin> fst ` set cm" if "(t, s, r) \<in> set rets" for t s r
    using inv that unfolding gc_inv_def returned_inv_def by (cases r) fastforce+
  ultimately show ?thesis using inv by blast
qed

lemma sample_gc_run:
  assumes led: "ledger_run D fmul rule policy keep chain L rr hs0" and s: "wf_share s"
    and rec: "record_batch D [s] L = Some (Inr (n, L'))"
  shows "\<exists>st. gc_run D fmul rule policy keep chain hs0 L' st Map.empty None [(0, s)] [(0, s, Inr n)]"
proof -
  note r0 = gc_start [OF led]
  let ?st1 = "gc_new\<lparr>gc_next_ticket := 1, gc_queued := [(0, s)]\<rparr>"
  have r1: "gc_run D fmul rule policy keep chain hs0 L ?st1 (Map.empty(0 \<mapsto> s)) None [] []"
    by (rule gc_arrive [OF r0 s]) (simp add: gc_enqueue_def gc_new_def)
  let ?st2 = "gc_new\<lparr>gc_next_ticket := 1, gc_committing := True\<rparr>"
  have r2: "gc_run D fmul rule policy keep chain hs0 L ?st2 (Map.empty(0 \<mapsto> s)) (Some [(0, s)]) [] []"
    by (rule gc_lead [OF r1, of 0]) (simp_all add: gc_poll_def gc_new_def MAX_BATCH_def)
  have r3: "gc_run D fmul rule policy keep chain hs0 L' (gc_publish [0] (Inr n) ?st2) (Map.empty(0 \<mapsto> s)) None ([] @ [(0, s)]) []"
    using gc_commit [OF r2, of n L'] rec by simp
  have "gc_run D fmul rule policy keep chain hs0 L' ((gc_publish [0] (Inr n) ?st2)\<lparr>gc_results := (gc_results (gc_publish [0] (Inr n) ?st2))(0 := None)\<rparr>)
      ((Map.empty(0 \<mapsto> s))(0 := None)) None ([] @ [(0, s)]) ([] @ [(0, s, Inr n)])"
    by (rule gc_return [OF r3]) (simp_all add: gc_poll_def gc_publish_def ticket_result_def)
  then show ?thesis by auto
qed

theorem group_commit_acknowledges_witness:
  "\<exists>(L :: tables ledger) st n. gc_run mem_redb (\<lambda>a b. Finite 10) (Finite 10) no_fee None None [Window.sample_share 1 5] L st
     Map.empty None [(0, Window.sample_share 2 7)] [(0, Window.sample_share 2 7, Inr n)] \<and>
     (0, Window.sample_share 2 7) \<in> set [(0, Window.sample_share 2 7)]"
proof -
  obtain L0 st0 where run: "ledger_run mem_redb (\<lambda>a b. Finite 10) (Finite 10) no_fee None None L0 None [Window.sample_share 1 5]"
    "lg_store L0 = Some st0" using sample_run by blast
  have wf: "wf_share (Window.sample_share 2 7)"
    by (simp add: wf_share_def Window.sample_share_def NAME_SEPARATOR_def utf8_valid_ascii)
  obtain n L' where "record_batch mem_redb [Window.sample_share 2 7] L0 = Some (Inr (n, L'))"
    using batch_total [OF ledger_run_inv [OF run(1) mem_redb_ok], of "[Window.sample_share 2 7]"] run(2)
    by (auto simp: record_batch_def Let_def insert_batch_def mem_redb_def)
  from sample_gc_run [OF run(1) wf this] obtain st where
    gc: "gc_run mem_redb (\<lambda>a b. Finite 10) (Finite 10) no_fee None None [Window.sample_share 1 5] L' st
      Map.empty None [(0, Window.sample_share 2 7)] [(0, Window.sample_share 2 7, Inr n)]" by blast
  from group_commit_acknowledges [OF gc] gc show ?thesis by auto
qed

text \<open>No caller waits for nothing: in every state, a caller that has not returned finds its result,
  or a commit is running, or it leads the next one, which is not empty; and a running commit always
  returns.\<close>

theorem group_commit_progress:
  assumes run: "gc_run D fmul rule policy keep chain hs0 L st w running cm rets" and D: "redb_ok D" and t: "w t = Some s"
  shows "(\<exists>r. fst (gc_poll t st) = Finished r) \<or>
    (\<exists>b. running = Some b \<and> record_batch D (map snd b) L \<noteq> None) \<or>
    (\<exists>b. b \<noteq> [] \<and> fst (gc_poll t st) = Leads b)"
proof -
  obtain rr where inv: "gc_inv st w running cm rets" and led: "ledger_run D fmul rule policy keep chain L rr (hs0 @ map snd cm)"
    using gc_run_inv [OF run] by blast
  show ?thesis
  proof (cases running)
    case (Some b)
    then show ?thesis using batch_total [OF ledger_run_inv [OF led D]] by blast
  next
    case None
    show ?thesis
    proof (cases "gc_results st t")
      case (Some r)
      then show ?thesis by (simp add: gc_poll_def)
    next
      case no: None
      then have "(t, s) \<in> set (gc_queued st)" using inv t None unfolding gc_inv_def callers_inv_def by fastforce
      then have "gc_queued st \<noteq> []" by auto
      then have "take (min (length (gc_queued st)) MAX_BATCH) (gc_queued st) \<noteq> []" by (simp add: MAX_BATCH_def)
      then show ?thesis using no inv None by (simp add: gc_poll_def gc_inv_def Let_def)
    qed
  qed
qed

theorem group_commit_progress_witness:
  "\<exists>b. b \<noteq> [] \<and> fst (gc_poll 0 (gc_new\<lparr>gc_next_ticket := 1, gc_queued := [(0, Window.sample_share 2 7)]\<rparr>)) = Leads b"
proof -
  obtain L0 where run: "ledger_run mem_redb (\<lambda>a b. Finite 10) (Finite 10) no_fee None None L0 None [Window.sample_share 1 5]"
    using sample_run by blast
  let ?st = "gc_new\<lparr>gc_next_ticket := 1, gc_queued := [(0, Window.sample_share 2 7)]\<rparr>"
  have wf: "wf_share (Window.sample_share 2 7)"
    by (simp add: wf_share_def Window.sample_share_def NAME_SEPARATOR_def utf8_valid_ascii)
  have "gc_run mem_redb (\<lambda>a b. Finite 10) (Finite 10) no_fee None None [Window.sample_share 1 5] L0 ?st
      (Map.empty(0 \<mapsto> Window.sample_share 2 7)) None [] []"
    by (rule gc_arrive [OF gc_start [OF run] wf]) (simp add: gc_enqueue_def gc_new_def)
  from group_commit_progress [OF this mem_redb_ok, of 0 "Window.sample_share 2 7"] show ?thesis
    by (auto simp: gc_poll_def gc_new_def Let_def)
qed

end
