(* ===== verification/Blocks.thy ===== *)
theory Blocks
  imports Store
begin

text \<open>
  The block records (\<^verbatim>\<open>prime/src/ledger/blocks.rs\<close>): the blocks the pool found, what their coinbases
  left owed and the node's last confirmation reading of each, in memory and as rows of three tables
  of the ledger file keyed by block hash.

  An operation that cannot write returns the error (\<open>Inl\<close>) and changes nothing.  The network
  difficulty of a block is stored and read as the 64 bits of its \<open>f64\<close>, which stand for it here;
  a confirmation count is its 64 bits, read as signed.
\<close>

section \<open>The records\<close>

record owed_block =
  ob_found_at :: nat
  ob_height :: nat
  ob_block_hash :: bytes
  ob_settled_at :: "nat option"
  ob_entries :: "payout list"

definition owed_total :: "owed_block \<Rightarrow> nat" where
  "owed_total o' = sum_list (map po_sats (ob_entries o')) mod 2 ^ 64"

record confirmation_reading =
  cr_checked_at :: nat
  cr_confirmations :: u64

definition NOT_STORED :: u64 where "NOT_STORED = 2 ^ 63"

definition on_best_chain :: "u64 \<Rightarrow> bool" where
  "on_best_chain confirmations \<longleftrightarrow> 0 \<le> sint confirmations"

definition reading_on_best_chain :: "confirmation_reading \<Rightarrow> bool" where
  "reading_on_best_chain c = on_best_chain (cr_confirmations c)"

definition node_stores_block :: "confirmation_reading \<Rightarrow> bool" where
  "node_stores_block c \<longleftrightarrow> cr_confirmations c \<noteq> NOT_STORED"

record found_block =
  fb_found_at :: nat
  fb_height :: nat
  fb_block_hash :: bytes
  fb_paid_to_split :: nat
  fb_paid_to_pool :: nat
  fb_finder :: bytes
  fb_tag_secondary :: bytes
  fb_network_difficulty :: u64
  fb_cumulative_work :: nat

section \<open>Rows\<close>

definition put_u128_le :: "nat \<Rightarrow> bytes" where
  "put_u128_le n = le_bytes 16 n"

definition pack_owed :: "owed_block \<Rightarrow> bytes" where
  "pack_owed o' =
     put_u64_le (as_u64 (ob_found_at o')) @ put_u32_le (as_u32 (ob_height o')) @
     put_u64_le (as_u64 (owed_total o')) @
     put_u64_le (as_u64 (case ob_settled_at o' of None \<Rightarrow> 0 | Some s \<Rightarrow> s)) @
     put_u16_le (as_u16 (length (ob_entries o'))) @
     concat (map (\<lambda>p. put_u16_le (as_u16 (length (po_identity p))) @ po_identity p @ put_u64_le (as_u64 (po_sats p)))
       (ob_entries o'))"

definition read_entry :: "byte_reader \<Rightarrow> truncated + (payout \<times> byte_reader)" where
  "read_entry c =
     bindr (rd_u16 ''identity length'' c) (\<lambda>(len, c).
     bindr (rd_take (unat len) ''identity'' c) (\<lambda>(identity, c).
     bindr (rd_u64 ''sats'' c) (\<lambda>(sats, c).
     Inr (\<lparr>po_identity = from_utf8_lossy identity, po_sats = unat sats\<rparr>, c))))"

definition unpack_owed :: "bytes \<Rightarrow> bytes \<Rightarrow> owed_block option" where
  "unpack_owed hash bytes =
     (if length hash \<noteq> 32 then None
      else
        okq (rd_u64 ''found_at'' (rd_new bytes)) (\<lambda>(found_at, c).
        okq (rd_u32 ''height'' c) (\<lambda>(height, c).
        okq (rd_advance 8 ''total'' c) (\<lambda>c.
        okq (rd_u64 ''settled_at'' c) (\<lambda>(settled, c).
        okq (rd_u16 ''entry count'' c) (\<lambda>(count, c).
        okq (rd_times (unat count) read_entry c) (\<lambda>(entries, c).
        Some \<lparr>ob_found_at = unat found_at, ob_height = unat height, ob_block_hash = hash,
          ob_settled_at = (if settled \<noteq> 0 then Some (unat settled) else None), ob_entries = entries\<rparr>)))))))"

definition pack_block :: "found_block \<Rightarrow> bytes" where
  "pack_block b =
     put_u64_le (as_u64 (fb_found_at b)) @ put_u32_le (as_u32 (fb_height b)) @
     put_u64_le (as_u64 (fb_paid_to_split b)) @ put_u64_le (as_u64 (fb_paid_to_pool b)) @
     put_u64_le (fb_network_difficulty b) @ put_u128_le (fb_cumulative_work b) @
     fb_finder b @ [NAME_SEPARATOR] @ fb_tag_secondary b"

definition unpack_block :: "bytes \<Rightarrow> bytes \<Rightarrow> found_block option" where
  "unpack_block hash bytes =
     (if length hash \<noteq> 32 then None
      else
        okq (rd_u64 ''found_at'' (rd_new bytes)) (\<lambda>(found_at, c).
        okq (rd_u32 ''height'' c) (\<lambda>(height, c).
        okq (rd_u64 ''paid_to_split'' c) (\<lambda>(paid_to_split, c).
        okq (rd_u64 ''paid_to_pool'' c) (\<lambda>(paid_to_pool, c).
        okq (rd_arr 8 ''network difficulty'' c) (\<lambda>(difficulty, c).
        okq (rd_arr 16 ''cumulative work'' c) (\<lambda>(work, c).
        let (finder, tag) = split_at_separator (br_rest c) in
        Some \<lparr>fb_found_at = unat found_at, fb_height = unat height, fb_block_hash = hash,
          fb_paid_to_split = unat paid_to_split, fb_paid_to_pool = unat paid_to_pool,
          fb_finder = from_utf8_lossy finder, fb_tag_secondary = from_utf8_lossy tag,
          fb_network_difficulty = u64_from_le difficulty, fb_cumulative_work = le_val work\<rparr>)))))))"

definition pack_confirmations :: "confirmation_reading \<Rightarrow> bytes" where
  "pack_confirmations c = put_u64_le (as_u64 (cr_checked_at c)) @ put_u64_le (cr_confirmations c)"

definition unpack_confirmations :: "bytes \<Rightarrow> bytes \<Rightarrow> (bytes \<times> confirmation_reading) option" where
  "unpack_confirmations hash bytes =
     (if length hash \<noteq> 32 then None
      else
        okq (rd_u64 ''checked_at'' (rd_new bytes)) (\<lambda>(checked_at, c).
        okq (rd_arr 8 ''confirmations'' c) (\<lambda>(confirmations, c).
        Some (hash, \<lparr>cr_checked_at = unat checked_at, cr_confirmations = u64_from_le confirmations\<rparr>))))"

section \<open>The operations\<close>

record 'db block_records =
  bk_db :: "'db option"
  bk_blocks :: "found_block list"
  bk_owed :: "owed_block list"
  bk_confirmations :: "bytes \<rightharpoonup> confirmation_reading"

record voided =
  vd_block :: "found_block option"
  vd_owed :: "owed_block option"

text \<open>\<open>table.insert\<close> and \<open>table.remove\<close> of a table keyed by bytes, in key order.\<close>

definition key_remove :: "bytes \<Rightarrow> (bytes \<times> bytes) list \<Rightarrow> (bytes \<times> bytes) list" where
  "key_remove k rows = filter (\<lambda>(j, _). j \<noteq> k) rows"

definition key_insert :: "bytes \<Rightarrow> bytes \<Rightarrow> (bytes \<times> bytes) list \<Rightarrow> (bytes \<times> bytes) list" where
  "key_insert k v rows = insort_by (\<lambda>a b. bytes_le (fst a) (fst b)) (k, v) (key_remove k rows)"

definition read_packed ::
  "'db redb \<Rightarrow> 'db \<Rightarrow> (tables \<Rightarrow> (bytes \<times> bytes) list) \<Rightarrow> (bytes \<Rightarrow> bytes \<Rightarrow> 'a option) \<Rightarrow> io_error + 'a list" where
  "read_packed D d table unpk =
     bindr (begin_read D d) (\<lambda>t. Inr (List.map_filter (\<lambda>(k, v). unpk k v) (table t)))"

definition found_first :: "found_block \<Rightarrow> found_block \<Rightarrow> bool" where
  "found_first a b \<longleftrightarrow> fb_found_at a < fb_found_at b \<or> (fb_found_at a = fb_found_at b \<and> fb_height a \<le> fb_height b)"

definition owed_first :: "owed_block \<Rightarrow> owed_block \<Rightarrow> bool" where
  "owed_first a b \<longleftrightarrow> ob_found_at a < ob_found_at b \<or> (ob_found_at a = ob_found_at b \<and> ob_height a \<le> ob_height b)"

definition no_records :: "'db block_records" where
  "no_records = \<lparr>bk_db = None, bk_blocks = [], bk_owed = [], bk_confirmations = Map.empty\<rparr>"

definition records_open :: "'db redb \<Rightarrow> 'db \<Rightarrow> io_error + 'db block_records" where
  "records_open D d =
     bindr (ok_or DbError (db_write D d (db_tables D d))) (\<lambda>d.
     bindr (read_packed D d tb_blocks unpack_block) (\<lambda>blocks.
     bindr (read_packed D d tb_owed unpack_owed) (\<lambda>owed.
     bindr (read_packed D d tb_chain_state unpack_confirmations) (\<lambda>confirmations.
     Inr \<lparr>bk_db = Some d, bk_blocks = sort_by found_first blocks, bk_owed = sort_by owed_first owed,
          bk_confirmations = fold (\<lambda>(k, c) m. m(k \<mapsto> c)) confirmations Map.empty\<rparr>))))"

text \<open>\<open>put\<close>, the change of one table being its argument.\<close>

definition put_row :: "'db redb \<Rightarrow> (tables \<Rightarrow> tables) \<Rightarrow> 'db block_records \<Rightarrow> io_error + 'db block_records" where
  "put_row D change R =
     (case bk_db R of
        None \<Rightarrow> Inr R
      | Some d \<Rightarrow> bindr (ok_or DbError (db_write D d (change (db_tables D d)))) (\<lambda>d. Inr (R\<lparr>bk_db := Some d\<rparr>)))"

definition records_block :: "'db block_records \<Rightarrow> bytes \<Rightarrow> found_block option" where
  "records_block R hash = find (\<lambda>b. fb_block_hash b = hash) (bk_blocks R)"

definition records_record_block :: "'db redb \<Rightarrow> found_block \<Rightarrow> 'db block_records \<Rightarrow> io_error + 'db block_records" where
  "records_record_block D block R =
     (if records_block R (fb_block_hash block) \<noteq> None then Inr R
      else bindr (put_row D (tb_blocks_update (key_insert (fb_block_hash block) (pack_block block))) R) (\<lambda>R.
        Inr (R\<lparr>bk_blocks := bk_blocks R @ [block]\<rparr>)))"

definition record_confirmations ::
  "'db redb \<Rightarrow> bytes \<Rightarrow> confirmation_reading \<Rightarrow> 'db block_records \<Rightarrow> io_error + (confirmation_reading option \<times> 'db block_records)" where
  "record_confirmations D hash reading R =
     bindr (put_row D (tb_chain_state_update (key_insert hash (pack_confirmations reading))) R) (\<lambda>R.
     Inr (bk_confirmations R hash, R\<lparr>bk_confirmations := (bk_confirmations R)(hash \<mapsto> reading)\<rparr>))"

definition write_owed :: "'db redb \<Rightarrow> owed_block \<Rightarrow> 'db block_records \<Rightarrow> io_error + 'db block_records" where
  "write_owed D owed R = put_row D (tb_owed_update (key_insert (ob_block_hash owed) (pack_owed owed))) R"

definition record_owed :: "'db redb \<Rightarrow> owed_block \<Rightarrow> 'db block_records \<Rightarrow> io_error + 'db block_records" where
  "record_owed D owed R =
     (if list_ex (\<lambda>o'. ob_block_hash o' = ob_block_hash owed) (bk_owed R) then Inr R
      else bindr (write_owed D owed R) (\<lambda>R. Inr (R\<lparr>bk_owed := bk_owed R @ [owed]\<rparr>)))"

definition settle_owed ::
  "'db redb \<Rightarrow> bytes \<Rightarrow> nat \<Rightarrow> 'db block_records \<Rightarrow> io_error + (owed_block option \<times> 'db block_records)" where
  "settle_owed D hash settled_at R =
     (case find_index (\<lambda>o'. ob_block_hash o' = hash) (bk_owed R) of
        None \<Rightarrow> Inr (None, R)
      | Some index \<Rightarrow>
          let owed = bk_owed R ! index in
          if ob_settled_at owed \<noteq> None then Inr (Some owed, R)
          else
            let owed = owed\<lparr>ob_settled_at := Some (max settled_at 1)\<rparr> in
            bindr (write_owed D owed R) (\<lambda>R.
            Inr (Some owed, R\<lparr>bk_owed := (bk_owed R)[index := owed]\<rparr>)))"

definition remove_at :: "nat \<Rightarrow> 'a list \<Rightarrow> 'a list" where
  "remove_at i xs = take i xs @ drop (i + 1) xs"

definition void_block ::
  "'db redb \<Rightarrow> bytes \<Rightarrow> 'db block_records \<Rightarrow> io_error + (voided \<times> 'db block_records)" where
  "void_block D hash R =
     (let block = find_index (\<lambda>b. fb_block_hash b = hash) (bk_blocks R);
          owed = find_index (\<lambda>o'. ob_block_hash o' = hash) (bk_owed R)
      in if block = None \<and> owed = None \<and> bk_confirmations R hash = None
         then Inr (\<lparr>vd_block = None, vd_owed = None\<rparr>, R)
         else
           bindr (put_row D (\<lambda>t. t\<lparr>tb_blocks := key_remove hash (tb_blocks t), tb_owed := key_remove hash (tb_owed t),
               tb_chain_state := key_remove hash (tb_chain_state t)\<rparr>) R) (\<lambda>R.
           Inr (\<lparr>vd_block = map_option ((!) (bk_blocks R)) block, vd_owed = map_option ((!) (bk_owed R)) owed\<rparr>,
             R\<lparr>bk_confirmations := (bk_confirmations R)(hash := None),
               bk_blocks := (case block of None \<Rightarrow> bk_blocks R | Some i \<Rightarrow> remove_at i (bk_blocks R)),
               bk_owed := (case owed of None \<Rightarrow> bk_owed R | Some i \<Rightarrow> remove_at i (bk_owed R))\<rparr>)))"

section \<open>Lemmas: rows read back\<close>

definition wf_payout :: "payout \<Rightarrow> bool" where
  "wf_payout p \<longleftrightarrow> length (po_identity p) < 2 ^ 16 \<and> utf8_valid (po_identity p) \<and> po_sats p < 2 ^ 64"

definition wf_owed :: "owed_block \<Rightarrow> bool" where
  "wf_owed o' \<longleftrightarrow> ob_found_at o' < 2 ^ 64 \<and> ob_height o' < 2 ^ 32 \<and> length (ob_block_hash o') = 32 \<and>
     (case ob_settled_at o' of None \<Rightarrow> True | Some s \<Rightarrow> 0 < s \<and> s < 2 ^ 64) \<and>
     length (ob_entries o') < 2 ^ 16 \<and> list_all wf_payout (ob_entries o')"

definition wf_block :: "found_block \<Rightarrow> bool" where
  "wf_block b \<longleftrightarrow> fb_found_at b < 2 ^ 64 \<and> fb_height b < 2 ^ 32 \<and> length (fb_block_hash b) = 32 \<and>
     fb_paid_to_split b < 2 ^ 64 \<and> fb_paid_to_pool b < 2 ^ 64 \<and> fb_cumulative_work b < 2 ^ 128 \<and>
     NAME_SEPARATOR \<notin> set (fb_finder b) \<and> utf8_valid (fb_finder b) \<and> utf8_valid (fb_tag_secondary b)"

definition wf_reading :: "bytes \<times> confirmation_reading \<Rightarrow> bool" where
  "wf_reading c \<longleftrightarrow> length (fst c) = 32 \<and> cr_checked_at (snd c) < 2 ^ 64"

lemma as_u64_eq_0: "n < 18446744073709551616 \<Longrightarrow> as_u64 n = 0 \<longleftrightarrow> n = 0"
  using unat_cast(3) [of n] by (metis cast_0(3) unsigned_0)

lemma unpack_pack_owed: "wf_owed o' \<Longrightarrow> unpack_owed (ob_block_hash o') (pack_owed o') = Some o'"
proof -
  assume wf: "wf_owed o'"
  let ?enc = "\<lambda>p. put_u16_le (as_u16 (length (po_identity p))) @ po_identity p @ put_u64_le (as_u64 (po_sats p))"
  have entry: "read_entry \<lparr>br_full = f, br_rest = ?enc p @ t\<rparr> = Inr (p, \<lparr>br_full = f, br_rest = t\<rparr>)"
    if "p \<in> set (ob_entries o')" for p t f
    using that wf
    by (auto simp: wf_owed_def list_all_iff wf_payout_def read_entry_def wire unat_cast)
  have entries: "rd_times (length (ob_entries o')) read_entry \<lparr>br_full = f, br_rest = concat (map ?enc (ob_entries o'))\<rparr> =
      Inr (ob_entries o', \<lparr>br_full = f, br_rest = []\<rparr>)" for f
    using rd_times_append [of "ob_entries o'" read_entry f ?enc "[]"] entry by simp
  show ?thesis
    using wf entries
    by (cases "ob_settled_at o'")
      (auto simp: wf_owed_def unpack_owed_def pack_owed_def rd_new_def wire unat_cast as_u64_eq_0)
qed

lemma unpack_pack_block: "wf_block b \<Longrightarrow> unpack_block (fb_block_hash b) (pack_block b) = Some b"
  by (simp add: wf_block_def unpack_block_def pack_block_def put_u128_le_def rd_new_def wire
      split_at_separator_names le_val_le_bytes unat_cast)

lemma unpack_pack_confirmations:
  "wf_reading c \<Longrightarrow> unpack_confirmations (fst c) (pack_confirmations (snd c)) = Some c"
  by (cases c) (simp add: wf_reading_def unpack_confirmations_def pack_confirmations_def rd_new_def wire)

section \<open>A table of packed records\<close>

text \<open>The rows of a table are those of a set of records, one under each key.\<close>

definition table_holds :: "('a \<Rightarrow> bytes) \<Rightarrow> ('a \<Rightarrow> bytes) \<Rightarrow> (bytes \<times> bytes) list \<Rightarrow> 'a set \<Rightarrow> bool" where
  "table_holds key pk rows X \<longleftrightarrow>
     distinct (map fst rows) \<and> inj_on key X \<and> set rows = (\<lambda>x. (key x, pk x)) ` X"

lemma set_key_insert: "set (key_insert k v rows) = insert (k, v) {r \<in> set rows. fst r \<noteq> k}"
proof -
  have "set (insort_by le x xs) = insert x (set xs)" for le and x :: "bytes \<times> bytes" and xs
    by (metis mset_insort_by set_mset_add_mset_insert set_mset_mset)
  then show ?thesis by (auto simp: key_insert_def key_remove_def)
qed

lemma distinct_keys_insert:
  assumes "distinct (map fst rows)"
  shows "distinct (map fst (key_insert k v rows))"
proof -
  have m: "mset (map fst (key_insert k v rows)) = mset (k # map fst (key_remove k rows))"
    by (simp add: key_insert_def)
  have "k \<notin> fst ` set (key_remove k rows)" by (auto simp: key_remove_def)
  moreover have "distinct (map fst (key_remove k rows))"
    using assms by (auto simp: key_remove_def distinct_map inj_on_def)
  ultimately have "distinct (k # map fst (key_remove k rows))" by simp
  then show ?thesis using mset_eq_imp_distinct_iff [OF m] by blast
qed

locale packed_table =
  fixes key :: "'a \<Rightarrow> bytes" and pk :: "'a \<Rightarrow> bytes" and unpk :: "bytes \<Rightarrow> bytes \<Rightarrow> 'a option" and wf :: "'a \<Rightarrow> bool"
  assumes unpack_pack: "wf x \<Longrightarrow> unpk (key x) (pk x) = Some x"
begin

lemma insert_row:
  assumes "table_holds key pk rows X"
  shows "table_holds key pk (key_insert (key x) (pk x) rows) (insert x {y \<in> X. key y \<noteq> key x})"
  using assms by (auto simp: table_holds_def set_key_insert distinct_keys_insert inj_on_def)

lemma remove_row:
  assumes "table_holds key pk rows X"
  shows "table_holds key pk (key_remove k rows) {y \<in> X. key y \<noteq> k}"
  using assms by (auto simp: table_holds_def key_remove_def distinct_map inj_on_def)

lemma rows_unpack:
  "(\<forall>r \<in> set rows. \<exists>x. wf x \<and> r = (key x, pk x)) \<Longrightarrow>
     map (\<lambda>x. (key x, pk x)) (List.map_filter (\<lambda>(k, v). unpk k v) rows) = rows"
  by (induction rows) (auto simp: map_filter_simps unpack_pack)

lemma read_rows:
  assumes h: "table_holds key pk rows X" and wf: "\<forall>x \<in> X. wf x"
  shows "distinct (map key (List.map_filter (\<lambda>(k, v). unpk k v) rows))"
    "set (List.map_filter (\<lambda>(k, v). unpk k v) rows) = X"
proof -
  let ?xs = "List.map_filter (\<lambda>(k, v). unpk k v) rows"
  have rows: "map (\<lambda>x. (key x, pk x)) ?xs = rows"
    by (rule rows_unpack) (use h wf in \<open>auto simp: table_holds_def\<close>)
  from arg_cong [OF this, of "map fst"] show "distinct (map key ?xs)"
    using h by (simp add: table_holds_def comp_def)
  show "set ?xs = X"
  proof
    show "X \<subseteq> set ?xs"
    proof
      fix x assume "x \<in> X"
      then have "(key x, pk x) \<in> set rows" "unpk (key x) (pk x) = Some x"
        using h wf unpack_pack by (auto simp: table_holds_def)
      then show "x \<in> set ?xs" by (force simp: map_filter_def)
    qed
    show "set ?xs \<subseteq> X" using h wf unpack_pack by (force simp: map_filter_def table_holds_def)
  qed
qed

end

interpretation block_rows: packed_table fb_block_hash pack_block unpack_block wf_block
  by unfold_locales (rule unpack_pack_block)

interpretation owed_rows: packed_table ob_block_hash pack_owed unpack_owed wf_owed
  by unfold_locales (rule unpack_pack_owed)

interpretation reading_rows: packed_table fst "\<lambda>c. pack_confirmations (snd c)" unpack_confirmations wf_reading
  by unfold_locales (rule unpack_pack_confirmations)

section \<open>The file holds the records\<close>

definition list_rows :: "('a \<Rightarrow> bytes) \<Rightarrow> ('a \<Rightarrow> bytes) \<Rightarrow> ('a \<Rightarrow> bool) \<Rightarrow> (bytes \<times> bytes) list \<Rightarrow> 'a list \<Rightarrow> bool" where
  "list_rows key pk good rows xs \<longleftrightarrow> table_holds key pk rows (set xs) \<and> distinct (map key xs) \<and> (\<forall>x \<in> set xs. good x)"

definition map_rows :: "(bytes \<times> bytes) list \<Rightarrow> (bytes \<rightharpoonup> confirmation_reading) \<Rightarrow> bool" where
  "map_rows rows m \<longleftrightarrow> table_holds fst (\<lambda>c. pack_confirmations (snd c)) rows (Map.graph m) \<and> (\<forall>c \<in> Map.graph m. wf_reading c)"

abbreviation block_rows_of where "block_rows_of \<equiv> list_rows fb_block_hash pack_block wf_block"
abbreviation owed_rows_of where "owed_rows_of \<equiv> list_rows ob_block_hash pack_owed wf_owed"

definition records_inv :: "'db redb \<Rightarrow> 'db block_records \<Rightarrow> bool" where
  "records_inv D R \<longleftrightarrow> (\<exists>d. bk_db R = Some d \<and>
     block_rows_of (tb_blocks (db_tables D d)) (bk_blocks R) \<and> owed_rows_of (tb_owed (db_tables D d)) (bk_owed R) \<and>
     map_rows (tb_chain_state (db_tables D d)) (bk_confirmations R))"

context packed_table
begin

lemma rows_append:
  assumes "list_rows key pk wf rows xs" "wf x" "key x \<notin> key ` set xs"
  shows "list_rows key pk wf (key_insert (key x) (pk x) rows) (xs @ [x])"
proof -
  have "{y \<in> set xs. key y \<noteq> key x} = set xs" using assms(3) by (auto simp: image_iff)
  then have "table_holds key pk (key_insert (key x) (pk x) rows) (set (xs @ [x]))"
    using insert_row [of rows "set xs" x] assms(1) by (simp add: list_rows_def)
  then show ?thesis using assms by (auto simp: list_rows_def)
qed

lemma rows_update:
  assumes h: "list_rows key pk wf rows xs" and "wf x" and i: "i < length xs" and x: "key x = key (xs ! i)"
  shows "list_rows key pk wf (key_insert (key x) (pk x) rows) (xs[i := x])"
proof -
  have d: "distinct (map key xs)" using h by (simp add: list_rows_def)
  have keys: "map key (xs[i := x]) = map key xs" using i x by (metis list_update_id map_update nth_map)
  have "set (xs[i := x]) = insert x {y \<in> set xs. key y \<noteq> key x}"
  proof (intro equalityI subsetI)
    fix y assume "y \<in> set (xs[i := x])"
    then obtain j where j: "j < length xs" "y = xs[i := x] ! j" by (auto simp: in_set_conv_nth)
    then show "y \<in> insert x {y \<in> set xs. key y \<noteq> key x}"
      using d i x nth_eq_iff_index_eq [OF d, of j i] by (cases "j = i") auto
  next
    fix y assume y: "y \<in> insert x {y \<in> set xs. key y \<noteq> key x}"
    show "y \<in> set (xs[i := x])"
    proof (cases "y = x")
      case True
      then show ?thesis using i by (simp add: set_update_memI)
    next
      case False
      then obtain j where j: "j < length xs" "y = xs ! j" "key y \<noteq> key x" using y by (auto simp: in_set_conv_nth)
      then have "j \<noteq> i" using x by auto
      then show ?thesis using j by (metis length_list_update nth_list_update_neq nth_mem)
    qed
  qed
  then show ?thesis
    using insert_row [of rows "set xs" x] h keys assms(2) by (auto simp: list_rows_def)
qed

lemma rows_remove:
  assumes h: "list_rows key pk wf rows xs"
  shows "list_rows key pk wf (key_remove k rows)
    (case find_index (\<lambda>y. key y = k) xs of None \<Rightarrow> xs | Some i \<Rightarrow> remove_at i xs)" (is "list_rows _ _ _ _ ?xs")
proof -
  have "?xs = filter (\<lambda>y. key y \<noteq> k) xs"
  proof (cases "k \<in> key ` set xs")
    case True
    then obtain ys x zs where xs: "xs = ys @ x # zs" "key x = k" by (auto dest: split_list)
    then have other: "\<forall>y \<in> set ys. key y \<noteq> k" "\<forall>y \<in> set zs. key y \<noteq> k"
      using h by (simp_all add: list_rows_def) (metis imageI)+
    then have "find_index (\<lambda>y. key y = k) xs = Some (length ys)" using xs by (simp add: find_index_prefix)
    then show ?thesis using xs other by (simp add: remove_at_def filter_id_conv)
  next
    case False
    then have "find_index (\<lambda>y. key y = k) xs = None" "filter (\<lambda>y. key y \<noteq> k) xs = xs"
      by (auto simp: find_index_None filter_id_conv)
    then show ?thesis by simp
  qed
  then show ?thesis
    using remove_row [of rows "set xs" k] h by (auto simp: list_rows_def distinct_map inj_on_def)
qed

lemma rows_sorted:
  assumes h: "list_rows key pk wf rows xs"
  shows "mset (sort_by le (List.map_filter (\<lambda>(k, v). unpk k v) rows)) = mset xs"
    "list_rows key pk wf rows (sort_by le (List.map_filter (\<lambda>(k, v). unpk k v) rows))"
proof -
  let ?ys = "List.map_filter (\<lambda>(k, v). unpk k v) rows"
  note r = read_rows [of rows "set xs"]
  have d: "distinct (map key ?ys)" "set ?ys = set xs" using r h by (simp_all add: list_rows_def)
  then have "mset ?ys = mset xs"
    using h by (simp add: list_rows_def distinct_map set_eq_iff_mset_eq_distinct [symmetric])
  then show m: "mset (sort_by le ?ys) = mset xs" by simp
  then have "mset (map key (sort_by le ?ys)) = mset (map key xs)" by simp
  from mset_eq_imp_distinct_iff [OF this] have "distinct (map key (sort_by le ?ys))"
    using h by (simp add: list_rows_def)
  moreover have "set (sort_by le ?ys) = set xs" using d(2) by simp
  ultimately show "list_rows key pk wf rows (sort_by le ?ys)"
    using h by (simp add: list_rows_def)
qed

end

section \<open>Every operation keeps the file and the memory in step\<close>

lemma put_row_writes:
  assumes "redb_ok D" "bk_db R = Some d" "put_row D change R = Inr R'"
  shows "\<exists>d'. R' = R\<lparr>bk_db := Some d'\<rparr> \<and> db_tables D d' = change (db_tables D d)"
  using assms by (auto simp: put_row_def tryq_Inr_iff redb_ok_def)

lemma graph_update: "Map.graph (m(k \<mapsto> v)) = insert (k, v) {y \<in> Map.graph m. fst y \<noteq> k}"
  by (auto simp: Map.graph_def split: if_splits)

lemma graph_remove: "Map.graph (m(k := None)) = {y \<in> Map.graph m. fst y \<noteq> k}"
  by (auto simp: Map.graph_def split: if_splits)

lemma map_rows_insert:
  "map_rows rows m \<Longrightarrow> wf_reading (k, c) \<Longrightarrow> map_rows (key_insert k (pack_confirmations c) rows) (m(k \<mapsto> c))"
  using reading_rows.insert_row [of rows "Map.graph m" "(k, c)"] unfolding map_rows_def graph_update by auto

lemma map_rows_remove: "map_rows rows m \<Longrightarrow> map_rows (key_remove k rows) (m(k := None))"
  using reading_rows.remove_row [of rows "Map.graph m" k] unfolding map_rows_def graph_remove by auto

lemma map_rows_read:
  assumes "map_rows rows m"
  shows "fold (\<lambda>(k, c) m. m(k \<mapsto> c)) (List.map_filter (\<lambda>(k, v). unpack_confirmations k v) rows) Map.empty = m"
proof -
  have upd: "fold (\<lambda>(k, c) m. m(k \<mapsto> c)) xs m = m ++ map_of (rev xs)" for xs :: "(bytes \<times> confirmation_reading) list" and m
    by (induction xs arbitrary: m) (auto simp: map_add_def fun_eq_iff split: option.split)
  let ?xs = "List.map_filter (\<lambda>(k, v). unpack_confirmations k v) rows"
  have d: "distinct (map fst (rev ?xs))" "set (rev ?xs) = Map.graph m"
    using reading_rows.read_rows [of rows "Map.graph m"] assms by (simp_all add: map_rows_def rev_map [symmetric])
  have "map_of (rev ?xs) = m"
  proof
    fix k
    have "map_of (rev ?xs) k = Some c \<longleftrightarrow> m k = Some c" for c
      using map_of_eq_Some_iff [OF d(1), of k c] d(2) by (simp add: Map.graph_def)
    then show "map_of (rev ?xs) k = m k" by (metis not_Some_eq)
  qed
  then show ?thesis by (simp add: upd)
qed

lemma records_invE:
  assumes "records_inv D R"
  obtains d where "bk_db R = Some d" "block_rows_of (tb_blocks (db_tables D d)) (bk_blocks R)"
    "owed_rows_of (tb_owed (db_tables D d)) (bk_owed R)" "map_rows (tb_chain_state (db_tables D d)) (bk_confirmations R)"
  using assms by (auto simp: records_inv_def)

datatype records_op =
  Op_Block found_block
| Op_Reading bytes confirmation_reading
| Op_Owed owed_block
| Op_Settle bytes nat
| Op_Void bytes

fun do_record_op :: "'db redb \<Rightarrow> records_op \<Rightarrow> 'db block_records \<Rightarrow> io_error + 'db block_records" where
  "do_record_op D (Op_Block b) R = records_record_block D b R"
| "do_record_op D (Op_Reading hash c) R = map_sum id snd (record_confirmations D hash c R)"
| "do_record_op D (Op_Owed owed) R = record_owed D owed R"
| "do_record_op D (Op_Settle hash at_time) R = map_sum id snd (settle_owed D hash at_time R)"
| "do_record_op D (Op_Void hash) R = map_sum id snd (void_block D hash R)"

fun wf_op :: "records_op \<Rightarrow> bool" where
  "wf_op (Op_Block b) = wf_block b"
| "wf_op (Op_Reading hash c) = wf_reading (hash, c)"
| "wf_op (Op_Owed owed) = wf_owed owed"
| "wf_op (Op_Settle hash at_time) = (at_time < 2 ^ 64)"
| "wf_op (Op_Void hash) = True"

text \<open>An operation that fails leaves the records as they were.\<close>

definition run_record_op :: "'db redb \<Rightarrow> records_op \<Rightarrow> 'db block_records \<Rightarrow> 'db block_records" where
  "run_record_op D rop R = (case do_record_op D rop R of Inl _ \<Rightarrow> R | Inr R' \<Rightarrow> R')"

lemma map_sum_snd_Inr: "map_sum id snd x = Inr y \<longleftrightarrow> (\<exists>a. x = Inr (a, y))"
  by (cases x) auto

lemma record_block_inv:
  assumes D: "redb_ok D" and inv: "records_inv D R" and wf: "wf_block b" and op: "records_record_block D b R = Inr R'"
  shows "records_inv D R'"
proof (rule records_invE [OF inv])
  fix d assume a: "bk_db R = Some d" "block_rows_of (tb_blocks (db_tables D d)) (bk_blocks R)"
    "owed_rows_of (tb_owed (db_tables D d)) (bk_owed R)" "map_rows (tb_chain_state (db_tables D d)) (bk_confirmations R)"
  show ?thesis
  proof (cases "records_block R (fb_block_hash b)")
    case None
    then have fresh: "fb_block_hash b \<notin> fb_block_hash ` set (bk_blocks R)"
      by (auto simp: records_block_def find_None_iff)
    obtain d' where "R' = R\<lparr>bk_db := Some d', bk_blocks := bk_blocks R @ [b]\<rparr>"
      "db_tables D d' = tb_blocks_update (key_insert (fb_block_hash b) (pack_block b)) (db_tables D d)"
      using op None put_row_writes [OF D a(1)] by (fastforce simp: records_record_block_def tryq_Inr_iff)
    then show ?thesis using a block_rows.rows_append [OF a(2) wf fresh] by (simp add: records_inv_def)
  qed (use op inv in \<open>simp add: records_record_block_def\<close>)
qed

lemma record_confirmations_inv:
  assumes D: "redb_ok D" and inv: "records_inv D R" and wf: "wf_reading (hash, c)"
    and op: "record_confirmations D hash c R = Inr (old, R')"
  shows "records_inv D R'"
proof (rule records_invE [OF inv])
  fix d assume a: "bk_db R = Some d" "block_rows_of (tb_blocks (db_tables D d)) (bk_blocks R)"
    "owed_rows_of (tb_owed (db_tables D d)) (bk_owed R)" "map_rows (tb_chain_state (db_tables D d)) (bk_confirmations R)"
  obtain d' where "R' = R\<lparr>bk_db := Some d', bk_confirmations := (bk_confirmations R)(hash \<mapsto> c)\<rparr>"
    "db_tables D d' = tb_chain_state_update (key_insert hash (pack_confirmations c)) (db_tables D d)"
    using op put_row_writes [OF D a(1)] by (fastforce simp: record_confirmations_def tryq_Inr_iff)
  then show ?thesis using a map_rows_insert [OF a(4) wf] by (simp add: records_inv_def)
qed

lemma record_owed_inv:
  assumes D: "redb_ok D" and inv: "records_inv D R" and wf: "wf_owed b" and op: "record_owed D b R = Inr R'"
  shows "records_inv D R'"
proof (rule records_invE [OF inv])
  fix d assume a: "bk_db R = Some d" "block_rows_of (tb_blocks (db_tables D d)) (bk_blocks R)"
    "owed_rows_of (tb_owed (db_tables D d)) (bk_owed R)" "map_rows (tb_chain_state (db_tables D d)) (bk_confirmations R)"
  show ?thesis
  proof (cases "list_ex (\<lambda>o'. ob_block_hash o' = ob_block_hash b) (bk_owed R)")
    case False
    then have fresh: "ob_block_hash b \<notin> ob_block_hash ` set (bk_owed R)" by (auto simp: list_ex_iff)
    obtain d' where "R' = R\<lparr>bk_db := Some d', bk_owed := bk_owed R @ [b]\<rparr>"
      "db_tables D d' = tb_owed_update (key_insert (ob_block_hash b) (pack_owed b)) (db_tables D d)"
      using op False put_row_writes [OF D a(1)] by (fastforce simp: record_owed_def write_owed_def tryq_Inr_iff)
    then show ?thesis using a owed_rows.rows_append [OF a(3) wf fresh] by (simp add: records_inv_def)
  qed (use op inv in \<open>simp add: record_owed_def\<close>)
qed

lemma settle_owed_inv:
  assumes D: "redb_ok D" and inv: "records_inv D R" and at_time: "at_time < 2 ^ 64"
    and op: "settle_owed D hash at_time R = Inr (r, R')"
  shows "records_inv D R'"
proof (rule records_invE [OF inv])
  fix d assume a: "bk_db R = Some d" "block_rows_of (tb_blocks (db_tables D d)) (bk_blocks R)"
    "owed_rows_of (tb_owed (db_tables D d)) (bk_owed R)" "map_rows (tb_chain_state (db_tables D d)) (bk_confirmations R)"
  consider (same) "R' = R" | (settled) i owed where "find_index (\<lambda>o'. ob_block_hash o' = hash) (bk_owed R) = Some i"
      "owed = (bk_owed R ! i)\<lparr>ob_settled_at := Some (max at_time 1)\<rparr>"
      "write_owed D owed R = Inr (R'\<lparr>bk_owed := bk_owed R\<rparr>)" "bk_owed R' = (bk_owed R)[i := owed]"
    using op put_row_writes [OF D a(1)]
    by (fastforce simp: settle_owed_def write_owed_def Let_def tryq_Inr_iff split: option.splits if_splits)
  then show ?thesis
  proof cases
    case settled
    have i: "i < length (bk_owed R)" using find_index_Some [OF settled(1)] by simp
    then have wf: "wf_owed owed" and key: "ob_block_hash owed = ob_block_hash (bk_owed R ! i)"
      using a(3) settled(2) at_time by (auto simp: list_rows_def wf_owed_def)
    obtain d' where d': "R'\<lparr>bk_owed := bk_owed R\<rparr> = R\<lparr>bk_db := Some d'\<rparr>"
      "db_tables D d' = tb_owed_update (key_insert (ob_block_hash owed) (pack_owed owed)) (db_tables D d)"
      using put_row_writes [OF D a(1) settled(3) [unfolded write_owed_def]] by blast
    have "R' = (R'\<lparr>bk_owed := bk_owed R\<rparr>)\<lparr>bk_owed := bk_owed R'\<rparr>" by simp
    also have "\<dots> = R\<lparr>bk_db := Some d', bk_owed := (bk_owed R)[i := owed]\<rparr>" using d'(1) settled(4) by simp
    finally show ?thesis
      using a d'(2) owed_rows.rows_update [OF a(3) wf i key] by (simp add: records_inv_def)
  qed (use inv in simp)
qed

lemma void_block_inv:
  assumes D: "redb_ok D" and inv: "records_inv D R" and op: "void_block D hash R = Inr (v, R')"
  shows "records_inv D R'"
proof (rule records_invE [OF inv])
  fix d assume a: "bk_db R = Some d" "block_rows_of (tb_blocks (db_tables D d)) (bk_blocks R)"
    "owed_rows_of (tb_owed (db_tables D d)) (bk_owed R)" "map_rows (tb_chain_state (db_tables D d)) (bk_confirmations R)"
  show ?thesis
  proof (cases "find_index (\<lambda>b. fb_block_hash b = hash) (bk_blocks R) = None \<and>
      find_index (\<lambda>o'. ob_block_hash o' = hash) (bk_owed R) = None \<and> bk_confirmations R hash = None")
    case True
    then show ?thesis using op inv by (simp add: void_block_def)
  next
    case False
    obtain R1 where R1: "put_row D (\<lambda>t. t\<lparr>tb_blocks := key_remove hash (tb_blocks t), tb_owed := key_remove hash (tb_owed t),
          tb_chain_state := key_remove hash (tb_chain_state t)\<rparr>) R = Inr R1"
      and R': "R' = R1\<lparr>bk_confirmations := (bk_confirmations R1)(hash := None),
        bk_blocks := (case find_index (\<lambda>b. fb_block_hash b = hash) (bk_blocks R) of None \<Rightarrow> bk_blocks R1 | Some i \<Rightarrow> remove_at i (bk_blocks R1)),
        bk_owed := (case find_index (\<lambda>o'. ob_block_hash o' = hash) (bk_owed R) of None \<Rightarrow> bk_owed R1 | Some i \<Rightarrow> remove_at i (bk_owed R1))\<rparr>"
      using op False unfolding void_block_def Let_def if_not_P [OF False] tryq_Inr_iff by blast
    from put_row_writes [OF D a(1) R1] obtain d' where d': "R1 = R\<lparr>bk_db := Some d'\<rparr>"
      "db_tables D d' = (db_tables D d)\<lparr>tb_blocks := key_remove hash (tb_blocks (db_tables D d)),
        tb_owed := key_remove hash (tb_owed (db_tables D d)), tb_chain_state := key_remove hash (tb_chain_state (db_tables D d))\<rparr>"
      by blast
    have sel: "bk_blocks R1 = bk_blocks R" "bk_owed R1 = bk_owed R" using d'(1) by simp_all
    show ?thesis
      using R' [unfolded sel] d' block_rows.rows_remove [OF a(2)] owed_rows.rows_remove [OF a(3)] map_rows_remove [OF a(4)]
      by (simp add: records_inv_def)
  qed
qed

lemma record_op_inv:
  "redb_ok D \<Longrightarrow> records_inv D R \<Longrightarrow> wf_op rop \<Longrightarrow> records_inv D (run_record_op D rop R)"
  by (cases rop)
    (auto simp: run_record_op_def map_sum_snd_Inr split: sum.split
      intro: record_block_inv record_confirmations_inv record_owed_inv settle_owed_inv void_block_inv)

lemma record_ops_inv:
  "redb_ok D \<Longrightarrow> records_inv D R \<Longrightarrow> list_all wf_op ops \<Longrightarrow> records_inv D (fold (run_record_op D) ops R)"
  by (induction ops arbitrary: R) (simp_all add: record_op_inv)

section \<open>What the records guarantee\<close>

interpretation found_order: comparison found_first
  by unfold_locales (auto simp: found_first_def)

interpretation owed_order: comparison owed_first
  by unfold_locales (auto simp: owed_first_def)

lemma records_reopen:
  assumes D: "redb_ok D" and inv: "records_inv D R" and d: "bk_db R = Some d" and op: "records_open D d = Inr R'"
  shows "mset (bk_blocks R') = mset (bk_blocks R) \<and> mset (bk_owed R') = mset (bk_owed R) \<and>
    bk_confirmations R' = bk_confirmations R \<and> records_inv D R' \<and>
    sorted_wrt found_first (bk_blocks R') \<and> sorted_wrt owed_first (bk_owed R')"
proof (rule records_invE [OF inv])
  fix d0 assume a: "bk_db R = Some d0" "block_rows_of (tb_blocks (db_tables D d0)) (bk_blocks R)"
    "owed_rows_of (tb_owed (db_tables D d0)) (bk_owed R)" "map_rows (tb_chain_state (db_tables D d0)) (bk_confirmations R)"
  let ?t = "db_tables D d"
  from a d have [simp]: "d0 = d" by simp
  obtain d' where d': "db_tables D d' = ?t" and R': "R' = \<lparr>bk_db = Some d',
      bk_blocks = sort_by found_first (List.map_filter (\<lambda>(k, v). unpack_block k v) (tb_blocks ?t)),
      bk_owed = sort_by owed_first (List.map_filter (\<lambda>(k, v). unpack_owed k v) (tb_owed ?t)),
      bk_confirmations = fold (\<lambda>(k, c) m. m(k \<mapsto> c)) (List.map_filter (\<lambda>(k, v). unpack_confirmations k v) (tb_chain_state ?t)) Map.empty\<rparr>"
    using op write_tables [OF D, of d ?t]
    by (auto simp: records_open_def read_packed_def begin_read_def tryq_Inr_iff split: if_splits)
  show ?thesis
    using a d' block_rows.rows_sorted [OF a(2), of found_first] owed_rows.rows_sorted [OF a(3), of owed_first]
      map_rows_read [OF a(4)] found_order.sorted owed_order.sorted
    by (simp add: R' records_inv_def)
qed

text \<open>C37: the block records survive a restart: after any operations on a new file, some of which may
  fail, opening the file again gives every block, owed record and confirmation reading there was in
  memory and no other, the lists in the order the blocks were found; no block is recorded twice.\<close>

theorem records_survive_reopening:
  assumes "redb_ok D" "tb_blocks (db_tables D d0) = []" "tb_owed (db_tables D d0) = []" "tb_chain_state (db_tables D d0) = []"
    "records_open D d0 = Inr R0" "list_all wf_op ops" "R = fold (run_record_op D) ops R0"
    "bk_db R = Some d" "records_open D d = Inr R'"
  shows "mset (bk_blocks R') = mset (bk_blocks R) \<and> mset (bk_owed R') = mset (bk_owed R) \<and>
    bk_confirmations R' = bk_confirmations R \<and> sorted_wrt found_first (bk_blocks R') \<and>
    distinct (map fb_block_hash (bk_blocks R)) \<and> distinct (map ob_block_hash (bk_owed R))"
proof -
  have "records_inv D \<lparr>bk_db = Some d0, bk_blocks = [], bk_owed = [], bk_confirmations = Map.empty\<rparr>"
    using assms(2-4) by (simp add: records_inv_def list_rows_def map_rows_def table_holds_def)
  from records_reopen [OF assms(1) this _ assms(5)] have "records_inv D R0" by simp
  then have inv: "records_inv D R" using record_ops_inv assms(1,6,7) by blast
  moreover from inv have "distinct (map fb_block_hash (bk_blocks R)) \<and> distinct (map ob_block_hash (bk_owed R))"
    by (auto simp: records_inv_def list_rows_def)
  ultimately show ?thesis using records_reopen [OF assms(1) inv assms(8,9)] by blast
qed

definition sample_block :: found_block where
  "sample_block = \<lparr>fb_found_at = 7, fb_height = 100, fb_block_hash = replicate 32 3, fb_paid_to_split = 900,
     fb_paid_to_pool = 100, fb_finder = [0x61], fb_tag_secondary = [], fb_network_difficulty = 0, fb_cumulative_work = 12\<rparr>"

theorem records_survive_reopening_witness:
  "\<exists>R0 R d R'. records_open mem_redb no_tables = Inr R0 \<and> R = fold (run_record_op mem_redb) [Op_Block sample_block] R0 \<and>
     bk_db R = Some d \<and> records_open mem_redb d = Inr R' \<and> mset (bk_blocks R') = mset (bk_blocks R) \<and> bk_blocks R = [sample_block]"
proof -
  let ?t = "no_tables\<lparr>tb_blocks := key_insert (fb_block_hash sample_block) (pack_block sample_block) []\<rparr>"
  obtain R0 where R0: "records_open mem_redb no_tables = Inr R0" "bk_db R0 = Some no_tables" "bk_blocks R0 = []"
    by (simp add: records_open_def read_packed_def begin_read_def mem_redb_def no_tables_def map_filter_simps sort_by_def)
  have R: "fold (run_record_op mem_redb) [Op_Block sample_block] R0 = R0\<lparr>bk_db := Some ?t, bk_blocks := [sample_block]\<rparr>"
    using R0 by (simp add: run_record_op_def records_record_block_def records_block_def put_row_def mem_redb_def no_tables_def)
  obtain R' where R': "records_open mem_redb ?t = Inr R'"
    by (simp add: records_open_def read_packed_def begin_read_def mem_redb_def)
  have wf: "list_all wf_op [Op_Block sample_block]"
    by (simp add: wf_block_def sample_block_def NAME_SEPARATOR_def utf8_valid_ascii)
  from records_survive_reopening [OF mem_redb_ok _ _ _ R0(1) wf R [symmetric] _ R'] R0 R R' show ?thesis
    by (auto simp: mem_redb_def no_tables_def)
qed

end
