(* ===== verification/Address.thy ===== *)
theory Address
  imports Script Verify
begin

text \<open>
  Addresses and the output scripts they pay (\<^verbatim>\<open>core/src/bitcoin/address.rs\<close>) and the usernames that
  carry them (\<^verbatim>\<open>core/src/username.rs\<close>).

  The two encodings are the crates \<open>bech32\<close> and \<open>bs58\<close>, here an \<open>address_codec\<close>.  A human-readable
  part compares without regard to case, so a decoded one stands in lowercase.  A slice of an address
  that ends inside a character is none; both comparisons made on one need ASCII bytes there, so
  they are made on the bytes.
\<close>

section \<open>The encodings\<close>

record address_codec =
  ac_segwit_decode :: "bytes \<Rightarrow> (bytes \<times> u8 \<times> bytes) option"
  ac_segwit_encode :: "bytes \<Rightarrow> u8 \<Rightarrow> bytes \<Rightarrow> bytes option"
  ac_base58_decode :: "bytes \<Rightarrow> bytes option"
  ac_base58_encode :: "bytes \<Rightarrow> bytes"

record prefixes =
  px_hrp :: bytes
  px_pubkey_hash :: u8
  px_script_hash :: u8

definition MAIN_PREFIXES :: prefixes where
  "MAIN_PREFIXES = \<lparr>px_hrp = [0x62, 0x63], px_pubkey_hash = 0, px_script_hash = 5\<rparr>"
definition TEST_PREFIXES :: prefixes where
  "TEST_PREFIXES = \<lparr>px_hrp = [0x74, 0x62], px_pubkey_hash = 111, px_script_hash = 196\<rparr>"
definition REGTEST_PREFIXES :: prefixes where
  "REGTEST_PREFIXES = \<lparr>px_hrp = [0x62, 0x63, 0x72, 0x74], px_pubkey_hash = 111, px_script_hash = 196\<rparr>"
definition EVERY_CHAIN :: "prefixes list" where
  "EVERY_CHAIN = [MAIN_PREFIXES, TEST_PREFIXES, REGTEST_PREFIXES]"

definition OP_DUP :: u8 where "OP_DUP = 0x76"
definition OP_HASH160 :: u8 where "OP_HASH160 = 0xa9"
definition OP_EQUAL :: u8 where "OP_EQUAL = 0x87"
definition OP_EQUALVERIFY :: u8 where "OP_EQUALVERIFY = 0x88"

definition HASH160_SIZE :: nat where "HASH160_SIZE = 20"
definition BASE58_PAYLOAD_SIZE :: nat where "BASE58_PAYLOAD_SIZE = 1 + HASH160_SIZE"
definition P2PKH_SIZE :: nat where "P2PKH_SIZE = 25"
definition P2SH_SIZE :: nat where "P2SH_SIZE = 23"
definition WITNESS_V1_PROGRAM_SIZE :: nat where "WITNESS_V1_PROGRAM_SIZE = 32"
definition WITNESS_V0_PROGRAM_SIZES :: "nat list" where
  "WITNESS_V0_PROGRAM_SIZES = [HASH160_SIZE, WITNESS_V1_PROGRAM_SIZE]"
definition WITNESS_SCRIPT_PREFIX_SIZE :: nat where "WITNESS_SCRIPT_PREFIX_SIZE = 2"
definition MAX_SCRIPT_LEN :: nat where "MAX_SCRIPT_LEN = WITNESS_SCRIPT_PREFIX_SIZE + WITNESS_V1_PROGRAM_SIZE"

lemmas address_consts = OP_DUP_def OP_HASH160_def OP_EQUAL_def OP_EQUALVERIFY_def HASH160_SIZE_def
  BASE58_PAYLOAD_SIZE_def P2PKH_SIZE_def P2SH_SIZE_def WITNESS_V1_PROGRAM_SIZE_def WITNESS_V0_PROGRAM_SIZES_def
  WITNESS_SCRIPT_PREFIX_SIZE_def MAX_SCRIPT_LEN_def

lemmas chain_consts = EVERY_CHAIN_def MAIN_PREFIXES_def TEST_PREFIXES_def REGTEST_PREFIXES_def

definition ascii_uppercase :: "u8 \<Rightarrow> bool" where "ascii_uppercase b \<longleftrightarrow> 0x41 \<le> b \<and> b \<le> 0x5A"
definition ascii_lowercase :: "u8 \<Rightarrow> bool" where "ascii_lowercase b \<longleftrightarrow> 0x61 \<le> b \<and> b \<le> 0x7A"
definition to_ascii_lowercase :: "bytes \<Rightarrow> bytes" where
  "to_ascii_lowercase = map (\<lambda>b. if ascii_uppercase b then b + 0x20 else b)"

section \<open>Decoding\<close>

definition segwit_prefixes :: "bytes \<Rightarrow> prefixes option" where
  "segwit_prefixes addr =
     find (\<lambda>p. to_ascii_lowercase (take (length (px_hrp p)) addr) = px_hrp p \<and>
               length (px_hrp p) < length addr \<and> addr ! length (px_hrp p) = 0x31) EVERY_CHAIN"

definition canonical :: "bytes \<Rightarrow> bytes" where
  "canonical addr =
     (if segwit_prefixes addr \<noteq> None \<and> list_ex ascii_uppercase addr \<and> \<not> list_ex ascii_lowercase addr
      then to_ascii_lowercase addr else addr)"

definition witness_version_opcode :: "u8 \<Rightarrow> u8" where
  "witness_version_opcode version = (if version = 0 then OP_0 else OP_N_BASE + version)"

definition witness_script :: "u8 \<Rightarrow> bytes \<Rightarrow> bytes" where
  "witness_script version program =
     [witness_version_opcode version, word_of_nat (length program)] @ program"

definition pubkey_hash_script :: "bytes \<Rightarrow> bytes" where
  "pubkey_hash_script hash =
     [OP_DUP, OP_HASH160, word_of_nat HASH160_SIZE] @ hash @ [OP_EQUALVERIFY, OP_CHECKSIG]"

definition script_hash_script :: "bytes \<Rightarrow> bytes" where
  "script_hash_script hash = [OP_HASH160, word_of_nat HASH160_SIZE] @ hash @ [OP_EQUAL]"

definition to_output_script :: "address_codec \<Rightarrow> bytes \<Rightarrow> prefixes option \<Rightarrow> bytes option" where
  "to_output_script C addr chain =
     (let accepted = (\<lambda>p. chain = None \<or> chain = Some p) in
      if \<not> (16 \<le> length addr \<and> length addr < 128) then None
      else case segwit_prefixes addr of
        Some pfx \<Rightarrow>
          if \<not> accepted pfx then None
          else Option.bind (ac_segwit_decode C addr) (\<lambda>(found_hrp, v, program).
            if found_hrp \<noteq> px_hrp pfx then None
            else if \<not> (v = 0 \<and> length program \<in> set WITNESS_V0_PROGRAM_SIZES \<or>
                       v = 1 \<and> length program = WITNESS_V1_PROGRAM_SIZE) then None
            else Some (witness_script v program))
      | None \<Rightarrow>
          Option.bind (ac_base58_decode C addr) (\<lambda>decoded.
            if length decoded \<noteq> BASE58_PAYLOAD_SIZE then None
            else
              let version = decoded ! 0; hash = drop 1 decoded;
                  carried = (\<lambda>byte. list_ex (\<lambda>p. accepted p \<and> byte p = version) EVERY_CHAIN)
              in if carried px_pubkey_hash then Some (pubkey_hash_script hash)
                 else if carried px_script_hash then Some (script_hash_script hash)
                 else None))"

definition address_is_valid :: "address_codec \<Rightarrow> bytes \<Rightarrow> prefixes option \<Rightarrow> bool" where
  "address_is_valid C addr chain \<longleftrightarrow> to_output_script C addr chain \<noteq> None"

section \<open>Display\<close>

definition base58check :: "address_codec \<Rightarrow> u8 \<Rightarrow> bytes \<Rightarrow> bytes" where
  "base58check C version hash = ac_base58_encode C (version # hash)"

definition unknown_text :: bytes where "unknown_text = [0x55, 0x4E, 0x4B, 0x4E, 0x4F, 0x57, 0x4E]"
definition op_return_text :: bytes where
  "op_return_text = [0x4F, 0x50, 0x5F, 0x52, 0x45, 0x54, 0x55, 0x52, 0x4E]"

definition witness_display :: "address_codec \<Rightarrow> bytes \<Rightarrow> bytes" where
  "witness_display C script =
     (if WITNESS_SCRIPT_PREFIX_SIZE + 2 \<le> length script \<and>
         (script ! 0 = OP_0 \<or> OP_1 \<le> script ! 0 \<and> script ! 0 \<le> OP_16)
      then
        let version = (if script ! 0 = OP_0 then 0 else script ! 0 - OP_N_BASE); len = unat (script ! 1) in
        if 2 \<le> len \<and> len \<le> 40 \<and> length script = WITNESS_SCRIPT_PREFIX_SIZE + len
        then case ac_segwit_encode C (px_hrp MAIN_PREFIXES) version (drop WITNESS_SCRIPT_PREFIX_SIZE script) of
               Some s \<Rightarrow> s | None \<Rightarrow> unknown_text
        else unknown_text
      else unknown_text)"

definition output_script_to_display :: "address_codec \<Rightarrow> bytes \<Rightarrow> bytes" where
  "output_script_to_display C script =
     (if script \<noteq> [] \<and> script ! 0 = OP_RETURN then op_return_text
      else if length script = P2SH_SIZE \<and> script ! 0 = OP_HASH160 \<and> script ! 1 = word_of_nat HASH160_SIZE \<and>
              script ! (P2SH_SIZE - 1) = OP_EQUAL
        then base58check C (px_script_hash MAIN_PREFIXES) (take HASH160_SIZE (drop 2 script))
      else if length script = P2PKH_SIZE \<and> take 3 script = [OP_DUP, OP_HASH160, word_of_nat HASH160_SIZE] \<and>
              drop (3 + HASH160_SIZE) script = [OP_EQUALVERIFY, OP_CHECKSIG]
        then base58check C (px_pubkey_hash MAIN_PREFIXES) (take HASH160_SIZE (drop 3 script))
      else witness_display C script)"

section \<open>Usernames\<close>

definition split_address_worker :: "bytes \<Rightarrow> bytes \<times> bytes" where
  "split_address_worker username =
     (let i = (case find_index (\<lambda>b. b = 0x2E) username of Some i \<Rightarrow> i | None \<Rightarrow> length username)
      in (take i username, drop i username))"

definition address_of :: "bytes \<Rightarrow> bytes" where
  "address_of username = fst (split_address_worker username)"

definition identity_of :: "bytes \<Rightarrow> bytes" where
  "identity_of username = canonical (address_of username)"

section \<open>A chain's prefixes\<close>

fun address_prefixes :: "chain \<Rightarrow> prefixes option" where
  "address_prefixes Main = Some MAIN_PREFIXES"
| "address_prefixes Test = Some TEST_PREFIXES"
| "address_prefixes Testnet4 = Some TEST_PREFIXES"
| "address_prefixes Signet = Some TEST_PREFIXES"
| "address_prefixes Regtest = Some REGTEST_PREFIXES"
| "address_prefixes OtherChain = None"

definition address_script :: "address_codec \<Rightarrow> bytes \<Rightarrow> chain option \<Rightarrow> bytes option" where
  "address_script C addr chain = to_output_script C addr (Option.bind chain address_prefixes)"

section \<open>Lemmas\<close>

text \<open>The four forms an address decodes to.\<close>

definition address_form :: "bytes \<Rightarrow> bool" where
  "address_form s \<longleftrightarrow>
     (\<exists>h. length h = 20 \<and> (s = pubkey_hash_script h \<or> s = script_hash_script h)) \<or>
     (\<exists>v p. s = witness_script v p \<and> (v = 0 \<and> (length p = 20 \<or> length p = 32) \<or> v = 1 \<and> length p = 32))"

lemma address_forms:
  "length h = 20 \<Longrightarrow> address_form (pubkey_hash_script h)" "length h = 20 \<Longrightarrow> address_form (script_hash_script h)"
  "v = 0 \<and> (length p = 20 \<or> length p = 32) \<or> v = 1 \<and> length p = 32 \<Longrightarrow> address_form (witness_script v p)"
  by (auto simp: address_form_def)

lemma to_output_script_form: "to_output_script C addr chain = Some s \<Longrightarrow> address_form s"
  by (auto intro!: address_forms simp: to_output_script_def Let_def address_consts bind_eq_Some_conv
      split: if_splits option.splits)

lemma address_form_length: "address_form s \<Longrightarrow> 22 \<le> length s \<and> length s \<le> MAX_SCRIPT_LEN"
  by (auto simp: address_form_def pubkey_hash_script_def script_hash_script_def witness_script_def address_consts)

lemma lower_byte:
  "ascii_uppercase b \<Longrightarrow> \<not> ascii_uppercase (b + 0x20)" "unat c < 0x41 \<Longrightarrow> (if ascii_uppercase b then b + 0x20 else b) = c \<longleftrightarrow> b = c"
proof -
  have *: "unat b + 32 < 256" if "ascii_uppercase b"
    using that by (simp add: ascii_uppercase_def word_le_nat_alt)
  have plus: "unat (b + 0x20) = unat b + 32" if "ascii_uppercase b"
    using * [OF that] by (subst unat_add_lem [THEN iffD1]) simp_all
  show "\<not> ascii_uppercase (b + 0x20)" if "ascii_uppercase b"
    using that plus [OF that] by (simp add: ascii_uppercase_def word_le_nat_alt)
  show "(if ascii_uppercase b then b + 0x20 else b) = c \<longleftrightarrow> b = c" if "unat c < 0x41"
    using plus that by (auto simp: ascii_uppercase_def word_le_nat_alt word_unat_eq_iff)
qed

lemma to_ascii_lowercase_idem [simp]: "to_ascii_lowercase (to_ascii_lowercase a) = to_ascii_lowercase a"
  by (simp add: to_ascii_lowercase_def lower_byte)

lemma length_lowercase [simp]: "length (to_ascii_lowercase a) = length a"
  by (simp add: to_ascii_lowercase_def)

lemma segwit_prefixes_lowercase: "segwit_prefixes (to_ascii_lowercase a) = segwit_prefixes a"
proof -
  have t: "to_ascii_lowercase (take n (to_ascii_lowercase a)) = to_ascii_lowercase (take n a)" for n
    using to_ascii_lowercase_idem [of "take n a"] by (simp add: to_ascii_lowercase_def take_map)
  have "n < length a \<Longrightarrow> to_ascii_lowercase a ! n = 0x31 \<longleftrightarrow> a ! n = 0x31" for n
    by (simp add: to_ascii_lowercase_def lower_byte)
  then show ?thesis unfolding segwit_prefixes_def t by (intro arg_cong2 [where f = find]) (auto simp: fun_eq_iff)
qed

lemma no_uppercase: "\<not> list_ex ascii_uppercase (to_ascii_lowercase a)"
  by (auto simp: list_ex_iff to_ascii_lowercase_def lower_byte)

text \<open>BIP 173: an address written all in uppercase decodes as its lowercase form does.\<close>

definition codec_ignores_case :: "address_codec \<Rightarrow> bool" where
  "codec_ignores_case C \<longleftrightarrow>
     (\<forall>a. \<not> list_ex ascii_lowercase a \<longrightarrow> ac_segwit_decode C (to_ascii_lowercase a) = ac_segwit_decode C a)"

lemma canonical_script:
  assumes "codec_ignores_case C"
  shows "to_output_script C (canonical a) chain = to_output_script C a chain"
proof (cases "segwit_prefixes a \<noteq> None \<and> list_ex ascii_uppercase a \<and> \<not> list_ex ascii_lowercase a")
  case True
  then have "ac_segwit_decode C (to_ascii_lowercase a) = ac_segwit_decode C a"
    using assms by (simp add: codec_ignores_case_def)
  then show ?thesis using True
    by (auto simp: canonical_def to_output_script_def segwit_prefixes_lowercase Let_def split: option.split)
qed (simp only: canonical_def if_False)

lemma canonical_idem: "canonical (canonical a) = canonical a"
  using no_uppercase [of a] by (auto simp: canonical_def)

lemma split_at_dot: "0x2E \<notin> set a \<Longrightarrow> split_address_worker (a @ 0x2E # w) = (a, 0x2E # w)"
  by (subst split_address_worker_def) (subst find_index_prefix, auto)

text \<open>What the two encodings promise: an encoded payload decodes to itself, within the length of an
  address, and begins as a mainnet address of its kind does.\<close>

definition codec_roundtrips :: "address_codec \<Rightarrow> bool" where
  "codec_roundtrips C \<longleftrightarrow>
     (\<forall>v h. (v = 0 \<or> v = 5) \<longrightarrow> length h = 20 \<longrightarrow>
        (let a = ac_base58_encode C (v # h) in
         ac_base58_decode C a = Some (v # h) \<and> 16 \<le> length a \<and> length a < 128 \<and> (hd a = 0x31 \<or> hd a = 0x33))) \<and>
     (\<forall>v p. (v = 0 \<or> v = 1) \<longrightarrow> length p = 20 \<or> length p = 32 \<longrightarrow>
        (\<exists>a. ac_segwit_encode C [0x62, 0x63] v p = Some a \<and> ac_segwit_decode C a = Some ([0x62, 0x63], v, p) \<and>
           16 \<le> length a \<and> length a < 128 \<and> take 3 a = [0x62, 0x63, 0x31]))"

lemma not_segwit: "hd a = 0x31 \<or> hd a = 0x33 \<Longrightarrow> 16 \<le> length a \<Longrightarrow> segwit_prefixes a = None"
  by (cases a) (auto simp: segwit_prefixes_def chain_consts to_ascii_lowercase_def ascii_uppercase_def split: if_splits)

lemma segwit_main: "take 3 a = [0x62, 0x63, 0x31] \<Longrightarrow> segwit_prefixes a = Some MAIN_PREFIXES"
  by (cases a; cases "tl a"; cases "tl (tl a)")
    (auto simp: segwit_prefixes_def chain_consts to_ascii_lowercase_def ascii_uppercase_def)

lemma base58_reads_back:
  assumes "codec_roundtrips C" "v = 0 \<or> v = 5" "length h = 20"
  shows "to_output_script C (base58check C v h) (Some MAIN_PREFIXES) =
    Some (if v = 0 then pubkey_hash_script h else script_hash_script h)"
proof -
  let ?a = "ac_base58_encode C (v # h)"
  have a: "ac_base58_decode C ?a = Some (v # h)" "16 \<le> length ?a" "length ?a < 128" "hd ?a = 0x31 \<or> hd ?a = 0x33"
    using assms by (auto simp: codec_roundtrips_def Let_def)
  then show ?thesis
    using assms(2,3) not_segwit [OF a(4,2)]
    by (auto simp: to_output_script_def base58check_def Let_def address_consts chain_consts)
qed

lemma witness_reads_back:
  assumes "codec_roundtrips C" "v = 0 \<and> (length p = 20 \<or> length p = 32) \<or> v = 1 \<and> length p = 32"
  shows "to_output_script C (witness_display C (witness_script v p)) (Some MAIN_PREFIXES) = Some (witness_script v p)"
proof -
  have "(v = 0 \<or> v = 1) \<and> (length p = 20 \<or> length p = 32)" using assms(2) by auto
  then obtain a where a: "ac_segwit_encode C [0x62, 0x63] v p = Some a" "ac_segwit_decode C a = Some ([0x62, 0x63], v, p)"
    "16 \<le> length a" "length a < 128" "take 3 a = [0x62, 0x63, 0x31]"
    using assms(1) unfolding codec_roundtrips_def by blast
  have "witness_display C (witness_script v p) = a"
    using a(1) assms(2)
    by (auto simp: witness_display_def witness_script_def witness_version_opcode_def MAIN_PREFIXES_def
        opcode_consts address_consts Let_def)
  then show ?thesis
    using a segwit_main [OF a(5)] assms(2)
    by (auto simp: to_output_script_def Let_def MAIN_PREFIXES_def address_consts)
qed

lemma display_pubkey_hash:
  "length h = 20 \<Longrightarrow> output_script_to_display C (pubkey_hash_script h) = base58check C 0 h"
  by (simp add: output_script_to_display_def pubkey_hash_script_def opcode_consts address_consts MAIN_PREFIXES_def drop_Cons' take_Cons')

lemma display_script_hash:
  "length h = 20 \<Longrightarrow> output_script_to_display C (script_hash_script h) = base58check C 5 h"
  by (simp add: output_script_to_display_def script_hash_script_def opcode_consts address_consts MAIN_PREFIXES_def nth_append drop_Cons')

lemma display_witness:
  "v = 0 \<and> (length p = 20 \<or> length p = 32) \<or> v = 1 \<and> length p = 32 \<Longrightarrow>
     output_script_to_display C (witness_script v p) = witness_display C (witness_script v p)"
  by (auto simp: output_script_to_display_def witness_script_def witness_version_opcode_def opcode_consts address_consts)

text \<open>Encodings that keep the law: the payload after a prefix.\<close>

definition toy_codec :: address_codec where
  "toy_codec = \<lparr>ac_segwit_decode = (\<lambda>a. if 3 < length a then Some (take 2 a, a ! 3, drop 4 a) else None),
     ac_segwit_encode = (\<lambda>hrp v p. Some (hrp @ 0x31 # v # p)),
     ac_base58_decode = (\<lambda>a. Some (tl a)), ac_base58_encode = (\<lambda>p. 0x31 # p)\<rparr>"

lemma toy_codec_roundtrips: "codec_roundtrips toy_codec"
  by (auto simp: codec_roundtrips_def toy_codec_def Let_def nth_append take_Cons' drop_Cons')

text \<open>C38: the address a page shows for a script pays that script: whatever address a script came
  from, its mainnet form is decoded on the main chain to the same script.\<close>

theorem address_display_roundtrip:
  assumes C: "codec_roundtrips C" and s: "to_output_script C addr chain = Some script"
  shows "to_output_script C (output_script_to_display C script) (Some MAIN_PREFIXES) = Some script"
  using to_output_script_form [OF s] base58_reads_back [OF C] witness_reads_back [OF C]
  by (auto simp: address_form_def display_pubkey_hash display_script_hash display_witness)

theorem address_display_roundtrip_witness:
  "to_output_script toy_codec (output_script_to_display toy_codec (witness_script 1 (replicate 32 9))) (Some MAIN_PREFIXES) =
     Some (witness_script 1 (replicate 32 9))"
proof -
  have "to_output_script toy_codec ([0x74, 0x62, 0x31, 1] @ replicate 32 9) None = Some (witness_script 1 (replicate 32 9))"
    by (simp add: to_output_script_def segwit_prefixes_def toy_codec_def chain_consts address_consts to_ascii_lowercase_def
        ascii_uppercase_def take_Cons' drop_Cons' nth_Cons')
  from address_display_roundtrip [OF toy_codec_roundtrips this] show ?thesis .
qed

text \<open>A bech32 address mixes no cases (BIP 173), so one in either case has one identity: its lowercase form.\<close>

definition one_case :: "bytes \<Rightarrow> bool" where
  "one_case a \<longleftrightarrow> \<not> (list_ex ascii_uppercase a \<and> list_ex ascii_lowercase a)"

lemma lowercase_without_uppercase: "\<not> list_ex ascii_uppercase a \<Longrightarrow> to_ascii_lowercase a = a"
  by (auto simp: to_ascii_lowercase_def list_ex_iff intro!: map_idI)

lemma canonical_one_case: "segwit_prefixes a \<noteq> None \<Longrightarrow> one_case a \<Longrightarrow> canonical a = to_ascii_lowercase a"
  by (auto simp: canonical_def one_case_def lowercase_without_uppercase)

lemma segwit_prefixes_respell: "to_ascii_lowercase a = to_ascii_lowercase b \<Longrightarrow> segwit_prefixes a = segwit_prefixes b"
  by (metis segwit_prefixes_lowercase)

lemma dot_respelled: "0x2E \<in> set (to_ascii_lowercase a) \<longleftrightarrow> 0x2E \<in> set a"
proof -
  have "0x2E \<in> set (to_ascii_lowercase a) \<longleftrightarrow> (\<exists>b \<in> set a. (if ascii_uppercase b then b + 0x20 else b) = 0x2E)"
    by (auto simp: to_ascii_lowercase_def)
  also have "\<dots> \<longleftrightarrow> 0x2E \<in> set a" using lower_byte(2) [of "0x2E"] by (simp del: if_split)
  finally show ?thesis .
qed

text \<open>C39: the identity a username is credited to pays the script the address in it pays, whatever the
  worker name; it is the same for every spelling of one bech32 address, in uppercase or in lowercase,
  while any other address is credited as it is written; and an identity is its own identity.\<close>

theorem identity_pays_its_address:
  assumes "codec_ignores_case C" "0x2E \<notin> set addr"
  shows "address_script C (identity_of (addr @ 0x2E # worker)) chain = address_script C addr chain \<and>
    identity_of (addr @ 0x2E # worker) = identity_of addr \<and> identity_of (identity_of addr) = identity_of addr \<and>
    (\<forall>other worker'. to_ascii_lowercase other = to_ascii_lowercase addr \<longrightarrow> segwit_prefixes addr \<noteq> None \<longrightarrow>
       one_case addr \<longrightarrow> one_case other \<longrightarrow> identity_of (other @ 0x2E # worker') = identity_of (addr @ 0x2E # worker)) \<and>
    (segwit_prefixes addr = None \<or> \<not> one_case addr \<longrightarrow> identity_of (addr @ 0x2E # worker) = addr)"
proof -
  have plain: "address_of a = a" if "0x2E \<notin> set a" for a
    using that find_index_None [of "\<lambda>b. b = 0x2E" a] by (auto simp: address_of_def split_address_worker_def)
  have worker: "address_of (a @ 0x2E # w) = a" if "0x2E \<notin> set a" for a w
    using split_at_dot [OF that] by (simp add: address_of_def)
  have "0x2E \<notin> set (canonical addr)" using assms(2) dot_respelled [of addr] by (simp add: canonical_def)
  then have base: "address_script C (identity_of (addr @ 0x2E # worker)) chain = address_script C addr chain"
    "identity_of (addr @ 0x2E # worker) = canonical addr" "identity_of addr = canonical addr"
    "identity_of (canonical addr) = canonical addr"
    using canonical_script [OF assms(1)] canonical_idem plain worker assms(2)
    by (simp_all add: identity_of_def address_script_def)
  have respelled: "identity_of (other @ 0x2E # w) = canonical addr"
    if "to_ascii_lowercase other = to_ascii_lowercase addr" "segwit_prefixes addr \<noteq> None" "one_case addr" "one_case other"
    for other w
  proof -
    have "0x2E \<notin> set other" using that(1) assms(2) dot_respelled by metis
    moreover have "segwit_prefixes other \<noteq> None" using that(1,2) segwit_prefixes_respell by metis
    ultimately show ?thesis
      using that canonical_one_case [of addr] canonical_one_case [of other] worker by (simp add: identity_of_def)
  qed
  moreover have "canonical addr = addr" if "segwit_prefixes addr = None \<or> \<not> one_case addr"
    using that by (auto simp: canonical_def one_case_def)
  ultimately show ?thesis using base by simp
qed

theorem identity_pays_its_address_witness:
  "address_script (toy_codec\<lparr>ac_segwit_decode := \<lambda>_. Some ([0x62, 0x63], 0, replicate 20 7)\<rparr>)
      (identity_of (([0x42, 0x43, 0x31] @ replicate 20 0x51) @ 0x2E # [0x61])) (Some Main) =
     Some (witness_script 0 (replicate 20 7)) \<and>
   identity_of (([0x62, 0x63, 0x31] @ replicate 20 0x71) @ 0x2E # [0x61]) =
     identity_of (([0x42, 0x43, 0x31] @ replicate 20 0x51) @ 0x2E # [0x61])"
proof -
  let ?C = "toy_codec\<lparr>ac_segwit_decode := \<lambda>_. Some ([0x62, 0x63], 0, replicate 20 7)\<rparr>"
  let ?a = "[0x42, 0x43, 0x31] @ replicate 20 0x51 :: bytes"
  have C: "codec_ignores_case ?C" "0x2E \<notin> set ?a" by (simp_all add: codec_ignores_case_def)
  have script: "address_script ?C ?a (Some Main) = Some (witness_script 0 (replicate 20 7))"
    by (simp add: address_script_def to_output_script_def segwit_prefixes_def chain_consts address_consts
        to_ascii_lowercase_def ascii_uppercase_def take_Cons' nth_Cons')
  have cased: "to_ascii_lowercase ([0x62, 0x63, 0x31] @ replicate 20 0x71) = to_ascii_lowercase ?a"
    "segwit_prefixes ?a \<noteq> None" "one_case ?a" "one_case ([0x62, 0x63, 0x31] @ replicate 20 0x71)"
    by (simp_all add: to_ascii_lowercase_def ascii_uppercase_def ascii_lowercase_def segwit_prefixes_def chain_consts
        one_case_def list_ex_iff)
  note same = identity_pays_its_address [OF C, of "[0x61]" "Some Main"]
  from same [THEN conjunct1] script
  have "address_script ?C (identity_of (?a @ 0x2E # [0x61])) (Some Main) = Some (witness_script 0 (replicate 20 7))"
    by (rule trans)
  moreover from same cased
  have "identity_of (([0x62, 0x63, 0x31] @ replicate 20 0x71) @ 0x2E # [0x61]) = identity_of (?a @ 0x2E # [0x61])"
    by blast
  ultimately show ?thesis by (rule conjI)
qed

end
