(* ===== verification/Payouts.thy ===== *)
theory Payouts
  imports Address Ledger Messages
begin

text \<open>
  The split as outputs (\<^verbatim>\<open>prime/src/payout.rs\<close>, with \<open>Ledger::weights_for\<close> of
  \<^verbatim>\<open>prime/src/ledger/split.rs\<close>): each identity's address decoded to its script, the identities no
  address decodes left to the pool, and the coinbaser response that carries the rest.  \<open>None\<close> is a
  panic, of the fee's subtraction, of the split or of the \<open>expect\<close> on the encoding.

  \<open>value_is_plausible\<close>, a comparison in floating point with the node's template, is not modelled.
\<close>

section \<open>The operations\<close>

definition ledger_weights :: "'db ledger \<Rightarrow> weights" where
  "ledger_weights L = contents_weights (lg_contents L)"

definition weights_for :: "'db ledger \<Rightarrow> nat \<Rightarrow> (weights \<times> nat) option" where
  "weights_for L v = map_option (\<lambda>m. (ledger_weights L, m)) (miners_share (lg_split_policy L) v)"

definition dictated_txout :: "dictated_output \<Rightarrow> tx_out" where
  "dictated_txout d = \<lparr>to_value = as_u64 (po_sats (do_payout d)), to_script_pubkey = do_script_pubkey d\<rparr>"

fun outputs_for :: "address_codec \<Rightarrow> payout list \<Rightarrow> chain option \<Rightarrow> dictated_output list" where
  "outputs_for C [] chain = []"
| "outputs_for C (payout # split) chain =
     (case address_script C (po_identity payout) chain of
        Some script \<Rightarrow> \<lparr>do_payout = payout, do_script_pubkey = script\<rparr> # outputs_for C split chain
      | None \<Rightarrow> outputs_for C split chain)"

definition dictated_outputs ::
  "address_codec \<Rightarrow> 'db ledger \<Rightarrow> chain option \<Rightarrow> nat \<Rightarrow> dictated_output list option" where
  "dictated_outputs C L chain v =
     Option.bind (weights_for L v) (\<lambda>(weights, v).
     map_option (\<lambda>split. outputs_for C split chain) (weights_split weights v))"

definition dictate ::
  "address_codec \<Rightarrow> 'db ledger \<Rightarrow> chain option \<Rightarrow> u64 \<Rightarrow> u8 \<Rightarrow> (dictated_output list \<times> bytes) option" where
  "dictate C L chain v coinbaser_id =
     Option.bind (weights_for L (unat v)) (\<lambda>(weights, miners_value).
     Option.bind (weights_split weights miners_value) (\<lambda>split.
     let dictated = outputs_for C split chain; outputs = map dictated_txout dictated
     in case encode_response \<lparr>cb_value = v, cb_coinbaser_id = coinbaser_id, cb_outputs = outputs\<rparr> of
          Inl e \<Rightarrow> None
        | Inr payload \<Rightarrow> Some (dictated, payload)))"

section \<open>Lemmas\<close>

abbreviation sats_of :: "dictated_output list \<Rightarrow> nat" where
  "sats_of ds \<equiv> sum_list (map (\<lambda>d. po_sats (do_payout d)) ds)"

lemma outputs_for_bounds:
  "sats_of (outputs_for C split chain) \<le> sum_list (map po_sats split)"
  "length (outputs_for C split chain) \<le> length split"
  by (induction split) (auto split: option.split)

lemma outputs_for_scripts:
  "d \<in> set (outputs_for C split chain) \<Longrightarrow>
     do_payout d \<in> set split \<and> address_script C (po_identity (do_payout d)) chain = Some (do_script_pubkey d)"
  by (induction split) (auto split: option.splits)

lemma dictated_payable:
  assumes "address_script C a chain = Some (do_script_pubkey d)"
  shows "payable (dictated_txout d)" "length (do_script_pubkey d) \<le> MAX_SCRIPT_LEN"
  using address_form_length [OF to_output_script_form [OF assms [unfolded address_script_def]]]
  by (simp_all add: payable_def dictated_txout_def coinbaser_consts address_consts)

lemma outputs_total_sats:
  "sats_of ds < 2 ^ 64 \<Longrightarrow> outputs_total (map dictated_txout ds) = sats_of ds"
  by (induction ds) (auto simp: dictated_txout_def unat_cast)

lemma length_output_blob:
  assumes "\<And>d. d \<in> set ds \<Longrightarrow> length (do_script_pubkey d) \<le> MAX_SCRIPT_LEN"
  shows "length (concat (map output_bytes (map dictated_txout ds))) \<le> length ds * 43"
  using assms
proof (induction ds)
  case (Cons d ds)
  then have "length (output_bytes (dictated_txout d)) \<le> 43"
    by (auto simp: output_bytes_def dictated_txout_def address_consts)
  with Cons show ?case by simp
qed simp

lemma encode_response_ok:
  assumes "list_all payable (cb_outputs r)" "length (cb_outputs r) \<le> MAX_COINBASER_OUTPUTS"
    "outputs_total (cb_outputs r) \<le> unat (cb_value r)"
    "1 + length (concat (map output_bytes (cb_outputs r))) \<le> MAX_COINBASER_BLOB_LEN"
  shows "\<exists>payload. encode_response r = Inr payload"
proof -
  let ?paid = "word_of_nat (min (outputs_total (cb_outputs r)) (2 ^ 64 - 1)) :: u64"
  have enc: "encode_outputs (cb_outputs r) [cb_coinbaser_id r] 0 =
      Inr ([cb_coinbaser_id r] @ concat (map output_bytes (cb_outputs r)), ?paid)"
    using encode_outputs_Inr [of "cb_outputs r" "[cb_coinbaser_id r]" 0] assms(1) by simp
  have "?paid \<le> cb_value r"
    using assms(3) unat_word_lt(4) [of "cb_value r"] unfolding word_le_nat_alt unat_saturated by simp
  then show ?thesis using enc assms(2,4) by (simp add: encode_response_def not_less)
qed

lemma dictate_split:
  assumes weights: "sum_list (map snd (ledger_weights L)) < 2 ^ 128"
    and fee: "sp_fee_bps (lg_split_policy L) \<le> BASIS_POINTS_PER_UNIT" and v: "v < 2 ^ 64"
  obtains m split where "weights_for L v = Some (ledger_weights L, m)" "fee_on (lg_split_policy L) v + m = v"
    "weights_split (ledger_weights L) m = Some split" "sum_list (map po_sats split) \<le> m" "length split \<le> MAX_COINBASER_OUTPUTS"
proof -
  obtain m where m: "miners_share (lg_split_policy L) v = Some m" "fee_on (lg_split_policy L) v + m = v"
    using fee_and_share [OF fee v] by blast
  then have "m < 2 ^ 64" using v by linarith
  from split_with_total [OF weights this] obtain split where "weights_split (ledger_weights L) m = Some split"
    "sum_list (map po_sats split) \<le> m" "length split \<le> MAX_COINBASER_OUTPUTS"
    unfolding weights_split_def by blast
  with m show thesis by (intro that) (simp_all add: weights_for_def)
qed

lemma run_weights:
  assumes "ledger_run D fmul rule policy keep chain L rr hs" "redb_ok D"
  shows "sum_list (map snd (ledger_weights L)) < 2 ^ 128"
  using ledger_run_inv [OF assms]
proof (rule ledger_invE)
  fix st lo ys cs
  assume f: "file_inv D keep st lo ys hs" and w: "window_inv L ys cs"
  have c: "holds (MAX_SHARES + 1) (lg_contents L) cs" and len: "length cs \<le> MAX_SHARES + 1"
    using w length_trim_shares [of "lg_window L" MAX_SHARES cs] unfolding window_inv_def by auto
  have "set cs \<subseteq> set ys" using w by (auto simp: window_inv_def)
  then have "\<forall>s \<in> set cs. sh_difficulty s < 2 ^ 64"
    using f by (auto simp: file_inv_def store_holds_def wf_share_def)
  from total_lt_128 [OF this len] show ?thesis
    using contents_weights_spec(3) [OF c] by (simp add: ledger_weights_def)
qed

section \<open>What a dictated split guarantees\<close>

text \<open>C19: in every state of the ledger, a split is dictated without a panic: the weights total less than
  128 bits, the message encodes and decodes to the outputs dictated, each pays the script of its
  identity's address on the pool's chain, and with the fee they total at most the value.\<close>

theorem dictate_always_encodes:
  assumes run: "ledger_run D fmul rule policy keep chain_name L rr hs" and D: "redb_ok D"
    and fee: "sp_fee_bps policy \<le> BASIS_POINTS_PER_UNIT"
  shows "\<exists>dictated payload. dictate C L chain v coinbaser_id = Some (dictated, payload) \<and>
    decode_response payload = Inr \<lparr>cb_value = v, cb_coinbaser_id = coinbaser_id, cb_outputs = map dictated_txout dictated\<rparr> \<and>
    list_all (\<lambda>d. address_script C (po_identity (do_payout d)) chain = Some (do_script_pubkey d)) dictated \<and>
    sats_of dictated + fee_on policy (unat v) \<le> unat v"
proof -
  have policy: "lg_split_policy L = policy" by (rule ledger_run_policy [OF run])
  have v: "unat v < 2 ^ 64" using unat_word_lt(4) [of v] by simp
  obtain m split where m: "weights_for L (unat v) = Some (ledger_weights L, m)" "fee_on (lg_split_policy L) (unat v) + m = unat v"
    and split: "weights_split (ledger_weights L) m = Some split" "sum_list (map po_sats split) \<le> m" "length split \<le> MAX_COINBASER_OUTPUTS"
    by (rule dictate_split [OF run_weights [OF run D] fee [folded policy] v])
  let ?ds = "outputs_for C split chain"
  let ?r = "\<lparr>cb_value = v, cb_coinbaser_id = coinbaser_id, cb_outputs = map dictated_txout ?ds\<rparr>"
  have script: "address_script C (po_identity (do_payout d)) chain = Some (do_script_pubkey d)" if "d \<in> set ?ds" for d
    using outputs_for_scripts [OF that] by simp
  have total: "sats_of ?ds + fee_on (lg_split_policy L) (unat v) \<le> unat v"
    using outputs_for_bounds(1) [of C split chain] split(2) m(2) by linarith
  have len: "length ?ds \<le> MAX_COINBASER_OUTPUTS" using outputs_for_bounds(2) [of C split chain] split(3) by linarith
  have "length (concat (map output_bytes (map dictated_txout ?ds))) \<le> length ?ds * 43"
    by (rule length_output_blob) (use script dictated_payable(2) in blast)
  then have blob: "1 + length (concat (map output_bytes (cb_outputs ?r))) \<le> MAX_COINBASER_BLOB_LEN"
    using len by (simp add: coinbaser_consts)
  have "list_all payable (cb_outputs ?r)" using dictated_payable(1) [OF script] by (auto simp: list_all_iff)
  moreover have "outputs_total (cb_outputs ?r) \<le> unat (cb_value ?r)"
    using outputs_total_sats [of ?ds] total v by simp
  ultimately obtain payload where payload: "encode_response ?r = Inr payload"
    using encode_response_ok [of ?r] len blob by auto
  have "dictate C L chain v coinbaser_id = Some (?ds, payload)"
    using m(1) split(1) payload by (simp add: dictate_def Let_def)
  then show ?thesis
    using coinbaser_response_roundtrip [OF payload] script total policy by (auto simp: list_all_iff)
qed

theorem dictate_always_encodes_witness:
  "\<exists>(L :: tables ledger) dictated payload. dictate toy_codec L (Some Main) 5000 3 = Some (dictated, payload) \<and>
     sats_of dictated + fee_on no_fee 5000 \<le> 5000"
proof -
  obtain L st where run: "ledger_run mem_redb (\<lambda>a b. Finite 10) (Finite 10) no_fee None None L None [Window.sample_share 1 5]"
    using sample_run by blast
  have "sp_fee_bps no_fee \<le> BASIS_POINTS_PER_UNIT" by (simp add: no_fee_def)
  from dictate_always_encodes [OF run mem_redb_ok this, of toy_codec "Some Main" 5000 3] show ?thesis by auto
qed

end
