(* ===== verification/Accounting.thy ===== *)
theory Accounting
  imports Payouts Blocks Claims
begin

text \<open>
  What an accepted share changes (\<^verbatim>\<open>prime/src/accounting.rs\<close>): its credit in the ledger, and for a
  block its record and what its coinbase left owed to miners.

  \<open>server\<close> is the part of \<^verbatim>\<open>prime/src/server.rs\<close> these functions read and write.  An error of the
  database on a block's records is logged by the code and dropped.  \<open>None\<close> is a panic.  The group
  commit of shares is the theory \<open>Group_Commit\<close>; here a share is committed alone.
\<close>

section \<open>The server\<close>

record 'db server =
  sv_ledger :: "'db ledger"
  sv_records :: "'db block_records"
  sv_accepted_hashes :: accepted_hashes
  sv_chain :: "chain option"
  sv_tip_difficulty :: "f64 option"

section \<open>Crediting a share\<close>

definition share_of :: "bytes \<Rightarrow> rebuilt_share \<Rightarrow> nat \<Rightarrow> share" where
  "share_of username rebuilt now =
     \<lparr>sh_accepted_at = now, sh_identity = identity_of username, sh_difficulty = unat (rb_difficulty rebuilt),
      sh_block_hash = rb_block_hash rebuilt, sh_tag_secondary = rb_tag_secondary rebuilt\<rparr>"

definition credit_share ::
  "'db redb \<Rightarrow> bytes \<Rightarrow> rebuilt_share \<Rightarrow> nat \<Rightarrow> 'db server \<Rightarrow> ((io_error + unit) \<times> 'db server) option" where
  "credit_share D username rebuilt now S =
     map_option (\<lambda>r. case r of
         Inl e \<Rightarrow> (Inl e, S\<lparr>sv_accepted_hashes := snd (hashes_remove (rb_block_hash rebuilt) (sv_accepted_hashes S))\<rparr>)
       | Inr (removed, L) \<Rightarrow> (Inr (), S\<lparr>sv_ledger := L\<rparr>))
       (record_batch D [share_of username rebuilt now] (sv_ledger S))"

section \<open>Recording a block\<close>

text \<open>The two statements share \<open>log_and_record_owed\<close>.\<close>

definition log_and_record_owed :: "'db redb \<Rightarrow> owed_block \<Rightarrow> 'db server \<Rightarrow> 'db server" where
  "log_and_record_owed D owed S =
     (case record_owed D owed (sv_records S) of Inl e \<Rightarrow> S | Inr R \<Rightarrow> S\<lparr>sv_records := R\<rparr>)"

definition record_found_block ::
  "'db redb \<Rightarrow> (f64 \<Rightarrow> u64) \<Rightarrow> bytes \<Rightarrow> rebuilt_share \<Rightarrow> nat \<Rightarrow> 'db server \<Rightarrow> 'db server" where
  "record_found_block D to_bits username rebuilt now S =
     (let window_difficulty = lg_network_difficulty (sv_ledger S);
          network_difficulty =
            (case window_difficulty of Some d \<Rightarrow> d
             | None \<Rightarrow> (case sv_tip_difficulty S of Some d \<Rightarrow> d | None \<Rightarrow> Finite 0));
          block = \<lparr>fb_found_at = now, fb_height = unat (rb_height rebuilt), fb_block_hash = rb_block_hash rebuilt,
            fb_paid_to_split = rb_paid_to_split rebuilt, fb_paid_to_pool = rb_paid_to_pool rebuilt,
            fb_finder = identity_of username, fb_tag_secondary = rb_tag_secondary rebuilt,
            fb_network_difficulty = to_bits network_difficulty, fb_cumulative_work = lg_cumulative_work (sv_ledger S)\<rparr>
      in case records_record_block D block (sv_records S) of Inl e \<Rightarrow> S | Inr R \<Rightarrow> S\<lparr>sv_records := R\<rparr>)"

definition owed_block_of :: "rebuilt_share \<Rightarrow> nat \<Rightarrow> payout list \<Rightarrow> owed_block option" where
  "owed_block_of rebuilt found_at entries =
     (let owed = \<lparr>ob_found_at = found_at, ob_height = unat (rb_height rebuilt), ob_block_hash = rb_block_hash rebuilt,
            ob_settled_at = None, ob_entries = entries\<rparr>
      in if owed_total owed \<noteq> 0 then Some owed else None)"

definition record_owed_block ::
  "'db redb \<Rightarrow> address_codec \<Rightarrow> rebuilt_share \<Rightarrow> nat \<Rightarrow> 'db server \<Rightarrow> 'db server option" where
  "record_owed_block D C rebuilt now S =
     map_option (\<lambda>ds. case owed_block_of rebuilt now (map do_payout ds) of
         None \<Rightarrow> S | Some owed \<Rightarrow> log_and_record_owed D owed S)
       (dictated_outputs C (sv_ledger S) (sv_chain S) (rb_paid_to_pool rebuilt))"

definition scale_down :: "nat \<Rightarrow> nat \<Rightarrow> payout list \<Rightarrow> payout list" where
  "scale_down available dictated entries =
     filter (\<lambda>p. 0 < po_sats p)
       (map (\<lambda>p. p\<lparr>po_sats := (po_sats p * available div dictated) mod 2 ^ 64\<rparr>) entries)"

definition unpaid_entries :: "split_policy \<Rightarrow> rebuilt_share \<Rightarrow> payout list" where
  "unpaid_entries policy rebuilt =
     (let v = min (rb_paid_to_split rebuilt + rb_paid_to_pool rebuilt) (2 ^ 64 - 1);
          available = rb_paid_to_pool rebuilt - fee_on policy v;
          entries = rb_unpaid_outputs rebuilt;
          dictated = sum_list (map po_sats entries) mod 2 ^ 64
      in if available < dictated then scale_down available dictated entries else entries)"

definition record_unpaid_outputs :: "'db redb \<Rightarrow> rebuilt_share \<Rightarrow> nat \<Rightarrow> 'db server \<Rightarrow> 'db server" where
  "record_unpaid_outputs D rebuilt now S =
     (case owed_block_of rebuilt now (unpaid_entries (lg_split_policy (sv_ledger S)) rebuilt) of
        None \<Rightarrow> S | Some owed \<Rightarrow> log_and_record_owed D owed S)"

definition record_block ::
  "'db redb \<Rightarrow> address_codec \<Rightarrow> (f64 \<Rightarrow> u64) \<Rightarrow> bytes \<Rightarrow> rebuilt_share \<Rightarrow> nat \<Rightarrow> 'db server \<Rightarrow> 'db server option" where
  "record_block D C to_bits username rebuilt now S =
     (let S = record_found_block D to_bits username rebuilt now S
      in if rb_unpaid_outputs rebuilt \<noteq> [] then Some (record_unpaid_outputs D rebuilt now S)
         else if rb_paid_to_split rebuilt = 0 then record_owed_block D C rebuilt now S
         else Some S)"

section \<open>Lemmas\<close>

lemma scale_down_total:
  assumes "sum_list (map po_sats ps) \<le> dictated" "0 < dictated"
  shows "sum_list (map po_sats (scale_down available dictated ps)) \<le> available"
proof -
  have "sum_list (map po_sats (scale_down available dictated ps)) \<le>
      sum_list (map (\<lambda>p. po_sats p * available div dictated) ps)"
    by (induction ps) (auto simp: scale_down_def intro!: add_mono order_trans [OF mod_less_eq_dividend])
  also have "\<dots> \<le> sum_list (map (\<lambda>p. po_sats p * available) ps) div dictated"
  proof (induction ps)
    case (Cons p ps)
    then show ?case by (simp add: div_add1_eq [of "po_sats p * available"])
  qed simp
  also have "\<dots> = sum_list (map po_sats ps) * available div dictated" by (simp add: sum_list_mult_const)
  also have "\<dots> \<le> dictated * available div dictated" using assms(1) by (intro div_le_mono mult_le_mono1)
  finally show ?thesis using assms(2) by simp
qed

lemma unpaid_entries_total:
  assumes "sum_list (map po_sats (rb_unpaid_outputs r)) < 2 ^ 64"
    and "v = min (rb_paid_to_split r + rb_paid_to_pool r) (2 ^ 64 - 1)"
  shows "sum_list (map po_sats (unpaid_entries policy r)) \<le> rb_paid_to_pool r - fee_on policy v"
proof -
  let ?sum = "sum_list (map po_sats (rb_unpaid_outputs r))" and ?av = "rb_paid_to_pool r - fee_on policy v"
  have mod: "?sum mod 2 ^ 64 = ?sum" using assms(1) by (rule mod_less)
  have e: "unpaid_entries policy r = (if ?av < ?sum then scale_down ?av ?sum (rb_unpaid_outputs r) else rb_unpaid_outputs r)"
    unfolding unpaid_entries_def Let_def mod assms(2) ..
  show ?thesis using scale_down_total [of "rb_unpaid_outputs r" ?sum ?av] by (auto simp: e)
qed

lemma owed_block_of_Some:
  "owed_block_of r t es = Some owed \<Longrightarrow> ob_entries owed = es \<and> ob_block_hash owed = rb_block_hash r"
  by (auto simp: owed_block_of_def Let_def split: if_splits)

lemma record_owed_new:
  "sv_records (log_and_record_owed D owed S) = R \<Longrightarrow> set (bk_owed R) \<subseteq> insert owed (set (bk_owed (sv_records S)))"
  by (auto simp: log_and_record_owed_def record_owed_def write_owed_def put_row_def tryq_Inr_iff
      split: sum.splits option.splits if_splits)

lemma record_found_keeps:
  "bk_owed (sv_records (record_found_block D to_bits u r now S)) = bk_owed (sv_records S)"
  "sv_ledger (record_found_block D to_bits u r now S) = sv_ledger S"
  "sv_chain (record_found_block D to_bits u r now S) = sv_chain S"
  by (auto simp: record_found_block_def records_record_block_def put_row_def Let_def tryq_Inr_iff
      split: sum.splits option.splits if_splits)

lemma owed_split_total:
  assumes weights: "sum_list (map snd (ledger_weights L)) < 2 ^ 128"
    and fee: "sp_fee_bps (lg_split_policy L) \<le> BASIS_POINTS_PER_UNIT" and v: "v < 2 ^ 64"
  shows "\<exists>ds. dictated_outputs C L chain v = Some ds \<and> sats_of ds + fee_on (lg_split_policy L) v \<le> v"
proof -
  obtain m split where m: "weights_for L v = Some (ledger_weights L, m)" "fee_on (lg_split_policy L) v + m = v"
    "weights_split (ledger_weights L) m = Some split" "sum_list (map po_sats split) \<le> m"
    by (rule dictate_split [OF assms])
  have "sats_of (outputs_for C split chain) + fee_on (lg_split_policy L) v \<le> v"
    using outputs_for_bounds(1) [of C split chain] m(2,4) by linarith
  then show ?thesis using m(1,3) by (simp add: dictated_outputs_def)
qed

section \<open>What is recorded as owed\<close>

text \<open>C17: a block is recorded without a panic, and the pool never owes more for it than its payout
  script received beyond the fee: whichever way the coinbase fell short, every owed record that
  \<open>record_block\<close> adds totals at most \<open>paid_to_pool\<close> less the operator fee on what was split.\<close>

theorem owed_within_received:
  assumes run: "ledger_run D fmul rule policy keep chain_name (sv_ledger S) rr hs" and D: "redb_ok D"
    and fee: "sp_fee_bps policy \<le> BASIS_POINTS_PER_UNIT"
    and r: "sum_list (map po_sats (rb_unpaid_outputs r)) < 2 ^ 64" "rb_paid_to_split r + rb_paid_to_pool r < 2 ^ 64"
  shows "\<exists>S'. record_block D C to_bits username r now S = Some S' \<and>
    (\<forall>owed \<in> set (bk_owed (sv_records S')) - set (bk_owed (sv_records S)).
       ob_block_hash owed = rb_block_hash r \<and>
       sum_list (map po_sats (ob_entries owed)) \<le>
         rb_paid_to_pool r - fee_on policy (rb_paid_to_split r + rb_paid_to_pool r))"
proof -
  let ?S = "record_found_block D to_bits username r now S"
  let ?pool = "rb_paid_to_pool r" and ?v = "rb_paid_to_split r + rb_paid_to_pool r"
  note found = record_found_keeps [of D to_bits username r now S]
  have policy: "lg_split_policy (sv_ledger S) = policy" by (rule ledger_run_policy [OF run])
  consider (unpaid) "rb_unpaid_outputs r \<noteq> []" | (unshared) "rb_unpaid_outputs r = []" "rb_paid_to_split r = 0"
    | (paid) "rb_unpaid_outputs r = []" "rb_paid_to_split r \<noteq> 0" by blast
  then show ?thesis
  proof cases
    case unpaid
    have total: "sum_list (map po_sats (unpaid_entries policy r)) \<le> ?pool - fee_on policy ?v"
      using unpaid_entries_total [OF r(1), of ?v policy] r(2) by simp
    show ?thesis
      using unpaid total found record_owed_new [OF refl, of D _ ?S] owed_block_of_Some [of r now "unpaid_entries policy r"]
      by (fastforce simp: record_block_def record_unpaid_outputs_def Let_def policy split: option.splits)
  next
    case unshared
    obtain ds where ds: "dictated_outputs C (sv_ledger ?S) (sv_chain ?S) ?pool = Some ds" "sats_of ds + fee_on policy ?pool \<le> ?pool"
      using owed_split_total [OF run_weights [OF run D], of ?pool C "sv_chain S"] fee r(2) policy found by auto
    then have total: "sum_list (map po_sats (map do_payout ds)) \<le> ?pool - fee_on policy ?v"
      using unshared by (simp add: comp_def)
    show ?thesis
      using unshared total ds(1) found record_owed_new [OF refl, of D _ ?S] owed_block_of_Some [of r now "map do_payout ds"]
      by (fastforce simp: record_block_def record_owed_block_def Let_def split: option.splits)
  next
    case paid
    then show ?thesis using found by (simp add: record_block_def Let_def)
  qed
qed

definition short_share :: rebuilt_share where
  "short_share = \<lparr>rb_is_block = True, rb_difficulty = 1, rb_block_hash = replicate 32 3, rb_raw_pow_hash = replicate 32 0,
     rb_prev_hash = replicate 32 1, rb_job_bits = 0, rb_header = [], rb_coinbase_tx = [], rb_height = 9, rb_txn_count = 0,
     rb_coinbaser_id = 0, rb_paid_to_split = 0, rb_paid_to_pool = 5000,
     rb_unpaid_outputs = [\<lparr>po_identity = [0x61], po_sats = 6000\<rparr>], rb_tag_secondary = [], rb_version = 0,
     rb_coinbase_digest = [], rb_job_generation = None\<rparr>"

theorem owed_within_received_witness:
  "\<exists>S S' :: tables server. record_block mem_redb toy_codec (\<lambda>_. 0) [0x61] short_share 7 S = Some S' \<and>
     (\<forall>owed \<in> set (bk_owed (sv_records S')) - set (bk_owed (sv_records S)). sum_list (map po_sats (ob_entries owed)) \<le> 5000)"
proof -
  obtain L st where run: "ledger_run mem_redb (\<lambda>a b. Finite 10) (Finite 10) no_fee None None L None [Window.sample_share 1 5]"
    using sample_run by blast
  let ?S = "\<lparr>sv_ledger = L, sv_records = no_records, sv_accepted_hashes = hashes_new 4, sv_chain = Some Main, sv_tip_difficulty = None\<rparr>"
  have fee: "sp_fee_bps no_fee \<le> BASIS_POINTS_PER_UNIT" by (simp add: no_fee_def)
  have run': "ledger_run mem_redb (\<lambda>a b. Finite 10) (Finite 10) no_fee None None (sv_ledger ?S) None [Window.sample_share 1 5]"
    using run by simp
  have short: "sum_list (map po_sats (rb_unpaid_outputs short_share)) < 2 ^ 64"
    "rb_paid_to_split short_share + rb_paid_to_pool short_share < 2 ^ 64" "rb_paid_to_pool short_share = 5000"
    by (simp_all add: short_share_def)
  obtain S' where S': "record_block mem_redb toy_codec (\<lambda>_. 0) [0x61] short_share 7 ?S = Some S'"
    "\<forall>owed \<in> set (bk_owed (sv_records S')) - set (bk_owed (sv_records ?S)).
       sum_list (map po_sats (ob_entries owed)) \<le> rb_paid_to_pool short_share -
         fee_on no_fee (rb_paid_to_split short_share + rb_paid_to_pool short_share)"
    using owed_within_received [OF run' mem_redb_ok fee short(1,2), of toy_codec "\<lambda>_. 0" "[0x61]" 7] by blast
  have "rb_paid_to_pool short_share - x \<le> 5000" for x using short(3) by simp
  with S'(2) have "\<forall>owed \<in> set (bk_owed (sv_records S')) - set (bk_owed (sv_records ?S)).
      sum_list (map po_sats (ob_entries owed)) \<le> 5000" by (meson order_trans)
  with S'(1) show ?thesis by blast
qed

end
