(* ===== verification/Validation.thy ===== *)
theory Validation
  imports Channel Responses
begin

text \<open>
  The job validation exchange: core/src/datum/messages/validation.rs, the SipHash-2-4 of
  core/src/siphash.rs its short ids are taken from, and the size limits that keep a reply in one
  frame.

  A job's transactions travel as a list with a two-byte count and a three-byte size before each;
  \<open>decode_txn_list_encode\<close> is the round trip, under the limits the sender keeps, with any pad the
  gateway appends after the terminator.
\<close>

section \<open>SipHash-2-4\<close>

fun half_round :: "u64 \<Rightarrow> u64 \<Rightarrow> u64 \<Rightarrow> u64 \<Rightarrow> nat \<Rightarrow> nat \<Rightarrow> u64 \<times> u64 \<times> u64 \<times> u64" where
  "half_round a b c d e f =
     (let a = a + b;
          c = c + d;
          b = word_rotl e b XOR a;
          d = word_rotl f d XOR c;
          a = word_rotl 32 a
      in (a, b, c, d))"

fun double_round :: "u64 \<times> u64 \<times> u64 \<times> u64 \<Rightarrow> u64 \<times> u64 \<times> u64 \<times> u64" where
  "double_round (v0, v1, v2, v3) =
     (let (v0, v1, v2, v3) = half_round v0 v1 v2 v3 13 16;
          (v2, v1, v0, v3) = half_round v2 v1 v0 v3 17 21;
          (v0, v1, v2, v3) = half_round v0 v1 v2 v3 13 16;
          (v2, v1, v0, v3) = half_round v2 v1 v0 v3 17 21
      in (v0, v1, v2, v3))"

text \<open>The loop over the whole eight-byte chunks, which also yields the tail it leaves.\<close>

function siphash_chunks :: "bytes \<Rightarrow> u64 \<times> u64 \<times> u64 \<times> u64 \<Rightarrow> bytes \<times> (u64 \<times> u64 \<times> u64 \<times> u64)" where
  "siphash_chunks data v =
     (if length data < 8 then (data, v)
      else let m = u64_from_le (take 8 data);
               (v0, v1, v2, v3) = v;
               (v0, v1, v2, v3) = double_round (v0, v1, v2, v3 XOR m)
           in siphash_chunks (drop 8 data) (v0 XOR m, v1, v2, v3))"
  by pat_completeness auto
termination by (relation "measure (length \<circ> fst)") auto

fun siphash_tail :: "nat \<Rightarrow> bytes \<Rightarrow> u64 \<Rightarrow> u64" where
  "siphash_tail i [] b = b"
| "siphash_tail i (byte # rest) b = siphash_tail (Suc i) rest (b OR push_bit (8 * i) (ucast byte))"

definition siphash24 :: "bytes \<Rightarrow> bytes \<Rightarrow> u64" where
  "siphash24 key data =
     (let k0 = u64_from_le (take 8 key);
          k1 = u64_from_le (take 8 (drop 8 key));
          v = (k0 XOR 0x736f6d6570736575, k1 XOR 0x646f72616e646f6d,
               k0 XOR 0x6c7967656e657261, k1 XOR 0x7465646279746573);
          (tail, v0, v1, v2, v3) = siphash_chunks data v;
          b = siphash_tail 0 tail (push_bit 56 (as_u64 (length data)));
          (v0, v1, v2, v3) = double_round (v0, v1, v2, v3 XOR b);
          (v0, v1, v2, v3) = double_round (v0 XOR b, v1, v2 XOR 0xff, v3);
          (v0, v1, v2, v3) = double_round (v0, v1, v2, v3)
      in (v0 XOR v1) XOR (v2 XOR v3))"

declare siphash_chunks.simps [simp del]

section \<open>The exchange's codes\<close>

definition SUBCMD :: u8 where "SUBCMD = 0x50"
definition REQUEST_SHORT_TXN_LIST :: u8 where "REQUEST_SHORT_TXN_LIST = 0x10"
definition REQUEST_TXNS :: u8 where "REQUEST_TXNS = 0x11"
definition REQUEST_BLOCK_TXNS :: u8 where "REQUEST_BLOCK_TXNS = 0x12"
definition REQUEST_PARENT_FETCH :: u8 where "REQUEST_PARENT_FETCH = 0x14"
definition RESPONSE_SHORT_TXN_LIST :: u8 where "RESPONSE_SHORT_TXN_LIST = 0x90"
definition RESPONSE_TXNS :: u8 where "RESPONSE_TXNS = 0x91"
definition RESPONSE_BLOCK_TXNS :: u8 where "RESPONSE_BLOCK_TXNS = 0x92"
definition RESPONSE_PARENT_FETCH :: u8 where "RESPONSE_PARENT_FETCH = 0x94"
definition JOB_INDEX_INVALID :: u8 where "JOB_INDEX_INVALID = 0xFF"
definition MAX_SHORT_LIST_TXNS :: u16 where "MAX_SHORT_LIST_TXNS = 16383"

lemmas validation_codes = SUBCMD_def REQUEST_SHORT_TXN_LIST_def REQUEST_TXNS_def REQUEST_BLOCK_TXNS_def
  REQUEST_PARENT_FETCH_def RESPONSE_SHORT_TXN_LIST_def RESPONSE_TXNS_def RESPONSE_BLOCK_TXNS_def
  RESPONSE_PARENT_FETCH_def JOB_INDEX_INVALID_def

datatype txn_list_status =
    ListOk | JobEmpty | NoTemplate | TooManyTxns | BadJobIndex | BadRequest | UnknownListStatus u8

fun txn_list_code :: "txn_list_status \<Rightarrow> u8" where
  "txn_list_code ListOk = 0x01"
| "txn_list_code JobEmpty = 0xF0"
| "txn_list_code NoTemplate = 0xF1"
| "txn_list_code TooManyTxns = 0xF2"
| "txn_list_code BadJobIndex = 0xF3"
| "txn_list_code BadRequest = 0xF4"
| "txn_list_code (UnknownListStatus c) = c"

definition txn_list_from_code :: "u8 \<Rightarrow> txn_list_status" where
  "txn_list_from_code c =
     (if c = 0x01 then ListOk else if c = 0xF0 then JobEmpty else if c = 0xF1 then NoTemplate
      else if c = 0xF2 then TooManyTxns else if c = 0xF3 then BadJobIndex
      else if c = 0xF4 then BadRequest else UnknownListStatus c)"

interpretation txn_list: wire_codes txn_list_code txn_list_from_code
  by unfold_locales (simp add: txn_list_from_code_def)

datatype parent_fetch_status =
    FetchSuccess | JobMismatch | FetchBusy | FetchUnavailable | RpcFailed | UnknownFetchStatus u8

fun parent_fetch_code :: "parent_fetch_status \<Rightarrow> u8" where
  "parent_fetch_code FetchSuccess = 0x01"
| "parent_fetch_code JobMismatch = 0xF0"
| "parent_fetch_code FetchBusy = 0xF6"
| "parent_fetch_code FetchUnavailable = 0xF7"
| "parent_fetch_code RpcFailed = 0xF8"
| "parent_fetch_code (UnknownFetchStatus c) = c"

definition parent_fetch_from_code :: "u8 \<Rightarrow> parent_fetch_status" where
  "parent_fetch_from_code c =
     (if c = 0x01 then FetchSuccess else if c = 0xF0 then JobMismatch else if c = 0xF6 then FetchBusy
      else if c = 0xF7 then FetchUnavailable else if c = 0xF8 then RpcFailed else UnknownFetchStatus c)"

interpretation parent_fetch: wire_codes parent_fetch_code parent_fetch_from_code
  by unfold_locales (simp add: parent_fetch_from_code_def)

definition SELECTOR_AT :: nat where "SELECTOR_AT = 1"
definition JOB_INDEX_AT :: nat where "JOB_INDEX_AT = 2"
definition REQUEST_HEADER_LEN :: nat where "REQUEST_HEADER_LEN = JOB_INDEX_AT + 1"
definition PARENT_FETCH_REQUEST_LEN :: nat where "PARENT_FETCH_REQUEST_LEN = REQUEST_HEADER_LEN + HASH_SIZE"
definition PARENT_FETCH_REPLY_OVERHEAD :: nat where
  "PARENT_FETCH_REPLY_OVERHEAD = (REQUEST_HEADER_LEN + 1) + HASH_SIZE + 4 + 1"
definition MAX_MINING_PAD_LEN :: nat where "MAX_MINING_PAD_LEN = 100"
definition MAX_PARENT_FETCH_BLOCK_LEN :: nat where
  "MAX_PARENT_FETCH_BLOCK_LEN = MAX_PLAINTEXT_LEN - PARENT_FETCH_REPLY_OVERHEAD - MAX_MINING_PAD_LEN"
definition SHORT_ID_SIZE :: nat where "SHORT_ID_SIZE = 4 + 2"
definition SHORT_ID_MASK :: u64 where "SHORT_ID_MASK = push_bit (8 * SHORT_ID_SIZE) 1 - 1"
definition TXN_SIZE_LEN :: nat where "TXN_SIZE_LEN = 3"
definition TXN_LIST_REPLY_OVERHEAD :: nat where
  "TXN_LIST_REPLY_OVERHEAD = (REQUEST_HEADER_LEN + 1) + 2 + 1"
definition MAX_TXN_LIST_TXN_BYTES :: nat where
  "MAX_TXN_LIST_TXN_BYTES = MAX_PLAINTEXT_LEN - TXN_LIST_REPLY_OVERHEAD - MAX_MINING_PAD_LEN"
definition CROSSCHECK_SEED :: bytes where
  "CROSSCHECK_SEED =
     [0xA3, 0x4F, 0xC1, 0x9C, 0x5E, 0x88, 0x76, 0x12, 0x0A, 0x79, 0x3E, 0xF1, 0x6C, 0x93, 0x54, 0xAF,
      0xB8, 0x1D, 0xE8, 0x5A, 0x20, 0xC7, 0x94, 0x38, 0x6F, 0xA1, 0x02, 0xD9, 0x4A, 0x7B, 0xF0, 0x11]"

lemmas validation_sizes = SELECTOR_AT_def JOB_INDEX_AT_def REQUEST_HEADER_LEN_def
  PARENT_FETCH_REQUEST_LEN_def PARENT_FETCH_REPLY_OVERHEAD_def MAX_MINING_PAD_LEN_def
  TXN_SIZE_LEN_def TXN_LIST_REPLY_OVERHEAD_def HASH_SIZE_def

section \<open>Requests and replies\<close>

definition request_block_txns :: "u8 \<Rightarrow> bytes" where
  "request_block_txns job_index = [SUBCMD, REQUEST_BLOCK_TXNS, job_index]"

record parent_fetch_reply =
  pf_job_index :: u8
  pf_status :: parent_fetch_status
  pf_parent_hash :: bytes
  pf_block :: bytes

definition encode_parent_fetch :: "parent_fetch_reply \<Rightarrow> bytes" where
  "encode_parent_fetch r =
     [SUBCMD, RESPONSE_PARENT_FETCH, pf_job_index r, parent_fetch_code (pf_status r)] @ pf_parent_hash r @
     put_u32_le (as_u32 (length (pf_block r))) @ pf_block r @ [STRUCT_END]"

record short_txn_list_t =
  sl_job_index :: u8
  sl_status :: txn_list_status
  sl_short_ids :: "u64 list"
  sl_crosscheck :: "bytes option"

definition empty_short_txn_list :: "u8 \<Rightarrow> txn_list_status \<Rightarrow> short_txn_list_t" where
  "empty_short_txn_list job_index status =
     \<lparr>sl_job_index = job_index, sl_status = status, sl_short_ids = [], sl_crosscheck = None\<rparr>"

definition encode_short_txn_list :: "short_txn_list_t \<Rightarrow> bytes" where
  "encode_short_txn_list l =
     (let out = [SUBCMD, RESPONSE_SHORT_TXN_LIST, sl_job_index l, txn_list_code (sl_status l)] in
      if sl_status l \<noteq> ListOk then out
      else let out = out @ put_u16_le (as_u16 (length (sl_short_ids l))) in
        if sl_short_ids l = [] then out
        else out @ concat (map (\<lambda>i. take SHORT_ID_SIZE (put_u64_le i)) (sl_short_ids l)) @
          (case sl_crosscheck l of None \<Rightarrow> [] | Some x \<Rightarrow> x) @ [STRUCT_END])"

record txn_list_t =
  tl_selector :: u8
  tl_job_index :: u8
  tl_status :: txn_list_status
  tl_txns :: "bytes list"

definition empty_txn_list :: "u8 \<Rightarrow> u8 \<Rightarrow> txn_list_status \<Rightarrow> txn_list_t" where
  "empty_txn_list selector job_index status =
     \<lparr>tl_selector = selector, tl_job_index = job_index, tl_status = status, tl_txns = []\<rparr>"

definition encode_txn_size :: "nat \<Rightarrow> bytes" where
  "encode_txn_size len = put_u16_le (as_u16 len) @ [word_of_nat (drop_bit 16 len)]"

definition decode_txn_size :: "byte_reader \<Rightarrow> msg_error + (nat \<times> byte_reader)" where
  "decode_txn_size c =
     tryq MsgTruncated (rd_arr TXN_SIZE_LEN ''txn size'' c) (\<lambda>(b, c).
     Inr (unat (u16_from_le [b ! 0, b ! 1]) OR push_bit 16 (unat (b ! 2)), c))"

definition body_of :: "bytes \<Rightarrow> u8 \<Rightarrow> msg_error + byte_reader" where
  "body_of data expected =
     bindr (open_message data SUBCMD) (\<lambda>c.
     tryq MsgTruncated (rd_u8 ''response selector'' c) (\<lambda>(got, c).
     if got \<noteq> expected then Inl (WrongMessage expected got) else Inr c))"

definition decode_txn :: "byte_reader \<Rightarrow> msg_error + (bytes \<times> byte_reader)" where
  "decode_txn c =
     bindr (decode_txn_size c) (\<lambda>(len, c).
     tryq MsgTruncated (rd_take len ''txn'' c) Inr)"

definition decode_txn_list :: "bytes \<Rightarrow> u8 \<Rightarrow> msg_error + txn_list_t" where
  "decode_txn_list data selector =
     bindr (body_of data selector) (\<lambda>c.
     tryq MsgTruncated (rd_u8 ''job index'' c) (\<lambda>(job_index, c).
     tryq MsgTruncated (rd_u8 ''status'' c) (\<lambda>(status, c).
     let status = txn_list_from_code status in
     if status \<noteq> ListOk then Inr (empty_txn_list selector job_index status)
     else tryq MsgTruncated (rd_u16 ''txn count'' c) (\<lambda>(stated, c).
       bindr (rd_times (unat stated) decode_txn c) (\<lambda>(txns, c).
       bindr (read_terminator c) (\<lambda>_.
       Inr \<lparr>tl_selector = selector, tl_job_index = job_index, tl_status = status, tl_txns = txns\<rparr>))))))"

definition encode_txn_list :: "txn_list_t \<Rightarrow> bytes" where
  "encode_txn_list l =
     (let out = [SUBCMD, tl_selector l, tl_job_index l, txn_list_code (tl_status l)] in
      if tl_status l \<noteq> ListOk then out
      else out @ put_u16_le (as_u16 (length (tl_txns l))) @
        concat (map (\<lambda>tx. encode_txn_size (length tx) @ tx) (tl_txns l)) @ [STRUCT_END])"

definition short_id_key :: "bytes \<Rightarrow> bytes \<Rightarrow> bytes" where
  "short_id_key gateway_pk pool_pk =
     map (\<lambda>j. (gateway_pk ! j XOR pool_pk ! j) XOR 0x55) [0..<16]"

definition short_id :: "bytes \<Rightarrow> bytes \<Rightarrow> u64" where
  "short_id hash key = siphash24 key hash AND SHORT_ID_MASK"

definition crosscheck :: "bytes list \<Rightarrow> bytes" where
  "crosscheck hashes = foldl (\<lambda>x h. map (\<lambda>(a, b). a XOR b) (zip x h)) CROSSCHECK_SEED hashes"

section \<open>Lemmas\<close>

lemma MAX_PLAINTEXT_LEN_value: "MAX_PLAINTEXT_LEN = 4194303 - 16"
  by (simp add: MAX_PLAINTEXT_LEN_def MAX_CMD_LEN_def CMD_LEN_MASK_def CMD_LEN_BITS_def
      CRYPTO_BOX_MACBYTES_def)

lemma txn_size_or: "a < 2 ^ 16 \<Longrightarrow> (a OR push_bit 16 b :: nat) = a + 2 ^ 16 * b"
proof -
  assume "a < 2 ^ 16"
  then have a: "take_bit 16 a = a" by (simp add: take_bit_nat_eq_self)
  have "a + push_bit 16 b = a OR push_bit 16 b"
    by (rule disjunctive_add) (use a in \<open>metis bit_push_bit_iff bit_take_bit_iff not_le\<close>)
  then show ?thesis by (simp add: push_bit_eq_mult)
qed

lemma decode_txn_size_encode [wire]:
  "len < 2 ^ 24 \<Longrightarrow>
     decode_txn_size \<lparr>br_full = f, br_rest = encode_txn_size len @ t\<rparr> = Inr (len, \<lparr>br_full = f, br_rest = t\<rparr>)"
proof -
  assume len: "len < 2 ^ 24"
  have "length (put_u16_le (as_u16 len)) = Suc (Suc 0)" by simp
  then obtain x y where xy: "put_u16_le (as_u16 len) = [x, y]" unfolding length_Suc_conv by blast
  have low: "u16_from_le [x, y] = as_u16 len" by (simp flip: xy add: put_from)
  have "len div 2 ^ 16 < 256" using len by (simp add: less_mult_imp_div_less)
  then have "unat (u16_from_le [x, y]) + 2 ^ 16 * unat (word_of_nat (drop_bit 16 len) :: u8) = len"
    unfolding low by (simp add: as_u16_def drop_bit_eq_div unat_of_nat)
  moreover have "unat (u16_from_le [x, y]) < 2 ^ 16"
    using unsigned_less [of "u16_from_le [x, y]", where 'a = nat] by simp
  ultimately show ?thesis
    by (simp add: decode_txn_size_def encode_txn_size_def xy rd_arr_def rd_take_def TXN_SIZE_LEN_def
        txn_size_or)
qed

lemma decode_txn_encode [wire]:
  "length tx < 2 ^ 24 \<Longrightarrow>
     decode_txn \<lparr>br_full = f, br_rest = (encode_txn_size (length tx) @ tx) @ t\<rparr> =
       Inr (tx, \<lparr>br_full = f, br_rest = t\<rparr>)"
  by (simp add: decode_txn_def wire)

text \<open>The bytes the transactions of a reply take, each counted with its size.\<close>

definition reply_bytes :: "bytes list \<Rightarrow> nat" where
  "reply_bytes txns = sum_list (map (\<lambda>tx. TXN_SIZE_LEN + length tx) txns)"

lemma reply_bytes_member: "tx \<in> set txns \<Longrightarrow> length tx \<le> reply_bytes txns"
  unfolding reply_bytes_def by (induction txns) auto

lemma reply_bytes_fit:
  "reply_bytes txns \<le> MAX_TXN_LIST_TXN_BYTES \<Longrightarrow> tx \<in> set txns \<Longrightarrow> length tx < 2 ^ 24"
  using reply_bytes_member [of tx txns]
  by (simp add: MAX_TXN_LIST_TXN_BYTES_def MAX_PLAINTEXT_LEN_value validation_sizes)

lemma length_encode_txn_size [simp]: "length (encode_txn_size n) = TXN_SIZE_LEN"
  by (simp add: encode_txn_size_def TXN_SIZE_LEN_def)

lemma length_encode_txns:
  "length (concat (map (\<lambda>tx. encode_txn_size (length tx) @ tx) txns)) = reply_bytes txns"
  by (induction txns) (simp_all add: reply_bytes_def)

lemma encode_txn_list_fits:
  assumes "reply_bytes (tl_txns l) \<le> MAX_TXN_LIST_TXN_BYTES"
  shows "length (encode_txn_list l) + MAX_MINING_PAD_LEN \<le> MAX_PLAINTEXT_LEN"
  using assms
  by (simp add: encode_txn_list_def Let_def length_encode_txns MAX_TXN_LIST_TXN_BYTES_def
      MAX_PLAINTEXT_LEN_value validation_sizes)

lemma decode_txn_list_encode:
  assumes status: "txn_list.canonical (tl_status l)"
    and err: "tl_status l \<noteq> ListOk \<Longrightarrow> tl_txns l = []"
    and count: "length (tl_txns l) < 2 ^ 16"
    and sizes: "\<And>tx. tx \<in> set (tl_txns l) \<Longrightarrow> length tx < 2 ^ 24"
  shows "decode_txn_list (encode_txn_list l @ pad) (tl_selector l) = Inr l"
proof (cases "tl_status l = ListOk")
  case True
  have txns: "rd_times (length (tl_txns l)) decode_txn
      \<lparr>br_full = f, br_rest = concat (map (\<lambda>tx. encode_txn_size (length tx) @ tx) (tl_txns l)) @ t\<rparr> =
      Inr (tl_txns l, \<lparr>br_full = f, br_rest = t\<rparr>)" for f t
    by (rule rd_times_append) (use sizes in \<open>simp add: decode_txn_encode del: append_assoc\<close>)
  have "unat (as_u16 (length (tl_txns l))) = length (tl_txns l)"
    using count by (simp add: as_u16_def unat_of_nat)
  with True show ?thesis
    by (simp add: decode_txn_list_def encode_txn_list_def body_of_def wire txns txn_list_from_code_def)
next
  case False
  have "txn_list_from_code (txn_list_code (tl_status l)) = tl_status l"
    using status by (simp add: txn_list.canonical_def)
  with False err show ?thesis
    by (simp add: decode_txn_list_def encode_txn_list_def body_of_def wire empty_txn_list_def)
qed

lemma length_crosscheck: "\<forall>h \<in> set hashes. length h = 32 \<Longrightarrow> length (crosscheck hashes) = 32"
proof -
  have "length x = 32 \<Longrightarrow> \<forall>h \<in> set hashes. length h = 32 \<Longrightarrow>
      length (foldl (\<lambda>x h. map (\<lambda>(a, b). a XOR b) (zip x h)) x hashes) = 32" for x :: bytes
    by (induction hashes arbitrary: x) auto
  then show "\<forall>h \<in> set hashes. length h = 32 \<Longrightarrow> ?thesis"
    by (simp add: crosscheck_def CROSSCHECK_SEED_def)
qed

lemma short_id_bounded: "unat (short_id hash key) < 2 ^ 48"
proof -
  have "SHORT_ID_MASK = mask 48" by (simp add: SHORT_ID_MASK_def SHORT_ID_SIZE_def mask_eq_exp_minus_1)
  then have "short_id hash key = take_bit 48 (siphash24 key hash)"
    unfolding short_id_def take_bit_eq_mask by (rule arg_cong)
  then have "unat (short_id hash key) = take_bit 48 (unat (siphash24 key hash))"
    by (simp only: unsigned_take_bit_eq)
  then show ?thesis by (simp only: take_bit_nat_less_exp)
qed

lemma le_bytes_add: "le_bytes (a + b) n = le_bytes a n @ le_bytes b (n div 256 ^ a)"
  by (induction a arbitrary: n) (simp_all add: div_mult2_eq)

lemma short_ids_carried: "le_val (take SHORT_ID_SIZE (put_u64_le (short_id hash key))) = unat (short_id hash key)"
proof -
  have "le_val (take 6 (le_bytes 8 n)) = n mod 256 ^ 6" for n
  proof -
    have "le_bytes 8 n = le_bytes 6 n @ le_bytes 2 (n div 256 ^ 6)"
      using le_bytes_add [of 6 2 n] by simp
    then show ?thesis by (simp add: le_val_le_bytes)
  qed
  then show ?thesis using short_id_bounded [of hash key]
    by (simp add: put_u64_le_def SHORT_ID_SIZE_def)
qed

end
