(* ===== verification/Act.thy ===== *)
theory Act
  imports Prelude
begin

text \<open>
  The effects of the pool's connection code, which the later theories write handlers in: a method
  that takes \<open>&mut self\<close>, may return early with an error through the question mark, and may
  panic.  An action maps the state to the result and the state it leaves, \<open>None\<close> where the code
  panics; an error keeps the changes made before it.

  \<open>wp m Q s\<close> says that \<open>Q\<close> holds of whatever \<open>m\<close> returns from \<open>s\<close>, and \<open>keeps P m\<close> that the
  action preserves \<open>P\<close>; \<open>returns\<close> is that it does not panic.  Handlers are verified by
  simplification with \<open>wp_simps\<close> and resolution with \<open>keeps_intro\<close>.
\<close>

section \<open>Actions\<close>

type_synonym ('s, 'e, 'a) act = "'s \<Rightarrow> (('e + 'a) \<times> 's) option"

definition ret :: "'a \<Rightarrow> ('s, 'e, 'a) act" where
  "ret a s = Some (Inr a, s)"

definition raise :: "'e \<Rightarrow> ('s, 'e, 'a) act" where
  "raise e s = Some (Inl e, s)"

definition panic :: "('s, 'e, 'a) act" where
  "panic s = None"

definition bnd :: "('s, 'e, 'a) act \<Rightarrow> ('a \<Rightarrow> ('s, 'e, 'b) act) \<Rightarrow> ('s, 'e, 'b) act" where
  "bnd m k s = (case m s of
       None \<Rightarrow> None
     | Some (Inl e, s') \<Rightarrow> Some (Inl e, s')
     | Some (Inr a, s') \<Rightarrow> k a s')"

text \<open>\<open>match m { Ok(a) => k(a), Err(e) => h(e) }\<close>.\<close>

definition on_result :: "('s, 'e, 'a) act \<Rightarrow> ('e + 'a \<Rightarrow> ('s, 'e, 'b) act) \<Rightarrow> ('s, 'e, 'b) act" where
  "on_result m k s = (case m s of None \<Rightarrow> None | Some (r, s') \<Rightarrow> k r s')"

definition gets :: "('s \<Rightarrow> 'a) \<Rightarrow> ('s, 'e, 'a) act" where
  "gets f s = Some (Inr (f s), s)"

definition modify :: "('s \<Rightarrow> 's) \<Rightarrow> ('s, 'e, unit) act" where
  "modify f s = Some (Inr (), f s)"

text \<open>A step of another component on its part of the state: its result and the state after it.\<close>

definition step :: "('s \<Rightarrow> 'a \<times> 's) \<Rightarrow> ('s, 'e, 'a) act" where
  "step f s = (case f s of (a, s') \<Rightarrow> Some (Inr a, s'))"

definition step_opt :: "('s \<Rightarrow> ('a \<times> 's) option) \<Rightarrow> ('s, 'e, 'a) act" where
  "step_opt f s = (case f s of None \<Rightarrow> None | Some (a, s') \<Rightarrow> Some (Inr a, s'))"

fun for_each :: "'a list \<Rightarrow> ('a \<Rightarrow> ('s, 'e, unit) act) \<Rightarrow> ('s, 'e, unit) act" where
  "for_each [] f = ret ()"
| "for_each (x # xs) f = bnd (f x) (\<lambda>_. for_each xs f)"

section \<open>What an action does\<close>

definition wp :: "('s, 'e, 'a) act \<Rightarrow> ('e + 'a \<Rightarrow> 's \<Rightarrow> bool) \<Rightarrow> 's \<Rightarrow> bool" where
  "wp m Q s = (case m s of None \<Rightarrow> True | Some (r, s') \<Rightarrow> Q r s')"

definition keeps :: "('s \<Rightarrow> bool) \<Rightarrow> ('s, 'e, 'a) act \<Rightarrow> bool" where
  "keeps P m \<longleftrightarrow> (\<forall>s. P s \<longrightarrow> wp m (\<lambda>_. P) s)"

definition returns :: "('s \<Rightarrow> bool) \<Rightarrow> ('s, 'e, 'a) act \<Rightarrow> bool" where
  "returns P m \<longleftrightarrow> (\<forall>s. P s \<longrightarrow> m s \<noteq> None)"

named_theorems wp_simps \<open>the weakest precondition of each way to build an action\<close>
named_theorems keeps_intro \<open>what preserves an invariant\<close>

lemma wp_act [wp_simps]:
  "wp (ret a) Q s = Q (Inr a) s"
  "wp (raise e) Q s = Q (Inl e) s"
  "wp panic Q s = True"
  by (simp_all add: wp_def ret_def raise_def panic_def)

lemma wp_state [wp_simps]:
  "wp (gets f) Q s = Q (Inr (f s)) s"
  "wp (step h) Q s = (case h s of (a, s') \<Rightarrow> Q (Inr a) s')"
  "wp (step_opt j) Q s = (case j s of None \<Rightarrow> True | Some (a, s') \<Rightarrow> Q (Inr a) s')"
  by (simp_all add: wp_def gets_def step_def step_opt_def split: prod.splits option.splits)

lemma wp_modify [wp_simps]: "wp (modify g) Q s = Q (Inr ()) (g s)"
  by (simp add: wp_def modify_def)

lemma wp_bnd [wp_simps]:
  "wp (bnd m k) Q s = wp m (\<lambda>r s'. case r of Inl e \<Rightarrow> Q (Inl e) s' | Inr a \<Rightarrow> wp (k a) Q s') s"
  by (auto simp: wp_def bnd_def split: option.splits sum.splits)

lemma wp_on_result [wp_simps]: "wp (on_result m k) Q s = wp m (\<lambda>r. wp (k r) Q) s"
  by (auto simp: wp_def on_result_def split: option.splits)

lemma wp_mono: "wp m Q s \<Longrightarrow> (\<And>r s'. Q r s' \<Longrightarrow> Q' r s') \<Longrightarrow> wp m Q' s"
  by (auto simp: wp_def split: option.splits)

lemma wp_conj: "wp m (\<lambda>r s'. P r s' \<and> Q r s') s \<longleftrightarrow> wp m P s \<and> wp m Q s"
  by (auto simp: wp_def split: option.splits)

lemma wp_keeps: "keeps P m \<Longrightarrow> P s \<Longrightarrow> wp m (\<lambda>_. P) s"
  by (simp add: keeps_def)

lemma wpD: "wp m Q s \<Longrightarrow> m s = Some (r, s') \<Longrightarrow> Q r s'"
  by (simp add: wp_def)

lemma wpI: "(\<And>r s'. m s = Some (r, s') \<Longrightarrow> Q r s') \<Longrightarrow> wp m Q s"
  by (auto simp: wp_def split: option.splits)

lemma keepsD: "keeps P m \<Longrightarrow> P s \<Longrightarrow> m s = Some (r, s') \<Longrightarrow> P s'"
  by (auto simp: keeps_def wp_def)

lemma keeps_act [keeps_intro]:
  "keeps P (ret a)" "keeps P (raise e)" "keeps P panic" "keeps P (gets f)"
  by (simp_all add: keeps_def wp_simps)

lemma keeps_modify [keeps_intro]: "(\<And>s. P s \<Longrightarrow> P (f s)) \<Longrightarrow> keeps P (modify f)"
  by (simp add: keeps_def wp_simps)

lemma keeps_step [keeps_intro]: "(\<And>s a s'. P s \<Longrightarrow> f s = (a, s') \<Longrightarrow> P s') \<Longrightarrow> keeps P (step f)"
  by (auto simp: keeps_def wp_simps split: prod.splits)

lemma keeps_step_opt [keeps_intro]:
  "(\<And>s a s'. P s \<Longrightarrow> f s = Some (a, s') \<Longrightarrow> P s') \<Longrightarrow> keeps P (step_opt f)"
  by (auto simp: keeps_def wp_simps split: option.splits)

lemma keeps_bnd [keeps_intro]: "keeps P m \<Longrightarrow> (\<And>a. keeps P (k a)) \<Longrightarrow> keeps P (bnd m k)"
  by (auto simp: keeps_def wp_simps elim!: wp_mono split: sum.splits)

lemma keeps_on_result [keeps_intro]: "keeps P m \<Longrightarrow> (\<And>r. keeps P (k r)) \<Longrightarrow> keeps P (on_result m k)"
  unfolding keeps_def wp_simps by (blast intro: wp_mono)

lemma keeps_if [keeps_intro]: "(b \<Longrightarrow> keeps P m) \<Longrightarrow> (\<not> b \<Longrightarrow> keeps P n) \<Longrightarrow> keeps P (if b then m else n)"
  by simp

lemma keeps_option [keeps_intro]:
  "(x = None \<Longrightarrow> keeps P m) \<Longrightarrow> (\<And>a. x = Some a \<Longrightarrow> keeps P (k a)) \<Longrightarrow>
     keeps P (case x of None \<Rightarrow> m | Some a \<Rightarrow> k a)"
  by (cases x) simp_all

lemma keeps_sum [keeps_intro]:
  "(\<And>e. x = Inl e \<Longrightarrow> keeps P (h e)) \<Longrightarrow> (\<And>a. x = Inr a \<Longrightarrow> keeps P (k a)) \<Longrightarrow>
     keeps P (case x of Inl e \<Rightarrow> h e | Inr a \<Rightarrow> k a)"
  by (cases x) simp_all

lemma keeps_prod [keeps_intro]:
  "(\<And>a b. x = (a, b) \<Longrightarrow> keeps P (k a b)) \<Longrightarrow> keeps P (case x of (a, b) \<Rightarrow> k a b)"
  by (cases x) simp

lemma keeps_Let [keeps_intro]: "keeps P (k x) \<Longrightarrow> keeps P (let y = x in k y)"
  by (simp add: Let_def)

lemma keeps_for_each [keeps_intro]: "(\<And>x. x \<in> set xs \<Longrightarrow> keeps P (f x)) \<Longrightarrow> keeps P (for_each xs f)"
  by (induction xs) (auto intro!: keeps_intro)

text \<open>A stronger invariant for the first steps of a sequence.\<close>

lemma wp_then:
  assumes "keeps R m" "R s" "\<And>a s. R s \<Longrightarrow> wp (k a) (\<lambda>_. P) s" "\<And>s. R s \<Longrightarrow> P s"
  shows "wp (bnd m k) (\<lambda>_. P) s"
  using wp_keeps [OF assms(1,2)] unfolding wp_bnd by (rule wp_mono) (use assms(3,4) in \<open>auto split: sum.split\<close>)

lemma returns_bnd:
  assumes "returns P m" "\<And>s a s'. P s \<Longrightarrow> m s = Some (Inr a, s') \<Longrightarrow> k a s' \<noteq> None"
  shows "returns P (bnd m k)"
  using assms by (fastforce simp: returns_def bnd_def split: option.splits sum.splits)

end
