(* ===== verification/Relay.thy ===== *)
theory Relay
  imports Verify_Jobs Act
begin

text \<open>
  Handing a block to the node: \<^verbatim>\<open>prime/src/relay.rs\<close>, the interning of a job's transactions of
  \<^verbatim>\<open>prime/src/txns.rs\<close> and the error type of \<^verbatim>\<open>core/src/rpc.rs\<close>.

  A call of the node is an action the caller supplies, which answers what the node answered.  The
  reason a block is refused is a value where the code formats a string.  A transaction of the cache is
  alive while a job names it: which are is an argument, since the counts of the shared pointers are
  those of the whole program.
\<close>

section \<open>Errors of the node's interface\<close>

datatype rpc_error =
    BadUrl string | BadCookie string | RpcIo | Transport | BadResponse string
  | Http nat string | Rpc int string

fun is_unauthorized :: "rpc_error \<Rightarrow> bool" where
  "is_unauthorized (Http status _) = (status = 401 \<or> status = 403)"
| "is_unauthorized _ = False"

type_synonym node_answer = "rpc_error + string option"

section \<open>Transactions\<close>

definition SWEEP_EVERY :: nat where "SWEEP_EVERY = 2 ^ 16"

record txn_cache =
  tc_held :: "bytes \<rightharpoonup> bytes"
  tc_added_since_sweep :: nat

definition txn_cache_default :: txn_cache where
  "txn_cache_default = \<lparr>tc_held = Map.empty, tc_added_since_sweep = 0\<rparr>"

definition intern :: "(bytes \<Rightarrow> bool) \<Rightarrow> bytes \<Rightarrow> bytes \<Rightarrow> txn_cache \<Rightarrow> bytes \<times> txn_cache" where
  "intern alive key raw c =
     (case tc_held c key of
        Some held \<Rightarrow> if alive held then (held, c) else
          (raw, c\<lparr>tc_held := (tc_held c)(key \<mapsto> raw), tc_added_since_sweep := tc_added_since_sweep c + 1\<rparr>)
      | None \<Rightarrow>
          (raw, c\<lparr>tc_held := (tc_held c)(key \<mapsto> raw), tc_added_since_sweep := tc_added_since_sweep c + 1\<rparr>))"

text \<open>The pass over the entries once enough were added: the transaction just returned is alive.\<close>

definition sweep :: "(bytes \<Rightarrow> bool) \<Rightarrow> bytes \<Rightarrow> txn_cache \<Rightarrow> txn_cache" where
  "sweep alive txn c =
     (if SWEEP_EVERY \<le> tc_added_since_sweep c
      then c\<lparr>tc_held := (\<lambda>k. case tc_held c k of
               Some t \<Rightarrow> if alive t \<or> t = txn then Some t else None | None \<Rightarrow> None),
             tc_added_since_sweep := 0\<rparr>
      else c)"

fun intern_all :: "(bytes \<Rightarrow> bytes) \<Rightarrow> (bytes \<Rightarrow> bool) \<Rightarrow> bytes list \<Rightarrow> txn_cache \<Rightarrow> bytes list \<times> txn_cache" where
  "intern_all sha alive [] c = ([], c)"
| "intern_all sha alive (raw # raws) c =
     (let (txn, c) = intern alive (sha256d sha raw) raw c;
          c = sweep alive txn c;
          (txns, c) = intern_all sha (\<lambda>t. alive t \<or> t = txn) raws c
      in (txn # txns, c))"

datatype relay_error =
    TxnCount nat u32 | TxnUndecodable nat tx_error | BranchesDiffer
  | HeaderUnreadable | NoTransactions | MutatedTree nat | RootDiffers nat bytes bytes

fun txids :: "(bytes \<Rightarrow> bytes) \<Rightarrow> nat \<Rightarrow> bytes list \<Rightarrow> relay_error + bytes list" where
  "txids sha i [] = Inr []"
| "txids sha i (raw # raws) =
     (case txid sha raw of
        Inl e \<Rightarrow> Inl (TxnUndecodable i e)
      | Inr k \<Rightarrow> bindr (txids sha (Suc i) raws) (\<lambda>ks. Inr (k # ks)))"

definition txns_match_job ::
    "(bytes \<Rightarrow> bytes) \<Rightarrow> bytes list \<Rightarrow> u32 \<Rightarrow> bytes list \<Rightarrow> relay_error + unit" where
  "txns_match_job sha txns txn_count branches =
     (if length txns \<noteq> unat txn_count then Inl (TxnCount (length txns) txn_count)
      else bindr (txids sha 0 txns) (\<lambda>ids.
        if merkle_branches sha ids \<noteq> Some branches then Inl BranchesDiffer else Inr ()))"

definition block_matches_header :: "(bytes \<Rightarrow> bytes) \<Rightarrow> rebuilt_share \<Rightarrow> bytes list \<Rightarrow> relay_error + unit" where
  "block_matches_header sha rebuilt txns =
     bindr (ok_or HeaderUnreadable (map_option hd_merkle_root (deserialize_header (rb_header rebuilt)))) (\<lambda>committed.
     bindr (txids sha 0 txns) (\<lambda>ids.
     let ids = sha256d sha (rb_coinbase_tx rebuilt) # ids; count = length ids in
     bindr (ok_or NoTransactions (merkle_tree_root sha ids)) (\<lambda>tree.
     if mt_mutated tree then Inl (MutatedTree count)
     else if mt_root tree \<noteq> committed then Inl (RootDiffers count (mt_root tree) committed)
     else Inr ())))"

section \<open>The coinbase of a proposal\<close>

definition WITNESS_COMMITMENT_PREFIX :: bytes where
  "WITNESS_COMMITMENT_PREFIX = [0x6a, 0x24, 0xaa, 0x21, 0xa9, 0xed]"
definition WITNESS_RESERVED_VALUE_STACK :: bytes where
  "WITNESS_RESERVED_VALUE_STACK = (replicate 34 0)[0 := 1, 1 := 32]"
definition TX_VERSION_LEN :: nat where "TX_VERSION_LEN = 4"
definition TX_LOCK_TIME_LEN :: nat where "TX_LOCK_TIME_LEN = 4"

definition commits_to_witnesses :: "bytes \<Rightarrow> bool" where
  "commits_to_witnesses coinbase =
     (case parse_coinbase coinbase of
        Inl _ \<Rightarrow> False
      | Inr tx \<Rightarrow> \<not> ct_has_witness tx \<and>
          list_ex (\<lambda>out. take 6 (to_script_pubkey out) = WITNESS_COMMITMENT_PREFIX) (ct_outputs tx))"

definition with_witness_reserved_value :: "bytes \<Rightarrow> bytes" where
  "with_witness_reserved_value coinbase =
     (if \<not> commits_to_witnesses coinbase \<or> length coinbase < TX_VERSION_LEN + TX_LOCK_TIME_LEN then coinbase
      else let lock_time_at = length coinbase - TX_LOCK_TIME_LEN in
        take TX_VERSION_LEN coinbase @ [0x00, 0x01] @
        take (lock_time_at - TX_VERSION_LEN) (drop TX_VERSION_LEN coinbase) @
        WITNESS_RESERVED_VALUE_STACK @ drop lock_time_at coinbase)"

section \<open>Calls of the node\<close>

definition SUBMIT_ATTEMPTS :: nat where "SUBMIT_ATTEMPTS = 3"
definition PROPOSAL_ATTEMPTS :: nat where "PROPOSAL_ATTEMPTS = 2"

datatype refused_by = By_Pool relay_error | By_Node string

datatype relayed = Relay_Accepted | Relay_Rejected refused_by | Relay_Unknown

text \<open>The loop of \<open>propose\<close>, by the attempts that may still follow the one made.\<close>

fun propose_attempts :: "(bytes \<Rightarrow> ('s, 'e, node_answer) act) \<Rightarrow> nat \<Rightarrow> bytes \<Rightarrow> ('s, 'e, node_answer) act" where
  "propose_attempts propose_block 0 block = propose_block block"
| "propose_attempts propose_block (Suc further) block =
     bnd (propose_block block) (\<lambda>result.
     case result of
       Inl e \<Rightarrow> if \<not> is_unauthorized e then propose_attempts propose_block further block else ret result
     | Inr _ \<Rightarrow> ret result)"

definition proposed_block :: "rebuilt_share \<Rightarrow> bytes list \<Rightarrow> bytes" where
  "proposed_block rebuilt txns =
     serialize_block (rb_header rebuilt) (with_witness_reserved_value (rb_coinbase_tx rebuilt)) txns"

definition propose ::
    "(bytes \<Rightarrow> ('s, 'e, node_answer) act) \<Rightarrow> rebuilt_share \<Rightarrow> bytes list \<Rightarrow> ('s, 'e, node_answer) act" where
  "propose propose_block rebuilt txns =
     propose_attempts propose_block (PROPOSAL_ATTEMPTS - 1) (proposed_block rebuilt txns)"

fun submit_with_retries :: "(bytes \<Rightarrow> ('s, 'e, node_answer) act) \<Rightarrow> nat \<Rightarrow> bytes \<Rightarrow> ('s, 'e, relayed) act" where
  "submit_with_retries submit_block 0 block = ret Relay_Unknown"
| "submit_with_retries submit_block (Suc attempts) block =
     bnd (submit_block block) (\<lambda>answer.
     case answer of
       Inr None \<Rightarrow> ret Relay_Accepted
     | Inr (Some reason) \<Rightarrow>
         if reason = ''duplicate'' \<or> reason = ''inconclusive'' then ret Relay_Accepted
         else ret (Relay_Rejected (By_Node reason))
     | Inl e \<Rightarrow>
         if is_unauthorized e then ret Relay_Unknown
         else submit_with_retries submit_block attempts block)"

definition relay_submit ::
    "(bytes \<Rightarrow> bytes) \<Rightarrow> (bytes \<Rightarrow> ('s, 'e, node_answer) act) \<Rightarrow> rebuilt_share \<Rightarrow> bytes list \<Rightarrow> ('s, 'e, relayed) act" where
  "relay_submit sha submit_block rebuilt txns =
     (case block_matches_header sha rebuilt txns of
        Inl why \<Rightarrow> ret (Relay_Rejected (By_Pool why))
      | Inr _ \<Rightarrow> submit_with_retries submit_block SUBMIT_ATTEMPTS
          (serialize_block (rb_header rebuilt) (rb_coinbase_tx rebuilt) txns))"

section \<open>Lemmas\<close>

lemma keeps_propose [keeps_intro]:
  assumes "\<And>b. keeps P (ask b)" shows "keeps P (propose ask r txns)"
proof -
  have "keeps P (propose_attempts ask n b)" for n b
    by (induction n) (auto intro!: keeps_intro assms split: sum.split)
  then show ?thesis by (simp add: propose_def)
qed

lemma keeps_relay_submit [keeps_intro]:
  assumes "\<And>b. keeps P (ask b)" shows "keeps P (relay_submit sha ask r txns)"
proof -
  have "keeps P (submit_with_retries ask n b)" for n b
    by (induction n) (auto intro!: keeps_intro assms split: sum.split option.split)
  then show ?thesis by (auto simp: relay_submit_def intro!: keeps_intro)
qed

text \<open>Interning changes which copy is held, never which transaction: with a double SHA-256 that
  separates the transactions at hand, the job gets back the ones it was sent.\<close>

definition cache_ok :: "(bytes \<Rightarrow> bytes) \<Rightarrow> txn_cache \<Rightarrow> bool" where
  "cache_ok sha c \<longleftrightarrow> (\<forall>k t. tc_held c k = Some t \<longrightarrow> sha256d sha t = k)"

lemma intern_ok:
  assumes "cache_ok sha c" "intern alive (sha256d sha raw) raw c = (t, c')"
  shows "sha256d sha t = sha256d sha raw \<and> cache_ok sha (sweep alive t c')"
  using assms by (auto simp: cache_ok_def intern_def sweep_def split: option.splits if_splits)

lemma intern_all_ok:
  "cache_ok sha c \<Longrightarrow> intern_all sha alive raws c = (txns, c') \<Longrightarrow>
     map (sha256d sha) txns = map (sha256d sha) raws \<and> cache_ok sha c'"
proof (induction raws arbitrary: alive c txns c')
  case (Cons raw raws)
  obtain t c1 where i: "intern alive (sha256d sha raw) raw c = (t, c1)" by fastforce
  obtain ts c2 where r: "intern_all sha (\<lambda>u. alive u \<or> u = t) raws (sweep alive t c1) = (ts, c2)" by fastforce
  show ?case using Cons.prems intern_ok [OF Cons.prems(1) i] Cons.IH [OF _ r] i r by auto
qed simp

lemma wire_tx_split:
  "wire_tx False t = put_u32_le (wt_version t) @ wire_body t @ put_u32_le (wt_lock_time t)"
  by (simp add: wire_tx_def)

lemma replicate_34: "replicate 34 x = x # x # replicate 32 x"
  by (simp add: numeral_eq_Suc)

lemma wire_reserved_value:
  "wire_witness (coinbase_input script sequence [replicate 32 0]) = WITNESS_RESERVED_VALUE_STACK"
  by (simp add: wire_witness_def coinbase_input_def wire_bytes_def as_u64_def WITNESS_RESERVED_VALUE_STACK_def
      encode_compact_size_def compact_size_consts replicate_34)

lemma wire_body_coinbase: "wire_body (coinbase_wire c w) = wire_body (coinbase_wire c w')"
  by (simp add: wire_body_def coinbase_wire_def wire_input_def coinbase_input_def)

lemma with_witness_wire:
  assumes "commits_to_witnesses (wire_tx False (coinbase_wire c w))"
  shows "with_witness_reserved_value (wire_tx False (coinbase_wire c w)) =
    wire_tx True (coinbase_wire c [replicate 32 0])"
proof -
  let ?v = "put_u32_le (ct_version c)" and ?l = "put_u32_le (ct_lock_time c)" and ?b = "wire_body (coinbase_wire c w)"
  have tx: "wire_tx False (coinbase_wire c w) = ?v @ ?b @ ?l"
    by (simp add: wire_tx_split coinbase_wire_def)
  have "with_witness_reserved_value (?v @ ?b @ ?l) = ?v @ [0x00, 0x01] @ ?b @ WITNESS_RESERVED_VALUE_STACK @ ?l"
    using assms unfolding tx by (simp add: with_witness_reserved_value_def TX_VERSION_LEN_def TX_LOCK_TIME_LEN_def)
  also have "\<dots> = wire_tx True (coinbase_wire c [replicate 32 0])"
    using wire_body_coinbase [of c w "[replicate 32 0]"] wire_reserved_value [of "ct_script_sig c" "ct_sequence c"]
    by (simp add: wire_tx_def coinbase_wire_def)
  finally show ?thesis unfolding tx .
qed

text \<open>What a share's rebuilding says of its header and coinbase.\<close>

lemma rebuild_share_header:
  assumes "rebuild_share sha blake v job cb s key = Some (Inr r)"
  obtains h where "submit_header s job (job_merkle_root sha job (rb_coinbase_tx r) (ps_subsidy_only s)) key = Some h"
    "rb_header r = serialize_header h"
  using assms
  by (auto simp: rebuild_share_def Let_def split: if_splits sum.splits option.splits)

lemma submit_header_merkle_root:
  "submit_header s job root key = Some h \<Longrightarrow> hd_merkle_root h = root"
  by (auto simp: submit_header_def job_header_def set_sia_fields_def Let_def split: if_splits prod.splits)

lemma submit_header_wf:
  assumes "submit_header s job root key = Some h" "wf_job job" "length (ps_extranonce s) = EXTRANONCE_SIZE"
    "length root = 32" "case key of None \<Rightarrow> True | Some k \<Rightarrow> length k = 16"
  shows "wf_header h"
  using assms
  by (auto simp: submit_header_def job_header_def set_sia_fields_def Let_def wf_header_def wf_job_def
      header_extranonce_def share_sizes split: if_splits prod.splits option.splits)

lemma length_merkle_root: "(\<And>x. length (sha x) = 32) \<Longrightarrow> length (merkle_root_from_branches sha (sha256d sha tx) bs) = 32"
proof -
  assume len: "\<And>x. length (sha x) = 32"
  have "length x = 32 \<Longrightarrow> length (fold (\<lambda>b acc. hash_pair sha acc b) bs x) = 32" for x
    by (induction bs arbitrary: x) (simp_all add: hash_pair_def sha256d_def len)
  then show ?thesis by (simp add: merkle_root_from_branches_def sha256d_def len)
qed

lemma header_commits:
  assumes r: "rebuild_share sha blake v job cb s key = Some (Inr r)" and len: "\<And>x. length (sha x) = 32"
    and wf: "wf_job job" "length (ps_extranonce s) = EXTRANONCE_SIZE" "case key of None \<Rightarrow> True | Some k \<Rightarrow> length k = 16"
  shows "map_option hd_merkle_root (deserialize_header (rb_header r)) =
    Some (job_merkle_root sha job (rb_coinbase_tx r) (ps_subsidy_only s))"
proof -
  obtain h where h: "submit_header s job (job_merkle_root sha job (rb_coinbase_tx r) (ps_subsidy_only s)) key = Some h"
    "rb_header r = serialize_header h" by (rule rebuild_share_header [OF r])
  have "wf_header h"
    by (rule submit_header_wf [OF h(1)]) (use wf in \<open>simp_all add: job_merkle_root_def length_merkle_root len\<close>)
  then show ?thesis
    by (simp add: h(2) deserialize_serialize_header submit_header_merkle_root [OF h(1)])
qed

text \<open>C24: a block found on a validated job is relayed from the transactions the pool already holds.  For a
  share rebuilt on a job, once the transactions the gateway sent passed \<open>txns_match_job\<close> against the
  job's branches (a subsidy-only share's block holds none), they form exactly the merkle root the
  share's header commits to; the only refusal left in \<open>block_matches_header\<close> is a mutated tree, which
  the node would refuse too.\<close>

theorem held_txns_form_the_block:
  assumes r: "rebuild_share sha blake v job cb s key = Some (Inr r)" and len: "\<And>x. length (sha x) = 32"
    and wf: "wf_job job" "length (ps_extranonce s) = EXTRANONCE_SIZE" "case key of None \<Rightarrow> True | Some k \<Rightarrow> length k = 16"
    and txns: "if ps_subsidy_only s then txns = [] else
      txns_match_job sha txns (js_txn_count job) (js_merkle_branches job) = Inr ()"
  shows "block_matches_header sha r txns \<in> {Inr (), Inl (MutatedTree (length txns + 1))}"
proof -
  obtain ids where ids: "txids sha 0 txns = Inr ids" "length ids = length txns"
    and branches: "merkle_branches sha ids = Some (if ps_subsidy_only s then [] else js_merkle_branches job)"
  proof -
    have "length ids = length txns" if "txids sha i txns = Inr ids" for i ids
      using that by (induction txns arbitrary: i ids) (auto elim!: tryq_InrE split: sum.splits)
    then show thesis
      using txns that by (auto simp: txns_match_job_def merkle_branches_def elim!: tryq_InrE split: if_splits)
  qed
  obtain bs where "merkle_branches sha ids = Some bs"
    "merkle_root_from_branches sha (sha256d sha (rb_coinbase_tx r)) bs =
       fst (merkle_tree_loop sha (sha256d sha (rb_coinbase_tx r) # ids) False)"
    by (rule merkle_branches_complete)
  with branches have root: "job_merkle_root sha job (rb_coinbase_tx r) (ps_subsidy_only s) =
      fst (merkle_tree_loop sha (sha256d sha (rb_coinbase_tx r) # ids) False)"
    by (auto simp: job_merkle_root_def)
  show ?thesis
    using ids(2)
    by (simp add: block_matches_header_def header_commits [OF r len wf] ids(1) root merkle_tree_root_def Let_def
        split: prod.split)
qed

theorem held_txns_form_the_block_witness:
  "\<exists>r. rebuild any_hash no_hash (verifier_new sample_policy) sample_share None = Some (Inr r) \<and>
     block_matches_header any_hash r [] \<in> {Inr (), Inl (MutatedTree (length ([] :: bytes list) + 1))}"
proof -
  obtain r where r: "rebuild any_hash no_hash (verifier_new sample_policy) sample_share None = Some (Inr r)"
    using sample_rebuilt by blast
  have resolved: "resolve (verifier_new sample_policy) sample_share =
      Inr (sample_job_section\<lparr>js_target_byte_index := 43\<rparr>, sample_coinbase_section)"
    using unat_word_lt(1) [of "3 :: u8"]
    by (simp add: resolve_def brings_new_job_def job_at_def verifier_new_def MAX_JOBS_def sample_share_def
        coinbase_bytes_def sample_coinbase_section_def MAX_COINBASE_SECTION_LEN_def Let_def)
  have share: "rebuild_share any_hash no_hash (verifier_new sample_policy)
      (sample_job_section\<lparr>js_target_byte_index := 43\<rparr>) sample_coinbase_section sample_share None = Some (Inr r)"
    by (rule rebuild_Inr [OF r]) (use resolved in auto)
  have "block_matches_header any_hash r [] \<in> {Inr (), Inl (MutatedTree (length ([] :: bytes list) + 1))}"
    by (rule held_txns_form_the_block [OF share])
      (simp_all add: wf_job_def sample_job_section_def sample_share_def EXTRANONCE_SIZE_def
        txns_match_job_def merkle_branches_def)
  with r show ?thesis by blast
qed

text \<open>The witness the pool adds to a proposal's coinbase changes no transaction id.  For every
  serialized coinbase whose outputs commit to witnesses, \<open>with_witness_reserved_value\<close> gives the segwit
  serialization with the all-zero reserved value as its one stack item, which parses back to the same
  coinbase and has the id of the coinbase the share was mined on, so the header's merkle root stands.\<close>

theorem proposal_keeps_the_txid:
  assumes "wf_tx (coinbase_wire c [replicate 32 0])" "commits_to_witnesses (wire_tx False (coinbase_wire c w))"
  shows "with_witness_reserved_value (wire_tx False (coinbase_wire c w)) = wire_tx True (coinbase_wire c [replicate 32 0]) \<and>
    txid sha (with_witness_reserved_value (wire_tx False (coinbase_wire c w))) =
      Inr (sha256d sha (wire_tx False (coinbase_wire c w)))"
proof -
  have "wire_tx False (coinbase_wire c [replicate 32 0]) = wire_tx False (coinbase_wire c w)"
    using wire_body_coinbase [of c w "[replicate 32 0]"] by (simp add: wire_tx_split coinbase_wire_def)
  then show ?thesis
    using with_witness_wire [OF assms(2)] txid_of_serialization [OF assms(1), of sha True] by simp
qed

theorem proposal_keeps_the_txid_witness:
  "\<exists>c. wf_tx (coinbase_wire c [replicate 32 0]) \<and> commits_to_witnesses (wire_tx False (coinbase_wire c [])) \<and>
     txid any_hash (with_witness_reserved_value (wire_tx False (coinbase_wire c []))) =
       Inr (sha256d any_hash (wire_tx False (coinbase_wire c [])))"
proof -
  let ?c = "sample_parsed\<lparr>ct_outputs := [\<lparr>to_value = 0, to_script_pubkey = WITNESS_COMMITMENT_PREFIX @ replicate 32 3\<rparr>]\<rparr>"
  have wf: "wf_tx (coinbase_wire ?c w)" if "length w < 2" "\<forall>x \<in> set w. length x = 32" for w
    using that by (simp add: wf_tx_def coinbase_wire_def wf_in_def wf_out_def coinbase_input_def sample_parsed_def
        WITNESS_COMMITMENT_PREFIX_def)
  have "parse_coinbase (wire_tx False (coinbase_wire ?c [])) = Inr ?c"
    using parse_coinbase_wire [of ?c "[]"] wf [of "[]"]
    by (simp add: script_sig_start_def sample_parsed_def encode_compact_size_def compact_size_consts as_u64_def)
  then have commits: "commits_to_witnesses (wire_tx False (coinbase_wire ?c []))"
    by (simp add: commits_to_witnesses_def WITNESS_COMMITMENT_PREFIX_def sample_parsed_def)
  have wf': "wf_tx (coinbase_wire ?c [replicate 32 0])" by (rule wf) simp_all
  show ?thesis using proposal_keeps_the_txid [OF wf' commits, of any_hash] commits wf' by blast
qed

end
