(* ===== verification/Sessions.thy ===== *)
theory Sessions
  imports Bounded Abw_Pool Verify
begin

text \<open>
  \<^verbatim>\<open>prime/src/sessions.rs\<close>: the version 3 sessions the pool keeps between connections, by the gateway's
  signing key.  Instants are milliseconds; the bytes of a token and of a slot's key drawn at random are
  arguments.

  A hello carries no challenge, so anyone may send a copy of one.  What the store shows for the copy is
  that it takes nothing away: \<open>resume_or_start\<close> only reads, and the session leaves the store through
  \<open>session_claim\<close>, which a connection calls once a frame of it decrypted.
\<close>

definition SESSION_KEEP :: nat where "SESSION_KEEP = 3600000"
definition MAX_SAVED_SESSIONS :: nat where "MAX_SAVED_SESSIONS = 4096"

record v3_session =
  v3_token :: bytes
  v3_abw :: abw_slot_state

record saved_session =
  ss_v3 :: v3_session
  ss_splits :: dictated_splits
  ss_saved_at :: nat
  ss_connection_opened_at :: nat

definition session_expired :: "nat \<Rightarrow> saved_session \<Rightarrow> bool" where
  "session_expired now s \<longleftrightarrow> SESSION_KEEP < now - ss_saved_at s"

record session_store =
  sn_saved :: "(bytes, saved_session) bounded_map"
  sn_prime_id :: u64

definition session_store_new :: "u64 \<Rightarrow> session_store" where
  "session_store_new prime_id = \<lparr>sn_saved = bounded_new MAX_SAVED_SESSIONS, sn_prime_id = prime_id\<rparr>"

definition session_save :: "bytes \<Rightarrow> saved_session \<Rightarrow> session_store \<Rightarrow> session_store" where
  "session_save key session st =
     (let saved = bounded_retain (\<lambda>_ s. \<not> session_expired (ss_saved_at session) s) (sn_saved st);
          newer = (case bounded_get saved key of
              None \<Rightarrow> False | Some kept \<Rightarrow> ss_connection_opened_at session < ss_connection_opened_at kept)
      in st\<lparr>sn_saved := (if newer then saved else fst (bounded_insert saved key session))\<rparr>)"

definition resume_or_start ::
    "bytes \<Rightarrow> bytes \<Rightarrow> bytes \<Rightarrow> bytes option \<Rightarrow> nat \<Rightarrow> session_store \<Rightarrow> v3_session \<times> dictated_splits \<times> bool" where
  "resume_or_start random key client_sign_pk presented now st =
     (let token = new_resume_token (sn_prime_id st) random;
          saved = (case (presented, bounded_get (sn_saved st) client_sign_pk) of
              (Some presented, Some saved) \<Rightarrow>
                if \<not> session_expired now saved \<and> v3_token (ss_v3 saved) = presented then Some saved else None
            | _ \<Rightarrow> None)
      in case saved of
           Some saved \<Rightarrow>
             (\<lparr>v3_token = token, v3_abw = abw_resume (ss_saved_at saved) (v3_abw (ss_v3 saved))\<rparr>, ss_splits saved, True)
         | None \<Rightarrow> (\<lparr>v3_token = token, v3_abw = abw_start now key\<rparr>, splits_default, False))"

definition session_claim :: "bytes \<Rightarrow> bytes \<Rightarrow> session_store \<Rightarrow> bool \<times> session_store" where
  "session_claim client_sign_pk presented st =
     (let claimed = (case bounded_get (sn_saved st) client_sign_pk of
              None \<Rightarrow> False | Some s \<Rightarrow> v3_token (ss_v3 s) = presented)
      in (claimed, if claimed then st\<lparr>sn_saved := fst (bounded_remove (sn_saved st) client_sign_pk)\<rparr> else st))"

section \<open>More on the bounded map\<close>

lemma bounded_insert_ok [simp]:
  assumes "bounded_ok m"
  shows "bounded_ok (fst (bounded_insert m k v))" "bm_capacity (fst (bounded_insert m k v)) = bm_capacity m"
  using bounded_insert_refines [OF assms prod.collapse [symmetric]] by auto

lemma bounded_remove_ok [simp]:
  assumes "bounded_ok m"
  shows "bounded_ok (fst (bounded_remove m k))" "bm_capacity (fst (bounded_remove m k)) = bm_capacity m"
  using bounded_remove_refines [OF assms prod.collapse [symmetric]] by auto

lemma bounded_retain_ok [simp]:
  assumes "bounded_ok m"
  shows "bounded_ok (bounded_retain keep m)" "bm_capacity (bounded_retain keep m) = bm_capacity m"
  using bounded_retain_refines(1) [OF assms] by (simp_all add: bounded_retain_def Let_def)

lemma bounded_get_retain:
  assumes "bounded_ok m"
  shows "bounded_get (bounded_retain keep m) k =
    (case bounded_get m k of None \<Rightarrow> None | Some v \<Rightarrow> if keep k v then Some v else None)"
  using assms map_of_filter_keep [of "bm_entries m" keep k]
  by (simp add: bounded_retain_def bounded_get_def Let_def bounded_ok_def)

lemma bounded_get_remove: "bounded_get (fst (bounded_remove m k)) j = (if j = k then None else bounded_get m j)"
  by (auto simp: bounded_remove_def bounded_get_def delete_conv' split: option.split)

lemma dropWhile_filter_le:
  "P j \<Longrightarrow> length (dropWhile (\<lambda>x. x \<noteq> j) (filter P xs)) \<le> length (dropWhile (\<lambda>x. x \<noteq> j) xs)"
proof (induction xs)
  case (Cons x xs)
  have "length (filter P xs) \<le> length xs" by simp
  with Cons show ?case by auto
qed simp

lemma room_retain:
  assumes "bounded_ok m" "bounded_get (bounded_retain keep m) j \<noteq> None"
  shows "room_for m j \<le> room_for (bounded_retain keep m) j"
  using assms dropWhile_filter_le [of "\<lambda>k. map_of (filter (\<lambda>(k, v). keep k v) (bm_entries m)) k \<noteq> None" j "bm_order m"]
  by (simp add: room_for_def bounded_retain_def bounded_get_def Let_def diff_le_mono2 del: not_None_eq)

lemma room_remove:
  assumes "bounded_ok m" "j \<noteq> k"
  shows "room_for m j \<le> room_for (fst (bounded_remove m k)) j"
  using assms dropWhile_filter_le [of "\<lambda>x. x \<noteq> k" j "bm_order m"]
  by (auto simp: room_for_def bounded_remove_def forget_order_def bounded_ok_def remove1_distinct diff_le_mono2
      split: option.split)

section \<open>What the store keeps\<close>

definition store_ok :: "session_store \<Rightarrow> bool" where
  "store_ok st \<longleftrightarrow> bounded_ok (sn_saved st) \<and> bm_capacity (sn_saved st) = MAX_SAVED_SESSIONS"

lemma store_ok_new: "store_ok (session_store_new prime_id)"
  by (simp add: store_ok_def session_store_new_def bounded_new_def bounded_ok_def MAX_SAVED_SESSIONS_def)

lemma store_ok_save: "store_ok st \<Longrightarrow> store_ok (session_save key s st)"
  by (simp add: store_ok_def session_save_def Let_def)

lemma store_ok_claim: "store_ok st \<Longrightarrow> store_ok (snd (session_claim pk token st))"
  by (simp add: store_ok_def session_claim_def Let_def)

lemma store_len: "store_ok st \<Longrightarrow> bounded_len (sn_saved st) \<le> MAX_SAVED_SESSIONS"
  by (auto simp: store_ok_def bounded_ok_def bounded_len_def)

abbreviation saved_for :: "session_store \<Rightarrow> bytes \<Rightarrow> saved_session option" where
  "saved_for st pk \<equiv> bounded_get (sn_saved st) pk"

text \<open>What is kept for \<open>pk\<close> after another session was saved: the session itself, the one of a newer connection,
  or what was there for another gateway.\<close>

lemma saved_after_save:
  assumes "store_ok st" "saved_for (session_save key s st) pk = Some t"
  shows "key = pk \<and> t = s \<or>
    saved_for st pk = Some t \<and> (key = pk \<longrightarrow> ss_connection_opened_at s < ss_connection_opened_at t)"
proof -
  let ?m = "bounded_retain (\<lambda>_ t. \<not> session_expired (ss_saved_at s) t) (sn_saved st)"
  have ok: "bounded_ok (sn_saved st)" using assms(1) by (simp add: store_ok_def)
  have m: "bounded_get ?m k = Some t \<Longrightarrow> saved_for st k = Some t" for k t
    using bounded_get_retain [OF ok] by (auto split: option.splits if_splits)
  show ?thesis
  proof (cases "key = pk")
    case True
    then show ?thesis
      using assms(2) m [of pk t] recent.get_put [of ?m pk s] ok
      by (auto simp: session_save_def Let_def split: option.splits if_splits)
  next
    case False
    then show ?thesis
      using assms(2) m [of pk t] recent.get_other [of ?m pk key s t] ok
      by (auto simp: session_save_def Let_def split: option.splits if_splits)
  qed
qed

text \<open>A session stays while it has not expired, no newer connection saved one for its gateway, and the
  store has room.\<close>

lemma kept_after_save:
  assumes "store_ok st" "saved_for st pk = Some t" "\<not> session_expired (ss_saved_at s) t"
    and "key = pk \<Longrightarrow> ss_connection_opened_at s < ss_connection_opened_at t" "0 < room_for (sn_saved st) pk"
  shows "saved_for (session_save key s st) pk = Some t"
    and "room_for (sn_saved st) pk \<le> Suc (room_for (sn_saved (session_save key s st)) pk)"
proof -
  let ?m = "bounded_retain (\<lambda>_ t. \<not> session_expired (ss_saved_at s) t) (sn_saved st)"
  have ok: "bounded_ok (sn_saved st)" "bounded_ok ?m" using assms(1) by (simp_all add: store_ok_def)
  have m: "bounded_get ?m pk = Some t" using assms(2,3) by (simp add: bounded_get_retain [OF ok(1)])
  then have room: "room_for (sn_saved st) pk \<le> room_for ?m pk" by (intro room_retain [OF ok(1)]) simp
  show "saved_for (session_save key s st) pk = Some t"
    "room_for (sn_saved st) pk \<le> Suc (room_for (sn_saved (session_save key s st)) pk)"
    using m room assms(4,5) recent.kept [OF ok(2), of pk key t s] recent.room_put [OF ok(2), of pk key s]
    by (cases "key = pk"; auto simp: session_save_def Let_def split: option.split)+
qed

lemma saved_after_claim:
  assumes "saved_for (snd (session_claim key token st)) pk = Some t"
  shows "saved_for st pk = Some t \<and> \<not> (key = pk \<and> v3_token (ss_v3 t) = token)"
  using assms by (auto simp: session_claim_def Let_def bounded_get_remove split: if_splits option.splits)

lemma kept_after_claim:
  assumes "store_ok st" "saved_for st pk = Some t" "\<not> (key = pk \<and> v3_token (ss_v3 t) = token)"
  shows "saved_for (snd (session_claim key token st)) pk = Some t"
    and "room_for (sn_saved st) pk \<le> room_for (sn_saved (snd (session_claim key token st))) pk"
  using assms room_remove [of "sn_saved st" pk key]
  by (cases "key = pk"; auto simp: session_claim_def Let_def bounded_get_remove store_ok_def split: option.splits)+

section \<open>The sessions that can be resumed\<close>

datatype store_op = Saved bytes saved_session | Claimed bytes bytes

fun on_store :: "store_op \<Rightarrow> session_store \<Rightarrow> session_store" where
  "on_store (Saved key s) st = session_save key s st"
| "on_store (Claimed key token) st = snd (session_claim key token st)"

lemma store_ok_op: "store_ok st \<Longrightarrow> store_ok (on_store op st)"
  by (cases op) (simp_all add: store_ok_save store_ok_claim)

lemma store_ok_run: "store_ok st \<Longrightarrow> store_ok (fold on_store ops st)"
  by (induction ops arbitrary: st) (simp_all add: store_ok_op)

text \<open>What may happen after a session was saved for \<open>pk\<close> without it being claimed or replaced.\<close>

fun spares :: "bytes \<Rightarrow> saved_session \<Rightarrow> store_op \<Rightarrow> bool" where
  "spares pk t (Saved key s) \<longleftrightarrow> (key = pk \<longrightarrow> ss_connection_opened_at s < ss_connection_opened_at t)"
| "spares pk t (Claimed key token) \<longleftrightarrow> \<not> (key = pk \<and> v3_token (ss_v3 t) = token)"

lemma saved_after_op:
  assumes "store_ok st" "saved_for (on_store op st) pk = Some t"
  shows "op = Saved pk t \<or> saved_for st pk = Some t \<and> spares pk t op"
proof (cases op)
  case (Saved key s)
  then show ?thesis using assms saved_after_save [of st key s pk t] by auto
next
  case (Claimed key token)
  then show ?thesis using assms saved_after_claim [of key token st pk t] by auto
qed

lemma saved_origin:
  assumes "saved_for (fold on_store ops (session_store_new prime_id)) pk = Some t"
  shows "\<exists>before after. ops = before @ Saved pk t # after \<and> list_all (spares pk t) after"
  using assms
proof (induction ops rule: rev_induct)
  case Nil
  then show ?case by (simp add: session_store_new_def bounded_new_def bounded_get_def)
next
  case (snoc op ops)
  let ?st = "fold on_store ops (session_store_new prime_id)"
  have "op = Saved pk t \<or> saved_for ?st pk = Some t \<and> spares pk t op"
    using snoc.prems saved_after_op store_ok_run [OF store_ok_new] by simp
  then show ?case
  proof
    assume "op = Saved pk t"
    then show ?thesis by (intro exI [of _ ops] exI [of _ "[]"]) simp
  next
    assume "saved_for ?st pk = Some t \<and> spares pk t op"
    then obtain before after where "ops = before @ Saved pk t # after" "list_all (spares pk t) after" "spares pk t op"
      using snoc.IH by blast
    then show ?thesis by (intro exI [of _ before] exI [of _ "after @ [op]"]) simp
  qed
qed

definition unexpired_at :: "saved_session \<Rightarrow> store_op \<Rightarrow> bool" where
  "unexpired_at t op = (case op of Saved _ s \<Rightarrow> \<not> session_expired (ss_saved_at s) t | Claimed _ _ \<Rightarrow> True)"

lemma saved_kept:
  assumes "store_ok st" "saved_for st pk = Some t" "length ops \<le> room_for (sn_saved st) pk"
    and "list_all (\<lambda>op. spares pk t op \<and> unexpired_at t op) ops"
  shows "saved_for (fold on_store ops st) pk = Some t"
  using assms
proof (induction ops arbitrary: st)
  case (Cons op ops)
  have "saved_for (on_store op st) pk = Some t \<and> length ops \<le> room_for (sn_saved (on_store op st)) pk"
  proof (cases op)
    case (Saved key s)
    then show ?thesis using Cons.prems kept_after_save [of st pk t s key] by (auto simp: unexpired_at_def)
  next
    case (Claimed key token)
    then show ?thesis using Cons.prems kept_after_claim [of st pk t key token] by auto
  qed
  then show ?case using Cons store_ok_op by simp
qed simp

lemma saved_first:
  assumes "store_ok st" "\<And>t. saved_for st pk = Some t \<Longrightarrow> ss_connection_opened_at t \<le> ss_connection_opened_at s"
  shows "saved_for (session_save pk s st) pk = Some s"
    and "MAX_SAVED_SESSIONS \<le> Suc (room_for (sn_saved (session_save pk s st)) pk)"
proof -
  let ?m = "bounded_retain (\<lambda>_ t. \<not> session_expired (ss_saved_at s) t) (sn_saved st)"
  have ok: "bounded_ok ?m" "bounded_ok (sn_saved st)" using assms(1) by (simp_all add: store_ok_def)
  have "sn_saved (session_save pk s st) = fst (bounded_insert ?m pk s)"
    using assms(2) bounded_get_retain [OF ok(2)]
    by (fastforce simp: session_save_def Let_def split: option.splits if_splits)
  then show "saved_for (session_save pk s st) pk = Some s"
    "MAX_SAVED_SESSIONS \<le> Suc (room_for (sn_saved (session_save pk s st)) pk)"
    using recent.get_put [OF ok(1)] room_after_insert [OF ok(1), of pk s] assms(1) by (simp_all add: store_ok_def)
qed

lemma resume_or_start_resumed:
  "resume_or_start random key pk presented now st = (v3, splits, True) \<longleftrightarrow>
   (\<exists>t. saved_for st pk = Some t \<and> presented = Some (v3_token (ss_v3 t)) \<and> \<not> session_expired now t \<and>
     splits = ss_splits t \<and>
     v3 = \<lparr>v3_token = new_resume_token (sn_prime_id st) random, v3_abw = abw_resume (ss_saved_at t) (v3_abw (ss_v3 t))\<rparr>)"
  by (auto simp: resume_or_start_def Let_def split: option.splits if_splits)

text \<open>C26: A hello resumes a session only with the token of a session that was saved under the hello's own
  signing key within the last hour, and that since then no connection claimed and no connection as new
  saved over: the resumed slots and splits are the ones of that session.  Conversely, while fewer than
  4096 saves and claims came after it and it has not expired at any of them, the gateway that presents
  the token of such a session does resume it, whatever hellos others sent in between: a hello changes
  nothing in the store.\<close>

theorem sessions_resumed_by_their_gateway:
  assumes "st = fold on_store ops (session_store_new prime_id)"
  shows "(resume_or_start random key pk presented now st = (v3, splits, True) \<longrightarrow>
      (\<exists>before t after. ops = before @ Saved pk t # after \<and> list_all (spares pk t) after \<and>
         presented = Some (v3_token (ss_v3 t)) \<and> now - ss_saved_at t \<le> SESSION_KEEP \<and>
         splits = ss_splits t \<and> v3_abw v3 = abw_resume (ss_saved_at t) (v3_abw (ss_v3 t)))) \<and>
    (\<forall>before t after. ops = before @ Saved pk t # after \<longrightarrow>
      (\<forall>s. Saved pk s \<in> set before \<longrightarrow> ss_connection_opened_at s \<le> ss_connection_opened_at t) \<longrightarrow>
      list_all (\<lambda>op. spares pk t op \<and> unexpired_at t op) after \<longrightarrow> length after < MAX_SAVED_SESSIONS \<longrightarrow>
      presented = Some (v3_token (ss_v3 t)) \<longrightarrow> now - ss_saved_at t \<le> SESSION_KEEP \<longrightarrow>
      resume_or_start random key pk presented now st =
        (\<lparr>v3_token = new_resume_token (sn_prime_id st) random, v3_abw = abw_resume (ss_saved_at t) (v3_abw (ss_v3 t))\<rparr>,
         ss_splits t, True))"
proof (intro conjI allI impI)
  assume "resume_or_start random key pk presented now st = (v3, splits, True)"
  then obtain t where t: "saved_for st pk = Some t" "presented = Some (v3_token (ss_v3 t))" "\<not> session_expired now t"
      "splits = ss_splits t" "v3_abw v3 = abw_resume (ss_saved_at t) (v3_abw (ss_v3 t))"
    by (auto simp: resume_or_start_resumed)
  obtain before after where "ops = before @ Saved pk t # after" "list_all (spares pk t) after"
    using saved_origin t(1) assms by blast
  then show "\<exists>before t after. ops = before @ Saved pk t # after \<and> list_all (spares pk t) after \<and>
      presented = Some (v3_token (ss_v3 t)) \<and> now - ss_saved_at t \<le> SESSION_KEEP \<and>
      splits = ss_splits t \<and> v3_abw v3 = abw_resume (ss_saved_at t) (v3_abw (ss_v3 t))"
    using t by (intro exI [of _ before] exI [of _ t] exI [of _ after]) (simp add: session_expired_def)
next
  fix before t after
  assume ops: "ops = before @ Saved pk t # after"
    and newest: "\<forall>s. Saved pk s \<in> set before \<longrightarrow> ss_connection_opened_at s \<le> ss_connection_opened_at t"
    and after: "list_all (\<lambda>op. spares pk t op \<and> unexpired_at t op) after" "length after < MAX_SAVED_SESSIONS"
    and presented: "presented = Some (v3_token (ss_v3 t))" "now - ss_saved_at t \<le> SESSION_KEEP"
  let ?st = "fold on_store before (session_store_new prime_id)"
  have ok: "store_ok ?st" by (rule store_ok_run [OF store_ok_new])
  have older: "ss_connection_opened_at s \<le> ss_connection_opened_at t" if "saved_for ?st pk = Some s" for s
  proof -
    from saved_origin [OF that] obtain xs ys where "before = xs @ Saved pk s # ys" by blast
    then show ?thesis using newest by simp
  qed
  note first = saved_first [OF ok, of pk t, OF older]
  have "saved_for (fold on_store after (session_save pk t ?st)) pk = Some t"
    using after first by (intro saved_kept store_ok_save ok) simp_all
  then have "saved_for st pk = Some t" using assms ops by simp
  then show "resume_or_start random key pk presented now st =
      (\<lparr>v3_token = new_resume_token (sn_prime_id st) random, v3_abw = abw_resume (ss_saved_at t) (v3_abw (ss_v3 t))\<rparr>,
       ss_splits t, True)"
    using presented by (auto simp: resume_or_start_resumed session_expired_def)
qed

definition sample_session :: "nat \<Rightarrow> saved_session" where
  "sample_session t =
     \<lparr>ss_v3 = \<lparr>v3_token = [1, 2, 3], v3_abw = abw_start 0 [7]\<rparr>, ss_splits = splits_default, ss_saved_at = t,
      ss_connection_opened_at = t\<rparr>"

theorem sessions_resumed_by_their_gateway_witness:
  "snd (snd (resume_or_start [9] [7] [5] (Some [1, 2, 3]) 2000
     (fold on_store [Saved [5] (sample_session 1000), Saved [6] (sample_session 1500), Claimed [6] [1, 2, 3]] (session_store_new 1))))"
proof -
  let ?ops = "[Saved [5] (sample_session 1000), Saved [6] (sample_session 1500), Claimed [6] [1, 2, 3]]"
  let ?st = "fold on_store ?ops (session_store_new 1)"
  from sessions_resumed_by_their_gateway [OF refl, of "[9]" "[7]" "[5]" "Some [1, 2, 3]" 2000 ?ops 1, THEN conjunct2,
      rule_format, of "[]" "sample_session 1000" "tl ?ops"]
  show ?thesis
    by (simp add: sample_session_def unexpired_at_def session_expired_def SESSION_KEEP_def MAX_SAVED_SESSIONS_def
        del: fold_simps)
qed

end
