(* ===== verification/Share_Flow.thy ===== *)
theory Share_Flow
  imports Accounting Relay Validation Sessions
begin

text \<open>
  A submitted share from its arrival to its answer: \<^verbatim>\<open>prime/src/connection/shares.rs\<close>, with the sends
  and the receipts of \<^verbatim>\<open>prime/src/connection.rs\<close> and \<^verbatim>\<open>prime/src/connection/assignments.rs\<close> it uses.

  A handler is an action on the connection, which holds the shared server state as its handlers see it
  under their locks.  What the program asks of the outside is answered by \<open>world\<close>, by the number of the
  question: the clocks, whether a write succeeds, what the node answers a proposal or a submission.
  The trace records what the connection did: the shares it received, the messages it sent, what it asked
  the node and was answered, the shares it credited.  Nothing reads the trace.
\<close>

section \<open>The connection\<close>

definition MAX_REPORTED_UNPAYABLE :: nat where "MAX_REPORTED_UNPAYABLE = 4096"
definition TXNS_TIMEOUT :: nat where "TXNS_TIMEOUT = 20000"
definition MAX_TXN_REQUESTS :: nat where "MAX_TXN_REQUESTS = 8"
definition MAX_HELD_SHARES :: nat where "MAX_HELD_SHARES = 4096"
definition UNSEEN_PARENT_HOLD :: nat where "UNSEEN_PARENT_HOLD = 10000"
definition PROPOSAL_RETRY_SECS :: nat where "PROPOSAL_RETRY_SECS = 10"
definition MAX_WARNED :: u32 where "MAX_WARNED = 16"
definition MAX_RELAYED_BLOCKS :: nat where "MAX_RELAYED_BLOCKS = 1024"

datatype awaiting = Awaiting_Txns | Awaiting_Parent nat

record held_share =
  hs_s :: pow_submit
  hs_verified :: "refusal + rebuilt_share"
  hs_generation :: u64
  hs_received_at :: nat
  hs_awaiting :: awaiting

definition claimed_hash :: "held_share \<Rightarrow> bytes option" where
  "claimed_hash h = (case hs_verified h of Inr rebuilt \<Rightarrow> Some (rb_block_hash rebuilt) | Inl _ \<Rightarrow> None)"

definition held_hash :: "held_share \<Rightarrow> bytes option" where
  "held_hash h = (case hs_verified h of
       Inr rebuilt \<Rightarrow> Some (rb_block_hash rebuilt)
     | Inl refusal \<Rightarrow> map_option rb_block_hash (rf_rebuilt refusal))"

definition parent_hold_until :: "held_share \<Rightarrow> nat option" where
  "parent_hold_until h = (case hs_awaiting h of Awaiting_Parent t \<Rightarrow> Some t | Awaiting_Txns \<Rightarrow> None)"

definition awaits_parent :: "held_share \<Rightarrow> bool" where
  "awaits_parent h = (case hs_awaiting h of Awaiting_Parent _ \<Rightarrow> True | Awaiting_Txns \<Rightarrow> False)"

record txn_request =
  tq_job_id :: u8
  tq_generation :: u64
  tq_sent_at :: nat

definition txn_deadline :: "txn_request \<Rightarrow> nat" where
  "txn_deadline r = tq_sent_at r + TXNS_TIMEOUT"

datatype job_verdict =
    NotNeeded | Pending u64 | JobValid "bytes list" | RelayOnly "bytes list"
  | JobInvalid reject_reason | Unchecked reject_reason "bytes list"

datatype txns_state = TxnsReady "bytes list" | TxnsPending | TxnsRefused reject_reason

record share_outcome =
  so_verdict :: share_verdict
  so_raw_pow_hash :: "bytes option"

record 'db pool =
  pl_server :: "'db server"
  pl_relayed_blocks :: "bytes bounded_set"
  pl_txn_cache :: txn_cache
  pl_sessions :: session_store
  pl_tip :: "bytes option"
  pl_template :: "template_summary option"

datatype event =
    Share_Received
  | Sent u8 bytes
  | Proposed rebuilt_share bytes node_answer
  | Submitted bytes node_answer
  | Credited bytes rebuilt_share

record 'db connection =
  cn_pool :: "'db pool"
  cn_opened_at :: nat
  cn_channel :: server_channel
  cn_verifier :: verifier
  cn_reported_unpayable :: "bytes bounded_set"
  cn_held :: "held_share list"
  cn_txn_requests :: "txn_request list"
  cn_warned_undecodable :: u32
  cn_warned_refused_blocks :: u32
  cn_last_frame_at :: nat
  cn_last_send_at :: nat
  cn_client_sign_pk :: bytes
  cn_v3 :: "v3_session option"
  cn_resumed_from :: "bytes option"
  cn_proven :: bool
  cn_bulk :: reassembler
  cn_asked :: nat
  cn_trace :: "event list"

text \<open>Reading the four bytes of a frame header: an error, no byte waiting, the end of the stream.\<close>

datatype header_read = Head_Failed | Head_Empty | Head_Closed | Head bytes

record 'db world =
  wd_sha :: "bytes \<Rightarrow> bytes"
  wd_blake :: "bytes \<Rightarrow> bytes"
  wd_crypto :: crypto
  wd_redb :: "'db redb"
  wd_codec :: address_codec
  wd_to_bits :: "f64 \<Rightarrow> u64"
  wd_instant :: "nat \<Rightarrow> nat"
  wd_unix_now :: "nat \<Rightarrow> nat"
  wd_write_fails :: "nat \<Rightarrow> bool"
  wd_propose :: "nat \<Rightarrow> bytes \<Rightarrow> node_answer"
  wd_submit :: "nat \<Rightarrow> bytes \<Rightarrow> node_answer"
  wd_alive :: "nat \<Rightarrow> bytes \<Rightarrow> bool"
  wd_random :: "nat \<Rightarrow> nat \<Rightarrow> bytes"
  wd_readable :: "nat \<Rightarrow> bool"
  wd_wait :: "nat \<Rightarrow> nat \<Rightarrow> bool option"
  wd_header :: "nat \<Rightarrow> header_read"
  wd_body :: "nat \<Rightarrow> nat \<Rightarrow> bytes option"
  wd_budget :: "nat \<Rightarrow> bool"
  wd_plausible :: "nat \<Rightarrow> u64 \<Rightarrow> bool"

datatype conn_error = Conn_Io

type_synonym ('db, 'a) handler = "('db connection, conn_error, 'a) act"

section \<open>Questions to the outside\<close>

definition observe :: "(nat \<Rightarrow> 'a) \<Rightarrow> ('db, 'a) handler" where
  "observe f = step (\<lambda>c. (f (cn_asked c), c\<lparr>cn_asked := Suc (cn_asked c)\<rparr>))"

definition emit :: "event \<Rightarrow> ('db, unit) handler" where
  "emit e = modify (\<lambda>c. c\<lparr>cn_trace := cn_trace c @ [e]\<rparr>)"

text \<open>The share proposed is an argument for the trace alone: the node is asked about the block.\<close>

definition propose_block :: "'db world \<Rightarrow> rebuilt_share \<Rightarrow> bytes \<Rightarrow> ('db, node_answer) handler" where
  "propose_block W rebuilt block =
     bnd (observe (\<lambda>n. wd_propose W n block)) (\<lambda>a. bnd (emit (Proposed rebuilt block a)) (\<lambda>_. ret a))"

definition submit_block :: "'db world \<Rightarrow> bytes \<Rightarrow> ('db, node_answer) handler" where
  "submit_block W block =
     bnd (observe (\<lambda>n. wd_submit W n block)) (\<lambda>a. bnd (emit (Submitted block a)) (\<lambda>_. ret a))"

definition send_frame :: "'db world \<Rightarrow> u8 \<Rightarrow> bytes \<Rightarrow> bool \<Rightarrow> ('db, unit) handler" where
  "send_frame W cmd payload sign =
     bnd (step (\<lambda>c. let (res, ch) = server_encrypt (wd_crypto W) (cn_channel c) cmd payload sign
                    in (res, c\<lparr>cn_channel := ch\<rparr>))) (\<lambda>res.
     case res of
       Inl _ \<Rightarrow> raise Conn_Io
     | Inr wire \<Rightarrow>
         bnd (observe (wd_write_fails W)) (\<lambda>failed.
         if failed then raise Conn_Io
         else bnd (emit (Sent cmd payload)) (\<lambda>_.
              bnd (observe (wd_instant W)) (\<lambda>now. modify (\<lambda>c. c\<lparr>cn_last_send_at := now\<rparr>)))))"

definition send_mining :: "'db world \<Rightarrow> bytes \<Rightarrow> bool \<Rightarrow> ('db, unit) handler" where
  "send_mining W payload sign = send_frame W MINING payload sign"

section \<open>The server's shared state\<close>

definition on_server :: "('db server \<Rightarrow> 'db server) \<Rightarrow> 'db connection \<Rightarrow> 'db connection" where
  "on_server f c = c\<lparr>cn_pool := (cn_pool c)\<lparr>pl_server := f (pl_server (cn_pool c))\<rparr>\<rparr>"

abbreviation cn_server :: "'db connection \<Rightarrow> 'db server" where
  "cn_server c \<equiv> pl_server (cn_pool c)"

definition on_hashes :: "(accepted_hashes \<Rightarrow> accepted_hashes) \<Rightarrow> ('db, unit) handler" where
  "on_hashes f = modify (on_server (\<lambda>S. S\<lparr>sv_accepted_hashes := f (sv_accepted_hashes S)\<rparr>))"

definition release_hash :: "bytes \<Rightarrow> ('db, unit) handler" where
  "release_hash hash = on_hashes (\<lambda>h. snd (hashes_remove hash h))"

definition abw_slot_of :: "'db connection \<Rightarrow> pow_submit \<Rightarrow> u8 option" where
  "abw_slot_of c s = (if cn_v3 c \<noteq> None then ps_abw_slot s else None)"

definition warn_level :: "u32 \<Rightarrow> bool \<times> u32" where
  "warn_level n = (let n = sat_add n 1 in (n \<le> MAX_WARNED, n))"

definition send_abw_receipt :: "'db world \<Rightarrow> pow_submit \<Rightarrow> rebuilt_share \<Rightarrow> ('db, unit) handler" where
  "send_abw_receipt W s rebuilt =
     bnd (gets (\<lambda>c. abw_slot_of c s)) (\<lambda>slot.
     case slot of
       None \<Rightarrow> ret ()
     | Some slot \<Rightarrow> send_mining W
         (encode_candidate (candidate_ref_new slot (rb_raw_pow_hash rebuilt)) CANDIDATE_RECEIPT) False)"

section \<open>The node's verdict on a job\<close>

definition starts_with :: "string \<Rightarrow> string \<Rightarrow> bool" where
  "starts_with reason p \<longleftrightarrow> take (length p) reason = p"

definition block_check_from :: "node_answer \<Rightarrow> u32 \<Rightarrow> nat \<Rightarrow> block_check \<times> bool" where
  "block_check_from proposal version now =
     (let retry = Unavailable (min (now + PROPOSAL_RETRY_SECS) (2 ^ 64 - 1)) in
      case proposal of
        Inr None \<Rightarrow> (Valid version, True)
      | Inl _ \<Rightarrow> (retry, True)
      | Inr (Some reason) \<Rightarrow>
          if reason = ''duplicate'' then (Valid version, True)
          else if reason = ''duplicate-inconclusive'' then (retry, True)
          else if reason = ''inconclusive-not-best-prevblk'' then (Invalid StaleBlock, True)
          else if reason = ''bad-diffbits'' then (Invalid BadTarget, True)
          else if reason = ''bad-header-height'' \<or> reason = ''bad-cb-height'' then (Invalid HeaderFieldMismatch, True)
          else if reason = ''bad-txnmrklroot'' \<or> reason = ''bad-txns-duplicate'' then (Invalid HeaderMerkleMismatch, True)
          else if starts_with reason ''time-'' then (Invalid BadNtime, False)
          else if starts_with reason ''bad-version'' then (Invalid RejectVersion, False)
          else if starts_with reason ''bad-cb-'' then (Invalid BadCoinbase, True)
          else (Invalid Other, True))"

definition check_block ::
    "'db world \<Rightarrow> pow_submit \<Rightarrow> rebuilt_share \<Rightarrow> u64 \<Rightarrow> bytes list \<Rightarrow> nat \<Rightarrow> ('db, block_check) handler" where
  "check_block W s rebuilt generation txns now =
     bnd (propose (propose_block W rebuilt) rebuilt txns) (\<lambda>proposal.
     let (check, whole_job) = block_check_from proposal (rb_version rebuilt) now in
     bnd (if whole_job
          then modify (\<lambda>c. c\<lparr>cn_verifier :=
            record_block_check (ps_job_id s) generation (rb_coinbase_digest rebuilt) check (cn_verifier c)\<rparr>)
          else ret ()) (\<lambda>_. ret check))"

definition request_txns :: "'db world \<Rightarrow> u8 \<Rightarrow> u64 \<Rightarrow> ('db, txns_state) handler" where
  "request_txns W job_id generation =
     bnd (send_mining W (request_block_txns job_id) False) (\<lambda>_.
     bnd (modify (\<lambda>c. c\<lparr>cn_verifier := snd (set_job_txns job_id generation Requested (cn_verifier c))\<rparr>)) (\<lambda>_.
     bnd (observe (wd_instant W)) (\<lambda>sent_at.
     bnd (modify (\<lambda>c. c\<lparr>cn_txn_requests := cn_txn_requests c @
            [\<lparr>tq_job_id = job_id, tq_generation = generation, tq_sent_at = sent_at\<rparr>]\<rparr>)) (\<lambda>_.
     ret TxnsPending))))"

definition connection_job_txns :: "'db world \<Rightarrow> pow_submit \<Rightarrow> u64 \<Rightarrow> ('db, txns_state) handler" where
  "connection_job_txns W s generation =
     bnd (gets cn_verifier) (\<lambda>v.
     case verifier_job v (ps_job_id s) generation of
       None \<Rightarrow> ret (TxnsRefused StaleBlock)
     | Some job \<Rightarrow>
         if ps_subsidy_only s \<or> js_txn_count job = 0 then ret (TxnsReady [])
         else case job_txns_of v (ps_job_id s) generation of
           Some (Held txns) \<Rightarrow> ret (TxnsReady txns)
         | Some Requested \<Rightarrow> ret TxnsPending
         | Some (Refused reason) \<Rightarrow> ret (TxnsRefused reason)
         | None \<Rightarrow> ret (TxnsRefused StaleBlock)
         | Some Unrequested \<Rightarrow>
             bnd (gets (\<lambda>c. length (cn_txn_requests c))) (\<lambda>outstanding.
             if MAX_TXN_REQUESTS \<le> outstanding then ret (TxnsRefused Other)
             else request_txns W (ps_job_id s) generation))"

text \<open>The share the job's validity matters to, and whether it would be credited: a verified share, or a
  refused one that is a block the node has not answered for.\<close>

definition judged :: "'db connection \<Rightarrow> refusal + rebuilt_share \<Rightarrow> (rebuilt_share \<times> bool) option" where
  "judged c verified =
     (case verified of
        Inr rebuilt \<Rightarrow> Some (rebuilt, True)
      | Inl refusal \<Rightarrow>
          (case rf_rebuilt refusal of
             None \<Rightarrow> None
           | Some rebuilt \<Rightarrow>
               if relayable (cn_verifier c) rebuilt \<and>
                  (rf_reason refusal \<noteq> DuplicateWork \<or>
                   \<not> bounded_contains (pl_relayed_blocks (cn_pool c)) (rb_block_hash rebuilt))
               then Some (rebuilt, False) else None))"

definition verdict_of_check :: "rebuilt_share \<Rightarrow> bytes list \<Rightarrow> block_check \<Rightarrow> job_verdict" where
  "verdict_of_check rebuilt txns check =
     (case check of
        Valid version \<Rightarrow>
          if (version XOR rb_version rebuilt) AND NOT VERSION_ROLLING_MASK \<noteq> 0
          then JobInvalid RejectVersion else JobValid txns
      | Invalid reason \<Rightarrow> if reason = StaleBlock then Unchecked StaleBlock txns else JobInvalid reason
      | Unavailable _ \<Rightarrow> Unchecked Other txns)"

definition current_check ::
    "'db world \<Rightarrow> pow_submit \<Rightarrow> rebuilt_share \<Rightarrow> u64 \<Rightarrow> bytes list \<Rightarrow> nat \<Rightarrow> ('db, block_check) handler" where
  "current_check W s rebuilt generation txns now =
     bnd (gets (\<lambda>c. block_check_of (cn_verifier c) (ps_job_id s) generation (rb_coinbase_digest rebuilt))) (\<lambda>known.
     case known of
       Some (Unavailable retry_at) \<Rightarrow>
         if retry_at \<le> now then check_block W s rebuilt generation txns now else ret (Unavailable retry_at)
     | Some check \<Rightarrow> ret check
     | None \<Rightarrow> check_block W s rebuilt generation txns now)"

definition job_verdict_of ::
    "'db world \<Rightarrow> pow_submit \<Rightarrow> refusal + rebuilt_share \<Rightarrow> nat \<Rightarrow> ('db, job_verdict) handler" where
  "job_verdict_of W s verified now =
     bnd (gets (\<lambda>c. judged c verified)) (\<lambda>j.
     case j of
       None \<Rightarrow> ret NotNeeded
     | Some (rebuilt, credited) \<Rightarrow>
         let refused = (\<lambda>reason. if credited then JobInvalid reason else NotNeeded) in
         (case rb_job_generation rebuilt of
            None \<Rightarrow> ret (refused StaleBlock)
          | Some generation \<Rightarrow>
              bnd (connection_job_txns W s generation) (\<lambda>t.
              case t of
                TxnsPending \<Rightarrow> ret (Pending generation)
              | TxnsRefused reason \<Rightarrow> ret (refused reason)
              | TxnsReady txns \<Rightarrow>
                  if \<not> credited then ret (RelayOnly txns)
                  else bnd (current_check W s rebuilt generation txns now) (\<lambda>check.
                       ret (verdict_of_check rebuilt txns check)))))"

section \<open>Blocks and credit\<close>

definition note_published_slot :: "pow_submit \<Rightarrow> ('db, unit) handler" where
  "note_published_slot s =
     modify (\<lambda>c. case (abw_slot_of c s, cn_v3 c) of
         (Some slot, Some v3) \<Rightarrow> c\<lparr>cn_v3 := Some (v3\<lparr>v3_abw := snd (note_published slot (v3_abw v3))\<rparr>)\<rparr>
       | _ \<Rightarrow> c)"

definition record_the_block :: "'db world \<Rightarrow> pow_submit \<Rightarrow> rebuilt_share \<Rightarrow> nat \<Rightarrow> ('db, unit) handler" where
  "record_the_block W s rebuilt now =
     step_opt (\<lambda>c. map_option (\<lambda>S. ((), on_server (\<lambda>_. S) c))
       (record_block (wd_redb W) (wd_codec W) (wd_to_bits W) (ps_username s) rebuilt now (cn_server c)))"

definition relay_and_record ::
    "'db world \<Rightarrow> pow_submit \<Rightarrow> rebuilt_share \<Rightarrow> bytes list \<Rightarrow> nat \<Rightarrow> ('db, unit) handler" where
  "relay_and_record W s rebuilt txns now =
     bnd (step (\<lambda>c. let (blocks, inserted) = bounded_set_insert (pl_relayed_blocks (cn_pool c)) (rb_block_hash rebuilt)
                    in (inserted, c\<lparr>cn_pool := (cn_pool c)\<lparr>pl_relayed_blocks := blocks\<rparr>\<rparr>))) (\<lambda>inserted.
     if \<not> inserted then ret ()
     else
       bnd (relay_submit (wd_sha W) (submit_block W) rebuilt txns) (\<lambda>relayed.
       case relayed of
         Relay_Rejected _ \<Rightarrow> ret ()
       | Relay_Accepted \<Rightarrow>
           bnd (note_published_slot s) (\<lambda>_. record_the_block W s rebuilt now)
       | Relay_Unknown \<Rightarrow>
           bnd (note_published_slot s) (\<lambda>_.
           bnd (modify (\<lambda>c. c\<lparr>cn_pool := (cn_pool c)\<lparr>pl_relayed_blocks :=
                  fst (bounded_set_remove (pl_relayed_blocks (cn_pool c)) (rb_block_hash rebuilt))\<rparr>\<rparr>)) (\<lambda>_.
           record_the_block W s rebuilt now))))"

definition refuse_if_unpayable :: "'db world \<Rightarrow> bytes \<Rightarrow> ('db, bool) handler" where
  "refuse_if_unpayable W username =
     step (\<lambda>c. let identity = address_of username in
       if address_script (wd_codec W) identity (sv_chain (cn_server c)) \<noteq> None then (False, c)
       else (True,
         if bounded_len (cn_reported_unpayable c) < MAX_REPORTED_UNPAYABLE
         then c\<lparr>cn_reported_unpayable := fst (bounded_set_insert (cn_reported_unpayable c) identity)\<rparr>
         else c))"

definition credit :: "'db world \<Rightarrow> pow_submit \<Rightarrow> rebuilt_share \<Rightarrow> nat \<Rightarrow> ('db, share_verdict) handler" where
  "credit W s rebuilt now =
     bnd (refuse_if_unpayable W (ps_username s)) (\<lambda>unpayable.
     if unpayable then ret (Rejected RejectUsername)
     else
       bnd (step_opt (\<lambda>c. map_option (\<lambda>(r, S). (r, on_server (\<lambda>_. S) c))
              (credit_share (wd_redb W) (ps_username s) rebuilt now (cn_server c)))) (\<lambda>recorded.
       case recorded of
         Inl _ \<Rightarrow> ret (Rejected Other)
       | Inr _ \<Rightarrow> bnd (emit (Credited (ps_username s) rebuilt)) (\<lambda>_. ret Accepted)))"

definition on_accepted ::
    "'db world \<Rightarrow> pow_submit \<Rightarrow> rebuilt_share \<Rightarrow> bytes list \<Rightarrow> nat \<Rightarrow> ('db, share_outcome) handler" where
  "on_accepted W s rebuilt txns now =
     bnd (if meets_own_bits rebuilt then relay_and_record W s rebuilt txns now else ret ()) (\<lambda>_.
     bnd (modify (\<lambda>c. c\<lparr>cn_v3 := map_option (\<lambda>v3. v3\<lparr>v3_abw := note_share (v3_abw v3)\<rparr>) (cn_v3 c)\<rparr>)) (\<lambda>_.
     bnd (credit W s rebuilt now) (\<lambda>verdict.
     bnd (if is_block_candidate rebuilt then send_abw_receipt W s rebuilt else ret ()) (\<lambda>_.
     ret \<lparr>so_verdict = verdict, so_raw_pow_hash = Some (rb_raw_pow_hash rebuilt)\<rparr>))))"

definition may_reference :: "pow_submit \<Rightarrow> rebuilt_share \<Rightarrow> nat \<Rightarrow> ('db, bool) handler" where
  "may_reference s rebuilt received_at =
     bnd (gets (\<lambda>c. abw_slot_of c s)) (\<lambda>slot.
     if slot = None then ret False
     else if \<not> meets_share_target s rebuilt then ret True
     else if min (received_at + NTIME_WINDOW_SECS) (2 ^ 64 - 1) < unat (block_time s) then ret False
     else bnd (on_hashes (\<lambda>h. snd (hashes_insert (rb_block_hash rebuilt) received_at h))) (\<lambda>_. ret True))"

definition on_refused ::
    "'db world \<Rightarrow> pow_submit \<Rightarrow> refusal \<Rightarrow> bytes list option \<Rightarrow> nat \<Rightarrow> ('db, share_outcome) handler" where
  "on_refused W s refusal relay received_at =
     bnd (if rf_rebuilt refusal \<noteq> None \<and> ps_is_block s
          then modify (\<lambda>c. c\<lparr>cn_warned_refused_blocks := snd (warn_level (cn_warned_refused_blocks c))\<rparr>)
          else ret ()) (\<lambda>_.
     bnd (case (rf_rebuilt refusal, relay) of
            (Some r, Some txns) \<Rightarrow> relay_and_record W s r txns received_at
          | _ \<Rightarrow> ret ()) (\<lambda>_.
     bnd (case rf_rebuilt refusal of
            None \<Rightarrow> ret None
          | Some r \<Rightarrow> bnd (may_reference s r received_at) (\<lambda>may. ret (if may then Some r else None))) (\<lambda>rebuilt.
     bnd (case rebuilt of
            Some r \<Rightarrow> if is_block_candidate r then send_abw_receipt W s r else ret ()
          | None \<Rightarrow> ret ()) (\<lambda>_.
     ret \<lparr>so_verdict = Rejected (rf_reason refusal), so_raw_pow_hash = map_option rb_raw_pow_hash rebuilt\<rparr>))))"

section \<open>Answers\<close>

definition response_to :: "pow_submit \<Rightarrow> share_outcome \<Rightarrow> u8 option \<Rightarrow> share_response" where
  "response_to s outcome slot =
     \<lparr>sr_verdict = so_verdict outcome, sr_nonce = ps_nonce s, sr_target_byte = ps_target_byte s,
      sr_job_id = ps_job_id s,
      sr_abw_ref = (case (so_raw_pow_hash outcome, slot) of
          (Some hash, Some slot) \<Rightarrow> Some (candidate_ref_new slot hash) | _ \<Rightarrow> None)\<rparr>"

definition answer_outcome ::
    "'db world \<Rightarrow> pow_submit \<Rightarrow> refusal + rebuilt_share \<Rightarrow> job_verdict \<Rightarrow> nat \<Rightarrow> ('db, share_outcome) handler" where
  "answer_outcome W s verified verdict received_at =
     (case verified of
        Inr rebuilt \<Rightarrow>
          (case verdict of
             JobValid txns \<Rightarrow> on_accepted W s rebuilt txns received_at
           | _ \<Rightarrow>
             let (reason, txns) = (case verdict of
                   JobInvalid reason \<Rightarrow> (reason, None) | Unchecked reason txns \<Rightarrow> (reason, Some txns) | _ \<Rightarrow> (Other, None)) in
             bnd (gets (\<lambda>c. abw_slot_of c s)) (\<lambda>slot.
             bnd (if slot = None then release_hash (rb_block_hash rebuilt) else ret ()) (\<lambda>_.
             on_refused W s \<lparr>rf_reason = reason, rf_rebuilt = Some rebuilt\<rparr>
               (if meets_own_bits rebuilt then txns else None) received_at)))
      | Inl refusal \<Rightarrow>
          (case verdict of
             RelayOnly txns \<Rightarrow> on_refused W s refusal (Some txns) received_at
           | _ \<Rightarrow> on_refused W s refusal None received_at))"

definition answer ::
    "'db world \<Rightarrow> pow_submit \<Rightarrow> refusal + rebuilt_share \<Rightarrow> job_verdict \<Rightarrow> nat \<Rightarrow> ('db, unit) handler" where
  "answer W s verified verdict received_at =
     bnd (answer_outcome W s verified verdict received_at) (\<lambda>outcome.
     bnd (gets (\<lambda>c. abw_slot_of c s)) (\<lambda>slot.
     send_mining W (encode_share_response (response_to s outcome slot)) False))"

section \<open>Settling a share\<close>

definition holds :: "'db connection \<Rightarrow> bytes \<Rightarrow> bool" where
  "holds c hash \<longleftrightarrow> list_ex (\<lambda>h. held_hash h = Some hash) (cn_held c)"

definition hold :: "held_share \<Rightarrow> ('db, unit) handler" where
  "hold h = modify (\<lambda>c. c\<lparr>cn_held := cn_held c @ [h]\<rparr>)"

text \<open>The first match of \<open>settle\<close>: the share's verification as it is judged on, or \<open>None\<close> once it is held
  for its parent.\<close>

definition hold_for_parent ::
    "'db world \<Rightarrow> pow_submit \<Rightarrow> refusal + rebuilt_share \<Rightarrow> nat \<Rightarrow> nat option \<Rightarrow> ('db, (refusal + rebuilt_share) option) handler" where
  "hold_for_parent W s verified received_at parent_hold =
     (case verified of
        Inr _ \<Rightarrow> ret (Some verified)
      | Inl refusal \<Rightarrow>
        (case rf_rebuilt refusal of
           None \<Rightarrow> ret (Some verified)
         | Some r \<Rightarrow>
          bnd (gets (\<lambda>c. holds c (rb_block_hash r))) (\<lambda>resent.
          if (rf_reason refusal = DuplicateWork \<or> rf_reason refusal = StaleBlock) \<and> resent
            then ret (Some (Inl (unreferenced DuplicateWork)))
          else if rf_reason refusal \<noteq> StaleBlock then ret (Some verified)
          else
            bnd (case parent_hold of
                   None \<Rightarrow> ret False
                 | Some until \<Rightarrow> bnd (observe (wd_instant W)) (\<lambda>now. ret (now < until))) (\<lambda>waits.
            bnd (gets (\<lambda>c. (parent_unseen (cn_verifier c) s (rb_prev_hash r), length (cn_held c)))) (\<lambda>(unseen, n).
            case (rb_job_generation r, parent_hold) of
              (Some generation, Some until) \<Rightarrow>
                if \<not> waits \<or> \<not> unseen \<or> MAX_HELD_SHARES \<le> n then ret (Some verified)
                else bnd (hold \<lparr>hs_s = s, hs_verified = verified, hs_generation = generation,
                       hs_received_at = received_at, hs_awaiting = Awaiting_Parent until\<rparr>) (\<lambda>_. ret None)
            | _ \<Rightarrow> ret (Some verified))))))"

definition settle ::
    "'db world \<Rightarrow> pow_submit \<Rightarrow> refusal + rebuilt_share \<Rightarrow> nat \<Rightarrow> nat option \<Rightarrow> ('db, unit) handler" where
  "settle W s verified received_at parent_hold =
     bnd (hold_for_parent W s verified received_at parent_hold) (\<lambda>v.
     case v of
       None \<Rightarrow> ret ()
     | Some verified \<Rightarrow>
         on_result (job_verdict_of W s verified received_at) (\<lambda>verdict.
         case verdict of
           Inl e \<Rightarrow>
             bnd (case verified of Inr rebuilt \<Rightarrow> release_hash (rb_block_hash rebuilt) | Inl _ \<Rightarrow> ret ()) (\<lambda>_.
             raise e)
         | Inr (Pending generation) \<Rightarrow>
             bnd (gets (\<lambda>c. length (cn_held c))) (\<lambda>n.
             if n < MAX_HELD_SHARES
             then hold \<lparr>hs_s = s, hs_verified = verified, hs_generation = generation,
                    hs_received_at = received_at, hs_awaiting = Awaiting_Txns\<rparr>
             else answer W s verified (JobInvalid Other) received_at)
         | Inr verdict \<Rightarrow> answer W s verified verdict received_at))"

definition verify_and_claim :: "'db world \<Rightarrow> pow_submit \<Rightarrow> nat \<Rightarrow> ('db, refusal + rebuilt_share) handler" where
  "verify_and_claim W s now =
     step_opt (\<lambda>c.
       map_option (\<lambda>(r, v).
           let c = c\<lparr>cn_verifier := v\<rparr> in
           case r of
             Inl refusal \<Rightarrow> (Inl refusal, c)
           | Inr rebuilt \<Rightarrow>
               let (claimed, h) = claim rebuilt now (sv_accepted_hashes (cn_server c))
               in (claimed, on_server (\<lambda>S. S\<lparr>sv_accepted_hashes := h\<rparr>) c))
         (verify (wd_sha W) (wd_blake W) s (map_option v3_abw (cn_v3 c)) now (cn_verifier c)))"

definition on_undecodable_share :: "'db world \<Rightarrow> bytes \<Rightarrow> msg_error \<Rightarrow> ('db, unit) handler" where
  "on_undecodable_share W plain e =
     bnd (modify (\<lambda>c. c\<lparr>cn_warned_undecodable := snd (warn_level (cn_warned_undecodable c))\<rparr>)) (\<lambda>_.
     let prefix = (case submit_prefix plain of Some p \<Rightarrow> p | None \<Rightarrow> share_prefix_default) in
     send_mining W (encode_share_response
       \<lparr>sr_verdict = Rejected (reason_for_decode_error e), sr_nonce = px_nonce prefix,
        sr_target_byte = px_target_byte prefix, sr_job_id = px_job_id prefix, sr_abw_ref = None\<rparr>) False)"

definition on_share :: "'db world \<Rightarrow> bytes \<Rightarrow> ('db, unit) handler" where
  "on_share W plain =
     bnd (emit Share_Received) (\<lambda>_.
     case submit_decode plain of
       Inl e \<Rightarrow> on_undecodable_share W plain e
     | Inr s \<Rightarrow>
         bnd (observe (wd_unix_now W)) (\<lambda>now.
         bnd (verify_and_claim W s now) (\<lambda>verified.
         bnd (observe (wd_instant W)) (\<lambda>t.
         settle W s verified now (Some (t + UNSEEN_PARENT_HOLD))))))"

section \<open>Held shares\<close>

definition settle_again :: "'db world \<Rightarrow> held_share \<Rightarrow> ('db, unit) handler" where
  "settle_again W h =
     (case hs_awaiting h of
        Awaiting_Txns \<Rightarrow> settle W (hs_s h) (hs_verified h) (hs_received_at h) None
      | Awaiting_Parent until \<Rightarrow>
          bnd (observe (wd_unix_now W)) (\<lambda>now.
          bnd (verify_and_claim W (hs_s h) now) (\<lambda>verified.
          settle W (hs_s h) verified (hs_received_at h) (Some until))))"

definition release_held :: "'db world \<Rightarrow> (held_share \<Rightarrow> bool) \<Rightarrow> ('db, unit) handler" where
  "release_held W matches =
     bnd (step (\<lambda>c. (filter matches (cn_held c), c\<lparr>cn_held := filter (\<lambda>h. \<not> matches h) (cn_held c)\<rparr>)))
       (\<lambda>released. for_each released (settle_again W))"

abbreviation held_for :: "u8 \<Rightarrow> u64 \<Rightarrow> held_share \<Rightarrow> bool" where
  "held_for job_id generation h \<equiv> ps_job_id (hs_s h) = job_id \<and> hs_generation h = generation"

definition take_request :: "(txn_request \<Rightarrow> bool) \<Rightarrow> ('db, txn_request option) handler" where
  "take_request P =
     step (\<lambda>c. case find_index P (cn_txn_requests c) of
         None \<Rightarrow> (None, c)
       | Some i \<Rightarrow> (Some (cn_txn_requests c ! i), c\<lparr>cn_txn_requests := remove_at i (cn_txn_requests c)\<rparr>))"

definition set_txns :: "txn_request \<Rightarrow> job_txns \<Rightarrow> ('db, unit) handler" where
  "set_txns r txns =
     modify (\<lambda>c. c\<lparr>cn_verifier := snd (set_job_txns (tq_job_id r) (tq_generation r) txns (cn_verifier c))\<rparr>)"

definition on_block_txns :: "'db world \<Rightarrow> bytes \<Rightarrow> ('db, unit) handler" where
  "on_block_txns W plain =
     (if \<not> (SELECTOR_AT < length plain \<and> plain ! SELECTOR_AT = RESPONSE_BLOCK_TXNS) then ret ()
      else case decode_txn_list plain RESPONSE_BLOCK_TXNS of
        Inl _ \<Rightarrow> ret ()
      | Inr txn_list \<Rightarrow>
          bnd (take_request (\<lambda>r. tq_job_id r = tl_job_index txn_list)) (\<lambda>request.
          case request of
            None \<Rightarrow> ret ()
          | Some request \<Rightarrow>
              bnd (gets (\<lambda>c. verifier_job (cn_verifier c) (tq_job_id request) (tq_generation request))) (\<lambda>job.
              case job of
                None \<Rightarrow> release_held W (\<lambda>h. ps_job_id (hs_s h) = tq_job_id request)
              | Some job \<Rightarrow>
                  bnd (if tl_status txn_list = ListOk then
                         bnd (observe (wd_alive W)) (\<lambda>alive.
                         bnd (step (\<lambda>c. let (txns, cache) = intern_all (wd_sha W) alive (tl_txns txn_list) (pl_txn_cache (cn_pool c))
                                       in (txns, c\<lparr>cn_pool := (cn_pool c)\<lparr>pl_txn_cache := cache\<rparr>\<rparr>))) (\<lambda>txns.
                         ret (case txns_match_job (wd_sha W) txns (js_txn_count job) (js_merkle_branches job) of
                             Inr _ \<Rightarrow> Held txns | Inl _ \<Rightarrow> Refused HeaderMerkleMismatch)))
                       else ret (Refused Other)) (\<lambda>txns.
                  bnd (set_txns request txns) (\<lambda>_.
                  release_held W (held_for (tq_job_id request) (tq_generation request)))))))"

text \<open>The loop over the requests past their deadline, at most \<open>fuel\<close> times; see
  \<open>expiry_ends\<close> of \<open>Expiry\<close> for why the number of requests at its start is enough.\<close>

fun expire_requests :: "'db world \<Rightarrow> nat \<Rightarrow> nat \<Rightarrow> ('db, unit) handler" where
  "expire_requests W now 0 = panic"
| "expire_requests W now (Suc fuel) =
     bnd (take_request (\<lambda>r. txn_deadline r \<le> now)) (\<lambda>request.
     case request of
       None \<Rightarrow> ret ()
     | Some request \<Rightarrow>
         bnd (set_txns request (Refused Other)) (\<lambda>_.
         bnd (release_held W (held_for (tq_job_id request) (tq_generation request))) (\<lambda>_.
         expire_requests W now fuel)))"

definition expire_txn_requests :: "'db world \<Rightarrow> ('db, unit) handler" where
  "expire_txn_requests W =
     bnd (observe (wd_instant W)) (\<lambda>now.
     bnd (gets (\<lambda>c. length (cn_txn_requests c))) (\<lambda>n.
     expire_requests W now (Suc n)))"

definition answer_orphaned_held :: "'db world \<Rightarrow> ('db, unit) handler" where
  "answer_orphaned_held W =
     bnd (gets (\<lambda>c. map (\<lambda>h. (ps_job_id (hs_s h), hs_generation h))
            (filter (\<lambda>h. verifier_job (cn_verifier c) (ps_job_id (hs_s h)) (hs_generation h) = None) (cn_held c))))
       (\<lambda>orphaned. for_each orphaned (\<lambda>(job_id, generation). release_held W (held_for job_id generation)))"

definition expire_parent_holds :: "'db world \<Rightarrow> ('db, unit) handler" where
  "expire_parent_holds W =
     bnd (observe (wd_instant W)) (\<lambda>now.
     let due = (\<lambda>h. case parent_hold_until h of Some until \<Rightarrow> until \<le> now | None \<Rightarrow> False) in
     bnd (gets (\<lambda>c. list_ex due (cn_held c))) (\<lambda>any_due.
     if any_due then release_held W due else ret ()))"

end
