(* ===== verification/Share_Answers.thy ===== *)
theory Share_Answers
  imports Share_Flow
begin

text \<open>
  What the handlers of \<open>Share_Flow\<close> keep.  The locale \<open>quiet\<close> is the contract of the steps that neither
  answer a share nor touch the connection's jobs: they change the clocks, the channel, the shared server
  state, the session's slots and the log counters, and append to the trace.  The locale
  \<open>share_invariant\<close> adds the steps that do, with \<open>V r c\<close> standing for what is known of a share the node
  validated; every handler preserves \<open>P\<close>.  The interpretations are the limits on what a connection
  holds, the bounds of its verifier, the deadlines of its requests, and that only validated shares are
  credited.
\<close>

section \<open>Answers in the trace\<close>

definition is_answer :: "event \<Rightarrow> bool" where
  "is_answer e = (case e of Sent cmd payload \<Rightarrow> cmd = MINING \<and> payload \<noteq> [] \<and> hd payload = SHARE_RESPONSE | _ \<Rightarrow> False)"

lemma is_answer_simps [simp]:
  "\<not> is_answer Share_Received" "\<not> is_answer (Proposed q b a)" "\<not> is_answer (Submitted b a)" "\<not> is_answer (Credited u r)"
  "is_answer (Sent cmd p) \<longleftrightarrow> cmd = MINING \<and> p \<noteq> [] \<and> hd p = SHARE_RESPONSE"
  by (simp_all add: is_answer_def)

lemma share_response_first: "encode_share_response r \<noteq> [] \<and> hd (encode_share_response r) = SHARE_RESPONSE"
  by (simp add: encode_share_response_def Let_def split: prod.split)

text \<open>The disclosure of a slot's key.\<close>

definition is_reveal :: "bytes \<Rightarrow> bool" where
  "is_reveal p \<longleftrightarrow> p \<noteq> [] \<and> hd p = REVEAL"

definition is_disclosure :: "event \<Rightarrow> bool" where
  "is_disclosure e = (case e of Sent cmd payload \<Rightarrow> cmd = MINING \<and> is_reveal payload | _ \<Rightarrow> False)"

lemma is_disclosure_simps [simp]:
  "\<not> is_disclosure Share_Received" "\<not> is_disclosure (Proposed q b a)" "\<not> is_disclosure (Submitted b a)"
  "\<not> is_disclosure (Credited u r)" "is_disclosure (Sent cmd p) \<longleftrightarrow> cmd = MINING \<and> is_reveal p"
  by (simp_all add: is_disclosure_def)

lemma no_reveal [keeps_intro]:
  "\<not> is_reveal (encode_share_response resp)" "\<not> is_reveal (encode_candidate r CANDIDATE_RECEIPT)"
  "\<not> is_reveal (request_block_txns j)"
  using share_response_first [of resp]
  by (simp_all add: is_reveal_def SHARE_RESPONSE_def REVEAL_def encode_candidate_def abw_message_def
      CANDIDATE_RECEIPT_def request_block_txns_def SUBCMD_def)

lemma receipt_first: "hd (encode_candidate r CANDIDATE_RECEIPT) \<noteq> SHARE_RESPONSE"
  by (simp add: encode_candidate_def abw_message_def CANDIDATE_RECEIPT_def SHARE_RESPONSE_def)

lemma request_first: "hd (request_block_txns j) \<noteq> SHARE_RESPONSE"
  by (simp add: request_block_txns_def SUBCMD_def SHARE_RESPONSE_def)

lemma keeps_gets_bnd: "(\<And>c. P c \<Longrightarrow> wp (k (f c)) (\<lambda>_. P) c) \<Longrightarrow> keeps P (bnd (gets f) k)"
  by (simp add: keeps_def wp_simps)

lemma wp_sum_Inl: "wp m (\<lambda>r c. case r of Inl e \<Rightarrow> P c | Inr a \<Rightarrow> Q a c) s \<longleftrightarrow>
    wp m (\<lambda>r c. (\<forall>e. r = Inl e \<longrightarrow> P c) \<and> (\<forall>a. r = Inr a \<longrightarrow> Q a c)) s"
  by (auto simp: wp_def split: option.splits sum.splits)

section \<open>Steps that leave the jobs and the answers alone\<close>

locale quiet =
  fixes Q :: "'db connection \<Rightarrow> bool"
  assumes q_asked: "Q c \<Longrightarrow> Q (c\<lparr>cn_asked := Suc (cn_asked c)\<rparr>)"
    and q_channel: "Q c \<Longrightarrow> Q (c\<lparr>cn_channel := ch\<rparr>)"
    and q_last_send: "Q c \<Longrightarrow> Q (c\<lparr>cn_last_send_at := t\<rparr>)"
    and q_pool: "Q c \<Longrightarrow> pl_sessions p = pl_sessions (cn_pool c) \<Longrightarrow> Q (c\<lparr>cn_pool := p\<rparr>)"
    and q_claim: "Q c \<Longrightarrow>
      Q (c\<lparr>cn_pool := (cn_pool c)\<lparr>pl_sessions := snd (session_claim pk token (pl_sessions (cn_pool c)))\<rparr>\<rparr>)"
    and q_v3: "Q c \<Longrightarrow> Q (c\<lparr>cn_v3 := v3\<rparr>)"
    and q_warned: "Q c \<Longrightarrow> Q (c\<lparr>cn_warned_undecodable := n\<rparr>)" "Q c \<Longrightarrow> Q (c\<lparr>cn_warned_refused_blocks := n\<rparr>)"
    and q_reported: "Q c \<Longrightarrow> Q (c\<lparr>cn_reported_unpayable := known\<rparr>)"
    and q_frame: "Q c \<Longrightarrow> Q (c\<lparr>cn_last_frame_at := t\<rparr>)"
    and q_bulk: "Q c \<Longrightarrow> Q (c\<lparr>cn_bulk := r\<rparr>)"
    and q_proven: "Q c \<Longrightarrow> Q (c\<lparr>cn_proven := b\<rparr>)"
    and q_resumed: "Q c \<Longrightarrow> Q (c\<lparr>cn_resumed_from := tok\<rparr>)"
    and q_sent: "Q c \<Longrightarrow> \<not> is_answer (Sent cmd payload) \<Longrightarrow> \<not> is_disclosure (Sent cmd payload) \<Longrightarrow> Q (c\<lparr>cn_trace := cn_trace c @ [Sent cmd payload]\<rparr>)"
    and q_proposed: "Q c \<Longrightarrow> Q (c\<lparr>cn_trace := cn_trace c @ [Proposed q block a]\<rparr>)"
    and q_submitted: "Q c \<Longrightarrow> Q (c\<lparr>cn_trace := cn_trace c @ [Submitted block a]\<rparr>)"
begin

lemmas q_laws = q_asked q_channel q_last_send q_pool q_v3 q_warned q_reported q_frame q_bulk q_proven q_resumed
  q_proposed q_submitted

lemma keeps_observe [keeps_intro]: "keeps Q (observe f)"
  by (auto simp: observe_def intro!: keeps_step intro: q_asked)

lemma keeps_emit:
  "keeps Q (emit (Proposed q b a))" "keeps Q (emit (Submitted b a))"
  "\<not> is_answer (Sent cmd p) \<Longrightarrow> \<not> is_disclosure (Sent cmd p) \<Longrightarrow> keeps Q (emit (Sent cmd p))"
  by (auto simp: emit_def intro!: keeps_modify q_proposed q_submitted q_sent)

lemma keeps_propose_block [keeps_intro]: "keeps Q (propose_block W r b)"
  unfolding propose_block_def by (intro keeps_intro keeps_emit)

lemma keeps_submit_block [keeps_intro]: "keeps Q (submit_block W b)"
  unfolding submit_block_def by (intro keeps_intro keeps_emit)

lemma keeps_send_frame:
  "\<not> is_answer (Sent cmd p) \<Longrightarrow> \<not> is_disclosure (Sent cmd p) \<Longrightarrow> keeps Q (send_frame W cmd p sign)"
  unfolding send_frame_def
  by (intro keeps_intro keeps_emit) (auto simp: Let_def intro: q_laws split: prod.splits)

lemma keeps_send_mining: "hd p \<noteq> SHARE_RESPONSE \<Longrightarrow> \<not> is_reveal p \<Longrightarrow> keeps Q (send_mining W p sign)"
  unfolding send_mining_def by (rule keeps_send_frame) simp_all

lemma keeps_send_abw_receipt [keeps_intro]: "keeps Q (send_abw_receipt W s r)"
  unfolding send_abw_receipt_def by (intro keeps_intro keeps_send_mining receipt_first)

lemma keeps_on_hashes [keeps_intro]: "keeps Q (on_hashes f)" "keeps Q (release_hash h)"
  by (auto simp: on_hashes_def release_hash_def on_server_def intro!: keeps_modify q_pool)

lemma keeps_note_published [keeps_intro]: "keeps Q (note_published_slot s)"
  by (auto simp: note_published_slot_def intro!: keeps_modify intro: q_v3 split: option.splits)

lemma keeps_record_the_block [keeps_intro]: "keeps Q (record_the_block W s r now)"
  by (auto simp: record_the_block_def on_server_def intro!: keeps_step_opt intro: q_pool)

lemma keeps_relay_and_record [keeps_intro]: "keeps Q (relay_and_record W s r txns now)"
  unfolding relay_and_record_def
  by (intro keeps_intro; (auto simp: Let_def intro: q_pool intro!: keeps_intro split: prod.splits relayed.split)?)

lemma keeps_refuse_if_unpayable [keeps_intro]: "keeps Q (refuse_if_unpayable W u)"
  by (auto simp: refuse_if_unpayable_def Let_def intro!: keeps_step intro: q_reported split: if_splits)

lemma keeps_may_reference [keeps_intro]: "keeps Q (may_reference s r t)"
  unfolding may_reference_def by (intro keeps_intro)

lemma keeps_on_refused [keeps_intro]: "keeps Q (on_refused W s refusal relay t)"
  unfolding on_refused_def by (intro keeps_intro) (auto intro: q_warned)

end

section \<open>The handlers of shares\<close>

text \<open>The node's answer to a proposal, in the trace once it was asked.\<close>

definition asked :: "rebuilt_share \<Rightarrow> bytes list \<Rightarrow> node_answer \<Rightarrow> 'db connection \<Rightarrow> bool" where
  "asked r txns a c \<longleftrightarrow> Proposed r (proposed_block r txns) a \<in> set (cn_trace c)"

lemma propose_asked: "wp (propose (propose_block W r) r txns) (\<lambda>res c. \<forall>a. res = Inr a \<longrightarrow> asked r txns a c) c"
proof -
  have "wp (propose_attempts (propose_block W r) n b)
      (\<lambda>res c. \<forall>a. res = Inr a \<longrightarrow> Proposed r b a \<in> set (cn_trace c)) c" for n b c
  proof (induction n arbitrary: c)
    case (Suc n)
    then show ?case
      by (auto simp: wp_simps propose_block_def observe_def emit_def split: sum.split)
  qed (simp add: wp_simps propose_block_def observe_def emit_def)
  then show ?thesis by (simp add: propose_def asked_def)
qed

locale share_invariant = quiet P
  for P :: "'db connection \<Rightarrow> bool" +
  fixes W :: "'db world" and V :: "rebuilt_share \<Rightarrow> 'db connection \<Rightarrow> bool"
  assumes v_quiet: "\<And>r. quiet (\<lambda>c. P c \<and> V r c)"
    and v_verifier: "V r c \<Longrightarrow> V r (c\<lparr>cn_verifier := v\<rparr>)"
    and v_known: "P c \<Longrightarrow> rb_job_generation r = Some g \<Longrightarrow>
      block_check_of (cn_verifier c) k g (rb_coinbase_digest r) = Some (Valid version) \<Longrightarrow>
      (version XOR rb_version r) AND NOT VERSION_ROLLING_MASK = 0 \<Longrightarrow> V r c"
    and v_asked: "asked r txns a c \<Longrightarrow> rb_job_generation r = Some g \<Longrightarrow>
      block_check_from a (rb_version r) now = (Valid version, w) \<Longrightarrow> V r c"
    and s_check: "P c \<Longrightarrow> asked r txns a c \<Longrightarrow> rb_job_generation r = Some g \<Longrightarrow>
      block_check_from a (rb_version r) now = (check, w) \<Longrightarrow>
      P (c\<lparr>cn_verifier := record_block_check k g (rb_coinbase_digest r) check (cn_verifier c)\<rparr>)"
    and s_verify: "P c \<Longrightarrow> verify (wd_sha W) (wd_blake W) s abw now (cn_verifier c) = Some (res, v) \<Longrightarrow>
      P (c\<lparr>cn_verifier := v\<rparr>)"
    and s_txns: "P c \<Longrightarrow> P (c\<lparr>cn_verifier := snd (set_job_txns k g t (cn_verifier c))\<rparr>)"
    and s_hold: "P c \<Longrightarrow> length (cn_held c) < MAX_HELD_SHARES \<Longrightarrow> P (c\<lparr>cn_held := cn_held c @ [h]\<rparr>)"
    and s_release: "P c \<Longrightarrow> P (c\<lparr>cn_held := filter F (cn_held c)\<rparr>)"
    and s_request: "P c \<Longrightarrow> length (cn_txn_requests c) < MAX_TXN_REQUESTS \<Longrightarrow> tq_sent_at q = wd_instant W (cn_asked c) \<Longrightarrow>
      P (c\<lparr>cn_asked := Suc (cn_asked c), cn_txn_requests := cn_txn_requests c @ [q]\<rparr>)"
    and s_unrequest: "P c \<Longrightarrow> P (c\<lparr>cn_txn_requests := remove_at i (cn_txn_requests c)\<rparr>)"
    and s_answer: "P c \<Longrightarrow> \<not> is_reveal p \<Longrightarrow> P (c\<lparr>cn_trace := cn_trace c @ [Sent MINING p]\<rparr>)"
    and s_received: "P c \<Longrightarrow> P (c\<lparr>cn_trace := cn_trace c @ [Share_Received]\<rparr>)"
    and s_credited: "P c \<Longrightarrow> V r c \<Longrightarrow> P (c\<lparr>cn_trace := cn_trace c @ [Credited u r]\<rparr>)"
begin

lemma keeps_answer_sent [keeps_intro]: "\<not> is_reveal p \<Longrightarrow> keeps P (send_mining W p sign)"
  unfolding send_mining_def send_frame_def emit_def
  by (intro keeps_intro; (auto simp: Let_def intro: q_laws s_answer split: prod.splits)?)

lemma wp_check_block:
  assumes "P c" "rb_job_generation r = Some g"
  shows "wp (check_block W s r g txns now)
    (\<lambda>res c. P c \<and> (\<forall>version. res = Inr (Valid version) \<longrightarrow> V r c)) c"
proof -
  have "wp (propose (propose_block W r) r txns) (\<lambda>res c. P c \<and> (\<forall>a. res = Inr a \<longrightarrow> asked r txns a c)) c"
    unfolding wp_conj by (intro conjI wp_keeps keeps_intro propose_asked assms)
  then show ?thesis
    unfolding check_block_def wp_bnd
  proof (rule wp_mono)
    fix res c
    assume a: "P c \<and> (\<forall>a. res = Inr a \<longrightarrow> asked r txns a c)"
    show "case res of Inl e \<Rightarrow> P c \<and> (\<forall>version. Inl e = Inr (Valid version) \<longrightarrow> V r c)
      | Inr a \<Rightarrow> wp (let (check, whole_job) = block_check_from a (rb_version r) now
            in bnd (if whole_job then modify (\<lambda>c. c\<lparr>cn_verifier := record_block_check (ps_job_id s) g
                  (rb_coinbase_digest r) check (cn_verifier c)\<rparr>) else ret ()) (\<lambda>_. ret check))
          (\<lambda>res c. P c \<and> (\<forall>version. res = Inr (Valid version) \<longrightarrow> V r c)) c"
      using a s_check [OF _ _ assms(2)] v_asked [OF _ assms(2)]
      by (auto simp: wp_simps split: sum.split prod.split intro: v_verifier)
  qed
qed

lemma requests_kept: "wp (send_mining W p sign) (\<lambda>_ c'. cn_txn_requests c' = cn_txn_requests c) c"
  by (simp add: send_mining_def send_frame_def emit_def observe_def wp_simps Let_def split: prod.split sum.split)

lemma wp_request_txns:
  assumes "P c" "length (cn_txn_requests c) < MAX_TXN_REQUESTS"
  shows "wp (request_txns W k g) (\<lambda>_. P) c"
proof -
  have "wp (send_mining W (request_block_txns k) False) (\<lambda>_ c'. P c' \<and> cn_txn_requests c' = cn_txn_requests c) c"
    unfolding wp_conj by (intro conjI wp_keeps keeps_answer_sent no_reveal requests_kept assms)
  then show ?thesis
    unfolding request_txns_def wp_bnd [of "send_mining _ _ _"]
  proof (rule wp_mono)
    fix res c'
    assume c': "P c' \<and> cn_txn_requests c' = cn_txn_requests c"
    let ?c = "c'\<lparr>cn_verifier := snd (set_job_txns k g Requested (cn_verifier c'))\<rparr>"
    have "P ?c" "length (cn_txn_requests ?c) < MAX_TXN_REQUESTS" using c' assms(2) by (auto intro: s_txns)
    note added = s_request [OF this, of "\<lparr>tq_job_id = k, tq_generation = g, tq_sent_at = wd_instant W (cn_asked c')\<rparr>"]
    show "case res of Inl e \<Rightarrow> P c' | Inr _ \<Rightarrow>
        wp (bnd (modify (\<lambda>c. c\<lparr>cn_verifier := snd (set_job_txns k g Requested (cn_verifier c))\<rparr>)) (\<lambda>_.
            bnd (observe (wd_instant W)) (\<lambda>sent_at.
            bnd (modify (\<lambda>c. c\<lparr>cn_txn_requests := cn_txn_requests c @
                   [\<lparr>tq_job_id = k, tq_generation = g, tq_sent_at = sent_at\<rparr>]\<rparr>)) (\<lambda>_.
            ret TxnsPending)))) (\<lambda>_. P) c'"
      using c' added by (simp add: wp_simps observe_def split: sum.split)
  qed
qed

lemma keeps_job_txns [keeps_intro]: "keeps P (connection_job_txns W s g)"
  unfolding connection_job_txns_def
  by (intro keeps_intro; (auto intro!: keeps_intro keeps_gets_bnd wp_request_txns simp: wp_act
        split: option.split Verify.job_txns.split)?)

lemma wp_verdict_of_check:
  assumes "P c" "rb_job_generation r = Some g"
  shows "wp (bnd (current_check W s r g txns now) (\<lambda>check. ret (verdict_of_check r txns check)))
    (\<lambda>res c. P c \<and> (\<forall>vs. res = Inr (JobValid vs) \<longrightarrow> V r c)) c"
proof -
  have "wp (current_check W s r g txns now)
      (\<lambda>res c. P c \<and> (\<forall>check vs. res = Inr check \<longrightarrow> verdict_of_check r txns check = JobValid vs \<longrightarrow> V r c)) c"
    using assms wp_check_block [OF assms, of s txns now] v_known [OF assms]
    by (auto simp: current_check_def wp_bnd wp_state wp_act verdict_of_check_def elim!: wp_mono
        split: option.split block_check.splits if_splits)
  then show ?thesis unfolding wp_bnd by (rule wp_mono) (auto simp: wp_act split: sum.split)
qed

lemma wp_job_verdict:
  assumes "P c"
  shows "wp (job_verdict_of W s verified now)
    (\<lambda>res c. P c \<and> (\<forall>txns r. res = Inr (JobValid txns) \<longrightarrow> verified = Inr r \<longrightarrow> V r c)) c"
proof (cases "judged c verified")
  case None
  then show ?thesis using assms by (simp add: job_verdict_of_def wp_simps)
next
  case (Some j)
  obtain r credited where j: "judged c verified = Some (r, credited)" using Some by (cases j) auto
  have r: "verified = Inr r' \<Longrightarrow> r = r' \<and> credited" for r' using j by (simp add: judged_def)
  show ?thesis
  proof (cases "rb_job_generation r")
    case None
    then show ?thesis using assms by (simp add: job_verdict_of_def wp_simps j Let_def)
  next
    case (Some g)
    let ?Q = "\<lambda>res c. P c \<and> (\<forall>txns r. res = Inr (JobValid txns) \<longrightarrow> verified = Inr r \<longrightarrow> V r c)"
    have check: "wp (bnd (current_check W s r g txns now) (\<lambda>check. ret (verdict_of_check r txns check))) ?Q c"
      if "P c" for c txns
      using wp_verdict_of_check [OF that Some] by (rule wp_mono) (use r in auto)
    have "wp (connection_job_txns W s g) (\<lambda>_. P) c" using assms by (rule wp_keeps [OF keeps_job_txns])
    then show ?thesis
      unfolding job_verdict_of_def wp_bnd [of "gets _"] wp_state sum.case j option.case prod.case Let_def Some
        wp_bnd [of "connection_job_txns _ _ _"]
      by (rule wp_mono) (auto simp: wp_act intro!: wp_mono [OF check] split: sum.split txns_state.split)
  qed
qed

lemmas v_keeps = quiet.keeps_relay_and_record [OF v_quiet] quiet.keeps_refuse_if_unpayable [OF v_quiet]
lemmas v_laws = quiet.q_pool [OF v_quiet] quiet.q_v3 [OF v_quiet]

lemma wp_credit:
  assumes "P c" "V r c"
  shows "wp (credit W s r now) (\<lambda>_. P) c"
  unfolding credit_def
proof (rule wp_then [where R = "\<lambda>c. P c \<and> V r c"])
  show "keeps (\<lambda>c. P c \<and> V r c) (refuse_if_unpayable W (ps_username s))" by (rule v_keeps)
  fix unpayable c
  assume c: "P c \<and> V r c"
  have credited: "P (c\<lparr>cn_pool := p, cn_trace := cn_trace c @ [Credited u r]\<rparr>)"
    if "pl_sessions p = pl_sessions (cn_pool c)" for p u
    using v_laws(1) [OF c that] s_credited [of "c\<lparr>cn_pool := p\<rparr>" r u] by simp
  show "wp (if unpayable then ret (Rejected RejectUsername) else
       bnd (step_opt (\<lambda>c. map_option (\<lambda>(r, S). (r, on_server (\<lambda>_. S) c))
              (credit_share (wd_redb W) (ps_username s) r now (cn_server c)))) (\<lambda>recorded.
       case recorded of Inl _ \<Rightarrow> ret (Rejected Other)
       | Inr _ \<Rightarrow> bnd (emit (Credited (ps_username s) r)) (\<lambda>_. ret Accepted))) (\<lambda>_. P) c"
    using c by (auto simp: wp_simps on_server_def emit_def intro: q_pool credited split: option.split sum.split)
qed (use assms in auto)

lemma wp_on_accepted:
  assumes "P c" "V r c"
  shows "wp (on_accepted W s r txns now) (\<lambda>_. P) c"
proof -
  let ?R = "\<lambda>c. P c \<and> V r c"
  have relay: "keeps ?R (if meets_own_bits r then relay_and_record W s r txns now else ret ())"
    by (intro keeps_intro v_keeps)
  have noted: "keeps ?R (modify (\<lambda>c. c\<lparr>cn_v3 := map_option (\<lambda>v3. v3\<lparr>v3_abw := note_share (v3_abw v3)\<rparr>) (cn_v3 c)\<rparr>))"
    by (intro keeps_modify) (auto intro!: v_laws(2) [of _ r, THEN conjunct1] v_laws(2) [of _ r, THEN conjunct2])
  have rest: "wp (bnd (credit W s r now) (\<lambda>verdict.
      bnd (if is_block_candidate r then send_abw_receipt W s r else ret ()) (\<lambda>_.
      ret \<lparr>so_verdict = verdict, so_raw_pow_hash = Some (rb_raw_pow_hash r)\<rparr>))) (\<lambda>_. P) c" if "?R c" for c
  proof -
    have receipt: "keeps P (bnd (if is_block_candidate r then send_abw_receipt W s r else ret ()) (\<lambda>_.
        ret \<lparr>so_verdict = verdict, so_raw_pow_hash = Some (rb_raw_pow_hash r)\<rparr>))" for verdict
      by (intro keeps_intro)
    have "wp (credit W s r now) (\<lambda>_. P) c" using that by (intro wp_credit) simp_all
    then show ?thesis
      unfolding wp_bnd [of "credit _ _ _ _"]
    proof (rule wp_mono)
      fix res c
      assume "P c"
      then show "case res of Inl e \<Rightarrow> P c | Inr verdict \<Rightarrow>
          wp (bnd (if is_block_candidate r then send_abw_receipt W s r else ret ()) (\<lambda>_.
            ret \<lparr>so_verdict = verdict, so_raw_pow_hash = Some (rb_raw_pow_hash r)\<rparr>)) (\<lambda>_. P) c"
        by (cases res) (simp_all only: sum.case wp_keeps [OF receipt])
    qed
  qed
  show ?thesis
    unfolding on_accepted_def
  proof (rule wp_then [OF relay], goal_cases)
    case (2 a c)
    then show ?case by (rule wp_then [OF noted]) (simp_all only: rest)
  qed (use assms in simp_all)
qed

lemma wp_answer:
  assumes "P c" "\<And>txns r. verdict = JobValid txns \<Longrightarrow> verified = Inr r \<Longrightarrow> V r c"
  shows "wp (answer W s verified verdict t) (\<lambda>_. P) c"
proof -
  have refused: "keeps P (answer_outcome W s verified verdict t)" if "\<nexists>r txns. verified = Inr r \<and> verdict = JobValid txns"
    unfolding answer_outcome_def using that
    by (intro keeps_intro; (auto intro!: keeps_intro split: job_verdict.split prod.split)?)
  have "wp (answer_outcome W s verified verdict t) (\<lambda>_. P) c"
  proof (cases "\<exists>r txns. verified = Inr r \<and> verdict = JobValid txns")
    case True
    then show ?thesis using assms wp_on_accepted by (auto simp: answer_outcome_def)
  next
    case False
    then show ?thesis by (intro wp_keeps refused assms(1))
  qed
  then show ?thesis
    unfolding answer_def wp_bnd [of "answer_outcome _ _ _ _ _"]
    by (rule wp_mono) (auto intro: wp_keeps intro!: keeps_intro split: sum.split)
qed

lemma keeps_hold_for_parent [keeps_intro]: "keeps P (hold_for_parent W s verified t until)"
proof -
  have held: "P (c\<lparr>cn_asked := Suc (cn_asked c), cn_held := cn_held c @ [h]\<rparr>)"
    if "P c" "\<not> MAX_HELD_SHARES \<le> length (cn_held c)" for c h
    using s_hold [OF q_asked [OF that(1)], of h] that(2) by simp
  show ?thesis
    unfolding keeps_def hold_for_parent_def observe_def hold_def
    by (auto simp: wp_simps intro: q_asked held split: sum.split option.split)
qed

lemma keeps_settle [keeps_intro]: "keeps P (settle W s verified t until)"
proof -
  have judged: "wp (on_result (job_verdict_of W s verified t) (\<lambda>verdict. case verdict of
           Inl e \<Rightarrow>
             bnd (case verified of Inr rebuilt \<Rightarrow> release_hash (rb_block_hash rebuilt) | Inl _ \<Rightarrow> ret ()) (\<lambda>_. raise e)
         | Inr (Pending generation) \<Rightarrow>
             bnd (gets (\<lambda>c. length (cn_held c))) (\<lambda>n.
             if n < MAX_HELD_SHARES
             then hold \<lparr>hs_s = s, hs_verified = verified, hs_generation = generation,
                    hs_received_at = t, hs_awaiting = Awaiting_Txns\<rparr>
             else answer W s verified (JobInvalid Other) t)
         | Inr verdict \<Rightarrow> answer W s verified verdict t)) (\<lambda>_. P) c" if "P c" for verified c
    unfolding wp_on_result
  proof (rule wp_mono [OF wp_job_verdict [OF that]], goal_cases)
    case (1 res c')
    have held: "wp (bnd (gets (\<lambda>c. length (cn_held c))) (\<lambda>n. if n < MAX_HELD_SHARES then hold h
        else answer W s verified (JobInvalid Other) t)) (\<lambda>_. P) c'" for h
      using 1 wp_answer [of c' "JobInvalid Other"] by (auto simp: wp_bnd wp_state wp_modify hold_def intro: s_hold)
    show ?case
    proof (cases res)
      case (Inl e)
      then show ?thesis using 1 by (auto intro!: wp_keeps [where P = P] keeps_intro)
    next
      case (Inr verdict)
      then show ?thesis using 1 held wp_answer [of c' verdict verified] by (cases verdict) auto
    qed
  qed
  show ?thesis
    unfolding settle_def by (intro keeps_bnd keeps_hold_for_parent keeps_option keeps_act) (simp add: keeps_def judged)
qed

lemma keeps_verify_and_claim [keeps_intro]: "keeps P (verify_and_claim W s now)"
  unfolding verify_and_claim_def
proof (rule keeps_step_opt, goal_cases)
  case (1 c a c')
  from 1(2) obtain r v where "verify (wd_sha W) (wd_blake W) s (map_option v3_abw (cn_v3 c)) now (cn_verifier c) = Some (r, v)"
    by (auto split: prod.splits)
  with 1 s_verify [OF 1(1) this] show ?case
    using q_pool [of "c\<lparr>cn_verifier := v\<rparr>"]
    by (auto simp: Let_def on_server_def split: sum.splits prod.splits)
qed

lemma keeps_on_share [keeps_intro]: "keeps P (on_share W plain)"
  unfolding on_share_def on_undecodable_share_def emit_def Let_def
  by (intro keeps_intro; (auto intro: s_received q_warned)?)

lemma keeps_release_held [keeps_intro]: "keeps P (release_held W F)"
  unfolding release_held_def settle_again_def
  by (intro keeps_intro; (auto intro!: keeps_intro s_release split: awaiting.split)?)

lemma keeps_take_request [keeps_intro]: "keeps P (take_request F)"
  unfolding take_request_def by (intro keeps_step) (auto intro: s_unrequest split: option.splits)

lemma keeps_set_txns [keeps_intro]: "keeps P (set_txns q t)"
  unfolding set_txns_def by (intro keeps_modify s_txns)

lemma keeps_on_block_txns [keeps_intro]: "keeps P (on_block_txns W plain)"
  unfolding on_block_txns_def
  by (intro keeps_intro) (auto intro: q_pool simp: Let_def split: prod.splits)

lemma keeps_expire_txn_requests [keeps_intro]: "keeps P (expire_txn_requests W)"
proof -
  have "keeps P (expire_requests W now fuel)" for now fuel
    by (induction fuel) (auto intro!: keeps_intro)
  then show ?thesis unfolding expire_txn_requests_def by (intro keeps_intro)
qed

lemma keeps_answer_orphaned_held [keeps_intro]: "keeps P (answer_orphaned_held W)"
  unfolding answer_orphaned_held_def by (intro keeps_intro)

lemma keeps_expire_parent_holds [keeps_intro]: "keeps P (expire_parent_holds W)"
  unfolding expire_parent_holds_def by (intro keeps_intro)

end

section \<open>The verdicts a verifier records\<close>

definition slot_checks :: "job_state option \<Rightarrow> (u64 \<times> bytes \<times> block_check) set" where
  "slot_checks slot = (case slot of None \<Rightarrow> {} | Some st \<Rightarrow> {st_generation st} \<times> set (st_checks st))"

definition checks_of :: "verifier \<Rightarrow> (u64 \<times> bytes \<times> block_check) set" where
  "checks_of v = (\<Union>slot \<in> set (vf_jobs v). slot_checks slot)"

lemma slot_checks_evict: "slot_checks (map_option (evict_off_recent tip tips now) slot) \<subseteq> slot_checks slot"
  by (cases slot) (auto simp: slot_checks_def evict_off_recent_def evict_job_def split: if_splits)

lemma slot_checks_release [simp]: "slot_checks (map_option release_txns slot) = {}"
  by (cases slot) (auto simp: slot_checks_def release_txns_def)

lemma checks_of_jobs: "vf_jobs v = vf_jobs w \<Longrightarrow> checks_of v = checks_of w"
  by (simp add: checks_of_def)

lemma checks_of_update:
  assumes "slot_checks x \<subseteq> X" "(\<Union>y \<in> set jobs. slot_checks y) \<subseteq> X"
  shows "(\<Union>y \<in> set (jobs[i := x]). slot_checks y) \<subseteq> X"
proof -
  have "(\<Union>y \<in> set (jobs[i := x]). slot_checks y) \<subseteq> (\<Union>y \<in> insert x (set jobs). slot_checks y)"
    by (intro UN_mono set_update_subset_insert) simp
  also have "\<dots> \<subseteq> X" using assms by simp
  finally show ?thesis .
qed

lemma checks_of_put: "slot_checks (Some st) \<subseteq> X \<Longrightarrow> checks_of v \<subseteq> X \<Longrightarrow> checks_of (put_job k st v) \<subseteq> X"
  unfolding checks_of_def put_job_def verifier.select_convs(2) by (simp add: checks_of_update)

lemma checks_of_evict: "checks_of (evict_jobs_off_recent_tips now v) \<subseteq> checks_of v"
  using slot_checks_evict by (fastforce simp: checks_of_def evict_jobs_off_recent_tips_def)

lemma slot_checks_job_at:
  assumes "length (vf_jobs v) = MAX_JOBS" shows "slot_checks (job_at v k) \<subseteq> checks_of v"
proof -
  have "job_at v k \<in> set (vf_jobs v)" using assms unat_word_lt(1) [of k] by (simp add: job_at_def MAX_JOBS_def)
  then show ?thesis by (auto simp: checks_of_def)
qed

lemma slot_checks_live:
  "length (vf_jobs v) = MAX_JOBS \<Longrightarrow> live_job v k g = Some st \<Longrightarrow> slot_checks (Some st) \<subseteq> checks_of v \<and> st_generation st = g"
  using slot_checks_job_at [of v k] by (auto simp: live_job_def split: option.splits if_splits)

lemma checks_of_release:
  "(\<Union>slot \<in> set (fold (\<lambda>i jobs. jobs[i := map_option release_txns (jobs ! i)]) is jobs). slot_checks slot)
     \<subseteq> (\<Union>slot \<in> set jobs. slot_checks slot)"
proof (induction "is" arbitrary: jobs)
  case (Cons i "is")
  let ?jobs = "jobs[i := map_option release_txns (jobs ! i)]"
  have "(\<Union>slot \<in> set ?jobs. slot_checks slot) \<subseteq> (\<Union>slot \<in> set jobs. slot_checks slot)"
    by (rule checks_of_update) simp_all
  with Cons.IH [of ?jobs] show ?case by (simp only: fold_simps subset_trans)
qed simp

lemma checks_of_set_job_txns:
  assumes "length (vf_jobs v) = MAX_JOBS"
  shows "checks_of (snd (set_job_txns k g t v)) \<subseteq> checks_of v"
proof (cases "live_job v k g")
  case (Some st)
  let ?v = "put_job k (st\<lparr>st_txns := t\<rparr>) v"
  have "checks_of ?v \<subseteq> checks_of v"
    by (rule checks_of_put) (use slot_checks_live [OF assms Some] in \<open>auto simp: slot_checks_def\<close>)
  moreover have "checks_of (release_oldest_held_txns ?v) \<subseteq> checks_of ?v"
    using checks_of_release by (simp add: release_oldest_held_txns_def Let_def checks_of_def)
  ultimately show ?thesis by (cases t) (simp_all add: set_job_txns_def Some Let_def subset_trans)
qed (simp add: set_job_txns_def)

lemma set_alist_update: "set (AList.update k x al) \<subseteq> insert (k, x) (set al)"
  by (induction al) auto

lemma checks_of_record:
  assumes "length (vf_jobs v) = MAX_JOBS"
  shows "checks_of (record_block_check k g d check v) \<subseteq> insert (g, d, check) (checks_of v)"
proof (cases "live_job v k g")
  case (Some st)
  let ?checks = "if MAX_BLOCK_CHECKS \<le> length (st_checks st) then [] else st_checks st"
  have "set (AList.update d check ?checks) \<subseteq> insert (d, check) (set (st_checks st))"
    using set_alist_update [of d check ?checks] by (auto split: if_splits)
  then show ?thesis
    unfolding record_block_check_def Some option.case Let_def
    by (intro checks_of_put) (use slot_checks_live [OF assms Some] in \<open>fastforce simp: slot_checks_def\<close>)+
qed (auto simp: record_block_check_def)

lemma checks_of_noted:
  assumes "checks_of w \<subseteq> X"
  shows "checks_of (noted changes raw now w) \<subseteq> X"
proof -
  let ?w = "if changes then w\<lparr>vf_installed_by := fst (bounded_set_insert (vf_installed_by w) raw)\<rparr> else w"
  have "checks_of ?w \<subseteq> X" using assms by (simp add: checks_of_def)
  then show ?thesis using subset_trans [OF checks_of_evict [of now ?w]] by (simp only: noted_def Let_def simp_thms split: if_split)
qed

lemma checks_of_install:
  assumes ok: "verifier_ok v" and install: "install_sections s raw now v = Some (res, v')"
    and resolved: "resolve v s = Inr (job, cb0)"
  shows "checks_of v' \<subseteq> checks_of v"
proof (cases res)
  case (Inl reason)
  then have "v' = v" using install
    by (auto simp: install_sections_def Let_def bind_eq_Some_conv split: if_splits)
  then show ?thesis by simp
next
  case (Inr u)
  have bytes: "checks_of (w\<lparr>vf_installed_coinbase_bytes := n\<rparr>) = checks_of w" for w n by (simp add: checks_of_def)
  have len: "length (vf_jobs v) = MAX_JOBS" using ok by (simp add: verifier_ok_def)
  from install [unfolded Inr] have "install_sections s raw now v = Some (Inr (), v')" by simp
  from ok this resolved show ?thesis
  proof (cases rule: install_sections_Inr)
    case (replaces cb changes)
    show ?thesis
      unfolding replaces(4)
      by (intro checks_of_noted) (simp only: bytes, rule checks_of_put, auto simp: slot_checks_def fresh_job_def checks_of_def)
  next
    case (adds st cb changes)
    show ?thesis
      unfolding adds(4)
      using slot_checks_job_at [OF len, of "ps_job_id s"] adds(1)
      by (intro checks_of_noted) (simp only: bytes, rule checks_of_put, auto simp: slot_checks_def)
  next
    case names
    then show ?thesis using checks_of_noted by blast
  qed
qed

lemma checks_of_verify:
  assumes ok: "verifier_ok v" and verified: "verify sha blake s abw now v = Some (res, v')"
  shows "checks_of v' \<subseteq> checks_of v"
proof -
  obtain r where r: "rebuild sha blake v s abw = Some r"
    using verified by (auto simp: verify_def bind_eq_Some_conv)
  show ?thesis
  proof (cases r)
    case (Inl refusal)
    then show ?thesis using verified r by (simp add: verify_def)
  next
    case (Inr share)
    then obtain job cb where resolved: "resolve v s = Inr (job, cb)" using r rebuild_Inr by metis
    obtain m res1 where "check_rebuilt s share now m v = Some (res1, v')"
      using verified r Inr by (auto simp: verify_def bind_eq_Some_conv Let_def)
    from check_rebuilt_Some(1) [OF this] show ?thesis using checks_of_install [OF ok _ resolved] by blast
  qed
qed

lemma checks_of_set_tip: "checks_of (set_tip tip now v) \<subseteq> checks_of v"
  using checks_of_evict [of now "v\<lparr>vf_recent_tips := _, vf_tip := tip\<rparr>"]
  by (simp add: set_tip_def Let_def checks_of_def)

lemma checks_of_block_check:
  assumes "length (vf_jobs v) = MAX_JOBS" "block_check_of v k g d = Some check"
  shows "(g, d, check) \<in> checks_of v"
proof -
  obtain st where st: "live_job v k g = Some st" "map_of (st_checks st) d = Some check"
    using assms(2) by (auto simp: block_check_of_def bind_eq_Some_conv)
  then show ?thesis using slot_checks_live [OF assms(1) st(1)] map_of_SomeD [OF st(2)] by (auto simp: slot_checks_def)
qed

section \<open>Limits\<close>

definition within_limits :: "'db connection \<Rightarrow> bool" where
  "within_limits c \<longleftrightarrow> length (cn_held c) \<le> MAX_HELD_SHARES \<and> length (cn_txn_requests c) \<le> MAX_TXN_REQUESTS"

lemma length_remove_at: "length (remove_at i xs) \<le> length xs"
  by (simp add: remove_at_def)

interpretation limits: share_invariant within_limits W "\<lambda>_ _. True" for W
  using length_remove_at order_trans
  by unfold_locales (auto simp: within_limits_def intro: order_trans [OF length_filter_le] order_trans [OF length_remove_at])

definition verifier_reached :: "'db world \<Rightarrow> share_policy \<Rightarrow> 'db connection \<Rightarrow> bool" where
  "verifier_reached W policy c = verifier_run (wd_sha W) (wd_blake W) policy (cn_verifier c)"

interpretation verifier_inv: share_invariant "verifier_reached W policy" W "\<lambda>_ _. True" for W policy
  by unfold_locales (auto simp: verifier_reached_def intro: verifier_run.intros surjective_pairing)

section \<open>Only validated shares are credited\<close>

text \<open>The node answered that the block is valid, or that it holds it already.\<close>

definition node_validates :: "node_answer \<Rightarrow> bool" where
  "node_validates a \<longleftrightarrow> a = Inr None \<or> a = Inr (Some ''duplicate'')"

text \<open>Before the share, the node validated a block of the same job, by its generation, with the same
  coinbase, by its digest, whose version differs in the bits a miner may roll at most.\<close>

definition validated_in :: "event list \<Rightarrow> rebuilt_share \<Rightarrow> bool" where
  "validated_in tr r \<longleftrightarrow> (\<exists>r' txns a.
     Proposed r' (proposed_block r' txns) a \<in> set tr \<and> node_validates a \<and>
     rb_job_generation r \<noteq> None \<and> rb_job_generation r' = rb_job_generation r \<and>
     rb_coinbase_digest r' = rb_coinbase_digest r \<and>
     (rb_version r' XOR rb_version r) AND NOT VERSION_ROLLING_MASK = 0)"

definition credits_validated :: "event list \<Rightarrow> bool" where
  "credits_validated tr \<longleftrightarrow> (\<forall>before u r after. tr = before @ Credited u r # after \<longrightarrow> validated_in before r)"

text \<open>Every verdict a job holds is one the node gave.\<close>

definition checks_backed :: "event list \<Rightarrow> verifier \<Rightarrow> bool" where
  "checks_backed tr v \<longleftrightarrow> (\<forall>g d version. (g, d, Valid version) \<in> checks_of v \<longrightarrow>
     (\<exists>r txns a. Proposed r (proposed_block r txns) a \<in> set tr \<and> node_validates a \<and>
        rb_job_generation r = Some g \<and> rb_coinbase_digest r = d \<and> rb_version r = version))"

definition credits_sound :: "'db world \<Rightarrow> share_policy \<Rightarrow> 'db connection \<Rightarrow> bool" where
  "credits_sound W policy c \<longleftrightarrow> verifier_reached W policy c \<and> checks_backed (cn_trace c) (cn_verifier c) \<and>
     credits_validated (cn_trace c)"

lemma validated_append: "validated_in tr r \<Longrightarrow> validated_in (tr @ later) r"
  unfolding validated_in_def set_append by blast

lemma backed_append: "checks_backed tr v \<Longrightarrow> checks_backed (tr @ later) v"
  unfolding checks_backed_def set_append by blast

lemma backed_subset: "checks_backed tr v \<Longrightarrow> checks_of w \<subseteq> checks_of v \<Longrightarrow> checks_backed tr w"
  unfolding checks_backed_def by blast

lemma credits_validated_append:
  assumes "credits_validated tr" "\<And>u r. e = Credited u r \<Longrightarrow> validated_in tr r"
  shows "credits_validated (tr @ [e])"
  unfolding credits_validated_def
proof (intro allI impI)
  fix before u r after
  assume split: "tr @ [e] = before @ Credited u r # after"
  show "validated_in before r"
    by (cases after rule: rev_cases) (use assms split in \<open>auto simp: credits_validated_def\<close>)
qed

lemma block_check_valid: "block_check_from a version now = (Valid w, whole) \<Longrightarrow> node_validates a \<and> w = version"
  by (auto simp: block_check_from_def node_validates_def Let_def split: sum.splits option.splits if_splits)

lemma reached_length: "verifier_reached W policy c \<Longrightarrow> length (vf_jobs (cn_verifier c)) = MAX_JOBS"
  using verifier_run_ok by (auto simp: verifier_reached_def verifier_ok_def)

lemma proposed_backs:
  assumes "asked r txns a c" "rb_job_generation r = Some g" "block_check_from a (rb_version r) now = (check, w)"
    and "checks_backed (cn_trace c) (cn_verifier c)" "length (vf_jobs (cn_verifier c)) = MAX_JOBS"
  shows "checks_backed (cn_trace c) (record_block_check k g (rb_coinbase_digest r) check (cn_verifier c))"
  unfolding checks_backed_def
proof (intro allI impI)
  fix g' d version
  assume "(g', d, Valid version) \<in> checks_of (record_block_check k g (rb_coinbase_digest r) check (cn_verifier c))"
  then consider "g' = g" "d = rb_coinbase_digest r" "check = Valid version" | "(g', d, Valid version) \<in> checks_of (cn_verifier c)"
    using checks_of_record [OF assms(5)] by blast
  then show "\<exists>r txns a. Proposed r (proposed_block r txns) a \<in> set (cn_trace c) \<and> node_validates a \<and>
      rb_job_generation r = Some g' \<and> rb_coinbase_digest r = d \<and> rb_version r = version"
  proof cases
    case 1
    then show ?thesis using assms(1-3) block_check_valid unfolding asked_def by blast
  next
    case 2
    then show ?thesis using assms(4) unfolding checks_backed_def by blast
  qed
qed

lemma backed_validates:
  assumes "checks_backed tr v" "length (vf_jobs v) = MAX_JOBS" "rb_job_generation r = Some g"
    and "block_check_of v k g (rb_coinbase_digest r) = Some (Valid version)"
    and "(version XOR rb_version r) AND NOT VERSION_ROLLING_MASK = 0"
  shows "validated_in tr r"
  using assms(1,3,5) checks_of_block_check [OF assms(2,4)]
  unfolding checks_backed_def validated_in_def by (metis option.distinct(1))

lemma asked_validates:
  "asked r txns a c \<Longrightarrow> rb_job_generation r = Some g \<Longrightarrow> block_check_from a (rb_version r) now = (Valid version, w) \<Longrightarrow>
   validated_in (cn_trace c) r"
  unfolding asked_def validated_in_def
  by (intro exI [of _ r] exI [of _ txns] exI [of _ a]) (simp add: block_check_valid)

lemma sound_event:
  "credits_sound W policy c \<Longrightarrow> (\<And>u r. e = Credited u r \<Longrightarrow> validated_in (cn_trace c) r) \<Longrightarrow>
   credits_sound W policy (c\<lparr>cn_trace := cn_trace c @ [e]\<rparr>)"
  by (simp add: credits_sound_def verifier_reached_def backed_append credits_validated_append)

lemma sound_verifier:
  "credits_sound W policy c \<Longrightarrow> verifier_reached W policy (c\<lparr>cn_verifier := v\<rparr>) \<Longrightarrow> checks_backed (cn_trace c) v \<Longrightarrow>
   credits_sound W policy (c\<lparr>cn_verifier := v\<rparr>)"
  by (simp add: credits_sound_def)

lemma sound_parts:
  assumes "credits_sound W policy c"
  shows "verifier_reached W policy c" "checks_backed (cn_trace c) (cn_verifier c)" "length (vf_jobs (cn_verifier c)) = MAX_JOBS"
  using assms by (auto simp: credits_sound_def intro: reached_length)

lemma credits_known:
  "credits_sound W policy c \<Longrightarrow> rb_job_generation r = Some g \<Longrightarrow>
   block_check_of (cn_verifier c) k g (rb_coinbase_digest r) = Some (Valid version) \<Longrightarrow>
   (version XOR rb_version r) AND NOT VERSION_ROLLING_MASK = 0 \<Longrightarrow> validated_in (cn_trace c) r"
  by (meson backed_validates sound_parts(2,3))

lemma credits_check:
  assumes "credits_sound W policy c" "asked r txns a c" "rb_job_generation r = Some g"
    and "block_check_from a (rb_version r) now = (check, w)"
  shows "credits_sound W policy (c\<lparr>cn_verifier := record_block_check k g (rb_coinbase_digest r) check (cn_verifier c)\<rparr>)"
proof -
  note parts = sound_parts [OF assms(1)]
  show ?thesis
    by (rule sound_verifier [OF assms(1) verifier_inv.s_check [OF parts(1) assms(2-4)] proposed_backs [OF assms(2-4) parts(2,3)]])
qed

lemma credits_verify:
  assumes "credits_sound W policy c" "verify (wd_sha W) (wd_blake W) s abw now (cn_verifier c) = Some (res, v)"
  shows "credits_sound W policy (c\<lparr>cn_verifier := v\<rparr>)"
proof -
  note parts = sound_parts [OF assms(1)]
  have "verifier_ok (cn_verifier c)" using parts(1) verifier_run_ok by (auto simp: verifier_reached_def)
  from checks_of_verify [OF this assms(2)] show ?thesis
    by (intro sound_verifier [OF assms(1)] verifier_inv.s_verify [OF parts(1) assms(2)] backed_subset [OF parts(2)])
qed

lemma credits_txns:
  assumes "credits_sound W policy c"
  shows "credits_sound W policy (c\<lparr>cn_verifier := snd (set_job_txns k g t (cn_verifier c))\<rparr>)"
proof -
  note parts = sound_parts [OF assms]
  show ?thesis
    by (intro sound_verifier [OF assms] verifier_inv.s_txns parts(1) backed_subset [OF parts(2)] checks_of_set_job_txns parts(3))
qed

interpretation credits: share_invariant "credits_sound W policy" W "\<lambda>r c. validated_in (cn_trace c) r" for W policy
  by (unfold_locales; (rule asked_validates credits_known credits_check credits_verify credits_txns; assumption)?)
    (auto simp: credits_sound_def verifier_reached_def backed_append validated_append intro!: credits_validated_append)

end
