(* ===== verification/Share_Tally.thy ===== *)
theory Share_Tally
  imports Share_Answers
begin

text \<open>
  Every share is answered once.  The locale \<open>unanswered\<close> is the contract of what a share's judgement may
  change before its answer: anything but the trace's answers, disclosures and arrivals and the shares
  held.  \<open>owing n\<close> counts the shares received that are neither answered nor held; a share's settlement
  lowers it by one unless the connection fails.
\<close>

section \<open>Before the answer\<close>

locale unanswered = quiet Q for Q :: "'db connection \<Rightarrow> bool" +
  assumes q_verifier: "Q c \<Longrightarrow> Q (c\<lparr>cn_verifier := v\<rparr>)"
    and q_requests: "Q c \<Longrightarrow> Q (c\<lparr>cn_txn_requests := rs\<rparr>)"
    and q_credited: "Q c \<Longrightarrow> Q (c\<lparr>cn_trace := cn_trace c @ [Credited u r]\<rparr>)"
begin

lemma keeps_check_block [keeps_intro]: "keeps Q (check_block W s r g txns now)"
  unfolding check_block_def by (intro keeps_intro) (auto intro: q_verifier)

lemma keeps_current_check [keeps_intro]: "keeps Q (current_check W s r g txns now)"
  unfolding current_check_def by (intro keeps_intro; (auto intro!: keeps_intro split: block_check.split)?)

lemma keeps_request_txns [keeps_intro]: "keeps Q (request_txns W k g)"
  unfolding request_txns_def
  by (intro keeps_intro keeps_send_mining request_first) (auto intro: q_verifier q_requests)

lemma keeps_job_txns [keeps_intro]: "keeps Q (connection_job_txns W s g)"
  unfolding connection_job_txns_def by (intro keeps_intro; (auto intro!: keeps_intro split: Verify.job_txns.split)?)

lemma keeps_job_verdict [keeps_intro]: "keeps Q (job_verdict_of W s verified now)"
  unfolding job_verdict_of_def Let_def
  by (intro keeps_intro; (auto intro!: keeps_intro split: txns_state.split)?)

lemma keeps_credit [keeps_intro]: "keeps Q (credit W s r now)"
  unfolding credit_def emit_def
  by (intro keeps_intro; (auto simp: on_server_def intro: q_pool q_credited)?)

lemma keeps_on_accepted [keeps_intro]: "keeps Q (on_accepted W s r txns now)"
  unfolding on_accepted_def by (intro keeps_intro) (auto intro: q_v3)

lemma keeps_answer_outcome [keeps_intro]: "keeps Q (answer_outcome W s verified verdict t)"
  unfolding answer_outcome_def
  by (intro keeps_intro; (auto intro!: keeps_intro split: job_verdict.split prod.split)?)

lemma keeps_verify_and_claim [keeps_intro]: "keeps Q (verify_and_claim W s now)"
  unfolding verify_and_claim_def
proof (rule keeps_step_opt, goal_cases)
  case (1 c a c')
  then obtain r v where "(a, c') = (let c = c\<lparr>cn_verifier := v\<rparr> in case r of Inl refusal \<Rightarrow> (Inl refusal, c)
      | Inr rebuilt \<Rightarrow> let (claimed, h) = claim rebuilt now (sv_accepted_hashes (cn_server c))
          in (claimed, on_server (\<lambda>S. S\<lparr>sv_accepted_hashes := h\<rparr>) c))"
    unfolding map_option_eq_Some by (metis (no_types, lifting) case_prod_conv surj_pair)
  with 1(1) show ?case
    by (cases r) (auto simp: Let_def on_server_def split_beta intro!: q_pool q_verifier)
qed

lemma keeps_take_request [keeps_intro]: "keeps Q (take_request F)"
  unfolding take_request_def by (intro keeps_step) (auto intro: q_requests split: option.splits)

lemma keeps_set_txns [keeps_intro]: "keeps Q (set_txns q t)"
  unfolding set_txns_def by (intro keeps_modify q_verifier)

end

section \<open>The tally\<close>

definition received_in :: "event list \<Rightarrow> nat" where
  "received_in tr = length (filter (\<lambda>e. e = Share_Received) tr)"

definition answered_in :: "event list \<Rightarrow> nat" where
  "answered_in tr = length (filter is_answer tr)"

definition owing :: "nat \<Rightarrow> 'db connection \<Rightarrow> bool" where
  "owing n c \<longleftrightarrow> received_in (cn_trace c) = answered_in (cn_trace c) + length (cn_held c) + n"

lemma tally_append [simp]:
  "received_in (tr @ [e]) = received_in tr + (if e = Share_Received then 1 else 0)"
  "answered_in (tr @ [e]) = answered_in tr + (if is_answer e then 1 else 0)"
  by (simp_all add: received_in_def answered_in_def)

interpretation tally: unanswered "\<lambda>c. owing n c \<and> cn_held c = hs" for n hs
  by unfold_locales (auto simp: owing_def)

text \<open>\<open>settles n k m\<close>: the action leaves \<open>k\<close> fewer shares owed, unless it fails.\<close>

definition leaves :: "('db connection \<Rightarrow> bool) \<Rightarrow> ('db connection \<Rightarrow> bool) \<Rightarrow> ('db, 'a) handler \<Rightarrow> bool" where
  "leaves P Q m \<longleftrightarrow> (\<forall>c. P c \<longrightarrow> wp m (\<lambda>r c'. \<forall>a. r = Inr a \<longrightarrow> Q c') c)"

lemma leaves_keeps: "keeps P m \<Longrightarrow> leaves P P m"
  unfolding leaves_def keeps_def by (blast intro: wp_mono)

lemma leaves_act: "leaves P P (ret a)" "leaves P Q panic"
  by (simp_all add: leaves_def wp_act)

lemma leaves_bnd: "leaves P R m \<Longrightarrow> (\<And>a. leaves R Q (k a)) \<Longrightarrow> leaves P Q (bnd m k)"
  unfolding leaves_def wp_bnd by (auto elim!: wp_mono split: sum.split)

lemma leaves_weaken: "leaves P Q m \<Longrightarrow> (\<And>c. P' c \<Longrightarrow> P c) \<Longrightarrow> (\<And>c. Q c \<Longrightarrow> Q' c) \<Longrightarrow> leaves P' Q' m"
  unfolding leaves_def by (blast intro: wp_mono)

lemma owing_keeps: "(\<And>hs. keeps (\<lambda>c. owing n c \<and> cn_held c = hs) m) \<Longrightarrow> keeps (owing n) m"
  unfolding keeps_def by (blast intro: wp_mono)

lemma leaves_answered: "leaves (owing (Suc n)) (owing n) (send_mining W (encode_share_response r) sign)"
  using share_response_first [of r]
  by (simp add: leaves_def send_mining_def send_frame_def emit_def observe_def owing_def wp_simps Let_def
      split: prod.split sum.split)

lemma leaves_answer: "leaves (owing (Suc n)) (owing n) (answer W s verified verdict t)"
  unfolding answer_def
  by (intro leaves_bnd [OF leaves_keeps [OF owing_keeps]] leaves_answered tally.keeps_answer_outcome keeps_act)

lemma leaves_hold: "leaves (owing (Suc n)) (owing n) (hold h)"
  by (simp add: leaves_def hold_def wp_simps owing_def)

lemma wp_hold_for_parent:
  assumes "owing (Suc n) c"
  shows "wp (hold_for_parent W s verified t until)
    (\<lambda>res c'. \<forall>v. res = Inr v \<longrightarrow> (case v of None \<Rightarrow> owing n c' | Some _ \<Rightarrow> owing (Suc n) c')) c"
  using assms unfolding hold_for_parent_def observe_def hold_def
  by (auto simp: wp_simps owing_def split: sum.split option.split)

lemma leaves_settle: "leaves (owing (Suc n)) (owing n) (settle W s verified t until)"
proof -
  have judged: "leaves (owing (Suc n)) (owing n) (on_result (job_verdict_of W s verified t) (\<lambda>verdict. case verdict of
           Inl e \<Rightarrow>
             bnd (case verified of Inr rebuilt \<Rightarrow> release_hash (rb_block_hash rebuilt) | Inl _ \<Rightarrow> ret ()) (\<lambda>_. raise e)
         | Inr (Pending generation) \<Rightarrow>
             bnd (gets (\<lambda>c. length (cn_held c))) (\<lambda>m.
             if m < MAX_HELD_SHARES
             then hold \<lparr>hs_s = s, hs_verified = verified, hs_generation = generation,
                    hs_received_at = t, hs_awaiting = Awaiting_Txns\<rparr>
             else answer W s verified (JobInvalid Other) t)
         | Inr verdict \<Rightarrow> answer W s verified verdict t))" for verified
    unfolding leaves_def wp_on_result
  proof (intro allI impI, rule wp_mono [OF wp_keeps [OF owing_keeps [OF tally.keeps_job_verdict]]], assumption, goal_cases)
    case (1 c res c')
    note answered = leaves_answer [unfolded leaves_def, rule_format, OF 1(2)]
    have held: "wp (hold h) (\<lambda>r c'. \<forall>a. r = Inr a \<longrightarrow> owing n c') c'" for h
      using leaves_hold 1(2) by (auto simp: leaves_def)
    show ?case
    proof (cases res)
      case (Inl e)
      then show ?thesis by (auto simp: wp_bnd wp_act intro: wpI split: sum.split)
    next
      case (Inr verdict)
      then show ?thesis using answered held by (cases verdict) (auto simp: wp_bnd wp_state)
    qed
  qed
  show ?thesis
    unfolding settle_def leaves_def wp_bnd [of "hold_for_parent _ _ _ _ _"]
  proof (intro allI impI, rule wp_mono [OF wp_hold_for_parent], assumption, goal_cases)
    case (1 c res c')
    show ?case
    proof (cases res)
      case (Inr v)
      show ?thesis
      proof (cases v)
        case (Some verified)
        show ?thesis
          using 1 judged [of verified] unfolding Inr Some leaves_def sum.case option.case by simp
      qed (use 1 Inr in \<open>simp add: wp_act\<close>)
    qed simp
  qed
qed

lemma leaves_settle_again: "leaves (owing (Suc n)) (owing n) (settle_again W h)"
  unfolding settle_again_def
  by (cases "hs_awaiting h")
    (auto intro!: leaves_settle leaves_bnd leaves_keeps owing_keeps tally.keeps_verify_and_claim tally.keeps_observe)

lemma leaves_for_each:
  assumes "\<And>n x. leaves (owing (Suc n)) (owing n) (f x)"
  shows "leaves (owing (length xs + n)) (owing n) (for_each xs f)"
  by (induction xs) (auto intro!: leaves_keeps keeps_act leaves_bnd assms)

lemma leaves_release_held: "leaves (owing n) (owing n) (release_held W F)"
proof -
  have released: "leaves (owing (length hs + n)) (owing n) (for_each hs (settle_again W))" for hs
    by (rule leaves_for_each [OF leaves_settle_again])
  show ?thesis
    unfolding release_held_def leaves_def wp_bnd [of "step _"]
    using released sum_length_filter_compl [of F] by (auto simp: wp_state leaves_def owing_def ac_simps)
qed

lemma leaves_on_share: "leaves (owing 0) (owing 0) (on_share W plain)"
proof -
  have "leaves (owing 0) (owing (Suc 0)) (emit Share_Received)"
    by (simp add: leaves_def emit_def wp_simps owing_def)
  then show ?thesis
    unfolding on_share_def
  proof (rule leaves_bnd)
    show "leaves (owing (Suc 0)) (owing 0) (case submit_decode plain of
        Inl e \<Rightarrow> on_undecodable_share W plain e
      | Inr s \<Rightarrow>
          bnd (observe (wd_unix_now W)) (\<lambda>now.
          bnd (verify_and_claim W s now) (\<lambda>verified.
          bnd (observe (wd_instant W)) (\<lambda>t.
          settle W s verified now (Some (t + UNSEEN_PARENT_HOLD))))))" for u :: unit
    proof (cases "submit_decode plain")
      case (Inl e)
      then show ?thesis
        by (auto simp: on_undecodable_share_def Let_def intro!: leaves_bnd [OF leaves_keeps] keeps_modify leaves_answered)
          (simp add: owing_def)
    next
      case (Inr s)
      then show ?thesis
        by (auto intro!: leaves_settle leaves_bnd [OF leaves_keeps [OF owing_keeps]]
            tally.keeps_verify_and_claim tally.keeps_observe)
    qed
  qed
qed

lemma leaves_on_block_txns: "leaves (owing n) (owing n) (on_block_txns W plain)"
proof -
  have interned: "keeps (owing n) (step (\<lambda>c. case intern_all sha alive raws (pl_txn_cache (cn_pool c)) of
      (txns, cache) \<Rightarrow> (txns, c\<lparr>cn_pool := (cn_pool c)\<lparr>pl_txn_cache := cache\<rparr>\<rparr>)))" for sha alive raws
    by (intro keeps_step) (auto simp: owing_def split: prod.splits)
  show ?thesis
    unfolding on_block_txns_def
    by (auto intro!: leaves_act leaves_release_held leaves_bnd [OF leaves_keeps] interned keeps_act
        owing_keeps [OF tally.keeps_take_request] owing_keeps [OF tally.keeps_set_txns] owing_keeps [OF tally.keeps_observe]
        keeps_bnd split: sum.split option.split)
qed

lemma leaves_expire_txn_requests: "leaves (owing n) (owing n) (expire_txn_requests W)"
proof -
  have "leaves (owing n) (owing n) (expire_requests W now fuel)" for now fuel
    by (induction fuel)
      (auto intro!: leaves_act leaves_bnd [OF leaves_release_held] leaves_bnd [OF leaves_keeps]
        owing_keeps [OF tally.keeps_take_request] owing_keeps [OF tally.keeps_set_txns] split: option.split)
  then show ?thesis
    unfolding expire_txn_requests_def
    by (intro leaves_bnd [OF leaves_keeps] keeps_act owing_keeps [OF tally.keeps_observe])
qed

lemma leaves_answer_orphaned_held: "leaves (owing n) (owing n) (answer_orphaned_held W)"
proof -
  have "leaves (owing n) (owing n) (for_each xs (\<lambda>(k, g). release_held W (held_for k g)))" for xs
    by (induction xs) (auto intro!: leaves_bnd leaves_release_held leaves_keeps [OF keeps_act(1)])
  then show ?thesis unfolding answer_orphaned_held_def by (intro leaves_bnd [OF leaves_keeps] keeps_act)
qed

lemma leaves_expire_parent_holds: "leaves (owing n) (owing n) (expire_parent_holds W)"
  unfolding expire_parent_holds_def Let_def
  by (auto intro!: leaves_release_held leaves_act leaves_bnd [OF leaves_keeps] keeps_act owing_keeps [OF tally.keeps_observe])

end
