(* ===== verification/Connection.thy ===== *)
theory Connection
  imports Share_Flow Payouts Bulk
begin

text \<open>
  A gateway's connection from its hello to its end: \<^verbatim>\<open>prime/src/connection.rs\<close> and the rotations and
  reveals of \<^verbatim>\<open>prime/src/connection/assignments.rs\<close>.  \<open>run_turn\<close> is one pass of the loop of \<open>run\<close>, which
  returns whether the loop goes on; \<open>drop_connection\<close> is what closing does to the state shared with the
  other connections.

  Reading a frame takes the four bytes of its header, or what the socket answers instead, and its body
  from \<open>world\<close>; so are the answers of the coinbaser budget and of the plausibility of a value, which the
  code computes in floating point.
\<close>

definition KEEPALIVE_INTERVAL :: nat where "KEEPALIVE_INTERVAL = 20000"
definition MAX_UNSOLICITED_FRAME_LEN :: nat where "MAX_UNSOLICITED_FRAME_LEN = 64 * 1024"
definition IDLE_TIMEOUT :: nat where "IDLE_TIMEOUT = 600000"
definition XOR_KEY_LEN :: nat where "XOR_KEY_LEN = 16"
definition TOKEN_RANDOM_LEN :: nat where "TOKEN_RANDOM_LEN = 32"

section \<open>Reading a frame\<close>

datatype frame_read = Frame_Complete frame_header bytes | Frame_Empty | Frame_Closed

definition read_next_frame :: "'db world \<Rightarrow> nat \<Rightarrow> ('db, frame_read) handler" where
  "read_next_frame W max_len =
     bnd (observe (wd_header W)) (\<lambda>head.
     case head of
       Head_Failed \<Rightarrow> raise Conn_Io
     | Head_Empty \<Rightarrow> ret Frame_Empty
     | Head_Closed \<Rightarrow> ret Frame_Closed
     | Head bytes \<Rightarrow>
         bnd (step (\<lambda>c. let (header, ch) = server_unmask_header (cn_channel c) bytes
                        in (header, c\<lparr>cn_channel := ch\<rparr>))) (\<lambda>header.
         if max_len < unat (fh_cmd_len header) then raise Conn_Io
         else bnd (observe (\<lambda>n. wd_body W n (unat (fh_cmd_len header)))) (\<lambda>body.
              case body of None \<Rightarrow> raise Conn_Io | Some body \<Rightarrow> ret (Frame_Complete header body))))"

section \<open>Assignments\<close>

definition abw_of :: "'db connection \<Rightarrow> abw_slot_state option" where
  "abw_of c = map_option v3_abw (cn_v3 c)"

definition socket_drained :: "'db world \<Rightarrow> ('db, bool) handler" where
  "socket_drained W =
     bnd (observe (\<lambda>n. wd_wait W n 0)) (\<lambda>r. case r of None \<Rightarrow> raise Conn_Io | Some readable \<Rightarrow> ret (\<not> readable))"

definition may_rotate_or_reveal :: "'db world \<Rightarrow> ('db, bool) handler" where
  "may_rotate_or_reveal W =
     bnd (gets (\<lambda>c. cn_held c = [])) (\<lambda>answered. if answered then socket_drained W else ret False)"

definition send_reveals :: "'db world \<Rightarrow> pending_reveal list \<Rightarrow> ('db, unit) handler" where
  "send_reveals W reveals = for_each reveals (\<lambda>r. send_mining W (pr_payload r) False)"

definition rotate_abw :: "'db world \<Rightarrow> ('db, unit) handler" where
  "rotate_abw W =
     bnd (gets cn_v3) (\<lambda>v3.
     case v3 of
       None \<Rightarrow> ret ()
     | Some v3 \<Rightarrow>
         bnd (observe (wd_instant W)) (\<lambda>now.
         bnd (observe (\<lambda>n. wd_random W n XOR_KEY_LEN)) (\<lambda>key.
         bnd (step_opt (\<lambda>c. map_option (\<lambda>(rotation, abw). (rotation, c\<lparr>cn_v3 := Some (v3\<lparr>v3_abw := abw\<rparr>)\<rparr>))
                (abw_rotate (wd_sha W) now key (v3_abw v3)))) (\<lambda>rotation.
         bnd (send_reveals W (rt_reveals rotation)) (\<lambda>_.
         send_mining W (rt_notice rotation) False)))))"

definition send_due_reveals :: "'db world \<Rightarrow> ('db, unit) handler" where
  "send_due_reveals W =
     bnd (observe (wd_instant W)) (\<lambda>now.
     bnd (gets (\<lambda>c. case abw_of c of None \<Rightarrow> False | Some abw \<Rightarrow> reveal_due now abw)) (\<lambda>due.
     if due then
       bnd (may_rotate_or_reveal W) (\<lambda>may.
       if may then
         bnd (step (\<lambda>c. case cn_v3 c of
                None \<Rightarrow> ([], c)
              | Some v3 \<Rightarrow> let (reveals, abw) = reveals_due now (v3_abw v3)
                          in (reveals, c\<lparr>cn_v3 := Some (v3\<lparr>v3_abw := abw\<rparr>)\<rparr>))) (\<lambda>reveals.
         send_reveals W reveals)
       else ret ())
     else ret ()))"

definition rotate_on_tip :: "'db world \<Rightarrow> ('db, unit) handler" where
  "rotate_on_tip W =
     bnd (observe (wd_instant W)) (\<lambda>now.
     bnd (gets cn_v3) (\<lambda>v3.
     case v3 of
       None \<Rightarrow> ret ()
     | Some v3 \<Rightarrow>
         let (old_enough, abw) = note_tip now (v3_abw v3) in
         bnd (modify (\<lambda>c. c\<lparr>cn_v3 := Some (v3\<lparr>v3_abw := abw\<rparr>)\<rparr>)) (\<lambda>_.
         if \<not> old_enough then ret ()
         else case rotation_due now abw of
           None \<Rightarrow> ret ()
         | Some _ \<Rightarrow> bnd (may_rotate_or_reveal W) (\<lambda>may. if may then rotate_abw W else ret ()))))"

definition rotate_if_due :: "'db world \<Rightarrow> ('db, unit) handler" where
  "rotate_if_due W =
     bnd (gets abw_of) (\<lambda>abw.
     case abw of
       None \<Rightarrow> ret ()
     | Some abw \<Rightarrow>
         bnd (observe (wd_instant W)) (\<lambda>now.
         if rotation_due now abw = None then ret ()
         else bnd (may_rotate_or_reveal W) (\<lambda>may. if may then rotate_abw W else ret ())))"

definition notify_tip_change :: "'db world \<Rightarrow> ('db, unit) handler" where
  "notify_tip_change W =
     bnd (gets (\<lambda>c. (pl_tip (cn_pool c), pl_template (cn_pool c), vf_tip (cn_verifier c)))) (\<lambda>(current, template, tip).
     if current \<noteq> tip then
       bnd (observe (wd_unix_now W)) (\<lambda>now.
       bnd (modify (\<lambda>c. c\<lparr>cn_verifier := snd (set_template template (set_tip current now (cn_verifier c)))\<rparr>)) (\<lambda>_.
       bnd (release_held W awaits_parent) (\<lambda>_.
       if current = None then ret ()
       else
         bnd (if tip \<noteq> None then rotate_on_tip W else ret ()) (\<lambda>_.
         send_mining W BLOCKNOTIFY_MESSAGE False))))
     else modify (\<lambda>c. c\<lparr>cn_verifier := snd (set_template template (cn_verifier c))\<rparr>))"

section \<open>Opening a connection\<close>

definition connection_new ::
    "'db pool \<Rightarrow> share_policy \<Rightarrow> server_channel \<Rightarrow> nat \<Rightarrow> nat \<Rightarrow> 'db connection" where
  "connection_new pool policy ch opened_at now =
     \<lparr>cn_pool = pool, cn_opened_at = opened_at, cn_channel = ch, cn_verifier = verifier_new policy,
      cn_reported_unpayable = bounded_new MAX_REPORTED_UNPAYABLE, cn_held = [], cn_txn_requests = [],
      cn_warned_undecodable = 0, cn_warned_refused_blocks = 0, cn_last_frame_at = now, cn_last_send_at = now,
      cn_client_sign_pk = pk_sign (he_client (sc_hello ch)), cn_v3 = None, cn_resumed_from = None, cn_proven = False,
      cn_bulk = reassembler_new, cn_asked = 0, cn_trace = []\<rparr>"

text \<open>\<open>None\<close> is the \<open>expect\<close> that the configuration encodes with a token as it did without.\<close>

definition config_payload_v3 :: "client_config \<Rightarrow> bytes \<Rightarrow> bytes option" where
  "config_payload_v3 config token =
     (case config_encode (config\<lparr>cc_v3 := Some \<lparr>v3_resume_token = token, v3_bulk_framing = True,
                                 v3_abw_disabled = False\<rparr>\<rparr>) of
        Inl _ \<Rightarrow> None | Inr payload \<Rightarrow> Some payload)"

definition send_v3_opening :: "'db world \<Rightarrow> v3_session \<Rightarrow> bytes option \<Rightarrow> ('db, unit) handler" where
  "send_v3_opening W v3 resumed_from =
     bnd (step_opt (\<lambda>c. map_option (\<lambda>p. (p, c))
            (config_payload_v3 (pc_config (vf_policy (cn_verifier c))) (v3_token v3)))) (\<lambda>payload.
     bnd (modify (\<lambda>c. c\<lparr>cn_v3 := Some v3, cn_resumed_from := resumed_from\<rparr>)) (\<lambda>_.
     bnd (send_mining W payload True) (\<lambda>_.
     for_each (abw_notices (wd_sha W) (v3_abw v3)) (\<lambda>notice. send_mining W notice False))))"

definition start_v3_session :: "'db world \<Rightarrow> bytes option \<Rightarrow> ('db, unit) handler" where
  "start_v3_session W resume =
     bnd (observe (wd_instant W)) (\<lambda>now.
     bnd (observe (\<lambda>n. (wd_random W n TOKEN_RANDOM_LEN, wd_random W n XOR_KEY_LEN))) (\<lambda>(random, key).
     bnd (gets (\<lambda>c. (resume_or_start random key (cn_client_sign_pk c) resume now (pl_sessions (cn_pool c)),
                     cn_opened_at c))) (\<lambda>((v3, splits, resumed), opened_at).
     bnd (modify (\<lambda>c. c\<lparr>cn_verifier := restore_splits splits (cn_verifier c)\<rparr>)) (\<lambda>_.
     send_v3_opening W (v3\<lparr>v3_abw := abw_connect opened_at (v3_abw v3)\<rparr>) (if resumed then resume else None)))))"

text \<open>The configuration a connection opens with, by the protocol of its hello.\<close>

definition start_session :: "'db world \<Rightarrow> bytes \<Rightarrow> protocol_version \<Rightarrow> ('db, unit) handler" where
  "start_session W config_payload version =
     (case version of V1 \<Rightarrow> send_mining W config_payload True | V3 resume \<Rightarrow> start_v3_session W resume)"

section \<open>The loop\<close>

definition send_keepalive :: "'db world \<Rightarrow> ('db, unit) handler" where
  "send_keepalive W = send_frame W HELLO_OR_PING [] False"

definition note_proven :: "'db connection \<Rightarrow> 'db connection" where
  "note_proven c =
     (if cn_proven c then c
      else case cn_resumed_from c of
        None \<Rightarrow> c\<lparr>cn_proven := True\<rparr>
      | Some token \<Rightarrow> c\<lparr>cn_proven := True, cn_resumed_from := None,
          cn_pool := (cn_pool c)\<lparr>pl_sessions := snd (session_claim (cn_client_sign_pk c) token (pl_sessions (cn_pool c)))\<rparr>\<rparr>)"

definition on_bulk_fragment :: "'db world \<Rightarrow> bytes \<Rightarrow> ('db, bytes option) handler" where
  "on_bulk_fragment W plain =
     (case fragment_decode plain of
        Inl _ \<Rightarrow> ret None
      | Inr f \<Rightarrow>
          bnd (step (\<lambda>c. case reassembler_accept (cn_bulk c) f of
                 Inr (ack, done, r) \<Rightarrow> ((ack, done), c\<lparr>cn_bulk := r\<rparr>)
               | Inl _ \<Rightarrow> ((\<lparr>ak_id = fg_id f, ak_next_offset = sat_add (fg_offset f) (as_u32 (length (fg_data f)))\<rparr>, None),
                           c\<lparr>cn_bulk := reassembler_reset (cn_bulk c)\<rparr>))) (\<lambda>(ack, done).
          bnd (send_frame W BULK (ack_encode ack) False) (\<lambda>_. ret done)))"

definition on_coinbaser_request :: "'db world \<Rightarrow> bytes \<Rightarrow> ('db, unit) handler" where
  "on_coinbaser_request W plain =
     (case decode_request plain of
        Inl _ \<Rightarrow> ret ()
      | Inr req \<Rightarrow>
          bnd (observe (wd_budget W)) (\<lambda>allowed.
          if \<not> allowed then ret ()
          else
            bnd (observe (\<lambda>n. wd_plausible W n (rq_value req))) (\<lambda>plausible.
            if \<not> plausible then ret ()
            else
              bnd (gets (\<lambda>c. splits_next_id (vf_splits (cn_verifier c)))) (\<lambda>coinbaser_id.
              bnd (step_opt (\<lambda>c. map_option (\<lambda>r. (r, c))
                     (dictate (wd_codec W) (sv_ledger (cn_server c)) (sv_chain (cn_server c)) (rq_value req) coinbaser_id)))
                (\<lambda>(dictated, payload).
              bnd (observe (wd_unix_now W)) (\<lambda>now.
              bnd (modify (\<lambda>c. c\<lparr>cn_verifier :=
                     record_dictated coinbaser_id (rq_value req) (rq_prev_hash req) dictated now (cn_verifier c)\<rparr>)) (\<lambda>_.
              send_mining W payload False)))))))"

text \<open>The mining message of a frame that decrypted, if it is or completes one.\<close>

definition mining_message :: "'db world \<Rightarrow> u8 \<Rightarrow> bytes \<Rightarrow> ('db, bytes option) handler" where
  "mining_message W cmd plain =
     (if cmd = MINING then ret (Some plain) else if cmd = BULK then on_bulk_fragment W plain else ret None)"

definition on_mining :: "'db world \<Rightarrow> bytes \<Rightarrow> ('db, unit) handler" where
  "on_mining W mining =
     (case mining of
        [] \<Rightarrow> ret ()
      | sub # _ \<Rightarrow>
          if sub = COINBASER_REQUEST then on_coinbaser_request W mining
          else if sub = SUBMIT_POW then on_share W mining
          else if sub = SUBCMD then on_block_txns W mining
          else ret ())"

definition on_frame :: "'db world \<Rightarrow> frame_header \<Rightarrow> bytes \<Rightarrow> ('db, bool) handler" where
  "on_frame W header body =
     bnd (step (\<lambda>c. let (res, ch) = server_decrypt (wd_crypto W) (cn_channel c) header body
                    in (res, c\<lparr>cn_channel := ch\<rparr>))) (\<lambda>res.
     case res of
       Inl _ \<Rightarrow> ret False
     | Inr plain \<Rightarrow>
         bnd (observe (wd_instant W)) (\<lambda>now.
         bnd (modify (\<lambda>c. note_proven (c\<lparr>cn_last_frame_at := now\<rparr>))) (\<lambda>_.
         bnd (mining_message W (fh_proto_cmd header) plain) (\<lambda>mining.
         case mining of
           None \<Rightarrow> ret True
         | Some mining \<Rightarrow> bnd (on_mining W mining) (\<lambda>_. ret True)))))"

definition until_next_action :: "'db connection \<Rightarrow> nat \<Rightarrow> nat" where
  "until_next_action c now =
     (let due = min (cn_last_send_at c + KEEPALIVE_INTERVAL) (cn_last_frame_at c + IDLE_TIMEOUT);
          deadlines = map txn_deadline (cn_txn_requests c);
          due = (if deadlines = [] then due else min due (Min (set deadlines)));
          untils = List.map_filter parent_hold_until (cn_held c);
          due = (if untils = [] then due else min due (Min (set untils)));
          due = (if cn_held c = [] then (case abw_of c of None \<Rightarrow> due | Some abw \<Rightarrow> min due (abw_next_due abw)) else due)
      in due - now)"

definition wait_for_frame :: "'db world \<Rightarrow> ('db, unit) handler" where
  "wait_for_frame W =
     bnd (observe (wd_instant W)) (\<lambda>now.
     bnd (gets (\<lambda>c. until_next_action c now)) (\<lambda>timeout.
     bnd (observe (\<lambda>n. wd_wait W n timeout)) (\<lambda>r. case r of None \<Rightarrow> raise Conn_Io | Some _ \<Rightarrow> ret ())))"

definition read_and_dispatch :: "'db world \<Rightarrow> ('db, bool) handler" where
  "read_and_dispatch W =
     bnd (gets (\<lambda>c. if cn_txn_requests c = [] then MAX_UNSOLICITED_FRAME_LEN else MAX_CMD_LEN)) (\<lambda>max_len.
     bnd (read_next_frame W max_len) (\<lambda>read.
     case read of
       Frame_Closed \<Rightarrow> ret False
     | Frame_Empty \<Rightarrow> ret True
     | Frame_Complete header body \<Rightarrow> on_frame W header body))"

text \<open>The actions that fall due between two frames.\<close>

definition due_actions :: "'db world \<Rightarrow> ('db, unit) handler" where
  "due_actions W =
     bnd (notify_tip_change W) (\<lambda>_.
     bnd (expire_txn_requests W) (\<lambda>_.
     bnd (expire_parent_holds W) (\<lambda>_.
     bnd (answer_orphaned_held W) (\<lambda>_.
     bnd (rotate_if_due W) (\<lambda>_.
     send_due_reveals W)))))"

definition run_turn :: "'db world \<Rightarrow> ('db, bool) handler" where
  "run_turn W =
     bnd (due_actions W) (\<lambda>_.
     bnd (observe (wd_instant W)) (\<lambda>now.
     bnd (gets cn_last_frame_at) (\<lambda>last_frame_at.
     if IDLE_TIMEOUT \<le> now - last_frame_at then ret False
     else
       bnd (observe (wd_instant W)) (\<lambda>now.
       bnd (gets cn_last_send_at) (\<lambda>last_send_at.
       bnd (if KEEPALIVE_INTERVAL \<le> now - last_send_at then send_keepalive W else ret ()) (\<lambda>_.
       bnd (observe (wd_readable W)) (\<lambda>readable.
       if readable then read_and_dispatch W
       else bnd (wait_for_frame W) (\<lambda>_. ret True))))))))"

section \<open>Closing a connection\<close>

definition save_session :: "nat \<Rightarrow> 'db connection \<Rightarrow> 'db connection" where
  "save_session now c =
     (case cn_v3 c of
        None \<Rightarrow> c
      | Some v3 \<Rightarrow>
          if \<not> cn_proven c then c\<lparr>cn_v3 := None\<rparr>
          else let (splits, v) = take_splits (cn_verifier c);
                   session = \<lparr>ss_v3 = v3, ss_splits = splits, ss_saved_at = now,
                              ss_connection_opened_at = cn_opened_at c\<rparr>
               in c\<lparr>cn_v3 := None, cn_verifier := v,
                    cn_pool := (cn_pool c)\<lparr>pl_sessions := session_save (cn_client_sign_pk c) session (pl_sessions (cn_pool c))\<rparr>\<rparr>)"

definition release_held_hashes :: "'db connection \<Rightarrow> 'db connection" where
  "release_held_hashes c =
     on_server (\<lambda>S. S\<lparr>sv_accepted_hashes :=
       fold (\<lambda>hash h. snd (hashes_remove hash h)) (List.map_filter claimed_hash (cn_held c)) (sv_accepted_hashes S)\<rparr>) c"

definition drop_connection :: "nat \<Rightarrow> 'db connection \<Rightarrow> 'db connection" where
  "drop_connection now c = release_held_hashes (save_session now c)"

end
