(* ===== verification/Turns.thy ===== *)
theory Turns
  imports Connection Share_Tally
begin

text \<open>
  What a turn of a connection's loop preserves.  \<open>preserves P E m\<close>: from \<open>P\<close> the action leaves \<open>P\<close>, or \<open>E\<close>
  when it fails, which closes the connection.  The locale \<open>turn_invariant\<close> states what a property must
  stand of the single steps; then a whole turn preserves it.  It is interpreted on the limits of a
  connection, on the credits after the node's validation, and on the tally of answers together with the
  time of the disclosures.
\<close>

section \<open>Preservation up to failure\<close>

definition preserves :: "('s \<Rightarrow> bool) \<Rightarrow> ('s \<Rightarrow> bool) \<Rightarrow> ('s, 'e, 'a) act \<Rightarrow> bool" where
  "preserves P E m \<longleftrightarrow> (\<forall>s. P s \<longrightarrow> wp m (\<lambda>r s'. E s' \<and> (\<forall>a. r = Inr a \<longrightarrow> P s')) s)"

lemma preserves_bnd: "preserves P E m \<Longrightarrow> (\<And>a. preserves P E (k a)) \<Longrightarrow> preserves P E (bnd m k)"
  unfolding preserves_def wp_bnd by (auto elim!: wp_mono split: sum.split)

lemma preserves_if: "(b \<Longrightarrow> preserves P E m) \<Longrightarrow> (\<not> b \<Longrightarrow> preserves P E n) \<Longrightarrow> preserves P E (if b then m else n)"
  by simp

lemma preserves_keeps: "keeps P m \<Longrightarrow> (\<And>s. P s \<Longrightarrow> E s) \<Longrightarrow> preserves P E m"
  unfolding preserves_def keeps_def by (blast intro: wp_mono)

lemma preserves_leaves:
  fixes m :: "('db, 'a) handler"
  assumes "leaves P P m" "keeps E m"
  shows "preserves (\<lambda>c. P c \<and> E c) E m"
  unfolding preserves_def
proof (intro allI impI)
  fix c
  assume "P c \<and> E c"
  then have "wp m (\<lambda>r c'. (\<forall>a. r = Inr a \<longrightarrow> P c') \<and> E c') c"
    using assms unfolding wp_conj leaves_def keeps_def by blast
  then show "wp m (\<lambda>r s'. E s' \<and> (\<forall>a. r = Inr a \<longrightarrow> P s' \<and> E s')) c" by (rule wp_mono) blast
qed

text \<open>What follows a step may rely on what the step returned.\<close>

lemma keeps_step_then:
  "(\<And>s a s'. P s \<Longrightarrow> f s = (a, s') \<Longrightarrow> P s' \<and> keeps P (k a)) \<Longrightarrow> keeps P (bnd (step f) k)"
  unfolding keeps_def wp_bnd wp_state by (auto split: prod.split)

lemma keeps_step_opt_then:
  "(\<And>s a s'. P s \<Longrightarrow> f s = Some (a, s') \<Longrightarrow> P s' \<and> keeps P (k a)) \<Longrightarrow> keeps P (bnd (step_opt f) k)"
  unfolding keeps_def wp_bnd wp_state by (auto split: prod.split option.split)

section \<open>Messages that answer and disclose nothing\<close>

lemma notice_first: "hd (encode_notice a) \<noteq> SHARE_RESPONSE" "\<not> is_reveal (encode_notice a)"
  by (simp_all add: encode_notice_def abw_message_def ASSIGNMENT_NOTICE_def SHARE_RESPONSE_def REVEAL_def is_reveal_def)

lemma blocknotify_first: "hd BLOCKNOTIFY_MESSAGE \<noteq> SHARE_RESPONSE" "\<not> is_reveal BLOCKNOTIFY_MESSAGE"
  by (simp_all add: BLOCKNOTIFY_MESSAGE_def BLOCKNOTIFY_def SHARE_RESPONSE_def REVEAL_def is_reveal_def)

lemma response_first: "encode_response r = Inr payload \<Longrightarrow> hd payload \<noteq> SHARE_RESPONSE \<and> \<not> is_reveal payload"
  by (auto simp: encode_response_def tryq_Inr_iff COINBASER_def SHARE_RESPONSE_def REVEAL_def is_reveal_def split: if_splits)

lemma dictated_first:
  assumes "dictate C L chain v k = Some (dictated, payload)"
  shows "hd payload \<noteq> SHARE_RESPONSE \<and> \<not> is_reveal payload"
proof -
  have Some: "(case x of Inl e \<Rightarrow> None | Inr p \<Rightarrow> Some (d, p)) = Some q \<longleftrightarrow> (\<exists>p. x = Inr p \<and> q = (d, p))"
    for x :: "msg_error + bytes" and d :: "dictated_output list" and q by (auto split: sum.split)
  obtain r where "encode_response r = Inr payload"
    using assms by (auto simp: dictate_def bind_eq_Some_conv Let_def Some)
  then show ?thesis by (rule response_first)
qed

lemma config_first: "config_encode c = Inr payload \<Longrightarrow> hd payload \<noteq> SHARE_RESPONSE \<and> \<not> is_reveal payload"
  by (auto simp: config_encode_def tryq_Inr_iff CONFIG_def SHARE_RESPONSE_def REVEAL_def is_reveal_def)

lemma reveal_is_no_answer: "\<not> is_answer (Sent MINING (encode_reveal r))"
  by (simp add: encode_reveal_def abw_message_def REVEAL_def SHARE_RESPONSE_def)

lemma abw_reveal_payload: "abw_reveal slot st = (Some r, st') \<Longrightarrow> \<exists>v. pr_payload r = encode_reveal v"
  by (auto simp: abw_reveal_def Let_def split: slot.splits option.splits if_splits)

lemma reveal_all_payload: "r \<in> set (fst (reveal_all slots st)) \<Longrightarrow> \<exists>v. pr_payload r = encode_reveal v"
proof (induction slots arbitrary: st)
  case (Cons slot slots)
  then show ?case
    using abw_reveal_payload by (auto simp: Let_def split_beta split: option.splits) (metis prod.collapse)+
qed simp

lemma reveals_due_payload: "r \<in> set (fst (reveals_due now st)) \<Longrightarrow> \<exists>v. pr_payload r = encode_reveal v"
  using reveal_all_payload by (auto simp: reveals_due_def split: if_splits)

lemma abw_rotate_payloads:
  assumes "abw_rotate sha now key st = Some (rot, st')"
  shows "\<exists>a. rt_notice rot = encode_notice a" "r \<in> set (rt_reveals rot) \<Longrightarrow> \<exists>v. pr_payload r = encode_reveal v"
  using assms abw_reveal_payload [of "next_slot st" st]
  by (auto simp: abw_rotate_def Let_def abw_notice_def split: prod.splits option.splits)

section \<open>A turn\<close>

locale turn_invariant = quiet P for P :: "'db connection \<Rightarrow> bool" +
  fixes E :: "'db connection \<Rightarrow> bool" and W :: "'db world" and S :: "dictated_splits \<Rightarrow> bool"
  assumes ends: "P c \<Longrightarrow> E c"
    and t_share: "preserves P E (on_share W plain)"
    and t_block_txns: "preserves P E (on_block_txns W plain)"
    and t_release: "preserves P E (release_held W awaits_parent)"
    and t_expire_requests: "preserves P E (expire_txn_requests W)"
    and t_expire_holds: "preserves P E (expire_parent_holds W)"
    and t_orphaned: "preserves P E (answer_orphaned_held W)"
    and t_tip: "P c \<Longrightarrow> P (c\<lparr>cn_verifier := snd (set_template template (set_tip tip now (cn_verifier c)))\<rparr>)"
    and t_template: "P c \<Longrightarrow> P (c\<lparr>cn_verifier := snd (set_template template (cn_verifier c))\<rparr>)"
    and t_dictated: "P c \<Longrightarrow> P (c\<lparr>cn_verifier := record_dictated k v prev outputs now (cn_verifier c)\<rparr>)"
    and s_default: "S splits_default"
    and s_taken: "E c \<Longrightarrow> S (fst (take_splits (cn_verifier c)))"
    and t_restored: "P c \<Longrightarrow> S splits \<Longrightarrow> P (c\<lparr>cn_verifier := restore_splits splits (cn_verifier c)\<rparr>)"
    and t_reveal: "P c \<Longrightarrow> cn_held c = [] \<Longrightarrow> P (c\<lparr>cn_trace := cn_trace c @ [Sent MINING (encode_reveal r)]\<rparr>)"
begin

abbreviation at_rest :: "'db connection \<Rightarrow> bool" where
  "at_rest c \<equiv> P c \<and> cn_held c = []"

lemma quiet_at_rest: "quiet at_rest"
  by unfold_locales (auto intro: q_laws q_claim q_sent)

lemmas rest_keeps = quiet.keeps_observe [OF quiet_at_rest] quiet.keeps_send_mining [OF quiet_at_rest]
  and rest_laws = quiet.q_laws [OF quiet_at_rest]

lemma keeps_send_reveals:
  assumes "\<And>r. r \<in> set reveals \<Longrightarrow> \<exists>v. pr_payload r = encode_reveal v"
  shows "keeps at_rest (send_reveals W reveals)"
proof -
  have "keeps at_rest (send_mining W (encode_reveal v) sign)" for v sign
    unfolding send_mining_def send_frame_def emit_def
    by (intro keeps_intro rest_keeps) (auto simp: Let_def intro: rest_laws [THEN conjunct1] q_laws t_reveal split: prod.splits)
  then show ?thesis unfolding send_reveals_def using assms by (intro keeps_intro) metis
qed

lemma keeps_rotate_abw: "keeps at_rest (rotate_abw W)"
proof -
  have sent: "keeps at_rest (bnd (send_reveals W (rt_reveals rotation)) (\<lambda>_. send_mining W (rt_notice rotation) False))"
    if "abw_rotate sha now key abw = Some (rotation, abw')" for sha now key abw rotation abw'
    using abw_rotate_payloads [OF that] notice_first
    by (intro keeps_bnd keeps_send_reveals rest_keeps(2)) (auto simp del: encode_notice_def)
  show ?thesis
    unfolding rotate_abw_def
    by (intro keeps_bnd [of _ "gets _"] keeps_bnd [of _ "observe _"] keeps_option rest_keeps(1) keeps_act keeps_step_opt_then)
      (use sent in \<open>auto intro: q_v3\<close>)
qed

lemma wp_may_rotate:
  "P c \<Longrightarrow> wp (may_rotate_or_reveal W) (\<lambda>r c'. P c' \<and> (r = Inr True \<longrightarrow> cn_held c' = [])) c"
  by (auto simp: may_rotate_or_reveal_def socket_drained_def observe_def wp_simps intro: q_asked split: option.split)

lemma keeps_if_at_rest:
  assumes "keeps at_rest m"
  shows "keeps P (bnd (may_rotate_or_reveal W) (\<lambda>may. if may then m else ret ()))"
  unfolding keeps_def wp_bnd
proof (intro allI impI, rule wp_mono [OF wp_may_rotate], assumption, goal_cases)
  case (1 c r c')
  then show ?case
    using assms by (auto simp: keeps_def wp_act elim!: wp_mono split: sum.split)
qed

lemma keeps_rotate_if_due: "keeps P (rotate_if_due W)"
  unfolding rotate_if_due_def by (intro keeps_intro keeps_if_at_rest keeps_rotate_abw)

lemma keeps_rotate_on_tip: "keeps P (rotate_on_tip W)"
  unfolding rotate_on_tip_def Let_def
  by (intro keeps_intro keeps_if_at_rest keeps_rotate_abw) (auto intro: q_v3)

lemma keeps_send_due_reveals: "keeps P (send_due_reveals W)"
proof -
  have "keeps at_rest (bnd (step (\<lambda>c. case cn_v3 c of
                None \<Rightarrow> ([], c)
              | Some v3 \<Rightarrow> let (reveals, abw) = reveals_due now (v3_abw v3)
                          in (reveals, c\<lparr>cn_v3 := Some (v3\<lparr>v3_abw := abw\<rparr>)\<rparr>))) (\<lambda>reveals.
         send_reveals W reveals))" for now
    using reveals_due_payload [of _ now]
    by (intro keeps_step_then conjI keeps_send_reveals)
      (auto simp: Let_def split_beta intro!: q_v3 split: option.splits)
  from keeps_if_at_rest [OF this] show ?thesis
    unfolding send_due_reveals_def
    by (intro keeps_bnd [of _ "gets _"] keeps_bnd [of _ "observe _"] keeps_if keeps_act keeps_observe)
qed

lemma preserves_quiet: "keeps P m \<Longrightarrow> preserves P E m"
  using preserves_keeps ends by blast

lemma preserves_notify_tip_change: "preserves P E (notify_tip_change W)"
proof -
  have rest: "preserves P E (if current = None then ret () else
      bnd (if tip \<noteq> None then rotate_on_tip W else ret ()) (\<lambda>_. send_mining W BLOCKNOTIFY_MESSAGE False))" for current tip :: "bytes option"
    by (intro preserves_quiet keeps_intro keeps_rotate_on_tip keeps_send_mining blocknotify_first)
  show ?thesis
    unfolding notify_tip_change_def split_def
    by (intro preserves_bnd [OF preserves_quiet] preserves_bnd [OF t_release] preserves_if rest keeps_act keeps_observe keeps_modify
        t_tip preserves_quiet [OF keeps_modify] t_template)
qed

lemma preserves_due_actions: "preserves P E (due_actions W)"
  unfolding due_actions_def
  by (intro preserves_bnd preserves_notify_tip_change t_expire_requests t_expire_holds t_orphaned preserves_quiet
      keeps_rotate_if_due keeps_send_due_reveals)

lemma keeps_read_next_frame: "keeps P (read_next_frame W max_len)"
  unfolding read_next_frame_def
  by (intro keeps_intro; (auto simp: Let_def intro: q_channel intro!: keeps_intro split: prod.splits header_read.split)?)

lemma keeps_on_bulk_fragment: "keeps P (on_bulk_fragment W plain)"
  unfolding on_bulk_fragment_def
  by (intro keeps_intro keeps_send_frame)
    (auto simp: BULK_def MINING_def intro: q_bulk split: sum.splits prod.splits)

lemma keeps_on_coinbaser_request: "keeps P (on_coinbaser_request W plain)"
proof -
  have sent: "keeps P (bnd (observe (wd_unix_now W)) (\<lambda>now.
      bnd (modify (\<lambda>c. c\<lparr>cn_verifier := record_dictated k v prev dictated now (cn_verifier c)\<rparr>)) (\<lambda>_.
      send_mining W payload False)))"
    if "dictate C L chain value k = Some (dictated, payload)" for C L chain "value" k dictated payload v prev
    using dictated_first [OF that] by (intro keeps_intro keeps_send_mining) (auto intro: t_dictated)
  show ?thesis
    unfolding on_coinbaser_request_def
    by (intro keeps_sum keeps_bnd [of _ "gets _"] keeps_bnd [of _ "observe _"] keeps_if keeps_act keeps_observe keeps_step_opt_then)
      (use sent in \<open>auto split: prod.splits\<close>)
qed

lemma preserves_on_mining: "preserves P E (on_mining W mining)"
  unfolding on_mining_def
  by (auto intro!: preserves_if t_share t_block_txns preserves_quiet keeps_on_coinbaser_request keeps_act split: list.split)

lemma note_proven_kept: "P c \<Longrightarrow> P (note_proven c)"
  unfolding note_proven_def
  using q_claim [of "c\<lparr>cn_proven := True, cn_resumed_from := None\<rparr>"] q_resumed [of "c\<lparr>cn_proven := True\<rparr>" None]
  by (auto intro: q_proven split: option.split)

lemma preserves_on_frame: "preserves P E (on_frame W header body)"
proof -
  have dispatched: "preserves P E (case mining of None \<Rightarrow> ret True | Some mining \<Rightarrow> bnd (on_mining W mining) (\<lambda>_. ret True))"
    for mining
    by (auto intro!: preserves_bnd preserves_on_mining preserves_quiet [OF keeps_act(1)] split: option.split)
  have plain: "preserves P E (bnd (observe (wd_instant W)) (\<lambda>now.
      bnd (modify (\<lambda>c. note_proven (c\<lparr>cn_last_frame_at := now\<rparr>))) (\<lambda>_.
      bnd (mining_message W (fh_proto_cmd header) plain) (\<lambda>mining.
      case mining of None \<Rightarrow> ret True | Some mining \<Rightarrow> bnd (on_mining W mining) (\<lambda>_. ret True)))))" for plain
    unfolding mining_message_def
    by (intro preserves_bnd [OF preserves_quiet] dispatched keeps_observe keeps_modify note_proven_kept q_frame keeps_if
        keeps_act keeps_on_bulk_fragment)
  show ?thesis
    unfolding on_frame_def
    by (auto simp: Let_def intro!: preserves_bnd [OF preserves_quiet] plain keeps_step q_channel preserves_quiet [OF keeps_act(1)]
        split: sum.split prod.splits)
qed

lemma preserves_run_turn: "preserves P E (run_turn W)"
proof -
  have waited: "keeps P (wait_for_frame W)"
    unfolding wait_for_frame_def by (intro keeps_intro)
  have read: "preserves P E (read_and_dispatch W)"
    unfolding read_and_dispatch_def
    by (auto intro!: preserves_bnd [OF preserves_quiet] keeps_act keeps_read_next_frame preserves_on_frame
        preserves_quiet [OF keeps_act(1)] split: frame_read.split)
  have alive: "keeps P (send_keepalive W)"
    unfolding send_keepalive_def by (intro keeps_send_frame) (simp_all add: HELLO_OR_PING_def MINING_def)
  show ?thesis
    unfolding run_turn_def
    by (intro preserves_bnd [OF preserves_due_actions] preserves_bnd [OF preserves_quiet] preserves_if read alive waited
        keeps_observe keeps_act keeps_if preserves_quiet [OF keeps_act(1)])
qed

lemma keeps_start_session:
  assumes "config_encode config = Inr payload"
    and "\<And>pk s. saved_for (pl_sessions (cn_pool c)) pk = Some s \<Longrightarrow> S (ss_splits s)" and "P c"
  shows "wp (start_session W payload version) (\<lambda>_. P) c"
proof (cases version)
  case V1
  then show ?thesis
    unfolding start_session_def using config_first [OF assms(1)] assms(3) by (auto intro!: wp_keeps keeps_send_mining)
next
  case (V3 resume)
  have notices: "keeps P (for_each (abw_notices sha abw) (\<lambda>notice. send_mining W notice False))" for sha abw
    by (intro keeps_for_each keeps_send_mining)
      (auto simp: abw_notices_def abw_notice_def List.map_filter_def notice_first split: option.splits)
  have sent: "keeps P (send_v3_opening W v3 resumed_from)" for v3 resumed_from
    unfolding send_v3_opening_def
    using config_first
    by (intro keeps_step_opt_then conjI keeps_bnd [of _ "modify _"] keeps_bnd [of _ "send_mining _ _ _"] keeps_send_mining notices
        keeps_modify)
      (auto simp: config_payload_v3_def intro!: q_resumed q_v3 split: sum.split_asm)
  have restored: "S splits"
    if "resume_or_start random key pk resume now (pl_sessions (cn_pool c)) = (v3, splits, resumed)"
    for random key pk now v3 splits resumed
    using that assms(2) s_default
    by (cases resumed) (auto simp: resume_or_start_resumed resume_or_start_def Let_def split: option.splits if_splits)
  have "P (c\<lparr>cn_asked := Suc (Suc (cn_asked c)), cn_verifier := restore_splits splits (cn_verifier c)\<rparr>)" if "S splits" for splits
    using t_restored [OF q_asked [OF q_asked [OF assms(3)]] that] by simp
  with V3 restored show ?thesis
    by (auto simp: start_session_def start_v3_session_def wp_bnd wp_state wp_modify observe_def
        intro!: wp_keeps [OF sent] split: prod.split)
qed

end

section \<open>The properties of a turn\<close>

text \<open>A property every step of a share's handlers keeps is preserved by them, also where they fail.\<close>

lemma preserves_self: "keeps P m \<Longrightarrow> preserves P P m"
  by (simp add: preserves_keeps)

context share_invariant
begin

lemmas handlers_preserve = keeps_on_share [THEN preserves_self] keeps_on_block_txns [THEN preserves_self]
  keeps_release_held [THEN preserves_self] keeps_expire_txn_requests [THEN preserves_self]
  keeps_expire_parent_holds [THEN preserves_self] keeps_answer_orphaned_held [THEN preserves_self]

end

interpretation limits_turn: turn_invariant within_limits within_limits W "\<lambda>_. True" for W
  by (unfold_locales; (rule limits.handlers_preserve)?) (auto simp: within_limits_def)

text \<open>The splits a session is saved with come from the verifier of a connection.\<close>

definition splits_reached :: "(bytes \<Rightarrow> bytes) \<Rightarrow> (bytes \<Rightarrow> bytes) \<Rightarrow> share_policy \<Rightarrow> dictated_splits \<Rightarrow> bool" where
  "splits_reached sha blake policy splits \<longleftrightarrow>
     (\<exists>v. verifier_run sha blake policy v \<and> splits = fst (take_splits v))"

lemma splits_reached_default: "splits_reached sha blake policy splits_default"
proof -
  have "fst (take_splits (verifier_new policy)) = splits_default"
    by (simp add: take_splits_def verifier_new_def splits_keep_newest_def splits_default_def Let_def)
  then show ?thesis unfolding splits_reached_def by (metis verifier_run.opened)
qed

lemma splits_reached_taken:
  "credits_sound W policy c \<Longrightarrow> splits_reached (wd_sha W) (wd_blake W) policy (fst (take_splits (cn_verifier c)))"
  by (auto simp: splits_reached_def credits_sound_def verifier_reached_def)

lemma checks_of_template [simp]: "checks_of (snd (set_template t v)) = checks_of v"
  by (rule checks_of_jobs) (simp add: set_template_def Let_def)

lemma checks_of_splits [simp]:
  "checks_of (restore_splits splits v) = checks_of v" "checks_of (record_dictated k value prev outputs now v) = checks_of v"
  by (rule checks_of_jobs, simp add: restore_splits_def record_dictated_def)+

lemma sound_run:
  assumes "credits_sound W policy c"
    and "verifier_run (wd_sha W) (wd_blake W) policy (cn_verifier c) \<Longrightarrow> verifier_run (wd_sha W) (wd_blake W) policy v"
    and "checks_of v \<subseteq> checks_of (cn_verifier c)"
  shows "credits_sound W policy (c\<lparr>cn_verifier := v\<rparr>)"
  using assms by (intro sound_verifier) (auto simp: credits_sound_def verifier_reached_def intro: backed_subset)

lemma run_template: "verifier_run sha blake policy v \<Longrightarrow> verifier_run sha blake policy (snd (set_template t v))"
  by (rule verifier_run.new_template [OF _ surjective_pairing])

lemma run_restored:
  "splits_reached sha blake policy splits \<Longrightarrow> verifier_run sha blake policy v \<Longrightarrow>
   verifier_run sha blake policy (restore_splits splits v)"
  unfolding splits_reached_def using verifier_run.restored [OF _ _ surjective_pairing] by blast

interpretation credits_turn:
  turn_invariant "credits_sound W policy" "credits_sound W policy" W "splits_reached (wd_sha W) (wd_blake W) policy" for W policy
  by (unfold_locales; (rule credits.handlers_preserve splits_reached_default splits_reached_taken sound_run sound_event; assumption?)?)
    (simp_all add: checks_of_set_tip run_template run_restored verifier_run.new_tip verifier_run.dictated)

section \<open>Disclosures follow the answers\<close>

definition disclosed_late :: "event list \<Rightarrow> bool" where
  "disclosed_late tr \<longleftrightarrow> (\<forall>before e after. tr = before @ e # after \<longrightarrow> is_disclosure e \<longrightarrow>
     received_in before = answered_in before)"

lemma disclosed_late_append:
  assumes "disclosed_late tr" "is_disclosure e \<Longrightarrow> received_in tr = answered_in tr"
  shows "disclosed_late (tr @ [e])"
  unfolding disclosed_late_def
proof (intro allI impI)
  fix before e' after
  assume split: "tr @ [e] = before @ e' # after" "is_disclosure e'"
  show "received_in before = answered_in before"
    by (cases after rule: rev_cases) (use assms split in \<open>auto simp: disclosed_late_def\<close>)
qed

interpretation late: share_invariant "\<lambda>c. disclosed_late (cn_trace c)" W "\<lambda>_ _. True" for W
  by unfold_locales (auto intro: disclosed_late_append)

interpretation late_turn: turn_invariant "\<lambda>c. owing 0 c \<and> disclosed_late (cn_trace c)" "\<lambda>c. disclosed_late (cn_trace c)" W
    "\<lambda>_. True" for W
proof (unfold_locales; (intro preserves_leaves leaves_on_share leaves_on_block_txns leaves_release_held leaves_expire_txn_requests
      leaves_expire_parent_holds leaves_answer_orphaned_held late.keeps_on_share late.keeps_on_block_txns late.keeps_release_held
      late.keeps_expire_txn_requests late.keeps_expire_parent_holds late.keeps_answer_orphaned_held)?)
qed (auto simp: owing_def reveal_is_no_answer [simplified] intro: disclosed_late_append)

section \<open>The saved sessions\<close>

definition sessions_hold :: "(dictated_splits \<Rightarrow> bool) \<Rightarrow> session_store \<Rightarrow> bool" where
  "sessions_hold S st \<longleftrightarrow> (\<forall>pk s. saved_for st pk = Some s \<longrightarrow> S (ss_splits s))"

lemma sessions_hold_claim: "sessions_hold S st \<Longrightarrow> sessions_hold S (snd (session_claim pk token st))"
  unfolding sessions_hold_def using saved_after_claim by blast

lemma sessions_hold_save:
  "store_ok st \<Longrightarrow> sessions_hold S st \<Longrightarrow> S (ss_splits s) \<Longrightarrow> sessions_hold S (session_save pk s st)"
  unfolding sessions_hold_def using saved_after_save by blast

definition store_holds :: "(dictated_splits \<Rightarrow> bool) \<Rightarrow> 'db connection \<Rightarrow> bool" where
  "store_holds S c \<longleftrightarrow> store_ok (pl_sessions (cn_pool c)) \<and> sessions_hold S (pl_sessions (cn_pool c))"

interpretation stored: share_invariant "store_holds S" W "\<lambda>_ _. True" for S W
  by unfold_locales (auto simp: store_holds_def sessions_hold_claim store_ok_claim)

interpretation stored_turn: turn_invariant "store_holds S" "store_holds S" W "\<lambda>_. True" for S W
  by (unfold_locales; (rule stored.handlers_preserve)?) (auto simp: store_holds_def)

end
