(* ===== verification/Pool_Run.thy ===== *)
theory Pool_Run
  imports Turns
begin

text \<open>
  The pool as its connections interleave: \<open>pool_run\<close> has the state they share, the connections that are
  open, by their number, and those that closed.  A step opens a connection, runs one turn of one of
  them, closes one, or lets the other threads change what is shared (the node's tip and template, the
  ledger); the connections agree on nothing else.  Turns of different connections are interleaved whole:
  no property below reads what another connection writes within a turn.
\<close>

inductive pool_run ::
    "(nat \<Rightarrow> 'db world) \<Rightarrow> share_policy \<Rightarrow> 'db pool \<Rightarrow> (nat \<Rightarrow> 'db connection option) \<Rightarrow> 'db connection set \<Rightarrow> bool"
  for W policy where
  start: "pl_sessions pool = session_store_new (cc_prime_id (pc_config policy)) \<Longrightarrow> pool_run W policy pool (\<lambda>_. None) {}"
| other: "pool_run W policy pool conns ended \<Longrightarrow> pl_sessions pool' = pl_sessions pool \<Longrightarrow>
    pool_run W policy pool' conns ended"
| accept: "pool_run W policy pool conns ended \<Longrightarrow> conns i = None \<Longrightarrow> config_encode (pc_config policy) = Inr payload \<Longrightarrow>
    start_session (W i) payload version (connection_new pool policy ch opened_at now) = Some (Inr (), c) \<Longrightarrow>
    pool_run W policy (cn_pool c) (conns(i := Some c)) ended"
| refuse: "pool_run W policy pool conns ended \<Longrightarrow> conns i = None \<Longrightarrow> config_encode (pc_config policy) = Inr payload \<Longrightarrow>
    start_session (W i) payload version (connection_new pool policy ch opened_at now) = Some (Inl e, c) \<Longrightarrow>
    pool_run W policy (cn_pool (drop_connection later c)) conns (insert c ended)"
| turn: "pool_run W policy pool conns ended \<Longrightarrow> conns i = Some c \<Longrightarrow>
    run_turn (W i) (c\<lparr>cn_pool := pool\<rparr>) = Some (Inr True, c') \<Longrightarrow>
    pool_run W policy (cn_pool c') (conns(i := Some c')) ended"
| close: "pool_run W policy pool conns ended \<Longrightarrow> conns i = Some c \<Longrightarrow>
    run_turn (W i) (c\<lparr>cn_pool := pool\<rparr>) = Some (r, c') \<Longrightarrow> r \<noteq> Inr True \<Longrightarrow>
    pool_run W policy (cn_pool (drop_connection now c')) (conns(i := None)) (insert c' ended)"

text \<open>What every connection of the pool satisfies, open or at its end.\<close>

definition every_connection ::
    "(nat \<Rightarrow> 'db connection \<Rightarrow> bool) \<Rightarrow> (nat \<Rightarrow> 'db connection \<Rightarrow> bool) \<Rightarrow> (nat \<Rightarrow> 'db connection option) \<Rightarrow> 'db connection set \<Rightarrow> bool" where
  "every_connection P E conns ended \<longleftrightarrow>
     (\<forall>i c. conns i = Some c \<longrightarrow> P i c) \<and> (\<forall>c \<in> ended. \<exists>i. E i c)"

locale pool_invariant =
  fixes P E :: "nat \<Rightarrow> 'db connection \<Rightarrow> bool" and W :: "nat \<Rightarrow> 'db world" and S :: "dictated_splits \<Rightarrow> bool" and policy :: share_policy
  assumes turns: "turn_invariant (P i) (E i) (W i) S"
    and fresh: "P i (connection_new pool policy ch opened_at now)"
    and any_pool: "P i c \<Longrightarrow> P i (c\<lparr>cn_pool := pool\<rparr>)"
begin

lemma drop_sessions:
  assumes "E i c" "store_holds S c"
  shows "store_holds S (drop_connection now c)"
proof -
  have "S (fst (take_splits (cn_verifier c)))" by (rule turn_invariant.s_taken [OF turns assms(1)])
  with assms(2) show ?thesis
    by (auto simp: store_holds_def drop_connection_def release_held_hashes_def on_server_def save_session_def Let_def
        intro!: sessions_hold_save store_ok_save split: option.split prod.split)
qed

lemma preservesD:
  assumes "preserves Q R m" "Q c" "m c = Some (r, c')"
  shows "R c'" "r = Inr a \<Longrightarrow> Q c'"
  using assms by (auto simp: preserves_def wp_def)

lemma run_keeps:
  assumes "pool_run W policy pool conns ended"
  shows "every_connection P E conns ended \<and> store_ok (pl_sessions pool) \<and> sessions_hold S (pl_sessions pool)"
  using assms
proof (induction rule: pool_run.induct)
  case (start pool)
  then show ?case
    by (simp add: every_connection_def store_ok_new sessions_hold_def) (simp add: session_store_new_def bounded_new_def bounded_get_def)
next
  case (accept pool conns ended i payload version ch opened_at now c)
  let ?c = "connection_new pool policy ch opened_at now"
  have "store_holds S ?c" using accept.IH by (simp add: store_holds_def connection_new_def)
  then have "wp (start_session (W i) payload version) (\<lambda>_. P i) ?c" "wp (start_session (W i) payload version) (\<lambda>_. store_holds S) ?c"
    using accept.IH accept.hyps(3) fresh
    by (auto intro!: turn_invariant.keeps_start_session [OF turns] stored_turn.keeps_start_session
        simp: sessions_hold_def store_holds_def)
  then show ?case
    using accept.IH accept.hyps(4) by (auto simp: wp_def every_connection_def store_holds_def)
next
  case (refuse pool conns ended i payload version ch opened_at now e c later)
  let ?c = "connection_new pool policy ch opened_at now"
  have "store_holds S ?c" using refuse.IH by (simp add: store_holds_def connection_new_def)
  then have "wp (start_session (W i) payload version) (\<lambda>_. P i) ?c" "wp (start_session (W i) payload version) (\<lambda>_. store_holds S) ?c"
    using refuse.IH refuse.hyps(3) fresh
    by (auto intro!: turn_invariant.keeps_start_session [OF turns] stored_turn.keeps_start_session
        simp: sessions_hold_def store_holds_def)
  then have "P i c" "store_holds S c" using refuse.hyps(4) by (auto simp: wp_def)
  moreover have "E i c" using turn_invariant.ends [OF turns] calculation(1) .
  ultimately show ?case
    using refuse.IH drop_sessions [of i c later] by (auto simp: every_connection_def store_holds_def)
next
  case (turn pool conns ended i c c')
  let ?c = "c\<lparr>cn_pool := pool\<rparr>"
  have c: "P i ?c" "store_holds S ?c" using turn.IH turn.hyps(2) any_pool by (auto simp: every_connection_def store_holds_def)
  show ?case
    using turn.IH preservesD(2) [OF turn_invariant.preserves_run_turn [OF turns] c(1) turn.hyps(3)]
      preservesD(1) [OF stored_turn.preserves_run_turn c(2) turn.hyps(3)]
    by (auto simp: every_connection_def store_holds_def)
next
  case (close pool conns ended i c r c' now)
  let ?c = "c\<lparr>cn_pool := pool\<rparr>"
  have c: "P i ?c" "store_holds S ?c" using close.IH close.hyps(2) any_pool by (auto simp: every_connection_def store_holds_def)
  have "E i c'" "store_holds S c'"
    using preservesD(1) [OF turn_invariant.preserves_run_turn [OF turns] c(1) close.hyps(3)]
      preservesD(1) [OF stored_turn.preserves_run_turn c(2) close.hyps(3)] by auto
  then show ?case
    using close.IH drop_sessions [of i c' now] by (auto simp: every_connection_def store_holds_def)
qed simp

lemma run_connections: "pool_run W policy pool conns ended \<Longrightarrow> every_connection P E conns ended"
  using run_keeps by blast

end

section \<open>What holds of every connection\<close>

interpretation limits_pool: pool_invariant "\<lambda>_. within_limits" "\<lambda>_. within_limits" W "\<lambda>_. True" policy for W policy
  by (rule pool_invariant.intro, rule limits_turn.turn_invariant_axioms) (auto simp: within_limits_def connection_new_def)

interpretation late_pool: pool_invariant "\<lambda>_ c. owing 0 c \<and> disclosed_late (cn_trace c)" "\<lambda>_ c. disclosed_late (cn_trace c)" W
    "\<lambda>_. True" policy for W policy
  by (rule pool_invariant.intro, rule late_turn.turn_invariant_axioms)
    (auto simp: owing_def connection_new_def received_in_def answered_in_def disclosed_late_def)

text \<open>The worlds of the connections differ in what they answer, not in the hash functions.\<close>

definition with_hashes :: "(bytes \<Rightarrow> bytes) \<Rightarrow> (bytes \<Rightarrow> bytes) \<Rightarrow> 'db world \<Rightarrow> 'db world" where
  "with_hashes sha blake w = w\<lparr>wd_sha := sha, wd_blake := blake\<rparr>"

lemma with_hashes_same: "wd_sha w = sha \<Longrightarrow> wd_blake w = blake \<Longrightarrow> with_hashes sha blake w = w"
  by (cases w) (simp add: with_hashes_def)

lemma credits_turn_hashes:
  "turn_invariant (credits_sound (with_hashes sha blake w) policy) (credits_sound (with_hashes sha blake w) policy)
     (with_hashes sha blake w) (splits_reached sha blake policy)"
  using credits_turn.turn_invariant_axioms [of "with_hashes sha blake w" policy] by (simp add: with_hashes_def)

lemma checks_of_new: "checks_of (verifier_new policy) = {}"
  by (auto simp: checks_of_def verifier_new_def slot_checks_def)

lemma credits_fresh: "credits_sound w policy (connection_new pool policy ch opened_at now)"
  by (simp add: credits_sound_def verifier_reached_def connection_new_def checks_backed_def checks_of_new
      credits_validated_def verifier_run.opened)

interpretation credits_pool: pool_invariant "\<lambda>i. credits_sound (with_hashes sha blake (w i)) policy"
    "\<lambda>i. credits_sound (with_hashes sha blake (w i)) policy" "\<lambda>i. with_hashes sha blake (w i)" "splits_reached sha blake policy" policy
  for sha blake w policy
  by (rule pool_invariant.intro, rule credits_turn_hashes, rule credits_fresh) (simp add: credits_sound_def verifier_reached_def)

section \<open>Properties\<close>

text \<open>C3: No share is credited before the node has validated its block.  In every run of the pool, with any
  number of connections opening, interleaving, failing and resuming sessions, for every share a
  connection credited: earlier on that connection the pool proposed to the node a block of the same
  installed job (by its generation) with the same coinbase (by its digest), whose version differs from
  the share's at most in the bits a miner may roll, and the node answered that it is valid or that it
  already holds it.\<close>

theorem credited_after_validation:
  assumes "pool_run W policy pool conns ended" "\<And>i. wd_sha (W i) = sha" "\<And>i. wd_blake (W i) = blake"
    and "conns i = Some c \<or> c \<in> ended"
  shows "credits_validated (cn_trace c)"
proof -
  have "W = (\<lambda>i. with_hashes sha blake (W i))"
    by (rule ext, rule with_hashes_same [symmetric, OF assms(2,3)])
  with assms(1) have "pool_run (\<lambda>i. with_hashes sha blake (W i)) policy pool conns ended" by metis
  from credits_pool.run_connections [OF this] show ?thesis
    using assms(4) by (auto simp: every_connection_def credits_sound_def)
qed

text \<open>C13: Every share a connection receives is answered once: as long as the connection is open, the shares
  received are those answered and those still held, however they were refused, held for transactions or
  for a parent, expired or released.\<close>

theorem shares_answered_once:
  assumes "pool_run W policy pool conns ended" "conns i = Some c"
  shows "received_in (cn_trace c) = answered_in (cn_trace c) + length (cn_held c)"
  using late_pool.run_connections [OF assms(1)] assms(2) by (auto simp: every_connection_def owing_def)

text \<open>C14: The key of a slot is disclosed only when every share received has been answered: on every connection,
  open or closed, before each reveal sent there were as many answers as shares received, so a gateway
  that learns a key has the pool's answer to every share it mined on the slot.\<close>

theorem keys_disclosed_after_answers:
  assumes "pool_run W policy pool conns ended" "conns i = Some c \<or> c \<in> ended"
  shows "disclosed_late (cn_trace c)"
  using late_pool.run_connections [OF assms(1)] assms(2) by (auto simp: every_connection_def)

text \<open>C40: What a gateway can make a connection hold is bounded: at most 4096 shares waiting and at most 8 requests
  for transactions unanswered, also when the connection fails in the middle of a turn.\<close>

theorem connection_backlog_bounded:
  assumes "pool_run W policy pool conns ended" "conns i = Some c \<or> c \<in> ended"
  shows "length (cn_held c) \<le> 4096 \<and> length (cn_txn_requests c) \<le> 8"
  using limits_pool.run_connections [OF assms(1)] assms(2)
  by (auto simp: every_connection_def within_limits_def MAX_HELD_SHARES_def MAX_TXN_REQUESTS_def)

section \<open>A run\<close>

text \<open>A gateway connects and submits a share that does not decode; the frame is what its end of the channel
  sends under the primitives \<open>plain_crypto\<close>.\<close>

definition frame_of :: "bytes \<Rightarrow> frame_header \<times> bytes" where
  "frame_of payload =
     (let body = payload @ replicate 16 0
      in (default_header\<lparr>fh_is_encrypted_channel := True, fh_proto_cmd := MINING, fh_cmd_len := word_of_nat (length body)\<rparr>, body))"

definition sample_frame :: "frame_header \<times> bytes" where
  "sample_frame = frame_of [SUBMIT_POW]"

definition sample_world :: "tables world" where
  "sample_world =
     \<lparr>wd_sha = (\<lambda>_. replicate 32 0), wd_blake = (\<lambda>_. replicate 32 0), wd_crypto = plain_crypto, wd_redb = mem_redb,
      wd_codec = toy_codec, wd_to_bits = (\<lambda>_. 0), wd_instant = (\<lambda>_. 0), wd_unix_now = (\<lambda>_. 0), wd_write_fails = (\<lambda>_. False),
      wd_propose = (\<lambda>_ _. Inr None), wd_submit = (\<lambda>_ _. Inr None), wd_alive = (\<lambda>_ _. True), wd_random = (\<lambda>_ n. replicate n 0),
      wd_readable = (\<lambda>_. True), wd_wait = (\<lambda>_ _. Some True),
      wd_header = (\<lambda>_. Head (fst (ratchet_mask ratchet_initial (fst sample_frame)))),
      wd_body = (\<lambda>_ _. Some (snd sample_frame)), wd_budget = (\<lambda>_. True), wd_plausible = (\<lambda>_ _. True)\<rparr>"

definition sample_pool :: "tables server \<Rightarrow> tables pool" where
  "sample_pool S =
     \<lparr>pl_server = S, pl_relayed_blocks = bounded_new MAX_RELAYED_BLOCKS, pl_txn_cache = txn_cache_default,
      pl_sessions = session_store_new (cc_prime_id (pc_config sample_policy)), pl_tip = None, pl_template = None\<rparr>"

definition sample_payload :: bytes where
  "sample_payload = (case config_encode (pc_config sample_policy) of Inr p \<Rightarrow> p | Inl _ \<Rightarrow> [])"

abbreviation channel_ready :: "server_channel \<Rightarrow> header_key_ratchet \<Rightarrow> bool" where
  "channel_ready sc key \<equiv> ch_precomp (sc_channel sc) = Some (replicate 32 3) \<and> ch_rx_header_key (sc_channel sc) = key"

lemma encrypt_ready:
  assumes "channel_ready sc key" "length payload \<le> 1000"
  shows "\<exists>wire sc'. server_encrypt plain_crypto sc cmd payload sign = (Inr wire, sc') \<and> channel_ready sc' key"
  using assms
  by (auto simp: server_encrypt_def channel_encrypt_def sign_append_def plain_crypto_def channel_frame_def Let_def channel_consts
      MAX_CMD_LEN_def CMD_LEN_MASK_def CMD_LEN_BITS_def split: prod.split)

text \<open>A world in which nothing is late and nothing fails, and one in which a frame with the payload waits.\<close>

definition calm :: "tables world \<Rightarrow> bool" where
  "calm W \<longleftrightarrow> wd_crypto W = plain_crypto \<and> wd_instant W = (\<lambda>_. 0) \<and> wd_write_fails W = (\<lambda>_. False) \<and> wd_readable W = (\<lambda>_. True)"

definition carries :: "tables world \<Rightarrow> bytes \<Rightarrow> bool" where
  "carries W payload \<longleftrightarrow> wd_header W = (\<lambda>_. Head (fst (ratchet_mask ratchet_initial (fst (frame_of payload))))) \<and>
     wd_body W = (\<lambda>_ _. Some (snd (frame_of payload)))"

lemma sample_world_calm: "calm sample_world" "carries sample_world [SUBMIT_POW]"
  by (simp_all add: calm_def carries_def sample_world_def sample_frame_def)

lemma send_ready:
  assumes W: "calm W" and ready: "channel_ready (cn_channel c) key" "length payload \<le> 1000"
  shows "\<exists>sc. send_mining W payload sign c =
      Some (Inr (), c\<lparr>cn_channel := sc, cn_asked := Suc (Suc (cn_asked c)), cn_trace := cn_trace c @ [Sent MINING payload],
        cn_last_send_at := 0\<rparr>) \<and> channel_ready sc key"
proof -
  obtain wire sc where "server_encrypt plain_crypto (cn_channel c) MINING payload sign = (Inr wire, sc)" "channel_ready sc key"
    using encrypt_ready [OF ready] by blast
  then show ?thesis
    by (intro exI [of _ sc]) (simp add: send_mining_def send_frame_def bnd_def step_def observe_def emit_def modify_def W [unfolded calm_def])
qed

lemma sample_config: "\<exists>payload. config_encode (pc_config sample_policy) = Inr payload \<and> length payload \<le> 1000"
  by (simp add: config_encode_def check_fields_def sample_policy_def is_power_of_two_def MAX_PAYOUT_SCRIPT_LEN_def
      MAX_COINBASE_TAG_LEN_def push_counted_def)

lemmas act_defs = bnd_def ret_def raise_def gets_def step_def step_opt_def modify_def observe_def emit_def

lemma due_idle:
  assumes "cn_held c = []" "cn_txn_requests c = []" "cn_v3 c = None" "pl_tip (cn_pool c) = vf_tip (cn_verifier c)"
  shows "\<exists>n. due_actions W c = Some (Inr (), c\<lparr>cn_verifier := snd (set_template (pl_template (cn_pool c)) (cn_verifier c)), cn_asked := n\<rparr>)"
  using assms
  by (simp add: due_actions_def notify_tip_change_def expire_txn_requests_def take_request_def find_index_def expire_parent_holds_def
      answer_orphaned_held_def rotate_if_due_def send_due_reveals_def abw_of_def act_defs Let_def) blast

lemma undecodable: "\<exists>e. submit_decode [SUBMIT_POW] = Inl e"
proof -
  have "share_prefix_read [SUBMIT_POW] = Inl (MsgTruncated (Truncated ''job id''))" by code_simp
  then show ?thesis by (simp add: submit_decode_def)
qed

lemma frame_of_len:
  assumes "length payload \<le> 1000"
  shows "unat (fh_cmd_len (fst (frame_of payload))) = length payload + 16"
proof -
  have "unat (word_of_nat (length payload + 16) :: u32) = length payload + 16" using assms by (simp only: unat_of_nat) simp
  then show ?thesis by (simp add: frame_of_def Let_def del: of_nat_add)
qed

lemma frame_of_wf: "length payload \<le> 1000 \<Longrightarrow> wf_frame_header (fst (frame_of payload))"
  using frame_of_len [of payload]
  by (simp add: wf_frame_header_def MAX_CMD_LEN_def CMD_LEN_MASK_def CMD_LEN_BITS_def del: of_nat_add)
    (simp add: frame_of_def default_header_def Let_def MINING_def)

lemma sample_answered:
  assumes "channel_ready (cn_channel c) key"
  shows "\<exists>c'. on_share sample_world [SUBMIT_POW] c = Some (Inr (), c') \<and>
    received_in (cn_trace c') = Suc (received_in (cn_trace c)) \<and> answered_in (cn_trace c') = Suc (answered_in (cn_trace c))"
proof -
  obtain e where e: "submit_decode [SUBMIT_POW] = Inl e" using undecodable by blast
  have short: "length (encode_share_response r) \<le> 1000" if "sr_abw_ref r = None" for r
    using that by (simp add: encode_share_response_def Let_def split: prod.split)
  let ?c = "c\<lparr>cn_trace := cn_trace c @ [Share_Received], cn_warned_undecodable := snd (warn_level (cn_warned_undecodable c))\<rparr>"
  have "channel_ready (cn_channel ?c) key" using assms by simp
  let ?p = "case submit_prefix [SUBMIT_POW] of Some p \<Rightarrow> p | None \<Rightarrow> share_prefix_default"
  let ?r = "\<lparr>sr_verdict = Rejected (reason_for_decode_error e), sr_nonce = px_nonce ?p, sr_target_byte = px_target_byte ?p,
      sr_job_id = px_job_id ?p, sr_abw_ref = None\<rparr>"
  obtain sc where "send_mining sample_world (encode_share_response ?r) False ?c =
      Some (Inr (), ?c\<lparr>cn_channel := sc, cn_asked := Suc (Suc (cn_asked ?c)),
        cn_trace := cn_trace ?c @ [Sent MINING (encode_share_response ?r)], cn_last_send_at := 0\<rparr>)"
    using send_ready [OF sample_world_calm(1) \<open>channel_ready (cn_channel ?c) key\<close> short, of ?r False] by auto
  then show ?thesis
    unfolding on_share_def e sum.case on_undecodable_share_def Let_def
    using share_response_first [of ?r] by (simp add: act_defs received_in_def answered_in_def)
qed

text \<open>A turn of an idle connection that receives a share is what \<open>on_share\<close> does with it.\<close>

lemma share_turn:
  assumes W: "calm W" "carries W (SUBMIT_POW # rest)" "length rest < 1000"
    and c: "cn_held c = []" "cn_txn_requests c = []" "cn_v3 c = None" "pl_tip (cn_pool c) = vf_tip (cn_verifier c)"
      "channel_ready (cn_channel c) ratchet_initial" "cn_last_frame_at c = 0" "cn_last_send_at c = 0"
    and share: "\<And>c1 key. channel_ready (cn_channel c1) key \<Longrightarrow> cn_trace c1 = cn_trace c \<Longrightarrow> cn_held c1 = [] \<Longrightarrow> cn_v3 c1 = None \<Longrightarrow>
      cn_verifier c1 = snd (set_template (pl_template (cn_pool c)) (cn_verifier c)) \<Longrightarrow>
      (cn_resumed_from c = None \<longrightarrow> cn_pool c1 = cn_pool c) \<Longrightarrow>
      \<exists>c2. on_share W (SUBMIT_POW # rest) c1 = Some (Inr (), c2) \<and> P c2"
  shows "\<exists>c'. run_turn W c = Some (Inr True, c') \<and> P c'"
proof -
  let ?v = "snd (set_template (pl_template (cn_pool c)) (cn_verifier c))" and ?payload = "SUBMIT_POW # rest"
  obtain n where due: "due_actions W c = Some (Inr (), c\<lparr>cn_verifier := ?v, cn_asked := n\<rparr>)"
    using due_idle [OF c(1-4)] by blast
  obtain header body where frame: "frame_of ?payload = (header, body)" by fastforce
  have header: "fh_is_encrypted_channel header" "\<not> fh_is_encrypted_pubkey header" "\<not> fh_is_signed header"
    "fh_proto_cmd header = MINING" "unat (fh_cmd_len header) = length rest + 17" "body = ?payload @ replicate 16 0"
    using frame frame_of_len [of ?payload] W(3) by (auto simp: frame_of_def Let_def default_header_def simp del: of_nat_add)
  define masked where "masked = fst (ratchet_mask ratchet_initial header)"
  have world: "wd_header W = (\<lambda>_. Head masked)" "wd_body W = (\<lambda>_ _. Some body)"
    "wd_instant W = (\<lambda>_. 0)" "wd_readable W = (\<lambda>_. True)" "wd_crypto W = plain_crypto"
    using W(1,2) by (simp_all add: carries_def calm_def masked_def frame)
  have wf: "wf_frame_header header" using frame_of_wf [of ?payload] W(3) by (simp add: frame)
  define ch where "ch = snd (server_unmask_header (cn_channel c) masked)"
  have unmasked: "server_unmask_header (cn_channel c) masked = (header, ch)"
    using c(5) unmask_mask [OF wf, of ratchet_initial]
    by (simp add: ch_def server_unmask_header_def channel_unmask_header_def masked_def Let_def)
  have "ch_precomp (sc_channel ch) = Some (replicate 32 3)"
    using c(5) by (simp add: ch_def server_unmask_header_def channel_unmask_header_def split_beta Let_def)
  then obtain ch' where decrypted: "server_decrypt plain_crypto ch header body = (Inr ?payload, ch')"
      "ch_precomp (sc_channel ch') = Some (replicate 32 3)"
    using header by (auto simp: server_decrypt_def channel_decrypt_def plain_crypto_def strip_signature_def channel_consts)
  let ?c = "note_proven (c\<lparr>cn_verifier := ?v, cn_channel := ch', cn_asked := Suc (Suc (Suc (Suc (Suc (Suc n))))), cn_last_frame_at := 0\<rparr>)"
  have "channel_ready (cn_channel ?c) (ch_rx_header_key (sc_channel ch'))" "cn_trace ?c = cn_trace c" "cn_held ?c = []" "cn_v3 ?c = None"
    "cn_verifier ?c = ?v" "cn_resumed_from c = None \<longrightarrow> cn_pool ?c = cn_pool c"
    using decrypted(2) c(1,3) by (simp_all add: note_proven_def split: option.split)
  from share [OF this] obtain c' where "on_share W ?payload ?c = Some (Inr (), c')" "P c'" by blast
  then show ?thesis
    using due unmasked decrypted(1) c(2,6,7) header W(3)
    by (auto simp: run_turn_def read_and_dispatch_def read_next_frame_def on_frame_def mining_message_def on_mining_def act_defs world
        IDLE_TIMEOUT_def KEEPALIVE_INTERVAL_def MAX_UNSOLICITED_FRAME_LEN_def SUBMIT_POW_def COINBASER_REQUEST_def)
qed

text \<open>The first turn of the first connection of a pool.\<close>

lemma first_turn:
  assumes W: "calm W" "carries W (SUBMIT_POW # rest)" "length rest < 1000"
    and pool: "pl_sessions pool = session_store_new (cc_prime_id (pc_config sample_policy))" "pl_tip pool = None"
    and share: "\<And>c key. channel_ready (cn_channel c) key \<Longrightarrow> received_in (cn_trace c) = 0 \<Longrightarrow> answered_in (cn_trace c) = 0 \<Longrightarrow>
      cn_held c = [] \<Longrightarrow> cn_v3 c = None \<Longrightarrow> cn_verifier c = snd (set_template (pl_template pool) (verifier_new sample_policy)) \<Longrightarrow>
      cn_pool c = pool \<Longrightarrow> \<exists>c'. on_share W (SUBMIT_POW # rest) c = Some (Inr (), c') \<and> P c'"
  shows "\<exists>pool' (conns :: nat \<Rightarrow> tables connection option) c. pool_run (\<lambda>_. W) sample_policy pool' conns {} \<and> conns 0 = Some c \<and> P c"
proof -
  obtain payload where payload: "config_encode (pc_config sample_policy) = Inr payload" "length payload \<le> 1000"
    using sample_config by blast
  let ?c0 = "connection_new pool sample_policy sample_server 0 0"
  have "channel_ready (cn_channel ?c0) ratchet_initial"
    by (simp add: connection_new_def sample_server_def channel_before_handshake_def)
  then obtain sc where sc: "send_mining W payload True ?c0 =
      Some (Inr (), ?c0\<lparr>cn_channel := sc, cn_asked := 2, cn_trace := [Sent MINING payload], cn_last_send_at := 0\<rparr>)"
      "channel_ready sc ratchet_initial"
    using send_ready [OF W(1) _ payload(2), of ?c0 ratchet_initial True] by (auto simp: connection_new_def numeral_2_eq_2)
  let ?c1 = "?c0\<lparr>cn_channel := sc, cn_asked := 2, cn_trace := [Sent MINING payload], cn_last_send_at := 0\<rparr>"
  have "start_session W payload V1 ?c0 = Some (Inr (), ?c1)" using sc(1) by (simp add: start_session_def)
  note opened = pool_run.accept [OF pool_run.start [OF pool(1)] _ payload(1), where W = "\<lambda>_. W" and i = 0, OF _ this]
  have none: "received_in (cn_trace ?c1) = 0" "answered_in (cn_trace ?c1) = 0"
    using config_first [OF payload(1)] by (simp_all add: received_in_def answered_in_def)
  have idle: "cn_held ?c1 = []" "cn_txn_requests ?c1 = []" "cn_v3 ?c1 = None" "pl_tip (cn_pool ?c1) = vf_tip (cn_verifier ?c1)"
    "channel_ready (cn_channel ?c1) ratchet_initial" "cn_last_frame_at ?c1 = 0" "cn_last_send_at ?c1 = 0"
    using sc(2) pool(2) by (simp_all add: connection_new_def verifier_new_def)
  have parts: "cn_pool ?c1 = pool" "cn_verifier ?c1 = verifier_new sample_policy" "cn_resumed_from ?c1 = None"
    by (simp_all add: connection_new_def)
  have "\<exists>c'. run_turn W ?c1 = Some (Inr True, c') \<and> P c'"
    by (rule share_turn [OF W idle]) (rule share; use none parts in simp)
  then obtain c' where c': "run_turn W ?c1 = Some (Inr True, c')" "P c'" by blast
  have same: "?c1\<lparr>cn_pool := cn_pool ?c1\<rparr> = ?c1" by simp
  from pool_run.turn [OF opened, of 0 ?c1 c'] c' same
  have "pool_run (\<lambda>_. W) sample_policy (cn_pool c') ((\<lambda>_. None)(0 := Some c')) {}" by simp
  with c' show ?thesis by (intro exI [of _ "cn_pool c'"] exI [of _ "(\<lambda>_. None)(0 := Some c')"] exI [of _ c']) simp
qed

lemma sample_runs:
  "\<exists>pool (conns :: nat \<Rightarrow> tables connection option) c.
     pool_run (\<lambda>_. sample_world) sample_policy pool conns {} \<and> conns 0 = Some c \<and>
     received_in (cn_trace c) = 1 \<and> answered_in (cn_trace c) = 1"
proof -
  fix S
  have pool: "pl_sessions (sample_pool S) = session_store_new (cc_prime_id (pc_config sample_policy))" "pl_tip (sample_pool S) = None"
    by (simp_all add: sample_pool_def)
  show ?thesis
    by (rule first_turn [OF sample_world_calm _ pool]) (use sample_answered in fastforce)+
qed

theorem shares_answered_once_witness:
  "\<exists>pool (conns :: nat \<Rightarrow> tables connection option) c. pool_run (\<lambda>_. sample_world) sample_policy pool conns {} \<and>
     conns 0 = Some c \<and> received_in (cn_trace c) = 1 \<and> cn_held c = []"
  using sample_runs shares_answered_once by fastforce

theorem keys_disclosed_after_answers_witness:
  "\<exists>pool (conns :: nat \<Rightarrow> tables connection option) c. pool_run (\<lambda>_. sample_world) sample_policy pool conns {} \<and>
     conns 0 = Some c \<and> disclosed_late (cn_trace c)"
  using sample_runs keys_disclosed_after_answers by blast

theorem connection_backlog_bounded_witness:
  "\<exists>pool (conns :: nat \<Rightarrow> tables connection option) c. pool_run (\<lambda>_. sample_world) sample_policy pool conns {} \<and>
     conns 0 = Some c \<and> length (cn_held c) \<le> 4096"
  using sample_runs connection_backlog_bounded by blast

end
