(* ===== verification/Credited_Run.thy ===== *)
theory Credited_Run
  imports Pool_Run
begin

text \<open>
  A run of the pool in which a share is credited: the first connection submits a share with its job and its
  coinbase, the node finds the block valid, and the share is recorded in the ledger.  It is the example of
  the property that no share is credited before the node validated its block.
\<close>

definition credit_codec :: address_codec where
  "credit_codec = toy_codec\<lparr>ac_segwit_decode := \<lambda>_. Some ([0x62, 0x63], 0, replicate 20 0)\<rparr>"

definition credit_world :: "tables world" where
  "credit_world = sample_world\<lparr>wd_sha := any_hash, wd_blake := no_hash, wd_codec := credit_codec, wd_unix_now := (\<lambda>_. 9),
     wd_header := (\<lambda>_. Head (fst (ratchet_mask ratchet_initial (fst (frame_of (submit_encode sample_share)))))),
     wd_body := (\<lambda>_ _. Some (snd (frame_of (submit_encode sample_share))))\<rparr>"

text \<open>A pool whose ledger is open and which has, of the blocks it relayed, the share's own.\<close>

definition credit_pool :: "tables ledger \<Rightarrow> bytes bounded_set \<Rightarrow> tables pool" where
  "credit_pool L relayed =
     (sample_pool \<lparr>sv_ledger = L, sv_records = no_records, sv_accepted_hashes = hashes_new 4, sv_chain = Some Main,
        sv_tip_difficulty = None\<rparr>)\<lparr>pl_relayed_blocks := relayed\<rparr>"

lemma sample_share_decodes: "submit_decode (submit_encode sample_share) = Inr sample_share"
  by (rule submit_wire)
    (simp add: wf_submit_def wf_job_def wf_coinbase_def wf_blake2b_def sample_share_def sample_job_section_def
      sample_coinbase_section_def share_sizes utf8_valid_ascii MAX_USERNAME_LEN_def)

lemma sample_share_frame: "\<exists>rest. submit_encode sample_share = SUBMIT_POW # rest \<and> length rest < 1000"
  by (simp add: submit_encode_def sample_share_def encode_blake2b_section_def encode_job_section_def encode_coinbase_section_def
      sample_job_section_def sample_coinbase_section_def put_u32_le_def put_u64_le_def put_u16_le_def share_sizes)

lemma credit_world_calm: "calm credit_world" "carries credit_world (submit_encode sample_share)"
  by (simp_all add: calm_def carries_def credit_world_def sample_world_def)

lemma sample_username_pays: "address_script credit_codec (address_of (ps_username sample_share)) (Some Main) \<noteq> None"
proof -
  have "address_of (ps_username sample_share) = ps_username sample_share"
    by (simp add: address_of_def split_address_worker_def find_index_def sample_share_def takeWhile_append2 Let_def)
  moreover have "segwit_prefixes (ps_username sample_share) = Some MAIN_PREFIXES"
    by (simp add: segwit_prefixes_def sample_share_def EVERY_CHAIN_def MAIN_PREFIXES_def to_ascii_lowercase_def ascii_uppercase_def)
  moreover have "length (ps_username sample_share) = 16" by (simp add: sample_share_def)
  ultimately show ?thesis
    by (simp add: address_script_def to_output_script_def credit_codec_def MAIN_PREFIXES_def address_consts Let_def)
qed

lemma sample_ledger:
  "\<exists>(L :: tables ledger). \<forall>shares. shares \<noteq> [] \<longrightarrow> (\<exists>n L'. record_batch mem_redb shares L = Some (Inr (n, L')))"
proof -
  obtain L st where run: "ledger_run mem_redb (\<lambda>a b. Finite 10) (Finite 10) no_fee None None L None [Window.sample_share 1 5]"
    "lg_store L = Some st" using sample_run by blast
  have "\<exists>n L'. record_batch mem_redb shares L = Some (Inr (n, L'))" if "shares \<noteq> []" for shares
    using that batch_total [OF ledger_run_inv [OF run(1) mem_redb_ok], of shares] run(2)
    by (auto simp: record_batch_def Let_def insert_batch_def mem_redb_def)
  then show ?thesis by blast
qed

text \<open>A connection of such a pool that has taken nothing but the share.\<close>

definition creditable :: "tables ledger \<Rightarrow> bytes bounded_set \<Rightarrow> header_key_ratchet \<Rightarrow> tables connection \<Rightarrow> bool" where
  "creditable L relayed key c \<longleftrightarrow> channel_ready (cn_channel c) key \<and> cn_v3 c = None \<and>
     pl_relayed_blocks (cn_pool c) = relayed \<and> sv_ledger (cn_server c) = L \<and> sv_chain (cn_server c) = Some Main"

lemma claimed_first:
  assumes "creditable L relayed key c" "sv_accepted_hashes (cn_server c) = hashes_new 4"
    and "verify any_hash no_hash sample_share None 9 (cn_verifier c) = Some (Inr r, v')"
  shows "\<exists>c'. verify_and_claim credit_world sample_share 9 c = Some (Inr (Inr r), c') \<and> creditable L relayed key c' \<and> cn_verifier c' = v'"
proof -
  obtain h1 where "claim r 9 (hashes_new 4) = (Inr r, h1)"
    by (simp add: claim_def hashes_insert_def hashes_hold_def hashes_new_def hashes_expire.simps drop_full.simps)
  with assms show ?thesis
    by (simp add: verify_and_claim_def creditable_def step_opt_def credit_world_def on_server_def)
qed

lemma valid_first:
  assumes "creditable L relayed key c" "job_at (cn_verifier c) 3 = Some st" "js_txn_count (st_job st) = 0" "\<not> st_evicted st"
    and "st_checks st = []" "rb_job_generation r = Some (st_generation st)"
  shows "\<exists>c'. job_verdict_of credit_world sample_share (Inr r) 9 c = Some (Inr (JobValid []), c') \<and> creditable L relayed key c'"
proof -
  have live: "live_job (cn_verifier c) (ps_job_id sample_share) (st_generation st) = Some st"
    using assms(2,4) by (simp add: live_job_def sample_share_def)
  have node: "wd_propose credit_world = (\<lambda>_ _. Inr None)" by (simp add: credit_world_def sample_world_def)
  have own: "(rb_version r XOR rb_version r) AND NOT VERSION_ROLLING_MASK = 0" by simp
  show ?thesis
    using assms
    by (simp add: job_verdict_of_def judged_def connection_job_txns_def verifier_job_def live current_check_def block_check_of_def
        check_block_def propose_def PROPOSAL_ATTEMPTS_def numeral_2_eq_2 propose_block_def node block_check_from_def
        verdict_of_check_def own act_defs creditable_def)
qed

lemma credited_first:
  assumes "creditable L relayed key c" "bounded_contains relayed (rb_block_hash r)"
    and "\<And>shares. shares \<noteq> [] \<Longrightarrow> \<exists>n L'. record_batch mem_redb shares L = Some (Inr (n, L'))"
  shows "\<exists>o' c'. on_accepted credit_world sample_share r [] 9 c = Some (Inr o', c') \<and> channel_ready (cn_channel c') key \<and>
    cn_v3 c' = None \<and> Credited (ps_username sample_share) r \<in> set (cn_trace c')"
proof -
  have world: "wd_redb credit_world = mem_redb" "wd_codec credit_world = credit_codec"
    by (simp_all add: credit_world_def sample_world_def)
  obtain n L' where rec: "record_batch mem_redb [share_of (ps_username sample_share) r 9] L = Some (Inr (n, L'))"
    using assms(3) by blast
  have relay: "(if meets_own_bits r then relay_and_record credit_world sample_share r [] 9 else ret ()) c = Some (Inr (), c)"
    using assms(1,2)
    by (simp add: relay_and_record_def creditable_def bounded_set_insert_def bounded_contains_def act_defs)
  show ?thesis
    using assms(1) sample_username_pays
    by (simp add: on_accepted_def bnd_def [of "if meets_own_bits r then _ else _"] relay)
      (simp add: act_defs credit_def refuse_if_unpayable_def creditable_def world credit_share_def rec on_server_def
        send_abw_receipt_def abw_slot_of_def)
qed

lemma credited_share:
  assumes c: "creditable L relayed key c" "cn_verifier c = verifier_new sample_policy"
      "sv_accepted_hashes (cn_server c) = hashes_new 4"
    and r: "verify any_hash no_hash sample_share None 9 (verifier_new sample_policy) = Some (Inr r, v')"
      "job_at v' 3 = Some st" "js_txn_count (st_job st) = 0" "\<not> st_evicted st" "st_checks st = []"
      "rb_job_generation r = Some (st_generation st)" "bounded_contains relayed (rb_block_hash r)"
    and L: "\<And>shares. shares \<noteq> [] \<Longrightarrow> \<exists>n L'. record_batch mem_redb shares L = Some (Inr (n, L'))"
  shows "\<exists>c'. on_share credit_world (submit_encode sample_share) c = Some (Inr (), c') \<and>
    Credited (ps_username sample_share) r \<in> set (cn_trace c')"
proof -
  let ?c = "c\<lparr>cn_trace := cn_trace c @ [Share_Received], cn_asked := Suc (cn_asked c)\<rparr>"
  have start: "creditable L relayed key ?c" "sv_accepted_hashes (cn_server ?c) = hashes_new 4"
    "verify any_hash no_hash sample_share None 9 (cn_verifier ?c) = Some (Inr r, v')"
    using c r(1) by (simp_all add: creditable_def)
  obtain c1 where c1: "verify_and_claim credit_world sample_share 9 ?c = Some (Inr (Inr r), c1)" "creditable L relayed key c1"
    "cn_verifier c1 = v'" using claimed_first [OF start] by blast
  let ?c1 = "c1\<lparr>cn_asked := Suc (cn_asked c1)\<rparr>"
  have "creditable L relayed key ?c1" "job_at (cn_verifier ?c1) 3 = Some st"
    using c1(2,3) r(2) by (simp_all add: creditable_def)
  from valid_first [OF this r(3-6)] obtain c2 where
    c2: "job_verdict_of credit_world sample_share (Inr r) 9 ?c1 = Some (Inr (JobValid []), c2)" "creditable L relayed key c2" by blast
  obtain o' c3 where c3: "on_accepted credit_world sample_share r [] 9 c2 = Some (Inr o', c3)" "channel_ready (cn_channel c3) key"
    "cn_v3 c3 = None" "Credited (ps_username sample_share) r \<in> set (cn_trace c3)"
    using credited_first [OF c2(2) r(7) L] by blast
  have short: "length (encode_share_response (response_to sample_share o' None)) \<le> 1000"
    by (simp add: encode_share_response_def response_to_def Let_def split: prod.split option.split)
  obtain c4 where c4: "send_mining credit_world (encode_share_response (response_to sample_share o' None)) False c3 = Some (Inr (), c4)"
    "Credited (ps_username sample_share) r \<in> set (cn_trace c4)"
    using send_ready [OF credit_world_calm(1) c3(2) short, of False] c3(4) by auto
  have world: "wd_unix_now credit_world = (\<lambda>_. 9)" by (simp add: credit_world_def)
  have settled: "settle credit_world sample_share (Inr r) 9 until ?c1 = Some (Inr (), c4)" for until
    by (simp add: settle_def hold_for_parent_def on_result_def act_defs c2(1) answer_def answer_outcome_def c3 abw_slot_of_def c4(1))
  have "on_share credit_world (submit_encode sample_share) c = Some (Inr (), c4)"
    by (simp add: on_share_def sample_share_decodes act_defs world c1(1) settled)
  with c4(2) show ?thesis by blast
qed

text \<open>The run: the share is credited, and the node validated its block before.\<close>

lemma credit_runs:
  "\<exists>pool (conns :: nat \<Rightarrow> tables connection option) c u r.
     pool_run (\<lambda>_. credit_world) sample_policy pool conns {} \<and> conns 0 = Some c \<and> Credited u r \<in> set (cn_trace c)"
proof -
  obtain r v' st where r: "verify any_hash no_hash sample_share None 9 (verifier_new sample_policy) = Some (Inr r, v')"
    "job_at v' 3 = Some st" "st_job st = sample_job_section\<lparr>js_target_byte_index := 43\<rparr>" "\<not> st_evicted st" "st_checks st = []"
    "rb_job_generation r = Some (st_generation st)" using sample_share_state by blast
  obtain L :: "tables ledger" where L: "\<And>shares. shares \<noteq> [] \<Longrightarrow> \<exists>n L'. record_batch mem_redb shares L = Some (Inr (n, L'))"
    using sample_ledger by blast
  define relayed where "relayed = fst (bounded_set_insert (bounded_new MAX_RELAYED_BLOCKS) (rb_block_hash r))"
  have known: "bounded_contains relayed (rb_block_hash r)"
    by (simp add: relayed_def bounded_set_insert_ok(4) bounded_new_ok MAX_RELAYED_BLOCKS_def)
  have empty: "js_txn_count (st_job st) = 0" by (simp add: r(3) sample_job_section_def)
  let ?pool = "credit_pool L relayed"
  have pool: "pl_sessions ?pool = session_store_new (cc_prime_id (pc_config sample_policy))" "pl_tip ?pool = None"
    by (simp_all add: credit_pool_def sample_pool_def)
  have no_template: "snd (set_template (pl_template ?pool) (verifier_new sample_policy)) = verifier_new sample_policy"
    by (simp add: set_template_def credit_pool_def sample_pool_def verifier_new_def)
  obtain rest where rest: "submit_encode sample_share = SUBMIT_POW # rest" "length rest < 1000" using sample_share_frame by blast
  have "\<exists>c'. on_share credit_world (SUBMIT_POW # rest) c = Some (Inr (), c') \<and> Credited (ps_username sample_share) r \<in> set (cn_trace c')"
    if "channel_ready (cn_channel c) key" "cn_v3 c = None"
      "cn_verifier c = snd (set_template (pl_template ?pool) (verifier_new sample_policy))" "cn_pool c = ?pool" for c key
  proof -
    have "creditable L relayed key c" "sv_accepted_hashes (cn_server c) = hashes_new 4"
      using that by (simp_all add: creditable_def credit_pool_def sample_pool_def)
    from credited_share [OF this(1) _ this(2) r(1,2) empty r(4-6) known L] that(3) no_template
    show ?thesis by (simp add: rest(1))
  qed
  note turn = this
  show ?thesis
    using first_turn [OF credit_world_calm(1) credit_world_calm(2) [unfolded rest(1)] rest(2) pool,
        of "\<lambda>c. Credited (ps_username sample_share) r \<in> set (cn_trace c)"] turn
    by blast
qed

theorem credited_after_validation_witness:
  "\<exists>pool (conns :: nat \<Rightarrow> tables connection option) c u r.
     pool_run (\<lambda>_. credit_world) sample_policy pool conns {} \<and> conns 0 = Some c \<and>
     Credited u r \<in> set (cn_trace c) \<and> validated_in (cn_trace c) r"
proof -
  obtain pool c u r and conns :: "nat \<Rightarrow> tables connection option" where
    run: "pool_run (\<lambda>_. credit_world) sample_policy pool conns {}" "conns 0 = Some c" "Credited u r \<in> set (cn_trace c)"
    using credit_runs by blast
  have sound: "credits_validated (cn_trace c)"
    by (rule credited_after_validation [OF run(1) refl refl]) (use run(2) in blast)
  obtain before later where trace: "cn_trace c = before @ Credited u r # later" using run(3) by (meson split_list)
  with sound have "validated_in before r" by (simp add: credits_validated_def)
  then have "validated_in (cn_trace c) r" by (simp add: trace validated_append)
  with run show ?thesis by blast
qed

end
