(* ===== verification/Expiry.thy ===== *)
theory Expiry
  imports Pool_Run
begin

text \<open>
  The loops and waits of a connection's deadlines.  The loop over the overdue transaction requests is run
  with fuel in \<open>expire_txn_requests\<close>; while the clock does not go back, a request sent during the loop is
  not due in it, so every pass leaves one due request fewer and the fuel never runs out: the relation
  \<open>expires\<close> is the loop without fuel, and has exactly the outcome the fuelled loop computes.  The wait for the
  next frame ends when the next action falls due: at no instant before its end is anything due.
\<close>

section \<open>The loop over overdue requests\<close>

definition due_requests :: "nat \<Rightarrow> 'db connection \<Rightarrow> nat" where
  "due_requests now c = length (filter (\<lambda>r. txn_deadline r \<le> now) (cn_txn_requests c))"

text \<open>At most \<open>d\<close> requests are due at \<open>now\<close>, and the clock has reached \<open>now\<close>.\<close>

definition due_at_most :: "'db world \<Rightarrow> nat \<Rightarrow> nat \<Rightarrow> 'db connection \<Rightarrow> bool" where
  "due_at_most W now d c \<longleftrightarrow> due_requests now c \<le> d \<and> (\<forall>n \<ge> cn_asked c. now \<le> wd_instant W n)"

lemma filter_remove_at: "length (filter P (remove_at i xs)) \<le> length (filter P xs)"
proof -
  have "length (filter P (take i xs)) + length (filter P (drop (Suc i) xs)) \<le> length (filter P (take i xs)) + length (filter P (drop i xs))"
    by (cases "i < length xs") (simp_all flip: Cons_nth_drop_Suc)
  also have "\<dots> = length (filter P xs)" by (simp flip: filter_append length_append)
  finally show ?thesis by (simp add: remove_at_def)
qed

interpretation due: share_invariant "due_at_most W now d" W "\<lambda>_ _. True" for W now d
  by unfold_locales
    (auto simp: due_at_most_def due_requests_def txn_deadline_def TXNS_TIMEOUT_def intro: order_trans [OF filter_remove_at])

lemma take_due:
  assumes "due_at_most W now (Suc d) c"
  shows "take_request (\<lambda>r. txn_deadline r \<le> now) c = Some (Inr None, c) \<or>
    (\<exists>r c'. take_request (\<lambda>r. txn_deadline r \<le> now) c = Some (Inr (Some r), c') \<and> due_at_most W now d c')"
proof (cases "find_index (\<lambda>r. txn_deadline r \<le> now) (cn_txn_requests c)")
  case None
  then show ?thesis by (simp add: take_request_def step_def)
next
  case (Some i)
  let ?rs = "cn_txn_requests c"
  have i: "i < length ?rs" "txn_deadline (?rs ! i) \<le> now" using find_index_Some [OF Some] by auto
  have "length (filter (\<lambda>r. txn_deadline r \<le> now) ?rs) =
      length (filter (\<lambda>r. txn_deadline r \<le> now) (take i ?rs)) + length (filter (\<lambda>r. txn_deadline r \<le> now) (drop i ?rs))"
    by (simp flip: filter_append length_append)
  also have "drop i ?rs = ?rs ! i # drop (Suc i) ?rs" using i(1) by (simp add: Cons_nth_drop_Suc)
  finally have "Suc (length (filter (\<lambda>r. txn_deadline r \<le> now) (remove_at i ?rs))) = length (filter (\<lambda>r. txn_deadline r \<le> now) ?rs)"
    using i(2) by (simp add: remove_at_def)
  then show ?thesis using assms Some by (simp add: take_request_def step_def due_at_most_def due_requests_def)
qed

lemma none_due:
  assumes "due_at_most W now 0 c"
  shows "take_request (\<lambda>r. txn_deadline r \<le> now) c = Some (Inr None, c)"
proof -
  have "find_index (\<lambda>r. txn_deadline r \<le> now) (cn_txn_requests c) = None"
    using assms unfolding find_index_None by (auto simp: due_at_most_def due_requests_def filter_empty_conv)
  then show ?thesis by (simp add: take_request_def step_def)
qed

lemma take_request_none_due:
  "take_request (\<lambda>r. txn_deadline r \<le> now) c = Some (Inr None, c') \<Longrightarrow> due_requests now c = 0"
  by (auto simp: take_request_def step_def due_requests_def find_index_None filter_empty_conv split: option.splits)

text \<open>One pass of the loop.\<close>

definition expire_pass :: "'db world \<Rightarrow> txn_request \<Rightarrow> ('db, unit) handler" where
  "expire_pass W r =
     bnd (set_txns r (Refused Other)) (\<lambda>_. release_held W (held_for (tq_job_id r) (tq_generation r)))"

text \<open>
  What the loop of the code does, without fuel: a run of it takes \<open>k\<close> turns and has an outcome, the panic
  \<open>None\<close>, an error, or the connection it leaves.  Only a finite run has one: a loop that keeps finding a due
  request is related to no outcome.
\<close>

inductive expires :: "'db world \<Rightarrow> nat \<Rightarrow> nat \<Rightarrow> 'db connection \<Rightarrow> ((conn_error + unit) \<times> 'db connection) option \<Rightarrow> bool"
  for W :: "'db world" and now :: nat where
  expires_empty: "take_request (\<lambda>r. txn_deadline r \<le> now) c = Some (Inr None, c') \<Longrightarrow> expires W now 0 c (Some (Inr (), c'))"
| expires_panic: "take_request (\<lambda>r. txn_deadline r \<le> now) c = Some (Inr (Some r), c') \<Longrightarrow>
    expire_pass W r c' = None \<Longrightarrow> expires W now 1 c None"
| expires_error: "take_request (\<lambda>r. txn_deadline r \<le> now) c = Some (Inr (Some r), c') \<Longrightarrow>
    expire_pass W r c' = Some (Inl e, c'') \<Longrightarrow> expires W now 1 c (Some (Inl e, c''))"
| expires_turn: "take_request (\<lambda>r. txn_deadline r \<le> now) c = Some (Inr (Some r), c') \<Longrightarrow>
    expire_pass W r c' = Some (Inr u, c'') \<Longrightarrow> expires W now k c'' out \<Longrightarrow> expires W now (Suc k) c out"

lemma outcome_cases:
  obtains "out = None" | e s where "out = Some (Inl e, s)" | v s where "out = Some (Inr v, s)"
proof (cases out)
  case (Some p)
  then show thesis using that by (cases p; cases "fst p") auto
qed

lemma expires_determined: "expires W now k c out \<Longrightarrow> expires W now k' c out' \<Longrightarrow> k' = k \<and> out' = out"
proof (induction arbitrary: k' out' rule: expires.induct)
  case (expires_turn c r c1 u c2 k out)
  from expires_turn.prems show ?case
  proof cases
    case (expires_turn r' c1' u' c2' j)
    then show ?thesis using \<open>take_request _ c = Some (Inr (Some r), c1)\<close> \<open>expire_pass W r c1 = _\<close>
      using expires_turn.IH by (metis Inr_inject option.inject prod.inject)
  qed (use \<open>take_request _ c = Some (Inr (Some r), c1)\<close> \<open>expire_pass W r c1 = _\<close> in simp_all)
qed (erule expires.cases, simp_all)+

lemma expire_step:
  assumes "take_request (\<lambda>r. txn_deadline r \<le> now) c = Some (Inr (Some r), c')"
  shows "expire_requests W now (Suc fuel) c =
    (case expire_pass W r c' of None \<Rightarrow> None | Some (Inl e, s) \<Rightarrow> Some (Inl e, s) | Some (Inr _, s) \<Rightarrow> expire_requests W now fuel s)"
  by (simp add: bnd_def assms expire_pass_def split: option.split sum.split)

lemma due_after_pass:
  "due_at_most W now d c \<Longrightarrow> expire_pass W r c = Some (res, c') \<Longrightarrow> due_at_most W now d c'"
  by (rule keepsD [where P = "due_at_most W now d" and m = "expire_pass W r"])
    (unfold expire_pass_def, intro keeps_intro due.keeps_set_txns due.keeps_release_held)

text \<open>With at most \<open>d\<close> requests due the loop ends within \<open>d\<close> turns, and is computed with any more fuel.\<close>

lemma expire_runs:
  assumes "due_at_most W now d c"
  shows "\<exists>k \<le> d. \<exists>out. expires W now k c out \<and> (\<forall>fuel > d. expire_requests W now fuel c = out) \<and>
    (\<forall>c'. out = Some (Inr (), c') \<longrightarrow> due_requests now c' = 0)"
  using assms
proof (induction d arbitrary: c)
  case 0
  then have "expires W now 0 c (Some (Inr (), c))" by (intro expires_empty none_due)
  moreover have "expire_requests W now fuel c = Some (Inr (), c)" if "0 < fuel" for fuel
    using that 0 by (cases fuel) (simp_all add: bnd_def none_due ret_def)
  ultimately show ?case using 0 by (auto simp: due_at_most_def)
next
  case (Suc d)
  let ?take = "take_request (\<lambda>r. txn_deadline r \<le> now)"
  from take_due [OF Suc.prems] consider "?take c = Some (Inr None, c)"
    | r c' where "?take c = Some (Inr (Some r), c')" "due_at_most W now d c'" by blast
  then show ?case
  proof cases
    case 1
    moreover have "expire_requests W now fuel c = Some (Inr (), c)" if "Suc d < fuel" for fuel
      using that 1 by (cases fuel) (simp_all add: bnd_def ret_def)
    moreover have "due_requests now c = 0" using 1 by (simp add: take_request_none_due)
    ultimately show ?thesis using expires_empty by blast
  next
    case 2
    have step: "expire_requests W now fuel c = (case expire_pass W r c' of None \<Rightarrow> None | Some (Inl e, s) \<Rightarrow> Some (Inl e, s)
        | Some (Inr _, s) \<Rightarrow> expire_requests W now (fuel - 1) s)" if "Suc d < fuel" for fuel
      using that expire_step [OF 2(1)] by (cases fuel) (simp_all only: diff_Suc_1 expire_step [OF 2(1)] not_less_zero)
    consider "expire_pass W r c' = None" | e c'' where "expire_pass W r c' = Some (Inl e, c'')"
      | c'' where "expire_pass W r c' = Some (Inr (), c'')" by (rule outcome_cases) auto
    then show ?thesis
    proof cases
      case 3
      then obtain k out where "k \<le> d" "expires W now k c'' out" "\<forall>fuel > d. expire_requests W now fuel c'' = out"
        "\<forall>c'. out = Some (Inr (), c') \<longrightarrow> due_requests now c' = 0" using Suc.IH [OF due_after_pass [OF 2(2)]] by blast
      then show ?thesis using step 3 expires_turn [OF 2(1) 3, of k out] by (intro exI [of _ "Suc k"] conjI exI [of _ out]) auto
    qed (use step expires_panic [OF 2(1)] expires_error [OF 2(1)] in \<open>force intro!: exI [of _ "Suc 0"]\<close>)+
  qed
qed

text \<open>C23: Expiring the overdue transaction requests ends.  While the clock of the connection does not go back,
  the loop over the requests due at \<open>now\<close>, the instant read at its start, has an outcome, exactly one, reached
  within as many turns as there were requests, although the shares it releases may send new requests; the
  expiry has this outcome, as does the loop with any more fuel; and if it is neither an error nor a panic,
  every request left is one whose deadline is still to come.\<close>

theorem expiry_ends:
  assumes "mono (wd_instant W)" "now = wd_instant W (cn_asked c)" "c' = c\<lparr>cn_asked := Suc (cn_asked c)\<rparr>"
  shows "\<exists>k out. k \<le> length (cn_txn_requests c) \<and> expires W now k c' out \<and>
    (\<forall>j other. expires W now j c' other \<longrightarrow> j = k \<and> other = out) \<and>
    expire_txn_requests W c = out \<and>
    (\<forall>fuel > length (cn_txn_requests c). expire_requests W now fuel c' = out) \<and>
    (\<forall>c''. out = Some (Inr (), c'') \<longrightarrow> (\<forall>r \<in> set (cn_txn_requests c''). now < txn_deadline r))"
proof -
  let ?d = "length (cn_txn_requests c)"
  have "due_at_most W now ?d c'" using assms by (auto simp: due_at_most_def due_requests_def monoD)
  then obtain k out where out: "k \<le> ?d" "expires W now k c' out" "\<forall>fuel > ?d. expire_requests W now fuel c' = out"
    "\<forall>c''. out = Some (Inr (), c'') \<longrightarrow> due_requests now c'' = 0" using expire_runs by blast
  have "expire_txn_requests W c = expire_requests W now (Suc ?d) c'"
    by (simp add: expire_txn_requests_def bnd_def observe_def step_def gets_def assms(2,3) del: expire_requests.simps)
  then have "expire_txn_requests W c = out" using out(3) by (simp del: expire_requests.simps)
  moreover have "\<forall>c''. out = Some (Inr (), c'') \<longrightarrow> (\<forall>r \<in> set (cn_txn_requests c''). now < txn_deadline r)"
    using out(4) by (auto simp: due_requests_def filter_empty_conv not_le)
  ultimately show ?thesis using out(1-3) expires_determined [OF out(2)] by blast
qed

section \<open>Waiting for the next action\<close>

lemma before_min: "t < (if xs = [] then due else min due (Min (set xs))) \<Longrightarrow> t < due \<and> (\<forall>x \<in> set xs. t < x)" for t :: nat
  by (auto split: if_splits)

lemma nothing_due_on_slots:
  assumes "t < abw_next_due st"
  shows "\<not> reveal_due t st" "rotation_due t st = None \<or> ROTATE_AFTER_SHARES \<le> as_shares_since_activation st"
proof -
  let ?rotation = "if as_tip_rotation_pending st \<or> active_published st then as_held_until st else as_activated_at st + ROTATE_AFTER"
  let ?rotation' = "case next_slot_reveal_at st of None \<Rightarrow> ?rotation | Some u \<Rightarrow> max ?rotation u"
  let ?dues = "List.map_filter due_at (as_slots st)"
  have "t < max (if ?dues = [] then ?rotation' else min ?rotation' (Min (set ?dues))) (as_held_until st)"
    using assms by (simp only: abw_next_due_def Let_def)
  then consider "t < as_held_until st" | "as_held_until st \<le> t" "t < ?rotation'" "\<forall>u \<in> set ?dues. t < u"
    using before_min less_max_iff_disj not_le by metis
  then have "\<not> reveal_due t st \<and> (rotation_due t st = None \<or> ROTATE_AFTER_SHARES \<le> as_shares_since_activation st)"
  proof cases
    case 1
    then show ?thesis by (simp add: reveal_due_def rotation_due_def abw_held_def)
  next
    case 2
    have "\<not> reveal_due t st"
      using 2(3) by (force simp: reveal_due_def is_due_def list_ex_iff List.map_filter_def split: option.splits)
    moreover have "rotation_due t st = None \<or> ROTATE_AFTER_SHARES \<le> as_shares_since_activation st"
      using 2(1,2) by (auto simp: rotation_due_def ROTATE_AFTER_def split: option.splits if_splits)
    ultimately show ?thesis by simp
  qed
  then show "\<not> reveal_due t st" "rotation_due t st = None \<or> ROTATE_AFTER_SHARES \<le> as_shares_since_activation st" by auto
qed

text \<open>C32: A connection that waits for its next frame misses no deadline: at every instant before the wait ends
  no keepalive, no idle limit, no transaction request and no held share's parent hold is due, and, when no
  share is held, neither is a reveal, nor a rotation for the tip, a published key or the slot's age (a rotation
  for the number of shares follows a frame, not a deadline).\<close>

theorem wait_misses_no_deadline:
  assumes "now \<le> t" "t < now + until_next_action c now"
  shows "t < cn_last_send_at c + KEEPALIVE_INTERVAL \<and> t < cn_last_frame_at c + IDLE_TIMEOUT \<and>
    (\<forall>r \<in> set (cn_txn_requests c). t < txn_deadline r) \<and>
    (\<forall>h \<in> set (cn_held c). \<forall>until. parent_hold_until h = Some until \<longrightarrow> t < until) \<and>
    (\<forall>abw. cn_held c = [] \<longrightarrow> abw_of c = Some abw \<longrightarrow> \<not> reveal_due t abw \<and>
      (rotation_due t abw = None \<or> ROTATE_AFTER_SHARES \<le> as_shares_since_activation abw))"
proof -
  let ?base = "min (cn_last_send_at c + KEEPALIVE_INTERVAL) (cn_last_frame_at c + IDLE_TIMEOUT)"
  let ?deadlines = "map txn_deadline (cn_txn_requests c)" and ?untils = "List.map_filter parent_hold_until (cn_held c)"
  let ?due1 = "if ?deadlines = [] then ?base else min ?base (Min (set ?deadlines))"
  let ?due2 = "if ?untils = [] then ?due1 else min ?due1 (Min (set ?untils))"
  let ?due3 = "if cn_held c = [] then (case abw_of c of None \<Rightarrow> ?due2 | Some abw \<Rightarrow> min ?due2 (abw_next_due abw)) else ?due2"
  have "until_next_action c now = ?due3 - now" by (simp only: until_next_action_def Let_def)
  then have t: "t < ?due3" using assms by linarith
  then have 2: "t < ?due2" by (auto split: if_splits option.splits)
  then have 1: "t < ?due1" "\<forall>u \<in> set ?untils. t < u" using before_min by blast+
  then have 0: "t < ?base" "\<forall>d \<in> set ?deadlines. t < d" using before_min by blast+
  have "t < abw_next_due abw" if "cn_held c = []" "abw_of c = Some abw" for abw using t that by simp
  then show ?thesis
    using 0 1(2) nothing_due_on_slots by (force simp: List.map_filter_def)
qed

section \<open>On a run\<close>

definition sample_requests :: "tables server \<Rightarrow> tables connection" where
  "sample_requests S = (connection_new (sample_pool S) sample_policy sample_server 0 0)
     \<lparr>cn_txn_requests := [\<lparr>tq_job_id = 3, tq_generation = 1, tq_sent_at = 0\<rparr>]\<rparr>"

text \<open>A world whose clock stands at the deadline of the request.\<close>

definition late_world :: "tables world" where
  "late_world = sample_world\<lparr>wd_instant := \<lambda>_. TXNS_TIMEOUT\<rparr>"

lemma sample_expiry:
  "\<exists>v. expire_txn_requests late_world (sample_requests S) =
    Some (Inr (), (sample_requests S)\<lparr>cn_asked := 1, cn_txn_requests := [], cn_verifier := v\<rparr>)"
  by (simp add: expire_txn_requests_def sample_requests_def connection_new_def late_world_def sample_world_def act_defs take_request_def
      find_index_def txn_deadline_def set_txns_def release_held_def numeral_2_eq_2 remove_at_def)

theorem expiry_ends_witness:
  "\<forall>S. \<exists>k c''. k \<le> 1 \<and> expires late_world TXNS_TIMEOUT k ((sample_requests S)\<lparr>cn_asked := 1\<rparr>) (Some (Inr (), c'')) \<and>
     cn_txn_requests (sample_requests S) \<noteq> [] \<and> cn_txn_requests c'' = []"
proof
  fix S
  have clock: "mono (wd_instant late_world)" "TXNS_TIMEOUT = wd_instant late_world (cn_asked (sample_requests S))"
    "(sample_requests S)\<lparr>cn_asked := 1\<rparr> = (sample_requests S)\<lparr>cn_asked := Suc (cn_asked (sample_requests S))\<rparr>"
    by (simp_all add: late_world_def mono_def sample_requests_def connection_new_def)
  show "\<exists>k c''. k \<le> 1 \<and> expires late_world TXNS_TIMEOUT k ((sample_requests S)\<lparr>cn_asked := 1\<rparr>) (Some (Inr (), c'')) \<and>
     cn_txn_requests (sample_requests S) \<noteq> [] \<and> cn_txn_requests c'' = []"
  proof -
    obtain v where v: "expire_txn_requests late_world (sample_requests S) =
        Some (Inr (), (sample_requests S)\<lparr>cn_asked := 1, cn_txn_requests := [], cn_verifier := v\<rparr>)" using sample_expiry by blast
    obtain k out where k: "k \<le> length (cn_txn_requests (sample_requests S))"
      "expires late_world TXNS_TIMEOUT k ((sample_requests S)\<lparr>cn_asked := 1\<rparr>) out"
      "expire_txn_requests late_world (sample_requests S) = out" using expiry_ends [OF clock] by blast
    moreover have "cn_txn_requests (sample_requests S) \<noteq> []" "length (cn_txn_requests (sample_requests S)) = 1"
      by (simp_all add: sample_requests_def)
    ultimately show ?thesis
      using v by (intro exI [of _ k] exI [of _ "(sample_requests S)\<lparr>cn_asked := 1, cn_txn_requests := [], cn_verifier := v\<rparr>"]) simp
  qed
qed

theorem wait_misses_no_deadline_witness:
  "\<forall>S. cn_txn_requests (sample_requests S) \<noteq> [] \<and>
     list_all (\<lambda>r. 15000 < txn_deadline r) (cn_txn_requests (sample_requests S))"
proof (intro allI)
  fix S
  have "15000 < 0 + until_next_action (sample_requests S) 0"
    by (simp add: until_next_action_def sample_requests_def connection_new_def KEEPALIVE_INTERVAL_def IDLE_TIMEOUT_def
        txn_deadline_def TXNS_TIMEOUT_def List.map_filter_def abw_of_def Let_def)
  from wait_misses_no_deadline [OF _ this] show "cn_txn_requests (sample_requests S) \<noteq> [] \<and>
      list_all (\<lambda>r. 15000 < txn_deadline r) (cn_txn_requests (sample_requests S))"
    by (simp add: list_all_iff) (simp add: sample_requests_def)
qed

end
