(* ===== verification/Job_Table.thy ===== *)
theory Job_Table
  imports Job
begin

text \<open>
  The jobs a gateway serves: \<open>JobTable\<close> of gateway/src/job.rs.

  An \<open>Arc<Job>\<close> is shared by the table, the work being served and the shares in flight, and the one
  field written through it is the flag \<open>stale_prevblock\<close>.  So the jobs live in a store from addresses
  to jobs, and the table holds addresses.  Every operation runs under the table's lock and is one step;
  a job is built outside it, at an address nothing refers to yet.  \<open>now\<close> is the clock \<open>elapsed\<close> reads.
\<close>

section \<open>The table\<close>

type_synonym job_ref = nat
type_synonym job_store = "job_ref \<Rightarrow> job"

record publication =
  pb_job :: job_ref
  pb_kind :: coinbase_kind
  pb_sequence :: u64

record job_table =
  jt_slots :: "job_ref option list"
  jt_current :: "publication option"
  jt_published :: u64
  jt_keep :: nat
  jt_tip :: "bytes option"

definition table_new :: "nat \<Rightarrow> nat \<Rightarrow> job_table" where
  "table_new slots keep =
     \<lparr>jt_slots = replicate slots None, jt_current = None, jt_published = 0, jt_keep = keep, jt_tip = None\<rparr>"

definition table_set_tip :: "bytes \<Rightarrow> job_table \<Rightarrow> job_table" where
  "table_set_tip prev_hash t = t\<lparr>jt_tip := Some prev_hash\<rparr>"

definition prev_of :: "job_store \<Rightarrow> job_ref \<Rightarrow> bytes" where
  "prev_of st r = tp_prev_hash (jb_template (st r))"

text \<open>The loop over the installed jobs that stores the flag.\<close>

fun mark_stale :: "(job_ref \<Rightarrow> bool) \<Rightarrow> job_ref option list \<Rightarrow> job_store \<Rightarrow> job_store" where
  "mark_stale off [] st = st"
| "mark_stale off (None # slots) st = mark_stale off slots st"
| "mark_stale off (Some r # slots) st =
     mark_stale off slots (if off r then st(r := (st r)\<lparr>jb_stale_prevblock := True\<rparr>) else st)"

definition past_keep :: "nat \<Rightarrow> job_store \<Rightarrow> job_table \<Rightarrow> job_ref \<Rightarrow> bool" where
  "past_keep now st t r \<longleftrightarrow> jt_keep t < now - jb_created_at (st r)"

definition table_publish ::
    "nat \<Rightarrow> job_ref \<Rightarrow> coinbase_kind \<Rightarrow> job_store \<times> job_table \<Rightarrow> bool \<times> job_store \<times> job_table" where
  "table_publish now r kind s =
     (let (st, t) = s; prev_hash = prev_of st r in
      if (case jt_tip t of None \<Rightarrow> False | Some tip \<Rightarrow> tip \<noteq> prev_hash) then (False, st, t)
      else
        let st' = mark_stale (\<lambda>other. kind = SubsidyOnly \<or> prev_of st other \<noteq> prev_hash) (jt_slots t) st;
            slots = map (\<lambda>slot. case slot of
              Some held \<Rightarrow> if past_keep now st t held then None else slot | None \<Rightarrow> None) (jt_slots t);
            at = unat (jb_slot (st r));
            slots = (if at < length slots then slots[at := Some r] else slots);
            published = jt_published t + 1
        in (True, st', t\<lparr>jt_slots := slots, jt_published := published,
              jt_current := Some \<lparr>pb_job = r, pb_kind = kind, pb_sequence = published\<rparr>\<rparr>))"

definition mark_stale_off :: "bytes \<Rightarrow> job_store \<times> job_table \<Rightarrow> job_store \<times> job_table" where
  "mark_stale_off prev_hash s =
     (let (st, t) = s in (mark_stale (\<lambda>other. prev_of st other \<noteq> prev_hash) (jt_slots t) st, t))"

definition table_at :: "u8 \<Rightarrow> job_table \<Rightarrow> job_ref option" where
  "table_at slot t = (if unat slot < length (jt_slots t) then jt_slots t ! unat slot else None)"

section \<open>What marking and publishing do\<close>

lemma mark_stale_at:
  "mark_stale off slots st r = (if Some r \<in> set slots \<and> off r then (st r)\<lparr>jb_stale_prevblock := True\<rparr> else st r)"
  by (induction off slots st rule: mark_stale.induct) auto

lemma prev_of_mark [simp]: "prev_of (mark_stale off slots st) = prev_of st"
  by (simp add: fun_eq_iff prev_of_def mark_stale_at)

lemma mark_stale_keeps [simp]:
  "jb_created_at (mark_stale off slots st r) = jb_created_at (st r)"
  "jb_slot (mark_stale off slots st r) = jb_slot (st r)"
  by (simp_all add: mark_stale_at)

definition installed :: "job_table \<Rightarrow> job_ref set" where
  "installed t = {r. Some r \<in> set (jt_slots t)}"

lemma table_at_installed: "table_at slot t = Some r \<Longrightarrow> r \<in> installed t"
  by (auto simp: table_at_def installed_def in_set_conv_nth split: if_splits)

definition live :: "job_store \<Rightarrow> job_table \<Rightarrow> job_ref \<Rightarrow> bool" where
  "live st t r \<longleftrightarrow> r \<in> installed t \<and> \<not> jb_stale_prevblock (st r)"

lemma publish_refused:
  "table_publish now r kind (st, t) = (False, st', t') \<longleftrightarrow>
     (\<exists>tip. jt_tip t = Some tip \<and> tip \<noteq> prev_of st r) \<and> st' = st \<and> t' = t"
  by (auto simp: table_publish_def Let_def split: option.splits)

text \<open>The slots after a publication.\<close>

definition slots_after :: "nat \<Rightarrow> job_ref \<Rightarrow> job_store \<Rightarrow> job_table \<Rightarrow> job_ref option list" where
  "slots_after now r st t =
     (map (\<lambda>slot. case slot of
        Some held \<Rightarrow> if past_keep now st t held then None else slot | None \<Rightarrow> None) (jt_slots t))
       [unat (jb_slot (st r)) := Some r]"

lemma publish_done:
  "table_publish now r kind (st, t) = (True, st', t') \<longleftrightarrow>
     (\<forall>tip. jt_tip t = Some tip \<longrightarrow> tip = prev_of st r) \<and>
     st' = mark_stale (\<lambda>other. kind = SubsidyOnly \<or> prev_of st other \<noteq> prev_of st r) (jt_slots t) st \<and>
     t' = t\<lparr>jt_slots := slots_after now r st t, jt_published := jt_published t + 1,
       jt_current := Some \<lparr>pb_job = r, pb_kind = kind, pb_sequence = jt_published t + 1\<rparr>\<rparr>"
proof -
  have "(if unat (jb_slot (st r)) < length xs then xs[unat (jb_slot (st r)) := Some r] else xs) =
      xs[unat (jb_slot (st r)) := Some r]" for xs :: "job_ref option list"
    by (simp add: list_update_beyond)
  then show ?thesis
    by (auto simp: table_publish_def slots_after_def Let_def split: option.split)
qed

lemma slots_after_installed: "Some x \<in> set (slots_after now r st t) \<Longrightarrow> x = r \<or> x \<in> installed t"
  unfolding slots_after_def installed_def
  by (drule set_mp [OF set_update_subset_insert]) (auto split: option.splits if_splits)

lemma publish_live:
  assumes "table_publish now r kind (st, t) = (True, st', t')" "live st' t' other"
  shows "other = r \<or> live st t other \<and> kind \<noteq> SubsidyOnly \<and> prev_of st other = prev_of st r"
proof -
  have "Some other \<in> set (jt_slots t')" using assms(2) by (simp add: live_def installed_def)
  then have "other = r \<or> other \<in> installed t" using assms(1) slots_after_installed by (simp add: publish_done)
  then show ?thesis
    using assms by (auto simp: live_def mark_stale_at installed_def publish_done split: if_splits)
qed

section \<open>Runs\<close>

text \<open>One step of the table, by any of the threads that share it.  A job is built at an address no part of
  the table refers to; the cache of a job's headers is filled by the connections that notify it.\<close>

inductive table_step :: "nat \<Rightarrow> job_store \<times> job_table \<Rightarrow> job_store \<times> job_table \<Rightarrow> bool" for now where
  build: "r \<notin> installed t \<Longrightarrow> (\<forall>p. jt_current t = Some p \<longrightarrow> pb_job p \<noteq> r) \<Longrightarrow> table_step now (st, t) (st(r := j), t)"
| cache: "table_step now (st, t) (st(r := jb_commitments_update f (st r)), t)"
| tip: "table_step now (st, t) (st, table_set_tip prev t)"
| publish: "table_publish now r kind (st, t) = (published, s') \<Longrightarrow> table_step now (st, t) s'"
| stale_off: "table_step now s (mark_stale_off prev s)"

inductive table_run :: "nat \<Rightarrow> nat \<Rightarrow> nat \<Rightarrow> job_store \<times> job_table \<Rightarrow> bool" for slots keep where
  fresh: "table_run slots keep now (st, table_new slots keep)"
| tick: "table_run slots keep now s \<Longrightarrow> now \<le> later \<Longrightarrow> table_run slots keep later s"
| step: "table_run slots keep now s \<Longrightarrow> table_step now s s' \<Longrightarrow> table_run slots keep now s'"

definition one_tip :: "job_store \<times> job_table \<Rightarrow> bool" where
  "one_tip s \<longleftrightarrow> (\<forall>r. live (fst s) (snd s) r \<longrightarrow>
     (\<exists>p. jt_current (snd s) = Some p \<and> prev_of (fst s) r = prev_of (fst s) (pb_job p)))"

lemma publish_one_tip:
  assumes "one_tip (st, t)" "table_publish now r kind (st, t) = (published, st', t')"
  shows "one_tip (st', t')"
proof (cases published)
  case True
  then have made: "table_publish now r kind (st, t) = (True, st', t')" using assms(2) by simp
  have "\<exists>p. jt_current t' = Some p \<and> prev_of st' other = prev_of st' (pb_job p)" if "live st' t' other" for other
    using publish_live [OF made that] made by (auto simp: publish_done)
  then show ?thesis by (simp add: one_tip_def)
next
  case False
  then have "st' = st" "t' = t" using assms(2) publish_refused by auto
  then show ?thesis using assms(1) by simp
qed

lemma table_step_one_tip: "table_step now s s' \<Longrightarrow> one_tip s \<Longrightarrow> one_tip s'"
proof (induction rule: table_step.induct)
  case (build r t st j)
  then show ?case by (fastforce simp: one_tip_def live_def prev_of_def)
next
  case (cache st t r f)
  then show ?case by (auto simp: one_tip_def live_def prev_of_def)
next
  case (publish r kind st t published s')
  then show ?case by (cases s') (auto intro: publish_one_tip)
next
  case (stale_off s prev)
  then show ?case by (cases s) (auto simp: one_tip_def live_def mark_stale_off_def mark_stale_at split: if_splits)
qed (auto simp: one_tip_def live_def installed_def table_set_tip_def)

lemma table_run_one_tip: "table_run slots keep now s \<Longrightarrow> one_tip s"
proof (induction rule: table_run.induct)
  case (step now s s')
  then show ?case using table_step_one_tip by blast
qed (auto simp: one_tip_def live_def installed_def table_new_def)

text \<open>C12: work is served on one tip.  In every interleaving of the threads that build, publish and refuse
  jobs, the jobs a share can still be credited on all build on the previous block of the work being
  served.  A job on another previous block than the recorded tip is refused and changes nothing; any
  other publication serves the job, in its slot, under a number no earlier publication had, makes every
  creditable job one on its previous block, and, as subsidy-only work, leaves no job before it
  creditable.\<close>

theorem one_tip_is_served:
  assumes "table_run slots keep now (st, t)"
  shows "(\<forall>r. live st t r \<longrightarrow> (\<exists>p. jt_current t = Some p \<and> prev_of st r = prev_of st (pb_job p))) \<and>
    (\<forall>r kind st' t'. table_publish now r kind (st, t) = (False, st', t') \<longleftrightarrow>
       (\<exists>tip. jt_tip t = Some tip \<and> tip \<noteq> prev_of st r) \<and> st' = st \<and> t' = t) \<and>
    (\<forall>r kind st' t'. table_publish now r kind (st, t) = (True, st', t') \<longrightarrow>
       jt_current t' = Some \<lparr>pb_job = r, pb_kind = kind, pb_sequence = jt_published t + 1\<rparr> \<and>
       (unat (jb_slot (st r)) < length (jt_slots t) \<longrightarrow> table_at (jb_slot (st r)) t' = Some r) \<and>
       (\<forall>other. live st' t' other \<longrightarrow> prev_of st' other = prev_of st r \<and> (kind = SubsidyOnly \<longrightarrow> other = r)))"
proof (intro conjI allI impI)
  have "one_tip (st, t)" by (rule table_run_one_tip [OF assms])
  then show "\<exists>p. jt_current t = Some p \<and> prev_of st r = prev_of st (pb_job p)" if "live st t r" for r
    using that by (simp add: one_tip_def)
next
  fix r kind st' t'
  show "table_publish now r kind (st, t) = (False, st', t') \<longleftrightarrow>
      (\<exists>tip. jt_tip t = Some tip \<and> tip \<noteq> prev_of st r) \<and> st' = st \<and> t' = t"
    by (rule publish_refused)
next
  fix r kind st' t' assume made: "table_publish now r kind (st, t) = (True, st', t')"
  show "jt_current t' = Some \<lparr>pb_job = r, pb_kind = kind, pb_sequence = jt_published t + 1\<rparr>"
    using made by (simp add: publish_done)
  show "table_at (jb_slot (st r)) t' = Some r" if "unat (jb_slot (st r)) < length (jt_slots t)"
    using made that by (simp add: publish_done table_at_def slots_after_def)
  fix other assume "live st' t' other"
  with publish_live [OF made this]
  show "prev_of st' other = prev_of st r" "kind = SubsidyOnly \<Longrightarrow> other = r" using made by (auto simp: publish_done)
qed

theorem one_tip_is_served_witness:
  "\<exists>t st' t'. table_run 2 9 5 (\<lambda>_. sample_job (\<lambda>_. []), t) \<and>
     table_publish 5 0 Pooled (\<lambda>_. sample_job (\<lambda>_. []), t) = (True, st', t') \<and>
     jt_current t' = Some \<lparr>pb_job = 0, pb_kind = Pooled, pb_sequence = 1\<rparr>"
proof -
  let ?st = "\<lambda>_ :: job_ref. sample_job (\<lambda>_. [])"
  have run: "table_run 2 9 5 (?st, table_new 2 9)" by (rule table_run.fresh)
  obtain st' t' where made: "table_publish 5 0 Pooled (?st, table_new 2 9) = (True, st', t')"
    by (simp add: publish_done table_new_def)
  show ?thesis
    using one_tip_is_served [OF run] run made by (auto simp: table_new_def intro!: exI [of _ "table_new 2 9"])
qed

end
