(* ===== verification/Replies.thy ===== *)
theory Replies
  imports Job_Table Relay Validation
begin

text \<open>
  What a gateway answers to the pool's job validation requests: gateway/src/datum/validation_replies.rs.

  The node's answer to \<open>getblock\<close> and the decoder of hexadecimal text (the hex crate) are parameters.
  A reply is \<open>None\<close> where the gateway sends nothing; no branch of the module panics, since every index is
  checked first.  \<open>block_request_answered\<close> composes the module with the pool's end: the transactions a
  gateway answers for a job it holds are those the pool checks against the job's branches.
\<close>

section \<open>The replies\<close>

record slot_lookup_failure =
  lf_job_index :: u8
  lf_status :: txn_list_status

datatype node_answer = AnswerString bytes | AnswerOther | AnswerError

record replies_world =
  rw_slots :: nat
  rw_getblock :: "bytes \<Rightarrow> node_answer"
  rw_hex_decode :: "bytes \<Rightarrow> bytes option"
  rw_gateway_pk :: bytes
  rw_pool_pk :: bytes

definition job_slot :: "replies_world \<Rightarrow> job_store \<times> job_table \<Rightarrow> u8 \<Rightarrow> slot_lookup_failure + job" where
  "job_slot W s index =
     (if rw_slots W \<le> unat index then Inl \<lparr>lf_job_index = JOB_INDEX_INVALID, lf_status = BadJobIndex\<rparr>
      else ok_or \<lparr>lf_job_index = index, lf_status = JobEmpty\<rparr> (map_option (fst s) (table_at index (snd s))))"

definition fetch_parent :: "replies_world \<Rightarrow> bytes \<Rightarrow> parent_fetch_status \<times> bytes" where
  "fetch_parent W prev_hash =
     (case rw_getblock W prev_hash of
        AnswerString text \<Rightarrow>
          (case rw_hex_decode W text of
             Some block \<Rightarrow>
               if block \<noteq> [] \<and> length block \<le> MAX_PARENT_FETCH_BLOCK_LEN then (FetchSuccess, block)
               else (RpcFailed, [])
           | None \<Rightarrow> (RpcFailed, []))
      | AnswerOther \<Rightarrow> (RpcFailed, [])
      | AnswerError \<Rightarrow> (FetchUnavailable, []))"

definition short_list_for :: "replies_world \<Rightarrow> job \<Rightarrow> short_txn_list_t" where
  "short_list_for W j =
     (let hashes = template_witness_hashes (jb_template j) in
      if unat MAX_SHORT_LIST_TXNS < length hashes then empty_short_txn_list (jb_slot j) TooManyTxns
      else
        let key = short_id_key (rw_gateway_pk W) (rw_pool_pk W)
        in \<lparr>sl_job_index = jb_slot j, sl_status = ListOk,
            sl_short_ids = map (\<lambda>h. short_id h key) hashes,
            sl_crosscheck = (if hashes = [] then None else Some (crosscheck hashes))\<rparr>)"

fun chunk_ids :: "bytes \<Rightarrow> nat list" where
  "chunk_ids (a # b # rest) = unat (u16_from_le [a, b]) # chunk_ids rest"
| "chunk_ids _ = []"

text \<open>The loop over \<open>listed\<close>: whether every index is in range and listed once.\<close>

fun all_listed_once :: "bool list \<Rightarrow> nat list \<Rightarrow> bool" where
  "all_listed_once listed [] = True"
| "all_listed_once listed (i # ids) =
     (i < length listed \<and> \<not> listed ! i \<and> all_listed_once (listed[i := True]) ids)"

definition requested_ids :: "bytes \<Rightarrow> nat \<Rightarrow> nat list option" where
  "requested_ids plain txn_count =
     (if length plain < REQUEST_HEADER_LEN then None
      else case rd_u16 ''index count'' (rd_new (drop REQUEST_HEADER_LEN plain)) of
        Inl _ \<Rightarrow> None
      | Inr (stated, c) \<Rightarrow>
          if stated = 0 \<or> txn_count < unat stated then None
          else (case rd_take (unat stated * 2) ''indexes'' c of
             Inl _ \<Rightarrow> None
           | Inr (bs, _) \<Rightarrow>
               let ids = chunk_ids bs
               in if all_listed_once (replicate txn_count False) ids then Some ids else None))"

definition txn_list_for :: "slot_lookup_failure + job \<Rightarrow> bytes \<Rightarrow> bool \<Rightarrow> txn_list_t" where
  "txn_list_for lookup plain all =
     (let selector = (if all then RESPONSE_BLOCK_TXNS else RESPONSE_TXNS) in
      case lookup of
        Inl failure \<Rightarrow> empty_txn_list selector (lf_job_index failure) (lf_status failure)
      | Inr j \<Rightarrow>
          let txns = tp_txns (jb_template j);
              ids = (if all then Some [0..<length txns] else requested_ids plain (length txns))
          in (case ids of
            None \<Rightarrow> empty_txn_list selector (jb_slot j) BadRequest
          | Some ids \<Rightarrow>
              if MAX_TXN_LIST_TXN_BYTES < sum_list (map (\<lambda>i. TXN_SIZE_LEN + length (tt_raw (txns ! i))) ids)
              then empty_txn_list selector (jb_slot j) TooManyTxns
              else \<lparr>tl_selector = selector, tl_job_index = jb_slot j, tl_status = ListOk,
                    tl_txns = map (\<lambda>i. tt_raw (txns ! i)) ids\<rparr>))"

definition reply_to :: "replies_world \<Rightarrow> job_store \<times> job_table \<Rightarrow> bytes \<Rightarrow> bytes option" where
  "reply_to W s plain =
     (if length plain \<le> SELECTOR_AT then None
      else
        let sub = plain ! SELECTOR_AT;
            lookup = (if length plain \<le> JOB_INDEX_AT then Inl \<lparr>lf_job_index = JOB_INDEX_INVALID, lf_status = BadRequest\<rparr>
                      else job_slot W s (plain ! JOB_INDEX_AT))
        in if sub = REQUEST_SHORT_TXN_LIST then
             Some (encode_short_txn_list (case lookup of
               Inr j \<Rightarrow> short_list_for W j
             | Inl failure \<Rightarrow> empty_short_txn_list (lf_job_index failure) (lf_status failure)))
           else if sub = REQUEST_TXNS \<or> sub = REQUEST_BLOCK_TXNS then
             Some (encode_txn_list (txn_list_for lookup plain (sub = REQUEST_BLOCK_TXNS)))
           else if sub = REQUEST_PARENT_FETCH then
             (if length plain \<noteq> PARENT_FETCH_REQUEST_LEN then None
              else
                let parent_hash = drop REQUEST_HEADER_LEN plain;
                    (status, block) = (case lookup of
                      Inr j \<Rightarrow> if tp_prev_hash (jb_template j) = parent_hash then fetch_parent W (tp_prev_hash (jb_template j))
                               else (JobMismatch, [])
                    | Inl _ \<Rightarrow> (JobMismatch, []))
                in Some (encode_parent_fetch
                     \<lparr>pf_job_index = plain ! JOB_INDEX_AT, pf_status = status, pf_parent_hash = parent_hash,
                      pf_block = block\<rparr>))
           else None)"

section \<open>Every reply fits a frame\<close>

lemma all_listed_once_iff:
  "all_listed_once listed ids \<longleftrightarrow> distinct ids \<and> (\<forall>i \<in> set ids. i < length listed \<and> \<not> listed ! i)"
  by (induction listed ids rule: all_listed_once.induct) (auto simp: nth_list_update split: if_splits)

text \<open>The indexes a named request is answered for are in range and listed once, so no transaction is
  copied twice.\<close>

lemma requested_ids_valid:
  "requested_ids plain n = Some ids \<Longrightarrow> distinct ids \<and> (\<forall>i \<in> set ids. i < n)"
  by (auto simp: requested_ids_def all_listed_once_iff Let_def split: if_splits sum.splits)

definition all_txns :: "job \<Rightarrow> bytes list" where
  "all_txns j = map tt_raw (tp_txns (jb_template j))"

lemma txn_list_for_all:
  "txn_list_for (Inr j) plain True =
     (if MAX_TXN_LIST_TXN_BYTES < reply_bytes (all_txns j)
      then empty_txn_list RESPONSE_BLOCK_TXNS (jb_slot j) TooManyTxns
      else \<lparr>tl_selector = RESPONSE_BLOCK_TXNS, tl_job_index = jb_slot j, tl_status = ListOk, tl_txns = all_txns j\<rparr>)"
proof -
  have nth: "map (\<lambda>i. f (xs ! i)) [0..<length xs] = map f xs" for f :: "template_txn \<Rightarrow> 'z" and xs
    by (rule nth_equalityI) simp_all
  show ?thesis
    using nth [of tt_raw] nth [of "\<lambda>x. TXN_SIZE_LEN + length (tt_raw x)"]
    by (simp add: txn_list_for_def reply_bytes_def all_txns_def comp_def Let_def)
qed

lemma txn_list_for_bytes: "reply_bytes (tl_txns (txn_list_for lookup plain all)) \<le> MAX_TXN_LIST_TXN_BYTES"
  by (auto simp: txn_list_for_def reply_bytes_def empty_txn_list_def comp_def Let_def split: sum.split option.split)

lemma length_short_ids: "length (concat (map (\<lambda>x. take SHORT_ID_SIZE (put_u64_le (f x))) xs)) = SHORT_ID_SIZE * length xs"
  by (induction xs) (simp_all add: SHORT_ID_SIZE_def)

lemma short_list_fits:
  assumes "\<forall>x \<in> set (tp_txns (jb_template j)). length (tt_witness_hash x) = 32"
  shows "length (encode_short_txn_list (short_list_for W j)) + MAX_MINING_PAD_LEN \<le> MAX_PLAINTEXT_LEN"
proof -
  have "length (crosscheck (template_witness_hashes (jb_template j))) = 32"
    using assms by (intro length_crosscheck) (simp add: template_witness_hashes_def)
  moreover have "unat MAX_SHORT_LIST_TXNS = 16383" by (simp add: MAX_SHORT_LIST_TXNS_def)
  ultimately show ?thesis
    by (auto simp: short_list_for_def empty_short_txn_list_def encode_short_txn_list_def Let_def comp_def
        length_short_ids [unfolded SHORT_ID_SIZE_def, simplified] MAX_PLAINTEXT_LEN_value validation_sizes SHORT_ID_SIZE_def split: option.split)
qed

lemma fetch_parent_bounded: "length (snd (fetch_parent W prev)) \<le> MAX_PARENT_FETCH_BLOCK_LEN"
  by (auto simp: fetch_parent_def split: node_answer.split option.split)

lemma parent_reply_fits:
  assumes "length (pf_parent_hash r) = 32" "length (pf_block r) \<le> MAX_PARENT_FETCH_BLOCK_LEN"
  shows "length (encode_parent_fetch r) + MAX_MINING_PAD_LEN \<le> MAX_PLAINTEXT_LEN"
  using assms
  by (simp add: encode_parent_fetch_def MAX_PARENT_FETCH_BLOCK_LEN_def MAX_PLAINTEXT_LEN_value validation_sizes)

lemma empty_reply_fits: "length (encode_short_txn_list (empty_short_txn_list k status)) + MAX_MINING_PAD_LEN \<le> MAX_PLAINTEXT_LEN"
  by (simp add: encode_short_txn_list_def empty_short_txn_list_def MAX_PLAINTEXT_LEN_value validation_sizes Let_def)

text \<open>Whatever the pool asks, the reply and the pad appended to it are within one frame.\<close>

lemma reply_fits:
  assumes reply: "reply_to W s plain = Some reply"
    and hashes: "\<And>r x. x \<in> set (tp_txns (jb_template (fst s r))) \<Longrightarrow> length (tt_witness_hash x) = 32"
  shows "length reply + MAX_MINING_PAD_LEN \<le> MAX_PLAINTEXT_LEN"
proof -
  have job: "\<exists>r. j = fst s r" if "job_slot W s index = Inr j" for index j
    using that by (auto simp: job_slot_def ok_or_def split: if_splits option.splits)
  have "(\<exists>k status. reply = encode_short_txn_list (empty_short_txn_list k status)) \<or>
      (\<exists>r. reply = encode_short_txn_list (short_list_for W (fst s r))) \<or>
      (\<exists>lookup all. reply = encode_txn_list (txn_list_for lookup plain all)) \<or>
      (\<exists>r. reply = encode_parent_fetch r \<and> length (pf_parent_hash r) = 32 \<and>
         length (pf_block r) \<le> MAX_PARENT_FETCH_BLOCK_LEN)"
  proof (cases "plain ! SELECTOR_AT = REQUEST_PARENT_FETCH")
    case True
    let ?lookup = "job_slot W s (plain ! JOB_INDEX_AT)" and ?parent = "drop REQUEST_HEADER_LEN plain"
    let ?answer = "case ?lookup of
        Inr j \<Rightarrow> if tp_prev_hash (jb_template j) = ?parent then fetch_parent W (tp_prev_hash (jb_template j)) else (JobMismatch, [])
      | Inl _ \<Rightarrow> (JobMismatch, [])"
    have len: "length plain = PARENT_FETCH_REQUEST_LEN"
      using reply True by (auto simp: reply_to_def Let_def validation_codes split: if_splits)
    then have "reply = encode_parent_fetch \<lparr>pf_job_index = plain ! JOB_INDEX_AT, pf_status = fst ?answer,
        pf_parent_hash = ?parent, pf_block = snd ?answer\<rparr>"
      using reply True unfolding reply_to_def Let_def validation_codes validation_sizes
      by (simp add: case_prod_beta)
    moreover have "length ?parent = 32" using len by (simp add: validation_sizes)
    moreover have "length (snd ?answer) \<le> MAX_PARENT_FETCH_BLOCK_LEN"
      by (simp add: fetch_parent_bounded split: sum.split)
    ultimately show ?thesis by (intro disjI2) auto
  next
    case False
    then show ?thesis using reply job by (auto simp: reply_to_def Let_def split: if_splits sum.splits) blast+
  qed
  then show ?thesis
    using empty_reply_fits encode_txn_list_fits [OF txn_list_for_bytes] parent_reply_fits short_list_fits hashes by blast
qed

section \<open>The pool gets the transactions of a job\<close>

lemma txids_all:
  "\<forall>x \<in> set xs. txid sha (tt_raw x) = Inr (tt_txid x) \<Longrightarrow> txids sha i (map tt_raw xs) = Inr (map tt_txid xs)"
  by (induction xs arbitrary: i) auto

lemma built_count:
  "build_job sha c unix_now now i = Some (Inr j) \<Longrightarrow>
     js_txn_count (jb_job_section j) = as_u32 (length (tp_txns (ji_template i)))"
  by (auto simp: build_job_def Let_def bind_eq_Some_conv split: if_splits option.splits prod.splits)

text \<open>The job held in the table is the one built, its flag and its cached headers apart.\<close>

definition same_job :: "job \<Rightarrow> job \<Rightarrow> bool" where
  "same_job j j' \<longleftrightarrow> (\<exists>b cache. j' = j\<lparr>jb_stale_prevblock := b, jb_commitments := cache\<rparr>)"

lemma same_job_refl [simp]: "same_job j j"
  unfolding same_job_def by (intro exI [of _ "jb_stale_prevblock j"] exI [of _ "jb_commitments j"]) simp

lemma same_job_sel:
  assumes "same_job j j'"
  shows "jb_template j' = jb_template j" "jb_slot j' = jb_slot j" "all_txns j' = all_txns j"
  using assms by (auto simp: same_job_def all_txns_def)

text \<open>C25: the transactions the pool requests to validate a job's block, or to relay one, are the job's.
  For a job built from the node's template and held in the gateway's table, the gateway answers the
  pool's request by a reply that fits one frame with the most pad a mining message takes, and that the
  pool decodes, whatever pad follows it: to the template's transactions, in order, which pass the
  pool's check against the branches of the job section, or, when they take more bytes than one frame
  carries, to a refusal that says so.\<close>

theorem block_request_answered:
  assumes built: "build_job sha c unix_now now i = Some (Inr j)" "jc_protocol_job_slots c \<le> 256"
    and node: "\<forall>x \<in> set (tp_txns (ji_template i)). txid sha (tt_raw x) = Inr (tt_txid x)"
      "length (tp_txns (ji_template i)) \<le> unat MAX_SHORT_LIST_TXNS"
    and held: "rw_slots W = jc_protocol_job_slots c" "table_at (jb_slot j) t = Some r" "same_job j (st r)"
  shows "\<exists>reply l. reply_to W (st, t) (request_block_txns (jb_slot j)) = Some reply \<and>
    length reply + MAX_MINING_PAD_LEN \<le> MAX_PLAINTEXT_LEN \<and>
    (\<forall>pad. decode_txn_list (reply @ pad) RESPONSE_BLOCK_TXNS = Inr l) \<and> tl_job_index l = jb_slot j \<and>
    (if reply_bytes (map tt_raw (tp_txns (ji_template i))) \<le> MAX_TXN_LIST_TXN_BYTES
     then tl_status l = ListOk \<and> tl_txns l = map tt_raw (tp_txns (ji_template i)) \<and>
       txns_match_job sha (tl_txns l) (js_txn_count (jb_job_section j)) (js_merkle_branches (jb_job_section j)) = Inr ()
     else tl_status l = TooManyTxns)"
proof -
  let ?txns = "tp_txns (ji_template i)" and ?l = "txn_list_for (Inr (st r)) (request_block_txns (jb_slot j)) True"
  obtain template: "jb_template j = ji_template i" "jc_protocol_job_slots c \<noteq> 0"
      "jb_slot j = word_of_nat (unat (ji_serial i) mod jc_protocol_job_slots c)"
    and branches: "merkle_branches sha (map tt_txid ?txns) = Some (js_merkle_branches (jb_job_section j))"
    by (rule build_job_parts [OF built(1)])
  have "unat (ji_serial i) mod jc_protocol_job_slots c < 256"
    using template(2) built(2) by (meson less_le_trans mod_less_divisor neq0_conv)
  then have "unat (jb_slot j) < jc_protocol_job_slots c" using template(2) by (simp add: template(3) unat_of_nat)
  then have "job_slot W (st, t) (jb_slot j) = Inr (st r)"
    using held by (simp add: job_slot_def ok_or_def)
  then have reply: "reply_to W (st, t) (request_block_txns (jb_slot j)) = Some (encode_txn_list ?l)"
    by (simp add: reply_to_def request_block_txns_def validation_codes validation_sizes Let_def)
  have txns: "all_txns (st r) = map tt_raw ?txns" "jb_slot (st r) = jb_slot j"
    using same_job_sel [OF held(3)] by (simp_all add: all_txns_def template(1))
  have few: "length ?txns < 2 ^ 16" using node(2) by (simp add: MAX_SHORT_LIST_TXNS_def)
  have l: "?l = (if MAX_TXN_LIST_TXN_BYTES < reply_bytes (map tt_raw ?txns)
      then empty_txn_list RESPONSE_BLOCK_TXNS (jb_slot j) TooManyTxns
      else \<lparr>tl_selector = RESPONSE_BLOCK_TXNS, tl_job_index = jb_slot j, tl_status = ListOk, tl_txns = map tt_raw ?txns\<rparr>)"
    by (simp add: txn_list_for_all txns)
  have "decode_txn_list (encode_txn_list ?l @ pad) (tl_selector ?l) = Inr ?l" for pad
    by (rule decode_txn_list_encode)
      (use few reply_bytes_fit [of "map tt_raw ?txns"] in
        \<open>auto simp: l txn_list.canonical_def txn_list_from_code_def empty_txn_list_def not_less split: if_splits\<close>)
  moreover have selector: "tl_selector ?l = RESPONSE_BLOCK_TXNS" by (simp add: l empty_txn_list_def)
  ultimately have decoded: "\<forall>pad. decode_txn_list (encode_txn_list ?l @ pad) RESPONSE_BLOCK_TXNS = Inr ?l"
    by (metis (no_types) selector)
  have "txns_match_job sha (map tt_raw ?txns) (js_txn_count (jb_job_section j)) (js_merkle_branches (jb_job_section j)) = Inr ()"
    using few by (simp add: txns_match_job_def built_count [OF built(1)] txids_all [OF node(1)] branches as_u32_def unat_of_nat)
  then have checked: "if reply_bytes (map tt_raw ?txns) \<le> MAX_TXN_LIST_TXN_BYTES
      then tl_status ?l = ListOk \<and> tl_txns ?l = map tt_raw ?txns \<and>
        txns_match_job sha (tl_txns ?l) (js_txn_count (jb_job_section j)) (js_merkle_branches (jb_job_section j)) = Inr ()
      else tl_status ?l = TooManyTxns"
    by (simp add: l empty_txn_list_def)
  have "tl_job_index ?l = jb_slot j" by (simp add: l empty_txn_list_def)
  then show ?thesis
    using reply decoded checked encode_txn_list_fits [OF txn_list_for_bytes] by blast
qed

text \<open>A template of one transaction.\<close>

definition sample_wire :: wire_transaction where
  "sample_wire = coinbase_wire
     \<lparr>ct_version = 1, ct_script_sig_offset = 0, ct_script_sig = [1, 2], ct_sequence = 3,
      ct_outputs = [\<lparr>to_value = 5, to_script_pubkey = [0x51]\<rparr>], ct_lock_time = 0, ct_has_witness = True\<rparr> [[7, 8]]"

definition sample_txn :: template_txn where
  "sample_txn = \<lparr>tt_raw = wire_tx True sample_wire, tt_txid = replicate 32 7, tt_witness_hash = replicate 32 7\<rparr>"

theorem block_request_answered_witness:
  "\<exists>j. build_job any_hash sample_job_config 9 0 (job_inputs_new 261 (sample_template\<lparr>tp_txns := [sample_txn]\<rparr>)) = Some (Inr j) \<and>
    (\<exists>reply. reply_to \<lparr>rw_slots = 256, rw_getblock = \<lambda>_. AnswerError, rw_hex_decode = \<lambda>_. None,
         rw_gateway_pk = [], rw_pool_pk = []\<rparr>
       (\<lambda>_. j, \<lparr>jt_slots = replicate 256 (Some 0), jt_current = None, jt_published = 0, jt_keep = 1, jt_tip = None\<rparr>)
       (request_block_txns (jb_slot j)) = Some reply)"
proof -
  have "merkle_branches any_hash (map tt_txid [sample_txn]) = Some [replicate 32 7]"
    by (simp add: merkle_branches_def merkle_branches_loop.simps next_level_def sample_txn_def)
  then obtain j where j: "build_job any_hash sample_job_config 9 0
      (job_inputs_new 261 (sample_template\<lparr>tp_txns := [sample_txn]\<rparr>)) = Some (Inr j)"
    using sample_build [of any_hash "[sample_txn]"] by (auto simp: MAX_MERKLE_BRANCHES_def)
  let ?t = "\<lparr>jt_slots = replicate 256 (Some 0), jt_current = None, jt_published = 0, jt_keep = 1, jt_tip = None\<rparr>"
    and ?W = "\<lparr>rw_slots = 256, rw_getblock = \<lambda>_. AnswerError, rw_hex_decode = \<lambda>_. None, rw_gateway_pk = [], rw_pool_pk = []\<rparr>"
  have tx: "txid any_hash (tt_raw sample_txn) = Inr (tt_txid sample_txn)"
    by (simp add: sample_txn_def sample_wire_def txid_of_serialization wf_tx_def coinbase_wire_def wf_in_def wf_out_def
        coinbase_input_def sha256d_def)
  have "unat (jb_slot j) < 256" using unsigned_less [of "jb_slot j", where 'a = nat] by simp
  then have "\<exists>reply l. reply_to ?W (\<lambda>_. j, ?t) (request_block_txns (jb_slot j)) = Some reply \<and>
    length reply + MAX_MINING_PAD_LEN \<le> MAX_PLAINTEXT_LEN \<and>
    (\<forall>pad. decode_txn_list (reply @ pad) RESPONSE_BLOCK_TXNS = Inr l) \<and> tl_job_index l = jb_slot j \<and>
    (if reply_bytes (map tt_raw (tp_txns (ji_template (job_inputs_new 261 (sample_template\<lparr>tp_txns := [sample_txn]\<rparr>))))) \<le> MAX_TXN_LIST_TXN_BYTES
     then tl_status l = ListOk \<and> tl_txns l = map tt_raw (tp_txns (ji_template (job_inputs_new 261 (sample_template\<lparr>tp_txns := [sample_txn]\<rparr>)))) \<and>
       txns_match_job any_hash (tl_txns l) (js_txn_count (jb_job_section j)) (js_merkle_branches (jb_job_section j)) = Inr ()
     else tl_status l = TooManyTxns)"
    by (intro block_request_answered [OF j, where r = 0])
      (auto simp: sample_job_config_def job_inputs_new_def tx MAX_SHORT_LIST_TXNS_def table_at_def)
  then show ?thesis using j by blast
qed

end
