(* ===== verification/Vardiff.thy ===== *)
theory Vardiff
  imports Target
begin

text \<open>
  The difficulty of one stratum connection: gateway/src/vardiff.rs.

  Difficulties, counts and milliseconds are \<open>u64\<close> and wrap where the code's operators do: a shift drops
  the bits it moves out, so doubling past \<open>2^63\<close> gives zero.  \<open>Instant\<close>s are milliseconds on a clock that
  is an argument.
\<close>

section \<open>The state and its adjustments\<close>

definition MS_PER_SECOND :: u64 where "MS_PER_SECOND = 1000"
definition MS_PER_MINUTE :: u64 where "MS_PER_MINUTE = MS_PER_SECOND * 60"
definition MIN_SAMPLE_MS :: u64 where "MIN_SAMPLE_MS = MS_PER_SECOND"
definition RATE_TOLERANCE :: u64 where "RATE_TOLERANCE = 2"
definition MIN_QUICKDIFF_SHIFT :: nat where "MIN_QUICKDIFF_SHIFT = 2"
definition MIN_SHARES_TO_DOUBLE :: u64 where "MIN_SHARES_TO_DOUBLE = 16"

definition sat_mul64 :: "u64 \<Rightarrow> u64 \<Rightarrow> u64" where
  "sat_mul64 a b = (if unat a * unat b < 2 ^ 64 then a * b else - 1)"

record notify_difficulty =
  nd_announce :: "u64 option"
  nd_diff :: u64

record vardiff_params =
  vp_min :: u64
  vp_target_shares_min :: u64
  vp_quickdiff_count :: u64
  vp_quickdiff_delta :: u64

record vardiff =
  vd_params :: vardiff_params
  vd_current :: u64
  vd_last_sent :: u64
  vd_quickdiff_active :: bool
  vd_quickdiff_value :: u64
  vd_shares_since_snapshot :: u64
  vd_snapshot_at :: nat

definition vardiff_new :: "vardiff_params \<Rightarrow> nat \<Rightarrow> vardiff" where
  "vardiff_new params now =
     \<lparr>vd_params = params, vd_current = vp_min params, vd_last_sent = 0, vd_quickdiff_active = False,
      vd_quickdiff_value = 0, vd_shares_since_snapshot = 0, vd_snapshot_at = now\<rparr>"

definition reset_snapshot :: "nat \<Rightarrow> vardiff \<Rightarrow> vardiff" where
  "reset_snapshot now v = v\<lparr>vd_shares_since_snapshot := 0, vd_snapshot_at := now\<rparr>"

definition mark_sent :: "vardiff \<Rightarrow> u64 \<times> vardiff" where
  "mark_sent v =
     (let v = (if vd_current v = 0 then v\<lparr>vd_current := vp_min (vd_params v)\<rparr> else v)
      in (vd_current v, v\<lparr>vd_last_sent := vd_current v\<rparr>))"

definition target_ms :: "vardiff \<Rightarrow> u64" where
  "target_ms v = MS_PER_MINUTE div max (vp_target_shares_min (vd_params v)) 1"

definition change_pending :: "vardiff \<Rightarrow> bool" where
  "change_pending v \<longleftrightarrow> vd_current v \<noteq> vd_last_sent v"

definition elapsed_ms :: "nat \<Rightarrow> vardiff \<Rightarrow> u64" where
  "elapsed_ms now v = word_of_nat (now - vd_snapshot_at v)"

definition ms_per_share :: "nat \<Rightarrow> vardiff \<Rightarrow> u64 option" where
  "ms_per_share now v =
     (let n = vd_shares_since_snapshot v; delta = elapsed_ms now v
      in if n = 0 \<or> delta < MIN_SAMPLE_MS then None else Some (max (delta div n) 1))"

definition halve :: "nat \<Rightarrow> vardiff \<Rightarrow> vardiff" where
  "halve now v = reset_snapshot now (v\<lparr>vd_current := max (drop_bit 1 (vd_current v)) (vp_min (vd_params v))\<rparr>)"

definition adjust_to_rate :: "u64 \<Rightarrow> nat \<Rightarrow> vardiff \<Rightarrow> vardiff" where
  "adjust_to_rate ms now v =
     (if target_ms v * RATE_TOLERANCE < ms then halve now v
      else if MIN_SHARES_TO_DOUBLE \<le> vd_shares_since_snapshot v \<and> ms < target_ms v div RATE_TOLERANCE
      then reset_snapshot now (v\<lparr>vd_current := push_bit 1 (vd_current v)\<rparr>)
      else v)"

definition adjust_on_notify :: "nat \<Rightarrow> vardiff \<Rightarrow> vardiff" where
  "adjust_on_notify now v =
     (if change_pending v then v
      else if vd_shares_since_snapshot v = 0 then (if MS_PER_MINUTE < elapsed_ms now v then halve now v else v)
      else case ms_per_share now v of Some ms \<Rightarrow> adjust_to_rate ms now v | None \<Rightarrow> v)"

definition quick_raise :: "u64 \<Rightarrow> nat \<Rightarrow> vardiff \<Rightarrow> vardiff" where
  "quick_raise ms now v =
     (let factor = target_ms v div ms;
          raw = sat_mul64 factor (vd_current v)
      in reset_snapshot now
           (v\<lparr>vd_current := max (max (pow2_floor raw) 1) (push_bit MIN_QUICKDIFF_SHIFT (vd_current v))\<rparr>))"

definition adjust_on_share :: "nat \<Rightarrow> vardiff \<Rightarrow> bool \<times> vardiff" where
  "adjust_on_share now v =
     (if change_pending v \<or> vd_shares_since_snapshot v < vp_quickdiff_count (vd_params v) then (False, v)
      else case ms_per_share now v of
        None \<Rightarrow> (False, v)
      | Some ms \<Rightarrow>
          if \<not> vd_quickdiff_active v \<and> ms < target_ms v div max (vp_quickdiff_delta (vd_params v)) 1
          then (True, quick_raise ms now v)
          else (False, adjust_to_rate ms now v))"

definition on_notify :: "u64 \<Rightarrow> bool \<Rightarrow> nat \<Rightarrow> vardiff \<Rightarrow> notify_difficulty \<times> vardiff" where
  "on_notify least quickdiff now v =
     (let v = (if quickdiff then v else adjust_on_notify now v);
          v = v\<lparr>vd_current := max (vd_current v) least\<rparr>;
          (announce, v) = (if vd_last_sent v \<noteq> vd_current v
             then (let (d, v) = mark_sent v in (Some d, v)) else (None, v));
          v = v\<lparr>vd_quickdiff_active := quickdiff\<rparr>;
          v = (if quickdiff then v\<lparr>vd_quickdiff_value := vd_last_sent v\<rparr> else v)
      in (\<lparr>nd_announce = announce, nd_diff = vd_last_sent v\<rparr>, v))"

definition on_share_accepted :: "nat \<Rightarrow> vardiff \<Rightarrow> bool \<times> vardiff" where
  "on_share_accepted now v =
     adjust_on_share now (v\<lparr>vd_shares_since_snapshot := vd_shares_since_snapshot v + 1\<rparr>)"

section \<open>What a notify serves\<close>

lemma ilog2_0 [simp]: "ilog2 0 = 0"
  by (subst ilog2.simps) simp

lemma ilog2_mono: "m \<le> n \<Longrightarrow> ilog2 m \<le> ilog2 n"
proof (cases "m = 0")
  case False
  assume "m \<le> n"
  with False have "2 ^ ilog2 m < (2 :: nat) ^ Suc (ilog2 n)"
    using ilog2_bounds [of m] ilog2_bounds [of n] by linarith
  then have "ilog2 m < Suc (ilog2 n)" by (rule power_less_imp_less_exp [rotated]) simp
  then show ?thesis by simp
qed simp

lemma floor_log2_mono: "a \<noteq> 0 \<Longrightarrow> a \<le> b \<Longrightarrow> floor_log2 a \<le> floor_log2 b"
  using ilog2_mono [of "unat a" "unat b"] unat_floor_log2 [of a] unat_floor_log2 [of b]
  by (cases "b = 0") (simp_all add: word_le_nat_alt unat_eq_zero)

lemma floor_log2_most: "floor_log2 v \<le> MAX_TARGET_EXPONENT"
proof (cases "v = 0")
  case False
  then have "ilog2 (unat v) < 64" using ilog2_lt [of "unat v" 64] unat_word_lt(4) [of v] by (simp add: unat_gt_0)
  then show ?thesis using False by (simp add: word_le_nat_alt unat_floor_log2 MAX_TARGET_EXPONENT_def)
qed (simp add: floor_log2_def)

lemma floor_log2_ceil: "m \<noteq> 0 \<Longrightarrow> floor_log2 m \<le> floor_log2 (pow2_ceil m)"
proof (cases "checked_next_power_of_two m")
  case None
  assume m: "m \<noteq> 0"
  have "ilog2 (unat (push_bit 63 1 :: u64)) = 63"
    using ilog2_bounds [of "2 ^ 63"] ilog2_lt [of "2 ^ 63" 64] power_less_imp_less_exp [of "2 :: nat" 63]
    by fastforce
  moreover have "ilog2 (unat m) < 64" using m ilog2_lt [of "unat m" 64] unat_word_lt(4) [of m] by (simp add: unat_gt_0)
  moreover have "(push_bit 63 1 :: u64) \<noteq> 0" by simp
  ultimately show ?thesis using m None by (simp add: pow2_ceil_def word_le_nat_alt unat_floor_log2 del: push_bit_of_1)
next
  case (Some p)
  assume "m \<noteq> 0"
  moreover have "m \<le> p" using checked_next_power_of_two_Some [OF Some] by (auto simp: word_le_nat_alt)
  ultimately show ?thesis using Some floor_log2_mono by (simp add: pow2_ceil_def)
qed

lemma pow2_ceil_zero [simp]: "pow2_ceil m = 0 \<longleftrightarrow> m = 0"
  using floor_log2_ceil [of m] checked_next_power_of_two_Some
  by (auto simp: pow2_ceil_def unat_eq_zero split: option.splits) fastforce

text \<open>C21: the work a connection is served under a pool's minimum difficulty is work the pool credits.  In
  every state of the difficulty, whatever the share rate, the minima and the shifts past 64 bits made of
  it, a notify held at the minimum rounded up to a power of two records a difficulty whose target byte
  is within the pool's bounds, announces exactly a difficulty that changed, and leaves no change
  pending; a quickdiff notify records the same difficulty for the shares that name it.\<close>

theorem served_work_meets_minimum:
  assumes "on_notify (pow2_ceil m) quickdiff now v = (nd, v')" "m \<noteq> 0"
  shows "pow2_ceil m \<le> nd_diff nd \<and>
    \<not> (MAX_TARGET_EXPONENT < floor_log2 (nd_diff nd) \<or> floor_log2 (nd_diff nd) < floor_log2 m) \<and>
    nd_announce nd = (if nd_diff nd = vd_last_sent v then None else Some (nd_diff nd)) \<and>
    \<not> change_pending v' \<and> vd_last_sent v' = nd_diff nd \<and>
    (quickdiff \<longrightarrow> vd_quickdiff_value v' = nd_diff nd)"
proof -
  define u where "u = (let v = if quickdiff then v else adjust_on_notify now v in v\<lparr>vd_current := max (vd_current v) (pow2_ceil m)\<rparr>)"
  have least: "pow2_ceil m \<le> vd_current u" by (simp add: u_def Let_def)
  with assms(2) have "vd_current u \<noteq> 0" by (metis pow2_ceil_zero word_le_0_iff)
  moreover have "vd_last_sent u = vd_last_sent v"
    by (auto simp: u_def Let_def adjust_on_notify_def halve_def adjust_to_rate_def reset_snapshot_def split: option.split)
  ultimately have nd: "nd_diff nd = vd_current u" "vd_current v' = vd_current u" "vd_last_sent v' = vd_current u"
    "nd_announce nd = (if vd_current u = vd_last_sent v then None else Some (vd_current u))"
    "quickdiff \<Longrightarrow> vd_quickdiff_value v' = vd_current u"
    using assms(1) by (auto simp: on_notify_def mark_sent_def Let_def u_def split: if_splits)
  have "floor_log2 m \<le> floor_log2 (vd_current u)"
    using floor_log2_ceil [OF assms(2)] floor_log2_mono [OF _ least] assms(2) by (meson order_trans pow2_ceil_zero)
  then show ?thesis using least nd floor_log2_most [of "vd_current u"] by (simp add: change_pending_def not_less)
qed

theorem served_work_meets_minimum_witness:
  "\<exists>nd v'. on_notify (pow2_ceil 3) False 5 (vardiff_new \<lparr>vp_min = 1, vp_target_shares_min = 8,
       vp_quickdiff_count = 8, vp_quickdiff_delta = 8\<rparr> 0) = (nd, v') \<and> pow2_ceil 3 \<le> nd_diff nd"
proof -
  let ?v = "vardiff_new \<lparr>vp_min = 1, vp_target_shares_min = 8, vp_quickdiff_count = 8, vp_quickdiff_delta = 8\<rparr> 0"
  obtain nd v' where r: "on_notify (pow2_ceil 3) False 5 ?v = (nd, v')" by (cases "on_notify (pow2_ceil 3) False 5 ?v")
  from served_work_meets_minimum [OF this] show ?thesis using r by auto
qed

section \<open>Adjustments\<close>

text \<open>A change decided is not changed again before it is announced, and without a share to count nor a
  minute gone the difficulty stands.\<close>

lemma pending_change_kept:
  assumes "change_pending v"
  shows "adjust_on_notify now v = v" "snd (on_share_accepted now v) = v\<lparr>vd_shares_since_snapshot := vd_shares_since_snapshot v + 1\<rparr>"
  using assms by (simp_all add: adjust_on_notify_def on_share_accepted_def adjust_on_share_def change_pending_def)

text \<open>A quick raise at a rate over the target never lowers a difficulty that no shift carries past 64 bits.\<close>

lemma quick_raise_grows:
  assumes "unat (vd_current v) < 2 ^ 62"
  shows "vd_current v \<le> vd_current (quick_raise ms now v)"
proof -
  have "unat (push_bit MIN_QUICKDIFF_SHIFT (vd_current v)) = 4 * unat (vd_current v)"
    using assms by (simp add: MIN_QUICKDIFF_SHIFT_def push_bit_eq_mult unat_word_ariths)
  then have "vd_current v \<le> push_bit MIN_QUICKDIFF_SHIFT (vd_current v)" by (simp add: word_le_nat_alt)
  then show ?thesis by (simp add: quick_raise_def reset_snapshot_def Let_def le_max_iff_disj)
qed

end
