(* ===== verification/Usernames.thy ===== *)
theory Usernames
  imports Address Job
begin

text \<open>
  Stratum usernames: gateway/src/username.rs and \<open>StratumConfig::refuses_username\<close> of
  gateway/src/config.rs.  (\<open>for_wire\<close> is \<open>username_for_wire\<close> of \<open>Job\<close>.)

  The proportions of a modifier are floating-point numbers.  Their type and the operations the
  code applies to them are parameters: zero, the sum, the maximum with zero, the rest \<open>1.0 - sum\<close>, and
  the number of selector values up to a cumulative proportion, \<open>(cumulative * 65536).ceil() as i64\<close>.
\<close>

section \<open>Modifiers\<close>

record 'f modifier_range =
  mr_address :: bytes
  mr_proportion :: 'f

record 'f username_modifier =
  um_name :: bytes
  um_ranges :: "'f modifier_range list"

record 'f float_ops =
  fl_zero :: 'f
  fl_add :: "'f \<Rightarrow> 'f \<Rightarrow> 'f"
  fl_max_zero :: "'f \<Rightarrow> 'f"
  fl_selectors :: "'f \<Rightarrow> int"
  fl_rest :: "'f \<Rightarrow> 'f"

record 'f parsed_username =
  pu_address :: bytes
  pu_worker :: bytes
  pu_modifier :: "'f username_modifier option"

definition TILDE :: u8 where "TILDE = 0x7E"

definition parse_username :: "bytes \<Rightarrow> 'f username_modifier list \<Rightarrow> 'f parsed_username" where
  "parse_username username modifiers =
     (let named = Option.bind (find_index (\<lambda>b. b = TILDE) username) (\<lambda>i.
            map_option (\<lambda>m. (take i username, m)) (List.find (\<lambda>m. um_name m = drop (Suc i) username) modifiers));
          (base, modifier) = (case named of Some (base, m) \<Rightarrow> (base, Some m) | None \<Rightarrow> (username, None));
          (address, worker) = split_address_worker base
      in \<lparr>pu_address = address, pu_worker = worker, pu_modifier = modifier\<rparr>)"

definition username_address_of :: "bytes \<Rightarrow> 'f username_modifier list \<Rightarrow> bytes" where
  "username_address_of username modifiers = pu_address (parse_username username modifiers)"

definition is_payable :: "address_codec \<Rightarrow> bytes \<Rightarrow> 'f username_modifier list \<Rightarrow> bool" where
  "is_payable C username modifiers = address_is_valid C (username_address_of username modifiers) None"

definition refuses_username :: "address_codec \<Rightarrow> bool \<Rightarrow> 'f username_modifier list \<Rightarrow> bytes \<Rightarrow> bool" where
  "refuses_username C require_address_username modifiers username \<longleftrightarrow>
     require_address_username \<and> \<not> is_payable C username modifiers"

definition SELECTOR_MAX :: int where "SELECTOR_MAX = 65535"

definition range_end :: "'f float_ops \<Rightarrow> 'f \<Rightarrow> int" where
  "range_end F cumulative = min (fl_selectors F cumulative - 1) SELECTOR_MAX"

fun select_range :: "'f float_ops \<Rightarrow> int \<Rightarrow> 'f \<Rightarrow> 'f modifier_range list \<Rightarrow> 'f modifier_range option" where
  "select_range F selector cum [] = None"
| "select_range F selector cum (r # rs) =
     (let cum = fl_add F cum (fl_max_zero F (mr_proportion r)) in
      if selector \<le> range_end F cum then Some r else select_range F selector cum rs)"

definition hash_selector :: "bytes \<Rightarrow> int" where
  "hash_selector hash = int (unat (u16_from_le [hash ! 31, hash ! 30]))"

definition apply_modifier ::
    "'f float_ops \<Rightarrow> 'f username_modifier list \<Rightarrow> bytes \<Rightarrow> bytes \<Rightarrow> bytes \<Rightarrow> bytes option" where
  "apply_modifier F modifiers pool_address username hash =
     (let p = parse_username username modifiers in
      map_option (\<lambda>m.
        case select_range F (hash_selector hash) (fl_zero F) (um_ranges m) of
          Some r \<Rightarrow> (if mr_address r = [] then pu_address p else mr_address r) @ pu_worker p
        | None \<Rightarrow> pool_address) (pu_modifier p))"

fun uncovered_from :: "'f float_ops \<Rightarrow> 'f \<Rightarrow> 'f modifier_range list \<Rightarrow> 'f option" where
  "uncovered_from F cum [] = Some (fl_rest F cum)"
| "uncovered_from F cum (r # rs) =
     (let cum = fl_add F cum (mr_proportion r) in
      if SELECTOR_MAX \<le> range_end F cum then None else uncovered_from F cum rs)"

definition uncovered_share :: "'f float_ops \<Rightarrow> 'f username_modifier \<Rightarrow> 'f option" where
  "uncovered_share F m = uncovered_from F (fl_zero F) (um_ranges m)"

section \<open>Who a share is credited to\<close>

lemma select_range_member: "select_range F selector cum rs = Some r \<Longrightarrow> r \<in> set rs"
  by (induction F selector cum rs rule: select_range.induct) (auto simp: Let_def split: if_splits)

text \<open>The configuration's check that a modifier's ranges cover every selector is enough: then no share
  of the modifier falls to the pool's own address.\<close>

lemma covered_selects:
  assumes "uncovered_from F cum rs = None" "selector \<le> SELECTOR_MAX"
    and "\<forall>r \<in> set rs. fl_max_zero F (mr_proportion r) = mr_proportion r"
  shows "\<exists>r. select_range F selector cum rs = Some r"
  using assms by (induction F cum rs rule: uncovered_from.induct) (auto simp: Let_def split: if_splits)

lemma hash_selector_bounds: "0 \<le> hash_selector hash \<and> hash_selector hash \<le> SELECTOR_MAX"
proof -
  have "unat (u16_from_le [hash ! 31, hash ! 30]) < 65536" using unat_word_lt(2) by simp
  then show ?thesis unfolding hash_selector_def SELECTOR_MAX_def by linarith
qed

end
