(* ===== verification/Stratum.thy ===== *)
theory Stratum
  imports Job_Table Usernames Vardiff
begin

text \<open>
  A miner's shares at the gateway: gateway/src/stratum/connection/shares.rs, the notify of
  gateway/src/stratum/connection.rs, gateway/src/seen_shares.rs, gateway/src/tally.rs, the blocks found
  of gateway/src/gateway.rs and gateway/src/submit_block.rs, and the share queue of gateway/src/datum.rs.

  \<open>evaluate\<close> and \<open>on_submit\<close> are a submission that no other thread runs into; \<open>Submissions\<close> takes it apart into
  the steps the other threads run between.  The lines a connection sends are a log of records in place of
  the JSON text, whose byte fields are not yet hexadecimal; a submission's parameters are its strings,
  \<open>None\<close> where one is absent or not a string.  The hex crate is a parameter, and a submission to the nodes
  is an entry of a log.  The array of 256 difficulties indexed by a \<open>u8\<close> is a function.
\<close>

section \<open>The shares seen\<close>

definition MIN_CAPACITY :: nat where "MIN_CAPACITY = 1024"
definition MIN_FREED_PERCENT :: nat where "MIN_FREED_PERCENT = 5"
definition GROWTH_PERCENT :: nat where "GROWTH_PERCENT = 25"

record seen_hashes =
  ss_seen :: "(bytes \<times> nat) list"
  ss_capacity :: nat
  ss_window :: nat

definition seen_new :: "nat \<Rightarrow> nat \<Rightarrow> seen_hashes" where
  "seen_new capacity window = \<lparr>ss_seen = [], ss_capacity = max capacity MIN_CAPACITY, ss_window = window\<rparr>"

definition seen_trim :: "nat \<Rightarrow> seen_hashes \<Rightarrow> seen_hashes" where
  "seen_trim now s =
     (if length (ss_seen s) < ss_capacity s then s
      else
        let kept = filter (\<lambda>(_, created). now - created \<le> ss_window s) (ss_seen s);
            freed = length (ss_seen s) - length kept
        in s\<lparr>ss_seen := kept,
             ss_capacity := (if freed < ss_capacity s * MIN_FREED_PERCENT div 100
               then ss_capacity s + ss_capacity s * GROWTH_PERCENT div 100 else ss_capacity s)\<rparr>)"

definition seen_insert :: "nat \<Rightarrow> bytes \<Rightarrow> nat \<Rightarrow> seen_hashes \<Rightarrow> bool \<times> seen_hashes" where
  "seen_insert now h created s =
     (if map_of (ss_seen s) h \<noteq> None then (False, s)
      else let s = seen_trim now s in (True, s\<lparr>ss_seen := (h, created) # ss_seen s\<rparr>))"

section \<open>Tallies\<close>

definition sat_add64 :: "u64 \<Rightarrow> u64 \<Rightarrow> u64" where
  "sat_add64 a b = (if unat a + unat b < 2 ^ 64 then a + b else - 1)"

record tally_t =
  ta_count :: u64
  ta_diff :: u64

record share_tallies =
  st_accepted :: tally_t
  st_rejected :: tally_t

definition tally_add :: "u64 \<Rightarrow> tally_t \<Rightarrow> tally_t" where
  "tally_add diff t = \<lparr>ta_count = ta_count t + 1, ta_diff = sat_add64 (ta_diff t) diff\<rparr>"

section \<open>The gateway\<close>

definition MAX_FOUND_BLOCKS :: nat where "MAX_FOUND_BLOCKS = 64"

definition first_find :: "bytes \<Rightarrow> bytes list \<Rightarrow> bool \<times> bytes list" where
  "first_find hash found =
     (if hash \<in> set found then (False, found)
      else (True, (if MAX_FOUND_BLOCKS \<le> length found then tl found else found) @ [hash]))"

record 'f stratum_env =
  se_sha :: "bytes \<Rightarrow> bytes"
  se_blake :: "bytes \<Rightarrow> bytes"
  se_hex_decode :: "bytes \<Rightarrow> bytes option"
  se_codec :: address_codec
  se_floats :: "'f float_ops"
  se_stale_window :: nat
  se_require_address_username :: bool
  se_modifiers :: "'f username_modifier list"
  se_pool_address :: bytes

text \<open>\<open>gw_blocks\<close> and \<open>gw_accepted\<close> log what was handed to the nodes and the shares accepted, each with its
  job's creation; nothing reads them.\<close>

record gateway =
  gw_store :: job_store
  gw_table :: job_table
  gw_seen :: seen_hashes
  gw_found :: "bytes list"
  gw_queue :: "queued_share list"
  gw_queue_capacity :: nat
  gw_min_difficulty :: u64
  gw_blocks :: "(bytes \<times> bytes) list"
  gw_accepted :: "(bytes \<times> nat) list"

definition queue_share :: "queued_share \<Rightarrow> gateway \<Rightarrow> gateway" where
  "queue_share s g =
     (if gw_queue_capacity g \<le> length (gw_queue g) then g else g\<lparr>gw_queue := gw_queue g @ [s]\<rparr>)"

definition assemble_block :: "job \<Rightarrow> coinbase_kind \<Rightarrow> u8 \<Rightarrow> bytes \<Rightarrow> bytes option" where
  "assemble_block j kind target_byte header =
     map_option (\<lambda>coinbase.
       serialize_block header coinbase
         (case kind of SubsidyOnly \<Rightarrow> [] | Pooled \<Rightarrow> map tt_raw (tp_txns (jb_template j))))
       (full_coinbase j kind target_byte)"

definition submit_found_block :: "job \<Rightarrow> coinbase_kind \<Rightarrow> u8 \<Rightarrow> bytes \<Rightarrow> bytes \<Rightarrow> gateway \<Rightarrow> gateway" where
  "submit_found_block j kind target_byte header hash g =
     (case assemble_block j kind target_byte header of
        None \<Rightarrow> g
      | Some block \<Rightarrow> g\<lparr>gw_blocks := gw_blocks g @ [(hash, block)]\<rparr>)"

section \<open>Checking a share\<close>

datatype stratum_error =
    UNKNOWN_WORK | STALE_WORK | STALE_PREVBLK | DUPLICATE | HIGH_HASH | UNAUTHORIZED_WORKER | METHOD_NOT_FOUND

record submit_request =
  sr_job :: job_ref
  sr_job_diff :: u64
  sr_notify_id :: notify_id_t
  sr_extranonce :: bytes
  sr_sia_ntime :: bytes
  sr_sia_nonce :: bytes
  sr_miner_username :: bytes

definition check_miner_share ::
    "'f stratum_env \<Rightarrow> nat \<Rightarrow> job \<Rightarrow> bytes \<Rightarrow> u8 \<Rightarrow> bytes \<Rightarrow> seen_hashes \<Rightarrow> (stratum_error + unit) \<times> seen_hashes" where
  "check_miner_share E now j hash target_byte username seen =
     (if jb_stale_prevblock j then (Inl STALE_PREVBLK, seen)
      else if \<not> meets_target hash (target_for_exponent target_byte) then (Inl HIGH_HASH, seen)
      else if se_stale_window E < now - jb_created_at j then (Inl STALE_WORK, seen)
      else
        let (fresh, seen) = seen_insert now hash (jb_created_at j) seen
        in if \<not> fresh then (Inl DUPLICATE, seen)
           else if refuses_username (se_codec E) (se_require_address_username E) (se_modifiers E) username
           then (Inl UNAUTHORIZED_WORKER, seen)
           else (Inr (), seen))"

definition credited_username :: "'f stratum_env \<Rightarrow> submit_request \<Rightarrow> bytes \<Rightarrow> bytes" where
  "credited_username E req hash =
     (case apply_modifier (se_floats E) (se_modifiers E) (se_pool_address E) (sr_miner_username req) hash of
        Some u \<Rightarrow> u | None \<Rightarrow> sr_miner_username req)"

text \<open>The share with its header made: the block it may be, its checks, the queue for the pool and the nodes.\<close>

definition judge_share ::
    "'f stratum_env \<Rightarrow> nat \<Rightarrow> submit_request \<Rightarrow> job \<Rightarrow> block_header_v2 \<Rightarrow> gateway \<Rightarrow> (stratum_error + unit) \<times> gateway" where
  "judge_share E now req j header g =
     (let pre = ni_prefix (sr_notify_id req);
          target_byte = floor_log2 (sr_job_diff req);
          hash = job_raw_pow_hash (se_sha E) (se_blake E) j header;
          is_block = (jb_abw j = None \<and> meets_target hash (jb_block_target j));
          (first, found) = (if is_block then first_find hash (gw_found g) else (False, gw_found g));
          g = g\<lparr>gw_found := found\<rparr>;
          (checked, seen) = check_miner_share E now j hash target_byte (sr_miner_username req) (gw_seen g);
          g = g\<lparr>gw_seen := seen\<rparr>;
          g = (if jb_is_datum_job j \<and> (first \<or> checked = Inr ())
               then queue_share \<lparr>qs_job = j, qs_prefix = pre, qs_is_block = is_block,
                      qs_target_byte = target_byte, qs_header = header,
                      qs_username = credited_username E req hash\<rparr> g
               else g);
          g = (if first then submit_found_block j (prefix_coinbase pre) target_byte (serialize_header header) hash g else g);
          g = (if checked = Inr () then g\<lparr>gw_accepted := (hash, jb_created_at j) # gw_accepted g\<rparr> else g)
      in (checked, g))"

definition evaluate ::
    "'f stratum_env \<Rightarrow> nat \<Rightarrow> submit_request \<Rightarrow> gateway \<Rightarrow> (stratum_error + unit) \<times> gateway" where
  "evaluate E now req g =
     (let (header, j) = job_header_for (se_sha E) (se_blake E) (prefix_coinbase (ni_prefix (sr_notify_id req)))
            (floor_log2 (sr_job_diff req)) (sr_extranonce req) (sr_sia_ntime req) (sr_sia_nonce req)
            (gw_store g (sr_job req));
          g = g\<lparr>gw_store := (gw_store g)(sr_job req := j)\<rparr>
      in case header of
        None \<Rightarrow> (Inl UNKNOWN_WORK, g)
      | Some header \<Rightarrow> judge_share E now req j header g)"

section \<open>A connection\<close>

definition EXTRANONCE1_SIZE :: nat where "EXTRANONCE1_SIZE = HEADER_EXTRANONCE_PAD + 4"
definition EXTRANONCE2_SIZE :: nat where "EXTRANONCE2_SIZE = HEADER_EXTRANONCE_SIZE - EXTRANONCE1_SIZE"
definition SIA_WORD_LEN :: nat where "SIA_WORD_LEN = 4"
definition SIA_WORDS_LEN :: nat where "SIA_WORDS_LEN = 2 * SIA_WORD_LEN"
definition SESSION_ID_XOR :: u32 where "SESSION_ID_XOR = 0xB10CF00D"

text \<open>A line of the connection: the result of a subscription (extranonce1 and the size of extranonce2), a
  difficulty, a job (its id, previous block, coinb1, bits, time and whether work before it is dropped), or
  the answer to a submission.\<close>

datatype stratum_line =
    Subscription bytes nat
  | SetDifficulty u64
  | Notify bytes bytes bytes u32 bytes bool
  | SubmitReply "stratum_error option"

record stratum_client =
  sc_sid :: u32
  sc_subscribed_at :: "nat option"
  sc_vardiff :: vardiff
  sc_job_diffs :: "u8 \<Rightarrow> u64 option"
  sc_sent_sequence :: "u64 option"
  sc_notified_prev_hash :: "bytes option"
  sc_shares :: share_tallies
  sc_last_accepted_at :: "nat option"
  sc_diff_since_window_start :: u64
  sc_current_diff :: u64
  sc_sent :: "stratum_line list"

definition send_line :: "stratum_line \<Rightarrow> stratum_client \<Rightarrow> stratum_client" where
  "send_line line c = c\<lparr>sc_sent := sc_sent c @ [line]\<rparr>"

definition client_sid :: "u64 \<Rightarrow> u32" where
  "client_sid unique_id = ucast unique_id XOR SESSION_ID_XOR"

definition extranonce1 :: "stratum_client \<Rightarrow> bytes" where
  "extranonce1 c = replicate HEADER_EXTRANONCE_PAD 0 @ to_be_bytes_u32 (sc_sid c)"

definition send_difficulty :: "u64 \<Rightarrow> stratum_client \<Rightarrow> stratum_client" where
  "send_difficulty d c = send_line (SetDifficulty d) (c\<lparr>sc_current_diff := d\<rparr>)"

text \<open>\<open>None\<close> is the error of a job with no coinbase for the selection, which ends the connection.\<close>

definition notify ::
    "'f stratum_env \<Rightarrow> nat \<Rightarrow> job_ref \<Rightarrow> notify_prefix \<Rightarrow> bool \<Rightarrow> stratum_client \<times> gateway \<Rightarrow> (stratum_client \<times> gateway) option" where
  "notify E now r pre clean s =
     (let (c, g) = s;
          j = gw_store g r;
          prev_hash = tp_prev_hash (jb_template j);
          clean = (clean \<or> sc_notified_prev_hash c \<noteq> Some prev_hash);
          quickdiff = (pre = Quickdiff);
          least = (if jb_is_datum_job j then gw_min_difficulty g else 0);
          (nd, v) = on_notify least quickdiff now (sc_vardiff c);
          c = c\<lparr>sc_vardiff := v\<rparr>;
          c = (case nd_announce nd of Some d \<Rightarrow> send_difficulty d c | None \<Rightarrow> c);
          c = (if quickdiff then c else c\<lparr>sc_job_diffs := (sc_job_diffs c)(jb_slot j \<mapsto> nd_diff nd)\<rparr>);
          target_byte = floor_log2 (max (nd_diff nd) 1);
          (commitment, j) = commitment (se_sha E) (se_blake E) (prefix_coinbase pre) target_byte j;
          g = g\<lparr>gw_store := (gw_store g)(r := j)\<rparr>
      in map_option (\<lambda>h2c.
           (send_line (Notify (notify_id pre (jb_stratum_job_id j)) (jb_prevblock_hidden j)
              (replicate COINB1_LEADING_ZEROS 0 @ h2_h2 h2c) (share_nbits target_byte) (sia_words 0 0) clean)
              (c\<lparr>sc_notified_prev_hash := Some prev_hash\<rparr>), g)) commitment)"

definition send_job :: "'f stratum_env \<Rightarrow> nat \<Rightarrow> publication \<Rightarrow> stratum_client \<times> gateway \<Rightarrow> (stratum_client \<times> gateway) option" where
  "send_job E now p s =
     (let pre = prefix_of_kind (pb_kind p)
      in notify E now (pb_job p) pre (pre = EmptyWork) (apfst (sc_sent_sequence_update (\<lambda>_. Some (pb_sequence p))) s))"

text \<open>The serve loop's sending of work not yet sent.\<close>

definition send_current :: "'f stratum_env \<Rightarrow> nat \<Rightarrow> stratum_client \<times> gateway \<Rightarrow> (stratum_client \<times> gateway) option" where
  "send_current E now s =
     (case jt_current (gw_table (snd s)) of
        Some p \<Rightarrow> if sc_subscribed_at (fst s) \<noteq> None \<and> sc_sent_sequence (fst s) \<noteq> Some (pb_sequence p) then send_job E now p s else Some s
      | None \<Rightarrow> Some s)"

section \<open>A submission\<close>

definition parse_sia_field :: "'f stratum_env \<Rightarrow> bytes \<Rightarrow> bytes option" where
  "parse_sia_field E s =
     (if length s = 2 * SIA_WORDS_LEN then
        Option.bind (se_hex_decode E s) (\<lambda>b. if length b = SIA_WORDS_LEN then Some b else None)
      else if length s = 2 * SIA_WORD_LEN then
        map_option (\<lambda>n. sia_words (word_of_nat n) 0) (from_str_radix16 32 s)
      else None)"

definition str_param :: "bytes option list \<Rightarrow> nat \<Rightarrow> bytes option" where
  "str_param params i = (if i < length params then params ! i else None)"

definition username_param :: "bytes option list \<Rightarrow> bytes" where
  "username_param params =
     takeWhile (\<lambda>b. b \<noteq> 0) (case str_param params 0 of Some u \<Rightarrow> u | None \<Rightarrow> as_bytes ''NULL'')"

definition served_diff :: "notify_id_t \<Rightarrow> stratum_client \<Rightarrow> u64 option" where
  "served_diff r c =
     (if ni_prefix r = Quickdiff then
        (if 0 < vd_quickdiff_value (sc_vardiff c) then Some (vd_quickdiff_value (sc_vardiff c)) else None)
      else sc_job_diffs c (ni_slot r))"

definition parse_submit :: "'f stratum_env \<Rightarrow> bytes option list \<Rightarrow> stratum_client \<Rightarrow> gateway \<Rightarrow> u64 + submit_request" where
  "parse_submit E params c g =
     (let unknown = vd_last_sent (sc_vardiff c) in
      bindr (ok_or unknown (str_param params 1)) (\<lambda>id_param.
      bindr (ok_or unknown (notify_id_parse id_param)) (\<lambda>(nid, job_id).
      bindr (ok_or unknown (table_at (ni_slot nid) (gw_table g))) (\<lambda>r.
      if str_get (jb_stratum_job_id (gw_store g r)) 0 JOB_ID_TIME_CHARS \<noteq> str_get job_id 0 JOB_ID_TIME_CHARS then Inl unknown
      else bindr (ok_or unknown (served_diff nid c)) (\<lambda>job_diff.
      bindr (ok_or job_diff (str_param params 2)) (\<lambda>en2.
      if length en2 \<noteq> 2 * EXTRANONCE2_SIZE then Inl job_diff
      else bindr (ok_or job_diff (se_hex_decode E en2)) (\<lambda>en2.
      bindr (ok_or job_diff (Option.bind (str_param params 3) (parse_sia_field E))) (\<lambda>sia_ntime.
      bindr (ok_or job_diff (Option.bind (str_param params 4) (parse_sia_field E))) (\<lambda>sia_nonce.
      Inr \<lparr>sr_job = r, sr_job_diff = job_diff, sr_notify_id = nid, sr_extranonce = extranonce1 c @ en2,
           sr_sia_ntime = sia_ntime, sr_sia_nonce = sia_nonce,
           sr_miner_username = username_param params\<rparr>)))))))))"

definition count_accepted ::
    "'f stratum_env \<Rightarrow> nat \<Rightarrow> u64 \<Rightarrow> stratum_client \<times> gateway \<Rightarrow> (stratum_client \<times> gateway) option" where
  "count_accepted E now diff s =
     (let (c, g) = s;
          c = c\<lparr>sc_shares := (sc_shares c)\<lparr>st_accepted := tally_add diff (st_accepted (sc_shares c))\<rparr>,
                sc_last_accepted_at := Some now,
                sc_diff_since_window_start := sat_add64 (sc_diff_since_window_start c) diff\<rparr>;
          (raised, v) = on_share_accepted now (sc_vardiff c);
          c = c\<lparr>sc_vardiff := v\<rparr>
      in if raised then
           (case jt_current (gw_table g) of
              Some p \<Rightarrow> notify E now (pb_job p) Quickdiff True (c, g)
            | None \<Rightarrow> Some (c, g))
         else Some (c, g))"

definition reject_share :: "u64 \<Rightarrow> stratum_error \<Rightarrow> stratum_client \<Rightarrow> stratum_client" where
  "reject_share diff e c =
     send_line (SubmitReply (Some e))
       (c\<lparr>sc_shares := (sc_shares c)\<lparr>st_rejected := tally_add diff (st_rejected (sc_shares c))\<rparr>\<rparr>)"

definition on_submit ::
    "'f stratum_env \<Rightarrow> nat \<Rightarrow> bytes option list \<Rightarrow> stratum_client \<times> gateway \<Rightarrow> (stratum_client \<times> gateway) option" where
  "on_submit E now params s =
     (let (c, g) = s in
      case parse_submit E params c g of
        Inl diff \<Rightarrow> Some (reject_share diff UNKNOWN_WORK c, g)
      | Inr req \<Rightarrow>
          (case evaluate E now req g of
             (Inr _, g) \<Rightarrow> count_accepted E now (sr_job_diff req) (send_line (SubmitReply None) c, g)
           | (Inl e, g) \<Rightarrow> Some (reject_share (sr_job_diff req) e c, g)))"

definition on_subscribe :: "'f stratum_env \<Rightarrow> nat \<Rightarrow> stratum_client \<times> gateway \<Rightarrow> (stratum_client \<times> gateway) option" where
  "on_subscribe E now s =
     (let (c, g) = s;
          subscribed = (sc_subscribed_at c \<noteq> None);
          c = send_line (Subscription (extranonce1 c) EXTRANONCE2_SIZE) c
      in if subscribed then Some (c, g)
         else
           let (d, v) = mark_sent (sc_vardiff c);
               c = send_difficulty d (c\<lparr>sc_vardiff := v\<rparr>);
               c = c\<lparr>sc_subscribed_at := Some now, sc_vardiff := reset_snapshot now (sc_vardiff c)\<rparr>
           in case jt_current (gw_table g) of
                Some p \<Rightarrow> send_job E now p (c, g)
              | None \<Rightarrow> Some (c, g))"

end
