(* ===== verification/Miner_Shares.thy ===== *)
theory Miner_Shares
  imports Stratum
begin

text \<open>
  Lemmas on the gateway's checks of a miner's share: the hashes seen, \<open>evaluate\<close> and its parts when no other
  thread runs in between, and the gateway of one job the examples of the following theories mine on.  How
  a submission interleaves with the other threads is \<open>Submissions\<close>.
\<close>

section \<open>The shares seen\<close>

text \<open>A hash is held, under the creation of the job it was accepted on, for as long as a share on that job
  can still be accepted.\<close>

definition seen_holds :: "nat \<Rightarrow> seen_hashes \<Rightarrow> bytes \<times> nat \<Rightarrow> bool" where
  "seen_holds now s x \<longleftrightarrow> now - snd x \<le> ss_window s \<longrightarrow> map_of (ss_seen s) (fst x) = Some (snd x)"

lemma map_of_filter_kept:
  "map_of xs h = Some c \<Longrightarrow> keep (h, c) \<Longrightarrow> distinct (map fst xs) \<Longrightarrow> map_of (filter keep xs) h = Some c"
  by (induction xs) (auto split: if_splits simp: rev_image_eqI dest: map_of_SomeD)

definition seen_ok :: "nat \<Rightarrow> seen_hashes \<Rightarrow> bool" where
  "seen_ok window s \<longleftrightarrow> distinct (map fst (ss_seen s)) \<and> ss_window s = window"

lemma seen_trim_ok: "seen_ok w s \<Longrightarrow> seen_ok w (seen_trim now s)"
  by (auto simp: seen_ok_def seen_trim_def Let_def distinct_map_filter)

lemma seen_trim_keys: "fst ` set (ss_seen (seen_trim now s)) \<subseteq> fst ` set (ss_seen s)"
  by (auto simp: seen_trim_def Let_def)

lemma seen_trim_holds:
  assumes "seen_ok w s" "seen_holds now s x"
  shows "seen_holds now (seen_trim now s) x"
proof (cases "now - snd x \<le> ss_window s")
  case True
  then have "map_of (ss_seen s) (fst x) = Some (snd x)" using assms(2) by (simp add: seen_holds_def)
  then have "map_of (filter (\<lambda>(_, created). now - created \<le> ss_window s) (ss_seen s)) (fst x) = Some (snd x)"
    using True assms(1) by (intro map_of_filter_kept) (simp_all add: seen_ok_def case_prod_beta)
  then show ?thesis using assms(2) by (simp add: seen_holds_def seen_trim_def Let_def)
qed (simp add: seen_holds_def seen_trim_def Let_def)

lemma seen_insert_ok:
  assumes "seen_ok w s"
  shows "seen_ok w (snd (seen_insert now h created s))"
  using assms seen_trim_ok [OF assms, of now] seen_trim_keys [of now s]
  by (auto simp: seen_insert_def Let_def seen_ok_def map_of_eq_None_iff)

lemma seen_insert_holds:
  assumes "seen_ok w s" "seen_holds now s x"
  shows "seen_holds now (snd (seen_insert now h created s)) x"
proof (cases "map_of (ss_seen s) h")
  case None
  have "ss_window (seen_trim now s) = ss_window s" by (simp add: seen_trim_def Let_def)
  moreover have "h \<noteq> fst x" if "now - snd x \<le> ss_window s" using that None assms(2) by (auto simp: seen_holds_def)
  ultimately show ?thesis
    using None seen_trim_holds [OF assms] by (auto simp: seen_insert_def Let_def seen_holds_def)
qed (simp add: seen_insert_def assms)

lemma seen_insert_fresh:
  assumes "seen_insert now h created s = (True, s')"
  shows "map_of (ss_seen s) h = None" "seen_holds now s' (h, created)"
  using assms by (auto simp: seen_insert_def seen_holds_def Let_def split: if_splits)

lemma seen_holds_later: "seen_holds now s x \<Longrightarrow> now \<le> later \<Longrightarrow> seen_holds later s x"
  by (auto simp: seen_holds_def)

section \<open>Evaluating a share\<close>

lemma job_header_for_cache: "\<exists>f. snd (job_header_for sha blake k tb ext nt nn j) = jb_commitments_update f j"
proof -
  have "j = jb_commitments_update (\<lambda>x. x) j" by simp
  then have "\<exists>f. j = jb_commitments_update f j" by blast
  then show ?thesis
    by (auto simp: job_header_for_def commitment_def Let_def split: prod.splits option.splits)
qed

lemma commitment_cache: "\<exists>f. snd (commitment sha blake k tb j) = jb_commitments_update f j"
  using job_header_for_cache [of sha blake k tb "[]" "[]" "[]" j] by (auto simp: job_header_for_def split: prod.splits)

lemma check_miner_share_accepts:
  "check_miner_share E now j hash tb u seen = (Inr x, seen') \<longleftrightarrow>
     \<not> jb_stale_prevblock j \<and> meets_target hash (target_for_exponent tb) \<and>
     now - jb_created_at j \<le> se_stale_window E \<and> seen_insert now hash (jb_created_at j) seen = (True, seen') \<and>
     \<not> refuses_username (se_codec E) (se_require_address_username E) (se_modifiers E) u"
  by (auto simp: check_miner_share_def Let_def not_less split: prod.split if_splits)

lemma check_miner_share_seen:
  "\<exists>fresh. snd (check_miner_share E now j hash tb u seen) \<in> {seen, snd (seen_insert now hash (jb_created_at j) seen)}"
  by (auto simp: check_miner_share_def Let_def split: prod.split)

lemma queue_share_keeps [simp]:
  "gw_store (queue_share s g) = gw_store g" "gw_table (queue_share s g) = gw_table g"
  "gw_seen (queue_share s g) = gw_seen g" "gw_accepted (queue_share s g) = gw_accepted g"
  "gw_found (queue_share s g) = gw_found g" "gw_blocks (queue_share s g) = gw_blocks g"
  by (simp_all add: queue_share_def)

lemma found_block_keeps [simp]:
  "gw_store (submit_found_block j k tb header hash g) = gw_store g" "gw_table (submit_found_block j k tb header hash g) = gw_table g"
  "gw_seen (submit_found_block j k tb header hash g) = gw_seen g"
  "gw_accepted (submit_found_block j k tb header hash g) = gw_accepted g"
  "gw_found (submit_found_block j k tb header hash g) = gw_found g" "gw_queue (submit_found_block j k tb header hash g) = gw_queue g"
  by (simp_all add: submit_found_block_def split: option.split)

lemma judge_share_parts:
  assumes "judge_share E now req j header g = (res, g')"
    and "hash = job_raw_pow_hash (se_sha E) (se_blake E) j header"
  obtains seen where
    "check_miner_share E now j hash (floor_log2 (sr_job_diff req)) (sr_miner_username req) (gw_seen g) = (res, seen)"
    "gw_store g' = gw_store g" "gw_table g' = gw_table g" "gw_seen g' = seen"
    "gw_accepted g' = (if res = Inr () then (hash, jb_created_at j) # gw_accepted g else gw_accepted g)"
proof -
  obtain c seen where checked: "check_miner_share E now j hash (floor_log2 (sr_job_diff req))
      (sr_miner_username req) (gw_seen g) = (c, seen)" by fastforce
  then show thesis
    using assms(1) by (intro that [of seen]) (auto simp: judge_share_def Let_def assms(2) [symmetric] split: prod.splits)
qed

text \<open>What \<open>evaluate\<close> does to the gateway: the cached header, and then the share is judged, if the header
  is made.\<close>

lemma evaluate_cases:
  assumes "evaluate E now req g = (res, g')"
  obtains (no_header) f where "res = Inl UNKNOWN_WORK"
      "fst (job_header_for (se_sha E) (se_blake E) (prefix_coinbase (ni_prefix (sr_notify_id req)))
         (floor_log2 (sr_job_diff req)) (sr_extranonce req) (sr_sia_ntime req) (sr_sia_nonce req)
         (gw_store g (sr_job req))) = None"
      "g' = g\<lparr>gw_store := (gw_store g)(sr_job req := jb_commitments_update f (gw_store g (sr_job req)))\<rparr>"
  | (judged) f j header where "j = jb_commitments_update f (gw_store g (sr_job req))"
      "fst (job_header_for (se_sha E) (se_blake E) (prefix_coinbase (ni_prefix (sr_notify_id req)))
         (floor_log2 (sr_job_diff req)) (sr_extranonce req) (sr_sia_ntime req) (sr_sia_nonce req)
         (gw_store g (sr_job req))) = Some header"
      "judge_share E now req j header (g\<lparr>gw_store := (gw_store g)(sr_job req := j)\<rparr>) = (res, g')"
proof -
  obtain h j where r: "job_header_for (se_sha E) (se_blake E) (prefix_coinbase (ni_prefix (sr_notify_id req)))
      (floor_log2 (sr_job_diff req)) (sr_extranonce req) (sr_sia_ntime req) (sr_sia_nonce req)
      (gw_store g (sr_job req)) = (h, j)" by fastforce
  then obtain f where f: "j = jb_commitments_update f (gw_store g (sr_job req))" using job_header_for_cache by (metis snd_conv)
  show thesis
  proof (cases h)
    case None
    then show thesis using assms r f by (intro no_header [of f]) (auto simp: evaluate_def)
  next
    case (Some header)
    then show thesis using assms r f by (intro judged [of j f header]) (simp_all add: evaluate_def)
  qed
qed

section \<open>Work sent\<close>

lemma notify_gateway:
  assumes "notify E now r pre clean (c, g) = Some (c', g')"
  shows "\<exists>f. g' = g\<lparr>gw_store := (gw_store g)(r := jb_commitments_update f (gw_store g r))\<rparr>"
proof -
  obtain f where "snd (commitment (se_sha E) (se_blake E) (prefix_coinbase pre)
      (floor_log2 (max (nd_diff (fst (on_notify (if jb_is_datum_job (gw_store g r) then gw_min_difficulty g else 0)
        (pre = Quickdiff) now (sc_vardiff c)))) 1)) (gw_store g r)) = jb_commitments_update f (gw_store g r)"
    using commitment_cache by blast
  then show ?thesis
    using assms by (auto simp: notify_def Let_def split: prod.splits)
qed

lemma parse_submit_request:
  assumes "parse_submit E params c g = Inr req"
  shows "table_at (ni_slot (sr_notify_id req)) (gw_table g) = Some (sr_job req)"
    and "served_diff (sr_notify_id req) c = Some (sr_job_diff req)"
    and "\<exists>id. str_param params 1 = Some id \<and> map_option fst (notify_id_parse id) = Some (sr_notify_id req)"
  using assms by (auto simp: parse_submit_def Let_def elim!: tryq_InrE split: if_splits)

section \<open>A sample\<close>

definition gateway_new :: "'f stratum_env \<Rightarrow> nat \<Rightarrow> nat \<Rightarrow> nat \<Rightarrow> nat \<Rightarrow> job_store \<Rightarrow> gateway" where
  "gateway_new E slots keep capacity queue st =
     \<lparr>gw_store = st, gw_table = table_new slots keep, gw_seen = seen_new capacity (se_stale_window E),
      gw_found = [], gw_queue = [], gw_queue_capacity = queue, gw_min_difficulty = 0, gw_blocks = [],
      gw_accepted = []\<rparr>"

text \<open>A gateway with one job, served and mined on.\<close>

definition sample_env :: "unit stratum_env" where
  "sample_env =
     \<lparr>se_sha = \<lambda>_. replicate 32 4, se_blake = \<lambda>_. replicate 32 0, se_hex_decode = \<lambda>_. Some (replicate 8 0),
      se_codec = toy_codec, se_floats = \<lparr>fl_zero = (), fl_add = \<lambda>_ _. (), fl_max_zero = \<lambda>_. (), fl_selectors = \<lambda>_. 0,
        fl_rest = \<lambda>_. ()\<rparr>,
      se_stale_window = 9, se_require_address_username = False, se_modifiers = [], se_pool_address = []\<rparr>"

definition sample_miner :: stratum_client where
  "sample_miner =
     \<lparr>sc_sid = 1, sc_subscribed_at = Some 0, sc_vardiff = vardiff_new \<lparr>vp_min = 1, vp_target_shares_min = 8, vp_quickdiff_count = 8,
        vp_quickdiff_delta = 8\<rparr> 0, sc_job_diffs = \<lambda>_. Some 1, sc_sent_sequence = None,
      sc_notified_prev_hash = None, sc_shares = \<lparr>st_accepted = \<lparr>ta_count = 0, ta_diff = 0\<rparr>,
        st_rejected = \<lparr>ta_count = 0, ta_diff = 0\<rparr>\<rparr>, sc_last_accepted_at = None,
      sc_diff_since_window_start = 0, sc_current_diff = 1, sc_sent = []\<rparr>"

definition sample_params :: "bytes option list" where
  "sample_params = [Some [], Some (notify_id Plain (stratum_job_id 9 5)), Some (replicate 16 0x30),
     Some (replicate 16 0x30), Some (replicate 16 0x30)]"

definition sample_gateway :: gateway where
  "sample_gateway =
     (let g = gateway_new sample_env 256 9 9 9 (\<lambda>_. sample_job (\<lambda>_. replicate 32 4)); s = (gw_store g, gw_table g);
          (_, st, t) = table_publish 0 0 Pooled s
      in g\<lparr>gw_store := st, gw_table := t\<rparr>)"

lemma sample_gateway_parts:
  "gw_store sample_gateway = (\<lambda>_. sample_job (\<lambda>_. replicate 32 4))"
  "table_at 5 (gw_table sample_gateway) = Some 0"
  "gw_accepted sample_gateway = []" "ss_seen (gw_seen sample_gateway) = []" "ss_capacity (gw_seen sample_gateway) = 1024"
proof -
  let ?st = "\<lambda>_ :: job_ref. sample_job (\<lambda>_. replicate 32 4)"
  let ?g = "gateway_new sample_env 256 9 9 9 ?st"
  have marked: "mark_stale off (replicate n None) st = st" for off n st by (induction n) simp_all
  obtain st t where made: "table_publish 0 0 Pooled (gw_store ?g, gw_table ?g) = (True, st, t)"
    by (simp add: publish_done gateway_new_def table_new_def)
  have g: "sample_gateway = ?g\<lparr>gw_store := st, gw_table := t\<rparr>" by (simp add: sample_gateway_def made Let_def)
  show "gw_store sample_gateway = ?st"
    using made by (simp add: g publish_done gateway_new_def table_new_def marked)
  have "jb_slot (sample_job (\<lambda>_. replicate 32 4)) = 5" by (simp add: sample_job_def)
  then show "table_at 5 (gw_table sample_gateway) = Some 0"
    using made by (simp add: g publish_done gateway_new_def table_new_def table_at_def slots_after_def)
qed (simp_all add: sample_gateway_def gateway_new_def seen_new_def MIN_CAPACITY_def Let_def split: prod.split)

lemma sample_parsed:
  assumes "table_at 5 (gw_table g) = Some 0" "jb_stratum_job_id (gw_store g 0) = stratum_job_id 9 5" "sc_job_diffs c 5 = Some d"
  shows "\<exists>req. parse_submit sample_env sample_params c g = Inr req \<and> sr_job req = 0 \<and>
     sr_job_diff req = d \<and> ni_prefix (sr_notify_id req) = Plain"
  using assms
  by (simp add: parse_submit_def sample_params_def str_param_def notify_id_reads_back served_diff_def
      sample_env_def parse_sia_field_def EXTRANONCE2_SIZE_def EXTRANONCE1_SIZE_def SIA_WORDS_LEN_def
      SIA_WORD_LEN_def share_sizes Let_def)

lemma sample_header_made: "\<exists>h. fst (job_header_for sha blake Pooled tb ext nt nn (sample_job s)) = Some h"
proof -
  have "jb_job_section (sample_job s) = \<lparr>js_prev_hash = replicate 32 1, js_target_byte_index = 1,
        js_nbits = put_u32_le 0x1D00FFFF, js_coinbaser_id = 0, js_height = 9, js_coinbase_value = 5000,
        js_txn_count = 0, js_txn_total_weight = 0, js_txn_total_size = 0, js_txn_total_sigops = 0,
        js_merkle_branches = []\<rparr>"
    "bc_section (job_coinbase (sample_job s) Pooled) = \<lparr>cs_coinbase_id = 1, cs_coinb1 = [1, 0xFF], cs_coinb2 = [3]\<rparr>"
    "jb_commitments (sample_job s) = (\<lambda>_. None)"
    by (simp_all add: sample_job_def job_coinbase_def POOLED_WIRE_ID_def)
  then show ?thesis
    by (simp add: job_header_for_def commitment_def full_coinbase_def job_coinbase_tx_def assemble_section_def
        job_header_def Let_def EXTRANONCE_SIZE_def)
qed

lemma length_target [simp]: "length (target_for_exponent e) = TARGET_BYTES"
  by (simp add: target_for_exponent_def Let_def)

lemma zero_meets [simp]: "meets_target (replicate 32 0) (target_for_exponent e)"
  by (simp add: meets_target_iff target_consts)

end
