(* ===== verification/Submissions.thy ===== *)
theory Submissions
  imports Miner_Shares
begin

text \<open>
  How the submissions of the miners interleave: \<open>on_submit\<close> of gateway/src/stratum/connection/shares.rs with
  every connection on its own thread, beside the threads that build and publish jobs and the pool's session.

  A submission is a sequence of phases, and a step of its thread goes from one to the next: the job is
  looked up under the table's lock, the header made under the job's cache lock, the block noted under its
  lock, the flag \<open>stale_prevblock\<close> loaded, the clock read for the job's age, the hash entered under the lock
  of the hashes seen, the share queued, the block handed to the nodes, and the reply sent.  Between two of
  them any other thread may run and the clock go on.  A job in flight is an \<open>Arc\<close>: its address is not used
  again, and only its flag, which is never cleared, and its cache change.  Run without interference, the
  phases are \<open>evaluate\<close> of \<open>Stratum\<close>.

  What a phase remembers of the lookup and of the load of the flag, and the log of the hashes entered, are
  there for the statements: no step reads them.
\<close>

section \<open>Phases\<close>

record lookup =
  lk_at :: nat
  lk_params :: "bytes option list"
  lk_req :: submit_request
  lk_client :: stratum_client
  lk_store :: job_store
  lk_table :: job_table

type_synonym served = "job_store \<times> job_table"

datatype phase =
    Idle
  | Parsed lookup
  | Headed lookup block_header_v2
  | Searched lookup block_header_v2 bool
  | Unmarked lookup block_header_v2 bool served
  | Aged lookup block_header_v2 bool served nat
  | Checked lookup block_header_v2 bool "stratum_error + unit"
  | Queued lookup block_header_v2 bool "stratum_error + unit"
  | Judged lookup "stratum_error + unit"

text \<open>A hash entered for a share that is accepted: the connection, the lookup, the jobs at the load of the
  flag, the clock read for the job's age and the clock at the entry.\<close>

record acceptance =
  ac_conn :: nat
  ac_lookup :: lookup
  ac_header :: block_header_v2
  ac_hash :: bytes
  ac_created :: nat
  ac_served :: served
  ac_aged_at :: nat
  ac_at :: nat

fun submission_step ::
    "'f stratum_env \<Rightarrow> nat \<Rightarrow> nat \<Rightarrow> phase \<Rightarrow> gateway \<Rightarrow> phase \<times> gateway \<times> acceptance list" where
  "submission_step E now i Idle g = (Idle, g, [])"
| "submission_step E now i (Parsed l) g =
     (let req = lk_req l;
          (header, j) = job_header_for (se_sha E) (se_blake E) (prefix_coinbase (ni_prefix (sr_notify_id req)))
            (floor_log2 (sr_job_diff req)) (sr_extranonce req) (sr_sia_ntime req) (sr_sia_nonce req)
            (gw_store g (sr_job req));
          g = g\<lparr>gw_store := (gw_store g)(sr_job req := j)\<rparr>
      in case header of
        None \<Rightarrow> (Judged l (Inl UNKNOWN_WORK), g, [])
      | Some header \<Rightarrow> (Headed l header, g, []))"
| "submission_step E now i (Headed l header) g =
     (let j = gw_store g (sr_job (lk_req l));
          hash = job_raw_pow_hash (se_sha E) (se_blake E) j header;
          is_block = (jb_abw j = None \<and> meets_target hash (jb_block_target j));
          (first, found) = (if is_block then first_find hash (gw_found g) else (False, gw_found g))
      in (Searched l header first, g\<lparr>gw_found := found\<rparr>, []))"
| "submission_step E now i (Searched l header first) g =
     (let j = gw_store g (sr_job (lk_req l));
          hash = job_raw_pow_hash (se_sha E) (se_blake E) j header
      in if jb_stale_prevblock j then (Checked l header first (Inl STALE_PREVBLK), g, [])
         else if \<not> meets_target hash (target_for_exponent (floor_log2 (sr_job_diff (lk_req l))))
         then (Checked l header first (Inl HIGH_HASH), g, [])
         else (Unmarked l header first (gw_store g, gw_table g), g, []))"
| "submission_step E now i (Unmarked l header first served) g =
     (if se_stale_window E < now - jb_created_at (gw_store g (sr_job (lk_req l)))
      then (Checked l header first (Inl STALE_WORK), g, [])
      else (Aged l header first served now, g, []))"
| "submission_step E now i (Aged l header first served aged_at) g =
     (let j = gw_store g (sr_job (lk_req l));
          hash = job_raw_pow_hash (se_sha E) (se_blake E) j header;
          (fresh, seen) = seen_insert now hash (jb_created_at j) (gw_seen g);
          g = g\<lparr>gw_seen := seen\<rparr>
      in if \<not> fresh then (Checked l header first (Inl DUPLICATE), g, [])
         else if refuses_username (se_codec E) (se_require_address_username E) (se_modifiers E)
           (sr_miner_username (lk_req l))
         then (Checked l header first (Inl UNAUTHORIZED_WORKER), g, [])
         else (Checked l header first (Inr ()), g\<lparr>gw_accepted := (hash, jb_created_at j) # gw_accepted g\<rparr>,
           [\<lparr>ac_conn = i, ac_lookup = l, ac_header = header, ac_hash = hash, ac_created = jb_created_at j,
             ac_served = served, ac_aged_at = aged_at, ac_at = now\<rparr>]))"
| "submission_step E now i (Checked l header first checked) g =
     (let req = lk_req l; j = gw_store g (sr_job req);
          hash = job_raw_pow_hash (se_sha E) (se_blake E) j header;
          is_block = (jb_abw j = None \<and> meets_target hash (jb_block_target j))
      in (Queued l header first checked,
          (if jb_is_datum_job j \<and> (first \<or> checked = Inr ())
           then queue_share \<lparr>qs_job = j, qs_prefix = ni_prefix (sr_notify_id req), qs_is_block = is_block,
                  qs_target_byte = floor_log2 (sr_job_diff req), qs_header = header,
                  qs_username = credited_username E req hash\<rparr> g
           else g), []))"
| "submission_step E now i (Queued l header first checked) g =
     (let req = lk_req l; j = gw_store g (sr_job req);
          hash = job_raw_pow_hash (se_sha E) (se_blake E) j header
      in (Judged l checked,
          (if first then submit_found_block j (prefix_coinbase (ni_prefix (sr_notify_id req)))
             (floor_log2 (sr_job_diff req)) (serialize_header header) hash g else g), []))"
| "submission_step E now i (Judged l res) g = (Judged l res, g, [])"

text \<open>The reply, and what follows an accepted share.\<close>

definition reply_submit ::
    "'f stratum_env \<Rightarrow> nat \<Rightarrow> submit_request \<Rightarrow> stratum_error + unit \<Rightarrow> stratum_client \<times> gateway
       \<Rightarrow> (stratum_client \<times> gateway) option" where
  "reply_submit E now req res s =
     (case res of
        Inr _ \<Rightarrow> count_accepted E now (sr_job_diff req) (send_line (SubmitReply None) (fst s), snd s)
      | Inl e \<Rightarrow> Some (reject_share (sr_job_diff req) e (fst s), snd s))"

text \<open>Without interference the phases are \<open>evaluate\<close>, and the submission is \<open>on_submit\<close>.\<close>

fun uninterrupted :: "'f stratum_env \<Rightarrow> nat \<Rightarrow> nat \<Rightarrow> nat \<Rightarrow> phase \<Rightarrow> gateway \<Rightarrow> phase \<times> gateway" where
  "uninterrupted E now i 0 p g = (p, g)"
| "uninterrupted E now i (Suc n) p g =
     (let (p, g, new) = submission_step E now i p g in uninterrupted E now i n p g)"

section \<open>Runs\<close>

text \<open>A connection as it is accepted.\<close>

definition client_new :: "vardiff_params \<Rightarrow> nat \<Rightarrow> u64 \<Rightarrow> stratum_client" where
  "client_new params now unique_id =
     \<lparr>sc_sid = client_sid unique_id, sc_subscribed_at = None, sc_vardiff = vardiff_new params now,
      sc_job_diffs = \<lambda>_. None, sc_sent_sequence = None, sc_notified_prev_hash = None,
      sc_shares = \<lparr>st_accepted = \<lparr>ta_count = 0, ta_diff = 0\<rparr>, st_rejected = \<lparr>ta_count = 0, ta_diff = 0\<rparr>\<rparr>,
      sc_last_accepted_at = None, sc_diff_since_window_start = 0, sc_current_diff = vp_min params, sc_sent = []\<rparr>"

type_synonym gateway_sys = "gateway \<times> (nat \<Rightarrow> (stratum_client \<times> phase) option) \<times> acceptance list"

fun lookup_of :: "phase \<Rightarrow> lookup option" where
  "lookup_of Idle = None"
| "lookup_of (Parsed l) = Some l"
| "lookup_of (Headed l h) = Some l"
| "lookup_of (Searched l h first) = Some l"
| "lookup_of (Unmarked l h first served) = Some l"
| "lookup_of (Aged l h first served t) = Some l"
| "lookup_of (Checked l h first res) = Some l"
| "lookup_of (Queued l h first res) = Some l"
| "lookup_of (Judged l res) = Some l"

definition in_flight :: "(nat \<Rightarrow> (stratum_client \<times> phase) option) \<Rightarrow> job_ref set" where
  "in_flight conns = {sr_job (lk_req l) | l i c p. conns i = Some (c, p) \<and> lookup_of p = Some l}"

text \<open>One step of one thread: the template thread builds a job, at an address neither the table nor a
  submission refers to, publishes one, moves the tip or marks the jobs off it; the session takes the queue
  and sets the minimum; a connection opens, ends, is answered a subscription, rolls its window, is sent the
  current work, or goes on with a submission.  The answers to \<open>mining.authorize\<close>, \<open>mining.configure\<close> and an
  unknown method change nothing of this state.\<close>

inductive gateway_step :: "'f stratum_env \<Rightarrow> nat \<Rightarrow> gateway_sys \<Rightarrow> gateway_sys \<Rightarrow> bool" for E now where
  build: "r \<notin> installed (gw_table g) \<Longrightarrow> (\<forall>p. jt_current (gw_table g) = Some p \<longrightarrow> pb_job p \<noteq> r) \<Longrightarrow>
    r \<notin> in_flight conns \<Longrightarrow> jb_commitments j = (\<lambda>_. None) \<Longrightarrow>
    gateway_step E now (g, conns, log) (g\<lparr>gw_store := (gw_store g)(r := j)\<rparr>, conns, log)"
| publish: "table_publish now r kind (gw_store g, gw_table g) = (published, st, t) \<Longrightarrow>
    gateway_step E now (g, conns, log) (g\<lparr>gw_store := st, gw_table := t\<rparr>, conns, log)"
| tip: "gateway_step E now (g, conns, log) (g\<lparr>gw_table := table_set_tip prev (gw_table g)\<rparr>, conns, log)"
| stale_off: "mark_stale_off prev (gw_store g, gw_table g) = (st, t) \<Longrightarrow>
    gateway_step E now (g, conns, log) (g\<lparr>gw_store := st, gw_table := t\<rparr>, conns, log)"
| session: "gateway_step E now (g, conns, log) (g\<lparr>gw_queue := q, gw_min_difficulty := m\<rparr>, conns, log)"
| opens: "conns i = None \<Longrightarrow>
    gateway_step E now (g, conns, log) (g, conns(i \<mapsto> (client_new params now unique_id, Idle)), log)"
| ends: "conns i = Some (c, p) \<Longrightarrow> p = Idle \<or> (\<exists>l res. p = Judged l res) \<Longrightarrow>
    gateway_step E now (g, conns, log) (g, conns(i := None), log)"
| subscribe: "conns i = Some (c, Idle) \<Longrightarrow> on_subscribe E now (c, g) = Some (c', g') \<Longrightarrow>
    gateway_step E now (g, conns, log) (g', conns(i \<mapsto> (c', Idle)), log)"
| rolls: "conns i = Some (c, Idle) \<Longrightarrow>
    gateway_step E now (g, conns, log) (g, conns(i \<mapsto> (c\<lparr>sc_diff_since_window_start := 0\<rparr>, Idle)), log)"
| serve: "conns i = Some (c, Idle) \<Longrightarrow> send_current E now (c, g) = Some (c', g') \<Longrightarrow>
    gateway_step E now (g, conns, log) (g', conns(i \<mapsto> (c', Idle)), log)"
| unknown: "conns i = Some (c, Idle) \<Longrightarrow> parse_submit E params c g = Inl diff \<Longrightarrow>
    gateway_step E now (g, conns, log) (g, conns(i \<mapsto> (reject_share diff UNKNOWN_WORK c, Idle)), log)"
| parsed: "conns i = Some (c, Idle) \<Longrightarrow> parse_submit E params c g = Inr req \<Longrightarrow>
    gateway_step E now (g, conns, log)
      (g, conns(i \<mapsto> (c, Parsed \<lparr>lk_at = now, lk_params = params, lk_req = req, lk_client = c, lk_store = gw_store g,
        lk_table = gw_table g\<rparr>)), log)"
| goes_on: "conns i = Some (c, p) \<Longrightarrow> submission_step E now i p g = (p', g', new) \<Longrightarrow>
    gateway_step E now (g, conns, log) (g', conns(i \<mapsto> (c, p')), new @ log)"
| reply: "conns i = Some (c, Judged l res) \<Longrightarrow> reply_submit E now (lk_req l) res (c, g) = Some (c', g') \<Longrightarrow>
    gateway_step E now (g, conns, log) (g', conns(i \<mapsto> (c', Idle)), log)"

inductive gateway_run :: "'f stratum_env \<Rightarrow> nat \<Rightarrow> gateway_sys \<Rightarrow> bool" for E where
  fresh: "(\<forall>r. jb_commitments (st r) = (\<lambda>_. None)) \<Longrightarrow>
    gateway_run E now (gateway_new E slots keep capacity queue st, \<lambda>_. None, [])"
| tick: "gateway_run E now s \<Longrightarrow> now \<le> later \<Longrightarrow> gateway_run E later s"
| step: "gateway_run E now s \<Longrightarrow> gateway_step E now s s' \<Longrightarrow> gateway_run E now s'"

section \<open>Uninterrupted\<close>

lemma judged_stays: "uninterrupted E now i n (Judged l res) g = (Judged l res, g)"
  by (induction n) simp_all

text \<open>What a share's judgement does to the gateway once it is checked.\<close>

definition settle_share ::
    "'f stratum_env \<Rightarrow> submit_request \<Rightarrow> job \<Rightarrow> block_header_v2 \<Rightarrow> bool \<Rightarrow> stratum_error + unit \<Rightarrow> gateway \<Rightarrow> gateway" where
  "settle_share E req j header first checked g =
     (let pre = ni_prefix (sr_notify_id req); target_byte = floor_log2 (sr_job_diff req);
          hash = job_raw_pow_hash (se_sha E) (se_blake E) j header;
          g = (if jb_is_datum_job j \<and> (first \<or> checked = Inr ())
               then queue_share \<lparr>qs_job = j, qs_prefix = pre,
                      qs_is_block = (jb_abw j = None \<and> meets_target hash (jb_block_target j)),
                      qs_target_byte = target_byte, qs_header = header, qs_username = credited_username E req hash\<rparr> g
               else g)
      in if first then submit_found_block j (prefix_coinbase pre) target_byte (serialize_header header) hash g else g)"

lemma settle_share_accepted:
  "(settle_share E req j header first checked g)\<lparr>gw_accepted := a\<rparr> =
   settle_share E req j header first checked (g\<lparr>gw_accepted := a\<rparr>)"
  by (simp add: settle_share_def queue_share_def submit_found_block_def Let_def split: option.split)

lemma judge_share_settles:
  "judge_share E now req j header g =
    (let hash = job_raw_pow_hash (se_sha E) (se_blake E) j header;
         (first, found) = (if jb_abw j = None \<and> meets_target hash (jb_block_target j) then first_find hash (gw_found g)
           else (False, gw_found g));
         (checked, seen) = check_miner_share E now j hash (floor_log2 (sr_job_diff req)) (sr_miner_username req) (gw_seen g);
         g = g\<lparr>gw_found := found, gw_seen := seen\<rparr>
     in (checked, settle_share E req j header first checked
          (if checked = Inr () then g\<lparr>gw_accepted := (hash, jb_created_at j) # gw_accepted g\<rparr> else g)))"
  by (simp add: judge_share_def settle_share_accepted [symmetric] Let_def split: prod.split)
    (simp add: settle_share_def Let_def)

lemma checked_uninterrupted:
  "uninterrupted E now i (Suc (Suc n)) (Checked l header first c) g =
    (Judged l c, settle_share E (lk_req l) (gw_store g (sr_job (lk_req l))) header first c g)"
  by (simp add: settle_share_def judged_stays Let_def)

lemma searched_uninterrupted:
  assumes "check_miner_share E now (gw_store g (sr_job (lk_req l)))
      (job_raw_pow_hash (se_sha E) (se_blake E) (gw_store g (sr_job (lk_req l))) header)
      (floor_log2 (sr_job_diff (lk_req l))) (sr_miner_username (lk_req l)) (gw_seen g) = (c, seen)"
  shows "uninterrupted E now i (Suc (Suc (Suc (Suc (Suc n))))) (Searched l header first) g =
    (Judged l c, settle_share E (lk_req l) (gw_store g (sr_job (lk_req l))) header first c
      (let g = g\<lparr>gw_seen := seen\<rparr> in if c = Inr () then g\<lparr>gw_accepted :=
        (job_raw_pow_hash (se_sha E) (se_blake E) (gw_store g (sr_job (lk_req l))) header,
         jb_created_at (gw_store g (sr_job (lk_req l)))) # gw_accepted g\<rparr> else g))"
proof -
  note unroll = uninterrupted.simps(2) [of E now i _ "Searched l header first"]
    uninterrupted.simps(2) [of E now i _ "Unmarked l header first served" for served]
    uninterrupted.simps(2) [of E now i _ "Aged l header first served t" for served t]
  show ?thesis
    using assms unfolding check_miner_share_def
    by (auto simp: unroll checked_uninterrupted Let_def simp del: uninterrupted.simps(2) split: prod.splits if_splits)
qed

lemma evaluate_uninterrupted:
  assumes "evaluate E now (lk_req l) g = (res, g')"
  shows "uninterrupted E now i 7 (Parsed l) g = (Judged l res, g')"
proof -
  let ?req = "lk_req l"
  obtain h j where r: "job_header_for (se_sha E) (se_blake E) (prefix_coinbase (ni_prefix (sr_notify_id ?req)))
      (floor_log2 (sr_job_diff ?req)) (sr_extranonce ?req) (sr_sia_ntime ?req) (sr_sia_nonce ?req)
      (gw_store g (sr_job ?req)) = (h, j)" by fastforce
  have seven: "7 = Suc (Suc (Suc (Suc (Suc (Suc (Suc 0))))))" by simp
  let ?g = "g\<lparr>gw_store := (gw_store g)(sr_job ?req := j)\<rparr>"
  show ?thesis
  proof (cases h)
    case None
    then show ?thesis using assms unfolding seven by (simp add: evaluate_def r judged_stays)
  next
    case (Some header)
    then have judged: "judge_share E now ?req j header ?g = (res, g')" using assms by (simp add: evaluate_def r)
    let ?hash = "job_raw_pow_hash (se_sha E) (se_blake E) j header"
    obtain first found where f: "(if jb_abw j = None \<and> meets_target ?hash (jb_block_target j) then first_find ?hash (gw_found ?g)
        else (False, gw_found ?g)) = (first, found)" by fastforce
    obtain c seen where c: "check_miner_share E now j ?hash (floor_log2 (sr_job_diff ?req)) (sr_miner_username ?req) (gw_seen g) =
        (c, seen)" by fastforce
    have parts: "res = c" "g' = settle_share E ?req j header first c (let g = ?g\<lparr>gw_found := found, gw_seen := seen\<rparr> in
        if c = Inr () then g\<lparr>gw_accepted := (?hash, jb_created_at j) # gw_accepted g\<rparr> else g)"
      using judged c unfolding judge_share_settles Let_def f by auto
    have stored: "gw_store ?g (sr_job ?req) = j" by simp
    have "submission_step E now i (Parsed l) g = (Headed l header, ?g, [])" using r Some by (simp add: Let_def)
    moreover have "submission_step E now i (Headed l header) ?g = (Searched l header first, ?g\<lparr>gw_found := found\<rparr>, [])"
      using f by (simp only: submission_step.simps Let_def stored prod.case)
    moreover have "uninterrupted E now i (Suc (Suc (Suc (Suc (Suc 0))))) (Searched l header first) (?g\<lparr>gw_found := found\<rparr>) = (Judged l res, g')"
      using searched_uninterrupted [of E now "?g\<lparr>gw_found := found\<rparr>" l header c seen i 0 first] c parts by (simp add: Let_def)
    ultimately show ?thesis
      unfolding seven uninterrupted.simps(2) [of E now i "Suc (Suc (Suc (Suc (Suc (Suc 0)))))"]
        uninterrupted.simps(2) [of E now i "Suc (Suc (Suc (Suc (Suc 0))))"] Let_def by (simp only: prod.case)
  qed
qed

lemma on_submit_uninterrupted:
  "on_submit E now params (c, g) =
    (case parse_submit E params c g of
       Inl diff \<Rightarrow> Some (reject_share diff UNKNOWN_WORK c, g)
     | Inr req \<Rightarrow> (case evaluate E now req g of (res, g) \<Rightarrow> reply_submit E now req res (c, g)))"
  by (simp add: on_submit_def reply_submit_def split: sum.split prod.split)

section \<open>What the steps keep of a job in flight\<close>

text \<open>A job in flight: its flag is not cleared, its cache may change, nothing else does.\<close>

definition evolves :: "job \<Rightarrow> job \<Rightarrow> bool" where
  "evolves j j' \<longleftrightarrow> (\<exists>b cache. j' = j\<lparr>jb_stale_prevblock := jb_stale_prevblock j \<or> b, jb_commitments := cache\<rparr>)"

lemma evolves_refl [simp, intro]: "evolves j j"
  unfolding evolves_def by (intro exI [of _ False] exI [of _ "jb_commitments j"]) simp

lemma evolves_trans: "evolves j j' \<Longrightarrow> evolves j' j'' \<Longrightarrow> evolves j j''"
  unfolding evolves_def by (elim exE, rule_tac x = "b \<or> ba" in exI, rule_tac x = cachea in exI) simp

lemma evolves_cache [simp]: "evolves j (jb_commitments_update f j)"
  unfolding evolves_def by (intro exI [of _ False] exI [of _ "f (jb_commitments j)"]) simp

lemma evolves_stale [simp]: "evolves j (j\<lparr>jb_stale_prevblock := True\<rparr>)"
  unfolding evolves_def by (intro exI [of _ True] exI [of _ "jb_commitments j"]) simp

lemma stale_flag_irrelevant [simp]:
  "fresh_commitment sha blake (j\<lparr>jb_stale_prevblock := b\<rparr>) = fresh_commitment sha blake j"
  "job_raw_pow_hash sha blake (j\<lparr>jb_stale_prevblock := b\<rparr>) = job_raw_pow_hash sha blake j"
  "job_raw_pow_hash sha blake (jb_commitments_update f j) = job_raw_pow_hash sha blake j"
  by (auto simp: fun_eq_iff fresh_commitment_def commitment_def full_coinbase_def job_coinbase_def job_hash_stages_def
      job_raw_pow_hash_def Let_def split: option.splits coinbase_kind.split)

lemma evolves_sel:
  assumes "evolves j j'"
  shows "jb_created_at j' = jb_created_at j" "jb_template j' = jb_template j"
    "job_raw_pow_hash sha blake j' = job_raw_pow_hash sha blake j"
    "fresh_commitment sha blake j' = fresh_commitment sha blake j"
    "jb_stale_prevblock j \<Longrightarrow> jb_stale_prevblock j'"
  using assms by (auto simp: evolves_def)

lemma commitments_ok_stale [simp]: "commitments_ok sha blake (j\<lparr>jb_stale_prevblock := b\<rparr>) = commitments_ok sha blake j"
  by (simp add: commitments_ok_def)

text \<open>The header the fields of a lookup make, by the job's own fields.\<close>

definition header_without_cache :: "'f stratum_env \<Rightarrow> submit_request \<Rightarrow> job \<Rightarrow> block_header_v2 option" where
  "header_without_cache E req j =
     fst (job_header_for (se_sha E) (se_blake E) (prefix_coinbase (ni_prefix (sr_notify_id req)))
       (floor_log2 (sr_job_diff req)) (sr_extranonce req) (sr_sia_ntime req) (sr_sia_nonce req)
       (j\<lparr>jb_commitments := \<lambda>_. None\<rparr>))"

lemma header_fixed:
  assumes "commitments_ok (se_sha E) (se_blake E) j'" "evolves j j'"
    and "job_header_for (se_sha E) (se_blake E) (prefix_coinbase (ni_prefix (sr_notify_id req)))
       (floor_log2 (sr_job_diff req)) (sr_extranonce req) (sr_sia_ntime req) (sr_sia_nonce req) j' = (h, j'')"
  shows "h = header_without_cache E req j" "evolves j' j''" "commitments_ok (se_sha E) (se_blake E) j''"
proof -
  let ?k = "prefix_coinbase (ni_prefix (sr_notify_id req))" and ?tb = "floor_log2 (sr_job_diff req)"
  note made = commitment_fresh [OF assms(1), of ?k ?tb]
  have j'': "j'' = snd (commitment (se_sha E) (se_blake E) ?k ?tb j')"
    and h: "h = map_option (\<lambda>c. set_sia_fields ((h2_header c)\<lparr>hd_extranonce := sr_extranonce req\<rparr>)
      (sr_sia_ntime req) (sr_sia_nonce req)) (fresh_commitment (se_sha E) (se_blake E) j ?k ?tb)"
    using assms(3) made(1) evolves_sel(4) [OF assms(2)] by (auto simp: job_header_for_def split: prod.splits)
  show "evolves j' j''" using made(3) j'' by auto
  show "commitments_ok (se_sha E) (se_blake E) j''" using made(2) j'' by simp
  show "h = header_without_cache E req j"
    by (simp add: h header_without_cache_def job_header_for_def fresh_commitment_def case_prod_beta Let_def)
qed

text \<open>Steps that fill one cache at most.\<close>

definition caches :: "'f stratum_env \<Rightarrow> gateway \<Rightarrow> gateway \<Rightarrow> bool" where
  "caches E g g' \<longleftrightarrow> (\<exists>r j. g' = g\<lparr>gw_store := (gw_store g)(r := j)\<rparr> \<and> evolves (gw_store g r) j \<and>
     (\<exists>f. j = jb_commitments_update f (gw_store g r)) \<and>
     (commitments_ok (se_sha E) (se_blake E) (gw_store g r) \<longrightarrow> commitments_ok (se_sha E) (se_blake E) j))"

definition accepted_lines :: "stratum_client \<Rightarrow> nat" where
  "accepted_lines c = length (filter (\<lambda>line. line = SubmitReply None) (sc_sent c))"

lemma accepted_lines_send [simp]:
  "accepted_lines (send_line line c) = accepted_lines c + (if line = SubmitReply None then 1 else 0)"
  "accepted_lines (send_difficulty d c) = accepted_lines c"
  "accepted_lines (reject_share diff e c) = accepted_lines c"
  "accepted_lines (client_new params now u) = 0"
  by (simp_all add: accepted_lines_def send_line_def send_difficulty_def reject_share_def client_new_def)

lemma accepted_lines_fields [simp]:
  "accepted_lines (c\<lparr>sc_vardiff := v\<rparr>) = accepted_lines c"
  "accepted_lines (c\<lparr>sc_job_diffs := d\<rparr>) = accepted_lines c"
  "accepted_lines (c\<lparr>sc_notified_prev_hash := p\<rparr>) = accepted_lines c"
  "accepted_lines (c\<lparr>sc_shares := t\<rparr>) = accepted_lines c"
  "accepted_lines (c\<lparr>sc_last_accepted_at := a\<rparr>) = accepted_lines c"
  "accepted_lines (c\<lparr>sc_diff_since_window_start := w\<rparr>) = accepted_lines c"
  "accepted_lines (c\<lparr>sc_subscribed_at := a\<rparr>) = accepted_lines c"
  "accepted_lines (sc_sent_sequence_update f c) = accepted_lines c"
  by (simp_all add: accepted_lines_def)

lemma caches_refl [simp]: "caches E g g"
  unfolding caches_def
  by (intro exI [of _ 0] exI [of _ "gw_store g 0"] conjI exI [of _ "\<lambda>x. x"]) simp_all

lemma notify_caches:
  assumes "notify E now r pre clean (c, g) = Some (c', g')"
  shows "caches E g g'" "accepted_lines c' = accepted_lines c"
proof -
  let ?j = "gw_store g r"
  have cached: "caches E g (g\<lparr>gw_store := (gw_store g)(r := snd (commitment (se_sha E) (se_blake E) k tb ?j))\<rparr>)" for k tb
  proof -
    obtain f where "snd (commitment (se_sha E) (se_blake E) k tb ?j) = jb_commitments_update f ?j" using commitment_cache by blast
    then show ?thesis using commitment_fresh(2) unfolding caches_def by (metis evolves_cache)
  qed
  show "caches E g g'"
    using assms cached by (auto simp: notify_def Let_def case_prod_beta)
  show "accepted_lines c' = accepted_lines c"
    using assms by (auto simp: notify_def Let_def case_prod_beta split: option.splits)
qed

lemma send_current_caches:
  assumes "send_current E now (c, g) = Some (c', g')"
  shows "caches E g g'" "accepted_lines c' = accepted_lines c"
  using assms notify_caches
  by (auto simp: send_current_def send_job_def Let_def split: option.splits if_splits) fastforce+

lemma on_subscribe_caches:
  assumes "on_subscribe E now (c, g) = Some (c', g')"
  shows "caches E g g'" "accepted_lines c' = accepted_lines c"
  using assms notify_caches
  by (auto simp: on_subscribe_def send_job_def Let_def split: option.splits if_splits prod.splits) fastforce+

lemma reply_submit_caches:
  assumes "reply_submit E now req res (c, g) = Some (c', g')"
  shows "caches E g g'" "accepted_lines c' = accepted_lines c + (if res = Inr () then 1 else 0)"
  using assms notify_caches
  by (auto simp: reply_submit_def count_accepted_def Let_def split: sum.splits option.splits if_splits prod.splits) fastforce+

section \<open>The invariant\<close>

text \<open>What holds of a submission whose job is looked up, whose header is made, and whose job's flag was not set.\<close>

definition on_served_tip :: "served \<Rightarrow> job_ref \<Rightarrow> bool" where
  "on_served_tip s r \<longleftrightarrow> (\<exists>p. jt_current (snd s) = Some p \<and> prev_of (fst s) r = prev_of (fst s) (pb_job p))"

definition looked_up :: "nat \<Rightarrow> lookup \<Rightarrow> bool" where
  "looked_up now l \<longleftrightarrow> lk_at l \<le> now \<and> one_tip (lk_store l, lk_table l) \<and>
     table_at (ni_slot (sr_notify_id (lk_req l))) (lk_table l) = Some (sr_job (lk_req l)) \<and>
     served_diff (sr_notify_id (lk_req l)) (lk_client l) = Some (sr_job_diff (lk_req l)) \<and>
     (\<exists>id. str_param (lk_params l) 1 = Some id \<and> map_option fst (notify_id_parse id) = Some (sr_notify_id (lk_req l)))"

abbreviation looked_up_job :: "lookup \<Rightarrow> job" where
  "looked_up_job l \<equiv> lk_store l (sr_job (lk_req l))"

definition pending :: "nat \<Rightarrow> gateway \<Rightarrow> lookup \<Rightarrow> bool" where
  "pending now g l \<longleftrightarrow> looked_up now l \<and> evolves (looked_up_job l) (gw_store g (sr_job (lk_req l)))"

abbreviation submitted_hash :: "'f stratum_env \<Rightarrow> lookup \<Rightarrow> block_header_v2 \<Rightarrow> bytes" where
  "submitted_hash E l header \<equiv> job_raw_pow_hash (se_sha E) (se_blake E) (looked_up_job l) header"

definition unmarked :: "'f stratum_env \<Rightarrow> lookup \<Rightarrow> block_header_v2 \<Rightarrow> served \<Rightarrow> bool" where
  "unmarked E l header served \<longleftrightarrow> one_tip served \<and> evolves (looked_up_job l) (fst served (sr_job (lk_req l))) \<and>
     \<not> jb_stale_prevblock (fst served (sr_job (lk_req l))) \<and>
     meets_target (submitted_hash E l header) (target_for_exponent (floor_log2 (sr_job_diff (lk_req l))))"

definition aged :: "'f stratum_env \<Rightarrow> nat \<Rightarrow> lookup \<Rightarrow> nat \<Rightarrow> bool" where
  "aged E now l t \<longleftrightarrow> lk_at l \<le> t \<and> t \<le> now \<and> t - jb_created_at (looked_up_job l) \<le> se_stale_window E"

fun phase_ok :: "'f stratum_env \<Rightarrow> nat \<Rightarrow> gateway \<Rightarrow> phase \<Rightarrow> bool" where
  "phase_ok E now g (Parsed l) = pending now g l"
| "phase_ok E now g (Headed l h) = (pending now g l \<and> header_without_cache E (lk_req l) (looked_up_job l) = Some h)"
| "phase_ok E now g (Searched l h first) = (pending now g l \<and> header_without_cache E (lk_req l) (looked_up_job l) = Some h)"
| "phase_ok E now g (Unmarked l h first served) =
     (pending now g l \<and> header_without_cache E (lk_req l) (looked_up_job l) = Some h \<and> unmarked E l h served)"
| "phase_ok E now g (Aged l h first served t) =
     (pending now g l \<and> header_without_cache E (lk_req l) (looked_up_job l) = Some h \<and> unmarked E l h served \<and> aged E now l t)"
| "phase_ok E now g _ = True"

text \<open>What a log entry says: the submitted id named a slot of the table that held the job, which was live, on
  the tip then served; when the flag was read, later, it was still not set, and the job, if still in the
  table, on the tip then served; the age read after was within the window; the difficulty is the one the
  connection was served that job at; and the header's hash, the hash logged, meets its target.\<close>

definition sound_acceptance :: "'f stratum_env \<Rightarrow> nat \<Rightarrow> acceptance \<Rightarrow> bool" where
  "sound_acceptance E now a \<longleftrightarrow>
     (let l = ac_lookup a; req = lk_req l; r = sr_job req; j = lk_store l r in
      (\<exists>id. str_param (lk_params l) 1 = Some id \<and> map_option fst (notify_id_parse id) = Some (sr_notify_id req)) \<and>
      table_at (ni_slot (sr_notify_id req)) (lk_table l) = Some r \<and>
      live (lk_store l) (lk_table l) r \<and> on_served_tip (lk_store l, lk_table l) r \<and>
      \<not> jb_stale_prevblock (fst (ac_served a) r) \<and> evolves j (fst (ac_served a) r) \<and>
      (r \<in> installed (snd (ac_served a)) \<longrightarrow> on_served_tip (ac_served a) r) \<and>
      lk_at l \<le> ac_aged_at a \<and> ac_aged_at a \<le> ac_at a \<and> ac_at a \<le> now \<and>
      ac_created a = jb_created_at j \<and> ac_aged_at a - jb_created_at j \<le> se_stale_window E \<and>
      served_diff (sr_notify_id req) (lk_client l) = Some (sr_job_diff req) \<and>
      header_without_cache E req j = Some (ac_header a) \<and>
      ac_hash a = job_raw_pow_hash (se_sha E) (se_blake E) j (ac_header a) \<and>
      meets_target (ac_hash a) (target_for_exponent (floor_log2 (sr_job_diff req))) \<and>
      \<not> refuses_username (se_codec E) (se_require_address_username E) (se_modifiers E) (sr_miner_username req))"

text \<open>A hash is logged again for a job of the same creation only once the job's age is past the window.\<close>

definition accepted_once :: "nat \<Rightarrow> acceptance list \<Rightarrow> bool" where
  "accepted_once window log \<longleftrightarrow> (\<forall>later a earlier b. log = later @ a # earlier \<longrightarrow> b \<in> set earlier \<longrightarrow>
     ac_hash b = ac_hash a \<longrightarrow> ac_created b = ac_created a \<longrightarrow> window < ac_at a - ac_created a)"

text \<open>The acceptance of a phase whose reply is still to be sent.\<close>

fun owed_reply :: "phase \<Rightarrow> nat" where
  "owed_reply (Checked l h first res) = (if res = Inr () then 1 else 0)"
| "owed_reply (Queued l h first res) = (if res = Inr () then 1 else 0)"
| "owed_reply (Judged l res) = (if res = Inr () then 1 else 0)"
| "owed_reply _ = 0"

definition sys_ok :: "'f stratum_env \<Rightarrow> nat \<Rightarrow> gateway_sys \<Rightarrow> bool" where
  "sys_ok E now s \<longleftrightarrow> (let (g, conns, log) = s in
     one_tip (gw_store g, gw_table g) \<and> (\<forall>r. commitments_ok (se_sha E) (se_blake E) (gw_store g r)) \<and>
     seen_ok (se_stale_window E) (gw_seen g) \<and>
     (\<forall>a \<in> set log. seen_holds now (gw_seen g) (ac_hash a, ac_created a)) \<and>
     (\<forall>a \<in> set log. sound_acceptance E now a) \<and> accepted_once (se_stale_window E) log \<and>
     (\<forall>i c p. conns i = Some (c, p) \<longrightarrow> phase_ok E now g p \<and>
        accepted_lines c + owed_reply p \<le> length (filter (\<lambda>a. ac_conn a = i) log)))"

lemma sys_okD:
  assumes "sys_ok E now (g, conns, log)"
  shows "one_tip (gw_store g, gw_table g)" "commitments_ok (se_sha E) (se_blake E) (gw_store g r)"
    "seen_ok (se_stale_window E) (gw_seen g)" "a \<in> set log \<Longrightarrow> seen_holds now (gw_seen g) (ac_hash a, ac_created a)"
    "a \<in> set log \<Longrightarrow> sound_acceptance E now a" "accepted_once (se_stale_window E) log"
    "conns i = Some (c, p) \<Longrightarrow> phase_ok E now g p"
    "conns i = Some (c, p) \<Longrightarrow> accepted_lines c + owed_reply p \<le> length (filter (\<lambda>a. ac_conn a = i) log)"
  using assms by (auto simp: sys_ok_def)

lemma sys_okI:
  assumes "one_tip (gw_store g, gw_table g)" "\<And>r. commitments_ok (se_sha E) (se_blake E) (gw_store g r)"
    "seen_ok (se_stale_window E) (gw_seen g)" "\<And>a. a \<in> set log \<Longrightarrow> seen_holds now (gw_seen g) (ac_hash a, ac_created a)"
    "\<And>a. a \<in> set log \<Longrightarrow> sound_acceptance E now a" "accepted_once (se_stale_window E) log"
    "\<And>i c p. conns i = Some (c, p) \<Longrightarrow> phase_ok E now g p"
    "\<And>i c p. conns i = Some (c, p) \<Longrightarrow> accepted_lines c + owed_reply p \<le> length (filter (\<lambda>a. ac_conn a = i) log)"
  shows "sys_ok E now (g, conns, log)"
  using assms by (simp add: sys_ok_def)

lemma phase_ok_moves:
  assumes "phase_ok E now g p" "now \<le> later"
    and "\<And>l. lookup_of p = Some l \<Longrightarrow> evolves (gw_store g (sr_job (lk_req l))) (gw_store g' (sr_job (lk_req l)))"
  shows "phase_ok E later g' p"
proof -
  have "pending later g' l" if "pending now g l" "lookup_of p = Some l" for l
    using that assms(2) evolves_trans assms(3) [OF that(2)] by (auto simp: pending_def looked_up_def)
  moreover have "aged E later l t" if "aged E now l t" for l t using that assms(2) by (auto simp: aged_def)
  ultimately show ?thesis using assms(1) by (cases p) simp_all
qed

lemma sound_acceptance_later: "sound_acceptance E now a \<Longrightarrow> now \<le> later \<Longrightarrow> sound_acceptance E later a"
  by (auto simp: sound_acceptance_def Let_def)

lemma sys_ok_tick:
  assumes "sys_ok E now (g, conns, log)" "now \<le> later"
  shows "sys_ok E later (g, conns, log)"
  by (rule sys_okI)
    (auto intro: sys_okD [OF assms(1)] seen_holds_later [OF sys_okD(4) [OF assms(1)] assms(2)]
      sound_acceptance_later [OF sys_okD(5) [OF assms(1)] assms(2)] phase_ok_moves [OF sys_okD(7) [OF assms(1)] assms(2)])

text \<open>A step that keeps the hashes seen and the log, and lets the jobs in flight evolve.\<close>

lemma sys_ok_moves:
  assumes "sys_ok E now (g, conns, log)" "gw_seen g' = gw_seen g"
    and "one_tip (gw_store g', gw_table g')" "\<And>r. commitments_ok (se_sha E) (se_blake E) (gw_store g' r)"
    and "\<And>r. r \<in> in_flight conns \<Longrightarrow> evolves (gw_store g r) (gw_store g' r)"
  shows "sys_ok E now (g', conns, log)"
proof (rule sys_okI)
  show "phase_ok E now g' p" if "conns i = Some (c, p)" for i c p
  proof (rule phase_ok_moves [OF sys_okD(7) [OF assms(1) that] order_refl])
    fix l assume "lookup_of p = Some l"
    then have "sr_job (lk_req l) \<in> in_flight conns" using that unfolding in_flight_def by blast
    then show "evolves (gw_store g (sr_job (lk_req l))) (gw_store g' (sr_job (lk_req l)))" by (rule assms(5))
  qed
qed (simp_all add: assms(2-4) sys_okD(3-6,8) [OF assms(1)])

lemma sys_ok_conn:
  assumes "sys_ok E now (g, conns, log)" "phase_ok E now g p"
    and "accepted_lines c + owed_reply p \<le> length (filter (\<lambda>a. ac_conn a = i) log)"
  shows "sys_ok E now (g, conns(i \<mapsto> (c, p)), log)"
  using sys_okD [OF assms(1)] assms(2,3) by (intro sys_okI) (auto split: if_splits)

lemma sys_ok_caches:
  assumes "sys_ok E now (g, conns, log)" "caches E g g'"
  shows "sys_ok E now (g', conns, log)"
proof -
  obtain r j f where g': "g' = g\<lparr>gw_store := (gw_store g)(r := j)\<rparr>" "evolves (gw_store g r) j"
    "j = jb_commitments_update f (gw_store g r)" "commitments_ok (se_sha E) (se_blake E) j"
    using assms(2) sys_okD(2) [OF assms(1)] unfolding caches_def by blast
  have "one_tip ((gw_store g)(r := jb_commitments_update f (gw_store g r)), gw_table g)"
    by (rule table_step_one_tip [OF table_step.cache sys_okD(1) [OF assms(1)]])
  then show ?thesis
    using g' sys_okD(2) [OF assms(1)] by (intro sys_ok_moves [OF assms(1)]) auto
qed

section \<open>A submission's step\<close>

lemma mark_stale_evolves [simp]: "evolves (st r) (mark_stale off slots st r)"
  by (simp add: mark_stale_at)

lemma mark_stale_commitments: "commitments_ok sha blake (mark_stale off slots st r) = commitments_ok sha blake (st r)"
  by (simp add: mark_stale_at)

lemma not_live: "one_tip s \<Longrightarrow> r \<in> installed (snd s) \<Longrightarrow> \<not> jb_stale_prevblock (fst s r) \<Longrightarrow> on_served_tip s r"
  by (auto simp: one_tip_def live_def on_served_tip_def)

text \<open>The steps that log nothing: the store changes in one cache at most, the hashes seen only gain.\<close>

lemma seen_step_ok:
  assumes "sys_ok E now (g, conns, log)"
  shows "sys_ok E now (g\<lparr>gw_seen := snd (seen_insert now h created (gw_seen g))\<rparr>, conns, log)"
proof (rule sys_okI)
  show "phase_ok E now (g\<lparr>gw_seen := snd (seen_insert now h created (gw_seen g))\<rparr>) p" if "conns i = Some (c, p)" for i c p
    using phase_ok_moves [OF sys_okD(7) [OF assms that] order_refl] by simp
qed (simp_all add: sys_okD(1-6,8) [OF assms] seen_insert_ok seen_insert_holds [OF sys_okD(3) [OF assms]])

lemma accepted_once_Cons:
  assumes "accepted_once w log"
    and "\<And>b. b \<in> set log \<Longrightarrow> ac_hash b = ac_hash a \<Longrightarrow> ac_created b = ac_created a \<Longrightarrow> w < ac_at a - ac_created a"
  shows "accepted_once w (a # log)"
  unfolding accepted_once_def
proof (intro allI impI)
  fix later x earlier b
  assume split: "a # log = later @ x # earlier" and b: "b \<in> set earlier" "ac_hash b = ac_hash x" "ac_created b = ac_created x"
  show "w < ac_at x - ac_created x"
  proof (cases later)
    case Nil
    then show ?thesis using split b assms(2) by simp
  next
    case (Cons _ later')
    then show ?thesis using split b assms(1) unfolding accepted_once_def by auto
  qed
qed

text \<open>The entry of the hash that makes a share accepted.\<close>

lemma sys_ok_accepts:
  assumes ok: "sys_ok E now (g, conns, log)" and phase: "phase_ok E now g (Aged l h first served t)"
    and j: "j = gw_store g (sr_job (lk_req l))" "hash = job_raw_pow_hash (se_sha E) (se_blake E) j h"
    and fresh: "seen_insert now hash (jb_created_at j) (gw_seen g) = (True, seen)"
    and user: "\<not> refuses_username (se_codec E) (se_require_address_username E) (se_modifiers E) (sr_miner_username (lk_req l))"
    and a: "a = \<lparr>ac_conn = i, ac_lookup = l, ac_header = h, ac_hash = hash, ac_created = jb_created_at j,
      ac_served = served, ac_aged_at = t, ac_at = now\<rparr>"
  shows "sys_ok E now (g\<lparr>gw_seen := seen, gw_accepted := acc\<rparr>, conns, a # log)"
proof -
  let ?r = "sr_job (lk_req l)"
  have seen: "seen = snd (seen_insert now hash (jb_created_at j) (gw_seen g))" using fresh by simp
  note kept = seen_step_ok [OF ok, of hash "jb_created_at j", folded seen]
  have p: "looked_up now l" "evolves (looked_up_job l) (gw_store g ?r)" "unmarked E l h served" "aged E now l t"
    "header_without_cache E (lk_req l) (looked_up_job l) = Some h" using phase by (simp_all add: pending_def)
  note same = evolves_sel [OF p(2)]
  have "\<not> jb_stale_prevblock (looked_up_job l)" using p(3) evolves_sel(5) by (auto simp: unmarked_def)
  moreover have "?r \<in> installed (lk_table l)" using p(1) table_at_installed by (auto simp: looked_up_def)
  ultimately have "live (lk_store l) (lk_table l) ?r" "on_served_tip (lk_store l, lk_table l) ?r"
    using p(1) not_live [of "(lk_store l, lk_table l)" ?r] by (simp_all add: live_def looked_up_def)
  moreover have "?r \<in> installed (snd served) \<longrightarrow> on_served_tip served ?r" using p(3) not_live by (auto simp: unmarked_def)
  ultimately have sound: "sound_acceptance E now a"
    using p user by (simp add: sound_acceptance_def a looked_up_def unmarked_def aged_def same(1,3) j)
  have once: "accepted_once (se_stale_window E) (a # log)"
  proof (rule accepted_once_Cons [OF sys_okD(6) [OF ok]])
    fix b assume b: "b \<in> set log" "ac_hash b = ac_hash a" "ac_created b = ac_created a"
    have "seen_holds now (gw_seen g) (hash, jb_created_at j)" using sys_okD(4) [OF ok b(1)] b(2,3) by (simp add: a)
    then show "se_stale_window E < ac_at a - ac_created a"
      using seen_insert_fresh(1) [OF fresh] sys_okD(3) [OF ok] by (auto simp: seen_holds_def seen_ok_def a)
  qed
  show ?thesis
  proof (rule sys_okI)
    show "phase_ok E now (g\<lparr>gw_seen := seen, gw_accepted := acc\<rparr>) p" if "conns i = Some (c, p)" for i c p
      using phase_ok_moves [OF sys_okD(7) [OF ok that] order_refl] by simp
    show "seen_holds now (gw_seen (g\<lparr>gw_seen := seen, gw_accepted := acc\<rparr>)) (ac_hash x, ac_created x)" if "x \<in> set (a # log)" for x
      using that sys_okD(4) [OF kept, of x] seen_insert_fresh(2) [OF fresh] by (auto simp: a)
    show "accepted_lines c + owed_reply p \<le> length (filter (\<lambda>x. ac_conn x = i) (a # log))" if "conns i = Some (c, p)" for i c p
      using sys_okD(8) [OF ok that] by simp
    show "sound_acceptance E now x" if "x \<in> set (a # log)" for x using that sound sys_okD(5) [OF ok] by auto
  qed (use sys_okD(1-3) [OF kept] once in simp_all)
qed

lemma sys_ok_quiet:
  assumes "sys_ok E now (g, conns, log)" "gw_seen g' = gw_seen g" "gw_store g' = gw_store g" "gw_table g' = gw_table g"
  shows "sys_ok E now (g', conns, log)"
  by (rule sys_ok_moves [OF assms(1,2)]) (simp_all add: assms(3,4) sys_okD(1,2) [OF assms(1)])

lemma phase_ok_quiet: "gw_store g' = gw_store g \<Longrightarrow> phase_ok E now g' p = phase_ok E now g p"
  by (cases p) (simp_all add: pending_def)

text \<open>A step that logs nothing, after which the connection stands at a phase with the same reply owed.\<close>

lemma sys_ok_next:
  assumes "sys_ok E now (g', conns, log)" "sys_ok E now (g, conns, log)" "conns i = Some (c, p)"
    and "phase_ok E now g' p'" "owed_reply p' \<le> owed_reply p"
  shows "sys_ok E now (g', conns(i \<mapsto> (c, p')), log)"
  using sys_ok_conn [OF assms(1,4), of c i] sys_okD(8) [OF assms(2,3)] assms(5) by simp

lemma sys_ok_parsed:
  assumes ok: "sys_ok E now (g, conns, log)" and conn: "conns i = Some (c, Parsed l)"
    and step: "submission_step E now i (Parsed l) g = (p', g', new)"
  shows "sys_ok E now (g', conns(i \<mapsto> (c, p')), new @ log)"
proof -
  let ?r = "sr_job (lk_req l)" and ?req = "lk_req l"
  obtain h j where made: "job_header_for (se_sha E) (se_blake E) (prefix_coinbase (ni_prefix (sr_notify_id ?req)))
      (floor_log2 (sr_job_diff ?req)) (sr_extranonce ?req) (sr_sia_ntime ?req) (sr_sia_nonce ?req) (gw_store g ?r) = (h, j)" by fastforce
  have l: "looked_up now l" "evolves (looked_up_job l) (gw_store g ?r)" using sys_okD(7) [OF ok conn] by (simp_all add: pending_def)
  note h = header_fixed [OF sys_okD(2) [OF ok] l(2) made]
  obtain f where f: "j = jb_commitments_update f (gw_store g ?r)" using job_header_for_cache made by (metis snd_conv)
  let ?g = "g\<lparr>gw_store := (gw_store g)(?r := j)\<rparr>"
  have "caches E g ?g" unfolding caches_def using h(2,3) f by blast
  then have ok': "sys_ok E now (?g, conns, log)" by (rule sys_ok_caches [OF ok])
  have "pending now ?g l" using l h(2) evolves_trans by (auto simp: pending_def)
  then have "phase_ok E now g' p'" "owed_reply p' \<le> owed_reply (Parsed l)" "g' = ?g" "new = []"
    using step made h(1) by (auto simp: Let_def split: option.splits)
  then show ?thesis using sys_ok_next [OF ok' ok conn] by simp
qed

lemma sys_ok_aged:
  assumes ok: "sys_ok E now (g, conns, log)" and conn: "conns i = Some (c, Aged l h first served t)"
    and step: "submission_step E now i (Aged l h first served t) g = (p', g', new)"
  shows "sys_ok E now (g', conns(i \<mapsto> (c, p')), new @ log)"
proof -
  let ?j = "gw_store g (sr_job (lk_req l))"
  let ?hash = "job_raw_pow_hash (se_sha E) (se_blake E) ?j h"
  obtain fresh seen where ins: "seen_insert now ?hash (jb_created_at ?j) (gw_seen g) = (fresh, seen)" by fastforce
  note kept = seen_step_ok [OF ok, of ?hash "jb_created_at ?j", unfolded ins snd_conv]
  show ?thesis
  proof (cases "fresh \<and> \<not> refuses_username (se_codec E) (se_require_address_username E) (se_modifiers E) (sr_miner_username (lk_req l))")
    case True
    let ?a = "\<lparr>ac_conn = i, ac_lookup = l, ac_header = h, ac_hash = ?hash, ac_created = jb_created_at ?j,
      ac_served = served, ac_aged_at = t, ac_at = now\<rparr>"
    have result: "p' = Checked l h first (Inr ())" "g' = g\<lparr>gw_seen := seen, gw_accepted := (?hash, jb_created_at ?j) # gw_accepted g\<rparr>"
      "new = [?a]" using step True ins by (auto simp: Let_def)
    have "sys_ok E now (g', conns, ?a # log)"
      unfolding result(2) by (rule sys_ok_accepts [OF ok sys_okD(7) [OF ok conn] refl refl _ _ refl]) (use True ins in auto)
    then show ?thesis using sys_okD(8) [OF ok conn] by (simp add: result sys_ok_conn)
  next
    case False
    then obtain e where "p' = Checked l h first (Inl e)" "g' = g\<lparr>gw_seen := seen\<rparr>" "new = []"
      using step ins by (cases fresh) (auto simp: Let_def)
    then show ?thesis using sys_ok_next [OF kept ok conn] by simp
  qed
qed

lemma sys_ok_submission:
  assumes ok: "sys_ok E now (g, conns, log)" and conn: "conns i = Some (c, p)"
    and step: "submission_step E now i p g = (p', g', new)"
  shows "sys_ok E now (g', conns(i \<mapsto> (c, p')), new @ log)"
proof (cases p)
  case (Parsed l)
  then show ?thesis using sys_ok_parsed [OF ok] conn step by blast
next
  case (Aged l h first served t)
  then show ?thesis using sys_ok_aged [OF ok] conn step by blast
next
  case (Searched l h first)
  have "one_tip (gw_store g, gw_table g)" by (rule sys_okD(1) [OF ok])
  then have "phase_ok E now g' p'" "owed_reply p' \<le> owed_reply p" "g' = g" "new = []"
    using step sys_okD(7) [OF ok conn] evolves_sel(3) [of "looked_up_job l" "gw_store g (sr_job (lk_req l))"]
    by (auto simp: Searched Let_def pending_def unmarked_def split: if_splits)
  then show ?thesis using sys_ok_next [OF ok ok conn] by simp
next
  case (Unmarked l h first served)
  have "phase_ok E now g' p'" "owed_reply p' \<le> owed_reply p" "g' = g" "new = []"
    using step sys_okD(7) [OF ok conn] evolves_sel(1) [of "looked_up_job l" "gw_store g (sr_job (lk_req l))"]
    by (auto simp: Unmarked pending_def looked_up_def aged_def split: if_splits)
  then show ?thesis using sys_ok_next [OF ok ok conn] by simp
next
  case (Headed l h)
  then obtain first where same: "gw_seen g' = gw_seen g" "gw_store g' = gw_store g" "gw_table g' = gw_table g"
    and nxt: "new = []" "p' = Searched l h first"
    using step by (auto simp: Let_def split: prod.splits)
  have "phase_ok E now g' p'" using sys_okD(7) [OF ok conn] unfolding phase_ok_quiet [OF same(2)] nxt(2) Headed by simp
  then show ?thesis using sys_ok_next [OF sys_ok_quiet [OF ok same] ok conn] nxt by simp
next
  case (Checked l h first res)
  then have "gw_seen g' = gw_seen g" "gw_store g' = gw_store g" "gw_table g' = gw_table g" "new = []" "p' = Queued l h first res"
    using step by (auto simp: Let_def split: if_splits)
  then show ?thesis using sys_ok_next [OF sys_ok_quiet [OF ok] ok conn] Checked by simp
next
  case (Queued l h first res)
  then have "gw_seen g' = gw_seen g" "gw_store g' = gw_store g" "gw_table g' = gw_table g" "new = []" "p' = Judged l res"
    using step by (auto simp: Let_def split: if_splits)
  then show ?thesis using sys_ok_next [OF sys_ok_quiet [OF ok] ok conn] Queued by simp
qed (use step conn sys_ok_next [OF ok ok conn sys_okD(7) [OF ok conn]] in auto)

lemma sys_ok_step: "gateway_step E now s s' \<Longrightarrow> sys_ok E now s \<Longrightarrow> sys_ok E now s'"
proof (induction rule: gateway_step.induct)
  case (build r g conns j log)
  have "one_tip ((gw_store g)(r := j), gw_table g)"
    using build by (intro table_step_one_tip [OF table_step.build sys_okD(1) [OF build.prems]]) auto
  moreover have "commitments_ok (se_sha E) (se_blake E) j" using build.hyps by (simp add: commitments_ok_def)
  ultimately show ?case
    using build.hyps sys_okD(2) [OF build.prems] by (intro sys_ok_moves [OF build.prems]) auto
next
  case (publish r kind g published st t conns log)
  have "one_tip (st, t)" using publish table_step_one_tip [OF table_step.publish] sys_okD(1) by blast
  moreover have "st = gw_store g \<or> (\<exists>off slots. st = mark_stale off slots (gw_store g))"
    using publish.hyps by (auto simp: table_publish_def Let_def split: if_splits)
  ultimately show ?case
    using sys_okD(2) [OF publish.prems] by (intro sys_ok_moves [OF publish.prems]) (auto simp: mark_stale_commitments)
next
  case (tip g conns log prev)
  then show ?case
    using table_step_one_tip [OF table_step.tip sys_okD(1)] sys_okD(2) by (intro sys_ok_moves [OF tip]) auto
next
  case (stale_off prev g st t conns log)
  have "one_tip (st, t)" using stale_off table_step_one_tip [OF table_step.stale_off] sys_okD(1) by metis
  moreover have "\<exists>off slots. st = mark_stale off slots (gw_store g)"
    using stale_off.hyps by (auto simp: mark_stale_off_def)
  ultimately show ?case
    using sys_okD(2) [OF stale_off.prems] by (intro sys_ok_moves [OF stale_off.prems]) (auto simp: mark_stale_commitments)
next
  case (session g conns log q m)
  then show ?case by (rule sys_ok_quiet) simp_all
next
  case (opens conns i g log params unique_id)
  then show ?case by (intro sys_ok_conn) simp_all
next
  case (ends conns i c p g log)
  then show ?case using sys_okD [OF ends.prems] by (intro sys_okI) (auto split: if_splits)
next
  case (subscribe conns i c g c' g' log)
  note ok = sys_ok_caches [OF subscribe.prems on_subscribe_caches(1) [OF subscribe.hyps(2)]]
  show ?case using sys_okD(8) [OF ok subscribe.hyps(1)] on_subscribe_caches(2) [OF subscribe.hyps(2)]
    by (intro sys_ok_conn [OF ok]) simp_all
next
  case (rolls conns i c g log)
  then show ?case using sys_okD(8) [OF rolls.prems rolls.hyps] by (intro sys_ok_conn) simp_all
next
  case (serve conns i c g c' g' log)
  note ok = sys_ok_caches [OF serve.prems send_current_caches(1) [OF serve.hyps(2)]]
  show ?case using sys_okD(8) [OF ok serve.hyps(1)] send_current_caches(2) [OF serve.hyps(2)]
    by (intro sys_ok_conn [OF ok]) simp_all
next
  case (unknown conns i c params g diff log)
  then show ?case using sys_okD(8) [OF unknown.prems unknown.hyps(1)] by (intro sys_ok_conn) simp_all
next
  case (parsed conns i c params g req log)
  then show ?case
    using sys_okD(1) [OF parsed.prems] sys_okD(8) [OF parsed.prems parsed.hyps(1)] parse_submit_request [OF parsed.hyps(2)]
    by (intro sys_ok_conn) (simp_all add: pending_def looked_up_def)
next
  case (goes_on conns i c p g p' g' new log)
  then show ?case by (intro sys_ok_submission)
next
  case (reply conns i c l res g c' g' log)
  note ok = sys_ok_caches [OF reply.prems reply_submit_caches(1) [OF reply.hyps(2)]]
  show ?case using sys_okD(8) [OF ok reply.hyps(1)] reply_submit_caches(2) [OF reply.hyps(2)]
    by (intro sys_ok_conn [OF ok]) simp_all
qed

lemma gateway_run_ok: "gateway_run E now s \<Longrightarrow> sys_ok E now s"
proof (induction rule: gateway_run.induct)
  case (fresh st now slots keep capacity queue)
  have "one_tip (st, table_new slots keep)" by (rule table_run_one_tip [OF table_run.fresh])
  then show ?case
    using fresh by (intro sys_okI)
      (simp_all add: gateway_new_def commitments_ok_def seen_ok_def seen_new_def accepted_once_def)
next
  case (tick now s later)
  then show ?case using sys_ok_tick by (metis prod_cases3)
next
  case (step now s s')
  then show ?case using sys_ok_step by blast
qed

text \<open>C9: the gateway credits a miner for sound work, once.  In every interleaving of the connections'
  threads, each going through its submissions step by step, with the threads that build and publish jobs
  and with the clock, every share accepted named, by the slot of its id, a job the table then held, which
  was live and on the previous block of the work then served; when the flag was checked it was still not
  marked, and, if still in the table, on the previous block of the work served at that instant; its age,
  read after, was within the stale window; the hash of the header made of its fields meets the target of
  the difficulty the connection was served that job at; and its username is not refused.  A connection is
  sent at most as many accepting replies as shares of its own were accepted.  And one hash is accepted
  again for a job only if the job's age passed the stale window between the check of the age and the
  entry of the hash, whatever the table of hashes seen has dropped to make room.\<close>

theorem miner_share_accepted:
  assumes "gateway_run E now (g, conns, log)"
  shows "(\<forall>a \<in> set log. sound_acceptance E now a) \<and> accepted_once (se_stale_window E) log \<and>
    (\<forall>i c p. conns i = Some (c, p) \<longrightarrow> accepted_lines c + owed_reply p \<le> length (filter (\<lambda>a. ac_conn a = i) log))"
  using gateway_run_ok [OF assms] by (simp add: sys_ok_def)

section \<open>A run\<close>

lemma uninterrupted_run:
  "gateway_run E now (g, conns(i \<mapsto> (c, p)), log) \<Longrightarrow> uninterrupted E now i n p g = (p', g') \<Longrightarrow>
   \<exists>log'. gateway_run E now (g', conns(i \<mapsto> (c, p')), log')"
proof (induction n arbitrary: p g log)
  case (Suc n)
  obtain p1 g1 new where step: "submission_step E now i p g = (p1, g1, new)" using prod_cases3 by blast
  have "gateway_run E now (g1, (conns(i \<mapsto> (c, p)))(i \<mapsto> (c, p1)), new @ log)"
    by (rule gateway_run.step [OF Suc.prems(1) gateway_step.goes_on [OF _ step]]) simp
  then have "gateway_run E now (g1, conns(i \<mapsto> (c, p1)), new @ log)" by (simp only: fun_upd_upd)
  then show ?case using Suc.IH Suc.prems(2) step by (simp only: uninterrupted.simps Let_def prod.case)
qed auto

lemma notify_serves:
  assumes "\<And>tb. fst (commitment (se_sha E) (se_blake E) (prefix_coinbase pre) tb (gw_store g r)) \<noteq> None" "pre \<noteq> Quickdiff"
  shows "\<exists>c' g'. notify E now r pre clean (c, g) = Some (c', g') \<and> sc_job_diffs c' (jb_slot (gw_store g r)) \<noteq> None"
proof -
  have "notify E now r pre clean (c, g) \<noteq> None" using assms(1) by (auto simp: notify_def Let_def case_prod_beta)
  then obtain c' g' where s: "notify E now r pre clean (c, g) = Some (c', g')" by auto
  then have "sc_job_diffs c' (jb_slot (gw_store g r)) \<noteq> None"
    using assms(2) by (auto simp: notify_def Let_def case_prod_beta send_line_def send_difficulty_def split: option.splits)
  with s show ?thesis by blast
qed

definition sample_client :: stratum_client where
  "sample_client = client_new \<lparr>vp_min = 1, vp_target_shares_min = 8, vp_quickdiff_count = 8, vp_quickdiff_delta = 8\<rparr> 0 1"

lemma sample_gateway_run: "gateway_run sample_env 0 (sample_gateway, \<lambda>_. None, [])"
proof -
  let ?g = "gateway_new sample_env 256 9 9 9 (\<lambda>_. sample_job (\<lambda>_. replicate 32 4))"
  obtain published st t where made: "table_publish 0 0 Pooled (gw_store ?g, gw_table ?g) = (published, st, t)" using prod_cases3 by blast
  have "gateway_run sample_env 0 (?g, \<lambda>_. None, [])" by (rule gateway_run.fresh) (simp add: sample_job_def)
  from gateway_run.step [OF this gateway_step.publish [OF made]] show ?thesis by (simp add: sample_gateway_def made Let_def)
qed

lemma sample_subscribed:
  "\<exists>c g. on_subscribe sample_env 0 (sample_client, sample_gateway) = Some (c, g) \<and> sc_job_diffs c 5 \<noteq> None"
proof -
  have served: "\<exists>p. jt_current (gw_table sample_gateway) = Some p \<and> pb_job p = 0 \<and> pb_kind p = Pooled"
    by (simp add: sample_gateway_def gateway_new_def table_publish_def table_new_def Let_def)
  have "fst (commitment sha blake Pooled tb (sample_job s)) \<noteq> None" for sha blake tb s
    using sample_header_made [of sha blake tb "[]" "[]" "[]" s] by (auto simp: job_header_for_def split: prod.splits)
  then have "\<exists>c' g'. notify sample_env 0 0 Plain clean (c, sample_gateway) = Some (c', g') \<and> sc_job_diffs c' 5 \<noteq> None" for c clean
    using notify_serves [of sample_env Plain sample_gateway 0 0 clean c] by (simp add: sample_gateway_parts sample_job_def)
  then show ?thesis
    using served by (auto simp: on_subscribe_def send_job_def sample_client_def client_new_def Let_def send_line_def send_difficulty_def split: prod.split)
qed

lemma sample_evaluated:
  assumes "evolves (sample_job (\<lambda>_. replicate 32 4)) (gw_store g 0)" "commitments_ok (se_sha sample_env) (se_blake sample_env) (gw_store g 0)"
    and "ss_seen (gw_seen g) = []" "ss_capacity (gw_seen g) = 1024" "\<not> jb_stale_prevblock (gw_store g 0)"
    and "sr_job req = 0" "ni_prefix (sr_notify_id req) = Plain"
  shows "\<exists>g'. evaluate sample_env 0 req g = (Inr (), g')"
proof -
  let ?job = "sample_job (\<lambda>_. replicate 32 4)"
  obtain h j where made: "job_header_for (se_sha sample_env) (se_blake sample_env) (prefix_coinbase (ni_prefix (sr_notify_id req)))
      (floor_log2 (sr_job_diff req)) (sr_extranonce req) (sr_sia_ntime req) (sr_sia_nonce req) (gw_store g 0) = (h, j)" by fastforce
  note h = header_fixed [OF assms(2,1) made]
  have "?job\<lparr>jb_commitments := \<lambda>_. None\<rparr> = ?job" by (simp add: sample_job_def)
  then have "\<exists>header. h = Some header"
    unfolding h(1) header_without_cache_def assms(7) prefix_coinbase.simps by (simp only: sample_header_made)
  then obtain header where header: "h = Some header" by blast
  obtain f where f: "j = jb_commitments_update f (gw_store g 0)" using job_header_for_cache made by (metis snd_conv)
  let ?g = "g\<lparr>gw_store := (gw_store g)(0 := j)\<rparr>"
  obtain res g' where judged: "judge_share sample_env 0 req j header ?g = (res, g')" by fastforce
  have j: "\<not> jb_stale_prevblock j" "jb_created_at j = 0"
    using assms(5) evolves_sel(1) [OF assms(1)] by (simp_all add: f sample_job_def)
  have hash: "replicate 32 0 = job_raw_pow_hash (se_sha sample_env) (se_blake sample_env) j header"
    by (simp add: job_raw_pow_hash_def raw_pow_hash_def sample_env_def)
  obtain seen where "check_miner_share sample_env 0 j (replicate 32 0) (floor_log2 (sr_job_diff req))
      (sr_miner_username req) (gw_seen ?g) = (res, seen)"
    by (rule judge_share_parts [OF judged hash])
  then have "res = Inr ()"
    using j assms(3,4) by (auto simp: check_miner_share_def seen_insert_def refuses_username_def sample_env_def Let_def)
  then show ?thesis using judged made header assms(6) by (simp add: evaluate_def)
qed

lemma sample_accepted:
  "\<exists>g conns log c l. gateway_run sample_env 0 (g, conns, log) \<and> conns 0 = Some (c, Judged l (Inr ()))"
proof -
  obtain c g d where sub: "on_subscribe sample_env 0 (sample_client, sample_gateway) = Some (c, g)" "sc_job_diffs c 5 = Some d"
    using sample_subscribed by auto
  have "gateway_run sample_env 0 (sample_gateway, (\<lambda>_. None)(0 \<mapsto> (sample_client, Idle)), [])"
    unfolding sample_client_def by (rule gateway_run.step [OF sample_gateway_run gateway_step.opens]) simp
  from gateway_run.step [OF this gateway_step.subscribe [OF _ sub(1)], of 0]
  have run: "gateway_run sample_env 0 (g, (\<lambda>_. None)(0 \<mapsto> (c, Idle)), [])" by simp
  obtain r j f where g: "g = sample_gateway\<lparr>gw_store := (gw_store sample_gateway)(r := j)\<rparr>" "evolves (gw_store sample_gateway r) j"
    "j = jb_commitments_update f (gw_store sample_gateway r)"
    using on_subscribe_caches(1) [OF sub(1)] unfolding caches_def by blast
  have kept: "table_at 5 (gw_table g) = Some 0" "evolves (sample_job (\<lambda>_. replicate 32 4)) (gw_store g 0)"
    "ss_seen (gw_seen g) = []" "ss_capacity (gw_seen g) = 1024" "\<not> jb_stale_prevblock (gw_store g 0)"
    "jb_stratum_job_id (gw_store g 0) = stratum_job_id 9 5"
    using g by (simp_all add: sample_gateway_parts) (simp_all add: sample_job_def)
  obtain req where req: "parse_submit sample_env sample_params c g = Inr req" "sr_job req = 0" "ni_prefix (sr_notify_id req) = Plain"
    using sample_parsed [OF kept(1,6) sub(2)] by blast
  let ?l = "\<lparr>lk_at = 0, lk_params = sample_params, lk_req = req, lk_client = c, lk_store = gw_store g, lk_table = gw_table g\<rparr>"
  have "gateway_run sample_env 0 (g, ((\<lambda>_. None)(0 \<mapsto> (c, Idle)))(0 \<mapsto> (c, Parsed ?l)), [])"
    by (rule gateway_run.step [OF run gateway_step.parsed [OF _ req(1)]]) simp
  then have parsed: "gateway_run sample_env 0 (g, (\<lambda>_. None)(0 \<mapsto> (c, Parsed ?l)), [])" by (simp only: fun_upd_upd)
  obtain g' where "evaluate sample_env 0 (lk_req ?l) g = (Inr (), g')"
    using sample_evaluated [OF kept(2) sys_okD(2) [OF gateway_run_ok [OF run]] kept(3-5) req(2,3)] by auto
  then have "uninterrupted sample_env 0 0 7 (Parsed ?l) g = (Judged ?l (Inr ()), g')" by (rule evaluate_uninterrupted)
  from uninterrupted_run [OF parsed this] obtain log
    where "gateway_run sample_env 0 (g', (\<lambda>_. None)(0 \<mapsto> (c, Judged ?l (Inr ()))), log)" by blast
  then show ?thesis by (metis fun_upd_same)
qed

theorem miner_share_accepted_witness:
  "\<exists>g conns log a. gateway_run sample_env 0 (g, conns, log) \<and> a \<in> set log \<and> ac_conn a = 0 \<and> sound_acceptance sample_env 0 a"
proof -
  obtain g conns log c l where run: "gateway_run sample_env 0 (g, conns, log)" "conns 0 = Some (c, Judged l (Inr ()))"
    using sample_accepted by blast
  note props = miner_share_accepted [OF run(1)]
  have "accepted_lines c + owed_reply (Judged l (Inr ())) \<le> length (filter (\<lambda>a. ac_conn a = 0) log)" using props run(2) by blast
  then have "filter (\<lambda>a. ac_conn a = 0) log \<noteq> []" by auto
  then obtain a where "a \<in> set log" "ac_conn a = 0" by (auto simp: filter_empty_conv)
  then show ?thesis using run(1) props by blast
qed

end
