(* ===== verification/Found_Block.thy ===== *)
theory Found_Block
  imports Miner_Shares Replies
begin

text \<open>
  A block a miner of the gateway finds: what \<open>evaluate\<close> of \<open>Stratum\<close> does with a share that is one, and why
  the block it hands to the nodes is whole.
\<close>

definition other_txns :: "coinbase_kind \<Rightarrow> 'a list \<Rightarrow> 'a list" where
  "other_txns kind xs = (case kind of SubsidyOnly \<Rightarrow> [] | Pooled \<Rightarrow> xs)"

lemma other_txns_map: "other_txns kind (map f xs) = map f (other_txns kind xs)"
  by (simp add: other_txns_def split: coinbase_kind.split)

text \<open>The header of work on a built job commits to its coinbase and the transactions of its kind.\<close>

lemma built_header_commits:
  assumes built: "build_job sha c unix_now now i = Some (Inr j)"
    and h: "job_header (jb_job_section j) v t (job_merkle_root sha (jb_job_section j) tx (kind = SubsidyOnly))
      (kind = SubsidyOnly) tb abw = Some h"
    and few: "length (tp_txns (ji_template i)) < 2 ^ 32"
  shows "\<exists>root. merkle_tree_root sha (sha256d sha tx # map tt_txid (other_txns kind (tp_txns (ji_template i)))) = Some root \<and>
      hd_merkle_root h = mt_root root"
    and "unat (hd_txcount h) = Suc (length (other_txns kind (tp_txns (ji_template i))))"
proof -
  have n: "unat (js_txn_count (jb_job_section j)) = length (tp_txns (ji_template i))"
    using few by (simp add: built_count [OF built] as_u32_def unat_of_nat)
  have count16: "unat (as_u16 (Suc k)) = Suc k" if "Suc k < 65536" for k
    using that by (simp add: as_u16_def unat_of_nat del: of_nat_Suc)
  show "unat (hd_txcount h) = Suc (length (other_txns kind (tp_txns (ji_template i))))"
    using h n count16 by (cases kind) (auto simp: job_header_def other_txns_def Let_def split: if_splits)
  have "hd_merkle_root h = job_merkle_root sha (jb_job_section j) tx (kind = SubsidyOnly)"
    using h by (auto simp: job_header_def Let_def split: if_splits)
  then show "\<exists>root. merkle_tree_root sha (sha256d sha tx # map tt_txid (other_txns kind (tp_txns (ji_template i)))) = Some root \<and>
      hd_merkle_root h = mt_root root"
    using built_job_root [OF built, of tx]
    by (cases kind) (auto simp: other_txns_def merkle_tree_root_def merkle_tree_loop.simps)
qed

lemma queue_share_queue: "gw_queue (queue_share s g) = (if gw_queue_capacity g \<le> length (gw_queue g) then gw_queue g else gw_queue g @ [s])"
  by (simp add: queue_share_def)

text \<open>The parts of \<open>judge_share\<close> that concern a block.\<close>

lemma judge_block:
  assumes judged: "judge_share E now req j header g = (res, g')"
    and hash: "hash = job_raw_pow_hash (se_sha E) (se_blake E) j header"
    and block: "jb_abw j = None" "meets_target hash (jb_block_target j)"
    and b: "assemble_block j (prefix_coinbase (ni_prefix (sr_notify_id req))) (floor_log2 (sr_job_diff req))
      (serialize_header header) = Some b"
  shows "hash \<in> set (gw_found g) \<Longrightarrow> gw_blocks g' = gw_blocks g \<and> gw_found g' = gw_found g"
    and "hash \<notin> set (gw_found g) \<Longrightarrow> gw_blocks g' = gw_blocks g @ [(hash, b)] \<and> hash \<in> set (gw_found g') \<and>
      (jb_is_datum_job j \<longrightarrow> length (gw_queue g) < gw_queue_capacity g \<longrightarrow>
        (\<exists>s. gw_queue g' = gw_queue g @ [s] \<and> qs_is_block s \<and> qs_header s = header \<and> qs_job s = j))"
proof -
  obtain c seen where "check_miner_share E now j hash (floor_log2 (sr_job_diff req)) (sr_miner_username req)
      (gw_seen g) = (c, seen)" by fastforce
  then show "hash \<in> set (gw_found g) \<Longrightarrow> gw_blocks g' = gw_blocks g \<and> gw_found g' = gw_found g"
    using judged by (auto simp: judge_share_def hash [symmetric] block first_find_def Let_def)
  show "gw_blocks g' = gw_blocks g @ [(hash, b)] \<and> hash \<in> set (gw_found g') \<and>
      (jb_is_datum_job j \<longrightarrow> length (gw_queue g) < gw_queue_capacity g \<longrightarrow>
        (\<exists>s. gw_queue g' = gw_queue g @ [s] \<and> qs_is_block s \<and> qs_header s = header \<and> qs_job s = j))"
    if "hash \<notin> set (gw_found g)"
    using judged \<open>check_miner_share _ _ _ _ _ _ _ = _\<close> that
    by (auto simp: judge_share_def hash [symmetric] block first_find_def submit_found_block_def b queue_share_queue Let_def)
qed

text \<open>C11: a block a miner finds reaches the nodes whole, and once.  A share on a built job outside the
  anti-block-withholding protocol whose hash meets the block target is handed to the nodes whatever the
  share checks say of it, unless its hash is among the last blocks found; the block handed over is the
  share's header, the job's coinbase and, for pooled work, the template's transactions; the header
  commits to exactly these, by their number and by the root of the tree of the coinbase's hash and the
  transactions' ids; and the share is queued for the pool as a block, if the queue has room.\<close>

theorem found_block_is_whole:
  assumes built: "build_job (se_sha E) c unix_now at i = Some (Inr j)" "length (tp_txns (ji_template i)) < 2 ^ 32"
    and job: "same_job j (gw_store g (sr_job req))" "commitments_ok (se_sha E) (se_blake E) (gw_store g (sr_job req))"
    and header: "fst (job_header_for (se_sha E) (se_blake E) kind (floor_log2 (sr_job_diff req)) (sr_extranonce req)
      (sr_sia_ntime req) (sr_sia_nonce req) (gw_store g (sr_job req))) = Some header"
      "kind = prefix_coinbase (ni_prefix (sr_notify_id req))"
    and block: "jb_abw j = None" "hash = job_raw_pow_hash (se_sha E) (se_blake E) j header"
      "meets_target hash (jb_block_target j)"
    and run: "evaluate E now req g = (res, g')"
  shows "if hash \<in> set (gw_found g) then gw_blocks g' = gw_blocks g
    else \<exists>coinbase root.
      gw_blocks g' = gw_blocks g @ [(hash, serialize_block (serialize_header header) coinbase
        (map tt_raw (other_txns kind (tp_txns (ji_template i)))))] \<and>
      hash \<in> set (gw_found g') \<and>
      merkle_tree_root (se_sha E) (sha256d (se_sha E) coinbase #
        map tt_txid (other_txns kind (tp_txns (ji_template i)))) = Some root \<and>
      hd_merkle_root header = mt_root root \<and>
      unat (hd_txcount header) = Suc (length (other_txns kind (tp_txns (ji_template i)))) \<and>
      (jb_is_datum_job j \<longrightarrow> length (gw_queue g) < gw_queue_capacity g \<longrightarrow>
        (\<exists>s. gw_queue g' = gw_queue g @ [s] \<and> qs_is_block s \<and> qs_header s = header))"
proof -
  let ?stored = "gw_store g (sr_job req)" and ?tb = "floor_log2 (sr_job_diff req)"
  obtain b cache where stored: "?stored = j\<lparr>jb_stale_prevblock := b, jb_commitments := cache\<rparr>"
    using job(1) by (auto simp: same_job_def)
  obtain tx h0 where tx: "full_coinbase ?stored kind ?tb = Some tx"
    and h0: "job_header (jb_job_section ?stored) (tp_version (jb_template ?stored)) (ucast (tp_curtime (jb_template ?stored)))
      (job_merkle_root (se_sha E) (jb_job_section ?stored) tx (kind = SubsidyOnly)) (kind = SubsidyOnly) ?tb
      (jb_abw ?stored \<noteq> None) = Some h0"
    and h: "header = set_sia_fields (h0\<lparr>hd_extranonce := sr_extranonce req\<rparr>) (sr_sia_ntime req) (sr_sia_nonce req)"
    by (rule job_header_for_Some [OF job(2) header(1)])
  have "jb_job_section ?stored = jb_job_section j" by (simp add: stored)
  note commits = built_header_commits [OF built(1) h0 [unfolded this] built(2)]
  have fields: "hd_merkle_root header = hd_merkle_root h0" "hd_txcount header = hd_txcount h0"
    by (simp_all add: h set_sia_fields_sel)
  from run show ?thesis
  proof (cases rule: evaluate_cases)
    case (no_header f)
    then show ?thesis using header by simp
  next
    case (judged f j' header')
    have same: "header' = header" using judged(2) header by simp
    have j': "jb_abw j' = None" "jb_block_target j' = jb_block_target j" "jb_is_datum_job j' = jb_is_datum_job j"
      "job_raw_pow_hash (se_sha E) (se_blake E) j' = job_raw_pow_hash (se_sha E) (se_blake E) j"
      by (simp_all add: judged(1) stored block(1) fun_eq_iff job_raw_pow_hash_def job_hash_stages_def)
    have assembled: "assemble_block j' (prefix_coinbase (ni_prefix (sr_notify_id req))) ?tb (serialize_header header') =
        Some (serialize_block (serialize_header header) tx (map tt_raw (other_txns kind (tp_txns (ji_template i)))))"
    proof -
      have "full_coinbase j' kind ?tb = Some tx" using tx by (simp add: judged(1))
      moreover have "jb_template j' = ji_template i"
        by (rule build_job_parts [OF built(1)]) (simp add: judged(1) stored)
      ultimately show ?thesis
        by (cases kind) (simp_all add: assemble_block_def same other_txns_def flip: header(2))
    qed
    note parts = judge_block [OF judged(3) _ j'(1) _ assembled, of hash, unfolded j' same]
    show ?thesis
      using parts [OF block(2,3)] commits fields by auto
  qed
qed

section \<open>Every built job has its coinbases\<close>

lemma script_sig_target: "script_sig t = Some (script, at) \<Longrightarrow> at < length script"
  by (auto simp: script_sig_def unique_id_push_def coinbase_consts Let_def)

lemma build_coinbase_assembles:
  "build_coinbase p = (b, included) \<Longrightarrow> \<exists>paid. b = assemble p included paid"
  by (auto simp: build_coinbase_def split: prod.splits)

lemma assemble_target_byte:
  assumes "sp_target_byte_index_in_script p < length (sp_script_sig p)"
  shows "bc_target_byte_index (assemble p included paid) < length (cs_coinb1 (bc_section (assemble p included paid)))"
  using assms by (simp add: assemble_def Let_def split: prod.split)

lemma unat_as_u16_le: "unat (as_u16 k) \<le> k"
  by (simp add: as_u16_def unat_of_nat)

lemma built_full_coinbase:
  assumes "build_job sha c unix_now now i = Some (Inr j)"
  shows "\<exists>tx. full_coinbase j kind tb = Some tx"
proof -
  obtain t script at where script: "script_sig t = Some (script, at)"
    and built: "build_coinbases (ji_template i) script at (ucast (ji_serial i) XOR ENPREFIX_XOR)
       (jb_pool_payout_script j) (cb_outputs (filter_coinbaser (ji_template i) (ji_coinbaser i))) =
       (jb_pooled_coinbase j, jb_subsidy_only_coinbase j, jb_coinbaser_outputs j)"
    and index: "js_target_byte_index (jb_job_section j) = as_u16 (bc_target_byte_index (jb_pooled_coinbase j))"
    using assms
    by (auto simp: build_job_def Let_def bind_eq_Some_conv split: if_splits option.splits prod.splits)
  have same: "bc_target_byte_index (jb_pooled_coinbase j) = bc_target_byte_index (job_coinbase j kind)"
    using built by (cases kind)
      (auto simp: job_coinbase_def build_coinbases_def Let_def split: prod.splits elim!: build_coinbase_target_byte_index)
  have "bc_target_byte_index (job_coinbase j kind) < length (cs_coinb1 (bc_section (job_coinbase j kind)))"
    using built script_sig_target [OF script]
    by (cases kind) (auto simp: job_coinbase_def build_coinbases_def Let_def split: prod.splits
        dest!: build_coinbase_assembles intro!: assemble_target_byte)
  then show ?thesis
    using unat_as_u16_le [of "bc_target_byte_index (jb_pooled_coinbase j)"]
    by (simp add: full_coinbase_def job_coinbase_tx_def assemble_section_def index same Let_def)
qed

lemma header_made:
  assumes "jb_commitments j = (\<lambda>_. None)" "full_coinbase j kind tb = Some tx" "unat (js_txn_count (jb_job_section j)) < 65535"
  shows "\<exists>h. fst (job_header_for sha blake kind tb ext nt nn j) = Some h"
  using assms by (simp add: job_header_for_def commitment_def job_header_def Let_def)

text \<open>A job of one transaction, on which every hash is a block.\<close>

theorem found_block_is_whole_witness:
  "\<exists>g req res g' header coinbase. evaluate sample_env 0 req g = (res, g') \<and> gw_blocks g = [] \<and>
     gw_blocks g' = [(replicate 32 0, serialize_block (serialize_header header) coinbase [tt_raw sample_txn])]"
proof -
  let ?i = "job_inputs_new 261 (sample_template\<lparr>tp_txns := [sample_txn]\<rparr>)"
  have "merkle_branches (se_sha sample_env) (map tt_txid [sample_txn]) = Some [replicate 32 7]"
    by (simp add: merkle_branches_def merkle_branches_loop.simps next_level_def sample_txn_def)
  then obtain j where j: "build_job (se_sha sample_env) sample_job_config 9 0 ?i = Some (Inr j)"
    using sample_build [of "se_sha sample_env" "[sample_txn]"] by (auto simp: MAX_MERKLE_BRANCHES_def)
  have abw: "jb_abw j = None" and cached: "jb_commitments j = (\<lambda>_. None)"
    and target: "bits_to_target (tp_nbits (ji_template ?i)) = Some (jb_block_target j)"
    by (rule build_job_parts [OF j]; simp add: job_inputs_new_def)+
  let ?g = "sample_gateway\<lparr>gw_store := \<lambda>_. j, gw_blocks := [], gw_found := []\<rparr>"
  define req where "req = \<lparr>sr_job = 0, sr_job_diff = 1, sr_notify_id = \<lparr>ni_slot = 0, ni_prefix = Plain\<rparr>,
    sr_extranonce = replicate 16 0, sr_sia_ntime = replicate 8 0, sr_sia_nonce = replicate 8 0, sr_miner_username = []\<rparr>"
  obtain tx where tx: "full_coinbase j Pooled (floor_log2 (sr_job_diff req)) = Some tx" using built_full_coinbase [OF j] by blast
  have "unat (js_txn_count (jb_job_section j)) < 65535"
    by (simp add: built_count [OF j] job_inputs_new_def as_u32_def)
  then obtain header where header: "fst (job_header_for (se_sha sample_env) (se_blake sample_env) Pooled
      (floor_log2 (sr_job_diff req)) (sr_extranonce req) (sr_sia_ntime req) (sr_sia_nonce req) (gw_store ?g (sr_job req))) = Some header"
    using header_made [OF cached tx] by fastforce
  obtain res g' where run: "evaluate sample_env 0 req ?g = (res, g')" by fastforce
  have hash: "replicate 32 0 = job_raw_pow_hash (se_sha sample_env) (se_blake sample_env) j header"
    by (simp add: job_raw_pow_hash_def raw_pow_hash_def sample_env_def)
  have "meets_target (replicate 32 0) (jb_block_target j)"
    using target by (auto simp: meets_target_def bytes_le_zero bits_to_target_def list_ex_iff bind_eq_Some_conv Let_def split: if_splits)
  then show ?thesis
    using found_block_is_whole [OF j _ _ _ header _ abw hash _ run] run cached
    by (fastforce simp: req_def other_txns_def job_inputs_new_def commitments_ok_def)
qed

end
