(* ===== verification/Miner.thy ===== *)
theory Miner
  imports Found_Block
begin

text \<open>
  The work a miner of the gateway does: miner/src/main.rs, with the nonce search of core/src/nonce.rs.

  The miner reads the lines of \<open>Stratum\<close>, whose fields are the bytes the text carries in hexadecimal;
  its own hexadecimal fields are encoded by a parameter, the hex crate's \<open>encode\<close>.  The floating-point
  difficulty only bounds the search and is left out: the target is an argument.  The threads of a search
  run to their ends one by one, under an oracle that says where each is stopped.
\<close>

section \<open>The nonce search\<close>

definition CHECK_INTERVAL :: nat where "CHECK_INTERVAL = 2 ^ 22"

definition splice :: "bytes \<Rightarrow> nat \<Rightarrow> nat \<Rightarrow> bytes" where
  "splice input at nonce = copy_at at (put_u32_le (word_of_nat nonce)) input"

text \<open>One thread: the first nonce of its stride that meets the target, unless it is stopped before.\<close>

function search_from :: "(nat \<Rightarrow> bool) \<Rightarrow> (nat \<Rightarrow> bool) \<Rightarrow> nat \<Rightarrow> nat \<Rightarrow> nat option" where
  "search_from meets stopped threads nonce =
     (if threads = 0 \<or> 2 ^ 32 \<le> nonce then None
      else if meets nonce then Some nonce
      else if nonce mod CHECK_INTERVAL < threads \<and> stopped nonce then None
      else search_from meets stopped threads (nonce + threads))"
  by pat_completeness auto
termination by (relation "measure (\<lambda>(_, _, _, nonce). 2 ^ 32 - nonce)") auto

declare search_from.simps [simp del]

definition nonce_search ::
    "nat \<Rightarrow> (nat \<Rightarrow> nat \<Rightarrow> bool) \<Rightarrow> bytes \<Rightarrow> nat \<Rightarrow> (bytes \<Rightarrow> bytes) \<Rightarrow> bytes \<Rightarrow> u32 option" where
  "nonce_search threads stopped input at hash target =
     (let meets = (\<lambda>nonce. meets_target (hash (splice input at nonce)) target);
          found = List.map_filter (\<lambda>t. search_from meets (stopped t) threads t) [0..<threads]
      in if found = [] then None else Some (word_of_nat (Min (set found))))"

lemma search_from_sound:
  "search_from meets stopped threads nonce = Some n \<Longrightarrow> meets n \<and> n < 2 ^ 32"
proof (induction meets stopped threads nonce rule: search_from.induct)
  case (1 meets stopped threads nonce)
  then show ?case by (subst (asm) (2) search_from.simps) (auto split: if_splits)
qed

lemma search_from_next:
  assumes "search_from meets (\<lambda>_. False) threads nonce = None" "0 < threads" "nonce < 2 ^ 32"
  shows "\<not> meets nonce" "search_from meets (\<lambda>_. False) threads (nonce + threads) = None"
  using assms by (subst (asm) search_from.simps, simp split: if_splits)+

lemma search_from_complete:
  "search_from meets (\<lambda>_. False) threads nonce = None \<Longrightarrow> 0 < threads \<Longrightarrow> nonce + k * threads < 2 ^ 32 \<Longrightarrow>
     \<not> meets (nonce + k * threads)"
proof (induction k arbitrary: nonce)
  case 0
  then show ?case using search_from_next(1) [OF 0(1,2)] by simp
next
  case (Suc k)
  have "search_from meets (\<lambda>_. False) threads (nonce + threads) = None"
    using search_from_next(2) [OF Suc.prems(1,2)] Suc.prems(3) by simp
  from Suc.IH [OF this Suc.prems(2)] Suc.prems(3) show ?case by (simp add: add.assoc)
qed

text \<open>A search that no thread is stopped in covers every nonce: it finds none only when none meets the
  target; and whatever it returns meets it.\<close>

lemma nonce_search_sound:
  assumes "nonce_search threads stopped input at hash target = Some n"
  shows "meets_target (hash (copy_at at (put_u32_le n) input)) target"
proof -
  let ?meets = "\<lambda>nonce. meets_target (hash (splice input at nonce)) target"
  let ?found = "List.map_filter (\<lambda>t. search_from ?meets (stopped t) threads t) [0..<threads]"
  have found: "?found \<noteq> []" "n = word_of_nat (Min (set ?found))"
    using assms by (auto simp: nonce_search_def Let_def split: if_splits)
  then have "Min (set ?found) \<in> set ?found" by (intro Min_in) auto
  then obtain t where "search_from ?meets (stopped t) threads t = Some (Min (set ?found))"
    by (auto simp: List.map_filter_def)
  from search_from_sound [OF this] show ?thesis by (simp add: splice_def found(2))
qed

lemma nonce_search_complete:
  assumes "nonce_search threads (\<lambda>_ _. False) input at hash target = None" "0 < threads"
  shows "\<not> meets_target (hash (copy_at at (put_u32_le n) input)) target"
proof -
  let ?meets = "\<lambda>nonce. meets_target (hash (splice input at nonce)) target" and ?t = "unat n mod threads"
  have "List.map_filter (\<lambda>t. search_from ?meets (\<lambda>_. False) threads t) [0..<threads] = []"
    using assms(1) by (simp add: nonce_search_def Let_def split: if_splits)
  moreover have "?t \<in> set [0..<threads]" using assms(2) by simp
  ultimately have "search_from ?meets (\<lambda>_. False) threads ?t = None"
    by (force simp: List.map_filter_def filter_empty_conv)
  from search_from_complete [OF this assms(2), of "unat n div threads"] have "\<not> ?meets (unat n)"
    using unsigned_less [of n, where 'a = nat] by simp
  then show ?thesis by (simp add: splice_def)
qed

section \<open>The miner\<close>

record miner_job =
  mj_job_id :: bytes
  mj_prevblock_hidden :: bytes
  mj_coinb1 :: bytes
  mj_coinb2 :: bytes
  mj_ntime :: bytes

record miner_state =
  mi_extranonce1 :: bytes
  mi_extranonce2_size :: nat
  mi_job :: "miner_job option"
  mi_generation :: u64

text \<open>A line read: the gateway's notify carries no coinb2 and no merkle branches.\<close>

definition read_line :: "stratum_line \<Rightarrow> miner_state \<Rightarrow> miner_state" where
  "read_line line s =
     (case line of
        Subscription en1 en2_size \<Rightarrow> s\<lparr>mi_extranonce1 := en1, mi_extranonce2_size := en2_size\<rparr>
      | Notify job_id hidden coinb1 nbits ntime clean \<Rightarrow>
          if length hidden = 32 \<and> length ntime = SIA_WORDS_LEN then
            s\<lparr>mi_job := Some \<lparr>mj_job_id = job_id, mj_prevblock_hidden = hidden, mj_coinb1 = coinb1, mj_coinb2 = [],
                mj_ntime = ntime\<rparr>, mi_generation := mi_generation s + 1\<rparr>
          else s
      | _ \<Rightarrow> s)"

definition miner_extranonce2 :: "miner_state \<Rightarrow> bytes" where
  "miner_extranonce2 s = replicate (mi_extranonce2_size s) 0x42"

definition miner_input :: "(bytes \<Rightarrow> bytes) \<Rightarrow> miner_state \<Rightarrow> miner_job \<Rightarrow> bytes option" where
  "miner_input blake s job =
     map_option (\<lambda>root. asic_input_body (mj_prevblock_hidden job) (sia_words 0 0) (mj_ntime job) root)
       (work_root_from_stratum blake (mj_coinb1 job) (mi_extranonce1 s @ miner_extranonce2 s) (mj_coinb2 job))"

definition submission :: "(bytes \<Rightarrow> bytes) \<Rightarrow> bytes \<Rightarrow> miner_state \<Rightarrow> miner_job \<Rightarrow> u32 \<Rightarrow> bytes option list" where
  "submission hex_encode user s job nonce =
     [Some user, Some (mj_job_id job), Some (hex_encode (miner_extranonce2 s)), Some (hex_encode (mj_ntime job)),
      Some (hex_encode (sia_words nonce 0))]"

text \<open>One turn of the main loop: the nonce found, if any, and what is submitted for it.\<close>

definition mine_job ::
    "(bytes \<Rightarrow> bytes) \<Rightarrow> (bytes \<Rightarrow> bytes) \<Rightarrow> nat \<Rightarrow> (nat \<Rightarrow> nat \<Rightarrow> bool) \<Rightarrow> bytes \<Rightarrow> bytes \<Rightarrow> miner_state
       \<Rightarrow> bytes option list option" where
  "mine_job blake hex_encode threads stopped target user s =
     Option.bind (mi_job s) (\<lambda>job.
     Option.bind (miner_input blake s job) (\<lambda>input.
     map_option (submission hex_encode user s job)
       (nonce_search threads stopped input ASIC_INPUT_NONCE_AT blake target)))"

definition hex_law :: "(bytes \<Rightarrow> bytes) \<Rightarrow> (bytes \<Rightarrow> bytes option) \<Rightarrow> bool" where
  "hex_law enc dec \<longleftrightarrow> (\<forall>b. length (enc b) = 2 * length b \<and> dec (enc b) = Some b)"

section \<open>The gateway checks the hash the miner found\<close>

lemma notify_line:
  assumes "notify E now r pre clean (c, g) = Some (c', g')"
  obtains h2c nbits clean' f where
    "last (sc_sent c') = Notify (notify_id pre (jb_stratum_job_id (gw_store g r))) (jb_prevblock_hidden (gw_store g r))
       (replicate COINB1_LEADING_ZEROS 0 @ h2_h2 h2c) (share_nbits (floor_log2 (max (vd_last_sent (sc_vardiff c')) 1)))
       (sia_words 0 0) clean'"
    "fst (commitment (se_sha E) (se_blake E) (prefix_coinbase pre)
       (floor_log2 (max (vd_last_sent (sc_vardiff c')) 1)) (gw_store g r)) = Some h2c"
    "gw_store g' = (gw_store g)(r := jb_commitments_update f (gw_store g r))" "gw_table g' = gw_table g"
    "gw_store g' r = snd (commitment (se_sha E) (se_blake E) (prefix_coinbase pre)
       (floor_log2 (max (vd_last_sent (sc_vardiff c')) 1)) (gw_store g r))"
    "sc_sid c' = sc_sid c"
    "pre = Quickdiff \<Longrightarrow> vd_quickdiff_value (sc_vardiff c') = vd_last_sent (sc_vardiff c')"
    "pre \<noteq> Quickdiff \<Longrightarrow> sc_job_diffs c' (jb_slot (gw_store g r)) = Some (vd_last_sent (sc_vardiff c'))"
proof -
  let ?j = "gw_store g r"
  obtain nd v where nd: "on_notify (if jb_is_datum_job ?j then gw_min_difficulty g else 0) (pre = Quickdiff) now (sc_vardiff c) = (nd, v)"
    by fastforce
  have sent: "nd_diff nd = vd_last_sent v" "pre = Quickdiff \<Longrightarrow> vd_quickdiff_value v = vd_last_sent v"
    using nd by (auto simp: on_notify_def Let_def split: prod.splits if_splits)
  obtain h2c j' where made: "commitment (se_sha E) (se_blake E) (prefix_coinbase pre) (floor_log2 (max (nd_diff nd) 1)) ?j = (h2c, j')"
    by fastforce
  then obtain f where f: "j' = jb_commitments_update f ?j" using commitment_cache by (metis snd_conv)
  show thesis
    using assms made sent unfolding notify_def nd Let_def prod.case
    by (intro that [of "the h2c" _ f])
      (auto simp: f send_line_def send_difficulty_def split: option.splits)
qed

lemma splice_nonce:
  assumes "length hidden = 32" "length ntime = 8" "length root = 32"
  shows "copy_at ASIC_INPUT_NONCE_AT (put_u32_le n) (asic_input_body hidden (sia_words 0 0) ntime root) =
    asic_input_body hidden (sia_words n 0) ntime root"
  using assms by (simp add: asic_input_body_def copy_at_def header_consts sia_words_def)

text \<open>What the hardware hashes for a header of a job, from its fields and the H2 of the header before them.\<close>

lemma job_hash_of_fields:
  assumes "hd_flags h0 = 0" "h = set_sia_fields (h0\<lparr>hd_extranonce := ext\<rparr>) (sia_words t n3) (sia_words n n2)"
  shows "job_raw_pow_hash sha blake j h = blake (asic_input_body (prevblock_hidden sha (hd_prev_block h0))
    (sia_words n n2) (sia_words t n3) (work_root blake (st_h2 (job_hash_stages sha blake j h0)) ext))"
proof -
  have h: "h = h0\<lparr>hd_extranonce := ext, hd_nonce := n, hd_nonce2 := n2, hd_time_offset := t, hd_nonce3 := n3\<rparr>"
    by (simp add: assms(2) set_sia_fields_sel)
  have "h1_preimage h k = h1_preimage h0 k" for k
    using assms(1) by (simp add: h h1_preimage_def time_on_wire_def)
  then have "st_h2 (job_hash_stages sha blake j h) = st_h2 (job_hash_stages sha blake j h0)"
    "st_work_root (job_hash_stages sha blake j h) = work_root blake (st_h2 (job_hash_stages sha blake j h0)) ext"
    by (simp_all add: job_hash_stages_def hash_stages_def hash_stages_with_key_hash_def Let_def h split: option.split)
  moreover have "asic_profile h = 0" using assms(1) by (simp add: asic_profile_def h)
  ultimately show ?thesis
    by (simp add: job_raw_pow_hash_def raw_pow_hash_def asic_input_with_def h header_consts Let_def)
qed

lemma built_job_fields:
  assumes "build_job sha c unix_now now i = Some (Inr j)"
  shows "jb_stratum_job_id j = stratum_job_id unix_now (jb_slot j)"
    and "jb_prevblock_hidden j = prevblock_hidden sha (js_prev_hash (jb_job_section j))"
  using assms by (auto simp: build_job_def Let_def bind_eq_Some_conv split: if_splits option.splits prod.splits)

lemma job_header_fields:
  assumes "job_header js v t root sub tb abw = Some h"
  shows "hd_flags h = 0" "hd_prev_block h = js_prev_hash js"
  using assms [symmetric] by (auto simp: job_header_def Let_def split: if_splits)

lemma commitment_header:
  assumes "commitments_ok sha blake j" "fst (commitment sha blake kind tb j) = Some h2c"
  shows "hd_flags (h2_header h2c) = 0" "hd_prev_block (h2_header h2c) = js_prev_hash (jb_job_section j)"
    and "st_h2 (job_hash_stages sha blake j (h2_header h2c)) = h2_h2 h2c"
proof -
  have "fresh_commitment sha blake j kind tb = Some h2c" using commitment_fresh(1) [OF assms(1)] assms(2) by simp
  then obtain v t root sub abw where made: "job_header (jb_job_section j) v t root sub tb abw = Some (h2_header h2c)"
    "h2_h2 h2c = st_h2 (job_hash_stages sha blake j (h2_header h2c))"
    by (rule fresh_commitment_Some)
  show "hd_flags (h2_header h2c) = 0" "hd_prev_block (h2_header h2c) = js_prev_hash (jb_job_section j)"
    using job_header_fields [OF made(1)] by simp_all
  show "st_h2 (job_hash_stages sha blake j (h2_header h2c)) = h2_h2 h2c" using made(2) by simp
qed

lemma length_st_h2: "hash32 sha \<Longrightarrow> length (st_h2 (job_hash_stages sha blake j h)) = 32"
  by (simp add: job_hash_stages_def hash_stages_def hash_stages_with_key_hash_def Let_def length_tagged_sha256 split: option.split)

lemma length_extranonce1 [simp]: "length (extranonce1 c) = EXTRANONCE1_SIZE"
  by (simp add: extranonce1_def EXTRANONCE1_SIZE_def to_be_bytes_u32_def)

text \<open>The work of a miner that was notified, as a function of the lines it read.\<close>

lemma mine_job_notified:
  assumes "length hidden = 32" "length h2 = 32" "length ext1 = EXTRANONCE1_SIZE"
    and "s = read_line (Notify jid hidden (replicate COINB1_LEADING_ZEROS 0 @ h2) nbits (sia_words 0 0) clean)
      (read_line (Subscription ext1 EXTRANONCE2_SIZE) s0)"
  shows "mine_job blake hex_encode threads stopped target user s =
    map_option (\<lambda>n. [Some user, Some jid, Some (hex_encode (replicate EXTRANONCE2_SIZE 0x42)),
        Some (hex_encode (sia_words 0 0)), Some (hex_encode (sia_words n 0))])
      (nonce_search threads stopped
        (asic_input_body hidden (sia_words 0 0) (sia_words 0 0) (work_root blake h2 (ext1 @ replicate EXTRANONCE2_SIZE 0x42)))
        ASIC_INPUT_NONCE_AT blake target)"
proof -
  let ?ext = "ext1 @ replicate EXTRANONCE2_SIZE 0x42"
  have "length ?ext = 16" by (simp add: assms(3) EXTRANONCE2_SIZE_def EXTRANONCE1_SIZE_def share_sizes)
  note root = work_root_agrees [OF assms(2) this]
  have "mi_job s = Some \<lparr>mj_job_id = jid, mj_prevblock_hidden = hidden, mj_coinb1 = replicate COINB1_LEADING_ZEROS 0 @ h2,
      mj_coinb2 = [], mj_ntime = sia_words 0 0\<rparr>" "mi_extranonce1 s = ext1" "mi_extranonce2_size s = EXTRANONCE2_SIZE"
    using assms(1) by (simp_all add: assms(4) read_line_def sia_words_def SIA_WORDS_LEN_def SIA_WORD_LEN_def)
  then show ?thesis
    using root by (cases "nonce_search threads stopped (asic_input_body hidden (sia_words 0 0) (sia_words 0 0)
        (work_root blake h2 ?ext)) ASIC_INPUT_NONCE_AT blake target")
      (auto simp: mine_job_def miner_input_def miner_extranonce2_def submission_def)
qed

text \<open>A submission made for the line the connection was last notified by parses to a request for the same
  job at the difficulty announced.\<close>

lemma submission_parses:
  assumes "hex_law hex_encode (se_hex_decode E)" "length en2 = EXTRANONCE2_SIZE" "length ntime = SIA_WORDS_LEN"
    and "table_at slot (gw_table g) = Some r" "jb_stratum_job_id (gw_store g r) = stratum_job_id at slot"
    and "served_diff \<lparr>ni_slot = slot, ni_prefix = pre\<rparr> c = Some diff"
  shows "parse_submit E [Some user, Some (notify_id pre (stratum_job_id at slot)), Some (hex_encode en2),
      Some (hex_encode ntime), Some (hex_encode (sia_words n 0))] c g =
    Inr \<lparr>sr_job = r, sr_job_diff = diff, sr_notify_id = \<lparr>ni_slot = slot, ni_prefix = pre\<rparr>,
      sr_extranonce = extranonce1 c @ en2, sr_sia_ntime = ntime, sr_sia_nonce = sia_words n 0,
      sr_miner_username = takeWhile (\<lambda>b. b \<noteq> 0) user\<rparr>"
  using assms
  by (simp add: parse_submit_def str_param_def notify_id_reads_back parse_sia_field_def hex_law_def username_param_def
      SIA_WORDS_LEN_def SIA_WORD_LEN_def sia_words_def Let_def)

text \<open>C10: what a miner finds is what the gateway checks.  A connection is notified of a job built from a
  template; the miner reads the subscription and the notify, searches the nonces of the hardware's input,
  which it makes from these lines alone, and submits what it finds.  The submission names that job, at the
  difficulty whose compact target the notify stated, and the header the gateway rebuilds from it hashes to
  the hash the miner found: whatever target the miner searched for, the gateway's hash meets it.\<close>

theorem miner_work_is_checked:
  assumes built: "build_job (se_sha E) jc unix_now at i = Some (Inr j)" "same_job j (gw_store g r)"
    and store: "commitments_ok (se_sha E) (se_blake E) (gw_store g r)" "table_at (jb_slot j) (gw_table g) = Some r"
    and hashes: "hash32 (se_sha E)" "hash32 (se_blake E)" "hex_law hex_encode (se_hex_decode E)"
    and notified: "notify E now r pre clean (c, g) = Some (c', g')" "0 < vd_last_sent (sc_vardiff c')"
    and miner: "s = read_line (last (sc_sent c')) (read_line (Subscription (extranonce1 c) EXTRANONCE2_SIZE) s0)"
      "mine_job (se_blake E) hex_encode threads stopped target user s = Some params"
  shows "\<exists>req header id hidden coinb1 ntime clean'. parse_submit E params c' g' = Inr req \<and> sr_job req = r \<and>
    last (sc_sent c') = Notify id hidden coinb1 (share_nbits (floor_log2 (sr_job_diff req))) ntime clean' \<and>
    fst (job_header_for (se_sha E) (se_blake E) (prefix_coinbase (ni_prefix (sr_notify_id req)))
      (floor_log2 (sr_job_diff req)) (sr_extranonce req) (sr_sia_ntime req) (sr_sia_nonce req) (gw_store g' r)) = Some header \<and>
    meets_target (job_raw_pow_hash (se_sha E) (se_blake E) (gw_store g' r) header) target"
proof -
  let ?job = "gw_store g r" and ?diff = "vd_last_sent (sc_vardiff c')"
  obtain h2c clean' f where line: "last (sc_sent c') = Notify (notify_id pre (jb_stratum_job_id ?job)) (jb_prevblock_hidden ?job)
       (replicate COINB1_LEADING_ZEROS 0 @ h2_h2 h2c) (share_nbits (floor_log2 (max ?diff 1))) (sia_words 0 0) clean'"
    and made: "fst (commitment (se_sha E) (se_blake E) (prefix_coinbase pre) (floor_log2 (max ?diff 1)) ?job) = Some h2c"
    and g': "gw_store g' = (gw_store g)(r := jb_commitments_update f ?job)" "gw_table g' = gw_table g"
      "gw_store g' r = snd (commitment (se_sha E) (se_blake E) (prefix_coinbase pre) (floor_log2 (max ?diff 1)) ?job)"
      "sc_sid c' = sc_sid c"
    and served: "pre = Quickdiff \<Longrightarrow> vd_quickdiff_value (sc_vardiff c') = ?diff"
      "pre \<noteq> Quickdiff \<Longrightarrow> sc_job_diffs c' (jb_slot ?job) = Some ?diff"
    by (rule notify_line [OF notified(1)]) blast
  have diff: "max ?diff 1 = ?diff" using notified(2) by (auto simp: max_def word_le_nat_alt word_less_nat_alt word_unat_eq_iff)
  obtain b cache where job: "?job = j\<lparr>jb_stale_prevblock := b, jb_commitments := cache\<rparr>"
    using built(2) by (auto simp: same_job_def)
  have fields: "jb_stratum_job_id ?job = stratum_job_id unix_now (jb_slot j)" "jb_slot ?job = jb_slot j"
    "jb_prevblock_hidden ?job = prevblock_hidden (se_sha E) (js_prev_hash (jb_job_section ?job))"
    using built_job_fields [OF built(1)] by (simp_all add: job)
  note header = commitment_header [OF store(1) made]
  have lens: "length (jb_prevblock_hidden ?job) = 32" "length (h2_h2 h2c) = 32"
    using length_prevblock_hidden [OF hashes(1)] length_st_h2 [OF hashes(1)] header(3) fields(3) by metis+
  have en: "extranonce1 c' = extranonce1 c" by (simp add: extranonce1_def g'(4))
  let ?en2 = "replicate EXTRANONCE2_SIZE (0x42 :: u8)" and ?ext = "extranonce1 c @ replicate EXTRANONCE2_SIZE 0x42"
  let ?root = "work_root (se_blake E) (h2_h2 h2c) ?ext"
  obtain n where n: "nonce_search threads stopped (asic_input_body (jb_prevblock_hidden ?job) (sia_words 0 0) (sia_words 0 0) ?root)
      ASIC_INPUT_NONCE_AT (se_blake E) target = Some n"
    and params: "params = [Some user, Some (notify_id pre (stratum_job_id unix_now (jb_slot j))), Some (hex_encode ?en2),
      Some (hex_encode (sia_words 0 0)), Some (hex_encode (sia_words n 0))]"
    using miner(2) mine_job_notified [OF lens length_extranonce1 miner(1) [unfolded line]] by (auto simp: fields(1))
  have "length ?root = 32" using hashes(2) by (simp add: work_root_def hash32_def)
  then have found: "meets_target (se_blake E (asic_input_body (jb_prevblock_hidden ?job) (sia_words n 0) (sia_words 0 0) ?root)) target"
    using nonce_search_sound [OF n] splice_nonce [OF lens(1)] by (simp add: sia_words_def)
  have "parse_submit E params c' g' = Inr \<lparr>sr_job = r, sr_job_diff = ?diff, sr_notify_id = \<lparr>ni_slot = jb_slot j, ni_prefix = pre\<rparr>,
      sr_extranonce = extranonce1 c' @ ?en2, sr_sia_ntime = sia_words 0 0, sr_sia_nonce = sia_words n 0,
      sr_miner_username = takeWhile (\<lambda>b. b \<noteq> 0) user\<rparr>" (is "_ = Inr ?req")
    unfolding params
    by (rule submission_parses [OF hashes(3)])
      (use served notified(2) in \<open>auto simp: g'(1,2) store(2) fields served_diff_def sia_words_def SIA_WORDS_LEN_def SIA_WORD_LEN_def\<close>)
  moreover
  let ?h = "set_sia_fields ((h2_header h2c)\<lparr>hd_extranonce := ?ext\<rparr>) (sia_words 0 0) (sia_words n 0)"
  have "fst (commitment (se_sha E) (se_blake E) (prefix_coinbase pre) (floor_log2 ?diff) (gw_store g' r)) = Some h2c"
  proof -
    note fresh = commitment_fresh [OF store(1), of "prefix_coinbase pre" "floor_log2 ?diff"]
    have "fresh_commitment (se_sha E) (se_blake E) (gw_store g' r) = fresh_commitment (se_sha E) (se_blake E) ?job"
      by (simp add: g'(1))
    then show ?thesis using commitment_fresh(1) [OF fresh(2)] fresh(1) made by (simp add: g'(3) diff)
  qed
  then have "fst (job_header_for (se_sha E) (se_blake E) (prefix_coinbase pre) (floor_log2 ?diff) (extranonce1 c' @ ?en2)
      (sia_words 0 0) (sia_words n 0) (gw_store g' r)) = Some ?h"
    by (simp add: job_header_for_def en case_prod_beta)
  moreover have "job_raw_pow_hash (se_sha E) (se_blake E) (gw_store g' r) ?h =
      se_blake E (asic_input_body (jb_prevblock_hidden ?job) (sia_words n 0) (sia_words 0 0) ?root)"
  proof -
    have "job_raw_pow_hash (se_sha E) (se_blake E) (gw_store g' r) = job_raw_pow_hash (se_sha E) (se_blake E) ?job"
      by (simp add: g'(1) fun_eq_iff job_raw_pow_hash_def)
    then show ?thesis using job_hash_of_fields [OF header(1) refl] header(2,3) fields(3) by simp
  qed
  ultimately show ?thesis
    using found line by (intro exI [of _ ?req] exI [of _ ?h]) (simp add: diff)
qed

text \<open>A miner whose first nonce is found, with the hexadecimal digits of \<open>Notify_Id\<close>.\<close>

definition hex_text :: "bytes \<Rightarrow> bytes" where
  "hex_text b = concat (map (\<lambda>x. hex_fixed 2 (unat x)) b)"

fun hex_bytes :: "bytes \<Rightarrow> bytes option" where
  "hex_bytes [] = Some []"
| "hex_bytes [_] = None"
| "hex_bytes (a # b # s) =
     Option.bind (hex_digit a) (\<lambda>x. Option.bind (hex_digit b) (\<lambda>y.
       map_option (Cons (word_of_nat (16 * x + y))) (hex_bytes s)))"

lemma hex_law_holds: "hex_law hex_text hex_bytes"
proof -
  have "length (hex_text b) = 2 * length b \<and> hex_bytes (hex_text b) = Some b" for b
  proof (induction b)
    case (Cons x b)
    have "unat x div 16 < 16" using unsigned_less [of x, where 'a = nat] by simp
    moreover have "16 * word_of_nat (unat x div 16) + word_of_nat (unat x mod 16) = x"
    proof -
      have "(16 * word_of_nat (unat x div 16) + word_of_nat (unat x mod 16) :: u8) = word_of_nat (16 * (unat x div 16) + unat x mod 16)"
        by (simp only: of_nat_add of_nat_mult of_nat_numeral)
      then show ?thesis by (simp only: mult_div_mod_eq) simp
    qed
    moreover have "hex_fixed 2 (unat x) = [hex_char (unat x div 16 mod 16), hex_char (unat x mod 16)]"
      by (simp add: numeral_2_eq_2)
    ultimately show ?case using Cons by (simp add: hex_text_def hex_char_digit)
  qed (simp add: hex_text_def)
  then show ?thesis by (simp add: hex_law_def)
qed

theorem miner_work_is_checked_witness:
  "\<exists>(E :: unit stratum_env) j g c' g' s params req. build_job (se_sha E) sample_job_config 9 0 (job_inputs_new 261 sample_template) = Some (Inr j) \<and>
     gw_store g 0 = j \<and> notify E 0 0 Plain False (sample_miner, g) = Some (c', g') \<and>
     mine_job (se_blake E) hex_text 1 (\<lambda>_ _. False) (replicate 32 0) [] s = Some params \<and>
     parse_submit E params c' g' = Inr req"
proof -
  define E where "E = sample_env\<lparr>se_hex_decode := hex_bytes\<rparr>"
  have hashes: "hash32 (se_sha E)" "hash32 (se_blake E)" "hex_law hex_text (se_hex_decode E)"
    by (simp_all add: E_def sample_env_def hash32_def hex_law_holds)
  have "sample_template\<lparr>tp_txns := []\<rparr> = sample_template" by (simp add: sample_template_def)
  then obtain j where j: "build_job (se_sha E) sample_job_config 9 0 (job_inputs_new 261 sample_template) = Some (Inr j)"
    using sample_build [of "se_sha E" "[]" "[]"] by (auto simp: merkle_branches_def)
  have cached: "jb_commitments j = (\<lambda>_. None)" by (rule build_job_parts [OF j])
  let ?g = "sample_gateway\<lparr>gw_store := \<lambda>_. j, gw_table := (gw_table sample_gateway)\<lparr>jt_slots := replicate 256 (Some 0)\<rparr>\<rparr>"
  obtain c' g' where notified: "notify E 0 0 Plain False (sample_miner, ?g) = Some (c', g')" "0 < vd_last_sent (sc_vardiff c')"
  proof -
    obtain nd v where nd: "on_notify (if jb_is_datum_job j then gw_min_difficulty ?g else 0) False 0 (sc_vardiff sample_miner) = (nd, v)"
      by fastforce
    then have "0 < vd_last_sent v"
      by (auto simp: on_notify_def sample_miner_def vardiff_new_def adjust_on_notify_def change_pending_def mark_sent_def
          Let_def max_def word_less_nat_alt word_le_nat_alt split: if_splits)
    moreover obtain h2c where "fst (commitment (se_sha E) (se_blake E) Pooled (floor_log2 (max (nd_diff nd) 1)) j) = Some h2c"
    proof -
      obtain tx where "full_coinbase j Pooled (floor_log2 (max (nd_diff nd) 1)) = Some tx" using built_full_coinbase [OF j] by blast
      moreover have "unat (js_txn_count (jb_job_section j)) < 65535"
        by (simp add: built_count [OF j] job_inputs_new_def sample_template_def as_u32_def)
      ultimately show thesis using that cached by (fastforce simp: commitment_def job_header_def Let_def)
    qed
    ultimately show thesis
      using nd by (intro that) (auto simp: notify_def Let_def case_prod_beta send_line_def send_difficulty_def split: option.splits)
  qed
  have table: "table_at (jb_slot j) (gw_table ?g) = Some 0"
    using unsigned_less [of "jb_slot j", where 'a = nat] by (simp add: table_at_def)
  have store: "commitments_ok (se_sha E) (se_blake E) (gw_store ?g 0)" by (simp add: cached commitments_ok_def)
  define s where "s = read_line (last (sc_sent c')) (read_line (Subscription (extranonce1 sample_miner) EXTRANONCE2_SIZE)
    \<lparr>mi_extranonce1 = [], mi_extranonce2_size = 0, mi_job = None, mi_generation = 0\<rparr>)"
  obtain params where params: "mine_job (se_blake E) hex_text 1 (\<lambda>_ _. False) (replicate 32 0) [] s = Some params"
  proof -
    obtain h2c nbits clean' where line: "last (sc_sent c') = Notify (notify_id Plain (jb_stratum_job_id j)) (jb_prevblock_hidden j)
        (replicate COINB1_LEADING_ZEROS 0 @ h2_h2 h2c) nbits (sia_words 0 0) clean'"
      and made: "fst (commitment (se_sha E) (se_blake E) Pooled (floor_log2 (max (vd_last_sent (sc_vardiff c')) 1)) j) = Some h2c"
      by (rule notify_line [OF notified(1)]) auto
    have "commitments_ok (se_sha E) (se_blake E) j" by (simp add: cached commitments_ok_def)
    then have "length (h2_h2 h2c) = 32"
      using length_st_h2 [OF hashes(1)] commitment_header(3) made by metis
    moreover have "length (jb_prevblock_hidden j) = 32"
      by (simp add: built_job_fields(2) [OF j] length_prevblock_hidden [OF hashes(1)])
    ultimately
    have mined: "mine_job (se_blake E) hex_text 1 (\<lambda>_ _. False) (replicate 32 0) [] s =
      map_option (\<lambda>n. [Some [], Some (notify_id Plain (jb_stratum_job_id j)), Some (hex_text (replicate EXTRANONCE2_SIZE 0x42)),
          Some (hex_text (sia_words 0 0)), Some (hex_text (sia_words n 0))])
        (nonce_search 1 (\<lambda>_ _. False) (asic_input_body (jb_prevblock_hidden j) (sia_words 0 0) (sia_words 0 0)
          (work_root (se_blake E) (h2_h2 h2c) (extranonce1 sample_miner @ replicate EXTRANONCE2_SIZE 0x42)))
          ASIC_INPUT_NONCE_AT (se_blake E) (replicate 32 0))"
      by (intro mine_job_notified [OF _ _ length_extranonce1 s_def [unfolded line]])
    have "search_from (\<lambda>nonce. meets_target (se_blake E (splice input ASIC_INPUT_NONCE_AT nonce)) (replicate 32 0)) stopped 1 0 = Some 0"
      for input stopped
      by (subst search_from.simps) (simp add: E_def sample_env_def meets_target_def bytes_le_zero)
    then show thesis using that unfolding mined by (simp add: nonce_search_def List.map_filter_def)
  qed
  have "same_job j (gw_store ?g 0)" by simp
  from miner_work_is_checked [OF j this store table hashes notified s_def params]
  obtain req where "parse_submit E params c' g' = Inr req" by blast
  then show ?thesis
    using notified(1) params j
    by (intro exI [of _ E] exI [of _ j] exI [of _ ?g] exI [of _ c'] exI [of _ g'] exI [of _ s] exI [of _ params] exI [of _ req])
      simp
qed

end
