(* ===== verification/Spec2Isabelle.thy ===== *)
theory Spec2Isabelle
  imports Prelude Reader Bitcoin Target Header Framing Channel Channel_Auth Bulk Sort_By Split Window Bounded
    Script Transaction Messages Responses Share_Msg Coinbase Config_Msg Notify_Id Job Abw_Pool
    Verify Verify_Pay Verify_Jobs Trim Store Claims Ledger Group_Commit Blocks Address Payouts Accounting
    Validation Act Relay Sessions Share_Flow Share_Answers Share_Tally Connection Turns Pool_Run Credited_Run
    Expiry Job_Table Replies Vardiff Usernames Stratum Miner_Shares Submissions Found_Block Miner
begin

text \<open>
  A verification library of ratum, a mining pool and its gateways in Rust.  A pool (prime/) hands work to
  gateways over the encrypted DATUM protocol; a gateway (gateway/) builds jobs from its own node's block
  templates, serves them to miners over stratum and forwards the miners' shares; the pool rebuilds and
  checks each share, records it in a ledger, and dictates how the next block's value is split over the
  work the ledger's window holds.  core/ is what both sides share, and miner/ a test miner.

  \<^bold>\<open>The theories and the code.\<close>  Definitions carry the code's names, or a name beside a HOL constant's;
  PROJECT.json maps each to its lines.

  \<^item> Shared vocabulary.  \<open>Prelude\<close>: machine integers as words, byte fields, results as sums with \<open>bindr\<close>
    and \<open>tryq\<close>, where \<open>tryq\<close> also threads the panic \<open>None\<close>.  \<open>Sort_By\<close>: \<open>slice::sort_by\<close>.
  \<^item> Bytes and proof of work (core/src).  \<open>Reader\<close> (reader.rs), \<open>Bitcoin\<close> (bitcoin.rs), \<open>Target\<close>
    (target.rs), \<open>Header\<close> (header.rs), \<open>Script\<close>, \<open>Transaction\<close> and \<open>Address\<close> (bitcoin/, username.rs).
  \<^item> The wire (core/src/datum).  \<open>Framing\<close>, \<open>Channel\<close> (keys.rs, channel.rs, handshake.rs, client.rs,
    server.rs) with \<open>Channel_Auth\<close> on what a carrier of its frames can do, \<open>Bulk\<close>, \<open>Messages\<close>, \<open>Responses\<close>, \<open>Share_Msg\<close>, \<open>Config_Msg\<close>, \<open>Validation\<close> (with
    siphash.rs) and \<open>Coinbase\<close>.
  \<^item> The gateway (gateway/src).  \<open>Notify_Id\<close>, \<open>Job\<close> (job.rs, job/builder.rs), \<open>Job_Table\<close> (the table of
    job.rs), \<open>Replies\<close> (datum/validation_replies.rs), \<open>Vardiff\<close>, \<open>Usernames\<close>, \<open>Stratum\<close> (stratum/connection.rs
    and its shares.rs, seen_shares.rs, tally.rs, submit_block.rs), \<open>Submissions\<close> (the phases of a miner's
    submission, interleaved), and what follows of them: \<open>Miner_Shares\<close> and \<open>Found_Block\<close>.  \<open>Miner\<close> is core/src/nonce.rs and miner/src/main.rs.
  \<^item> The pool's ledger (prime/src).  \<open>Split\<close>, \<open>Window\<close>, \<open>Trim\<close>, \<open>Store\<close>, \<open>Ledger\<close>, \<open>Group_Commit\<close>, \<open>Blocks\<close>,
    \<open>Payouts\<close>, \<open>Accounting\<close>, \<open>Claims\<close> and \<open>Bounded\<close>.
  \<^item> The pool's connections (prime/src).  \<open>Abw_Pool\<close> (abw.rs), \<open>Verify\<close> with \<open>Verify_Pay\<close> and \<open>Verify_Jobs\<close>
    (verify.rs, verify/), \<open>Relay\<close> (relay.rs, txns.rs), \<open>Sessions\<close>, \<open>Share_Flow\<close> (connection/shares.rs) in the
    state and panic monad of \<open>Act\<close>, \<open>Connection\<close> (connection.rs, connection/assignments.rs), and what they
    keep: \<open>Share_Answers\<close>, \<open>Share_Tally\<close>, \<open>Turns\<close>, \<open>Expiry\<close>, \<open>Pool_Run\<close> and its example \<open>Credited_Run\<close>.

  \<^bold>\<open>State and interaction.\<close>  A struct is a record and a method a function that returns it updated.  Threads
  are step relations: \<open>gc_run\<close> interleaves the critical sections of the group commit, \<open>ledger_run\<close> the ledger's
  operations with its re-reads and crashes, \<open>table_run\<close> the threads that publish jobs, \<open>gateway_run\<close> these
  with the connections of the miners, whose submissions go phase by phase (the lookup, the header, the block,
  the stale flag, the clock, the hashes seen, the queue, the reply), any thread running between two phases, \<open>verifier_run\<close> the checks of a connection, \<open>pool_run\<close> the turns of all
  connections of the pool with what they share.  A connection carries a trace of what it sent and did, which
  nothing of the model reads and the theorems speak of.

  \<^bold>\<open>Interfaces.\<close>  A locale states each contract, and its interpretation discharges it on the model:
  \<open>forgetful_map\<close> (a map that forgets its oldest entry; on \<open>Bounded\<close>), \<open>in_step\<close> (a sender and a receiver
  whose states keep matching; on the masked headers), \<open>wire_codes\<close> (the enums of a wire
  field), \<open>packed_table\<close> (a record and its row in the ledger's file), \<open>comparison\<close> (the orders given to
  \<open>sort_by\<close>), \<open>quiet\<close>, \<open>share_invariant\<close>, \<open>unanswered\<close> and \<open>turn_invariant\<close> (what the steps that handle a share,
  and a turn, keep) and \<open>pool_invariant\<close> (what a connection keeps whatever the others do).

  \<^bold>\<open>What the lemmas show.\<close>  The wire: encoders and decoders are inverse, decoders total, and a stream is
  delivered whole and in order; under a box no carrier can forge, an end takes on the channel what the other
  boxed, in order and once, whatever frames are presented.  Work: the coinbase a gateway builds is one the
  pool accepts and fits its block; the pool rebuilds the header a gateway mined; a miner's work is what the
  gateway checks, a share accepted is on the tip served, meets its target and is accepted once, and a block
  goes to the nodes whole.  The pool: an accepted share is what it is credited for, no share panics the
  checks or is answered twice, holdings stay bounded, keys are disclosed late and only after the shares they
  would expose.  The ledger: the window is the newest shares of the file in every interleaving, its weights
  total it, the split pays exactly the value, and no record is lost or counted twice by commits,
  duplicates, crashes and restarts.

  \<^bold>\<open>Parameters, bounds and fuel.\<close>  SHA-256, BLAKE2b, the box and signature primitives, redb, bech32, base58
  and hex are arguments, with the documented laws they are used under (\<open>hash32\<close>, \<open>crypto_ok\<close>, \<open>redb_ok\<close>,
  \<open>codec_roundtrips\<close>, \<open>hex_law\<close>); nothing is assumed of collisions.  The node, the clocks and the sockets
  answer through the record \<open>world\<close>, read at the count of the questions asked, so that two readings may differ.
  \<open>usize\<close> lengths are natural numbers, other integers words unless a theory says otherwise.  Loops are
  structural or end by a measure; the one with fuel, the expiry of transaction requests, is matched with a
  relation \<open>expires\<close> without fuel: every run of it ends, within as many turns as there were requests, with
  the outcome the fuelled loop computes and no overdue request left (\<open>expiry_ends\<close>).

  \<^bold>\<open>Not modelled.\<close>  Floating point (the hashrates, the difficulty in text, the check that a value is
  plausible, the request budget and the username proportions, the last three as parameters); JSON, HTTP, the
  API and admin pages, configuration files, logs and statistics; sockets and polling; key generation; the
  loops that poll the node and drive the gateway's session with the pool.  A turn of a pool connection is one
  step: locks taken and released within one are not interleaved, save in \<open>Group_Commit\<close> and the ledger's
  re-reads, where the code gives the lock up half way.  \<open>evaluate\<close> of \<open>Stratum\<close> is a submission no thread
  interrupts; \<open>evaluate_uninterrupted\<close> shows it to be the phases of \<open>Submissions\<close> run in a row, and the
  properties on blocks found speak of it.  The deferred write of a retention (store.rs) is modelled as a
  durable one; that a crash may lose it is a step of \<open>ledger_run\<close>.
\<close>

end
